(* ===== verification/Prelude.thy ===== *)
theory Prelude
  imports Main "HOL-Library.Word" "HOL-Library.Multiset" "HOL-Library.Signed_Division"
begin

text \<open>
  Shared vocabulary of the development: the C integer types of the handler, addresses,
  the fixed sizes of the headers, and the generic lemmas on lists and on singly linked
  lists in a store that the components share.

  Conventions. \<open>LONG\<close> and \<open>int\<close> are signed and their overflow is undefined in C, so
  they are HOL's \<open>int\<close>; unsigned types whose wrap-around the code relies on are words.
  An operation that may dereference NULL, index outside an array or never return has an
  \<open>option\<close> result: \<open>None\<close> stands for all three, so a lemma that an operation is
  \<open>Some \<dots>\<close> is a memory-safety and termination statement.
\<close>

unbundle bit_operations_syntax

type_synonym u8 = "8 word"
type_synonym u16 = "16 word"
type_synonym u32 = "32 word"
type_synonym addr = nat

abbreviation (input) NULL :: addr where "NULL \<equiv> 0"

abbreviation MBUFSIZE :: int where "MBUFSIZE \<equiv> 8192"
abbreviation NFS_MAXDATA :: u32 where "NFS_MAXDATA \<equiv> 8192"
abbreviation WBUFHDRINFOSIZE :: nat where "WBUFHDRINFOSIZE \<equiv> 59"
abbreviation RBUFFERLIMIT :: int where "RBUFFERLIMIT \<equiv> 2048"

named_theorems inv_defs \<open>definitions of the component invariants\<close>
named_theorems op_defs \<open>definitions of the operations, for unfolding a concrete run\<close>

subsection \<open>Binding in the option type\<close>

lemma sdiv_nonneg: "0 \<le> (a::int) \<Longrightarrow> 0 < b \<Longrightarrow> a sdiv b = a div b" "0 \<le> (a::int) \<Longrightarrow> 0 < b \<Longrightarrow> a smod b = a mod b"
  by (auto simp: signed_divide_int_def signed_modulo_int_def sgn_if minus_div_mult_eq_mod)

lemma bind_Some_conv [simp]:
  "Option.bind m f = Some y \<longleftrightarrow> (\<exists>x. m = Some x \<and> f x = Some y)"
  by (cases m) auto

lemma bind_eq_Some_I: "m = Some x \<Longrightarrow> f x = r \<Longrightarrow> Option.bind m f = r"
  by simp

subsection \<open>Lists\<close>

lemma take_Suc_last: "i < length xs \<Longrightarrow> take (Suc i) xs = take i xs @ [xs ! i]"
  by (rule take_Suc_conv_app_nth)

lemma split_at_nth: "i < length xs \<Longrightarrow> xs = take i xs @ xs ! i # drop (Suc i) xs"
  by (rule id_take_nth_drop)

lemma take_take_min [simp]: "i \<le> n \<Longrightarrow> take i (take n xs) = take i xs"
  by (simp add: min_absorb1)

text \<open>\<open>memmove\<close> on an array kept as a list: \<open>n\<close> cells from index \<open>s\<close> to index \<open>d\<close>;
  \<open>None\<close> when a cell outside the array would be read or written.\<close>

definition memmove_arr :: "nat \<Rightarrow> nat \<Rightarrow> nat \<Rightarrow> 'a list \<Rightarrow> 'a list option" where
  "memmove_arr d s n a =
     (if d + n \<le> length a \<and> s + n \<le> length a
      then Some (take d a @ take n (drop s a) @ drop (d + n) a) else None)"

lemma length_memmove_arr: "memmove_arr d s n a = Some b \<Longrightarrow> length b = length a"
  by (auto simp: memmove_arr_def split: if_splits)

subsection \<open>Singly linked lists in a store\<close>

text \<open>\<open>chain nxt p as q\<close>: following \<open>nxt\<close> from \<open>p\<close> visits the addresses \<open>as\<close>, none of
  them NULL, and ends at \<open>q\<close>.\<close>

fun chain :: "(addr \<Rightarrow> addr) \<Rightarrow> addr \<Rightarrow> addr list \<Rightarrow> addr \<Rightarrow> bool" where
  "chain nxt p [] q \<longleftrightarrow> p = q"
| "chain nxt p (a # as) q \<longleftrightarrow> p = a \<and> a \<noteq> NULL \<and> chain nxt (nxt a) as q"

lemma chain_append:
  "chain nxt p (as @ bs) q \<longleftrightarrow> (\<exists>m. chain nxt p as m \<and> chain nxt m bs q)"
  by (induction as arbitrary: p) auto

lemma chain_not_NULL: "chain nxt p as q \<Longrightarrow> a \<in> set as \<Longrightarrow> a \<noteq> NULL"
  by (induction as arbitrary: p) auto

lemma chain_frame:
  "chain nxt p as q \<Longrightarrow> (\<And>a. a \<in> set as \<Longrightarrow> nxt' a = nxt a) \<Longrightarrow> chain nxt' p as q"
  by (induction as arbitrary: p) auto

lemma chain_cong: "(\<And>a. a \<in> set as \<Longrightarrow> nxt' a = nxt a) \<Longrightarrow> chain nxt' p as q = chain nxt p as q"
  using chain_frame by metis

lemma chain_upd_other [simp]:
  "a \<notin> set as \<Longrightarrow> chain (nxt(a := b)) p as q = chain nxt p as q"
  by (rule chain_cong) auto

lemma chain_NULL_hd: "chain nxt p as NULL \<Longrightarrow> p = (if as = [] then NULL else hd as)"
  by (cases as) auto

lemma chain_NULL_Nil: "chain nxt p as NULL \<Longrightarrow> p = NULL \<longleftrightarrow> as = []"
  by (cases as) auto

lemma chain_snoc:
  "chain nxt p (as @ [a]) q \<longleftrightarrow> chain nxt p as a \<and> a \<noteq> NULL \<and> nxt a = q"
  by (auto simp: chain_append)

lemma chain_middle:
  "chain nxt p (as @ a # bs) q \<longleftrightarrow>
     chain nxt p as a \<and> a \<noteq> NULL \<and> chain nxt (nxt a) bs q"
  by (auto simp: chain_append)

text \<open>Inserting a fresh cell \<open>n\<close> behind a cell \<open>a\<close> of the list.\<close>

lemma chain_insert_after:
  assumes "chain nxt p (as @ a # bs) q" and "distinct (as @ a # bs)"
    and "n \<noteq> NULL" and "n \<notin> set (as @ a # bs)"
  shows "chain (nxt(n := nxt a, a := n)) p (as @ a # n # bs) q"
proof -
  have "chain (nxt(n := nxt a, a := n)) p as a" "a \<noteq> NULL"
    "chain (nxt(n := nxt a, a := n)) (nxt a) bs q" "n \<noteq> a"
    using assms by (auto simp: chain_middle)
  then show ?thesis using assms(3) by (auto simp: chain_middle)
qed

end
