(* ===== verification/WInfo.thy ===== *)
theory WInfo
  imports Prelude
begin

text \<open>
  The dirty-interval table of one write buffer (\<open>WBUFHDRINFO\<close> and the functions
  \<open>WBufDoMelt\<close>, \<open>WBufUpdateInfo\<close> of src/src/wbuf.c). A buffer of \<open>MBUFSIZE\<close> bytes records
  in a fixed array which of its bytes have been written, as inclusive intervals. The
  theory shows that the table stays sorted with gaps between its intervals, that an
  update covers exactly the old bytes and the new ones, and that the in-place code with
  its \<open>memmove\<close>s equals the textbook interval insertion.
\<close>

subsection \<open>The table and its updates\<close>

record wbufhdrinfo =
  wbi_From :: int
  wbi_To :: int

definition IsInclBetween :: "int \<Rightarrow> int \<Rightarrow> int \<Rightarrow> bool" where
  "IsInclBetween n low high \<longleftrightarrow> low \<le> n \<and> n \<le> high"

text \<open>The scan of \<open>WBufDoMelt\<close>: the last cell that the new interval may reach.\<close>

function melt_scan :: "wbufhdrinfo list \<Rightarrow> nat \<Rightarrow> int \<Rightarrow> nat \<Rightarrow> nat" where
  "melt_scan a num To i =
     (if i + 1 < num \<and> To > wbi_To (a ! i) then melt_scan a num To (i + 1) else i)"
  by pat_completeness auto
termination
  by (relation "measure (\<lambda>(a, num, To, i). num - i)") auto

declare melt_scan.simps [simp del]

text \<open>\<open>w\<close> is the index of \<open>wbi\<close> in the array; the result is the new \<open>wbh_NumInfo\<close> and array.\<close>

definition WBufDoMelt ::
  "nat \<Rightarrow> wbufhdrinfo list \<Rightarrow> nat \<Rightarrow> int \<Rightarrow> int \<Rightarrow> (nat \<times> wbufhdrinfo list) option" where
  "WBufDoMelt num a w Offs To =
     (let i0 = melt_scan a num To (w + 1);
          i = (if To + 1 < wbi_From (a ! i0) then i0 - 1 else i0);
          num' = num - (i - w);
          a' = a[w := \<lparr>wbi_From = min (wbi_From (a ! w)) Offs,
                       wbi_To = max To (wbi_To (a ! i))\<rparr>]
      in if i + 1 < num
         then map_option (Pair num') (memmove_arr (w + 1) (i + 1) (num - i - 1) a')
         else Some (num', a'))"

text \<open>The search loop of \<open>WBufUpdateInfo\<close>: the first interval whose end touches \<open>Offs\<close>.\<close>

function info_locate :: "wbufhdrinfo list \<Rightarrow> nat \<Rightarrow> int \<Rightarrow> nat \<Rightarrow> nat" where
  "info_locate a num Offs i =
     (if i < num \<and> \<not> Offs \<le> wbi_To (a ! i) + 1 then info_locate a num Offs (i + 1) else i)"
  by pat_completeness auto
termination
  by (relation "measure (\<lambda>(a, num, Offs, i). num - i)") auto

declare info_locate.simps [simp del]

definition store_info ::
  "nat \<Rightarrow> wbufhdrinfo \<Rightarrow> wbufhdrinfo list \<Rightarrow> wbufhdrinfo list option" where
  "store_info i x a = (if i < length a then Some (a[i := x]) else None)"

definition WBufUpdateInfo ::
  "nat \<Rightarrow> wbufhdrinfo list \<Rightarrow> int \<Rightarrow> int \<Rightarrow> (nat \<times> wbufhdrinfo list) option" where
  "WBufUpdateInfo num a Offs Len =
     (let To = Offs + Len - 1; new = \<lparr>wbi_From = Offs, wbi_To = To\<rparr> in
      if num = 0 then map_option (Pair 1) (store_info 0 new a)
      else
        let i = info_locate a num Offs 0 in
        if i < num then
          if To + 1 < wbi_From (a ! i) then
            Option.bind (memmove_arr (i + 1) i (num - i) a)
              (\<lambda>a'. map_option (Pair (num + 1)) (store_info i new a'))
          else if num > i + 1 \<and> To + 1 \<ge> wbi_From (a ! (i + 1)) then
            WBufDoMelt num a i Offs To
          else
            map_option (Pair num)
              (store_info i \<lparr>wbi_From = min (wbi_From (a ! i)) Offs,
                             wbi_To = max (wbi_To (a ! i)) To\<rparr> a)
        else map_option (Pair (num + 1)) (store_info num new a))"

subsection \<open>The reference: insertion into a sorted list of separated intervals\<close>

fun add_iv :: "int \<Rightarrow> int \<Rightarrow> wbufhdrinfo list \<Rightarrow> wbufhdrinfo list" where
  "add_iv lo hi [] = [\<lparr>wbi_From = lo, wbi_To = hi\<rparr>]"
| "add_iv lo hi (x # xs) =
     (if wbi_To x + 1 < lo then x # add_iv lo hi xs
      else if hi + 1 < wbi_From x then \<lparr>wbi_From = lo, wbi_To = hi\<rparr> # x # xs
      else add_iv (min lo (wbi_From x)) (max hi (wbi_To x)) xs)"

fun separated :: "wbufhdrinfo list \<Rightarrow> bool" where
  "separated [] \<longleftrightarrow> True"
| "separated (x # xs) \<longleftrightarrow>
     wbi_From x \<le> wbi_To x \<and> (\<forall>y\<in>set xs. wbi_To x + 1 < wbi_From y) \<and> separated xs"

definition covers :: "wbufhdrinfo list \<Rightarrow> int set" where
  "covers xs = (\<Union>x\<in>set xs. {wbi_From x..wbi_To x})"

lemma covers_simps [simp]:
  "covers [] = {}"
  "covers (x # xs) = {wbi_From x..wbi_To x} \<union> covers xs"
  "covers (xs @ ys) = covers xs \<union> covers ys"
  by (auto simp: covers_def)

lemma separated_append:
  "separated (xs @ ys) \<longleftrightarrow> separated xs \<and> separated ys \<and>
     (\<forall>x\<in>set xs. \<forall>y\<in>set ys. wbi_To x + 1 < wbi_From y)"
  by (induction xs) auto

lemma separated_member: "separated xs \<Longrightarrow> x \<in> set xs \<Longrightarrow> wbi_From x \<le> wbi_To x"
  by (induction xs) auto

lemma add_iv_covers:
  "lo \<le> hi \<Longrightarrow> separated xs \<Longrightarrow> covers (add_iv lo hi xs) = {lo..hi} \<union> covers xs"
proof (induction lo hi xs rule: add_iv.induct)
  case (2 lo hi x xs)
  consider "wbi_To x + 1 < lo" | "\<not> wbi_To x + 1 < lo" "hi + 1 < wbi_From x"
    | "\<not> wbi_To x + 1 < lo" "\<not> hi + 1 < wbi_From x" by blast
  then show ?case
  proof cases
    case 3
    have "{min lo (wbi_From x)..max hi (wbi_To x)} = {lo..hi} \<union> {wbi_From x..wbi_To x}"
      using 3 "2.prems" by auto
    then show ?thesis using 2 3 by auto
  qed (use 2 in auto)
qed simp

lemma add_iv_lower:
  "y \<in> set (add_iv lo hi xs) \<Longrightarrow> separated xs \<Longrightarrow> b \<le> lo \<Longrightarrow> (\<forall>x\<in>set xs. b \<le> wbi_From x)
     \<Longrightarrow> b \<le> wbi_From y"
  by (induction lo hi xs rule: add_iv.induct) (auto split: if_splits)

lemma add_iv_separated: "lo \<le> hi \<Longrightarrow> separated xs \<Longrightarrow> separated (add_iv lo hi xs)"
proof (induction lo hi xs rule: add_iv.induct)
  case (2 lo hi x xs)
  show ?case
  proof (cases "wbi_To x + 1 < lo")
    case True
    have "\<forall>y\<in>set (add_iv lo hi xs). wbi_To x + 1 < wbi_From y"
    proof
      fix y assume "y \<in> set (add_iv lo hi xs)"
      then have "wbi_To x + 2 \<le> wbi_From y"
        using "2.prems" True add_iv_lower [of y lo hi xs "wbi_To x + 2"] by force
      then show "wbi_To x + 1 < wbi_From y" by simp
    qed
    then show ?thesis using 2 True by simp
  next
    case False
    show ?thesis
    proof (cases "hi + 1 < wbi_From x")
      case True
      with "2.prems" False show ?thesis by fastforce
    next
      case hi: False
      have "separated (add_iv (min lo (wbi_From x)) (max hi (wbi_To x)) xs)"
        using "2.IH"(2) "2.prems" False hi by auto
      then show ?thesis using False hi by simp
    qed
  qed
qed simp

subsection \<open>The scans\<close>

lemma info_locate_spec:
  "i \<le> num \<Longrightarrow> (let j = info_locate a num Offs i in
     i \<le> j \<and> j \<le> num \<and> (\<forall>k. i \<le> k \<and> k < j \<longrightarrow> wbi_To (a ! k) + 1 < Offs) \<and>
     (j < num \<longrightarrow> Offs \<le> wbi_To (a ! j) + 1))"
proof (induction a num Offs i rule: info_locate.induct)
  case (1 a num Offs i)
  show ?case
  proof (cases "i < num \<and> \<not> Offs \<le> wbi_To (a ! i) + 1")
    case True
    then have eq: "info_locate a num Offs i = info_locate a num Offs (i + 1)"
      by (simp add: info_locate.simps [of a num Offs i])
    have "\<forall>k. i \<le> k \<and> k < info_locate a num Offs (i + 1) \<longrightarrow> wbi_To (a ! k) + 1 < Offs"
    proof (intro allI impI)
      fix k assume "i \<le> k \<and> k < info_locate a num Offs (i + 1)"
      then show "wbi_To (a ! k) + 1 < Offs"
        using "1.IH" [OF True] True by (cases "k = i") (auto simp: Let_def)
    qed
    then show ?thesis using "1.IH" [OF True] True by (auto simp: eq Let_def)
  next
    case False
    have "info_locate a num Offs i = i"
      by (subst info_locate.simps) (rule if_not_P [OF False])
    then show ?thesis using False "1.prems" by (auto simp: Let_def)
  qed
qed

lemma melt_scan_spec:
  "i < num \<Longrightarrow> (let j = melt_scan a num To i in
     i \<le> j \<and> j < num \<and> (\<forall>k. i \<le> k \<and> k < j \<longrightarrow> wbi_To (a ! k) < To) \<and>
     (j + 1 < num \<longrightarrow> To \<le> wbi_To (a ! j)))"
proof (induction a num To i rule: melt_scan.induct)
  case (1 a num To i)
  show ?case
  proof (cases "i + 1 < num \<and> To > wbi_To (a ! i)")
    case True
    then have eq: "melt_scan a num To i = melt_scan a num To (i + 1)"
      by (simp add: melt_scan.simps [of a num To i])
    have "\<forall>k. i \<le> k \<and> k < melt_scan a num To (i + 1) \<longrightarrow> wbi_To (a ! k) < To"
    proof (intro allI impI)
      fix k assume "i \<le> k \<and> k < melt_scan a num To (i + 1)"
      then show "wbi_To (a ! k) < To"
        using "1.IH" [OF True] True by (cases "k = i") (auto simp: Let_def)
    qed
    then show ?thesis using "1.IH" [OF True] True by (auto simp: eq Let_def)
  next
    case False
    have "melt_scan a num To i = i"
      by (subst melt_scan.simps) (rule if_not_P [OF False])
    then show ?thesis using False "1.prems" by (auto simp: Let_def)
  qed
qed

subsection \<open>The in-place update refines the reference\<close>

lemma add_iv_skip:
  "(\<And>x. x \<in> set pre \<Longrightarrow> wbi_To x + 1 < lo) \<Longrightarrow>
     add_iv lo hi (pre @ ys) = pre @ add_iv lo hi ys"
  by (induction pre) auto

lemma add_iv_before:
  "\<forall>y\<in>set ys. hi + 1 < wbi_From y \<Longrightarrow> separated ys \<Longrightarrow> lo \<le> hi \<Longrightarrow>
     add_iv lo hi ys = \<lparr>wbi_From = lo, wbi_To = hi\<rparr> # ys"
  by (cases ys) auto

text \<open>Melting: exactly the first \<open>m\<close> intervals are absorbed.\<close>

lemma add_iv_melt:
  "separated ys \<Longrightarrow> (\<And>y. y \<in> set ys \<Longrightarrow> lo \<le> wbi_From y) \<Longrightarrow> lo \<le> hi \<Longrightarrow>
   0 < m \<Longrightarrow> m \<le> length ys \<Longrightarrow> (\<And>t. t < m \<Longrightarrow> wbi_From (ys ! t) \<le> hi + 1) \<Longrightarrow>
   (\<And>t. Suc t < m \<Longrightarrow> wbi_To (ys ! t) < hi) \<Longrightarrow>
   (m < length ys \<Longrightarrow> hi + 1 < wbi_From (ys ! m)) \<Longrightarrow>
   add_iv lo hi ys = \<lparr>wbi_From = lo, wbi_To = max hi (wbi_To (ys ! (m - 1)))\<rparr> # drop m ys"
proof (induction ys arbitrary: m)
  case (Cons y ys)
  have y: "lo \<le> wbi_From y" "wbi_From y \<le> hi + 1" "wbi_From y \<le> wbi_To y"
    using Cons.prems(1,2,4) Cons.prems(6) [of 0] by auto
  then have step: "add_iv lo hi (y # ys) = add_iv lo (max hi (wbi_To y)) ys"
    by (simp add: min_def)
  show ?case
  proof (cases "m = 1")
    case True
    have "max hi (wbi_To y) + 1 < wbi_From z" if zs: "z \<in> set ys" for z
    proof -
      obtain t where t: "t < length ys" "z = ys ! t" using zs by (metis in_set_conv_nth)
      have "hi + 1 < wbi_From (ys ! 0)" using Cons.prems(8) True t by (cases ys) auto
      moreover have "wbi_From (ys ! 0) \<le> wbi_From z"
      proof (cases t)
        case (Suc k)
        obtain h r where "ys = h # r" using t by (cases ys) auto
        with t Suc Cons.prems(1) have "wbi_From h \<le> wbi_To h" "wbi_To h + 1 < wbi_From z"
          by auto
        with \<open>ys = h # r\<close> show ?thesis by simp
      qed (use t in simp)
      ultimately show ?thesis using Cons.prems(1) zs by auto
    qed
    then have "\<forall>z\<in>set ys. max hi (wbi_To y) + 1 < wbi_From z" by blast
    then have "add_iv lo (max hi (wbi_To y)) ys = \<lparr>wbi_From = lo, wbi_To = max hi (wbi_To y)\<rparr> # ys"
      using Cons.prems(1,3) by (intro add_iv_before) auto
    then show ?thesis using step True by simp
  next
    case False
    then have m: "0 < m - 1" "m - 1 \<le> length ys" using Cons.prems(4,5) by auto
    have "wbi_To y < hi" using Cons.prems(7) [of 0] False Cons.prems(4) by simp
    then have "max hi (wbi_To y) = hi" by simp
    moreover have "add_iv lo hi ys =
        \<lparr>wbi_From = lo, wbi_To = max hi (wbi_To (ys ! (m - 1 - 1)))\<rparr> # drop (m - 1) ys"
    proof (rule Cons.IH [OF _ _ Cons.prems(3) m])
      show "wbi_From (ys ! t) \<le> hi + 1" if "t < m - 1" for t
        using Cons.prems(6) [of "Suc t"] that by simp
      show "wbi_To (ys ! t) < hi" if "Suc t < m - 1" for t
        using Cons.prems(7) [of "Suc t"] that by simp
      show "hi + 1 < wbi_From (ys ! (m - 1))" if "m - 1 < length ys"
        using Cons.prems(8) that m by (cases m) auto
    qed (use Cons.prems(1,2) in auto)
    ultimately show ?thesis using step m by (cases m) (auto simp: nth_Cons')
  qed
qed simp

lemma add_iv_absorb:
  assumes "separated (x # ys)" and "lo \<le> wbi_To x + 1" and "wbi_From x \<le> hi + 1"
  shows "add_iv lo hi (x # ys) = add_iv (min lo (wbi_From x)) (max hi (wbi_To x)) ys"
  using assms by auto

lemma nth_drop_take: "t < num - i \<Longrightarrow> num \<le> length a \<Longrightarrow> drop i (take num a) ! t = a ! (i + t)"
  by simp

lemma separated_nth:
  "separated xs \<Longrightarrow> s < t \<Longrightarrow> t < length xs \<Longrightarrow> wbi_To (xs ! s) + 1 < wbi_From (xs ! t)"
  by (induction xs arbitrary: s t) (auto simp: nth_Cons' gr0_conv_Suc split: if_splits)

lemma melt_copy:
  assumes "w \<le> i" and "i < num" and "num \<le> length a"
  shows "\<exists>b. (if i + 1 < num then memmove_arr (w + 1) (i + 1) (num - i - 1) (a[w := c])
              else Some (a[w := c])) = Some b
           \<and> length b = length a
           \<and> take (num - (i - w)) b = take w a @ c # drop (i + 1) (take num a)"
proof (cases "i + 1 < num")
  case True
  have "num - (i - w) = w + 1 + (num - i - 1)" using assms by simp
  moreover have "take (w + 1) (a[w := c]) = take w a @ [c]"
    using assms by (simp add: take_Suc_last)
  moreover have "num - i = Suc (num - Suc i)" using True by simp
  ultimately show ?thesis using assms True
    by (auto simp: memmove_arr_def drop_take take_add)
next
  case False
  then have "num - (i - w) = w + 1" "drop (i + 1) (take num a) = []" using assms by auto
  then show ?thesis using assms False by (simp add: take_Suc_last)
qed

lemma WBufDoMelt_refines:
  assumes len: "num \<le> length a" and w: "w + 1 < num" and sep: "separated (drop w (take num a))"
    and le: "Offs \<le> To" and near: "Offs \<le> wbi_To (a ! w) + 1"
    and melt: "wbi_From (a ! (w + 1)) \<le> To + 1"
  shows "\<exists>num' a'. WBufDoMelt num a w Offs To = Some (num', a') \<and> length a' = length a \<and>
           num' \<le> num \<and> take num' a' = take w a @ add_iv Offs To (drop w (take num a))"
proof -
  define ys where "ys = drop (w + 1) (take num a)"
  define x where "x = a ! w"
  define j where "j = melt_scan a num To (w + 1)"
  define i where "i = (if To + 1 < wbi_From (a ! j) then j - 1 else j)"
  define m where "m = i - w"
  define c where "c = \<lparr>wbi_From = min (wbi_From x) Offs, wbi_To = max To (wbi_To (a ! i))\<rparr>"
  have split: "drop w (take num a) = x # ys"
    using w len by (simp add: ys_def x_def Cons_nth_drop_Suc [symmetric])
  have lys: "length ys = num - (w + 1)" using len by (simp add: ys_def)
  have nth: "ys ! t = a ! (w + 1 + t)" if "t < length ys" for t
    using that len by (simp add: ys_def)
  have j: "w + 1 \<le> j" "j < num" "\<And>k. w + 1 \<le> k \<Longrightarrow> k < j \<Longrightarrow> wbi_To (a ! k) < To"
    "j + 1 < num \<Longrightarrow> To \<le> wbi_To (a ! j)"
    using melt_scan_spec [of "w + 1" num a To] w by (auto simp: j_def Let_def)
  have i: "w + 1 \<le> i" "i \<le> j" "i < num" using j(1,2) melt by (auto simp: i_def le_less)
  have sx: "separated ys" "\<forall>y\<in>set ys. wbi_To x + 1 < wbi_From y" "wbi_From x \<le> wbi_To x"
    using sep by (simp_all add: split)
  have succ: "wbi_To (a ! k) + 1 < wbi_From (a ! l)" if "w \<le> k" "k < l" "l < num" for k l
    using separated_nth [OF sep, of "k - w" "l - w"] that len by (simp add: add.commute)
  have self: "wbi_From (a ! k) \<le> wbi_To (a ! k)" if "w \<le> k" "k < num" for k
    using separated_member [OF sep] nth_mem [of "k - w" "drop w (take num a)"] that len by auto
  have gt: "wbi_To x < To" using succ [of w "w + 1"] melt w by (simp add: x_def)
  have reach: "wbi_From (a ! k) \<le> To + 1" if "w + 1 \<le> k" "k \<le> i" for k
  proof (cases "k < j")
    case True
    then show ?thesis using j(3) [of k] self [of k] that j(2) by simp
  next
    case False
    then show ?thesis using that i(2) by (auto simp: i_def split: if_splits)
  qed
  have stop: "To + 1 < wbi_From (a ! (i + 1))" if "i + 1 < num"
  proof (cases "i = j")
    case True
    then show ?thesis using that j succ [of j "j + 1"] by auto
  next
    case False
    then show ?thesis using j(1) by (auto simp: i_def split: if_splits)
  qed
  have m: "0 < m" "m \<le> length ys" "w + m = i" using i lys by (auto simp: m_def)
  have "add_iv Offs To (x # ys) = add_iv (min Offs (wbi_From x)) To ys"
    using add_iv_absorb [of x ys Offs To] sep near sx(3) gt le by (simp add: split x_def)
  also have "\<dots> = \<lparr>wbi_From = min Offs (wbi_From x), wbi_To = max To (wbi_To (ys ! (m - 1)))\<rparr> # drop m ys"
  proof (rule add_iv_melt [OF sx(1) _ _ m(1,2)])
    show "min Offs (wbi_From x) \<le> wbi_From y" if "y \<in> set ys" for y using sx that by force
    show "min Offs (wbi_From x) \<le> To" using le by simp
    show "wbi_From (ys ! t) \<le> To + 1" if "t < m" for t
      using reach [of "w + 1 + t"] nth [of t] that m by simp
    show "wbi_To (ys ! t) < To" if "Suc t < m" for t
      using j(3) [of "w + 1 + t"] nth [of t] that m i by simp
    show "To + 1 < wbi_From (ys ! m)" if "m < length ys"
      using stop nth [of m] that m lys by (simp add: ac_simps)
  qed
  also have "ys ! (m - 1) = a ! i" using nth [of "m - 1"] m i by simp
  finally have core: "add_iv Offs To (drop w (take num a)) = c # drop (i + 1) (take num a)"
    using m by (simp add: split c_def ys_def min.commute add.commute add.left_commute)
  obtain b where b: "(if i + 1 < num then memmove_arr (w + 1) (i + 1) (num - i - 1) (a[w := c])
        else Some (a[w := c])) = Some b" "length b = length a"
      "take (num - (i - w)) b = take w a @ c # drop (i + 1) (take num a)"
    using melt_copy [of w i num a c] i len by auto
  have "WBufDoMelt num a w Offs To = Some (num - (i - w), b)"
    using b(1) unfolding WBufDoMelt_def Let_def j_def [symmetric] i_def [symmetric]
    by (simp add: c_def x_def split: if_splits)
  then show ?thesis using b core by auto
qed

lemma take_update_split:
  "i < num \<Longrightarrow> num \<le> length a \<Longrightarrow> take num (a[i := c]) = take i a @ c # drop (i + 1) (take num a)"
  by (subst take_update_swap, subst upd_conv_take_nth_drop) simp_all

lemma take_insert_at:
  assumes "memmove_arr (i + 1) i (num - i) a = Some b" and "i \<le> num" and "num < length a"
  shows "take (num + 1) (b[i := c]) = take i a @ c # drop i (take num a)"
proof -
  have "b = take (i + 1) a @ take (num - i) (drop i a) @ drop (num + 1) a"
    using assms by (auto simp: memmove_arr_def)
  moreover have "take (i + 1) a = take i a @ [a ! i]" using assms by (simp add: take_Suc_last)
  moreover have "num - i + i = num" "Suc num - i = Suc (num - i)" using assms by auto
  ultimately show ?thesis using assms by (simp add: list_update_append drop_take)
qed

text \<open>The invariant of a table: it fits the array, the intervals lie in the buffer and there is
  a gap between neighbours.\<close>

definition info_ok :: "nat \<Rightarrow> wbufhdrinfo list \<Rightarrow> bool" where
  "info_ok num a \<longleftrightarrow> length a = WBUFHDRINFOSIZE \<and> num \<le> WBUFHDRINFOSIZE \<and>
     separated (take num a) \<and> covers (take num a) \<subseteq> {0..<MBUFSIZE}"

lemma WBufUpdateInfo_refines:
  assumes len: "num < length a" and sep: "separated (take num a)" and Len: "0 < Len"
  shows "\<exists>num' a'. WBufUpdateInfo num a Offs Len = Some (num', a') \<and> length a' = length a \<and>
           num' \<le> num + 1 \<and> take num' a' = add_iv Offs (Offs + Len - 1) (take num a)"
proof (cases "num = 0")
  case True
  then show ?thesis using len
    by (cases a) (simp_all add: WBufUpdateInfo_def store_info_def)
next
  case num: False
  define To where "To = Offs + Len - 1"
  define new where "new = \<lparr>wbi_From = Offs, wbi_To = To\<rparr>"
  define i where "i = info_locate a num Offs 0"
  have loc: "i \<le> num" "\<And>k. k < i \<Longrightarrow> wbi_To (a ! k) + 1 < Offs"
      "i < num \<Longrightarrow> Offs \<le> wbi_To (a ! i) + 1"
    using info_locate_spec [of 0 num a Offs] by (auto simp: i_def Let_def)
  have le: "Offs \<le> To" using Len by (simp add: To_def)
  have take_split: "take num a = take i a @ drop i (take num a)"
    using loc(1) by (metis append_take_drop_id take_take_min)
  have skip: "add_iv Offs To (take num a) = take i a @ add_iv Offs To (drop i (take num a))"
    by (subst take_split, rule add_iv_skip) (use loc len in \<open>auto simp: in_set_conv_nth\<close>)
  have sepi: "separated (drop i (take num a))"
    using sep take_split separated_append by metis
  have U: "WBufUpdateInfo num a Offs Len =
      (if i < num then
         if To + 1 < wbi_From (a ! i) then
           Option.bind (memmove_arr (i + 1) i (num - i) a)
             (\<lambda>a'. map_option (Pair (num + 1)) (store_info i new a'))
         else if num > i + 1 \<and> To + 1 \<ge> wbi_From (a ! (i + 1)) then WBufDoMelt num a i Offs To
         else map_option (Pair num)
                (store_info i \<lparr>wbi_From = min (wbi_From (a ! i)) Offs,
                               wbi_To = max (wbi_To (a ! i)) To\<rparr> a)
       else map_option (Pair (num + 1)) (store_info num new a))"
    using num by (simp add: WBufUpdateInfo_def Let_def To_def new_def i_def)
  show ?thesis
  proof (cases "i < num")
    case False
    then have "i = num" using loc(1) by simp
    moreover have "take (num + 1) (a[num := new]) = take num a @ [new]"
      using len by (simp add: take_Suc_last)
    ultimately show ?thesis using U len skip by (simp add: store_info_def new_def To_def)
  next
    case True
    have hd: "drop i (take num a) = a ! i # drop (i + 1) (take num a)"
      using True len by (simp add: Cons_nth_drop_Suc [symmetric])
    have xs: "wbi_From (a ! i) \<le> wbi_To (a ! i)"
      "\<forall>y\<in>set (drop (i + 1) (take num a)). wbi_To (a ! i) + 1 < wbi_From y"
      "separated (drop (i + 1) (take num a))" using sepi hd by auto
    show ?thesis
    proof (cases "To + 1 < wbi_From (a ! i)")
      case before: True
      obtain b where b: "memmove_arr (i + 1) i (num - i) a = Some b"
        using True len by (simp add: memmove_arr_def)
      have "add_iv Offs To (drop i (take num a)) = new # drop i (take num a)"
        using before loc(3) True hd by (simp add: new_def)
      then show ?thesis
        using U True before b skip take_insert_at [OF b, of new] len length_memmove_arr [OF b]
        by (simp add: store_info_def To_def)
    next
      case touch: False
      show ?thesis
      proof (cases "num > i + 1 \<and> To + 1 \<ge> wbi_From (a ! (i + 1))")
        case melt: True
        have "WBufUpdateInfo num a Offs Len = WBufDoMelt num a i Offs To"
          using U True touch melt by simp
        then show ?thesis
          using WBufDoMelt_refines [of num a i Offs To] len sepi le loc(3) True melt skip To_def
          by auto
      next
        case nomelt: False
        let ?c = "\<lparr>wbi_From = min (wbi_From (a ! i)) Offs, wbi_To = max (wbi_To (a ! i)) To\<rparr>"
        have gap: "\<forall>y\<in>set (drop (i + 1) (take num a)). max To (wbi_To (a ! i)) + 1 < wbi_From y"
        proof
          fix y assume y: "y \<in> set (drop (i + 1) (take num a))"
          then have n: "num > i + 1" by (cases "num > i + 1") auto
          then have "drop (i + 1) (take num a) = a ! (i + 1) # drop (i + 2) (take num a)"
            using len by (simp add: Cons_nth_drop_Suc [symmetric])
          then have "wbi_From (a ! (i + 1)) \<le> wbi_From y" using xs(3) y by force
          then show "max To (wbi_To (a ! i)) + 1 < wbi_From y" using nomelt n xs(2) y by auto
        qed
        have "add_iv Offs To (drop i (take num a)) =
            add_iv (min Offs (wbi_From (a ! i))) (max To (wbi_To (a ! i))) (drop (i + 1) (take num a))"
          using hd add_iv_absorb [of "a ! i" _ Offs To] sepi loc(3) True touch by simp
        also have "\<dots> = ?c # drop (i + 1) (take num a)"
          using add_iv_before [OF gap xs(3)] le by (simp add: min.commute max.commute)
        finally have "add_iv Offs To (take num a) = take num (a[i := ?c])"
          using skip True len by (simp add: take_update_split)
        moreover have "WBufUpdateInfo num a Offs Len = Some (num, a[i := ?c])"
          by (simp only: U if_P [OF True] if_not_P [OF touch] if_not_P [OF nomelt])
            (use True len in \<open>simp add: store_info_def\<close>)
        ultimately show ?thesis by (simp add: To_def)
      qed
    qed
  qed
qed

subsection \<open>What an update does to the table\<close>

lemma WBufUpdateInfo_ok:
  assumes ok: "info_ok num a" and room: "num < WBUFHDRINFOSIZE"
    and Offs: "0 \<le> Offs" and Len: "0 < Len" and fits: "Offs + Len \<le> MBUFSIZE"
  shows "\<exists>num' a'. WBufUpdateInfo num a Offs Len = Some (num', a') \<and> info_ok num' a' \<and>
           0 < num' \<and> num' \<le> num + 1 \<and>
           covers (take num' a') = covers (take num a) \<union> {Offs..<Offs + Len}"
proof -
  have sep: "separated (take num a)" and len: "num < length a" using ok room by (auto simp: info_ok_def)
  obtain num' a' where u: "WBufUpdateInfo num a Offs Len = Some (num', a')"
      "length a' = length a" "num' \<le> num + 1"
      "take num' a' = add_iv Offs (Offs + Len - 1) (take num a)"
    using WBufUpdateInfo_refines [OF len sep Len, of Offs] by blast
  have iv: "{Offs..Offs + Len - 1} = {Offs..<Offs + Len}" by auto
  have cov: "covers (take num' a') = covers (take num a) \<union> {Offs..<Offs + Len}"
    using add_iv_covers [OF _ sep, of Offs "Offs + Len - 1"] Len by (simp add: u(4) iv Un_commute)
  moreover have "separated (take num' a')"
    using add_iv_separated [OF _ sep, of Offs "Offs + Len - 1"] Len by (simp add: u(4))
  moreover have "0 < num'"
  proof (rule ccontr)
    assume "\<not> 0 < num'"
    then have "covers (take num' a') = {}" by simp
    with cov Len show False by auto
  qed
  ultimately show ?thesis using u ok Offs fits room by (auto simp: info_ok_def)
qed

lemma info_ok_cell:
  assumes "info_ok num a" and "i < num"
  shows "0 \<le> wbi_From (a ! i)" and "wbi_From (a ! i) \<le> wbi_To (a ! i)"
    and "wbi_To (a ! i) < MBUFSIZE" and "i < length a"
proof -
  have i: "i < length a" using assms by (auto simp: info_ok_def)
  have m: "a ! i \<in> set (take num a)" using assms i by (auto simp: in_set_conv_nth)
  show le: "wbi_From (a ! i) \<le> wbi_To (a ! i)"
    using assms m separated_member by (auto simp: info_ok_def)
  have "{wbi_From (a ! i)..wbi_To (a ! i)} \<subseteq> {0..<MBUFSIZE}"
    using assms(1) m by (fastforce simp: info_ok_def covers_def)
  then show "0 \<le> wbi_From (a ! i)" "wbi_To (a ! i) < MBUFSIZE" using le by auto
  show "i < length a" by (rule i)
qed

lemma info_ok_empty: "length a = WBUFHDRINFOSIZE \<Longrightarrow> info_ok 0 a"
  by (simp add: info_ok_def)

lemma length_add_iv: "length (add_iv lo hi xs) \<le> length xs + 1"
  by (induction lo hi xs rule: add_iv.induct) auto

lemma length_add_iv_covered:
  "separated xs \<Longrightarrow> lo \<le> hi \<Longrightarrow> lo \<in> covers xs \<Longrightarrow> length (add_iv lo hi xs) \<le> length xs"
proof (induction lo hi xs rule: add_iv.induct)
  case (2 lo hi x xs)
  have "lo \<in> covers xs \<Longrightarrow> wbi_To x + 1 < lo"
    using "2.prems"(1) by (force simp: covers_def)
  then show ?case
    using 2 length_add_iv [of "min lo (wbi_From x)" "max hi (wbi_To x)" xs] by auto
qed simp

text \<open>A write that starts on a dirty byte needs no further cell.\<close>

lemma WBufUpdateInfo_covered:
  assumes "info_ok num a" and "num < WBUFHDRINFOSIZE" and "0 < Len" and "Offs \<in> covers (take num a)"
    and "WBufUpdateInfo num a Offs Len = Some (num', a')"
  shows "num' \<le> num"
proof -
  have sep: "separated (take num a)" and len: "num < length a" using assms by (auto simp: info_ok_def)
  have r: "take num' a' = add_iv Offs (Offs + Len - 1) (take num a)" "length a' = length a" "num' \<le> num + 1"
    using WBufUpdateInfo_refines [OF len sep assms(3), of Offs] assms(5) by auto
  have "num' = length (take num' a')" using r(2,3) len by simp
  also have "\<dots> \<le> length (take num a)"
    unfolding r(1) by (rule length_add_iv_covered [OF sep _ assms(4)]) (use assms(3) in simp)
  finally show ?thesis using len by simp
qed

end
