(* ===== verification/State.thy ===== *)
theory State
  imports WInfo "HOL-Library.Monad_Syntax"
begin

text \<open>
  The data of the handler: the NFS protocol types of src/src/nfs_prot.h, the structures of
  src/src/wbuf.h, rbuf.h, fh.h, locks.h and nfs.h, and the global state \<open>Global_T\<close> of
  src/src/nfs_handler.h. Structures reached through pointers live in stores of the global
  state (\<open>hp_wbh\<close>, \<open>hp_efh\<close>, \<open>hp_elock\<close>), one per type; the free list of memory buffers is
  the list of their addresses and \<open>mb_data\<close> their contents. The numeric constants of
  AmigaDOS (dos/dos.h, not part of the repository) have their documented values.
\<close>

subsection \<open>NFS protocol types\<close>

type_synonym nfs_fh = "u8 list"

datatype ftype = NFNON | NFREG | NFDIR | NFBLK | NFCHR | NFLNK | NFSOCK | NFBAD | NFFIFO

datatype nfsstat = NFS_OK | NFSERR_PERM | NFSERR_NOENT | NFSERR_IO | NFSERR_NXIO | NFSERR_ACCES
  | NFSERR_EXIST | NFSERR_NODEV | NFSERR_NOTDIR | NFSERR_ISDIR | NFSERR_FBIG | NFSERR_NOSPC
  | NFSERR_ROFS | NFSERR_NAMETOOLONG | NFSERR_NOTEMPTY | NFSERR_DQUOT | NFSERR_STALE
  | NFSERR_WFLUSH | NFSERR_other u32

record nfstime =
  seconds :: u32
  useconds :: u32

record fattr =
  fa_type :: ftype
  fa_mode :: u32
  fa_nlink :: u32
  fa_uid :: u32
  fa_gid :: u32
  fa_size :: u32
  fa_blocksize :: u32
  fa_rdev :: u32
  fa_blocks :: u32
  fa_fsid :: u32
  fa_fileid :: u32
  fa_atime :: nfstime
  fa_mtime :: nfstime
  fa_ctime :: nfstime

subsection \<open>AmigaDOS constants\<close>

abbreviation DOSTRUE :: int where "DOSTRUE \<equiv> -1"
abbreviation (input) DOSFALSE :: int where "DOSFALSE \<equiv> 0"
abbreviation ERROR_NO_FREE_STORE :: int where "ERROR_NO_FREE_STORE \<equiv> 103"
abbreviation ERROR_BAD_NUMBER :: int where "ERROR_BAD_NUMBER \<equiv> 115"
abbreviation ERROR_REQUIRED_ARG_MISSING :: int where "ERROR_REQUIRED_ARG_MISSING \<equiv> 116"
abbreviation ERROR_FILE_NOT_OBJECT :: int where "ERROR_FILE_NOT_OBJECT \<equiv> 121"
abbreviation ERROR_OBJECT_IN_USE :: int where "ERROR_OBJECT_IN_USE \<equiv> 202"
abbreviation ERROR_OBJECT_EXISTS :: int where "ERROR_OBJECT_EXISTS \<equiv> 203"
abbreviation ERROR_OBJECT_NOT_FOUND :: int where "ERROR_OBJECT_NOT_FOUND \<equiv> 205"
abbreviation ERROR_BAD_STREAM_NAME :: int where "ERROR_BAD_STREAM_NAME \<equiv> 206"
abbreviation ERROR_OBJECT_TOO_LARGE :: int where "ERROR_OBJECT_TOO_LARGE \<equiv> 207"
abbreviation ERROR_ACTION_NOT_KNOWN :: int where "ERROR_ACTION_NOT_KNOWN \<equiv> 209"
abbreviation ERROR_INVALID_COMPONENT_NAME :: int where "ERROR_INVALID_COMPONENT_NAME \<equiv> 210"
abbreviation ERROR_INVALID_LOCK :: int where "ERROR_INVALID_LOCK \<equiv> 211"
abbreviation ERROR_OBJECT_WRONG_TYPE :: int where "ERROR_OBJECT_WRONG_TYPE \<equiv> 212"
abbreviation ERROR_DISK_WRITE_PROTECTED :: int where "ERROR_DISK_WRITE_PROTECTED \<equiv> 214"
abbreviation ERROR_DIRECTORY_NOT_EMPTY :: int where "ERROR_DIRECTORY_NOT_EMPTY \<equiv> 216"
abbreviation ERROR_SEEK_ERROR :: int where "ERROR_SEEK_ERROR \<equiv> 219"
abbreviation ERROR_DISK_FULL :: int where "ERROR_DISK_FULL \<equiv> 221"
abbreviation ERROR_WRITE_PROTECTED :: int where "ERROR_WRITE_PROTECTED \<equiv> 223"
abbreviation ERROR_READ_PROTECTED :: int where "ERROR_READ_PROTECTED \<equiv> 224"
abbreviation ERROR_NO_MORE_ENTRIES :: int where "ERROR_NO_MORE_ENTRIES \<equiv> 232"
abbreviation ERROR_IS_SOFT_LINK :: int where "ERROR_IS_SOFT_LINK \<equiv> 233"

abbreviation MODE_READWRITE :: int where "MODE_READWRITE \<equiv> 1004"
abbreviation MODE_OLDFILE :: int where "MODE_OLDFILE \<equiv> 1005"
abbreviation MODE_NEWFILE :: int where "MODE_NEWFILE \<equiv> 1006"
abbreviation SHARED_LOCK :: int where "SHARED_LOCK \<equiv> -2"
abbreviation EXCLUSIVE_LOCK :: int where "EXCLUSIVE_LOCK \<equiv> -1"
abbreviation OFFSET_BEGINNING :: int where "OFFSET_BEGINNING \<equiv> -1"
abbreviation (input) OFFSET_CURRENT :: int where "OFFSET_CURRENT \<equiv> 0"
abbreviation (input) OFFSET_END :: int where "OFFSET_END \<equiv> 1"

text \<open>A C conversion of an unsigned 32-bit value to \<open>LONG\<close> and back.\<close>

abbreviation LONG_of :: "u32 \<Rightarrow> int" where "LONG_of \<equiv> sint"
abbreviation ULONG_of :: "int \<Rightarrow> u32" where "ULONG_of \<equiv> word_of_int"

lemma LONG_of_small: "uint (w::u32) < 2 ^ 31 \<Longrightarrow> LONG_of w = uint w"
  by (subst sint_uint, subst signed_take_bit_int_eq_self) (auto intro: order.trans [OF _ uint_nonnegative])

lemma uint_ULONG_of: "0 \<le> x \<Longrightarrow> x < 2 ^ 32 \<Longrightarrow> uint (ULONG_of x) = x"
  by (simp add: uint_word_of_int take_bit_int_eq_self)

lemma bit_high: "(x::int) \<ge> 0 \<Longrightarrow> x < 2 ^ n \<Longrightarrow> bit x k \<Longrightarrow> k < n"
  by (metis bit_take_bit_iff take_bit_int_eq_self)

subsection \<open>Handler structures\<close>

record wbufhdr =
  wbh_Next :: addr
  wbh_FileOffs :: int
  wbh_NumInfo :: nat
  wbh_Data :: addr
  wbh_Info :: "wbufhdrinfo list"

record wbufcluster =
  wbc_WBufsMax :: int
  wbc_WBufsUsed :: int
  wbc_FirstData :: addr
  wbc_LastData :: addr
  wbc_PosData :: addr
  wbc_FilePos :: int

record rbufhdr =
  rbh_FileOffs :: int
  rbh_DataLen :: int
  rbh_Data :: addr

record elock =
  fl_Link :: addr
  fl_Key :: u32
  fl_Access :: int
  efl_NFSFh :: nfs_fh
  efl_NFSType :: ftype
  efl_FullName :: string
  efl_Name :: string

record efh =
  efh_Next :: addr
  efh_Id :: int
  efh_FilePos :: int
  efh_FileLen :: int
  efh_Mode :: int
  efh_ELock :: addr
  efh_WBuf :: "wbufcluster option"
  efh_RBuf :: "rbufhdr option"
  efh_Res2 :: int

record nfsglobal =
  ng_NumRRPCs :: int
  ng_NumWRPCs :: int
  ng_MaxReadSize :: u32
  ng_MaxReadDirSize :: u32
  ng_MaxWriteSize :: u32

text \<open>Directory scans: the entries read ahead are owned by one \<open>EDH\<close>, so the linked list of them
  is a list. \<open>edh_Name\<close> is the 108 bytes of the C array.\<close>

abbreviation EDH_MAX_FILENAME_SIZE :: nat where "EDH_MAX_FILENAME_SIZE \<equiv> 108"

record entry =
  en_fileid :: u32
  en_name :: string
  en_cookie :: u32

record edh =
  edh_Next :: addr
  edh_Key :: u32
  edh_Cookie :: u32
  edh_NFSDirFh :: nfs_fh
  edh_NFSCookie :: u32
  edh_Eof :: int
  edh_NFSEntries :: "entry list"
  edh_Name :: "u8 list"

text \<open>
  The part of \<open>Global_T\<close> that the modelled components use. \<open>g_srv\<close> is the state of the
  remote server as the RPC layer sees it.
\<close>

record 'srv global =
  g_Flags :: u32
  g_LockKey :: u32
  g_NumBuffers :: int
  g_NFSGlobal :: nfsglobal
  g_WriteBufferLimit :: u32
  g_BufSizePerFile :: int
  g_NumMBufs :: int
  g_NumFreeMBufs :: int
  g_FreeMBufs :: "addr list"
  mb_data :: "addr \<Rightarrow> int \<Rightarrow> u8"
  g_NumWBufHdrs :: int
  g_NumFreeWBufHdrs :: int
  g_FreeWBufHdr :: addr
  hp_wbh :: "addr \<rightharpoonup> wbufhdr"
  g_FH :: addr
  fh_LastId :: int
  hp_efh :: "addr \<rightharpoonup> efh"
  g_DH :: addr
  hp_edh :: "addr \<rightharpoonup> edh"
  dl_LockList :: addr
  hp_elock :: "addr \<rightharpoonup> elock"
  g_Res1 :: int
  g_Res2 :: int
  g_srv :: 'srv

text \<open>The cleared \<open>Global_T\<close> the handler starts with.\<close>

definition cleared_global :: "'srv \<Rightarrow> 'srv global" where
  "cleared_global srv =
     \<lparr>g_Flags = 0, g_LockKey = 0, g_NumBuffers = 0,
      g_NFSGlobal = \<lparr>ng_NumRRPCs = 0, ng_NumWRPCs = 0, ng_MaxReadSize = 0, ng_MaxReadDirSize = 0,
                     ng_MaxWriteSize = 0\<rparr>,
      g_WriteBufferLimit = 0, g_BufSizePerFile = 0, g_NumMBufs = 0, g_NumFreeMBufs = 0,
      g_FreeMBufs = [], mb_data = (\<lambda>b i. 0), g_NumWBufHdrs = 0, g_NumFreeWBufHdrs = 0,
      g_FreeWBufHdr = NULL, hp_wbh = Map.empty, g_FH = NULL, fh_LastId = 0, hp_efh = Map.empty,
      g_DH = NULL, hp_edh = Map.empty,
      dl_LockList = NULL, hp_elock = Map.empty, g_Res1 = 0, g_Res2 = 0, g_srv = srv\<rparr>"

text \<open>The tests of src/src/fh.h, and \<open>efh->efh_ELock->efl_NFSFh\<close>.\<close>

definition HasBufferedWData :: "efh \<Rightarrow> bool" where
  "HasBufferedWData e \<longleftrightarrow> (case efh_WBuf e of None \<Rightarrow> False | Some w \<Rightarrow> wbc_WBufsUsed w \<noteq> 0)"

definition HasBufferedRData :: "efh \<Rightarrow> bool" where
  "HasBufferedRData e \<longleftrightarrow> (case efh_RBuf e of None \<Rightarrow> False | Some r \<Rightarrow> rbh_Data r \<noteq> NULL)"

definition efh_fh :: "'srv global \<Rightarrow> efh \<Rightarrow> nfs_fh option" where
  "efh_fh g e = map_option efl_NFSFh (hp_elock g (efh_ELock e))"

definition SetRes :: "int \<Rightarrow> int \<Rightarrow> 'srv global \<Rightarrow> int \<times> 'srv global" where
  "SetRes r1 r2 g = (r1, g\<lparr>g_Res1 := r1, g_Res2 := r2\<rparr>)"

definition SetRes1 :: "int \<Rightarrow> 'srv global \<Rightarrow> int \<times> 'srv global" where
  "SetRes1 r1 g = (r1, g\<lparr>g_Res1 := r1\<rparr>)"

subsection \<open>The remote procedure calls\<close>

text \<open>
  The client stubs of src/src/ch_nfs_prot_clnt.c end in the network; the model takes them as
  parameters. A stub that returns NULL is \<open>Inl\<close> of the client's RPC status.
\<close>

record 'srv rpc_ops =
  nfsproc_read_buf :: "nfs_fh \<Rightarrow> u32 \<Rightarrow> u32 \<Rightarrow> 'srv \<Rightarrow> (int + nfsstat \<times> fattr \<times> u8 list) \<times> 'srv"
  nfsproc_write_2 :: "nfs_fh \<Rightarrow> u32 \<Rightarrow> u8 list \<Rightarrow> 'srv \<Rightarrow> (int + nfsstat \<times> fattr) \<times> 'srv"
  nfsproc_send_writesb_2 :: "nfs_fh \<Rightarrow> u32 \<Rightarrow> u8 list \<Rightarrow> 'srv \<Rightarrow> (int + unit) \<times> 'srv"
  nfsproc_wait_write_2 :: "'srv \<Rightarrow> (int + nfsstat \<times> fattr) \<times> 'srv"
  rpc_clnt_abort :: "'srv \<Rightarrow> 'srv"

end
