(* ===== verification/NfsIO.thy ===== *)
theory NfsIO
  imports NfsSupp
begin

text \<open>
  The block transfer loops of src/src/nfs.c: a read or write of any length is cut into
  remote calls of at most \<open>min ng_MaxReadSize NFS_MAXDATA\<close> (\<open>ng_MaxWriteSize\<close>) bytes. A
  transfer is given as the list of its bytes, so \<open>count\<close> is its length and advancing \<open>Buf\<close>
  is dropping from it. The loops may run forever when the size limit is 0, so they are
  partial functions; the lemmas show that a positive limit makes them return, and that a
  successful write has stored exactly the given bytes on the server.
\<close>

subsection \<open>Synchronous write\<close>

partial_function (option) nfs_MWrite_loop ::
  "'srv rpc_ops \<Rightarrow> nfs_fh \<Rightarrow> nat \<Rightarrow> u32 \<Rightarrow> u8 list \<Rightarrow> fattr option \<Rightarrow> 'srv \<Rightarrow> ((int + fattr) \<times> 'srv) option"
where
  "nfs_MWrite_loop rpc fh MaxWrite offset buf res srv =
     (if buf = [] then (case res of None \<Rightarrow> None | Some attr \<Rightarrow> Some (Inr attr, srv))
      else
        let Len = (if length buf < MaxWrite then length buf else MaxWrite) in
        (case nfsproc_write_2 rpc fh offset (take Len buf) srv of
           (Inl clstat, srv') \<Rightarrow> Some (Inl (CLIENT2IoErr clstat), srv')
         | (Inr (status, attr), srv') \<Rightarrow>
             if status \<noteq> NFS_OK then Some (Inl (NFSErr2IoErrCont status CHR ''w''), srv')
             else nfs_MWrite_loop rpc fh MaxWrite (offset + of_nat Len) (drop Len buf) (Some attr) srv'))"

declare nfs_MWrite_loop.simps [code]

text \<open>The result is \<open>Inl Res2\<close> (the function returned -1) or \<open>Inr (arg_count, FileLen)\<close>.\<close>

definition nfs_MWrite ::
  "nfsglobal \<Rightarrow> 'srv rpc_ops \<Rightarrow> nfs_fh \<Rightarrow> u32 \<Rightarrow> u8 list \<Rightarrow> 'srv \<Rightarrow> ((int + int \<times> int) \<times> 'srv) option"
where
  "nfs_MWrite ng rpc fh offset buf srv =
     (let MaxWrite = min (ng_MaxWriteSize ng) NFS_MAXDATA in
      map_option (\<lambda>(r, srv'). (case r of Inl e \<Rightarrow> Inl e
                                | Inr attr \<Rightarrow> Inr (int (length buf), LONG_of (fa_size attr)), srv'))
        (nfs_MWrite_loop rpc fh (unat MaxWrite) offset buf None srv))"

subsection \<open>Asynchronous write\<close>

partial_function (option) nfs_MAWrite_loop ::
  "'srv rpc_ops \<Rightarrow> nfs_fh \<Rightarrow> nat \<Rightarrow> int \<Rightarrow> u32 \<Rightarrow> u8 list \<Rightarrow> int \<Rightarrow> int \<Rightarrow> 'srv \<Rightarrow> ((int + int) \<times> 'srv) option"
where
  "nfs_MAWrite_loop rpc fh MaxWrite NumRPCs offset buf numpending FileLen srv =
     (if buf = [] \<and> numpending = 0 then Some (Inr FileLen, srv)
      else
        (case (if numpending \<ge> NumRPCs \<or> buf = [] \<and> numpending \<noteq> 0 then
                 (case nfsproc_wait_write_2 rpc srv of
                    (Inl clstat, srv') \<Rightarrow> Inl (CLIENT2IoErr clstat, rpc_clnt_abort rpc srv')
                  | (Inr (status, attr), srv') \<Rightarrow>
                      if status \<noteq> NFS_OK
                      then Inl (NFSErr2IoErrCont status CHR ''w'', rpc_clnt_abort rpc srv')
                      else Inr (numpending - 1, LONG_of (max (fa_size attr) (ULONG_of FileLen)), srv'))
               else Inr (numpending, FileLen, srv)) of
           Inl (e, srv') \<Rightarrow> Some (Inl e, srv')
         | Inr (pend, flen, srv') \<Rightarrow>
             if buf \<noteq> [] then
               let Len = (if length buf < MaxWrite then length buf else MaxWrite) in
               (case nfsproc_send_writesb_2 rpc fh offset (take Len buf) srv' of
                  (Inl clstat, srv'') \<Rightarrow> Some (Inl (CLIENT2IoErr clstat), srv'')
                | (Inr _, srv'') \<Rightarrow>
                    nfs_MAWrite_loop rpc fh MaxWrite NumRPCs (offset + of_nat Len) (drop Len buf)
                      (pend + 1) flen srv'')
             else nfs_MAWrite_loop rpc fh MaxWrite NumRPCs offset buf pend flen srv'))"

declare nfs_MAWrite_loop.simps [code]

definition nfs_MAWrite ::
  "nfsglobal \<Rightarrow> 'srv rpc_ops \<Rightarrow> nfs_fh \<Rightarrow> u32 \<Rightarrow> u8 list \<Rightarrow> 'srv \<Rightarrow> ((int + int \<times> int) \<times> 'srv) option"
where
  "nfs_MAWrite ng rpc fh offset buf srv =
     (let MaxWrite = min (ng_MaxWriteSize ng) NFS_MAXDATA in
      map_option (\<lambda>(r, srv'). (case r of Inl e \<Rightarrow> Inl e | Inr flen \<Rightarrow> Inr (int (length buf), flen), srv'))
        (nfs_MAWrite_loop rpc fh (unat MaxWrite) (ng_NumWRPCs ng) offset buf 0 0 srv))"

text \<open>The choice between the two that the write cache makes.\<close>

definition nfs_write_any ::
  "nfsglobal \<Rightarrow> 'srv rpc_ops \<Rightarrow> nfs_fh \<Rightarrow> u32 \<Rightarrow> u8 list \<Rightarrow> 'srv \<Rightarrow> ((int + int \<times> int) \<times> 'srv) option"
where
  "nfs_write_any ng rpc fh offset buf srv =
     (if ng_NumWRPCs ng > 1 then nfs_MAWrite ng rpc fh offset buf srv
      else nfs_MWrite ng rpc fh offset buf srv)"

subsection \<open>Synchronous read\<close>

text \<open>\<open>None\<close> also stands for a reply longer than the rest of the caller's buffer, which the code
  would store past its end.\<close>

partial_function (option) nfs_MRead_loop ::
  "'srv rpc_ops \<Rightarrow> nfs_fh \<Rightarrow> nat \<Rightarrow> u32 \<Rightarrow> nat \<Rightarrow> u8 list \<Rightarrow> fattr option \<Rightarrow> 'srv
     \<Rightarrow> ((int + u8 list \<times> fattr) \<times> 'srv) option"
where
  "nfs_MRead_loop rpc fh MaxRead offset cnt acc res srv =
     (if cnt = 0 then (case res of None \<Rightarrow> None | Some attr \<Rightarrow> Some (Inr (acc, attr), srv))
      else
        let n = (if cnt < MaxRead then cnt else MaxRead) in
        (case nfsproc_read_buf rpc fh offset (of_nat n) srv of
           (Inl clstat, srv') \<Rightarrow> Some (Inl (CLIENT2IoErr clstat), srv')
         | (Inr (status, attr, bytes), srv') \<Rightarrow>
             if status \<noteq> NFS_OK then Some (Inl (NFSErr2IoErrCont status CHR ''r''), srv')
             else if bytes = [] then Some (Inr (acc, attr), srv')
             else if length bytes > cnt then None
             else nfs_MRead_loop rpc fh MaxRead (offset + of_nat (length bytes)) (cnt - length bytes)
                    (acc @ bytes) (Some attr) srv'))"

declare nfs_MRead_loop.simps [code]

definition nfs_MRead ::
  "nfsglobal \<Rightarrow> 'srv rpc_ops \<Rightarrow> nfs_fh \<Rightarrow> u32 \<Rightarrow> nat \<Rightarrow> 'srv \<Rightarrow> ((int + u8 list \<times> int) \<times> 'srv) option"
where
  "nfs_MRead ng rpc fh offset cnt srv =
     (let MaxRead = min (ng_MaxReadSize ng) NFS_MAXDATA in
      map_option (\<lambda>(r, srv'). (case r of Inl e \<Rightarrow> Inl e
                                | Inr (acc, attr) \<Rightarrow> Inr (acc, LONG_of (fa_size attr)), srv'))
        (nfs_MRead_loop rpc fh (unat MaxRead) offset cnt [] None srv))"

subsection \<open>What the remote server promises\<close>

text \<open>File contents, as a function of the position; \<open>put_bytes\<close> stores a run of bytes.\<close>

definition put_bytes :: "int \<Rightarrow> u8 list \<Rightarrow> (int \<Rightarrow> u8) \<Rightarrow> int \<Rightarrow> u8" where
  "put_bytes off bs c p = (if off \<le> p \<and> p < off + int (length bs) then bs ! nat (p - off) else c p)"

lemma put_bytes_Nil [simp]: "put_bytes off [] c = c"
proof (rule ext)
  show "put_bytes off [] c p = c p" for p by (cases "off \<le> p") (auto simp: put_bytes_def)
qed

lemma put_bytes_append:
  "put_bytes off (as @ bs) c = put_bytes (off + int (length as)) bs (put_bytes off as c)"
proof (rule ext)
  fix p
  have "nat (p - off) - length as = nat (p - (off + int (length as)))" by arith
  then show "put_bytes off (as @ bs) c p = put_bytes (off + int (length as)) bs (put_bytes off as c) p"
    by (auto simp: put_bytes_def nth_append nat_less_iff)
qed

text \<open>
  The WRITE call of RFC 1094: a call answered with \<open>NFS_OK\<close> has stored its data at its offset
  in the file of its handle; answered or not, a call changes no other file.
\<close>

definition write_server :: "'srv rpc_ops \<Rightarrow> ('srv \<Rightarrow> nfs_fh \<Rightarrow> int \<Rightarrow> u8) \<Rightarrow> bool" where
  "write_server rpc content \<longleftrightarrow>
     (\<forall>fh off bs s s' attr. nfsproc_write_2 rpc fh off bs s = (Inr (NFS_OK, attr), s') \<longrightarrow>
        content s' = (content s)(fh := put_bytes (uint off) bs (content s fh))) \<and>
     (\<forall>fh off bs s h. h \<noteq> fh \<longrightarrow> content (snd (nfsproc_write_2 rpc fh off bs s)) h = content s h)"

text \<open>The READ call changes no file, and \<open>NFS_OK\<close> returns at most the requested bytes, taken
  from the file.\<close>

definition read_server :: "'srv rpc_ops \<Rightarrow> ('srv \<Rightarrow> nfs_fh \<Rightarrow> int \<Rightarrow> u8) \<Rightarrow> bool" where
  "read_server rpc content \<longleftrightarrow>
     (\<forall>fh off n s s' r. nfsproc_read_buf rpc fh off n s = (r, s') \<longrightarrow> content s' = content s \<and>
        (\<forall>attr bs. r = Inr (NFS_OK, attr, bs) \<longrightarrow> length bs \<le> unat n \<and>
           (\<forall>k < length bs. bs ! k = content s fh (uint off + int k))))"

text \<open>A server that keeps its files in memory meets both; the concrete runs use it.\<close>

definition some_fattr :: fattr where
  "some_fattr = \<lparr>fa_type = NFREG, fa_mode = 0, fa_nlink = 1, fa_uid = 0, fa_gid = 0, fa_size = 100,
     fa_blocksize = 512, fa_rdev = 0, fa_blocks = 1, fa_fsid = 0, fa_fileid = 1,
     fa_atime = \<lparr>seconds = 0, useconds = 0\<rparr>, fa_mtime = \<lparr>seconds = 0, useconds = 0\<rparr>,
     fa_ctime = \<lparr>seconds = 0, useconds = 0\<rparr>\<rparr>"

definition mem_rpc :: "(nfs_fh \<Rightarrow> int \<Rightarrow> u8) rpc_ops" where
  "mem_rpc = \<lparr>
     nfsproc_read_buf = (\<lambda>fh off n s. (Inr (NFS_OK, some_fattr, map (\<lambda>k. s fh (uint off + int k)) [0..<unat n]), s)),
     nfsproc_write_2 = (\<lambda>fh off bs s. (Inr (NFS_OK, some_fattr), s(fh := put_bytes (uint off) bs (s fh)))),
     nfsproc_send_writesb_2 = (\<lambda>fh off bs s. (Inr (), s(fh := put_bytes (uint off) bs (s fh)))),
     nfsproc_wait_write_2 = (\<lambda>s. (Inr (NFS_OK, some_fattr), s)),
     rpc_clnt_abort = (\<lambda>s. s)\<rparr>"

lemma mem_rpc_servers: "write_server mem_rpc (\<lambda>s. s)" "read_server mem_rpc (\<lambda>s. s)"
  by (auto simp: write_server_def read_server_def mem_rpc_def)

lemma uint_add_of_nat:
  fixes off :: u32
  assumes "uint off + int n < 2 ^ 32"
  shows "uint (off + of_nat n) = uint off + int n"
proof -
  have "int n < 2 ^ 32" using assms uint_nonnegative [of off] by linarith
  then have n: "uint (of_nat n :: u32) = int n"
    by (auto simp: unsigned_of_nat intro!: take_bit_nat_eq_self)
  have "uint (off + of_nat n) = (uint off + uint (of_nat n :: u32)) mod 2 ^ 32"
    by (simp add: uint_word_ariths take_bit_eq_mod)
  then show ?thesis using assms n uint_nonnegative [of off] by simp
qed

subsection \<open>The loops return and transfer the bytes\<close>

lemma nfs_MWrite_loop_returns:
  "0 < MaxWrite \<Longrightarrow> buf \<noteq> [] \<or> res \<noteq> None \<Longrightarrow>
     \<exists>r srv'. nfs_MWrite_loop rpc fh MaxWrite offset buf res srv = Some (r, srv')"
proof (induction "length buf" arbitrary: buf offset res srv rule: less_induct)
  case less
  show ?case
  proof (cases "buf = []")
    case True
    with less.prems show ?thesis by (auto simp: nfs_MWrite_loop.simps)
  next
    case False
    let ?L = "if length buf < MaxWrite then length buf else MaxWrite"
    have "length (drop ?L buf) < length buf" using False less.prems(1) by simp
    then have IH: "\<exists>r s'. nfs_MWrite_loop rpc fh MaxWrite o' (drop ?L buf) (Some attr) s = Some (r, s')"
      for o' attr s using less.hyps less.prems(1) by blast
    obtain y srv' where "nfsproc_write_2 rpc fh offset (take ?L buf) srv = (y, srv')" by force
    then show ?thesis using False IH
      by (subst nfs_MWrite_loop.simps) (auto simp: Let_def split: sum.split prod.split)
  qed
qed

lemma nfs_MWrite_loop_content:
  "write_server rpc content \<Longrightarrow> 0 < MaxWrite \<Longrightarrow> uint offset + int (length buf) \<le> 2 ^ 32 \<Longrightarrow>
   nfs_MWrite_loop rpc fh MaxWrite offset buf res srv = Some (Inr attr, srv') \<Longrightarrow>
   content srv' = (content srv)(fh := put_bytes (uint offset) buf (content srv fh))"
proof (induction "length buf" arbitrary: buf offset res srv rule: less_induct)
  case less
  show ?case
  proof (cases "buf = []")
    case True
    with less.prems(4) have "srv' = srv"
      by (auto simp: nfs_MWrite_loop.simps split: option.splits)
    with True show ?thesis by simp
  next
    case False
    define L where "L = (if length buf < MaxWrite then length buf else MaxWrite)"
    have L: "0 < L" "L \<le> length buf" using False less.prems(2) by (auto simp: L_def)
    obtain a s where w: "nfsproc_write_2 rpc fh offset (take L buf) srv = (Inr (NFS_OK, a), s)"
      and rec: "nfs_MWrite_loop rpc fh MaxWrite (offset + of_nat L) (drop L buf) (Some a) s
                  = Some (Inr attr, srv')"
      using less.prems(4) False
      by (subst (asm) nfs_MWrite_loop.simps)
        (auto simp: Let_def L_def split: sum.splits prod.splits if_splits)
    have c1: "content s = (content srv)(fh := put_bytes (uint offset) (take L buf) (content srv fh))"
      using less.prems(1) w by (auto simp: write_server_def)
    show ?thesis
    proof (cases "drop L buf = []")
      case True
      then have "s = srv'" using rec by (subst (asm) nfs_MWrite_loop.simps) simp
      with c1 True show ?thesis by simp
    next
      case more: False
      have "uint offset + int L < 2 ^ 32" using less.prems(3) more L by simp
      then have off: "uint (offset + of_nat L) = uint offset + int L"
        by (rule uint_add_of_nat)
      have "content srv' = (content s)(fh := put_bytes (uint (offset + of_nat L)) (drop L buf) (content s fh))"
        by (rule less.hyps [OF _ less.prems(1,2) _ rec]) (use L less.prems(3) off in auto)
      then show ?thesis
        using c1 off L put_bytes_append [of "uint offset" "take L buf" "drop L buf"] by simp
    qed
  qed
qed

text \<open>A read returns a prefix of what was asked for, with the bytes of the file.\<close>

lemma nfs_MRead_loop_spec:
  assumes srv: "read_server rpc content"
  shows "cnt \<noteq> 0 \<or> res \<noteq> None \<Longrightarrow> MaxRead \<le> 8192 \<Longrightarrow> uint offset + int cnt \<le> 2 ^ 32 \<Longrightarrow>
   \<exists>r s'. nfs_MRead_loop rpc fh MaxRead offset cnt acc res s = Some (r, s') \<and> content s' = content s \<and>
     (\<forall>acc' attr. r = Inr (acc', attr) \<longrightarrow> (\<exists>bs. acc' = acc @ bs \<and> length bs \<le> cnt \<and>
        (\<forall>k < length bs. bs ! k = content s fh (uint offset + int k))))"
proof (induction cnt arbitrary: offset acc res s rule: less_induct)
  case (less cnt)
  show ?case
  proof (cases "cnt = 0")
    case True
    with less.prems(1) show ?thesis by (auto simp: nfs_MRead_loop.simps)
  next
    case False
    define n where "n = (if cnt < MaxRead then cnt else MaxRead)"
    have n: "n \<le> cnt" "n \<le> 8192" using less.prems(2) by (auto simp: n_def)
    have un: "unat (of_nat n :: u32) = n" using n(2) by (auto simp: unsigned_of_nat intro!: take_bit_nat_eq_self)
    obtain y s1 where y: "nfsproc_read_buf rpc fh offset (of_nat n) s = (y, s1)" by force
    have c1: "content s1 = content s" using srv y by (auto simp: read_server_def)
    show ?thesis
    proof (cases y)
      case (Inl e)
      then show ?thesis using False y c1 by (subst nfs_MRead_loop.simps) (auto simp: n_def Let_def)
    next
      case (Inr q)
      obtain status attr bs where q: "q = (status, attr, bs)" by (cases q)
      show ?thesis
      proof (cases "status = NFS_OK \<and> bs \<noteq> []")
        case False
        then show ?thesis using \<open>cnt \<noteq> 0\<close> y c1 Inr q
          by (subst nfs_MRead_loop.simps) (auto simp: n_def Let_def)
      next
        case True
        have bs: "length bs \<le> n" "\<forall>k < length bs. bs ! k = content s fh (uint offset + int k)"
        proof -
          have "nfsproc_read_buf rpc fh offset (of_nat n) s = (Inr (NFS_OK, attr, bs), s1)" using y Inr q True by simp
          then have "length bs \<le> unat (of_nat n :: u32) \<and> (\<forall>k < length bs. bs ! k = content s fh (uint offset + int k))"
            using srv unfolding read_server_def by blast
          then show "length bs \<le> n" "\<forall>k < length bs. bs ! k = content s fh (uint offset + int k)" using un by auto
        qed
        have run: "nfs_MRead_loop rpc fh MaxRead offset cnt acc res s =
            nfs_MRead_loop rpc fh MaxRead (offset + of_nat (length bs)) (cnt - length bs) (acc @ bs) (Some attr) s1"
          using \<open>cnt \<noteq> 0\<close> y Inr q True bs(1) n(1)
          by (subst nfs_MRead_loop.simps) (simp add: n_def [symmetric] Let_def)
        show ?thesis
        proof (cases "cnt - length bs = 0")
          case True
          then have "nfs_MRead_loop rpc fh MaxRead offset cnt acc res s = Some (Inr (acc @ bs, attr), s1)"
            unfolding run by (subst nfs_MRead_loop.simps) simp
          then show ?thesis using c1 bs n(1) by auto
        next
          case more: False
          then have off: "uint (offset + of_nat (length bs)) = uint offset + int (length bs)"
            using less.prems(3) by (intro uint_add_of_nat) auto
          have len: "cnt - length bs < cnt" "uint (offset + of_nat (length bs)) + int (cnt - length bs) \<le> 2 ^ 32"
            using True more less.prems(3) off bs(1) n(1) by auto
          obtain r s' where rec: "nfs_MRead_loop rpc fh MaxRead (offset + of_nat (length bs)) (cnt - length bs) (acc @ bs) (Some attr) s1 = Some (r, s')"
            "content s' = content s1"
            "\<forall>acc' attr. r = Inr (acc', attr) \<longrightarrow> (\<exists>bs'. acc' = (acc @ bs) @ bs' \<and> length bs' \<le> cnt - length bs \<and>
               (\<forall>k < length bs'. bs' ! k = content s1 fh (uint (offset + of_nat (length bs)) + int k)))"
            using less.IH [OF len(1) _ less.prems(2) len(2), of "Some attr" "acc @ bs" s1] by auto
          have "\<exists>bs''. acc' = acc @ bs'' \<and> length bs'' \<le> cnt \<and> (\<forall>k < length bs''. bs'' ! k = content s fh (uint offset + int k))"
            if r: "r = Inr (acc', attr')" for acc' attr'
          proof -
            obtain bs' where bs': "acc' = (acc @ bs) @ bs'" "length bs' \<le> cnt - length bs"
               "\<forall>k < length bs'. bs' ! k = content s fh (uint offset + int (length bs) + int k)"
              using rec(3) r c1 off by auto
            have "\<forall>k < length (bs @ bs'). (bs @ bs') ! k = content s fh (uint offset + int k)"
            proof (intro allI impI)
              fix k assume "k < length (bs @ bs')"
              then show "(bs @ bs') ! k = content s fh (uint offset + int k)"
                using bs(2) bs'(3) [rule_format, of "k - length bs"] by (cases "k < length bs") (auto simp: nth_append)
            qed
            then show ?thesis using bs'(1,2) bs(1) n(1) by (intro exI [of _ "bs @ bs'"]) auto
          qed
          then show ?thesis using run rec c1 by auto
        qed
      qed
    qed
  qed
qed

lemma nfs_MRead_spec:
  assumes srv: "read_server rpc content" and cnt: "cnt \<noteq> 0" and fit: "uint offset + int cnt \<le> 2 ^ 32"
  shows "\<exists>r s'. nfs_MRead ng rpc fh offset cnt s = Some (r, s') \<and> content s' = content s \<and>
     (\<forall>bs len. r = Inr (bs, len) \<longrightarrow> length bs \<le> cnt \<and> (\<forall>k < length bs. bs ! k = content s fh (uint offset + int k)))"
proof -
  have "unat (min (ng_MaxReadSize ng) NFS_MAXDATA) \<le> 8192"
    by (cases "ng_MaxReadSize ng \<le> NFS_MAXDATA") (auto simp: min_def word_le_nat_alt)
  then obtain r s' where "nfs_MRead_loop rpc fh (unat (min (ng_MaxReadSize ng) NFS_MAXDATA)) offset cnt [] None s = Some (r, s')"
     "content s' = content s" "\<forall>acc' attr. r = Inr (acc', attr) \<longrightarrow> (\<exists>bs. acc' = [] @ bs \<and> length bs \<le> cnt \<and>
        (\<forall>k < length bs. bs ! k = content s fh (uint offset + int k)))"
    using nfs_MRead_loop_spec [OF srv _ _ fit, where acc = "[]" and res = None] cnt by blast
  then show ?thesis by (cases r) (auto simp: nfs_MRead_def Let_def)
qed

end
