(* ===== verification/Pool.thy ===== *)
theory Pool
  imports State
begin

text \<open>
  The contract of a pool of reusable objects, which the caches rely on: obtaining succeeds
  while something is available, releasing makes it available again, and the pool knows what
  is in use. The data buffers (theory MBuf) and the write buffer headers (theory WBufInv)
  are its two providers.
\<close>

fun obtain_n :: "('s \<Rightarrow> ('a \<times> 's) option) \<Rightarrow> nat \<Rightarrow> 's \<Rightarrow> ('a list \<times> 's) option" where
  "obtain_n obt 0 s = Some ([], s)"
| "obtain_n obt (Suc n) s =
     (case obt s of None \<Rightarrow> None
      | Some (a, s1) \<Rightarrow> map_option (\<lambda>(as, s2). (as @ [a], s2)) (obtain_n obt n s1))"

fun release_list :: "('a \<Rightarrow> 's \<Rightarrow> 's option) \<Rightarrow> 'a list \<Rightarrow> 's \<Rightarrow> 's option" where
  "release_list rel [] s = Some s"
| "release_list rel (a # as) s = (case rel a s of None \<Rightarrow> None | Some s1 \<Rightarrow> release_list rel as s1)"

locale pool =
  fixes avail :: "'s \<Rightarrow> nat"
    and obt :: "'s \<Rightarrow> ('a \<times> 's) option"
    and rel :: "'a \<Rightarrow> 's \<Rightarrow> 's option"
    and inv :: "'s \<Rightarrow> 'a list \<Rightarrow> bool"
  assumes obt_ok: "inv s used \<Longrightarrow> 0 < avail s \<Longrightarrow>
      \<exists>a s'. obt s = Some (a, s') \<and> inv s' (a # used) \<and> avail s = Suc (avail s')"
    and rel_ok: "inv s (us @ a # vs) \<Longrightarrow> \<exists>s'. rel a s = Some s' \<and> inv s' (us @ vs) \<and> avail s' = Suc (avail s)"
begin

lemma obtain_n_ok:
  "inv s used \<Longrightarrow> n \<le> avail s \<Longrightarrow>
     \<exists>as s'. obtain_n obt n s = Some (as, s') \<and> length as = n \<and> inv s' (as @ used) \<and> avail s = n + avail s'"
proof (induction n arbitrary: s used)
  case (Suc n)
  obtain a s1 where o: "obt s = Some (a, s1)" "inv s1 (a # used)" "avail s = Suc (avail s1)"
    using obt_ok [OF Suc.prems(1)] Suc.prems(2) by auto
  obtain as s2 where r: "obtain_n obt n s1 = Some (as, s2)" "length as = n" "inv s2 (as @ a # used)"
      "avail s1 = n + avail s2"
    using Suc.IH [OF o(2)] o(3) Suc.prems(2) by auto
  show ?case using o r by auto
qed auto

lemma release_list_ok:
  "inv s (as @ used) \<Longrightarrow>
     \<exists>s'. release_list rel as s = Some s' \<and> inv s' used \<and> avail s' = length as + avail s"
proof (induction as arbitrary: s)
  case (Cons a as)
  then show ?case using rel_ok [of s "[]" a "as @ used"] by fastforce
qed auto

text \<open>Whatever is obtained can be given back, and then the pool is as full as before.\<close>

lemma obtain_release:
  assumes "inv s used" and "n \<le> avail s"
  shows "\<exists>as s1 s2. obtain_n obt n s = Some (as, s1) \<and> release_list rel as s1 = Some s2 \<and>
     inv s2 used \<and> avail s2 = avail s"
proof -
  obtain as s1 where o: "obtain_n obt n s = Some (as, s1)" "length as = n" "inv s1 (as @ used)" "avail s = n + avail s1"
    using obtain_n_ok [OF assms] by blast
  obtain s2 where "release_list rel as s1 = Some s2" "inv s2 used" "avail s2 = length as + avail s1"
    using release_list_ok [OF o(3)] by blast
  then show ?thesis using o by auto
qed

end

end
