(* ===== verification/MBuf.thy ===== *)
theory MBuf
  imports NfsIO Pool
begin

text \<open>
  The pool of data buffers (src/src/mbuf.c). The free buffers are linked through their own
  first bytes; the model keeps the list of their addresses in \<open>g_FreeMBufs\<close>, its head first.
  \<open>AllocMem\<close> is a parameter \<open>am\<close>: the result of the call made when \<open>i\<close> buffers are still
  wanted is \<open>am i\<close>, with 0 for failure. The pool is correct when the counter agrees with the
  list and no buffer is free twice; every operation keeps this.
\<close>

subsection \<open>Operations\<close>

fun mb_free_loop :: "nat \<Rightarrow> 'srv global \<Rightarrow> 'srv global option" where
  "mb_free_loop 0 g = Some g"
| "mb_free_loop (Suc n) g =
     (case g_FreeMBufs g of [] \<Rightarrow> None
      | mbn # rest \<Rightarrow> mb_free_loop n (g\<lparr>g_FreeMBufs := rest\<rparr>))"

definition mb_FreeSomeMBufs :: "int \<Rightarrow> 'srv global \<Rightarrow> 'srv global option" where
  "mb_FreeSomeMBufs NumBufs g =
     mb_free_loop (nat NumBufs)
       (g\<lparr>g_NumMBufs := g_NumMBufs g - NumBufs, g_NumFreeMBufs := g_NumFreeMBufs g - NumBufs\<rparr>)"

definition mb_FreeMBufs :: "'srv global \<Rightarrow> 'srv global option" where
  "mb_FreeMBufs g = (if g_NumMBufs g \<noteq> 0 then mb_FreeSomeMBufs (g_NumMBufs g) g else Some g)"

text \<open>The allocation loop: \<open>Inl\<close> carries \<open>i\<close> and the list built when an allocation failed.\<close>

fun mb_alloc_loop :: "(nat \<Rightarrow> addr) \<Rightarrow> nat \<Rightarrow> addr list \<Rightarrow> (nat \<times> addr list) + addr list" where
  "mb_alloc_loop am 0 mbn_head = Inr mbn_head"
| "mb_alloc_loop am (Suc i) mbn_head =
     (if am i = NULL then Inl (i, mbn_head) else mb_alloc_loop am i (am i # mbn_head))"

definition mb_AllocMoreMBufs ::
  "(nat \<Rightarrow> addr) \<Rightarrow> int \<Rightarrow> 'srv global \<Rightarrow> (bool \<times> 'srv global) option" where
  "mb_AllocMoreMBufs am NumBufs g =
     (case mb_alloc_loop am (nat NumBufs) (g_FreeMBufs g) of
        Inl (i, mbn_head) \<Rightarrow>
          let NumNew = NumBufs - (int i + 1);
              g1 = g\<lparr>g_FreeMBufs := mbn_head, g_NumMBufs := g_NumMBufs g + NumNew,
                     g_NumFreeMBufs := g_NumFreeMBufs g + NumNew\<rparr>
          in map_option (Pair False) (mb_FreeSomeMBufs NumNew g1)
      | Inr mbn_head \<Rightarrow>
          Some (True, g\<lparr>g_FreeMBufs := mbn_head, g_NumMBufs := g_NumMBufs g + NumBufs,
                        g_NumFreeMBufs := g_NumFreeMBufs g + NumBufs\<rparr>))"

definition mb_AllocMBufs ::
  "(nat \<Rightarrow> addr) \<Rightarrow> int \<Rightarrow> 'srv global \<Rightarrow> (bool \<times> 'srv global) option" where
  "mb_AllocMBufs am NumBufs g =
     mb_AllocMoreMBufs am NumBufs (g\<lparr>g_FreeMBufs := [], g_NumMBufs := 0, g_NumFreeMBufs := 0\<rparr>)"

text \<open>With no free buffer the code returns an uninitialised pointer: \<open>None\<close>.\<close>

definition mb_ObtainMBuf :: "'srv global \<Rightarrow> (addr \<times> 'srv global) option" where
  "mb_ObtainMBuf g =
     (if g_NumFreeMBufs g \<noteq> 0 then
        (case g_FreeMBufs g of [] \<Rightarrow> None
         | mbn # rest \<Rightarrow> Some (mbn, g\<lparr>g_NumFreeMBufs := g_NumFreeMBufs g - 1, g_FreeMBufs := rest\<rparr>))
      else None)"

definition mb_ReleaseMBuf :: "addr \<Rightarrow> 'srv global \<Rightarrow> 'srv global" where
  "mb_ReleaseMBuf mbn g =
     (if mbn \<noteq> NULL then g\<lparr>g_NumFreeMBufs := g_NumFreeMBufs g + 1, g_FreeMBufs := mbn # g_FreeMBufs g\<rparr>
      else g)"

subsection \<open>The pool invariant\<close>

text \<open>\<open>used\<close> lists the buffers that files hold.\<close>

definition mb_inv :: "'srv global \<Rightarrow> addr list \<Rightarrow> bool" where
  "mb_inv g used \<longleftrightarrow>
     distinct (used @ g_FreeMBufs g) \<and> NULL \<notin> set (used @ g_FreeMBufs g) \<and>
     g_NumFreeMBufs g = int (length (g_FreeMBufs g)) \<and>
     g_NumMBufs g = int (length used) + int (length (g_FreeMBufs g))"

lemma mb_free_loop_eq:
  "n \<le> length (g_FreeMBufs g) \<Longrightarrow>
     mb_free_loop n g = Some (g\<lparr>g_FreeMBufs := drop n (g_FreeMBufs g)\<rparr>)"
  by (induction n g rule: mb_free_loop.induct) (auto split: list.split)

lemma mb_free_loop_None: "length (g_FreeMBufs g) < n \<Longrightarrow> mb_free_loop n g = None"
  by (induction n g rule: mb_free_loop.induct) (auto split: list.split)

lemma mb_FreeSomeMBufs_eq:
  assumes "0 \<le> NumBufs" and "NumBufs \<le> int (length (g_FreeMBufs g))"
  shows "mb_FreeSomeMBufs NumBufs g =
    Some (g\<lparr>g_FreeMBufs := drop (nat NumBufs) (g_FreeMBufs g), g_NumMBufs := g_NumMBufs g - NumBufs,
            g_NumFreeMBufs := g_NumFreeMBufs g - NumBufs\<rparr>)"
  using assms by (simp add: mb_FreeSomeMBufs_def mb_free_loop_eq nat_le_iff)

lemma mb_inv_drop:
  "mb_inv g used \<Longrightarrow> n \<le> length (g_FreeMBufs g) \<Longrightarrow>
     mb_inv (g\<lparr>g_FreeMBufs := drop n (g_FreeMBufs g), g_NumMBufs := g_NumMBufs g - int n,
              g_NumFreeMBufs := g_NumFreeMBufs g - int n\<rparr>) used"
  by (auto simp: mb_inv_def dest: in_set_dropD)

lemma mb_ObtainMBuf_inv:
  assumes "mb_inv g used" and "g_NumFreeMBufs g > 0"
  shows "\<exists>b g'. mb_ObtainMBuf g = Some (b, g') \<and> mb_inv g' (b # used) \<and> b \<noteq> NULL \<and>
           b \<in> set (g_FreeMBufs g) \<and> b \<notin> set used \<and>
           g' = g\<lparr>g_NumFreeMBufs := g_NumFreeMBufs g - 1, g_FreeMBufs := tl (g_FreeMBufs g)\<rparr>"
  using assms by (cases "g_FreeMBufs g") (auto simp: mb_ObtainMBuf_def mb_inv_def)

lemma mb_ReleaseMBuf_inv:
  assumes "mb_inv g (us @ b # vs)"
  shows "mb_inv (mb_ReleaseMBuf b g) (us @ vs)"
  using assms by (auto simp: mb_ReleaseMBuf_def mb_inv_def)

interpretation mb: pool "\<lambda>g. length (g_FreeMBufs g)" mb_ObtainMBuf "\<lambda>b g. Some (mb_ReleaseMBuf b g)" mb_inv
proof
  fix s :: "'srv global" and used assume inv: "mb_inv s used" and "0 < length (g_FreeMBufs s)"
  then have "g_NumFreeMBufs s > 0" by (simp add: mb_inv_def)
  then show "\<exists>a s'. mb_ObtainMBuf s = Some (a, s') \<and> mb_inv s' (a # used) \<and>
      length (g_FreeMBufs s) = Suc (length (g_FreeMBufs s'))"
    using mb_ObtainMBuf_inv [OF inv] \<open>0 < length (g_FreeMBufs s)\<close> by (cases "g_FreeMBufs s") auto
next
  fix s :: "'srv global" and us a vs assume inv: "mb_inv s (us @ a # vs)"
  then have "a \<noteq> NULL" by (auto simp: mb_inv_def)
  then show "\<exists>s'. Some (mb_ReleaseMBuf a s) = Some s' \<and> mb_inv s' (us @ vs) \<and>
      length (g_FreeMBufs s') = Suc (length (g_FreeMBufs s))"
    using mb_ReleaseMBuf_inv [OF inv] by (simp add: mb_ReleaseMBuf_def)
qed

text \<open>The allocation loop pushes the results in order and stops at the first failure.\<close>

lemma mb_alloc_loop_Inr:
  "mb_alloc_loop am n mbn_head = Inr mbn_new \<longleftrightarrow>
     (\<forall>i<n. am i \<noteq> NULL) \<and> mbn_new = map am [0..<n] @ mbn_head"
proof (induction n arbitrary: mbn_head)
  case (Suc n)
  show ?case using Suc [of "am n # mbn_head"] by (auto simp: less_Suc_eq)
qed auto

lemma mb_alloc_loop_Inl:
  "mb_alloc_loop am n mbn_head = Inl (i, mbn_new) \<Longrightarrow>
     i < n \<and> am i = NULL \<and> (\<forall>j. i < j \<and> j < n \<longrightarrow> am j \<noteq> NULL) \<and> mbn_new = map am [Suc i..<n] @ mbn_head"
proof (induction n arbitrary: mbn_head)
  case (Suc n)
  show ?case
  proof (cases "am n = NULL")
    case False
    then have "mb_alloc_loop am n (am n # mbn_head) = Inl (i, mbn_new)" using Suc.prems by simp
    from Suc.IH [OF this] show ?thesis using False by (auto simp: less_Suc_eq)
  qed (use Suc.prems in auto)
qed simp

text \<open>Growing the pool is all or nothing: when \<open>AllocMem\<close> delivers every buffer the pool has
  exactly the new buffers more, all free; when one allocation fails every buffer got so far is
  returned and the pool is what it was. In both cases no buffer is lost or free twice.\<close>

theorem mb_AllocMoreMBufs_all_or_nothing:
  assumes inv: "mb_inv g used" and n: "0 \<le> n"
    and fresh: "distinct (map am [0..<nat n])"
      "\<And>i. i < nat n \<Longrightarrow> am i \<notin> set (used @ g_FreeMBufs g)"
  shows "\<exists>g'. mb_AllocMoreMBufs am n g = Some ((\<forall>i < nat n. am i \<noteq> NULL), g') \<and> mb_inv g' used \<and>
    (if \<forall>i < nat n. am i \<noteq> NULL
     then g' = g\<lparr>g_FreeMBufs := map am [0..<nat n] @ g_FreeMBufs g, g_NumMBufs := g_NumMBufs g + n,
                 g_NumFreeMBufs := g_NumFreeMBufs g + n\<rparr>
     else g' = g)"
proof (cases "mb_alloc_loop am (nat n) (g_FreeMBufs g)")
  case (Inr mbn_new)
  then have h: "\<forall>i<nat n. am i \<noteq> NULL" "mbn_new = map am [0..<nat n] @ g_FreeMBufs g"
    by (auto simp: mb_alloc_loop_Inr)
  have "\<forall>i<nat n. am i \<notin> set used" "\<forall>i<nat n. am i \<notin> set (g_FreeMBufs g)" using fresh(2) by auto
  then show ?thesis using Inr h inv n fresh(1)
    by (auto simp: mb_AllocMoreMBufs_def mb_inv_def)
next
  case (Inl p)
  then obtain i mbn_new where p: "mb_alloc_loop am (nat n) (g_FreeMBufs g) = Inl (i, mbn_new)" by (cases p) auto
  note h = mb_alloc_loop_Inl [OF p]
  have i: "int i < n" using h n by linarith
  have "mb_FreeSomeMBufs (n - (int i + 1))
         (g\<lparr>g_FreeMBufs := mbn_new, g_NumMBufs := g_NumMBufs g + (n - (int i + 1)),
            g_NumFreeMBufs := g_NumFreeMBufs g + (n - (int i + 1))\<rparr>) = Some g"
    by (subst mb_FreeSomeMBufs_eq) (use i h in auto)
  then have "mb_AllocMoreMBufs am n g = Some (False, g)"
    unfolding mb_AllocMoreMBufs_def p by (simp add: Let_def)
  moreover have "\<not> (\<forall>j<nat n. am j \<noteq> NULL)" using h by auto
  ultimately show ?thesis using inv by auto
qed

theorem mb_AllocMoreMBufs_all_or_nothing_witness:
  "let am = (\<lambda>i. if i = 0 then NULL else i + 100);
       g = (cleared_global ())\<lparr>g_FreeMBufs := [4, 9], g_NumFreeMBufs := 2, g_NumMBufs := 3\<rparr>
   in mb_AllocMoreMBufs am 3 g = Some (False, g) \<and> mb_inv g [7]"
proof -
  define g where "g = (cleared_global ())\<lparr>g_FreeMBufs := [4, 9], g_NumFreeMBufs := 2, g_NumMBufs := 3\<rparr>"
  define am :: "nat \<Rightarrow> addr" where "am = (\<lambda>i. if i = 0 then NULL else i + 100)"
  have inv: "mb_inv g [7]" by (simp add: g_def mb_inv_def)
  have dist: "distinct (map am [0..<nat 3])" by (simp add: am_def upt_rec)
  have new: "am i \<notin> set ([7] @ g_FreeMBufs g)" if "i < nat 3" for i
    using that by (auto simp: am_def g_def)
  have "am 0 = NULL" "(0::nat) < nat 3" by (auto simp: am_def)
  then have fail: "(\<forall>i < nat 3. am i \<noteq> NULL) = False" by blast
  from mb_AllocMoreMBufs_all_or_nothing [of g "[7]" 3 am, OF inv _ dist new]
  have "mb_AllocMoreMBufs am 3 g = Some (False, g)" unfolding fail if_False by fastforce
  then show ?thesis using inv by (simp add: Let_def g_def am_def)
qed

end
