(* ===== verification/WBuf.thy ===== *)
theory WBuf
  imports MBuf
begin

text \<open>
  The write-behind cache of an open file (src/src/wbuf.c). A file's cluster is a list of
  buffer headers sorted by file offset; each header owns one data buffer of the pool and
  records its dirty intervals (theory WInfo). Headers live in the store \<open>hp_wbh\<close> and are
  linked through \<open>wbh_Next\<close>, both in the cluster and in the pool of free headers. The file
  handle \<open>efh\<close> that the functions receive by pointer is threaded next to the global state.
  This theory holds the operations; WBufInv holds their correctness.
\<close>

subsection \<open>Access to headers\<close>

definition upd_wbh :: "addr \<Rightarrow> (wbufhdr \<Rightarrow> wbufhdr) \<Rightarrow> 'srv global \<Rightarrow> 'srv global option" where
  "upd_wbh a f g =
     (case hp_wbh g a of None \<Rightarrow> None | Some h \<Rightarrow> Some (g\<lparr>hp_wbh := (hp_wbh g)(a \<mapsto> f h)\<rparr>))"

definition WBufsAvail :: "'srv global \<Rightarrow> int" where
  "WBufsAvail g = min (g_NumFreeMBufs g) (g_NumFreeWBufHdrs g)"

text \<open>\<open>(ULONG) pos & (0xFFFFFFFF - (MBUFSIZE - 1))\<close>, assigned to a \<open>LONG\<close>.\<close>

definition WBufAlignFileOffs :: "int \<Rightarrow> int" where
  "WBufAlignFileOffs pos = LONG_of (ULONG_of pos AND (0xFFFFFFFF - (8192 - 1)))"

definition WBufCacheFull :: "wbufcluster \<Rightarrow> bool" where
  "WBufCacheFull w \<longleftrightarrow> wbc_WBufsMax w \<le> wbc_WBufsUsed w"

subsection \<open>Clusters and free headers\<close>

definition wc_CreateCache :: "bool \<Rightarrow> int \<Rightarrow> efh \<Rightarrow> efh" where
  "wc_CreateCache alloc_ok MaxBufs e =
     e\<lparr>efh_WBuf := (if alloc_ok
        then Some \<lparr>wbc_WBufsMax = MaxBufs, wbc_WBufsUsed = 0, wbc_FirstData = NULL,
                   wbc_LastData = NULL, wbc_PosData = NULL, wbc_FilePos = 0\<rparr>
        else None)\<rparr>"

definition wc_DeleteCache :: "efh \<Rightarrow> efh" where
  "wc_DeleteCache e = (case efh_WBuf e of None \<Rightarrow> e | Some _ \<Rightarrow> e\<lparr>efh_WBuf := None\<rparr>)"

partial_function (option) wc_free_loop :: "'srv global \<Rightarrow> 'srv global option" where
  "wc_free_loop g =
     (if g_FreeWBufHdr g = NULL then Some g
      else (case hp_wbh g (g_FreeWBufHdr g) of None \<Rightarrow> None
            | Some h \<Rightarrow> wc_free_loop (g\<lparr>g_FreeWBufHdr := wbh_Next h,
                                      hp_wbh := (hp_wbh g)(g_FreeWBufHdr g := None)\<rparr>)))"

declare wc_free_loop.simps [code]

definition wc_FreeWBufs :: "'srv global \<Rightarrow> 'srv global option" where
  "wc_FreeWBufs g = map_option (\<lambda>g. g\<lparr>g_FreeWBufHdr := NULL, g_NumWBufHdrs := 0, g_NumFreeWBufHdrs := 0\<rparr>)
     (wc_free_loop g)"

text \<open>\<open>AllocVec\<close> returns cleared memory at the address \<open>am i\<close>, or NULL.\<close>

definition cleared_wbufhdr :: wbufhdr where
  "cleared_wbufhdr = \<lparr>wbh_Next = NULL, wbh_FileOffs = 0, wbh_NumInfo = 0, wbh_Data = NULL,
     wbh_Info = replicate WBUFHDRINFOSIZE \<lparr>wbi_From = 0, wbi_To = 0\<rparr>\<rparr>"

fun wc_alloc_loop :: "(nat \<Rightarrow> addr) \<Rightarrow> int \<Rightarrow> nat \<Rightarrow> addr \<Rightarrow> 'srv global \<Rightarrow> (bool \<times> 'srv global) option" where
  "wc_alloc_loop am NumBufs 0 wbh_head g =
     Some (True, g\<lparr>g_FreeWBufHdr := wbh_head, g_NumWBufHdrs := NumBufs, g_NumFreeWBufHdrs := NumBufs\<rparr>)"
| "wc_alloc_loop am NumBufs (Suc i) wbh_head g =
     (if am i = NULL then
        let n = NumBufs - (int i + 1) in
        map_option (Pair False)
          (wc_FreeWBufs (g\<lparr>g_FreeWBufHdr := wbh_head, g_NumWBufHdrs := n, g_NumFreeWBufHdrs := n\<rparr>))
      else wc_alloc_loop am NumBufs i (am i)
             (g\<lparr>hp_wbh := (hp_wbh g)(am i \<mapsto> cleared_wbufhdr\<lparr>wbh_Next := wbh_head\<rparr>)\<rparr>))"

definition wc_AllocWBufs :: "(nat \<Rightarrow> addr) \<Rightarrow> int \<Rightarrow> 'srv global \<Rightarrow> (bool \<times> 'srv global) option" where
  "wc_AllocWBufs am NumBufs g = wc_alloc_loop am NumBufs (nat NumBufs) NULL g"

text \<open>\<open>NULL\<close> is the result when no header or no data buffer is free.\<close>

definition ObtainWBuf :: "'srv global \<Rightarrow> (addr \<times> 'srv global) option" where
  "ObtainWBuf g =
     (if g_NumFreeWBufHdrs g \<noteq> 0 \<and> g_NumFreeMBufs g \<noteq> 0 then
        do {
          (mbn, g1) \<leftarrow> mb_ObtainMBuf g;
          let wbh = g_FreeWBufHdr g1;
          h \<leftarrow> hp_wbh g1 wbh;
          Some (wbh, g1\<lparr>g_NumFreeWBufHdrs := g_NumFreeWBufHdrs g1 - 1,
                        g_FreeWBufHdr := wbh_Next h,
                        hp_wbh := (hp_wbh g1)(wbh \<mapsto> h\<lparr>wbh_FileOffs := 0, wbh_NumInfo := 0,
                                                        wbh_Data := mbn\<rparr>)\<rparr>)
        }
      else Some (NULL, g))"

definition ReleaseWBuf :: "addr \<Rightarrow> 'srv global \<Rightarrow> 'srv global option" where
  "ReleaseWBuf wbh g =
     (if wbh = NULL then Some g
      else do {
        h \<leftarrow> hp_wbh g wbh;
        let g1 = mb_ReleaseMBuf (wbh_Data h) (g\<lparr>g_NumFreeWBufHdrs := g_NumFreeWBufHdrs g + 1\<rparr>);
        Some (g1\<lparr>hp_wbh := (hp_wbh g1)(wbh \<mapsto> h\<lparr>wbh_Next := g_FreeWBufHdr g1\<rparr>),
                 g_FreeWBufHdr := wbh\<rparr>)
      })"

subsection \<open>The list of a cluster\<close>

definition WBufAddTail :: "addr \<Rightarrow> 'srv global \<Rightarrow> wbufcluster \<Rightarrow> ('srv global \<times> wbufcluster) option" where
  "WBufAddTail wbh g w =
     do {
       let w1 = w\<lparr>wbc_WBufsUsed := wbc_WBufsUsed w + 1\<rparr>;
       g1 \<leftarrow> upd_wbh wbh (wbh_Next_update (\<lambda>_. NULL)) g;
       (if wbc_FirstData w1 \<noteq> NULL then
          do {
            g2 \<leftarrow> upd_wbh (wbc_LastData w1) (wbh_Next_update (\<lambda>_. wbh)) g1;
            Some (g2, w1\<lparr>wbc_LastData := wbh\<rparr>)
          }
        else Some (g1, w1\<lparr>wbc_FirstData := wbh, wbc_LastData := wbh\<rparr>))
     }"

definition WBufAddHead :: "addr \<Rightarrow> 'srv global \<Rightarrow> wbufcluster \<Rightarrow> ('srv global \<times> wbufcluster) option" where
  "WBufAddHead wbh g w =
     (let w1 = w\<lparr>wbc_WBufsUsed := wbc_WBufsUsed w + 1\<rparr> in
      if wbc_FirstData w1 \<noteq> NULL then
        do {
          g1 \<leftarrow> upd_wbh wbh (wbh_Next_update (\<lambda>_. wbc_FirstData w1)) g;
          Some (g1, w1\<lparr>wbc_FirstData := wbh\<rparr>)
        }
      else
        do {
          g1 \<leftarrow> upd_wbh wbh (wbh_Next_update (\<lambda>_. NULL)) g;
          Some (g1, w1\<lparr>wbc_FirstData := wbh, wbc_LastData := wbh\<rparr>)
        })"

definition WBufInsert ::
  "addr \<Rightarrow> addr \<Rightarrow> 'srv global \<Rightarrow> wbufcluster \<Rightarrow> ('srv global \<times> wbufcluster) option" where
  "WBufInsert oldwbh wbh g w =
     (if oldwbh \<noteq> NULL then
        do {
          let w1 = w\<lparr>wbc_WBufsUsed := wbc_WBufsUsed w + 1\<rparr>;
          old \<leftarrow> hp_wbh g oldwbh;
          g1 \<leftarrow> upd_wbh wbh (wbh_Next_update (\<lambda>_. wbh_Next old)) g;
          g2 \<leftarrow> upd_wbh oldwbh (wbh_Next_update (\<lambda>_. wbh)) g1;
          h \<leftarrow> hp_wbh g2 wbh;
          Some (g2, if wbh_Next h = NULL then w1\<lparr>wbc_LastData := wbh\<rparr> else w1)
        }
      else WBufAddHead wbh g w)"

text \<open>The result address is NULL when there is no cluster or it is empty.\<close>

definition WBufRemHead ::
  "'srv global \<Rightarrow> wbufcluster option \<Rightarrow> (addr \<times> wbufcluster option) option" where
  "WBufRemHead g wbc =
     (case wbc of None \<Rightarrow> Some (NULL, None)
      | Some w \<Rightarrow>
          if wbc_WBufsUsed w \<noteq> 0 then
            do {
              h \<leftarrow> hp_wbh g (wbc_FirstData w);
              Some (wbc_FirstData w,
                    Some (w\<lparr>wbc_WBufsUsed := wbc_WBufsUsed w - 1, wbc_FirstData := wbh_Next h\<rparr>))
            }
          else Some (NULL, Some w))"

subsection \<open>Flushing\<close>

definition buf_bytes :: "(int \<Rightarrow> u8) \<Rightarrow> int \<Rightarrow> int \<Rightarrow> u8 list" where
  "buf_bytes d from to = map d [from..to]"

text \<open>The loop over the \<open>i\<close> intervals of a header from index \<open>k\<close>: one remote write each.\<close>

fun flush_infos ::
  "'srv rpc_ops \<Rightarrow> nfsglobal \<Rightarrow> nfs_fh option \<Rightarrow> int \<Rightarrow> (int \<Rightarrow> u8) \<Rightarrow> wbufhdrinfo list \<Rightarrow> nat \<Rightarrow> nat
     \<Rightarrow> 'srv \<Rightarrow> ((int + unit) \<times> 'srv) option" where
  "flush_infos rpc ng fh offs d info k 0 srv = Some (Inr (), srv)"
| "flush_infos rpc ng fh offs d info k (Suc i) srv =
     (if k < length info then
        do {
          f \<leftarrow> fh;
          let wbi = info ! k;
          (r, srv1) \<leftarrow> nfs_write_any ng rpc f (ULONG_of (offs + wbi_From wbi))
                        (buf_bytes d (wbi_From wbi) (wbi_To wbi)) srv;
          (case r of
             Inl res2 \<Rightarrow> Some (Inl res2, srv1)
           | Inr _ \<Rightarrow> flush_infos rpc ng fh offs d info (Suc k) i srv1)
        }
      else None)"

text \<open>\<open>while(wbh = WBufRemHead(...)) ReleaseWBuf(g, wbh)\<close>\<close>

partial_function (option) release_all ::
  "'srv global \<Rightarrow> wbufcluster option \<Rightarrow> ('srv global \<times> wbufcluster option) option" where
  "release_all g wbc =
     do {
       (wbh, wbc1) \<leftarrow> WBufRemHead g wbc;
       (if wbh = NULL then Some (g, wbc1)
        else do {
          g1 \<leftarrow> ReleaseWBuf wbh g;
          release_all g1 wbc1
        })
     }"

declare release_all.simps [code]

text \<open>\<open>Inl Res2\<close> is DOSFALSE, \<open>Inr ()\<close> is DOSTRUE.\<close>

partial_function (option) flush_loop ::
  "'srv rpc_ops \<Rightarrow> bool \<Rightarrow> nfs_fh option \<Rightarrow> 'srv global \<Rightarrow> wbufcluster option
     \<Rightarrow> ((int + unit) \<times> 'srv global \<times> wbufcluster option) option" where
  "flush_loop rpc IgnoreEmptyBlocks fh g wbc =
     do {
       (wbh, wbc1) \<leftarrow> WBufRemHead g wbc;
       (if wbh = NULL then Some (Inr (), g, wbc1)
        else do {
          h \<leftarrow> hp_wbh g wbh;
          (r, srv1) \<leftarrow>
            (if wbh_NumInfo h = 0 \<and> \<not> IgnoreEmptyBlocks then Some (Inr (), g_srv g)
             else flush_infos rpc (g_NFSGlobal g) fh (wbh_FileOffs h) (mb_data g (wbh_Data h))
                    (wbh_Info h) 0 (wbh_NumInfo h) (g_srv g));
          g1 \<leftarrow> ReleaseWBuf wbh (g\<lparr>g_srv := srv1\<rparr>);
          (case r of
             Inl res2 \<Rightarrow> do { (g2, wbc2) \<leftarrow> release_all g1 wbc1; Some (Inl res2, g2, wbc2) }
           | Inr _ \<Rightarrow> flush_loop rpc IgnoreEmptyBlocks fh g1 wbc1)
        })
     }"

declare flush_loop.simps [code]

definition iwc_FlushCache ::
  "'srv rpc_ops \<Rightarrow> bool \<Rightarrow> 'srv global \<Rightarrow> efh \<Rightarrow> ((int + unit) \<times> 'srv global \<times> efh) option" where
  "iwc_FlushCache rpc IgnoreEmptyBlocks g e =
     do {
       (r, g1, wbc1) \<leftarrow> flush_loop rpc IgnoreEmptyBlocks (efh_fh g e) g (efh_WBuf e);
       Some (r, g1, e\<lparr>efh_WBuf := wbc1\<rparr>)
     }"

definition wc_FlushCache ::
  "'srv rpc_ops \<Rightarrow> 'srv global \<Rightarrow> efh \<Rightarrow> ((int + unit) \<times> 'srv global \<times> efh) option" where
  "wc_FlushCache rpc g e = iwc_FlushCache rpc False g e"

subsection \<open>Writing\<close>

text \<open>The result is \<open>Inl Res2\<close> for -1 and otherwise the length written.\<close>

definition FlushCacheAndWrite ::
  "'srv rpc_ops \<Rightarrow> 'srv global \<Rightarrow> efh \<Rightarrow> u8 list \<Rightarrow> ((int + int) \<times> 'srv global \<times> efh) option" where
  "FlushCacheAndWrite rpc g e buf =
     do {
       (r, g1, e1) \<leftarrow> (if HasBufferedWData e then iwc_FlushCache rpc True g e else Some (Inr (), g, e));
       (case r of
          Inl res2 \<Rightarrow> Some (Inl res2, g1, e1)
        | Inr _ \<Rightarrow>
            do {
              f \<leftarrow> efh_fh g1 e1;
              (r2, srv) \<leftarrow> nfs_write_any (g_NFSGlobal g1) rpc f (ULONG_of (efh_FilePos e1)) buf (g_srv g1);
              let g2 = g1\<lparr>g_srv := srv\<rparr>;
              (case r2 of
                 Inl res2 \<Rightarrow> Some (Inl res2, g2, e1)
               | Inr (n, flen) \<Rightarrow> Some (Inr n, g2, e1\<lparr>efh_FileLen := flen\<rparr>))
            })
     }"

text \<open>The search of \<open>WBufSeekAndPrepare\<close>: the header found and its predecessor.\<close>

partial_function (option) wbuf_scan ::
  "'srv global \<Rightarrow> int \<Rightarrow> addr \<Rightarrow> addr \<Rightarrow> (addr \<times> addr) option" where
  "wbuf_scan g Pos wbh prev_wbh =
     do {
       h \<leftarrow> hp_wbh g wbh;
       (if wbh_FileOffs h < Pos then wbuf_scan g Pos (wbh_Next h) wbh else Some (wbh, prev_wbh))
     }"

declare wbuf_scan.simps [code]

text \<open>The outcomes of \<open>WBufSeekAndPrepare\<close> and \<open>WBufWrite\<close>: -1 with \<open>Res2\<close>, 0 or a
  positive number.\<close>

datatype wresult = WFail int | WNoMem | WDone int

definition set_wbc :: "wbufcluster \<Rightarrow> efh \<Rightarrow> efh" where
  "set_wbc w e = e\<lparr>efh_WBuf := Some w\<rparr>"

text \<open>Obtain a header, flushing once when none is free and this file holds some. The Boolean
  tells that a flush succeeded here.\<close>

definition obtain_or_flush ::
  "'srv rpc_ops \<Rightarrow> bool \<Rightarrow> 'srv global \<Rightarrow> efh \<Rightarrow> ((int + addr \<times> bool) \<times> 'srv global \<times> efh) option" where
  "obtain_or_flush rpc ign g e =
     do {
       w \<leftarrow> efh_WBuf e;
       (r, g1, e1) \<leftarrow> (if WBufCacheFull w then iwc_FlushCache rpc ign g e else Some (Inr (), g, e));
       (case r of
          Inl res2 \<Rightarrow> Some (Inl res2, g1, e1)
        | Inr _ \<Rightarrow>
            do {
              (new, g2) \<leftarrow> ObtainWBuf g1;
              (if new = NULL \<and> HasBufferedWData e1 then
                 do {
                   (r2, g3, e3) \<leftarrow> iwc_FlushCache rpc ign g2 e1;
                   (case r2 of
                      Inl res2 \<Rightarrow> Some (Inl res2, g3, e3)
                    | Inr _ \<Rightarrow> do { (new, g4) \<leftarrow> ObtainWBuf g3; Some (Inr (new, True), g4, e3) })
                 }
               else Some (Inr (new, WBufCacheFull w), g2, e1))
            })
     }"

text \<open>Where \<open>NewPos\<close> lies: \<open>None\<close> when a new first buffer is needed, otherwise the header that
  becomes PosData.\<close>

definition wbuf_seek :: "'srv global \<Rightarrow> wbufcluster \<Rightarrow> int \<Rightarrow> addr option option" where
  "wbuf_seek g w NewPos =
     (if wbc_FirstData w \<noteq> NULL then
        do {
          first \<leftarrow> hp_wbh g (wbc_FirstData w);
          (if NewPos < wbh_FileOffs first then Some None
           else do {
             last \<leftarrow> hp_wbh g (wbc_LastData w);
             (if NewPos \<ge> wbh_FileOffs last + MBUFSIZE then Some (Some (wbc_LastData w))
              else do {
                (wbh, prev) \<leftarrow> wbuf_scan g (NewPos - MBUFSIZE) (wbc_FirstData w) NULL;
                h \<leftarrow> hp_wbh g wbh;
                Some (Some (if wbh_FileOffs h > NewPos then prev else wbh))
              })
           })
        }
      else Some None)"

definition WBufSeekAndPrepare ::
  "'srv rpc_ops \<Rightarrow> 'srv global \<Rightarrow> efh \<Rightarrow> int \<Rightarrow> (wresult \<times> 'srv global \<times> efh) option" where
  "WBufSeekAndPrepare rpc g e NewPos =
     do {
       w0 \<leftarrow> efh_WBuf e;
       let w = w0\<lparr>wbc_FilePos := NewPos\<rparr>;
       relpos \<leftarrow> wbuf_seek g w NewPos;
       (case relpos of
          Some pos \<Rightarrow> Some (WDone 1, g, set_wbc (w\<lparr>wbc_PosData := pos\<rparr>) e)
        | None \<Rightarrow>
            do {
              (r, g1, e1) \<leftarrow> obtain_or_flush rpc False g (set_wbc w e);
              (case r of
                 Inl res2 \<Rightarrow> Some (WFail res2, g1, e1)
               | Inr (new, _) \<Rightarrow>
                   if new = NULL then Some (WNoMem, g1, e1)
                   else do {
                     w1 \<leftarrow> efh_WBuf e1;
                     g2 \<leftarrow> upd_wbh new (\<lambda>h. h\<lparr>wbh_FileOffs := WBufAlignFileOffs NewPos, wbh_NumInfo := 0\<rparr>) g1;
                     (g3, w2) \<leftarrow> WBufAddHead new g2 (w1\<lparr>wbc_PosData := new\<rparr>);
                     Some (WDone 1, g3, set_wbc w2 e1)
                   })
            })
     }"

text \<open>\<open>CopyMem\<close> into a data buffer.\<close>

definition mb_copy_in :: "addr \<Rightarrow> int \<Rightarrow> u8 list \<Rightarrow> 'srv global \<Rightarrow> 'srv global option" where
  "mb_copy_in b offs bs g =
     (if b \<noteq> NULL \<and> 0 \<le> offs \<and> offs + int (length bs) \<le> MBUFSIZE
      then Some (g\<lparr>mb_data := (mb_data g)(b := put_bytes offs bs (mb_data g b))\<rparr>) else None)"

text \<open>The header that receives the next byte: PosData, its successor, or a new one inserted
  behind PosData (at the head when a flush has emptied the list).\<close>

definition wbuf_target ::
  "'srv rpc_ops \<Rightarrow> 'srv global \<Rightarrow> efh \<Rightarrow> int \<Rightarrow>
     ((wresult + addr) \<times> 'srv global \<times> efh) option" where
  "wbuf_target rpc g e Pos =
     do {
       w \<leftarrow> efh_WBuf e;
       let wbh = wbc_PosData w;
       h \<leftarrow> hp_wbh g wbh;
       (if Pos \<ge> wbh_FileOffs h + MBUFSIZE then
          do {
            next_ok \<leftarrow> (if wbh_Next h \<noteq> NULL then
                 do { nh \<leftarrow> hp_wbh g (wbh_Next h);
                      Some (IsInclBetween Pos (wbh_FileOffs nh) (wbh_FileOffs nh + MBUFSIZE - 1)) }
               else Some False);
            (if next_ok then Some (Inr (wbh_Next h), g, e)
             else do {
               (r, g1, e1) \<leftarrow> obtain_or_flush rpc True g e;
               (case r of
                  Inl res2 \<Rightarrow> Some (Inl (WFail res2), g1, e1)
                | Inr (new, flushed) \<Rightarrow>
                    if new = NULL then Some (Inl WNoMem, g1, e1)
                    else do {
                      w1 \<leftarrow> efh_WBuf e1;
                      g2 \<leftarrow> upd_wbh new (\<lambda>h. h\<lparr>wbh_FileOffs := WBufAlignFileOffs Pos, wbh_NumInfo := 0\<rparr>) g1;
                      (g3, w2) \<leftarrow> WBufInsert (if flushed then NULL else wbh) new g2 (w1\<lparr>wbc_PosData := new\<rparr>);
                      Some (Inr new, g3, set_wbc w2 e1)
                    })
             })
          }
        else Some (Inr wbh, g, e))
     }"

definition WBufWrite ::
  "'srv rpc_ops \<Rightarrow> 'srv global \<Rightarrow> efh \<Rightarrow> u8 list \<Rightarrow> (wresult \<times> 'srv global \<times> efh) option" where
  "WBufWrite rpc g e buf =
     do {
       w \<leftarrow> efh_WBuf e;
       let Pos = wbc_FilePos w;
       (t, g1, e1) \<leftarrow> wbuf_target rpc g e Pos;
       (case t of
          Inl r \<Rightarrow> Some (r, g1, e1)
        | Inr wbh \<Rightarrow>
            do {
              h \<leftarrow> hp_wbh g1 wbh;
              let Offs = Pos - wbh_FileOffs h;
              let Cnt = min (MBUFSIZE - Offs) (int (length buf));
              g2 \<leftarrow> mb_copy_in (wbh_Data h) Offs (take (nat Cnt) buf) g1;
              w1 \<leftarrow> efh_WBuf e1;
              let w2 = w1\<lparr>wbc_FilePos := wbc_FilePos w1 + Cnt\<rparr>;
              (n, info) \<leftarrow> WBufUpdateInfo (wbh_NumInfo h) (wbh_Info h) Offs Cnt;
              g3 \<leftarrow> upd_wbh wbh (\<lambda>h. h\<lparr>wbh_NumInfo := n, wbh_Info := info\<rparr>) g2;
              let e2 = set_wbc w2 e1;
              ph \<leftarrow> hp_wbh g3 (wbc_PosData w2);
              (if wbh_NumInfo ph + 1 \<ge> WBUFHDRINFOSIZE then
                 do {
                   (r, g4, e3) \<leftarrow> wc_FlushCache rpc g3 e2;
                   Some (case r of Inl res2 \<Rightarrow> WFail res2 | Inr _ \<Rightarrow> WDone Cnt, g4, e3)
                 }
               else Some (WDone Cnt, g3, e2))
            })
     }"

text \<open>The loop of \<open>wc_WriteCache\<close>; a write that advances by 0 bytes would repeat forever.\<close>

partial_function (option) wc_write_loop ::
  "'srv rpc_ops \<Rightarrow> 'srv global \<Rightarrow> efh \<Rightarrow> u8 list \<Rightarrow> int \<Rightarrow> ((int + int) \<times> 'srv global \<times> efh) option" where
  "wc_write_loop rpc g e buf OrigNum =
     (if buf = [] then
        do {
          w \<leftarrow> efh_WBuf e;
          Some (Inr OrigNum, g,
            if wbc_FilePos w > efh_FileLen e then e\<lparr>efh_FileLen := wbc_FilePos w\<rparr> else e)
        }
      else do {
        (r, g1, e1) \<leftarrow> WBufWrite rpc g e buf;
        (case r of
           WFail res2 \<Rightarrow> Some (Inl res2, g1, e1)
         | WNoMem \<Rightarrow> FlushCacheAndWrite rpc g1 e1 buf
         | WDone Cnt \<Rightarrow> wc_write_loop rpc g1 e1 (drop (nat Cnt) buf) OrigNum)
      })"

declare wc_write_loop.simps [code]

definition wc_WriteCache ::
  "'srv rpc_ops \<Rightarrow> 'srv global \<Rightarrow> efh \<Rightarrow> u8 list \<Rightarrow> ((int + int) \<times> 'srv global \<times> efh) option" where
  "wc_WriteCache rpc g e buf =
     (case efh_WBuf e of
        None \<Rightarrow> FlushCacheAndWrite rpc g e buf
      | Some w \<Rightarrow>
          let Num = int (length buf);
              BufsNeeded = (Num + MBUFSIZE - 1) div MBUFSIZE
          in if ULONG_of Num > g_WriteBufferLimit g \<or> BufsNeeded > wbc_WBufsMax w
                \<or> BufsNeeded > wbc_WBufsUsed w + WBufsAvail g
             then FlushCacheAndWrite rpc g e buf
             else do {
               (r, g1, e1) \<leftarrow> WBufSeekAndPrepare rpc g e (efh_FilePos e);
               (case r of
                  WFail res2 \<Rightarrow> Some (Inl res2, g1, e1)
                | WNoMem \<Rightarrow> FlushCacheAndWrite rpc g1 e1 buf
                | WDone _ \<Rightarrow> wc_write_loop rpc g1 e1 buf Num)
             })"

end
