(* ===== verification/WBufInv.thy ===== *)
theory WBufInv
  imports WBuf
begin

text \<open>
  Correctness of the write cache. The pool invariant \<open>wpool\<close> accounts for every header and
  every data buffer: each is free or held by exactly one file. \<open>cluster\<close> is the shape of one
  file's cache: sorted by offset, aligned, disjoint blocks with sound interval tables. The
  meaning of a cache is the file content a reader must see, \<open>wview\<close>: the remote content with
  the dirty bytes laid over it. Writing changes the view exactly at the written range,
  flushing moves the view to the server, and both keep the invariants.
\<close>

subsection \<open>Views\<close>

definition hdr_view :: "wbufhdr \<Rightarrow> (int \<Rightarrow> u8) \<Rightarrow> (int \<Rightarrow> u8) \<Rightarrow> int \<Rightarrow> u8" where
  "hdr_view h d c p =
     (if p - wbh_FileOffs h \<in> covers (take (wbh_NumInfo h) (wbh_Info h))
      then d (p - wbh_FileOffs h) else c p)"

definition hdr_at :: "'srv global \<Rightarrow> addr \<Rightarrow> wbufhdr" where
  "hdr_at g a = the (hp_wbh g a)"

abbreviation hdata :: "'srv global \<Rightarrow> addr \<Rightarrow> addr" where "hdata g a \<equiv> wbh_Data (hdr_at g a)"
abbreviation hoffs :: "'srv global \<Rightarrow> addr \<Rightarrow> int" where "hoffs g a \<equiv> wbh_FileOffs (hdr_at g a)"

definition nxt :: "'srv global \<Rightarrow> addr \<Rightarrow> addr" where
  "nxt g a = wbh_Next (hdr_at g a)"

fun wview :: "'srv global \<Rightarrow> addr list \<Rightarrow> (int \<Rightarrow> u8) \<Rightarrow> int \<Rightarrow> u8" where
  "wview g [] c = c"
| "wview g (a # as) c = wview g as (hdr_view (hdr_at g a) (mb_data g (hdata g a)) c)"

lemma wview_append: "wview g (as @ bs) c = wview g bs (wview g as c)"
  by (induction as arbitrary: c) auto

lemma wview_cong:
  "(\<And>a. a \<in> set as \<Longrightarrow> wbh_FileOffs (hdr_at g' a) = wbh_FileOffs (hdr_at g a) \<and>
      wbh_NumInfo (hdr_at g' a) = wbh_NumInfo (hdr_at g a) \<and> wbh_Info (hdr_at g' a) = wbh_Info (hdr_at g a) \<and>
      mb_data g' (hdata g' a) = mb_data g (hdata g a)) \<Longrightarrow> wview g' as c = wview g as c"
proof (induction as arbitrary: c)
  case (Cons a as)
  have "hdr_view (hdr_at g' a) (mb_data g' (hdata g' a)) c = hdr_view (hdr_at g a) (mb_data g (hdata g a)) c"
    by (rule ext) (use Cons.prems [of a] in \<open>simp add: hdr_view_def\<close>)
  then show ?case using Cons by simp
qed simp

lemma hdr_view_empty: "wbh_NumInfo h = 0 \<Longrightarrow> hdr_view h d c = c"
  by (rule ext) (simp add: hdr_view_def)

lemma hdr_view_commute:
  assumes "covers (take (wbh_NumInfo h) (wbh_Info h)) \<subseteq> {0..<MBUFSIZE}"
    and "off + int (length bs) \<le> wbh_FileOffs h \<or> wbh_FileOffs h + MBUFSIZE \<le> off"
  shows "hdr_view h d (put_bytes off bs c) = put_bytes off bs (hdr_view h d c)"
proof (rule ext)
  fix p
  have "p - wbh_FileOffs h \<in> covers (take (wbh_NumInfo h) (wbh_Info h)) \<Longrightarrow>
     \<not> (off \<le> p \<and> p < off + int (length bs))"
    using assms by force
  then show "hdr_view h d (put_bytes off bs c) p = put_bytes off bs (hdr_view h d c) p"
    by (auto simp: hdr_view_def put_bytes_def)
qed

subsection \<open>Invariants\<close>

text \<open>A dirty block: a sound table, at an aligned offset.\<close>

definition hdr_ok :: "wbufhdr \<Rightarrow> bool" where
  "hdr_ok h \<longleftrightarrow> info_ok (wbh_NumInfo h) (wbh_Info h) \<and>
     MBUFSIZE dvd wbh_FileOffs h \<and> 0 \<le> wbh_FileOffs h \<and> wbh_FileOffs h < 2 ^ 31"

definition cluster :: "'srv global \<Rightarrow> wbufcluster \<Rightarrow> addr list \<Rightarrow> bool" where
  "cluster g w as \<longleftrightarrow>
     chain (nxt g) (wbc_FirstData w) as NULL \<and> wbc_WBufsUsed w = int (length as) \<and>
     (as \<noteq> [] \<longrightarrow> wbc_LastData w = last as) \<and> (\<forall>a\<in>set as. hdr_ok (hdr_at g a)) \<and>
     sorted_wrt (<) (map (hoffs g) as)"

text \<open>\<open>used\<close>: the headers all files hold; \<open>fs\<close>: the free headers; \<open>rbs\<close>: the data buffers
  held by read buffers.\<close>

definition wpool :: "'srv global \<Rightarrow> addr list \<Rightarrow> addr list \<Rightarrow> addr list \<Rightarrow> bool" where
  "wpool g used fs rbs \<longleftrightarrow>
     chain (nxt g) (g_FreeWBufHdr g) fs NULL \<and> distinct (used @ fs) \<and>
     (\<forall>a\<in>set (used @ fs). a \<noteq> NULL \<and> a \<in> dom (hp_wbh g) \<and> length (wbh_Info (hdr_at g a)) = WBUFHDRINFOSIZE) \<and>
     g_NumFreeWBufHdrs g = int (length fs) \<and> g_NumWBufHdrs g = int (length used) + int (length fs) \<and>
     mb_inv g (map (hdata g) used @ rbs)"

definition wconf_same :: "'srv global \<Rightarrow> 'srv global \<Rightarrow> bool" where
  "wconf_same g g' \<longleftrightarrow>
     g_Flags g' = g_Flags g \<and> g_LockKey g' = g_LockKey g \<and> g_NumBuffers g' = g_NumBuffers g \<and>
     g_NFSGlobal g' = g_NFSGlobal g \<and> g_WriteBufferLimit g' = g_WriteBufferLimit g \<and>
     g_BufSizePerFile g' = g_BufSizePerFile g \<and> g_NumMBufs g' = g_NumMBufs g \<and>
     g_NumWBufHdrs g' = g_NumWBufHdrs g \<and> g_FH g' = g_FH g \<and> fh_LastId g' = fh_LastId g \<and>
     hp_efh g' = hp_efh g \<and> g_DH g' = g_DH g \<and> hp_edh g' = hp_edh g \<and> dl_LockList g' = dl_LockList g \<and> hp_elock g' = hp_elock g \<and>
     g_Res1 g' = g_Res1 g \<and> g_Res2 g' = g_Res2 g"

text \<open>What an operation on one file leaves alone: the configuration, the headers \<open>os\<close> of the
  other files with the bytes in their buffers, and the read buffers.\<close>

definition wframe :: "addr list \<Rightarrow> addr list \<Rightarrow> 'srv global \<Rightarrow> 'srv global \<Rightarrow> bool" where
  "wframe os rbs g g' \<longleftrightarrow> wconf_same g g' \<and>
     (\<forall>a\<in>set os. hp_wbh g' a = hp_wbh g a \<and> mb_data g' (hdata g a) = mb_data g (hdata g a)) \<and>
     (\<forall>b\<in>set rbs. mb_data g' b = mb_data g b)"

lemma wframe_refl [simp]: "wframe os rbs g g"
  by (simp add: wframe_def wconf_same_def)

lemma wframe_trans: "wframe os rbs g g' \<Longrightarrow> wframe os rbs g' g'' \<Longrightarrow> wframe os rbs g g''"
  by (auto simp: wframe_def wconf_same_def hdr_at_def)

lemma hdr_at_upd [simp]:
  "hdr_at (g\<lparr>hp_wbh := (hp_wbh g)(a \<mapsto> h)\<rparr>) b = (if b = a then h else hdr_at g b)"
  by (simp add: hdr_at_def)

lemma nxt_upd [simp]:
  "nxt (g\<lparr>hp_wbh := (hp_wbh g)(a \<mapsto> h)\<rparr>) = (nxt g)(a := wbh_Next h)"
  by (rule ext) (simp add: nxt_def)

lemma hdr_at_srv [simp]:
  "hdr_at (g\<lparr>g_srv := s\<rparr>) = hdr_at g" "nxt (g\<lparr>g_srv := s\<rparr>) = nxt g"
  "hdr_at (g\<lparr>mb_data := d\<rparr>) = hdr_at g" "nxt (g\<lparr>mb_data := d\<rparr>) = nxt g"
  by (auto simp: hdr_at_def nxt_def fun_eq_iff)

lemma hdr_at_Some: "hp_wbh g a = Some h \<Longrightarrow> hdr_at g a = h"
  by (simp add: hdr_at_def)

lemma hdr_at_cong: "hp_wbh g' a = hp_wbh g a \<Longrightarrow> hdr_at g' a = hdr_at g a"
  by (simp add: hdr_at_def)

lemma wpool_hdr: "wpool g used fs rbs \<Longrightarrow> a \<in> set used \<or> a \<in> set fs \<Longrightarrow> hp_wbh g a = Some (hdr_at g a)"
  by (force simp: wpool_def hdr_at_def dom_def)

lemma wpool_free: "wpool g used fs rbs \<Longrightarrow>
    chain (nxt g) (g_FreeWBufHdr g) fs NULL \<and> distinct used \<and> distinct fs \<and> set used \<inter> set fs = {} \<and>
    g_NumFreeWBufHdrs g = int (length fs) \<and> mb_inv g (map (hdata g) used @ rbs)"
  by (simp add: wpool_def)

lemma wpoolI:
  assumes "mb_inv g (D @ rbs)" and "map (hdata g) used = D"
    and "chain (nxt g) (g_FreeWBufHdr g) fs NULL" and "distinct (used @ fs)"
    and "\<And>a. a \<in> set (used @ fs) \<Longrightarrow>
          a \<noteq> NULL \<and> hp_wbh g a \<noteq> None \<and> length (wbh_Info (hdr_at g a)) = WBUFHDRINFOSIZE"
    and "g_NumFreeWBufHdrs g = int (length fs)" and "g_NumWBufHdrs g = int (length used) + int (length fs)"
  shows "wpool g used fs rbs"
  using assms unfolding wpool_def by (auto simp: domIff)

lemma wpool_member:
  "wpool g used fs rbs \<Longrightarrow> a \<in> set used \<or> a \<in> set fs \<Longrightarrow>
     a \<noteq> NULL \<and> hp_wbh g a = Some (hdr_at g a) \<and> length (wbh_Info (hdr_at g a)) = WBUFHDRINFOSIZE"
  using wpool_hdr [of g used fs rbs a] by (auto simp: wpool_def)

lemma wpool_count: "wpool g used fs rbs \<Longrightarrow> g_NumWBufHdrs g = int (length used) + int (length fs)"
  by (simp add: wpool_def)

lemma cluster_member_ok: "cluster g w as \<Longrightarrow> a \<in> set as \<Longrightarrow> hdr_ok (hdr_at g a)"
  by (simp add: cluster_def)

lemma cluster_cong:
  "(\<And>a. a \<in> set as \<Longrightarrow> hp_wbh g' a = hp_wbh g a) \<Longrightarrow> cluster g' w as = cluster g w as"
  unfolding cluster_def
  by (subst chain_cong [of as "nxt g'" "nxt g"])
    (auto simp: nxt_def hdr_at_def intro!: arg_cong [of _ _ "sorted_wrt (<)"] map_cong cong: map_cong)

subsection \<open>Obtaining and releasing headers\<close>

lemma ObtainWBuf_spec:
  assumes inv: "wpool g used fs rbs"
  shows "if g_NumFreeWBufHdrs g \<noteq> 0 \<and> g_NumFreeMBufs g \<noteq> 0
    then \<exists>a g' h b. ObtainWBuf g = Some (a, g') \<and> a \<noteq> NULL \<and> fs = a # tl fs \<and> wpool g' (a # used) (tl fs) rbs \<and>
           hp_wbh g' = (hp_wbh g)(a \<mapsto> h) \<and> wbh_FileOffs h = 0 \<and> wbh_NumInfo h = 0 \<and> wbh_Data h = b \<and>
           length (wbh_Info h) = WBUFHDRINFOSIZE \<and> b \<noteq> NULL \<and> b \<in> set (g_FreeMBufs g) \<and>
           mb_data g' = mb_data g \<and> g_srv g' = g_srv g \<and> wconf_same g g'
    else ObtainWBuf g = Some (NULL, g)"
proof (cases "g_NumFreeWBufHdrs g \<noteq> 0 \<and> g_NumFreeMBufs g \<noteq> 0")
  case False
  then show ?thesis by (subst if_not_P) (auto simp: ObtainWBuf_def)
next
  case True
  obtain a fs' where fs: "fs = a # fs'" using True inv by (cases fs) (auto simp: wpool_def)
  have a: "g_FreeWBufHdr g = a" "a \<noteq> NULL" "hp_wbh g a = Some (hdr_at g a)"
    "chain (nxt g) (nxt g a) fs' NULL" "a \<notin> set used" "a \<notin> set fs'"
    "length (wbh_Info (hdr_at g a)) = WBUFHDRINFOSIZE"
    using inv fs by (auto simp: wpool_def hdr_at_def)
  have mb: "mb_inv g (map (hdata g) used @ rbs)" using inv by (simp add: wpool_def)
  have pos: "g_NumFreeMBufs g > 0" using True mb by (simp add: mb_inv_def)
  obtain b g1 where b: "mb_ObtainMBuf g = Some (b, g1)" "mb_inv g1 (b # map (hdata g) used @ rbs)"
      "b \<noteq> NULL" "b \<in> set (g_FreeMBufs g)"
      "g1 = g\<lparr>g_NumFreeMBufs := g_NumFreeMBufs g - 1, g_FreeMBufs := tl (g_FreeMBufs g)\<rparr>"
    using mb_ObtainMBuf_inv [OF mb pos] by blast
  define h where "h = (hdr_at g a)\<lparr>wbh_FileOffs := 0, wbh_NumInfo := 0, wbh_Data := b\<rparr>"
  define g' where "g' = g1\<lparr>g_NumFreeWBufHdrs := g_NumFreeWBufHdrs g1 - 1,
     g_FreeWBufHdr := wbh_Next (hdr_at g a), hp_wbh := (hp_wbh g1)(a \<mapsto> h)\<rparr>"
  have run: "ObtainWBuf g = Some (a, g')"
    using True a b by (simp add: ObtainWBuf_def g'_def h_def Let_def)
  have at: "hdr_at g' = (hdr_at g)(a := h)" by (rule ext) (simp add: g'_def b(5) hdr_at_def)
  have nx: "nxt g' c = nxt g c" if "c \<noteq> a" for c using that by (simp add: nxt_def at)
  have "map (hdata g') used = map (hdata g) used" using a by (auto simp: at)
  moreover have "chain (nxt g') (nxt g a) fs' NULL"
    by (rule chain_frame [OF a(4)]) (metis a(6) nx)
  moreover have "mb_inv g' ((b # map (hdata g) used) @ rbs)" using b(2) by (simp add: g'_def mb_inv_def)
  moreover have fields: "g_FreeWBufHdr g' = nxt g a" "g_NumFreeWBufHdrs g' = g_NumFreeWBufHdrs g - 1"
    "g_NumWBufHdrs g' = g_NumWBufHdrs g" "hp_wbh g' = (hp_wbh g)(a \<mapsto> h)"
    by (simp_all add: g'_def b(5) nxt_def)
  ultimately have "wpool g' (a # used) fs' rbs"
  proof (intro wpoolI [of g' "b # map (hdata g) used"])
    fix c assume "c \<in> set ((a # used) @ fs')"
    then have "c \<noteq> NULL \<and> hp_wbh g c = Some (hdr_at g c) \<and> length (wbh_Info (hdr_at g c)) = WBUFHDRINFOSIZE"
      using wpool_member [OF inv, of c] fs by auto
    then show "c \<noteq> NULL \<and> hp_wbh g' c \<noteq> None \<and> length (wbh_Info (hdr_at g' c)) = WBUFHDRINFOSIZE"
      by (cases "c = a") (auto simp: at fields h_def)
  qed (use wpool_free [OF inv] wpool_count [OF inv] a fs in \<open>auto simp: at h_def\<close>)
  then show ?thesis using True run fs a b
    by (auto simp: g'_def h_def wconf_same_def)
qed

lemma ReleaseWBuf_spec:
  assumes inv: "wpool g (us @ a # vs) fs rbs"
  shows "\<exists>g'. ReleaseWBuf a g = Some g' \<and> wpool g' (us @ vs) (a # fs) rbs \<and>
           (\<forall>c. c \<noteq> a \<longrightarrow> hp_wbh g' c = hp_wbh g c) \<and> mb_data g' = mb_data g \<and> g_srv g' = g_srv g \<and>
           wconf_same g g'"
proof -
  have a: "a \<noteq> NULL" "hp_wbh g a = Some (hdr_at g a)" "a \<notin> set us" "a \<notin> set vs" "a \<notin> set fs"
    "length (wbh_Info (hdr_at g a)) = WBUFHDRINFOSIZE"
    using inv by (auto simp: wpool_def hdr_at_def)
  define g0 where "g0 = g\<lparr>g_NumFreeWBufHdrs := g_NumFreeWBufHdrs g + 1\<rparr>"
  have "mb_inv g0 (map (hdata g) us @ hdata g a # (map (hdata g) vs @ rbs))"
    using inv by (auto simp: wpool_def mb_inv_def g0_def)
  from mb_ReleaseMBuf_inv [OF this]
  have mb: "mb_inv (mb_ReleaseMBuf (hdata g a) g0) (map (hdata g) (us @ vs) @ rbs)" by simp
  define g1 where "g1 = mb_ReleaseMBuf (hdata g a) g0"
  define g' where "g' = g1\<lparr>hp_wbh := (hp_wbh g1)(a \<mapsto> (hdr_at g a)\<lparr>wbh_Next := g_FreeWBufHdr g1\<rparr>),
                 g_FreeWBufHdr := a\<rparr>"
  have run: "ReleaseWBuf a g = Some g'"
    using a by (simp add: ReleaseWBuf_def g'_def g1_def g0_def Let_def)
  have same: "g_FreeWBufHdr g1 = g_FreeWBufHdr g" "hp_wbh g1 = hp_wbh g" "mb_data g1 = mb_data g"
    "g_srv g1 = g_srv g" "wconf_same g g1" "g_NumFreeWBufHdrs g1 = g_NumFreeWBufHdrs g + 1"
    by (auto simp: g1_def g0_def mb_ReleaseMBuf_def wconf_same_def)
  have at: "hdr_at g' = (hdr_at g)(a := (hdr_at g a)\<lparr>wbh_Next := g_FreeWBufHdr g\<rparr>)"
    by (rule ext) (simp add: g'_def same hdr_at_def)
  have "chain (nxt g) (g_FreeWBufHdr g) fs NULL" using wpool_free [OF inv] by simp
  then have "chain (nxt g') (g_FreeWBufHdr g) fs NULL"
    by (rule chain_frame) (use a in \<open>auto simp: nxt_def at\<close>)
  moreover have "map (hdata g') (us @ vs) = map (hdata g) (us @ vs)" using a by (auto simp: at)
  moreover have "mb_inv g' (map (hdata g) (us @ vs) @ rbs)"
    using mb unfolding g1_def [symmetric] by (simp add: g'_def mb_inv_def)
  moreover have fields: "g_FreeWBufHdr g' = a" "g_NumFreeWBufHdrs g' = g_NumFreeWBufHdrs g + 1"
    "g_NumWBufHdrs g' = g_NumWBufHdrs g" "hp_wbh g' = (hp_wbh g)(a \<mapsto> (hdr_at g a)\<lparr>wbh_Next := g_FreeWBufHdr g\<rparr>)"
    using same by (simp_all add: g'_def wconf_same_def)
  ultimately have "wpool g' (us @ vs) (a # fs) rbs"
  proof (intro wpoolI [of g' "map (hdata g) (us @ vs)"])
    fix c assume "c \<in> set ((us @ vs) @ a # fs)"
    then have "c \<noteq> NULL \<and> hp_wbh g c = Some (hdr_at g c) \<and> length (wbh_Info (hdr_at g c)) = WBUFHDRINFOSIZE"
      using wpool_member [OF inv, of c] by auto
    then show "c \<noteq> NULL \<and> hp_wbh g' c \<noteq> None \<and> length (wbh_Info (hdr_at g' c)) = WBUFHDRINFOSIZE"
      by (cases "c = a") (auto simp: at fields)
  qed (use wpool_free [OF inv] wpool_count [OF inv] a in \<open>auto simp: nxt_def at\<close>)
  then show ?thesis using run same by (auto simp: g'_def wconf_same_def)
qed

text \<open>The headers as a pool: available are as many as there are free headers with a buffer.\<close>

interpretation wb: pool "\<lambda>g. nat (WBufsAvail g)" ObtainWBuf ReleaseWBuf "\<lambda>g used. \<exists>fs. wpool g used fs rbs"
proof
  fix s :: "'srv global" and used assume "\<exists>fs. wpool s used fs rbs" and av: "0 < nat (WBufsAvail s)"
  then obtain fs where inv: "wpool s used fs rbs" by blast
  have n: "g_NumFreeWBufHdrs s \<noteq> 0 \<and> g_NumFreeMBufs s \<noteq> 0" using av by (auto simp: WBufsAvail_def)
  obtain a g' where g': "ObtainWBuf s = Some (a, g')" "fs = a # tl fs" "wpool g' (a # used) (tl fs) rbs" "wconf_same s g'"
    using ObtainWBuf_spec [OF inv] n by auto
  have "g_NumFreeWBufHdrs s = g_NumFreeWBufHdrs g' + 1" "g_NumFreeMBufs s = g_NumFreeMBufs g' + 1"
    using inv g'(2-4) by (auto simp: wpool_def mb_inv_def wconf_same_def dest: arg_cong [of fs _ length])
  then show "\<exists>a s'. ObtainWBuf s = Some (a, s') \<and> (\<exists>fs. wpool s' (a # used) fs rbs) \<and>
      nat (WBufsAvail s) = Suc (nat (WBufsAvail s'))"
    using g' av by (auto simp: WBufsAvail_def)
next
  fix s :: "'srv global" and us a vs assume "\<exists>fs. wpool s (us @ a # vs) fs rbs"
  then obtain fs where inv: "wpool s (us @ a # vs) fs rbs" by blast
  obtain g' where g': "ReleaseWBuf a s = Some g'" "wpool g' (us @ vs) (a # fs) rbs" "wconf_same s g'"
    using ReleaseWBuf_spec [OF inv] by blast
  have "g_NumFreeWBufHdrs g' = g_NumFreeWBufHdrs s + 1" "g_NumFreeMBufs g' = g_NumFreeMBufs s + 1" "WBufsAvail s \<ge> 0"
    using inv g'(2,3) by (auto simp: wpool_def mb_inv_def wconf_same_def WBufsAvail_def)
  then show "\<exists>s'. ReleaseWBuf a s = Some s' \<and> (\<exists>fs. wpool s' (us @ vs) fs rbs) \<and>
      nat (WBufsAvail s') = Suc (nat (WBufsAvail s))"
    using g' by (auto simp: WBufsAvail_def)
qed

subsection \<open>Emptying a cluster\<close>

definition wbc_same :: "wbufcluster \<Rightarrow> wbufcluster \<Rightarrow> bool" where
  "wbc_same w w' \<longleftrightarrow> wbc_WBufsMax w' = wbc_WBufsMax w \<and> wbc_FilePos w' = wbc_FilePos w"

lemma wbc_same_refl [simp]: "wbc_same w w"
  by (simp add: wbc_same_def)

lemma wbc_same_trans: "wbc_same w w' \<Longrightarrow> wbc_same w' w'' \<Longrightarrow> wbc_same w w''"
  by (simp add: wbc_same_def)

lemma WBufRemHead_Nil: "cluster g w [] \<Longrightarrow> WBufRemHead g (Some w) = Some (NULL, Some w)"
  by (simp add: WBufRemHead_def cluster_def)

lemma WBufRemHead_Cons:
  assumes "wpool g (a # used) fs rbs" and "cluster g w (a # as)"
  shows "\<exists>w'. WBufRemHead g (Some w) = Some (a, Some w') \<and> cluster g w' as \<and> a \<noteq> NULL \<and>
           wbc_same w w'"
  using assms wpool_member [OF assms(1), of a]
  by (auto simp: WBufRemHead_def cluster_def nxt_def wbc_same_def)

lemma release_all_spec:
  "wpool g (as @ os) fs rbs \<Longrightarrow> cluster g w as \<Longrightarrow>
     \<exists>g' w'. release_all g (Some w) = Some (g', Some w') \<and> wpool g' os (rev as @ fs) rbs \<and>
       cluster g' w' [] \<and> wframe os rbs g g' \<and> mb_data g' = mb_data g \<and> g_srv g' = g_srv g \<and>
       wbc_same w w'"
proof (induction as arbitrary: g w fs)
  case Nil
  then show ?case
    by (subst release_all.simps) (simp add: WBufRemHead_Nil)
next
  case (Cons a as)
  obtain w1 where w1: "WBufRemHead g (Some w) = Some (a, Some w1)" "cluster g w1 as" "a \<noteq> NULL"
      "wbc_same w w1"
    using WBufRemHead_Cons [of g a "as @ os" fs rbs w as] Cons.prems by auto
  obtain g1 where g1: "ReleaseWBuf a g = Some g1" "wpool g1 (as @ os) (a # fs) rbs"
      "\<forall>c. c \<noteq> a \<longrightarrow> hp_wbh g1 c = hp_wbh g c" "mb_data g1 = mb_data g" "g_srv g1 = g_srv g" "wconf_same g g1"
    using ReleaseWBuf_spec [of g "[]" a "as @ os" fs rbs] Cons.prems by auto
  have a: "a \<notin> set as" "a \<notin> set os" using wpool_free [OF Cons.prems(1)] by auto
  have "cluster g1 w1 as" using w1(2) g1(3) a by (subst cluster_cong) auto
  then obtain g' w' where *: "release_all g1 (Some w1) = Some (g', Some w')"
      "wpool g' os (rev as @ a # fs) rbs" "cluster g' w' []" "wframe os rbs g1 g'" "mb_data g' = mb_data g1"
      "g_srv g' = g_srv g1" "wbc_same w1 w'"
    using Cons.IH [OF g1(2)] by blast
  have "wframe os rbs g g1" using g1 a by (auto simp: wframe_def)
  then have "wframe os rbs g g'" using * wframe_trans by blast
  then show ?case using * w1 g1 by (subst release_all.simps) (simp add: wbc_same_def)
qed

subsection \<open>One remote write\<close>

text \<open>The hypotheses on the server: the synchronous WRITE of RFC 1094 and a usable transfer size.\<close>

definition wserver_ok :: "'srv rpc_ops \<Rightarrow> ('srv \<Rightarrow> nfs_fh \<Rightarrow> int \<Rightarrow> u8) \<Rightarrow> nfsglobal \<Rightarrow> bool" where
  "wserver_ok rpc content ng \<longleftrightarrow>
     write_server rpc content \<and> 0 < ng_MaxWriteSize ng \<and> ng_NumWRPCs ng \<le> 1"

lemma nfs_write_any_spec:
  assumes srv: "wserver_ok rpc content ng" and buf: "buf \<noteq> []" and fit: "uint off + int (length buf) \<le> 2 ^ 32"
  shows "\<exists>r s'. nfs_write_any ng rpc f off buf s = Some (r, s') \<and>
    (\<forall>n fl. r = Inr (n, fl) \<longrightarrow> n = int (length buf) \<and>
       content s' = (content s)(f := put_bytes (uint off) buf (content s f)))"
proof -
  have pos: "0 < unat (min (ng_MaxWriteSize ng) NFS_MAXDATA)"
    using srv by (auto simp: wserver_ok_def unat_gt_0 min_def)
  obtain r s' where r: "nfs_MWrite_loop rpc f (unat (min (ng_MaxWriteSize ng) NFS_MAXDATA)) off buf None s = Some (r, s')"
    using nfs_MWrite_loop_returns [OF pos, of buf None rpc f off s] buf by auto
  show ?thesis
  proof (cases r)
    case (Inl e)
    then show ?thesis using r srv
      by (simp add: nfs_write_any_def nfs_MWrite_def Let_def wserver_ok_def)
  next
    case (Inr attr)
    have "content s' = (content s)(f := put_bytes (uint off) buf (content s f))"
      using nfs_MWrite_loop_content [OF _ pos fit] r Inr srv by (auto simp: wserver_ok_def)
    then show ?thesis using r Inr srv
      by (simp add: nfs_write_any_def nfs_MWrite_def Let_def wserver_ok_def)
  qed
qed

lemma length_buf_bytes: "a \<le> b \<Longrightarrow> int (length (buf_bytes d a b)) = b - a + 1"
  by (simp add: buf_bytes_def)

lemma put_buf_bytes:
  assumes "a \<le> b"
  shows "put_bytes (o' + a) (buf_bytes d a b) c p = (if p - o' \<in> {a..b} then d (p - o') else c p)"
proof (cases "o' + a \<le> p \<and> p \<le> o' + b")
  case True
  then have "[a..b] ! nat (p - (o' + a)) = p - o'" by (subst nth_upto) auto
  then show ?thesis using True assms by (simp add: put_bytes_def length_buf_bytes) (simp add: buf_bytes_def)
next
  case False
  then show ?thesis using assms by (auto simp: put_bytes_def length_buf_bytes)
qed

subsection \<open>Flushing\<close>

lemma flush_infos_spec:
  assumes srv: "wserver_ok rpc content ng"
  shows "k + i \<le> length info \<Longrightarrow> 0 \<le> offs \<Longrightarrow> offs + MBUFSIZE \<le> 2 ^ 31 \<Longrightarrow>
    (\<And>j. k \<le> j \<Longrightarrow> j < k + i \<Longrightarrow> 0 \<le> wbi_From (info ! j) \<and> wbi_From (info ! j) \<le> wbi_To (info ! j) \<and>
       wbi_To (info ! j) < MBUFSIZE) \<Longrightarrow>
    \<exists>r s'. flush_infos rpc ng (Some f) offs d info k i s = Some (r, s') \<and>
      (r = Inr () \<longrightarrow> content s' = (content s)(f := (\<lambda>p.
         if p - offs \<in> covers (take i (drop k info)) then d (p - offs) else content s f p)))"
proof (induction i arbitrary: k s)
  case (Suc i)
  define wbi where "wbi = info ! k"
  have cell: "0 \<le> wbi_From wbi" "wbi_From wbi \<le> wbi_To wbi" "wbi_To wbi < MBUFSIZE"
    using Suc.prems(4) [of k] by (auto simp: wbi_def)
  have drop: "take (Suc i) (drop k info) = wbi # take i (drop (Suc k) info)"
    using Suc.prems(1) by (simp add: wbi_def Cons_nth_drop_Suc [symmetric])
  have off: "uint (ULONG_of (offs + wbi_From wbi)) = offs + wbi_From wbi"
    using Suc.prems(2,3) cell by (intro uint_ULONG_of) auto
  have len: "int (length (buf_bytes d (wbi_From wbi) (wbi_To wbi))) = wbi_To wbi - wbi_From wbi + 1"
    using cell length_buf_bytes by auto
  then have ne: "buf_bytes d (wbi_From wbi) (wbi_To wbi) \<noteq> []" using cell by auto
  obtain r s1 where w: "nfs_write_any ng rpc f (ULONG_of (offs + wbi_From wbi))
       (buf_bytes d (wbi_From wbi) (wbi_To wbi)) s = Some (r, s1)"
    "\<forall>n fl. r = Inr (n, fl) \<longrightarrow> content s1 = (content s)(f := put_bytes (offs + wbi_From wbi)
       (buf_bytes d (wbi_From wbi) (wbi_To wbi)) (content s f))"
    using nfs_write_any_spec [OF srv ne, of "ULONG_of (offs + wbi_From wbi)" f s] off len Suc.prems(2,3) cell
    by auto
  have run: "flush_infos rpc ng (Some f) offs d info k (Suc i) s =
      (case r of Inl res2 \<Rightarrow> Some (Inl res2, s1) | Inr _ \<Rightarrow> flush_infos rpc ng (Some f) offs d info (Suc k) i s1)"
    using w(1) Suc.prems(1) by (simp add: wbi_def)
  show ?case
  proof (cases r)
    case (Inl e)
    then show ?thesis using run by simp
  next
    case (Inr q)
    then have c1: "content s1 = (content s)(f := put_bytes (offs + wbi_From wbi)
       (buf_bytes d (wbi_From wbi) (wbi_To wbi)) (content s f))"
      using w(2) by (cases q) auto
    have "\<exists>r s'. flush_infos rpc ng (Some f) offs d info (Suc k) i s1 = Some (r, s') \<and>
      (r = Inr () \<longrightarrow> content s' = (content s1)(f := (\<lambda>p.
         if p - offs \<in> covers (take i (drop (Suc k) info)) then d (p - offs) else content s1 f p)))"
      by (rule Suc.IH) (use Suc.prems in auto)
    then show ?thesis using run Inr c1 cell unfolding drop
      by (auto simp: put_buf_bytes fun_eq_iff)
  qed
qed (auto simp: fun_eq_iff)

lemma hdr_ok_room: "hdr_ok h \<Longrightarrow> wbh_FileOffs h + MBUFSIZE \<le> 2 ^ 31"
  by (auto simp: hdr_ok_def dvd_def)

lemma flush_hdr_spec:
  assumes srv: "wserver_ok rpc content ng" and ok: "hdr_ok h"
  shows "\<exists>r s'. flush_infos rpc ng (Some f) (wbh_FileOffs h) d (wbh_Info h) 0 (wbh_NumInfo h) s = Some (r, s') \<and>
    (r = Inr () \<longrightarrow> content s' = (content s)(f := hdr_view h d (content s f)))"
proof -
  have i: "info_ok (wbh_NumInfo h) (wbh_Info h)" using ok by (simp add: hdr_ok_def)
  have "\<exists>r s'. flush_infos rpc ng (Some f) (wbh_FileOffs h) d (wbh_Info h) 0 (wbh_NumInfo h) s = Some (r, s') \<and>
      (r = Inr () \<longrightarrow> content s' = (content s)(f := (\<lambda>p.
         if p - wbh_FileOffs h \<in> covers (take (wbh_NumInfo h) (drop 0 (wbh_Info h)))
         then d (p - wbh_FileOffs h) else content s f p)))"
    by (rule flush_infos_spec [OF srv])
      (use ok i info_ok_cell [OF i] hdr_ok_room [OF ok] in \<open>auto simp: info_ok_def hdr_ok_def\<close>)
  then show ?thesis by (auto simp: hdr_view_def fun_eq_iff)
qed

text \<open>Flushing always ends, gives every header and buffer back, and on success leaves on the
  server what a reader saw before.\<close>

lemma flush_loop_spec:
  assumes srv: "wserver_ok rpc content ng"
  shows "wpool g (as @ os) fs rbs \<Longrightarrow> cluster g w as \<Longrightarrow> g_NFSGlobal g = ng \<Longrightarrow>
    \<exists>r g' w'. flush_loop rpc ign (Some f) g (Some w) = Some (r, g', Some w') \<and>
      wpool g' os (rev as @ fs) rbs \<and> cluster g' w' [] \<and> wframe os rbs g g' \<and>
      wbc_same w w' \<and>
      (r = Inr () \<longrightarrow> content (g_srv g') = (content (g_srv g))(f := wview g as (content (g_srv g) f)))"
proof (induction as arbitrary: g w fs)
  case Nil
  then show ?case by (subst flush_loop.simps) (simp add: WBufRemHead_Nil)
next
  case (Cons a as)
  obtain w1 where w1: "WBufRemHead g (Some w) = Some (a, Some w1)" "cluster g w1 as" "a \<noteq> NULL"
      "wbc_same w w1"
    using WBufRemHead_Cons [of g a "as @ os" fs rbs w as] Cons.prems by auto
  have h: "hp_wbh g a = Some (hdr_at g a)" "hdr_ok (hdr_at g a)"
    using wpool_member [OF Cons.prems(1), of a] Cons.prems(2) by (auto simp: cluster_def)
  obtain r s1 where fl: "flush_infos rpc ng (Some f) (hoffs g a) (mb_data g (hdata g a))
       (wbh_Info (hdr_at g a)) 0 (wbh_NumInfo (hdr_at g a)) (g_srv g) = Some (r, s1)"
    "r = Inr () \<longrightarrow> content s1 = (content (g_srv g))(f := hdr_view (hdr_at g a) (mb_data g (hdata g a)) (content (g_srv g) f))"
    using flush_hdr_spec [OF srv h(2)] by blast
  have z: "wbh_NumInfo (hdr_at g a) = 0 \<Longrightarrow> r = Inr () \<and> s1 = g_srv g" using fl(1) by simp
  have pool1: "wpool (g\<lparr>g_srv := s1\<rparr>) (a # as @ os) fs rbs"
    using Cons.prems(1) by (simp add: wpool_def mb_inv_def)
  obtain g1 where g1: "ReleaseWBuf a (g\<lparr>g_srv := s1\<rparr>) = Some g1" "wpool g1 (as @ os) (a # fs) rbs"
      "\<forall>c. c \<noteq> a \<longrightarrow> hp_wbh g1 c = hp_wbh g c" "mb_data g1 = mb_data g" "g_srv g1 = s1" "wconf_same g g1"
    using ReleaseWBuf_spec [of "g\<lparr>g_srv := s1\<rparr>" "[]" a "as @ os" fs rbs] pool1
    by (auto simp: wconf_same_def)
  have a: "a \<notin> set as" "a \<notin> set os" using wpool_free [OF Cons.prems(1)] by auto
  have cl1: "cluster g1 w1 as" using w1(2) g1(3) a by (subst cluster_cong) auto
  have fr1: "wframe os rbs g g1" using g1 a by (auto simp: wframe_def)
  have vw: "wview g1 as c = wview g as c" for c
    by (rule wview_cong) (use g1 a in \<open>metis hdr_at_cong\<close>)
  show ?case
  proof (cases r)
    case (Inl e)
    obtain g' w' where rel: "release_all g1 (Some w1) = Some (g', Some w')"
      "wpool g' os (rev as @ a # fs) rbs" "cluster g' w' []" "wframe os rbs g1 g'" "wbc_same w1 w'"
      using release_all_spec [OF g1(2) cl1] by blast
    have "flush_loop rpc ign (Some f) g (Some w) = Some (Inl e, g', Some w')"
      by (subst flush_loop.simps) (use w1 h fl(1) z g1(1) rel(1) Cons.prems(3) Inl in auto)
    then show ?thesis using rel wbc_same_trans [OF w1(4) rel(5)] wframe_trans [OF fr1 rel(4)] by auto
  next
    case (Inr u)
    have "g_NFSGlobal g1 = ng" using g1(6) Cons.prems(3) by (simp add: wconf_same_def)
    then obtain r2 g' w' where rec: "flush_loop rpc ign (Some f) g1 (Some w1) = Some (r2, g', Some w')"
      "wpool g' os (rev as @ a # fs) rbs" "cluster g' w' []" "wframe os rbs g1 g'" "wbc_same w1 w'"
      "r2 = Inr () \<longrightarrow> content (g_srv g') = (content (g_srv g1))(f := wview g1 as (content (g_srv g1) f))"
      using Cons.IH [OF g1(2) cl1] by blast
    have "flush_loop rpc ign (Some f) g (Some w) = Some (r2, g', Some w')"
      by (subst flush_loop.simps) (use w1 h fl(1) z g1(1) rec(1) Cons.prems(3) Inr in auto)
    moreover have "r2 = Inr () \<longrightarrow> content (g_srv g') = (content (g_srv g))(f := wview g (a # as) (content (g_srv g) f))"
      using rec(6) fl(2) g1(5) Inr by (auto simp: vw)
    ultimately show ?thesis using rec wbc_same_trans [OF w1(4) rec(5)] wframe_trans [OF fr1 rec(4)] by auto
  qed
qed


subsection \<open>One file\<close>

text \<open>The state of an open file \<open>e\<close> whose dirty blocks are \<open>as\<close> and whose remote file is \<open>f\<close>.\<close>

definition wfile :: "'srv global \<Rightarrow> efh \<Rightarrow> nfs_fh \<Rightarrow> addr list \<Rightarrow> addr list \<Rightarrow> addr list \<Rightarrow> addr list \<Rightarrow> bool" where
  "wfile g e f as os fs rbs \<longleftrightarrow> wpool g (as @ os) fs rbs \<and> efh_fh g e = Some f \<and>
     (case efh_WBuf e of None \<Rightarrow> as = [] | Some w \<Rightarrow> cluster g w as)"

text \<open>The remote files as a client of the cache sees them.\<close>

definition seen :: "('srv \<Rightarrow> nfs_fh \<Rightarrow> int \<Rightarrow> u8) \<Rightarrow> nfs_fh \<Rightarrow> 'srv global \<Rightarrow> addr list \<Rightarrow> nfs_fh \<Rightarrow> int \<Rightarrow> u8" where
  "seen content f g as = (content (g_srv g))(f := wview g as (content (g_srv g) f))"

lemma seen_Nil [simp]: "seen content f g [] = content (g_srv g)"
  by (simp add: seen_def)

text \<open>The file handle but for its write cache.\<close>

definition efh_same :: "efh \<Rightarrow> efh \<Rightarrow> bool" where
  "efh_same e e' \<longleftrightarrow> e'\<lparr>efh_WBuf := None\<rparr> = e\<lparr>efh_WBuf := None\<rparr> \<and>
     (case efh_WBuf e of None \<Rightarrow> efh_WBuf e' = None
      | Some w \<Rightarrow> \<exists>w'. efh_WBuf e' = Some w' \<and> wbc_same w w')"

lemma efh_same_refl [simp]: "efh_same e e"
  by (simp add: efh_same_def split: option.split)

lemma efh_same_trans: "efh_same e e' \<Longrightarrow> efh_same e' e'' \<Longrightarrow> efh_same e e''"
  by (auto simp: efh_same_def split: option.splits intro: wbc_same_trans)

lemma efh_same_fields:
  assumes "efh_same e e'"
  shows "efh_FilePos e' = efh_FilePos e" "efh_FileLen e' = efh_FileLen e" "efh_ELock e' = efh_ELock e"
    "efh_RBuf e' = efh_RBuf e" "efh_Id e' = efh_Id e" "efh_Mode e' = efh_Mode e" "efh_Res2 e' = efh_Res2 e"
    "efh_Next e' = efh_Next e"
proof -
  have "e'\<lparr>efh_WBuf := None\<rparr> = e\<lparr>efh_WBuf := None\<rparr>" using assms by (simp add: efh_same_def)
  then show "efh_FilePos e' = efh_FilePos e" "efh_FileLen e' = efh_FileLen e" "efh_ELock e' = efh_ELock e"
    "efh_RBuf e' = efh_RBuf e" "efh_Id e' = efh_Id e" "efh_Mode e' = efh_Mode e" "efh_Res2 e' = efh_Res2 e"
    "efh_Next e' = efh_Next e"
    by (cases e; cases e'; simp)+
qed

lemma iwc_FlushCache_spec:
  assumes srv: "wserver_ok rpc content (g_NFSGlobal g)" and wf: "wfile g e f as os fs rbs"
  shows "\<exists>r g' e'. iwc_FlushCache rpc ign g e = Some (r, g', e') \<and> wfile g' e' f [] os (rev as @ fs) rbs \<and>
     wframe os rbs g g' \<and> efh_same e e' \<and>
     (r = Inr () \<longrightarrow> content (g_srv g') = seen content f g as)"
proof (cases "efh_WBuf e")
  case None
  then have "flush_loop rpc ign (efh_fh g e) g (efh_WBuf e) = Some (Inr (), g, None)"
    by (subst flush_loop.simps) (simp add: WBufRemHead_def)
  then show ?thesis using wf None
    by (auto simp: iwc_FlushCache_def wfile_def efh_fh_def efh_same_def)
next
  case (Some w)
  have p: "wpool g (as @ os) fs rbs" "cluster g w as" "efh_fh g e = Some f"
    using wf Some by (auto simp: wfile_def)
  obtain r g' w' where fl: "flush_loop rpc ign (Some f) g (Some w) = Some (r, g', Some w')"
      "wpool g' os (rev as @ fs) rbs" "cluster g' w' []" "wframe os rbs g g'" "wbc_same w w'"
      "r = Inr () \<longrightarrow> content (g_srv g') = (content (g_srv g))(f := wview g as (content (g_srv g) f))"
    using flush_loop_spec [OF srv p(1,2)] by blast
  have "efh_fh g' (e\<lparr>efh_WBuf := Some w'\<rparr>) = Some f"
    using p(3) fl(4) by (simp add: efh_fh_def wframe_def wconf_same_def)
  then show ?thesis using fl p Some
    by (simp add: iwc_FlushCache_def wfile_def efh_same_def seen_def)
qed

lemma not_HasBufferedWData: "wfile g e f as os fs rbs \<Longrightarrow> \<not> HasBufferedWData e \<longleftrightarrow> as = []"
  by (auto simp: HasBufferedWData_def wfile_def cluster_def split: option.splits)

lemma wfile_srv: "wfile (g\<lparr>g_srv := s\<rparr>) e f as os fs rbs = wfile g e f as os fs rbs"
  by (simp add: wfile_def wpool_def mb_inv_def cluster_def efh_fh_def split: option.split)

text \<open>Writing through: the cache is emptied first, so the new data ends up on top.\<close>

text \<open>The file handle but for its write cache and the length of the file.\<close>

definition efh_kept :: "efh \<Rightarrow> efh \<Rightarrow> bool" where
  "efh_kept e e' \<longleftrightarrow> e'\<lparr>efh_WBuf := None, efh_FileLen := 0\<rparr> = e\<lparr>efh_WBuf := None, efh_FileLen := 0\<rparr>"

lemma efh_kept_trans: "efh_kept e e' \<Longrightarrow> efh_kept e' e'' \<Longrightarrow> efh_kept e e''"
  by (simp add: efh_kept_def)

lemma efh_kept_FileLen [simp]: "efh_kept e (e'\<lparr>efh_FileLen := l\<rparr>) = efh_kept e e'"
  by (simp add: efh_kept_def)

lemma efh_same_kept: "efh_same e e' \<Longrightarrow> efh_kept e e'"
  unfolding efh_same_def efh_kept_def by (cases e; cases e') auto

lemma efh_kept_fields:
  assumes "efh_kept e e'"
  shows "efh_FilePos e' = efh_FilePos e" "efh_ELock e' = efh_ELock e" "efh_RBuf e' = efh_RBuf e"
    "efh_Mode e' = efh_Mode e" "efh_Id e' = efh_Id e" "efh_Next e' = efh_Next e" "efh_Res2 e' = efh_Res2 e"
  using assms by (cases e; cases e'; simp add: efh_kept_def)+

lemma FlushCacheAndWrite_spec:
  assumes srv: "wserver_ok rpc content (g_NFSGlobal g)" and wf: "wfile g e f as os fs rbs"
    and buf: "buf \<noteq> []" and pos: "0 \<le> efh_FilePos e" "efh_FilePos e + int (length buf) \<le> 2 ^ 31"
  shows "\<exists>r g' e'. FlushCacheAndWrite rpc g e buf = Some (r, g', e') \<and>
     wfile g' e' f [] os (rev as @ fs) rbs \<and> wframe os rbs g g' \<and> efh_kept e e' \<and>
     (\<forall>n. r = Inr n \<longrightarrow> n = int (length buf) \<and>
        seen content f g' [] = (seen content f g as)(f := put_bytes (efh_FilePos e) buf (seen content f g as f)))"
proof -
  obtain r g1 e1 where f1: "(if HasBufferedWData e then iwc_FlushCache rpc True g e else Some (Inr (), g, e)) = Some (r, g1, e1)"
      "wfile g1 e1 f [] os (rev as @ fs) rbs" "wframe os rbs g g1" "efh_same e e1"
      "r = Inr () \<longrightarrow> content (g_srv g1) = seen content f g as"
  proof (cases "HasBufferedWData e")
    case True
    then show ?thesis using iwc_FlushCache_spec [OF srv wf, of True] that by auto
  next
    case False
    then have "as = []" using not_HasBufferedWData [OF wf] by simp
    then show ?thesis using that [of "Inr ()" g e] False wf by simp
  qed
  note kept = efh_same_kept [OF f1(4)]
  show ?thesis
  proof (cases r)
    case (Inl e)
    then show ?thesis using f1 kept by (simp add: FlushCacheAndWrite_def)
  next
    case (Inr u)
    have srv1: "wserver_ok rpc content (g_NFSGlobal g1)" using srv f1(3) by (simp add: wframe_def wconf_same_def)
    note flds = efh_same_fields [OF f1(4)]
    have off: "uint (ULONG_of (efh_FilePos e1)) = efh_FilePos e"
      using pos flds by (subst uint_ULONG_of) auto
    obtain r2 s where w: "nfs_write_any (g_NFSGlobal g1) rpc f (ULONG_of (efh_FilePos e1)) buf (g_srv g1) = Some (r2, s)"
      "\<forall>n fl. r2 = Inr (n, fl) \<longrightarrow> n = int (length buf) \<and>
         content s = (content (g_srv g1))(f := put_bytes (efh_FilePos e) buf (content (g_srv g1) f))"
      using nfs_write_any_spec [OF srv1 buf, of "ULONG_of (efh_FilePos e1)" f "g_srv g1"] off pos by auto
    have fr: "wframe os rbs g (g1\<lparr>g_srv := s\<rparr>)" using f1(3) by (auto simp: wframe_def wconf_same_def)
    have fh: "efh_fh g1 e1 = Some f" using f1(2) by (simp add: wfile_def)
    show ?thesis
    proof (cases r2)
      case (Inl res2)
      then show ?thesis using f1 kept Inr w fh fr by (simp add: FlushCacheAndWrite_def Let_def wfile_srv)
    next
      case (Inr q)
      obtain n fl where q: "q = (n, fl)" by (cases q)
      have "wfile (g1\<lparr>g_srv := s\<rparr>) (e1\<lparr>efh_FileLen := fl\<rparr>) f [] os (rev as @ fs) rbs"
        using f1(2) by (simp add: wfile_srv) (simp add: wfile_def efh_fh_def)
      then show ?thesis using f1 kept \<open>r = Inr u\<close> Inr q w fh fr by (simp add: FlushCacheAndWrite_def Let_def)
    qed
  qed
qed

end
