(* ===== verification/WBufPut.thy ===== *)
theory WBufPut
  imports WBufInv
begin

text \<open>
  Correctness of writing through the cache: obtaining a buffer, linking it into the cluster,
  and \<open>wc_WriteCache\<close> as a whole. A write confined to one block, or starting inside a block
  and ending in the next, updates the view of the file exactly at the written range.
\<close>

subsection \<open>Updating a header in use\<close>

lemma wpool_upd_used:
  assumes inv: "wpool g used fs rbs" and a: "a \<in> set used"
    and h: "wbh_Data h = hdata g a" "length (wbh_Info h) = WBUFHDRINFOSIZE"
  shows "wpool (g\<lparr>hp_wbh := (hp_wbh g)(a \<mapsto> h)\<rparr>) used fs rbs"
proof (rule wpoolI [of _ "map (hdata g) used"])
  let ?g = "g\<lparr>hp_wbh := (hp_wbh g)(a \<mapsto> h)\<rparr>"
  show "mb_inv ?g (map (hdata g) used @ rbs)" using wpool_free [OF inv] by (simp add: mb_inv_def)
  show "map (hdata ?g) used = map (hdata g) used" using h by auto
  have "a \<notin> set fs" using wpool_free [OF inv] a by auto
  then show "chain (nxt ?g) (g_FreeWBufHdr ?g) fs NULL" using wpool_free [OF inv] by simp
  show "distinct (used @ fs)" using wpool_free [OF inv] by auto
  fix c assume "c \<in> set (used @ fs)"
  then show "c \<noteq> NULL \<and> hp_wbh ?g c \<noteq> None \<and> length (wbh_Info (hdr_at ?g c)) = WBUFHDRINFOSIZE"
    using wpool_member [OF inv, of c] h by auto
qed (use wpool_free [OF inv] wpool_count [OF inv] in auto)

lemma wframe_upd: "a \<notin> set os \<Longrightarrow> wframe os rbs g (g\<lparr>hp_wbh := (hp_wbh g)(a \<mapsto> h)\<rparr>)"
  by (auto simp: wframe_def wconf_same_def)

lemma upd_wbh_Some: "hp_wbh g a = Some h \<Longrightarrow> upd_wbh a f g = Some (g\<lparr>hp_wbh := (hp_wbh g)(a \<mapsto> f h)\<rparr>)"
  by (simp add: upd_wbh_def)

lemma hdr_ok_Next [simp]: "hdr_ok (h\<lparr>wbh_Next := n\<rparr>) = hdr_ok h"
  by (simp add: hdr_ok_def)

lemma hoffs_upd_Next:
  "hoffs (g\<lparr>hp_wbh := (hp_wbh g)(a \<mapsto> (hdr_at g a)\<lparr>wbh_Next := n\<rparr>)\<rparr>) = hoffs g"
  by (rule ext) simp

lemma WBufAddHead_spec:
  assumes pool: "wpool g (new # as @ os) fs rbs" and cl: "cluster g w as" and ok: "hdr_ok (hdr_at g new)"
    and lt: "as = [] \<or> hoffs g new < hoffs g (hd as)"
  shows "\<exists>g' w' n. WBufAddHead new g w = Some (g', w') \<and> g' = g\<lparr>hp_wbh := (hp_wbh g)(new \<mapsto> (hdr_at g new)\<lparr>wbh_Next := n\<rparr>)\<rparr> \<and>
     cluster g' w' (new # as) \<and> wbc_same w w' \<and> wbc_PosData w' = wbc_PosData w"
proof -
  have new: "hp_wbh g new = Some (hdr_at g new)" "new \<noteq> NULL" "new \<notin> set as"
    using wpool_member [OF pool, of new] wpool_free [OF pool] by auto
  define n where "n = wbc_FirstData w"
  have fst: "n = NULL \<longleftrightarrow> as = []" using cl chain_NULL_Nil [of "nxt g" n as] by (simp add: cluster_def n_def)
  define g' where "g' = g\<lparr>hp_wbh := (hp_wbh g)(new \<mapsto> (hdr_at g new)\<lparr>wbh_Next := n\<rparr>)\<rparr>"
  define w' where "w' = (if n = NULL then w\<lparr>wbc_WBufsUsed := wbc_WBufsUsed w + 1, wbc_FirstData := new, wbc_LastData := new\<rparr>
     else w\<lparr>wbc_WBufsUsed := wbc_WBufsUsed w + 1, wbc_FirstData := new\<rparr>)"
  have run: "WBufAddHead new g w = Some (g', w')"
    using new by (simp add: WBufAddHead_def Let_def upd_wbh_def g'_def w'_def n_def)
  have sorted: "\<forall>b\<in>set as. hoffs g new < hoffs g b"
    using lt cl by (cases as) (auto simp: cluster_def)
  have "chain (nxt g') new (new # as) NULL" using cl new by (simp add: g'_def cluster_def n_def)
  moreover have "\<forall>b\<in>set (new # as). hdr_ok (hdr_at g' b)" using cl ok by (simp add: g'_def cluster_def)
  moreover have "sorted_wrt (<) (map (hoffs g') (new # as))"
    using cl sorted unfolding g'_def hoffs_upd_Next by (simp add: cluster_def)
  ultimately have "cluster g' w' (new # as)"
    using cl fst by (auto simp: w'_def n_def cluster_def)
  then show ?thesis using run by (auto simp: g'_def w'_def wbc_same_def)
qed


lemma WBufInsert_spec:
  assumes pool: "wpool g (new # (xs @ a # ys) @ os) fs rbs" and cl: "cluster g w (xs @ a # ys)"
    and ok: "hdr_ok (hdr_at g new)" and lt: "hoffs g a < hoffs g new" "ys = [] \<or> hoffs g new < hoffs g (hd ys)"
  shows "\<exists>g' w' n m. WBufInsert a new g w = Some (g', w') \<and>
     g' = g\<lparr>hp_wbh := (hp_wbh g)(new \<mapsto> (hdr_at g new)\<lparr>wbh_Next := n\<rparr>, a \<mapsto> (hdr_at g a)\<lparr>wbh_Next := m\<rparr>)\<rparr> \<and>
     cluster g' w' (xs @ a # new # ys) \<and> wbc_same w w' \<and> wbc_PosData w' = wbc_PosData w"
proof -
  have new: "hp_wbh g new = Some (hdr_at g new)" "new \<noteq> NULL" "new \<notin> set (xs @ a # ys)" "distinct (xs @ a # ys)"
    and a: "hp_wbh g a = Some (hdr_at g a)" "a \<noteq> NULL"
    using wpool_member [OF pool, of new] wpool_member [OF pool, of a] wpool_free [OF pool] by auto
  define g1 where "g1 = g\<lparr>hp_wbh := (hp_wbh g)(new \<mapsto> (hdr_at g new)\<lparr>wbh_Next := nxt g a\<rparr>)\<rparr>"
  define g' where "g' = g1\<lparr>hp_wbh := (hp_wbh g1)(a \<mapsto> (hdr_at g1 a)\<lparr>wbh_Next := new\<rparr>)\<rparr>"
  define w' where "w' = (let w1 = w\<lparr>wbc_WBufsUsed := wbc_WBufsUsed w + 1\<rparr> in
     if nxt g a = NULL then w1\<lparr>wbc_LastData := new\<rparr> else w1)"
  have ne: "new \<noteq> a" using new by auto
  have eq: "g' = g\<lparr>hp_wbh := (hp_wbh g)(new \<mapsto> (hdr_at g new)\<lparr>wbh_Next := nxt g a\<rparr>, a \<mapsto> (hdr_at g a)\<lparr>wbh_Next := new\<rparr>)\<rparr>"
    using ne by (simp add: g'_def g1_def)
  have run: "WBufInsert a new g w = Some (g', w')"
    using new a ne unfolding eq by (simp add: WBufInsert_def Let_def upd_wbh_def w'_def nxt_def)
  have off: "hoffs g' = hoffs g" by (simp only: g'_def g1_def hoffs_upd_Next)
  have at: "hdr_at g' = (hdr_at g)(new := (hdr_at g new)\<lparr>wbh_Next := nxt g a\<rparr>, a := (hdr_at g a)\<lparr>wbh_Next := new\<rparr>)"
    by (rule ext) (simp add: g'_def g1_def hdr_at_def)
  have nx: "nxt g' = (nxt g)(new := nxt g a, a := new)"
    by (rule ext) (simp add: g'_def g1_def nxt_def hdr_at_def)
  have c1: "chain (nxt g) (wbc_FirstData w) (xs @ a # ys) NULL" using cl by (simp add: cluster_def)
  have tail: "chain (nxt g) (nxt g a) ys NULL" using c1 by (simp add: chain_middle)
  have last: "nxt g a = NULL \<longleftrightarrow> ys = []" using chain_NULL_Nil [OF tail] by simp
  have "chain (nxt g') (wbc_FirstData w) (xs @ a # new # ys) NULL"
    unfolding nx by (rule chain_insert_after [OF c1 new(4) new(2,3)])
  moreover have "\<forall>b\<in>set (xs @ a # new # ys). hdr_ok (hdr_at g' b)"
    using cl ok ne by (auto simp: at cluster_def)
  moreover have "sorted_wrt (<) (map (hoffs g') (xs @ a # new # ys))"
    using cl lt unfolding off cluster_def by (cases ys) (auto simp: sorted_wrt_append)
  ultimately have "cluster g' w' (xs @ a # new # ys)"
    using cl last by (cases ys rule: rev_cases) (auto simp: w'_def cluster_def Let_def)
  then show ?thesis using run eq by (auto simp: w'_def wbc_same_def Let_def)
qed

subsection \<open>Obtaining a header for new data\<close>

text \<open>A header just obtained: free of dirty bytes and linked nowhere.\<close>

lemma obtain_step:
  assumes wf: "wpool g (as @ os) fs rbs" and cl: "cluster g w as" and r: "ObtainWBuf g = Some (new, g')"
  shows "(new = NULL \<longrightarrow> g' = g) \<and> (new \<noteq> NULL \<longrightarrow>
     wpool g' (new # as @ os) (tl fs) rbs \<and> wbh_NumInfo (hdr_at g' new) = 0) \<and>
     cluster g' w as \<and> wframe os rbs g g' \<and> (\<forall>c. wview g' as c = wview g as c) \<and> g_srv g' = g_srv g \<and>
     (\<forall>a\<in>set as. hdr_at g' a = hdr_at g a)"
proof (cases "g_NumFreeWBufHdrs g \<noteq> 0 \<and> g_NumFreeMBufs g \<noteq> 0")
  case False
  then have "new = NULL" "g' = g" using ObtainWBuf_spec [OF wf] r by (auto split: if_splits)
  then show ?thesis using cl by simp
next
  case True
  obtain h b where s: "new \<noteq> NULL" "fs = new # tl fs" "wpool g' (new # as @ os) (tl fs) rbs"
      "hp_wbh g' = (hp_wbh g)(new \<mapsto> h)" "wbh_NumInfo h = 0"
      "mb_data g' = mb_data g" "g_srv g' = g_srv g" "wconf_same g g'"
    using ObtainWBuf_spec [OF wf] r True by auto
  have n: "new \<notin> set as" "new \<notin> set os" using wpool_free [OF s(3)] by auto
  have "cluster g' w as" using cl n s(4) by (subst cluster_cong) auto
  moreover have "wview g' as c = wview g as c" for c
    by (rule wview_cong) (use n s in \<open>auto simp: hdr_at_def\<close>)
  moreover have "wframe os rbs g g'" using s n by (auto simp: wframe_def)
  moreover have "\<forall>a\<in>set as. hdr_at g' a = hdr_at g a" using n s(4) by (auto simp: hdr_at_def)
  ultimately show ?thesis using s by (simp add: hdr_at_def)
qed

lemma ObtainWBuf_returns: "wpool g used fs rbs \<Longrightarrow> \<exists>new g'. ObtainWBuf g = Some (new, g')"
  using ObtainWBuf_spec [of g used fs rbs] by (auto split: if_splits)

subsection \<open>Block alignment\<close>

lemma WBufAlignFileOffs_eq:
  assumes "0 \<le> pos" and "pos < 2 ^ 31"
  shows "WBufAlignFileOffs pos = pos - pos mod MBUFSIZE"
proof -
  have "pos AND 0xFFFFE000 = push_bit 13 (drop_bit 13 pos)"
  proof (rule bit_eqI)
    fix n
    have m: "(0xFFFFE000::int) = push_bit 13 (mask 19)" by (simp add: mask_eq_exp_minus_1 push_bit_eq_mult)
    have "bit pos n \<Longrightarrow> n < 31" using bit_high [of pos 31 n] assms by simp
    then show "bit (pos AND 0xFFFFE000) n = bit (push_bit 13 (drop_bit 13 pos)) n"
      unfolding m by (auto simp: bit_simps)
  qed
  also have "\<dots> = pos - pos mod MBUFSIZE"
    by (simp add: push_bit_eq_mult drop_bit_eq_div minus_mod_eq_mult_div)
  finally have eq: "pos AND 0xFFFFE000 = pos - pos mod MBUFSIZE" .
  have u: "uint (ULONG_of pos AND (0xFFFFFFFF - (8192 - 1))) = pos - pos mod MBUFSIZE"
    using assms eq by (simp add: unsigned_and_eq uint_ULONG_of)
  moreover have "pos - pos mod MBUFSIZE < 2 ^ 31" using assms by simp
  ultimately show ?thesis by (simp add: WBufAlignFileOffs_def LONG_of_small)
qed

lemma WBufAlignFileOffs_block:
  assumes "0 \<le> pos" and "pos < 2 ^ 31"
  shows "MBUFSIZE dvd WBufAlignFileOffs pos" "0 \<le> WBufAlignFileOffs pos" "WBufAlignFileOffs pos \<le> pos"
    "pos < WBufAlignFileOffs pos + MBUFSIZE"
proof -
  have "pos mod MBUFSIZE < MBUFSIZE" "0 \<le> pos mod MBUFSIZE" "pos mod MBUFSIZE \<le> pos"
    using assms zmod_le_nonneg_dividend by auto
  moreover have "MBUFSIZE dvd pos - pos mod MBUFSIZE" by (rule dvd_minus_mod)
  ultimately show "MBUFSIZE dvd WBufAlignFileOffs pos" "0 \<le> WBufAlignFileOffs pos" "WBufAlignFileOffs pos \<le> pos"
    "pos < WBufAlignFileOffs pos + MBUFSIZE"
    using WBufAlignFileOffs_eq [OF assms] by auto
qed

subsection \<open>Obtaining with a flush\<close>

lemma efh_fh_frame: "wframe os rbs g g' \<Longrightarrow> efh_fh g' e = efh_fh g e"
  by (simp add: wframe_def wconf_same_def efh_fh_def)

lemma efh_fh_same: "efh_same e e' \<Longrightarrow> efh_fh g e' = efh_fh g e"
  by (simp add: efh_fh_def efh_same_fields)

lemma wserver_frame: "wserver_ok rpc content (g_NFSGlobal g) \<Longrightarrow> wframe os rbs g g' \<Longrightarrow> wserver_ok rpc content (g_NFSGlobal g')"
  by (simp add: wframe_def wconf_same_def)

text \<open>The state after a successful \<open>obtain_or_flush\<close>: the dirty blocks are \<open>as'\<close>, and a new
  header is in use but linked nowhere, unless none could be had with an empty cache.\<close>

definition obtained ::
  "'srv global \<Rightarrow> efh \<Rightarrow> nfs_fh \<Rightarrow> addr \<Rightarrow> addr list \<Rightarrow> addr list \<Rightarrow> addr list \<Rightarrow> addr list \<Rightarrow> bool" where
  "obtained g e f new as os fs rbs \<longleftrightarrow>
     (if new = NULL then as = [] \<and> wfile g e f [] os fs rbs
      else wpool g (new # as @ os) fs rbs \<and> wbh_NumInfo (hdr_at g new) = 0 \<and> efh_fh g e = Some f \<and>
        (\<exists>w. efh_WBuf e = Some w \<and> cluster g w as))"

lemma obtain_one:
  assumes wf: "wfile g e f as os fs rbs" and w: "efh_WBuf e = Some w" and r: "ObtainWBuf g = Some (new, g')"
    and none: "new = NULL \<Longrightarrow> as = []"
  shows "obtained g' e f new as os (if new = NULL then fs else tl fs) rbs \<and> wframe os rbs g g' \<and>
     seen content f g' as = seen content f g as \<and> (\<forall>a\<in>set as. hdr_at g' a = hdr_at g a)"
proof -
  have p: "wpool g (as @ os) fs rbs" "cluster g w as" "efh_fh g e = Some f" using wf w by (auto simp: wfile_def)
  note st = obtain_step [OF p(1,2) r]
  have fr: "wframe os rbs g g'" using st by blast
  show ?thesis
  proof (cases "new = NULL")
    case True
    then show ?thesis using st wf none by (simp add: obtained_def)
  next
    case False
    then show ?thesis using st p(3) w efh_fh_frame [OF fr, of e] by (simp add: obtained_def seen_def)
  qed
qed

text \<open>After a flush of a nonempty cache there is a free header and a free data buffer.\<close>

lemma flushed_free:
  assumes "wpool g (as @ os) fs rbs" and "wpool g' os fs' rbs" and "wframe os rbs g g'" and "as \<noteq> []"
  shows "g_NumFreeWBufHdrs g' \<noteq> 0 \<and> g_NumFreeMBufs g' \<noteq> 0"
proof -
  have "g_NumWBufHdrs g' = g_NumWBufHdrs g" "g_NumMBufs g' = g_NumMBufs g"
    using assms(3) by (simp_all add: wframe_def wconf_same_def)
  moreover have "0 < length as" using assms(4) by simp
  ultimately show ?thesis using assms(1,2) unfolding wpool_def mb_inv_def by (simp only: length_append length_map) linarith
qed

lemma obtain_or_flush_spec:
  assumes srv: "wserver_ok rpc content (g_NFSGlobal g)" and wf: "wfile g e f as os fs rbs"
    and w: "efh_WBuf e = Some w"
  shows "\<exists>r g' e' fs'. obtain_or_flush rpc ign g e = Some (r, g', e') \<and> wframe os rbs g g' \<and> efh_same e e' \<and>
     (case r of Inl _ \<Rightarrow> wfile g' e' f [] os fs' rbs
      | Inr (new, flushed) \<Rightarrow>
          obtained g' e' f new (if flushed then [] else as) os fs' rbs \<and>
          seen content f g' (if flushed then [] else as) = seen content f g as \<and>
          (flushed \<or> (\<forall>a\<in>set as. hdr_at g' a = hdr_at g a)) \<and> (as \<noteq> [] \<longrightarrow> new \<noteq> NULL))"
proof -
  obtain r1 g1 e1 fs1 where f1:
      "(if WBufCacheFull w then iwc_FlushCache rpc ign g e else Some (Inr (), g, e)) = Some (r1, g1, e1)"
      "wframe os rbs g g1" "efh_same e e1"
      "wfile g1 e1 f (if WBufCacheFull w then [] else as) os fs1 rbs"
      "r1 = Inr () \<longrightarrow> seen content f g1 (if WBufCacheFull w then [] else as) = seen content f g as"
      "\<not> WBufCacheFull w \<longrightarrow> r1 = Inr () \<and> g1 = g"
  proof (cases "WBufCacheFull w")
    case True
    then show ?thesis using iwc_FlushCache_spec [OF srv wf, of ign] that by auto
  next
    case False
    then show ?thesis using that [of "Inr ()" g e fs] wf by simp
  qed
  define as1 where "as1 = (if WBufCacheFull w then [] else as)"
  show ?thesis
  proof (cases r1)
    case (Inl res2)
    then have "WBufCacheFull w" using f1(6) by auto
    then show ?thesis using f1 Inl w by (simp add: obtain_or_flush_def) blast
  next
    case (Inr u)
    obtain w1 where w1: "efh_WBuf e1 = Some w1" using f1(3) w by (auto simp: efh_same_def)
    have wf1: "wfile g1 e1 f as1 os fs1 rbs" using f1(4) by (simp add: as1_def)
    obtain new g2 where o2: "ObtainWBuf g1 = Some (new, g2)"
      using wf1 ObtainWBuf_returns [of g1 "as1 @ os" fs1 rbs] by (auto simp: wfile_def)
    show ?thesis
    proof (cases "new = NULL \<and> HasBufferedWData e1")
      case False
      then have "new = NULL \<Longrightarrow> as1 = []" using not_HasBufferedWData [OF wf1] by simp
      note o = obtain_one [OF wf1 w1 o2 this, where content = content]
      have nn: "as \<noteq> [] \<longrightarrow> new \<noteq> NULL"
      proof (cases "WBufCacheFull w")
        case True
        then have p1: "wpool g1 os fs1 rbs" using f1(4) by (simp add: wfile_def)
        show ?thesis
          using flushed_free [OF _ p1 f1(2), of as] wf ObtainWBuf_spec [OF p1] o2 by (auto simp: wfile_def split: if_splits)
      next
        case False
        then show ?thesis using \<open>new = NULL \<Longrightarrow> as1 = []\<close> by (auto simp: as1_def)
      qed
      have "obtain_or_flush rpc ign g e = Some (Inr (new, WBufCacheFull w), g2, e1)"
        using f1(1) Inr w o2 False by (auto simp: obtain_or_flush_def)
      then show ?thesis
        using o f1 Inr nn wframe_trans [OF f1(2)] unfolding as1_def by fastforce
    next
      case True
      then have "g2 = g1" using obtain_step [OF _ _ o2] wf1 w1 by (auto simp: wfile_def)
      then have wf2: "wfile g2 e1 f as1 os fs1 rbs" and fr2: "wframe os rbs g g2" using wf1 f1(2) by auto
      obtain r3 g3 e3 where f3: "iwc_FlushCache rpc ign g2 e1 = Some (r3, g3, e3)" "wfile g3 e3 f [] os (rev as1 @ fs1) rbs"
         "wframe os rbs g2 g3" "efh_same e1 e3" "r3 = Inr () \<longrightarrow> content (g_srv g3) = seen content f g2 as1"
        using iwc_FlushCache_spec [OF wserver_frame [OF srv fr2] wf2, of ign] by blast
      have run: "obtain_or_flush rpc ign g e = (case r3 of Inl res2 \<Rightarrow> Some (Inl res2, g3, e3)
          | Inr _ \<Rightarrow> do { (new, g4) \<leftarrow> ObtainWBuf g3; Some (Inr (new, True), g4, e3) })"
        using f1(1) Inr w o2 True f3(1) by (simp add: obtain_or_flush_def del: bind_Some_conv split: sum.split)
      show ?thesis
      proof (cases r3)
        case (Inl res2)
        then show ?thesis using run f3 wframe_trans [OF fr2 f3(3)] efh_same_trans [OF f1(3) f3(4)] by auto
      next
        case (Inr u3)
        obtain w3 where w3: "efh_WBuf e3 = Some w3" using f3(4) w1 by (auto simp: efh_same_def)
        obtain new2 g4 where o4: "ObtainWBuf g3 = Some (new2, g4)"
          using f3(2) ObtainWBuf_returns [of g3 os "rev as1 @ fs1" rbs] by (auto simp: wfile_def)
        note o = obtain_one [OF f3(2) w3 o4, where content = content]
        have s: "content (g_srv g3) = seen content f g as"
          using f3(5) Inr f1(5) \<open>r1 = Inr u\<close> \<open>g2 = g1\<close> by (simp add: as1_def)
        have p3: "wpool g3 os (rev as1 @ fs1) rbs" using f3(2) by (simp add: wfile_def)
        have "new2 \<noteq> NULL" if "as \<noteq> []"
          using flushed_free [OF _ p3 wframe_trans [OF fr2 f3(3)], of as] wf ObtainWBuf_spec [OF p3] o4 that
          by (auto simp: wfile_def split: if_splits)
        moreover have "obtain_or_flush rpc ign g e = Some (Inr (new2, True), g4, e3)" using run Inr o4 by simp
        moreover have "wframe os rbs g g4" using o wframe_trans [OF wframe_trans [OF fr2 f3(3)]] by blast
        moreover have "efh_same e e3" by (rule efh_same_trans [OF f1(3) f3(4)])
        ultimately show ?thesis using o s by auto
      qed
    qed
  qed
qed

subsection \<open>Positioning\<close>

text \<open>The file handle but for its whole write cache.\<close>

definition efh_core :: "efh \<Rightarrow> efh \<Rightarrow> bool" where
  "efh_core e e' \<longleftrightarrow> e'\<lparr>efh_WBuf := None\<rparr> = e\<lparr>efh_WBuf := None\<rparr>"

lemma efh_core_refl [simp]: "efh_core e e"
  by (simp add: efh_core_def)

lemma efh_core_trans: "efh_core e e' \<Longrightarrow> efh_core e' e'' \<Longrightarrow> efh_core e e''"
  by (simp add: efh_core_def)

lemma efh_same_core: "efh_same e e' \<Longrightarrow> efh_core e e'"
  by (simp add: efh_same_def efh_core_def)

lemma efh_core_set_wbc [simp]: "efh_core e (set_wbc w e') = efh_core e e'"
  by (simp add: efh_core_def set_wbc_def)

lemma set_wbc_WBuf [simp]: "efh_WBuf (set_wbc w e) = Some w" "efh_ELock (set_wbc w e) = efh_ELock e"
  by (simp_all add: set_wbc_def)

text \<open>The precondition of \<open>WBufWrite\<close> for the file position \<open>Pos\<close>: PosData is the last block
  that starts at or before it, or the block before that one when \<open>Pos\<close> is its first byte.\<close>

definition wready :: "'srv global \<Rightarrow> efh \<Rightarrow> addr list \<Rightarrow> int \<Rightarrow> bool" where
  "wready g e as Pos \<longleftrightarrow> (\<exists>w xs a ys. efh_WBuf e = Some w \<and> wbc_FilePos w = Pos \<and> wbc_PosData w = a \<and>
     as = xs @ a # ys \<and> hoffs g a \<le> Pos \<and> (ys = [] \<or> Pos \<le> hoffs g (hd ys)))"

text \<open>The code flushes when a table reaches 58 intervals; a table of exactly 58 survives only in
  a block reached through its predecessor, and then its first byte is dirty, so that the next
  such write cannot need a 60th cell.\<close>

definition cap_ok :: "wbufhdr \<Rightarrow> bool" where
  "cap_ok h \<longleftrightarrow> wbh_NumInfo h + 2 \<le> WBUFHDRINFOSIZE \<or>
     wbh_NumInfo h + 1 = WBUFHDRINFOSIZE \<and> 0 \<in> covers (take (wbh_NumInfo h) (wbh_Info h))"

definition caps :: "'srv global \<Rightarrow> addr list \<Rightarrow> bool" where
  "caps g as \<longleftrightarrow> (\<forall>a\<in>set as. cap_ok (hdr_at g a))"

text \<open>The tables of \<open>as'\<close> are those of \<open>as\<close>, or empty.\<close>

definition inherit :: "'srv global \<Rightarrow> addr list \<Rightarrow> 'srv global \<Rightarrow> addr list \<Rightarrow> bool" where
  "inherit g as g' as' \<longleftrightarrow> (\<forall>a\<in>set as'. wbh_NumInfo (hdr_at g' a) = 0 \<or>
     a \<in> set as \<and> wbh_NumInfo (hdr_at g' a) = wbh_NumInfo (hdr_at g a) \<and> wbh_Info (hdr_at g' a) = wbh_Info (hdr_at g a))"

lemma inherit_refl [simp]: "inherit g as g as" and inherit_Nil [simp]: "inherit g as g' []"
  by (simp_all add: inherit_def)

lemma caps_Nil [simp]: "caps g []"
  by (simp add: caps_def)

lemma caps_inherit: "inherit g as g' as' \<Longrightarrow> caps g as \<Longrightarrow> caps g' as'"
  unfolding inherit_def caps_def cap_ok_def by force

text \<open>Every block has at least \<open>k\<close> free cells.\<close>

definition room :: "nat \<Rightarrow> 'srv global \<Rightarrow> addr list \<Rightarrow> bool" where
  "room k g as \<longleftrightarrow> (\<forall>a\<in>set as. wbh_NumInfo (hdr_at g a) + k \<le> WBUFHDRINFOSIZE)"

lemma room_Nil [simp]: "room k g []"
  by (simp add: room_def)

lemma room_inherit: "inherit g as g' as' \<Longrightarrow> room k g as \<Longrightarrow> k \<le> WBUFHDRINFOSIZE \<Longrightarrow> room k g' as'"
  unfolding inherit_def room_def by force

lemma aligned_gap: "MBUFSIZE dvd x \<Longrightarrow> MBUFSIZE dvd y \<Longrightarrow> x < y \<Longrightarrow> x + MBUFSIZE \<le> y"
  by (auto simp: dvd_def)

lemma cluster_gap:
  assumes "cluster g w (xs @ a # ys)" and "b \<in> set ys"
  shows "hoffs g a + MBUFSIZE \<le> hoffs g b"
  using assms by (intro aligned_gap) (auto simp: cluster_def hdr_ok_def sorted_wrt_append)

text \<open>A fresh header with its offset set, ready to be linked.\<close>

lemma prepare_new:
  assumes ob: "obtained g e f new as os fs rbs" and new: "new \<noteq> NULL" and pos: "0 \<le> Pos" "Pos < 2 ^ 31"
  shows "\<exists>g2 w. upd_wbh new (\<lambda>h. h\<lparr>wbh_FileOffs := WBufAlignFileOffs Pos, wbh_NumInfo := 0\<rparr>) g = Some g2 \<and>
     wpool g2 (new # as @ os) fs rbs \<and> efh_WBuf e = Some w \<and> cluster g2 w as \<and> wframe os rbs g g2 \<and>
     g_srv g2 = g_srv g \<and> hdr_ok (hdr_at g2 new) \<and> hoffs g2 new = WBufAlignFileOffs Pos \<and>
     wbh_NumInfo (hdr_at g2 new) = 0 \<and> (\<forall>c. wview g2 as c = wview g as c) \<and>
     (\<forall>a. a \<noteq> new \<longrightarrow> hdr_at g2 a = hdr_at g a)"
proof -
  have p: "wpool g (new # as @ os) fs rbs" "efh_fh g e = Some f" using ob new by (auto simp: obtained_def)
  obtain w where w: "efh_WBuf e = Some w" "cluster g w as" using ob new by (auto simp: obtained_def)
  have h: "hp_wbh g new = Some (hdr_at g new)" "length (wbh_Info (hdr_at g new)) = WBUFHDRINFOSIZE"
    "new \<notin> set as" "new \<notin> set os"
    using wpool_member [OF p(1), of new] wpool_free [OF p(1)] by auto
  define h2 where "h2 = (hdr_at g new)\<lparr>wbh_FileOffs := WBufAlignFileOffs Pos, wbh_NumInfo := 0\<rparr>"
  define g2 where "g2 = g\<lparr>hp_wbh := (hp_wbh g)(new \<mapsto> h2)\<rparr>"
  have "upd_wbh new (\<lambda>h. h\<lparr>wbh_FileOffs := WBufAlignFileOffs Pos, wbh_NumInfo := 0\<rparr>) g = Some g2"
    by (simp add: upd_wbh_Some [OF h(1)] g2_def h2_def)
  moreover have "wpool g2 (new # as @ os) fs rbs"
    unfolding g2_def by (rule wpool_upd_used [OF p(1)]) (use h in \<open>auto simp: h2_def\<close>)
  moreover have "cluster g2 w as" using w(2) h(3) by (subst cluster_cong) (auto simp: g2_def)
  moreover have "wframe os rbs g g2" unfolding g2_def by (rule wframe_upd [OF h(4)])
  moreover have "hdr_ok (hdr_at g2 new)"
    using WBufAlignFileOffs_block [OF pos] h(2) pos by (auto simp: g2_def h2_def hdr_ok_def info_ok_def)
  moreover have "wview g2 as c = wview g as c" for c
    by (rule wview_cong) (use h(3) in \<open>auto simp: g2_def\<close>)
  moreover have "\<forall>a. a \<noteq> new \<longrightarrow> hdr_at g2 a = hdr_at g a" by (simp add: g2_def)
  ultimately show ?thesis using w(1) by (auto simp: g2_def h2_def)
qed

lemma wview_new:
  assumes "wbh_NumInfo (hdr_at g a) = 0"
  shows "wview g (xs @ a # ys) c = wview g (xs @ ys) c"
  by (simp add: wview_append hdr_view_empty [OF assms])

text \<open>What linking a new header gives.\<close>

definition linked ::
  "('srv \<Rightarrow> nfs_fh \<Rightarrow> int \<Rightarrow> u8) \<Rightarrow> 'srv global \<Rightarrow> 'srv global \<Rightarrow> efh \<Rightarrow> nfs_fh \<Rightarrow> addr \<Rightarrow> addr list \<Rightarrow> addr list \<Rightarrow> addr list
     \<Rightarrow> addr list \<Rightarrow> addr list \<Rightarrow> int \<Rightarrow> bool" where
  "linked content g g' e f new as as' os fs rbs Pos \<longleftrightarrow>
     wfile g' e f as' os fs rbs \<and> wframe os rbs g g' \<and> seen content f g' as' = seen content f g as \<and>
     hoffs g' new = WBufAlignFileOffs Pos \<and> wbh_NumInfo (hdr_at g' new) = 0 \<and>
     inherit g as g' as' \<and> (\<forall>a\<in>set as. hoffs g' a = hoffs g a)"

lemma link_head:
  assumes ob: "obtained g e f new as os fs rbs" and new: "new \<noteq> NULL" and pos: "0 \<le> Pos" "Pos < 2 ^ 31"
    and lt: "as = [] \<or> WBufAlignFileOffs Pos < hoffs g (hd as)" and w: "efh_WBuf e = Some w"
  shows "\<exists>g2 g' w'. upd_wbh new (\<lambda>h. h\<lparr>wbh_FileOffs := WBufAlignFileOffs Pos, wbh_NumInfo := 0\<rparr>) g = Some g2 \<and>
     WBufAddHead new g2 (w\<lparr>wbc_PosData := new\<rparr>) = Some (g', w') \<and>
     wbc_PosData w' = new \<and> wbc_FilePos w' = wbc_FilePos w \<and>
     linked content g g' (set_wbc w' e) f new as (new # as) os fs rbs Pos"
proof -
  obtain g2 where g2: "upd_wbh new (\<lambda>h. h\<lparr>wbh_FileOffs := WBufAlignFileOffs Pos, wbh_NumInfo := 0\<rparr>) g = Some g2"
     "wpool g2 (new # as @ os) fs rbs" "cluster g2 w as" "wframe os rbs g g2" "g_srv g2 = g_srv g"
     "hdr_ok (hdr_at g2 new)" "hoffs g2 new = WBufAlignFileOffs Pos" "wbh_NumInfo (hdr_at g2 new) = 0"
     "\<forall>c. wview g2 as c = wview g as c" "\<forall>a. a \<noteq> new \<longrightarrow> hdr_at g2 a = hdr_at g a"
    using prepare_new [OF ob new pos] w by auto
  have nin: "new \<notin> set as" "new \<notin> set os" using wpool_free [OF g2(2)] by auto
  have cl: "cluster g2 (w\<lparr>wbc_PosData := new\<rparr>) as" using g2(3) by (simp add: cluster_def)
  have "as = [] \<or> hoffs g2 new < hoffs g2 (hd as)" using lt g2(7,10) nin by (cases as) auto
  then obtain g' w' n where l: "WBufAddHead new g2 (w\<lparr>wbc_PosData := new\<rparr>) = Some (g', w')"
     "g' = g2\<lparr>hp_wbh := (hp_wbh g2)(new \<mapsto> (hdr_at g2 new)\<lparr>wbh_Next := n\<rparr>)\<rparr>"
     "cluster g' w' (new # as)" "wbc_same (w\<lparr>wbc_PosData := new\<rparr>) w'" "wbc_PosData w' = new"
    using WBufAddHead_spec [OF g2(2) cl g2(6)] by auto
  have at: "hdr_at g' = (hdr_at g2)(new := (hdr_at g2 new)\<lparr>wbh_Next := n\<rparr>)" by (rule ext) (simp add: l(2))
  have "wpool g' (new # as @ os) fs rbs"
    unfolding l(2) by (rule wpool_upd_used [OF g2(2)]) (use wpool_member [OF g2(2), of new] in auto)
  moreover have fr: "wframe os rbs g g'"
    using wframe_trans [OF g2(4) wframe_upd [OF nin(2)]] by (simp add: l(2))
  moreover have "efh_fh g' (set_wbc w' e) = Some f"
    using ob new efh_fh_frame [OF fr, of e] by (simp add: obtained_def efh_fh_def set_wbc_def)
  ultimately have "wfile g' (set_wbc w' e) f (new # as) os fs rbs" using l(3) by (simp add: wfile_def)
  moreover have "wview g' (new # as) c = wview g as c" for c
  proof -
    have "wview g' (new # as) c = wview g' as c"
      using wview_new [of g' new "[]" as c] g2(8) by (simp add: at)
    also have "\<dots> = wview g2 as c" by (rule wview_cong) (use nin in \<open>auto simp: at l(2)\<close>)
    finally show ?thesis using g2(9) by simp
  qed
  moreover have "inherit g as g' (new # as)"
    using g2(8,10) nin by (auto simp: inherit_def at)
  ultimately have "linked content g g' (set_wbc w' e) f new as (new # as) os fs rbs Pos"
    using fr g2(5,7,8,10) nin by (auto simp: linked_def seen_def at l(2))
  then show ?thesis using g2(1) l by (auto simp: wbc_same_def)
qed

lemma link_insert:
  assumes ob: "obtained g e f new (xs @ a # ys) os fs rbs" and new: "new \<noteq> NULL" and pos: "0 \<le> Pos" "Pos < 2 ^ 31"
    and lt: "hoffs g a < WBufAlignFileOffs Pos" "ys = [] \<or> WBufAlignFileOffs Pos < hoffs g (hd ys)"
    and w: "efh_WBuf e = Some w"
  shows "\<exists>g2 g' w'. upd_wbh new (\<lambda>h. h\<lparr>wbh_FileOffs := WBufAlignFileOffs Pos, wbh_NumInfo := 0\<rparr>) g = Some g2 \<and>
     WBufInsert a new g2 (w\<lparr>wbc_PosData := new\<rparr>) = Some (g', w') \<and>
     wbc_PosData w' = new \<and> wbc_FilePos w' = wbc_FilePos w \<and>
     linked content g g' (set_wbc w' e) f new (xs @ a # ys) (xs @ a # new # ys) os fs rbs Pos"
proof -
  let ?as = "xs @ a # ys" and ?as' = "xs @ a # new # ys"
  obtain g2 where g2: "upd_wbh new (\<lambda>h. h\<lparr>wbh_FileOffs := WBufAlignFileOffs Pos, wbh_NumInfo := 0\<rparr>) g = Some g2"
     "wpool g2 (new # ?as @ os) fs rbs" "cluster g2 w ?as" "wframe os rbs g g2" "g_srv g2 = g_srv g"
     "hdr_ok (hdr_at g2 new)" "hoffs g2 new = WBufAlignFileOffs Pos" "wbh_NumInfo (hdr_at g2 new) = 0"
     "\<forall>c. wview g2 ?as c = wview g ?as c" "\<forall>b. b \<noteq> new \<longrightarrow> hdr_at g2 b = hdr_at g b"
    using prepare_new [OF ob new pos] w by auto
  have nin: "new \<notin> set ?as" "new \<notin> set os" "a \<notin> set os" using wpool_free [OF g2(2)] by auto
  have cl: "cluster g2 (w\<lparr>wbc_PosData := new\<rparr>) ?as" using g2(3) by (simp add: cluster_def)
  have l1: "hoffs g2 a < hoffs g2 new" using lt(1) g2(7,10) nin by auto
  have l2: "ys = [] \<or> hoffs g2 new < hoffs g2 (hd ys)" using lt(2) g2(7,10) nin by (cases ys) auto
  obtain g' w' n m where l: "WBufInsert a new g2 (w\<lparr>wbc_PosData := new\<rparr>) = Some (g', w')"
     "g' = g2\<lparr>hp_wbh := (hp_wbh g2)(new \<mapsto> (hdr_at g2 new)\<lparr>wbh_Next := n\<rparr>, a \<mapsto> (hdr_at g2 a)\<lparr>wbh_Next := m\<rparr>)\<rparr>"
     "cluster g' w' ?as'" "wbc_same (w\<lparr>wbc_PosData := new\<rparr>) w'" "wbc_PosData w' = new"
    using WBufInsert_spec [OF g2(2) cl g2(6) l1 l2] by auto
  have at: "hdr_at g' = (hdr_at g2)(new := (hdr_at g2 new)\<lparr>wbh_Next := n\<rparr>, a := (hdr_at g2 a)\<lparr>wbh_Next := m\<rparr>)"
    by (rule ext) (simp add: l(2) hdr_at_def)
  have md: "mb_data g' = mb_data g2" "g_srv g' = g_srv g2" by (simp_all add: l(2))
  define g3 where "g3 = g2\<lparr>hp_wbh := (hp_wbh g2)(new \<mapsto> (hdr_at g2 new)\<lparr>wbh_Next := n\<rparr>)\<rparr>"
  have ne: "a \<noteq> new" using nin by auto
  have g': "g' = g3\<lparr>hp_wbh := (hp_wbh g3)(a \<mapsto> (hdr_at g3 a)\<lparr>wbh_Next := m\<rparr>)\<rparr>" using ne by (simp add: l(2) g3_def)
  have p3: "wpool g3 (new # ?as @ os) fs rbs"
    unfolding g3_def by (rule wpool_upd_used [OF g2(2)]) (use wpool_member [OF g2(2), of new] in auto)
  have p4: "wpool g' (new # ?as @ os) fs rbs"
    unfolding g' by (rule wpool_upd_used [OF p3]) (use wpool_member [OF p3, of a] in auto)
  have "wpool g' (?as' @ os) fs rbs"
  proof (rule wpoolI [of _ "map (hdata g') (?as' @ os)"])
    have "mb_inv g' (map (hdata g') (new # ?as @ os) @ rbs)" using wpool_free [OF p4] by simp
    then show "mb_inv g' (map (hdata g') (?as' @ os) @ rbs)" by (auto simp: mb_inv_def)
  qed (use p4 wpool_free [OF p4] wpool_count [OF p4] wpool_member [OF p4] in auto)
  moreover have fr: "wframe os rbs g g'"
    using wframe_trans [OF wframe_trans [OF g2(4) wframe_upd [OF nin(2)]] wframe_upd [OF nin(3)]]
    unfolding g' g3_def by auto
  moreover have "efh_fh g' (set_wbc w' e) = Some f"
    using ob new efh_fh_frame [OF fr, of e] by (simp add: obtained_def efh_fh_def set_wbc_def)
  ultimately have "wfile g' (set_wbc w' e) f ?as' os fs rbs" using l(3) by (simp add: wfile_def)
  moreover have "wview g' ?as' c = wview g ?as c" for c
  proof -
    have "wview g' ?as' c = wview g' ?as c"
      using wview_new [of g' new "xs @ [a]" ys c] g2(8) ne by (simp add: at)
    also have "\<dots> = wview g2 ?as c" by (rule wview_cong) (use nin in \<open>auto simp: at md\<close>)
    finally show ?thesis using g2(9) by simp
  qed
  moreover have "inherit g ?as g' ?as'"
    using g2(8,10) nin by (auto simp: inherit_def at)
  ultimately have "linked content g g' (set_wbc w' e) f new ?as ?as' os fs rbs Pos"
    using fr g2(5,7,8,10) nin by (auto simp: linked_def seen_def at md)
  then show ?thesis using g2(1) l by (auto simp: wbc_same_def)
qed

lemma wbuf_scan_spec:
  "chain (nxt g) p (xs @ b # ys) NULL \<Longrightarrow> (\<forall>a\<in>set (xs @ [b]). hp_wbh g a = Some (hdr_at g a)) \<Longrightarrow>
     (\<forall>a\<in>set xs. hoffs g a < P) \<Longrightarrow> \<not> hoffs g b < P \<Longrightarrow>
     wbuf_scan g P p prev = Some (b, if xs = [] then prev else last xs)"
proof (induction xs arbitrary: p prev)
  case Nil
  then show ?case by (subst wbuf_scan.simps) auto
next
  case (Cons a xs)
  have "wbuf_scan g P (nxt g a) a = Some (b, if xs = [] then a else last xs)"
    by (rule Cons.IH) (use Cons.prems in auto)
  then show ?case using Cons.prems by (subst wbuf_scan.simps) (auto simp: nxt_def)
qed

lemma wready_new:
  assumes "linked content g g' (set_wbc w' e) f new as (xs @ new # ys) os fs rbs Pos" and "0 \<le> Pos" "Pos < 2 ^ 31"
    and "wbc_PosData w' = new" "wbc_FilePos w' = Pos" and "ys = [] \<or> Pos \<le> hoffs g (hd ys)"
    and "set ys \<subseteq> set as"
  shows "wready g' (set_wbc w' e) (xs @ new # ys) Pos"
proof -
  have "hoffs g' new \<le> Pos" using assms WBufAlignFileOffs_block [of Pos] by (simp add: linked_def)
  moreover have "ys = [] \<or> Pos \<le> hoffs g' (hd ys)"
    using assms(1,6,7) by (cases ys) (auto simp: linked_def)
  ultimately show ?thesis using assms(4,5) unfolding wready_def by auto
qed

lemma aligned_below:
  assumes "MBUFSIZE dvd x" "0 \<le> Pos" "Pos < 2 ^ 31" "Pos < x"
  shows "WBufAlignFileOffs Pos < x"
  using WBufAlignFileOffs_block [OF assms(2,3)] assms(4) by simp

text \<open>The search stops at a block that is right for \<open>WBufWrite\<close>.\<close>

lemma wbuf_seek_spec:
  assumes cl: "cluster g w as" and mem: "\<And>a. a \<in> set as \<Longrightarrow> hp_wbh g a = Some (hdr_at g a)"
  shows "if as = [] \<or> Pos < hoffs g (hd as) then wbuf_seek g w Pos = Some None
    else \<exists>xs a ys. as = xs @ a # ys \<and> wbuf_seek g w Pos = Some (Some a) \<and> hoffs g a \<le> Pos \<and>
           (ys = [] \<or> Pos \<le> hoffs g (hd ys))"
proof -
  have chain: "chain (nxt g) (wbc_FirstData w) as NULL" using cl by (simp add: cluster_def)
  have first: "wbc_FirstData w = NULL \<longleftrightarrow> as = []" by (rule chain_NULL_Nil [OF chain])
  have fst: "wbc_FirstData w = hd as" if "as \<noteq> []" using chain that by (cases as) auto
  consider (empty) "as = []" | (before) "as \<noteq> []" "Pos < hoffs g (hd as)"
    | (behind) "as \<noteq> []" "\<not> Pos < hoffs g (hd as)" "hoffs g (last as) + MBUFSIZE \<le> Pos"
    | (inside) "as \<noteq> []" "\<not> Pos < hoffs g (hd as)" "\<not> hoffs g (last as) + MBUFSIZE \<le> Pos" by blast
  note else_case0 = this
  have else_case: "\<not> (as = [] \<or> Pos < hoffs g (hd as))" if "as \<noteq> []" "\<not> Pos < hoffs g (hd as)" using that by simp
  show ?thesis using else_case0
  proof cases
    case empty
    then show ?thesis using first by (simp add: wbuf_seek_def)
  next
    case before
    then show ?thesis using first fst mem [of "hd as"] by (simp add: wbuf_seek_def)
  next
    case behind
    have last: "wbc_LastData w = last as" using cl behind by (simp add: cluster_def)
    have "wbuf_seek g w Pos = Some (Some (last as))"
      using behind first fst last mem [of "hd as"] mem [of "last as"] by (simp add: wbuf_seek_def)
    then have "as = butlast as @ last as # [] \<and> wbuf_seek g w Pos = Some (Some (last as)) \<and> hoffs g (last as) \<le> Pos"
      using behind by simp
    then show ?thesis unfolding if_not_P [OF else_case [OF behind(1,2)]] by blast
  next
    case inside
    define P where "P = Pos - MBUFSIZE"
    have last: "wbc_LastData w = last as" using cl inside by (simp add: cluster_def)
    have "\<exists>b\<in>set as. \<not> hoffs g b < P" using inside last_in_set by (force simp: P_def)
    then obtain xs b ys where sp: "as = xs @ b # ys" "\<not> hoffs g b < P" "\<forall>a\<in>set xs. hoffs g a < P"
      using split_list_first_prop [of as "\<lambda>b. \<not> hoffs g b < P"] by auto
    have scan: "wbuf_scan g P (wbc_FirstData w) NULL = Some (b, if xs = [] then NULL else last xs)"
      by (rule wbuf_scan_spec) (use chain sp mem in auto)
    have in_b: "b \<in> set as" using sp(1) by simp
    have "wbc_FirstData w \<noteq> NULL" "hp_wbh g (wbc_FirstData w) = Some (hdr_at g (wbc_FirstData w))"
      "\<not> Pos < hoffs g (wbc_FirstData w)" "hp_wbh g (wbc_LastData w) = Some (hdr_at g (wbc_LastData w))"
      "\<not> Pos \<ge> hoffs g (wbc_LastData w) + MBUFSIZE" "hp_wbh g b = Some (hdr_at g b)"
      using inside first fst last mem [of "hd as"] mem [of "last as"] mem [of b] in_b by simp_all
    then have seek: "wbuf_seek g w Pos = Some (Some (if Pos < hoffs g b then if xs = [] then NULL else last xs else b))"
      using scan by (simp add: wbuf_seek_def P_def)
    show ?thesis
    proof (cases "Pos < hoffs g b")
      case True
      then have ne: "xs \<noteq> []" using inside(2) sp(1) by (cases xs) auto
      then obtain x a where x: "xs = x @ [a]" using rev_exhaust by blast
      have "as = x @ a # (b # ys) \<and> wbuf_seek g w Pos = Some (Some a) \<and> hoffs g a \<le> Pos \<and>
          (b # ys = [] \<or> Pos \<le> hoffs g (hd (b # ys)))"
        using sp(1,3) seek True by (auto simp: x P_def)
      then show ?thesis unfolding if_not_P [OF else_case [OF inside(1,2)]] by blast
    next
      case False
      have "ys = [] \<or> Pos \<le> hoffs g (hd ys)"
        using cluster_gap [of g w xs b ys "hd ys"] cl sp(1,2) by (cases ys) (auto simp: P_def)
      then show ?thesis using seek False sp(1) inside by auto
    qed
  qed
qed

text \<open>Positioning keeps the view and every invariant, and ends ready to write.\<close>

lemma WBufSeekAndPrepare_spec:
  assumes srv: "wserver_ok rpc content (g_NFSGlobal g)" and wf: "wfile g e f as os fs rbs"
    and w0: "efh_WBuf e = Some w0" and pos: "0 \<le> Pos" "Pos < 2 ^ 31"
  shows "\<exists>r g' e' as' fs'. WBufSeekAndPrepare rpc g e Pos = Some (r, g', e') \<and> wframe os rbs g g' \<and> efh_core e e' \<and>
     wfile g' e' f as' os fs' rbs \<and>
     (case r of WFail _ \<Rightarrow> as' = []
      | WNoMem \<Rightarrow> as' = [] \<and> seen content f g' as' = seen content f g as
      | WDone _ \<Rightarrow> seen content f g' as' = seen content f g as \<and> wready g' e' as' Pos \<and>
          inherit g as g' as')"
proof -
  define w where "w = w0\<lparr>wbc_FilePos := Pos\<rparr>"
  have p: "wpool g (as @ os) fs rbs" "efh_fh g e = Some f" and cl: "cluster g w as"
    using wf w0 by (auto simp: wfile_def w_def cluster_def)
  have wf1: "wfile g (set_wbc w e) f as os fs rbs" using p cl by (simp add: wfile_def efh_fh_def)
  have mem: "hp_wbh g a = Some (hdr_at g a)" if "a \<in> set as" for a using wpool_member [OF p(1), of a] that by auto
  note seek = wbuf_seek_spec [OF cl mem, of Pos]
  show ?thesis
  proof (cases "as = [] \<or> Pos < hoffs g (hd as)")
    case False
    then obtain xs a ys where s: "as = xs @ a # ys" "wbuf_seek g w Pos = Some (Some a)" "hoffs g a \<le> Pos"
      "ys = [] \<or> Pos \<le> hoffs g (hd ys)" using seek by auto
    let ?e = "set_wbc (w\<lparr>wbc_PosData := a\<rparr>) e"
    have run: "WBufSeekAndPrepare rpc g e Pos = Some (WDone 1, g, ?e)"
      using w0 s(2) by (simp add: WBufSeekAndPrepare_def w_def [symmetric] Let_def)
    moreover have "wready g ?e as Pos" unfolding wready_def using s by (auto simp: w_def)
    moreover have "wfile g ?e f as os fs rbs" using p cl by (simp add: wfile_def efh_fh_def cluster_def)
    ultimately show ?thesis by force
  next
    case True
    obtain r g1 e1 fs1 where o: "obtain_or_flush rpc False g (set_wbc w e) = Some (r, g1, e1)" "wframe os rbs g g1"
       "efh_same (set_wbc w e) e1"
       "case r of Inl _ \<Rightarrow> wfile g1 e1 f [] os fs1 rbs
        | Inr (new, flushed) \<Rightarrow> obtained g1 e1 f new (if flushed then [] else as) os fs1 rbs \<and>
            seen content f g1 (if flushed then [] else as) = seen content f g as \<and>
            (flushed \<or> (\<forall>a\<in>set as. hdr_at g1 a = hdr_at g a)) \<and> (as \<noteq> [] \<longrightarrow> new \<noteq> NULL)"
      using obtain_or_flush_spec [OF srv wf1, of w False] by auto
    have core: "efh_core e e1" using efh_same_core [OF o(3)] by (simp add: efh_core_def set_wbc_def)
    have sk: "wbuf_seek g w Pos = Some None" using seek True by simp
    show ?thesis
    proof (cases r)
      case (Inl res2)
      then have "WBufSeekAndPrepare rpc g e Pos = Some (WFail res2, g1, e1)"
        using w0 sk o(1) by (simp add: WBufSeekAndPrepare_def w_def [symmetric] Let_def)
      then show ?thesis using Inl o core by auto
    next
      case (Inr q)
      obtain new flushed where q: "q = (new, flushed)" by (cases q)
      define as1 where "as1 = (if flushed then [] else as)"
      have ob: "obtained g1 e1 f new as1 os fs1 rbs" "seen content f g1 as1 = seen content f g as"
        "\<forall>a\<in>set as1. hdr_at g1 a = hdr_at g a" "as1 = [] \<or> as1 = as"
        using o(4) Inr q by (auto simp: as1_def)
      show ?thesis
      proof (cases "new = NULL")
        case True
        then have "WBufSeekAndPrepare rpc g e Pos = Some (WNoMem, g1, e1)"
          using w0 sk o(1) Inr q by (simp add: WBufSeekAndPrepare_def w_def [symmetric] Let_def)
        then show ?thesis using ob True o(2) core by (auto simp: obtained_def)
      next
        case new: False
        obtain w1 where w1: "efh_WBuf e1 = Some w1" "wbc_FilePos w1 = Pos"
          using o(3) by (auto simp: efh_same_def wbc_same_def w_def)
        have hd: "as1 = [] \<or> Pos < hoffs g1 (hd as1) \<and> MBUFSIZE dvd hoffs g1 (hd as1)"
          using True ob(3,4) cl by (cases as1) (auto simp: cluster_def hdr_ok_def)
        then have lt: "as1 = [] \<or> WBufAlignFileOffs Pos < hoffs g1 (hd as1)"
          using aligned_below [OF _ pos] by auto
        obtain g2 g' w' where l:
          "upd_wbh new (\<lambda>h. h\<lparr>wbh_FileOffs := WBufAlignFileOffs Pos, wbh_NumInfo := 0\<rparr>) g1 = Some g2"
          "WBufAddHead new g2 (w1\<lparr>wbc_PosData := new\<rparr>) = Some (g', w')"
          "wbc_PosData w' = new" "wbc_FilePos w' = Pos"
          "linked content g1 g' (set_wbc w' e1) f new as1 (new # as1) os fs1 rbs Pos"
          using link_head [OF ob(1) new pos lt w1(1), where content = content] w1(2) by auto
        have run: "WBufSeekAndPrepare rpc g e Pos = Some (WDone 1, g', set_wbc w' e1)"
          using w0 sk o(1) Inr q new w1(1) l(1,2)
          by (simp add: WBufSeekAndPrepare_def w_def [symmetric] Let_def)
        have "wready g' (set_wbc w' e1) (new # as1) Pos"
          using wready_new [of content g1 g' w' e1 f new as1 "[]" as1] l(3,4,5) pos hd by auto
        moreover have "inherit g as g' (new # as1)"
          using l(5) ob(3,4) unfolding linked_def inherit_def by fastforce
        ultimately have "case WDone 1 of WFail _ \<Rightarrow> new # as1 = []
          | WNoMem \<Rightarrow> new # as1 = [] \<and> seen content f g' (new # as1) = seen content f g as
          | WDone _ \<Rightarrow> seen content f g' (new # as1) = seen content f g as \<and>
              wready g' (set_wbc w' e1) (new # as1) Pos \<and>
              inherit g as g' (new # as1)"
          using l(5) ob(2) by (simp add: linked_def)
        moreover have "wframe os rbs g g'" "wfile g' (set_wbc w' e1) f (new # as1) os fs1 rbs"
          using l(5) wframe_trans [OF o(2)] by (auto simp: linked_def)
        ultimately show ?thesis using run core by (intro exI conjI) (assumption | simp)+
      qed
    qed
  qed
qed

subsection \<open>Writing one block\<close>

text \<open>The block found for the position \<open>Pos\<close>.\<close>

definition targeted :: "'srv global \<Rightarrow> efh \<Rightarrow> addr list \<Rightarrow> addr \<Rightarrow> int \<Rightarrow> bool" where
  "targeted g e as b Pos \<longleftrightarrow> b \<in> set as \<and> hoffs g b \<le> Pos \<and> Pos < hoffs g b + MBUFSIZE \<and>
     (\<exists>w. efh_WBuf e = Some w \<and> wbc_FilePos w = Pos \<and> wbc_PosData w \<in> set as \<and>
        (wbc_PosData w \<noteq> b \<longrightarrow> Pos = hoffs g b))"

lemma wbuf_target_spec:
  assumes srv: "wserver_ok rpc content (g_NFSGlobal g)" and wf: "wfile g e f as os fs rbs"
    and ready: "wready g e as Pos" and pos: "0 \<le> Pos" "Pos < 2 ^ 31"
  shows "\<exists>r g' e' as' fs'. wbuf_target rpc g e Pos = Some (r, g', e') \<and> wframe os rbs g g' \<and> efh_core e e' \<and>
     wfile g' e' f as' os fs' rbs \<and> inherit g as g' as' \<and>
     (case r of Inl (WFail _) \<Rightarrow> as' = []
      | Inl WNoMem \<Rightarrow> False
      | Inl (WDone _) \<Rightarrow> False
      | Inr b \<Rightarrow> seen content f g' as' = seen content f g as \<and> targeted g' e' as' b Pos)"
proof -
  obtain w xs a ys where w: "efh_WBuf e = Some w" "wbc_FilePos w = Pos" "wbc_PosData w = a" "as = xs @ a # ys"
      "hoffs g a \<le> Pos" "ys = [] \<or> Pos \<le> hoffs g (hd ys)"
    using ready by (auto simp: wready_def)
  have p: "wpool g (as @ os) fs rbs" and cl: "cluster g w as" using wf w by (auto simp: wfile_def)
  have mem: "hp_wbh g c = Some (hdr_at g c)" if "c \<in> set as" for c using wpool_member [OF p, of c] that by auto
  have chain: "chain (nxt g) (wbc_FirstData w) (xs @ a # ys) NULL" using cl w(4) by (simp add: cluster_def)
  then have tail: "chain (nxt g) (nxt g a) ys NULL" by (simp add: chain_middle)
  have al: "MBUFSIZE dvd hoffs g c" if "c \<in> set as" for c using cl that by (auto simp: cluster_def hdr_ok_def)
  show ?thesis
  proof (cases "Pos < hoffs g a + MBUFSIZE")
    case True
    then have "wbuf_target rpc g e Pos = Some (Inr a, g, e)"
      using w mem [of a] by (simp add: wbuf_target_def Let_def)
    moreover have "targeted g e as a Pos" unfolding targeted_def using True w by auto
    ultimately show ?thesis using wf by force
  next
    case far: False
    show ?thesis
    proof (cases "ys \<noteq> [] \<and> Pos = hoffs g (hd ys)")
      case True
      then have n: "wbh_Next (hdr_at g a) = hd ys" "hd ys \<noteq> NULL" "hd ys \<in> set as"
        using tail w(4) by (cases ys; auto simp: nxt_def)+
      have "wbuf_target rpc g e Pos = Some (Inr (hd ys), g, e)"
        using w mem [of a] mem [OF n(3)] far n True by (simp add: wbuf_target_def Let_def IsInclBetween_def)
      moreover have "targeted g e as (hd ys) Pos" unfolding targeted_def using True w n by auto
      ultimately show ?thesis using wf by force
    next
      case False
      have noNext: "(if wbh_Next (hdr_at g a) \<noteq> NULL then
           do { nh \<leftarrow> hp_wbh g (wbh_Next (hdr_at g a));
                Some (IsInclBetween Pos (wbh_FileOffs nh) (wbh_FileOffs nh + MBUFSIZE - 1)) }
         else Some False) = Some False"
      proof (cases ys)
        case Nil
        then show ?thesis using tail by (simp add: nxt_def)
      next
        case (Cons y zs)
        then show ?thesis using tail False w(4,6) mem [of y] by (auto simp: nxt_def IsInclBetween_def)
      qed
      obtain r g1 e1 fs1 where o: "obtain_or_flush rpc True g e = Some (r, g1, e1)" "wframe os rbs g g1" "efh_same e e1"
        "case r of Inl _ \<Rightarrow> wfile g1 e1 f [] os fs1 rbs
         | Inr (new, flushed) \<Rightarrow> obtained g1 e1 f new (if flushed then [] else as) os fs1 rbs \<and>
             seen content f g1 (if flushed then [] else as) = seen content f g as \<and>
             (flushed \<or> (\<forall>a\<in>set as. hdr_at g1 a = hdr_at g a)) \<and> (as \<noteq> [] \<longrightarrow> new \<noteq> NULL)"
        using obtain_or_flush_spec [OF srv wf w(1), of True] by auto
      have run: "wbuf_target rpc g e Pos =
          (case r of
             Inl res2 \<Rightarrow> Some (Inl (WFail res2), g1, e1)
           | Inr (new, flushed) \<Rightarrow>
               if new = NULL then Some (Inl WNoMem, g1, e1)
               else do {
                 w1 \<leftarrow> efh_WBuf e1;
                 g2 \<leftarrow> upd_wbh new (\<lambda>h. h\<lparr>wbh_FileOffs := WBufAlignFileOffs Pos, wbh_NumInfo := 0\<rparr>) g1;
                 (g3, w2) \<leftarrow> WBufInsert (if flushed then NULL else a) new g2 (w1\<lparr>wbc_PosData := new\<rparr>);
                 Some (Inr new, g3, set_wbc w2 e1)
               })"
        unfolding wbuf_target_def using w far mem [of a] noNext o(1)
        by (cases r) (simp_all add: Let_def del: bind_Some_conv split del: if_split split: prod.split cong: if_cong)
      show ?thesis
      proof (cases r)
        case (Inl res2)
        then show ?thesis using run o efh_same_core [OF o(3)] by force
      next
        case (Inr q)
        obtain new flushed where q: "q = (new, flushed)" by (cases q)
        define as1 where "as1 = (if flushed then [] else as)"
        have ob: "obtained g1 e1 f new as1 os fs1 rbs" "seen content f g1 as1 = seen content f g as"
          "\<forall>a\<in>set as1. hdr_at g1 a = hdr_at g a"
          using o(4) Inr q by (auto simp: as1_def)
        show ?thesis
        proof (cases "new = NULL")
          case True
          then show ?thesis using o(4) Inr q w(4) by auto
        next
          case new: False
          obtain w1 where w1: "efh_WBuf e1 = Some w1" "wbc_FilePos w1 = Pos"
            using o(3) w by (auto simp: efh_same_def wbc_same_def)
          have "\<exists>g2 g' w' as'. upd_wbh new (\<lambda>h. h\<lparr>wbh_FileOffs := WBufAlignFileOffs Pos, wbh_NumInfo := 0\<rparr>) g1 = Some g2 \<and>
             WBufInsert (if flushed then NULL else a) new g2 (w1\<lparr>wbc_PosData := new\<rparr>) = Some (g', w') \<and>
             wbc_PosData w' = new \<and> wbc_FilePos w' = wbc_FilePos w1 \<and> new \<in> set as' \<and>
             linked content g1 g' (set_wbc w' e1) f new as1 as' os fs1 rbs Pos"
          proof (cases flushed)
            case True
            then have "as1 = [] \<or> WBufAlignFileOffs Pos < hoffs g1 (hd as1)" by (simp add: as1_def)
            then obtain g2 g' w' where l:
              "upd_wbh new (\<lambda>h. h\<lparr>wbh_FileOffs := WBufAlignFileOffs Pos, wbh_NumInfo := 0\<rparr>) g1 = Some g2"
              "WBufAddHead new g2 (w1\<lparr>wbc_PosData := new\<rparr>) = Some (g', w')"
              "wbc_PosData w' = new" "wbc_FilePos w' = wbc_FilePos w1"
              "linked content g1 g' (set_wbc w' e1) f new as1 (new # as1) os fs1 rbs Pos"
              using link_head [OF ob(1) new pos _ w1(1), where content = content] by blast
            show ?thesis
              by (rule exI [of _ g2], rule exI [of _ g'], rule exI [of _ w'], rule exI [of _ "new # as1"])
                (use l True in \<open>simp add: WBufInsert_def\<close>)
          next
            case False
            have ne: "a \<noteq> NULL" using chain_not_NULL [OF chain] by simp
            have ob': "obtained g1 e1 f new (xs @ a # ys) os fs1 rbs" using ob(1) False w(4) by (simp add: as1_def)
            have eq: "hoffs g1 c = hoffs g c" if "c \<in> set as" for c using ob(3) False that by (simp add: as1_def)
            have "hoffs g1 a < WBufAlignFileOffs Pos"
              using far eq [of a] w(4) WBufAlignFileOffs_block [OF pos] by simp
            moreover have "ys = [] \<or> WBufAlignFileOffs Pos < hoffs g1 (hd ys)"
            proof (cases ys)
              case (Cons y zs)
              then have "Pos < hoffs g1 y" "MBUFSIZE dvd hoffs g1 y"
                using \<open>\<not> (ys \<noteq> [] \<and> Pos = hoffs g (hd ys))\<close> w(4,6) eq [of y] al [of y] by auto
              then show ?thesis using aligned_below [OF _ pos] Cons by simp
            qed simp
            ultimately obtain g2 g' w' where l:
              "upd_wbh new (\<lambda>h. h\<lparr>wbh_FileOffs := WBufAlignFileOffs Pos, wbh_NumInfo := 0\<rparr>) g1 = Some g2"
              "WBufInsert a new g2 (w1\<lparr>wbc_PosData := new\<rparr>) = Some (g', w')"
              "wbc_PosData w' = new" "wbc_FilePos w' = wbc_FilePos w1"
              "linked content g1 g' (set_wbc w' e1) f new (xs @ a # ys) (xs @ a # new # ys) os fs1 rbs Pos"
              using link_insert [OF ob' new pos _ _ w1(1), where content = content] by blast
            have "as1 = xs @ a # ys" "\<not> flushed" using False w(4) by (auto simp: as1_def)
            then show ?thesis
              by - (rule exI [of _ g2], rule exI [of _ g'], rule exI [of _ w'], rule exI [of _ "xs @ a # new # ys"],
                use l in simp)
          qed
          then obtain g2 g' w' as' where l:
             "upd_wbh new (\<lambda>h. h\<lparr>wbh_FileOffs := WBufAlignFileOffs Pos, wbh_NumInfo := 0\<rparr>) g1 = Some g2"
             "WBufInsert (if flushed then NULL else a) new g2 (w1\<lparr>wbc_PosData := new\<rparr>) = Some (g', w')"
             "wbc_PosData w' = new" "wbc_FilePos w' = Pos" "new \<in> set as'"
             "linked content g1 g' (set_wbc w' e1) f new as1 as' os fs1 rbs Pos"
            using w1(2) by auto
          have "wbuf_target rpc g e Pos = Some (Inr new, g', set_wbc w' e1)"
            using run Inr q new w1(1) l(1,2) by simp
          moreover have "targeted g' (set_wbc w' e1) as' new Pos"
            using l(3-6) WBufAlignFileOffs_block [OF pos] by (simp add: targeted_def linked_def)
          moreover have "inherit g as g' as'"
            using l(6) ob(3) unfolding linked_def inherit_def as1_def by (fastforce split: if_splits)
          moreover have "wframe os rbs g g'" "wfile g' (set_wbc w' e1) f as' os fs1 rbs"
            "seen content f g' as' = seen content f g as"
            using l(6) wframe_trans [OF o(2)] ob(2) by (auto simp: linked_def)
          ultimately show ?thesis using efh_same_core [OF o(3)] by force
        qed
      qed
    qed
  qed
qed

lemma wview_put:
  "(\<forall>a\<in>set as. hdr_ok (hdr_at g a) \<and>
      (off + int (length bs) \<le> hoffs g a \<or> hoffs g a + MBUFSIZE \<le> off)) \<Longrightarrow>
   wview g as (put_bytes off bs c) = put_bytes off bs (wview g as c)"
proof (induction as arbitrary: c)
  case (Cons a as)
  have "hdr_view (hdr_at g a) (mb_data g (hdata g a)) (put_bytes off bs c) =
      put_bytes off bs (hdr_view (hdr_at g a) (mb_data g (hdata g a)) c)"
    by (rule hdr_view_commute) (use Cons.prems in \<open>auto simp: hdr_ok_def info_ok_def\<close>)
  then show ?case using Cons by simp
qed simp

text \<open>Storing bytes in a block and marking them dirty lays them over the view.\<close>

lemma write_block:
  fixes bs :: "u8 list"
  assumes wf: "wfile g e f as os fs rbs" and t: "targeted g e as b Pos" and cap: "wbh_NumInfo (hdr_at g b) < WBUFHDRINFOSIZE"
    and Offs: "Offs = Pos - hoffs g b" and bs: "bs \<noteq> []" "Offs + int (length bs) \<le> MBUFSIZE"
  shows "\<exists>g2 n info. mb_copy_in (hdata g b) Offs bs g = Some g2 \<and>
     WBufUpdateInfo (wbh_NumInfo (hdr_at g b)) (wbh_Info (hdr_at g b)) Offs (int (length bs)) = Some (n, info) \<and>
     hp_wbh g2 b = Some (hdr_at g b) \<and>
     (let g3 = g2\<lparr>hp_wbh := (hp_wbh g2)(b \<mapsto> (hdr_at g b)\<lparr>wbh_NumInfo := n, wbh_Info := info\<rparr>)\<rparr> in
      wfile g3 e f as os fs rbs \<and> wframe os rbs g g3 \<and>
      hdr_at g3 = (hdr_at g)(b := (hdr_at g b)\<lparr>wbh_NumInfo := n, wbh_Info := info\<rparr>) \<and>
      seen content f g3 as = (seen content f g as)(f := put_bytes Pos bs (seen content f g as f))) \<and>
     n \<le> wbh_NumInfo (hdr_at g b) + 1 \<and> Offs \<in> covers (take n info) \<and>
     (Offs \<in> covers (take (wbh_NumInfo (hdr_at g b)) (wbh_Info (hdr_at g b))) \<longrightarrow> n \<le> wbh_NumInfo (hdr_at g b))"
proof -
  define h where "h = hdr_at g b"
  obtain w where w: "efh_WBuf e = Some w" "b \<in> set as" "hoffs g b \<le> Pos" "Pos < hoffs g b + MBUFSIZE"
    using t by (auto simp: targeted_def)
  obtain xs ys where sp: "as = xs @ b # ys" using w(2) by (auto simp: in_set_conv_decomp)
  have p: "wpool g (as @ os) fs rbs" and cl: "cluster g w as" using wf w by (auto simp: wfile_def)
  have hb: "hp_wbh g b = Some h" "hdr_ok h" using wpool_member [OF p, of b] w(2) cl by (auto simp: h_def cluster_def)
  have io: "info_ok (wbh_NumInfo h) (wbh_Info h)" using hb by (simp add: hdr_ok_def)
  have mb: "mb_inv g (map (hdata g) (as @ os) @ rbs)" using wpool_free [OF p] by simp
  have d: "hdata g b \<noteq> NULL" "\<forall>c\<in>set (xs @ ys @ os). hdata g c \<noteq> hdata g b" "hdata g b \<notin> set rbs"
    and dist: "b \<notin> set xs" "b \<notin> set ys" "b \<notin> set os"
    using mb wpool_free [OF p] unfolding sp by (auto simp: mb_inv_def rev_image_eqI)
  have o: "0 \<le> Offs" "0 < int (length bs)" using w Offs bs by auto
  define g2 where "g2 = g\<lparr>mb_data := (mb_data g)(hdata g b := put_bytes Offs bs (mb_data g (hdata g b)))\<rparr>"
  have run1: "mb_copy_in (hdata g b) Offs bs g = Some g2" using d o bs by (simp add: mb_copy_in_def g2_def)
  obtain n info where u: "WBufUpdateInfo (wbh_NumInfo h) (wbh_Info h) Offs (int (length bs)) = Some (n, info)"
      "info_ok n info" "n \<le> wbh_NumInfo h + 1"
      "covers (take n info) = covers (take (wbh_NumInfo h) (wbh_Info h)) \<union> {Offs..<Offs + int (length bs)}"
    using WBufUpdateInfo_ok [OF io _ o bs(2)] cap by (auto simp: h_def)
  define h' where "h' = h\<lparr>wbh_NumInfo := n, wbh_Info := info\<rparr>"
  define g3 where "g3 = g2\<lparr>hp_wbh := (hp_wbh g2)(b \<mapsto> h')\<rparr>"
  have at: "hdr_at g3 = (hdr_at g)(b := h')" by (rule ext) (simp add: g3_def g2_def hdr_at_def)
  have p2: "wpool g2 (as @ os) fs rbs" using p by (simp add: g2_def wpool_def mb_inv_def)
  have p3: "wpool g3 (as @ os) fs rbs"
    unfolding g3_def by (rule wpool_upd_used [OF p2]) (use w(2) u(2) in \<open>auto simp: h'_def h_def g2_def info_ok_def\<close>)
  have nx: "nxt g3 = nxt g" by (rule ext) (simp add: nxt_def at h'_def h_def)
  have of: "hoffs g3 = hoffs g" by (rule ext) (simp add: at h'_def h_def)
  have "cluster g3 w as"
    using cl hb(2) u(2) unfolding cluster_def nx of by (auto simp: at h'_def hdr_ok_def)
  moreover have fr: "wframe os rbs g g3"
    using d dist by (auto simp: wframe_def wconf_same_def g3_def g2_def)
  ultimately have wf3: "wfile g3 e f as os fs rbs"
    using p3 w(1) wf efh_fh_frame [OF fr, of e] by (simp add: wfile_def)
  have md: "mb_data g3 = (mb_data g)(hdata g b := put_bytes Offs bs (mb_data g (hdata g b)))"
    by (simp add: g3_def g2_def)
  have "wview g3 as c = put_bytes Pos bs (wview g as c)" for c
  proof -
    have xs: "wview g3 xs c = wview g xs c"
      by (rule wview_cong) (use dist d in \<open>auto simp: at md\<close>)
    have ys: "wview g3 ys c' = wview g ys c'" for c'
      by (rule wview_cong) (use dist d in \<open>auto simp: at md\<close>)
    have b: "hdr_view (hdr_at g3 b) (mb_data g3 (hdata g3 b)) c' =
        put_bytes Pos bs (hdr_view h (mb_data g (hdata g b)) c')" for c'
      using u(4) Offs by (auto simp: hdr_view_def at md h'_def h_def put_bytes_def fun_eq_iff)
    have "hoffs g b + MBUFSIZE \<le> hoffs g c" if "c \<in> set ys" for c
      using cluster_gap [of g w xs b ys c] cl sp that by simp
    then have "wview g ys (put_bytes Pos bs c') = put_bytes Pos bs (wview g ys c')" for c'
      using cl bs(2) Offs sp by (intro wview_put) (force simp: cluster_def)
    then show ?thesis by (simp add: sp wview_append xs ys b h_def)
  qed
  then have "seen content f g3 as = (seen content f g as)(f := put_bytes Pos bs (seen content f g as f))"
    by (auto simp: seen_def g3_def g2_def)
  moreover have "hp_wbh g2 b = Some (hdr_at g b)" using hb by (simp add: g2_def h_def)
  moreover have "Offs \<in> covers (take n info)" using u(4) o by auto
  moreover have "Offs \<in> covers (take (wbh_NumInfo h) (wbh_Info h)) \<longrightarrow> n \<le> wbh_NumInfo h"
    using WBufUpdateInfo_covered [OF io _ o(2) _ u(1)] cap by (auto simp: h_def)
  ultimately show ?thesis using run1 u wf3 fr at
    unfolding Let_def g3_def h'_def h_def by blast
qed

lemma targeted_offs:
  assumes "wfile g e f as os fs rbs" and "targeted g e as b Pos"
  shows "Pos - hoffs g b = Pos mod MBUFSIZE"
proof -
  have "MBUFSIZE dvd hoffs g b" using assms by (auto simp: targeted_def wfile_def cluster_def hdr_ok_def)
  then obtain k where k: "hoffs g b = MBUFSIZE * k" by (auto simp: dvd_def)
  have "0 \<le> Pos - MBUFSIZE * k" "Pos - MBUFSIZE * k < MBUFSIZE" using assms(2) k by (auto simp: targeted_def)
  then have "(MBUFSIZE * k + (Pos - MBUFSIZE * k)) mod MBUFSIZE = Pos - MBUFSIZE * k"
    by (subst mod_mult_self4) simp
  then show ?thesis using k by simp
qed

lemma wfile_set_FilePos:
  "wfile g e f as os fs rbs \<Longrightarrow> efh_WBuf e = Some w \<Longrightarrow>
     wfile g (set_wbc (w\<lparr>wbc_FilePos := q\<rparr>) e) f as os fs rbs"
  by (simp add: wfile_def efh_fh_def cluster_def)

lemma caps_room: "caps g as \<Longrightarrow> a \<in> set as \<Longrightarrow> wbh_NumInfo (hdr_at g a) < WBUFHDRINFOSIZE"
  by (auto simp: caps_def cap_ok_def)

lemma caps_after_write:
  assumes caps: "caps g as" and at: "hdr_at g3 = (hdr_at g)(b := (hdr_at g b)\<lparr>wbh_NumInfo := n, wbh_Info := info\<rparr>)"
    and b: "b \<in> set as" and n: "n \<le> wbh_NumInfo (hdr_at g b) + 1" "Offs \<in> covers (take n info)"
      "Offs \<in> covers (take (wbh_NumInfo (hdr_at g b)) (wbh_Info (hdr_at g b))) \<longrightarrow> n \<le> wbh_NumInfo (hdr_at g b)"
    and pos: "n + 1 < WBUFHDRINFOSIZE \<or> Offs = 0"
  shows "caps g3 as"
proof -
  have "cap_ok (hdr_at g3 b)" using caps b n pos unfolding caps_def cap_ok_def by (auto simp: at)
  then show ?thesis using caps by (auto simp: caps_def at)
qed

lemma WBufWrite_spec:
  assumes srv: "wserver_ok rpc content (g_NFSGlobal g)" and wf: "wfile g e f as os fs rbs" and caps: "caps g as"
    and ready: "wready g e as Pos" and pos: "0 \<le> Pos" "Pos + int (length buf) \<le> 2 ^ 31" and buf: "buf \<noteq> []"
  defines "n \<equiv> nat (min (MBUFSIZE - Pos mod MBUFSIZE) (int (length buf)))"
  shows "\<exists>r g' e' as' fs'. WBufWrite rpc g e buf = Some (r, g', e') \<and> wframe os rbs g g' \<and> efh_core e e' \<and>
     wfile g' e' f as' os fs' rbs \<and> caps g' as' \<and>
     (case r of WFail _ \<Rightarrow> as' = []
      | WNoMem \<Rightarrow> False
      | WDone k \<Rightarrow> k = int n \<and>
          seen content f g' as' = (seen content f g as)(f := put_bytes Pos (take n buf) (seen content f g as f)) \<and>
          (\<exists>w'. efh_WBuf e' = Some w' \<and> wbc_FilePos w' = Pos + int n) \<and>
          (room 3 g as \<longrightarrow> Pos mod MBUFSIZE \<noteq> 0 \<longrightarrow> int n = MBUFSIZE - Pos mod MBUFSIZE \<longrightarrow> wready g' e' as' (Pos + int n)))"
proof -
  have len: "0 < int (length buf)" using buf by simp
  then have pos': "Pos < 2 ^ 31" using pos by linarith
  obtain w where w: "efh_WBuf e = Some w" "wbc_FilePos w = Pos" using ready by (auto simp: wready_def)
  obtain t g1 e1 as1 fs1 where t: "wbuf_target rpc g e Pos = Some (t, g1, e1)" "wframe os rbs g g1" "efh_core e e1"
     "wfile g1 e1 f as1 os fs1 rbs" "inherit g as g1 as1"
     "case t of Inl (WFail _) \<Rightarrow> as1 = []
      | Inl WNoMem \<Rightarrow> False
      | Inl (WDone _) \<Rightarrow> False
      | Inr b \<Rightarrow> seen content f g1 as1 = seen content f g as \<and> targeted g1 e1 as1 b Pos"
    using wbuf_target_spec [OF srv wf ready pos(1) pos'] by blast
  have caps1: "caps g1 as1" by (rule caps_inherit [OF t(5) caps])
  show ?thesis
  proof (cases t)
    case (Inl r)
    then have "WBufWrite rpc g e buf = Some (r, g1, e1)" using w t(1) by (simp add: WBufWrite_def Let_def)
    then show ?thesis using t caps1 Inl by (cases r) auto
  next
    case (Inr b)
    have tg: "targeted g1 e1 as1 b Pos" and s1: "seen content f g1 as1 = seen content f g as" using t(6) Inr by auto
    define Offs where "Offs = Pos - hoffs g1 b"
    have o: "Offs = Pos mod MBUFSIZE" using targeted_offs [OF t(4) tg] by (simp add: Offs_def)
    have bd: "0 \<le> Offs" "Offs < MBUFSIZE" by (simp_all add: o)
    have n: "0 < n" "int n = min (MBUFSIZE - Offs) (int (length buf))" using bd len by (simp_all add: n_def o)
    define bs where "bs = take n buf"
    have lbs: "length bs = n" using n by (simp add: bs_def)
    then have bs: "bs \<noteq> []" "Offs + int (length bs) \<le> MBUFSIZE" using n by auto
    obtain w1 where w1: "efh_WBuf e1 = Some w1" "wbc_FilePos w1 = Pos" "wbc_PosData w1 \<in> set as1"
        "wbc_PosData w1 \<noteq> b \<longrightarrow> Pos = hoffs g1 b" "b \<in> set as1" using tg by (auto simp: targeted_def)
    have p1: "wpool g1 (as1 @ os) fs1 rbs" and cl1: "cluster g1 w1 as1" using t(4) w1(1) by (auto simp: wfile_def)
    define h where "h = hdr_at g1 b"
    have hb: "hp_wbh g1 b = Some h" using wpool_member [OF p1, of b] w1(5) by (simp add: h_def)
    obtain g2 m info where wb: "mb_copy_in (wbh_Data h) Offs bs g1 = Some g2"
       "WBufUpdateInfo (wbh_NumInfo h) (wbh_Info h) Offs (int n) = Some (m, info)" "hp_wbh g2 b = Some h"
       "let g3 = g2\<lparr>hp_wbh := (hp_wbh g2)(b \<mapsto> h\<lparr>wbh_NumInfo := m, wbh_Info := info\<rparr>)\<rparr> in
          wfile g3 e1 f as1 os fs1 rbs \<and> wframe os rbs g1 g3 \<and>
          hdr_at g3 = (hdr_at g1)(b := h\<lparr>wbh_NumInfo := m, wbh_Info := info\<rparr>) \<and>
          seen content f g3 as1 = (seen content f g1 as1)(f := put_bytes Pos bs (seen content f g1 as1 f))"
       "m \<le> wbh_NumInfo h + 1" "Offs \<in> covers (take m info)"
       "Offs \<in> covers (take (wbh_NumInfo h) (wbh_Info h)) \<longrightarrow> m \<le> wbh_NumInfo h"
      using write_block [OF t(4) tg caps_room [OF caps1 w1(5)] Offs_def bs, where content = content]
      unfolding h_def [symmetric] lbs by blast
    define g3 where "g3 = g2\<lparr>hp_wbh := (hp_wbh g2)(b \<mapsto> h\<lparr>wbh_NumInfo := m, wbh_Info := info\<rparr>)\<rparr>"
    have g3: "wfile g3 e1 f as1 os fs1 rbs" "wframe os rbs g1 g3"
      "hdr_at g3 = (hdr_at g1)(b := h\<lparr>wbh_NumInfo := m, wbh_Info := info\<rparr>)"
      "seen content f g3 as1 = (seen content f g1 as1)(f := put_bytes Pos bs (seen content f g1 as1 f))"
      using wb(4) by (simp_all add: g3_def Let_def)
    define w2 where "w2 = w1\<lparr>wbc_FilePos := Pos + int n\<rparr>"
    define e2 where "e2 = set_wbc w2 e1"
    define P where "P = wbc_PosData w1"
    have wf3: "wfile g3 e2 f as1 os fs1 rbs" unfolding e2_def w2_def by (rule wfile_set_FilePos [OF g3(1) w1(1)])
    have core2: "efh_core e e2" using t(3) by (simp add: e2_def)
    have fr3: "wframe os rbs g g3" by (rule wframe_trans [OF t(2) g3(2)])
    have s3: "seen content f g3 as1 = (seen content f g as)(f := put_bytes Pos (take n buf) (seen content f g as f))"
      using g3(4) s1 by (simp add: bs_def)
    have ph: "hp_wbh g3 P = Some (hdr_at g3 P)"
      using wf3 w1(3) wpool_member [of g3 "as1 @ os" fs1 rbs P] by (auto simp: wfile_def P_def)
    have run: "WBufWrite rpc g e buf =
        (if wbh_NumInfo (hdr_at g3 P) + 1 \<ge> WBUFHDRINFOSIZE then
           do { (r, g4, e3) \<leftarrow> iwc_FlushCache rpc False g3 e2;
                Some (case r of Inl res2 \<Rightarrow> WFail res2 | Inr _ \<Rightarrow> WDone (int n), g4, e3) }
         else Some (WDone (int n), g3, e2))"
    proof -
      have a1: "min (MBUFSIZE - (Pos - wbh_FileOffs h)) (int (length buf)) = int n" using n(2) by (simp add: Offs_def h_def)
      have a2: "upd_wbh b (\<lambda>h. h\<lparr>wbh_NumInfo := m, wbh_Info := info\<rparr>) g2 = Some g3"
        using wb(3) by (simp add: upd_wbh_def g3_def)
      have a3: "Pos - wbh_FileOffs h = Offs" by (simp add: Offs_def h_def)
      show ?thesis
        unfolding WBufWrite_def wc_FlushCache_def
        using w t(1) Inr hb a1 a2 wb(1,2) w1(1,2) ph
        by (simp add: Let_def a3 bs_def [symmetric] w2_def [symmetric] e2_def [symmetric] P_def
            del: bind_Some_conv split del: if_split) (simp add: a1 w2_def e2_def P_def cong: sum.case_cong)
    qed
    show ?thesis
    proof (cases "wbh_NumInfo (hdr_at g3 P) + 1 \<ge> WBUFHDRINFOSIZE")
      case True
      obtain r g4 e4 where fl: "iwc_FlushCache rpc False g3 e2 = Some (r, g4, e4)" "wfile g4 e4 f [] os (rev as1 @ fs1) rbs"
          "wframe os rbs g3 g4" "efh_same e2 e4" "r = Inr () \<longrightarrow> content (g_srv g4) = seen content f g3 as1"
        using iwc_FlushCache_spec [OF wserver_frame [OF srv fr3] wf3, of False] by blast
      have run': "WBufWrite rpc g e buf = Some (case r of Inl res2 \<Rightarrow> WFail res2 | Inr _ \<Rightarrow> WDone (int n), g4, e4)"
        using run True fl(1) by simp
      have core4: "efh_core e e4" using efh_core_trans [OF core2 efh_same_core [OF fl(4)]] .
      have fr4: "wframe os rbs g g4" by (rule wframe_trans [OF fr3 fl(3)])
      have e2w: "efh_WBuf e2 = Some w2" "wbc_FilePos w2 = Pos + int n" by (simp_all add: e2_def w2_def)
      have "\<not> room 3 g as"
      proof
        assume "room 3 g as"
        then have "room 3 g1 as1" using room_inherit [OF t(5)] by simp
        then have "wbh_NumInfo (hdr_at g3 P) + 2 \<le> WBUFHDRINFOSIZE"
          using w1(3) wb(5) by (auto simp: room_def g3(3) P_def h_def)
        then show False using True by simp
      qed
      then show ?thesis using run' fl(2,4,5) fr4 core4 e2w s3
        by (intro exI [of _ "case r of Inl res2 \<Rightarrow> WFail res2 | Inr _ \<Rightarrow> WDone (int n)"] exI [of _ g4] exI [of _ e4]
            exI [of _ "[]"] exI [of _ "rev as1 @ fs1"]) (cases r; auto simp: efh_same_def wbc_same_def)
    next
      case False
      have n0: "m + 1 < WBUFHDRINFOSIZE \<or> Offs = 0"
        using False w1(4) by (auto simp: g3(3) P_def Offs_def)
      have caps3: "caps g3 as1"
        by (rule caps_after_write [OF caps1 g3(3) [unfolded h_def] w1(5) _ wb(6) _ n0])
          (use wb(5,7) in \<open>auto simp: h_def\<close>)
      have ready3: "wready g3 e2 as1 (Pos + int n)" if "Pos mod MBUFSIZE \<noteq> 0" "int n = MBUFSIZE - Pos mod MBUFSIZE"
      proof -
        have P: "P = b" using w1(4) that(1) o Offs_def by (auto simp: P_def)
        have e: "Pos + int n = hoffs g1 b + MBUFSIZE" using that(2) o Offs_def by simp
        obtain xs ys where sp: "as1 = xs @ b # ys" using w1(5) by (auto simp: in_set_conv_decomp)
        have of: "hoffs g3 c = hoffs g1 c" for c by (simp add: g3(3) h_def)
        have "ys = [] \<or> Pos + int n \<le> hoffs g3 (hd ys)"
          using cluster_gap [of g1 w1 xs b ys "hd ys"] cl1 sp e by (cases ys) (auto simp: of)
        moreover have "hoffs g3 b \<le> Pos + int n" using e by (simp add: of)
        ultimately show ?thesis using P sp unfolding wready_def by (auto simp: e2_def w2_def P_def)
      qed
      have "WBufWrite rpc g e buf = Some (WDone (int n), g3, e2)" using run False by simp
      moreover have "\<exists>w'. efh_WBuf e2 = Some w' \<and> wbc_FilePos w' = Pos + int n" by (simp add: e2_def w2_def)
      ultimately show ?thesis using fr3 core2 wf3 caps3 s3 ready3 by force
    qed
  qed
qed

subsection \<open>Writing through the cache\<close>

definition write_scope :: "'srv global \<Rightarrow> addr list \<Rightarrow> int \<Rightarrow> nat \<Rightarrow> bool" where
  "write_scope g as Pos len \<longleftrightarrow>
     Pos mod MBUFSIZE + int len \<le> MBUFSIZE \<or>
     (Pos mod MBUFSIZE \<noteq> 0 \<and> Pos mod MBUFSIZE + int len \<le> 2 * MBUFSIZE \<and> room 3 g as)"

lemma wc_write_loop_Nil:
  "efh_WBuf e = Some w \<Longrightarrow> \<exists>e'. wc_write_loop rpc g e [] k = Some (Inr k, g, e') \<and>
     (e' = e \<or> e' = e\<lparr>efh_FileLen := wbc_FilePos w\<rparr>)"
  by (subst wc_write_loop.simps) auto

lemma wfile_FileLen [simp]: "wfile g (e\<lparr>efh_FileLen := l\<rparr>) f as os fs rbs = wfile g e f as os fs rbs"
  by (simp add: wfile_def efh_fh_def)

text \<open>The outcome of a cached write of \<open>buf\<close> at \<open>Pos\<close>.\<close>

definition write_result ::
  "('srv \<Rightarrow> nfs_fh \<Rightarrow> int \<Rightarrow> u8) \<Rightarrow> nfs_fh \<Rightarrow> (nfs_fh \<Rightarrow> int \<Rightarrow> u8) \<Rightarrow> int \<Rightarrow> u8 list \<Rightarrow> addr list \<Rightarrow> addr list \<Rightarrow>
     int \<Rightarrow> 'srv global \<Rightarrow> efh \<Rightarrow> ((int + int) \<times> 'srv global \<times> efh) option \<Rightarrow> bool" where
  "write_result content f old Pos buf os rbs tot g e res \<longleftrightarrow>
     (\<exists>r g' e' as' fs'. res = Some (r, g', e') \<and> wframe os rbs g g' \<and> wfile g' e' f as' os fs' rbs \<and> caps g' as' \<and>
        efh_kept e e' \<and>
        (case r of Inl _ \<Rightarrow> as' = []
         | Inr k \<Rightarrow> k = tot \<and> seen content f g' as' = old(f := put_bytes Pos buf (old f))))"

lemma write_result_trans:
  assumes "wframe os rbs g g1" and "efh_kept e e1" and "write_result content f old Pos buf os rbs tot g1 e1 res"
  shows "write_result content f old Pos buf os rbs tot g e res"
  using assms wframe_trans efh_kept_trans unfolding write_result_def by blast

lemma efh_core_kept: "efh_core e e' \<Longrightarrow> efh_kept e e'"
  unfolding efh_core_def efh_kept_def by (cases e; cases e') auto

lemma write_result_through:
  assumes srv: "wserver_ok rpc content (g_NFSGlobal g)" and wf: "wfile g e f as os fs rbs"
    and buf: "buf \<noteq> []" and pos: "0 \<le> efh_FilePos e" "efh_FilePos e + int (length buf) \<le> 2 ^ 31"
  shows "write_result content f (seen content f g as) (efh_FilePos e) buf os rbs (int (length buf)) g e
     (FlushCacheAndWrite rpc g e buf)"
proof -
  obtain r g' e' where *: "FlushCacheAndWrite rpc g e buf = Some (r, g', e')"
     "wfile g' e' f [] os (rev as @ fs) rbs" "wframe os rbs g g'" "efh_kept e e'"
     "\<forall>n. r = Inr n \<longrightarrow> n = int (length buf) \<and>
        seen content f g' [] = (seen content f g as)(f := put_bytes (efh_FilePos e) buf (seen content f g as f))"
    using FlushCacheAndWrite_spec [OF srv wf buf pos] by blast
  show ?thesis
    unfolding write_result_def
    by (intro exI [of _ r] exI [of _ g'] exI [of _ e'] exI [of _ "[]"] exI [of _ "rev as @ fs"]) (use * in \<open>cases r; auto\<close>)
qed

lemma wc_write_loop_one:
  assumes srv: "wserver_ok rpc content (g_NFSGlobal g)" and wf: "wfile g e f as os fs rbs" and caps: "caps g as"
    and ready: "wready g e as Pos" and pos: "0 \<le> Pos" "Pos + int (length buf) \<le> 2 ^ 31" and buf: "buf \<noteq> []"
    and one: "Pos mod MBUFSIZE + int (length buf) \<le> MBUFSIZE"
  shows "write_result content f (seen content f g as) Pos buf os rbs k g e (wc_write_loop rpc g e buf k)"
proof -
  have n: "nat (min (MBUFSIZE - Pos mod MBUFSIZE) (int (length buf))) = length buf" using one by auto
  obtain r g' e' as' fs' where *: "WBufWrite rpc g e buf = Some (r, g', e')" "wframe os rbs g g'" "efh_core e e'"
     "wfile g' e' f as' os fs' rbs" "caps g' as'"
     "case r of WFail _ \<Rightarrow> as' = [] | WNoMem \<Rightarrow> False
      | WDone j \<Rightarrow> j = int (length buf) \<and>
          seen content f g' as' = (seen content f g as)(f := put_bytes Pos buf (seen content f g as f)) \<and>
          (\<exists>w'. efh_WBuf e' = Some w' \<and> wbc_FilePos w' = Pos + int (length buf))"
    using WBufWrite_spec [OF srv wf caps ready pos buf] unfolding n by (fastforce split: wresult.splits)
  show ?thesis
  proof (cases r)
    case (WFail res2)
    then have "wc_write_loop rpc g e buf k = Some (Inl res2, g', e')"
      using buf *(1) by (subst wc_write_loop.simps) simp
    then show ?thesis using * WFail efh_core_kept [OF *(3)] unfolding write_result_def by fastforce
  next
    case WNoMem
    then show ?thesis using *(6) by simp
  next
    case (WDone j)
    then obtain w' where w': "efh_WBuf e' = Some w'" using *(6) by auto
    obtain e'' where e'': "wc_write_loop rpc g' e' [] k = Some (Inr k, g', e'')" "e'' = e' \<or> e'' = e'\<lparr>efh_FileLen := wbc_FilePos w'\<rparr>"
      using wc_write_loop_Nil [OF w'] by blast
    have "wc_write_loop rpc g e buf k = Some (Inr k, g', e'')"
      using buf *(1,6) WDone e''(1) by (subst wc_write_loop.simps) simp
    moreover have "wfile g' e'' f as' os fs' rbs" using e''(2) *(4) by auto
    moreover have "efh_kept e e''" using e''(2) efh_core_kept [OF *(3)] by auto
    ultimately show ?thesis using * WDone unfolding write_result_def
      by (intro exI [of _ "Inr k"] exI [of _ g'] exI [of _ e''] exI [of _ as'] exI [of _ fs']) simp
  qed
qed

lemma wc_write_loop_two:
  assumes srv: "wserver_ok rpc content (g_NFSGlobal g)" and wf: "wfile g e f as os fs rbs" and caps: "caps g as"
    and ready: "wready g e as Pos" and pos: "0 \<le> Pos" "Pos + int (length buf) \<le> 2 ^ 31" and buf: "buf \<noteq> []"
    and scope: "write_scope g as Pos (length buf)"
  shows "write_result content f (seen content f g as) Pos buf os rbs k g e (wc_write_loop rpc g e buf k)"
proof (cases "Pos mod MBUFSIZE + int (length buf) \<le> MBUFSIZE")
  case True
  then show ?thesis by (rule wc_write_loop_one [OF srv wf caps ready pos buf])
next
  case False
  then have sc: "Pos mod MBUFSIZE \<noteq> 0" "Pos mod MBUFSIZE + int (length buf) \<le> 2 * MBUFSIZE" "room 3 g as"
    using scope by (auto simp: write_scope_def)
  define n where "n = nat (MBUFSIZE - Pos mod MBUFSIZE)"
  have mod: "0 \<le> Pos mod MBUFSIZE" "Pos mod MBUFSIZE < MBUFSIZE" by simp_all
  have ni: "int n = MBUFSIZE - Pos mod MBUFSIZE" using mod by (simp add: n_def)
  have n: "nat (min (MBUFSIZE - Pos mod MBUFSIZE) (int (length buf))) = n" using False by (simp add: n_def)
  have nl: "n < length buf" "int (length buf) - int n \<le> MBUFSIZE" using False sc ni by linarith+
  obtain r g' e' as' fs' where *: "WBufWrite rpc g e buf = Some (r, g', e')" "wframe os rbs g g'" "efh_core e e'"
     "wfile g' e' f as' os fs' rbs" "caps g' as'"
     "case r of WFail _ \<Rightarrow> as' = [] | WNoMem \<Rightarrow> False
      | WDone j \<Rightarrow> j = int n \<and>
          seen content f g' as' = (seen content f g as)(f := put_bytes Pos (take n buf) (seen content f g as f)) \<and>
          wready g' e' as' (Pos + int n)"
    using WBufWrite_spec [OF srv wf caps ready pos buf] sc ni unfolding n by (fastforce split: wresult.splits)
  show ?thesis
  proof (cases r)
    case (WFail res2)
    then have "wc_write_loop rpc g e buf k = Some (Inl res2, g', e')"
      using buf *(1) by (subst wc_write_loop.simps) simp
    then show ?thesis using * WFail efh_core_kept [OF *(3)] unfolding write_result_def by fastforce
  next
    case WNoMem
    then show ?thesis using *(6) by simp
  next
    case (WDone j)
    have run: "wc_write_loop rpc g e buf k = wc_write_loop rpc g' e' (drop n buf) k"
      using buf *(1,6) WDone by (subst wc_write_loop.simps) simp
    have "(Pos + int n) mod MBUFSIZE = 0" using ni
      by (metis add.commute diff_add_cancel mod_add_left_eq mod_self add_diff_eq)
    then have "write_result content f (seen content f g' as') (Pos + int n) (drop n buf) os rbs k g' e'
        (wc_write_loop rpc g' e' (drop n buf) k)"
      using wc_write_loop_one [OF wserver_frame [OF srv *(2)] *(4,5), of "Pos + int n" "drop n buf" k]
        *(6) WDone pos nl by simp
    moreover have "(seen content f g' as')(f := put_bytes (Pos + int n) (drop n buf) (seen content f g' as' f)) =
        (seen content f g as)(f := put_bytes Pos buf (seen content f g as f))"
      using *(6) WDone nl put_bytes_append [of Pos "take n buf" "drop n buf"] by simp
    ultimately have "write_result content f (seen content f g as) Pos buf os rbs k g' e' (wc_write_loop rpc g' e' (drop n buf) k)"
      unfolding write_result_def by (simp cong: sum.case_cong)
    then show ?thesis unfolding run by (rule write_result_trans [OF *(2) efh_core_kept [OF *(3)]])
  qed
qed

text \<open>A state for concrete runs: two free headers, two free buffers, and an open file whose lock
  is at address 5.\<close>

definition run_global :: "(nfs_fh \<Rightarrow> int \<Rightarrow> u8) global" where
  "run_global = (cleared_global (\<lambda>_ _. 0))\<lparr>
     g_NFSGlobal := \<lparr>ng_NumRRPCs = 1, ng_NumWRPCs = 1, ng_MaxReadSize = 8192, ng_MaxReadDirSize = 8192,
                    ng_MaxWriteSize = 8192\<rparr>,
     g_WriteBufferLimit := 16384, g_NumMBufs := 2, g_NumFreeMBufs := 2, g_FreeMBufs := [100, 200],
     g_NumWBufHdrs := 2, g_NumFreeWBufHdrs := 2, g_FreeWBufHdr := 10,
     hp_wbh := [10 \<mapsto> cleared_wbufhdr\<lparr>wbh_Next := 20\<rparr>, 20 \<mapsto> cleared_wbufhdr],
     hp_elock := [5 \<mapsto> \<lparr>fl_Link = NULL, fl_Key = 1, fl_Access = SHARED_LOCK, efl_NFSFh = [7], efl_NFSType = NFREG,
                         efl_FullName = ''a'', efl_Name = ''a''\<rparr>]\<rparr>"

definition run_efh :: efh where
  "run_efh = wc_CreateCache True 4
     \<lparr>efh_Next = NULL, efh_Id = 1, efh_FilePos = 8190, efh_FileLen = 0, efh_Mode = MODE_NEWFILE, efh_ELock = 5,
      efh_WBuf = None, efh_RBuf = None, efh_Res2 = 0\<rparr>"

lemma run_wfile: "wfile run_global run_efh [7] [] [] [10, 20] []"
  by (simp add: wfile_def wpool_def mb_inv_def efh_fh_def cluster_def run_efh_def run_global_def wc_CreateCache_def
      cleared_global_def nxt_def hdr_at_def cleared_wbufhdr_def)

lemma run_server: "wserver_ok mem_rpc (\<lambda>s. s) (g_NFSGlobal run_global)"
  by (simp add: wserver_ok_def mem_rpc_servers run_global_def)

lemma wc_WriteCache_spec:
  assumes srv: "wserver_ok rpc content (g_NFSGlobal g)" and wf: "wfile g e f as os fs rbs" and caps: "caps g as"
    and pos: "0 \<le> efh_FilePos e" "efh_FilePos e + int (length buf) \<le> 2 ^ 31" and buf: "buf \<noteq> []"
    and scope: "write_scope g as (efh_FilePos e) (length buf)"
  shows "\<exists>r g' e' as' fs'. wc_WriteCache rpc g e buf = Some (r, g', e') \<and> wframe os rbs g g' \<and>
     wfile g' e' f as' os fs' rbs \<and> caps g' as' \<and> efh_kept e e' \<and>
     (case r of Inl _ \<Rightarrow> as' = []
      | Inr k \<Rightarrow> k = int (length buf) \<and>
          seen content f g' as' = (seen content f g as)(f := put_bytes (efh_FilePos e) buf (seen content f g as f)))"
proof -
  let ?R = "write_result content f (seen content f g as) (efh_FilePos e) buf os rbs (int (length buf)) g e"
  note through = write_result_through [OF srv wf buf pos]
  have "?R (wc_WriteCache rpc g e buf)"
  proof (cases "efh_WBuf e")
    case None
    then show ?thesis using through by (simp add: wc_WriteCache_def)
  next
    case (Some w)
    define Num where "Num = int (length buf)"
    define big where "big \<longleftrightarrow> ULONG_of Num > g_WriteBufferLimit g \<or> (Num + MBUFSIZE - 1) div MBUFSIZE > wbc_WBufsMax w
                \<or> (Num + MBUFSIZE - 1) div MBUFSIZE > wbc_WBufsUsed w + WBufsAvail g"
    show ?thesis
    proof (cases big)
      case True
      then show ?thesis using through Some by (simp add: wc_WriteCache_def big_def Num_def Let_def)
    next
      case False
      have pos': "efh_FilePos e < 2 ^ 31" using pos buf by (cases buf) auto
      obtain r g1 e1 as1 fs1 where s: "WBufSeekAndPrepare rpc g e (efh_FilePos e) = Some (r, g1, e1)"
         "wframe os rbs g g1" "efh_core e e1" "wfile g1 e1 f as1 os fs1 rbs"
         "case r of WFail _ \<Rightarrow> as1 = []
          | WNoMem \<Rightarrow> as1 = [] \<and> seen content f g1 as1 = seen content f g as
          | WDone _ \<Rightarrow> seen content f g1 as1 = seen content f g as \<and> wready g1 e1 as1 (efh_FilePos e) \<and> inherit g as g1 as1"
        using WBufSeekAndPrepare_spec [OF srv wf Some pos(1) pos'] by blast
      have run: "wc_WriteCache rpc g e buf = (case r of
            WFail res2 \<Rightarrow> Some (Inl res2, g1, e1)
          | WNoMem \<Rightarrow> FlushCacheAndWrite rpc g1 e1 buf
          | WDone _ \<Rightarrow> wc_write_loop rpc g1 e1 buf Num)"
        using Some False s(1) by (simp add: wc_WriteCache_def big_def Num_def Let_def split: wresult.split)
      note srv1 = wserver_frame [OF srv s(2)]
      have fp: "efh_FilePos e1 = efh_FilePos e"
      proof -
        have "efh_FilePos (e1\<lparr>efh_WBuf := None\<rparr>) = efh_FilePos (e\<lparr>efh_WBuf := None\<rparr>)" using s(3) by (simp add: efh_core_def)
        then show ?thesis by simp
      qed
      show ?thesis
      proof (cases r)
        case (WFail res2)
        then show ?thesis using run s efh_core_kept [OF s(3)] unfolding write_result_def by fastforce
      next
        case WNoMem
        then have e: "as1 = []" "content (g_srv g1) = seen content f g as" using s(5) by auto
        have "?R (FlushCacheAndWrite rpc g1 e1 buf)"
          using write_result_trans [OF s(2) efh_core_kept [OF s(3)]] write_result_through [OF srv1 s(4) buf] pos fp
          unfolding e(1) seen_Nil e(2) by simp
        then show ?thesis using run WNoMem by simp
      next
        case (WDone j)
        have "write_scope g1 as1 (efh_FilePos e) (length buf)"
          using scope room_inherit [of g as g1 as1 3] s(5) WDone by (auto simp: write_scope_def)
        then have "write_result content f (seen content f g1 as1) (efh_FilePos e) buf os rbs Num g1 e1 (wc_write_loop rpc g1 e1 buf Num)"
          using wc_write_loop_two [OF srv1 s(4) caps_inherit [OF _ caps] _ pos buf] s(5) WDone by simp
        then show ?thesis using run s(5) WDone write_result_trans [OF s(2) efh_core_kept [OF s(3)]] by (simp add: Num_def)
      qed
    qed
  qed
  then show ?thesis by (simp add: write_result_def)
qed

text \<open>C3. The write cache is coherent, with synchronous RPC (at most one write call outstanding, no
  \<open>ASYNCRPC\<close>; the asynchronous path can lose data) and a WRITE that does what RFC 1094 says, for a run of
  bytes that stays inside one block of \<open>MBUFSIZE\<close> bytes, or starts inside a block and ends in the next while every
  dirty block of the file has three free cells in its table of intervals. (Without those cells a write
  that goes on in the next block can meet the flush on a full table in its middle, behind which the
  code goes on with a released header, \<open>wbuf.c\<close> line 705; longer runs and runs over more blocks are
  not covered.) After \<open>wc_WriteCache\<close> of such a run a client sees exactly the old
  contents of every remote file with the bytes stored at the file position, whether they sit
  in buffers or on the server: on the paths through new buffers, through eviction by a
  flush, through the flush on a full table when the run ends in that block, and when writing
  through without a buffer. A failing write leaves the cache empty. No
  header and no data buffer is lost, and the caches of other files are untouched.\<close>

theorem wc_WriteCache_coherent:
  assumes srv: "wserver_ok rpc content (g_NFSGlobal g)" and wf: "wfile g e f as os fs rbs" and caps: "caps g as"
    and pos: "0 \<le> efh_FilePos e" "efh_FilePos e + int (length buf) \<le> 2 ^ 31" and buf: "buf \<noteq> []"
    and scope: "efh_FilePos e mod MBUFSIZE + int (length buf) \<le> MBUFSIZE \<or>
      efh_FilePos e mod MBUFSIZE \<noteq> 0 \<and> efh_FilePos e mod MBUFSIZE + int (length buf) \<le> 2 * MBUFSIZE \<and>
        (\<forall>a\<in>set as. wbh_NumInfo (hdr_at g a) + 3 \<le> WBUFHDRINFOSIZE)"
  shows "\<exists>r g' e' as' fs'. wc_WriteCache rpc g e buf = Some (r, g', e') \<and> wframe os rbs g g' \<and>
     wfile g' e' f as' os fs' rbs \<and> caps g' as' \<and>
     (case r of Inl _ \<Rightarrow> as' = []
      | Inr k \<Rightarrow> k = int (length buf) \<and>
          seen content f g' as' = (seen content f g as)(f := put_bytes (efh_FilePos e) buf (seen content f g as f)))"
  proof -
  have "write_scope g as (efh_FilePos e) (length buf)" using scope by (simp add: write_scope_def room_def)
  from wc_WriteCache_spec [OF srv wf caps pos buf this] show ?thesis by blast
qed

theorem wc_WriteCache_coherent_witness:
  "\<exists>r g' e' as' fs'. wc_WriteCache mem_rpc run_global run_efh [1, 2, 3, 4] = Some (r, g', e') \<and>
     wframe [] [] run_global g' \<and> wfile g' e' [7] as' [] fs' [] \<and> caps g' as' \<and>
     (case r of Inl _ \<Rightarrow> as' = []
      | Inr k \<Rightarrow> k = 4 \<and> seen (\<lambda>s. s) [7] g' as' [7] 8191 = 2)"
proof -
  have pos: "efh_FilePos run_efh = 8190" by (simp add: run_efh_def wc_CreateCache_def)
  have "\<exists>r g' e' as' fs'. wc_WriteCache mem_rpc run_global run_efh [1, 2, 3, 4] = Some (r, g', e') \<and>
     wframe [] [] run_global g' \<and> wfile g' e' [7] as' [] fs' [] \<and> caps g' as' \<and>
     (case r of Inl _ \<Rightarrow> as' = []
      | Inr k \<Rightarrow> k = int (length [1, 2, 3, 4 :: u8]) \<and>
          seen (\<lambda>s. s) [7] g' as' = (seen (\<lambda>s. s) [7] run_global [])([7] := put_bytes (efh_FilePos run_efh) [1, 2, 3, 4]
            (seen (\<lambda>s. s) [7] run_global [] [7])))"
    by (rule wc_WriteCache_coherent [OF run_server run_wfile]) (simp_all add: pos)
  then obtain r g' e' as' fs' where *: "wc_WriteCache mem_rpc run_global run_efh [1, 2, 3, 4] = Some (r, g', e')"
     "wframe [] [] run_global g'" "wfile g' e' [7] as' [] fs' []" "caps g' as'"
     "case r of Inl _ \<Rightarrow> as' = []
      | Inr k \<Rightarrow> k = int (length [1, 2, 3, 4 :: u8]) \<and>
          seen (\<lambda>s. s) [7] g' as' = (seen (\<lambda>s. s) [7] run_global [])([7] := put_bytes (efh_FilePos run_efh) [1, 2, 3, 4]
            (seen (\<lambda>s. s) [7] run_global [] [7]))" by blast
  have "case r of Inl _ \<Rightarrow> as' = [] | Inr k \<Rightarrow> k = 4 \<and> seen (\<lambda>s. s) [7] g' as' [7] 8191 = 2"
    using *(5) by (cases r) (simp_all add: pos put_bytes_def)
  then show ?thesis using *(1-4) by blast
qed

end
