(* ===== verification/RBuf.thy ===== *)
theory RBuf
  imports MBuf
begin

text \<open>
  The read buffer of an open file (src/src/rbuf.c): small reads fetch a whole block of
  \<open>MBUFSIZE\<close> bytes into one data buffer of the pool and later reads are served from it. The
  model returns the bytes read instead of storing them at the caller's address. Its
  correctness: every byte returned is the byte of the remote file at that position, the file
  position advances by the number of bytes returned, and the pool keeps account of the
  buffer.
\<close>

subsection \<open>Operations\<close>

definition rb_CreateRBuf :: "bool \<Rightarrow> efh \<Rightarrow> efh" where
  "rb_CreateRBuf alloc_ok e =
     e\<lparr>efh_RBuf := (if alloc_ok then Some \<lparr>rbh_FileOffs = 0, rbh_DataLen = 0, rbh_Data = NULL\<rparr> else None)\<rparr>"

definition rb_DeleteRBuf :: "efh \<Rightarrow> efh" where
  "rb_DeleteRBuf e = (case efh_RBuf e of None \<Rightarrow> e | Some _ \<Rightarrow> e\<lparr>efh_RBuf := None\<rparr>)"

definition rb_ObtainRBufData :: "'srv global \<Rightarrow> efh \<Rightarrow> ('srv global \<times> efh) option" where
  "rb_ObtainRBufData g e =
     do {
       rbh \<leftarrow> efh_RBuf e;
       (rbn, g1) \<leftarrow> mb_ObtainMBuf g;
       Some (g1, e\<lparr>efh_RBuf := Some (rbh\<lparr>rbh_Data := rbn\<rparr>)\<rparr>)
     }"

definition rb_ReleaseRBufData :: "'srv global \<Rightarrow> efh \<Rightarrow> ('srv global \<times> efh) option" where
  "rb_ReleaseRBufData g e =
     do {
       rbh \<leftarrow> efh_RBuf e;
       Some (mb_ReleaseMBuf (rbh_Data rbh) g, e\<lparr>efh_RBuf := Some (rbh\<lparr>rbh_Data := NULL\<rparr>)\<rparr>)
     }"

text \<open>The bytes \<open>from\<close> \<dots> \<open>from + n - 1\<close> of a data buffer.\<close>

definition mb_bytes :: "(int \<Rightarrow> u8) \<Rightarrow> int \<Rightarrow> nat \<Rightarrow> u8 list" where
  "mb_bytes d from n = map (\<lambda>k. d (from + int k)) [0..<n]"

text \<open>What the buffer already holds for the position \<open>FilePos\<close>.\<close>

definition rb_hit :: "'srv global \<Rightarrow> rbufhdr \<Rightarrow> int \<Rightarrow> int \<Rightarrow> u8 list" where
  "rb_hit g rbh FilePos NumLeft =
     (let End = rbh_FileOffs rbh + rbh_DataLen rbh in
      if rbh_FileOffs rbh \<le> FilePos \<and> FilePos < End
      then mb_bytes (mb_data g (rbh_Data rbh)) (FilePos - rbh_FileOffs rbh) (nat (min NumLeft (End - FilePos)))
      else [])"

text \<open>The two ways of \<open>rb_ReadBuf\<close>; \<open>Inl Res2\<close> stands for -1. Filling the buffer at the position
  behind the bytes \<open>got\<close> that it had:\<close>

definition rb_fill ::
  "'srv rpc_ops \<Rightarrow> 'srv global \<Rightarrow> efh \<Rightarrow> rbufhdr \<Rightarrow> u8 list \<Rightarrow> int \<Rightarrow> ((int + u8 list) \<times> 'srv global \<times> efh) option" where
  "rb_fill rpc g e rbh got Num =
     (let NumLeft = Num - int (length got); FilePos = efh_FilePos e + int (length got) in
      if NumLeft \<noteq> 0 then
        do {
          f \<leftarrow> efh_fh g e;
          (r, s) \<leftarrow> nfs_MRead (g_NFSGlobal g) rpc f (ULONG_of FilePos) (nat MBUFSIZE) (g_srv g);
          let g2 = g\<lparr>g_srv := s\<rparr>;
          (case r of
             Inl res2 \<Rightarrow> map_option (\<lambda>(g3, e3). (Inl res2, g3, e3)) (rb_ReleaseRBufData g2 e)
           | Inr (bs, flen) \<Rightarrow>
               let e2 = e\<lparr>efh_FileLen := flen\<rparr>; NumRead = int (length bs) in
               if NumRead = 0 then
                 map_option (\<lambda>(g3, e3). (Inr got, g3, e3)) (rb_ReleaseRBufData g2 (e2\<lparr>efh_FilePos := FilePos\<rparr>))
               else
                 let l = min NumRead NumLeft;
                     g3 = g2\<lparr>mb_data := (mb_data g2)(rbh_Data rbh := put_bytes 0 bs (mb_data g2 (rbh_Data rbh)))\<rparr>
                 in Some (Inr (got @ mb_bytes (mb_data g3 (rbh_Data rbh)) 0 (nat l)), g3,
                      e2\<lparr>efh_FilePos := FilePos + l,
                         efh_RBuf := Some (rbh\<lparr>rbh_FileOffs := FilePos, rbh_DataLen := NumRead\<rparr>)\<rparr>))
        }
      else Some (Inr got, g, e\<lparr>efh_FilePos := FilePos\<rparr>))"

text \<open>Reading straight into the client's memory:\<close>

definition rb_direct ::
  "'srv rpc_ops \<Rightarrow> 'srv global \<Rightarrow> efh \<Rightarrow> int \<Rightarrow> ((int + u8 list) \<times> 'srv global \<times> efh) option" where
  "rb_direct rpc g e Num =
     do {
       f \<leftarrow> efh_fh g e;
       (r, s) \<leftarrow> nfs_MRead (g_NFSGlobal g) rpc f (ULONG_of (efh_FilePos e)) (nat Num) (g_srv g);
       let g2 = g\<lparr>g_srv := s\<rparr>;
       (case r of
          Inl res2 \<Rightarrow> Some (Inl res2, g2, e)
        | Inr (bs, flen) \<Rightarrow>
            let e2 = e\<lparr>efh_FileLen := flen\<rparr> in
            Some (Inr bs, g2, if bs \<noteq> [] then e2\<lparr>efh_FilePos := efh_FilePos e2 + int (length bs)\<rparr> else e2))
     }"

definition rb_ReadBuf ::
  "'srv rpc_ops \<Rightarrow> 'srv global \<Rightarrow> efh \<Rightarrow> int \<Rightarrow> ((int + u8 list) \<times> 'srv global \<times> efh) option" where
  "rb_ReadBuf rpc g e Num =
     do {
       buffered \<leftarrow> (if Num \<le> RBUFFERLIMIT \<and> efh_FilePos e \<noteq> 0
                     then map_option (\<lambda>rbh. rbh_Data rbh \<noteq> NULL \<or> g_NumFreeMBufs g > 0) (efh_RBuf e)
                     else Some False);
       (if buffered then
          do {
            rbh0 \<leftarrow> efh_RBuf e;
            (got, g1, e1) \<leftarrow>
              (if rbh_Data rbh0 = NULL then map_option (\<lambda>(g1, e1). ([], g1, e1)) (rb_ObtainRBufData g e)
               else Some (rb_hit g rbh0 (efh_FilePos e) Num, g, e));
            rbh \<leftarrow> efh_RBuf e1;
            rb_fill rpc g1 e1 rbh got Num
          }
        else
          do {
            (g1, e1) \<leftarrow> (if HasBufferedRData e then rb_ReleaseRBufData g e else Some (g, e));
            rb_direct rpc g1 e1 Num
          })
     }"

subsection \<open>Correctness\<close>

text \<open>The buffer a file holds for reading.\<close>

definition rheld :: "efh \<Rightarrow> addr list" where
  "rheld e = (case efh_RBuf e of None \<Rightarrow> [] | Some r \<Rightarrow> if rbh_Data r = NULL then [] else [rbh_Data r])"

text \<open>The buffered bytes are those of the remote file \<open>f\<close>. A handle may be without a read
  buffer: \<open>rb_CreateRBuf\<close> leaves it so when memory is short.\<close>

definition rb_ok :: "('srv \<Rightarrow> nfs_fh \<Rightarrow> int \<Rightarrow> u8) \<Rightarrow> 'srv global \<Rightarrow> efh \<Rightarrow> nfs_fh \<Rightarrow> bool" where
  "rb_ok content g e f \<longleftrightarrow> (case efh_RBuf e of None \<Rightarrow> True
     | Some r \<Rightarrow> rbh_Data r \<noteq> NULL \<longrightarrow>
         (\<forall>p. rbh_FileOffs r \<le> p \<longrightarrow> p < rbh_FileOffs r + rbh_DataLen r \<longrightarrow>
            mb_data g (rbh_Data r) (p - rbh_FileOffs r) = content (g_srv g) f p))"

text \<open>The test of \<open>rb_ReadBuf\<close> follows \<open>efh_RBuf\<close> when few bytes are read behind the start of the
  file; a handle that can serve a read of \<open>Num\<close> bytes has a buffer then.\<close>

definition rb_usable :: "efh \<Rightarrow> int \<Rightarrow> bool" where
  "rb_usable e Num \<longleftrightarrow> efh_RBuf e \<noteq> None \<or> RBUFFERLIMIT < Num \<or> efh_FilePos e = 0"

text \<open>The fields of the global state that reading may change.\<close>

definition rd_same :: "'srv global \<Rightarrow> 'srv global \<Rightarrow> bool" where
  "rd_same g g' \<longleftrightarrow> (\<exists>s d n l. g' = g\<lparr>g_srv := s, mb_data := d, g_NumFreeMBufs := n, g_FreeMBufs := l\<rparr>)"

lemma rd_sameI [intro]: "rd_same g (g\<lparr>g_srv := s, mb_data := d, g_NumFreeMBufs := n, g_FreeMBufs := l\<rparr>)"
  unfolding rd_same_def by blast

lemma rd_same_refl [simp]: "rd_same g g"
  unfolding rd_same_def
  by (rule exI [of _ "g_srv g"], rule exI [of _ "mb_data g"], rule exI [of _ "g_NumFreeMBufs g"],
      rule exI [of _ "g_FreeMBufs g"]) simp

lemma rd_same_trans: "rd_same g g' \<Longrightarrow> rd_same g' g'' \<Longrightarrow> rd_same g g''"
  unfolding rd_same_def by (elim exE, intro exI) simp

lemma rd_same_srv [simp]: "rd_same g (g\<lparr>g_srv := s\<rparr>)"
  using rd_sameI [where g = g and s = s and d = "mb_data g" and n = "g_NumFreeMBufs g" and l = "g_FreeMBufs g"] by simp

lemma rd_same_data [simp]: "rd_same g (g\<lparr>mb_data := d\<rparr>)"
  using rd_sameI [where g = g and s = "g_srv g" and d = d and n = "g_NumFreeMBufs g" and l = "g_FreeMBufs g"] by simp

lemma rd_same_pool [simp]: "rd_same g (g\<lparr>g_NumFreeMBufs := n, g_FreeMBufs := l\<rparr>)"
  using rd_sameI [where g = g and s = "g_srv g" and d = "mb_data g" and n = n and l = l] by simp

lemma length_mb_bytes [simp]: "length (mb_bytes d from n) = n"
  by (simp add: mb_bytes_def)

lemma nth_mb_bytes: "k < n \<Longrightarrow> mb_bytes d from n ! k = d (from + int k)"
  by (simp add: mb_bytes_def)

lemma mb_inv_srv [simp]: "mb_inv (g\<lparr>g_srv := s\<rparr>) used = mb_inv g used" "mb_inv (g\<lparr>mb_data := d\<rparr>) used = mb_inv g used"
  by (simp_all add: mb_inv_def)

lemma rb_Release_spec:
  assumes "mb_inv g (rheld e @ used)" and "efh_RBuf e = Some rbh"
  shows "\<exists>g'. rb_ReleaseRBufData g e = Some (g', e\<lparr>efh_RBuf := Some (rbh\<lparr>rbh_Data := NULL\<rparr>)\<rparr>) \<and>
     mb_inv g' used \<and> rd_same g g' \<and> mb_data g' = mb_data g \<and> g_srv g' = g_srv g"
proof (cases "rbh_Data rbh = NULL")
  case True
  then show ?thesis using assms by (simp add: rb_ReleaseRBufData_def mb_ReleaseMBuf_def rheld_def)
next
  case False
  then have "mb_inv (mb_ReleaseMBuf (rbh_Data rbh) g) ([] @ used)"
    using assms by (intro mb_ReleaseMBuf_inv) (simp add: rheld_def)
  then show ?thesis using assms False
    by (simp add: rb_ReleaseRBufData_def mb_ReleaseMBuf_def)
qed

lemma rb_Obtain_spec:
  assumes "mb_inv g used" and "efh_RBuf e = Some rbh" and "g_NumFreeMBufs g > 0"
  shows "\<exists>g' b. rb_ObtainRBufData g e = Some (g', e\<lparr>efh_RBuf := Some (rbh\<lparr>rbh_Data := b\<rparr>)\<rparr>) \<and> b \<noteq> NULL \<and>
     mb_inv g' (b # used) \<and> rd_same g g' \<and> mb_data g' = mb_data g \<and> g_srv g' = g_srv g"
proof -
  obtain b g' where "mb_ObtainMBuf g = Some (b, g')" "mb_inv g' (b # used)" "b \<noteq> NULL"
     "g' = g\<lparr>g_NumFreeMBufs := g_NumFreeMBufs g - 1, g_FreeMBufs := tl (g_FreeMBufs g)\<rparr>"
    using mb_ObtainMBuf_inv [OF assms(1,3)] by blast
  then show ?thesis using assms(2)
    by (intro exI [of _ g'] exI [of _ b]) (simp add: rb_ObtainRBufData_def)
qed

lemma rd_same_fh: "rd_same g g' \<Longrightarrow> efh_fh g' e = efh_fh g e"
  by (auto simp: rd_same_def efh_fh_def)

text \<open>The result of a read of \<open>Num\<close> bytes at \<open>pos\<close>.\<close>

definition read_result ::
  "('srv \<Rightarrow> nfs_fh \<Rightarrow> int \<Rightarrow> u8) \<Rightarrow> nfs_fh \<Rightarrow> addr list \<Rightarrow> int \<Rightarrow> int \<Rightarrow> 'srv global \<Rightarrow>
     ((int + u8 list) \<times> 'srv global \<times> efh) option \<Rightarrow> bool" where
  "read_result content f used pos Num g res \<longleftrightarrow>
     (\<exists>r g' e'. res = Some (r, g', e') \<and> mb_inv g' (rheld e' @ used) \<and> rb_ok content g' e' f \<and>
        content (g_srv g') = content (g_srv g) \<and> rd_same g g' \<and> (\<forall>b\<in>set used. mb_data g' b = mb_data g b) \<and>
        (case r of Inl _ \<Rightarrow> efh_FilePos e' = pos \<and> rheld e' = []
         | Inr bs \<Rightarrow> int (length bs) \<le> Num \<and> efh_FilePos e' = pos + int (length bs) \<and>
             (\<forall>k < length bs. bs ! k = content (g_srv g) f (pos + int k))))"

lemma read_direct:
  assumes srv: "read_server rpc content" and inv: "mb_inv g used" and f: "efh_fh g e = Some f"
    and none: "rheld e = []"
    and pos: "0 \<le> efh_FilePos e" "0 < Num" "efh_FilePos e + Num \<le> 2 ^ 31"
  shows "read_result content f used (efh_FilePos e) Num g
(rb_direct rpc g e Num)"
proof -
  have off: "uint (ULONG_of (efh_FilePos e)) = efh_FilePos e" using pos by (intro uint_ULONG_of) auto
  obtain r s where m: "nfs_MRead (g_NFSGlobal g) rpc f (ULONG_of (efh_FilePos e)) (nat Num) (g_srv g) = Some (r, s)"
     "content s = content (g_srv g)"
     "\<forall>bs len. r = Inr (bs, len) \<longrightarrow> length bs \<le> nat Num \<and> (\<forall>k < length bs. bs ! k = content (g_srv g) f (efh_FilePos e + int k))"
    using nfs_MRead_spec [OF srv, of "nat Num" "ULONG_of (efh_FilePos e)" "g_NFSGlobal g" f "g_srv g"] off pos by auto
  have ok: "rb_ok content (g\<lparr>g_srv := s\<rparr>) e' f" if "efh_RBuf e' = efh_RBuf e" for e'
    using none that by (auto simp: rb_ok_def rheld_def split: option.splits if_splits)
  have held: "rheld e' = []" if "efh_RBuf e' = efh_RBuf e" for e'
    using none that by (simp add: rheld_def)
  show ?thesis
  proof (cases r)
    case (Inl e1)
    then show ?thesis using m f ok [of e] inv none unfolding read_result_def rb_direct_def by simp
  next
    case (Inr q)
    obtain bs flen where q: "q = (bs, flen)" by (cases q)
    then have bs: "length bs \<le> nat Num" "\<forall>k < length bs. bs ! k = content (g_srv g) f (efh_FilePos e + int k)"
      using m(3) Inr by auto
    show ?thesis using m(1,2) f inv bs pos(2) Inr q
      ok [of "e\<lparr>efh_FileLen := flen\<rparr>"] held [of "e\<lparr>efh_FileLen := flen\<rparr>"]
      ok [of "e\<lparr>efh_FileLen := flen, efh_FilePos := efh_FilePos e + int (length bs)\<rparr>"]
      held [of "e\<lparr>efh_FileLen := flen, efh_FilePos := efh_FilePos e + int (length bs)\<rparr>"]
      unfolding read_result_def rb_direct_def by (auto simp: Let_def)
  qed
qed

lemma read_result_trans:
  assumes "read_result content f used pos Num g1 res" and "rd_same g g1"
    and "content (g_srv g1) = content (g_srv g)" and "\<forall>b\<in>set used. mb_data g1 b = mb_data g b"
  shows "read_result content f used pos Num g res"
proof -
  obtain r g' e' where *: "res = Some (r, g', e')" "mb_inv g' (rheld e' @ used)" "rb_ok content g' e' f"
     "content (g_srv g') = content (g_srv g1)" "rd_same g1 g'" "\<forall>b\<in>set used. mb_data g' b = mb_data g1 b"
     "case r of Inl _ \<Rightarrow> efh_FilePos e' = pos \<and> rheld e' = []
         | Inr bs \<Rightarrow> int (length bs) \<le> Num \<and> efh_FilePos e' = pos + int (length bs) \<and>
             (\<forall>k < length bs. bs ! k = content (g_srv g1) f (pos + int k))"
    using assms(1) unfolding read_result_def by blast
  have "rd_same g g'" by (rule rd_same_trans [OF assms(2) *(5)])
  then show ?thesis unfolding read_result_def
    by (intro exI [of _ r] exI [of _ g'] exI [of _ e']) (use * assms(3,4) in \<open>simp cong: sum.case_cong\<close>)
qed

text \<open>The bytes found in the buffer are those of the file.\<close>

lemma rb_hit_ok:
  assumes ok: "rb_ok content g e f" and r: "efh_RBuf e = Some rbh" and d: "rbh_Data rbh \<noteq> NULL" and n: "0 < n"
  shows "int (length (rb_hit g rbh pos n)) \<le> n"
    and "k < length (rb_hit g rbh pos n) \<Longrightarrow> rb_hit g rbh pos n ! k = content (g_srv g) f (pos + int k)"
proof -
  show "int (length (rb_hit g rbh pos n)) \<le> n" using n by (auto simp: rb_hit_def Let_def)
  assume k: "k < length (rb_hit g rbh pos n)"
  define i where "i = pos - rbh_FileOffs rbh"
  have b: "rbh_FileOffs rbh \<le> pos" "pos < rbh_FileOffs rbh + rbh_DataLen rbh"
    using k by (auto simp: rb_hit_def Let_def split: if_splits)
  then have l: "int k < rbh_FileOffs rbh + rbh_DataLen rbh - pos" using k by (auto simp: rb_hit_def Let_def)
  have "rb_hit g rbh pos n ! k = mb_data g (rbh_Data rbh) ((pos + int k) - rbh_FileOffs rbh)"
    using b k by (simp add: rb_hit_def Let_def nth_mb_bytes algebra_simps)
  also have "\<dots> = content (g_srv g) f (pos + int k)"
    using ok r d b l by (simp add: rb_ok_def)
  finally show "rb_hit g rbh pos n ! k = content (g_srv g) f (pos + int k)" .
qed

text \<open>Filling the buffer from the server behind the bytes \<open>got\<close>.\<close>

lemma read_fill:
  assumes srv: "read_server rpc content" and inv: "mb_inv g (b # used)" and f: "efh_fh g e = Some f"
    and r: "efh_RBuf e = Some rbh" "rbh_Data rbh = b" "b \<noteq> NULL" and ok: "got \<noteq> [] \<Longrightarrow> rb_ok content g e f"
    and pos: "0 \<le> efh_FilePos e" "0 < Num" "efh_FilePos e + Num + MBUFSIZE \<le> 2 ^ 31"
    and got: "int (length got) \<le> Num" "\<And>k. k < length got \<Longrightarrow> got ! k = content (g_srv g) f (efh_FilePos e + int k)"
  shows "read_result content f used (efh_FilePos e) Num g (rb_fill rpc g e rbh got Num)"
proof -
  define FilePos where "FilePos = efh_FilePos e + int (length got)"
  define NumLeft where "NumLeft = Num - int (length got)"
  show ?thesis
proof (cases "NumLeft = 0")
  case True
  have "got \<noteq> []" using True pos(2) by (auto simp: NumLeft_def)
  then have "rb_ok content g (e\<lparr>efh_FilePos := FilePos\<rparr>) f" "rheld (e\<lparr>efh_FilePos := FilePos\<rparr>) = [b]"
    using ok r by (simp_all add: rb_ok_def rheld_def)
  moreover have "rb_fill rpc g e rbh got Num = Some (Inr got, g, e\<lparr>efh_FilePos := FilePos\<rparr>)"
    using True by (simp add: rb_fill_def FilePos_def NumLeft_def Let_def)
  ultimately show ?thesis using True inv got unfolding read_result_def FilePos_def NumLeft_def by simp
next
  case False
  have off: "uint (ULONG_of FilePos) = FilePos"
    using pos got(1) by (intro uint_ULONG_of) (auto simp: FilePos_def)
  obtain rr s where m: "nfs_MRead (g_NFSGlobal g) rpc f (ULONG_of FilePos) (nat MBUFSIZE) (g_srv g) = Some (rr, s)"
     "content s = content (g_srv g)"
     "\<forall>bs len. rr = Inr (bs, len) \<longrightarrow> length bs \<le> 8192 \<and> (\<forall>k < length bs. bs ! k = content (g_srv g) f (FilePos + int k))"
    using nfs_MRead_spec [OF srv, of "nat MBUFSIZE" "ULONG_of FilePos" "g_NFSGlobal g" f "g_srv g"] off pos got(1)
    by (auto simp: FilePos_def)
  have inv2: "mb_inv (g\<lparr>g_srv := s\<rparr>) (rheld e' @ used)" if "efh_RBuf e' = efh_RBuf e" for e'
    using inv r that by (simp add: rheld_def)
  have rel: "\<exists>g3. rb_ReleaseRBufData (g\<lparr>g_srv := s\<rparr>) e' = Some (g3, e'\<lparr>efh_RBuf := Some (rbh\<lparr>rbh_Data := NULL\<rparr>)\<rparr>) \<and>
      mb_inv g3 used \<and> rd_same g g3 \<and> mb_data g3 = mb_data g \<and> content (g_srv g3) = content (g_srv g)"
    if "efh_RBuf e' = efh_RBuf e" for e'
  proof -
    have "rd_same g g3" if "rd_same (g\<lparr>g_srv := s\<rparr>) g3" for g3 using rd_same_trans [OF rd_same_srv that] .
    then show ?thesis using rb_Release_spec [OF inv2 [OF that], of rbh] that r m(2) by auto
  qed
  have null: "rheld (e'\<lparr>efh_RBuf := Some (rbh\<lparr>rbh_Data := NULL\<rparr>)\<rparr>) = []"
    "rb_ok content g' (e'\<lparr>efh_RBuf := Some (rbh\<lparr>rbh_Data := NULL\<rparr>)\<rparr>) f" for e' g'
    by (simp_all add: rheld_def rb_ok_def)
  show ?thesis
  proof (cases rr)
    case (Inl res2)
    obtain g3 where "rb_ReleaseRBufData (g\<lparr>g_srv := s\<rparr>) e = Some (g3, e\<lparr>efh_RBuf := Some (rbh\<lparr>rbh_Data := NULL\<rparr>)\<rparr>)"
      "mb_inv g3 used" "rd_same g g3" "mb_data g3 = mb_data g" "content (g_srv g3) = content (g_srv g)"
      using rel [of e] by auto
    moreover have "rb_fill rpc g e rbh got Num = map_option (\<lambda>(g3, e3). (Inl res2, g3, e3)) (rb_ReleaseRBufData (g\<lparr>g_srv := s\<rparr>) e)"
      unfolding rb_fill_def FilePos_def [symmetric] NumLeft_def [symmetric] using False f m(1) Inl by (simp add: Let_def)
    ultimately show ?thesis using null unfolding read_result_def by simp
  next
    case (Inr q)
    obtain bs flen where q: "q = (bs, flen)" by (cases q)
    then have bs: "length bs \<le> 8192" "\<forall>k < length bs. bs ! k = content (g_srv g) f (FilePos + int k)"
      using m(3) Inr by auto
    show ?thesis
    proof (cases "bs = []")
      case True
      let ?e = "e\<lparr>efh_FileLen := flen, efh_FilePos := FilePos\<rparr>"
      obtain g3 where "rb_ReleaseRBufData (g\<lparr>g_srv := s\<rparr>) ?e = Some (g3, ?e\<lparr>efh_RBuf := Some (rbh\<lparr>rbh_Data := NULL\<rparr>)\<rparr>)"
        "mb_inv g3 used" "rd_same g g3" "mb_data g3 = mb_data g" "content (g_srv g3) = content (g_srv g)"
        using rel [of ?e] by auto
      moreover have "rb_fill rpc g e rbh got Num = map_option (\<lambda>(g3, e3). (Inr got, g3, e3)) (rb_ReleaseRBufData (g\<lparr>g_srv := s\<rparr>) ?e)"
        unfolding rb_fill_def FilePos_def [symmetric] NumLeft_def [symmetric] using False f m(1) Inr q True by (simp add: Let_def)
      ultimately show ?thesis using null got unfolding read_result_def FilePos_def by simp
    next
      case ne: False
      define l where "l = min (int (length bs)) NumLeft"
      have l: "0 \<le> l" "l \<le> int (length bs)" "l \<le> NumLeft"
        using got(1) by (auto simp: l_def NumLeft_def)
      define g3 where "g3 = g\<lparr>g_srv := s, mb_data := (mb_data g)(b := put_bytes 0 bs (mb_data g b))\<rparr>"
      define e3 where "e3 = e\<lparr>efh_FileLen := flen, efh_FilePos := FilePos + l,
          efh_RBuf := Some (rbh\<lparr>rbh_FileOffs := FilePos, rbh_DataLen := int (length bs)\<rparr>)\<rparr>"
      define out where "out = got @ mb_bytes (mb_data g3 b) 0 (nat l)"
      have data: "mb_data g3 b (int k) = content (g_srv g) f (FilePos + int k)" if "k < length bs" for k
        using bs(2) that by (simp add: g3_def put_bytes_def)
      have out: "out ! k = content (g_srv g) f (efh_FilePos e + int k)" if "k < length out" for k
      proof (cases "k < length got")
        case True
        then show ?thesis using got(2) by (simp add: out_def nth_append)
      next
        case False
        then have "k - length got < nat l" using that by (simp add: out_def)
        moreover have "k - length got < length bs" using calculation l by linarith
        ultimately show ?thesis using False data [of "k - length got"]
          by (simp add: out_def nth_append nth_mb_bytes FilePos_def algebra_simps)
      qed
      have ok3: "rb_ok content g3 e3 f"
      proof -
        have "mb_data g3 b (p - FilePos) = content (g_srv g3) f p" if "FilePos \<le> p" "p < FilePos + int (length bs)" for p
        proof -
          have "nat (p - FilePos) < length bs" using that by auto
          then show ?thesis using data [of "nat (p - FilePos)"] that m(2) by (simp add: g3_def)
        qed
        then show ?thesis using r by (simp add: rb_ok_def e3_def)
      qed
      have "mb_inv g3 (rheld e3 @ used)" using inv r by (simp add: g3_def e3_def rheld_def mb_inv_def)
      moreover have "rd_same g g3" unfolding g3_def by (rule rd_same_trans [OF rd_same_srv rd_same_data])
      moreover have "b \<notin> set used" using inv by (auto simp: mb_inv_def)
      then have "\<forall>c\<in>set used. mb_data g3 c = mb_data g c" by (auto simp: g3_def)
      moreover have "content (g_srv g3) = content (g_srv g)" using m(2) by (simp add: g3_def)
      moreover have "int (length out) = int (length got) + l" using l by (simp add: out_def)
      then have "int (length out) \<le> Num \<and> efh_FilePos e3 = efh_FilePos e + int (length out)"
        using l by (simp add: e3_def FilePos_def NumLeft_def)
      moreover have run: "rb_fill rpc g e rbh got Num = Some (Inr out, g3, e3)"
        unfolding rb_fill_def FilePos_def [symmetric] NumLeft_def [symmetric]
        using False f m(1) Inr q ne r(2) by (simp add: Let_def out_def g3_def e3_def l_def)
      ultimately show ?thesis using ok3 out unfolding read_result_def run by auto
    qed
  qed
qed
qed

lemma rb_ReadBuf_spec:
  assumes srv: "read_server rpc content" and inv: "mb_inv g (rheld e @ used)" and f: "efh_fh g e = Some f"
    and ok: "rb_ok content g e f" and us: "rb_usable e Num"
    and pos: "0 \<le> efh_FilePos e" "0 < Num" "efh_FilePos e + Num + MBUFSIZE \<le> 2 ^ 31"
  shows "\<exists>r g' e'. rb_ReadBuf rpc g e Num = Some (r, g', e') \<and> mb_inv g' (rheld e' @ used) \<and> rb_ok content g' e' f \<and>
     content (g_srv g') = content (g_srv g) \<and> rd_same g g' \<and> (\<forall>b\<in>set used. mb_data g' b = mb_data g b) \<and>
     (case r of Inl _ \<Rightarrow> efh_FilePos e' = efh_FilePos e \<and> rheld e' = []
      | Inr bs \<Rightarrow> int (length bs) \<le> Num \<and> efh_FilePos e' = efh_FilePos e + int (length bs) \<and>
          (\<forall>k < length bs. bs ! k = content (g_srv g) f (efh_FilePos e + int k)))"
proof (cases "efh_RBuf e")
  case None
  then have h: "\<not> HasBufferedRData e" "rheld e = []" by (simp_all add: HasBufferedRData_def rheld_def)
  have run: "rb_ReadBuf rpc g e Num = rb_direct rpc g e Num"
    using us None h(1) by (auto simp: rb_ReadBuf_def rb_usable_def)
  have "read_result content f used (efh_FilePos e) Num g (rb_ReadBuf rpc g e Num)"
    unfolding run by (rule read_direct [OF srv _ f h(2)]) (use inv h(2) pos in auto)
  then show ?thesis by (simp add: read_result_def)
next
  case r: (Some rbh)
  define buffered where "buffered \<longleftrightarrow> Num \<le> RBUFFERLIMIT \<and> efh_FilePos e \<noteq> 0 \<and> (rbh_Data rbh \<noteq> NULL \<or> g_NumFreeMBufs g > 0)"
  have b: "(if Num \<le> RBUFFERLIMIT \<and> efh_FilePos e \<noteq> 0
      then map_option (\<lambda>rbh. rbh_Data rbh \<noteq> NULL \<or> g_NumFreeMBufs g > 0) (efh_RBuf e) else Some False) = Some buffered"
    using r by (auto simp: buffered_def)
  have "read_result content f used (efh_FilePos e) Num g (rb_ReadBuf rpc g e Num)"
  proof (cases buffered)
    case False
    obtain g1 e1 where rel: "(if HasBufferedRData e then rb_ReleaseRBufData g e else Some (g, e)) = Some (g1, e1)"
       "mb_inv g1 used" "rd_same g g1" "mb_data g1 = mb_data g" "g_srv g1 = g_srv g" "rheld e1 = []"
       "efh_FilePos e1 = efh_FilePos e" "efh_ELock e1 = efh_ELock e"
    proof (cases "rbh_Data rbh = NULL")
      case True
      then show ?thesis using that [of g e] r inv by (simp add: HasBufferedRData_def rheld_def)
    next
      case False
      then show ?thesis using that rb_Release_spec [OF inv r] r by (auto simp: HasBufferedRData_def rheld_def)
    qed
    have f1: "efh_fh g1 e1 = Some f" using f rd_same_fh [OF rel(3), of e1] rel(8) by (simp add: efh_fh_def)
    have run: "rb_ReadBuf rpc g e Num = rb_direct rpc g1 e1 Num"
      unfolding rb_ReadBuf_def b using False by (simp add: rel(1) del: bind_Some_conv split del: if_split)
    have "read_result content f used (efh_FilePos e1) Num g1 (rb_ReadBuf rpc g e Num)"
      unfolding run by (rule read_direct [OF srv rel(2) f1 rel(6)]) (use pos rel(7) in auto)
    then show ?thesis
      using read_result_trans [of content f used "efh_FilePos e1" Num g1 "rb_ReadBuf rpc g e Num" g] rel by simp
  next
    case True
    define got where "got = (if rbh_Data rbh = NULL then [] else rb_hit g rbh (efh_FilePos e) Num)"
    obtain g1 e1 rbh1 where st: "(if rbh_Data rbh = NULL then map_option (\<lambda>(g1, e1). ([], g1, e1)) (rb_ObtainRBufData g e)
          else Some (rb_hit g rbh (efh_FilePos e) Num, g, e)) = Some (got, g1, e1)"
       "mb_inv g1 (rbh_Data rbh1 # used)" "rbh_Data rbh1 \<noteq> NULL" "efh_RBuf e1 = Some rbh1"
       "rd_same g g1" "mb_data g1 = mb_data g" "g_srv g1 = g_srv g" "efh_FilePos e1 = efh_FilePos e"
       "efh_ELock e1 = efh_ELock e" "got \<noteq> [] \<Longrightarrow> rb_ok content g1 e1 f"
    proof (cases "rbh_Data rbh = NULL")
      case null: True
      have "mb_inv g used" using inv r null by (simp add: rheld_def)
      then obtain g1 b where o: "rb_ObtainRBufData g e = Some (g1, e\<lparr>efh_RBuf := Some (rbh\<lparr>rbh_Data := b\<rparr>)\<rparr>)" "b \<noteq> NULL"
          "mb_inv g1 (b # used)" "rd_same g g1" "mb_data g1 = mb_data g" "g_srv g1 = g_srv g"
        using rb_Obtain_spec [OF _ r, of g used] True null by (auto simp: buffered_def)
      have "got = []" using null by (simp add: got_def)
      then show ?thesis using that [of g1 "e\<lparr>efh_RBuf := Some (rbh\<lparr>rbh_Data := b\<rparr>)\<rparr>" "rbh\<lparr>rbh_Data := b\<rparr>"] o null by simp
    next
      case False
      then show ?thesis using that [of g e rbh] r inv ok by (simp add: got_def rheld_def)
    qed
    have f1: "efh_fh g1 e1 = Some f" using f rd_same_fh [OF st(5), of e1] st(9) by (simp add: efh_fh_def)
    have got: "got ! k = content (g_srv g1) f (efh_FilePos e1 + int k)" if "k < length got" for k
      using rb_hit_ok [OF ok r _ pos(2), where pos = "efh_FilePos e"] that st(7,8) by (auto simp: got_def split: if_splits)
    have lgot: "int (length got) \<le> Num"
      using rb_hit_ok(1) [OF ok r _ pos(2), where pos = "efh_FilePos e"] pos(2) by (auto simp: got_def)
    have pos1: "0 \<le> efh_FilePos e1" "efh_FilePos e1 + Num + MBUFSIZE \<le> 2 ^ 31" using pos st(8) by auto
    have run: "rb_ReadBuf rpc g e Num = rb_fill rpc g1 e1 rbh1 got Num"
      unfolding rb_ReadBuf_def b using True r by (simp only: st(1) st(4) Option.bind.simps prod.case if_True Let_def)
    have "read_result content f used (efh_FilePos e1) Num g1 (rb_ReadBuf rpc g e Num)"
      unfolding run
      by (rule read_fill [OF srv st(2) f1 st(4) refl st(3)]) (use st(10) pos1 pos(2) lgot got in auto)
    then show ?thesis
      using read_result_trans [of content f used "efh_FilePos e1" Num g1 "rb_ReadBuf rpc g e Num" g] st by simp
  qed
  then show ?thesis by (simp add: read_result_def)
qed

text \<open>C4. Reading through the read buffer is exact, and its one way to go wrong is named.
  Let the handle have a file position \<open>p\<close> and a valid lock, let the buffer hold a copy of the file
  (nothing, when there is no buffer), let \<open>0 < Num\<close> and \<open>p + Num + MBUFSIZE \<le> 2 ^ 31\<close>, and let READ
  answer with bytes of the file or fail (\<open>read_server\<close>). If the handle has no read buffer (memory
  was short when the file was opened), at most \<open>RBUFFERLIMIT\<close> bytes are wanted and \<open>p\<close> is not 0, the
  test of \<open>rb_ReadBuf\<close> follows the null pointer \<open>efh_RBuf\<close> (no result). In every other case
  \<open>rb_ReadBuf\<close> returns; the bytes it returns, from the buffer, from the server or from both, are
  the bytes of the remote file at the file position, at most as many as asked for; the file
  position advances by exactly that many; what the buffer holds afterwards is again a copy of
  the file; no data buffer is lost and the buffers of others keep their bytes. On an error the
  position is unchanged and the buffer has gone back to the pool.\<close>

theorem rb_ReadBuf_correct:
  assumes srv: "read_server rpc content" and inv: "mb_inv g (rheld e @ used)" and f: "efh_fh g e = Some f"
    and ok: "rb_ok content g e f"
    and pos: "0 \<le> efh_FilePos e" "0 < Num" "efh_FilePos e + Num + MBUFSIZE \<le> 2 ^ 31"
  shows "if efh_RBuf e = None \<and> Num \<le> RBUFFERLIMIT \<and> efh_FilePos e \<noteq> 0 then rb_ReadBuf rpc g e Num = None
     else \<exists>r g' e'. rb_ReadBuf rpc g e Num = Some (r, g', e') \<and> mb_inv g' (rheld e' @ used) \<and> rb_ok content g' e' f \<and>
       content (g_srv g') = content (g_srv g) \<and> rd_same g g' \<and> (\<forall>b\<in>set used. mb_data g' b = mb_data g b) \<and>
       (case r of Inl _ \<Rightarrow> efh_FilePos e' = efh_FilePos e \<and> rheld e' = []
        | Inr bs \<Rightarrow> int (length bs) \<le> Num \<and> efh_FilePos e' = efh_FilePos e + int (length bs) \<and>
            (\<forall>k < length bs. bs ! k = content (g_srv g) f (efh_FilePos e + int k)))"
proof (cases "rb_usable e Num")
  case False
  then show ?thesis by (auto simp: rb_usable_def rb_ReadBuf_def)
next
  case True
  then have "\<not> (efh_RBuf e = None \<and> Num \<le> RBUFFERLIMIT \<and> efh_FilePos e \<noteq> 0)" by (auto simp: rb_usable_def)
  then show ?thesis unfolding if_not_P [OF \<open>\<not> _\<close>] by (intro rb_ReadBuf_spec [OF srv inv f ok True pos])
qed

theorem rb_ReadBuf_correct_witness:
  "let g = (cleared_global (\<lambda>f p. if f = [7] then word_of_int p else 0))\<lparr>
         g_NFSGlobal := \<lparr>ng_NumRRPCs = 1, ng_NumWRPCs = 1, ng_MaxReadSize = 4096, ng_MaxReadDirSize = 0,
                        ng_MaxWriteSize = 0\<rparr>,
         g_NumMBufs := 1, g_NumFreeMBufs := 1, g_FreeMBufs := [100],
         hp_elock := [5 \<mapsto> \<lparr>fl_Link = NULL, fl_Key = 1, fl_Access = SHARED_LOCK, efl_NFSFh = [7],
                             efl_NFSType = NFREG, efl_FullName = ''a'', efl_Name = ''a''\<rparr>]\<rparr>;
       e = rb_CreateRBuf True \<lparr>efh_Next = NULL, efh_Id = 1, efh_FilePos = 10, efh_FileLen = 100,
             efh_Mode = MODE_OLDFILE, efh_ELock = 5, efh_WBuf = None, efh_RBuf = None, efh_Res2 = 0\<rparr>
   in \<exists>r g' e'. rb_ReadBuf mem_rpc g e 3 = Some (r, g', e') \<and> mb_inv g' (rheld e') \<and>
        (case r of Inl _ \<Rightarrow> efh_FilePos e' = 10
         | Inr bs \<Rightarrow> length bs \<le> 3 \<and> (\<forall>k < length bs. bs ! k = word_of_int (10 + int k)))"
proof -
  define g :: "(nfs_fh \<Rightarrow> int \<Rightarrow> u8) global" where "g = (cleared_global (\<lambda>f p. if f = [7] then word_of_int p else 0))\<lparr>
         g_NFSGlobal := \<lparr>ng_NumRRPCs = 1, ng_NumWRPCs = 1, ng_MaxReadSize = 4096, ng_MaxReadDirSize = 0,
                        ng_MaxWriteSize = 0\<rparr>,
         g_NumMBufs := 1, g_NumFreeMBufs := 1, g_FreeMBufs := [100],
         hp_elock := [5 \<mapsto> \<lparr>fl_Link = NULL, fl_Key = 1, fl_Access = SHARED_LOCK, efl_NFSFh = [7],
                             efl_NFSType = NFREG, efl_FullName = ''a'', efl_Name = ''a''\<rparr>]\<rparr>"
  define e where "e = rb_CreateRBuf True \<lparr>efh_Next = NULL, efh_Id = 1, efh_FilePos = 10, efh_FileLen = 100,
             efh_Mode = MODE_OLDFILE, efh_ELock = 5, efh_WBuf = None, efh_RBuf = None, efh_Res2 = 0\<rparr>"
  have inv: "mb_inv g (rheld e @ [])" by (simp add: mb_inv_def g_def e_def rheld_def rb_CreateRBuf_def cleared_global_def)
  have f: "efh_fh g e = Some [7]" by (simp add: efh_fh_def g_def e_def rb_CreateRBuf_def)
  have ok: "rb_ok (\<lambda>s. s) g e [7]" by (simp add: rb_ok_def e_def rb_CreateRBuf_def)
  have ne: "efh_RBuf e \<noteq> None" by (simp add: e_def rb_CreateRBuf_def)
  have p: "efh_FilePos e = 10" "g_srv g [7] = word_of_int" by (auto simp: e_def rb_CreateRBuf_def g_def cleared_global_def)
  obtain r g' e' where "rb_ReadBuf mem_rpc g e 3 = Some (r, g', e')" "mb_inv g' (rheld e' @ [])"
    "case r of Inl _ \<Rightarrow> efh_FilePos e' = efh_FilePos e \<and> rheld e' = []
      | Inr bs \<Rightarrow> int (length bs) \<le> 3 \<and> efh_FilePos e' = efh_FilePos e + int (length bs) \<and>
          (\<forall>k < length bs. bs ! k = g_srv g [7] (efh_FilePos e + int k))"
    using rb_ReadBuf_correct [OF mem_rpc_servers(2) inv f ok, of 3] p ne by auto
  then show ?thesis unfolding Let_def g_def [symmetric] e_def [symmetric]
    by (intro exI [of _ r] exI [of _ g'] exI [of _ e']) (cases r; simp add: p)
qed

text \<open>Reading changes no more of the handle than its position, length and read buffer.\<close>

definition rd_efh :: "efh \<Rightarrow> efh \<Rightarrow> bool" where
  "rd_efh e e' \<longleftrightarrow> efh_Next e' = efh_Next e \<and> efh_Id e' = efh_Id e \<and> efh_Mode e' = efh_Mode e \<and>
     efh_ELock e' = efh_ELock e \<and> efh_WBuf e' = efh_WBuf e \<and> efh_Res2 e' = efh_Res2 e"

lemma rb_Obtain_same: "rb_ObtainRBufData g e = Some (g', e') \<Longrightarrow> rd_efh e e'"
  by (auto simp: rb_ObtainRBufData_def rd_efh_def)

lemma rb_Release_same: "rb_ReleaseRBufData g e = Some (g', e') \<Longrightarrow> rd_efh e e'"
  by (auto simp: rb_ReleaseRBufData_def rd_efh_def)

lemma rb_fill_same:
  assumes "rb_fill rpc g e rbh got Num = Some (r, g', e')" shows "rd_efh e e'"
proof (cases "Num - int (length got) = 0")
  case True
  then show ?thesis using assms by (auto simp: rb_fill_def Let_def rd_efh_def)
next
  case False
  obtain r1 s where m: "efh_fh g e \<noteq> None" "nfs_MRead (g_NFSGlobal g) rpc (the (efh_fh g e))
      (ULONG_of (efh_FilePos e + int (length got))) (nat MBUFSIZE) (g_srv g) = Some (r1, s)"
    using assms False by (auto simp: rb_fill_def Let_def split: prod.splits)
  show ?thesis
    using assms False m
    by (cases r1) (auto simp: rb_fill_def Let_def rd_efh_def split: if_splits dest!: rb_Release_same)
qed

lemma rb_direct_same:
  assumes "rb_direct rpc g e Num = Some (r, g', e')" shows "rd_efh e e'"
proof -
  obtain r1 s where m: "efh_fh g e \<noteq> None" "nfs_MRead (g_NFSGlobal g) rpc (the (efh_fh g e))
      (ULONG_of (efh_FilePos e)) (nat Num) (g_srv g) = Some (r1, s)"
    using assms by (auto simp: rb_direct_def Let_def split: prod.splits)
  show ?thesis
    using assms m by (cases r1) (auto simp: rb_direct_def Let_def rd_efh_def split: if_splits)
qed

lemma rb_ReadBuf_same: "rb_ReadBuf rpc g e Num = Some (r, g', e') \<Longrightarrow> rd_efh e e'"
  unfolding rb_ReadBuf_def
  by (auto split: if_splits dest!: rb_fill_same rb_direct_same rb_Obtain_same rb_Release_same simp: rd_efh_def)

end
