(* ===== verification/LinkedList.thy ===== *)
theory LinkedList
  imports State
begin

text \<open>
  The singly linked collections of the handler: open files, locks and directory scans are
  kept in lists threaded through the objects, searched from a head pointer and unlinked
  through a pointer to the previous link. The loops are the same in src/src/fh.c, locks.c
  and dirs.c; they are written once, over the function that reads an object's link. A loop
  over a damaged list may run forever or follow a dangling pointer: \<open>None\<close>.
\<close>

subsection \<open>The loops\<close>

partial_function (option) list_find ::
  "(addr \<Rightarrow> addr option) \<Rightarrow> (addr \<Rightarrow> bool option) \<Rightarrow> addr \<Rightarrow> addr option" where
  "list_find nx P p =
     (if p = NULL then Some NULL
      else do {
        b \<leftarrow> P p;
        (if b then Some p else do { n \<leftarrow> nx p; list_find nx P n })
      })"

declare list_find.simps [code]

text \<open>The search of the removal loops, which hold the address of the link (\<open>prev\<close>, NULL for the
  head pointer) that leads to the current object.\<close>

partial_function (option) list_locate ::
  "(addr \<Rightarrow> addr option) \<Rightarrow> addr \<Rightarrow> addr \<Rightarrow> addr \<Rightarrow> (addr \<times> addr) option option" where
  "list_locate nx arg prev p =
     (if p = NULL then Some None
      else do {
        n \<leftarrow> nx p;
        (if p = arg then Some (Some (prev, n)) else list_locate nx arg p n)
      })"

declare list_locate.simps [code]

partial_function (option) list_count ::
  "(addr \<Rightarrow> addr option) \<Rightarrow> (addr \<Rightarrow> bool option) \<Rightarrow> addr \<Rightarrow> int \<Rightarrow> int option" where
  "list_count nx P p num =
     (if p = NULL then Some num
      else do {
        b \<leftarrow> P p;
        n \<leftarrow> nx p;
        list_count nx P n (if b then num + 1 else num)
      })"

declare list_count.simps [code]

subsection \<open>What they compute on a well-formed list\<close>

text \<open>\<open>links nx p as\<close>: the list from \<open>p\<close> consists of the objects \<open>as\<close>.\<close>

definition links :: "(addr \<Rightarrow> addr option) \<Rightarrow> addr \<Rightarrow> addr list \<Rightarrow> bool" where
  "links nx p as \<longleftrightarrow> chain (\<lambda>a. the (nx a)) p as NULL \<and> distinct as \<and> (\<forall>a\<in>set as. nx a \<noteq> None)"

lemma links_Nil [simp]: "links nx p [] \<longleftrightarrow> p = NULL"
  by (auto simp: links_def)

lemma links_Cons: "links nx p (a # as) \<longleftrightarrow>
    p = a \<and> a \<noteq> NULL \<and> a \<notin> set as \<and> (\<exists>n. nx a = Some n \<and> links nx n as)"
  by (auto simp: links_def)

lemma links_not_NULL: "links nx p as \<Longrightarrow> NULL \<notin> set as"
  by (auto simp: links_def dest: chain_not_NULL)

lemma links_distinct: "links nx p as \<Longrightarrow> distinct as"
  by (simp add: links_def)

lemma links_cong: "(\<And>a. a \<in> set as \<Longrightarrow> nx' a = nx a) \<Longrightarrow> links nx p as \<Longrightarrow> links nx' p as"
  by (induction as arbitrary: p) (auto simp: links_Cons)

lemma list_find_eq:
  "links nx p as \<Longrightarrow> (\<And>a. a \<in> set as \<Longrightarrow> P a = Some (Q a)) \<Longrightarrow>
     list_find nx P p = Some (case find Q as of None \<Rightarrow> NULL | Some a \<Rightarrow> a)"
proof (induction as arbitrary: p)
  case (Cons a as)
  obtain n where n: "p = a" "a \<noteq> NULL" "nx a = Some n" "links nx n as" using Cons.prems(1) by (auto simp: links_Cons)
  have "list_find nx P n = Some (case find Q as of None \<Rightarrow> NULL | Some a \<Rightarrow> a)"
    by (rule Cons.IH [OF n(4)]) (use Cons.prems in auto)
  then show ?case using n Cons.prems(2) [of a] by (subst list_find.simps) auto
qed (simp add: list_find.simps)

lemma list_count_eq:
  "links nx p as \<Longrightarrow> (\<And>a. a \<in> set as \<Longrightarrow> P a = Some (Q a)) \<Longrightarrow>
     list_count nx P p num = Some (num + int (length (filter Q as)))"
proof (induction as arbitrary: p num)
  case (Cons a as)
  obtain n where n: "p = a" "a \<noteq> NULL" "nx a = Some n" "links nx n as" using Cons.prems(1) by (auto simp: links_Cons)
  have "list_count nx P n num' = Some (num' + int (length (filter Q as)))" for num'
    by (rule Cons.IH [OF n(4)]) (use Cons.prems in auto)
  then show ?case using n Cons.prems(2) [of a] by (subst list_count.simps) auto
qed (simp add: list_count.simps)

lemma list_locate_absent:
  "links nx p as \<Longrightarrow> arg \<notin> set as \<Longrightarrow> list_locate nx arg prev p = Some None"
proof (induction as arbitrary: p prev)
  case (Cons a as)
  then show ?case by (subst list_locate.simps) (auto simp: links_Cons)
qed (simp add: list_locate.simps)

lemma list_locate_present:
  "links nx p (xs @ arg # ys) \<Longrightarrow>
     list_locate nx arg prev p = Some (Some (if xs = [] then prev else last xs, the (nx arg)))"
proof (induction xs arbitrary: p prev)
  case Nil
  then show ?case by (subst list_locate.simps) (auto simp: links_Cons)
next
  case (Cons a xs)
  obtain n where n: "p = a" "a \<noteq> NULL" "nx a = Some n" "links nx n (xs @ arg # ys)" "a \<noteq> arg"
    using Cons.prems by (auto simp: links_Cons)
  show ?case using n Cons.IH [OF n(4), of a] by (subst list_locate.simps) auto
qed

text \<open>Unlinking: the previous link is overwritten with the successor.\<close>

lemma links_unlink:
  assumes "links nx p (xs @ a # ys)"
  shows "if xs = [] then links nx (the (nx a)) ys
         else links (nx(last xs := Some (the (nx a)))) p (xs @ ys)"
  using assms
proof (induction xs arbitrary: p)
  case Nil
  then show ?case by (auto simp: links_Cons)
next
  case (Cons x xs)
  obtain n where n: "p = x" "x \<noteq> NULL" "nx x = Some n" "links nx n (xs @ a # ys)" "x \<notin> set (xs @ a # ys)"
    using Cons.prems by (auto simp: links_Cons)
  show ?case
  proof (cases xs)
    case Nil
    then have "links nx (the (nx a)) ys" using n by (auto simp: links_Cons)
    then have "links (nx(x := Some (the (nx a)))) (the (nx a)) ys"
      by (rule links_cong [rotated]) (use n in auto)
    then show ?thesis using Nil n by (simp add: links_Cons)
  next
    case (Cons y zs)
    then have "links (nx(last xs := Some (the (nx a)))) n (xs @ ys)"
      using Cons.IH [OF n(4)] by simp
    moreover have "last xs \<noteq> x" using n(5) Cons last_in_set [of xs] by auto
    ultimately show ?thesis using n Cons by (auto simp: links_Cons)
  qed
qed

subsection \<open>The contract of a registry\<close>

text \<open>What the rest of the handler relies on: inserting makes an object a member, removing a
  member takes exactly it out, removing anything else changes nothing.\<close>

locale registry =
  fixes members :: "'s \<Rightarrow> addr list \<Rightarrow> bool"
    and valid :: "'s \<Rightarrow> addr \<Rightarrow> bool"
    and insert_op :: "addr \<Rightarrow> 's \<Rightarrow> 's option"
    and remove_op :: "addr \<Rightarrow> 's \<Rightarrow> (addr \<times> 's) option"
  assumes insert_ok: "members s as \<Longrightarrow> valid s a \<Longrightarrow> a \<noteq> NULL \<Longrightarrow> a \<notin> set as \<Longrightarrow>
      \<exists>s'. insert_op a s = Some s' \<and> members s' (a # as) \<and> valid s' = valid s"
    and remove_ok: "members s (xs @ a # ys) \<Longrightarrow>
      \<exists>s'. remove_op a s = Some (a, s') \<and> members s' (xs @ ys) \<and> valid s' = valid s"
    and remove_absent: "members s as \<Longrightarrow> a \<notin> set as \<Longrightarrow> remove_op a s = Some (NULL, s)"
    and members_distinct: "members s as \<Longrightarrow> distinct as"
begin

lemma remove_is_remove1:
  assumes m: "members s as"
  shows "\<exists>s'. remove_op a s = Some (if a \<in> set as then a else NULL, s') \<and> members s' (remove1 a as)"
proof (cases "a \<in> set as")
  case True
  then obtain xs ys where sp: "as = xs @ a # ys" "a \<notin> set xs" using split_list_first by metis
  then have r: "remove1 a as = xs @ ys" by (simp add: remove1_append)
  then show ?thesis using True sp m remove_ok [of s xs a ys] by auto
next
  case False
  then show ?thesis using m remove_absent by (auto simp: remove1_idem)
qed

lemma insert_remove:
  assumes "members s as" and "valid s a" and "a \<noteq> NULL" and "a \<notin> set as"
  shows "\<exists>s' s''. insert_op a s = Some s' \<and> remove_op a s' = Some (a, s'') \<and> members s'' as"
proof -
  obtain s' where s': "insert_op a s = Some s'" "members s' (a # as)" using insert_ok [OF assms] by blast
  then show ?thesis using remove_ok [of s' "[]" a as] by auto
qed

lemma insert_all:
  "members s as \<Longrightarrow> \<forall>b\<in>set bs. valid s b \<and> b \<noteq> NULL \<and> b \<notin> set as \<Longrightarrow> distinct bs \<Longrightarrow>
     \<exists>s'. foldr (\<lambda>b so. Option.bind so (insert_op b)) bs (Some s) = Some s' \<and> members s' (bs @ as) \<and> valid s' = valid s"
proof (induction bs)
  case (Cons b bs)
  then obtain s1 where s1: "foldr (\<lambda>b so. Option.bind so (insert_op b)) bs (Some s) = Some s1"
     "members s1 (bs @ as)" "valid s1 = valid s" by auto
  have "\<exists>s'. insert_op b s1 = Some s' \<and> members s' (b # bs @ as) \<and> valid s' = valid s1"
    by (rule insert_ok) (use Cons.prems s1 in auto)
  then show ?case using s1 by auto
qed simp

end

end
