(* ===== verification/FileHandles.thy ===== *)
theory FileHandles
  imports LinkedList
begin

text \<open>
  The open files (src/src/fh.c): handles in a list headed by \<open>g_FH\<close>, found by their number.
  Numbers come from a counter that never goes back, so a number names at most one handle.
\<close>

definition fh_next :: "'srv global \<Rightarrow> addr \<Rightarrow> addr option" where
  "fh_next g a = map_option efh_Next (hp_efh g a)"

text \<open>\<open>a\<close> is the result of \<open>AllocVec\<close>; the counter \<open>Id\<close> is static in the function.\<close>

definition fh_Create :: "addr \<Rightarrow> addr \<Rightarrow> int \<Rightarrow> 'srv global \<Rightarrow> addr \<times> 'srv global" where
  "fh_Create a elock Mode g =
     (if a \<noteq> NULL then
        let newId = fh_LastId g + 1 in
        (a, g\<lparr>fh_LastId := newId,
              hp_efh := (hp_efh g)(a \<mapsto> \<lparr>efh_Next = NULL, efh_Id = newId, efh_FilePos = 0, efh_FileLen = 0,
                 efh_Mode = Mode, efh_ELock = elock, efh_WBuf = None, efh_RBuf = None, efh_Res2 = 0\<rparr>)\<rparr>)
      else (NULL, g))"

definition fh_Insert :: "addr \<Rightarrow> 'srv global \<Rightarrow> 'srv global option" where
  "fh_Insert a g =
     do {
       e \<leftarrow> hp_efh g a;
       Some (g\<lparr>hp_efh := (hp_efh g)(a \<mapsto> e\<lparr>efh_Next := g_FH g\<rparr>), g_FH := a\<rparr>)
     }"

definition fh_Lookup :: "int \<Rightarrow> 'srv global \<Rightarrow> addr option" where
  "fh_Lookup argId g = list_find (fh_next g) (\<lambda>a. map_option (\<lambda>e. efh_Id e = argId) (hp_efh g a)) (g_FH g)"

definition fh_Remove :: "addr \<Rightarrow> 'srv global \<Rightarrow> (addr \<times> 'srv global) option" where
  "fh_Remove arg g =
     do {
       r \<leftarrow> list_locate (fh_next g) arg NULL (g_FH g);
       (case r of
          None \<Rightarrow> Some (NULL, g)
        | Some (prev, n) \<Rightarrow>
            if prev = NULL then Some (arg, g\<lparr>g_FH := n\<rparr>)
            else do {
              e \<leftarrow> hp_efh g prev;
              Some (arg, g\<lparr>hp_efh := (hp_efh g)(prev \<mapsto> e\<lparr>efh_Next := n\<rparr>)\<rparr>)
            })
     }"

definition fh_Delete :: "addr \<Rightarrow> 'srv global \<Rightarrow> 'srv global" where
  "fh_Delete a g = (if a \<noteq> NULL then g\<lparr>hp_efh := (hp_efh g)(a := None)\<rparr> else g)"

text \<open>The callback returns 0 to stop; the next handle is read before the call.\<close>

partial_function (option) fh_each_loop ::
  "(addr \<Rightarrow> 'srv global \<Rightarrow> (int \<times> 'srv global) option) \<Rightarrow> addr \<Rightarrow> 'srv global \<Rightarrow> 'srv global option" where
  "fh_each_loop proc a g =
     (if a = NULL then Some g
      else do {
        nefh \<leftarrow> fh_next g a;
        (r, g1) \<leftarrow> proc a g;
        (if r = 0 then Some g1 else fh_each_loop proc nefh g1)
      })"

declare fh_each_loop.simps [code]

definition fh_ForEach ::
  "(addr \<Rightarrow> 'srv global \<Rightarrow> (int \<times> 'srv global) option) \<Rightarrow> 'srv global \<Rightarrow> 'srv global option" where
  "fh_ForEach proc g = fh_each_loop proc (g_FH g) g"

subsection \<open>The registry of handles\<close>

definition fh_id :: "'srv global \<Rightarrow> addr \<Rightarrow> int" where
  "fh_id g a = efh_Id (the (hp_efh g a))"

definition fh_members :: "'srv global \<Rightarrow> addr list \<Rightarrow> bool" where
  "fh_members g as \<longleftrightarrow> links (fh_next g) (g_FH g) as"

lemma fh_members_alloc: "fh_members g as \<Longrightarrow> a \<in> set as \<Longrightarrow> \<exists>e. hp_efh g a = Some e"
  unfolding fh_members_def links_def fh_next_def by auto

lemma fh_next_upd [simp]:
  "fh_next (g\<lparr>hp_efh := (hp_efh g)(a \<mapsto> e)\<rparr>) = (fh_next g)(a := Some (efh_Next e))"
  "fh_next (g\<lparr>hp_efh := (hp_efh g)(a := None)\<rparr>) = (fh_next g)(a := None)"
  "fh_next (g\<lparr>g_FH := p\<rparr>) = fh_next g" "fh_next (g\<lparr>fh_LastId := i\<rparr>) = fh_next g"
  by (auto simp: fh_next_def fun_eq_iff)

lemma fh_Insert_spec:
  assumes "fh_members g as" and "hp_efh g a = Some e" and "a \<noteq> NULL" and "a \<notin> set as"
  shows "fh_Insert a g = Some (g\<lparr>hp_efh := (hp_efh g)(a \<mapsto> e\<lparr>efh_Next := g_FH g\<rparr>), g_FH := a\<rparr>)"
    and "fh_members (g\<lparr>hp_efh := (hp_efh g)(a \<mapsto> e\<lparr>efh_Next := g_FH g\<rparr>), g_FH := a\<rparr>) (a # as)"
proof -
  show "fh_Insert a g = Some (g\<lparr>hp_efh := (hp_efh g)(a \<mapsto> e\<lparr>efh_Next := g_FH g\<rparr>), g_FH := a\<rparr>)"
    using assms(2) by (simp add: fh_Insert_def)
  have "links ((fh_next g)(a := Some (g_FH g))) (g_FH g) as"
    by (rule links_cong [of as _ "fh_next g"]) (use assms in \<open>auto simp: fh_members_def\<close>)
  then show "fh_members (g\<lparr>hp_efh := (hp_efh g)(a \<mapsto> e\<lparr>efh_Next := g_FH g\<rparr>), g_FH := a\<rparr>) (a # as)"
    using assms(3,4) by (simp add: fh_members_def links_Cons)
qed

lemma fh_Remove_spec:
  assumes "fh_members g (xs @ a # ys)"
  shows "\<exists>g'. fh_Remove a g = Some (a, g') \<and> fh_members g' (xs @ ys) \<and> fh_LastId g' = fh_LastId g \<and>
     (\<forall>c. map_option (\<lambda>e. e\<lparr>efh_Next := NULL\<rparr>) (hp_efh g' c) = map_option (\<lambda>e. e\<lparr>efh_Next := NULL\<rparr>) (hp_efh g c))"
proof -
  have l: "links (fh_next g) (g_FH g) (xs @ a # ys)" using assms by (simp add: fh_members_def)
  show ?thesis
  proof (cases "xs = []")
    case True
    then have "fh_Remove a g = Some (a, g\<lparr>g_FH := the (fh_next g a)\<rparr>)"
      using list_locate_present [OF l, of NULL] by (simp add: fh_Remove_def)
    then show ?thesis using links_unlink [OF l] True by (simp add: fh_members_def)
  next
    case False
    obtain e where e: "hp_efh g (last xs) = Some e" using fh_members_alloc [OF assms, of "last xs"] False by auto
    have "last xs \<noteq> NULL" using links_not_NULL [OF l] False by (metis Un_iff last_in_set set_append)
    then have "fh_Remove a g = Some (a, g\<lparr>hp_efh := (hp_efh g)(last xs \<mapsto> e\<lparr>efh_Next := the (fh_next g a)\<rparr>)\<rparr>)"
      using list_locate_present [OF l, of NULL] False e by (simp add: fh_Remove_def)
    then show ?thesis using links_unlink [OF l] False e by (simp add: fh_members_def)
  qed
qed

lemma fh_Remove_absent: "fh_members g as \<Longrightarrow> a \<notin> set as \<Longrightarrow> fh_Remove a g = Some (NULL, g)"
  by (simp add: fh_Remove_def fh_members_def list_locate_absent)

interpretation fhr: registry fh_members "\<lambda>g a. hp_efh g a \<noteq> None" fh_Insert fh_Remove
proof
  fix s :: "'srv global" and as a
  assume "fh_members s as" "hp_efh s a \<noteq> None" "a \<noteq> NULL" "a \<notin> set as"
  then show "\<exists>s'. fh_Insert a s = Some s' \<and> fh_members s' (a # as) \<and>
      (\<lambda>b. hp_efh s' b \<noteq> None) = (\<lambda>b. hp_efh s b \<noteq> None)"
    using fh_Insert_spec [of s as a] by (fastforce simp: fun_eq_iff)
next
  fix s :: "'srv global" and xs a ys
  assume "fh_members s (xs @ a # ys)"
  then obtain s' where s': "fh_Remove a s = Some (a, s')" "fh_members s' (xs @ ys)"
     "\<forall>c. map_option (\<lambda>e. e\<lparr>efh_Next := NULL\<rparr>) (hp_efh s' c) = map_option (\<lambda>e. e\<lparr>efh_Next := NULL\<rparr>) (hp_efh s c)"
    using fh_Remove_spec by blast
  have "(hp_efh s' c \<noteq> None) = (hp_efh s c \<noteq> None)" for c
    using s'(3) [rule_format, of c] by (cases "hp_efh s' c"; cases "hp_efh s c") auto
  then show "\<exists>s'. fh_Remove a s = Some (a, s') \<and> fh_members s' (xs @ ys) \<and>
      (\<lambda>b. hp_efh s' b \<noteq> None) = (\<lambda>b. hp_efh s b \<noteq> None)"
    using s' by (intro exI [of _ s']) (auto simp: fun_eq_iff)
next
  fix s :: "'srv global" and as a
  assume "fh_members s as"
  then show "a \<notin> set as \<Longrightarrow> fh_Remove a s = Some (NULL, s)" "distinct as"
    using fh_Remove_absent links_distinct by (auto simp: fh_members_def)
qed

subsection \<open>Handles are found by their number\<close>

text \<open>The numbers of the handles in the list differ and have been given out already.\<close>

definition fh_inv :: "'srv global \<Rightarrow> addr list \<Rightarrow> bool" where
  "fh_inv g as \<longleftrightarrow> fh_members g as \<and> distinct (map (fh_id g) as) \<and> (\<forall>a\<in>set as. fh_id g a \<le> fh_LastId g)"

lemma fh_Lookup_eq:
  assumes "fh_members g as"
  shows "fh_Lookup argId g = Some (case find (\<lambda>a. fh_id g a = argId) as of None \<Rightarrow> NULL | Some a \<Rightarrow> a)"
proof -
  have l: "links (fh_next g) (g_FH g) as" using assms by (simp add: fh_members_def)
  have "map_option (\<lambda>e. efh_Id e = argId) (hp_efh g a) = Some (fh_id g a = argId)" if "a \<in> set as" for a
    using fh_members_alloc [OF assms that] by (auto simp: fh_id_def)
  then show ?thesis unfolding fh_Lookup_def by (rule list_find_eq [OF l])
qed

lemma find_distinct_map:
  "distinct (map f as) \<Longrightarrow> a \<in> set as \<Longrightarrow> find (\<lambda>b. f b = f a) as = Some a"
  by (induction as) (auto simp: image_iff)

lemma fh_Lookup_member: "fh_inv g as \<Longrightarrow> a \<in> set as \<Longrightarrow> fh_Lookup (fh_id g a) g = Some a"
  using fh_Lookup_eq [of g as "fh_id g a"] find_distinct_map [of "fh_id g" as a] by (simp add: fh_inv_def)

lemma fh_Lookup_unknown:
  assumes "fh_inv g as" and "\<forall>a\<in>set as. fh_id g a \<noteq> argId"
  shows "fh_Lookup argId g = Some NULL"
proof -
  have "find (\<lambda>a. fh_id g a = argId) as = None" using assms(2) by (auto simp: find_None_iff)
  then show ?thesis using fh_Lookup_eq [of g as argId] assms(1) by (simp add: fh_inv_def)
qed

lemma fh_id_upd_Next:
  "hp_efh g a = Some e \<Longrightarrow> fh_id (g\<lparr>hp_efh := (hp_efh g)(a \<mapsto> e\<lparr>efh_Next := n\<rparr>), g_FH := p\<rparr>) = fh_id g"
  by (auto simp: fh_id_def fun_eq_iff)

text \<open>A state with one open file, number 3, for concrete runs.\<close>

definition one_handle :: "unit global" where
  "one_handle = (cleared_global ())\<lparr>fh_LastId := 4, g_FH := 7,
     hp_efh := [7 \<mapsto> \<lparr>efh_Next = NULL, efh_Id = 3, efh_FilePos = 0, efh_FileLen = 0, efh_Mode = MODE_OLDFILE,
                      efh_ELock = 5, efh_WBuf = None, efh_RBuf = None, efh_Res2 = 0\<rparr>]\<rparr>"

lemma one_handle_inv: "fh_inv one_handle [7]"
  by (simp add: fh_inv_def fh_members_def links_def one_handle_def fh_next_def fh_id_def)

text \<open>Opening a file: a handle that \<open>fh_Create\<close> and \<open>fh_Insert\<close> make is found under its new
  number, which no other handle has; every other handle is still found under its own number,
  and the invariant holds again.\<close>

theorem fh_open_lookup:
  assumes inv: "fh_inv g as" and a: "a \<noteq> NULL" "hp_efh g a = None"
  shows "\<exists>g1 g2. fh_Create a elock Mode g = (a, g1) \<and> fh_Insert a g1 = Some g2 \<and> fh_inv g2 (a # as) \<and>
     fh_Lookup (fh_LastId g + 1) g2 = Some a \<and>
     map_option efh_ELock (hp_efh g2 a) = Some elock \<and> map_option efh_Mode (hp_efh g2 a) = Some Mode \<and>
     (\<forall>b\<in>set as. fh_id g2 b = fh_id g b \<and> fh_Lookup (fh_id g b) g2 = Some b)"
proof -
  define newId where "newId = fh_LastId g + 1"
  define e where "e = \<lparr>efh_Next = NULL, efh_Id = newId, efh_FilePos = 0, efh_FileLen = 0,
                 efh_Mode = Mode, efh_ELock = elock, efh_WBuf = None, efh_RBuf = None, efh_Res2 = 0\<rparr>"
  define g1 where "g1 = g\<lparr>fh_LastId := newId, hp_efh := (hp_efh g)(a \<mapsto> e)\<rparr>"
  have c: "fh_Create a elock Mode g = (a, g1)" using a by (simp add: fh_Create_def Let_def g1_def e_def newId_def)
  have nin: "a \<notin> set as" using fh_members_alloc [of g as a] inv a by (auto simp: fh_inv_def)
  have "links ((fh_next g)(a := Some NULL)) (g_FH g) as"
    by (rule links_cong [of as _ "fh_next g"]) (use inv nin in \<open>auto simp: fh_inv_def fh_members_def\<close>)
  moreover have "fh_next g1 = (fh_next g)(a := Some NULL)" by (auto simp: g1_def e_def fh_next_def fun_eq_iff)
  ultimately have m1: "fh_members g1 as" by (simp add: fh_members_def) (simp add: g1_def)
  have h1: "hp_efh g1 a = Some e" by (simp add: g1_def)
  define g2 where "g2 = g1\<lparr>hp_efh := (hp_efh g1)(a \<mapsto> e\<lparr>efh_Next := g_FH g1\<rparr>), g_FH := a\<rparr>"
  have ins: "fh_Insert a g1 = Some g2" "fh_members g2 (a # as)"
    using fh_Insert_spec [OF m1 h1 a(1) nin] by (auto simp: g2_def)
  have id: "fh_id g2 = (fh_id g)(a := newId)"
    by (auto simp: g2_def g1_def fh_id_def e_def fun_eq_iff)
  have eq: "map (fh_id g2) as = map (fh_id g) as" using nin by (auto simp: id)
  have old: "distinct (map (fh_id g) as)" "\<forall>b\<in>set as. fh_id g b < newId"
    using inv by (auto simp: fh_inv_def newId_def)
  have last: "fh_LastId g2 = newId" by (simp add: g2_def g1_def)
  have fresh: "newId \<notin> fh_id g ` set as" using old(2) by auto
  have ida: "fh_id g2 a = newId" by (simp add: id)
  have "distinct (map (fh_id g2) (a # as))"
    using old(1) fresh by (simp only: list.map eq ida distinct.simps) simp
  moreover have "\<forall>b\<in>set (a # as). fh_id g2 b \<le> fh_LastId g2" using old(2) nin by (auto simp: id last)
  ultimately have inv2: "fh_inv g2 (a # as)" using ins(2) by (simp add: fh_inv_def)
  have "fh_Lookup newId g2 = Some a" using fh_Lookup_member [OF inv2, of a] by (simp add: id)
  moreover have "fh_id g2 b = fh_id g b \<and> fh_Lookup (fh_id g b) g2 = Some b" if "b \<in> set as" for b
    using fh_Lookup_member [OF inv2, of b] that nin by (auto simp: id)
  ultimately show ?thesis using c ins(1) inv2 by (auto simp: newId_def g2_def e_def)
qed

theorem fh_open_lookup_witness:
  "\<exists>g1 g2. fh_Create 9 6 MODE_NEWFILE one_handle = (9, g1) \<and> fh_Insert 9 g1 = Some g2 \<and>
     fh_Lookup 5 g2 = Some 9 \<and> fh_Lookup 3 g2 = Some 7"
proof -
  have "fh_LastId one_handle + 1 = 5" "fh_id one_handle 7 = 3" "hp_efh one_handle 9 = None"
    by (simp_all add: one_handle_def fh_id_def)
  then show ?thesis
    using fh_open_lookup [OF one_handle_inv, of 9 6 MODE_NEWFILE] by auto
qed

lemma fh_close_ok:
  assumes inv: "fh_inv g as" and True: "a \<in> set as"
  shows "\<exists>g1. fh_Remove a g = Some (a, g1) \<and> (let g2 = fh_Delete a g1 in
           fh_inv g2 (remove1 a as) \<and> hp_efh g2 a = None \<and> fh_Lookup (fh_id g a) g2 = Some NULL \<and>
           (\<forall>b\<in>set as - {a}. fh_Lookup (fh_id g b) g2 = Some b))"
proof -
  obtain xs ys where sp: "as = xs @ a # ys" "a \<notin> set xs" using True split_list_first by metis
  have mem: "fh_members g as" and dist: "distinct as" "distinct (map (fh_id g) as)"
    using inv links_distinct by (auto simp: fh_inv_def fh_members_def)
  have rem: "remove1 a as = xs @ ys" using sp by (simp add: remove1_append)
  obtain g1 where g1: "fh_Remove a g = Some (a, g1)" "fh_members g1 (xs @ ys)" "fh_LastId g1 = fh_LastId g"
     "\<forall>c. map_option (\<lambda>e. e\<lparr>efh_Next := NULL\<rparr>) (hp_efh g1 c) = map_option (\<lambda>e. e\<lparr>efh_Next := NULL\<rparr>) (hp_efh g c)"
    using fh_Remove_spec [of g xs a ys] mem sp(1) by auto
  have a0: "a \<noteq> NULL" using links_not_NULL mem True unfolding fh_members_def by metis
  define g2 where "g2 = fh_Delete a g1"
  have nin: "a \<notin> set (xs @ ys)" using dist(1) sp by auto
  have "links ((fh_next g1)(a := None)) (g_FH g1) (xs @ ys)"
    by (rule links_cong [of _ _ "fh_next g1"]) (use g1(2) nin in \<open>auto simp: fh_members_def\<close>)
  then have m2: "fh_members g2 (xs @ ys)" using a0 by (simp add: fh_members_def g2_def fh_Delete_def)
  have id: "fh_id g2 c = fh_id g c" if c: "c \<in> set (xs @ ys)" for c
  proof -
    obtain e1 where e1: "hp_efh g1 c = Some e1" using fh_members_alloc [OF g1(2) c] by blast
    obtain e where e: "hp_efh g c = Some e" using fh_members_alloc [OF mem, of c] c sp by auto
    have "e1\<lparr>efh_Next := NULL\<rparr> = e\<lparr>efh_Next := NULL\<rparr>" using g1(4) [rule_format, of c] e e1 by simp
    then have "efh_Id (e1\<lparr>efh_Next := NULL\<rparr>) = efh_Id (e\<lparr>efh_Next := NULL\<rparr>)" by simp
    then show ?thesis using e e1 nin c a0 by (auto simp: fh_id_def g2_def fh_Delete_def)
  qed
  have eq: "map (fh_id g2) (xs @ ys) = map (fh_id g) (xs @ ys)" using id by auto
  have inv2: "fh_inv g2 (xs @ ys)"
    unfolding fh_inv_def eq using m2 inv id dist(2) g1(3) a0
    by (auto simp: fh_inv_def sp g2_def fh_Delete_def)
  have "fh_id g2 c \<noteq> fh_id g a" if "c \<in> set (xs @ ys)" for c
    using dist(2) that id [OF that] unfolding sp by (auto simp: rev_image_eqI)
  then have "fh_Lookup (fh_id g a) g2 = Some NULL" using fh_Lookup_unknown [OF inv2] by blast
  moreover have "fh_Lookup (fh_id g b) g2 = Some b" if "b \<in> set as - {a}" for b
    using fh_Lookup_member [OF inv2, of b] id [of b] that sp by auto
  moreover have "hp_efh g2 a = None" using a0 by (simp add: g2_def fh_Delete_def)
  ultimately show ?thesis using True g1(1) inv2 rem unfolding g2_def [symmetric] Let_def
    by (auto simp: g2_def)
qed

text \<open>Closing a file: after \<open>fh_Remove\<close> and \<open>fh_Delete\<close> its number is unknown, its memory is
  gone, and every other handle is still found; removing a handle that is not in the list
  returns NULL and changes nothing.\<close>

theorem fh_close_lookup:
  assumes inv: "fh_inv g as"
  shows "if a \<in> set as
    then \<exists>g1. fh_Remove a g = Some (a, g1) \<and> (let g2 = fh_Delete a g1 in
           fh_inv g2 (remove1 a as) \<and> hp_efh g2 a = None \<and> fh_Lookup (fh_id g a) g2 = Some NULL \<and>
           (\<forall>b\<in>set as - {a}. fh_Lookup (fh_id g b) g2 = Some b))
    else fh_Remove a g = Some (NULL, g)"
  using fh_close_ok [OF inv, of a] fh_Remove_absent [of g as a] inv by (simp add: fh_inv_def)

theorem fh_close_lookup_witness:
  "\<exists>g1. fh_Remove 7 one_handle = Some (7, g1) \<and> fh_Lookup 3 (fh_Delete 7 g1) = Some NULL"
proof -
  have "fh_id one_handle 7 = 3" by (simp add: one_handle_def fh_id_def)
  then show ?thesis using fh_close_lookup [OF one_handle_inv, of 7] by (auto simp: Let_def)
qed

end
