(* ===== verification/FileIO.thy ===== *)
theory FileIO
  imports WBufPut RBuf FileHandles
begin

text \<open>
  The packet handlers for reading, writing and seeking in an open file (src/src/read.c,
  write.c, seek.c). A handler looks the file handle up, works on it and stores it back. The
  theory proves that the two caches together are transparent: what \<open>ACTION_READ\<close> returns is
  what the file contains as the client has written it, whether or not it has reached the
  server yet.
\<close>

subsection \<open>The handlers\<close>

definition put_efh :: "addr \<Rightarrow> efh \<Rightarrow> 'srv global \<Rightarrow> 'srv global" where
  "put_efh p e g = g\<lparr>hp_efh := (hp_efh g)(p \<mapsto> e)\<rparr>"

definition mode_readable :: "int \<Rightarrow> bool" where
  "mode_readable m \<longleftrightarrow> m = MODE_OLDFILE \<or> m = MODE_READWRITE"

text \<open>The flush before reading: \<open>Num\<close> becomes -1 when it fails.\<close>

definition read_flush ::
  "'srv rpc_ops \<Rightarrow> int \<Rightarrow> 'srv global \<Rightarrow> efh \<Rightarrow> (int \<times> int \<times> 'srv global \<times> efh) option" where
  "read_flush rpc Num g e =
     (if HasBufferedWData e then
        map_option (\<lambda>(r, g1, e1). case r of Inl res2 \<Rightarrow> (-1, res2, g1, e1) | Inr _ \<Rightarrow> (Num, g_Res2 g, g1, e1))
          (wc_FlushCache rpc g e)
      else Some (Num, g_Res2 g, g, e))"

text \<open>The result is \<open>Res1\<close>, the bytes stored at the client's address, and the new state.\<close>

definition act_READ ::
  "'srv rpc_ops \<Rightarrow> int \<Rightarrow> int \<Rightarrow> 'srv global \<Rightarrow> (int \<times> u8 list \<times> 'srv global) option" where
  "act_READ rpc Arg1 Num g =
     do {
       p \<leftarrow> fh_Lookup Arg1 g;
       (if p = NULL then (let (r, g') = SetRes DOSFALSE ERROR_FILE_NOT_OBJECT g in Some (r, [], g'))
        else do {
          e \<leftarrow> hp_efh g p;
          (if efh_Res2 e \<noteq> 0 then
             let (r, g') = SetRes DOSFALSE (efh_Res2 e) (put_efh p (e\<lparr>efh_Res2 := 0\<rparr>) g) in Some (r, [], g')
           else if \<not> mode_readable (efh_Mode e) then
             let (r, g') = SetRes DOSFALSE ERROR_FILE_NOT_OBJECT g in Some (r, [], g')
           else do {
             (Num1, Res2, g1, e1) \<leftarrow> read_flush rpc Num g e;
             (Num2, bytes, Res2', g2, e2) \<leftarrow>
               (if Num1 > 0 then
                  if efh_FileLen e1 \<noteq> 0 \<and> efh_FileLen e1 = efh_FilePos e1 then Some (0, [], Res2, g1, e1)
                  else map_option (\<lambda>(r, g', e'). case r of Inl res2 \<Rightarrow> (-1, [], res2, g', e')
                                     | Inr bs \<Rightarrow> (int (length bs), bs, Res2, g', e'))
                         (rb_ReadBuf rpc g1 e1 Num1)
                else Some (Num1, [], Res2, g1, e1));
             let (r, g') = (if Num2 \<ge> 0 then SetRes Num2 0 (put_efh p e2 g2) else SetRes (-1) Res2' (put_efh p e2 g2));
             Some (r, bytes, g')
           })
        })
     }"

text \<open>\<open>Buf\<close> stands for the client's memory from the given address on.\<close>

definition act_WRITE ::
  "'srv rpc_ops \<Rightarrow> int \<Rightarrow> u8 list \<Rightarrow> int \<Rightarrow> 'srv global \<Rightarrow> (int \<times> 'srv global) option" where
  "act_WRITE rpc Arg1 Buf argNum g =
     do {
       let Num = max argNum 0;
       p \<leftarrow> fh_Lookup Arg1 g;
       (if p = NULL then Some (SetRes DOSFALSE ERROR_FILE_NOT_OBJECT g)
        else do {
          e \<leftarrow> hp_efh g p;
          (if efh_Res2 e \<noteq> 0 then
             Some (SetRes DOSFALSE (efh_Res2 e) (put_efh p (e\<lparr>efh_Res2 := 0\<rparr>) g))
           else if \<not> (mode_readable (efh_Mode e) \<or> efh_Mode e = MODE_NEWFILE) then
             Some (SetRes DOSFALSE ERROR_FILE_NOT_OBJECT g)
           else do {
             (g1, e1) \<leftarrow> (if HasBufferedRData e then rb_ReleaseRBufData g e else Some (g, e));
             (if Num > 0 then
                do {
                  (r, g2, e2) \<leftarrow> wc_WriteCache rpc g1 e1 (take (nat Num) Buf);
                  Some (case r of
                     Inl res2 \<Rightarrow> SetRes (-1) res2 (put_efh p e2 g2)
                   | Inr n \<Rightarrow> SetRes n 0 (put_efh p (e2\<lparr>efh_FilePos := efh_FilePos e2 + n\<rparr>) g2))
                }
              else if HasBufferedWData e1 then
                do {
                  (r, g2, e2) \<leftarrow> wc_FlushCache rpc g1 e1;
                  Some (case r of
                     Inl res2 \<Rightarrow> SetRes (-1) res2 (put_efh p e2 g2)
                   | Inr _ \<Rightarrow> SetRes Num 0 (put_efh p e2 g2))
                }
              else Some (SetRes Num 0 (put_efh p e1 g1)))
           })
        })
     }"

definition act_SEEK :: "int \<Rightarrow> int \<Rightarrow> int \<Rightarrow> 'srv global \<Rightarrow> (int \<times> 'srv global) option" where
  "act_SEEK Arg1 argNewPos Mode g =
     do {
       p \<leftarrow> fh_Lookup Arg1 g;
       (if p = NULL then Some (SetRes DOSFALSE ERROR_FILE_NOT_OBJECT g)
        else do {
          e \<leftarrow> hp_efh g p;
          let OldPos = efh_FilePos e;
          let NewPos = (if Mode = OFFSET_CURRENT then OldPos + argNewPos
                        else if Mode = OFFSET_BEGINNING then argNewPos
                        else if Mode = OFFSET_END then efh_FileLen e + argNewPos
                        else -1);
          Some (if 0 \<le> NewPos \<and> NewPos \<le> efh_FileLen e
                then SetRes OldPos 0 (put_efh p (e\<lparr>efh_FilePos := NewPos\<rparr>) g)
                else SetRes DOSFALSE ERROR_SEEK_ERROR g)
        })
     }"

subsection \<open>Seeking\<close>

text \<open>C35. Seeking, for every number in the packet and every mode. A number that belongs to no open file
  reports \<open>ERROR_FILE_NOT_OBJECT\<close> and changes nothing but the results. With the number of an open
  file whose position is inside it, the position stays in the range from 0 to the file length:
  a seek whose target is inside returns the old position and moves there, any other seek (also one with
  an unknown mode) reports \<open>ERROR_SEEK_ERROR\<close> and moves nothing; no other handle changes.\<close>

theorem act_SEEK_spec:
  assumes inv: "fh_inv g as"
  shows "(Arg1 \<notin> fh_id g ` set as \<longrightarrow>
       act_SEEK Arg1 off Mode g = Some (DOSFALSE, g\<lparr>g_Res1 := DOSFALSE, g_Res2 := ERROR_FILE_NOT_OBJECT\<rparr>)) \<and>
    (\<forall>p\<in>set as. \<forall>e. Arg1 = fh_id g p \<and> hp_efh g p = Some e \<and> 0 \<le> efh_FilePos e \<and> efh_FilePos e \<le> efh_FileLen e \<longrightarrow>
     (\<exists>r g' e'. act_SEEK Arg1 off Mode g = Some (r, g') \<and> hp_efh g' = (hp_efh g)(p \<mapsto> e') \<and>
      0 \<le> efh_FilePos e' \<and> efh_FilePos e' \<le> efh_FileLen e' \<and> efh_FileLen e' = efh_FileLen e \<and>
      (let target = (if Mode = OFFSET_CURRENT then efh_FilePos e + off else if Mode = OFFSET_BEGINNING then off
                     else if Mode = OFFSET_END then efh_FileLen e + off else -1)
       in if 0 \<le> target \<and> target \<le> efh_FileLen e
          then r = efh_FilePos e \<and> g_Res2 g' = 0 \<and> e' = e\<lparr>efh_FilePos := target\<rparr>
          else r = DOSFALSE \<and> g_Res2 g' = ERROR_SEEK_ERROR \<and> e' = e)))"
proof (intro conjI impI ballI allI, goal_cases)
  case 1
  then have "fh_Lookup Arg1 g = Some NULL" by (intro fh_Lookup_unknown [OF inv]) auto
  then show ?case by (simp add: act_SEEK_def SetRes_def)
next
  case (2 p e)
  then have p: "p \<in> set as" and a: "Arg1 = fh_id g p" and e: "hp_efh g p = Some e"
    and len: "0 \<le> efh_FilePos e" "efh_FilePos e \<le> efh_FileLen e" by auto
  have l: "fh_Lookup (fh_id g p) g = Some p" by (rule fh_Lookup_member [OF inv p])
  have nz: "p \<noteq> NULL" using inv p links_not_NULL unfolding fh_inv_def fh_members_def by metis
  define target where "target = (if Mode = OFFSET_CURRENT then efh_FilePos e + off else if Mode = OFFSET_BEGINNING then off
                   else if Mode = OFFSET_END then efh_FileLen e + off else -1)"
  have run: "act_SEEK Arg1 off Mode g =
      Some (if 0 \<le> target \<and> target \<le> efh_FileLen e
            then SetRes (efh_FilePos e) 0 (put_efh p (e\<lparr>efh_FilePos := target\<rparr>) g)
            else SetRes DOSFALSE ERROR_SEEK_ERROR g)"
    using l nz e by (simp add: act_SEEK_def Let_def target_def a)
  have same: "hp_efh g = (hp_efh g)(p \<mapsto> e)" using e by (simp add: fun_upd_idem)
  show ?case
  proof (cases "0 \<le> target \<and> target \<le> efh_FileLen e")
    case True
    then show ?thesis using run unfolding target_def [symmetric] by (simp add: SetRes_def put_efh_def Let_def)
  next
    case False
    then show ?thesis using run len same unfolding target_def [symmetric]
      by (intro exI [of _ DOSFALSE] exI [of _ "snd (SetRes DOSFALSE ERROR_SEEK_ERROR g)"] exI [of _ e]) (auto simp: SetRes_def Let_def)
  qed
qed

theorem act_SEEK_spec_witness:
  "(\<exists>r g'. act_SEEK 3 1 OFFSET_BEGINNING one_handle = Some (r, g') \<and> r = DOSFALSE \<and> g_Res2 g' = ERROR_SEEK_ERROR) \<and>
   (\<exists>g'. act_SEEK 4 1 OFFSET_BEGINNING one_handle = Some (DOSFALSE, g') \<and> g_Res2 g' = ERROR_FILE_NOT_OBJECT)"
proof -
  have h: "fh_id one_handle 7 = 3" "hp_efh one_handle 7 = Some \<lparr>efh_Next = NULL, efh_Id = 3, efh_FilePos = 0,
      efh_FileLen = 0, efh_Mode = MODE_OLDFILE, efh_ELock = 5, efh_WBuf = None, efh_RBuf = None, efh_Res2 = 0\<rparr>"
    by (simp_all add: one_handle_def fh_id_def)
  note * = act_SEEK_spec [OF one_handle_inv, of _ 1 OFFSET_BEGINNING]
  have "\<exists>r g'. act_SEEK 3 1 OFFSET_BEGINNING one_handle = Some (r, g') \<and> r = DOSFALSE \<and> g_Res2 g' = ERROR_SEEK_ERROR"
    using *[of 3] h by (auto simp: Let_def)
  moreover have "\<exists>g'. act_SEEK 4 1 OFFSET_BEGINNING one_handle = Some (DOSFALSE, g') \<and> g_Res2 g' = ERROR_FILE_NOT_OBJECT"
    using *[of 4, THEN conjunct1, THEN mp] h(1) by auto
  ultimately show ?thesis ..
qed

subsection \<open>Both caches together\<close>

text \<open>An open file: the write cache with its dirty blocks \<open>as\<close>, the read buffer, and never dirty
  blocks and a read buffer at once.\<close>

definition file_ok ::
  "('srv \<Rightarrow> nfs_fh \<Rightarrow> int \<Rightarrow> u8) \<Rightarrow> 'srv global \<Rightarrow> efh \<Rightarrow> nfs_fh \<Rightarrow> addr list \<Rightarrow> addr list \<Rightarrow> addr list \<Rightarrow> addr list \<Rightarrow> bool" where
  "file_ok content g e f as os fs rbs \<longleftrightarrow>
     wfile g e f as os fs (rheld e @ rbs) \<and> caps g as \<and> rb_ok content g e f \<and> (as \<noteq> [] \<longrightarrow> rheld e = [])"

lemma mb_inv_perm: "mb_inv g xs \<Longrightarrow> mset xs = mset ys \<Longrightarrow> mb_inv g ys"
proof -
  assume i: "mb_inv g xs" and m: "mset xs = mset ys"
  have "distinct ys = distinct xs" "set ys = set xs" "length ys = length xs"
    using mset_eq_imp_distinct_iff [OF m] mset_eq_setD [OF m] mset_eq_length [OF m] by auto
  then show ?thesis using i by (auto simp: mb_inv_def)
qed

text \<open>The caches do not depend on the handle list or the result fields.\<close>

definition cache_same :: "'srv global \<Rightarrow> 'srv global \<Rightarrow> bool" where
  "cache_same g g' \<longleftrightarrow> hp_wbh g' = hp_wbh g \<and> mb_data g' = mb_data g \<and> g_srv g' = g_srv g \<and>
     g_FreeWBufHdr g' = g_FreeWBufHdr g \<and> g_NumFreeWBufHdrs g' = g_NumFreeWBufHdrs g \<and>
     g_NumWBufHdrs g' = g_NumWBufHdrs g \<and> g_FreeMBufs g' = g_FreeMBufs g \<and>
     g_NumFreeMBufs g' = g_NumFreeMBufs g \<and> g_NumMBufs g' = g_NumMBufs g \<and> hp_elock g' = hp_elock g"

lemma cache_same_put: "cache_same g (snd (SetRes r1 r2 (put_efh p e g)))"
  by (simp add: cache_same_def SetRes_def put_efh_def)

lemma cache_same_hdr: "cache_same g g' \<Longrightarrow> hdr_at g' = hdr_at g \<and> nxt g' = nxt g"
  by (auto simp: cache_same_def hdr_at_def nxt_def fun_eq_iff)

lemma file_ok_cong:
  assumes "cache_same g g'" and "file_ok content g e f as os fs rbs"
  shows "file_ok content g' e f as os fs rbs"
proof -
  have h: "hdr_at g' = hdr_at g" "nxt g' = nxt g" using cache_same_hdr [OF assms(1)] by auto
  have "wpool g' (as @ os) fs (rheld e @ rbs)"
    using assms h by (simp add: file_ok_def wfile_def wpool_def mb_inv_def cache_same_def)
  moreover have "cluster g' w as = cluster g w as" for w by (simp add: cluster_def h)
  moreover have "rb_ok content g' e f = rb_ok content g e f"
    using assms(1) by (simp add: rb_ok_def cache_same_def split: option.split)
  ultimately show ?thesis
    using assms h by (simp add: file_ok_def wfile_def caps_def efh_fh_def cache_same_def split: option.splits)
qed

lemma seen_cong: "cache_same g g' \<Longrightarrow> seen content f g' as = seen content f g as"
  using cache_same_hdr [of g g'] wview_cong [of as g' g] by (simp add: seen_def cache_same_def)

lemma rd_same_hdr:
  assumes "rd_same g g'"
  shows "hdr_at g' = hdr_at g" "nxt g' = nxt g" "hp_wbh g' = hp_wbh g" "hp_efh g' = hp_efh g"
    "g_FreeWBufHdr g' = g_FreeWBufHdr g" "g_NumFreeWBufHdrs g' = g_NumFreeWBufHdrs g" "g_NumWBufHdrs g' = g_NumWBufHdrs g"
    "g_NFSGlobal g' = g_NFSGlobal g" "g_Res2 g' = g_Res2 g"
  using assms by (auto simp: rd_same_def hdr_at_def nxt_def fun_eq_iff)

lemma wpool_rd_same:
  assumes "wpool g used fs rbs" and "rd_same g g'" and "mb_inv g' (rbs' @ map (hdata g) used)"
  shows "wpool g' used fs rbs'"
proof -
  have "mb_inv g' (map (hdata g) used @ rbs')" by (rule mb_inv_perm [OF assms(3)]) simp
  then show ?thesis using assms(1) rd_same_hdr [OF assms(2)] by (simp add: wpool_def)
qed

lemma cluster_rd_same: "rd_same g g' \<Longrightarrow> cluster g' w as = cluster g w as"
  by (simp add: cluster_def rd_same_hdr)

text \<open>Releasing the read buffer keeps everything else.\<close>

lemma release_read_ok:
  assumes ok: "file_ok content g e f as os fs rbs"
  shows "\<exists>g1 e1. (if HasBufferedRData e then rb_ReleaseRBufData g e else Some (g, e)) = Some (g1, e1) \<and>
     file_ok content g1 e1 f as os fs rbs \<and> rheld e1 = [] \<and> seen content f g1 as = seen content f g as \<and> rd_same g g1 \<and>
     (\<exists>r. e1 = e\<lparr>efh_RBuf := r\<rparr>)"
proof (cases "HasBufferedRData e")
  case False
  then have "rheld e = []" by (auto simp: HasBufferedRData_def rheld_def split: option.splits)
  moreover have "\<exists>r. e = e\<lparr>efh_RBuf := r\<rparr>" by (rule exI [of _ "efh_RBuf e"]) simp
  ultimately show ?thesis using ok False
    by (intro exI [of _ g] exI [of _ e]) simp
next
  case True
  then obtain rbh where r: "efh_RBuf e = Some rbh" "rbh_Data rbh \<noteq> NULL"
    by (auto simp: HasBufferedRData_def split: option.splits)
  have p: "wpool g (as @ os) fs (rheld e @ rbs)" using ok by (simp add: file_ok_def wfile_def)
  have "mb_inv g (map (hdata g) (as @ os) @ (rheld e @ rbs))" using wpool_free [OF p] by simp
  then have inv: "mb_inv g (rheld e @ (rbs @ map (hdata g) (as @ os)))" by (rule mb_inv_perm) simp
  let ?e = "e\<lparr>efh_RBuf := Some (rbh\<lparr>rbh_Data := NULL\<rparr>)\<rparr>"
  obtain g' where g': "rb_ReleaseRBufData g e = Some (g', ?e)" "mb_inv g' (rbs @ map (hdata g) (as @ os))"
     "rd_same g g'" "mb_data g' = mb_data g" "g_srv g' = g_srv g"
    using rb_Release_spec [OF inv r(1)] by blast
  have "wpool g' (as @ os) fs rbs" by (rule wpool_rd_same [OF p g'(3,2)])
  then have "file_ok content g' ?e f as os fs rbs"
    using ok g'(3) rd_same_fh [OF g'(3), of e] cluster_rd_same [OF g'(3)] rd_same_hdr [OF g'(3)]
    by (auto simp: file_ok_def wfile_def rheld_def rb_ok_def caps_def efh_fh_def split: option.splits)
  moreover have "seen content f g' as = seen content f g as"
    using rd_same_hdr [OF g'(3)] g'(4,5) wview_cong [of as g' g] by (auto simp: seen_def)
  ultimately show ?thesis using True g' by (auto simp: rheld_def)
qed

lemma efh_same_RBuf: "efh_same e e' \<Longrightarrow> rheld e' = rheld e \<and> efh_RBuf e' = efh_RBuf e"
  by (simp add: rheld_def efh_same_fields)

lemma read_flush_ok:
  assumes srv: "wserver_ok rpc content (g_NFSGlobal g)" and ok: "file_ok content g e f as os fs rbs"
  shows "\<exists>n r2 g1 e1 fs1. read_flush rpc Num g e = Some (n, r2, g1, e1) \<and> file_ok content g1 e1 f [] os fs1 rbs \<and>
     wconf_same g g1 \<and> efh_same e e1 \<and> (n = -1 \<or> n = Num \<and> r2 = g_Res2 g \<and> content (g_srv g1) = seen content f g as)"
proof (cases "HasBufferedWData e")
  case False
  have wf: "wfile g e f as os fs (rheld e @ rbs)" using ok by (simp add: file_ok_def)
  then have "as = []" using not_HasBufferedWData [OF wf] False by simp
  then show ?thesis using ok False by (auto simp: read_flush_def wconf_same_def)
next
  case True
  have wf: "wfile g e f as os fs (rheld e @ rbs)" using ok by (simp add: file_ok_def)
  have "as \<noteq> []" using not_HasBufferedWData [OF wf] True by blast
  then have held: "rheld e = []" using ok by (simp add: file_ok_def)
  obtain r g' e' where fl: "iwc_FlushCache rpc False g e = Some (r, g', e')" "wfile g' e' f [] os (rev as @ fs) (rheld e @ rbs)"
     "wframe os (rheld e @ rbs) g g'" "efh_same e e'" "r = Inr () \<longrightarrow> content (g_srv g') = seen content f g as"
    using iwc_FlushCache_spec [OF srv wf, of False] by blast
  have rb: "rb_ok content g' e' f"
    using ok held efh_same_RBuf [OF fl(4)] by (auto simp: file_ok_def rb_ok_def rheld_def split: option.splits if_splits)
  have ok': "file_ok content g' e' f [] os (rev as @ fs) rbs"
    using fl(2) rb held efh_same_RBuf [OF fl(4)] by (simp add: file_ok_def)
  have "wconf_same g g'" using fl(3) by (simp add: wframe_def)
  then show ?thesis using fl ok' True
    by (cases r) (auto simp: read_flush_def wc_FlushCache_def)
qed

lemma rb_Read_ok:
  assumes srv: "read_server rpc content" and ok: "file_ok content g e f [] os fs rbs" and us: "rb_usable e Num"
    and pos: "0 \<le> efh_FilePos e" "0 < Num" "efh_FilePos e + Num + MBUFSIZE \<le> 2 ^ 31"
  shows "\<exists>r g' e'. rb_ReadBuf rpc g e Num = Some (r, g', e') \<and> file_ok content g' e' f [] os fs rbs \<and>
     content (g_srv g') = content (g_srv g) \<and> rd_same g g' \<and> rd_efh e e' \<and>
     (case r of Inl _ \<Rightarrow> efh_FilePos e' = efh_FilePos e
      | Inr bs \<Rightarrow> int (length bs) \<le> Num \<and> efh_FilePos e' = efh_FilePos e + int (length bs) \<and>
          (\<forall>k < length bs. bs ! k = content (g_srv g) f (efh_FilePos e + int k)))"
proof -
  have p: "wpool g os fs (rheld e @ rbs)" and f: "efh_fh g e = Some f" and rb: "rb_ok content g e f"
    using ok by (auto simp: file_ok_def wfile_def)
  have "mb_inv g (map (hdata g) os @ (rheld e @ rbs))" using wpool_free [OF p] by simp
  then have inv: "mb_inv g (rheld e @ (rbs @ map (hdata g) os))" by (rule mb_inv_perm) simp
  obtain r g' e' where *: "rb_ReadBuf rpc g e Num = Some (r, g', e')" "mb_inv g' (rheld e' @ (rbs @ map (hdata g) os))"
     "rb_ok content g' e' f" "content (g_srv g') = content (g_srv g)" "rd_same g g'"
     "case r of Inl _ \<Rightarrow> efh_FilePos e' = efh_FilePos e \<and> rheld e' = []
      | Inr bs \<Rightarrow> int (length bs) \<le> Num \<and> efh_FilePos e' = efh_FilePos e + int (length bs) \<and>
          (\<forall>k < length bs. bs ! k = content (g_srv g) f (efh_FilePos e + int k))"
    using rb_ReadBuf_spec [OF srv inv f rb us pos] by blast
  have rd: "rd_efh e e'" by (rule rb_ReadBuf_same [OF *(1)])
  then have same: "efh_ELock e' = efh_ELock e" "efh_WBuf e' = efh_WBuf e" by (simp_all add: rd_efh_def)
  have "wpool g' os fs (rheld e' @ rbs)" by (rule wpool_rd_same [OF p *(5)]) (use *(2) in simp)
  moreover have "efh_fh g' e' = Some f" using f rd_same_fh [OF *(5), of e'] same by (simp add: efh_fh_def)
  ultimately have "file_ok content g' e' f [] os fs rbs"
    using ok *(3) same cluster_rd_same [OF *(5)] by (auto simp: file_ok_def wfile_def split: option.splits)
  then show ?thesis using * rd by (cases r) auto
qed

text \<open>The handles in the list of open files.\<close>

definition handles_same :: "'srv global \<Rightarrow> 'srv global \<Rightarrow> bool" where
  "handles_same g g' \<longleftrightarrow> hp_efh g' = hp_efh g \<and> g_FH g' = g_FH g \<and> fh_LastId g' = fh_LastId g"

lemma handles_same_trans: "handles_same g g' \<Longrightarrow> handles_same g' g'' \<Longrightarrow> handles_same g g''"
  by (simp add: handles_same_def)

lemma handles_same_rd: "rd_same g g' \<Longrightarrow> handles_same g g'"
  and handles_same_wconf: "wconf_same g g' \<Longrightarrow> handles_same g g'"
  by (auto simp: handles_same_def rd_same_def wconf_same_def)

lemma fh_inv_put:
  assumes inv: "fh_inv g hs" and p: "p \<in> set hs" "hp_efh g p = Some e" and same: "handles_same g g'"
    and e': "efh_Next e' = efh_Next e" "efh_Id e' = efh_Id e"
  shows "fh_inv (snd (SetRes r1 r2 (put_efh p e' g'))) hs"
proof -
  let ?g = "snd (SetRes r1 r2 (put_efh p e' g'))"
  have "fh_next ?g = fh_next g" "fh_id ?g = fh_id g" "g_FH ?g = g_FH g" "fh_LastId ?g = fh_LastId g"
    using p(2) same e' by (auto simp: fh_next_def fh_id_def fun_eq_iff SetRes_def put_efh_def handles_same_def)
  then show ?thesis using inv by (simp add: fh_inv_def fh_members_def)
qed

lemma put_efh_at [simp]: "hp_efh (snd (SetRes r1 r2 (put_efh p e g))) p = Some e"
  by (simp add: SetRes_def put_efh_def)

lemma g_srv_put [simp]: "g_srv (snd (SetRes r1 r2 (put_efh p e g))) = g_srv g"
  by (simp add: SetRes_def put_efh_def)

text \<open>An open file reached through its number in the packet.\<close>

definition open_file ::
  "('srv \<Rightarrow> nfs_fh \<Rightarrow> int \<Rightarrow> u8) \<Rightarrow> 'srv global \<Rightarrow> addr list \<Rightarrow> addr \<Rightarrow> efh \<Rightarrow> nfs_fh \<Rightarrow> addr list \<Rightarrow> addr list \<Rightarrow> addr list \<Rightarrow> addr list \<Rightarrow> bool" where
  "open_file content g hs p e f as os fs rbs \<longleftrightarrow>
     fh_inv g hs \<and> p \<in> set hs \<and> hp_efh g p = Some e \<and> file_ok content g e f as os fs rbs"

lemma open_file_Lookup:
  "open_file content g hs p e f as os fs rbs \<Longrightarrow> fh_Lookup (fh_id g p) g = Some p \<and> p \<noteq> NULL"
  using fh_Lookup_member [of g hs p] links_not_NULL [of "fh_next g" "g_FH g" hs]
  unfolding open_file_def fh_inv_def fh_members_def by metis

lemma open_file_put:
  assumes "open_file content g hs p e f as os fs rbs" and "handles_same g g'"
    and "efh_Next e' = efh_Next e" "efh_Id e' = efh_Id e" and "file_ok content g' e' f as' os' fs' rbs'"
  shows "open_file content (snd (SetRes r1 r2 (put_efh p e' g'))) hs p e' f as' os' fs' rbs'"
  using assms fh_inv_put [of g hs p e g' e'] file_ok_cong [OF cache_same_put assms(5)]
  by (simp add: open_file_def)

lemma read_flush_kept:
  "efh_same e e' \<Longrightarrow> efh_Next e' = efh_Next e \<and> efh_Id e' = efh_Id e \<and> efh_FilePos e' = efh_FilePos e \<and>
     efh_FileLen e' = efh_FileLen e"
  by (simp add: efh_same_fields)

subsection \<open>Reading an open file\<close>

text \<open>C1. Reading through both caches. The conditions: RPC is synchronous (at most one write call
  outstanding, no \<open>ASYNCRPC\<close>), READ and WRITE do what RFC 1094 says; the handle is in the list, readable
  and has no error of an earlier write pending, its caches are well-formed; it has a read buffer, unless
  the read is longer than \<open>RBUFFERLIMIT\<close> or starts at position 0 (the handle of a file opened when memory
  was short has none, and then a small read follows a null pointer, see C4);
  \<open>0 < Num\<close> and \<open>position + Num + MBUFSIZE \<le> 2 ^ 31\<close>. Then \<open>ACTION_READ\<close> returns the bytes of the file at
  the file position as the client has written them, also when they are still dirty in the write cache
  or are answered from the read buffer, never more than asked for, and advances the position
  by their number. On a failure it returns -1 and leaves the position. Afterwards nothing of
  the file is dirty and the list of open files, its lookup and both pools are intact.\<close>

theorem act_READ_coherent:
  assumes srv: "wserver_ok rpc content (g_NFSGlobal g)" "read_server rpc content"
    and op: "open_file content g hs p e f as os fs rbs" and ready: "efh_Res2 e = 0" "mode_readable (efh_Mode e)"
    and buffer: "efh_RBuf e \<noteq> None \<or> RBUFFERLIMIT < Num \<or> efh_FilePos e = 0"
    and pos: "0 \<le> efh_FilePos e" "0 < Num" "efh_FilePos e + Num + MBUFSIZE \<le> 2 ^ 31"
  shows "\<exists>r bytes g' e' fs'. act_READ rpc (fh_id g p) Num g = Some (r, bytes, g') \<and>
     open_file content g' hs p e' f [] os fs' rbs \<and>
     (r = -1 \<and> bytes = [] \<and> efh_FilePos e' = efh_FilePos e \<or>
      r = int (length bytes) \<and> r \<le> Num \<and> efh_FilePos e' = efh_FilePos e + r \<and>
      content (g_srv g') = seen content f g as \<and>
      (\<forall>k < length bytes. bytes ! k = seen content f g as f (efh_FilePos e + int k)))"
proof -
  have l: "fh_Lookup (fh_id g p) g = Some p" "p \<noteq> NULL" using open_file_Lookup [OF op] by auto
  have e: "hp_efh g p = Some e" and ok: "file_ok content g e f as os fs rbs" using op by (auto simp: open_file_def)
  obtain n r2 g1 e1 fs1 where fl: "read_flush rpc Num g e = Some (n, r2, g1, e1)"
     "file_ok content g1 e1 f [] os fs1 rbs" "wconf_same g g1" "efh_same e e1"
     "n = -1 \<or> n = Num \<and> r2 = g_Res2 g \<and> content (g_srv g1) = seen content f g as"
    using read_flush_ok [OF srv(1) ok, of Num] by blast
  note same = read_flush_kept [OF fl(4)] and hs1 = handles_same_wconf [OF fl(3)]
  note put = open_file_put [OF op]
  show ?thesis
  proof (cases "n = -1")
    case True
    have "act_READ rpc (fh_id g p) Num g = Some (-1, [], snd (SetRes (-1) r2 (put_efh p e1 g1)))"
      using l e ready fl(1) True by (simp add: act_READ_def SetRes_def)
    moreover have "open_file content (snd (SetRes (-1) r2 (put_efh p e1 g1))) hs p e1 f [] os fs1 rbs"
      by (rule put [OF hs1 _ _ fl(2)]) (use same in auto)
    ultimately show ?thesis using same by blast
  next
    case False
    then have n: "n = Num" "content (g_srv g1) = seen content f g as" using fl(5) by auto
    show ?thesis
    proof (cases "efh_FileLen e1 \<noteq> 0 \<and> efh_FileLen e1 = efh_FilePos e1")
      case True
      have "act_READ rpc (fh_id g p) Num g = Some (0, [], snd (SetRes 0 0 (put_efh p e1 g1)))"
        using l e ready fl(1) n True pos by (simp add: act_READ_def SetRes_def)
      moreover have "open_file content (snd (SetRes 0 0 (put_efh p e1 g1))) hs p e1 f [] os fs1 rbs"
        by (rule put [OF hs1 _ _ fl(2)]) (use same in auto)
      moreover have "efh_FilePos e1 = efh_FilePos e + 0" "content (g_srv (snd (SetRes 0 0 (put_efh p e1 g1)))) = seen content f g as"
        using same n by auto
      ultimately show ?thesis using pos(2)
        by (intro exI [of _ 0] exI [of _ "[]"] exI [of _ "snd (SetRes 0 0 (put_efh p e1 g1))"] exI [of _ e1] exI [of _ fs1]) simp
    next
      case False
      have pos1: "0 \<le> efh_FilePos e1" "efh_FilePos e1 + Num + MBUFSIZE \<le> 2 ^ 31" using pos same by auto
      have us1: "rb_usable e1 Num" using buffer same efh_same_RBuf [OF fl(4)] by (simp add: rb_usable_def)
      obtain r g2 e2 where rd: "rb_ReadBuf rpc g1 e1 Num = Some (r, g2, e2)" "file_ok content g2 e2 f [] os fs1 rbs"
         "content (g_srv g2) = content (g_srv g1)" "rd_same g1 g2" "rd_efh e1 e2"
         "case r of Inl _ \<Rightarrow> efh_FilePos e2 = efh_FilePos e1
          | Inr bs \<Rightarrow> int (length bs) \<le> Num \<and> efh_FilePos e2 = efh_FilePos e1 + int (length bs) \<and>
              (\<forall>k < length bs. bs ! k = content (g_srv g1) f (efh_FilePos e1 + int k))"
        using rb_Read_ok [OF srv(2) fl(2) us1 pos1(1) pos(2) pos1(2)] by blast
      define bytes where "bytes = (case r of Inl _ \<Rightarrow> [] | Inr bs \<Rightarrow> bs)"
      define r1 where "r1 = (case r of Inl _ \<Rightarrow> -1 | Inr bs \<Rightarrow> int (length bs))"
      define r3 where "r3 = (case r of Inl res2 \<Rightarrow> res2 | Inr _ \<Rightarrow> 0)"
      let ?g = "snd (SetRes r1 r3 (put_efh p e2 g2))"
      have "act_READ rpc (fh_id g p) Num g = Some (r1, bytes, ?g)"
        using l e ready fl(1) n False pos rd(1)
        by (cases r) (auto simp: act_READ_def SetRes_def bytes_def r1_def r3_def)
      moreover have "open_file content ?g hs p e2 f [] os fs1 rbs"
        by (rule put [OF handles_same_trans [OF hs1 handles_same_rd [OF rd(4)]] _ _ rd(2)])
          (use same rd(5) in \<open>auto simp: rd_efh_def\<close>)
      moreover have "r1 = -1 \<and> bytes = [] \<and> efh_FilePos e2 = efh_FilePos e \<or>
          r1 = int (length bytes) \<and> r1 \<le> Num \<and> efh_FilePos e2 = efh_FilePos e + r1 \<and>
          content (g_srv ?g) = seen content f g as \<and>
          (\<forall>k < length bytes. bytes ! k = seen content f g as f (efh_FilePos e + int k))"
        using rd(3,6) n(2) same by (cases r) (simp_all add: bytes_def r1_def)
      ultimately show ?thesis by blast
    qed
  qed
qed

subsection \<open>Writing to an open file\<close>

text \<open>C2. Writing through the cache. The conditions: RPC is synchronous (at most one write call outstanding,
  no \<open>ASYNCRPC\<close>) and WRITE does what RFC 1094 says; the handle is in the list, writable
  and has no error of an earlier write pending, its caches are well-formed; \<open>0 < Num\<close> and \<open>position + Num \<le> 2 ^ 31\<close>;
  and the run of bytes either stays inside one block of \<open>MBUFSIZE\<close> bytes, or starts inside a block and
  ends in the next while every dirty block of the file has three free cells in its table of intervals.
  (Without those cells a write that goes on in the next block can meet the flush on a full table in its
  middle, behind which the code goes on with a released header, \<open>wbuf.c\<close> line 705, and loses the rest;
  longer runs and runs over more blocks are not covered.) Then \<open>ACTION_WRITE\<close> makes the client see exactly the old
  contents with the bytes stored at the file position, returns their number and advances the
  position by it; a read buffer is given back first, so that no later read sees old bytes. On
  a failure it returns -1, leaves the position and keeps no dirty block. Either way the list
  of open files, its lookup and both pools are intact.\<close>

theorem act_WRITE_coherent:
  assumes srv: "wserver_ok rpc content (g_NFSGlobal g)"
    and op: "open_file content g hs p e f as os fs rbs"
    and ready: "efh_Res2 e = 0" "mode_readable (efh_Mode e) \<or> efh_Mode e = MODE_NEWFILE"
    and pos: "0 \<le> efh_FilePos e" "0 < Num" "efh_FilePos e + Num \<le> 2 ^ 31" and buf: "Num \<le> int (length Buf)"
    and scope: "efh_FilePos e mod MBUFSIZE + Num \<le> MBUFSIZE \<or>
      efh_FilePos e mod MBUFSIZE \<noteq> 0 \<and> efh_FilePos e mod MBUFSIZE + Num \<le> 2 * MBUFSIZE \<and>
        (\<forall>a\<in>set as. wbh_NumInfo (hdr_at g a) + 3 \<le> WBUFHDRINFOSIZE)"
  shows "\<exists>r g' e' as' fs'. act_WRITE rpc (fh_id g p) Buf Num g = Some (r, g') \<and>
     open_file content g' hs p e' f as' os fs' rbs \<and>
     (r = -1 \<and> as' = [] \<and> efh_FilePos e' = efh_FilePos e \<or>
      r = Num \<and> efh_FilePos e' = efh_FilePos e + Num \<and>
      seen content f g' as' = (seen content f g as)(f := put_bytes (efh_FilePos e) (take (nat Num) Buf) (seen content f g as f)))"
proof -
  have l: "fh_Lookup (fh_id g p) g = Some p" "p \<noteq> NULL" using open_file_Lookup [OF op] by auto
  have e: "hp_efh g p = Some e" and ok: "file_ok content g e f as os fs rbs" using op by (auto simp: open_file_def)
  obtain g1 e1 where rel: "(if HasBufferedRData e then rb_ReleaseRBufData g e else Some (g, e)) = Some (g1, e1)"
     "file_ok content g1 e1 f as os fs rbs" "rheld e1 = []" "seen content f g1 as = seen content f g as" "rd_same g g1"
     "\<exists>r. e1 = e\<lparr>efh_RBuf := r\<rparr>"
    using release_read_ok [OF ok] by blast
  have e1: "efh_FilePos e1 = efh_FilePos e" "efh_Next e1 = efh_Next e" "efh_Id e1 = efh_Id e" using rel(6) by auto
  let ?buf = "take (nat Num) Buf"
  have len: "length ?buf = nat Num" "?buf \<noteq> []" using pos buf by auto
  have srv1: "wserver_ok rpc content (g_NFSGlobal g1)" using srv rd_same_hdr [OF rel(5)] by simp
  have wf: "wfile g1 e1 f as os fs rbs" and caps: "caps g1 as" and rb: "rb_ok content g1 e1 f"
    using rel(2,3) by (auto simp: file_ok_def)
  have scope1: "write_scope g1 as (efh_FilePos e1) (length ?buf)"
    using scope rd_same_hdr [OF rel(5)] e1 len pos by (simp add: write_scope_def room_def)
  obtain r g2 e2 as' fs' where w: "wc_WriteCache rpc g1 e1 ?buf = Some (r, g2, e2)" "wframe os rbs g1 g2"
     "wfile g2 e2 f as' os fs' rbs" "caps g2 as'" "efh_kept e1 e2"
     "case r of Inl _ \<Rightarrow> as' = []
      | Inr k \<Rightarrow> k = int (length ?buf) \<and>
          seen content f g2 as' = (seen content f g1 as)(f := put_bytes (efh_FilePos e1) ?buf (seen content f g1 as f))"
    using wc_WriteCache_spec [OF srv1 wf caps _ _ len(2) scope1] pos len e1 by auto
  note kept = efh_kept_fields [OF w(5)]
  have held: "rheld e2 = []" using rel(3) kept by (simp add: rheld_def)
  have ok2: "file_ok content g2 e2 f as' os fs' rbs"
    using w(3,4) held rb kept by (auto simp: file_ok_def rb_ok_def rheld_def split: option.splits)
  have hs2: "handles_same g g2"
    using handles_same_trans [OF handles_same_rd [OF rel(5)] handles_same_wconf] w(2) by (simp add: wframe_def)
  define e3 where "e3 = (case r of Inl _ \<Rightarrow> e2 | Inr k \<Rightarrow> e2\<lparr>efh_FilePos := efh_FilePos e2 + k\<rparr>)"
  define r1 where "r1 = (case r of Inl _ \<Rightarrow> -1 | Inr k \<Rightarrow> k)"
  define r2 where "r2 = (case r of Inl res2 \<Rightarrow> res2 | Inr _ \<Rightarrow> 0)"
  let ?g = "snd (SetRes r1 r2 (put_efh p e3 g2))"
  have run: "act_WRITE rpc (fh_id g p) Buf Num g = Some (r1, ?g)"
    using l e ready rel(1) pos w(1)
    by (cases r) (simp_all add: act_WRITE_def SetRes_def r1_def r2_def e3_def)
  have "file_ok content g2 e3 f as' os fs' rbs"
    using ok2 by (cases r) (simp_all add: e3_def file_ok_def wfile_def rb_ok_def rheld_def efh_fh_def)
  moreover have "efh_Next e3 = efh_Next e" "efh_Id e3 = efh_Id e"
    using kept e1 by (cases r; simp add: e3_def)+
  ultimately have op': "open_file content ?g hs p e3 f as' os fs' rbs"
    by (intro open_file_put [OF op hs2])
  have "seen content f ?g as' = seen content f g2 as'" by (rule seen_cong [OF cache_same_put])
  then have "r1 = -1 \<and> as' = [] \<and> efh_FilePos e3 = efh_FilePos e \<or>
      r1 = Num \<and> efh_FilePos e3 = efh_FilePos e + Num \<and>
      seen content f ?g as' = (seen content f g as)(f := put_bytes (efh_FilePos e) ?buf (seen content f g as f))"
    using w(6) kept(1) e1(1) len(1) pos(2) rel(4) by (cases r) (simp_all add: r1_def e3_def)
  then show ?thesis using run op' by blast
qed

text \<open>An open file number 1 at address 7, with both caches, for concrete runs.\<close>

definition run_open :: efh where
  "run_open = rb_CreateRBuf True (run_efh\<lparr>efh_Mode := MODE_READWRITE\<rparr>)"

definition run_files :: "(nfs_fh \<Rightarrow> int \<Rightarrow> u8) global" where
  "run_files = run_global\<lparr>g_FH := 7, fh_LastId := 2, hp_efh := [7 \<mapsto> run_open]\<rparr>"

lemma run_open_file: "open_file (\<lambda>s. s) run_files [7] 7 run_open [7] [] [] [10, 20] []"
  using run_wfile
  by (simp add: open_file_def run_files_def run_open_def fh_inv_def fh_members_def links_def fh_next_def fh_id_def
      file_ok_def wfile_def wpool_def mb_inv_def efh_fh_def cluster_def run_efh_def run_global_def wc_CreateCache_def
      cleared_global_def nxt_def hdr_at_def cleared_wbufhdr_def rb_CreateRBuf_def rheld_def rb_ok_def)

lemma run_files_facts:
  "fh_id run_files 7 = 1" "efh_FilePos run_open = 8190" "efh_Res2 run_open = 0" "mode_readable (efh_Mode run_open)"
  "g_NFSGlobal run_files = g_NFSGlobal run_global"
  by (simp_all add: run_files_def run_open_def run_efh_def wc_CreateCache_def rb_CreateRBuf_def mode_readable_def fh_id_def)

lemma run_open_buffer: "efh_RBuf run_open \<noteq> None \<or> RBUFFERLIMIT < n \<or> efh_FilePos run_open = 0"
  by (simp add: run_open_def rb_CreateRBuf_def)

lemma run_files_server: "wserver_ok mem_rpc (\<lambda>s. s) (g_NFSGlobal run_files)"
  using run_server by (simp add: run_files_facts)

theorem act_READ_coherent_witness:
  "\<exists>r bytes g' e' fs'. act_READ mem_rpc 1 10 run_files = Some (r, bytes, g') \<and>
     open_file (\<lambda>s. s) g' [7] 7 e' [7] [] [] fs' []"
proof -
  note * = act_READ_coherent [OF run_files_server mem_rpc_servers(2) run_open_file run_files_facts(3,4) run_open_buffer, of 10]
  show ?thesis using * run_files_facts(1,2) by fastforce
qed

theorem act_WRITE_coherent_witness:
  "\<exists>r g' e' as' fs'. act_WRITE mem_rpc 1 [1, 2, 3, 4, 5] 4 run_files = Some (r, g') \<and>
     open_file (\<lambda>s. s) g' [7] 7 e' [7] as' [] fs' []"
proof -
  have s: "efh_FilePos run_open mod MBUFSIZE + 4 \<le> MBUFSIZE \<or> efh_FilePos run_open mod MBUFSIZE \<noteq> 0 \<and>
      efh_FilePos run_open mod MBUFSIZE + 4 \<le> 2 * MBUFSIZE \<and> (\<forall>a\<in>set []. wbh_NumInfo (hdr_at run_files a) + 3 \<le> WBUFHDRINFOSIZE)"
    by (simp add: run_files_facts)
  have m: "mode_readable (efh_Mode run_open) \<or> efh_Mode run_open = MODE_NEWFILE" using run_files_facts by blast
  note * = act_WRITE_coherent [OF run_files_server run_open_file run_files_facts(3) m _ _ _ _ s, of "[1, 2, 3, 4, 5]"]
  show ?thesis using * run_files_facts(1,2) by fastforce
qed

end
