(* ===== verification/Dirs.thy ===== *)
theory Dirs
  imports LinkedList
begin

text \<open>
  The directory scans in progress (src/src/dirs.c). A scan is found by the key of its
  directory, the file id and the name of the last entry handed out; it owns the entries read
  ahead from the server. \<open>edh_Name\<close> is a BSTR in a fixed array that is closed with a zero
  byte.
\<close>

definition dh_next :: "'srv global \<Rightarrow> addr \<Rightarrow> addr option" where
  "dh_next g a = map_option edh_Next (hp_edh g a)"

text \<open>Filling \<open>edh_Name\<close> from a BSTR; \<open>None\<close> when the copy would read past the name.\<close>

definition edh_set_name :: "u8 list option \<Rightarrow> int \<Rightarrow> u8 list option" where
  "edh_set_name Name MaxFileNameLen =
     (let cleared = replicate EDH_MAX_FILENAME_SIZE 0 in
      case Name of
        None \<Rightarrow> Some (cleared[0 := 0, 1 := 0])
      | Some bs \<Rightarrow>
          if bs = [] then None
          else
            let l = min (min (uint (bs ! 0) + 2) (int EDH_MAX_FILENAME_SIZE - 1)) MaxFileNameLen in
            if l < 0 \<or> l > int (length bs) then None
            else Some ((if l \<noteq> 0 then take (nat l) bs @ drop (nat l) cleared else cleared[1 := 0])[nat l := 0]))"

definition dir_Create ::
  "addr \<Rightarrow> u32 \<Rightarrow> u32 \<Rightarrow> nfs_fh \<Rightarrow> u32 \<Rightarrow> u8 list option \<Rightarrow> int \<Rightarrow> 'srv global \<Rightarrow> (addr \<times> 'srv global) option" where
  "dir_Create a Key cookie nfsfh nfsc Name MaxFileNameLen g =
     (if a = NULL then Some (NULL, g)
      else do {
        nm \<leftarrow> edh_set_name Name MaxFileNameLen;
        Some (a, g\<lparr>hp_edh := (hp_edh g)(a \<mapsto> \<lparr>edh_Next = NULL, edh_Key = Key, edh_Cookie = cookie,
                 edh_NFSDirFh = nfsfh, edh_NFSCookie = nfsc, edh_Eof = 0, edh_NFSEntries = [],
                 edh_Name = nm\<rparr>)\<rparr>)
      })"

definition dir_Insert :: "addr \<Rightarrow> 'srv global \<Rightarrow> 'srv global option" where
  "dir_Insert a g =
     do {
       d \<leftarrow> hp_edh g a;
       Some (g\<lparr>hp_edh := (hp_edh g)(a \<mapsto> d\<lparr>edh_Next := g_DH g\<rparr>), g_DH := a\<rparr>)
     }"

text \<open>\<open>memcmp\<close> of the name in a scan with a BSTR; the length is taken from the scan's name.
  Reading past either array is \<open>None\<close>.\<close>

definition edh_name_eq :: "u8 list \<Rightarrow> u8 list \<Rightarrow> bool option" where
  "edh_name_eq nm Name =
     (if nm = [] then None
      else
        let n = unat (nm ! 0) + 2 in
        if n \<le> length nm \<and> n \<le> length Name then Some (take n nm = take n Name) else None)"

definition dir_LookupFromKeyAndCookieAndCBSTR :: "u32 \<Rightarrow> u32 \<Rightarrow> u8 list \<Rightarrow> 'srv global \<Rightarrow> addr option" where
  "dir_LookupFromKeyAndCookieAndCBSTR Key Cookie Name g =
     list_find (dh_next g)
       (\<lambda>a. do {
          d \<leftarrow> hp_edh g a;
          (if edh_Cookie d = Cookie \<and> edh_Key d = Key then edh_name_eq (edh_Name d) Name else Some False)
        }) (g_DH g)"

definition dir_LookupFromAddress :: "addr \<Rightarrow> 'srv global \<Rightarrow> addr option" where
  "dir_LookupFromAddress p g = list_find (dh_next g) (\<lambda>a. Some (a = p)) (g_DH g)"

definition dir_Remove :: "addr \<Rightarrow> 'srv global \<Rightarrow> (addr \<times> 'srv global) option" where
  "dir_Remove arg g =
     do {
       r \<leftarrow> list_locate (dh_next g) arg NULL (g_DH g);
       (case r of
          None \<Rightarrow> Some (NULL, g)
        | Some (prev, n) \<Rightarrow>
            if prev = NULL then Some (arg, g\<lparr>g_DH := n\<rparr>)
            else do {
              d \<leftarrow> hp_edh g prev;
              Some (arg, g\<lparr>hp_edh := (hp_edh g)(prev \<mapsto> d\<lparr>edh_Next := n\<rparr>)\<rparr>)
            })
     }"

text \<open>The entries are freed with the scan that owns them.\<close>

definition dir_Delete :: "addr \<Rightarrow> 'srv global \<Rightarrow> 'srv global" where
  "dir_Delete a g = (if a \<noteq> NULL then g\<lparr>hp_edh := (hp_edh g)(a := None)\<rparr> else g)"

partial_function (option) dir_DeleteAll :: "'srv global \<Rightarrow> 'srv global option" where
  "dir_DeleteAll g =
     (if g_DH g = NULL then Some g
      else do {
        d \<leftarrow> hp_edh g (g_DH g);
        dir_DeleteAll (dir_Delete (g_DH g) (g\<lparr>g_DH := edh_Next d\<rparr>))
      })"

declare dir_DeleteAll.simps [code]

definition dir_RemHeadEntry :: "edh \<Rightarrow> entry option \<times> edh" where
  "dir_RemHeadEntry d = (case edh_NFSEntries d of [] \<Rightarrow> (None, d) | ent # rest \<Rightarrow> (Some ent, d\<lparr>edh_NFSEntries := rest\<rparr>))"

definition dir_GetHeadEntry :: "edh \<Rightarrow> entry option" where
  "dir_GetHeadEntry d = (case edh_NFSEntries d of [] \<Rightarrow> None | ent # _ \<Rightarrow> Some ent)"

text \<open>\<open>ok i\<close>: the allocations for entry \<open>i\<close> succeed. A failure deletes the copies made so far.\<close>

fun dir_dup_loop :: "(nat \<Rightarrow> bool) \<Rightarrow> nat \<Rightarrow> entry list \<Rightarrow> entry list \<Rightarrow> entry list" where
  "dir_dup_loop ok i [] acc = acc"
| "dir_dup_loop ok i (ent # rest) acc =
     (if ok i
      then dir_dup_loop ok (Suc i) rest
             (acc @ [\<lparr>en_fileid = en_fileid ent, en_name = en_name ent, en_cookie = en_cookie ent\<rparr>])
      else [])"

definition dir_DupEntries :: "(nat \<Rightarrow> bool) \<Rightarrow> entry list \<Rightarrow> entry list" where
  "dir_DupEntries ok ents = dir_dup_loop ok 0 ents []"

subsection \<open>The registry of scans\<close>

definition dh_members :: "'srv global \<Rightarrow> addr list \<Rightarrow> bool" where
  "dh_members g as \<longleftrightarrow> links (dh_next g) (g_DH g) as"

lemma dh_members_alloc: "dh_members g as \<Longrightarrow> a \<in> set as \<Longrightarrow> \<exists>d. hp_edh g a = Some d"
  unfolding dh_members_def links_def dh_next_def by auto

lemma dh_next_upd [simp]:
  "dh_next (g\<lparr>hp_edh := (hp_edh g)(a \<mapsto> d)\<rparr>) = (dh_next g)(a := Some (edh_Next d))"
  "dh_next (g\<lparr>hp_edh := (hp_edh g)(a := None)\<rparr>) = (dh_next g)(a := None)"
  "dh_next (g\<lparr>g_DH := p\<rparr>) = dh_next g"
  by (auto simp: dh_next_def fun_eq_iff)

lemma dir_Insert_spec:
  assumes "dh_members g as" and "hp_edh g a = Some d" and "a \<noteq> NULL" and "a \<notin> set as"
  shows "dir_Insert a g = Some (g\<lparr>hp_edh := (hp_edh g)(a \<mapsto> d\<lparr>edh_Next := g_DH g\<rparr>), g_DH := a\<rparr>)"
    and "dh_members (g\<lparr>hp_edh := (hp_edh g)(a \<mapsto> d\<lparr>edh_Next := g_DH g\<rparr>), g_DH := a\<rparr>) (a # as)"
proof -
  show "dir_Insert a g = Some (g\<lparr>hp_edh := (hp_edh g)(a \<mapsto> d\<lparr>edh_Next := g_DH g\<rparr>), g_DH := a\<rparr>)"
    using assms(2) by (simp add: dir_Insert_def)
  have "links ((dh_next g)(a := Some (g_DH g))) (g_DH g) as"
    by (rule links_cong [of as _ "dh_next g"]) (use assms in \<open>auto simp: dh_members_def\<close>)
  then show "dh_members (g\<lparr>hp_edh := (hp_edh g)(a \<mapsto> d\<lparr>edh_Next := g_DH g\<rparr>), g_DH := a\<rparr>) (a # as)"
    using assms(3,4) by (simp add: dh_members_def links_Cons)
qed

lemma dir_Remove_spec:
  assumes "dh_members g (xs @ a # ys)"
  shows "\<exists>g'. dir_Remove a g = Some (a, g') \<and> dh_members g' (xs @ ys) \<and>
     (\<forall>c. map_option (\<lambda>d. d\<lparr>edh_Next := NULL\<rparr>) (hp_edh g' c) = map_option (\<lambda>d. d\<lparr>edh_Next := NULL\<rparr>) (hp_edh g c))"
proof -
  have l: "links (dh_next g) (g_DH g) (xs @ a # ys)" using assms by (simp add: dh_members_def)
  show ?thesis
  proof (cases "xs = []")
    case True
    then have "dir_Remove a g = Some (a, g\<lparr>g_DH := the (dh_next g a)\<rparr>)"
      using list_locate_present [OF l, of NULL] by (simp add: dir_Remove_def)
    then show ?thesis using links_unlink [OF l] True by (simp add: dh_members_def)
  next
    case False
    obtain d where d: "hp_edh g (last xs) = Some d" using dh_members_alloc [OF assms, of "last xs"] False by auto
    have "last xs \<noteq> NULL" using links_not_NULL [OF l] False by (metis Un_iff last_in_set set_append)
    then have "dir_Remove a g = Some (a, g\<lparr>hp_edh := (hp_edh g)(last xs \<mapsto> d\<lparr>edh_Next := the (dh_next g a)\<rparr>)\<rparr>)"
      using list_locate_present [OF l, of NULL] False d by (simp add: dir_Remove_def)
    then show ?thesis using links_unlink [OF l] False d by (simp add: dh_members_def)
  qed
qed

lemma dir_Remove_absent: "dh_members g as \<Longrightarrow> a \<notin> set as \<Longrightarrow> dir_Remove a g = Some (NULL, g)"
  by (simp add: dir_Remove_def dh_members_def list_locate_absent)

interpretation dhr: registry dh_members "\<lambda>g a. hp_edh g a \<noteq> None" dir_Insert dir_Remove
proof
  fix s :: "'srv global" and as a
  assume "dh_members s as" "hp_edh s a \<noteq> None" "a \<noteq> NULL" "a \<notin> set as"
  then show "\<exists>s'. dir_Insert a s = Some s' \<and> dh_members s' (a # as) \<and>
      (\<lambda>b. hp_edh s' b \<noteq> None) = (\<lambda>b. hp_edh s b \<noteq> None)"
    using dir_Insert_spec [of s as a] by (fastforce simp: fun_eq_iff)
next
  fix s :: "'srv global" and xs a ys
  assume "dh_members s (xs @ a # ys)"
  then obtain s' where s': "dir_Remove a s = Some (a, s')" "dh_members s' (xs @ ys)"
     "\<forall>c. map_option (\<lambda>d. d\<lparr>edh_Next := NULL\<rparr>) (hp_edh s' c) = map_option (\<lambda>d. d\<lparr>edh_Next := NULL\<rparr>) (hp_edh s c)"
    using dir_Remove_spec by blast
  have "(hp_edh s' c \<noteq> None) = (hp_edh s c \<noteq> None)" for c
    using s'(3) [rule_format, of c] by (cases "hp_edh s' c"; cases "hp_edh s c") auto
  then show "\<exists>s'. dir_Remove a s = Some (a, s') \<and> dh_members s' (xs @ ys) \<and>
      (\<lambda>b. hp_edh s' b \<noteq> None) = (\<lambda>b. hp_edh s b \<noteq> None)"
    using s' by (intro exI [of _ s']) (auto simp: fun_eq_iff)
next
  fix s :: "'srv global" and as a
  assume "dh_members s as"
  then show "a \<notin> set as \<Longrightarrow> dir_Remove a s = Some (NULL, s)" "distinct as"
    using dir_Remove_absent links_distinct by (auto simp: dh_members_def)
qed

subsection \<open>Storing and finding a scan\<close>

lemma length_edh_set_name: "edh_set_name Name m = Some nm \<Longrightarrow> length nm = EDH_MAX_FILENAME_SIZE"
  by (auto simp: edh_set_name_def Let_def split: option.splits if_splits)

text \<open>A name of at most 105 characters, with its closing zero byte.\<close>

definition cbstr :: "u8 list \<Rightarrow> u8 list" where
  "cbstr cs = of_nat (length cs) # cs @ [0]"

lemma edh_set_name_cbstr:
  assumes "length cs \<le> 105" and "int (length cs) + 2 \<le> m"
  shows "edh_set_name (Some (cbstr cs)) m =
    Some ((cbstr cs @ drop (length cs + 2) (replicate EDH_MAX_FILENAME_SIZE 0))[length cs + 2 := 0])"
proof -
  have "uint (of_nat (length cs) :: u8) = int (length cs)"
    using assms(1) by (simp add: unsigned_of_nat take_bit_nat_eq_self)
  then have "min (min (uint (of_nat (length cs) :: u8) + 2) 107) m = int (length cs) + 2" using assms by simp
  then show ?thesis using assms by (simp add: edh_set_name_def cbstr_def Let_def nat_add_distrib del: of_nat_add)
qed

lemma edh_name_eq_stored:
  assumes "length cs \<le> 105" and "int (length cs) + 2 \<le> m" and "edh_set_name (Some (cbstr cs)) m = Some nm"
  shows "edh_name_eq nm (cbstr cs) = Some True"
proof -
  have u: "unat (of_nat (length cs) :: u8) = length cs"
    using assms(1) by (simp add: unsigned_of_nat take_bit_nat_eq_self)
  have nm: "nm = (cbstr cs @ drop (length cs + 2) (replicate EDH_MAX_FILENAME_SIZE 0))[length cs + 2 := 0]"
    using edh_set_name_cbstr [OF assms(1,2)] assms(3) by simp
  have l: "length (cbstr cs) = length cs + 2" by (simp add: cbstr_def)
  have "take (length cs + 2) nm = cbstr cs" unfolding nm using l by (simp add: list_update_append)
  moreover have "nm \<noteq> []" "nm ! 0 = of_nat (length cs)" unfolding nm by (auto simp: cbstr_def nth_append)
  moreover have "length nm = EDH_MAX_FILENAME_SIZE" by (rule length_edh_set_name [OF assms(3)])
  ultimately show ?thesis using u l assms(1) by (simp add: edh_name_eq_def Let_def)
qed

text \<open>A directory scan is resumed where it stopped: a scan created and inserted for a key, a
  cookie and an entry name of at most 105 characters is the one that the lookup by key, cookie
  and name returns, and the lookup by address accepts it; the other scans stay in the list.\<close>

theorem dir_scan_found:
  assumes m: "dh_members g as" and a: "a \<noteq> NULL" "hp_edh g a = None"
    and cs: "length cs \<le> 105" "int (length cs) + 2 \<le> MaxLen"
  shows "\<exists>g1 g2. dir_Create a Key cookie fh nc (Some (cbstr cs)) MaxLen g = Some (a, g1) \<and> dir_Insert a g1 = Some g2 \<and>
     dh_members g2 (a # as) \<and> dir_LookupFromKeyAndCookieAndCBSTR Key cookie (cbstr cs) g2 = Some a \<and>
     dir_LookupFromAddress a g2 = Some a"
proof -
  obtain nm where nm: "edh_set_name (Some (cbstr cs)) MaxLen = Some nm" using edh_set_name_cbstr [OF cs] by blast
  define d where "d = \<lparr>edh_Next = NULL, edh_Key = Key, edh_Cookie = cookie, edh_NFSDirFh = fh,
     edh_NFSCookie = nc, edh_Eof = 0, edh_NFSEntries = [], edh_Name = nm\<rparr>"
  define g1 where "g1 = g\<lparr>hp_edh := (hp_edh g)(a \<mapsto> d)\<rparr>"
  have c: "dir_Create a Key cookie fh nc (Some (cbstr cs)) MaxLen g = Some (a, g1)"
    using a nm by (simp add: dir_Create_def g1_def d_def)
  have nin: "a \<notin> set as" using dh_members_alloc [OF m, of a] a by auto
  have "links ((dh_next g)(a := Some NULL)) (g_DH g) as"
    by (rule links_cong [of as _ "dh_next g"]) (use m nin in \<open>auto simp: dh_members_def\<close>)
  then have m1: "dh_members g1 as" by (simp add: dh_members_def g1_def d_def)
  have h1: "hp_edh g1 a = Some d" by (simp add: g1_def)
  define g2 where "g2 = g1\<lparr>hp_edh := (hp_edh g1)(a \<mapsto> d\<lparr>edh_Next := g_DH g1\<rparr>), g_DH := a\<rparr>"
  have ins: "dir_Insert a g1 = Some g2" "dh_members g2 (a # as)"
    using dir_Insert_spec [OF m1 h1 a(1) nin] by (auto simp: g2_def)
  have "hp_edh g2 a = Some (d\<lparr>edh_Next := g_DH g1\<rparr>)" "g_DH g2 = a" by (simp_all add: g2_def)
  then have "dir_LookupFromKeyAndCookieAndCBSTR Key cookie (cbstr cs) g2 = Some a"
      "dir_LookupFromAddress a g2 = Some a"
    using a(1) edh_name_eq_stored [OF cs nm]
    by (simp_all add: dir_LookupFromKeyAndCookieAndCBSTR_def dir_LookupFromAddress_def list_find.simps [of _ _ a] d_def)
  then show ?thesis using c ins by blast
qed

theorem dir_scan_found_witness:
  "\<exists>g1 g2. dir_Create 9 3 77 [1] 5 (Some (cbstr [97, 98])) 107 (cleared_global ()) = Some (9, g1) \<and>
     dir_Insert 9 g1 = Some g2 \<and> dir_LookupFromKeyAndCookieAndCBSTR 3 77 (cbstr [97, 98]) g2 = Some 9"
proof -
  have "dh_members (cleared_global ()) []" by (simp add: dh_members_def cleared_global_def)
  moreover have "hp_edh (cleared_global ()) 9 = None" by (simp add: cleared_global_def)
  ultimately show ?thesis
    using dir_scan_found [of "cleared_global ()" "[]" 9 "[97, 98]" 107 3 77 "[1]" 5] by auto
qed

text \<open>\<open>dir_DeleteAll\<close> ends and frees every scan: the list is empty and no scan that was in it
  is left, while objects outside the list are untouched.\<close>

theorem dir_DeleteAll_frees:
  assumes m: "dh_members g as"
  shows "\<exists>g'. dir_DeleteAll g = Some g' \<and> g_DH g' = NULL \<and>
     hp_edh g' = (\<lambda>a. if a \<in> set as then None else hp_edh g a)"
proof -
  have "dh_members g as \<Longrightarrow> \<exists>g'. dir_DeleteAll g = Some g' \<and> g_DH g' = NULL \<and>
     hp_edh g' = (\<lambda>a. if a \<in> set as then None else hp_edh g a)" for g :: "'a global"
  proof (induction as arbitrary: g)
    case Nil
    then show ?case by (subst dir_DeleteAll.simps) (simp add: dh_members_def)
  next
    case (Cons a as)
    obtain d where d: "hp_edh g a = Some d" using dh_members_alloc [OF Cons.prems] by auto
    have l: "g_DH g = a" "a \<noteq> NULL" "a \<notin> set as" "links (dh_next g) (edh_Next d) as"
      using Cons.prems d by (auto simp: dh_members_def links_Cons dh_next_def)
    define g1 where "g1 = dir_Delete a (g\<lparr>g_DH := edh_Next d\<rparr>)"
    have g1: "hp_edh g1 = (hp_edh g)(a := None)" "g_DH g1 = edh_Next d"
      using l(2) by (simp_all add: g1_def dir_Delete_def)
    have "links ((dh_next g)(a := None)) (edh_Next d) as"
      by (rule links_cong [of as _ "dh_next g"]) (use l in auto)
    moreover have "dh_next g1 = (dh_next g)(a := None)" by (auto simp: dh_next_def g1 fun_eq_iff)
    ultimately have "dh_members g1 as" by (simp add: dh_members_def g1)
    then obtain g' where "dir_DeleteAll g1 = Some g'" "g_DH g' = NULL"
        "hp_edh g' = (\<lambda>c. if c \<in> set as then None else hp_edh g1 c)"
      using Cons.IH by blast
    then show ?case using l d by (subst dir_DeleteAll.simps) (auto simp: g1_def [symmetric] g1 fun_eq_iff)
  qed
  then show ?thesis using m by blast
qed

theorem dir_DeleteAll_frees_witness:
  "let d = \<lparr>edh_Next = NULL, edh_Key = 3, edh_Cookie = 77, edh_NFSDirFh = [1], edh_NFSCookie = 0, edh_Eof = 0,
          edh_NFSEntries = [], edh_Name = []\<rparr>;
       g = (cleared_global ())\<lparr>g_DH := 4, hp_edh := [4 \<mapsto> d\<lparr>edh_Next := 8\<rparr>, 8 \<mapsto> d]\<rparr>
   in \<exists>g'. dir_DeleteAll g = Some g' \<and> g_DH g' = NULL \<and> hp_edh g' 4 = None \<and> hp_edh g' 8 = None"
proof -
  define d where "d = \<lparr>edh_Next = NULL, edh_Key = 3, edh_Cookie = 77, edh_NFSDirFh = [1], edh_NFSCookie = 0, edh_Eof = 0,
          edh_NFSEntries = [], edh_Name = []\<rparr>"
  define g where "g = (cleared_global ())\<lparr>g_DH := 4, hp_edh := [4 \<mapsto> d\<lparr>edh_Next := 8\<rparr>, 8 \<mapsto> d]\<rparr>"
  have "dh_members g [4, 8]" by (simp add: dh_members_def links_Cons dh_next_def g_def d_def)
  from dir_DeleteAll_frees [OF this]
  have "\<exists>g'. dir_DeleteAll g = Some g' \<and> g_DH g' = NULL \<and> hp_edh g' 4 = None \<and> hp_edh g' 8 = None" by auto
  then show ?thesis by (simp add: Let_def g_def d_def)
qed

end
