(* ===== verification/Locks.thy ===== *)
theory Locks
  imports LinkedList NfsSupp
begin

text \<open>
  The locks (src/src/locks.c): an \<open>ELOCK\<close> names a remote object by its file handle and a key,
  and carries the access mode. They hang off the volume node at \<open>dl_LockList\<close>. \<open>fl_Task\<close> and
  \<open>fl_Volume\<close> only serve AmigaDOS and are left out; BPTR conversions are the identity.
\<close>

definition fl_next :: "'srv global \<Rightarrow> addr \<Rightarrow> addr option" where
  "fl_next g a = map_option fl_Link (hp_elock g a)"

text \<open>\<open>a\<close> is the result of \<open>AllocVec\<close>, \<open>names_ok\<close> that both copies of the names succeeded.\<close>

definition lock_Create ::
  "addr \<Rightarrow> bool \<Rightarrow> string \<Rightarrow> string \<Rightarrow> ftype \<Rightarrow> int \<Rightarrow> 'srv global \<Rightarrow> addr \<times> 'srv global" where
  "lock_Create a names_ok FullName Name nfstype Mode g =
     (if a \<noteq> NULL \<and> names_ok then
        (a, g\<lparr>hp_elock := (hp_elock g)(a \<mapsto> \<lparr>fl_Link = NULL, fl_Key = 0, fl_Access = Mode, efl_NFSFh = [],
              efl_NFSType = nfstype, efl_FullName = FullName, efl_Name = Name\<rparr>)\<rparr>)
      else (NULL, g))"

definition lock_Dup :: "addr \<Rightarrow> bool \<Rightarrow> addr \<Rightarrow> 'srv global \<Rightarrow> (addr \<times> 'srv global) option" where
  "lock_Dup a names_ok oel g =
     (if a = NULL then Some (NULL, g)
      else do {
        old \<leftarrow> hp_elock g oel;
        Some (if names_ok then (a, g\<lparr>hp_elock := (hp_elock g)(a \<mapsto> old\<lparr>fl_Link := NULL\<rparr>)\<rparr>) else (NULL, g))
      })"

definition lock_Insert :: "addr \<Rightarrow> 'srv global \<Rightarrow> 'srv global option" where
  "lock_Insert a g =
     do {
       l \<leftarrow> hp_elock g a;
       Some (g\<lparr>hp_elock := (hp_elock g)(a \<mapsto> l\<lparr>fl_Link := dl_LockList g\<rparr>), dl_LockList := a\<rparr>)
     }"

definition lock_Lookup :: "addr \<Rightarrow> 'srv global \<Rightarrow> addr option" where
  "lock_Lookup l g = list_find (fl_next g) (\<lambda>a. Some (a = l)) (dl_LockList g)"

definition lock_LookupFromKey :: "u32 \<Rightarrow> 'srv global \<Rightarrow> addr option" where
  "lock_LookupFromKey Key g = list_find (fl_next g) (\<lambda>a. map_option (\<lambda>l. fl_Key l = Key) (hp_elock g a)) (dl_LockList g)"

definition lock_NumLocksFromKey :: "u32 \<Rightarrow> 'srv global \<Rightarrow> int option" where
  "lock_NumLocksFromKey Key g =
     list_count (fl_next g) (\<lambda>a. map_option (\<lambda>l. fl_Key l = Key) (hp_elock g a)) (dl_LockList g) 0"

definition lock_Remove :: "addr \<Rightarrow> 'srv global \<Rightarrow> (addr \<times> 'srv global) option" where
  "lock_Remove l g =
     do {
       r \<leftarrow> list_locate (fl_next g) l NULL (dl_LockList g);
       (case r of
          None \<Rightarrow> Some (NULL, g)
        | Some (prev, n) \<Rightarrow>
            if prev = NULL then Some (l, g\<lparr>dl_LockList := n\<rparr>)
            else do {
              p \<leftarrow> hp_elock g prev;
              Some (l, g\<lparr>hp_elock := (hp_elock g)(prev \<mapsto> p\<lparr>fl_Link := n\<rparr>)\<rparr>)
            })
     }"

definition lock_Delete :: "addr \<Rightarrow> 'srv global \<Rightarrow> 'srv global" where
  "lock_Delete a g = (if a \<noteq> NULL then g\<lparr>hp_elock := (hp_elock g)(a := None)\<rparr> else g)"

subsection \<open>The registry of locks\<close>

definition fl_members :: "'srv global \<Rightarrow> addr list \<Rightarrow> bool" where
  "fl_members g as \<longleftrightarrow> links (fl_next g) (dl_LockList g) as"

definition lk_key :: "'srv global \<Rightarrow> addr \<Rightarrow> u32" where
  "lk_key g a = fl_Key (the (hp_elock g a))"

lemma fl_members_alloc: "fl_members g as \<Longrightarrow> a \<in> set as \<Longrightarrow> \<exists>l. hp_elock g a = Some l"
  unfolding fl_members_def links_def fl_next_def by auto

lemma fl_next_upd [simp]:
  "fl_next (g\<lparr>hp_elock := (hp_elock g)(a \<mapsto> l)\<rparr>) = (fl_next g)(a := Some (fl_Link l))"
  "fl_next (g\<lparr>hp_elock := (hp_elock g)(a := None)\<rparr>) = (fl_next g)(a := None)"
  "fl_next (g\<lparr>dl_LockList := p\<rparr>) = fl_next g"
  by (auto simp: fl_next_def fun_eq_iff)

lemma lock_Insert_spec:
  assumes "fl_members g as" and "hp_elock g a = Some l" and "a \<noteq> NULL" and "a \<notin> set as"
  shows "lock_Insert a g = Some (g\<lparr>hp_elock := (hp_elock g)(a \<mapsto> l\<lparr>fl_Link := dl_LockList g\<rparr>), dl_LockList := a\<rparr>)"
    and "fl_members (g\<lparr>hp_elock := (hp_elock g)(a \<mapsto> l\<lparr>fl_Link := dl_LockList g\<rparr>), dl_LockList := a\<rparr>) (a # as)"
proof -
  show "lock_Insert a g = Some (g\<lparr>hp_elock := (hp_elock g)(a \<mapsto> l\<lparr>fl_Link := dl_LockList g\<rparr>), dl_LockList := a\<rparr>)"
    using assms(2) by (simp add: lock_Insert_def)
  have "links ((fl_next g)(a := Some (dl_LockList g))) (dl_LockList g) as"
    by (rule links_cong [of as _ "fl_next g"]) (use assms in \<open>auto simp: fl_members_def\<close>)
  then show "fl_members (g\<lparr>hp_elock := (hp_elock g)(a \<mapsto> l\<lparr>fl_Link := dl_LockList g\<rparr>), dl_LockList := a\<rparr>) (a # as)"
    using assms(3,4) by (simp add: fl_members_def links_Cons)
qed

lemma lock_Remove_spec:
  assumes "fl_members g (xs @ a # ys)"
  shows "\<exists>g'. lock_Remove a g = Some (a, g') \<and> fl_members g' (xs @ ys) \<and>
     (\<forall>c. map_option (\<lambda>l. l\<lparr>fl_Link := NULL\<rparr>) (hp_elock g' c) = map_option (\<lambda>l. l\<lparr>fl_Link := NULL\<rparr>) (hp_elock g c))"
proof -
  have l: "links (fl_next g) (dl_LockList g) (xs @ a # ys)" using assms by (simp add: fl_members_def)
  show ?thesis
  proof (cases "xs = []")
    case True
    then have "lock_Remove a g = Some (a, g\<lparr>dl_LockList := the (fl_next g a)\<rparr>)"
      using list_locate_present [OF l, of NULL] by (simp add: lock_Remove_def)
    then show ?thesis using links_unlink [OF l] True by (simp add: fl_members_def)
  next
    case False
    obtain p where p: "hp_elock g (last xs) = Some p" using fl_members_alloc [OF assms, of "last xs"] False by auto
    have "last xs \<noteq> NULL" using links_not_NULL [OF l] False by (metis Un_iff last_in_set set_append)
    then have "lock_Remove a g = Some (a, g\<lparr>hp_elock := (hp_elock g)(last xs \<mapsto> p\<lparr>fl_Link := the (fl_next g a)\<rparr>)\<rparr>)"
      using list_locate_present [OF l, of NULL] False p by (simp add: lock_Remove_def)
    then show ?thesis using links_unlink [OF l] False p by (simp add: fl_members_def)
  qed
qed

lemma lock_Remove_absent: "fl_members g as \<Longrightarrow> a \<notin> set as \<Longrightarrow> lock_Remove a g = Some (NULL, g)"
  by (simp add: lock_Remove_def fl_members_def list_locate_absent)

interpretation lkr: registry fl_members "\<lambda>g a. hp_elock g a \<noteq> None" lock_Insert lock_Remove
proof
  fix s :: "'srv global" and as a
  assume "fl_members s as" "hp_elock s a \<noteq> None" "a \<noteq> NULL" "a \<notin> set as"
  then show "\<exists>s'. lock_Insert a s = Some s' \<and> fl_members s' (a # as) \<and>
      (\<lambda>b. hp_elock s' b \<noteq> None) = (\<lambda>b. hp_elock s b \<noteq> None)"
    using lock_Insert_spec [of s as a] by (fastforce simp: fun_eq_iff)
next
  fix s :: "'srv global" and xs a ys
  assume "fl_members s (xs @ a # ys)"
  then obtain s' where s': "lock_Remove a s = Some (a, s')" "fl_members s' (xs @ ys)"
     "\<forall>c. map_option (\<lambda>l. l\<lparr>fl_Link := NULL\<rparr>) (hp_elock s' c) = map_option (\<lambda>l. l\<lparr>fl_Link := NULL\<rparr>) (hp_elock s c)"
    using lock_Remove_spec by blast
  have "(hp_elock s' c \<noteq> None) = (hp_elock s c \<noteq> None)" for c
    using s'(3) [rule_format, of c] by (cases "hp_elock s' c"; cases "hp_elock s c") auto
  then show "\<exists>s'. lock_Remove a s = Some (a, s') \<and> fl_members s' (xs @ ys) \<and>
      (\<lambda>b. hp_elock s' b \<noteq> None) = (\<lambda>b. hp_elock s b \<noteq> None)"
    using s' by (intro exI [of _ s']) (auto simp: fun_eq_iff)
next
  fix s :: "'srv global" and as a
  assume "fl_members s as"
  then show "a \<notin> set as \<Longrightarrow> lock_Remove a s = Some (NULL, s)" "distinct as"
    using lock_Remove_absent links_distinct by (auto simp: fl_members_def)
qed

subsection \<open>Searching\<close>

lemma lk_key_alloc:
  "fl_members g as \<Longrightarrow> a \<in> set as \<Longrightarrow> map_option (\<lambda>l. fl_Key l = Key) (hp_elock g a) = Some (lk_key g a = Key)"
  using fl_members_alloc [of g as a] by (auto simp: lk_key_def)

lemma lock_Lookup_eq:
  assumes "fl_members g as"
  shows "lock_Lookup l g = Some (if l \<in> set as then l else NULL)"
proof -
  have "find (\<lambda>a. a = l) as = (if l \<in> set as then Some l else None)" by (induction as) auto
  then show ?thesis using assms list_find_eq [of "fl_next g" "dl_LockList g" as "\<lambda>a. Some (a = l)" "\<lambda>a. a = l"]
    by (simp add: lock_Lookup_def fl_members_def)
qed

lemma lock_LookupFromKey_eq:
  assumes "fl_members g as"
  shows "lock_LookupFromKey Key g = Some (case find (\<lambda>a. lk_key g a = Key) as of None \<Rightarrow> NULL | Some a \<Rightarrow> a)"
  unfolding lock_LookupFromKey_def
  by (rule list_find_eq) (use assms lk_key_alloc [OF assms] in \<open>auto simp: fl_members_def\<close>)

lemma lock_NumLocksFromKey_eq:
  assumes "fl_members g as"
  shows "lock_NumLocksFromKey Key g = Some (int (length (filter (\<lambda>a. lk_key g a = Key) as)))"
  unfolding lock_NumLocksFromKey_def
  using list_count_eq [of "fl_next g" "dl_LockList g" as _ "\<lambda>a. lk_key g a = Key" 0] assms lk_key_alloc [OF assms]
  by (simp add: fl_members_def)

text \<open>A list of two locks for concrete runs.\<close>

definition two_locks :: "unit global" where
  "two_locks = (cleared_global ())\<lparr>dl_LockList := 5,
       hp_elock := [5 \<mapsto> \<lparr>fl_Link = 6, fl_Key = 1, fl_Access = SHARED_LOCK, efl_NFSFh = [], efl_NFSType = NFREG,
                         efl_FullName = ''a'', efl_Name = ''a''\<rparr>,
                    6 \<mapsto> \<lparr>fl_Link = NULL, fl_Key = 2, fl_Access = SHARED_LOCK, efl_NFSFh = [], efl_NFSType = NFREG,
                         efl_FullName = ''b'', efl_Name = ''b''\<rparr>]\<rparr>"

lemma two_locks_members: "fl_members two_locks [5, 6]"
  by (simp add: fl_members_def links_Cons two_locks_def fl_next_def)

text \<open>Locks are counted and found exactly: \<open>lock_Lookup\<close> accepts a pointer just when it is in
  the list, \<open>lock_LookupFromKey\<close> returns a lock with the key when there is one and NULL
  otherwise, and \<open>lock_NumLocksFromKey\<close> is the number of locks with the key.\<close>

theorem lock_lookup_exact:
  assumes m: "fl_members g as"
  shows "lock_Lookup l g = Some (if l \<in> set as then l else NULL) \<and>
    (\<exists>r. lock_LookupFromKey Key g = Some r \<and>
       (if r = NULL then \<forall>a\<in>set as. lk_key g a \<noteq> Key else r \<in> set as \<and> lk_key g r = Key)) \<and>
    lock_NumLocksFromKey Key g = Some (int (card {a \<in> set as. lk_key g a = Key}))"
proof (intro conjI)
  show "lock_Lookup l g = Some (if l \<in> set as then l else NULL)" by (rule lock_Lookup_eq [OF m])
  have nz: "NULL \<notin> set as" using m links_not_NULL unfolding fl_members_def by blast
  show "\<exists>r. lock_LookupFromKey Key g = Some r \<and>
       (if r = NULL then \<forall>a\<in>set as. lk_key g a \<noteq> Key else r \<in> set as \<and> lk_key g r = Key)"
  proof (cases "find (\<lambda>a. lk_key g a = Key) as")
    case None
    then have "lock_LookupFromKey Key g = Some NULL" using lock_LookupFromKey_eq [OF m, of Key] by simp
    moreover have "\<forall>a\<in>set as. lk_key g a \<noteq> Key" using None by (auto simp: find_None_iff)
    ultimately show ?thesis by simp
  next
    case (Some r)
    then have "r \<in> set as" "lk_key g r = Key" by (auto simp: find_Some_iff)
    then show ?thesis using lock_LookupFromKey_eq [OF m, of Key] Some nz by auto
  qed
  have "distinct (filter (\<lambda>a. lk_key g a = Key) as)" using m links_distinct by (auto simp: fl_members_def)
  then have "card {a \<in> set as. lk_key g a = Key} = length (filter (\<lambda>a. lk_key g a = Key) as)"
    using distinct_card by fastforce
  then show "lock_NumLocksFromKey Key g = Some (int (card {a \<in> set as. lk_key g a = Key}))"
    using lock_NumLocksFromKey_eq [OF m] by simp
qed

theorem lock_lookup_exact_witness:
  "lock_Lookup 6 two_locks = Some 6 \<and> lock_Lookup 7 two_locks = Some NULL \<and> lock_NumLocksFromKey 9 two_locks = Some 0"
proof -
  have k: "{a \<in> set [5, 6]. lk_key two_locks a = 9} = {}" by (auto simp: lk_key_def two_locks_def)
  show ?thesis
    using lock_lookup_exact [OF two_locks_members, of 6 9] lock_lookup_exact [OF two_locks_members, of 7 9] k by simp
qed

text \<open>Removing a lock from the list takes out exactly that lock, keeps the fields of all
  others, and a lock that is not in the list is reported with NULL; afterwards it is no
  longer accepted.\<close>

theorem lock_remove_exact:
  assumes m: "fl_members g as"
  shows "\<exists>g'. lock_Remove l g = Some (if l \<in> set as then l else NULL, g') \<and> fl_members g' (remove1 l as) \<and>
    lock_Lookup l g' = Some NULL \<and>
    (\<forall>k \<in> set as - {l}. lock_Lookup k g' = Some k)"
proof -
  obtain g' where g': "lock_Remove l g = Some (if l \<in> set as then l else NULL, g')" "fl_members g' (remove1 l as)"
    using lkr.remove_is_remove1 [OF m] by blast
  have "distinct as" by (rule lkr.members_distinct [OF m])
  then have "set (remove1 l as) = set as - {l}" by (rule set_remove1_eq)
  then show ?thesis using g' lock_Lookup_eq [OF g'(2)] by auto
qed

theorem lock_remove_exact_witness:
  "\<exists>g'. lock_Remove 6 two_locks = Some (6, g') \<and> lock_Lookup 6 g' = Some NULL \<and> lock_Lookup 5 g' = Some 5"
  using lock_remove_exact [OF two_locks_members, of 6] by auto

end
