(* ===== verification/Names.thy ===== *)
theory Names
  imports State
begin

text \<open>
  File names: src/src/fn.c and src/src/supp.c. A C string is the list of its characters without
  the final null; a BCPL string is the list of the bytes at its address, its length first.
  \<open>AddPart\<close>, \<open>FilePart\<close> and \<open>PathPart\<close> of dos.library are parameters; positions are indices.
  The results of memory allocation are arguments, in the order of the calls.

  Shown: the unifying of paths (\<open>fn_PathUnify\<close>) equals the walk over the path's components,
  except that it drops the dot at the end of a component; its result never contains an empty
  component; scanning a path yields its components one by one and restores the buffer; names
  survive the conversion to BCPL strings and back exactly up to 255 characters.
\<close>

abbreviation (input) SL :: char where "SL \<equiv> CHR ''/''"
abbreviation (input) DOT :: char where "DOT \<equiv> CHR ''.''"
abbreviation (input) COLON :: char where "COLON \<equiv> CHR '':''"
abbreviation (input) NUL :: char where "NUL \<equiv> CHR 0x00"

abbreviation MAX_LONGAMIGAFILENAMELEN :: int where "MAX_LONGAMIGAFILENAMELEN \<equiv> 106"

subsection \<open>The functions of dos.library\<close>

record dosnames =
  dos_AddPart :: "string \<Rightarrow> string \<Rightarrow> nat \<Rightarrow> string option"
  dos_FilePart :: "string \<Rightarrow> nat"
  dos_PathPart :: "string \<Rightarrow> nat"

subsection \<open>Strings\<close>

text \<open>The characters of a buffer up to the first null.\<close>

definition cstr_of :: "char list \<Rightarrow> string" where
  "cstr_of b = takeWhile (\<lambda>c. c \<noteq> NUL) b"

definition StrNDup :: "bool \<Rightarrow> string \<Rightarrow> nat \<Rightarrow> string option" where
  "StrNDup ok s l = (if ok then Some (take l s) else None)"

definition StrDup :: "bool \<Rightarrow> string \<Rightarrow> string option" where
  "StrDup ok s = StrNDup ok s (length s)"

text \<open>A BCPL string; \<open>None\<close> when fewer bytes are there than its length says. \<open>fn_B2CStr\<close> gives
  the copied bytes (a null ends the C string early) and the length.\<close>

definition bstr_len :: "char list \<Rightarrow> nat" where
  "bstr_len bs = (case bs of [] \<Rightarrow> 0 | c # _ \<Rightarrow> of_char c)"

definition fn_B2CStr :: "bool \<Rightarrow> char list \<Rightarrow> (char list option \<times> nat) option" where
  "fn_B2CStr ok bs =
     (let l = bstr_len bs in
      if bs = [] \<or> length bs < l + 1 then None
      else Some (if ok then Some (take l (tl bs)) else None, l))"

definition NewBSTR :: "bool \<Rightarrow> string \<Rightarrow> char list option" where
  "NewBSTR ok s = (if ok then Some (char_of (length s) # s @ [NUL]) else None)"

definition DupBSTR :: "bool \<Rightarrow> char list option \<Rightarrow> char list option option" where
  "DupBSTR ok bs =
     (case bs of None \<Rightarrow> Some None
      | Some s \<Rightarrow>
          if s = [] \<or> length s < bstr_len s + 1 then None
          else Some (if ok then Some (take (bstr_len s + 1) s @ [NUL]) else None))"

text \<open>The index of a character in a BCPL string, as an offset from its first character.\<close>

definition bstrchr :: "char list \<Rightarrow> char \<Rightarrow> nat option" where
  "bstrchr bs c =
     (let n = length (takeWhile (\<lambda>x. x \<noteq> c) (take (bstr_len bs) (tl bs)))
      in if n < length (take (bstr_len bs) (tl bs)) then Some n else None)"

definition strchr :: "string \<Rightarrow> char \<Rightarrow> nat option" where
  "strchr s c = (let n = length (takeWhile (\<lambda>x. x \<noteq> c) s) in if n < length s then Some n else None)"

subsection \<open>Amiga and Unix paths\<close>

fun am2un :: "string \<Rightarrow> string" where
  "am2un [] = []"
| "am2un (c # s) = (if c = SL \<and> s \<noteq> [] \<and> hd s = SL then c # DOT # DOT # am2un s else c # am2un s)"

definition fn_AM2UN :: "bool \<Rightarrow> string \<Rightarrow> string option" where
  "fn_AM2UN ok s = (if ok then Some (am2un s) else None)"

text \<open>The size of the buffer that the first loop of \<open>fn_AM2UN\<close> computes.\<close>

fun am2un_ecnt :: "string \<Rightarrow> nat" where
  "am2un_ecnt [] = 0"
| "am2un_ecnt (c # s) = (if c = SL \<and> s \<noteq> [] \<and> hd s = SL then 2 else 0) + am2un_ecnt s"

definition fn_AddPart :: "dosnames \<Rightarrow> bool \<Rightarrow> string \<Rightarrow> string \<Rightarrow> (string \<times> int) option" where
  "fn_AddPart dos ok s1 s2 =
     (let l = length s1 + length s2 + 3 in
      if \<not> ok then None
      else map_option (\<lambda>s. (s, int (length s))) (dos_AddPart dos s1 s2 l))"

text \<open>The copied bytes and the length that is reported; the inner \<open>None\<close> is NULL.\<close>

definition fn_FilePart :: "dosnames \<Rightarrow> (nat \<Rightarrow> bool) \<Rightarrow> string \<Rightarrow> (char list option \<times> int) option" where
  "fn_FilePart dos mem s =
     (let l = length s in
      if l = 0 then Some (StrDup (mem 0) [], 0)
      else if s ! (l - 1) = COLON then Some (StrNDup (mem 0) s l, int l)
      else
        let p1 = dos_FilePart dos s in
        if p1 > l then None
        else if p1 = l then
          if \<not> mem 0 then Some (None, 0)
          else if l < 2 then None
          else if s ! (l - 2) = SL then Some (None, 0)
          else
            let s2 = s[l - 1 := NUL]; p2 = dos_FilePart dos (take (l - 1) s) in
            if p2 > l - 1 then None else Some (StrNDup (mem 1) (drop p2 s2) (l - p2), int (l - p2))
        else Some (StrNDup (mem 0) (drop p1 s) (l - p1), int (l - p1)))"

definition fn_PathPart :: "dosnames \<Rightarrow> bool \<Rightarrow> string \<Rightarrow> (string option \<times> int)" where
  "fn_PathPart dos ok s =
     (let l = length s in
      if l = 0 then (StrDup ok [], 0)
      else if s ! (l - 1) = COLON then (StrNDup ok s l, int l)
      else let l2 = dos_PathPart dos s in (StrNDup ok s l2, int l2))"

subsection \<open>Scanning a path\<close>

text \<open>\<open>b\<close> is the buffer with the final null; the result is the index of the component, the buffer,
  and the values of \<open>Pos\<close> and \<open>LastElement\<close>.\<close>

definition scan_end :: "char list \<Rightarrow> nat \<Rightarrow> nat" where
  "scan_end b p = p + length (takeWhile (\<lambda>c. c \<noteq> NUL \<and> c \<noteq> SL) (drop p b))"

definition fn_ScanPath :: "char list \<Rightarrow> nat \<Rightarrow> bool \<Rightarrow> (nat \<times> char list \<times> nat \<times> bool) option" where
  "fn_ScanPath b Pos LastElement =
     (let p = Pos; b1 = (if Pos \<noteq> 0 then b[Pos - 1 := SL] else b); e = scan_end b1 p in
      if Pos > length b \<or> e \<ge> length b1 then None
      else if b1 ! e \<noteq> NUL
      then Some (p, if e \<noteq> p then b1[e := NUL] else b1, e + 1, LastElement)
      else Some (p, b1, Pos, True))"

subsection \<open>Unifying\<close>

text \<open>Stripping the last component of the output.\<close>

definition pu_strip :: "string \<Rightarrow> string" where
  "pu_strip d = (case dropWhile (\<lambda>c. c \<noteq> SL) (rev d) of [] \<Rightarrow> [] | _ # r \<Rightarrow> rev r)"

fun pu_slashes :: "string \<Rightarrow> string \<Rightarrow> (string \<times> string) option" where
  "pu_slashes (c # s) d =
     (if c = SL then (if d = [] then None else pu_slashes s (pu_strip d)) else Some (c # s, d))"
| "pu_slashes [] d = Some ([], d)"

lemma pu_slashes_length: "pu_slashes s d = Some (s', d') \<Longrightarrow> length s' \<le> length s"
  by (induction s d rule: pu_slashes.induct) (auto split: if_splits)

lemma pu_slashes_first:
  "(if b then None else pu_slashes s d) = Some (s', d') \<Longrightarrow> length s' < Suc (length s)"
  using pu_slashes_length [of s d s' d'] by (auto split: if_splits)

text \<open>The loop over the characters left: separator pending, the output, and whether
  directories were stripped; \<open>None\<close> is \<open>ERROR_INVALID_COMPONENT_NAME\<close>.\<close>

function pu_loop :: "string \<Rightarrow> bool \<Rightarrow> string \<Rightarrow> bool \<Rightarrow> (string \<times> bool) option" where
  "pu_loop [] AddSep d st = Some (d, st)"
| "pu_loop (c # s) AddSep d st =
     (if c = SL then
        (case s of
           [] \<Rightarrow> pu_loop s AddSep d st
         | c1 # s1 \<Rightarrow>
             if c1 = SL then
               (case pu_slashes s d of
                  None \<Rightarrow> None
                | Some (s', d') \<Rightarrow> pu_loop (SL # s') True d' True)
             else if c1 = DOT then
               if s1 = [] \<or> hd s1 = SL then pu_loop s1 AddSep d st
               else if hd s1 = DOT then
                 if tl s1 = [] \<or> hd (tl s1) = SL then
                   if d = [] then None else pu_loop (tl s1) True (pu_strip d) st
                 else pu_loop s True d st
               else pu_loop s True d st
             else pu_loop s True d st)
      else if c = DOT \<and> (s = [] \<or> hd s = SL) then pu_loop s AddSep d st
      else pu_loop s False ((if AddSep \<and> d \<noteq> [] then d @ [SL] else d) @ [c]) st)"
  by pat_completeness auto

termination
  by (relation "measure (\<lambda>(s, _). length s)") (auto dest: pu_slashes_first)

definition fn_PathUnify :: "bool \<Rightarrow> string \<Rightarrow> int + string \<times> bool" where
  "fn_PathUnify ok s =
     (if s \<noteq> [] \<and> hd s = SL \<or> take 2 s = [DOT, DOT] \<and> (length s = 2 \<or> s ! 2 = SL)
      then Inl ERROR_OBJECT_NOT_FOUND
      else if \<not> ok then Inl ERROR_NO_FREE_STORE
      else (case pu_loop s False [] False of
              None \<Rightarrow> Inl ERROR_INVALID_COMPONENT_NAME
            | Some (d, st) \<Rightarrow> if d \<noteq> [] \<and> hd d = SL then Inl ERROR_OBJECT_NOT_FOUND else Inr (d, st)))"

subsection \<open>Device names\<close>

definition fn_BPathWithoutDev :: "bool \<Rightarrow> char list \<Rightarrow> (int + string \<times> bool) option" where
  "fn_BPathWithoutDev ok bs =
     (if bs = [] \<or> length bs < bstr_len bs + 1 then None
      else
        let s0 = take (bstr_len bs) (tl bs);
            (s, IsAbsolute) = (case bstrchr bs COLON of Some i \<Rightarrow> (drop (i + 1) s0, True) | None \<Rightarrow> (s0, False))
        in if \<not> ok then Some (Inl ERROR_NO_FREE_STORE)
           else Some (Inr (if length s > 1 \<and> last s = SL \<and> s ! (length s - 2) \<noteq> SL then butlast s else s, IsAbsolute)))"

definition fn_PathWithoutDev :: "bool \<Rightarrow> string \<Rightarrow> int + string \<times> bool" where
  "fn_PathWithoutDev ok ss =
     (let (s, IsAbsolute) = (case strchr ss COLON of Some i \<Rightarrow> (drop (i + 1) ss, True) | None \<Rightarrow> (ss, False))
      in if \<not> ok then Inl ERROR_NO_FREE_STORE else Inr (s, IsAbsolute))"

subsection \<open>Resolving a link\<close>

text \<open>The contents of the buffer; the outer \<open>None\<close> for reading unset memory.\<close>

definition fn_InsertLink ::
  "dosnames \<Rightarrow> nat \<Rightarrow> string option \<Rightarrow> string \<Rightarrow> nat \<Rightarrow> nat \<Rightarrow> string \<Rightarrow> (int + string) option" where
  "fn_InsertLink dos BufLen Device Path From Len Link =
     (let dev = (case Device of None \<Rightarrow> Some (Inr None)
                 | Some D \<Rightarrow>
                     if length D + 2 > BufLen then Some (Inl ERROR_NO_FREE_STORE)
                     else if D = [] then None
                     else Some (Inr (Some (if last D \<noteq> COLON then D @ [COLON] else D))))
      in case dev of
           None \<Rightarrow> None
         | Some (Inl e) \<Rightarrow> Some (Inl e)
         | Some (Inr buf) \<Rightarrow>
             let pre = (case buf of None \<Rightarrow> [] | Some D \<Rightarrow> D); BufFree = BufLen - length pre
             in if From > 0 \<and> \<not> From < BufFree then Some (Inl ERROR_NO_FREE_STORE)
                else if From = 0 \<and> buf = None \<or> From + Len > length Path then None
                else
                  (case dos_AddPart dos (pre @ take (From - 1) Path) Link BufLen of
                     None \<Rightarrow> Some (Inl ERROR_NO_FREE_STORE)
                   | Some b1 \<Rightarrow>
                       if From + Len > length Path then None
                       else if From + Len = length Path then Some (Inr b1)
                       else (case dos_AddPart dos b1 (drop (From + Len + 1) Path) BufLen of
                               None \<Rightarrow> Some (Inl ERROR_NO_FREE_STORE)
                             | Some b2 \<Rightarrow> Some (Inr b2))))"

subsection \<open>What unifying means\<close>

text \<open>The components of a path; a single slash at the end closes the last one.\<close>

function path_comps :: "string \<Rightarrow> string list" where
  "path_comps [] = []"
| "path_comps (c # s) =
     takeWhile (\<lambda>x. x \<noteq> SL) (c # s) # path_comps (tl (dropWhile (\<lambda>x. x \<noteq> SL) (c # s)))"
  by pat_completeness auto
termination
  by (relation "measure length") (auto simp: length_dropWhile_le le_imp_less_Suc diff_le_self
      intro: le_less_trans [OF diff_le_self])

fun join_path :: "string list \<Rightarrow> string" where
  "join_path [] = []"
| "join_path [w] = w"
| "join_path (w # ws) = w @ SL # join_path ws"

definition trim_dot :: "string \<Rightarrow> string" where
  "trim_dot w = (if w \<noteq> [] \<and> last w = DOT then butlast w else w)"

text \<open>The walk over the components, with the directories entered so far.\<close>

fun walk :: "string list \<Rightarrow> string list \<Rightarrow> string list option" where
  "walk [] st = Some st"
| "walk (w # ws) st =
     (if w = [] \<or> w = [DOT, DOT] then if st = [] then None else walk ws (butlast st)
      else if w = [DOT] then walk ws st
      else walk ws (st @ [trim_dot w]))"

definition comps_ok :: "string list \<Rightarrow> bool" where
  "comps_ok st \<longleftrightarrow> (\<forall>w\<in>set st. w \<noteq> [] \<and> SL \<notin> set w)"

lemma comps_ok_simps [simp]:
  "comps_ok []" "comps_ok (w # ws) \<longleftrightarrow> w \<noteq> [] \<and> SL \<notin> set w \<and> comps_ok ws"
  "comps_ok (st @ ws) \<longleftrightarrow> comps_ok st \<and> comps_ok ws"
  by (auto simp: comps_ok_def)

lemma comps_ok_butlast: "comps_ok st \<Longrightarrow> comps_ok (butlast st)"
  by (auto simp: comps_ok_def dest: in_set_butlastD)

lemma join_path_snoc: "join_path (st @ [w]) = (if st = [] then w else join_path st @ SL # w)"
  by (induction st rule: join_path.induct) auto

lemma join_path_Cons: "join_path (w # ws) = (if ws = [] then w else w @ SL # join_path ws)"
  by (cases ws) auto

lemma join_path_Nil: "comps_ok st \<Longrightarrow> join_path st = [] \<longleftrightarrow> st = []"
  by (cases st) (auto simp: join_path_Cons)

lemma takeWhile_comp [simp]: "SL \<notin> set w \<Longrightarrow> takeWhile (\<lambda>c. c \<noteq> SL) w = w"
  "SL \<notin> set w \<Longrightarrow> dropWhile (\<lambda>c. c \<noteq> SL) w = []"
  by (auto simp: takeWhile_eq_all_conv)

lemma comp_append [simp]:
  "SL \<notin> set w \<Longrightarrow> takeWhile (\<lambda>c. c \<noteq> SL) (w @ SL # r) = w"
  "SL \<notin> set w \<Longrightarrow> dropWhile (\<lambda>c. c \<noteq> SL) (w @ SL # r) = SL # r"
  by (induction w) auto

lemma pu_strip_join: "comps_ok st \<Longrightarrow> st \<noteq> [] \<Longrightarrow> pu_strip (join_path st) = join_path (butlast st)"
proof (cases st rule: rev_cases)
  case (snoc ys w)
  assume "comps_ok st"
  then have w: "SL \<notin> set (rev w)" using snoc by simp
  show ?thesis
  proof (cases "ys = []")
    case True
    then show ?thesis using snoc w by (simp add: pu_strip_def)
  next
    case False
    have "rev (join_path st) = rev w @ SL # rev (join_path ys)" using snoc False by (simp add: join_path_snoc)
    then show ?thesis using snoc w by (simp add: pu_strip_def del: set_rev)
  qed
qed simp

lemma path_comps_comp: "SL \<notin> set w \<Longrightarrow> w \<noteq> [] \<Longrightarrow> path_comps w = [w]"
  by (cases w) auto

lemma path_comps_append: "SL \<notin> set w \<Longrightarrow> path_comps (w @ SL # r) = w # path_comps r"
  by (cases w) auto

lemma trim_dot_Cons: "trim_dot (c # u) = (if u = [] \<and> c = DOT then [] else c # trim_dot u)"
  by (auto simp: trim_dot_def)

lemma trim_dot_ok:
  assumes "w \<noteq> []" "w \<noteq> [DOT]" "SL \<notin> set w"
  shows "trim_dot w \<noteq> []" "SL \<notin> set (trim_dot w)"
proof -
  obtain ys y where "w = ys @ [y]" using assms(1) by (cases w rule: rev_cases) auto
  then show "trim_dot w \<noteq> []" "SL \<notin> set (trim_dot w)" using assms by (auto simp: trim_dot_def)
qed

text \<open>The rest of a component that has been begun.\<close>

lemma pu_loop_rest:
  "SL \<notin> set u \<Longrightarrow> r = [] \<or> hd r = SL \<Longrightarrow> pu_loop (u @ r) False d f = pu_loop r False (d @ trim_dot u) f"
proof (induction u arbitrary: d)
  case Nil
  then show ?case by (simp add: trim_dot_def)
next
  case (Cons c u)
  show ?case
  proof (cases "c = DOT \<and> u = []")
    case True
    then show ?thesis using Cons.prems by (simp add: trim_dot_def)
  next
    case False
    then have "\<not> (c = DOT \<and> (u @ r = [] \<or> hd (u @ r) = SL))" "c \<noteq> SL" using Cons.prems by (cases u; auto)+
    then have "pu_loop ((c # u) @ r) False d f = pu_loop (u @ r) False (d @ [c]) f" by auto
    also have "\<dots> = pu_loop r False (d @ [c] @ trim_dot u) f" using Cons by simp
    finally show ?thesis using False by (auto simp: trim_dot_Cons)
  qed
qed

lemma pu_loop_comp:
  assumes w: "SL \<notin> set w" "w \<noteq> []" "w \<noteq> [DOT]" and r: "r = [] \<or> hd r = SL" and st: "comps_ok st"
    and sep: "AddSep \<or> st = []"
  shows "pu_loop (w @ r) AddSep (join_path st) f = pu_loop r False (join_path (st @ [trim_dot w])) f"
proof -
  obtain c u where cu: "w = c # u" using w(2) by (cases w) auto
  have "\<not> (c = DOT \<and> (u @ r = [] \<or> hd (u @ r) = SL))" using w(1,3) cu by (cases u) auto
  then have "pu_loop (w @ r) AddSep (join_path st) f
      = pu_loop (u @ r) False ((if st \<noteq> [] then join_path st @ [SL] else []) @ [c]) f"
    using w(1) cu sep join_path_Nil [OF st] by auto
  also have "\<dots> = pu_loop r False ((if st \<noteq> [] then join_path st @ [SL] else []) @ [c] @ trim_dot u) f"
    using pu_loop_rest [of u r] w(1) r cu by simp
  finally show ?thesis using w(3) cu by (auto simp: join_path_snoc trim_dot_Cons)
qed

lemma pu_slashes_walk:
  "comps_ok st \<Longrightarrow>
     (case pu_slashes s (join_path st) of
        None \<Rightarrow> walk (path_comps s) st = None
      | Some (s', d') \<Rightarrow> \<exists>st'. d' = join_path st' \<and> comps_ok st' \<and> walk (path_comps s) st = walk (path_comps s') st' \<and>
          (set (path_comps s') \<subseteq> set (path_comps s)) \<and> (s' = s \<or> length s' < length s))"
proof (induction s arbitrary: st)
  case (Cons c s)
  show ?case
  proof (cases "c = SL")
    case True
    then show ?thesis
    proof (cases "st = []")
      case False
      have ok: "comps_ok (butlast st)" by (rule comps_ok_butlast [OF Cons.prems])
      show ?thesis using Cons.IH [OF ok] True False Cons.prems
        by (auto simp: join_path_Nil pu_strip_join split: option.splits)
    qed simp
  next
    case False
    then show ?thesis using Cons.prems by (simp del: path_comps.simps) (rule exI [of _ st], simp)
  qed
qed auto

lemma pu_loop_enter:
  assumes "takeWhile (\<lambda>c. c \<noteq> SL) s \<noteq> []" "takeWhile (\<lambda>c. c \<noteq> SL) s \<noteq> [DOT]" "takeWhile (\<lambda>c. c \<noteq> SL) s \<noteq> [DOT, DOT]"
  shows "pu_loop (SL # s) AddSep d f = pu_loop s True d f"
proof -
  obtain c1 s1 where s: "s = c1 # s1" "c1 \<noteq> SL" using assms(1) by (cases s) (auto split: if_splits)
  have "\<not> (s1 = [] \<or> hd s1 = SL)" "\<not> (hd s1 = DOT \<and> (tl s1 = [] \<or> hd (tl s1) = SL))" if "c1 = DOT"
    using assms s that by (cases s1; cases "tl s1"; auto)+
  then show ?thesis using s(2) by (subst pu_loop.simps(2)) (auto simp: s(1) simp del: pu_loop.simps)
qed

text \<open>At a slash, the loop walks the components behind it.\<close>

lemma pu_loop_slash:
  "comps_ok st \<Longrightarrow> pu_loop (SL # s) AddSep (join_path st) f =
     map_option (\<lambda>st'. (join_path st', f \<or> [] \<in> set (path_comps s))) (walk (path_comps s) st)"
proof (induction "length s" arbitrary: s AddSep st f rule: less_induct)
  case less
  define w where "w = takeWhile (\<lambda>c. c \<noteq> SL) s"
  define r where "r = dropWhile (\<lambda>c. c \<noteq> SL) s"
  have s: "s = w @ r" "SL \<notin> set w" by (auto simp: w_def r_def dest: set_takeWhileD)
  have hr: "r = [] \<or> hd r = SL" unfolding r_def using hd_dropWhile [of "\<lambda>c. c \<noteq> SL" s] by blast
  then have r: "r = [] \<or> (\<exists>s'. r = SL # s')" by (cases r) auto
  have comps: "s \<noteq> [] \<Longrightarrow> path_comps s = w # path_comps (tl r)" by (cases s) (auto simp: w_def r_def)
  have go: "pu_loop r AS (join_path st') f' = map_option (\<lambda>st'. (join_path st', f' \<or> [] \<in> set (path_comps (tl r)))) (walk (path_comps (tl r)) st')"
    if "w \<noteq> []" "comps_ok st'" for AS st' f'
    using r
  proof (elim disjE exE)
    fix s' assume r': "r = SL # s'"
    then have "length s' < length s" using s(1) by simp
    then show ?thesis unfolding r' list.sel by (rule less.hyps [OF _ that(2)])
  qed simp
  consider "s = []" | "s \<noteq> []" "w = []" | "w = [DOT]" | "w = [DOT, DOT]" | "w \<noteq> []" "w \<noteq> [DOT]" "w \<noteq> [DOT, DOT]" by blast
  then show ?case
  proof cases
    case 1
    then show ?thesis by simp
  next
    case 2
    then obtain s1 where s1: "s = SL # s1" using r s by auto
    have res: "pu_loop (SL # s) AddSep (join_path st) f =
        (case pu_slashes s (join_path st) of None \<Rightarrow> None | Some (s', d') \<Rightarrow> pu_loop (SL # s') True d' True)"
      by (simp add: s1)
    show ?thesis
    proof (cases "pu_slashes s (join_path st)")
      case None
      then show ?thesis unfolding res using pu_slashes_walk [OF less.prems, of s] by simp
    next
      case (Some p)
      obtain s' d' where p: "p = (s', d')" by (cases p)
      obtain st' where st': "d' = join_path st'" "comps_ok st'" "walk (path_comps s) st = walk (path_comps s') st'"
        using pu_slashes_walk [OF less.prems, of s] Some p by auto
      have "length s' < length s" using Some p s1 by (auto dest!: pu_slashes_first [of "join_path st = []" s1])
      from less.hyps [OF this st'(2), of True True]
      have "pu_loop (SL # s) AddSep (join_path st) f = map_option (\<lambda>st'. (join_path st', True)) (walk (path_comps s) st)"
        unfolding res Some p by (simp add: st' del: pu_loop.simps)
      then show ?thesis using comps 2 by simp
    qed
  next
    case 3
    then show ?thesis using go [of st AddSep f] less.prems s hr comps by (cases r) auto
  next
    case 4
    have step: "pu_loop (SL # s) AddSep (join_path st) f = (if st = [] then None else pu_loop r True (join_path (butlast st)) f)"
      using s(1) 4 hr join_path_Nil [OF less.prems] pu_strip_join [OF less.prems] by (cases r) auto
    then show ?thesis using go [of "butlast st" True f] comps_ok_butlast [OF less.prems] 4 s(1) comps by auto
  next
    case 5
    have "pu_loop (SL # s) AddSep (join_path st) f = pu_loop s True (join_path st) f"
      by (rule pu_loop_enter) (use 5 in \<open>simp_all add: w_def\<close>)
    also have "\<dots> = pu_loop r False (join_path (st @ [trim_dot w])) f"
      using pu_loop_comp [OF s(2) 5(1,2) hr less.prems] by (simp add: s(1) [symmetric])
    finally show ?thesis
      using go [OF 5(1), of "st @ [trim_dot w]" False f] trim_dot_ok [OF 5(1,2) s(2)] 5 less.prems s(1) comps
      by (simp del: pu_loop.simps) 
  qed
qed

lemma walk_ok:
  "walk ws st = Some st' \<Longrightarrow> comps_ok st \<Longrightarrow> (\<forall>w\<in>set ws. SL \<notin> set w) \<Longrightarrow> comps_ok st'"
  by (induction ws st rule: walk.induct) (auto simp: comps_ok_butlast trim_dot_ok split: if_splits)

lemma path_comps_slash: "w \<in> set (path_comps s) \<Longrightarrow> SL \<notin> set w"
  by (induction s rule: path_comps.induct) (auto dest: set_takeWhileD split: if_splits)

lemma join_path_hd: "comps_ok st \<Longrightarrow> join_path st \<noteq> [] \<Longrightarrow> hd (join_path st) \<noteq> SL"
  by (cases st) (auto simp: join_path_Cons hd_append dest: hd_in_set)

lemma fn_PathUnify_spec:
  "fn_PathUnify True s =
     (if s \<noteq> [] \<and> hd s = SL \<or> take 2 s = [DOT, DOT] \<and> (length s = 2 \<or> s ! 2 = SL) then Inl ERROR_OBJECT_NOT_FOUND
      else (case walk (path_comps s) [] of
              None \<Rightarrow> Inl ERROR_INVALID_COMPONENT_NAME
            | Some st \<Rightarrow> Inr (join_path st, [] \<in> set (path_comps s))))"
proof (cases "s \<noteq> [] \<and> hd s = SL \<or> take 2 s = [DOT, DOT] \<and> (length s = 2 \<or> s ! 2 = SL)")
  case True
  then show ?thesis by (auto simp: fn_PathUnify_def)
next
  case False
  have "pu_loop s False [] False = map_option (\<lambda>st. (join_path st, [] \<in> set (path_comps s))) (walk (path_comps s) [])"
  proof (cases "s = []")
    case ne: False
    define w where "w = takeWhile (\<lambda>c. c \<noteq> SL) s"
    define r where "r = dropWhile (\<lambda>c. c \<noteq> SL) s"
    have s: "s = w @ r" "SL \<notin> set w" by (auto simp: w_def r_def dest: set_takeWhileD)
    have hr: "r = [] \<or> hd r = SL" unfolding r_def using hd_dropWhile [of "\<lambda>c. c \<noteq> SL" s] by blast
    have w: "w \<noteq> []" using False ne by (cases s) (auto simp: w_def)
    have w2: "w \<noteq> [DOT, DOT]"
    proof
      assume "w = [DOT, DOT]"
      then have "s = DOT # DOT # r" using s(1) by simp
      then show False using False hr by (cases r) auto
    qed
    have comps: "path_comps s = w # path_comps (tl r)" using ne by (cases s) (auto simp: w_def r_def)
    have rest: "pu_loop r AS (join_path st) False = map_option (\<lambda>st. (join_path st, [] \<in> set (path_comps (tl r)))) (walk (path_comps (tl r)) st)"
      if "comps_ok st" for AS st
      using hr pu_loop_slash [OF that, of "tl r" AS False] by (cases r) (auto simp del: pu_loop.simps(2))
    show ?thesis
    proof (cases "w = [DOT]")
      case True
      then have "pu_loop s False [] False = pu_loop r False [] False" using s(1) hr by (cases r) auto
      then show ?thesis using rest [of "[]" False] comps True by (simp del: pu_loop.simps)
    next
      case False
      have "pu_loop s False [] False = pu_loop r False (join_path [trim_dot w]) False"
        using pu_loop_comp [OF s(2) w False hr, of "[]" False False] by (simp add: s(1) [symmetric] del: pu_loop.simps)
      then show ?thesis using rest [of "[trim_dot w]" False] trim_dot_ok [OF w False s(2)] comps False w w2
        by (simp del: pu_loop.simps join_path.simps)
    qed
  qed simp
  moreover have "hd (join_path st) \<noteq> SL" if "walk (path_comps s) [] = Some st" "join_path st \<noteq> []" for st
    by (rule join_path_hd [OF walk_ok [OF that(1)] that(2)]) (auto dest: path_comps_slash)
  ultimately show ?thesis using False by (auto simp: fn_PathUnify_def split: option.splits simp del: pu_loop.simps)
qed

text \<open>C27. Unifying a path is the walk over its components: an empty component and ``..'' leave the
  directory entered last and fail at the top with ERROR_INVALID_COMPONENT_NAME, ``.'' stays, every
  other component is entered, less a dot at its end. A path that begins with a slash or is
  under ``..'' is not found. The flag tells whether the path had empty components.\<close>

theorem fn_PathUnify_walk:
  "fn_PathUnify True s =
     (if s \<noteq> [] \<and> hd s = SL \<or> take 2 s = [DOT, DOT] \<and> (length s = 2 \<or> s ! 2 = SL) then Inl ERROR_OBJECT_NOT_FOUND
      else (case walk (path_comps s) [] of
              None \<Rightarrow> Inl ERROR_INVALID_COMPONENT_NAME
            | Some st \<Rightarrow> Inr (join_path st, [] \<in> set (path_comps s))))"
  by (rule fn_PathUnify_spec)

lemma path_comps_join: "comps_ok st \<Longrightarrow> path_comps (join_path st) = st"
  by (induction st rule: join_path.induct) (auto simp: path_comps_comp path_comps_append)

text \<open>C29. Slashes stand for parent directories: the Unix path that \<open>fn_AM2UN\<close> builds fits the
  buffer it computes exactly, and leads where the Amiga path leads.\<close>

theorem fn_AM2UN_same_walk:
  "fn_AM2UN True s = Some (am2un s) \<and> length (am2un s) = length s + am2un_ecnt s \<and>
   walk (path_comps (am2un s)) st = walk (path_comps s) st"
proof (intro conjI)
  have tl: "tl (dropWhile (\<lambda>x. x \<noteq> SL) (am2un s)) = (if tl (dropWhile (\<lambda>x. x \<noteq> SL) s) \<noteq> [] \<and> hd (tl (dropWhile (\<lambda>x. x \<noteq> SL) s)) = SL
      then [DOT, DOT] @ am2un (tl (dropWhile (\<lambda>x. x \<noteq> SL) s)) else am2un (tl (dropWhile (\<lambda>x. x \<noteq> SL) s)))" for s
    by (induction s) auto
  have tw: "takeWhile (\<lambda>x. x \<noteq> SL) (am2un s) = takeWhile (\<lambda>x. x \<noteq> SL) s" for s
    by (induction s) auto
  have nil: "am2un s = [] \<longleftrightarrow> s = []" for s by (cases s) auto
  have hd': "s \<noteq> [] \<Longrightarrow> hd (am2un s) = hd s" for s by (cases s) auto
  have step: "path_comps s = takeWhile (\<lambda>x. x \<noteq> SL) s # path_comps (tl (dropWhile (\<lambda>x. x \<noteq> SL) s))" if "s \<noteq> []" for s
    using that by (cases s) auto
  show "walk (path_comps (am2un s)) st = walk (path_comps s) st"
  proof (induction "length s" arbitrary: s st rule: less_induct)
    case less
    show ?case
    proof (cases "s = []")
      case False
      define w where "w = takeWhile (\<lambda>x. x \<noteq> SL) s"
      define r where "r = tl (dropWhile (\<lambda>x. x \<noteq> SL) s)"
      have "length r \<le> length s - 1" unfolding r_def by (simp add: diff_le_mono length_dropWhile_le)
      moreover have "0 < length s" using False by simp
      ultimately have r: "length r < length s" by linarith
      have c: "path_comps s = w # path_comps r" using step [OF False] by (simp add: w_def r_def)
      have a: "path_comps (am2un s) = w # path_comps (if r \<noteq> [] \<and> hd r = SL then [DOT, DOT] @ am2un r else am2un r)"
        unfolding w_def r_def tl [symmetric] tw [of s, symmetric] by (rule step) (use False nil in simp)
      have "walk (path_comps (if r \<noteq> [] \<and> hd r = SL then [DOT, DOT] @ am2un r else am2un r)) st' = walk (path_comps r) st'" for st'
      proof (cases "r \<noteq> [] \<and> hd r = SL")
        case True
        obtain m where m: "am2un r = SL # m" using hd' [of r] nil [of r] True by (cases "am2un r") auto
        have "path_comps ([DOT, DOT] @ am2un r) = [DOT, DOT] # path_comps m" using m by simp
        moreover have "path_comps (am2un r) = [] # path_comps m" using m by simp
        ultimately have "walk (path_comps ([DOT, DOT] @ am2un r)) st' = walk (path_comps (am2un r)) st'" by simp
        then show ?thesis unfolding if_P [OF True] by (simp only: less.hyps [OF r])
      next
        case False
        show ?thesis unfolding if_not_P [OF False] by (rule less.hyps [OF r])
      qed
      then show ?thesis unfolding c a by simp
    qed simp
  qed
  show "length (am2un s) = length s + am2un_ecnt s" by (induction s) auto
qed (simp add: fn_AM2UN_def)

text \<open>A dot at the end of a component is lost: the name of a file that ends in a dot becomes
  another name, and three dots become the name of the parent directory.\<close>

theorem fn_PathUnify_drops_dot:
  "fn_PathUnify True ''notes.'' = Inr (''notes'', False) \<and> fn_PathUnify True ''...'' = Inr (''..'', False) \<and>
   fn_PathUnify True ''a/...'' = Inr (''a/..'', False)"
  by (simp add: fn_PathUnify_spec trim_dot_def)

text \<open>Names as BCPL strings: a name comes back from its BCPL string, cut to its length modulo
  256, since the length is one byte; a copy of a BCPL string reads as the original.\<close>

theorem bstr_roundtrip:
  "\<exists>bs. NewBSTR True s = Some bs \<and> fn_B2CStr True bs = Some (Some (take (length s mod 256) s), length s mod 256) \<and>
     (\<exists>bs'. DupBSTR True (Some bs) = Some (Some bs') \<and> fn_B2CStr True bs' = fn_B2CStr True bs)"
proof -
  let ?n = "length s mod 256"
  have n: "bstr_len (char_of (length s) # t) = ?n" for t by (simp add: bstr_len_def)
  have le: "?n \<le> length s" by simp
  show ?thesis
    using le by (auto simp: NewBSTR_def fn_B2CStr_def DupBSTR_def Let_def n bstr_len_def min_def)
qed

subsection \<open>Scanning\<close>

text \<open>The buffer while the component behind \<open>xs\<close> is next: the slash before it is a null.\<close>

definition scan_buf :: "string list \<Rightarrow> string \<Rightarrow> char list" where
  "scan_buf xs r = (if xs = [] then r @ [NUL] else join_path xs @ NUL # r @ [NUL])"

definition scan_pos :: "string list \<Rightarrow> nat" where
  "scan_pos xs = (if xs = [] then 0 else length (join_path xs) + 1)"

definition no_nul :: "string list \<Rightarrow> bool" where
  "no_nul st \<longleftrightarrow> (\<forall>w\<in>set st. NUL \<notin> set w)"

lemma scan_restore:
  "(if scan_pos xs \<noteq> 0 then (scan_buf xs r)[scan_pos xs - 1 := SL] else scan_buf xs r)
     = (if xs = [] then [] else join_path xs @ [SL]) @ r @ [NUL]"
  by (simp add: scan_buf_def scan_pos_def)

lemma scan_step:
  assumes ok: "comps_ok (xs @ w # ys)" and nn: "no_nul (xs @ w # ys)"
  defines "b \<equiv> if ys = [] then join_path (xs @ [w]) @ [NUL] else scan_buf (xs @ [w]) (join_path ys)"
  shows "fn_ScanPath (scan_buf xs (join_path (w # ys))) (scan_pos xs) False =
      Some (scan_pos xs, b, if ys = [] then scan_pos xs else scan_pos (xs @ [w]), ys = [])"
    and "cstr_of (drop (scan_pos xs) b) = w"
proof -
  define pre where "pre = (if xs = [] then [] else join_path xs @ [SL])"
  let ?b1 = "pre @ w @ (if ys = [] then [NUL] else SL # join_path ys @ [NUL])"
  have len: "length pre = scan_pos xs" by (simp add: pre_def scan_pos_def)
  have w: "w \<noteq> []" "SL \<notin> set w" "NUL \<notin> set w" using ok nn by (auto simp: no_nul_def)
  have tw: "takeWhile (\<lambda>c. c \<noteq> NUL \<and> c \<noteq> SL) (w @ c # t) = w" if "c = NUL \<or> c = SL" for c t
    using w that by (subst takeWhile_append2) auto
  have tn: "takeWhile (\<lambda>c. c \<noteq> NUL) (w @ NUL # t) = w" for t
    using w(3) by (subst takeWhile_append2) auto
  have b1: "(if scan_pos xs \<noteq> 0 then (scan_buf xs (join_path (w # ys)))[scan_pos xs - 1 := SL]
      else scan_buf xs (join_path (w # ys))) = ?b1"
    unfolding scan_restore pre_def by (simp add: join_path_Cons)
  have e: "scan_end ?b1 (scan_pos xs) = scan_pos xs + length w"
    using tw by (simp add: scan_end_def len [symmetric])
  have lenb: "length (scan_buf xs (join_path (w # ys))) = length ?b1" by (subst b1 [symmetric]) simp
  have join: "join_path (xs @ [w]) = pre @ w" by (simp add: pre_def join_path_snoc)
  have pos: "scan_pos (xs @ [w]) = scan_pos xs + length w + 1" by (simp add: scan_pos_def join_path_snoc)
  have buf: "scan_buf (xs @ [w]) (join_path ys) = pre @ w @ NUL # join_path ys @ [NUL]" by (simp add: scan_buf_def join)
  show "fn_ScanPath (scan_buf xs (join_path (w # ys))) (scan_pos xs) False =
      Some (scan_pos xs, b, if ys = [] then scan_pos xs else scan_pos (xs @ [w]), ys = [])"
    unfolding fn_ScanPath_def Let_def b1 e lenb b_def
    using w(1) by (auto simp: len [symmetric] nth_append join pos buf list_update_append)
  show "cstr_of (drop (scan_pos xs) b) = w"
    unfolding b_def using tn by (auto simp: join buf len [symmetric] cstr_of_def)
qed

text \<open>Scanning a path: in a buffer with a unified path, each call of \<open>fn_ScanPath\<close> returns the
  next component as a string of its own, puts back the slash the call before took away, and
  reports the last component; after it the buffer holds the path again.\<close>

theorem fn_ScanPath_component:
  assumes "comps_ok (xs @ w # ys)" and "no_nul (xs @ w # ys)"
  shows "\<exists>b. fn_ScanPath (scan_buf xs (join_path (w # ys))) (scan_pos xs) False =
      Some (scan_pos xs, b, if ys = [] then scan_pos xs else scan_pos (xs @ [w]), ys = []) \<and>
    cstr_of (drop (scan_pos xs) b) = w \<and>
    b = (if ys = [] then join_path (xs @ [w]) @ [NUL] else scan_buf (xs @ [w]) (join_path ys))"
  using scan_step [OF assms] by blast

theorem fn_ScanPath_component_witness:
  "fn_ScanPath (''a/bc'' @ [NUL]) 0 False = Some (0, ''a'' @ NUL # ''bc'' @ [NUL], 2, False)"
  using fn_ScanPath_component [of "[]" "''a''" "[''bc'']"] by (simp add: no_nul_def scan_buf_def scan_pos_def)

subsection \<open>Name and directory of a path\<close>

text \<open>What dos.library documents of its functions, on the paths the handler builds.\<close>

definition plain :: "string list \<Rightarrow> bool" where
  "plain st \<longleftrightarrow> comps_ok st \<and> (\<forall>w\<in>set st. COLON \<notin> set w \<and> NUL \<notin> set w)"

definition dos_ok :: "dosnames \<Rightarrow> bool" where
  "dos_ok dos \<longleftrightarrow>
     (\<forall>st w. plain (st @ [w]) \<longrightarrow> dos_FilePart dos (join_path (st @ [w])) = length (join_path (st @ [w])) - length w \<and>
        dos_PathPart dos (join_path (st @ [w])) = length (join_path st)) \<and>
     (\<forall>d f n. f \<noteq> [] \<longrightarrow> hd f \<noteq> SL \<longrightarrow> COLON \<notin> set f \<longrightarrow> length d + length f + 2 \<le> n \<longrightarrow>
        dos_AddPart dos d f n = Some (if d = [] then f else if last d = SL \<or> last d = COLON then d @ f else d @ SL # f))"

definition std_dos :: dosnames where
  "std_dos =
     \<lparr>dos_AddPart = (\<lambda>d f n.
        let r = (if d = [] then f else if last d = SL \<or> last d = COLON then d @ f else d @ SL # f)
        in if length r < n then Some r else None),
      dos_FilePart = (\<lambda>s. length s - length (takeWhile (\<lambda>c. c \<noteq> SL \<and> c \<noteq> COLON) (rev s))),
      dos_PathPart = (\<lambda>s. let n = length s - length (takeWhile (\<lambda>c. c \<noteq> SL \<and> c \<noteq> COLON) (rev s))
                          in if n > 0 \<and> s ! (n - 1) = SL then n - 1 else n)\<rparr>"

lemma plain_simps [simp]:
  "plain []" "plain (w # ws) \<longleftrightarrow> w \<noteq> [] \<and> SL \<notin> set w \<and> COLON \<notin> set w \<and> NUL \<notin> set w \<and> plain ws" "plain (st @ ws) \<longleftrightarrow> plain st \<and> plain ws"
  by (auto simp: plain_def)

lemma std_dos_ok: "dos_ok std_dos"
proof -
  have tw: "takeWhile (\<lambda>c. c \<noteq> SL \<and> c \<noteq> COLON) (rev (join_path (st @ [w]))) = rev w" if "plain (st @ [w])" for st w
  proof -
    have w: "\<forall>c\<in>set (rev w). c \<noteq> SL \<and> c \<noteq> COLON" using that by (auto simp: plain_def)
    show ?thesis
    proof (cases "st = []")
      case True
      then show ?thesis using w by (simp add: takeWhile_eq_all_conv)
    next
      case False
      then have "rev (join_path (st @ [w])) = rev w @ SL # rev (join_path st)" by (simp add: join_path_snoc)
      then show ?thesis using w by (simp only:) (subst takeWhile_append2, auto)
    qed
  qed
  have len: "length (join_path (st @ [w])) = (if st = [] then 0 else length (join_path st) + 1) + length w" for st w
    by (simp add: join_path_snoc)
  have parts: "dos_FilePart std_dos (join_path (st @ [w])) = length (join_path (st @ [w])) - length w \<and>
      dos_PathPart std_dos (join_path (st @ [w])) = length (join_path st)" if "plain (st @ [w])" for st w
    using tw [OF that] by (simp add: std_dos_def Let_def len) (simp add: join_path_snoc nth_append)
  have "dos_AddPart std_dos d f n = Some (if d = [] then f else if last d = SL \<or> last d = COLON then d @ f else d @ SL # f)"
    if "length d + length f + 2 \<le> n" for d f n using that by (simp add: std_dos_def Let_def)
  with parts show ?thesis unfolding dos_ok_def by blast
qed

text \<open>The name and the directory of a unified path: \<open>fn_FilePart\<close> gives the last component,
  \<open>fn_PathPart\<close> the path before it, each with its length.\<close>

theorem fn_parts_of_path:
  assumes dos: "dos_ok dos" and st: "plain (st @ [w])"
  shows "fn_FilePart dos (\<lambda>_. True) (join_path (st @ [w])) = Some (Some w, int (length w)) \<and>
    fn_PathPart dos True (join_path (st @ [w])) = (Some (join_path st), int (length (join_path st)))"
proof -
  let ?s = "join_path (st @ [w])"
  have p: "dos_FilePart dos ?s = length ?s - length w" "dos_PathPart dos ?s = length (join_path st)"
    using dos st unfolding dos_ok_def by blast+
  define pre where "pre = (if st = [] then [] else join_path st @ [SL])"
  have s: "?s = pre @ w" by (simp add: pre_def join_path_snoc)
  have w: "w \<noteq> []" "COLON \<notin> set w" using st by (auto simp: plain_def)
  then have "last ?s = last w" "last w \<noteq> COLON" using last_in_set [of w] by (simp add: s, metis)
  then have l: "?s ! (length ?s - 1) \<noteq> COLON" "?s \<noteq> []" using w by (auto simp: s last_conv_nth)
  have "take (length (join_path st)) ?s = join_path st" by (simp add: join_path_snoc)
  then show ?thesis using p l w by (simp add: fn_FilePart_def fn_PathPart_def StrNDup_def Let_def s)
qed

theorem fn_parts_of_path_witness:
  "fn_FilePart std_dos (\<lambda>_. True) ''a/b'' = Some (Some ''b'', 1) \<and> fn_PathPart std_dos True ''a/b'' = (Some ''a'', 1)"
  using fn_parts_of_path [OF std_dos_ok, of "[''a'']" "''b''"] by (simp add: plain_def)

end
