(* ===== verification/NfsCalls.thy ===== *)
theory NfsCalls
  imports NfsSupp
begin

text \<open>
  The remaining remote calls of src/src/nfs.c: each fills the arguments of one client stub,
  and turns a failed call or an NFS status into the AmigaDOS error of the action. The stubs are
  the parameter \<open>nfs_ops\<close>; a stub that returns NULL is \<open>Inl\<close> of the client's RPC status. A
  wrapper's result is \<open>Inl Res2\<close> for NULL.

  \<open>nfs_Lookup\<close> looks a name up exactly and, when the server does not know it, reads the whole
  directory for a name that differs in case only. Shown: this search ends and finds the first
  such entry, on every server that hands out its directory piece by piece.
\<close>

subsection \<open>Arguments and results\<close>

record sattr =
  sa_mode :: u32
  sa_uid :: u32
  sa_gid :: u32
  sa_size :: u32
  sa_atime :: nfstime
  sa_mtime :: nfstime

record diropokres =
  dr_file :: nfs_fh
  dr_attributes :: fattr

record statfsokres =
  sf_tsize :: u32
  sf_bsize :: u32
  sf_blocks :: u32
  sf_bfree :: u32
  sf_bavail :: u32

text \<open>The client stubs. \<open>nfsproc_readdir_2\<close> takes the cookie and the size of the reply.\<close>

record 'srv nfs_ops =
  nfsproc_getattr_2 :: "nfs_fh \<Rightarrow> 'srv \<Rightarrow> (int + nfsstat \<times> fattr) \<times> 'srv"
  nfsproc_setattr_2 :: "nfs_fh \<Rightarrow> sattr \<Rightarrow> 'srv \<Rightarrow> (int + nfsstat \<times> fattr) \<times> 'srv"
  nfsproc_lookup_2 :: "nfs_fh \<Rightarrow> string \<Rightarrow> 'srv \<Rightarrow> (int + nfsstat \<times> diropokres) \<times> 'srv"
  nfsproc_readlink_2 :: "nfs_fh \<Rightarrow> 'srv \<Rightarrow> (int + nfsstat \<times> string) \<times> 'srv"
  nfsproc_create_2 :: "nfs_fh \<Rightarrow> string \<Rightarrow> sattr \<Rightarrow> 'srv \<Rightarrow> (int + nfsstat \<times> diropokres) \<times> 'srv"
  nfsproc_remove_2 :: "nfs_fh \<Rightarrow> string \<Rightarrow> 'srv \<Rightarrow> (int + nfsstat) \<times> 'srv"
  nfsproc_rename_2 :: "nfs_fh \<Rightarrow> string \<Rightarrow> nfs_fh \<Rightarrow> string \<Rightarrow> 'srv \<Rightarrow> (int + nfsstat) \<times> 'srv"
  nfsproc_link_2 :: "nfs_fh \<Rightarrow> nfs_fh \<Rightarrow> string \<Rightarrow> 'srv \<Rightarrow> (int + nfsstat) \<times> 'srv"
  nfsproc_symlink_2 :: "nfs_fh \<Rightarrow> string \<Rightarrow> string \<Rightarrow> sattr \<Rightarrow> 'srv \<Rightarrow> (int + nfsstat) \<times> 'srv"
  nfsproc_mkdir_2 :: "nfs_fh \<Rightarrow> string \<Rightarrow> sattr \<Rightarrow> 'srv \<Rightarrow> (int + nfsstat \<times> diropokres) \<times> 'srv"
  nfsproc_rmdir_2 :: "nfs_fh \<Rightarrow> string \<Rightarrow> 'srv \<Rightarrow> (int + nfsstat) \<times> 'srv"
  nfsproc_readdir_2 :: "nfs_fh \<Rightarrow> u32 \<Rightarrow> u32 \<Rightarrow> 'srv \<Rightarrow> (int + nfsstat \<times> entry list \<times> bool) \<times> 'srv"
  nfsproc_statfs_2 :: "nfs_fh \<Rightarrow> 'srv \<Rightarrow> (int + nfsstat \<times> statfsokres) \<times> 'srv"

text \<open>The two checks that every wrapper makes on its reply.\<close>

definition nfs_reply :: "char \<Rightarrow> (int + nfsstat \<times> 'a) \<times> 'srv \<Rightarrow> (int + 'a) \<times> 'srv" where
  "nfs_reply act r =
     (case r of
        (Inl clstat, srv) \<Rightarrow> (Inl (CLIENT2IoErr clstat), srv)
      | (Inr (status, x), srv) \<Rightarrow>
          if status \<noteq> NFS_OK then (Inl (NFSErr2IoErrCont status act), srv) else (Inr x, srv))"

definition nfs_reply_stat :: "char \<Rightarrow> (int + nfsstat) \<times> 'srv \<Rightarrow> (int + unit) \<times> 'srv" where
  "nfs_reply_stat act r = nfs_reply act (case r of (Inl c, srv) \<Rightarrow> (Inl c, srv) | (Inr st, srv) \<Rightarrow> (Inr (st, ()), srv))"

subsection \<open>Single calls\<close>

abbreviation no_time :: nfstime where "no_time \<equiv> \<lparr>seconds = -1, useconds = -1\<rparr>"

definition nfs_GetAttr :: "'srv nfs_ops \<Rightarrow> nfs_fh \<Rightarrow> 'srv \<Rightarrow> (int + fattr) \<times> 'srv" where
  "nfs_GetAttr ops fh srv = nfs_reply CHR ''r'' (nfsproc_getattr_2 ops fh srv)"

definition nfs_SetAttr ::
  "'srv nfs_ops \<Rightarrow> nfs_fh \<Rightarrow> u32 \<Rightarrow> u32 \<Rightarrow> u32 \<Rightarrow> u32 \<Rightarrow> nfstime option \<Rightarrow> 'srv \<Rightarrow> (int + fattr) \<times> 'srv" where
  "nfs_SetAttr ops fh Mode Uid Gid Size tv srv =
     (let t = (case tv of None \<Rightarrow> no_time | Some t \<Rightarrow> t);
          a = \<lparr>sa_mode = Mode, sa_uid = Uid, sa_gid = Gid, sa_size = Size, sa_atime = t, sa_mtime = t\<rparr>
      in nfs_reply CHR ''w'' (nfsproc_setattr_2 ops fh a srv))"

definition nfs_ReadLink :: "'srv nfs_ops \<Rightarrow> nfs_fh \<Rightarrow> 'srv \<Rightarrow> (int + string) \<times> 'srv" where
  "nfs_ReadLink ops fh srv = nfs_reply CHR ''r'' (nfsproc_readlink_2 ops fh srv)"

definition nfs_Create ::
  "'srv nfs_ops \<Rightarrow> nfs_fh \<Rightarrow> string \<Rightarrow> u32 \<Rightarrow> u32 \<Rightarrow> u32 \<Rightarrow> u32 \<Rightarrow> 'srv \<Rightarrow> (int + diropokres) \<times> 'srv" where
  "nfs_Create ops dirfh name UID GID Mode Sz srv =
     nfs_reply CHR ''c'' (nfsproc_create_2 ops dirfh name
       \<lparr>sa_mode = Mode, sa_uid = UID, sa_gid = GID, sa_size = Sz, sa_atime = no_time, sa_mtime = no_time\<rparr> srv)"

definition nfs_Remove :: "'srv nfs_ops \<Rightarrow> nfs_fh \<Rightarrow> string \<Rightarrow> 'srv \<Rightarrow> (int + unit) \<times> 'srv" where
  "nfs_Remove ops dirfh name srv = nfs_reply_stat CHR ''w'' (nfsproc_remove_2 ops dirfh name srv)"

definition nfs_Rename ::
  "'srv nfs_ops \<Rightarrow> nfs_fh \<Rightarrow> string \<Rightarrow> nfs_fh \<Rightarrow> string \<Rightarrow> 'srv \<Rightarrow> (int + unit) \<times> 'srv" where
  "nfs_Rename ops dirfh1 name1 dirfh2 name2 srv =
     nfs_reply_stat CHR ''w'' (nfsproc_rename_2 ops dirfh1 name1 dirfh2 name2 srv)"

definition nfs_Link :: "'srv nfs_ops \<Rightarrow> nfs_fh \<Rightarrow> nfs_fh \<Rightarrow> string \<Rightarrow> 'srv \<Rightarrow> (int + unit) \<times> 'srv" where
  "nfs_Link ops fromfh dirfh Name srv = nfs_reply_stat CHR ''w'' (nfsproc_link_2 ops fromfh dirfh Name srv)"

definition nfs_Symlink ::
  "'srv nfs_ops \<Rightarrow> nfs_fh \<Rightarrow> string \<Rightarrow> u32 \<Rightarrow> u32 \<Rightarrow> string \<Rightarrow> 'srv \<Rightarrow> (int + unit) \<times> 'srv" where
  "nfs_Symlink ops dirfh Name UID GID Path srv =
     nfs_reply_stat CHR ''w'' (nfsproc_symlink_2 ops dirfh Name Path
       \<lparr>sa_mode = 0x1FF, sa_uid = UID, sa_gid = GID, sa_size = -1, sa_atime = no_time, sa_mtime = no_time\<rparr> srv)"

definition nfs_MkDir ::
  "'srv nfs_ops \<Rightarrow> nfs_fh \<Rightarrow> string \<Rightarrow> u32 \<Rightarrow> u32 \<Rightarrow> u32 \<Rightarrow> 'srv \<Rightarrow> (int + diropokres) \<times> 'srv" where
  "nfs_MkDir ops dirfh name UID GID Mode srv =
     nfs_reply CHR ''c'' (nfsproc_mkdir_2 ops dirfh name
       \<lparr>sa_mode = Mode, sa_uid = UID, sa_gid = GID, sa_size = -1, sa_atime = no_time, sa_mtime = no_time\<rparr> srv)"

definition nfs_RmDir :: "'srv nfs_ops \<Rightarrow> nfs_fh \<Rightarrow> string \<Rightarrow> 'srv \<Rightarrow> (int + unit) \<times> 'srv" where
  "nfs_RmDir ops dirfh name srv = nfs_reply_stat CHR ''w'' (nfsproc_rmdir_2 ops dirfh name srv)"

definition nfs_statfs :: "'srv nfs_ops \<Rightarrow> nfs_fh \<Rightarrow> 'srv \<Rightarrow> (int + statfsokres) \<times> 'srv" where
  "nfs_statfs ops dir srv = nfs_reply CHR ''r'' (nfsproc_statfs_2 ops dir srv)"

text \<open>\<open>Eof\<close> and \<open>Res2\<close> are passed through: on success only \<open>Eof\<close> is set, on failure only \<open>Res2\<close>,
  and NULL, the empty list, is also the answer of a reply without entries.\<close>

definition nfs_ReadDir ::
  "'srv nfs_ops \<Rightarrow> nfs_fh \<Rightarrow> u32 \<Rightarrow> u32 \<Rightarrow> bool \<Rightarrow> int \<Rightarrow> 'srv \<Rightarrow> (entry list \<times> bool \<times> int) \<times> 'srv" where
  "nfs_ReadDir ops dir cookie BufSize Eof Res2 srv =
     (case nfs_reply CHR ''r'' (nfsproc_readdir_2 ops dir cookie BufSize srv) of
        (Inl e, srv') \<Rightarrow> (([], Eof, e), srv')
      | (Inr (ents, eof), srv') \<Rightarrow> ((ents, eof, Res2), srv'))"

definition nfs_Chmod :: "'srv nfs_ops \<Rightarrow> nfs_fh \<Rightarrow> u32 \<Rightarrow> 'srv \<Rightarrow> (int + fattr) \<times> 'srv" where
  "nfs_Chmod ops fh Mode srv = nfs_SetAttr ops fh Mode (-1) (-1) (-1) None srv"

definition nfs_SetSize :: "'srv nfs_ops \<Rightarrow> nfs_fh \<Rightarrow> int \<Rightarrow> 'srv \<Rightarrow> (int + fattr) \<times> 'srv" where
  "nfs_SetSize ops fh Sz srv = nfs_SetAttr ops fh (-1) (-1) (-1) (ULONG_of Sz) None srv"

definition nfs_SetTimes :: "'srv nfs_ops \<Rightarrow> nfs_fh \<Rightarrow> nfstime \<Rightarrow> 'srv \<Rightarrow> (int + fattr) \<times> 'srv" where
  "nfs_SetTimes ops fh tv srv = nfs_SetAttr ops fh (-1) (-1) (-1) (-1) (Some tv) srv"

definition nfs_SetUidGid :: "'srv nfs_ops \<Rightarrow> nfs_fh \<Rightarrow> u32 \<Rightarrow> u32 \<Rightarrow> 'srv \<Rightarrow> (int + fattr) \<times> 'srv" where
  "nfs_SetUidGid ops fh uid gid srv = nfs_SetAttr ops fh (-1) uid gid (-1) None srv"

subsection \<open>Looking a name up\<close>

text \<open>The case-insensitive comparisons of the C library.\<close>

definition to_lower :: "char \<Rightarrow> char" where
  "to_lower c = (let n = of_char c :: nat in if 65 \<le> n \<and> n \<le> 90 then char_of (n + 32) else c)"

definition stricmp_eq :: "string \<Rightarrow> string \<Rightarrow> bool" where
  "stricmp_eq s t \<longleftrightarrow> map to_lower s = map to_lower t"

definition strnicmp_eq :: "string \<Rightarrow> string \<Rightarrow> nat \<Rightarrow> bool" where
  "strnicmp_eq s t n \<longleftrightarrow> map to_lower (take n s) = map to_lower (take n t)"

definition nc_match :: "string \<Rightarrow> entry \<Rightarrow> bool" where
  "nc_match name en \<longleftrightarrow>
     (length name \<ge> 106 \<and> strnicmp_eq (en_name en) name 106) \<or>
     (length name < 106 \<and> stricmp_eq (en_name en) name)"

definition nfs_ILookup_exact :: "'srv nfs_ops \<Rightarrow> nfs_fh \<Rightarrow> string \<Rightarrow> 'srv \<Rightarrow> (int + diropokres) \<times> 'srv" where
  "nfs_ILookup_exact ops dirfh name srv = nfs_reply CHR ''r'' (nfsproc_lookup_2 ops dirfh name srv)"

text \<open>The search through the directory. \<open>None\<close> also stands for a name that overflows the local
  array of 255 bytes.\<close>

partial_function (option) lookup_nc_loop ::
  "'srv nfs_ops \<Rightarrow> nfs_fh \<Rightarrow> string \<Rightarrow> u32 \<Rightarrow> u32 \<Rightarrow> bool \<Rightarrow> int \<Rightarrow> 'srv \<Rightarrow> ((int + diropokres) \<times> 'srv) option"
where
  "lookup_nc_loop ops dirfh name MaxRead cookie Eof Res2 srv =
     (let ((entries, Eof', Res2'), srv1) = nfs_ReadDir ops dirfh cookie MaxRead Eof Res2 srv in
      if entries = [] then Some (Inl (if Eof' then ERROR_OBJECT_NOT_FOUND else Res2'), srv1)
      else
        (case find (nc_match name) entries of
           Some en \<Rightarrow> if length (en_name en) \<ge> 255 then None
                      else Some (nfs_ILookup_exact ops dirfh (en_name en) srv1)
         | None \<Rightarrow>
             if Eof' then Some (Inl ERROR_OBJECT_NOT_FOUND, srv1)
             else lookup_nc_loop ops dirfh name MaxRead (en_cookie (last entries)) Eof' Res2' srv1))"

declare lookup_nc_loop.simps [code]

definition nfs_LookupNC ::
  "'srv nfs_ops \<Rightarrow> nfs_fh \<Rightarrow> string \<Rightarrow> u32 \<Rightarrow> int \<Rightarrow> 'srv \<Rightarrow> ((int + diropokres) \<times> 'srv) option" where
  "nfs_LookupNC ops dirfh name MaxRead Res2 srv =
     lookup_nc_loop ops dirfh name (min MaxRead NFS_MAXDATA) 0 False Res2 srv"

definition nfs_ILookup ::
  "'srv nfs_ops \<Rightarrow> nfs_fh \<Rightarrow> string \<Rightarrow> u32 \<Rightarrow> int \<Rightarrow> bool \<Rightarrow> 'srv \<Rightarrow> ((int + diropokres) \<times> 'srv) option" where
  "nfs_ILookup ops dirfh name MaxReadDirSize Res2 DoCaseInsensitive srv =
     (case nfsproc_lookup_2 ops dirfh name srv of
        (Inr (NFSERR_NOENT, r), srv1) \<Rightarrow>
          if DoCaseInsensitive then nfs_LookupNC ops dirfh name MaxReadDirSize Res2 srv1
          else Some (nfs_reply CHR ''r'' (Inr (NFSERR_NOENT, r), srv1))
      | res \<Rightarrow> Some (nfs_reply CHR ''r'' res))"

definition nfs_Lookup ::
  "'srv nfs_ops \<Rightarrow> nfs_fh \<Rightarrow> string \<Rightarrow> u32 \<Rightarrow> int \<Rightarrow> 'srv \<Rightarrow> ((int + diropokres) \<times> 'srv) option" where
  "nfs_Lookup ops dirfh name MaxReadDirSize Res2 srv = nfs_ILookup ops dirfh name MaxReadDirSize Res2 True srv"

subsection \<open>Results of the wrappers\<close>

text \<open>What the client library keeps: a stub that returns NULL leaves a status above 0.\<close>

definition clnt_fails_nonzero :: "(int + 'a) \<times> 'srv \<Rightarrow> bool" where
  "clnt_fails_nonzero r \<longleftrightarrow> (\<forall>c s. r = (Inl c, s) \<longrightarrow> 0 < c)"

lemma nfs_reply_nonzero: "clnt_fails_nonzero r \<Longrightarrow> fst (nfs_reply act r) \<noteq> Inl 0"
  by (cases r; cases "fst r") (auto simp: nfs_reply_def clnt_fails_nonzero_def CLIENT2IoErr_def split: prod.splits)

lemma nfs_reply_stat_nonzero: "clnt_fails_nonzero r \<Longrightarrow> fst (nfs_reply_stat act r) \<noteq> Inl 0"
  unfolding nfs_reply_stat_def
  by (rule nfs_reply_nonzero) (auto simp: clnt_fails_nonzero_def split: prod.splits sum.splits)

text \<open>No failure is lost: whatever the client library or the server answers, a wrapper that
  fails reports an error other than 0, for the calls on attributes, names, links and
  directories alike.\<close>

theorem nfs_calls_report_errors:
  assumes "\<And>fh s. clnt_fails_nonzero (nfsproc_getattr_2 ops fh s)" "\<And>fh a s. clnt_fails_nonzero (nfsproc_setattr_2 ops fh a s)"
    "\<And>fh s. clnt_fails_nonzero (nfsproc_readlink_2 ops fh s)" "\<And>fh nm a s. clnt_fails_nonzero (nfsproc_create_2 ops fh nm a s)"
    "\<And>fh nm s. clnt_fails_nonzero (nfsproc_remove_2 ops fh nm s)" "\<And>fh nm fh' nm' s. clnt_fails_nonzero (nfsproc_rename_2 ops fh nm fh' nm' s)"
    "\<And>fh fh' nm s. clnt_fails_nonzero (nfsproc_link_2 ops fh fh' nm s)" "\<And>fh nm p a s. clnt_fails_nonzero (nfsproc_symlink_2 ops fh nm p a s)"
    "\<And>fh nm a s. clnt_fails_nonzero (nfsproc_mkdir_2 ops fh nm a s)" "\<And>fh nm s. clnt_fails_nonzero (nfsproc_rmdir_2 ops fh nm s)"
    "\<And>fh s. clnt_fails_nonzero (nfsproc_statfs_2 ops fh s)"
  shows "fst (nfs_GetAttr ops fh s) \<noteq> Inl 0 \<and> fst (nfs_SetAttr ops fh mode uid gid sz tv s) \<noteq> Inl 0 \<and>
    fst (nfs_ReadLink ops fh s) \<noteq> Inl 0 \<and> fst (nfs_Create ops fh nm uid gid mode sz s) \<noteq> Inl 0 \<and>
    fst (nfs_Remove ops fh nm s) \<noteq> Inl 0 \<and> fst (nfs_Rename ops fh nm fh' nm' s) \<noteq> Inl 0 \<and>
    fst (nfs_Link ops fh fh' nm s) \<noteq> Inl 0 \<and> fst (nfs_Symlink ops fh nm uid gid path s) \<noteq> Inl 0 \<and>
    fst (nfs_MkDir ops fh nm uid gid mode s) \<noteq> Inl 0 \<and> fst (nfs_RmDir ops fh nm s) \<noteq> Inl 0 \<and>
    fst (nfs_statfs ops fh s) \<noteq> Inl 0"
  using assms
  by (simp add: nfs_reply_nonzero nfs_reply_stat_nonzero nfs_GetAttr_def nfs_SetAttr_def nfs_ReadLink_def nfs_Create_def
      nfs_Remove_def nfs_Rename_def nfs_Link_def nfs_Symlink_def nfs_MkDir_def nfs_RmDir_def nfs_statfs_def Let_def)

text \<open>A server with the directories \<open>docs\<close> and, in it, the file \<open>Read.Me\<close>.\<close>

definition toy_fattr :: "ftype \<Rightarrow> u32 \<Rightarrow> fattr" where
  "toy_fattr t i =
     \<lparr>fa_type = t, fa_mode = 0x1ED, fa_nlink = 1, fa_uid = 0, fa_gid = 0, fa_size = 10, fa_blocksize = 512, fa_rdev = 0,
      fa_blocks = 1, fa_fsid = 1, fa_fileid = i, fa_atime = \<lparr>seconds = 1, useconds = 0\<rparr>, fa_mtime = \<lparr>seconds = 1, useconds = 0\<rparr>,
      fa_ctime = \<lparr>seconds = 1, useconds = 0\<rparr>\<rparr>"

definition toy_ents :: "nfs_fh \<Rightarrow> entry list" where
  "toy_ents fh = (if fh = [1] then [\<lparr>en_fileid = 2, en_name = ''docs'', en_cookie = 1\<rparr>]
                  else if fh = [2] then [\<lparr>en_fileid = 3, en_name = ''Read.Me'', en_cookie = 1\<rparr>] else [])"

definition toy_res :: "nfs_fh \<Rightarrow> string \<Rightarrow> diropokres" where
  "toy_res fh nm = (if fh = [1] then \<lparr>dr_file = [2], dr_attributes = toy_fattr NFDIR 2\<rparr>
                    else \<lparr>dr_file = [3], dr_attributes = toy_fattr NFREG 3\<rparr>)"

definition toy_ops :: "unit nfs_ops" where
  "toy_ops =
     \<lparr>nfsproc_getattr_2 = (\<lambda>fh s. (Inr (NFS_OK, if fh = [1] then toy_fattr NFDIR 1 else if fh = [2] then toy_fattr NFDIR 2
                                   else toy_fattr NFREG 3), s)),
      nfsproc_setattr_2 = (\<lambda>fh a s. (Inr (NFS_OK, (toy_fattr NFREG 3)\<lparr>fa_mode := sa_mode a\<rparr>), s)),
      nfsproc_lookup_2 = (\<lambda>fh nm s. (Inr (if nm \<in> en_name ` set (toy_ents fh) then NFS_OK else NFSERR_NOENT, toy_res fh nm), s)),
      nfsproc_readlink_2 = (\<lambda>fh s. (Inr (NFSERR_NXIO, []), s)),
      nfsproc_create_2 = (\<lambda>fh nm a s. (Inr (NFSERR_ROFS, toy_res fh nm), s)),
      nfsproc_remove_2 = (\<lambda>fh nm s. (Inr NFSERR_ROFS, s)),
      nfsproc_rename_2 = (\<lambda>fh nm fh' nm' s. (Inr NFSERR_ROFS, s)),
      nfsproc_link_2 = (\<lambda>fh fh' nm s. (Inr NFSERR_ROFS, s)),
      nfsproc_symlink_2 = (\<lambda>fh nm p a s. (Inr NFSERR_ROFS, s)),
      nfsproc_mkdir_2 = (\<lambda>fh nm a s. (Inr (NFSERR_ROFS, toy_res fh nm), s)),
      nfsproc_rmdir_2 = (\<lambda>fh nm s. (Inr NFSERR_ROFS, s)),
      nfsproc_readdir_2 = (\<lambda>fh c n s. (Inr (NFS_OK, drop (unat c) (toy_ents fh), True), s)),
      nfsproc_statfs_2 = (\<lambda>fh s. (Inr (NFS_OK, \<lparr>sf_tsize = 8192, sf_bsize = 512, sf_blocks = 100, sf_bfree = 50, sf_bavail = 40\<rparr>), s))\<rparr>"

theorem nfs_calls_report_errors_witness:
  "fst (nfs_Remove toy_ops [1] ''docs'' ()) \<noteq> Inl 0 \<and> fst (nfs_ReadLink toy_ops [3] ()) \<noteq> Inl 0"
  using nfs_calls_report_errors [where ops = toy_ops and fh = "[3]" and s = "()"]
    nfs_calls_report_errors [where ops = toy_ops and fh = "[1]" and s = "()" and nm = "''docs''"]
  by (simp add: toy_ops_def clnt_fails_nonzero_def)

text \<open>The calls that change one attribute leave the others alone: every field of the request
  that is not meant to change is all ones, the value NFS reserves for that.\<close>

theorem nfs_setattr_fields:
  assumes "nfsproc_setattr_2 ops = (\<lambda>fh a srv. (Inr (NFS_OK, upd a), srv))"
  shows "nfs_Chmod ops fh m srv = (Inr (upd \<lparr>sa_mode = m, sa_uid = -1, sa_gid = -1, sa_size = -1, sa_atime = no_time, sa_mtime = no_time\<rparr>), srv) \<and>
    nfs_SetSize ops fh n srv = (Inr (upd \<lparr>sa_mode = -1, sa_uid = -1, sa_gid = -1, sa_size = ULONG_of n, sa_atime = no_time, sa_mtime = no_time\<rparr>), srv) \<and>
    nfs_SetTimes ops fh t srv = (Inr (upd \<lparr>sa_mode = -1, sa_uid = -1, sa_gid = -1, sa_size = -1, sa_atime = t, sa_mtime = t\<rparr>), srv) \<and>
    nfs_SetUidGid ops fh u v srv = (Inr (upd \<lparr>sa_mode = -1, sa_uid = u, sa_gid = v, sa_size = -1, sa_atime = no_time, sa_mtime = no_time\<rparr>), srv)"
  using assms by (simp add: nfs_Chmod_def nfs_SetSize_def nfs_SetTimes_def nfs_SetUidGid_def nfs_SetAttr_def nfs_reply_def Let_def)

theorem nfs_setattr_fields_witness:
  "nfs_Chmod (toy_ops\<lparr>nfsproc_setattr_2 := \<lambda>fh a srv. (Inr (NFS_OK, toy_fattr NFREG (sa_mode a)), srv)\<rparr>) [3] 5 ()
     = (Inr (toy_fattr NFREG 5), ())"
  using nfs_setattr_fields [of "toy_ops\<lparr>nfsproc_setattr_2 := \<lambda>fh a srv. (Inr (NFS_OK, toy_fattr NFREG (sa_mode a)), srv)\<rparr>"
      "\<lambda>a. toy_fattr NFREG (sa_mode a)" "[3]" 5] by simp

lemma find_append: "find P (xs @ ys) = (case find P xs of None \<Rightarrow> find P ys | Some x \<Rightarrow> Some x)"
  by (induction xs) auto

subsection \<open>The search through a directory\<close>

text \<open>A server with the directories \<open>ents\<close>, in the states \<open>R\<close>: a reply of \<open>readdir\<close> holds entries from
  the position that the cookie stands for, at least one if there are any, and the cookie of its
  last entry stands for the position behind it. A lookup finds the names of the entries. Both
  leave the server in a state of \<open>R\<close>; nothing is said of its other states and of other calls.\<close>

definition dir_server :: "'srv nfs_ops \<Rightarrow> ('srv \<Rightarrow> bool) \<Rightarrow> (nfs_fh \<Rightarrow> entry list) \<Rightarrow> (nfs_fh \<Rightarrow> u32 \<Rightarrow> nat) \<Rightarrow> bool" where
  "dir_server ops R ents pos \<longleftrightarrow>
     (\<forall>fh. pos fh 0 = 0) \<and>
     (\<forall>fh c n srv. R srv \<longrightarrow> (\<exists>chunk eof srv' rest. nfsproc_readdir_2 ops fh c n srv = (Inr (NFS_OK, chunk, eof), srv') \<and>
        R srv' \<and> drop (pos fh c) (ents fh) = chunk @ rest \<and>
        (chunk \<noteq> [] \<longrightarrow> pos fh (en_cookie (last chunk)) = pos fh c + length chunk) \<and>
        (eof \<longleftrightarrow> rest = []) \<and> (chunk = [] \<longrightarrow> rest = [])))"

definition lookup_server ::
  "'srv nfs_ops \<Rightarrow> ('srv \<Rightarrow> bool) \<Rightarrow> (nfs_fh \<Rightarrow> entry list) \<Rightarrow> (nfs_fh \<Rightarrow> string \<Rightarrow> diropokres) \<Rightarrow> bool" where
  "lookup_server ops R ents res \<longleftrightarrow>
     (\<forall>fh nm srv. R srv \<longrightarrow> (\<exists>srv' r. nfsproc_lookup_2 ops fh nm srv =
          (Inr (if nm \<in> en_name ` set (ents fh) then (NFS_OK, res fh nm) else (NFSERR_NOENT, r)), srv') \<and> R srv'))"

lemma lookup_nc_loop_spec:
  assumes srv: "dir_server ops R ents pos"
  shows "pos fh c \<le> length (ents fh) \<Longrightarrow> R s \<Longrightarrow>
     (case find (nc_match name) (drop (pos fh c) (ents fh)) of
        None \<Rightarrow> \<exists>s'. lookup_nc_loop ops fh name M c E Rs s = Some (Inl ERROR_OBJECT_NOT_FOUND, s') \<and> R s'
      | Some en \<Rightarrow> \<exists>s'. R s' \<and> lookup_nc_loop ops fh name M c E Rs s =
          (if length (en_name en) \<ge> 255 then None else Some (nfs_ILookup_exact ops fh (en_name en) s')))"
proof (induction "length (ents fh) - pos fh c" arbitrary: c E Rs s rule: less_induct)
  case less
  obtain chunk eof s' rest where r: "nfsproc_readdir_2 ops fh c M s = (Inr (NFS_OK, chunk, eof), s')"
    "R s'" "drop (pos fh c) (ents fh) = chunk @ rest"
    "chunk \<noteq> [] \<Longrightarrow> pos fh (en_cookie (last chunk)) = pos fh c + length chunk" "eof \<longleftrightarrow> rest = []" "chunk = [] \<Longrightarrow> rest = []"
    using srv less.prems(2) unfolding dir_server_def by metis
  have rd: "nfs_ReadDir ops fh c M E Rs s = ((chunk, eof, Rs), s')" using r(1) by (simp add: nfs_ReadDir_def nfs_reply_def)
  note step = lookup_nc_loop.simps [of ops fh name M c E Rs s]
  show ?case
  proof (cases "chunk = []")
    case True
    then show ?thesis using r(3,5,6) r(2) by (subst step) (simp add: rd)
  next
    case ne: False
    show ?thesis
    proof (cases "find (nc_match name) chunk")
      case (Some en)
      then have f: "find (nc_match name) (chunk @ rest) = Some en" by (simp add: find_append)
      show ?thesis unfolding r(3) f using ne Some r(2) by (subst step) (auto simp: rd)
    next
      case None
      then have f: "find (nc_match name) (chunk @ rest) = find (nc_match name) rest" by (simp add: find_append)
      let ?c = "en_cookie (last chunk)"
      have len: "length (ents fh) - pos fh c = length chunk + length rest"
        using arg_cong [OF r(3), of length] by simp
      have c': "pos fh ?c = pos fh c + length chunk" "pos fh ?c \<le> length (ents fh)"
        using r(4) [OF ne] len less.prems(1) by auto
      have d: "drop (pos fh ?c) (ents fh) = rest"
        using arg_cong [OF r(3), of "drop (length chunk)"] c'(1) by (simp add: add.commute)
      show ?thesis
      proof (cases "eof")
        case True
        then show ?thesis using r(5) ne None r(2) unfolding r(3) f by (subst step) (simp add: rd)
      next
        case False
        have "0 < length chunk" using ne by simp
        then have "length (ents fh) - pos fh ?c < length (ents fh) - pos fh c" using len c'(1)
          by (simp add: diff_diff_left [symmetric] del: diff_diff_left)
        from less.hyps [OF this c'(2) r(2), of eof Rs] have ih: "case find (nc_match name) rest of
            None \<Rightarrow> \<exists>s''. lookup_nc_loop ops fh name M ?c eof Rs s' = Some (Inl ERROR_OBJECT_NOT_FOUND, s'') \<and> R s''
          | Some en \<Rightarrow> \<exists>s''. R s'' \<and> lookup_nc_loop ops fh name M ?c eof Rs s' =
              (if length (en_name en) \<ge> 255 then None else Some (nfs_ILookup_exact ops fh (en_name en) s''))"
          by (simp only: d)
        have e: "lookup_nc_loop ops fh name M c E Rs s = lookup_nc_loop ops fh name M ?c eof Rs s'"
          using ne None False by (subst step) (simp add: rd)
        show ?thesis unfolding r(3) f e by (rule ih)
      qed
    qed
  qed
qed

lemma nfs_Lookup_spec:
  assumes srv: "dir_server ops R ents pos" "lookup_server ops R ents res" and s: "R s"
  shows "\<exists>s'. R s' \<and> nfs_Lookup ops fh name M Rs s =
     (if name \<in> en_name ` set (ents fh) then Some (Inr (res fh name), s')
      else (case find (nc_match name) (ents fh) of
              None \<Rightarrow> Some (Inl ERROR_OBJECT_NOT_FOUND, s')
            | Some en \<Rightarrow> if length (en_name en) \<ge> 255 then None else Some (Inr (res fh (en_name en)), s')))"
proof -
  have look: "\<exists>s' r. nfsproc_lookup_2 ops fh nm s1 =
      (Inr (if nm \<in> en_name ` set (ents fh) then (NFS_OK, res fh nm) else (NFSERR_NOENT, r)), s') \<and> R s'" if "R s1" for nm s1
    using srv(2) that unfolding lookup_server_def by blast
  obtain s1 r where l: "nfsproc_lookup_2 ops fh name s =
      (Inr (if name \<in> en_name ` set (ents fh) then (NFS_OK, res fh name) else (NFSERR_NOENT, r)), s1)" "R s1"
    using look [OF s] by blast
  show ?thesis
  proof (cases "name \<in> en_name ` set (ents fh)")
    case True
    then show ?thesis using l by (simp add: nfs_Lookup_def nfs_ILookup_def nfs_reply_def)
  next
    case False
    then have nc: "nfs_Lookup ops fh name M Rs s = lookup_nc_loop ops fh name (min M NFS_MAXDATA) 0 False Rs s1"
      using l by (simp add: nfs_Lookup_def nfs_ILookup_def nfs_LookupNC_def)
    have p0: "pos fh 0 = 0" using srv(1) by (simp add: dir_server_def)
    note spec = lookup_nc_loop_spec [OF srv(1), where fh = fh and c = 0 and s = s1 and name = name and M = "min M NFS_MAXDATA" and E = False and Rs = Rs]
    show ?thesis
    proof (cases "find (nc_match name) (ents fh)")
      case None
      then show ?thesis using spec nc l(2) False p0 by simp metis
    next
      case (Some en)
      have en: "en_name en \<in> en_name ` set (ents fh)" using Some by (metis find_Some_iff nth_mem imageI)
      obtain s2 where s2: "R s2" "nfs_Lookup ops fh name M Rs s =
          (if length (en_name en) \<ge> 255 then None else Some (nfs_ILookup_exact ops fh (en_name en) s2))"
        using spec nc l(2) Some p0 by auto
      obtain s3 where "nfsproc_lookup_2 ops fh (en_name en) s2 = (Inr (NFS_OK, res fh (en_name en)), s3)" "R s3"
        using look [OF s2(1), of "en_name en"] en by auto
      then show ?thesis using s2 Some False by (auto simp: nfs_ILookup_exact_def nfs_reply_def)
    qed
  qed
qed

text \<open>C28. Names are found as AmigaDOS expects. As long as the server answers LOOKUP and READDIR and
  its directories stay as they are (\<open>dir_server\<close>, \<open>lookup_server\<close>; a call that fails is not part
  of this), \<open>nfs_Lookup\<close> reads every directory to its end and answers with the entry of
  exactly that name if the directory has one, else with the first entry whose name differs in
  case only (of long names, the first 106 characters count), and otherwise with
  ERROR_OBJECT_NOT_FOUND. The only exception is a name of 255 characters or more that is found in
  the second way: its copy overflows the local array of nfs.c, the undefined result \<open>None\<close>.\<close>

theorem nfs_Lookup_finds:
  assumes srv: "dir_server ops R ents pos" "lookup_server ops R ents res" and s: "R s"
  shows "\<exists>s'. R s' \<and> nfs_Lookup ops fh name M Rs s =
     (if name \<in> en_name ` set (ents fh) then Some (Inr (res fh name), s')
      else (case find (nc_match name) (ents fh) of
              None \<Rightarrow> Some (Inl ERROR_OBJECT_NOT_FOUND, s')
            | Some en \<Rightarrow> if length (en_name en) \<ge> 255 then None else Some (Inr (res fh (en_name en)), s')))"
  by (rule nfs_Lookup_spec [OF assms])

lemma toy_servers:
  "dir_server toy_ops (\<lambda>_. True) toy_ents (\<lambda>fh. unat)" "lookup_server toy_ops (\<lambda>_. True) toy_ents toy_res"
  by (auto simp: dir_server_def lookup_server_def toy_ops_def toy_ents_def)

theorem nfs_Lookup_finds_witness:
  "nfs_Lookup toy_ops [2] ''read.me'' 1024 0 () = Some (Inr (toy_res [2] ''Read.Me''), ())"
proof -
  have "nc_match ''read.me'' \<lparr>en_fileid = 3, en_name = ''Read.Me'', en_cookie = 1\<rparr>" by code_simp
  then show ?thesis
    using nfs_Lookup_finds [OF toy_servers, where s = "()" and fh = "[2]" and name = "''read.me''" and M = 1024 and Rs = 0]
    by (simp add: toy_ents_def)
qed

end
