(* ===== verification/FtHash.thy ===== *)
theory FtHash
  imports Prelude "HOL-Library.Monad_Syntax"
begin

text \<open>
  The generic hash table with ageing entries (src/src/common/fthash.c), the base of the
  attribute and the directory cache. Values are pointers into a store \<open>'h\<close> of the client; the
  table owns the values it holds and gives them back with the client's \<open>tht_FreeVal\<close>. A lookup
  hands a pointer out and raises \<open>tht_LockCnt\<close>; until \<open>fthash_UnLockAll\<close> such a pointer must
  stay valid, so entries that die meanwhile wait in \<open>tht_LockedEntries\<close>.

  The Exec lists (\<open>RemHead\<close>, \<open>AddTail\<close> and so on) are HOL lists. \<open>now\<close> is the clock. An
  operation is \<open>None\<close> when it frees a value that is not allocated or does not return.
\<close>

subsection \<open>The table\<close>

record 'k fthashentry =
  the_Key :: 'k
  the_Val :: addr
  the_Birth :: u32

record ('k, 'h) fthashtable =
  tht_Entries :: "'k fthashentry list list"
  tht_FreeEntries :: "'k fthashentry list"
  tht_LockedEntries :: "'k fthashentry list"
  tht_Size :: nat
  tht_KeySize :: u32
  tht_MaxEntries :: int
  tht_NumEntries :: int
  tht_TTL :: u32
  tht_LockCnt :: int
  tht_HashFunc :: "'k \<Rightarrow> u32 \<Rightarrow> u32"
  tht_FreeVal :: "addr \<Rightarrow> 'h \<Rightarrow> 'h option"
  tht_KeyCmp :: "'k \<Rightarrow> 'k \<Rightarrow> u32 \<Rightarrow> int"

definition fthash_New ::
  "nat \<Rightarrow> u32 \<Rightarrow> int \<Rightarrow> u32 \<Rightarrow> ('k \<Rightarrow> u32 \<Rightarrow> u32) \<Rightarrow> (addr \<Rightarrow> 'h \<Rightarrow> 'h option) \<Rightarrow> ('k \<Rightarrow> 'k \<Rightarrow> u32 \<Rightarrow> int) \<Rightarrow>
     ('k, 'h) fthashtable option" where
  "fthash_New Size KeySize MaxEntries TTL hashfunc freefunc KeyCmp =
     (if Size = 0 \<or> KeySize = 0 \<or> MaxEntries = 0 \<or> TTL = 0 then None
      else Some \<lparr>tht_Entries = replicate Size [], tht_FreeEntries = [], tht_LockedEntries = [],
                 tht_Size = Size, tht_KeySize = KeySize, tht_MaxEntries = MaxEntries, tht_NumEntries = 0,
                 tht_TTL = TTL, tht_LockCnt = 0, tht_HashFunc = hashfunc, tht_FreeVal = freefunc, tht_KeyCmp = KeyCmp\<rparr>)"

definition fthash_Hash :: "('k, 'h) fthashtable \<Rightarrow> 'k \<Rightarrow> nat" where
  "fthash_Hash t k = unat (tht_HashFunc t k (tht_KeySize t)) mod tht_Size t"

definition fthash_IsLocked :: "('k, 'h) fthashtable \<Rightarrow> bool" where
  "fthash_IsLocked t \<longleftrightarrow> tht_LockCnt t > 0"

definition fthash_IsSameKey :: "('k, 'h) fthashtable \<Rightarrow> 'k fthashentry \<Rightarrow> 'k \<Rightarrow> bool" where
  "fthash_IsSameKey t a k \<longleftrightarrow> tht_KeyCmp t (the_Key a) k (tht_KeySize t) = 0"

text \<open>The seconds since 1978, from the days, minutes and ticks of \<open>DateStamp\<close>.\<close>

definition fthash_Now :: "int \<Rightarrow> int \<Rightarrow> int \<Rightarrow> u32" where
  "fthash_Now days minute tick = word_of_int (days * (24 * 60 * 60) + minute * 60 + tick div 50)"

definition fthash_FreeVal ::
  "('k, 'h) fthashtable \<Rightarrow> 'k fthashentry \<Rightarrow> 'h \<Rightarrow> ('k fthashentry \<times> 'h) option" where
  "fthash_FreeVal t te h = map_option (\<lambda>h'. (te\<lparr>the_Val := NULL\<rparr>, h')) (tht_FreeVal t (the_Val te) h)"

definition fthash_FreeEntry :: "('k, 'h) fthashtable \<Rightarrow> 'k fthashentry \<Rightarrow> 'h \<Rightarrow> 'h option" where
  "fthash_FreeEntry t te h =
     (if the_Val te \<noteq> NULL then map_option snd (fthash_FreeVal t te h) else Some h)"

fun fthash_RemEntries :: "('k, 'h) fthashtable \<Rightarrow> 'k fthashentry list \<Rightarrow> 'h \<Rightarrow> 'h option" where
  "fthash_RemEntries t [] h = Some h"
| "fthash_RemEntries t (te # ml) h = Option.bind (fthash_FreeEntry t te h) (fthash_RemEntries t ml)"

definition fthash_Delete :: "('k, 'h) fthashtable \<Rightarrow> 'h \<Rightarrow> 'h option" where
  "fthash_Delete t h =
     do {
       h1 \<leftarrow> fthash_RemEntries t (tht_FreeEntries t) h;
       h2 \<leftarrow> fthash_RemEntries t (tht_LockedEntries t) h1;
       fthash_RemEntries t (concat (tht_Entries t)) h2
     }"

subsection \<open>Looking up\<close>

text \<open>The walk along a list to the first entry with the key: the entries before and behind it.\<close>

fun ft_split ::
  "('k, 'h) fthashtable \<Rightarrow> 'k \<Rightarrow> 'k fthashentry list \<Rightarrow> ('k fthashentry list \<times> 'k fthashentry \<times> 'k fthashentry list) option" where
  "ft_split t k [] = None"
| "ft_split t k (e # es) =
     (if fthash_IsSameKey t e k then Some ([], e, es)
      else map_option (\<lambda>(pre, x, post). (e # pre, x, post)) (ft_split t k es))"

definition fthash_Lookup2 ::
  "u32 \<Rightarrow> ('k, 'h) fthashtable \<Rightarrow> 'k \<Rightarrow> 'h \<Rightarrow> ('k fthashentry option \<times> ('k, 'h) fthashtable \<times> 'h) option" where
  "fthash_Lookup2 now t Key h =
     (let hash = fthash_Hash t Key; dead = now - tht_TTL t in
      case ft_split t Key (tht_Entries t ! hash) of
        None \<Rightarrow> Some (None, t, h)
      | Some (pre, ent, post) \<Rightarrow>
          if dead > the_Birth ent then
            let t1 = t\<lparr>tht_Entries := (tht_Entries t)[hash := pre @ post]\<rparr> in
            if fthash_IsLocked t
            then Some (None, t1\<lparr>tht_LockCnt := tht_LockCnt t + 1, tht_LockedEntries := ent # tht_LockedEntries t\<rparr>, h)
            else map_option (\<lambda>(ent', h'). (None, t1\<lparr>tht_FreeEntries := ent' # tht_FreeEntries t\<rparr>, h'))
                   (fthash_FreeVal t ent h)
          else
            Some (Some ent, t\<lparr>tht_LockCnt := tht_LockCnt t + 1,
                              tht_Entries := (tht_Entries t)[hash := ent # pre @ post]\<rparr>, h))"

definition fthash_Lookup ::
  "u32 \<Rightarrow> ('k, 'h) fthashtable \<Rightarrow> 'k \<Rightarrow> 'h \<Rightarrow> (addr \<times> ('k, 'h) fthashtable \<times> 'h) option" where
  "fthash_Lookup now t Key h =
     map_option (\<lambda>(te, t', h'). (case te of Some e \<Rightarrow> the_Val e | None \<Rightarrow> NULL, t', h')) (fthash_Lookup2 now t Key h)"

subsection \<open>Unlocking, with eviction\<close>

text \<open>Freeing the values of a list of entries; the entries themselves are kept.\<close>

fun ft_free_vals ::
  "('k, 'h) fthashtable \<Rightarrow> 'k fthashentry list \<Rightarrow> 'h \<Rightarrow> ('k fthashentry list \<times> 'h) option" where
  "ft_free_vals t [] h = Some ([], h)"
| "ft_free_vals t (e # es) h =
     do {
       (e', h1) \<leftarrow> fthash_FreeVal t e h;
       (es', h2) \<leftarrow> ft_free_vals t es h1;
       Some (e' # es', h2)
     }"

text \<open>First loop: free entries go while there are too many.\<close>

fun ft_drop_free ::
  "('k, 'h) fthashtable \<Rightarrow> 'k fthashentry list \<Rightarrow> int \<Rightarrow> 'h \<Rightarrow> ('k fthashentry list \<times> int \<times> 'h) option" where
  "ft_drop_free t [] num h = Some ([], num, h)"
| "ft_drop_free t (e # es) num h =
     (if num > tht_MaxEntries t then Option.bind (fthash_FreeEntry t e h) (ft_drop_free t es (num - 1))
      else Some (e # es, num, h))"

text \<open>The search for a list that is not empty, round the table; it does not end when all are.\<close>

partial_function (option) ft_next_full :: "'k fthashentry list list \<Rightarrow> nat \<Rightarrow> nat option" where
  "ft_next_full ls p =
     (if ls ! p = [] then ft_next_full ls (if Suc p = length ls then 0 else Suc p) else Some p)"

declare ft_next_full.simps [code]

text \<open>Removing up to \<open>i\<close> entries from the end of a list (given from the end).\<close>

fun ft_rem_tail ::
  "('k, 'h) fthashtable \<Rightarrow> int \<Rightarrow> 'k fthashentry list \<Rightarrow> 'h \<Rightarrow> (int \<times> 'k fthashentry list \<times> 'h) option" where
  "ft_rem_tail t i [] h = Some (i, [], h)"
| "ft_rem_tail t i (e # es) h =
     (if i > 0 then Option.bind (fthash_FreeEntry t e h) (ft_rem_tail t (i - 1) es) else Some (i, e # es, h))"

partial_function (option) ft_evict ::
  "('k, 'h) fthashtable \<Rightarrow> int \<Rightarrow> nat \<Rightarrow> 'k fthashentry list list \<Rightarrow> 'h \<Rightarrow> ('k fthashentry list list \<times> 'h) option" where
  "ft_evict t i RemStart ls h =
     (if i > 0 then
        do {
          p \<leftarrow> ft_next_full ls RemStart;
          (i', r, h') \<leftarrow> ft_rem_tail t i (rev (ls ! p)) h;
          ft_evict t i' p (ls[p := rev r]) h'
        }
      else Some (ls, h))"

declare ft_evict.simps [code]

definition fthash_UnLockAll :: "u32 \<Rightarrow> ('k, 'h) fthashtable \<Rightarrow> 'h \<Rightarrow> (('k, 'h) fthashtable \<times> 'h) option" where
  "fthash_UnLockAll now t h =
     do {
       (freed, h1) \<leftarrow> ft_free_vals t (tht_LockedEntries t) h;
       (fthl, num, h2) \<leftarrow> ft_drop_free t (tht_FreeEntries t @ freed) (tht_NumEntries t) h1;
       let t1 = t\<lparr>tht_LockedEntries := [], tht_LockCnt := 0, tht_FreeEntries := fthl, tht_NumEntries := num\<rparr>;
       (if num > tht_MaxEntries t then
          do {
            (ls, h3) \<leftarrow> ft_evict t (num - tht_MaxEntries t) (unat now mod tht_Size t) (tht_Entries t) h2;
            Some (t1\<lparr>tht_Entries := ls, tht_NumEntries := tht_MaxEntries t\<rparr>, h3)
          }
        else Some (t1, h2))
     }"

definition fthash_Flush :: "('k, 'h) fthashtable \<Rightarrow> 'h \<Rightarrow> (('k, 'h) fthashtable \<times> 'h) option" where
  "fthash_Flush t h =
     map_option (\<lambda>h'. (t\<lparr>tht_FreeEntries := [], tht_NumEntries := tht_NumEntries t - int (length (tht_FreeEntries t))\<rparr>, h'))
       (fthash_RemEntries t (tht_FreeEntries t) h)"

subsection \<open>Removing old entries\<close>

text \<open>One list: what stays, the entries for the free list, and the store.\<close>

fun ft_bury ::
  "('k, 'h) fthashtable \<Rightarrow> u32 \<Rightarrow> 'k fthashentry list \<Rightarrow> 'h \<Rightarrow> ('k fthashentry list \<times> 'k fthashentry list \<times> 'h) option" where
  "ft_bury t dead [] h = Some ([], [], h)"
| "ft_bury t dead (e # es) h =
     (if dead > the_Birth e then
        do {
          (e', h1) \<leftarrow> fthash_FreeVal t e h;
          (keep, freed, h2) \<leftarrow> ft_bury t dead es h1;
          Some (keep, e' # freed, h2)
        }
      else map_option (\<lambda>(keep, freed, h1). (e # keep, freed, h1)) (ft_bury t dead es h))"

fun ft_bury_all ::
  "('k, 'h) fthashtable \<Rightarrow> u32 \<Rightarrow> 'k fthashentry list list \<Rightarrow> 'h \<Rightarrow>
     ('k fthashentry list list \<times> 'k fthashentry list \<times> 'h) option" where
  "ft_bury_all t dead [] h = Some ([], [], h)"
| "ft_bury_all t dead (l # ls) h =
     do {
       (keep, freed, h1) \<leftarrow> ft_bury t dead l h;
       (ls', freed', h2) \<leftarrow> ft_bury_all t dead ls h1;
       Some (keep # ls', freed @ freed', h2)
     }"

definition fthash_Bury :: "u32 \<Rightarrow> ('k, 'h) fthashtable \<Rightarrow> 'h \<Rightarrow> (('k, 'h) fthashtable \<times> 'h) option" where
  "fthash_Bury now t h =
     (if \<not> fthash_IsLocked t then
        map_option (\<lambda>(ls, freed, h'). (t\<lparr>tht_Entries := ls, tht_FreeEntries := tht_FreeEntries t @ freed\<rparr>, h'))
          (ft_bury_all t (now - tht_TTL t) (tht_Entries t) h)
      else Some (t, h))"

definition FTREMF_FREE_VAL :: u32 where "FTREMF_FREE_VAL = 1"
definition FTREMF_MOVE :: u32 where "FTREMF_MOVE = 2"

definition fthash_Remove3 ::
  "('k, 'h) fthashtable \<Rightarrow> 'k \<Rightarrow> u32 \<Rightarrow> 'h \<Rightarrow> (addr \<times> ('k, 'h) fthashtable \<times> 'h) option" where
  "fthash_Remove3 t Key Flags h =
     (let hash = fthash_Hash t Key in
      case ft_split t Key (tht_Entries t ! hash) of
        None \<Rightarrow> Some (NULL, t, h)
      | Some (pre, ent, post) \<Rightarrow>
          let t1 = t\<lparr>tht_Entries := (tht_Entries t)[hash := pre @ post]\<rparr> in
          if Flags AND FTREMF_MOVE \<noteq> 0
          then Some (NULL, t1\<lparr>tht_LockedEntries := tht_LockedEntries t @ [ent]\<rparr>, h)
          else if Flags AND FTREMF_FREE_VAL \<noteq> 0
          then map_option (\<lambda>(ent', h'). (NULL, t1\<lparr>tht_FreeEntries := tht_FreeEntries t @ [ent']\<rparr>, h')) (fthash_FreeVal t ent h)
          else Some (the_Val ent, t1\<lparr>tht_FreeEntries := tht_FreeEntries t @ [ent\<lparr>the_Val := NULL\<rparr>]\<rparr>, h))"

definition fthash_Remove2 :: "('k, 'h) fthashtable \<Rightarrow> 'k \<Rightarrow> 'h \<Rightarrow> (addr \<times> ('k, 'h) fthashtable \<times> 'h) option" where
  "fthash_Remove2 t Key h = fthash_Remove3 t Key 0 h"

definition fthash_Remove :: "('k, 'h) fthashtable \<Rightarrow> 'k \<Rightarrow> 'h \<Rightarrow> (('k, 'h) fthashtable \<times> 'h) option" where
  "fthash_Remove t Key h = map_option snd (fthash_Remove3 t Key FTREMF_FREE_VAL h)"

definition fthash_MarkRemoved :: "('k, 'h) fthashtable \<Rightarrow> 'k \<Rightarrow> 'h \<Rightarrow> (('k, 'h) fthashtable \<times> 'h) option" where
  "fthash_MarkRemoved t Key h = map_option snd (fthash_Remove3 t Key FTREMF_MOVE h)"

subsection \<open>Inserting\<close>

text \<open>A fresh entry is cleared; \<open>k0\<close> stands for its cleared key, which the caller overwrites.
  \<open>ok\<close> tells whether \<open>AllocVec\<close> succeeds.\<close>

definition GetFreeEnt ::
  "bool \<Rightarrow> 'k \<Rightarrow> ('k, 'h) fthashtable \<Rightarrow> 'k fthashentry option \<times> ('k, 'h) fthashtable" where
  "GetFreeEnt ok k0 t =
     (case tht_FreeEntries t of
        ent # es \<Rightarrow> (Some ent, t\<lparr>tht_FreeEntries := es\<rparr>)
      | [] \<Rightarrow>
          if tht_NumEntries t \<ge> tht_MaxEntries t + 10 then (None, t)
          else if ok then (Some \<lparr>the_Key = k0, the_Val = NULL, the_Birth = 0\<rparr>, t\<lparr>tht_NumEntries := tht_NumEntries t + 1\<rparr>)
          else (None, t))"

definition fthash_Insert :: "bool \<Rightarrow> u32 \<Rightarrow> ('k, 'h) fthashtable \<Rightarrow> 'k \<Rightarrow> addr \<Rightarrow> int \<times> ('k, 'h) fthashtable" where
  "fthash_Insert ok now t Key Val =
     (let hash = fthash_Hash t Key in
      case GetFreeEnt ok Key t of
        (None, t1) \<Rightarrow> (0, t1)
      | (Some ent, t1) \<Rightarrow>
          (1, t1\<lparr>tht_Entries := (tht_Entries t1)[hash :=
                   ent\<lparr>the_Birth := now, the_Key := Key, the_Val := Val\<rparr> # tht_Entries t1 ! hash]\<rparr>))"

definition fthash_SetMaxEntries ::
  "u32 \<Rightarrow> ('k, 'h) fthashtable \<Rightarrow> int \<Rightarrow> 'h \<Rightarrow> (('k, 'h) fthashtable \<times> 'h) option" where
  "fthash_SetMaxEntries now t NewMaxEntries h =
     (if tht_MaxEntries t \<le> NewMaxEntries then Some (t\<lparr>tht_MaxEntries := NewMaxEntries\<rparr>, h)
      else fthash_UnLockAll now (t\<lparr>tht_MaxEntries := NewMaxEntries\<rparr>) h)"

definition fthash_Lock :: "('k, 'h) fthashtable \<Rightarrow> ('k, 'h) fthashtable" where
  "fthash_Lock t = t\<lparr>tht_LockCnt := tht_LockCnt t + 1\<rparr>"

definition fthash_SetTimeToLive :: "('k, 'h) fthashtable \<Rightarrow> int \<Rightarrow> int \<times> ('k, 'h) fthashtable" where
  "fthash_SetTimeToLive t TTL =
     (if TTL < 0 then (-1, t) else (uint (tht_TTL t), t\<lparr>tht_TTL := word_of_int TTL\<rparr>))"

subsection \<open>Lists of lists\<close>

lemma mset_concat_upd:
  "i < length ls \<Longrightarrow> mset (concat (ls[i := x])) + mset (ls ! i) = mset (concat ls) + mset x"
proof (induction ls arbitrary: i)
  case (Cons l ls)
  then show ?case by (cases i) (auto simp: union_ac)
qed simp

lemma length_concat_upd:
  "i < length ls \<Longrightarrow> length (concat (ls[i := x])) + length (ls ! i) = length (concat ls) + length x"
  using arg_cong [OF mset_concat_upd [of i ls x], of size] by simp

definition vals :: "'k fthashentry list \<Rightarrow> addr multiset" where
  "vals es = image_mset the_Val (mset es)"

lemma vals_simps [simp]: "vals [] = {#}" "vals (e # es) = add_mset (the_Val e) (vals es)"
    "vals (es @ fs) = vals es + vals fs" "vals (rev es) = vals es"
  by (simp_all add: vals_def)

lemma vals_concat_upd:
  "i < length ls \<Longrightarrow> vals (concat (ls[i := x])) + vals (ls ! i) = vals (concat ls) + vals x"
  unfolding vals_def using arg_cong [OF mset_concat_upd [of i ls x], of "image_mset the_Val"] by simp

lemma ft_split_Some:
  "ft_split t k es = Some (pre, e, post) \<Longrightarrow>
     es = pre @ e # post \<and> fthash_IsSameKey t e k \<and> (\<forall>x\<in>set pre. \<not> fthash_IsSameKey t x k)"
  by (induction es arbitrary: pre) (auto split: if_splits)

lemma ft_split_None: "ft_split t k es = None \<longleftrightarrow> (\<forall>e\<in>set es. \<not> fthash_IsSameKey t e k)"
  by (induction es) auto

lemma ft_split_eqI:
  "\<forall>x\<in>set pre. \<not> fthash_IsSameKey t x k \<Longrightarrow> fthash_IsSameKey t e k \<Longrightarrow>
     ft_split t k (pre @ e # post) = Some (pre, e, post)"
  by (induction pre) auto

subsection \<open>The search and the eviction end\<close>

lemma ft_next_full_ok:
  "q < length ls \<Longrightarrow> ls ! q \<noteq> [] \<Longrightarrow> p < length ls \<Longrightarrow>
     \<exists>p'. ft_next_full ls p = Some p' \<and> p' < length ls \<and> ls ! p' \<noteq> []"
proof (induction "if p \<le> q then q - p else q + length ls - p" arbitrary: p rule: less_induct)
  case less
  show ?case
  proof (cases "ls ! p = []")
    case False
    then show ?thesis using less.prems by (subst ft_next_full.simps) auto
  next
    case True
    then have "p \<noteq> q" using less.prems by auto
    let ?p = "if Suc p = length ls then 0 else Suc p"
    have "ft_next_full ls p = ft_next_full ls ?p" using True by (subst ft_next_full.simps) simp
    moreover have "\<exists>p'. ft_next_full ls ?p = Some p' \<and> p' < length ls \<and> ls ! p' \<noteq> []"
      by (rule less.hyps) (use less.prems \<open>p \<noteq> q\<close> in auto)
    ultimately show ?thesis by simp
  qed
qed

subsection \<open>The invariant\<close>

text \<open>Entries sit in the list of their hash value, free entries hold no value, and the number of
  entries is bounded.\<close>

definition ft_shape :: "('k, 'h) fthashtable \<Rightarrow> bool" where
  "ft_shape t \<longleftrightarrow> 0 < tht_Size t \<and> length (tht_Entries t) = tht_Size t \<and>
     (\<forall>i < tht_Size t. \<forall>e\<in>set (tht_Entries t ! i). fthash_Hash t (the_Key e) = i) \<and>
     (\<forall>e\<in>set (tht_FreeEntries t). the_Val e = NULL) \<and>
     tht_NumEntries t = int (length (tht_FreeEntries t) + length (tht_LockedEntries t) + length (concat (tht_Entries t))) \<and>
     0 \<le> tht_MaxEntries t \<and> tht_NumEntries t \<le> tht_MaxEntries t + 10 \<and> 0 \<le> tht_LockCnt t"

text \<open>The comparison decides equality and no key is in the table twice.\<close>

definition ft_uniq :: "('k, 'h) fthashtable \<Rightarrow> bool" where
  "ft_uniq t \<longleftrightarrow> (\<forall>a b. tht_KeyCmp t a b (tht_KeySize t) = 0 \<longleftrightarrow> a = b) \<and> distinct (map the_Key (concat (tht_Entries t)))"

text \<open>Its contents: the entry that the walk for a key finds.\<close>

definition ft_find :: "('k, 'h) fthashtable \<Rightarrow> 'k \<Rightarrow> 'k fthashentry option" where
  "ft_find t k = map_option (\<lambda>(pre, e, post). e) (ft_split t k (tht_Entries t ! fthash_Hash t k))"

lemma ft_find_split: "ft_find t k = Some e \<longleftrightarrow> (\<exists>pre post. ft_split t k (tht_Entries t ! fthash_Hash t k) = Some (pre, e, post))"
  by (auto simp: ft_find_def)

lemma fthash_Hash_less: "ft_shape t \<Longrightarrow> fthash_Hash t k < tht_Size t"
  by (simp add: ft_shape_def fthash_Hash_def)

lemma ft_find_eq:
  assumes s: "ft_shape t" and u: "ft_uniq t"
  shows "ft_find t k = Some e \<longleftrightarrow> e \<in> set (concat (tht_Entries t)) \<and> the_Key e = k"
proof
  assume "ft_find t k = Some e"
  then obtain pre post where sp: "ft_split t k (tht_Entries t ! fthash_Hash t k) = Some (pre, e, post)"
    by (auto simp: ft_find_split)
  have "tht_Entries t ! fthash_Hash t k \<in> set (tht_Entries t)"
    using fthash_Hash_less [OF s, of k] s by (simp add: ft_shape_def)
  moreover have "e \<in> set (tht_Entries t ! fthash_Hash t k)" "the_Key e = k"
    using ft_split_Some [OF sp] u by (auto simp: ft_uniq_def fthash_IsSameKey_def)
  ultimately show "e \<in> set (concat (tht_Entries t)) \<and> the_Key e = k" by auto
next
  assume e: "e \<in> set (concat (tht_Entries t)) \<and> the_Key e = k"
  then obtain i where i: "i < tht_Size t" "e \<in> set (tht_Entries t ! i)"
    using s by (auto simp: ft_shape_def in_set_conv_nth [of _ "tht_Entries t"])
  then have h: "fthash_Hash t k = i" using s e by (auto simp: ft_shape_def)
  have same: "fthash_IsSameKey t x k \<longleftrightarrow> the_Key x = k" for x using u by (simp add: ft_uniq_def fthash_IsSameKey_def)
  then have "ft_split t k (tht_Entries t ! i) \<noteq> None" using i(2) e by (auto simp: ft_split_None)
  then obtain pre x post where sp: "ft_split t k (tht_Entries t ! i) = Some (pre, x, post)" by auto
  have x: "x \<in> set (tht_Entries t ! i)" "the_Key x = k" using ft_split_Some [OF sp] same by auto
  have "tht_Entries t ! i \<in> set (tht_Entries t)" using i(1) s by (simp add: ft_shape_def)
  then have "x \<in> set (concat (tht_Entries t))" using x by auto
  then have "x = e" using e x(2) u by (auto simp: ft_uniq_def distinct_map inj_on_def)
  then show "ft_find t k = Some e" using sp h by (auto simp: ft_find_split)
qed

lemma ft_drop_free_ok:
  "\<forall>e\<in>set es. the_Val e = NULL \<Longrightarrow>
     \<exists>k. ft_drop_free t es num h = Some (drop k es, num - int k, h) \<and> k \<le> length es \<and>
       (num - int k \<le> tht_MaxEntries t \<or> k = length es) \<and> (k = 0 \<or> tht_MaxEntries t \<le> num - int k)"
proof (induction es arbitrary: num)
  case (Cons e es)
  show ?case
  proof (cases "num > tht_MaxEntries t")
    case False
    then show ?thesis by (intro exI [of _ 0]) simp
  next
    case True
    obtain k where "ft_drop_free t es (num - 1) h = Some (drop k es, num - 1 - int k, h)" "k \<le> length es"
       "num - 1 - int k \<le> tht_MaxEntries t \<or> k = length es" "k = 0 \<or> tht_MaxEntries t \<le> num - 1 - int k"
      using Cons.IH [of "num - 1"] Cons.prems by auto
    then show ?thesis using True Cons.prems by (intro exI [of _ "Suc k"]) (auto simp: fthash_FreeEntry_def)
  qed
qed (auto intro: exI [of _ 0])

definition ft_conf :: "('k, 'h) fthashtable \<Rightarrow> ('k, 'h) fthashtable \<Rightarrow> bool" where
  "ft_conf t t' \<longleftrightarrow> tht_Size t' = tht_Size t \<and> tht_KeySize t' = tht_KeySize t \<and> tht_HashFunc t' = tht_HashFunc t \<and>
     tht_FreeVal t' = tht_FreeVal t \<and> tht_KeyCmp t' = tht_KeyCmp t"

lemma ft_conf_refl [simp]: "ft_conf t t"
  by (simp add: ft_conf_def)

lemma ft_conf_trans: "ft_conf t t' \<Longrightarrow> ft_conf t' t'' \<Longrightarrow> ft_conf t t''"
  by (simp add: ft_conf_def)

lemma ft_conf_hash: "ft_conf t t' \<Longrightarrow> fthash_Hash t' = fthash_Hash t"
  by (simp add: ft_conf_def fthash_Hash_def fun_eq_iff)

lemma ft_shape_facts:
  assumes "ft_shape t"
  shows "0 < tht_Size t" "length (tht_Entries t) = tht_Size t" "\<forall>e\<in>set (tht_FreeEntries t). the_Val e = NULL"
    "tht_NumEntries t = int (length (tht_FreeEntries t) + length (tht_LockedEntries t) + length (concat (tht_Entries t)))"
    "0 \<le> tht_MaxEntries t" "tht_NumEntries t \<le> tht_MaxEntries t + 10" "0 \<le> tht_LockCnt t"
  using assms unfolding ft_shape_def by blast+

text \<open>Replacing one list of the table.\<close>

lemma ft_shape_put:
  assumes "ft_shape t" and "ft_conf t t'" and "i < tht_Size t" and "tht_Entries t' = (tht_Entries t)[i := x]"
    and "\<forall>e\<in>set x. fthash_Hash t (the_Key e) = i" and "\<forall>e\<in>set (tht_FreeEntries t'). the_Val e = NULL"
    and "tht_NumEntries t' + int (length (tht_FreeEntries t) + length (tht_LockedEntries t) + length (tht_Entries t ! i)) =
         tht_NumEntries t + int (length (tht_FreeEntries t') + length (tht_LockedEntries t') + length x)"
    and "0 \<le> tht_MaxEntries t'" "tht_NumEntries t' \<le> tht_MaxEntries t' + 10" "0 \<le> tht_LockCnt t'"
  shows "ft_shape t'"
proof -
  have "length (concat (tht_Entries t')) + length (tht_Entries t ! i) = length (concat (tht_Entries t)) + length x"
    using length_concat_upd [of i "tht_Entries t" x] assms(1,3,4) by (simp add: ft_shape_def)
  then have "tht_NumEntries t' = int (length (tht_FreeEntries t') + length (tht_LockedEntries t') + length (concat (tht_Entries t')))"
    using assms(1,7) unfolding ft_shape_def by linarith
  moreover have "\<forall>j < tht_Size t'. \<forall>e\<in>set (tht_Entries t' ! j). fthash_Hash t' (the_Key e) = j"
  proof (intro allI impI ballI)
    fix j e assume j: "j < tht_Size t'" and e: "e \<in> set (tht_Entries t' ! j)"
    have jt: "j < tht_Size t" "j < length (tht_Entries t)" using j assms(1,2) by (simp_all add: ft_conf_def ft_shape_def)
    show "fthash_Hash t' (the_Key e) = j"
    proof (cases "j = i")
      case True
      then show ?thesis using e jt assms(4,5) ft_conf_hash [OF assms(2)] by simp
    next
      case False
      then have "e \<in> set (tht_Entries t ! j)" using e assms(4) by simp
      then show ?thesis using assms(1) jt(1) ft_conf_hash [OF assms(2)] unfolding ft_shape_def by metis
    qed
  qed
  moreover have "0 < tht_Size t'" "length (tht_Entries t') = tht_Size t'"
    using assms(1,2,4) by (simp_all add: ft_shape_def ft_conf_def)
  ultimately show ?thesis unfolding ft_shape_def using assms(6,8-10) by blast
qed

lemma ft_find_parts:
  assumes "ft_shape t" and "ft_split t k (tht_Entries t ! fthash_Hash t k) = Some (pre, e, post)"
  shows "tht_Entries t ! fthash_Hash t k = pre @ e # post"
    "\<forall>x\<in>set (pre @ e # post). fthash_Hash t (the_Key x) = fthash_Hash t k"
    "mset (concat ((tht_Entries t)[fthash_Hash t k := pre @ post])) + {#e#} = mset (concat (tht_Entries t))"
    "mset (concat ((tht_Entries t)[fthash_Hash t k := e # pre @ post])) = mset (concat (tht_Entries t))"
    "mset (concat ((tht_Entries t)[fthash_Hash t k := x # tht_Entries t ! fthash_Hash t k])) = add_mset x (mset (concat (tht_Entries t)))"
proof -
  let ?i = "fthash_Hash t k"
  have i: "?i < length (tht_Entries t)" using assms(1) fthash_Hash_less [OF assms(1), of k] by (simp add: ft_shape_def)
  show b: "tht_Entries t ! ?i = pre @ e # post" using ft_split_Some [OF assms(2)] by simp
  show "\<forall>x\<in>set (pre @ e # post). fthash_Hash t (the_Key x) = ?i"
    using assms(1) fthash_Hash_less [OF assms(1), of k] unfolding b [symmetric] by (simp add: ft_shape_def)
  show "mset (concat ((tht_Entries t)[?i := pre @ post])) + {#e#} = mset (concat (tht_Entries t))"
    using mset_concat_upd [OF i, of "pre @ post"] b by (simp add: union_ac)
  show "mset (concat ((tht_Entries t)[?i := e # pre @ post])) = mset (concat (tht_Entries t))"
    using mset_concat_upd [OF i, of "e # pre @ post"] b by (simp add: union_ac)
  show "mset (concat ((tht_Entries t)[?i := x # tht_Entries t ! ?i])) = add_mset x (mset (concat (tht_Entries t)))"
    using mset_concat_upd [OF i, of "x # tht_Entries t ! ?i"] by (simp add: union_ac)
qed

text \<open>What a client's store of values promises: \<open>alloc\<close> are the allocated values, and freeing
  one of them takes away that one and nothing else.\<close>

locale value_heap =
  fixes alloc :: "'h \<Rightarrow> addr set" and free :: "addr \<Rightarrow> 'h \<Rightarrow> 'h option" and hinv :: "'h \<Rightarrow> bool"
  assumes alloc_ok: "hinv h \<Longrightarrow> finite (alloc h) \<and> NULL \<notin> alloc h"
    and free_ok: "hinv h \<Longrightarrow> a \<in> alloc h \<Longrightarrow> \<exists>h'. free a h = Some h' \<and> hinv h' \<and> alloc h' = alloc h - {a}"
begin

text \<open>The allocated values are exactly those of a multiset; so none is in it twice.\<close>

definition owns :: "'h \<Rightarrow> addr multiset \<Rightarrow> bool" where
  "owns h M \<longleftrightarrow> hinv h \<and> mset_set (alloc h) = M"

lemma owns_free:
  assumes "owns h (add_mset a M)"
  shows "\<exists>h'. free a h = Some h' \<and> owns h' M"
proof -
  have i: "hinv h" "mset_set (alloc h) = add_mset a M" using assms by (auto simp: owns_def)
  have f: "finite (alloc h)" using alloc_ok [OF i(1)] by simp
  have "a \<in># mset_set (alloc h)" using i(2) by simp
  then have a: "a \<in> alloc h" using f by simp
  obtain h' where h': "free a h = Some h'" "hinv h'" "alloc h' = alloc h - {a}" using free_ok [OF i(1) a] by blast
  have "mset_set (alloc h) = add_mset a (mset_set (alloc h'))" using mset_set.remove [OF f a] h'(3) by simp
  then show ?thesis using h' i(2) by (simp add: owns_def)
qed

lemma owns_not_NULL: "owns h M \<Longrightarrow> a \<in># M \<Longrightarrow> a \<noteq> NULL \<and> a \<in> alloc h"
  using alloc_ok [of h] by (auto simp: owns_def intro!: gr0I)

lemma owns_alloc: "owns h M \<Longrightarrow> alloc h = set_mset M"
  using alloc_ok [of h] by (auto simp: owns_def)

lemma owns_once: "owns h (add_mset a M) \<Longrightarrow> a \<notin># M"
proof
  assume o: "owns h (add_mset a M)" and "a \<in># M"
  then obtain N where "M = add_mset a N" by (metis multi_member_split)
  then have "count (mset_set (alloc h)) a \<ge> 2" using o by (auto simp: owns_def)
  moreover have "count (mset_set (alloc h)) a \<le> 1" by (cases "finite (alloc h)"; cases "a \<in> alloc h") auto
  ultimately show False by simp
qed

lemma FreeVal_ok:
  assumes "tht_FreeVal t = free" and "owns h (add_mset (the_Val e) M)"
  shows "\<exists>h'. fthash_FreeVal t e h = Some (e\<lparr>the_Val := NULL\<rparr>, h') \<and> owns h' M"
  using owns_free [OF assms(2)] assms(1) by (auto simp: fthash_FreeVal_def)

lemma FreeEntry_ok:
  assumes "tht_FreeVal t = free" and "owns h (add_mset (the_Val e) M)"
  shows "\<exists>h'. fthash_FreeEntry t e h = Some h' \<and> owns h' M"
  using FreeVal_ok [OF assms] owns_not_NULL [OF assms(2)] by (auto simp: fthash_FreeEntry_def)

lemma RemEntries_ok:
  assumes "tht_FreeVal t = free"
  shows "owns h (vals es + M) \<Longrightarrow> \<exists>h'. fthash_RemEntries t es h = Some h' \<and> owns h' M"
proof (induction es arbitrary: h)
  case (Cons e es)
  then obtain h1 where "fthash_FreeEntry t e h = Some h1" "owns h1 (vals es + M)"
    using FreeEntry_ok [OF assms, of h e "vals es + M"] by auto
  then show ?case using Cons.IH by simp
qed simp

lemma free_vals_ok:
  assumes "tht_FreeVal t = free"
  shows "owns h (vals es + M) \<Longrightarrow>
     \<exists>h'. ft_free_vals t es h = Some (map (\<lambda>e. e\<lparr>the_Val := NULL\<rparr>) es, h') \<and> owns h' M"
proof (induction es arbitrary: h)
  case (Cons e es)
  then obtain h1 where "fthash_FreeVal t e h = Some (e\<lparr>the_Val := NULL\<rparr>, h1)" "owns h1 (vals es + M)"
    using FreeVal_ok [OF assms, of h e "vals es + M"] by auto
  then show ?case using Cons.IH [of h1] by auto
qed simp

lemma rem_tail_ok:
  assumes "tht_FreeVal t = free"
  shows "owns h (vals es + M) \<Longrightarrow> 0 \<le> i \<Longrightarrow>
     \<exists>k h'. ft_rem_tail t i es h = Some (i - int k, drop k es, h') \<and> k \<le> length es \<and> int k \<le> i \<and>
       (0 < i \<longrightarrow> es \<noteq> [] \<longrightarrow> 0 < k) \<and> owns h' (vals (drop k es) + M)"
proof (induction es arbitrary: h i)
  case (Cons e es)
  show ?case
  proof (cases "0 < i")
    case False
    then show ?thesis using Cons.prems by (intro exI [of _ 0] exI [of _ h]) auto
  next
    case True
    obtain h1 where f: "fthash_FreeEntry t e h = Some h1" "owns h1 (vals es + M)"
      using FreeEntry_ok [OF assms, of h e "vals es + M"] Cons.prems by auto
    obtain k h' where "ft_rem_tail t (i - 1) es h1 = Some (i - 1 - int k, drop k es, h')" "k \<le> length es"
       "int k \<le> i - 1" "owns h' (vals (drop k es) + M)"
      using Cons.IH [OF f(2), of "i - 1"] True by auto
    then show ?thesis using f True by (intro exI [of _ "Suc k"] exI [of _ h']) auto
  qed
qed (auto intro: exI [of _ 0])

lemma evict_ok:
  assumes f: "tht_FreeVal t = free"
  shows "owns h (vals (concat ls) + M) \<Longrightarrow> p < length ls \<Longrightarrow> i \<le> int (length (concat ls)) \<Longrightarrow>
     \<exists>ls' h'. ft_evict t i p ls h = Some (ls', h') \<and> length ls' = length ls \<and>
       (\<forall>j < length ls. \<exists>n. ls' ! j = take n (ls ! j)) \<and>
       int (length (concat ls')) = int (length (concat ls)) - max 0 i \<and> owns h' (vals (concat ls') + M)"
proof (induction "nat i" arbitrary: i p ls h rule: less_induct)
  case less
  show ?case
  proof (cases "0 < i")
    case False
    have "\<forall>j<length ls. \<exists>n. ls ! j = take n (ls ! j)" by (metis take_all order_refl)
    then show ?thesis using False less.prems by (subst ft_evict.simps) simp
  next
    case True
    have "\<exists>q < length ls. ls ! q \<noteq> []"
    proof (rule ccontr)
      assume "\<not> ?thesis"
      then have "length (concat ls) = 0" by (auto simp: in_set_conv_nth)
      then show False using less.prems(3) True by linarith
    qed
    then obtain p' where p': "ft_next_full ls p = Some p'" "p' < length ls" "ls ! p' \<noteq> []"
      using ft_next_full_ok less.prems(2) by metis
    let ?l = "ls ! p'" and ?rest = "vals (concat (ls[p' := []]))"
    have own: "owns h (vals (rev ?l) + (?rest + M))"
      using less.prems(1) vals_concat_upd [OF p'(2), of "[]"] by (simp add: union_ac)
    obtain k h1 where r: "ft_rem_tail t i (rev ?l) h = Some (i - int k, drop k (rev ?l), h1)" "k \<le> length ?l"
       "int k \<le> i" "0 < k" "owns h1 (vals (drop k (rev ?l)) + (?rest + M))"
      using rem_tail_ok [OF f own, of i] True p'(3) by auto
    define ls1 where "ls1 = ls[p' := rev (drop k (rev ?l))]"
    have len1: "length ls1 = length ls" by (simp add: ls1_def)
    have l1: "rev (drop k (rev ?l)) = take (length ?l - k) ?l" by (simp add: rev_drop)
    have "vals (concat ls1) + vals ?l = vals (concat ls) + vals (drop k (rev ?l))"
      using vals_concat_upd [OF p'(2), of "rev (drop k (rev ?l))"] by (simp add: ls1_def)
    moreover have "?rest + vals ?l = vals (concat ls)" using vals_concat_upd [OF p'(2), of "[]"] by simp
    ultimately have "vals (concat ls1) + vals ?l = (vals (drop k (rev ?l)) + ?rest) + vals ?l"
      by (simp add: union_ac)
    then have "vals (concat ls1) = vals (drop k (rev ?l)) + ?rest" by (rule add_right_imp_eq)
    then have own1: "owns h1 (vals (concat ls1) + M)" using r(5) by (simp add: union_ac)
    have lc: "length (concat ls1) + k = length (concat ls)"
      using length_concat_upd [OF p'(2), of "rev (drop k (rev ?l))"] r(2) by (simp add: ls1_def)
    obtain ls' h' where ih: "ft_evict t (i - int k) p' ls1 h1 = Some (ls', h')" "length ls' = length ls1"
       "\<forall>j < length ls1. \<exists>n. ls' ! j = take n (ls1 ! j)"
       "int (length (concat ls')) = int (length (concat ls1)) - max 0 (i - int k)" "owns h' (vals (concat ls') + M)"
      using less.hyps [of "i - int k" h1 ls1 p'] own1 r(3,4) p'(2) len1 lc less.prems(3) True by auto
    have "ft_evict t i p ls h = Some (ls', h')"
      using True p'(1) r(1) ih(1) by (subst ft_evict.simps) (simp add: ls1_def)
    moreover have "\<exists>n. ls' ! j = take n (ls ! j)" if jl: "j < length ls" for j
    proof -
      obtain n where "ls' ! j = take n (ls1 ! j)" using ih(3) jl len1 by auto
      then show ?thesis using jl l1 by (cases "j = p'") (auto simp: ls1_def)
    qed
    ultimately show ?thesis using ih len1 lc r(3) True by simp
  qed
qed

text \<open>\<open>M\<close> holds the values outside the table.\<close>

definition ft_inv :: "('k, 'h) fthashtable \<Rightarrow> 'h \<Rightarrow> addr multiset \<Rightarrow> bool" where
  "ft_inv t h M \<longleftrightarrow> ft_shape t \<and> tht_FreeVal t = free \<and>
     owns h (vals (concat (tht_Entries t)) + vals (tht_LockedEntries t) + M)"

lemma ft_invI:
  "ft_shape t' \<Longrightarrow> ft_conf t t' \<Longrightarrow> tht_FreeVal t = free \<Longrightarrow>
     owns h (vals (concat (tht_Entries t')) + vals (tht_LockedEntries t') + M) \<Longrightarrow> ft_inv t' h M"
  by (simp add: ft_inv_def ft_conf_def)

text \<open>A lookup: found alive, found dead, or not found.\<close>

lemma Lookup_ok:
  assumes inv: "ft_inv t h M"
  shows "\<exists>r t' h'. fthash_Lookup now t k h = Some (r, t', h') \<and> ft_inv t' h' M \<and> ft_conf t t' \<and>
    tht_MaxEntries t' = tht_MaxEntries t \<and> tht_TTL t' = tht_TTL t \<and> tht_LockCnt t \<le> tht_LockCnt t' \<and>
    (0 < tht_LockCnt t \<longrightarrow> h' = h) \<and>
    (case ft_find t k of
       None \<Rightarrow> r = NULL \<and> t' = t \<and> h' = h
     | Some e \<Rightarrow>
         if now - tht_TTL t > the_Birth e
         then r = NULL \<and> mset (concat (tht_Entries t')) + {#e#} = mset (concat (tht_Entries t))
         else r = the_Val e \<and> h' = h \<and> 0 < tht_LockCnt t' \<and> mset (concat (tht_Entries t')) = mset (concat (tht_Entries t)))"
proof -
  have shape: "ft_shape t" and f: "tht_FreeVal t = free"
    and own: "owns h (vals (concat (tht_Entries t)) + vals (tht_LockedEntries t) + M)"
    using inv by (auto simp: ft_inv_def)
  let ?i = "fthash_Hash t k"
  note sh = ft_shape_facts(3,5-7) [OF shape]
  have i: "?i < tht_Size t" by (rule fthash_Hash_less [OF shape])
  show ?thesis
  proof (cases "ft_split t k (tht_Entries t ! ?i)")
    case None
    then show ?thesis using inv by (auto simp: fthash_Lookup_def fthash_Lookup2_def ft_find_def Let_def)
  next
    case (Some q)
    then obtain pre e post where sp: "ft_split t k (tht_Entries t ! ?i) = Some (pre, e, post)" by (cases q) auto
    note parts = ft_find_parts [OF shape sp]
    have fnd: "ft_find t k = Some e" using sp by (auto simp: ft_find_split)
    let ?E = "(tht_Entries t)[?i := pre @ post]"
    have ve: "vals (concat (tht_Entries t)) = add_mset (the_Val e) (vals (concat ?E))"
      using parts(3) unfolding vals_def by (metis add_mset_add_single image_mset_add_mset)
    show ?thesis
    proof (cases "now - tht_TTL t > the_Birth e")
      case dead: True
      show ?thesis
      proof (cases "0 < tht_LockCnt t")
        case True
        let ?t = "t\<lparr>tht_Entries := ?E, tht_LockCnt := tht_LockCnt t + 1, tht_LockedEntries := e # tht_LockedEntries t\<rparr>"
        have "ft_shape ?t"
          by (rule ft_shape_put [OF shape _ i, where x = "pre @ post"]) (use parts(1,2) sh in \<open>simp_all add: ft_conf_def\<close>)
        then have "ft_inv ?t h M" using f own ve by (simp add: ft_inv_def)
        then show ?thesis using True dead sp fnd parts(3)
          by (auto simp: fthash_Lookup_def fthash_Lookup2_def fthash_IsLocked_def ft_conf_def)
      next
        case False
        have "owns h (add_mset (the_Val e) (vals (concat ?E) + vals (tht_LockedEntries t) + M))"
          using own ve by (simp add: union_ac)
        then obtain h' where h': "fthash_FreeVal t e h = Some (e\<lparr>the_Val := NULL\<rparr>, h')"
            "owns h' (vals (concat ?E) + vals (tht_LockedEntries t) + M)"
          using FreeVal_ok [OF f] by blast
        let ?t = "t\<lparr>tht_Entries := ?E, tht_FreeEntries := e\<lparr>the_Val := NULL\<rparr> # tht_FreeEntries t\<rparr>"
        have "ft_shape ?t"
          by (rule ft_shape_put [OF shape _ i, where x = "pre @ post"]) (use parts(1,2) sh in \<open>simp_all add: ft_conf_def\<close>)
        then have "ft_inv ?t h' M" using f h' by (simp add: ft_inv_def)
        then show ?thesis using False dead sp fnd parts(3) h'
          by (auto simp: fthash_Lookup_def fthash_Lookup2_def fthash_IsLocked_def ft_conf_def)
      qed
    next
      case alive: False
      let ?t = "t\<lparr>tht_LockCnt := tht_LockCnt t + 1, tht_Entries := (tht_Entries t)[?i := e # pre @ post]\<rparr>"
      have "ft_shape ?t"
        by (rule ft_shape_put [OF shape _ i, where x = "e # pre @ post"]) (use parts(1,2) sh in \<open>simp_all add: ft_conf_def\<close>)
      moreover have "vals (concat ((tht_Entries t)[?i := e # pre @ post])) = vals (concat (tht_Entries t))"
        using parts(4) by (simp only: vals_def)
      ultimately have "ft_inv ?t h M" using f own by (simp add: ft_inv_def)
      moreover have "0 \<le> tht_LockCnt t" using sh by simp
      ultimately show ?thesis using alive sp fnd parts(4)
        by (auto simp: fthash_Lookup_def fthash_Lookup2_def fthash_IsLocked_def ft_conf_def)
    qed
  qed
qed

lemma MarkRemoved_ok:
  assumes inv: "ft_inv t h M"
  shows "\<exists>t'. fthash_MarkRemoved t k h = Some (t', h) \<and> ft_inv t' h M \<and> ft_conf t t' \<and>
    tht_MaxEntries t' = tht_MaxEntries t \<and> tht_TTL t' = tht_TTL t \<and> tht_LockCnt t' = tht_LockCnt t \<and>
    (case ft_find t k of None \<Rightarrow> t' = t | Some e \<Rightarrow> mset (concat (tht_Entries t')) + {#e#} = mset (concat (tht_Entries t)))"
proof -
  have shape: "ft_shape t" and f: "tht_FreeVal t = free"
    and own: "owns h (vals (concat (tht_Entries t)) + vals (tht_LockedEntries t) + M)"
    using inv by (auto simp: ft_inv_def)
  let ?i = "fthash_Hash t k"
  note sh = ft_shape_facts(3,5-7) [OF shape]
  have i: "?i < tht_Size t" by (rule fthash_Hash_less [OF shape])
  show ?thesis
  proof (cases "ft_split t k (tht_Entries t ! ?i)")
    case None
    then show ?thesis using inv by (simp add: fthash_MarkRemoved_def fthash_Remove3_def ft_find_def Let_def)
  next
    case (Some q)
    then obtain pre e post where sp: "ft_split t k (tht_Entries t ! ?i) = Some (pre, e, post)" by (cases q) auto
    note parts = ft_find_parts [OF shape sp]
    have fnd: "ft_find t k = Some e" using sp by (auto simp: ft_find_split)
    let ?E = "(tht_Entries t)[?i := pre @ post]"
    have ve: "vals (concat (tht_Entries t)) = add_mset (the_Val e) (vals (concat ?E))"
      using parts(3) unfolding vals_def by (metis add_mset_add_single image_mset_add_mset)
    let ?t = "t\<lparr>tht_Entries := ?E, tht_LockedEntries := tht_LockedEntries t @ [e]\<rparr>"
    have "ft_shape ?t"
      by (rule ft_shape_put [OF shape _ i, where x = "pre @ post"]) (use parts(1,2) sh in \<open>simp_all add: ft_conf_def\<close>)
    then have "ft_inv ?t h M" using f own ve by (simp add: ft_inv_def)
    then show ?thesis using sp fnd parts(3)
      by (auto simp: fthash_MarkRemoved_def fthash_Remove3_def FTREMF_MOVE_def ft_conf_def)
  qed
qed

text \<open>An insertion takes the value over unless it fails.\<close>

lemma Insert_ok:
  assumes inv: "ft_inv t h (add_mset v M)"
  shows "\<exists>r t'. fthash_Insert ok now t k v = (r, t') \<and> ft_conf t t' \<and>
    tht_MaxEntries t' = tht_MaxEntries t \<and> tht_TTL t' = tht_TTL t \<and> tht_LockCnt t' = tht_LockCnt t \<and>
    (if ok \<and> tht_NumEntries t < tht_MaxEntries t + 10 \<or> tht_FreeEntries t \<noteq> []
     then r = 1 \<and> ft_inv t' h M \<and> mset (concat (tht_Entries t')) =
       add_mset \<lparr>the_Key = k, the_Val = v, the_Birth = now\<rparr> (mset (concat (tht_Entries t)))
     else r = 0 \<and> t' = t)"
proof -
  have shape: "ft_shape t" and f: "tht_FreeVal t = free"
    and own: "owns h (vals (concat (tht_Entries t)) + vals (tht_LockedEntries t) + add_mset v M)"
    using inv by (auto simp: ft_inv_def)
  let ?i = "fthash_Hash t k"
  note sh = ft_shape_facts(3,5-7) [OF shape]
  have i: "?i < tht_Size t" "?i < length (tht_Entries t)"
    using fthash_Hash_less [OF shape] ft_shape_facts(2) [OF shape] by auto
  let ?e = "\<lparr>the_Key = k, the_Val = v, the_Birth = now\<rparr>"
  let ?x = "?e # tht_Entries t ! ?i"
  let ?E = "(tht_Entries t)[?i := ?x]"
  have m: "mset (concat ?E) = add_mset ?e (mset (concat (tht_Entries t)))"
    using mset_concat_upd [OF i(2), of ?x] by (simp add: union_ac)
  have v: "vals (concat ?E) = add_mset v (vals (concat (tht_Entries t)))" unfolding vals_def m by simp
  have h: "\<forall>e\<in>set ?x. fthash_Hash t (the_Key e) = ?i" using shape i by (auto simp: ft_shape_def)
  have new: "ft_inv t' h M" if sht: "ft_shape t'" and ent: "tht_Entries t' = ?E" "tht_LockedEntries t' = tht_LockedEntries t"
     "tht_FreeVal t' = tht_FreeVal t" for t'
    using own v f sht ent by (simp add: ft_inv_def union_ac)
  show ?thesis
  proof (cases "tht_FreeEntries t")
    case (Cons a es)
    let ?t = "t\<lparr>tht_FreeEntries := es, tht_Entries := ?E\<rparr>"
    have "ft_shape ?t"
      by (rule ft_shape_put [OF shape _ i(1), where x = ?x]) (use sh Cons h in \<open>simp_all add: ft_conf_def\<close>)
    then show ?thesis using new [of ?t] Cons m
      by (cases a) (simp add: fthash_Insert_def GetFreeEnt_def ft_conf_def Let_def)
  next
    case Nil
    show ?thesis
    proof (cases "ok \<and> tht_NumEntries t < tht_MaxEntries t + 10")
      case True
      let ?t = "t\<lparr>tht_NumEntries := tht_NumEntries t + 1, tht_Entries := ?E\<rparr>"
      have "ft_shape ?t"
        by (rule ft_shape_put [OF shape _ i(1), where x = ?x]) (use sh Nil h True in \<open>simp_all add: ft_conf_def\<close>)
      then show ?thesis using new [of ?t] Nil m True by (simp add: fthash_Insert_def GetFreeEnt_def ft_conf_def Let_def)
    next
      case False
      then show ?thesis using Nil by (auto simp: fthash_Insert_def GetFreeEnt_def Let_def)
    qed
  qed
qed

text \<open>Unlocking gives everything back and ends with at most \<open>tht_MaxEntries\<close> entries. The table may
  have had a larger limit \<open>m\<close> before.\<close>

lemma UnLockAll_ok:
  assumes inv: "ft_inv (t\<lparr>tht_MaxEntries := m\<rparr>) h M" and max: "0 \<le> tht_MaxEntries t"
  shows "\<exists>t' h'. fthash_UnLockAll now t h = Some (t', h') \<and> ft_inv t' h' M \<and> ft_conf t t' \<and>
    tht_MaxEntries t' = tht_MaxEntries t \<and> tht_TTL t' = tht_TTL t \<and> tht_LockCnt t' = 0 \<and> tht_LockedEntries t' = [] \<and>
    tht_NumEntries t' \<le> tht_MaxEntries t \<and>
    (\<forall>j < tht_Size t. \<exists>n. tht_Entries t' ! j = take n (tht_Entries t ! j)) \<and>
    (tht_NumEntries t \<le> tht_MaxEntries t \<longrightarrow> tht_Entries t' = tht_Entries t)"
proof -
  let ?t = "t\<lparr>tht_MaxEntries := m\<rparr>"
  have shape: "ft_shape ?t" and f: "tht_FreeVal t = free"
    and own: "owns h (vals (concat (tht_Entries t)) + vals (tht_LockedEntries t) + M)"
    using inv by (auto simp: ft_inv_def)
  note sh = ft_shape_facts [OF shape, simplified]
  let ?L = "tht_LockedEntries t" and ?E = "tht_Entries t"
  let ?freed = "map (\<lambda>e. e\<lparr>the_Val := NULL\<rparr>) ?L"
  have "owns h (vals ?L + (vals (concat ?E) + M))" using own by (simp add: union_ac)
  then obtain h1 where h1: "ft_free_vals t ?L h = Some (?freed, h1)" "owns h1 (vals (concat ?E) + M)"
    using free_vals_ok [OF f] by blast
  let ?F = "tht_FreeEntries t @ ?freed"
  have "\<forall>e\<in>set ?F. the_Val e = NULL" using sh(3) by auto
  then obtain k where k: "ft_drop_free t ?F (tht_NumEntries t) h1 = Some (drop k ?F, tht_NumEntries t - int k, h1)" "k \<le> length ?F"
     "tht_NumEntries t - int k \<le> tht_MaxEntries t \<or> k = length ?F" "k = 0 \<or> tht_MaxEntries t \<le> tht_NumEntries t - int k"
    using ft_drop_free_ok [of ?F t "tht_NumEntries t" h1] by blast
  have nullF: "\<forall>e\<in>set (drop k ?F). the_Val e = NULL"
  proof
    fix e assume "e \<in> set (drop k ?F)"
    then have "e \<in> set ?F" by (rule in_set_dropD)
    then show "the_Val e = NULL" using sh(3) by auto
  qed
  define num where "num = tht_NumEntries t - int k"
  have num: "num = int (length (drop k ?F)) + int (length (concat ?E))"
    using sh(4) k(2) by (simp add: num_def)
  have hash: "\<forall>j < tht_Size t. \<forall>e\<in>set (?E ! j). fthash_Hash t (the_Key e) = j"
    using shape by (simp add: ft_shape_def fthash_Hash_def)
  define t1 where "t1 = t\<lparr>tht_LockedEntries := [], tht_LockCnt := 0, tht_FreeEntries := drop k ?F, tht_NumEntries := num\<rparr>"
  show ?thesis
  proof (cases "num > tht_MaxEntries t")
    case False
    have "ft_shape t1"
      using sh hash False num nullF max by (simp add: t1_def ft_shape_def fthash_Hash_def)
    then have "ft_inv t1 h1 M" using f h1(2) by (simp add: ft_inv_def t1_def)
    moreover have "fthash_UnLockAll now t h = Some (t1, h1)"
      using h1(1) k(1) False by (simp add: fthash_UnLockAll_def Let_def t1_def num_def)
    moreover have "\<forall>j < tht_Size t. \<exists>n. ?E ! j = take n (?E ! j)" by (metis take_all order_refl)
    ultimately show ?thesis using False by (intro exI [of _ t1] exI [of _ h1]) (simp add: t1_def ft_conf_def)
  next
    case True
    then have kF: "drop k ?F = []" using k(3) by (simp add: num_def)
    have p: "unat now mod tht_Size t < length ?E" using sh(1,2) by simp
    have i: "num - tht_MaxEntries t \<le> int (length (concat ?E))" using num kF max by simp
    obtain ls h' where ev: "ft_evict t (num - tht_MaxEntries t) (unat now mod tht_Size t) ?E h1 = Some (ls, h')" "length ls = length ?E"
       "\<forall>j < length ?E. \<exists>n. ls ! j = take n (?E ! j)"
       "int (length (concat ls)) = int (length (concat ?E)) - max 0 (num - tht_MaxEntries t)" "owns h' (vals (concat ls) + M)"
      using evict_ok [OF f h1(2) p i] by blast
    let ?t = "t1\<lparr>tht_Entries := ls, tht_NumEntries := tht_MaxEntries t\<rparr>"
    have "\<forall>j < tht_Size t. \<forall>e\<in>set (ls ! j). fthash_Hash t (the_Key e) = j"
    proof (intro allI impI ballI)
      fix j e assume j: "j < tht_Size t" and e: "e \<in> set (ls ! j)"
      then obtain n where "ls ! j = take n (?E ! j)" using ev(3) sh(2) by auto
      then show "fthash_Hash t (the_Key e) = j" using e hash j by (metis in_set_takeD)
    qed
    then have "ft_shape ?t"
      using sh(1,2) ev(2,4) num kF True max by (simp add: t1_def ft_shape_def fthash_Hash_def)
    then have "ft_inv ?t h' M" using f ev(5) by (simp add: ft_inv_def t1_def)
    moreover have "fthash_UnLockAll now t h = Some (?t, h')"
      using h1(1) k(1) True ev(1) by (simp add: fthash_UnLockAll_def Let_def t1_def num_def)
    ultimately show ?thesis using ev(3) sh(2) True
      by (intro exI [of _ ?t] exI [of _ h']) (simp add: t1_def ft_conf_def num_def)
  qed
qed

lemma bury_ok:
  assumes f: "tht_FreeVal t = free"
  shows "owns h (vals l + R) \<Longrightarrow> \<exists>h'. ft_bury t dead l h =
     Some (filter (\<lambda>e. \<not> dead > the_Birth e) l, map (\<lambda>e. e\<lparr>the_Val := NULL\<rparr>) (filter (\<lambda>e. dead > the_Birth e) l), h') \<and>
     owns h' (vals (filter (\<lambda>e. \<not> dead > the_Birth e) l) + R)"
proof (induction l arbitrary: h R)
  case (Cons e es)
  show ?case
  proof (cases "dead > the_Birth e")
    case True
    have "owns h (add_mset (the_Val e) (vals es + R))" using Cons.prems by simp
    then obtain h1 where "fthash_FreeVal t e h = Some (e\<lparr>the_Val := NULL\<rparr>, h1)" "owns h1 (vals es + R)"
      using FreeVal_ok [OF f] by blast
    then show ?thesis using Cons.IH [of h1 R] True by auto
  next
    case False
    then show ?thesis using Cons.IH [of h "add_mset (the_Val e) R"] Cons.prems by auto
  qed
qed simp

lemma bury_all_ok:
  assumes f: "tht_FreeVal t = free"
  shows "owns h (vals (concat ls) + R) \<Longrightarrow> \<exists>h' fr. ft_bury_all t dead ls h =
     Some (map (filter (\<lambda>e. \<not> dead > the_Birth e)) ls, fr, h') \<and> (\<forall>e\<in>set fr. the_Val e = NULL) \<and>
     length fr + length (concat (map (filter (\<lambda>e. \<not> dead > the_Birth e)) ls)) = length (concat ls) \<and>
     owns h' (vals (concat (map (filter (\<lambda>e. \<not> dead > the_Birth e)) ls)) + R)"
proof (induction ls arbitrary: h R)
  case (Cons l ls)
  let ?keep = "filter (\<lambda>e. \<not> dead > the_Birth e)" and ?drop = "map (\<lambda>e. e\<lparr>the_Val := NULL\<rparr>) (filter (\<lambda>e. dead > the_Birth e) l)"
  have "owns h (vals l + (vals (concat ls) + R))" using Cons.prems by (simp add: union_ac)
  then obtain h1 where h1: "ft_bury t dead l h = Some (?keep l, ?drop, h1)" "owns h1 (vals (?keep l) + (vals (concat ls) + R))"
    using bury_ok [OF f] by blast
  have "owns h1 (vals (concat ls) + (vals (?keep l) + R))" using h1(2) by (simp add: union_ac)
  then obtain h' fr where "ft_bury_all t dead ls h1 = Some (map ?keep ls, fr, h')" "\<forall>e\<in>set fr. the_Val e = NULL"
     "length fr + length (concat (map ?keep ls)) = length (concat ls)"
     "owns h' (vals (concat (map ?keep ls)) + (vals (?keep l) + R))"
    using Cons.IH by blast
  moreover have "length (filter (\<lambda>e. dead > the_Birth e) l) + length (?keep l) = length l"
    by (rule sum_length_filter_compl)
  ultimately show ?case using h1(1) by (auto simp: union_ac)
qed simp

lemma Bury_ok:
  assumes inv: "ft_inv t h M"
  shows "\<exists>t' h'. fthash_Bury now t h = Some (t', h') \<and> ft_inv t' h' M \<and> ft_conf t t' \<and>
    tht_MaxEntries t' = tht_MaxEntries t \<and> tht_TTL t' = tht_TTL t \<and> tht_LockCnt t' = tht_LockCnt t \<and>
    (if 0 < tht_LockCnt t then t' = t \<and> h' = h
     else tht_Entries t' = map (filter (\<lambda>e. \<not> now - tht_TTL t > the_Birth e)) (tht_Entries t))"
proof (cases "0 < tht_LockCnt t")
  case True
  then show ?thesis using inv by (simp add: fthash_Bury_def fthash_IsLocked_def)
next
  case False
  have shape: "ft_shape t" and f: "tht_FreeVal t = free"
    and own: "owns h (vals (concat (tht_Entries t)) + (vals (tht_LockedEntries t) + M))"
    using inv by (auto simp: ft_inv_def union_ac)
  note sh = ft_shape_facts [OF shape]
  let ?K = "map (filter (\<lambda>e. \<not> now - tht_TTL t > the_Birth e)) (tht_Entries t)"
  obtain h' fr where b: "ft_bury_all t (now - tht_TTL t) (tht_Entries t) h = Some (?K, fr, h')"
     "\<forall>e\<in>set fr. the_Val e = NULL" "length fr + length (concat ?K) = length (concat (tht_Entries t))"
     "owns h' (vals (concat ?K) + (vals (tht_LockedEntries t) + M))"
    using bury_all_ok [OF f own] by blast
  let ?t = "t\<lparr>tht_Entries := ?K, tht_FreeEntries := tht_FreeEntries t @ fr\<rparr>"
  have "\<forall>j < tht_Size t. \<forall>e\<in>set (?K ! j). fthash_Hash t (the_Key e) = j"
  proof (intro allI impI ballI)
    fix j e assume j: "j < tht_Size t" and e: "e \<in> set (?K ! j)"
    then have "e \<in> set (tht_Entries t ! j)" using sh(2) by simp
    then show "fthash_Hash t (the_Key e) = j" using shape j unfolding ft_shape_def by metis
  qed
  then have "ft_shape ?t" using sh b(2,3) by (auto simp: ft_shape_def fthash_Hash_def)
  then have "ft_inv ?t h' M" using f b(4) by (simp add: ft_inv_def union_ac)
  then show ?thesis using False b(1) by (auto simp: fthash_Bury_def fthash_IsLocked_def ft_conf_def)
qed

lemma RemEntries_null: "\<forall>e\<in>set es. the_Val e = NULL \<Longrightarrow> fthash_RemEntries t es h = Some h"
  by (induction es) (auto simp: fthash_FreeEntry_def)

lemma Flush_ok:
  assumes inv: "ft_inv t h M"
  shows "\<exists>t'. fthash_Flush t h = Some (t', h) \<and> ft_inv t' h M \<and> ft_conf t t' \<and> tht_MaxEntries t' = tht_MaxEntries t \<and>
    tht_TTL t' = tht_TTL t \<and> tht_LockCnt t' = tht_LockCnt t \<and> tht_Entries t' = tht_Entries t \<and> tht_FreeEntries t' = []"
proof -
  have shape: "ft_shape t" using inv by (simp add: ft_inv_def)
  let ?t = "t\<lparr>tht_FreeEntries := [], tht_NumEntries := tht_NumEntries t - int (length (tht_FreeEntries t))\<rparr>"
  have "ft_shape ?t" using shape by (simp add: ft_shape_def fthash_Hash_def)
  then have "ft_inv ?t h M" using inv by (simp add: ft_inv_def)
  then show ?thesis using RemEntries_null [OF ft_shape_facts(3) [OF shape]] by (simp add: fthash_Flush_def ft_conf_def)
qed

text \<open>Deleting the table frees what it owns and nothing else.\<close>

lemma Delete_ok:
  assumes inv: "ft_inv t h M"
  shows "\<exists>h'. fthash_Delete t h = Some h' \<and> owns h' M"
proof -
  have shape: "ft_shape t" and f: "tht_FreeVal t = free"
    and own: "owns h (vals (tht_LockedEntries t) + (vals (concat (tht_Entries t)) + M))"
    using inv by (auto simp: ft_inv_def union_ac)
  obtain h1 where "fthash_RemEntries t (tht_LockedEntries t) h = Some h1" "owns h1 (vals (concat (tht_Entries t)) + M)"
    using RemEntries_ok [OF f own] by blast
  moreover from this obtain h' where "fthash_RemEntries t (concat (tht_Entries t)) h1 = Some h'" "owns h' M"
    using RemEntries_ok [OF f] by blast
  ultimately show ?thesis using RemEntries_null [OF ft_shape_facts(3) [OF shape], of t h]
    by (simp add: fthash_Delete_def)
qed

lemma New_inv:
  assumes "fthash_New Size KeySize MaxEntries TTL hashfunc free KeyCmp = Some t" and "0 \<le> MaxEntries" and "owns h M"
  shows "ft_inv t h M"
  using assms by (auto simp: fthash_New_def ft_inv_def ft_shape_def split: if_splits)

end

subsection \<open>The contents as a map\<close>

definition live :: "('k, 'h) fthashtable \<Rightarrow> 'k fthashentry set" where
  "live t = set (concat (tht_Entries t))"

lemma ft_find_live: "ft_shape t \<Longrightarrow> ft_uniq t \<Longrightarrow> ft_find t k = Some e \<longleftrightarrow> e \<in> live t \<and> the_Key e = k"
  unfolding live_def by (rule ft_find_eq)

lemma ft_find_None: "ft_shape t \<Longrightarrow> ft_uniq t \<Longrightarrow> ft_find t k = None \<longleftrightarrow> (\<forall>e\<in>live t. the_Key e \<noteq> k)"
  using ft_find_live [of t k] by (metis not_None_eq)

lemma live_mset: "live t = set_mset (mset (concat (tht_Entries t)))"
  unfolding live_def by (rule set_mset_mset [symmetric])

lemma distinct_submset: "mset xs \<subseteq># mset ys \<Longrightarrow> distinct ys \<Longrightarrow> distinct xs"
proof -
  assume s: "mset xs \<subseteq># mset ys" and d: "distinct ys"
  obtain zs where "mset zs = mset ys - mset xs" using ex_mset by blast
  then have "mset (xs @ zs) = mset ys" using s by simp
  then have "distinct (xs @ zs)" using d mset_eq_imp_distinct_iff by blast
  then show "distinct xs" by simp
qed

lemma ft_uniq_mset:
  assumes "ft_uniq t" and "ft_conf t t'" and "mset (concat (tht_Entries t')) \<subseteq># mset (concat (tht_Entries t))"
  shows "ft_uniq t'"
proof -
  have "mset (map the_Key (concat (tht_Entries t'))) \<subseteq># mset (map the_Key (concat (tht_Entries t)))"
    using image_mset_subseteq_mono [OF assms(3), of the_Key] unfolding mset_map .
  then have "distinct (map the_Key (concat (tht_Entries t')))"
    by (rule distinct_submset) (use assms(1) in \<open>simp only: ft_uniq_def\<close>)
  then show ?thesis using assms(1,2) by (simp add: ft_uniq_def ft_conf_def)
qed

lemma ft_uniq_add:
  assumes s: "ft_shape t" "ft_uniq t" and "ft_conf t t'" and m: "mset (concat (tht_Entries t')) = add_mset e (mset (concat (tht_Entries t)))"
    and n: "ft_find t (the_Key e) = None"
  shows "ft_uniq t'"
proof -
  let ?k = "map the_Key (concat (tht_Entries t))"
  have "mset (map the_Key (concat (tht_Entries t'))) = mset (the_Key e # ?k)" unfolding mset_map m by simp
  moreover have "the_Key e \<notin> set ?k" using n unfolding ft_find_None [OF s] live_def set_map by force
  ultimately have "distinct (map the_Key (concat (tht_Entries t')))"
    using assms(2) mset_eq_imp_distinct_iff by (metis distinct.simps(2) ft_uniq_def)
  then show ?thesis using assms(2,3) by (simp add: ft_uniq_def ft_conf_def)
qed

lemma map_ext_Some: "(\<And>k e. f k = Some e \<longleftrightarrow> f' k = Some e) \<Longrightarrow> f = f'"
  by (rule ext) (metis not_Some_eq)

lemma ft_find_same:
  assumes s: "ft_shape t" "ft_uniq t" "ft_shape t'" "ft_uniq t'"
    and m: "mset (concat (tht_Entries t')) = mset (concat (tht_Entries t))"
  shows "ft_find t' = ft_find t" "live t' = live t"
proof -
  show l: "live t' = live t" unfolding live_mset m ..
  show "ft_find t' = ft_find t" by (rule map_ext_Some) (simp add: ft_find_live [OF s(1,2)] ft_find_live [OF s(3,4)] l)
qed

lemma ft_find_add:
  assumes s: "ft_shape t" "ft_uniq t" "ft_shape t'" "ft_uniq t'"
    and m: "mset (concat (tht_Entries t')) = add_mset e (mset (concat (tht_Entries t)))"
  shows "ft_find t' = (ft_find t)(the_Key e \<mapsto> e)" "live t' = insert e (live t)"
proof -
  show l: "live t' = insert e (live t)" unfolding live_mset m by simp
  show "ft_find t' = (ft_find t)(the_Key e \<mapsto> e)"
  proof
    fix k
    show "ft_find t' k = ((ft_find t)(the_Key e \<mapsto> e)) k"
    proof (cases "k = the_Key e")
      case True
      then show ?thesis using ft_find_live [OF s(3,4), of k e] l by simp
    next
      case False
      then have "ft_find t' k = Some x \<longleftrightarrow> ft_find t k = Some x" for x
        using ft_find_live [OF s(1,2), of k x] ft_find_live [OF s(3,4), of k x] l by auto
      then show ?thesis using False by (metis fun_upd_other not_Some_eq)
    qed
  qed
qed

lemma ft_find_del:
  assumes s: "ft_shape t" "ft_uniq t" "ft_shape t'" "ft_uniq t'"
    and m: "mset (concat (tht_Entries t')) + {#e#} = mset (concat (tht_Entries t))"
  shows "ft_find t' = (ft_find t)(the_Key e := None)" "live t' \<subseteq> live t"
proof -
  have m': "mset (concat (tht_Entries t)) = add_mset e (mset (concat (tht_Entries t')))" using m by simp
  note t = ft_find_add [OF s(3,4,1,2) m']
  show "live t' \<subseteq> live t" using t(2) by blast
  let ?k = "map the_Key (concat (tht_Entries t'))"
  have "mset (map the_Key (concat (tht_Entries t))) = mset (the_Key e # ?k)" unfolding mset_map m' by simp
  moreover have "distinct (map the_Key (concat (tht_Entries t)))" using s(2) by (simp only: ft_uniq_def)
  ultimately have "distinct (the_Key e # ?k)" using mset_eq_imp_distinct_iff by blast
  then have "the_Key e \<notin> the_Key ` live t'" unfolding live_def by (simp only: distinct.simps set_map) simp
  then have n: "ft_find t' (the_Key e) = None" unfolding ft_find_None [OF s(3,4)] by (metis imageI)
  show "ft_find t' = (ft_find t)(the_Key e := None)"
  proof
    fix k
    show "ft_find t' k = ((ft_find t)(the_Key e := None)) k" using t(1) n by (cases "k = the_Key e") auto
  qed
qed

end
