(* ===== verification/AttrCache.thy ===== *)
theory AttrCache
  imports FtHash NfsIO
begin

text \<open>
  The attribute cache (src/src/attrs.c): the NFS attributes of remote objects by file id, in a
  hash table whose entries age. Lookups hand out pointers to entries; the handler unlocks the
  cache after each packet. The theory proves that a pointer that was handed out stays valid
  until then, that the cache answers with the attributes stored last and not too long ago, and
  that it owns exactly the memory of its entries.

  Clock readings (\<open>now\<close>) and results of memory allocation (the address of a fresh entry, NULL
  when there is none; whether the table gets an entry of its own) are arguments.
\<close>

subsection \<open>The cache\<close>

record acentry =
  ace_FileId :: u32
  ace_NFSFh :: nfs_fh
  ace_FAttr :: fattr

type_synonym ace_store = "addr \<Rightarrow> acentry option"

record attrcache =
  g_AttrCache :: "(u32, ace_store) fthashtable"
  hp_ace :: ace_store

definition attrs_HashFunc :: "u32 \<Rightarrow> u32 \<Rightarrow> u32" where
  "attrs_HashFunc key s = key AND 0xFF"

definition attrs_KeyCmp :: "u32 \<Rightarrow> u32 \<Rightarrow> u32 \<Rightarrow> int" where
  "attrs_KeyCmp key1 key2 s = sint (key1 - key2)"

text \<open>The standard free function of the table, \<open>FreeVec\<close>.\<close>

definition fthash_DefaultFreeVal :: "addr \<Rightarrow> (addr \<Rightarrow> 'v option) \<Rightarrow> (addr \<Rightarrow> 'v option) option" where
  "fthash_DefaultFreeVal a h = (if a \<in> dom h then Some (h(a := None)) else None)"

definition attrs_Init :: "int \<Rightarrow> u32 \<Rightarrow> ace_store \<Rightarrow> attrcache option" where
  "attrs_Init MaxEntries Timeout h =
     map_option (\<lambda>tb. \<lparr>g_AttrCache = tb, hp_ace = h\<rparr>)
       (fthash_New 256 4 MaxEntries Timeout attrs_HashFunc fthash_DefaultFreeVal attrs_KeyCmp)"

definition attrs_Cleanup :: "attrcache \<Rightarrow> ace_store option" where
  "attrs_Cleanup g = fthash_Delete (g_AttrCache g) (hp_ace g)"

definition attrs_LookupFromFileId :: "u32 \<Rightarrow> attrcache \<Rightarrow> u32 \<Rightarrow> (addr \<times> attrcache) option" where
  "attrs_LookupFromFileId now g FileId =
     map_option (\<lambda>(r, t, h). (r, \<lparr>g_AttrCache = t, hp_ace = h\<rparr>)) (fthash_Lookup now (g_AttrCache g) FileId (hp_ace g))"

definition attrs_Delete :: "attrcache \<Rightarrow> u32 \<Rightarrow> attrcache option" where
  "attrs_Delete g FileId =
     map_option (\<lambda>(t, h). \<lparr>g_AttrCache = t, hp_ace = h\<rparr>) (fthash_MarkRemoved (g_AttrCache g) FileId (hp_ace g))"

definition attrs_CreateAndInsert ::
  "addr \<times> bool \<Rightarrow> u32 \<Rightarrow> attrcache \<Rightarrow> nfs_fh \<Rightarrow> fattr \<Rightarrow> addr \<times> attrcache" where
  "attrs_CreateAndInsert mem now g FH FAttr =
     (let (ent, ok) = mem; Key = fa_fileid FAttr in
      if ent = NULL then (NULL, g)
      else
        let h = (hp_ace g)(ent \<mapsto> \<lparr>ace_FileId = Key, ace_NFSFh = FH, ace_FAttr = FAttr\<rparr>);
            (RetVal, t) = fthash_Insert ok now (g_AttrCache g) Key ent
        in if RetVal \<noteq> 0 then (ent, \<lparr>g_AttrCache = t, hp_ace = h\<rparr>)
           else (NULL, \<lparr>g_AttrCache = t, hp_ace = h(ent := None)\<rparr>))"

definition attrs_Update ::
  "addr \<times> bool \<Rightarrow> u32 \<Rightarrow> u32 \<Rightarrow> attrcache \<Rightarrow> nfs_fh \<Rightarrow> fattr \<Rightarrow> (addr \<times> attrcache) option" where
  "attrs_Update mem now now' g FH FAttr =
     do {
       (p, g1) \<leftarrow> attrs_LookupFromFileId now g (fa_fileid FAttr);
       (if p \<noteq> NULL then
          do {
            e \<leftarrow> hp_ace g1 p;
            Some (p, g1\<lparr>hp_ace := (hp_ace g1)(p \<mapsto> e\<lparr>ace_NFSFh := FH, ace_FAttr := FAttr\<rparr>)\<rparr>)
          }
        else Some (attrs_CreateAndInsert mem now' g1 FH FAttr))
     }"

definition attrs_UnLockAll :: "u32 \<Rightarrow> attrcache \<Rightarrow> attrcache option" where
  "attrs_UnLockAll now g =
     map_option (\<lambda>(t, h). \<lparr>g_AttrCache = t, hp_ace = h\<rparr>) (fthash_UnLockAll now (g_AttrCache g) (hp_ace g))"

definition attrs_Flush :: "attrcache \<Rightarrow> attrcache option" where
  "attrs_Flush g = map_option (\<lambda>(t, h). \<lparr>g_AttrCache = t, hp_ace = h\<rparr>) (fthash_Flush (g_AttrCache g) (hp_ace g))"

definition attrs_SetCacheTimeout :: "attrcache \<Rightarrow> int \<Rightarrow> int \<times> attrcache" where
  "attrs_SetCacheTimeout g Timeout =
     (let (r, t) = fthash_SetTimeToLive (g_AttrCache g) Timeout in (r, g\<lparr>g_AttrCache := t\<rparr>))"

definition attrs_Bury :: "u32 \<Rightarrow> attrcache \<Rightarrow> attrcache option" where
  "attrs_Bury now g =
     map_option (\<lambda>(t, h). \<lparr>g_AttrCache = t, hp_ace = h\<rparr>) (fthash_Bury now (g_AttrCache g) (hp_ace g))"

definition attrs_SetCacheSize :: "u32 \<Rightarrow> attrcache \<Rightarrow> int \<Rightarrow> attrcache option" where
  "attrs_SetCacheSize now g NewSize =
     map_option (\<lambda>(t, h). \<lparr>g_AttrCache = t, hp_ace = h\<rparr>) (fthash_SetMaxEntries now (g_AttrCache g) NewSize (hp_ace g))"

text \<open>The attributes of an object, from the cache or from the server (\<open>c_GetAttr\<close> of
  src/src/lock.c). \<open>getattr\<close> is the GETATTR call; the result is the entry (NULL on an error),
  \<open>Res2\<close>, and the state of the server. \<open>attrs_store\<close> is the storing of the reply, which
  \<open>GetNameEntry\<close> does in the same way.\<close>

definition attrs_store ::
  "(nat \<Rightarrow> u32) \<Rightarrow> (nat \<Rightarrow> addr \<times> bool) \<Rightarrow> attrcache \<Rightarrow> nfs_fh \<Rightarrow> fattr \<Rightarrow> (addr \<times> attrcache) option" where
  "attrs_store clk mem g NFSFh attr =
     do {
       (p1, g1) \<leftarrow> attrs_LookupFromFileId (clk 1) g (fa_fileid attr);
       (p2, g2) \<leftarrow> (if p1 \<noteq> NULL then attrs_Update (mem 0) (clk 2) (clk 3) g1 NFSFh attr else Some (NULL, g1));
       Some (if p2 = NULL then attrs_CreateAndInsert (mem 1) (clk 4) g2 NFSFh attr else (p2, g2))
     }"

definition c_GetAttr ::
  "(nat \<Rightarrow> u32) \<Rightarrow> (nat \<Rightarrow> addr \<times> bool) \<Rightarrow> (nfs_fh \<Rightarrow> 'srv \<Rightarrow> (int + fattr) \<times> 'srv) \<Rightarrow> attrcache \<Rightarrow> u32 \<Rightarrow> nfs_fh \<Rightarrow> int \<Rightarrow>
     'srv \<Rightarrow> (addr \<times> int \<times> attrcache \<times> 'srv) option" where
  "c_GetAttr clk mem getattr g FileId NFSFh Res2 srv =
     do {
       (p, g0) \<leftarrow> (if FileId \<noteq> 0 then attrs_LookupFromFileId (clk 0) g FileId else Some (NULL, g));
       (if p \<noteq> NULL then Some (p, Res2, g0, srv)
        else case getattr NFSFh srv of
          (Inl err, srv1) \<Rightarrow> Some (NULL, err, g0, srv1)
        | (Inr attr, srv1) \<Rightarrow>
            do {
              (p3, g3) \<leftarrow> attrs_store clk mem g0 NFSFh attr;
              Some (p3, if p3 = NULL then ERROR_NO_FREE_STORE else Res2, g3, srv1)
            })
     }"

subsection \<open>The invariant\<close>

text \<open>The store as the table sees it: entries can only go, those that stay are unchanged since \<open>h0\<close>.\<close>

definition ace_from :: "ace_store \<Rightarrow> ace_store \<Rightarrow> bool" where
  "ace_from h0 h \<longleftrightarrow> finite (dom h) \<and> NULL \<notin> dom h \<and> map_le h h0"

interpretation ace: value_heap dom fthash_DefaultFreeVal "ace_from h0" for h0
  by unfold_locales (auto simp: fthash_DefaultFreeVal_def ace_from_def map_le_def split: if_splits)

lemma attrs_KeyCmp_eq [simp]: "attrs_KeyCmp a b s = 0 \<longleftrightarrow> a = b"
  unfolding attrs_KeyCmp_def by (metis eq_iff_diff_eq_0 signed_0 signed_word_eqI)

lemma ace_rebase: "ace.ft_inv h0 t h M \<Longrightarrow> ace.ft_inv h t h M"
  by (simp add: ace.ft_inv_def ace.owns_def ace_from_def)

lemma ace_map_le: "ace.ft_inv h0 t h M \<Longrightarrow> map_le h h0"
  by (simp add: ace.ft_inv_def ace.owns_def ace_from_def)

abbreviation ac_ft :: "attrcache \<Rightarrow> addr multiset \<Rightarrow> bool" where
  "ac_ft g M \<equiv> ace.ft_inv (hp_ace g) (g_AttrCache g) (hp_ace g) M"

text \<open>The cache owns exactly the allocated entries, each under its own file id; no file id is in
  the cache twice.\<close>

definition ac_inv :: "attrcache \<Rightarrow> bool" where
  "ac_inv g \<longleftrightarrow> ac_ft g {#} \<and> ft_uniq (g_AttrCache g) \<and>
     (\<forall>e\<in>live (g_AttrCache g). \<exists>a. hp_ace g (the_Val e) = Some a \<and> ace_FileId a = the_Key e \<and>
        fa_fileid (ace_FAttr a) = the_Key e)"

text \<open>What the cache knows at a time: the attributes of the entries that are not too old.\<close>

definition ac_map :: "u32 \<Rightarrow> attrcache \<Rightarrow> u32 \<Rightarrow> (nfs_fh \<times> fattr) option" where
  "ac_map now g k =
     (case ft_find (g_AttrCache g) k of
        None \<Rightarrow> None
      | Some e \<Rightarrow> if now - tht_TTL (g_AttrCache g) > the_Birth e then None
          else map_option (\<lambda>a. (ace_NFSFh a, ace_FAttr a)) (hp_ace g (the_Val e)))"

lemma ac_invD:
  assumes "ac_inv g"
  shows "ac_ft g {#}" "ft_uniq (g_AttrCache g)" "ft_shape (g_AttrCache g)"
  using assms by (auto simp: ac_inv_def ace.ft_inv_def)

lemma ac_entry:
  assumes "ac_inv g" and "ft_find (g_AttrCache g) k = Some e"
  shows "\<exists>a. hp_ace g (the_Val e) = Some a \<and> ace_FileId a = k \<and> fa_fileid (ace_FAttr a) = k"
  using assms ft_find_live [OF ac_invD(3,2) [OF assms(1)], of k e] by (auto simp: ac_inv_def)

lemma ft_inv_vals_dom:
  assumes "ace.ft_inv h0 t h M"
  shows "e \<in> live t \<Longrightarrow> the_Val e \<in> dom h" "set_mset M \<subseteq> dom h"
proof -
  have "dom h = set_mset (vals (concat (tht_Entries t)) + vals (tht_LockedEntries t) + M)"
    using assms ace.owns_alloc unfolding ace.ft_inv_def by blast
  then show "e \<in> live t \<Longrightarrow> the_Val e \<in> dom h" "set_mset M \<subseteq> dom h"
    unfolding live_mset vals_def by (auto simp del: set_mset_mset)
qed

lemma live_vals_inj:
  assumes "ace.ft_inv h0 t h M" and "e \<in> live t" "e' \<in> live t" "the_Val e = the_Val e'"
  shows "e = e'"
proof (rule ccontr)
  assume ne: "e \<noteq> e'"
  let ?m = "mset (concat (tht_Entries t))"
  have "e \<in># ?m" "e' \<in># ?m" using assms(2,3) by (simp_all only: live_mset)
  then obtain N where N: "?m = add_mset e (add_mset e' N)" using ne by (metis insert_noteq_member multi_member_split)
  have "ace.owns h0 h (add_mset (the_Val e) (add_mset (the_Val e') (image_mset the_Val N + vals (tht_LockedEntries t) + M)))"
    using assms(1) unfolding ace.ft_inv_def vals_def N by simp
  then show False using ace.owns_once assms(4) by fastforce
qed

text \<open>The cache after an operation of the table that took entries away at most.\<close>

lemma ac_inv_less:
  assumes inv: "ac_inv g" and t': "ace.ft_inv (hp_ace g) t' h' {#}" "ft_conf (g_AttrCache g) t'"
    and sub: "mset (concat (tht_Entries t')) \<subseteq># mset (concat (tht_Entries (g_AttrCache g)))"
  shows "ac_inv \<lparr>g_AttrCache = t', hp_ace = h'\<rparr>" and "e \<in> live t' \<Longrightarrow> h' (the_Val e) = hp_ace g (the_Val e)"
proof -
  have keep: "h' (the_Val e) = hp_ace g (the_Val e)" if l: "e \<in> live t'" for e
    using ft_inv_vals_dom(1) [OF t'(1) l] ace_map_le [OF t'(1)] by (simp add: map_le_def)
  then show "e \<in> live t' \<Longrightarrow> h' (the_Val e) = hp_ace g (the_Val e)" .
  have "live t' \<subseteq> live (g_AttrCache g)" unfolding live_mset by (rule set_mset_mono [OF sub])
  then have "\<forall>e\<in>live t'. \<exists>a. h' (the_Val e) = Some a \<and> ace_FileId a = the_Key e \<and> fa_fileid (ace_FAttr a) = the_Key e"
    using inv keep by (auto simp: ac_inv_def)
  then show "ac_inv \<lparr>g_AttrCache = t', hp_ace = h'\<rparr>"
    using ace_rebase [OF t'(1)] ft_uniq_mset [OF ac_invD(2) [OF inv] t'(2) sub] by (simp add: ac_inv_def)
qed

lemma ac_map_find:
  "ft_find (g_AttrCache g') k = ft_find (g_AttrCache g) k \<Longrightarrow> tht_TTL (g_AttrCache g') = tht_TTL (g_AttrCache g) \<Longrightarrow>
     (\<And>e. ft_find (g_AttrCache g) k = Some e \<Longrightarrow> hp_ace g' (the_Val e) = hp_ace g (the_Val e)) \<Longrightarrow>
     ac_map m g' k = ac_map m g k"
  by (simp add: ac_map_def split: option.split)

lemma attrcache_eta [simp]: "\<lparr>g_AttrCache = g_AttrCache g, hp_ace = hp_ace g\<rparr> = (g :: attrcache)"
  by (cases g) simp

subsection \<open>Looking up\<close>

lemma attrs_Lookup_ok:
  assumes inv: "ac_inv g"
  shows "\<exists>p g'. attrs_LookupFromFileId now g k = Some (p, g') \<and> ac_inv g' \<and> tht_TTL (g_AttrCache g') = tht_TTL (g_AttrCache g) \<and>
    (\<forall>m. ac_map m g' = (if ac_map now g k = None then (ac_map m g)(k := None) else ac_map m g)) \<and>
    (case ac_map now g k of
       None \<Rightarrow> p = NULL \<and> ft_find (g_AttrCache g') k = None
     | Some (fh, fa) \<Rightarrow> p \<noteq> NULL \<and> hp_ace g' p = Some \<lparr>ace_FileId = k, ace_NFSFh = fh, ace_FAttr = fa\<rparr> \<and>
         0 < tht_LockCnt (g_AttrCache g') \<and> (\<exists>e. ft_find (g_AttrCache g') k = Some e \<and> the_Val e = p))"
proof -
  let ?t = "g_AttrCache g" and ?h = "hp_ace g"
  note d = ac_invD [OF inv]
  obtain r t' h' where l: "fthash_Lookup now ?t k ?h = Some (r, t', h')" "ace.ft_inv ?h t' h' {#}" "ft_conf ?t t'"
     "tht_TTL t' = tht_TTL ?t"
     "case ft_find ?t k of
       None \<Rightarrow> r = NULL \<and> t' = ?t \<and> h' = ?h
     | Some e \<Rightarrow>
         if now - tht_TTL ?t > the_Birth e
         then r = NULL \<and> mset (concat (tht_Entries t')) + {#e#} = mset (concat (tht_Entries ?t))
         else r = the_Val e \<and> h' = ?h \<and> 0 < tht_LockCnt t' \<and> mset (concat (tht_Entries t')) = mset (concat (tht_Entries ?t))"
    using ace.Lookup_ok [OF d(1), of now k] by blast
  let ?g = "\<lparr>g_AttrCache = t', hp_ace = h'\<rparr>"
  have run: "attrs_LookupFromFileId now g k = Some (r, ?g)" using l(1) by (simp add: attrs_LookupFromFileId_def)
  have shape: "ft_shape t'" using l(2) by (simp add: ace.ft_inv_def)
  show ?thesis
  proof (cases "ft_find ?t k")
    case None
    then have "ac_map m g = (ac_map m g)(k := None)" for m by (auto simp: ac_map_def fun_eq_iff)
    then show ?thesis using run None l(5) inv by (auto simp: ac_map_def)
  next
    case (Some e)
    show ?thesis
    proof (cases "now - tht_TTL ?t > the_Birth e")
      case dead: True
      have m: "mset (concat (tht_Entries t')) + {#e#} = mset (concat (tht_Entries ?t))" and r: "r = NULL"
        using l(5) Some dead by auto
      have sub: "mset (concat (tht_Entries t')) \<subseteq># mset (concat (tht_Entries ?t))" using m by (metis mset_subset_eq_add_left)
      note less = ac_inv_less [OF inv l(2,3) sub]
      have u: "ft_uniq t'" using ac_invD(2) [OF less(1)] by simp
      have key: "the_Key e = k" using Some ft_find_live [OF d(3,2)] by auto
      note del = ft_find_del [OF d(3,2) shape u m, unfolded key]
      have "ac_map m ?g j = ((ac_map m g)(k := None)) j" for m j
      proof (cases "j = k")
        case True
        then show ?thesis using del(1) by (simp add: ac_map_def)
      next
        case False
        have "h' (the_Val x) = ?h (the_Val x)" if x: "ft_find t' j = Some x" for x
          using less(2) x ft_find_live [OF shape u] by blast
        then have "ac_map m ?g j = ac_map m g j"
          by (intro ac_map_find) (use False del(1) l(4) in auto)
        then show ?thesis using False by simp
      qed
      then have "ac_map m ?g = (ac_map m g)(k := None)" for m by (rule ext)
      moreover have "ac_map now g k = None" using Some dead by (simp add: ac_map_def)
      ultimately show ?thesis using run less(1) l(4) r del(1) by simp
    next
      case False
      have m: "mset (concat (tht_Entries t')) = mset (concat (tht_Entries ?t))" and r: "r = the_Val e" "h' = ?h" "0 < tht_LockCnt t'"
        using l(5) Some False by auto
      note less = ac_inv_less [OF inv l(2,3)]
      have u: "ft_uniq t'" using ac_invD(2) [OF less(1)] m by simp
      note same = ft_find_same [OF d(3,2) shape u m]
      obtain a where a: "?h (the_Val e) = Some a" "ace_FileId a = k" using ac_entry [OF inv Some] by blast
      have "ac_map m ?g = ac_map m g" for m by (rule ext, rule ac_map_find) (use same(1) l(4) r(2) in auto)
      moreover have "ac_map now g k = Some (ace_NFSFh a, ace_FAttr a)" using Some False a by (simp add: ac_map_def)
      moreover have "the_Val e \<noteq> NULL" using a(1) d(1) by (auto simp: ace.ft_inv_def ace.owns_def ace_from_def)
      ultimately show ?thesis using run less(1) m l(4) r same(1) Some a by auto
    qed
  qed
qed

subsection \<open>Storing\<close>

text \<open>The table's store may gain a value of the client.\<close>

lemma ft_inv_alloc:
  assumes "ac_ft g {#}" and "ent \<noteq> NULL" "ent \<notin> dom (hp_ace g)"
  shows "ace.ft_inv ((hp_ace g)(ent \<mapsto> a)) (g_AttrCache g) ((hp_ace g)(ent \<mapsto> a)) {#ent#}"
proof -
  have f: "finite (dom (hp_ace g))" using assms(1) by (auto simp: ace.ft_inv_def ace.owns_def ace_from_def)
  then have "mset_set (dom ((hp_ace g)(ent \<mapsto> a))) = add_mset ent (mset_set (dom (hp_ace g)))"
    using assms(3) by simp
  then show ?thesis using assms by (auto simp: ace.ft_inv_def ace.owns_def ace_from_def)
qed

lemma ft_inv_drop:
  assumes "ace.ft_inv h0 t h {#ent#}"
  shows "ace.ft_inv (h(ent := None)) t (h(ent := None)) {#}"
proof -
  have o: "ace.owns h0 h (add_mset ent (vals (concat (tht_Entries t)) + vals (tht_LockedEntries t)))"
    using assms by (simp add: ace.ft_inv_def)
  obtain h' where "fthash_DefaultFreeVal ent h = Some h'" "ace.owns h0 h' (vals (concat (tht_Entries t)) + vals (tht_LockedEntries t))"
    using ace.owns_free [OF o] by blast
  then have "ace.owns h0 (h(ent := None)) (vals (concat (tht_Entries t)) + vals (tht_LockedEntries t))"
    by (auto simp: fthash_DefaultFreeVal_def split: if_splits)
  then have "ace.ft_inv h0 t (h(ent := None)) {#}" using assms by (simp add: ace.ft_inv_def)
  then show ?thesis by (rule ace_rebase)
qed

lemma attrs_Create_ok:
  assumes inv: "ac_inv g" and new: "ent \<notin> dom (hp_ace g)" and absent: "ft_find (g_AttrCache g) (fa_fileid fa) = None"
    and run: "attrs_CreateAndInsert (ent, ok) now g fh fa = (p, g')"
  shows "ac_inv g' \<and> tht_TTL (g_AttrCache g') = tht_TTL (g_AttrCache g) \<and> tht_LockCnt (g_AttrCache g') = tht_LockCnt (g_AttrCache g) \<and>
    (if p = NULL then \<forall>m. ac_map m g' = ac_map m g
     else p = ent \<and> hp_ace g' p = Some \<lparr>ace_FileId = fa_fileid fa, ace_NFSFh = fh, ace_FAttr = fa\<rparr> \<and>
       (\<forall>m. ac_map m g' = (ac_map m g)(fa_fileid fa := if m - tht_TTL (g_AttrCache g) > now then None else Some (fh, fa))))"
proof (cases "ent = NULL")
  case True
  then show ?thesis using run inv by (auto simp: attrs_CreateAndInsert_def)
next
  case False
  let ?t = "g_AttrCache g" and ?k = "fa_fileid fa" and ?a = "\<lparr>ace_FileId = fa_fileid fa, ace_NFSFh = fh, ace_FAttr = fa\<rparr>"
  let ?h = "(hp_ace g)(ent \<mapsto> ?a)"
  note d = ac_invD [OF inv]
  have i1: "ace.ft_inv ?h ?t ?h {#ent#}" by (rule ft_inv_alloc [OF d(1) False new])
  have keep: "?h (the_Val e) = hp_ace g (the_Val e)" if l: "e \<in> live ?t" for e
    using ft_inv_vals_dom(1) [OF d(1) l] new by auto
  obtain r t' where ins: "fthash_Insert ok now ?t ?k ent = (r, t')" "ft_conf ?t t'" "tht_TTL t' = tht_TTL ?t" "tht_LockCnt t' = tht_LockCnt ?t"
     "r = 1 \<and> ace.ft_inv ?h t' ?h {#} \<and> mset (concat (tht_Entries t')) =
       add_mset \<lparr>the_Key = ?k, the_Val = ent, the_Birth = now\<rparr> (mset (concat (tht_Entries ?t))) \<or> r = 0 \<and> t' = ?t"
    using ace.Insert_ok [OF i1, of ok now ?k] by (metis (no_types, lifting))
  from ins(5) show ?thesis
  proof
    assume r: "r = 0 \<and> t' = ?t"
    then have g': "p = NULL" "g' = g\<lparr>hp_ace := ?h(ent := None)\<rparr>"
      using run ins(1) False by (auto simp: attrs_CreateAndInsert_def Let_def)
    have "?h(ent := None) = hp_ace g" using new by (auto simp: fun_eq_iff)
    then have "g' = g" using g' by simp
    then show ?thesis using g' inv by simp
  next
    let ?e = "\<lparr>the_Key = ?k, the_Val = ent, the_Birth = now\<rparr>"
    assume r: "r = 1 \<and> ace.ft_inv ?h t' ?h {#} \<and> mset (concat (tht_Entries t')) = add_mset ?e (mset (concat (tht_Entries ?t)))"
    then have g': "p = ent" "g' = \<lparr>g_AttrCache = t', hp_ace = ?h\<rparr>"
      using run ins(1) False by (auto simp: attrs_CreateAndInsert_def Let_def)
    have shape: "ft_shape t'" using r by (simp add: ace.ft_inv_def)
    have m: "mset (concat (tht_Entries t')) = add_mset ?e (mset (concat (tht_Entries ?t)))" using r by blast
    have u: "ft_uniq t'" by (rule ft_uniq_add [OF d(3,2) ins(2) m]) (use absent in simp)
    note add = ft_find_add [OF d(3,2) shape u m, simplified]
    have "ac_inv g'" using r u inv keep add(2) g'(2) by (auto simp: ac_inv_def)
    moreover have "ac_map m' g' j = ((ac_map m' g)(?k := if m' - tht_TTL ?t > now then None else Some (fh, fa))) j" for m' j
    proof (cases "j = ?k")
      case True
      then show ?thesis using add(1) g'(2) ins(3) by (simp add: ac_map_def)
    next
      case False
      have "ac_map m' g' j = ac_map m' g j"
        by (rule ac_map_find) (use False add(1) g'(2) ins(3) keep ft_find_live [OF d(3,2)] in auto)
      then show ?thesis using False by simp
    qed
    ultimately show ?thesis using g' ins(3,4) False by (auto simp: fun_eq_iff)
  qed
qed

text \<open>Overwriting the attributes of an entry in place:\<close>

lemma ac_inv_overwrite:
  fixes fh :: nfs_fh
  assumes inv: "ac_inv g" and e: "ft_find (g_AttrCache g) k = Some e" and a: "hp_ace g (the_Val e) = Some a"
    and fa: "fa_fileid fa = k"
  defines "g' \<equiv> g\<lparr>hp_ace := (hp_ace g)(the_Val e \<mapsto> a\<lparr>ace_NFSFh := fh, ace_FAttr := fa\<rparr>)\<rparr>"
  shows "ac_inv g'" and "ac_map m g' = (if ac_map m g k = None then ac_map m g else (ac_map m g)(k \<mapsto> (fh, fa)))"
proof -
  note d = ac_invD [OF inv]
  let ?a = "a\<lparr>ace_NFSFh := fh, ace_FAttr := fa\<rparr>"
  have el: "e \<in> live (g_AttrCache g)" "the_Key e = k" using e ft_find_live [OF d(3,2)] by auto
  have dom: "dom (hp_ace g') = dom (hp_ace g)" using a by (auto simp: g'_def)
  have ft: "ac_ft g' {#}" using d(1) dom by (simp add: ace.ft_inv_def ace.owns_def ace_from_def g'_def)
  have other: "hp_ace g' (the_Val x) = hp_ace g (the_Val x)" if "x \<in> live (g_AttrCache g)" "x \<noteq> e" for x
    using live_vals_inj [OF d(1) that(1) el(1)] that(2) by (auto simp: g'_def)
  have at: "hp_ace g' (the_Val e) = Some ?a" by (simp add: g'_def)
  have t: "g_AttrCache g' = g_AttrCache g" by (simp add: g'_def)
  have id: "ace_FileId a = k" using ac_entry [OF inv e] a by auto
  have "\<exists>b. hp_ace g' (the_Val x) = Some b \<and> ace_FileId b = the_Key x \<and> fa_fileid (ace_FAttr b) = the_Key x"
    if x: "x \<in> live (g_AttrCache g)" for x
  proof (cases "x = e")
    case True
    then show ?thesis using at id el(2) fa by simp
  next
    case False
    then show ?thesis using other [OF x] inv x by (simp add: ac_inv_def)
  qed
  then show "ac_inv g'" using ft d(2) t by (simp add: ac_inv_def)
  have "ac_map m g' j = (if ac_map m g k = None then ac_map m g else (ac_map m g)(k \<mapsto> (fh, fa))) j" for j
  proof (cases "j = k")
    case True
    then show ?thesis using e at a t by (simp add: ac_map_def)
  next
    case False
    have "ac_map m g' j = ac_map m g j"
      by (rule ac_map_find) (use t other False el(2) ft_find_live [OF d(3,2)] in auto)
    then show ?thesis using False by simp
  qed
  then show "ac_map m g' = (if ac_map m g k = None then ac_map m g else (ac_map m g)(k \<mapsto> (fh, fa)))" by (rule ext)
qed

lemma attrs_Lookup_dom: "ac_ft g {#} \<Longrightarrow> attrs_LookupFromFileId now g k = Some (p, g') \<Longrightarrow>
    ac_ft g' {#} \<and> map_le (hp_ace g') (hp_ace g) \<and> (0 < tht_LockCnt (g_AttrCache g) \<longrightarrow> hp_ace g' = hp_ace g \<and> 0 < tht_LockCnt (g_AttrCache g'))"
  using ace.Lookup_ok [of "hp_ace g" "g_AttrCache g" "hp_ace g" "{#}" now k] ace_rebase ace_map_le
  by (fastforce simp: attrs_LookupFromFileId_def)

lemma attrs_Create_dom:
  "attrs_CreateAndInsert (ent, ok) now g fh fa = (p, g') \<Longrightarrow> dom (hp_ace g') \<subseteq> insert ent (dom (hp_ace g))"
  by (auto simp: attrs_CreateAndInsert_def Let_def split: if_splits prod.splits)

lemma attrs_Update_ok:
  fixes fa :: fattr
  assumes inv: "ac_inv g" and new: "ent \<notin> dom (hp_ace g)"
  defines "k \<equiv> fa_fileid fa"
  shows "\<exists>p g'. attrs_Update (ent, ok) now now' g fh fa = Some (p, g') \<and> ac_inv g' \<and> dom (hp_ace g') \<subseteq> insert ent (dom (hp_ace g)) \<and>
    (\<forall>m. (ac_map m g')(k := None) = (ac_map m g)(k := None)) \<and>
    (if p = NULL then ac_map now g k = None \<and> ft_find (g_AttrCache g') k = None
     else hp_ace g' p = Some \<lparr>ace_FileId = k, ace_NFSFh = fh, ace_FAttr = fa\<rparr> \<and>
       (\<forall>m. ac_map m g' k = (if (if ac_map now g k = None then m - tht_TTL (g_AttrCache g) > now' else ac_map m g k = None)
                            then None else Some (fh, fa))))"
proof -
  obtain p1 g1 where l: "attrs_LookupFromFileId now g k = Some (p1, g1)" "ac_inv g1" "tht_TTL (g_AttrCache g1) = tht_TTL (g_AttrCache g)"
     "\<forall>m. ac_map m g1 = (if ac_map now g k = None then (ac_map m g)(k := None) else ac_map m g)"
     "case ac_map now g k of
       None \<Rightarrow> p1 = NULL \<and> ft_find (g_AttrCache g1) k = None
     | Some (fh, fa) \<Rightarrow> p1 \<noteq> NULL \<and> hp_ace g1 p1 = Some \<lparr>ace_FileId = k, ace_NFSFh = fh, ace_FAttr = fa\<rparr> \<and>
         0 < tht_LockCnt (g_AttrCache g1) \<and> (\<exists>e. ft_find (g_AttrCache g1) k = Some e \<and> the_Val e = p1)"
    using attrs_Lookup_ok [OF inv, of now k] by blast
  have sub: "dom (hp_ace g1) \<subseteq> dom (hp_ace g)"
    using attrs_Lookup_dom [OF ac_invD(1) [OF inv] l(1)] by (auto simp: map_le_def dom_def)
  show ?thesis
  proof (cases "ac_map now g k")
    case None
    then have p1: "p1 = NULL" "ft_find (g_AttrCache g1) k = None" using l(5) by auto
    obtain p g' where c: "attrs_CreateAndInsert (ent, ok) now' g1 fh fa = (p, g')" by (cases "attrs_CreateAndInsert (ent, ok) now' g1 fh fa")
    have new1: "ent \<notin> dom (hp_ace g1)" using new sub by blast
    have dom': "dom (hp_ace g') \<subseteq> insert ent (dom (hp_ace g))"
      using attrs_Create_dom [OF c] sub by blast
    have nf: "ft_find (g_AttrCache g1) (fa_fileid fa) = None" using p1(2) by (simp add: k_def)
    note cr = attrs_Create_ok [OF l(2) new1 nf c, folded k_def]
    have run: "attrs_Update (ent, ok) now now' g fh fa = Some (p, g')"
      using l(1) p1 c by (simp add: attrs_Update_def k_def)
    have "ft_find (g_AttrCache g') k = None" if "p = NULL"
      using c p1(2) that by (auto simp: attrs_CreateAndInsert_def Let_def fthash_Insert_def GetFreeEnt_def split: if_splits list.splits)
    then show ?thesis using run cr dom' None l(3,4) by (auto simp: fun_eq_iff split: if_splits)
  next
    case (Some q)
    obtain fh0 fa0 e where p1: "p1 \<noteq> NULL" "hp_ace g1 p1 = Some \<lparr>ace_FileId = k, ace_NFSFh = fh0, ace_FAttr = fa0\<rparr>"
        "ft_find (g_AttrCache g1) k = Some e" "the_Val e = p1" using l(5) Some by (cases q) auto
    let ?g = "g1\<lparr>hp_ace := (hp_ace g1)(p1 \<mapsto> \<lparr>ace_FileId = k, ace_NFSFh = fh, ace_FAttr = fa\<rparr>)\<rparr>"
    have run: "attrs_Update (ent, ok) now now' g fh fa = Some (p1, ?g)"
      using l(1) p1(1,2) by (simp add: attrs_Update_def k_def)
    have a: "hp_ace g1 (the_Val e) = Some \<lparr>ace_FileId = k, ace_NFSFh = fh0, ace_FAttr = fa0\<rparr>" using p1 by simp
    have kf: "fa_fileid fa = k" by (simp add: k_def)
    note ow = ac_inv_overwrite [OF l(2) p1(3) a kf, where fh = fh, unfolded p1(4), simplified]
    have dom': "dom (hp_ace ?g) \<subseteq> insert ent (dom (hp_ace g))" using sub p1(2) by auto
    have "ac_map m g1 = ac_map m g" for m using l(4) Some by simp
    then show ?thesis using run ow dom' p1(1) Some by (auto simp: fun_eq_iff)
  qed
qed

text \<open>C32. Storing attributes: after \<open>attrs_Update\<close> the cache never answers with anything but the
  new attributes for that file id, and it does answer with them until the entry is too old:
  a fresh entry is dated at its insertion, an entry overwritten in place keeps its date. When
  there is no memory (the result is NULL), it answers nothing for that id. What it knows of
  other ids does not change, and no file id gets a second entry.\<close>

theorem attrs_Update_correct:
  fixes fa :: fattr
  assumes inv: "ac_inv g" and new: "ent \<notin> dom (hp_ace g)"
  shows "\<exists>p g'. attrs_Update (ent, ok) now now' g fh fa = Some (p, g') \<and> ac_inv g' \<and>
    (\<forall>m. (ac_map m g')(fa_fileid fa := None) = (ac_map m g)(fa_fileid fa := None)) \<and>
    (if p = NULL then \<forall>m. ac_map m g' (fa_fileid fa) = None
     else hp_ace g' p = Some \<lparr>ace_FileId = fa_fileid fa, ace_NFSFh = fh, ace_FAttr = fa\<rparr> \<and>
       (\<forall>m. ac_map m g' (fa_fileid fa) =
          (if (if ac_map now g (fa_fileid fa) = None then m - tht_TTL (g_AttrCache g) > now' else ac_map m g (fa_fileid fa) = None)
           then None else Some (fh, fa))))"
proof -
  let ?k = "fa_fileid fa"
  obtain p g' where u: "attrs_Update (ent, ok) now now' g fh fa = Some (p, g')" "ac_inv g'"
     "\<forall>m. (ac_map m g')(?k := None) = (ac_map m g)(?k := None)"
     "if p = NULL then ac_map now g ?k = None \<and> ft_find (g_AttrCache g') ?k = None
     else hp_ace g' p = Some \<lparr>ace_FileId = ?k, ace_NFSFh = fh, ace_FAttr = fa\<rparr> \<and>
       (\<forall>m. ac_map m g' ?k = (if (if ac_map now g ?k = None then m - tht_TTL (g_AttrCache g) > now' else ac_map m g ?k = None)
                            then None else Some (fh, fa)))"
    using attrs_Update_ok [OF inv new, where fa = fa and ok = ok and now = now and now' = now' and fh = fh] by blast
  have "\<forall>m. ac_map m g' ?k = None" if "p = NULL" using u(4) that by (simp add: ac_map_def)
  then show ?thesis using u by (cases "p = NULL") auto
qed

text \<open>A cache with one entry, for concrete runs.\<close>

definition empty_attrs :: attrcache where
  "empty_attrs = the (attrs_Init 10 60 (\<lambda>_. None))"

lemma attrs_Init_inv:
  assumes "attrs_Init mx to (\<lambda>_. None) = Some g" and "0 \<le> mx"
  shows "ac_inv g"
proof -
  obtain t where t: "fthash_New 256 4 mx to attrs_HashFunc fthash_DefaultFreeVal attrs_KeyCmp = Some t"
     "g = \<lparr>g_AttrCache = t, hp_ace = \<lambda>_. None\<rparr>" using assms(1) by (auto simp: attrs_Init_def)
  have "ace.ft_inv (\<lambda>_. None) t (\<lambda>_. None) {#}"
    by (rule ace.New_inv [OF t(1) assms(2)]) (simp add: ace.owns_def ace_from_def)
  moreover have "live t = {}" "ft_uniq t" using t(1) by (auto simp: fthash_New_def live_def ft_uniq_def split: if_splits)
  ultimately show ?thesis using t(2) by (simp add: ac_inv_def)
qed

lemma empty_attrs_inv: "ac_inv empty_attrs"
proof -
  have "\<exists>g. attrs_Init 10 60 (\<lambda>_. None) = Some g" by (simp add: attrs_Init_def fthash_New_def)
  then obtain g where "attrs_Init 10 60 (\<lambda>_. None) = Some g" by blast
  then show ?thesis using attrs_Init_inv [of 10 60 g] by (simp add: empty_attrs_def)
qed

theorem attrs_Update_correct_witness:
  "\<exists>p g'. attrs_Update (100, True) 5 6 empty_attrs [7] some_fattr = Some (p, g') \<and> ac_inv g' \<and>
     (p \<noteq> NULL \<longrightarrow> (\<exists>a. hp_ace g' p = Some a \<and> ace_NFSFh a = [7]))"
proof -
  have "100 \<notin> dom (hp_ace empty_attrs)" by (auto simp: empty_attrs_def attrs_Init_def fthash_New_def)
  from attrs_Update_correct [OF empty_attrs_inv this, where fa = some_fattr and ok = True and now = 5 and now' = 6 and fh = "[7]"]
  show ?thesis by (auto split: if_splits)
qed

subsection \<open>Pointers stay valid\<close>

text \<open>What can happen between a lookup and the end of the packet: every operation but unlocking,
  shrinking and cleaning up.\<close>

inductive attr_step :: "attrcache \<Rightarrow> attrcache \<Rightarrow> bool" where
  lookup: "attrs_LookupFromFileId now g k = Some (p, g') \<Longrightarrow> attr_step g g'"
| update: "attrs_Update (ent, ok) now now' g fh fa = Some (p, g') \<Longrightarrow> ent \<notin> dom (hp_ace g) \<Longrightarrow> attr_step g g'"
| create: "attrs_CreateAndInsert (ent, ok) now g fh fa = (p, g') \<Longrightarrow> ent \<notin> dom (hp_ace g) \<Longrightarrow> attr_step g g'"
| delete: "attrs_Delete g k = Some g' \<Longrightarrow> attr_step g g'"
| flush: "attrs_Flush g = Some g' \<Longrightarrow> attr_step g g'"
| bury: "attrs_Bury now g = Some g' \<Longrightarrow> attr_step g g'"
| timeout: "attrs_SetCacheTimeout g t = (r, g') \<Longrightarrow> attr_step g g'"

text \<open>A locked cache: its entries keep their file ids and stay where they are.\<close>

definition pinned :: "attrcache \<Rightarrow> attrcache \<Rightarrow> bool" where
  "pinned g g' \<longleftrightarrow> ac_ft g' {#} \<and> 0 < tht_LockCnt (g_AttrCache g') \<and>
     (\<forall>p a. hp_ace g p = Some a \<longrightarrow> (\<exists>a'. hp_ace g' p = Some a' \<and> ace_FileId a' = ace_FileId a))"

lemma pinned_trans: "pinned g g1 \<Longrightarrow> pinned g1 g2 \<Longrightarrow> pinned g g2"
  unfolding pinned_def by metis

lemma pinned_lookup:
  "ac_ft g {#} \<Longrightarrow> 0 < tht_LockCnt (g_AttrCache g) \<Longrightarrow> attrs_LookupFromFileId now g k = Some (p, g') \<Longrightarrow> pinned g g'"
  using attrs_Lookup_dom [of g now k p g'] by (auto simp: pinned_def)

lemma pinned_create:
  assumes ft: "ac_ft g {#}" and lk: "0 < tht_LockCnt (g_AttrCache g)" and c: "attrs_CreateAndInsert (ent, ok) now g fh fa = (p, g')"
    and new: "ent \<notin> dom (hp_ace g)"
  shows "pinned g g'"
proof (cases "ent = NULL")
  case True
  then show ?thesis using ft lk c by (auto simp: attrs_CreateAndInsert_def pinned_def)
next
  case False
  let ?a = "\<lparr>ace_FileId = fa_fileid fa, ace_NFSFh = fh, ace_FAttr = fa\<rparr>"
  let ?h = "(hp_ace g)(ent \<mapsto> ?a)"
  have i1: "ace.ft_inv ?h (g_AttrCache g) ?h {#ent#}" by (rule ft_inv_alloc [OF ft False new])
  obtain r t' where ins: "fthash_Insert ok now (g_AttrCache g) (fa_fileid fa) ent = (r, t')" "tht_LockCnt t' = tht_LockCnt (g_AttrCache g)"
     "r = 1 \<and> ace.ft_inv ?h t' ?h {#} \<or> r = 0 \<and> t' = g_AttrCache g"
    using ace.Insert_ok [OF i1, of ok now "fa_fileid fa"] by (metis (no_types, lifting))
  have drop: "?h(ent := None) = hp_ace g" using new by (auto simp: fun_eq_iff)
  from ins(3) show ?thesis
  proof
    assume "r = 1 \<and> ace.ft_inv ?h t' ?h {#}"
    then show ?thesis using c ins False lk new by (auto simp: attrs_CreateAndInsert_def pinned_def Let_def)
  next
    assume "r = 0 \<and> t' = g_AttrCache g"
    then show ?thesis using c ins(1) False lk ft drop by (auto simp: attrs_CreateAndInsert_def pinned_def Let_def)
  qed
qed

lemma ac_ft_overwrite:
  assumes "ac_ft g {#}" and "hp_ace g p = Some a"
  shows "ac_ft (g\<lparr>hp_ace := (hp_ace g)(p \<mapsto> b)\<rparr>) {#}"
proof -
  have "dom ((hp_ace g)(p \<mapsto> b)) = dom (hp_ace g)" using assms(2) by auto
  then show ?thesis using assms(1) by (simp add: ace.ft_inv_def ace.owns_def ace_from_def)
qed

lemma pinned_update:
  assumes ft: "ac_ft g {#}" and lk: "0 < tht_LockCnt (g_AttrCache g)" and u: "attrs_Update (ent, ok) now now' g fh fa = Some (p, g')"
    and new: "ent \<notin> dom (hp_ace g)"
  shows "pinned g g'"
proof -
  obtain p1 g1 where l: "attrs_LookupFromFileId now g (fa_fileid fa) = Some (p1, g1)" using u by (auto simp: attrs_Update_def)
  have p1: "pinned g g1" by (rule pinned_lookup [OF ft lk l])
  note d = attrs_Lookup_dom [OF ft l]
  show ?thesis
  proof (cases "p1 = NULL")
    case True
    then have "attrs_CreateAndInsert (ent, ok) now' g1 fh fa = (p, g')" using u l by (simp add: attrs_Update_def)
    then have "pinned g1 g'" using pinned_create [of g1 ent ok now' fh fa p g'] p1 d lk new by (simp add: pinned_def)
    then show ?thesis using p1 pinned_trans by blast
  next
    case False
    then obtain e where e: "hp_ace g1 p1 = Some e" "g' = g1\<lparr>hp_ace := (hp_ace g1)(p1 \<mapsto> e\<lparr>ace_NFSFh := fh, ace_FAttr := fa\<rparr>)\<rparr>"
      using u l by (auto simp: attrs_Update_def)
    have "pinned g1 g'" using ac_ft_overwrite [OF _ e(1)] p1 e by (auto simp: pinned_def)
    then show ?thesis using p1 pinned_trans by blast
  qed
qed

lemma pinned_step:
  assumes "attr_step g g'" and "ac_ft g {#}" "0 < tht_LockCnt (g_AttrCache g)"
  shows "pinned g g'"
  using assms
proof (induction rule: attr_step.induct)
  case (lookup now g k p g')
  then show ?case by (intro pinned_lookup)
next
  case (update ent ok now now' g fh fa p g')
  then show ?case by (intro pinned_update)
next
  case (create ent ok now g fh fa p g')
  then show ?case by (intro pinned_create)
next
  case (delete g k g')
  then show ?case using ace.MarkRemoved_ok [of "hp_ace g" "g_AttrCache g" "hp_ace g" "{#}" k]
    by (auto simp: attrs_Delete_def pinned_def)
next
  case (flush g g')
  then show ?case using ace.Flush_ok [of "hp_ace g" "g_AttrCache g" "hp_ace g" "{#}"]
    by (auto simp: attrs_Flush_def pinned_def)
next
  case (bury now g g')
  then show ?case using ace.Bury_ok [of "hp_ace g" "g_AttrCache g" "hp_ace g" "{#}" now]
    by (auto simp: attrs_Bury_def pinned_def)
next
  case (timeout g t r g')
  then show ?case
    by (auto simp: attrs_SetCacheTimeout_def fthash_SetTimeToLive_def pinned_def ace.ft_inv_def ft_shape_def fthash_Hash_def split: if_splits)
qed

text \<open>C33. No dangling pointers: the address that \<open>attrs_LookupFromFileId\<close> hands out is an allocated
  entry for the file id asked for, and stays one through any sequence of cache operations
  until the cache is unlocked: other lookups that find entries too old, updates and
  insertions, deletion of that very entry, flushing, burying old entries and changes of the
  timeout. The cache itself stays consistent.\<close>

theorem attrs_pointer_valid:
  assumes inv: "ac_inv g" and l: "attrs_LookupFromFileId now g k = Some (p, g1)" "p \<noteq> NULL" and steps: "attr_step\<^sup>*\<^sup>* g1 g2"
  shows "(\<exists>a. hp_ace g2 p = Some a \<and> ace_FileId a = k) \<and> ac_ft g2 {#}"
proof -
  obtain q where q: "ac_map now g k = Some q" using attrs_Lookup_ok [OF inv, of now k] l by (auto split: option.splits)
  then have s: "ac_inv g1" "\<exists>a. hp_ace g1 p = Some a \<and> ace_FileId a = k" "0 < tht_LockCnt (g_AttrCache g1)"
    using attrs_Lookup_ok [OF inv, of now k] l by (auto split: prod.splits)
  have "pinned g1 g2" using steps
  proof (induction rule: rtranclp_induct)
    case base
    then show ?case using s ac_invD(1) by (auto simp: pinned_def)
  next
    case (step y z)
    then have "pinned y z" using pinned_step by (auto simp: pinned_def)
    then show ?case using step.IH pinned_trans by blast
  qed
  then show ?thesis using s(2) by (auto simp: pinned_def)
qed

definition one_attr :: attrcache where
  "one_attr = snd (attrs_CreateAndInsert (100, True) 100 empty_attrs [7] some_fattr)"

lemma one_attr_ok: "ac_inv one_attr" "ac_map 110 one_attr (fa_fileid some_fattr) = Some ([7], some_fattr)"
proof -
  let ?k = "fa_fileid some_fattr"
  have e: "hp_ace empty_attrs = (\<lambda>_. None)" "tht_TTL (g_AttrCache empty_attrs) = 60" "ft_find (g_AttrCache empty_attrs) ?k = None"
    "tht_NumEntries (g_AttrCache empty_attrs) = 0" "tht_MaxEntries (g_AttrCache empty_attrs) = 10" "tht_FreeEntries (g_AttrCache empty_attrs) = []"
    using fthash_Hash_less [OF ac_invD(3) [OF empty_attrs_inv], of ?k]
    by (auto simp: empty_attrs_def attrs_Init_def fthash_New_def ft_find_def)
  have p: "fst (attrs_CreateAndInsert (100, True) 100 empty_attrs [7] some_fattr) = 100"
    using e by (simp add: attrs_CreateAndInsert_def fthash_Insert_def GetFreeEnt_def Let_def)
  then have c: "attrs_CreateAndInsert (100, True) 100 empty_attrs [7] some_fattr = (100, one_attr)"
    by (metis one_attr_def prod.collapse)
  have n: "100 \<notin> dom (hp_ace empty_attrs)" using e by simp
  note cr = attrs_Create_ok [OF empty_attrs_inv n e(3) c, unfolded e(2)]
  show "ac_inv one_attr" "ac_map 110 one_attr ?k = Some ([7], some_fattr)" using cr by simp_all
qed

theorem attrs_pointer_valid_witness:
  "\<exists>p g1 g2 a. attrs_LookupFromFileId 110 one_attr (fa_fileid some_fattr) = Some (p, g1) \<and>
     attrs_Delete g1 (fa_fileid some_fattr) = Some g2 \<and> hp_ace g2 p = Some a"
proof -
  let ?k = "fa_fileid some_fattr"
  obtain p g1 where l: "attrs_LookupFromFileId 110 one_attr ?k = Some (p, g1)" "p \<noteq> NULL" "ac_inv g1"
    using attrs_Lookup_ok [OF one_attr_ok(1), of 110 ?k] one_attr_ok(2) by auto
  obtain g2 where g2: "attrs_Delete g1 ?k = Some g2"
    using ace.MarkRemoved_ok [OF ac_invD(1) [OF l(3)], of ?k] by (auto simp: attrs_Delete_def)
  have "attr_step\<^sup>*\<^sup>* g1 g2" using attr_step.delete [OF g2] by blast
  then show ?thesis using attrs_pointer_valid [OF one_attr_ok(1) l(1,2)] l(1) g2 by blast
qed

subsection \<open>Unlocking and cleaning up\<close>

lemma mset_take_nth_sub:
  assumes "length ls' = length ls" and "\<forall>j < length ls. \<exists>n. ls' ! j = take n (ls ! j)"
  shows "mset (concat ls') \<subseteq># mset (concat ls)"
  using assms
proof (induction ls arbitrary: ls')
  case (Cons l ls)
  obtain l' ls1 where ls': "ls' = l' # ls1" using Cons.prems(1) by (cases ls') auto
  obtain n where "l' = take n l" using Cons.prems(2) ls' by fastforce
  then have "mset l' \<subseteq># mset l" by (metis append_take_drop_id mset_append mset_subset_eq_add_left)
  moreover have "\<exists>n. ls1 ! j = take n (ls ! j)" if "j < length ls" for j
    using "Cons.prems"(2) [rule_format, of "Suc j"] ls' that by simp
  then have "mset (concat ls1) \<subseteq># mset (concat ls)"
    by (intro Cons.IH) (use "Cons.prems"(1) ls' in auto)
  ultimately show ?case using ls' by (simp add: subset_mset.add_mono)
qed simp

text \<open>C34. Unlocking: \<open>attrs_UnLockAll\<close> returns (its search for a list to evict from ends), at most
  \<open>tht_MaxEntries\<close> entries remain, the memory in use is exactly that of the entries in the
  table, nothing is freed twice, and the cache knows nothing new: an answer it gives is one
  it gave before. When there were not too many entries it forgets nothing.\<close>

theorem attrs_UnLockAll_correct:
  assumes inv: "ac_inv g"
  shows "\<exists>g'. attrs_UnLockAll now g = Some g' \<and> ac_inv g' \<and> tht_LockCnt (g_AttrCache g') = 0 \<and>
    tht_NumEntries (g_AttrCache g') \<le> tht_MaxEntries (g_AttrCache g) \<and>
    dom (hp_ace g') = the_Val ` live (g_AttrCache g') \<and>
    (\<forall>m. map_le (ac_map m g') (ac_map m g)) \<and>
    (tht_NumEntries (g_AttrCache g) \<le> tht_MaxEntries (g_AttrCache g) \<longrightarrow> (\<forall>m. ac_map m g' = ac_map m g))"
proof -
  let ?t = "g_AttrCache g" and ?h = "hp_ace g"
  note d = ac_invD [OF inv]
  have "ace.ft_inv ?h (?t\<lparr>tht_MaxEntries := tht_MaxEntries ?t\<rparr>) ?h {#}" using d(1) by simp
  from ace.UnLockAll_ok [OF this ft_shape_facts(5) [OF d(3)], of now]
  obtain t' h' where u: "fthash_UnLockAll now ?t ?h = Some (t', h')" "ace.ft_inv ?h t' h' {#}" "ft_conf ?t t'"
    "tht_TTL t' = tht_TTL ?t" "tht_LockCnt t' = 0" "tht_LockedEntries t' = []" "tht_NumEntries t' \<le> tht_MaxEntries ?t"
    "\<forall>j < tht_Size ?t. \<exists>n. tht_Entries t' ! j = take n (tht_Entries ?t ! j)"
    "tht_NumEntries ?t \<le> tht_MaxEntries ?t \<longrightarrow> tht_Entries t' = tht_Entries ?t" by blast
  let ?g = "\<lparr>g_AttrCache = t', hp_ace = h'\<rparr>"
  have shape: "ft_shape t'" using u(2) by (simp add: ace.ft_inv_def)
  have size: "length (tht_Entries t') = length (tht_Entries ?t)" "length (tht_Entries ?t) = tht_Size ?t"
    using ft_shape_facts(2) [OF shape] ft_shape_facts(2) [OF d(3)] u(3) by (auto simp: ft_conf_def)
  have sub: "mset (concat (tht_Entries t')) \<subseteq># mset (concat (tht_Entries ?t))"
    by (rule mset_take_nth_sub [OF size(1)]) (use u(8) size(2) in simp)
  note less = ac_inv_less [OF inv u(2,3) sub]
  have uq: "ft_uniq t'" using ac_invD(2) [OF less(1)] by simp
  have lsub: "live t' \<subseteq> live ?t" unfolding live_mset by (rule set_mset_mono [OF sub])
  have find: "ft_find ?t k = Some e" if f: "ft_find t' k = Some e" for k e
    using f lsub ft_find_live [OF shape uq] ft_find_live [OF d(3,2)] by blast
  have "ac_map m ?g k = ac_map m g k" if k: "ft_find t' k \<noteq> None" for m k
  proof -
    obtain e where e: "ft_find t' k = Some e" using k by blast
    have "h' (the_Val e) = ?h (the_Val e)" using less(2) e ft_find_live [OF shape uq] by blast
    then show ?thesis by (intro ac_map_find) (use e find [OF e] u(4) in auto)
  qed
  note keep = this
  have "map_le (ac_map m ?g) (ac_map m g)" for m
    unfolding map_le_def
  proof
    fix k assume "k \<in> dom (ac_map m ?g)"
    then have "ft_find t' k \<noteq> None" by (auto simp: ac_map_def split: option.splits)
    then show "ac_map m ?g k = ac_map m g k" by (rule keep)
  qed
  moreover have "ac_map m ?g = ac_map m g" if nm: "tht_NumEntries ?t \<le> tht_MaxEntries ?t" for m
  proof
    fix k
    have f: "ft_find t' = ft_find ?t" by (rule ft_find_same(1) [OF d(3,2) shape uq]) (use u(9) nm in simp)
    show "ac_map m ?g k = ac_map m g k"
    proof (cases "ft_find t' k")
      case None
      then show ?thesis using f by (simp add: ac_map_def)
    qed (use keep [of k m] in simp)
  qed
  moreover have "dom h' = the_Val ` live t'"
  proof -
    have "ace.owns ?h h' (vals (concat (tht_Entries t')))" using u(2,6) by (simp add: ace.ft_inv_def)
    then have "dom h' = set_mset (vals (concat (tht_Entries t')))" by (rule ace.owns_alloc)
    then show ?thesis unfolding vals_def live_mset by (simp del: set_mset_mset)
  qed
  ultimately show ?thesis using u(1,5,7) less(1) by (intro exI [of _ ?g]) (simp add: attrs_UnLockAll_def)
qed

theorem attrs_UnLockAll_correct_witness:
  "\<exists>g'. attrs_UnLockAll 7 one_attr = Some g' \<and> ac_inv g' \<and> tht_LockCnt (g_AttrCache g') = 0"
  using attrs_UnLockAll_correct [OF one_attr_ok(1), of 7] by blast

lemma attrs_Cleanup_ok: "ac_inv g \<Longrightarrow> attrs_Cleanup g = Some (\<lambda>_. None)"
proof -
  assume inv: "ac_inv g"
  obtain h' where h': "fthash_Delete (g_AttrCache g) (hp_ace g) = Some h'" "ace.owns (hp_ace g) h' {#}"
    using ace.Delete_ok [OF ac_invD(1) [OF inv]] by blast
  then have "dom h' = {}" using ace.owns_alloc by fastforce
  then show ?thesis using h'(1) by (simp add: attrs_Cleanup_def dom_def fun_eq_iff)
qed

subsection \<open>Getting attributes\<close>

text \<open>What the storing operations leave in memory: old entries or the new attributes.\<close>

lemma attrs_Create_store:
  assumes "attrs_CreateAndInsert (ent, ok) now g fh fa = (p, g')"
  shows "hp_ace g' q = Some a \<Longrightarrow> hp_ace g q = Some a \<or> a = \<lparr>ace_FileId = fa_fileid fa, ace_NFSFh = fh, ace_FAttr = fa\<rparr>"
    and "p = NULL \<Longrightarrow> dom (hp_ace g') \<subseteq> dom (hp_ace g)"
  using assms by (auto simp: attrs_CreateAndInsert_def Let_def split: if_splits prod.splits)

lemma attrs_Lookup_store:
  assumes "ac_inv g" and "attrs_LookupFromFileId now g k = Some (p, g')"
  shows "hp_ace g' q = Some a \<Longrightarrow> hp_ace g q = Some a" and "dom (hp_ace g') \<subseteq> dom (hp_ace g)"
    and "p \<noteq> NULL \<Longrightarrow> \<exists>a. hp_ace g' p = Some a \<and> ace_FileId a = k"
  using attrs_Lookup_dom [OF ac_invD(1) [OF assms(1)] assms(2)] attrs_Lookup_ok [OF assms(1), of now k] assms(2)
  by (auto simp: map_le_def dom_def split: option.splits)

lemma attrs_Update_store:
  assumes inv: "ac_inv g" and u: "attrs_Update (ent, ok) now now' g fh fa = Some (p, g')"
  shows "hp_ace g' q = Some a \<Longrightarrow> hp_ace g q = Some a \<or> a = \<lparr>ace_FileId = fa_fileid fa, ace_NFSFh = fh, ace_FAttr = fa\<rparr>"
    and "p = NULL \<Longrightarrow> dom (hp_ace g') \<subseteq> dom (hp_ace g)"
proof -
  obtain p1 g1 where l: "attrs_LookupFromFileId now g (fa_fileid fa) = Some (p1, g1)"
    using attrs_Lookup_ok [OF inv, of now "fa_fileid fa"] by blast
  note ls = attrs_Lookup_store [OF inv l]
  show "hp_ace g' q = Some a \<Longrightarrow> hp_ace g q = Some a \<or> a = \<lparr>ace_FileId = fa_fileid fa, ace_NFSFh = fh, ace_FAttr = fa\<rparr>"
    using u l ls(1,3) attrs_Create_store(1) [of ent ok now' g1 fh fa p g' q a]
    by (fastforce simp: attrs_Update_def split: if_splits)
  show "p = NULL \<Longrightarrow> dom (hp_ace g') \<subseteq> dom (hp_ace g)"
    using u l ls(2) attrs_Create_store(2) [of ent ok now' g1 fh fa p g'] by (auto simp: attrs_Update_def split: if_splits)
qed

lemma attrs_store_ok:
  fixes fa :: fattr and fh :: nfs_fh
  assumes inv: "ac_inv g" and new: "fst (mem 0) \<notin> dom (hp_ace g)" "fst (mem 1) \<notin> dom (hp_ace g)"
  defines "ent \<equiv> \<lparr>ace_FileId = fa_fileid fa, ace_NFSFh = fh, ace_FAttr = fa\<rparr>"
  shows "\<exists>p g'. attrs_store clk mem g fh fa = Some (p, g') \<and> ac_inv g' \<and> (p \<noteq> NULL \<longrightarrow> hp_ace g' p = Some ent) \<and>
    (\<forall>q a. hp_ace g' q = Some a \<longrightarrow> hp_ace g q = Some a \<or> a = ent)"
proof -
  let ?k = "fa_fileid fa"
  obtain p1 g1 where l1: "attrs_LookupFromFileId (clk 1) g ?k = Some (p1, g1)" "ac_inv g1"
     "p1 = NULL \<longrightarrow> ft_find (g_AttrCache g1) ?k = None"
    using attrs_Lookup_ok [OF inv, of "clk 1" ?k] by (auto split: option.splits)
  note s1 = attrs_Lookup_store [OF inv l1(1)]
  have new1: "fst (mem 0) \<notin> dom (hp_ace g1)" using new(1) s1(2) by blast
  obtain p2 g2 where l2: "(if p1 \<noteq> NULL then attrs_Update (mem 0) (clk 2) (clk 3) g1 fh fa else Some (NULL, g1)) = Some (p2, g2)"
     "ac_inv g2" "p2 = NULL \<longrightarrow> ft_find (g_AttrCache g2) ?k = None \<and> dom (hp_ace g2) \<subseteq> dom (hp_ace g1)"
     "p2 \<noteq> NULL \<longrightarrow> hp_ace g2 p2 = Some ent" "\<forall>q a. hp_ace g2 q = Some a \<longrightarrow> hp_ace g1 q = Some a \<or> a = ent"
  proof (cases "p1 = NULL")
    case True
    then show ?thesis using that [of NULL g1] l1 by auto
  next
    case False
    obtain p2 g2 where u: "attrs_Update (fst (mem 0), snd (mem 0)) (clk 2) (clk 3) g1 fh fa = Some (p2, g2)" "ac_inv g2"
       "if p2 = NULL then ac_map (clk 2) g1 ?k = None \<and> ft_find (g_AttrCache g2) ?k = None
        else hp_ace g2 p2 = Some ent \<and>
           (\<forall>m. ac_map m g2 ?k = (if (if ac_map (clk 2) g1 ?k = None then m - tht_TTL (g_AttrCache g1) > clk 3 else ac_map m g1 ?k = None)
                        then None else Some (fh, fa)))"
      using attrs_Update_ok [OF l1(2) new1, where fa = fa and ok = "snd (mem 0)" and now = "clk 2" and now' = "clk 3" and fh = fh]
      unfolding ent_def by blast
    show ?thesis
      by (rule that [of p2 g2]) (use u False attrs_Update_store [OF l1(2) u(1), folded ent_def] in \<open>auto split: if_splits\<close>)
  qed
  show ?thesis
  proof (cases "p2 = NULL")
    case False
    then show ?thesis using l1(1) l2 s1(1) by (auto simp: attrs_store_def)
  next
    case True
    obtain p3 g3 where c: "attrs_CreateAndInsert (fst (mem 1), snd (mem 1)) (clk 4) g2 fh fa = (p3, g3)"
      by (cases "attrs_CreateAndInsert (fst (mem 1), snd (mem 1)) (clk 4) g2 fh fa")
    have new2: "fst (mem 1) \<notin> dom (hp_ace g2)" using new(2) l2(3) s1(2) True by blast
    have nf: "ft_find (g_AttrCache g2) ?k = None" using l2(3) True by simp
    note cr = attrs_Create_ok [OF l2(2) new2 nf c, folded ent_def]
    have run: "attrs_store clk mem g fh fa = Some (p3, g3)" using l1(1) l2(1) True c by (simp add: attrs_store_def)
    have "hp_ace g q = Some a \<or> a = ent" if "hp_ace g3 q = Some a" for q a
      using attrs_Create_store(1) [OF c that, folded ent_def] l2(5) s1(1) by blast
    then show ?thesis using run cr by (auto split: if_splits)
  qed
qed

text \<open>\<open>c_GetAttr\<close>: it returns; a result that is not NULL is an allocated entry with either the
  attributes that the cache holds and that are not too old, or those the server has just
  returned for the handle. NULL comes with the error of the GETATTR call, or with
  \<open>ERROR_NO_FREE_STORE\<close> when the call succeeded but there was no memory. The server is asked
  exactly when the cache does not know.\<close>

theorem c_GetAttr_correct:
  assumes inv: "ac_inv g" and new: "fst (mem 0) \<notin> dom (hp_ace g)" "fst (mem 1) \<notin> dom (hp_ace g)"
  shows "\<exists>p r g' srv'. c_GetAttr clk mem getattr g FileId FH Res2 srv = Some (p, r, g', srv') \<and> ac_inv g' \<and>
    srv' = (if FileId \<noteq> 0 \<and> ac_map (clk 0) g FileId \<noteq> None then srv else snd (getattr FH srv)) \<and>
    (if p = NULL then r = (case fst (getattr FH srv) of Inl err \<Rightarrow> err | Inr _ \<Rightarrow> ERROR_NO_FREE_STORE)
     else r = Res2 \<and> (\<exists>a. hp_ace g' p = Some a \<and>
       (FileId \<noteq> 0 \<and> ac_map (clk 0) g FileId = Some (ace_NFSFh a, ace_FAttr a) \<or>
        fst (getattr FH srv) = Inr (ace_FAttr a) \<and> ace_NFSFh a = FH)))"
proof -
  obtain p0 g0 where l0: "(if FileId \<noteq> 0 then attrs_LookupFromFileId (clk 0) g FileId else Some (NULL, g)) = Some (p0, g0)" "ac_inv g0"
     "if p0 = NULL then FileId = 0 \<or> ac_map (clk 0) g FileId = None
      else FileId \<noteq> 0 \<and> (\<exists>a. hp_ace g0 p0 = Some a \<and> ac_map (clk 0) g FileId = Some (ace_NFSFh a, ace_FAttr a))"
     "dom (hp_ace g0) \<subseteq> dom (hp_ace g)"
  proof (cases "FileId = 0")
    case True
    then show ?thesis using that [of NULL g] inv by simp
  next
    case False
    obtain p0 g0 where l: "attrs_LookupFromFileId (clk 0) g FileId = Some (p0, g0)" "ac_inv g0"
       "case ac_map (clk 0) g FileId of
       None \<Rightarrow> p0 = NULL \<and> ft_find (g_AttrCache g0) FileId = None
     | Some (fh, fa) \<Rightarrow> p0 \<noteq> NULL \<and> hp_ace g0 p0 = Some \<lparr>ace_FileId = FileId, ace_NFSFh = fh, ace_FAttr = fa\<rparr> \<and>
         0 < tht_LockCnt (g_AttrCache g0) \<and> (\<exists>e. ft_find (g_AttrCache g0) FileId = Some e \<and> the_Val e = p0)"
      using attrs_Lookup_ok [OF inv, of "clk 0" FileId] by blast
    show ?thesis using that [of p0 g0] l False attrs_Lookup_store(2) [OF inv l(1)] by (auto split: option.splits)
  qed
  show ?thesis
  proof (cases "p0 = NULL")
    case False
    then show ?thesis using l0 by (auto simp: c_GetAttr_def)
  next
    case p0: True
    obtain r srv1 where ga: "getattr FH srv = (r, srv1)" by (cases "getattr FH srv")
    show ?thesis
    proof (cases r)
      case (Inl err)
      then show ?thesis using l0 p0 ga by (auto simp: c_GetAttr_def)
    next
      case (Inr fa)
      have "fst (mem 0) \<notin> dom (hp_ace g0)" "fst (mem 1) \<notin> dom (hp_ace g0)" using new l0(4) by blast+
      from attrs_store_ok [OF l0(2) this, where fa = fa and fh = FH and clk = clk]
      obtain p g' where st: "attrs_store clk mem g0 FH fa = Some (p, g')" "ac_inv g'"
        "p \<noteq> NULL \<longrightarrow> hp_ace g' p = Some \<lparr>ace_FileId = fa_fileid fa, ace_NFSFh = FH, ace_FAttr = fa\<rparr>" by blast
      have "c_GetAttr clk mem getattr g FileId FH Res2 srv = Some (p, if p = NULL then ERROR_NO_FREE_STORE else Res2, g', srv1)"
        using l0(1) p0 Inr ga st(1) by (simp add: c_GetAttr_def)
      then show ?thesis using st(2,3) l0(3) p0 Inr ga by auto
    qed
  qed
qed

theorem c_GetAttr_correct_witness:
  "\<exists>p r g' srv'. c_GetAttr (\<lambda>_. 110) (\<lambda>i. (200 + i, True)) (\<lambda>_ n. (Inr some_fattr, n + 1)) one_attr 0 [8] 0 (4 :: nat) = Some (p, r, g', srv') \<and>
     srv' = 5 \<and> ac_inv g'"
proof -
  obtain p where "attrs_CreateAndInsert (100, True) 100 empty_attrs [7] some_fattr = (p, one_attr)"
    unfolding one_attr_def by (metis prod.collapse)
  then have "dom (hp_ace one_attr) \<subseteq> {100}"
    using attrs_Create_dom by (fastforce simp: empty_attrs_def attrs_Init_def fthash_New_def)
  then have "fst ((200 :: nat) + 0, True) \<notin> dom (hp_ace one_attr)" "fst ((200 :: nat) + 1, True) \<notin> dom (hp_ace one_attr)" by auto
  from c_GetAttr_correct [where mem = "\<lambda>i. (200 + i, True)", OF one_attr_ok(1) this, where FileId = 0
      and getattr = "\<lambda>_ n. (Inr some_fattr, n + 1)" and srv = "4 :: nat" and clk = "\<lambda>_. 110" and FH = "[8]" and ?Res2.0 = 0]
  show ?thesis by simp blast
qed

end
