(* ===== verification/DirCache.thy ===== *)
theory DirCache
  imports FtHash LinkedList NfsIO
begin

text \<open>
  The directory cache (src/src/dcache.c): a hash table from file ids to directory entries, each
  with a possibly incomplete linked list of the names that were looked up in the directory.
  Freeing a directory entry frees its names. The theory proves the ownership of the two stores
  (directory entries, name entries): no list is shared, nothing is freed twice or forgotten;
  and that a name lookup answers with the name entry created last.

  Clock readings and the results of memory allocation are arguments. Names are C strings.
\<close>

subsection \<open>Data\<close>

record nentry =
  ne_Next :: addr
  ne_Name :: string
  ne_Hash :: u32
  ne_FType :: ftype
  ne_FileId :: u32

record dcentry =
  dce_FileId :: u32
  dce_ParentId :: int
  dce_NFSFh :: nfs_fh
  dce_Entries :: addr

record dstore =
  hp_dce :: "addr \<Rightarrow> dcentry option"
  hp_ne :: "addr \<Rightarrow> nentry option"

record dircache =
  g_DirCache :: "(u32, dstore) fthashtable"
  dc_store :: dstore

abbreviation DCE_ID_UNUSED :: u32 where "DCE_ID_UNUSED \<equiv> 0"

definition ne_next :: "dstore \<Rightarrow> addr \<Rightarrow> addr option" where
  "ne_next h a = map_option ne_Next (hp_ne h a)"

subsection \<open>Directory entries\<close>

definition dc_HashFunc :: "u32 \<Rightarrow> u32 \<Rightarrow> u32" where
  "dc_HashFunc key s = key AND 0xFF"

definition dc_KeyCmp :: "u32 \<Rightarrow> u32 \<Rightarrow> u32 \<Rightarrow> int" where
  "dc_KeyCmp key1 key2 s = sint (key1 - key2)"

text \<open>Freeing one name entry (\<open>fn_Delete\<close> of its name, then \<open>FreeVec\<close>).\<close>

definition DeleteNEnt :: "addr \<Rightarrow> dstore \<Rightarrow> dstore option" where
  "DeleteNEnt a h = (if a \<in> dom (hp_ne h) then Some (h\<lparr>hp_ne := (hp_ne h)(a := None)\<rparr>) else None)"

partial_function (option) dce_delete_loop :: "addr \<Rightarrow> dstore \<Rightarrow> dstore option" where
  "dce_delete_loop nent h =
     (if nent = NULL then Some h
      else do {
        hnent \<leftarrow> ne_next h nent;
        h1 \<leftarrow> DeleteNEnt nent h;
        dce_delete_loop hnent h1
      })"

declare dce_delete_loop.simps [code]

definition dce_Delete :: "addr \<Rightarrow> dstore \<Rightarrow> dstore option" where
  "dce_Delete dcent h =
     do {
       d \<leftarrow> hp_dce h dcent;
       h1 \<leftarrow> dce_delete_loop (dce_Entries d) h;
       Some (h1\<lparr>hp_dce := (hp_dce h1)(dcent := None)\<rparr>)
     }"

definition dc_FreeVal :: "addr \<Rightarrow> dstore \<Rightarrow> dstore option" where
  "dc_FreeVal a h = dce_Delete a h"

definition dc_Init :: "int \<Rightarrow> u32 \<Rightarrow> dstore \<Rightarrow> dircache option" where
  "dc_Init MaxEntries Timeout h =
     map_option (\<lambda>tb. \<lparr>g_DirCache = tb, dc_store = h\<rparr>)
       (fthash_New 256 4 MaxEntries Timeout dc_HashFunc dc_FreeVal dc_KeyCmp)"

definition dc_Cleanup :: "dircache \<Rightarrow> dstore option" where
  "dc_Cleanup g = fthash_Delete (g_DirCache g) (dc_store g)"

definition dc_DCECreateAndInsert :: "addr \<times> bool \<Rightarrow> u32 \<Rightarrow> dircache \<Rightarrow> u32 \<Rightarrow> nfs_fh \<Rightarrow> addr \<times> dircache" where
  "dc_DCECreateAndInsert mem now g fileid FH =
     (let (ent, ok) = mem in
      if ent = NULL then (NULL, g)
      else
        let h = (dc_store g)\<lparr>hp_dce := (hp_dce (dc_store g))(ent \<mapsto>
                  \<lparr>dce_FileId = fileid, dce_ParentId = uint DCE_ID_UNUSED, dce_NFSFh = FH, dce_Entries = NULL\<rparr>)\<rparr>;
            (RetVal, t) = fthash_Insert ok now (g_DirCache g) fileid ent
        in if RetVal \<noteq> 0 then (ent, \<lparr>g_DirCache = t, dc_store = h\<rparr>)
           else (NULL, \<lparr>g_DirCache = t, dc_store = h\<lparr>hp_dce := (hp_dce h)(ent := None)\<rparr>\<rparr>))"

definition dc_DCELookupFromFileId :: "u32 \<Rightarrow> dircache \<Rightarrow> u32 \<Rightarrow> (addr \<times> dircache) option" where
  "dc_DCELookupFromFileId now g fid =
     map_option (\<lambda>(r, t, h). (r, \<lparr>g_DirCache = t, dc_store = h\<rparr>)) (fthash_Lookup now (g_DirCache g) fid (dc_store g))"

definition dc_DCEDeleteFromFileId :: "dircache \<Rightarrow> u32 \<Rightarrow> dircache option" where
  "dc_DCEDeleteFromFileId g fid =
     map_option (\<lambda>(t, h). \<lparr>g_DirCache = t, dc_store = h\<rparr>) (fthash_MarkRemoved (g_DirCache g) fid (dc_store g))"

definition dc_UnLockAll :: "u32 \<Rightarrow> dircache \<Rightarrow> dircache option" where
  "dc_UnLockAll now g =
     map_option (\<lambda>(t, h). \<lparr>g_DirCache = t, dc_store = h\<rparr>) (fthash_UnLockAll now (g_DirCache g) (dc_store g))"

definition dc_Flush :: "dircache \<Rightarrow> dircache option" where
  "dc_Flush g = map_option (\<lambda>(t, h). \<lparr>g_DirCache = t, dc_store = h\<rparr>) (fthash_Flush (g_DirCache g) (dc_store g))"

definition dc_SetCacheTimeout :: "dircache \<Rightarrow> int \<Rightarrow> int \<times> dircache" where
  "dc_SetCacheTimeout g Timeout =
     (let (r, t) = fthash_SetTimeToLive (g_DirCache g) Timeout in (r, g\<lparr>g_DirCache := t\<rparr>))"

definition dc_Bury :: "u32 \<Rightarrow> dircache \<Rightarrow> dircache option" where
  "dc_Bury now g =
     map_option (\<lambda>(t, h). \<lparr>g_DirCache = t, dc_store = h\<rparr>) (fthash_Bury now (g_DirCache g) (dc_store g))"

definition dc_SetCacheSize :: "u32 \<Rightarrow> dircache \<Rightarrow> int \<Rightarrow> dircache option" where
  "dc_SetCacheSize now g NewSize =
     map_option (\<lambda>(t, h). \<lparr>g_DirCache = t, dc_store = h\<rparr>) (fthash_SetMaxEntries now (g_DirCache g) NewSize (dc_store g))"

subsection \<open>Name entries\<close>

text \<open>The loop over the characters; behind it the pointer has passed the terminating NUL.\<close>

fun ne_hash_loop :: "u32 \<Rightarrow> string \<Rightarrow> u32" where
  "ne_hash_loop l [] = l"
| "ne_hash_loop l (c # s) = ne_hash_loop (push_bit 1 l + of_char c) s"

definition dc_NEStr2Hash :: "string \<Rightarrow> u32" where
  "dc_NEStr2Hash as = ne_hash_loop 0 as - of_nat (length as + 1)"

text \<open>\<open>mem\<close>: the new entry, and whether \<open>StrDup\<close> gets memory.\<close>

definition dc_NECreateAndInsert ::
  "addr \<times> bool \<Rightarrow> dircache \<Rightarrow> addr \<Rightarrow> string \<Rightarrow> ftype \<Rightarrow> u32 \<Rightarrow> (addr \<times> dircache) option" where
  "dc_NECreateAndInsert mem g dcent AName FType FileId =
     (let (ent, ok) = mem in
      if ent = NULL \<or> \<not> ok then Some (NULL, g)
      else do {
        let h = dc_store g;
        d \<leftarrow> hp_dce h dcent;
        let h1 = h\<lparr>hp_ne := (hp_ne h)(ent \<mapsto> \<lparr>ne_Next = dce_Entries d, ne_Name = AName, ne_Hash = dc_NEStr2Hash AName,
                                         ne_FType = FType, ne_FileId = FileId\<rparr>),
                   hp_dce := (hp_dce h)(dcent \<mapsto> d\<lparr>dce_Entries := ent\<rparr>)\<rparr>;
        Some (ent, \<lparr>g_DirCache = fthash_Lock (g_DirCache g), dc_store = h1\<rparr>)
      })"

definition ne_matches :: "dstore \<Rightarrow> string \<Rightarrow> addr \<Rightarrow> bool option" where
  "ne_matches h Name a = map_option (\<lambda>n. dc_NEStr2Hash Name = ne_Hash n \<and> Name = ne_Name n) (hp_ne h a)"

definition dc_NELookup :: "dircache \<Rightarrow> addr \<Rightarrow> string \<Rightarrow> (addr \<times> dircache) option" where
  "dc_NELookup g DCEnt Name =
     do {
       let h = dc_store g;
       d \<leftarrow> hp_dce h DCEnt;
       NEnt \<leftarrow> list_find (ne_next h) (ne_matches h Name) (dce_Entries d);
       Some (NEnt, if NEnt \<noteq> NULL then g\<lparr>g_DirCache := fthash_Lock (g_DirCache g)\<rparr> else g)
     }"

definition dc_NERemove :: "dircache \<Rightarrow> addr \<Rightarrow> addr \<Rightarrow> dircache option" where
  "dc_NERemove g DCEnt ParNEnt =
     do {
       let h = dc_store g;
       d \<leftarrow> hp_dce h DCEnt;
       r \<leftarrow> list_locate (ne_next h) ParNEnt NULL (dce_Entries d);
       (case r of
          None \<Rightarrow> Some g
        | Some (prev, n) \<Rightarrow>
            do {
              h1 \<leftarrow> (if prev = NULL then Some (h\<lparr>hp_dce := (hp_dce h)(DCEnt \<mapsto> d\<lparr>dce_Entries := n\<rparr>)\<rparr>)
                    else map_option (\<lambda>e. h\<lparr>hp_ne := (hp_ne h)(prev \<mapsto> e\<lparr>ne_Next := n\<rparr>)\<rparr>) (hp_ne h prev));
              h2 \<leftarrow> DeleteNEnt ParNEnt h1;
              Some (g\<lparr>dc_store := h2\<rparr>)
            })
     }"

subsection \<open>Ownership\<close>

text \<open>Every directory entry has its own list of names \<open>ls d\<close>, and every name entry is in one.\<close>

definition names_ok :: "(addr \<Rightarrow> addr list) \<Rightarrow> dstore \<Rightarrow> bool" where
  "names_ok ls h \<longleftrightarrow> finite (dom (hp_dce h)) \<and> NULL \<notin> dom (hp_dce h) \<and>
     (\<forall>a d. hp_dce h a = Some d \<longrightarrow> links (ne_next h) (dce_Entries d) (ls a)) \<and>
     (\<forall>a\<in>dom (hp_dce h). \<forall>b\<in>dom (hp_dce h). a \<noteq> b \<longrightarrow> set (ls a) \<inter> set (ls b) = {}) \<and>
     dom (hp_ne h) = (\<Union>a\<in>dom (hp_dce h). set (ls a))"

definition dstore_from :: "(addr \<Rightarrow> addr list) \<Rightarrow> dstore \<Rightarrow> dstore \<Rightarrow> bool" where
  "dstore_from ls h0 h \<longleftrightarrow> names_ok ls h \<and> map_le (hp_dce h) (hp_dce h0) \<and> map_le (hp_ne h) (hp_ne h0)"

lemma names_okD:
  assumes "names_ok ls h"
  shows "finite (dom (hp_dce h))" "NULL \<notin> dom (hp_dce h)"
    "\<forall>a\<in>dom (hp_dce h). \<forall>b\<in>dom (hp_dce h). a \<noteq> b \<longrightarrow> set (ls a) \<inter> set (ls b) = {}"
    "dom (hp_ne h) = (\<Union>a\<in>dom (hp_dce h). set (ls a))"
  using assms unfolding names_ok_def by blast+

lemma dce_delete_loop_ok:
  "links (ne_next h) p as \<Longrightarrow>
     \<exists>h'. dce_delete_loop p h = Some h' \<and> hp_dce h' = hp_dce h \<and> hp_ne h' = (hp_ne h) |` (- set as)"
proof (induction as arbitrary: p h)
  case Nil
  then show ?case by (subst dce_delete_loop.simps) (simp add: restrict_map_def)
next
  case (Cons a as)
  obtain n where n: "p = a" "a \<noteq> NULL" "a \<notin> set as" "ne_next h a = Some n" "links (ne_next h) n as"
    using Cons.prems by (auto simp: links_Cons)
  let ?h = "h\<lparr>hp_ne := (hp_ne h)(a := None)\<rparr>"
  have "links (ne_next ?h) n as" by (rule links_cong [OF _ n(5)]) (use n(3) in \<open>auto simp: ne_next_def\<close>)
  then obtain h' where h': "dce_delete_loop n ?h = Some h'" "hp_dce h' = hp_dce ?h" "hp_ne h' = (hp_ne ?h) |` (- set as)"
    using Cons.IH by blast
  have "a \<in> dom (hp_ne h)" using n(4) by (auto simp: ne_next_def)
  then have "dce_delete_loop p h = Some h'"
    using n h'(1) by (subst dce_delete_loop.simps) (simp add: DeleteNEnt_def)
  moreover have "hp_ne h' = (hp_ne h) |` (- set (a # as))" using h'(3) by (auto simp: fun_eq_iff restrict_map_def)
  ultimately show ?case using h'(2) by auto
qed

lemma names_okI:
  "finite (dom (hp_dce h)) \<Longrightarrow> NULL \<notin> dom (hp_dce h) \<Longrightarrow>
     (\<And>a d. hp_dce h a = Some d \<Longrightarrow> links (ne_next h) (dce_Entries d) (ls a)) \<Longrightarrow>
     (\<And>a b. a \<in> dom (hp_dce h) \<Longrightarrow> b \<in> dom (hp_dce h) \<Longrightarrow> a \<noteq> b \<Longrightarrow> set (ls a) \<inter> set (ls b) = {}) \<Longrightarrow>
     dom (hp_ne h) = (\<Union>a\<in>dom (hp_dce h). set (ls a)) \<Longrightarrow> names_ok ls h"
  unfolding names_ok_def by blast

lemma names_ok_links: "names_ok ls h \<Longrightarrow> hp_dce h a = Some d \<Longrightarrow> links (ne_next h) (dce_Entries d) (ls a)"
  by (simp add: names_ok_def)

lemma UN_minus: "(\<And>b. b \<in> A \<Longrightarrow> b \<noteq> a \<Longrightarrow> f a \<inter> f b = {}) \<Longrightarrow> (\<Union>b\<in>A. f b) - f a = (\<Union>b\<in>A - {a}. f b)"
  by blast

lemma dc_FreeVal_ok:
  assumes ok: "dstore_from ls h0 h" and a: "a \<in> dom (hp_dce h)"
  shows "\<exists>h'. dc_FreeVal a h = Some h' \<and> dstore_from ls h0 h' \<and> dom (hp_dce h') = dom (hp_dce h) - {a}"
proof -
  have n: "names_ok ls h" using ok by (simp add: dstore_from_def)
  note nd = names_okD [OF n]
  obtain d where d: "hp_dce h a = Some d" using a by auto
  obtain h1 where h1: "dce_delete_loop (dce_Entries d) h = Some h1" "hp_dce h1 = hp_dce h" "hp_ne h1 = (hp_ne h) |` (- set (ls a))"
    using dce_delete_loop_ok [OF names_ok_links [OF n d]] by blast
  define h2 where "h2 = h1\<lparr>hp_dce := (hp_dce h1)(a := None)\<rparr>"
  have h2: "dc_FreeVal a h = Some h2" "hp_dce h2 = (hp_dce h)(a := None)" "hp_ne h2 = (hp_ne h) |` (- set (ls a))"
    using d h1 by (simp_all add: dc_FreeVal_def dce_Delete_def h2_def)
  have dm: "dom (hp_dce h2) = dom (hp_dce h) - {a}" using h2(2) by auto
  have sub: "b \<in> dom (hp_dce h) \<and> b \<noteq> a" if "b \<in> dom (hp_dce h2)" for b using that dm by blast
  have dis: "set (ls a) \<inter> set (ls b) = {}" if b: "b \<in> dom (hp_dce h2)" for b
    using nd(3) a sub [OF b] by simp
  have "names_ok ls h2"
  proof (rule names_okI)
    show "finite (dom (hp_dce h2))" "NULL \<notin> dom (hp_dce h2)" using nd(1,2) dm by auto
    show "set (ls x) \<inter> set (ls y) = {}" if xy: "x \<in> dom (hp_dce h2)" "y \<in> dom (hp_dce h2)" "x \<noteq> y" for x y
      using nd(3) sub [OF xy(1)] sub [OF xy(2)] xy(3) by simp
    show "links (ne_next h2) (dce_Entries e) (ls b)" if e: "hp_dce h2 b = Some e" for b e
    proof -
      have b: "hp_dce h b = Some e" "b \<in> dom (hp_dce h2)" using e h2(2) by (auto split: if_splits)
      show ?thesis
        by (rule links_cong [OF _ names_ok_links [OF n b(1)]])
          (use dis [OF b(2)] h2(3) in \<open>auto simp: ne_next_def restrict_map_def\<close>)
    qed
    have "dom (hp_ne h2) = (\<Union>b\<in>dom (hp_dce h). set (ls b)) - set (ls a)" using h2(3) nd(4) by auto
    also have "\<dots> = (\<Union>b\<in>dom (hp_dce h) - {a}. set (ls b))" by (rule UN_minus) (use nd(3) a in simp)
    finally show "dom (hp_ne h2) = (\<Union>b\<in>dom (hp_dce h2). set (ls b))" using dm by simp
  qed
  moreover have "map_le (hp_dce h2) (hp_dce h0)" "map_le (hp_ne h2) (hp_ne h0)"
    using ok h2(2,3) by (auto simp: map_le_def dstore_from_def)
  ultimately have "dstore_from ls h0 h2" unfolding dstore_from_def by (intro conjI)
  then show ?thesis using h2(1) dm by (intro exI [of _ h2]) simp
qed

interpretation dce: value_heap "\<lambda>h. dom (hp_dce h)" dc_FreeVal "dstore_from ls h0" for ls h0
proof
  fix h :: dstore
  assume "dstore_from ls h0 h"
  then show "finite (dom (hp_dce h)) \<and> NULL \<notin> dom (hp_dce h)" by (simp add: dstore_from_def names_ok_def)
qed (rule dc_FreeVal_ok)

lemma dce_rebase: "dce.ft_inv ls h0 t h M \<Longrightarrow> dce.ft_inv ls h t h M"
  by (simp add: dce.ft_inv_def dce.owns_def dstore_from_def)

lemma dce_names: "dce.ft_inv ls h0 t h M \<Longrightarrow> names_ok ls h \<and> map_le (hp_ne h) (hp_ne h0)"
  by (simp add: dce.ft_inv_def dce.owns_def dstore_from_def)

lemma dce_ft_inv_names:
  "dce.ft_inv ls h t h M \<Longrightarrow> names_ok ls' h' \<Longrightarrow> dom (hp_dce h') = dom (hp_dce h) \<Longrightarrow> dce.ft_inv ls' h' t h' M"
  by (simp add: dce.ft_inv_def dce.owns_def dstore_from_def)

lemma dce_ft_inv_lock: "dce.ft_inv ls h0 t h M \<Longrightarrow> dce.ft_inv ls h0 (fthash_Lock t) h M"
  by (simp add: dce.ft_inv_def fthash_Lock_def ft_shape_def fthash_Hash_def)

text \<open>The cache owns all directory entries, these own all name entries, and the stored hash values
  are right.\<close>

definition hashes_ok :: "dstore \<Rightarrow> bool" where
  "hashes_ok h \<longleftrightarrow> (\<forall>a n. hp_ne h a = Some n \<longrightarrow> ne_Hash n = dc_NEStr2Hash (ne_Name n))"

definition dc_inv :: "(addr \<Rightarrow> addr list) \<Rightarrow> dircache \<Rightarrow> bool" where
  "dc_inv ls g \<longleftrightarrow> dce.ft_inv ls (dc_store g) (g_DirCache g) (dc_store g) {#} \<and> hashes_ok (dc_store g)"

text \<open>What a directory entry knows of a name: type and file id, as the handler gets them.\<close>

definition dc_name :: "dircache \<Rightarrow> addr \<Rightarrow> string \<Rightarrow> (ftype \<times> u32) option" where
  "dc_name g D nm =
     (case dc_NELookup g D nm of
        None \<Rightarrow> None
      | Some (a, g') \<Rightarrow> map_option (\<lambda>n. (ne_FType n, ne_FileId n)) (if a = NULL then None else hp_ne (dc_store g') a))"

definition named :: "dstore \<Rightarrow> string \<Rightarrow> addr \<Rightarrow> bool" where
  "named h nm a \<longleftrightarrow> map_option ne_Name (hp_ne h a) = Some nm"

lemma dc_inv_names: "dc_inv ls g \<Longrightarrow> names_ok ls (dc_store g)"
  unfolding dc_inv_def using dce_names by blast

lemma names_ok_alloc: "names_ok ls h \<Longrightarrow> a \<in> dom (hp_dce h) \<Longrightarrow> b \<in> set (ls a) \<Longrightarrow> b \<in> dom (hp_ne h)"
  unfolding names_ok_def by blast

lemma dc_NELookup_eq:
  assumes inv: "dc_inv ls g" and D: "D \<in> dom (hp_dce (dc_store g))"
  shows "dc_NELookup g D nm =
     Some (case find (named (dc_store g) nm) (ls D) of None \<Rightarrow> (NULL, g)
           | Some a \<Rightarrow> (a, g\<lparr>g_DirCache := fthash_Lock (g_DirCache g)\<rparr>))"
proof -
  let ?h = "dc_store g"
  note n = dc_inv_names [OF inv]
  obtain d where d: "hp_dce ?h D = Some d" using D by auto
  note lk = names_ok_links [OF n d]
  have "ne_matches ?h nm a = Some (named ?h nm a)" if a: "a \<in> set (ls D)" for a
  proof -
    obtain e where "hp_ne ?h a = Some e" using names_ok_alloc [OF n D a] by auto
    then show ?thesis using inv by (auto simp: ne_matches_def named_def dc_inv_def hashes_ok_def)
  qed
  then have "list_find (ne_next ?h) (ne_matches ?h nm) (dce_Entries d) =
      Some (case find (named ?h nm) (ls D) of None \<Rightarrow> NULL | Some a \<Rightarrow> a)"
    by (rule list_find_eq [OF lk])
  moreover have "a \<noteq> NULL" if "find (named ?h nm) (ls D) = Some a" for a
    using that links_not_NULL [OF lk] by (auto simp: find_Some_iff) (metis nth_mem gr0I)
  ultimately show ?thesis using d by (cases "find (named ?h nm) (ls D)") (auto simp: dc_NELookup_def)
qed

lemma dc_name_eq:
  assumes inv: "dc_inv ls g" and D: "D \<in> dom (hp_dce (dc_store g))"
  shows "dc_name g D nm =
     (case find (named (dc_store g) nm) (ls D) of None \<Rightarrow> None
      | Some a \<Rightarrow> map_option (\<lambda>n. (ne_FType n, ne_FileId n)) (hp_ne (dc_store g) a))"
proof -
  obtain d where d: "hp_dce (dc_store g) D = Some d" using D by auto
  have "a \<noteq> NULL" if "find (named (dc_store g) nm) (ls D) = Some a" for a
    using that links_not_NULL [OF names_ok_links [OF dc_inv_names [OF inv] d]]
    by (auto simp: find_Some_iff) (metis nth_mem gr0I)
  then show ?thesis by (auto simp: dc_name_def dc_NELookup_eq [OF inv D] split: option.split)
qed

lemma find_Cons_fresh: "ent \<notin> set as \<Longrightarrow> \<forall>a\<in>set as. P' a = P a \<Longrightarrow>
    find P' (ent # as) = (if P' ent then Some ent else find P as)"
  by (auto intro: find_cong)

subsection \<open>Creating and looking up names\<close>

definition new_nentry :: "dcentry \<Rightarrow> string \<Rightarrow> ftype \<Rightarrow> u32 \<Rightarrow> nentry" where
  "new_nentry d nm ft fid =
     \<lparr>ne_Next = dce_Entries d, ne_Name = nm, ne_Hash = dc_NEStr2Hash nm, ne_FType = ft, ne_FileId = fid\<rparr>"

lemma dc_NECreate_ok:
  fixes nm :: string and ft :: ftype and fid :: u32
  assumes inv: "dc_inv ls g" and d: "hp_dce (dc_store g) D = Some d" and new: "ent \<notin> dom (hp_ne (dc_store g))"
    and mem: "ent \<noteq> NULL" "ok"
  defines "h' \<equiv> (dc_store g)\<lparr>hp_ne := (hp_ne (dc_store g))(ent \<mapsto> new_nentry d nm ft fid),
                   hp_dce := (hp_dce (dc_store g))(D \<mapsto> d\<lparr>dce_Entries := ent\<rparr>)\<rparr>"
  defines "g' \<equiv> \<lparr>g_DirCache = fthash_Lock (g_DirCache g), dc_store = h'\<rparr>"
  shows "dc_NECreateAndInsert (ent, ok) g D nm ft fid = Some (ent, g')" and "dc_inv (ls(D := ent # ls D)) g'"
proof -
  let ?h = "dc_store g" and ?ls = "ls(D := ent # ls D)" and ?e = "new_nentry d nm ft fid"
  have D: "D \<in> dom (hp_dce ?h)" using d by auto
  note n = dc_inv_names [OF inv] and nd = names_okD [OF dc_inv_names [OF inv]]
  have h': "hp_ne h' = (hp_ne ?h)(ent \<mapsto> ?e)" "hp_dce h' = (hp_dce ?h)(D \<mapsto> d\<lparr>dce_Entries := ent\<rparr>)" by (simp_all add: h'_def)
  show "dc_NECreateAndInsert (ent, ok) g D nm ft fid = Some (ent, g')"
    using mem d by (simp add: dc_NECreateAndInsert_def g'_def h'_def new_nentry_def Let_def)
  have dm: "dom (hp_dce h') = dom (hp_dce ?h)" using h'(2) D by auto
  have fresh: "ent \<notin> set (ls b)" if "b \<in> dom (hp_dce ?h)" for b using names_ok_alloc [OF n that] new by blast
  have nx: "ne_next h' a = ne_next ?h a" if "a \<noteq> ent" for a using that h'(1) by (simp add: ne_next_def)
  have "names_ok ?ls h'"
  proof (rule names_okI)
    show "finite (dom (hp_dce h'))" "NULL \<notin> dom (hp_dce h')" using nd(1,2) dm by auto
    show "links (ne_next h') (dce_Entries x) (?ls b)" if x: "hp_dce h' b = Some x" for b x
    proof (cases "b = D")
      case True
      have "links (ne_next h') (dce_Entries d) (ls D)"
        by (rule links_cong [OF _ names_ok_links [OF n d]]) (use fresh [OF D] nx in metis)
      moreover have "ne_next h' ent = Some (dce_Entries d)" using h'(1) by (simp add: ne_next_def new_nentry_def)
      moreover have "dce_Entries x = ent" using True x h'(2) by auto
      ultimately show ?thesis using True mem(1) fresh [OF D] by (simp add: fun_upd_def links_Cons)
    next
      case other: False
      then have b: "hp_dce ?h b = Some x" using x h'(2) by simp
      show ?thesis using other
        by (simp add: fun_upd_def, intro links_cong [OF _ names_ok_links [OF n b]]) (use fresh [OF domI [of "hp_dce ?h", OF b]] nx in metis)
    qed
    show "set (?ls a) \<inter> set (?ls b) = {}" if "a \<in> dom (hp_dce h')" "b \<in> dom (hp_dce h')" "a \<noteq> b" for a b
      using that nd(3) dm fresh [of a] fresh [of b] by (auto simp: fun_upd_def)
    have "(\<Union>a\<in>dom (hp_dce ?h). set (?ls a)) = insert ent (\<Union>a\<in>dom (hp_dce ?h). set (ls a))"
      using D by (auto simp: fun_upd_def split: if_splits)
    then show "dom (hp_ne h') = (\<Union>a\<in>dom (hp_dce h'). set (?ls a))" unfolding dm using nd(4) h'(1) by auto
  qed
  note n' = this
  have "hashes_ok h'" using inv h'(1) by (auto simp: dc_inv_def hashes_ok_def new_nentry_def)
  moreover have "dce.ft_inv ls ?h (g_DirCache g) ?h {#}" using inv by (simp add: dc_inv_def)
  ultimately show "dc_inv ?ls g'"
    using dce_ft_inv_lock [OF dce_ft_inv_names [OF _ n' dm]] by (simp add: dc_inv_def g'_def)
qed

text \<open>C30. Names: \<open>dc_NECreateAndInsert\<close> makes the name answer with the new file type and file id
  in that directory, whatever it answered before; all other names there and all names in other
  directory entries answer as before. A lookup (by hash value, then by comparison) always
  returns, and without memory for the entry nothing changes. No name list is shared or lost,
  and the table is locked, so that the entry cannot be freed before the packet ends.\<close>

theorem dc_NECreateAndInsert_lookup:
  assumes inv: "dc_inv ls g" and D: "D \<in> dom (hp_dce (dc_store g))" and new: "ent \<notin> dom (hp_ne (dc_store g))"
  shows "\<exists>p g' ls'. dc_NECreateAndInsert (ent, ok) g D nm ft fid = Some (p, g') \<and> dc_inv ls' g' \<and>
     dom (hp_dce (dc_store g')) = dom (hp_dce (dc_store g)) \<and>
     (if p = NULL then g' = g
      else p = ent \<and> fthash_IsLocked (g_DirCache g') \<and>
        (\<forall>E\<in>dom (hp_dce (dc_store g)). \<forall>x. dc_NELookup g' E x \<noteq> None \<and>
           dc_name g' E x = (if E = D \<and> x = nm then Some (ft, fid) else dc_name g E x)))"
proof (cases "ent = NULL \<or> \<not> ok")
  case True
  then show ?thesis using inv by (auto simp: dc_NECreateAndInsert_def)
next
  case False
  let ?h = "dc_store g"
  note n = dc_inv_names [OF inv] and nd = names_okD [OF dc_inv_names [OF inv]]
  obtain d where d: "hp_dce ?h D = Some d" using D by auto
  define h' where "h' = ?h\<lparr>hp_ne := (hp_ne ?h)(ent \<mapsto> new_nentry d nm ft fid), hp_dce := (hp_dce ?h)(D \<mapsto> d\<lparr>dce_Entries := ent\<rparr>)\<rparr>"
  define g' where "g' = \<lparr>g_DirCache = fthash_Lock (g_DirCache g), dc_store = h'\<rparr>"
  define ls' where "ls' = ls(D := ent # ls D)"
  let ?e = "new_nentry d nm ft fid"
  have mem: "ent \<noteq> NULL" "ok" using False by auto
  note cr = dc_NECreate_ok [OF inv d new mem, where nm = nm and ft = ft and fid = fid, folded h'_def, folded g'_def ls'_def]
  have run: "dc_NECreateAndInsert (ent, ok) g D nm ft fid = Some (ent, g')" and inv': "dc_inv ls' g'" by (rule cr)+
  have h': "hp_ne h' = (hp_ne ?h)(ent \<mapsto> ?e)" "hp_dce h' = (hp_dce ?h)(D \<mapsto> d\<lparr>dce_Entries := ent\<rparr>)" by (simp_all add: h'_def)
  have dm: "dom (hp_dce h') = dom (hp_dce ?h)" using h'(2) D by auto
  have fresh: "ent \<notin> set (ls b)" if "b \<in> dom (hp_dce ?h)" for b using names_ok_alloc [OF n that] new by blast
  have "dc_NELookup g' E x \<noteq> None \<and> dc_name g' E x = (if E = D \<and> x = nm then Some (ft, fid) else dc_name g E x)"
    if E: "E \<in> dom (hp_dce ?h)" for E x
  proof -
    have E': "E \<in> dom (hp_dce (dc_store g'))" using E dm by (simp add: g'_def)
    have same: "named h' x a = named ?h x a" "hp_ne h' a = hp_ne ?h a" if "a \<in> set (ls E)" for a
      using that fresh [OF E] h'(1) by (auto simp: named_def)
    have ent: "named h' x ent \<longleftrightarrow> x = nm" "hp_ne h' ent = Some ?e" using h'(1) by (auto simp: named_def new_nentry_def)
    have f: "find (named h' x) (ls' E) = (if E = D \<and> x = nm then Some ent else find (named ?h x) (ls E))"
    proof (cases "E = D")
      case True
      then show ?thesis using find_Cons_fresh [OF fresh [OF E], of "named h' x" "named ?h x"] same ent(1) by (simp add: ls'_def)
    next
      case False
      then show ?thesis using find_cong [of "ls E" "ls E" "named h' x" "named ?h x"] same by (simp add: ls'_def)
    qed
    have "a \<in> set (ls E)" if "find (named ?h x) (ls E) = Some a" for a using that by (auto simp: find_Some_iff)
    then have "dc_name g' E x = (if E = D \<and> x = nm then Some (ft, fid) else dc_name g E x)"
      unfolding dc_name_eq [OF inv' E'] dc_name_eq [OF inv E]
      using f same(2) ent(2) by (auto simp: g'_def new_nentry_def split: option.split)
    then show ?thesis using dc_NELookup_eq [OF inv' E'] by simp
  qed
  moreover have "fthash_IsLocked (g_DirCache g')"
    using inv by (simp add: g'_def fthash_Lock_def fthash_IsLocked_def dc_inv_def dce.ft_inv_def ft_shape_def)
  ultimately show ?thesis using run inv' dm False
    by (intro exI [of _ ent] exI [of _ g'] exI [of _ ls']) (simp add: g'_def)
qed

subsection \<open>Creating directory entries\<close>

lemma names_ok_new:
  assumes n: "names_ok ls h" and new: "ent \<notin> dom (hp_dce h)" "ent \<noteq> NULL"
  shows "names_ok (ls(ent := [])) (h\<lparr>hp_dce := (hp_dce h)(ent \<mapsto> \<lparr>dce_FileId = fid, dce_ParentId = par, dce_NFSFh = fh, dce_Entries = NULL\<rparr>)\<rparr>)"
    (is "names_ok ?ls ?h")
proof -
  note nd = names_okD [OF n]
  have dm: "dom (hp_dce ?h) = insert ent (dom (hp_dce h))" by auto
  show ?thesis
  proof (rule names_okI)
    show "finite (dom (hp_dce ?h))" "NULL \<notin> dom (hp_dce ?h)" using nd(1,2) new(2) dm by auto
    show "links (ne_next ?h) (dce_Entries x) (?ls b)" if x: "hp_dce ?h b = Some x" for b x
    proof (cases "b = ent")
      case True
      then show ?thesis using x by auto
    next
      case False
      then have "hp_dce h b = Some x" using x by simp
      from links_cong [OF _ names_ok_links [OF n this], of "ne_next ?h"] show ?thesis using False by (simp add: ne_next_def)
    qed
    show "set (?ls a) \<inter> set (?ls b) = {}" if "a \<in> dom (hp_dce ?h)" "b \<in> dom (hp_dce ?h)" "a \<noteq> b" for a b
      using that nd(3) by auto
    have "(\<Union>a\<in>dom (hp_dce h). set (?ls a)) = (\<Union>a\<in>dom (hp_dce h). set (ls a))"
      by (rule SUP_cong) (use new(1) in auto)
    then show "dom (hp_ne ?h) = (\<Union>a\<in>dom (hp_dce ?h). set (?ls a))" unfolding dm using nd(4) by simp
  qed
qed

lemma names_ok_free_empty:
  assumes "dce.ft_inv ls h0 t h {#ent#}" and "ls ent = []"
  shows "dce.ft_inv ls (h\<lparr>hp_dce := (hp_dce h)(ent := None)\<rparr>) t (h\<lparr>hp_dce := (hp_dce h)(ent := None)\<rparr>) {#}"
proof -
  have o: "dce.owns ls h0 h (add_mset ent (vals (concat (tht_Entries t)) + vals (tht_LockedEntries t)))"
    using assms(1) by (simp add: dce.ft_inv_def)
  obtain h' where h': "dc_FreeVal ent h = Some h'" "dce.owns ls h0 h' (vals (concat (tht_Entries t)) + vals (tht_LockedEntries t))"
    using dce.owns_free [OF o] by blast
  have n: "names_ok ls h" using assms(1) dce_names by blast
  obtain d where d: "hp_dce h ent = Some d" using dce.owns_not_NULL [OF o] by auto
  have "dce_Entries d = NULL" using names_ok_links [OF n d] assms(2) by simp
  then have "h' = h\<lparr>hp_dce := (hp_dce h)(ent := None)\<rparr>"
    using h'(1) d by (simp add: dc_FreeVal_def dce_Delete_def dce_delete_loop.simps)
  then have "dce.ft_inv ls h0 t (h\<lparr>hp_dce := (hp_dce h)(ent := None)\<rparr>) {#}"
    using h'(2) assms(1) by (simp add: dce.ft_inv_def)
  then show ?thesis by (rule dce_rebase)
qed

lemma dc_DCECreate_ok:
  assumes inv: "dc_inv ls g" and new: "ent \<notin> dom (hp_dce (dc_store g))"
  shows "\<exists>p g'. dc_DCECreateAndInsert (ent, ok) now g fid fh = (p, g') \<and> dc_inv (if ent = NULL then ls else ls(ent := [])) g' \<and>
     (if ent \<noteq> NULL \<and> (ok \<and> tht_NumEntries (g_DirCache g) < tht_MaxEntries (g_DirCache g) + 10 \<or> tht_FreeEntries (g_DirCache g) \<noteq> [])
      then p = ent \<and> ft_conf (g_DirCache g) (g_DirCache g') \<and> hp_ne (dc_store g') = hp_ne (dc_store g) \<and>
        hp_dce (dc_store g') = (hp_dce (dc_store g))(ent \<mapsto>
          \<lparr>dce_FileId = fid, dce_ParentId = uint DCE_ID_UNUSED, dce_NFSFh = fh, dce_Entries = NULL\<rparr>) \<and>
        mset (concat (tht_Entries (g_DirCache g'))) =
          add_mset \<lparr>the_Key = fid, the_Val = ent, the_Birth = now\<rparr> (mset (concat (tht_Entries (g_DirCache g))))
      else p = NULL \<and> g' = g)"
proof (cases "ent = NULL")
  case True
  then show ?thesis using inv by (simp add: dc_DCECreateAndInsert_def)
next
  case False
  let ?h = "dc_store g" and ?t = "g_DirCache g" and ?ls = "ls(ent := [])"
  define h1 where "h1 = ?h\<lparr>hp_dce := (hp_dce ?h)(ent \<mapsto> \<lparr>dce_FileId = fid, dce_ParentId = uint DCE_ID_UNUSED, dce_NFSFh = fh, dce_Entries = NULL\<rparr>)\<rparr>"
  have n1: "names_ok ?ls h1" unfolding h1_def by (rule names_ok_new [OF dc_inv_names [OF inv] new False])
  have dm: "dom (hp_dce h1) = insert ent (dom (hp_dce ?h))" "hp_ne h1 = hp_ne ?h" by (auto simp: h1_def)
  have ft: "dce.ft_inv ls ?h ?t ?h {#}" using inv by (simp add: dc_inv_def)
  have fin: "finite (dom (hp_dce ?h))" using names_okD(1) [OF dc_inv_names [OF inv]] .
  have "mset_set (dom (hp_dce h1)) = add_mset ent (mset_set (dom (hp_dce ?h)))" using fin new dm(1) by simp
  then have i1: "dce.ft_inv ?ls h1 ?t h1 {#ent#}" using ft n1 by (simp add: dce.ft_inv_def dce.owns_def dstore_from_def)
  have hs: "hashes_ok h1" using inv by (simp add: dc_inv_def hashes_ok_def dm(2))
  obtain r t' where ins: "fthash_Insert ok now ?t fid ent = (r, t')" "ft_conf ?t t'"
     "if ok \<and> tht_NumEntries ?t < tht_MaxEntries ?t + 10 \<or> tht_FreeEntries ?t \<noteq> []
      then r = 1 \<and> dce.ft_inv ?ls h1 t' h1 {#} \<and> mset (concat (tht_Entries t')) =
        add_mset \<lparr>the_Key = fid, the_Val = ent, the_Birth = now\<rparr> (mset (concat (tht_Entries ?t)))
      else r = 0 \<and> t' = ?t"
    using dce.Insert_ok [OF i1, of ok now fid] by blast
  show ?thesis
  proof (cases "ok \<and> tht_NumEntries ?t < tht_MaxEntries ?t + 10 \<or> tht_FreeEntries ?t \<noteq> []")
    case True
    then have "dc_inv ?ls \<lparr>g_DirCache = t', dc_store = h1\<rparr>" using ins(3) hs by (simp add: dc_inv_def)
    moreover have "dc_DCECreateAndInsert (ent, ok) now g fid fh = (ent, \<lparr>g_DirCache = t', dc_store = h1\<rparr>)"
      using True ins False by (simp add: dc_DCECreateAndInsert_def Let_def h1_def)
    ultimately show ?thesis using True dm(2) False ins(2,3) by (simp add: h1_def)
  next
    case no: False
    have r: "r = 0" "t' = ?t" using ins(3) no by auto
    have undo: "h1\<lparr>hp_dce := (hp_dce h1)(ent := None)\<rparr> = ?h"
      using new by (cases ?h) (auto simp: h1_def fun_eq_iff)
    have "dce.ft_inv ?ls ?h ?t ?h {#}" using names_ok_free_empty [OF i1] unfolding undo by simp
    then have "dc_inv ?ls g" using inv by (simp add: dc_inv_def)
    moreover have "dc_DCECreateAndInsert (ent, ok) now g fid fh = (NULL, \<lparr>g_DirCache = ?t, dc_store = ?h\<rparr>)"
      using ins(1) r False undo by (simp add: dc_DCECreateAndInsert_def Let_def h1_def)
    moreover have "\<lparr>g_DirCache = ?t, dc_store = ?h\<rparr> = g" by (cases g) simp
    ultimately show ?thesis using no inv by simp
  qed
qed

subsection \<open>Looking up directory entries\<close>

text \<open>Every entry of the table is under its own file id. (An id can have several entries:
  \<open>GetDirEntry\<close> inserts without a lookup when it does not know the id.)\<close>

definition keys_ok :: "dircache \<Rightarrow> bool" where
  "keys_ok g \<longleftrightarrow> tht_KeyCmp (g_DirCache g) = dc_KeyCmp \<and>
     (\<forall>e\<in>live (g_DirCache g). \<exists>d. hp_dce (dc_store g) (the_Val e) = Some d \<and> dce_FileId d = the_Key e)"

lemma dc_KeyCmp_eq [simp]: "dc_KeyCmp a b s = 0 \<longleftrightarrow> a = b"
  unfolding dc_KeyCmp_def by (metis eq_iff_diff_eq_0 signed_0 signed_word_eqI)

lemma dce_live_dom: "dce.ft_inv ls h0 t h M \<Longrightarrow> e \<in> live t \<Longrightarrow> the_Val e \<in> dom (hp_dce h)"
proof -
  assume a: "dce.ft_inv ls h0 t h M" "e \<in> live t"
  have "dom (hp_dce h) = set_mset (vals (concat (tht_Entries t)) + vals (tht_LockedEntries t) + M)"
    using a(1) dce.owns_alloc unfolding dce.ft_inv_def by blast
  then show ?thesis using a(2) unfolding live_mset vals_def by (auto simp del: set_mset_mset)
qed

lemma dc_DCELookup_ok:
  assumes inv: "dc_inv ls g" and keys: "keys_ok g"
  shows "\<exists>p g'. dc_DCELookupFromFileId now g k = Some (p, g') \<and> dc_inv ls g' \<and> keys_ok g' \<and>
     map_le (hp_dce (dc_store g')) (hp_dce (dc_store g)) \<and> map_le (hp_ne (dc_store g')) (hp_ne (dc_store g)) \<and>
     (p \<noteq> NULL \<longrightarrow> (\<exists>d. hp_dce (dc_store g') p = Some d \<and> dce_FileId d = k))"
proof -
  let ?t = "g_DirCache g" and ?h = "dc_store g"
  have ft: "dce.ft_inv ls ?h ?t ?h {#}" and hs: "hashes_ok ?h" using inv by (auto simp: dc_inv_def)
  have shape: "ft_shape ?t" using ft by (simp add: dce.ft_inv_def)
  obtain r t' h' where l: "fthash_Lookup now ?t k ?h = Some (r, t', h')" "dce.ft_inv ls ?h t' h' {#}" "ft_conf ?t t'"
     "case ft_find ?t k of
       None \<Rightarrow> r = NULL \<and> t' = ?t \<and> h' = ?h
     | Some e \<Rightarrow>
         if now - tht_TTL ?t > the_Birth e
         then r = NULL \<and> mset (concat (tht_Entries t')) + {#e#} = mset (concat (tht_Entries ?t))
         else r = the_Val e \<and> h' = ?h \<and> 0 < tht_LockCnt t' \<and> mset (concat (tht_Entries t')) = mset (concat (tht_Entries ?t))"
    using dce.Lookup_ok [OF ft, of now k] by blast
  let ?g = "\<lparr>g_DirCache = t', dc_store = h'\<rparr>"
  have le: "map_le (hp_dce h') (hp_dce ?h)" "map_le (hp_ne h') (hp_ne ?h)" using l(2)
    by (auto simp: dce.ft_inv_def dce.owns_def dstore_from_def)
  have "mset (concat (tht_Entries t')) \<subseteq># mset (concat (tht_Entries ?t))"
    using l(4) by (auto split: option.splits if_splits) (metis mset_subset_eq_add_left union_commute add_mset_add_single)
  then have sub: "live t' \<subseteq> live ?t" unfolding live_mset by (rule set_mset_mono)
  have "hashes_ok h'" using hs le(2) by (auto simp: hashes_ok_def map_le_def dom_def) 
  then have inv': "dc_inv ls ?g" using dce_rebase [OF l(2)] by (simp add: dc_inv_def)
  have k': "keys_ok ?g" unfolding keys_ok_def
  proof (intro conjI ballI)
    show "tht_KeyCmp (g_DirCache ?g) = dc_KeyCmp" using keys l(3) by (simp add: keys_ok_def ft_conf_def)
    fix e assume e: "e \<in> live (g_DirCache ?g)"
    then have "the_Val e \<in> dom (hp_dce h')" using dce_live_dom [OF l(2)] by simp
    then have "hp_dce h' (the_Val e) = hp_dce ?h (the_Val e)" using le(1) by (simp add: map_le_def)
    then show "\<exists>d. hp_dce (dc_store ?g) (the_Val e) = Some d \<and> dce_FileId d = the_Key e"
      using keys e sub by (auto simp: keys_ok_def)
  qed
  have "\<exists>d. hp_dce h' r = Some d \<and> dce_FileId d = k" if r: "r \<noteq> NULL"
  proof -
    obtain e where e: "ft_find ?t k = Some e" "r = the_Val e" "h' = ?h" using l(4) r by (auto split: option.splits if_splits)
    obtain pre post where "ft_split ?t k (tht_Entries ?t ! fthash_Hash ?t k) = Some (pre, e, post)" using e(1) by (auto simp: ft_find_def)
    from ft_split_Some [OF this] have "e \<in> set (tht_Entries ?t ! fthash_Hash ?t k)" "fthash_IsSameKey ?t e k" by auto
    moreover have "fthash_Hash ?t k < length (tht_Entries ?t)"
      using fthash_Hash_less [OF shape] ft_shape_facts(2) [OF shape] by simp
    ultimately have "e \<in> live ?t" "the_Key e = k" using keys by (auto simp: live_def fthash_IsSameKey_def keys_ok_def)
    then show ?thesis using keys e by (auto simp: keys_ok_def)
  qed
  then show ?thesis using l(1) inv' k' le by (intro exI [of _ r] exI [of _ ?g]) (simp add: dc_DCELookupFromFileId_def)
qed

lemma dc_DCECreate_keys:
  assumes inv: "dc_inv ls g" and keys: "keys_ok g" and new: "ent \<notin> dom (hp_dce (dc_store g))"
    and run: "dc_DCECreateAndInsert (ent, ok) now g fid fh = (p, g')"
  shows "keys_ok g' \<and> (p = NULL \<and> g' = g \<or> p = ent \<and> ent \<noteq> NULL \<and> hp_ne (dc_store g') = hp_ne (dc_store g) \<and>
     hp_dce (dc_store g') = (hp_dce (dc_store g))(ent \<mapsto>
       \<lparr>dce_FileId = fid, dce_ParentId = uint DCE_ID_UNUSED, dce_NFSFh = fh, dce_Entries = NULL\<rparr>))"
proof -
  note cr = dc_DCECreate_ok [OF inv new, where ok = ok and now = now and fid = fid and fh = fh, unfolded run]
  show ?thesis
  proof (cases "ent \<noteq> NULL \<and> (ok \<and> tht_NumEntries (g_DirCache g) < tht_MaxEntries (g_DirCache g) + 10 \<or> tht_FreeEntries (g_DirCache g) \<noteq> [])")
    case False
    then show ?thesis using cr keys by auto
  next
    case True
    then have c: "p = ent" "ft_conf (g_DirCache g) (g_DirCache g')" "hp_ne (dc_store g') = hp_ne (dc_store g)"
      "hp_dce (dc_store g') = (hp_dce (dc_store g))(ent \<mapsto>
          \<lparr>dce_FileId = fid, dce_ParentId = uint DCE_ID_UNUSED, dce_NFSFh = fh, dce_Entries = NULL\<rparr>)"
      "mset (concat (tht_Entries (g_DirCache g'))) =
          add_mset \<lparr>the_Key = fid, the_Val = ent, the_Birth = now\<rparr> (mset (concat (tht_Entries (g_DirCache g))))"
      using cr by auto
    have l: "live (g_DirCache g') = insert \<lparr>the_Key = fid, the_Val = ent, the_Birth = now\<rparr> (live (g_DirCache g))"
      unfolding live_mset c(5) by simp
    have "the_Val e \<noteq> ent" if "e \<in> live (g_DirCache g)" for e
      using keys that new by (auto simp: keys_ok_def)
    then have "keys_ok g'" using keys c(2,4) l by (auto simp: keys_ok_def ft_conf_def)
    then show ?thesis using c True by simp
  qed
qed

text \<open>A cache with one directory, for concrete runs.\<close>

definition empty_dirs :: dircache where
  "empty_dirs = the (dc_Init 10 60 \<lparr>hp_dce = \<lambda>_. None, hp_ne = \<lambda>_. None\<rparr>)"

definition one_dir :: dircache where
  "one_dir = snd (dc_DCECreateAndInsert (200, True) 100 empty_dirs 5 [7])"

lemma empty_dirs_inv: "dc_inv (\<lambda>_. []) empty_dirs"
proof -
  let ?h = "\<lparr>hp_dce = \<lambda>_. None, hp_ne = \<lambda>_. None\<rparr>"
  obtain t where t: "fthash_New 256 4 10 60 dc_HashFunc dc_FreeVal dc_KeyCmp = Some t" by (simp add: fthash_New_def)
  have e: "empty_dirs = \<lparr>g_DirCache = t, dc_store = ?h\<rparr>" using t by (simp add: empty_dirs_def dc_Init_def)
  have "dce.ft_inv (\<lambda>_. []) ?h t ?h {#}"
    by (rule dce.New_inv [OF t]) (simp_all add: dce.owns_def dstore_from_def names_ok_def)
  then show ?thesis by (simp add: dc_inv_def hashes_ok_def e)
qed

lemma one_dir_ok: "dc_inv ((\<lambda>_. [])(200 := [])) one_dir" "dom (hp_dce (dc_store one_dir)) = {200}" "hp_ne (dc_store one_dir) = (\<lambda>_. None)"
proof -
  have e: "hp_dce (dc_store empty_dirs) = (\<lambda>_. None)" "hp_ne (dc_store empty_dirs) = (\<lambda>_. None)" "tht_NumEntries (g_DirCache empty_dirs) = 0"
    "tht_MaxEntries (g_DirCache empty_dirs) = 10" by (simp_all add: empty_dirs_def dc_Init_def fthash_New_def)
  have n: "200 \<notin> dom (hp_dce (dc_store empty_dirs))" using e by simp
  obtain p g' where c: "dc_DCECreateAndInsert (200, True) 100 empty_dirs 5 [7] = (p, g')" "dc_inv ((\<lambda>_. [])(200 := [])) g'"
     "dom (hp_dce (dc_store g')) = insert 200 (dom (hp_dce (dc_store empty_dirs)))" "hp_ne (dc_store g') = hp_ne (dc_store empty_dirs)"
    using dc_DCECreate_ok [OF empty_dirs_inv n, where ok = True and now = 100 and fid = 5 and fh = "[7]"] e(3,4) by auto
  then show "dc_inv ((\<lambda>_. [])(200 := [])) one_dir" "dom (hp_dce (dc_store one_dir)) = {200}" "hp_ne (dc_store one_dir) = (\<lambda>_. None)"
    using e(1,2) by (simp_all add: one_dir_def)
qed

theorem dc_NECreateAndInsert_lookup_witness:
  "\<exists>p g'. dc_NECreateAndInsert (300, True) one_dir 200 ''a'' NFREG 9 = Some (p, g') \<and>
     (p \<noteq> NULL \<longrightarrow> dc_name g' 200 ''a'' = Some (NFREG, 9))"
proof -
  have "200 \<in> dom (hp_dce (dc_store one_dir))" "300 \<notin> dom (hp_ne (dc_store one_dir))" using one_dir_ok(2,3) by auto
  from dc_NECreateAndInsert_lookup [OF one_dir_ok(1) this, of True "''a''" NFREG 9]
  show ?thesis using one_dir_ok(2) by (auto split: if_splits)
qed

subsection \<open>Removing a name\<close>

lemma find_remove1_other:
  "\<not> P a \<Longrightarrow> find P (remove1 a xs) = find P xs"
  by (induction xs) auto

text \<open>The store after the unlinking loop: the list without the entry, the other lists and all
  fields but the links unchanged.\<close>

definition same_entry :: "nentry option \<Rightarrow> nentry option \<Rightarrow> bool" where
  "same_entry m n \<longleftrightarrow> map_option (ne_Next_update (\<lambda>_. NULL)) m = map_option (ne_Next_update (\<lambda>_. NULL)) n"

lemma same_entry_refl [simp]: "same_entry m m"
  by (simp add: same_entry_def)

lemma same_entry_fields:
  assumes "same_entry m n"
  shows "map_option ne_Name m = map_option ne_Name n" "map_option ne_Hash m = map_option ne_Hash n"
    "map_option (\<lambda>n. (ne_FType n, ne_FileId n)) m = map_option (\<lambda>n. (ne_FType n, ne_FileId n)) n" "m = None \<longleftrightarrow> n = None"
  using assms by (cases m; cases n; force simp: same_entry_def dest: arg_cong [where f = ne_Name] arg_cong [where f = ne_FType]
      arg_cong [where f = ne_FileId] arg_cong [where f = ne_Hash])+

definition unlinked :: "(addr \<Rightarrow> addr list) \<Rightarrow> addr \<Rightarrow> addr \<Rightarrow> dstore \<Rightarrow> dstore \<Rightarrow> bool" where
  "unlinked ls D a h h1 \<longleftrightarrow>
     (\<exists>d'. hp_dce h1 D = Some d' \<and> links (ne_next h1) (dce_Entries d') (remove1 a (ls D))) \<and>
     (\<forall>d d'. hp_dce h D = Some d \<longrightarrow> hp_dce h1 D = Some d' \<longrightarrow> dce_FileId d' = dce_FileId d \<and> dce_NFSFh d' = dce_NFSFh d) \<and>
     (\<forall>E. E \<noteq> D \<longrightarrow> hp_dce h1 E = hp_dce h E) \<and> dom (hp_dce h1) = dom (hp_dce h) \<and>
     (\<forall>b. b \<notin> set (ls D) \<or> b = a \<longrightarrow> hp_ne h1 b = hp_ne h b) \<and> (\<forall>b. same_entry (hp_ne h1 b) (hp_ne h b))"

lemma ne_unlink:
  assumes n: "names_ok ls h" and d: "hp_dce h D = Some d" and a: "a \<in> set (ls D)"
  defines "nx \<equiv> the (ne_next h a)"
  shows "\<exists>prev h1. list_locate (ne_next h) a NULL (dce_Entries d) = Some (Some (prev, nx)) \<and> unlinked ls D a h h1 \<and>
    (if prev = NULL then Some (h\<lparr>hp_dce := (hp_dce h)(D \<mapsto> d\<lparr>dce_Entries := nx\<rparr>)\<rparr>)
     else map_option (\<lambda>e. h\<lparr>hp_ne := (hp_ne h)(prev \<mapsto> e\<lparr>ne_Next := nx\<rparr>)\<rparr>) (hp_ne h prev)) = Some h1"
proof -
  note lk = names_ok_links [OF n d]
  obtain xs ys where sp: "ls D = xs @ a # ys" "a \<notin> set xs" using a split_list_first by metis
  have lk': "links (ne_next h) (dce_Entries d) (xs @ a # ys)" using lk sp by simp
  have rm: "remove1 a (ls D) = xs @ ys" using sp by (simp add: remove1_append)
  note loc = list_locate_present [OF lk', of NULL, folded nx_def]
  show ?thesis
  proof (cases "xs = []")
    case True
    let ?h1 = "h\<lparr>hp_dce := (hp_dce h)(D \<mapsto> d\<lparr>dce_Entries := nx\<rparr>)\<rparr>"
    have "ne_next ?h1 = ne_next h" by (simp add: ne_next_def fun_eq_iff)
    then have "links (ne_next ?h1) nx (xs @ ys)" using links_unlink [OF lk'] True by (simp add: nx_def)
    then have "unlinked ls D a h ?h1" using d rm by (auto simp: unlinked_def)
    then show ?thesis using loc True by auto
  next
    case False
    have lx: "last xs \<in> set (ls D)" "last xs \<noteq> a" using False sp by auto
    obtain e where e: "hp_ne h (last xs) = Some e" using names_ok_alloc [OF n domI [of "hp_dce h", OF d] lx(1)] by auto
    let ?h1 = "h\<lparr>hp_ne := (hp_ne h)(last xs \<mapsto> e\<lparr>ne_Next := nx\<rparr>)\<rparr>"
    have "ne_next ?h1 = (ne_next h)(last xs := Some nx)" by (simp add: ne_next_def fun_eq_iff)
    then have "links (ne_next ?h1) (dce_Entries d) (xs @ ys)" using links_unlink [OF lk'] False by (simp add: nx_def)
    then have "unlinked ls D a h ?h1" using d rm e lx by (auto simp: unlinked_def same_entry_def)
    moreover have "last xs \<noteq> NULL" using lx(1) links_not_NULL [OF lk] by metis
    ultimately show ?thesis using loc False e by auto
  qed
qed

lemma names_ok_unlinked:
  assumes n: "names_ok ls h" and u: "unlinked ls D a h h1" and D: "D \<in> dom (hp_dce h)" and a: "a \<in> set (ls D)"
  defines "h2 \<equiv> h1\<lparr>hp_ne := (hp_ne h1)(a := None)\<rparr>"
  shows "names_ok (ls(D := remove1 a (ls D))) h2" (is "names_ok ?ls h2")
proof (rule names_okI)
  note nd = names_okD [OF n]
  have dm: "dom (hp_dce h2) = dom (hp_dce h)" using u by (simp add: h2_def unlinked_def)
  obtain d where d: "hp_dce h D = Some d" using D by auto
  have dist: "distinct (ls D)" by (rule links_distinct [OF names_ok_links [OF n d]])
  have notin: "set (ls D) \<inter> set (ls E) = {}" if "E \<in> dom (hp_dce h)" "E \<noteq> D" for E using nd(3) D that by simp
  show "finite (dom (hp_dce h2))" "NULL \<notin> dom (hp_dce h2)" using nd(1,2) dm by auto
  show "links (ne_next h2) (dce_Entries e) (?ls E)" if e: "hp_dce h2 E = Some e" for E e
  proof (cases "E = D")
    case True
    then have "links (ne_next h1) (dce_Entries e) (remove1 a (ls D))" using u e by (auto simp: h2_def unlinked_def)
    then show ?thesis unfolding True fun_upd_same
      by (rule links_cong [rotated]) (use dist in \<open>auto simp: ne_next_def h2_def\<close>)
  next
    case False
    have E: "hp_dce h E = Some e" using e False u by (simp add: h2_def unlinked_def)
    have "ne_next h2 b = ne_next h b" if "b \<in> set (ls E)" for b
      using notin [OF domI [of "hp_dce h", OF E] False] that u a by (auto simp: ne_next_def h2_def unlinked_def)
    then show ?thesis using links_cong [OF _ names_ok_links [OF n E]] False by simp
  qed
  show "set (?ls x) \<inter> set (?ls y) = {}" if "x \<in> dom (hp_dce h2)" "y \<in> dom (hp_dce h2)" "x \<noteq> y" for x y
  proof -
    have "set (ls x) \<inter> set (ls y) = {}" using nd(3) that dm by simp
    moreover have "set (?ls z) \<subseteq> set (ls z)" for z using set_remove1_subset [of a "ls D"] by auto
    ultimately show ?thesis by blast
  qed
  have "hp_ne h1 b = None \<longleftrightarrow> hp_ne h b = None" for b
    using u same_entry_fields(4) [of "hp_ne h1 b" "hp_ne h b"] by (simp add: unlinked_def)
  then have "dom (hp_ne h1) = dom (hp_ne h)" by (auto simp: dom_def)
  then have "dom (hp_ne h2) = (\<Union>E\<in>dom (hp_dce h). set (ls E)) - {a}" using nd(4) by (simp add: h2_def)
  also have "\<dots> = (\<Union>E\<in>dom (hp_dce h). set (ls E) - {a})" by blast
  also have "\<dots> = (\<Union>E\<in>dom (hp_dce h). set (?ls E))"
    by (rule SUP_cong [OF refl]) (use notin a dist in \<open>auto split: if_splits\<close>)
  finally show "dom (hp_ne h2) = (\<Union>E\<in>dom (hp_dce h2). set (?ls E))" unfolding dm .
qed

text \<open>The store after an entry of the list is removed.\<close>

lemma dc_NERemove_ok:
  assumes inv: "dc_inv ls g" and D: "D \<in> dom (hp_dce (dc_store g))" and a: "a \<in> set (ls D)"
  shows "\<exists>h2. dc_NERemove g D a = Some (g\<lparr>dc_store := h2\<rparr>) \<and> dc_inv (ls(D := remove1 a (ls D))) (g\<lparr>dc_store := h2\<rparr>) \<and>
     dom (hp_dce h2) = dom (hp_dce (dc_store g)) \<and> hp_ne h2 a = None \<and> (\<forall>b. b \<noteq> a \<longrightarrow> same_entry (hp_ne h2 b) (hp_ne (dc_store g) b)) \<and>
     (\<forall>E d d'. hp_dce (dc_store g) E = Some d \<longrightarrow> hp_dce h2 E = Some d' \<longrightarrow> dce_FileId d' = dce_FileId d \<and> dce_NFSFh d' = dce_NFSFh d)"
proof -
  let ?h = "dc_store g" and ?ls = "ls(D := remove1 a (ls D))"
  note n = dc_inv_names [OF inv]
  obtain d where d: "hp_dce ?h D = Some d" using D by auto
  obtain prev h1 where u: "list_locate (ne_next ?h) a NULL (dce_Entries d) = Some (Some (prev, the (ne_next ?h a)))" "unlinked ls D a ?h h1"
    "(if prev = NULL then Some (?h\<lparr>hp_dce := (hp_dce ?h)(D \<mapsto> d\<lparr>dce_Entries := the (ne_next ?h a)\<rparr>)\<rparr>)
     else map_option (\<lambda>e. ?h\<lparr>hp_ne := (hp_ne ?h)(prev \<mapsto> e\<lparr>ne_Next := the (ne_next ?h a)\<rparr>)\<rparr>) (hp_ne ?h prev)) = Some h1"
    using ne_unlink [OF n d a] by blast
  define h2 where "h2 = h1\<lparr>hp_ne := (hp_ne h1)(a := None)\<rparr>"
  let ?g = "g\<lparr>dc_store := h2\<rparr>"
  note n2 = names_ok_unlinked [OF n u(2) D a, folded h2_def]
  have same: "same_entry (hp_ne h2 b) (hp_ne ?h b)" if "b \<noteq> a" for b using u(2) that by (simp add: h2_def unlinked_def)
  note fields = same_entry_fields [OF same]
  have dm: "dom (hp_dce h2) = dom (hp_dce ?h)" "a \<in> dom (hp_ne h1)"
    using u(2) names_ok_alloc [OF n D a] by (auto simp: h2_def unlinked_def dom_def)
  have run: "dc_NERemove g D a = Some ?g"
    using d u(1,3) dm(2) by (simp add: dc_NERemove_def h2_def DeleteNEnt_def Let_def)
  have "hashes_ok h2" unfolding hashes_ok_def
  proof (intro allI impI)
    fix b e assume e: "hp_ne h2 b = Some e"
    then have b: "b \<noteq> a" by (auto simp: h2_def)
    then obtain e0 where "hp_ne ?h b = Some e0" using fields(4) [OF b] e by (cases "hp_ne ?h b") auto
    then show "ne_Hash e = dc_NEStr2Hash (ne_Name e)" using fields(1,2) [OF b] e inv by (auto simp: dc_inv_def hashes_ok_def)
  qed
  moreover have "dce.ft_inv ls ?h (g_DirCache g) ?h {#}" using inv by (simp add: dc_inv_def)
  ultimately have inv': "dc_inv ?ls ?g" using dce_ft_inv_names [OF _ n2 dm(1)] by (simp add: dc_inv_def)
  have fl: "dce_FileId d' = dce_FileId d0 \<and> dce_NFSFh d' = dce_NFSFh d0" if "hp_dce ?h E = Some d0" "hp_dce h2 E = Some d'" for E d0 d'
    using u(2) that by (cases "E = D") (auto simp: h2_def unlinked_def)
  have "hp_ne h2 a = None" by (simp add: h2_def)
  then show ?thesis using run inv' dm(1) same fl by blast
qed

text \<open>\<open>dc_NERemove\<close> unlinks and frees exactly the name entry it is given: its memory is gone,
  every other name of the directory and every name of other directories answers as before,
  and the name itself no longer answers when no second entry has it. An entry that is not in
  the list is left alone.\<close>

theorem dc_NERemove_removes:
  assumes inv: "dc_inv ls g" and D: "D \<in> dom (hp_dce (dc_store g))"
  shows "\<exists>g'. dc_NERemove g D a = Some g' \<and> dc_inv (ls(D := remove1 a (ls D))) g' \<and>
     dom (hp_ne (dc_store g')) = dom (hp_ne (dc_store g)) - (if a \<in> set (ls D) then {a} else {}) \<and>
     (\<forall>E\<in>dom (hp_dce (dc_store g)). \<forall>x.
        dc_name g' E x = (if E = D \<and> a \<in> set (ls D) \<and> named (dc_store g) x a
                          then (case find (named (dc_store g) x) (remove1 a (ls D)) of None \<Rightarrow> None
                                | Some b \<Rightarrow> map_option (\<lambda>n. (ne_FType n, ne_FileId n)) (hp_ne (dc_store g) b))
                          else dc_name g E x))"
proof -
  let ?h = "dc_store g" and ?ls = "ls(D := remove1 a (ls D))"
  note n = dc_inv_names [OF inv]
  obtain d where d: "hp_dce ?h D = Some d" using D by auto
  show ?thesis
  proof (cases "a \<in> set (ls D)")
    case False
    then have "dc_NERemove g D a = Some g" using d list_locate_absent [OF names_ok_links [OF n d] False] by (simp add: dc_NERemove_def)
    then show ?thesis using False inv by (simp add: remove1_idem)
  next
    case True
    obtain h2 where r: "dc_NERemove g D a = Some (g\<lparr>dc_store := h2\<rparr>)" "dc_inv ?ls (g\<lparr>dc_store := h2\<rparr>)" "dom (hp_dce h2) = dom (hp_dce ?h)"
      "hp_ne h2 a = None" "\<forall>b. b \<noteq> a \<longrightarrow> same_entry (hp_ne h2 b) (hp_ne ?h b)"
      using dc_NERemove_ok [OF inv D True] by blast
    let ?g = "g\<lparr>dc_store := h2\<rparr>"
    note run = r(1) and inv' = r(2) and dm = r(3)
    note fields = same_entry_fields [OF r(5) [rule_format]]
    have name: "dc_name ?g E x = (if E = D \<and> named ?h x a
        then (case find (named ?h x) (remove1 a (ls D)) of None \<Rightarrow> None
              | Some b \<Rightarrow> map_option (\<lambda>n. (ne_FType n, ne_FileId n)) (hp_ne ?h b))
        else dc_name g E x)" if E: "E \<in> dom (hp_dce ?h)" for E x
    proof -
      have na: "b \<noteq> a" if "b \<in> set (?ls E)" for b
        using that names_okD(3) [OF n] D E True links_distinct [OF names_ok_links [OF n d]] by (cases "E = D") auto
      have f: "find (named h2 x) (?ls E) = find (named ?h x) (?ls E)"
        by (rule find_cong [OF refl]) (use fields(1) na in \<open>simp add: named_def\<close>)
      have "map_option (\<lambda>n. (ne_FType n, ne_FileId n)) (hp_ne h2 b) = map_option (\<lambda>n. (ne_FType n, ne_FileId n)) (hp_ne ?h b)"
        if "find (named ?h x) (?ls E) = Some b" for b
      proof (rule fields(3))
        show "b \<noteq> a" by (rule na) (metis that find_Some_iff nth_mem)
      qed
      then have name: "dc_name ?g E x = (case find (named ?h x) (?ls E) of None \<Rightarrow> None
          | Some b \<Rightarrow> map_option (\<lambda>n. (ne_FType n, ne_FileId n)) (hp_ne ?h b))"
        using dc_name_eq [OF inv', of E x] E dm f by (simp split: option.split)
      have "find (named ?h x) (?ls E) = find (named ?h x) (ls E)" if "\<not> (E = D \<and> named ?h x a)"
        using that find_remove1_other [of "named ?h x" a] by (cases "E = D") auto
      then show ?thesis using name dc_name_eq [OF inv E, of x] by (cases "E = D \<and> named ?h x a") auto
    qed
    have "b \<in> dom (hp_ne h2) \<longleftrightarrow> b \<in> dom (hp_ne ?h) - {a}" for b
      using fields(4) [of b] by (cases "b = a") (simp_all add: r(4) domIff)
    then have "dom (hp_ne h2) = dom (hp_ne ?h) - {a}" by blast
    then show ?thesis using run inv' True name by (intro exI [of _ ?g]) simp
  qed
qed

theorem dc_NERemove_removes_witness:
  "\<exists>g' ls. dc_NERemove one_dir 200 300 = Some g' \<and> dc_inv ls g'"
proof -
  have "200 \<in> dom (hp_dce (dc_store one_dir))" using one_dir_ok(2) by auto
  from dc_NERemove_removes [OF one_dir_ok(1) this, of 300] show ?thesis by blast
qed

subsection \<open>Unlocking and cleaning up\<close>

text \<open>C31. Memory of the directory cache: \<open>dc_UnLockAll\<close> returns and leaves at most
  \<open>tht_MaxEntries\<close> entries and nothing locked; the directory entries in use afterwards are exactly
  those in the table, the name entries in use exactly those in their lists. \<open>dc_Cleanup\<close> then
  gives all of both back.\<close>

theorem dc_UnLockAll_memory:
  assumes inv: "dc_inv ls g"
  shows "\<exists>g'. dc_UnLockAll now g = Some g' \<and> dc_inv ls g' \<and> tht_LockCnt (g_DirCache g') = 0 \<and>
     tht_NumEntries (g_DirCache g') \<le> tht_MaxEntries (g_DirCache g) \<and>
     dom (hp_dce (dc_store g')) = the_Val ` live (g_DirCache g') \<and>
     dom (hp_ne (dc_store g')) = (\<Union>d\<in>dom (hp_dce (dc_store g')). set (ls d)) \<and>
     map_le (hp_ne (dc_store g')) (hp_ne (dc_store g)) \<and>
     dc_Cleanup g' = Some \<lparr>hp_dce = \<lambda>_. None, hp_ne = \<lambda>_. None\<rparr>"
proof -
  let ?t = "g_DirCache g" and ?h = "dc_store g"
  have ft: "dce.ft_inv ls ?h ?t ?h {#}" and hs: "hashes_ok ?h" using inv by (auto simp: dc_inv_def)
  have shape: "ft_shape ?t" using ft by (simp add: dce.ft_inv_def)
  have "dce.ft_inv ls ?h (?t\<lparr>tht_MaxEntries := tht_MaxEntries ?t\<rparr>) ?h {#}" using ft by simp
  from dce.UnLockAll_ok [OF this ft_shape_facts(5) [OF shape], of now]
  obtain t' h' where u: "fthash_UnLockAll now ?t ?h = Some (t', h')" "dce.ft_inv ls ?h t' h' {#}"
    "tht_LockCnt t' = 0" "tht_LockedEntries t' = []" "tht_NumEntries t' \<le> tht_MaxEntries ?t" by blast
  let ?g = "\<lparr>g_DirCache = t', dc_store = h'\<rparr>"
  note nm = dce_names [OF u(2)]
  have "hashes_ok h'" unfolding hashes_ok_def
  proof (intro allI impI)
    fix a e assume e: "hp_ne h' a = Some e"
    then have "hp_ne ?h a = Some e" using nm by (metis domI map_le_def)
    then show "ne_Hash e = dc_NEStr2Hash (ne_Name e)" using hs by (simp add: hashes_ok_def)
  qed
  then have inv': "dc_inv ls ?g" using dce_rebase [OF u(2)] by (simp add: dc_inv_def)
  have "dce.owns ls ?h h' (vals (concat (tht_Entries t')))" using u(2,4) by (simp add: dce.ft_inv_def)
  then have "dom (hp_dce h') = set_mset (vals (concat (tht_Entries t')))" by (rule dce.owns_alloc)
  then have dom': "dom (hp_dce h') = the_Val ` live t'" unfolding vals_def live_mset by (simp del: set_mset_mset)
  obtain h2 where h2: "fthash_Delete t' h' = Some h2" "dce.owns ls ?h h2 {#}" using dce.Delete_ok [OF u(2)] by blast
  have "dom (hp_dce h2) = {}" using dce.owns_alloc [OF h2(2)] by simp
  moreover have "names_ok ls h2" using h2(2) by (simp add: dce.owns_def dstore_from_def)
  ultimately have "dom (hp_dce h2) = {}" "dom (hp_ne h2) = {}" using names_okD(4) [of ls h2] by auto
  then have "h2 = \<lparr>hp_dce = \<lambda>_. None, hp_ne = \<lambda>_. None\<rparr>" by (cases h2) (auto simp: dom_def fun_eq_iff)
  then have "dc_Cleanup ?g = Some \<lparr>hp_dce = \<lambda>_. None, hp_ne = \<lambda>_. None\<rparr>" using h2(1) by (simp add: dc_Cleanup_def)
  then show ?thesis using u inv' dom' nm names_okD(4) [of ls h']
    by (intro exI [of _ ?g]) (simp add: dc_UnLockAll_def)
qed

theorem dc_UnLockAll_memory_witness:
  "\<exists>g'. dc_UnLockAll 7 one_dir = Some g' \<and> dc_Cleanup g' = Some \<lparr>hp_dce = \<lambda>_. None, hp_ne = \<lambda>_. None\<rparr>"
  using dc_UnLockAll_memory [OF one_dir_ok(1), of 7] by blast

end
