(* ===== verification/Locate.thy ===== *)
theory Locate
  imports Locks Names NfsCalls AttrCache DirCache
begin

text \<open>
  Finding objects: the path walk through the caches, and the packet actions on locks
  (src/src/lock.c). This theory holds the operations; LocateWalk and LocateLocks hold their
  correctness.

  The handler state joins the global state with both caches. The environment supplies what
  comes from outside: the client stubs, dos.library, the clock and the results of memory
  allocation, each as a function of a counter in the state that every operation advances, so
  that each call sees its own results. A store is passed to the allocator, which lets its
  answer depend on what is in use.
\<close>

record 'srv handler =
  h_g :: "'srv global"
  h_attrs :: attrcache
  h_dirs :: dircache
  g_MntFh :: nfs_fh
  g_MntAttr :: fattr
  g_VolumeName :: string
  dl_Name :: string
  g_MaxFileNameLen :: int
  cr_UID :: u32
  cr_GID :: u32
  cr_UMask :: u32
  g_AttrCacheTimeout :: int
  g_AttrCacheMaxEntries :: int
  g_DirCacheTimeout :: int
  g_DirCacheMaxEntries :: int
  g_State :: u32
  h_tick :: nat

record 'srv env =
  e_nfs :: "'srv nfs_ops"
  e_dos :: dosnames
  e_clk :: "nat \<Rightarrow> u32"
  e_str :: "nat \<Rightarrow> bool"
  e_ace :: "nat \<Rightarrow> ace_store \<Rightarrow> addr \<times> bool"
  e_dce :: "nat \<Rightarrow> (addr \<Rightarrow> dcentry option) \<Rightarrow> addr \<times> bool"
  e_ne :: "nat \<Rightarrow> (addr \<Rightarrow> nentry option) \<Rightarrow> addr \<times> bool"
  e_lock :: "nat \<Rightarrow> (addr \<Rightarrow> elock option) \<Rightarrow> addr \<times> bool"
  e_dh :: "nat \<Rightarrow> (addr \<Rightarrow> edh option) \<Rightarrow> addr"
  e_fh :: "nat \<Rightarrow> (addr \<Rightarrow> efh option) \<Rightarrow> addr"

definition tick :: "nat \<Rightarrow> 'srv handler \<Rightarrow> 'srv handler" where
  "tick n w = w\<lparr>h_tick := h_tick w + n\<rparr>"

definition put_srv :: "'srv \<Rightarrow> 'srv handler \<Rightarrow> 'srv handler" where
  "put_srv s w = w\<lparr>h_g := (h_g w)\<lparr>g_srv := s\<rparr>\<rparr>"

subsection \<open>Cached attributes, names and directories\<close>

definition get_attr ::
  "'srv env \<Rightarrow> u32 \<Rightarrow> nfs_fh \<Rightarrow> int \<Rightarrow> 'srv handler \<Rightarrow> (addr \<times> int \<times> 'srv handler) option" where
  "get_attr env FileId FH Res2 w =
     (let t = h_tick w in
      map_option (\<lambda>(p, r, a, s). (p, r, tick 5 (put_srv s (w\<lparr>h_attrs := a\<rparr>))))
        (c_GetAttr (\<lambda>i. e_clk env (t + i)) (\<lambda>i. e_ace env (t + i) (hp_ace (h_attrs w))) (nfs_GetAttr (e_nfs env))
           (h_attrs w) FileId FH Res2 (g_srv (h_g w))))"

text \<open>\<open>want\<close> tells whether the caller passes \<open>ACEP\<close>; the result is the name entry, the attribute
  entry (meaningful when wanted), and \<open>Res2\<close>.\<close>

definition GetNameEntry ::
  "'srv env \<Rightarrow> addr \<Rightarrow> string \<Rightarrow> bool \<Rightarrow> int \<Rightarrow> 'srv handler \<Rightarrow> (addr \<times> addr \<times> int \<times> 'srv handler) option" where
  "GetNameEntry env ActDir Name want Res2 w0 =
     do {
       let t = h_tick w0; let w = tick 6 w0;
       (NEnt, dc1) \<leftarrow> dc_NELookup (h_dirs w) ActDir Name;
       (A0, a1) \<leftarrow> (if NEnt \<noteq> NULL \<and> want then
                     do {
                       ne \<leftarrow> hp_ne (dc_store dc1) NEnt;
                       attrs_LookupFromFileId (e_clk env t) (h_attrs w) (ne_FileId ne)
                     }
                   else Some (NULL, h_attrs w));
       let w1 = w\<lparr>h_dirs := dc1, h_attrs := a1\<rparr>;
       (if NEnt \<noteq> NULL \<and> (\<not> want \<or> A0 \<noteq> NULL) then Some (NEnt, A0, Res2, w1)
        else do {
          d \<leftarrow> hp_dce (dc_store dc1) ActDir;
          (res, s) \<leftarrow> nfs_Lookup (e_nfs env) (dce_NFSFh d) Name (ng_MaxReadDirSize (g_NFSGlobal (h_g w))) Res2 (g_srv (h_g w));
          let w2 = put_srv s w1;
          (case res of
             Inl e \<Rightarrow> Some (NULL, NULL, e, w2)
           | Inr dr \<Rightarrow>
               do {
                 (ACE, a2) \<leftarrow> attrs_store (\<lambda>i. e_clk env (t + i)) (\<lambda>i. e_ace env (t + i) (hp_ace a1)) a1
                               (dr_file dr) (dr_attributes dr);
                 let w3 = w2\<lparr>h_attrs := a2\<rparr>;
                 (if ACE = NULL then Some (NULL, NULL, ERROR_NO_FREE_STORE, w3)
                  else do {
                    ace \<leftarrow> hp_ace a2 ACE;
                    (NE, dc2) \<leftarrow>
                      (if NEnt = NULL then
                         dc_NECreateAndInsert (e_ne env (t + 5) (hp_ne (dc_store dc1))) dc1 ActDir Name
                           (fa_type (dr_attributes dr)) (ace_FileId ace)
                       else do {
                         ne \<leftarrow> hp_ne (dc_store dc1) NEnt;
                         Some (NEnt, dc1\<lparr>dc_store := (dc_store dc1)\<lparr>hp_ne := (hp_ne (dc_store dc1))(NEnt \<mapsto>
                                 ne\<lparr>ne_FType := fa_type (dr_attributes dr), ne_FileId := ace_FileId ace\<rparr>)\<rparr>\<rparr>)
                       });
                    Some (NE, ACE, if NE = NULL then ERROR_NO_FREE_STORE else Res2, w3\<lparr>h_dirs := dc2\<rparr>)
                  })
               })
        })
     }"

definition GetDirEntry ::
  "'srv env \<Rightarrow> addr \<Rightarrow> u32 \<Rightarrow> nfs_fh \<Rightarrow> int \<Rightarrow> 'srv handler \<Rightarrow> (addr \<times> int \<times> 'srv handler) option" where
  "GetDirEntry env ParName ActDirId0 ActDirFh Res2 w0 =
     do {
       let t = h_tick w0; let w = tick 2 w0;
       ActDirId \<leftarrow> (if ParName \<noteq> NULL then map_option ne_FileId (hp_ne (dc_store (h_dirs w)) ParName) else Some ActDirId0);
       (ActDir, dc1) \<leftarrow> (if ActDirId \<noteq> DCE_ID_UNUSED then dc_DCELookupFromFileId (e_clk env t) (h_dirs w) ActDirId
                        else Some (NULL, h_dirs w));
       let w1 = w\<lparr>h_dirs := dc1\<rparr>;
       (if ActDir \<noteq> NULL then Some (ActDir, Res2, w1)
        else do {
          (ACEnt, r, w2) \<leftarrow> get_attr env ActDirId ActDirFh Res2 w1;
          (if ACEnt = NULL then Some (NULL, r, w2)
           else do {
             ace \<leftarrow> hp_ace (h_attrs w2) ACEnt;
             let (D, dc2) = dc_DCECreateAndInsert (e_dce env (t + 1) (hp_dce (dc_store (h_dirs w2)))) (e_clk env (t + 1))
                              (h_dirs w2) (ace_FileId ace) ActDirFh;
             Some (D, if D = NULL then ERROR_NO_FREE_STORE else r, w2\<lparr>h_dirs := dc2\<rparr>)
           })
        })
     }"

subsection \<open>The path walk\<close>

text \<open>The buffer \<open>WorkPath\<close>, \<open>Pos\<close>, and the directory reached.\<close>

partial_function (option) locate_loop ::
  "'srv env \<Rightarrow> char list \<Rightarrow> nat \<Rightarrow> addr \<Rightarrow> int \<Rightarrow> 'srv handler \<Rightarrow> (addr \<times> int \<times> 'srv handler) option" where
  "locate_loop env WorkPath Pos ParDir Res2 w =
     do {
       (p, WorkPath1, Pos1, LastElement) \<leftarrow> fn_ScanPath WorkPath Pos False;
       (if LastElement \<or> WorkPath1 ! p = SL then Some (ParDir, Res2, w)
        else do {
          (NE, ACE, r1, w1) \<leftarrow> GetNameEntry env ParDir (cstr_of (drop p WorkPath1)) True Res2 w;
          (if NE = NULL then Some (NULL, r1, w1)
           else do {
             ne \<leftarrow> hp_ne (dc_store (h_dirs w1)) NE;
             (if ne_FType ne \<noteq> NFDIR \<and> ne_FType ne \<noteq> NFLNK then Some (NULL, ERROR_INVALID_COMPONENT_NAME, w1)
              else if ne_FType ne = NFLNK then Some (NULL, ERROR_IS_SOFT_LINK, w1)
              else do {
                ace \<leftarrow> hp_ace (h_attrs w1) ACE;
                (D, r2, w2) \<leftarrow> GetDirEntry env NE DCE_ID_UNUSED (ace_NFSFh ace) r1 w1;
                (if D = NULL then Some (NULL, r2, w2) else locate_loop env WorkPath1 Pos1 D r2 w2)
              })
           })
        })
     }"

declare locate_loop.simps [code]

definition RootLocateDir :: "'srv env \<Rightarrow> string \<Rightarrow> int \<Rightarrow> 'srv handler \<Rightarrow> (addr \<times> int \<times> 'srv handler) option" where
  "RootLocateDir env FullName Res2 w0 =
     (let t = h_tick w0; w = tick 1 w0 in
      if \<not> e_str env t then Some (NULL, ERROR_NO_FREE_STORE, w)
      else do {
        (D, r, w1) \<leftarrow> GetDirEntry env NULL (fa_fileid (g_MntAttr w)) (g_MntFh w) Res2 w;
        (if D = NULL then Some (NULL, r, w1)
         else if FullName \<noteq> [] then locate_loop env (FullName @ [NUL]) 0 D r w1
         else Some (D, r, w1))
      })"

subsection \<open>Full names\<close>

text \<open>The result is an error or the full name, the last component with its length, and the Unix
  path. \<open>DirLock\<close> is always NULL.\<close>

definition CBuildFullName ::
  "'srv env \<Rightarrow> addr \<Rightarrow> string \<Rightarrow> 'srv handler \<Rightarrow> (int + string \<times> char list \<times> int \<times> string) option" where
  "CBuildFullName env fl cstr w =
     do {
       let t = h_tick w; let g = h_g w;
       old \<leftarrow> (if fl = NULL then Some (Inr [])
               else do {
                 l \<leftarrow> lock_Lookup fl g;
                 (if l = NULL then Some (Inl ERROR_INVALID_LOCK) else map_option (Inr \<circ> efl_FullName) (hp_elock g l))
               });
       (case old of
          Inl e \<Rightarrow> Some (Inl e)
        | Inr OldFullName \<Rightarrow>
            (case fn_PathWithoutDev (e_str env t) cstr of
               Inl e \<Rightarrow> Some (Inl e)
             | Inr (pathWithoutDev, IsAbsolute) \<Rightarrow>
                 let Old = (if IsAbsolute \<and> pathWithoutDev \<noteq> [] \<and> fl \<noteq> NULL \<and> OldFullName \<noteq> []
                              \<and> strnicmp_eq cstr (g_VolumeName w) (the (strchr cstr COLON)) then [] else OldFullName);
                     u_path = fn_AM2UN (e_str env (t + 1)) pathWithoutDev
                 in (case u_path of
                       None \<Rightarrow> Some (Inl ERROR_NO_FREE_STORE)
                     | Some up \<Rightarrow>
                         (case fn_AddPart (e_dos env) (e_str env (t + 2)) Old pathWithoutDev of
                            None \<Rightarrow> Some (Inl ERROR_NO_FREE_STORE)
                          | Some (s, _) \<Rightarrow>
                              (case fn_PathUnify (e_str env (t + 3)) s of
                                 Inl e \<Rightarrow> Some (Inl e)
                               | Inr (FullName, StrippedDirs) \<Rightarrow>
                                   let up' = (if StrippedDirs then fn_AM2UN (e_str env (t + 4)) FullName else Some up)
                                   in do {
                                     (Name, NameLen) \<leftarrow> fn_FilePart (e_dos env) (\<lambda>i. e_str env (t + 5 + i)) FullName;
                                     Some (if Name \<noteq> None \<and> NameLen > MAX_LONGAMIGAFILENAMELEN
                                           then Inl ERROR_INVALID_COMPONENT_NAME
                                           else (case (up', Name) of
                                                   (Some u, Some n) \<Rightarrow> Inr (FullName, n, NameLen, u)
                                                 | _ \<Rightarrow> Inl ERROR_NO_FREE_STORE))
                                   })))))
     }"

definition BuildFullName ::
  "'srv env \<Rightarrow> addr \<Rightarrow> char list \<Rightarrow> 'srv handler \<Rightarrow> (int + string \<times> char list \<times> int \<times> string) option" where
  "BuildFullName env fl cbstr w =
     do {
       (c, l) \<leftarrow> fn_B2CStr (e_str env (h_tick w)) cbstr;
       (case c of None \<Rightarrow> Some (Inl ERROR_NO_FREE_STORE)
        | Some cs \<Rightarrow> CBuildFullName env fl (cstr_of cs) (tick 1 w))
     }"

definition LRootLocateDir ::
  "'srv env \<Rightarrow> addr \<Rightarrow> char list \<Rightarrow> bool \<Rightarrow> int \<Rightarrow> 'srv handler \<Rightarrow>
     (addr \<times> (string \<times> char list \<times> int) option \<times> int \<times> 'srv handler) option" where
  "LRootLocateDir env fl RelPath IsCString Res2 w0 =
     do {
       let w = tick 8 w0;
       b \<leftarrow> (if IsCString then CBuildFullName env fl RelPath w0 else BuildFullName env fl RelPath w0);
       (case b of
          Inl e \<Rightarrow> Some (NULL, None, e, w)
        | Inr (FullName, Name, NameLen, _) \<Rightarrow>
            do {
              (D, r, w1) \<leftarrow> RootLocateDir env FullName Res2 w;
              Some (D, if D = NULL then None else Some (FullName, Name, NameLen), r, w1)
            })
     }"

subsection \<open>Locking\<close>

definition DupELock ::
  "'srv env \<Rightarrow> addr \<Rightarrow> string \<Rightarrow> string \<Rightarrow> int \<Rightarrow> int \<Rightarrow> 'srv handler \<Rightarrow> (addr \<times> int \<times> 'srv handler) option" where
  "DupELock env OldLock Name FullName Mode Res2 w0 =
     do {
       let t = h_tick w0; let w = tick 1 w0; let g = h_g w;
       busy \<leftarrow> (if OldLock \<noteq> NULL then map_option (\<lambda>o'. fl_Access o' \<noteq> SHARED_LOCK \<or> Mode \<noteq> SHARED_LOCK) (hp_elock g OldLock)
                else Some (Mode \<noteq> SHARED_LOCK));
       (if busy then Some (NULL, ERROR_OBJECT_IN_USE, w)
        else
          let (a, ok) = e_lock env t (hp_elock g); (n, g1) = lock_Create a ok FullName Name NFNON Mode g in
          if n = NULL then Some (NULL, ERROR_NO_FREE_STORE, w)
          else do {
            new \<leftarrow> hp_elock g1 n;
            new' \<leftarrow> (if OldLock \<noteq> NULL then
                       map_option (\<lambda>o'. new\<lparr>efl_NFSFh := efl_NFSFh o', fl_Key := fl_Key o', efl_NFSType := efl_NFSType o'\<rparr>) (hp_elock g1 OldLock)
                     else Some (new\<lparr>efl_NFSFh := g_MntFh w, fl_Key := fa_fileid (g_MntAttr w), efl_NFSType := fa_type (g_MntAttr w)\<rparr>));
            Some (n, Res2, w\<lparr>h_g := g1\<lparr>hp_elock := (hp_elock g1)(n \<mapsto> new')\<rparr>\<rparr>)
          })
     }"

text \<open>The new lock, before its attributes are set: \<open>ace\<close> is the entry of the object if the path
  is not empty, \<open>oldelock\<close> a lock on the same object.\<close>

definition new_elock ::
  "'srv env \<Rightarrow> string \<Rightarrow> string \<Rightarrow> int \<Rightarrow> addr \<Rightarrow> acentry option \<Rightarrow> int \<Rightarrow> 'srv handler \<Rightarrow> (addr \<times> int \<times> 'srv handler) option" where
  "new_elock env FullName Name Mode oldelock ace Res2 w =
     (case (oldelock = NULL, ace) of
        (True, Some a) \<Rightarrow>
          if fa_type (ace_FAttr a) = NFLNK then Some (NULL, ERROR_IS_SOFT_LINK, w)
          else
            let (m, ok) = e_lock env (h_tick w) (hp_elock (h_g w));
                (n, g1) = lock_Create m ok FullName Name (fa_type (ace_FAttr a)) Mode (h_g w)
            in Some (n, if n = NULL then ERROR_NO_FREE_STORE else Res2, tick 1 (w\<lparr>h_g := g1\<rparr>))
      | _ \<Rightarrow> DupELock env oldelock Name FullName Mode Res2 w)"

text \<open>Setting its file handle, type and key; for a new root lock the attributes of the root come
  from the cache or from the server.\<close>

definition elock_set :: "addr \<Rightarrow> nfs_fh \<Rightarrow> fattr \<Rightarrow> 'srv handler \<Rightarrow> 'srv handler option" where
  "elock_set n fh fa w =
     map_option (\<lambda>l. w\<lparr>h_g := (h_g w)\<lparr>hp_elock := (hp_elock (h_g w))(n \<mapsto>
          l\<lparr>efl_NFSFh := fh, efl_NFSType := fa_type fa, fl_Key := fa_fileid fa\<rparr>)\<rparr>\<rparr>)
       (hp_elock (h_g w) n)"

definition root_attr :: "'srv env \<Rightarrow> 'srv handler \<Rightarrow> ((int + fattr) \<times> 'srv handler) option" where
  "root_attr env w =
     do {
       (p, a1) \<leftarrow> attrs_LookupFromFileId (e_clk env (h_tick w)) (h_attrs w) (fa_fileid (g_MntAttr w));
       let w1 = tick 1 (w\<lparr>h_attrs := a1\<rparr>);
       (if p \<noteq> NULL then map_option (\<lambda>a. (Inr (ace_FAttr a), w1)) (hp_ace a1 p)
        else let (r, s) = nfs_GetAttr (e_nfs env) (g_MntFh w1) (g_srv (h_g w1)) in Some (r, put_srv s w1))
     }"

definition lock_finish ::
  "'srv env \<Rightarrow> addr \<Rightarrow> addr \<Rightarrow> acentry option \<Rightarrow> int \<Rightarrow> 'srv handler \<Rightarrow> (addr \<times> int \<times> 'srv handler) option" where
  "lock_finish env n oldelock ace Res2 w =
     do {
       r \<leftarrow> (case ace of
               Some a \<Rightarrow> map_option Inr (elock_set n (ace_NFSFh a) (ace_FAttr a) w)
             | None \<Rightarrow>
                 if oldelock \<noteq> NULL then Some (Inr w)
                 else do {
                   (ra, w1) \<leftarrow> root_attr env w;
                   (case ra of
                      Inl e \<Rightarrow> Some (Inl (e, w1\<lparr>h_g := lock_Delete n (h_g w1)\<rparr>))
                    | Inr fa \<Rightarrow> map_option Inr (elock_set n (g_MntFh w1) fa w1))
                 });
       (case r of
          Inl (e, w1) \<Rightarrow> Some (NULL, e, w1)
        | Inr w1 \<Rightarrow> map_option (\<lambda>g2. (n, Res2, w1\<lparr>h_g := g2\<rparr>)) (lock_Insert n (h_g w1)))
     }"

definition RootLocateAndLock ::
  "'srv env \<Rightarrow> addr \<Rightarrow> string \<Rightarrow> int \<Rightarrow> int \<Rightarrow> 'srv handler \<Rightarrow> (addr \<times> int \<times> 'srv handler) option" where
  "RootLocateAndLock env fl RelPath Mode Res2 w0 =
     (if Mode \<noteq> SHARED_LOCK \<and> Mode \<noteq> EXCLUSIVE_LOCK then Some (NULL, ERROR_REQUIRED_ARG_MISSING, w0)
      else do {
        b \<leftarrow> CBuildFullName env fl RelPath w0;
        let w = tick 7 w0;
        (case b of
           Inl e \<Rightarrow> Some (NULL, e, w)
         | Inr (FullName, NameBuf, _, _) \<Rightarrow>
             do {
               let Name = cstr_of NameBuf;
               (ParDir, r1, w1) \<leftarrow> RootLocateDir env FullName Res2 w;
               (if ParDir = NULL then Some (NULL, r1, w1)
                else if FullName \<noteq> [] then
                  do {
                    (NE, ACE, r2, w2) \<leftarrow> GetNameEntry env ParDir Name True r1 w1;
                    (if NE = NULL then Some (NULL, r2, w2)
                     else do {
                       ace \<leftarrow> hp_ace (h_attrs w2) ACE;
                       old \<leftarrow> lock_LookupFromKey (fa_fileid (ace_FAttr ace)) (h_g w2);
                       (n, r3, w3) \<leftarrow> new_elock env FullName Name Mode old (Some ace) r2 w2;
                       (if n = NULL then Some (NULL, r3, w3) else lock_finish env n old (Some ace) r3 w3)
                     })
                  }
                else do {
                  (n, r3, w3) \<leftarrow> new_elock env FullName Name Mode NULL None r1 w1;
                  (if n = NULL then Some (NULL, r3, w3) else lock_finish env n NULL None r3 w3)
                })
             })
      })"

subsection \<open>The packet actions\<close>

definition h_SetRes :: "int \<Rightarrow> int \<Rightarrow> 'srv handler \<Rightarrow> int \<times> 'srv handler" where
  "h_SetRes r1 r2 w = (r1, w\<lparr>h_g := snd (SetRes r1 r2 (h_g w))\<rparr>)"

definition h_SetRes1 :: "int \<Rightarrow> 'srv handler \<Rightarrow> int \<times> 'srv handler" where
  "h_SetRes1 r1 w = (r1, w\<lparr>h_g := snd (SetRes1 r1 (h_g w))\<rparr>)"

definition act_LOCATE_OBJECT :: "'srv env \<Rightarrow> addr \<Rightarrow> char list \<Rightarrow> int \<Rightarrow> 'srv handler \<Rightarrow> (int \<times> 'srv handler) option" where
  "act_LOCATE_OBJECT env fl cbstr Mode w0 =
     do {
       let w = tick 1 w0;
       (c, l) \<leftarrow> fn_B2CStr (e_str env (h_tick w0)) cbstr;
       (case c of
          None \<Rightarrow> Some (h_SetRes DOSFALSE ERROR_NO_FREE_STORE w)
        | Some Path \<Rightarrow>
            do {
              (n, r, w1) \<leftarrow> RootLocateAndLock env fl (cstr_of Path) Mode 0 w;
              Some (if n \<noteq> NULL then h_SetRes (int n) 0 w1 else h_SetRes DOSFALSE r w1)
            })
     }"

definition act_FREE_LOCK :: "addr \<Rightarrow> 'srv handler \<Rightarrow> (int \<times> 'srv handler) option" where
  "act_FREE_LOCK fl w =
     (if fl = NULL then Some (h_SetRes1 DOSTRUE w)
      else do {
        l \<leftarrow> lock_Lookup fl (h_g w);
        (if l = NULL then Some (h_SetRes DOSFALSE ERROR_INVALID_LOCK w)
         else do {
           (l', g1) \<leftarrow> lock_Remove l (h_g w);
           Some (h_SetRes1 DOSTRUE (w\<lparr>h_g := lock_Delete l' g1\<rparr>))
         })
      })"

definition do_act_COPY_DIR :: "'srv env \<Rightarrow> addr \<Rightarrow> 'srv handler \<Rightarrow> (int \<times> 'srv handler) option" where
  "do_act_COPY_DIR env elock w =
     (if elock = NULL then Some (h_SetRes DOSFALSE ERROR_INVALID_LOCK w)
      else do {
        l \<leftarrow> hp_elock (h_g w) elock;
        (if fl_Access l \<noteq> SHARED_LOCK then Some (h_SetRes DOSFALSE ERROR_OBJECT_IN_USE w)
         else do {
           let (a, ok) = e_lock env (h_tick w) (hp_elock (h_g w));
           (nel, g1) \<leftarrow> lock_Dup a ok elock (h_g w);
           (if nel = NULL then Some (h_SetRes DOSFALSE ERROR_NO_FREE_STORE (tick 1 (w\<lparr>h_g := g1\<rparr>)))
            else map_option (\<lambda>g2. h_SetRes1 (int nel) (tick 1 (w\<lparr>h_g := g2\<rparr>))) (lock_Insert nel g1))
         })
      })"

definition act_COPY_DIR :: "'srv env \<Rightarrow> addr \<Rightarrow> 'srv handler \<Rightarrow> (int \<times> 'srv handler) option" where
  "act_COPY_DIR env fl w =
     (if fl = NULL then Some (h_SetRes 0 0 w)
      else Option.bind (lock_Lookup fl (h_g w)) (\<lambda>l. do_act_COPY_DIR env l w))"

definition do_act_PARENT :: "'srv env \<Rightarrow> addr \<Rightarrow> 'srv handler \<Rightarrow> (int \<times> 'srv handler) option" where
  "do_act_PARENT env oldelock w0 =
     (if oldelock = NULL then Some (h_SetRes DOSFALSE ERROR_INVALID_LOCK w0)
      else do {
        l \<leftarrow> hp_elock (h_g w0) oldelock;
        (if efl_FullName l = [] \<or> last (efl_FullName l) = COLON then Some (h_SetRes 0 0 w0)
         else
           let w = tick 1 w0 in
           (case fst (fn_PathPart (e_dos env) (e_str env (h_tick w0)) (efl_FullName l)) of
              None \<Rightarrow> Some (h_SetRes DOSFALSE ERROR_NO_FREE_STORE w)
            | Some DirName \<Rightarrow>
                do {
                  (n, r, w1) \<leftarrow> RootLocateAndLock env NULL DirName SHARED_LOCK 0 w;
                  Some (if n \<noteq> NULL then h_SetRes (int n) 0 w1 else h_SetRes DOSFALSE r w1)
                }))
      })"

definition act_PARENT :: "'srv env \<Rightarrow> addr \<Rightarrow> 'srv handler \<Rightarrow> (int \<times> 'srv handler) option" where
  "act_PARENT env fl w = Option.bind (lock_Lookup fl (h_g w)) (\<lambda>l. do_act_PARENT env l w)"

definition act_SAME_LOCK :: "addr \<Rightarrow> addr \<Rightarrow> 'srv handler \<Rightarrow> (int \<times> 'srv handler) option" where
  "act_SAME_LOCK fl1 fl2 w =
     do {
       efl1 \<leftarrow> lock_Lookup fl1 (h_g w);
       efl2 \<leftarrow> lock_Lookup fl2 (h_g w);
       (if efl1 = NULL \<or> efl2 = NULL then Some (h_SetRes DOSFALSE 0 w)
        else do {
          l1 \<leftarrow> hp_elock (h_g w) efl1;
          l2 \<leftarrow> hp_elock (h_g w) efl2;
          Some (if fl_Key l1 = fl_Key l2 then h_SetRes DOSTRUE 0 w else h_SetRes DOSFALSE 0 w)
        })
     }"

end
