(* ===== verification/LocateWalk.thy ===== *)
theory LocateWalk
  imports Locate
begin

text \<open>
  The path walk through the caches is the walk on the server. The reference is a tree: which
  object a name in a directory stands for, and the handle and attributes of each file id. While
  the server does not change, the caches stay coherent with it, and \<open>RootLocateDir\<close> ends,
  touches allocated memory only, and reaches the directory that the server's own names lead
  to, or reports why there is none.
\<close>

subsection \<open>The server's tree\<close>

record tree =
  t_obj :: "u32 \<Rightarrow> (nfs_fh \<times> fattr) option"
  t_look :: "nfs_fh \<Rightarrow> string \<Rightarrow> (nfs_fh \<times> fattr) option"

definition tree_ok :: "tree \<Rightarrow> bool" where
  "tree_ok T \<longleftrightarrow> (\<forall>fh nm f a. t_look T fh nm = Some (f, a) \<longrightarrow> t_obj T (fa_fileid a) = Some (f, a)) \<and>
     (\<forall>k f a. t_obj T k = Some (f, a) \<longrightarrow> fa_fileid a = k)"

text \<open>The name in a directory that AmigaDOS means: the exact one, else one that differs in case.\<close>

definition nc_find :: "entry list \<Rightarrow> string \<Rightarrow> string option" where
  "nc_find es nm = (if nm \<in> en_name ` set es then Some nm else map_option en_name (find (nc_match nm) es))"

text \<open>A server that shows the tree \<open>T\<close> in the state \<open>s\<close>: there are states, \<open>s\<close> among them, in which it
  answers LOOKUP, READDIR and GETATTR from \<open>T\<close> and which these calls do not leave. The other
  calls, which change objects, may lead anywhere.\<close>

definition static_server :: "'srv nfs_ops \<Rightarrow> tree \<Rightarrow> 'srv \<Rightarrow> bool" where
  "static_server ops T s \<longleftrightarrow>
     (\<exists>R ents pos res. R s \<and> dir_server ops R ents pos \<and> lookup_server ops R ents res \<and>
        (\<forall>fh. \<forall>en\<in>set (ents fh). length (en_name en) < 255) \<and>
        (\<forall>fh nm. t_look T fh nm = map_option (\<lambda>n. (dr_file (res fh n), dr_attributes (res fh n))) (nc_find (ents fh) nm)) \<and>
        (\<forall>k f a s. R s \<longrightarrow> t_obj T k = Some (f, a) \<longrightarrow> (\<exists>s'. nfsproc_getattr_2 ops f s = (Inr (NFS_OK, a), s') \<and> R s')))"

lemma static_lookup:
  assumes "static_server ops T s"
  shows "\<exists>s'. nfs_Lookup ops fh nm M Rs s =
     Some (case t_look T fh nm of None \<Rightarrow> Inl ERROR_OBJECT_NOT_FOUND
           | Some (f, a) \<Rightarrow> Inr \<lparr>dr_file = f, dr_attributes = a\<rparr>, s') \<and> static_server ops T s'"
proof -
  obtain R ents pos res where e: "R s" "dir_server ops R ents pos" "lookup_server ops R ents res"
     "\<forall>fh. \<forall>en\<in>set (ents fh). length (en_name en) < 255"
     "\<forall>fh nm. t_look T fh nm = map_option (\<lambda>n. (dr_file (res fh n), dr_attributes (res fh n))) (nc_find (ents fh) nm)"
     "\<forall>k f a s. R s \<longrightarrow> t_obj T k = Some (f, a) \<longrightarrow> (\<exists>s'. nfsproc_getattr_2 ops f s = (Inr (NFS_OK, a), s') \<and> R s')"
    using assms unfolding static_server_def by blast
  have stat: "static_server ops T s'" if "R s'" for s' unfolding static_server_def using that e(2-6) by blast
  obtain s' where l: "R s'" "nfs_Lookup ops fh nm M Rs s =
     (if nm \<in> en_name ` set (ents fh) then Some (Inr (res fh nm), s')
      else (case find (nc_match nm) (ents fh) of
              None \<Rightarrow> Some (Inl ERROR_OBJECT_NOT_FOUND, s')
            | Some en \<Rightarrow> if length (en_name en) \<ge> 255 then None else Some (Inr (res fh (en_name en)), s')))"
    using nfs_Lookup_spec [OF e(2,3,1)] by blast
  have sh: "\<not> length (en_name en) \<ge> 255" if "find (nc_match nm) (ents fh) = Some en" for en
  proof -
    have "en \<in> set (ents fh)" using that by (metis find_Some_iff nth_mem)
    then show ?thesis using e(4) by (auto simp: not_le)
  qed
  have "nfs_Lookup ops fh nm M Rs s =
     Some (case nc_find (ents fh) nm of None \<Rightarrow> Inl ERROR_OBJECT_NOT_FOUND | Some n \<Rightarrow> Inr (res fh n), s')"
    unfolding l(2) nc_find_def using sh by (auto split: option.splits)
  then show ?thesis using stat [OF l(1)] e(5) by (auto split: option.splits)
qed

lemma static_getattr:
  assumes "static_server ops T s" and "t_obj T k = Some (f, a)"
  shows "\<exists>s'. nfs_GetAttr ops f s = (Inr a, s') \<and> static_server ops T s'"
proof -
  obtain R ents pos res where e: "R s" "dir_server ops R ents pos" "lookup_server ops R ents res"
     "\<forall>fh. \<forall>en\<in>set (ents fh). length (en_name en) < 255"
     "\<forall>fh nm. t_look T fh nm = map_option (\<lambda>n. (dr_file (res fh n), dr_attributes (res fh n))) (nc_find (ents fh) nm)"
     "\<forall>k f a s. R s \<longrightarrow> t_obj T k = Some (f, a) \<longrightarrow> (\<exists>s'. nfsproc_getattr_2 ops f s = (Inr (NFS_OK, a), s') \<and> R s')"
    using assms(1) unfolding static_server_def by blast
  obtain s' where "nfsproc_getattr_2 ops f s = (Inr (NFS_OK, a), s')" "R s'" using e(1,6) assms(2) by blast
  moreover from this(2) have "static_server ops T s'" unfolding static_server_def using e(2-6) by blast
  ultimately show ?thesis by (simp add: nfs_GetAttr_def nfs_reply_def)
qed

subsection \<open>Coherent caches\<close>

definition attrs_coh :: "tree \<Rightarrow> attrcache \<Rightarrow> bool" where
  "attrs_coh T ac \<longleftrightarrow> ac_inv ac \<and> (\<forall>p a. hp_ace ac p = Some a \<longrightarrow> t_obj T (ace_FileId a) = Some (ace_NFSFh a, ace_FAttr a))"

text \<open>No directory has two entries with one name.\<close>

definition names_once :: "(addr \<Rightarrow> addr list) \<Rightarrow> dstore \<Rightarrow> bool" where
  "names_once ls h \<longleftrightarrow> (\<forall>D x y. D \<in> dom (hp_dce h) \<longrightarrow> x \<in> set (ls D) \<longrightarrow> y \<in> set (ls D) \<longrightarrow>
     map_option ne_Name (hp_ne h x) = map_option ne_Name (hp_ne h y) \<longrightarrow> x = y)"

definition dirs_coh :: "tree \<Rightarrow> (addr \<Rightarrow> addr list) \<Rightarrow> dircache \<Rightarrow> bool" where
  "dirs_coh T ls dc \<longleftrightarrow> dc_inv ls dc \<and> keys_ok dc \<and> names_once ls (dc_store dc) \<and>
     (\<forall>D d. hp_dce (dc_store dc) D = Some d \<longrightarrow> (\<exists>a. t_obj T (dce_FileId d) = Some (dce_NFSFh d, a)) \<and>
        (\<forall>x n. x \<in> set (ls D) \<longrightarrow> hp_ne (dc_store dc) x = Some n \<longrightarrow>
           (\<exists>f a. t_look T (dce_NFSFh d) (ne_Name n) = Some (f, a) \<and> fa_type a = ne_FType n \<and> fa_fileid a = ne_FileId n)))"

text \<open>An environment never hands out memory in use; it may refuse.\<close>

definition env_ok :: "'srv env \<Rightarrow> bool" where
  "env_ok env \<longleftrightarrow> (\<forall>n h. fst (e_ace env n h) \<noteq> NULL \<longrightarrow> fst (e_ace env n h) \<notin> dom h) \<and>
     (\<forall>n h. fst (e_dce env n h) \<noteq> NULL \<longrightarrow> fst (e_dce env n h) \<notin> dom h) \<and>
     (\<forall>n h. fst (e_ne env n h) \<noteq> NULL \<longrightarrow> fst (e_ne env n h) \<notin> dom h) \<and>
     (\<forall>n h. fst (e_lock env n h) \<noteq> NULL \<longrightarrow> fst (e_lock env n h) \<notin> dom h) \<and>
     (\<forall>n h. e_dh env n h \<noteq> NULL \<longrightarrow> e_dh env n h \<notin> dom h) \<and> (\<forall>n h. e_fh env n h \<noteq> NULL \<longrightarrow> e_fh env n h \<notin> dom h)"

text \<open>What the caches know is true of \<open>T\<close>; and the same with a server that shows \<open>T\<close> now.\<close>

definition caches_ok :: "'srv env \<Rightarrow> tree \<Rightarrow> (addr \<Rightarrow> addr list) \<Rightarrow> 'srv handler \<Rightarrow> bool" where
  "caches_ok env T ls w \<longleftrightarrow> env_ok env \<and> tree_ok T \<and>
     attrs_coh T (h_attrs w) \<and> dirs_coh T ls (h_dirs w) \<and> (\<exists>a. t_obj T (fa_fileid (g_MntAttr w)) = Some (g_MntFh w, a))"

definition walk_inv :: "'srv env \<Rightarrow> tree \<Rightarrow> (addr \<Rightarrow> addr list) \<Rightarrow> 'srv handler \<Rightarrow> bool" where
  "walk_inv env T ls w \<longleftrightarrow> env_ok env \<and> tree_ok T \<and> static_server (e_nfs env) T (g_srv (h_g w)) \<and>
     attrs_coh T (h_attrs w) \<and> dirs_coh T ls (h_dirs w) \<and> (\<exists>a. t_obj T (fa_fileid (g_MntAttr w)) = Some (g_MntFh w, a))"

lemma walk_inv_caches: "walk_inv env T ls w \<longleftrightarrow> caches_ok env T ls w \<and> static_server (e_nfs env) T (g_srv (h_g w))"
  by (auto simp: walk_inv_def caches_ok_def)

text \<open>What the walk leaves alone.\<close>

definition walk_same :: "'srv handler \<Rightarrow> 'srv handler \<Rightarrow> bool" where
  "walk_same w w' \<longleftrightarrow> g_MntFh w' = g_MntFh w \<and> g_MntAttr w' = g_MntAttr w \<and> g_VolumeName w' = g_VolumeName w \<and>
     (\<exists>s. h_g w' = (h_g w)\<lparr>g_srv := s\<rparr>)"

lemma walk_same_refl [simp]: "walk_same w w"
  unfolding walk_same_def by (auto intro: exI [of _ "g_srv (h_g w)"])

lemma walk_same_trans [trans]: "walk_same w w' \<Longrightarrow> walk_same w' w'' \<Longrightarrow> walk_same w w''"
  unfolding walk_same_def by auto

lemma walk_same_put:
  "walk_same w (put_srv s w') = walk_same w w'"
proof
  assume "walk_same w (put_srv s w')"
  then obtain s0 where "(h_g w')\<lparr>g_srv := s\<rparr> = (h_g w)\<lparr>g_srv := s0\<rparr>" "g_MntFh w' = g_MntFh w" "g_MntAttr w' = g_MntAttr w"
      "g_VolumeName w' = g_VolumeName w"
    unfolding walk_same_def put_srv_def by auto
  moreover from this(1) have "h_g w' = (h_g w)\<lparr>g_srv := g_srv (h_g w')\<rparr>" by (cases "h_g w'"; cases "h_g w") simp
  ultimately show "walk_same w w'" unfolding walk_same_def by blast
next
  assume "walk_same w w'"
  then show "walk_same w (put_srv s w')" unfolding walk_same_def put_srv_def by (auto intro!: exI [of _ s])
qed

lemma walk_same_upd [simp]:
  "walk_same w (tick n w') = walk_same w w'" "walk_same w (put_srv s w') = walk_same w w'"
  "walk_same w (w'\<lparr>h_attrs := a\<rparr>) = walk_same w w'" "walk_same w (w'\<lparr>h_dirs := d\<rparr>) = walk_same w w'"
proof -
  show "walk_same w (put_srv s w') = walk_same w w'" by (rule walk_same_put)
qed (simp_all add: walk_same_def tick_def)

lemma handler_upd [simp]:
  "h_attrs (tick n w) = h_attrs w" "h_dirs (tick n w) = h_dirs w" "h_g (tick n w) = h_g w"
  "g_MntFh (tick n w) = g_MntFh w" "g_MntAttr (tick n w) = g_MntAttr w"
  "h_attrs (put_srv s w) = h_attrs w" "h_dirs (put_srv s w) = h_dirs w"
  "g_MntFh (put_srv s w) = g_MntFh w" "g_MntAttr (put_srv s w) = g_MntAttr w"
  "h_g (put_srv s w) = (h_g w)\<lparr>g_srv := s\<rparr>" "h_tick (put_srv s w) = h_tick w"
  by (simp_all add: tick_def put_srv_def)

lemma walk_inv_tick [simp]: "walk_inv env T ls (tick n w) = walk_inv env T ls w"
  by (simp add: walk_inv_def)

lemma dirs_cohD:
  assumes "dirs_coh T ls dc" and "hp_dce (dc_store dc) D = Some d"
  shows "\<exists>a. t_obj T (dce_FileId d) = Some (dce_NFSFh d, a)"
    and "x \<in> set (ls D) \<Longrightarrow> hp_ne (dc_store dc) x = Some n \<Longrightarrow>
      \<exists>f a. t_look T (dce_NFSFh d) (ne_Name n) = Some (f, a) \<and> fa_type a = ne_FType n \<and> fa_fileid a = ne_FileId n"
  using assms unfolding dirs_coh_def by blast+

lemma attrs_coh_store:
  assumes coh: "attrs_coh T ac" and obj: "t_obj T (fa_fileid fa) = Some (fh, fa)"
    and new: "fst (mem 0) \<notin> dom (hp_ace ac)" "fst (mem 1) \<notin> dom (hp_ace ac)"
  shows "\<exists>p ac'. attrs_store clk mem ac fh fa = Some (p, ac') \<and> attrs_coh T ac' \<and>
    (p \<noteq> NULL \<longrightarrow> hp_ace ac' p = Some \<lparr>ace_FileId = fa_fileid fa, ace_NFSFh = fh, ace_FAttr = fa\<rparr>)"
proof -
  have inv: "ac_inv ac" using coh by (simp add: attrs_coh_def)
  obtain p ac' where s: "attrs_store clk mem ac fh fa = Some (p, ac')" "ac_inv ac'"
     "p \<noteq> NULL \<longrightarrow> hp_ace ac' p = Some \<lparr>ace_FileId = fa_fileid fa, ace_NFSFh = fh, ace_FAttr = fa\<rparr>"
     "\<forall>q a. hp_ace ac' q = Some a \<longrightarrow> hp_ace ac q = Some a \<or> a = \<lparr>ace_FileId = fa_fileid fa, ace_NFSFh = fh, ace_FAttr = fa\<rparr>"
    using attrs_store_ok [OF inv new, where fa = fa and fh = fh and clk = clk] by blast
  have "attrs_coh T ac'" unfolding attrs_coh_def
  proof (intro conjI allI impI)
    show "ac_inv ac'" by (rule s(2))
    fix q a assume "hp_ace ac' q = Some a"
    then have "hp_ace ac q = Some a \<or> a = \<lparr>ace_FileId = fa_fileid fa, ace_NFSFh = fh, ace_FAttr = fa\<rparr>" using s(4) by blast
    then show "t_obj T (ace_FileId a) = Some (ace_NFSFh a, ace_FAttr a)" using coh obj unfolding attrs_coh_def by auto
  qed
  then show ?thesis using s by blast
qed

lemma attrs_coh_lookup:
  assumes coh: "attrs_coh T ac"
  shows "\<exists>p ac'. attrs_LookupFromFileId now ac k = Some (p, ac') \<and> attrs_coh T ac' \<and> dom (hp_ace ac') \<subseteq> dom (hp_ace ac) \<and>
    (p \<noteq> NULL \<longrightarrow> (\<exists>f a. t_obj T k = Some (f, a) \<and> hp_ace ac' p = Some \<lparr>ace_FileId = k, ace_NFSFh = f, ace_FAttr = a\<rparr>))"
proof -
  have inv: "ac_inv ac" using coh by (simp add: attrs_coh_def)
  obtain p ac' where l: "attrs_LookupFromFileId now ac k = Some (p, ac')" "ac_inv ac'" using attrs_Lookup_ok [OF inv, of now k] by blast
  note st = attrs_Lookup_store [OF inv l(1)]
  have coh': "attrs_coh T ac'" using l(2) st(1) coh unfolding attrs_coh_def by blast
  have "\<exists>f a. t_obj T k = Some (f, a) \<and> hp_ace ac' p = Some \<lparr>ace_FileId = k, ace_NFSFh = f, ace_FAttr = a\<rparr>" if p: "p \<noteq> NULL"
  proof -
    obtain a where a: "hp_ace ac' p = Some a" "ace_FileId a = k" using st(3) [OF p] by blast
    then have "t_obj T k = Some (ace_NFSFh a, ace_FAttr a)" using coh' unfolding attrs_coh_def by blast
    then show ?thesis using a by (intro exI [of _ "ace_NFSFh a"] exI [of _ "ace_FAttr a"]) simp
  qed
  then show ?thesis using l(1) coh' st(2) by blast
qed

lemma attrs_coh_NULL: "attrs_coh T ac \<Longrightarrow> NULL \<notin> dom (hp_ace ac)"
  unfolding attrs_coh_def ac_inv_def ace.ft_inv_def ace.owns_def ace_from_def by blast

lemma dirs_coh_NULL:
  assumes "dirs_coh T ls dc"
  shows "NULL \<notin> dom (hp_dce (dc_store dc))" "NULL \<notin> dom (hp_ne (dc_store dc))"
proof -
  have n: "names_ok ls (dc_store dc)" using assms dc_inv_names unfolding dirs_coh_def by blast
  show "NULL \<notin> dom (hp_dce (dc_store dc))" by (rule names_okD(2) [OF n])
  have "NULL \<notin> set (ls a)" if a: "a \<in> dom (hp_dce (dc_store dc))" for a
  proof -
    obtain d where "hp_dce (dc_store dc) a = Some d" using a by blast
    then show ?thesis using links_not_NULL [OF names_ok_links [OF n]] by blast
  qed
  then show "NULL \<notin> dom (hp_ne (dc_store dc))" using names_okD(4) [OF n] by blast
qed

lemma env_okD:
  assumes "env_ok env"
  shows "NULL \<notin> dom ma \<Longrightarrow> fst (e_ace env n ma) \<notin> dom ma" "NULL \<notin> dom md \<Longrightarrow> fst (e_dce env n md) \<notin> dom md"
    "NULL \<notin> dom mn \<Longrightarrow> fst (e_ne env n mn) \<notin> dom mn" "NULL \<notin> dom ml \<Longrightarrow> fst (e_lock env n ml) \<notin> dom ml"
  using assms unfolding env_ok_def by metis+

text \<open>Attributes, from the cache or from the server:\<close>

lemma get_attr_ok:
  assumes inv: "walk_inv env T ls w" and obj: "t_obj T k = Some (fh, a)" and id: "FileId \<noteq> 0 \<Longrightarrow> FileId = k"
  shows "\<exists>p r w'. get_attr env FileId fh Res2 w = Some (p, r, w') \<and> walk_inv env T ls w' \<and> walk_same w w' \<and> h_dirs w' = h_dirs w \<and>
    (if p = NULL then r = ERROR_NO_FREE_STORE
     else r = Res2 \<and> hp_ace (h_attrs w') p = Some \<lparr>ace_FileId = k, ace_NFSFh = fh, ace_FAttr = a\<rparr>)"
proof -
  note d = inv [unfolded walk_inv_def]
  let ?clk = "\<lambda>i. e_clk env (h_tick w + i)" and ?mem = "\<lambda>i. e_ace env (h_tick w + i) (hp_ace (h_attrs w))"
  have fa: "fa_fileid a = k" using d obj unfolding tree_ok_def by blast
  have ss: "static_server (e_nfs env) T (g_srv (h_g w))" using d by blast
  obtain s' where ga: "nfs_GetAttr (e_nfs env) fh (g_srv (h_g w)) = (Inr a, s')" "static_server (e_nfs env) T s'"
    using static_getattr [OF ss obj] by blast
  have fresh: "fst (?mem 0) \<notin> dom (hp_ace (h_attrs w))" "fst (?mem 1) \<notin> dom (hp_ace (h_attrs w))" 
    by (intro env_okD(1) attrs_coh_NULL; use d in blast)+
  obtain p0 ac0 where l: "(if FileId \<noteq> 0 then attrs_LookupFromFileId (?clk 0) (h_attrs w) FileId else Some (NULL, h_attrs w)) = Some (p0, ac0)"
     "attrs_coh T ac0" "dom (hp_ace ac0) \<subseteq> dom (hp_ace (h_attrs w))"
     "p0 \<noteq> NULL \<longrightarrow> hp_ace ac0 p0 = Some \<lparr>ace_FileId = k, ace_NFSFh = fh, ace_FAttr = a\<rparr>"
  proof (cases "FileId = 0")
    case True
    then show ?thesis using that [of NULL "h_attrs w"] d by simp
  next
    case False
    have "attrs_coh T (h_attrs w)" using d by blast
    from attrs_coh_lookup [OF this, of "?clk 0" k] obtain p0 ac0 where "attrs_LookupFromFileId (?clk 0) (h_attrs w) k = Some (p0, ac0)"
      "attrs_coh T ac0" "dom (hp_ace ac0) \<subseteq> dom (hp_ace (h_attrs w))"
      "p0 \<noteq> NULL \<longrightarrow> (\<exists>f a. t_obj T k = Some (f, a) \<and> hp_ace ac0 p0 = Some \<lparr>ace_FileId = k, ace_NFSFh = f, ace_FAttr = a\<rparr>)" by blast
    then show ?thesis using that [of p0 ac0] id [OF False] False obj by auto
  qed
  have fresh0: "fst (?mem 0) \<notin> dom (hp_ace ac0)" "fst (?mem 1) \<notin> dom (hp_ace ac0)" using fresh l(3) by blast+
  have obj': "t_obj T (fa_fileid a) = Some (fh, a)" using obj fa by simp
  obtain p ac' where st: "attrs_store ?clk ?mem ac0 fh a = Some (p, ac')" "attrs_coh T ac'"
     "p \<noteq> NULL \<longrightarrow> hp_ace ac' p = Some \<lparr>ace_FileId = fa_fileid a, ace_NFSFh = fh, ace_FAttr = a\<rparr>"
    using attrs_coh_store [where mem = ?mem and clk = ?clk, OF l(2) obj' fresh0] by blast
  have keep: "walk_inv env T ls (tick 5 (put_srv s (w\<lparr>h_attrs := ac\<rparr>)))" if "attrs_coh T ac" "static_server (e_nfs env) T s" for ac s
    using d that by (simp add: walk_inv_def)
  show ?thesis
  proof (cases "p0 = NULL")
    case True
    then have "get_attr env FileId fh Res2 w = Some (p, if p = NULL then ERROR_NO_FREE_STORE else Res2, tick 5 (put_srv s' (w\<lparr>h_attrs := ac'\<rparr>)))"
      using l(1) ga(1) st(1) by (simp add: get_attr_def c_GetAttr_def Let_def)
    then show ?thesis using keep [OF st(2) ga(2)] st(3) fa by simp
  next
    case False
    then have "get_attr env FileId fh Res2 w = Some (p0, Res2, tick 5 (put_srv (g_srv (h_g w)) (w\<lparr>h_attrs := ac0\<rparr>)))"
      using l(1) by (simp add: get_attr_def c_GetAttr_def Let_def)
    then show ?thesis using keep [OF l(2) ss] l(4) False by simp
  qed
qed

subsection \<open>Name entries\<close>

lemma dc_inv_lock: "dc_inv ls dc \<Longrightarrow> dc_inv ls (dc\<lparr>g_DirCache := fthash_Lock (g_DirCache dc)\<rparr>)"
  unfolding dc_inv_def by (simp add: dce_ft_inv_lock)

lemma live_lock [simp]: "live (fthash_Lock t) = live t" "tht_KeyCmp (fthash_Lock t) = tht_KeyCmp t"
  by (simp_all add: live_def fthash_Lock_def)

lemma dirs_coh_lock: "dirs_coh T ls dc \<Longrightarrow> dirs_coh T ls (dc\<lparr>g_DirCache := fthash_Lock (g_DirCache dc)\<rparr>)"
  unfolding dirs_coh_def by (simp add: dc_inv_lock keys_ok_def)

lemma dirs_coh_NELookup:
  assumes coh: "dirs_coh T ls dc" and d: "hp_dce (dc_store dc) D = Some d"
  shows "\<exists>p dc'. dc_NELookup dc D nm = Some (p, dc') \<and> dirs_coh T ls dc' \<and> dc_store dc' = dc_store dc \<and>
    (p \<noteq> NULL \<longrightarrow> (\<exists>n f a. hp_ne (dc_store dc) p = Some n \<and> t_look T (dce_NFSFh d) nm = Some (f, a) \<and>
       fa_type a = ne_FType n \<and> fa_fileid a = ne_FileId n)) \<and>
    (if p = NULL then \<forall>x\<in>set (ls D). \<not> named (dc_store dc) nm x else p \<in> set (ls D) \<and> named (dc_store dc) nm p)"
proof -
  have inv: "dc_inv ls dc" using coh by (simp add: dirs_coh_def)
  have nn: "x \<noteq> NULL" if "x \<in> set (ls D)" for x
    using that links_not_NULL [OF names_ok_links [OF dc_inv_names [OF inv] d]] by metis
  note eq = dc_NELookup_eq [OF inv domI [of "hp_dce (dc_store dc)", OF d], of nm]
  show ?thesis
  proof (cases "find (named (dc_store dc) nm) (ls D)")
    case None
    then have "\<forall>x\<in>set (ls D). \<not> named (dc_store dc) nm x" by (simp add: find_None_iff)
    then show ?thesis using eq coh None by simp
  next
    case (Some x)
    have x: "x \<in> set (ls D)" "named (dc_store dc) nm x" using Some by (auto simp: find_Some_iff)
    then obtain n where n: "hp_ne (dc_store dc) x = Some n" "ne_Name n = nm" by (auto simp: named_def)
    show ?thesis using eq Some dirs_coh_lock [OF coh] n dirs_cohD(2) [OF coh d x(1) n(1)] nn [OF x(1)] x by auto
  qed
qed

lemma dirs_coh_NECreate:
  assumes coh: "dirs_coh T ls dc" and d: "hp_dce (dc_store dc) D = Some d" and look: "t_look T (dce_NFSFh d) nm = Some (f, a)"
    and new: "fst mem \<notin> dom (hp_ne (dc_store dc))" and once: "\<forall>x\<in>set (ls D). \<not> named (dc_store dc) nm x"
  shows "\<exists>p dc' ls'. dc_NECreateAndInsert mem dc D nm (fa_type a) (fa_fileid a) = Some (p, dc') \<and> dirs_coh T ls' dc' \<and>
    (\<exists>d'. hp_dce (dc_store dc') D = Some d' \<and> dce_NFSFh d' = dce_NFSFh d) \<and>
    (p \<noteq> NULL \<longrightarrow> p \<in> set (ls' D) \<and> (\<exists>n. hp_ne (dc_store dc') p = Some n \<and> ne_Name n = nm \<and> ne_FType n = fa_type a \<and> ne_FileId n = fa_fileid a))"
proof (cases "fst mem = NULL \<or> \<not> snd mem")
  case True
  then show ?thesis using coh d by (auto simp: dc_NECreateAndInsert_def split: prod.split)
next
  case False
  obtain ent where m: "mem = (ent, True)" and ent: "ent \<noteq> NULL" "ent \<notin> dom (hp_ne (dc_store dc))" using False new by (cases mem) auto
  have inv: "dc_inv ls dc" using coh by (simp add: dirs_coh_def)
  let ?n = "new_nentry d nm (fa_type a) (fa_fileid a)" and ?ls = "ls(D := ent # ls D)"
  let ?h = "(dc_store dc)\<lparr>hp_ne := (hp_ne (dc_store dc))(ent \<mapsto> ?n), hp_dce := (hp_dce (dc_store dc))(D \<mapsto> d\<lparr>dce_Entries := ent\<rparr>)\<rparr>"
  let ?dc = "\<lparr>g_DirCache = fthash_Lock (g_DirCache dc), dc_store = ?h\<rparr>"
  note cr = dc_NECreate_ok [OF inv d ent(2,1) TrueI, of nm "fa_type a" "fa_fileid a"]
  have "dirs_coh T ?ls ?dc" unfolding dirs_coh_def
  proof (intro conjI allI impI)
    show "dc_inv ?ls ?dc" by (rule cr(2))
    show "keys_ok ?dc" using coh d unfolding dirs_coh_def keys_ok_def by fastforce
    show "names_once ?ls (dc_store ?dc)" unfolding names_once_def
    proof (intro allI impI)
      fix D' x y assume a: "D' \<in> dom (hp_dce (dc_store ?dc))" "x \<in> set (?ls D')" "y \<in> set (?ls D')"
        "map_option ne_Name (hp_ne (dc_store ?dc) x) = map_option ne_Name (hp_ne (dc_store ?dc) y)"
      have D': "D' \<in> dom (hp_dce (dc_store dc))" using a(1) d by auto
      have notin: "ent \<notin> set (ls D')" using names_ok_alloc [OF dc_inv_names [OF inv] D'] ent(2) by blast
      have "hp_ne (dc_store ?dc) z = hp_ne (dc_store dc) z" if "z \<in> set (ls D')" for z using that notin by auto
      then have old: "x = y" if "x \<in> set (ls D')" "y \<in> set (ls D')"
        using that a(4) coh D' unfolding dirs_coh_def names_once_def by metis
      show "x = y"
      proof (cases "D' = D")
        case True
        have ne: "map_option ne_Name (hp_ne (dc_store ?dc) z) \<noteq> map_option ne_Name (hp_ne (dc_store ?dc) ent)" if "z \<in> set (ls D)" for z
          using once that notin True by (auto simp: named_def new_nentry_def)
        have "x = ent \<or> x \<in> set (ls D)" "y = ent \<or> y \<in> set (ls D)" using a(2,3) True by auto
        then show ?thesis using ne a(4) old True by metis
      qed (use a(2,3) old in auto)
    qed
  next
    fix D' d' assume "hp_dce (dc_store ?dc) D' = Some d'"
    then show "\<exists>a. t_obj T (dce_FileId d') = Some (dce_NFSFh d', a)"
      using dirs_cohD(1) [OF coh] d by (auto split: if_splits)
  next
    fix D' d' x n assume d': "hp_dce (dc_store ?dc) D' = Some d'" and x: "x \<in> set (?ls D')" and n: "hp_ne (dc_store ?dc) x = Some n"
    obtain d0 where d0: "hp_dce (dc_store dc) D' = Some d0" "dce_NFSFh d' = dce_NFSFh d0" using d' d by (auto split: if_splits)
    show "\<exists>f a. t_look T (dce_NFSFh d') (ne_Name n) = Some (f, a) \<and> fa_type a = ne_FType n \<and> fa_fileid a = ne_FileId n"
    proof (cases "x = ent")
      case True
      have "ent \<notin> set (ls D')" using names_ok_alloc [OF dc_inv_names [OF inv] domI [of "hp_dce (dc_store dc)", OF d0(1)]] ent(2) by blast
      then have "D' = D" using x True by (auto simp: fun_upd_def split: if_splits)
      then show ?thesis using n True look d0 d by (auto simp: new_nentry_def)
    next
      case other: False
      then have "x \<in> set (ls D')" "hp_ne (dc_store dc) x = Some n" using x n by (auto simp: fun_upd_def split: if_splits)
      then show ?thesis using dirs_cohD(2) [OF coh d0(1)] d0(2) by simp
    qed
  qed
  then show ?thesis using cr(1) m by (intro exI [of _ ent] exI [of _ ?dc] exI [of _ ?ls]) (auto simp: new_nentry_def)
qed

lemma walk_inv_upd:
  assumes "walk_inv env T ls w" and "walk_same w w'" and "attrs_coh T (h_attrs w')" and "dirs_coh T ls' (h_dirs w')"
    and "static_server (e_nfs env) T (g_srv (h_g w'))"
  shows "walk_inv env T ls' w'"
  using assms unfolding walk_inv_def walk_same_def by simp

text \<open>What \<open>GetNameEntry\<close> reports for the object \<open>fa\<close> that the server knows by the name:\<close>

definition name_result :: "(nfs_fh \<times> fattr) option \<Rightarrow> addr \<Rightarrow> addr \<Rightarrow> int \<Rightarrow> int \<Rightarrow> 'srv handler \<Rightarrow> bool" where
  "name_result res NE ACE r Res2 w \<longleftrightarrow>
     (case res of
        None \<Rightarrow> NE = NULL \<and> r = ERROR_OBJECT_NOT_FOUND
      | Some (f, a) \<Rightarrow>
          if NE = NULL then r = ERROR_NO_FREE_STORE
          else r = Res2 \<and> hp_ace (h_attrs w) ACE = Some \<lparr>ace_FileId = fa_fileid a, ace_NFSFh = f, ace_FAttr = a\<rparr> \<and>
            (\<exists>n. hp_ne (dc_store (h_dirs w)) NE = Some n \<and> ne_FType n = fa_type a \<and> ne_FileId n = fa_fileid a))"

text \<open>The directory entry stays, and the name entry is one of its list:\<close>

definition entry_in :: "(addr \<Rightarrow> addr list) \<Rightarrow> 'srv handler \<Rightarrow> addr \<Rightarrow> nfs_fh \<Rightarrow> string \<Rightarrow> addr \<Rightarrow> bool" where
  "entry_in ls w D fh nm NE \<longleftrightarrow> (\<exists>d. hp_dce (dc_store (h_dirs w)) D = Some d \<and> dce_NFSFh d = fh) \<and>
     (NE \<noteq> NULL \<longrightarrow> NE \<in> set (ls D) \<and> named (dc_store (h_dirs w)) nm NE)"

lemma GetNameEntry_ok:
  assumes inv: "walk_inv env T ls w" and d: "hp_dce (dc_store (h_dirs w)) D = Some d"
  shows "\<exists>NE ACE r w' ls'. GetNameEntry env D nm True Res2 w = Some (NE, ACE, r, w') \<and> walk_inv env T ls' w' \<and> walk_same w w' \<and>
    name_result (t_look T (dce_NFSFh d) nm) NE ACE r Res2 w' \<and> entry_in ls' w' D (dce_NFSFh d) nm NE"
proof -
  note i = inv [unfolded walk_inv_def]
  have ss: "static_server (e_nfs env) T (g_srv (h_g w))" and ac: "attrs_coh T (h_attrs w)" and dc: "dirs_coh T ls (h_dirs w)"
    and eo: "env_ok env" and tr: "tree_ok T" using i by blast+
  let ?t = "h_tick w" and ?R = "t_look T (dce_NFSFh d) nm"
  obtain p dc1 where l: "dc_NELookup (h_dirs w) D nm = Some (p, dc1)" "dirs_coh T ls dc1" "dc_store dc1 = dc_store (h_dirs w)"
    "p \<noteq> NULL \<longrightarrow> (\<exists>n f a. hp_ne (dc_store (h_dirs w)) p = Some n \<and> ?R = Some (f, a) \<and> fa_type a = ne_FType n \<and> fa_fileid a = ne_FileId n)"
    "if p = NULL then \<forall>x\<in>set (ls D). \<not> named (dc_store (h_dirs w)) nm x else p \<in> set (ls D) \<and> named (dc_store (h_dirs w)) nm p"
    using dirs_coh_NELookup [OF dc d, of nm] by blast
  obtain A0 a1 where q: "(if p \<noteq> NULL then do { ne \<leftarrow> hp_ne (dc_store dc1) p;
        attrs_LookupFromFileId (e_clk env ?t) (h_attrs w) (ne_FileId ne) } else Some (NULL, h_attrs w)) = Some (A0, a1)"
     "attrs_coh T a1" "p \<noteq> NULL \<and> A0 \<noteq> NULL \<longrightarrow> (\<exists>f a. ?R = Some (f, a) \<and>
         hp_ace a1 A0 = Some \<lparr>ace_FileId = fa_fileid a, ace_NFSFh = f, ace_FAttr = a\<rparr>)"
  proof (cases "p = NULL")
    case True
    then show ?thesis using that ac by simp
  next
    case False
    then obtain n f a where n: "hp_ne (dc_store (h_dirs w)) p = Some n" "?R = Some (f, a)" "fa_fileid a = ne_FileId n" using l(4) by blast
    have "t_obj T (ne_FileId n) = Some (f, a)" using tr n(2,3) unfolding tree_ok_def by metis
    then show ?thesis using attrs_coh_lookup [OF ac, of "e_clk env ?t" "ne_FileId n"] that False n l(3) by auto
  qed
  have qs: "p \<noteq> NULL \<Longrightarrow> \<exists>n. hp_ne (dc_store dc1) p = Some n \<and>
      attrs_LookupFromFileId (e_clk env ?t) (h_attrs w) (ne_FileId n) = Some (A0, a1)" "p = NULL \<Longrightarrow> A0 = NULL \<and> a1 = h_attrs w"
    using q(1) by (auto simp: bind_eq_Some_conv)
  let ?w1 = "(tick 6 w)\<lparr>h_dirs := dc1, h_attrs := a1\<rparr>"
  have d1: "hp_dce (dc_store dc1) D = Some d" using d l(3) by simp
  show ?thesis
  proof (cases "p \<noteq> NULL \<and> A0 \<noteq> NULL")
    case True
    have "GetNameEntry env D nm True Res2 w = Some (p, A0, Res2, ?w1)"
      using l(1) qs(1) True by (auto simp: GetNameEntry_def Let_def)
    moreover have "walk_inv env T ls ?w1" by (rule walk_inv_upd [OF inv]) (use l(2) q(2) ss in simp_all)
    moreover have "name_result ?R p A0 Res2 Res2 ?w1" using True l(3,4) q(3) by (auto simp: name_result_def)
    moreover have "entry_in ls ?w1 D (dce_NFSFh d) nm p" using True l(3,5) d by (simp add: entry_in_def)
    ultimately show ?thesis by (intro exI conjI) (assumption | simp)+
  next
    case False
    obtain s' where nl: "nfs_Lookup (e_nfs env) (dce_NFSFh d) nm (ng_MaxReadDirSize (g_NFSGlobal (h_g w))) Res2 (g_srv (h_g w)) =
       Some (case ?R of None \<Rightarrow> Inl ERROR_OBJECT_NOT_FOUND | Some (f, a) \<Rightarrow> Inr \<lparr>dr_file = f, dr_attributes = a\<rparr>, s')" "static_server (e_nfs env) T s'"
      using static_lookup [OF ss] by blast
    let ?w2 = "put_srv s' ?w1"
    have part: "GetNameEntry env D nm True Res2 w = (case ?R of None \<Rightarrow> Some (NULL, NULL, ERROR_OBJECT_NOT_FOUND, ?w2)
      | Some (f, a) \<Rightarrow> do {
           (ACE, a2) \<leftarrow> attrs_store (\<lambda>i. e_clk env (?t + i)) (\<lambda>i. e_ace env (?t + i) (hp_ace a1)) a1 f a;
           let w3 = ?w2\<lparr>h_attrs := a2\<rparr>;
           (if ACE = NULL then Some (NULL, NULL, ERROR_NO_FREE_STORE, w3)
            else do {
              ace \<leftarrow> hp_ace a2 ACE;
              (NE, dc2) \<leftarrow>
                (if p = NULL then dc_NECreateAndInsert (e_ne env (?t + 5) (hp_ne (dc_store dc1))) dc1 D nm (fa_type a) (ace_FileId ace)
                 else do {
                   ne \<leftarrow> hp_ne (dc_store dc1) p;
                   Some (p, dc1\<lparr>dc_store := (dc_store dc1)\<lparr>hp_ne := (hp_ne (dc_store dc1))(p \<mapsto>
                           ne\<lparr>ne_FType := fa_type a, ne_FileId := ace_FileId ace\<rparr>)\<rparr>\<rparr>)
                 });
              Some (NE, ACE, if NE = NULL then ERROR_NO_FREE_STORE else Res2, w3\<lparr>h_dirs := dc2\<rparr>)
            })})"
      using l(1) qs False nl(1) d1 by (cases "p = NULL"; cases ?R) (auto simp: GetNameEntry_def Let_def cong: if_cong)
    show ?thesis
    proof (cases ?R)
      case None
      have "walk_inv env T ls ?w2" by (rule walk_inv_upd [OF inv]) (use l(2) q(2) nl(2) in simp_all)
      moreover have "entry_in ls ?w2 D (dce_NFSFh d) nm NULL" using d1 by (simp add: entry_in_def)
      ultimately show ?thesis using part None by (simp add: name_result_def) blast
    next
      case (Some fa)
      obtain f a where fa: "?R = Some (f, a)" using Some by (cases fa) auto
      have obj: "t_obj T (fa_fileid a) = Some (f, a)" using tr fa unfolding tree_ok_def by blast
      obtain ACE a2 where st: "attrs_store (\<lambda>i. e_clk env (?t + i)) (\<lambda>i. e_ace env (?t + i) (hp_ace a1)) a1 f a = Some (ACE, a2)"
        "attrs_coh T a2" "ACE \<noteq> NULL \<longrightarrow> hp_ace a2 ACE = Some \<lparr>ace_FileId = fa_fileid a, ace_NFSFh = f, ace_FAttr = a\<rparr>"
        using attrs_coh_store [where mem = "\<lambda>i. e_ace env (?t + i) (hp_ace a1)" and clk = "\<lambda>i. e_clk env (?t + i)",
            OF q(2) obj env_okD(1) [OF eo attrs_coh_NULL [OF q(2)]] env_okD(1) [OF eo attrs_coh_NULL [OF q(2)]]] by blast
      let ?w3 = "?w2\<lparr>h_attrs := a2\<rparr>"
      show ?thesis
      proof (cases "ACE = NULL")
        case True
        have "walk_inv env T ls ?w3" by (rule walk_inv_upd [OF inv]) (use l(2) st(2) nl(2) in simp_all)
        moreover have "entry_in ls ?w3 D (dce_NFSFh d) nm NULL" using d1 by (simp add: entry_in_def)
        ultimately show ?thesis using part fa st(1) True by (simp add: name_result_def) blast
      next
        case ace: False
        obtain NE dc2 ls' where c: "(if p = NULL then dc_NECreateAndInsert (e_ne env (?t + 5) (hp_ne (dc_store dc1))) dc1 D nm (fa_type a) (fa_fileid a)
             else do { ne \<leftarrow> hp_ne (dc_store dc1) p;
                   Some (p, dc1\<lparr>dc_store := (dc_store dc1)\<lparr>hp_ne := (hp_ne (dc_store dc1))(p \<mapsto>
                           ne\<lparr>ne_FType := fa_type a, ne_FileId := fa_fileid a\<rparr>)\<rparr>\<rparr>) }) = Some (NE, dc2)"
          "dirs_coh T ls' dc2" "NE \<noteq> NULL \<longrightarrow> (\<exists>n. hp_ne (dc_store dc2) NE = Some n \<and> ne_FType n = fa_type a \<and> ne_FileId n = fa_fileid a)"
          "(\<exists>d'. hp_dce (dc_store dc2) D = Some d' \<and> dce_NFSFh d' = dce_NFSFh d) \<and> (NE \<noteq> NULL \<longrightarrow> NE \<in> set (ls' D) \<and> named (dc_store dc2) nm NE)"
        proof (cases "p = NULL")
          case True
          have "\<forall>x\<in>set (ls D). \<not> named (dc_store dc1) nm x" using l(3,5) True by simp
          from dirs_coh_NECreate [OF l(2) d1 fa env_okD(3) [OF eo dirs_coh_NULL(2) [OF l(2)], of "?t + 5"] this]
          obtain p' dc' ls' where "dc_NECreateAndInsert (e_ne env (?t + 5) (hp_ne (dc_store dc1))) dc1 D nm (fa_type a) (fa_fileid a) = Some (p', dc')"
            "dirs_coh T ls' dc'" "\<exists>d'. hp_dce (dc_store dc') D = Some d' \<and> dce_NFSFh d' = dce_NFSFh d"
            "p' \<noteq> NULL \<longrightarrow> p' \<in> set (ls' D) \<and> (\<exists>n. hp_ne (dc_store dc') p' = Some n \<and> ne_Name n = nm \<and> ne_FType n = fa_type a \<and> ne_FileId n = fa_fileid a)"
            by blast
          then show ?thesis using that [of p' dc' ls'] True by (auto simp: named_def)
        next
          case False
          then obtain n where n: "hp_ne (dc_store dc1) p = Some n" "fa_type a = ne_FType n" "fa_fileid a = ne_FileId n" using l(3,4) fa by auto
          then have "dc1\<lparr>dc_store := (dc_store dc1)\<lparr>hp_ne := (hp_ne (dc_store dc1))(p \<mapsto> n\<lparr>ne_FType := fa_type a, ne_FileId := fa_fileid a\<rparr>)\<rparr>\<rparr> = dc1"
            by (cases dc1; cases "dc_store dc1"; cases n) (auto simp: fun_eq_iff)
          then show ?thesis using that [of p dc1 ls] n l(2,3,5) d1 False by simp
        qed
        let ?w4 = "?w3\<lparr>h_dirs := dc2\<rparr>"
        have "GetNameEntry env D nm True Res2 w = Some (NE, ACE, if NE = NULL then ERROR_NO_FREE_STORE else Res2, ?w4)"
          using part fa st ace c(1) by (simp add: Let_def cong: if_cong)
        moreover have "walk_inv env T ls' ?w4" by (rule walk_inv_upd [OF inv]) (use c(2) st(2) nl(2) in simp_all)
        moreover have "name_result ?R NE ACE (if NE = NULL then ERROR_NO_FREE_STORE else Res2) Res2 ?w4"
          using fa c(3) st(3) ace by (simp add: name_result_def)
        moreover have "entry_in ls' ?w4 D (dce_NFSFh d) nm NE" using c(4) by (simp add: entry_in_def)
        ultimately show ?thesis by (intro exI conjI) (assumption | simp)+
      qed
    qed
  qed
qed

subsection \<open>Directory entries\<close>

lemma dirs_coh_DCELookup:
  assumes coh: "dirs_coh T ls dc"
  shows "\<exists>p dc'. dc_DCELookupFromFileId now dc k = Some (p, dc') \<and> dirs_coh T ls dc' \<and>
    (p \<noteq> NULL \<longrightarrow> (\<exists>d a. hp_dce (dc_store dc') p = Some d \<and> t_obj T k = Some (dce_NFSFh d, a)))"
proof -
  obtain p dc' where l: "dc_DCELookupFromFileId now dc k = Some (p, dc')" "dc_inv ls dc'" "keys_ok dc'"
    "map_le (hp_dce (dc_store dc')) (hp_dce (dc_store dc))" "map_le (hp_ne (dc_store dc')) (hp_ne (dc_store dc))"
    "p \<noteq> NULL \<longrightarrow> (\<exists>d. hp_dce (dc_store dc') p = Some d \<and> dce_FileId d = k)"
    using dc_DCELookup_ok [of ls dc now k] coh unfolding dirs_coh_def by blast
  have once: "names_once ls (dc_store dc')" unfolding names_once_def
  proof (intro allI impI)
    fix D x y assume a: "D \<in> dom (hp_dce (dc_store dc'))" "x \<in> set (ls D)" "y \<in> set (ls D)"
      "map_option ne_Name (hp_ne (dc_store dc') x) = map_option ne_Name (hp_ne (dc_store dc') y)"
    have "x \<in> dom (hp_ne (dc_store dc'))" "y \<in> dom (hp_ne (dc_store dc'))"
      using names_ok_alloc [OF dc_inv_names [OF l(2)] a(1)] a(2,3) by auto
    then have "hp_ne (dc_store dc') x = hp_ne (dc_store dc) x" "hp_ne (dc_store dc') y = hp_ne (dc_store dc) y"
      using l(5) by (auto simp: map_le_def)
    moreover have "D \<in> dom (hp_dce (dc_store dc))" using l(4) a(1) by (auto simp: map_le_def dom_def)
    ultimately show "x = y" using a coh unfolding dirs_coh_def names_once_def by metis
  qed
  have old: "hp_dce (dc_store dc) D = Some d" if "hp_dce (dc_store dc') D = Some d" for D d
    using l(4) that by (auto simp: map_le_def dom_def)
  have oldn: "hp_ne (dc_store dc) x = Some n" if "hp_ne (dc_store dc') x = Some n" for x n
    using l(5) that by (auto simp: map_le_def dom_def)
  have coh': "dirs_coh T ls dc'"
    unfolding dirs_coh_def using l(2,3) once dirs_cohD [OF coh old] oldn by blast
  then show ?thesis using l(1,6) dirs_cohD(1) [OF coh'] by metis
qed

lemma dirs_coh_DCECreate:
  assumes coh: "dirs_coh T ls dc" and obj: "t_obj T k = Some (fh, a)" and new: "fst mem \<notin> dom (hp_dce (dc_store dc))"
  shows "\<exists>p dc' ls'. dc_DCECreateAndInsert mem now dc k fh = (p, dc') \<and> dirs_coh T ls' dc' \<and>
    (p \<noteq> NULL \<longrightarrow> (\<exists>d. hp_dce (dc_store dc') p = Some d \<and> dce_NFSFh d = fh))"
proof -
  obtain ent ok where m: "mem = (ent, ok)" by (cases mem)
  have inv: "dc_inv ls dc" and ks: "keys_ok dc" using coh by (auto simp: dirs_coh_def)
  have new': "ent \<notin> dom (hp_dce (dc_store dc))" using new m by simp
  obtain p dc' where r: "dc_DCECreateAndInsert (ent, ok) now dc k fh = (p, dc')" "dc_inv (if ent = NULL then ls else ls(ent := [])) dc'"
    using dc_DCECreate_ok [OF inv new', of ok now k fh] by blast
  note c = dc_DCECreate_keys [OF inv ks new' r(1)]
  show ?thesis
  proof (cases "p = NULL")
    case True
    then show ?thesis using c coh r(1) m by auto
  next
    case False
    let ?d = "\<lparr>dce_FileId = k, dce_ParentId = uint DCE_ID_UNUSED, dce_NFSFh = fh, dce_Entries = NULL\<rparr>"
    have e: "ent \<noteq> NULL" "hp_ne (dc_store dc') = hp_ne (dc_store dc)" "hp_dce (dc_store dc') = (hp_dce (dc_store dc))(ent \<mapsto> ?d)" "p = ent"
      using c False by auto
    have "dirs_coh T (ls(ent := [])) dc'" unfolding dirs_coh_def
    proof (intro conjI allI impI)
      show "dc_inv (ls(ent := [])) dc'" "keys_ok dc'" using r(2) e(1) c by auto
      show "names_once (ls(ent := [])) (dc_store dc')" using coh e(2,3) unfolding dirs_coh_def names_once_def
        by (auto split: if_splits)
    next
      fix D d assume "hp_dce (dc_store dc') D = Some d"
      then show "\<exists>a. t_obj T (dce_FileId d) = Some (dce_NFSFh d, a)" using dirs_cohD(1) [OF coh] e(3) obj by (auto split: if_splits)
    next
      fix D d x n assume "hp_dce (dc_store dc') D = Some d" "x \<in> set ((ls(ent := [])) D)" "hp_ne (dc_store dc') x = Some n"
      then show "\<exists>f a. t_look T (dce_NFSFh d) (ne_Name n) = Some (f, a) \<and> fa_type a = ne_FType n \<and> fa_fileid a = ne_FileId n"
        using dirs_cohD(2) [OF coh, of D d x n] e by (auto split: if_splits)
    qed
    then show ?thesis using r(1) e m by auto
  qed
qed

lemma GetDirEntry_ok:
  assumes inv: "walk_inv env T ls w" and obj: "t_obj T k = Some (fh, a)"
    and id: "if P \<noteq> NULL then \<exists>n. hp_ne (dc_store (h_dirs w)) P = Some n \<and> ne_FileId n = k else k0 = k"
  shows "\<exists>D r w' ls'. GetDirEntry env P k0 fh Res2 w = Some (D, r, w') \<and> walk_inv env T ls' w' \<and> walk_same w w' \<and>
    (if D = NULL then r = ERROR_NO_FREE_STORE
     else r = Res2 \<and> (\<exists>d. hp_dce (dc_store (h_dirs w')) D = Some d \<and> dce_NFSFh d = fh))"
proof -
  note i = inv [unfolded walk_inv_def]
  have dc: "dirs_coh T ls (h_dirs w)" and eo: "env_ok env" using i by blast+
  let ?t = "h_tick w"
  have k: "(if P \<noteq> NULL then map_option ne_FileId (hp_ne (dc_store (h_dirs w)) P) else Some k0) = Some k" using id by auto
  obtain A dc1 where l: "(if k \<noteq> DCE_ID_UNUSED then dc_DCELookupFromFileId (e_clk env ?t) (h_dirs w) k else Some (NULL, h_dirs w)) = Some (A, dc1)"
    "dirs_coh T ls dc1" "A \<noteq> NULL \<longrightarrow> (\<exists>d. hp_dce (dc_store dc1) A = Some d \<and> dce_NFSFh d = fh)"
  proof (cases "k = DCE_ID_UNUSED")
    case True
    then show ?thesis using that dc by simp
  next
    case False
    then show ?thesis using that dirs_coh_DCELookup [OF dc, of "e_clk env ?t" k] obj by auto
  qed
  let ?w1 = "(tick 2 w)\<lparr>h_dirs := dc1\<rparr>"
  have unf: "GetDirEntry env P k0 fh Res2 w =
     (if A \<noteq> NULL then Some (A, Res2, ?w1)
      else do {
        (ACEnt, r, w2) \<leftarrow> get_attr env k fh Res2 ?w1;
        (if ACEnt = NULL then Some (NULL, r, w2)
         else do {
           ace \<leftarrow> hp_ace (h_attrs w2) ACEnt;
           let (D, dc2) = dc_DCECreateAndInsert (e_dce env (?t + 1) (hp_dce (dc_store (h_dirs w2)))) (e_clk env (?t + 1))
                            (h_dirs w2) (ace_FileId ace) fh;
           Some (D, if D = NULL then ERROR_NO_FREE_STORE else r, w2\<lparr>h_dirs := dc2\<rparr>)
         }) })"
    unfolding GetDirEntry_def Let_def handler_upd k Option.bind.bind_lunit l(1) prod.case by (rule refl)
  have inv1: "walk_inv env T ls ?w1" by (rule walk_inv_upd [OF inv]) (use l(2) i in simp_all)
  show ?thesis
  proof (cases "A = NULL")
    case False
    then have "GetDirEntry env P k0 fh Res2 w = Some (A, Res2, ?w1)" by (simp add: unf)
    then show ?thesis using inv1 l(3) False by auto
  next
    case True
    obtain p r w2 where g: "get_attr env k fh Res2 ?w1 = Some (p, r, w2)" "walk_inv env T ls w2" "walk_same ?w1 w2" "h_dirs w2 = h_dirs ?w1"
      "if p = NULL then r = ERROR_NO_FREE_STORE else r = Res2 \<and> hp_ace (h_attrs w2) p = Some \<lparr>ace_FileId = k, ace_NFSFh = fh, ace_FAttr = a\<rparr>"
      using get_attr_ok [OF inv1 obj, of k Res2] by blast
    have s2: "walk_same w w2" using g(3) by (rule walk_same_trans [rotated]) simp
    show ?thesis
    proof (cases "p = NULL")
      case p: True
      then have "GetDirEntry env P k0 fh Res2 w = Some (NULL, r, w2)" using True g(1) by (simp add: unf)
      then show ?thesis using g(2,5) s2 p by auto
    next
      case p: False
      have dc2: "dirs_coh T ls (h_dirs w2)" using g(2) unfolding walk_inv_def by blast
      let ?mem = "e_dce env (?t + 1) (hp_dce (dc_store (h_dirs w2)))"
      obtain D dc3 ls' where c: "dc_DCECreateAndInsert ?mem (e_clk env (?t + 1)) (h_dirs w2) k fh = (D, dc3)" "dirs_coh T ls' dc3"
        "D \<noteq> NULL \<longrightarrow> (\<exists>d. hp_dce (dc_store dc3) D = Some d \<and> dce_NFSFh d = fh)"
        using dirs_coh_DCECreate [OF dc2 obj env_okD(2) [OF eo dirs_coh_NULL(1) [OF dc2]]] by blast
      have "GetDirEntry env P k0 fh Res2 w = Some (D, if D = NULL then ERROR_NO_FREE_STORE else Res2, w2\<lparr>h_dirs := dc3\<rparr>)"
        using True g(1,5) p c(1) by (simp add: unf)
      moreover have "walk_inv env T ls' (w2\<lparr>h_dirs := dc3\<rparr>)"
        by (rule walk_inv_upd [OF g(2)]) (use c(2) g(2) in \<open>simp_all add: walk_inv_def\<close>)
      ultimately show ?thesis using s2 c(3) by (cases "D = NULL") auto
    qed
  qed
qed

subsection \<open>The walk\<close>

text \<open>The reference: names are looked up on the server, one by one; each must be a directory.\<close>

fun tree_walk :: "tree \<Rightarrow> nfs_fh \<Rightarrow> string list \<Rightarrow> int + nfs_fh" where
  "tree_walk T fh [] = Inr fh"
| "tree_walk T fh (nm # nms) =
     (case t_look T fh nm of
        None \<Rightarrow> Inl ERROR_OBJECT_NOT_FOUND
      | Some (f, a) \<Rightarrow>
          if fa_type a = NFLNK then Inl ERROR_IS_SOFT_LINK
          else if fa_type a \<noteq> NFDIR then Inl ERROR_INVALID_COMPONENT_NAME
          else tree_walk T f nms)"

definition walk_result :: "int + nfs_fh \<Rightarrow> addr \<Rightarrow> int \<Rightarrow> int \<Rightarrow> 'srv handler \<Rightarrow> bool" where
  "walk_result res D r Res2 w \<longleftrightarrow>
     (if D = NULL then r = ERROR_NO_FREE_STORE \<or> res = Inl r
      else r = Res2 \<and> (\<exists>d. hp_dce (dc_store (h_dirs w)) D = Some d \<and> res = Inr (dce_NFSFh d)))"

lemma cstr_of_nth: "cstr_of (drop p b) = w \<Longrightarrow> w \<noteq> [] \<Longrightarrow> b ! p = hd w"
  by (cases "drop p b") (auto simp: cstr_of_def dest: nth_via_drop split: if_splits)

lemma locate_loop_ok:
  assumes "comps_ok (xs @ nm # nms)" and "no_nul (xs @ nm # nms)" and "walk_inv env T ls w"
    and "hp_dce (dc_store (h_dirs w)) D = Some d" and "D \<noteq> NULL"
  shows "\<exists>D' r w' ls'. locate_loop env (scan_buf xs (join_path (nm # nms))) (scan_pos xs) D Res2 w = Some (D', r, w') \<and>
    walk_inv env T ls' w' \<and> walk_same w w' \<and>
    walk_result (tree_walk T (dce_NFSFh d) (butlast (nm # nms))) D' r Res2 w'"
  using assms
proof (induction nms arbitrary: xs nm w D d ls)
  case Nil
  note st = scan_step [OF Nil.prems(1,2)]
  have "locate_loop env (scan_buf xs (join_path [nm])) (scan_pos xs) D Res2 w = Some (D, Res2, w)"
    by (subst locate_loop.simps, subst st(1)) simp
  then show ?case using Nil.prems by (simp add: walk_result_def) blast
next
  case (Cons x nms)
  note inv = Cons.prems(3) and d = Cons.prems(4)
  note i = inv [unfolded walk_inv_def]
  have tr: "tree_ok T" using i by blast
  let ?b = "scan_buf (xs @ [nm]) (join_path (x # nms))" and ?p = "scan_pos xs"
  have st: "fn_ScanPath (scan_buf xs (join_path (nm # x # nms))) ?p False = Some (?p, ?b, scan_pos (xs @ [nm]), False)"
    "cstr_of (drop ?p ?b) = nm" using scan_step [OF Cons.prems(1,2)] by simp_all
  have nm: "nm \<noteq> []" "SL \<notin> set nm" using Cons.prems(1) by auto
  have np: "?b ! ?p \<noteq> SL" using cstr_of_nth [OF st(2) nm(1)] nm by (metis hd_in_set)
  obtain NE ACE r1 w1 ls1 where g: "GetNameEntry env D nm True Res2 w = Some (NE, ACE, r1, w1)" "walk_inv env T ls1 w1" "walk_same w w1"
    "name_result (t_look T (dce_NFSFh d) nm) NE ACE r1 Res2 w1"
    using GetNameEntry_ok [OF inv d, of nm Res2] by blast
  have unf: "locate_loop env (scan_buf xs (join_path (nm # x # nms))) ?p D Res2 w =
      (if NE = NULL then Some (NULL, r1, w1)
       else do {
         ne \<leftarrow> hp_ne (dc_store (h_dirs w1)) NE;
         (if ne_FType ne \<noteq> NFDIR \<and> ne_FType ne \<noteq> NFLNK then Some (NULL, ERROR_INVALID_COMPONENT_NAME, w1)
          else if ne_FType ne = NFLNK then Some (NULL, ERROR_IS_SOFT_LINK, w1)
          else do {
            ace \<leftarrow> hp_ace (h_attrs w1) ACE;
            (D, r2, w2) \<leftarrow> GetDirEntry env NE DCE_ID_UNUSED (ace_NFSFh ace) r1 w1;
            (if D = NULL then Some (NULL, r2, w2) else locate_loop env ?b (scan_pos (xs @ [nm])) D r2 w2)
          })
       })"
    by (subst locate_loop.simps, subst st(1)) (simp add: np st(2) g(1))
  show ?case
  proof (cases "NE = NULL")
    case True
    then show ?thesis using unf g by (auto simp: walk_result_def name_result_def split: option.splits)
  next
    case ne: False
    obtain f a where fa: "t_look T (dce_NFSFh d) nm = Some (f, a)" using g(4) ne by (auto simp: name_result_def split: option.splits)
    have obj: "t_obj T (fa_fileid a) = Some (f, a)" using tr fa unfolding tree_ok_def by blast
    obtain n where n: "hp_ne (dc_store (h_dirs w1)) NE = Some n" "ne_FType n = fa_type a" "ne_FileId n = fa_fileid a"
      and ace: "r1 = Res2" "hp_ace (h_attrs w1) ACE = Some \<lparr>ace_FileId = fa_fileid a, ace_NFSFh = f, ace_FAttr = a\<rparr>"
      using g(4) ne fa by (auto simp: name_result_def)
    show ?thesis
    proof (cases "fa_type a = NFDIR")
      case False
      then show ?thesis using unf g(2,3) ne n fa by (auto simp: walk_result_def)
    next
      case dir: True
      have id: "if NE \<noteq> NULL then \<exists>n. hp_ne (dc_store (h_dirs w1)) NE = Some n \<and> ne_FileId n = fa_fileid a else DCE_ID_UNUSED = fa_fileid a"
        using ne n by simp
      obtain D2 r2 w2 ls2 where e: "GetDirEntry env NE DCE_ID_UNUSED f Res2 w1 = Some (D2, r2, w2)" "walk_inv env T ls2 w2" "walk_same w1 w2"
        "if D2 = NULL then r2 = ERROR_NO_FREE_STORE else r2 = Res2 \<and> (\<exists>d. hp_dce (dc_store (h_dirs w2)) D2 = Some d \<and> dce_NFSFh d = f)"
        using GetDirEntry_ok [OF g(2) obj id, of Res2] by blast
      have step: "locate_loop env (scan_buf xs (join_path (nm # x # nms))) ?p D Res2 w =
          (if D2 = NULL then Some (NULL, r2, w2) else locate_loop env ?b (scan_pos (xs @ [nm])) D2 r2 w2)"
        using unf ne n dir ace e(1) by simp
      have same: "walk_same w w2" using g(3) e(3) by (rule walk_same_trans)
      show ?thesis
      proof (cases "D2 = NULL")
        case True
        then show ?thesis using step e(2,4) same by (auto simp: walk_result_def)
      next
        case False
        obtain d2 where d2: "hp_dce (dc_store (h_dirs w2)) D2 = Some d2" "dce_NFSFh d2 = f" "r2 = Res2" using e(4) False by auto
        obtain D' r w' ls' where rec: "locate_loop env ?b (scan_pos (xs @ [nm])) D2 Res2 w2 = Some (D', r, w')"
           "walk_inv env T ls' w'" "walk_same w2 w'" "walk_result (tree_walk T (dce_NFSFh d2) (butlast (x # nms))) D' r Res2 w'"
          using Cons.IH [of "xs @ [nm]" x ls2 w2 D2 d2] Cons.prems(1,2) e(2) d2(1) False by auto
        then show ?thesis using step False d2 fa dir walk_same_trans [OF same rec(3)] by auto
      qed
    qed
  qed
qed

lemma RootLocateDir_ok:
  assumes inv: "walk_inv env T ls w" and st: "comps_ok st" "no_nul st"
  shows "\<exists>D r w' ls'. RootLocateDir env (join_path st) Res2 w = Some (D, r, w') \<and> walk_inv env T ls' w' \<and> walk_same w w' \<and>
    walk_result (tree_walk T (g_MntFh w) (butlast st)) D r Res2 w'"
proof (cases "e_str env (h_tick w)")
  case False
  then show ?thesis using inv by (auto simp: RootLocateDir_def walk_result_def)
next
  case str: True
  let ?w = "tick 1 w"
  have inv1: "walk_inv env T ls ?w" using inv by simp
  obtain a where obj: "t_obj T (fa_fileid (g_MntAttr w)) = Some (g_MntFh w, a)" using inv unfolding walk_inv_def by blast
  obtain D r1 w1 ls1 where g: "GetDirEntry env NULL (fa_fileid (g_MntAttr w)) (g_MntFh w) Res2 ?w = Some (D, r1, w1)"
    "walk_inv env T ls1 w1" "walk_same ?w w1"
    "if D = NULL then r1 = ERROR_NO_FREE_STORE else r1 = Res2 \<and> (\<exists>d. hp_dce (dc_store (h_dirs w1)) D = Some d \<and> dce_NFSFh d = g_MntFh w)"
    using GetDirEntry_ok [OF inv1 obj, of NULL "fa_fileid (g_MntAttr w)" Res2] by auto
  have same: "walk_same w w1" using g(3) by (rule walk_same_trans [rotated]) simp
  show ?thesis
  proof (cases "D = NULL \<or> st = []")
    case True
    then show ?thesis using str g same join_path_Nil [OF st(1)] by (auto simp: RootLocateDir_def walk_result_def)
  next
    case False
    obtain nm nms where c: "st = nm # nms" using False by (cases st) auto
    obtain d where d: "hp_dce (dc_store (h_dirs w1)) D = Some d" "dce_NFSFh d = g_MntFh w" "r1 = Res2" using g(4) False by auto
    obtain D' r w' ls' where l: "locate_loop env (scan_buf [] (join_path st)) (scan_pos []) D Res2 w1 = Some (D', r, w')"
       "walk_inv env T ls' w'" "walk_same w1 w'" "walk_result (tree_walk T (dce_NFSFh d) (butlast st)) D' r Res2 w'"
      using locate_loop_ok [of "[]" nm nms, OF _ _ g(2) d(1), of Res2] st False unfolding c append_Nil by auto
    have "RootLocateDir env (join_path st) Res2 w = Some (D', r, w')"
      using str g(1) d(3) False l(1) join_path_Nil [OF st(1)] by (simp add: RootLocateDir_def scan_buf_def scan_pos_def)
    then show ?thesis using l(2,4) d(2) walk_same_trans [OF same l(3)] by auto
  qed
qed

text \<open>C5. Finding a directory: \<open>RootLocateDir\<close>, with a unified full name and as long as the server
  does not change (it answers LOOKUP, READDIR and GETATTR from one tree, whose names are shorter than
  255 characters), ends and touches allocated memory only; both caches stay coherent with the
  server. The directory it returns has the handle that looking up the components but the last,
  from the root, gives on the server itself; without one, \<open>Res2\<close> is the reason: a component
  does not exist, is no directory or is a soft link, or memory ran out.\<close>

theorem RootLocateDir_finds:
  assumes inv: "walk_inv env T ls w" and st: "comps_ok st" "no_nul st"
  shows "\<exists>D r w' ls'. RootLocateDir env (join_path st) Res2 w = Some (D, r, w') \<and> walk_inv env T ls' w' \<and> walk_same w w' \<and>
    walk_result (tree_walk T (g_MntFh w) (butlast st)) D r Res2 w'"
  by (rule RootLocateDir_ok [OF assms])

text \<open>A concrete server and a handler with empty caches:\<close>

definition toy_tree :: tree where
  "toy_tree =
     \<lparr>t_obj = (\<lambda>k. if k = 1 then Some ([1], toy_fattr NFDIR 1) else if k = 2 then Some ([2], toy_fattr NFDIR 2)
                   else if k = 3 then Some ([3], toy_fattr NFREG 3) else None),
      t_look = (\<lambda>fh nm. map_option (\<lambda>n. (dr_file (toy_res fh n), dr_attributes (toy_res fh n))) (nc_find (toy_ents fh) nm))\<rparr>"

definition alloc_from :: "nat \<Rightarrow> nat \<Rightarrow> (addr \<Rightarrow> 'a option) \<Rightarrow> addr \<times> bool" where
  "alloc_from base n h = (if h (base + n) = None then (base + n, True) else (NULL, True))"

definition std_env :: "'srv nfs_ops \<Rightarrow> 'srv env" where
  "std_env ops = \<lparr>e_nfs = ops, e_dos = std_dos, e_clk = of_nat, e_str = \<lambda>_. True, e_ace = alloc_from 1000,
     e_dce = alloc_from 2000, e_ne = alloc_from 3000, e_lock = alloc_from 4000,
     e_dh = (\<lambda>n h. fst (alloc_from 5000 n h)), e_fh = (\<lambda>n h. fst (alloc_from 6000 n h))\<rparr>"

lemma std_env_simps [simp]: "e_nfs (std_env ops) = ops" "e_dos (std_env ops) = std_dos"
  by (simp_all add: std_env_def)

definition toy_env :: "unit env" where
  "toy_env = std_env toy_ops"

definition toy_handler :: "'srv global \<Rightarrow> 'srv handler" where
  "toy_handler g = \<lparr>h_g = g, h_attrs = empty_attrs, h_dirs = empty_dirs, g_MntFh = [1], g_MntAttr = toy_fattr NFDIR 1,
     g_VolumeName = ''NFS'', dl_Name = ''NFS'', g_MaxFileNameLen = 106, cr_UID = 100, cr_GID = 10, cr_UMask = 0x12,
     g_AttrCacheTimeout = 30, g_AttrCacheMaxEntries = 10, g_DirCacheTimeout = 60, g_DirCacheMaxEntries = 10, g_State = 1, h_tick = 1\<rparr>"

lemma std_env_ok: "env_ok (std_env ops)"
  by (auto simp: env_ok_def std_env_def alloc_from_def split: if_splits)

lemma toy_static: "static_server toy_ops toy_tree s"
proof -
  have "length (en_name en) < 255" if "en \<in> set (toy_ents fh)" for fh en using that by (auto simp: toy_ents_def split: if_splits)
  moreover have "\<exists>s'. nfsproc_getattr_2 toy_ops f s = (Inr (NFS_OK, a), s')" if "t_obj toy_tree k = Some (f, a)" for k f a s
    using that by (auto simp: toy_tree_def toy_ops_def split: if_splits)
  ultimately show ?thesis unfolding static_server_def
    using toy_servers by (intro exI [of _ "\<lambda>_. True"] exI [of _ toy_ents] exI [of _ "\<lambda>fh. unat"] exI [of _ toy_res]) (simp add: toy_tree_def)
qed

lemma toy_tree_ok: "tree_ok toy_tree"
  by (auto simp: tree_ok_def toy_tree_def toy_fattr_def nc_find_def toy_ents_def toy_res_def split: if_splits)

lemma std_walk_inv:
  assumes "static_server ops T (g_srv g)" and "tree_ok T" and "t_obj T 1 = Some ([1], a)"
  shows "walk_inv (std_env ops) T (\<lambda>_. []) (toy_handler g)"
proof -
  have ac: "hp_ace empty_attrs = (\<lambda>_. None)" by (simp add: empty_attrs_def attrs_Init_def fthash_New_def)
  have dc: "hp_dce (dc_store empty_dirs) = (\<lambda>_. None)" by (simp add: empty_dirs_def dc_Init_def fthash_New_def)
  have "keys_ok empty_dirs" by (auto simp: keys_ok_def empty_dirs_def dc_Init_def fthash_New_def live_def)
  then have "attrs_coh T empty_attrs" "dirs_coh T (\<lambda>_. []) empty_dirs"
    using empty_attrs_inv empty_dirs_inv by (simp_all add: attrs_coh_def dirs_coh_def names_once_def ac dc)
  then show ?thesis
    using std_env_ok assms by (simp add: walk_inv_def toy_handler_def toy_fattr_def)
qed

lemma toy_walk_inv: "walk_inv toy_env toy_tree (\<lambda>_. []) (toy_handler g)"
  unfolding toy_env_def by (rule std_walk_inv [OF toy_static toy_tree_ok]) (simp add: toy_tree_def)

theorem RootLocateDir_finds_witness:
  "\<forall>g. \<exists>D r w'. RootLocateDir toy_env ''docs/read.me'' 7 (toy_handler g) = Some (D, r, w') \<and>
     (if D = NULL then r = ERROR_NO_FREE_STORE else r = 7 \<and> (\<exists>d. hp_dce (dc_store (h_dirs w')) D = Some d \<and> dce_NFSFh d = [2]))"
proof
  fix g :: "unit global"
  have ok: "comps_ok [''docs'', ''read.me'']" "no_nul [''docs'', ''read.me'']" by (simp_all add: no_nul_def)
  have t: "tree_walk toy_tree (g_MntFh (toy_handler g)) (butlast [''docs'', ''read.me'']) = Inr [2]"
    by (simp add: toy_tree_def nc_find_def toy_ents_def toy_res_def toy_fattr_def toy_handler_def)
  obtain D r w' ls' where d: "RootLocateDir toy_env ''docs/read.me'' 7 (toy_handler g) = Some (D, r, w')" "walk_result (Inr [2]) D r 7 w'"
    using RootLocateDir_finds [OF toy_walk_inv ok, of 7 g, unfolded t] by auto
  then show "\<exists>D r w'. RootLocateDir toy_env ''docs/read.me'' 7 (toy_handler g) = Some (D, r, w') \<and>
     (if D = NULL then r = ERROR_NO_FREE_STORE else r = 7 \<and> (\<exists>d. hp_dce (dc_store (h_dirs w')) D = Some d \<and> dce_NFSFh d = [2]))"
    by (intro exI [of _ D] exI [of _ r] exI [of _ w']) (auto simp: walk_result_def)
qed

end
