(* ===== verification/LocateLocks.thy ===== *)
theory LocateLocks
  imports LocateWalk
begin

text \<open>
  The actions on locks (src/src/lock.c): a path relative to a lock names the object that walking
  it on the server reaches, the new lock stands for that object, and an exclusive lock is the
  only one on its object whatever the clients do.
\<close>

subsection \<open>The path that a name and a lock stand for\<close>

text \<open>\<open>old\<close> are the components of the lock's full name.\<close>

definition up_first :: "string \<Rightarrow> bool" where
  "up_first s \<longleftrightarrow> take 2 s = [DOT, DOT] \<and> (length s = 2 \<or> s ! 2 = SL)"

definition rel_path :: "string list \<Rightarrow> string \<Rightarrow> int + string list" where
  "rel_path old rel =
     (if old = [] \<and> up_first rel then Inl ERROR_OBJECT_NOT_FOUND
      else (case walk (path_comps rel) old of
              None \<Rightarrow> Inl ERROR_INVALID_COMPONENT_NAME
            | Some st \<Rightarrow> if st \<noteq> [] \<and> int (length (last st)) > MAX_LONGAMIGAFILENAMELEN then Inl ERROR_INVALID_COMPONENT_NAME
                          else Inr st))"

definition simple_rel :: "string \<Rightarrow> bool" where
  "simple_rel rel \<longleftrightarrow> rel \<noteq> [] \<and> hd rel \<noteq> SL \<and> COLON \<notin> set rel \<and> NUL \<notin> set rel"

definition dotless :: "string list \<Rightarrow> bool" where
  "dotless st \<longleftrightarrow> (\<forall>w\<in>set st. last w \<noteq> DOT)"

lemma dotless_simps [simp]: "dotless []" "dotless (w # ws) \<longleftrightarrow> last w \<noteq> DOT \<and> dotless ws"
  by (auto simp: dotless_def)

lemma walk_append: "walk (ws @ vs) st = Option.bind (walk ws st) (walk vs)"
  by (induction ws st rule: walk.induct) auto

lemma walk_dotless: "comps_ok ws \<Longrightarrow> dotless ws \<Longrightarrow> walk ws st = Some (st @ ws)"
proof (induction ws arbitrary: st)
  case (Cons w ws)
  have "w \<noteq> [DOT]" "w \<noteq> [DOT, DOT]" using Cons.prems(2) by auto
  then show ?case using Cons by (simp add: trim_dot_def)
qed simp

lemma walk_chars:
  "walk ws st = Some st' \<Longrightarrow> \<forall>w\<in>set ws. c \<notin> set w \<Longrightarrow> \<forall>w\<in>set st. c \<notin> set w \<Longrightarrow> \<forall>w\<in>set st'. c \<notin> set w"
proof (induction ws st rule: walk.induct)
  case (2 w ws st)
  have "c \<notin> set (trim_dot w)" using 2(5) by (auto simp: trim_dot_def dest: in_set_butlastD)
  then show ?case using 2 by (auto split: if_splits dest: in_set_butlastD)
qed simp

lemma path_comps_chars: "w \<in> set (path_comps s) \<Longrightarrow> c \<notin> set s \<Longrightarrow> c \<notin> set w"
proof (induction s rule: path_comps.induct)
  case (2 a s)
  have "set (tl ys) \<subseteq> set ys" for ys :: string by (cases ys) auto
  then have "c \<notin> set (tl (dropWhile (\<lambda>x. x \<noteq> SL) (a # s)))" using 2(3) set_dropWhileD [of c "\<lambda>x. x \<noteq> SL" "a # s"] by blast
  then show ?case using 2 by (auto dest: set_takeWhileD split: if_splits)
qed simp

lemma path_comps_old:
  assumes "comps_ok old"
  shows "path_comps (if old = [] then rel else join_path old @ SL # rel) = old @ path_comps rel"
  using assms
proof (induction old rule: join_path.induct)
  case (3 w v ws)
  then show ?case using path_comps_append [of w "join_path (v # ws) @ SL # rel"] by simp
qed (simp_all add: path_comps_append)

lemma walk_rel:
  assumes "comps_ok old" and "dotless old"
  shows "walk (path_comps (if old = [] then rel else join_path old @ SL # rel)) [] = walk (path_comps rel) old"
  unfolding path_comps_old [OF assms(1)] by (simp add: walk_append walk_dotless [OF assms])

lemma walk_plain:
  assumes w: "walk (path_comps rel) old = Some st" and "plain old" and "simple_rel rel"
  shows "plain st"
proof -
  have "comps_ok st" by (rule walk_ok [OF w]) (use assms(2) path_comps_slash in \<open>auto simp: plain_def\<close>)
  moreover have "\<forall>w\<in>set st. c \<notin> set w" if "c = COLON \<or> c = NUL" for c
    by (rule walk_chars [OF w]) (use that assms(2,3) path_comps_chars in \<open>auto simp: plain_def simple_rel_def\<close>)
  ultimately show ?thesis by (auto simp: plain_def)
qed

lemma fn_FilePart_last:
  assumes dos: "dos_ok dos" and st: "plain st"
  shows "fn_FilePart dos mem (join_path st) =
     Some (if mem 0 then Some (if st = [] then [] else last st) else None, if st = [] then 0 else int (length (last st)))"
proof (cases st rule: rev_cases)
  case Nil
  then show ?thesis by (simp add: fn_FilePart_def StrDup_def StrNDup_def)
next
  case (snoc st' w)
  let ?s = "join_path (st' @ [w])"
  have p: "dos_FilePart dos ?s = length ?s - length w" using dos st snoc unfolding dos_ok_def by blast
  define pre where "pre = (if st' = [] then [] else join_path st' @ [SL])"
  have s: "?s = pre @ w" by (simp add: pre_def join_path_snoc)
  have w: "w \<noteq> []" "COLON \<notin> set w" using st snoc by auto
  then have "last ?s = last w" "last w \<noteq> COLON" using last_in_set [of w] by (simp add: s, metis)
  then have "?s ! (length ?s - 1) \<noteq> COLON" "?s \<noteq> []" using w by (auto simp: s last_conv_nth)
  then show ?thesis using p w snoc by (simp add: fn_FilePart_def StrNDup_def Let_def s)
qed

lemma strchr_None: "c \<notin> set s \<Longrightarrow> strchr s c = None"
proof -
  assume "c \<notin> set s"
  then have tw: "takeWhile (\<lambda>x. x \<noteq> c) s = s" unfolding takeWhile_eq_all_conv by auto
  show ?thesis unfolding strchr_def Let_def tw by simp
qed

text \<open>The full name of the lock that a path is relative to.\<close>

definition base_path :: "'srv handler \<Rightarrow> addr \<Rightarrow> string list \<Rightarrow> bool" where
  "base_path w fl old \<longleftrightarrow> plain old \<and> dotless old \<and>
     (if fl = NULL then old = [] else map_option efl_FullName (hp_elock (h_g w) fl) = Some (join_path old))"

lemma up_first_join:
  assumes "comps_ok old" and "dotless old" and "old \<noteq> []"
  shows "\<not> up_first (join_path old @ SL # r)" "hd (join_path old @ SL # r) \<noteq> SL"
proof -
  obtain v vs where o: "old = v # vs" using assms(3) by (cases old) auto
  have v: "v \<noteq> []" "SL \<notin> set v" "last v \<noteq> DOT" using assms(1,2) o by auto
  obtain r' where r': "join_path old @ SL # r = v @ SL # r'" by (cases vs) (auto simp: o)
  show "hd (join_path old @ SL # r) \<noteq> SL" unfolding r' using v by (cases v) auto
  show "\<not> up_first (join_path old @ SL # r)"
    unfolding r' using v by (cases v; cases "tl v"; cases "tl (tl v)") (auto simp: up_first_def split: if_splits)
qed

lemma CBuildFullName_ok:
  assumes m: "fl_members (h_g w) as" and fl: "fl = NULL \<or> fl \<in> set as" and base: "base_path w fl old"
    and rel: "simple_rel rel" and dos: "dos_ok (e_dos env)"
  shows "\<exists>b. CBuildFullName env fl rel w = Some b \<and>
     (b = Inl ERROR_NO_FREE_STORE \<or>
      (case rel_path old rel of
         Inl e \<Rightarrow> b = Inl e
       | Inr st \<Rightarrow> \<exists>l u. b = Inr (join_path st, if st = [] then [] else last st, l, u)))"
proof -
  let ?t = "h_tick w"
  have old: "plain old" "dotless old" "comps_ok old" using base by (auto simp: base_path_def plain_def)
  have rl: "rel \<noteq> []" "hd rel \<noteq> SL" "COLON \<notin> set rel" using rel by (auto simp: simple_rel_def)
  have lk: "(if fl = NULL then Some (Inr []) else do {
                 l \<leftarrow> lock_Lookup fl (h_g w);
                 (if l = NULL then Some (Inl ERROR_INVALID_LOCK) else map_option (Inr \<circ> efl_FullName) (hp_elock (h_g w) l))
               }) = Some (Inr (join_path old) :: int + string)"
    using lock_Lookup_eq [OF m, of fl] fl base by (auto simp: base_path_def map_option.compositionality [symmetric])
  define s where "s = (if old = [] then rel else join_path old @ SL # rel)"
  have jp: "join_path old = [] \<longleftrightarrow> old = []" by (rule join_path_Nil [OF old(3)])
  have colon: "COLON \<notin> set (join_path old)" using old(1) by (induction old rule: join_path.induct) auto
  have "last (join_path old) \<noteq> SL" if "old \<noteq> []"
  proof -
    have o: "old = butlast old @ [last old]" using that by simp
    have v: "last old \<noteq> []" "SL \<notin> set (last old)" using old(3) that last_in_set [OF that] by (auto simp: comps_ok_def)
    have "last (join_path old) = last (last old)" by (subst o) (simp add: join_path_snoc v(1))
    then show ?thesis using v last_in_set [OF v(1)] by metis
  qed
  moreover have "last (join_path old) \<noteq> COLON" if "old \<noteq> []" using that jp colon last_in_set by metis
  ultimately have add: "dos_AddPart (e_dos env) (join_path old) rel (length (join_path old) + length rel + 3) = Some s"
    using dos rl jp unfolding dos_ok_def s_def by auto
  have lead: "(s \<noteq> [] \<and> hd s = SL \<or> take 2 s = [DOT, DOT] \<and> (length s = 2 \<or> s ! 2 = SL)) \<longleftrightarrow> old = [] \<and> up_first rel"
    using up_first_join [OF old(3,2), of rel] rl by (auto simp: s_def up_first_def)
  have uni: "fn_PathUnify ok s = (if ok \<or> old = [] \<and> up_first rel then
       (if old = [] \<and> up_first rel then Inl ERROR_OBJECT_NOT_FOUND
        else (case walk (path_comps rel) old of None \<Rightarrow> Inl ERROR_INVALID_COMPONENT_NAME
              | Some st \<Rightarrow> Inr (join_path st, [] \<in> set (path_comps s)))) else Inl ERROR_NO_FREE_STORE)" for ok
    using fn_PathUnify_spec [of s] walk_rel [OF old(3,2), of rel]
    unfolding lead by (cases ok) (auto simp: s_def [symmetric] fn_PathUnify_def lead)
  have main: "CBuildFullName env fl rel w =
      (if \<not> e_str env ?t then Some (Inl ERROR_NO_FREE_STORE)
       else case fn_AM2UN (e_str env (?t + 1)) rel of
              None \<Rightarrow> Some (Inl ERROR_NO_FREE_STORE)
            | Some up \<Rightarrow>
               (if \<not> e_str env (?t + 2) then Some (Inl ERROR_NO_FREE_STORE)
                else (case fn_PathUnify (e_str env (?t + 3)) s of
                        Inl e \<Rightarrow> Some (Inl e)
                      | Inr (FullName, StrippedDirs) \<Rightarrow>
                          do {
                            (Name, NameLen) \<leftarrow> fn_FilePart (e_dos env) (\<lambda>i. e_str env (?t + 5 + i)) FullName;
                            Some (if Name \<noteq> None \<and> NameLen > MAX_LONGAMIGAFILENAMELEN
                                  then Inl ERROR_INVALID_COMPONENT_NAME
                                  else (case (if StrippedDirs then fn_AM2UN (e_str env (?t + 4)) FullName else Some up, Name) of
                                          (Some u, Some n) \<Rightarrow> Inr (FullName, n, NameLen, u)
                                        | _ \<Rightarrow> Inl ERROR_NO_FREE_STORE))
                          })))"
    unfolding CBuildFullName_def Let_def lk
    by (simp add: fn_PathWithoutDev_def strchr_None [OF rl(3)] fn_AddPart_def add Let_def cong: if_cong option.case_cong sum.case_cong)
  show ?thesis
  proof (cases "walk (path_comps rel) old")
    case None
    then show ?thesis unfolding main uni by (auto simp: rel_path_def fn_AM2UN_def)
  next
    case (Some st)
    have "plain st" by (rule walk_plain [OF Some old(1) rel])
    note fp = fn_FilePart_last [OF dos this, of "\<lambda>i. e_str env (?t + 5 + i)"]
    show ?thesis
    proof (cases "old = [] \<and> up_first rel")
      case True
      then show ?thesis unfolding main uni by (simp add: rel_path_def fn_AM2UN_def)
    next
      case False
      then have "rel_path old rel = (if st \<noteq> [] \<and> int (length (last st)) > MAX_LONGAMIGAFILENAMELEN
          then Inl ERROR_INVALID_COMPONENT_NAME else Inr st)" using Some by (auto simp: rel_path_def)
      moreover define J where "J = join_path st"
      moreover define nm where "nm = (if st = [] then [] else last st)"
      moreover define n where "n = (if st = [] then 0 else int (length (last st)))"
      moreover have "(st \<noteq> [] \<and> int (length (last st)) > MAX_LONGAMIGAFILENAMELEN) = (n > MAX_LONGAMIGAFILENAMELEN)"
        by (simp add: n_def)
      ultimately have r: "rel_path old rel = (if n > MAX_LONGAMIGAFILENAMELEN then Inl ERROR_INVALID_COMPONENT_NAME else Inr st)"
        and fp': "fn_FilePart (e_dos env) (\<lambda>i. e_str env (?t + 5 + i)) J = Some (if e_str env (?t + 5) then Some nm else None, n)"
        using fp by simp_all
      have un: "fn_PathUnify ok s = (if ok then Inr (J, [] \<in> set (path_comps s)) else Inl ERROR_NO_FREE_STORE)" for ok
        unfolding uni if_not_P [OF False] Some using False by (auto simp: J_def)
      show ?thesis unfolding main un r nm_def [symmetric] J_def [symmetric]
        by (cases "e_str env (?t + 5)"; cases "e_str env (?t + 4)"; cases "n > MAX_LONGAMIGAFILENAMELEN") (simp_all add: fn_AM2UN_def fp' J_def [symmetric] nm_def [symmetric])
    qed
  qed
qed

subsection \<open>The locks\<close>

definition fl_mode :: "'srv global \<Rightarrow> addr \<Rightarrow> int" where
  "fl_mode g a = fl_Access (the (hp_elock g a))"

text \<open>An exclusive lock is alone on its object; locks on the root (\<open>k\<close>) are shared.\<close>

definition locks_ok :: "u32 \<Rightarrow> 'srv global \<Rightarrow> addr list \<Rightarrow> bool" where
  "locks_ok k g as \<longleftrightarrow> fl_members g as \<and> hp_elock g NULL = None \<and>
     (\<forall>a\<in>set as. \<forall>b\<in>set as. a \<noteq> b \<longrightarrow> lk_key g a = lk_key g b \<longrightarrow> fl_mode g a = SHARED_LOCK) \<and>
     (\<forall>a\<in>set as. lk_key g a = k \<longrightarrow> fl_mode g a = SHARED_LOCK)"

text \<open>The same for the objects other than the root only, unless \<open>R\<close>:\<close>

definition locks_okr :: "bool \<Rightarrow> u32 \<Rightarrow> 'srv global \<Rightarrow> addr list \<Rightarrow> bool" where
  "locks_okr R k g as \<longleftrightarrow> fl_members g as \<and> hp_elock g NULL = None \<and>
     (\<forall>a\<in>set as. \<forall>b\<in>set as. a \<noteq> b \<longrightarrow> lk_key g a = lk_key g b \<longrightarrow> R \<or> lk_key g a \<noteq> k \<longrightarrow> fl_mode g a = SHARED_LOCK) \<and>
     (R \<longrightarrow> (\<forall>a\<in>set as. lk_key g a = k \<longrightarrow> fl_mode g a = SHARED_LOCK))"

lemma locks_okr_True: "locks_okr True k g as = locks_ok k g as"
  by (simp add: locks_okr_def locks_ok_def)

definition conflict :: "'srv global \<Rightarrow> addr list \<Rightarrow> u32 \<Rightarrow> int \<Rightarrow> bool" where
  "conflict g as key Mode \<longleftrightarrow> (\<exists>b\<in>set as. lk_key g b = key \<and> (Mode \<noteq> SHARED_LOCK \<or> fl_mode g b \<noteq> SHARED_LOCK))"

definition with_lock :: "addr \<Rightarrow> string \<Rightarrow> string \<Rightarrow> int \<Rightarrow> nfs_fh \<Rightarrow> fattr \<Rightarrow> 'srv global \<Rightarrow> 'srv global" where
  "with_lock n FullName Name Mode fh a g =
     g\<lparr>hp_elock := (hp_elock g)(n \<mapsto> \<lparr>fl_Link = dl_LockList g, fl_Key = fa_fileid a, fl_Access = Mode, efl_NFSFh = fh,
         efl_NFSType = fa_type a, efl_FullName = FullName, efl_Name = Name\<rparr>), dl_LockList := n\<rparr>"

lemma with_lock_srv [simp]: "g_srv (with_lock n FullName Name Mode fh a g) = g_srv g"
  by (simp add: with_lock_def)

lemma locks_okr_with_lock:
  assumes ok: "locks_okr R k g as" and n: "n \<noteq> NULL" "n \<notin> dom (hp_elock g)"
    and nc: "R \<or> fa_fileid a \<noteq> k \<Longrightarrow> \<not> conflict g as (fa_fileid a) Mode" and root: "R \<Longrightarrow> fa_fileid a = k \<Longrightarrow> Mode = SHARED_LOCK"
  shows "locks_okr R k (with_lock n FullName Name Mode fh a g) (n # as)"
proof -
  let ?g = "with_lock n FullName Name Mode fh a g"
  have m: "fl_members g as" using ok by (simp add: locks_okr_def)
  have fresh: "n \<notin> set as" using fl_members_alloc [OF m] n(2) by blast
  have "links ((fl_next g)(n := Some (dl_LockList g))) (dl_LockList g) as"
    by (rule links_cong [of as _ "fl_next g"]) (use m fresh in \<open>auto simp: fl_members_def\<close>)
  then have mem: "fl_members ?g (n # as)"
    using n(1) fresh by (simp add: fl_members_def with_lock_def links_Cons)
  have keep: "lk_key ?g b = lk_key g b" "fl_mode ?g b = fl_mode g b" if "b \<in> set as" for b
    using that fresh by (auto simp: with_lock_def lk_key_def fl_mode_def)
  have new: "lk_key ?g n = fa_fileid a" "fl_mode ?g n = Mode" by (simp_all add: with_lock_def lk_key_def fl_mode_def)
  have "hp_elock ?g NULL = None" using ok n(1) by (simp add: with_lock_def locks_okr_def)
  moreover have "fl_mode ?g x = SHARED_LOCK"
    if xy: "x \<in> set (n # as)" "y \<in> set (n # as)" "x \<noteq> y" "lk_key ?g x = lk_key ?g y" "R \<or> lk_key ?g x \<noteq> k" for x y
  proof (cases "x = n \<or> y = n")
    case True
    then have "\<not> conflict g as (fa_fileid a) Mode" using nc xy(4,5) new by auto
    then show ?thesis using True xy keep new fresh by (auto simp: conflict_def)
  next
    case False
    then show ?thesis using xy ok keep unfolding locks_okr_def by auto
  qed
  moreover have "fl_mode ?g x = SHARED_LOCK" if "R" "x \<in> set (n # as)" "lk_key ?g x = k" for x
    using that ok keep new root unfolding locks_okr_def by auto
  ultimately show ?thesis using mem unfolding locks_okr_def by blast
qed

lemma locks_ok_with_lock:
  assumes "locks_ok k g as" and "n \<noteq> NULL" "n \<notin> dom (hp_elock g)" and "\<not> conflict g as (fa_fileid a) Mode"
    and "fa_fileid a = k \<Longrightarrow> Mode = SHARED_LOCK"
  shows "locks_ok k (with_lock n FullName Name Mode fh a g) (n # as)"
  using locks_okr_with_lock [of True k g as n a Mode FullName Name fh] assms by (simp add: locks_okr_True)

lemma key_lookup_okr:
  assumes ok: "locks_okr R k g as" and look: "lock_LookupFromKey key g = Some old"
  shows "old = NULL \<Longrightarrow> \<not> conflict g as key Mode"
    and "old \<noteq> NULL \<Longrightarrow> old \<in> set as \<and> lk_key g old = key \<and>
      (Mode \<noteq> SHARED_LOCK \<or> fl_mode g old \<noteq> SHARED_LOCK \<longrightarrow> conflict g as key Mode) \<and>
      (R \<or> key \<noteq> k \<longrightarrow> conflict g as key Mode \<longrightarrow> Mode \<noteq> SHARED_LOCK \<or> fl_mode g old \<noteq> SHARED_LOCK)"
proof -
  have m: "fl_members g as" using ok by (simp add: locks_okr_def)
  have eq: "old = (case find (\<lambda>a. lk_key g a = key) as of None \<Rightarrow> NULL | Some a \<Rightarrow> a)"
    using lock_LookupFromKey_eq [OF m, of key] look by simp
  have nz: "NULL \<notin> set as" using m links_not_NULL unfolding fl_members_def by blast
  show "\<not> conflict g as key Mode" if "old = NULL"
  proof (cases "find (\<lambda>a. lk_key g a = key) as")
    case None
    then show ?thesis by (auto simp: conflict_def find_None_iff)
  next
    case (Some a)
    then have "a \<in> set as" by (auto simp: find_Some_iff)
    then show ?thesis using eq that nz Some by simp
  qed
  assume "old \<noteq> NULL"
  then obtain x where "find (\<lambda>a. lk_key g a = key) as = Some x" "old = x" using eq by (cases "find (\<lambda>a. lk_key g a = key) as") auto
  then have o: "old \<in> set as" "lk_key g old = key" by (auto simp: find_Some_iff)
  moreover have "Mode \<noteq> SHARED_LOCK \<or> fl_mode g old \<noteq> SHARED_LOCK \<longrightarrow> conflict g as key Mode" using o by (auto simp: conflict_def)
  moreover have "conflict g as key Mode \<longrightarrow> Mode \<noteq> SHARED_LOCK \<or> fl_mode g old \<noteq> SHARED_LOCK" if "R \<or> key \<noteq> k"
    using ok o that unfolding locks_okr_def conflict_def by metis
  ultimately show "old \<in> set as \<and> lk_key g old = key \<and>
      (Mode \<noteq> SHARED_LOCK \<or> fl_mode g old \<noteq> SHARED_LOCK \<longrightarrow> conflict g as key Mode) \<and>
      (R \<or> key \<noteq> k \<longrightarrow> conflict g as key Mode \<longrightarrow> Mode \<noteq> SHARED_LOCK \<or> fl_mode g old \<noteq> SHARED_LOCK)" by blast
qed

lemma key_lookup_conflict:
  assumes ok: "locks_ok k g as" and look: "lock_LookupFromKey key g = Some old"
  shows "old = NULL \<Longrightarrow> \<not> conflict g as key Mode"
    and "old \<noteq> NULL \<Longrightarrow> old \<in> set as \<and> lk_key g old = key \<and>
      (conflict g as key Mode \<longleftrightarrow> Mode \<noteq> SHARED_LOCK \<or> fl_mode g old \<noteq> SHARED_LOCK)"
  using key_lookup_okr [of True k g as key old Mode] assms by (auto simp: locks_okr_True)

text \<open>Nothing but the locks, the server and the clock changes:\<close>

definition caches_same :: "'srv handler \<Rightarrow> 'srv handler \<Rightarrow> bool" where
  "caches_same w w' \<longleftrightarrow> h_dirs w' = h_dirs w \<and> g_MntFh w' = g_MntFh w \<and> g_MntAttr w' = g_MntAttr w"

lemma new_lock_okr:
  assumes ok: "locks_okr R k (h_g w) as" and eo: "env_ok env" and look: "lock_LookupFromKey (fa_fileid a) (h_g w) = Some old"
    and ace: "ace = \<lparr>ace_FileId = fa_fileid a, ace_NFSFh = f, ace_FAttr = a\<rparr>"
  shows "\<exists>n r w'. do {
        (n, r3, w3) \<leftarrow> new_elock env FullName Name Mode old (Some ace) r2 w;
        (if n = NULL then Some (NULL, r3, w3) else lock_finish env n old (Some ace) r3 w3)
      } = Some (n, r, w') \<and> caches_same w w' \<and> h_attrs w' = h_attrs w \<and>
    (if n = NULL then h_g w' = h_g w \<and> (r = ERROR_NO_FREE_STORE \<or> fa_type a = NFLNK \<and> r = ERROR_IS_SOFT_LINK \<or>
        conflict (h_g w) as (fa_fileid a) Mode \<and> r = ERROR_OBJECT_IN_USE)
     else r = r2 \<and> n \<notin> dom (hp_elock (h_g w)) \<and> (R \<or> fa_fileid a \<noteq> k \<longrightarrow> \<not> conflict (h_g w) as (fa_fileid a) Mode) \<and>
       h_g w' = with_lock n FullName Name Mode f a (h_g w))"
proof -
  let ?g = "h_g w"
  obtain m mok where mem: "e_lock env (h_tick w) (hp_elock ?g) = (m, mok)" by (cases "e_lock env (h_tick w) (hp_elock ?g)")
  have "NULL \<notin> dom (hp_elock ?g)" using ok by (simp add: locks_okr_def domIff)
  then have fresh: "m \<notin> dom (hp_elock ?g)" using env_okD(4) [OF eo, of "hp_elock ?g" "h_tick w"] mem by simp
  note kc = key_lookup_okr [OF ok look, of Mode]
  show ?thesis
  proof (cases "old = NULL")
    case True
    show ?thesis
    proof (cases "fa_type a = NFLNK \<or> m = NULL \<or> \<not> mok")
      case bad: True
      then show ?thesis using True mem
        by (auto simp: new_elock_def ace lock_Create_def Let_def caches_same_def tick_def)
    next
      case False
      then show ?thesis using True mem kc fresh
        by (simp add: new_elock_def ace lock_Create_def Let_def lock_finish_def elock_set_def lock_Insert_def with_lock_def caches_same_def tick_def)
    qed
  next
    case False
    then have o: "old \<in> set as" "Mode \<noteq> SHARED_LOCK \<or> fl_mode ?g old \<noteq> SHARED_LOCK \<longrightarrow> conflict ?g as (fa_fileid a) Mode"
      "R \<or> fa_fileid a \<noteq> k \<longrightarrow> conflict ?g as (fa_fileid a) Mode \<longrightarrow> Mode \<noteq> SHARED_LOCK \<or> fl_mode ?g old \<noteq> SHARED_LOCK"
      using kc(2) by blast+
    obtain l where l: "hp_elock ?g old = Some l" using fl_members_alloc [of ?g as old] o(1) ok by (auto simp: locks_okr_def)
    have md: "fl_mode ?g old = fl_Access l" using l by (simp add: fl_mode_def)
    have om: "old \<noteq> m" using fresh l by auto
    show ?thesis
    proof (cases "Mode \<noteq> SHARED_LOCK \<or> fl_mode ?g old \<noteq> SHARED_LOCK \<or> m = NULL \<or> \<not> mok")
      case bad: True
      then show ?thesis using False mem l o(2) md
        by (auto simp: new_elock_def DupELock_def lock_Create_def Let_def caches_same_def tick_def)
    next
      case good: False
      then show ?thesis using False mem l o(2,3) md om fresh
        by (simp add: new_elock_def DupELock_def ace lock_Create_def Let_def lock_finish_def elock_set_def lock_Insert_def with_lock_def
            caches_same_def tick_def)
    qed
  qed
qed

lemma new_lock_ok:
  assumes ok: "locks_ok k (h_g w) as" and eo: "env_ok env" and look: "lock_LookupFromKey (fa_fileid a) (h_g w) = Some old"
    and ace: "ace = \<lparr>ace_FileId = fa_fileid a, ace_NFSFh = f, ace_FAttr = a\<rparr>"
  shows "\<exists>n r w'. do {
        (n, r3, w3) \<leftarrow> new_elock env FullName Name Mode old (Some ace) r2 w;
        (if n = NULL then Some (NULL, r3, w3) else lock_finish env n old (Some ace) r3 w3)
      } = Some (n, r, w') \<and> caches_same w w' \<and> h_attrs w' = h_attrs w \<and>
    (if n = NULL then h_g w' = h_g w \<and> (r = ERROR_NO_FREE_STORE \<or> fa_type a = NFLNK \<and> r = ERROR_IS_SOFT_LINK \<or>
        conflict (h_g w) as (fa_fileid a) Mode \<and> r = ERROR_OBJECT_IN_USE)
     else r = r2 \<and> n \<notin> dom (hp_elock (h_g w)) \<and> \<not> conflict (h_g w) as (fa_fileid a) Mode \<and>
       h_g w' = with_lock n FullName Name Mode f a (h_g w))"
proof -
  have okr: "locks_okr True k (h_g w) as" using ok by (simp add: locks_okr_True)
  show ?thesis using new_lock_okr [OF okr eo look ace, of FullName Name Mode r2] unfolding simp_thms .
qed

lemma root_lock_ok:
  assumes inv: "walk_inv env T ls w" and ok: "hp_elock (h_g w) NULL = None" and k: "fa_fileid (g_MntAttr w) = k"
  shows "\<exists>n r w'. do {
        (n, r3, w3) \<leftarrow> new_elock env FullName Name Mode NULL None r2 w;
        (if n = NULL then Some (NULL, r3, w3) else lock_finish env n NULL None r3 w3)
      } = Some (n, r, w') \<and> walk_inv env T ls w' \<and> caches_same w w' \<and>
    (if n = NULL then h_g w' = h_g w \<and> (r = ERROR_NO_FREE_STORE \<or> Mode \<noteq> SHARED_LOCK \<and> r = ERROR_OBJECT_IN_USE)
     else r = r2 \<and> n \<notin> dom (hp_elock (h_g w)) \<and> Mode = SHARED_LOCK \<and>
       (\<exists>a s. t_obj T k = Some (g_MntFh w, a) \<and> h_g w' = with_lock n FullName Name Mode (g_MntFh w) a ((h_g w)\<lparr>g_srv := s\<rparr>)))"
proof -
  let ?g = "h_g w"
  note i = inv [unfolded walk_inv_def]
  have eo: "env_ok env" and ac: "attrs_coh T (h_attrs w)" and ss: "static_server (e_nfs env) T (g_srv ?g)" using i by blast+
  obtain a where obj: "t_obj T k = Some (g_MntFh w, a)" using i k by blast
  have ka: "fa_fileid a = k" using i obj unfolding tree_ok_def by blast
  obtain m mok where mem: "e_lock env (h_tick w) (hp_elock ?g) = (m, mok)" by (cases "e_lock env (h_tick w) (hp_elock ?g)")
  have "NULL \<notin> dom (hp_elock ?g)" using ok by (simp add: domIff)
  then have fresh: "m \<notin> dom (hp_elock ?g)" using env_okD(4) [OF eo, of "hp_elock ?g" "h_tick w"] mem by simp
  have keep: "walk_inv env T ls w'" if "caches_same w w'" "attrs_coh T (h_attrs w')" "static_server (e_nfs env) T (g_srv (h_g w'))" for w'
    using i that by (simp add: walk_inv_def caches_same_def)
  show ?thesis
  proof (cases "Mode \<noteq> SHARED_LOCK \<or> m = NULL \<or> \<not> mok")
    case True
    then have "\<exists>r. new_elock env FullName Name Mode NULL None r2 w = Some (NULL, r, tick 1 w) \<and>
        (r = ERROR_NO_FREE_STORE \<or> Mode \<noteq> SHARED_LOCK \<and> r = ERROR_OBJECT_IN_USE)"
      using mem by (auto simp: new_elock_def DupELock_def lock_Create_def Let_def tick_def)
    then show ?thesis using keep [of "tick 1 w"] ac ss by (auto simp: caches_same_def)
  next
    case False
    let ?l = "\<lparr>fl_Link = NULL, fl_Key = fa_fileid (g_MntAttr w), fl_Access = Mode, efl_NFSFh = g_MntFh w,
        efl_NFSType = fa_type (g_MntAttr w), efl_FullName = FullName, efl_Name = Name\<rparr>"
    let ?w = "(tick 1 w)\<lparr>h_g := ?g\<lparr>hp_elock := (hp_elock ?g)(m \<mapsto> ?l)\<rparr>\<rparr>"
    have ne: "new_elock env FullName Name Mode NULL None r2 w = Some (m, r2, ?w)"
      using False mem by (simp add: new_elock_def DupELock_def lock_Create_def Let_def tick_def)
    obtain p a1 where l: "attrs_LookupFromFileId (e_clk env (h_tick ?w)) (h_attrs w) k = Some (p, a1)" "attrs_coh T a1"
       "p \<noteq> NULL \<longrightarrow> (\<exists>f a. t_obj T k = Some (f, a) \<and> hp_ace a1 p = Some \<lparr>ace_FileId = k, ace_NFSFh = f, ace_FAttr = a\<rparr>)"
      using attrs_coh_lookup [OF ac] by blast
    obtain s where ra: "root_attr env ?w = Some (Inr a, put_srv s (tick 1 (?w\<lparr>h_attrs := a1\<rparr>)))" "static_server (e_nfs env) T s"
    proof (cases "p = NULL")
      case True
      obtain s where "nfs_GetAttr (e_nfs env) (g_MntFh w) (g_srv ?g) = (Inr a, s)" "static_server (e_nfs env) T s" using static_getattr [OF ss obj] by blast
      then show ?thesis using that [of s] True l(1) k by (simp add: root_attr_def tick_def)
    next
      case pn: False
      then show ?thesis using that [of "g_srv ?g"] l(1,3) k obj ss by (simp add: root_attr_def tick_def put_srv_def)
    qed
    let ?w2 = "put_srv s (tick 1 (?w\<lparr>h_attrs := a1\<rparr>))"
    let ?w3 = "?w2\<lparr>h_g := with_lock m FullName Name Mode (g_MntFh w) a (?g\<lparr>g_srv := s\<rparr>)\<rparr>"
    have "lock_finish env m NULL None r2 ?w = Some (m, r2, ?w3)"
      using ra(1) by (simp add: lock_finish_def elock_set_def lock_Insert_def with_lock_def put_srv_def tick_def)
    moreover have "caches_same w ?w3" by (simp add: caches_same_def tick_def)
    moreover have "walk_inv env T ls ?w3" by (rule keep) (use l(2) ra(2) in \<open>simp_all add: caches_same_def tick_def put_srv_def with_lock_def\<close>)
    ultimately show ?thesis using ne False fresh obj by (intro exI [of _ m] exI [of _ r2] exI [of _ ?w3]) (auto simp: tick_def put_srv_def)
  qed
qed

text \<open>The object at a path, on the server:\<close>

definition tree_find :: "tree \<Rightarrow> u32 \<Rightarrow> nfs_fh \<Rightarrow> string list \<Rightarrow> int + nfs_fh \<times> fattr" where
  "tree_find T k fh st =
     (if st = [] then (case t_obj T k of None \<Rightarrow> Inl ERROR_OBJECT_NOT_FOUND | Some r \<Rightarrow> Inr r)
      else (case tree_walk T fh (butlast st) of
              Inl e \<Rightarrow> Inl e
            | Inr d \<Rightarrow> (case t_look T d (last st) of None \<Rightarrow> Inl ERROR_OBJECT_NOT_FOUND | Some r \<Rightarrow> Inr r)))"

text \<open>Why a lock is refused:\<close>

definition refused :: "(int + string list) \<Rightarrow> (string list \<Rightarrow> int + nfs_fh \<times> fattr) \<Rightarrow> 'srv global \<Rightarrow> addr list \<Rightarrow> int \<Rightarrow> int \<Rightarrow> bool" where
  "refused path fnd g as Mode r \<longleftrightarrow>
     r = ERROR_NO_FREE_STORE \<or>
     (case path of
        Inl e \<Rightarrow> r = e
      | Inr st \<Rightarrow>
          (case fnd st of
             Inl e \<Rightarrow> r = e
           | Inr (f, a) \<Rightarrow>
               fa_type a = NFLNK \<and> r = ERROR_IS_SOFT_LINK \<or>
               (conflict g as (fa_fileid a) Mode \<or> st = [] \<and> Mode \<noteq> SHARED_LOCK) \<and> r = ERROR_OBJECT_IN_USE))"

definition granted :: "(int + string list) \<Rightarrow> (string list \<Rightarrow> int + nfs_fh \<times> fattr) \<Rightarrow> 'srv global \<Rightarrow> addr list \<Rightarrow> int \<Rightarrow>
    addr \<Rightarrow> 'srv global \<Rightarrow> bool" where
  "granted path fnd g as Mode n g' \<longleftrightarrow>
     (\<exists>st f a s. path = Inr st \<and> fnd st = Inr (f, a) \<and> n \<notin> dom (hp_elock g) \<and> \<not> conflict g as (fa_fileid a) Mode \<and>
        (st = [] \<longrightarrow> Mode = SHARED_LOCK) \<and>
        g' = with_lock n (join_path st) (if st = [] then [] else last st) Mode f a (g\<lparr>g_srv := s\<rparr>))"

lemma srv_simps [simp]:
  "fl_members (g\<lparr>g_srv := s\<rparr>) as = fl_members g as" "lk_key (g\<lparr>g_srv := s\<rparr>) = lk_key g" "fl_mode (g\<lparr>g_srv := s\<rparr>) = fl_mode g"
  "conflict (g\<lparr>g_srv := s\<rparr>) as key Mode = conflict g as key Mode" "locks_ok k (g\<lparr>g_srv := s\<rparr>) as = locks_ok k g as"
  "lock_LookupFromKey key (g\<lparr>g_srv := s\<rparr>) = lock_LookupFromKey key g"
proof -
  have n: "fl_next (g\<lparr>g_srv := s\<rparr>) = fl_next g" by (simp add: fl_next_def fun_eq_iff)
  show m: "fl_members (g\<lparr>g_srv := s\<rparr>) as = fl_members g as" by (simp add: fl_members_def n)
  show lk: "lk_key (g\<lparr>g_srv := s\<rparr>) = lk_key g" "fl_mode (g\<lparr>g_srv := s\<rparr>) = fl_mode g"
    by (simp_all add: lk_key_def fl_mode_def fun_eq_iff)
  show "conflict (g\<lparr>g_srv := s\<rparr>) as key Mode = conflict g as key Mode" by (simp add: conflict_def lk)
  show "locks_ok k (g\<lparr>g_srv := s\<rparr>) as = locks_ok k g as" by (simp add: locks_ok_def m lk)
  show "lock_LookupFromKey key (g\<lparr>g_srv := s\<rparr>) = lock_LookupFromKey key g" by (simp add: lock_LookupFromKey_def n)
qed

lemma cstr_of_id: "NUL \<notin> set s \<Longrightarrow> cstr_of s = s"
  unfolding cstr_of_def takeWhile_eq_all_conv by auto

lemma RootLocateAndLock_ok:
  assumes inv: "walk_inv env T ls w" and ok: "locks_ok k (h_g w) as" and k: "fa_fileid (g_MntAttr w) = k"
    and mode: "Mode = SHARED_LOCK \<or> Mode = EXCLUSIVE_LOCK" and fl: "fl = NULL \<or> fl \<in> set as" and base: "base_path w fl old"
    and rel: "simple_rel rel" and dos: "dos_ok (e_dos env)"
  shows "\<exists>n r w' ls'. RootLocateAndLock env fl rel Mode R w = Some (n, r, w') \<and> walk_inv env T ls' w' \<and>
    g_MntFh w' = g_MntFh w \<and> g_MntAttr w' = g_MntAttr w \<and>
    (if n = NULL then (\<exists>s. h_g w' = (h_g w)\<lparr>g_srv := s\<rparr>) \<and> refused (rel_path old rel) (tree_find T k (g_MntFh w)) (h_g w) as Mode r
     else r = R \<and> granted (rel_path old rel) (tree_find T k (g_MntFh w)) (h_g w) as Mode n (h_g w'))"
proof -
  let ?P = "rel_path old rel" and ?F = "tree_find T k (g_MntFh w)" and ?g = "h_g w" and ?w = "tick 7 w"
  have m: "fl_members ?g as" using ok by (simp add: locks_ok_def)
  obtain b where b: "CBuildFullName env fl rel w = Some b"
    "b = Inl ERROR_NO_FREE_STORE \<or> (case ?P of Inl e \<Rightarrow> b = Inl e
        | Inr st \<Rightarrow> \<exists>l u. b = Inr (join_path st, if st = [] then [] else last st, l, u))"
    using CBuildFullName_ok [OF m fl base rel dos] by blast
  have md: "\<not> (Mode \<noteq> SHARED_LOCK \<and> Mode \<noteq> EXCLUSIVE_LOCK)" using mode by blast
  have g: "\<exists>s. ?g = ?g\<lparr>g_srv := s\<rparr>" by (rule exI [of _ "g_srv ?g"]) simp
  show ?thesis
  proof (cases b)
    case (Inl e)
    then have "RootLocateAndLock env fl rel Mode R w = Some (NULL, e, ?w)" 
      unfolding RootLocateAndLock_def if_not_P [OF md] using b(1) by simp
    moreover have "refused ?P ?F ?g as Mode e" using b(2) Inl by (auto simp: refused_def split: sum.splits)
    ultimately show ?thesis using inv g by (intro exI [of _ NULL] exI [of _ e] exI [of _ ?w] exI [of _ ls]) (simp add: tick_def [symmetric])
  next
    case (Inr t)
    obtain st l u where P: "?P = Inr st" and t: "b = Inr (join_path st, if st = [] then [] else last st, l, u)"
      using b(2) Inr by (cases ?P) auto
    have pl: "plain st" by (rule walk_plain [of rel old])
        (use P base rel in \<open>auto simp: rel_path_def base_path_def split: if_splits option.splits\<close>)
    have st: "comps_ok st" "no_nul st" using pl by (auto simp: plain_def no_nul_def)
    have inv7: "walk_inv env T ls ?w" using inv by simp
    obtain D r1 w1 ls1 where d: "RootLocateDir env (join_path st) R ?w = Some (D, r1, w1)" "walk_inv env T ls1 w1" "walk_same ?w w1"
      "walk_result (tree_walk T (g_MntFh w) (butlast st)) D r1 R w1"
      using RootLocateDir_ok [OF inv7 st, of R] by auto
    have same1: "walk_same w w1" using d(3) by (rule walk_same_trans [rotated]) simp
    obtain s1 where s1: "h_g w1 = ?g\<lparr>g_srv := s1\<rparr>" "g_MntFh w1 = g_MntFh w" "g_MntAttr w1 = g_MntAttr w" using same1 by (auto simp: walk_same_def)
    have ok1: "locks_ok k (h_g w1) as" using ok s1 by simp
    have none1: "hp_elock (h_g w1) NULL = None" using ok1 by (simp add: locks_ok_def)
    define nm where "nm = cstr_of (if st = [] then [] else last st)"
    have nm: "nm = (if st = [] then [] else last st)" unfolding nm_def by (rule cstr_of_id) (use st(2) in \<open>auto simp: no_nul_def\<close>)
    have unf: "RootLocateAndLock env fl rel Mode R w =
       (if D = NULL then Some (NULL, r1, w1)
        else if st \<noteq> [] then
          do {
            (NE, ACE, r2, w2) \<leftarrow> GetNameEntry env D nm True r1 w1;
            (if NE = NULL then Some (NULL, r2, w2)
             else do {
               ace \<leftarrow> hp_ace (h_attrs w2) ACE;
               old \<leftarrow> lock_LookupFromKey (fa_fileid (ace_FAttr ace)) (h_g w2);
               (n, r3, w3) \<leftarrow> new_elock env (join_path st) nm Mode old (Some ace) r2 w2;
               (if n = NULL then Some (NULL, r3, w3) else lock_finish env n old (Some ace) r3 w3)
             })
          }
        else do {
          (n, r3, w3) \<leftarrow> new_elock env (join_path st) nm Mode NULL None r1 w1;
          (if n = NULL then Some (NULL, r3, w3) else lock_finish env n NULL None r3 w3)
        })"
      unfolding RootLocateAndLock_def if_not_P [OF md] b(1) t Option.bind.bind_lunit Let_def sum.case prod.case d(1)
        nm_def [symmetric] join_path_Nil [OF st(1)] by (rule refl)
    show ?thesis
    proof (cases "D = NULL")
      case True
      have "refused ?P ?F ?g as Mode r1"
        using d(4) True P by (auto simp: refused_def walk_result_def tree_find_def)
      then show ?thesis using unf True d(2) s1 by auto
    next
      case dn: False
      obtain dd where dd: "hp_dce (dc_store (h_dirs w1)) D = Some dd" "tree_walk T (g_MntFh w) (butlast st) = Inr (dce_NFSFh dd)" "r1 = R"
        using d(4) dn by (auto simp: walk_result_def)
      show ?thesis
      proof (cases "st = []")
        case True
        obtain n r w' where n: "do { (n, r3, w3) \<leftarrow> new_elock env (join_path st) nm Mode NULL None R w1;
            (if n = NULL then Some (NULL, r3, w3) else lock_finish env n NULL None r3 w3) } = Some (n, r, w')"
          "walk_inv env T ls1 w'" "caches_same w1 w'"
          "if n = NULL then h_g w' = h_g w1 \<and> (r = ERROR_NO_FREE_STORE \<or> Mode \<noteq> SHARED_LOCK \<and> r = ERROR_OBJECT_IN_USE)
           else r = R \<and> n \<notin> dom (hp_elock (h_g w1)) \<and> Mode = SHARED_LOCK \<and>
             (\<exists>a s. t_obj T k = Some (g_MntFh w1, a) \<and> h_g w' = with_lock n (join_path st) nm Mode (g_MntFh w1) a ((h_g w1)\<lparr>g_srv := s\<rparr>))"
          using root_lock_ok [OF d(2) none1, of k "join_path st" nm Mode R] s1(3) k by auto
        have run: "RootLocateAndLock env fl rel Mode R w = Some (n, r, w')" using unf dn True n(1) dd(3) by simp
        obtain a0 where obj: "t_obj T k = Some (g_MntFh w, a0)" "fa_fileid a0 = k" using inv k unfolding walk_inv_def tree_ok_def by blast
        have F: "?F st = Inr (g_MntFh w, a0)" using True obj by (simp add: tree_find_def)
        have nc: "\<not> conflict ?g as k SHARED_LOCK" using ok unfolding locks_ok_def conflict_def by blast
        have "if n = NULL then (\<exists>s. h_g w' = ?g\<lparr>g_srv := s\<rparr>) \<and> refused ?P ?F ?g as Mode r
           else r = R \<and> granted ?P ?F ?g as Mode n (h_g w')"
        proof (cases "n = NULL")
          case n0: True
          have r: "h_g w' = ?g\<lparr>g_srv := s1\<rparr>" "r = ERROR_NO_FREE_STORE \<or> Mode \<noteq> SHARED_LOCK \<and> r = ERROR_OBJECT_IN_USE"
            using n(4) n0 s1(1) by simp_all
          have "refused ?P ?F ?g as Mode r" unfolding refused_def P sum.case F prod.case using r(2) True by blast
          then show ?thesis using n0 r(1) by auto
        next
          case n1: False
          obtain a s where r: "r = R" "n \<notin> dom (hp_elock (h_g w1))" "Mode = SHARED_LOCK" "t_obj T k = Some (g_MntFh w1, a)"
            "h_g w' = with_lock n (join_path st) nm Mode (g_MntFh w1) a ((h_g w1)\<lparr>g_srv := s\<rparr>)" using n(4) n1 by auto
          have a: "a = a0" "n \<notin> dom (hp_elock ?g)" "(h_g w1)\<lparr>g_srv := s\<rparr> = ?g\<lparr>g_srv := s\<rparr>" using r(2,4) obj s1 by simp_all
          have "granted ?P ?F ?g as Mode n (h_g w')" unfolding granted_def
            using P F a nc obj(2) r(3,5) s1(2) nm
            by (intro exI [of _ st] exI [of _ "g_MntFh w"] exI [of _ a0] exI [of _ s]) simp
          then show ?thesis using n1 r(1) by simp
        qed
        then show ?thesis using run n(2,3) s1 unfolding caches_same_def by auto
      next
        case False
        obtain NE ACE r2 w2 ls2 where e: "GetNameEntry env D nm True R w1 = Some (NE, ACE, r2, w2)" "walk_inv env T ls2 w2" "walk_same w1 w2"
          "name_result (t_look T (dce_NFSFh dd) nm) NE ACE r2 R w2"
          using GetNameEntry_ok [OF d(2) dd(1), of nm R] by blast
        obtain s2 where s2: "h_g w2 = ?g\<lparr>g_srv := s2\<rparr>" "g_MntFh w2 = g_MntFh w" "g_MntAttr w2 = g_MntAttr w"
          using walk_same_trans [OF same1 e(3)] by (auto simp: walk_same_def)
        have F: "?F st = (case t_look T (dce_NFSFh dd) nm of None \<Rightarrow> Inl ERROR_OBJECT_NOT_FOUND | Some r \<Rightarrow> Inr r)"
          using False dd(2) nm by (simp add: tree_find_def)
        show ?thesis
        proof (cases "NE = NULL")
          case True
          have "refused ?P ?F ?g as Mode r2" using e(4) True P F by (auto simp: refused_def name_result_def split: option.splits)
          then show ?thesis using unf dn False dd(3) e(1,2) True s2 by auto
        next
          case ne: False
          obtain f a where fa: "t_look T (dce_NFSFh dd) nm = Some (f, a)" using e(4) ne by (auto simp: name_result_def split: option.splits)
          let ?ace = "\<lparr>ace_FileId = fa_fileid a, ace_NFSFh = f, ace_FAttr = a\<rparr>"
          have ace: "r2 = R" "hp_ace (h_attrs w2) ACE = Some ?ace" using e(4) ne fa by (auto simp: name_result_def)
          have ok2: "locks_ok k (h_g w2) as" using ok s2 by simp
          have eo: "env_ok env" using inv unfolding walk_inv_def by blast
          obtain old' where look: "lock_LookupFromKey (fa_fileid a) (h_g w2) = Some old'"
            using lock_LookupFromKey_eq [of "h_g w2" as] ok2 by (auto simp: locks_ok_def)
          obtain n r w' where n: "do { (n, r3, w3) \<leftarrow> new_elock env (join_path st) nm Mode old' (Some ?ace) R w2;
              (if n = NULL then Some (NULL, r3, w3) else lock_finish env n old' (Some ?ace) r3 w3) } = Some (n, r, w')"
            "caches_same w2 w'" "h_attrs w' = h_attrs w2"
            "if n = NULL then h_g w' = h_g w2 \<and> (r = ERROR_NO_FREE_STORE \<or> fa_type a = NFLNK \<and> r = ERROR_IS_SOFT_LINK \<or>
                conflict (h_g w2) as (fa_fileid a) Mode \<and> r = ERROR_OBJECT_IN_USE)
             else r = R \<and> n \<notin> dom (hp_elock (h_g w2)) \<and> \<not> conflict (h_g w2) as (fa_fileid a) Mode \<and>
               h_g w' = with_lock n (join_path st) nm Mode f a (h_g w2)"
            using new_lock_ok [OF ok2 eo look refl, of "join_path st" nm Mode f R] by blast
          have run: "RootLocateAndLock env fl rel Mode R w = Some (n, r, w')" using unf dn False dd(3) e(1) ne ace look n(1) by simp
          have "g_srv (h_g w') = g_srv (h_g w2)" using n(4) by (auto split: if_splits)
          then have inv': "walk_inv env T ls2 w'" using e(2) n(2,3) by (simp add: walk_inv_def caches_same_def)
          have F': "?F st = Inr (f, a)" using F fa by simp
          have "if n = NULL then (\<exists>s. h_g w' = ?g\<lparr>g_srv := s\<rparr>) \<and> refused ?P ?F ?g as Mode r
             else r = R \<and> granted ?P ?F ?g as Mode n (h_g w')"
          proof (cases "n = NULL")
            case n0: True
            have r: "h_g w' = ?g\<lparr>g_srv := s2\<rparr>" "r = ERROR_NO_FREE_STORE \<or> fa_type a = NFLNK \<and> r = ERROR_IS_SOFT_LINK \<or>
                conflict ?g as (fa_fileid a) Mode \<and> r = ERROR_OBJECT_IN_USE" using n(4) n0 s2(1) by simp_all
            have "refused ?P ?F ?g as Mode r" unfolding refused_def P sum.case F' prod.case using r(2) by blast
            then show ?thesis using n0 r(1) by auto
          next
            case n1: False
            then have r: "r = R" "n \<notin> dom (hp_elock ?g)" "\<not> conflict ?g as (fa_fileid a) Mode"
              "h_g w' = with_lock n (join_path st) nm Mode f a (?g\<lparr>g_srv := s2\<rparr>)" using n(4) s2(1) by simp_all
            have "granted ?P ?F ?g as Mode n (h_g w')" unfolding granted_def
              using P F' False r nm by (intro exI [of _ st] exI [of _ f] exI [of _ a] exI [of _ s2]) simp
            then show ?thesis using n1 r(1) by simp
          qed
          then show ?thesis using run inv' n(2) s2 unfolding caches_same_def by auto
        qed
      qed
    qed
  qed
qed

subsection \<open>The packet actions\<close>

lemma res_simps [simp]:
  "fl_members (g\<lparr>g_Res1 := x, g_Res2 := y\<rparr>) as = fl_members g as" "locks_ok k (g\<lparr>g_Res1 := x, g_Res2 := y\<rparr>) as = locks_ok k g as"
  "fl_members (g\<lparr>g_Res1 := x\<rparr>) as = fl_members g as" "locks_ok k (g\<lparr>g_Res1 := x\<rparr>) as = locks_ok k g as"
proof -
  have n: "fl_next (g\<lparr>g_Res1 := x, g_Res2 := y\<rparr>) = fl_next g" "fl_next (g\<lparr>g_Res1 := x\<rparr>) = fl_next g" by (simp_all add: fl_next_def fun_eq_iff)
  show m: "fl_members (g\<lparr>g_Res1 := x, g_Res2 := y\<rparr>) as = fl_members g as" "fl_members (g\<lparr>g_Res1 := x\<rparr>) as = fl_members g as"
    by (simp_all add: fl_members_def n)
  show "locks_ok k (g\<lparr>g_Res1 := x, g_Res2 := y\<rparr>) as = locks_ok k g as" "locks_ok k (g\<lparr>g_Res1 := x\<rparr>) as = locks_ok k g as"
    by (simp_all add: locks_ok_def m lk_key_def fl_mode_def)
qed

lemma walk_inv_h_g [simp]: "g_srv g = g_srv (h_g w) \<Longrightarrow> walk_inv env T ls (w\<lparr>h_g := g\<rparr>) = walk_inv env T ls w"
  by (simp add: walk_inv_def)

lemma caches_ok_h_g [simp]: "caches_ok env T ls (w\<lparr>h_g := g\<rparr>) = caches_ok env T ls w"
  by (simp add: caches_ok_def)

lemma h_SetRes_simps:
  "h_SetRes r1 r2 w = (r1, w\<lparr>h_g := (h_g w)\<lparr>g_Res1 := r1, g_Res2 := r2\<rparr>\<rparr>)" "h_SetRes1 r1 w = (r1, w\<lparr>h_g := (h_g w)\<lparr>g_Res1 := r1\<rparr>\<rparr>)"
  by (simp_all add: h_SetRes_def h_SetRes1_def SetRes_def SetRes1_def)

text \<open>No name stands for the root, but for the two that a Unix server has in every directory. A path
  leads to them only if one of its components is \<open>...\<close>, of which \<open>fn_PathUnify\<close> makes \<open>..\<close>.\<close>

definition root_apart :: "tree \<Rightarrow> u32 \<Rightarrow> bool" where
  "root_apart T k \<longleftrightarrow> (\<forall>fh nm f a. t_look T fh nm = Some (f, a) \<longrightarrow> fa_fileid a = k \<longrightarrow> nm = [DOT] \<or> nm = [DOT, DOT])"

definition three_dots :: "string \<Rightarrow> bool" where
  "three_dots rel \<longleftrightarrow> [DOT, DOT, DOT] \<in> set (path_comps rel)"

lemma trim_dot_dots:
  assumes "w \<noteq> [DOT]" and "w \<noteq> [DOT, DOT]" and "w \<noteq> [DOT, DOT, DOT]"
  shows "trim_dot w \<noteq> [DOT] \<and> trim_dot w \<noteq> [DOT, DOT]"
  using assms by (cases w rule: rev_cases) (auto simp: trim_dot_def)

lemma walk_no_dots:
  "walk ws st = Some st' \<Longrightarrow> [DOT, DOT, DOT] \<notin> set ws \<Longrightarrow> \<forall>w\<in>set st. w \<noteq> [DOT] \<and> w \<noteq> [DOT, DOT] \<Longrightarrow>
   \<forall>w\<in>set st'. w \<noteq> [DOT] \<and> w \<noteq> [DOT, DOT]"
proof (induction ws arbitrary: st)
  case (Cons w ws)
  have ws: "[DOT, DOT, DOT] \<notin> set ws" and w3: "w \<noteq> [DOT, DOT, DOT]" using Cons.prems(2) by auto
  consider "w = [] \<or> w = [DOT, DOT]" | "w = [DOT]" | "w \<noteq> []" "w \<noteq> [DOT]" "w \<noteq> [DOT, DOT]" by blast
  then show ?case
  proof cases
    case 1
    then have "walk ws (butlast st) = Some st'" using Cons.prems(1) by (simp split: if_split_asm)
    moreover have "\<forall>w\<in>set (butlast st). w \<noteq> [DOT] \<and> w \<noteq> [DOT, DOT]" using Cons.prems(3) in_set_butlastD by fast
    ultimately show ?thesis using Cons.IH ws by blast
  next
    case 2
    then have "walk ws st = Some st'" using Cons.prems(1) by simp
    then show ?thesis using Cons.IH ws Cons.prems(3) by blast
  next
    case 3
    then have "walk ws (st @ [trim_dot w]) = Some st'" using Cons.prems(1) by simp
    moreover have "\<forall>v\<in>set (st @ [trim_dot w]). v \<noteq> [DOT] \<and> v \<noteq> [DOT, DOT]" using Cons.prems(3) trim_dot_dots [OF 3(2,3) w3] by simp
    ultimately show ?thesis using Cons.IH ws by blast
  qed
qed simp

lemma rel_path_no_dots:
  assumes "rel_path old rel = Inr st" and "dotless old" and "\<not> three_dots rel" and "st \<noteq> []"
  shows "last st \<noteq> [DOT] \<and> last st \<noteq> [DOT, DOT]"
proof -
  have "walk (path_comps rel) old = Some st" using assms(1) by (auto simp: rel_path_def split: if_splits option.splits)
  moreover have "\<forall>w\<in>set old. w \<noteq> [DOT] \<and> w \<noteq> [DOT, DOT]" using assms(2) by (auto simp: dotless_def)
  ultimately have "\<forall>w\<in>set st. w \<noteq> [DOT] \<and> w \<noteq> [DOT, DOT]" using walk_no_dots assms(3) unfolding three_dots_def by blast
  then show ?thesis using assms(4) last_in_set by blast
qed

lemma tree_find_apart:
  assumes "root_apart T k" and "tree_find T k fh st = Inr (f, a)" and "fa_fileid a = k"
    and "st \<noteq> [] \<Longrightarrow> last st \<noteq> [DOT] \<and> last st \<noteq> [DOT, DOT]"
  shows "st = []"
proof (rule ccontr)
  assume st: "st \<noteq> []"
  then obtain d where "t_look T d (last st) = Some (f, a)" using assms(2) by (auto simp: tree_find_def split: sum.splits option.splits)
  then show False using assms(1,3,4) st unfolding root_apart_def by blast
qed

text \<open>The lock \<open>l\<close> that is granted for a path.\<close>

definition lock_of :: "(int + string list) \<Rightarrow> (string list \<Rightarrow> int + nfs_fh \<times> fattr) \<Rightarrow> int \<Rightarrow> elock \<Rightarrow> bool" where
  "lock_of path fnd Mode l \<longleftrightarrow>
     (\<exists>st f a. path = Inr st \<and> fnd st = Inr (f, a) \<and> efl_NFSFh l = f \<and> efl_NFSType l = fa_type a \<and> fl_Key l = fa_fileid a \<and>
        fl_Access l = Mode \<and> efl_FullName l = join_path st \<and> efl_Name l = (if st = [] then [] else last st))"

lemma granted_lock:
  assumes gr: "granted P (tree_find T k fh) g as Mode n g'" and ok: "locks_ok k g as" and n: "n \<noteq> NULL"
    and T: "root_apart T k" "\<And>st. P = Inr st \<Longrightarrow> st \<noteq> [] \<Longrightarrow> last st \<noteq> [DOT] \<and> last st \<noteq> [DOT, DOT]"
  shows "locks_ok k g' (n # as)" and "\<exists>l. hp_elock g' n = Some l \<and> lock_of P (tree_find T k fh) Mode l"
    and "\<forall>b\<in>set as. hp_elock g' b = hp_elock g b" and "\<exists>l. hp_elock g' n = Some l \<and> \<not> conflict g as (fl_Key l) Mode"
proof -
  obtain st f a s where g: "P = Inr st" "tree_find T k fh st = Inr (f, a)" "n \<notin> dom (hp_elock g)" "\<not> conflict g as (fa_fileid a) Mode"
    "st = [] \<longrightarrow> Mode = SHARED_LOCK"
    "g' = with_lock n (join_path st) (if st = [] then [] else last st) Mode f a (g\<lparr>g_srv := s\<rparr>)"
    using gr unfolding granted_def by blast
  show "locks_ok k g' (n # as)" unfolding g(6)
    by (rule locks_ok_with_lock) (use ok n g(3,4,5) tree_find_apart [OF T(1) g(2) _ T(2) [OF g(1)]] in auto)
  show "\<exists>l. hp_elock g' n = Some l \<and> lock_of P (tree_find T k fh) Mode l" "\<exists>l. hp_elock g' n = Some l \<and> \<not> conflict g as (fl_Key l) Mode"
    using g by (auto simp: with_lock_def lock_of_def)
  have "n \<notin> set as" using fl_members_alloc [of g as n] ok g(3) by (auto simp: locks_ok_def)
  then show "\<forall>b\<in>set as. hp_elock g' b = hp_elock g b" by (auto simp: g(6) with_lock_def)
qed

lemma act_LOCATE_OBJECT_ok:
  assumes inv: "walk_inv env T ls w" and ok: "locks_ok k (h_g w) as" and k: "fa_fileid (g_MntAttr w) = k" and T: "root_apart T k"
    and mode: "Mode = SHARED_LOCK \<or> Mode = EXCLUSIVE_LOCK" and fl: "fl = NULL \<or> fl \<in> set as" and base: "base_path w fl old"
    and rel: "simple_rel rel" "\<not> three_dots rel" "length rel < 256" and dos: "dos_ok (e_dos env)"
  defines "P \<equiv> rel_path old rel" and "F \<equiv> tree_find T k (g_MntFh w)"
  shows "\<exists>r w' ls'. act_LOCATE_OBJECT env fl (char_of (length rel) # rel @ rest) Mode w = Some (r, w') \<and> walk_inv env T ls' w' \<and>
    (if r = 0 then locks_ok k (h_g w') as \<and> hp_elock (h_g w') = hp_elock (h_g w) \<and> refused P F (h_g w) as Mode (g_Res2 (h_g w'))
     else \<exists>n l. r = int n \<and> locks_ok k (h_g w') (n # as) \<and> hp_elock (h_g w') n = Some l \<and> lock_of P F Mode l \<and>
       \<not> conflict (h_g w) as (fl_Key l) Mode \<and> (\<forall>b\<in>set as. hp_elock (h_g w') b = hp_elock (h_g w) b))"
proof -
  have len: "bstr_len (char_of (length rel) # rel @ rest) = length rel" using rel(3) by (simp add: bstr_len_def)
  have b2c: "fn_B2CStr m (char_of (length rel) # rel @ rest) = Some (if m then Some rel else None, length rel)" for m
    unfolding fn_B2CStr_def Let_def len by simp
  have cs: "cstr_of rel = rel" by (rule cstr_of_id) (use rel(1) in \<open>simp add: simple_rel_def\<close>)
  have inv1: "walk_inv env T ls (tick 1 w)" and ok1: "locks_ok k (h_g (tick 1 w)) as" and base1: "base_path (tick 1 w) fl old"
    using inv ok base by (simp_all add: base_path_def)
  have nd: "last st \<noteq> [DOT] \<and> last st \<noteq> [DOT, DOT]" if "P = Inr st" "st \<noteq> []" for st
    by (rule rel_path_no_dots [of old rel]) (use that base rel in \<open>simp_all add: P_def base_path_def\<close>)
  show ?thesis
  proof (cases "e_str env (h_tick w)")
    case False
    then show ?thesis using inv ok by (simp add: act_LOCATE_OBJECT_def b2c refused_def h_SetRes_simps) (rule exI, simp)
  next
    case True
    obtain n r w' ls' where d: "RootLocateAndLock env fl rel Mode 0 (tick 1 w) = Some (n, r, w')" "walk_inv env T ls' w'"
      "if n = NULL then (\<exists>s. h_g w' = (h_g w)\<lparr>g_srv := s\<rparr>) \<and> refused P F (h_g w) as Mode r
       else r = 0 \<and> granted P F (h_g w) as Mode n (h_g w')"
      using RootLocateAndLock_ok [OF inv1 ok1 _ mode fl base1 rel(1) dos, of 0, unfolded handler_upd, OF k] unfolding P_def F_def by blast
    have run: "act_LOCATE_OBJECT env fl (char_of (length rel) # rel @ rest) Mode w =
        Some (if n \<noteq> NULL then h_SetRes (int n) 0 w' else h_SetRes DOSFALSE r w')"
      using d(1) True by (simp add: act_LOCATE_OBJECT_def b2c cs)
    show ?thesis
    proof (cases "n = NULL")
      case n0: True
      then obtain s where s: "h_g w' = (h_g w)\<lparr>g_srv := s\<rparr>" "refused P F (h_g w) as Mode r" using d(3) by auto
      have d': "walk_inv env T ls' w'" by (rule d(2))
      show ?thesis unfolding run using n0 s ok by (simp add: h_SetRes_simps) (rule exI [of _ ls'], rule d')
    next
      case n1: False
      note gl = granted_lock [where P = P and fh = "g_MntFh w" and Mode = Mode and g' = "h_g w'", OF _ ok n1 T nd, folded F_def]
      have gr: "granted P F (h_g w) as Mode n (h_g w')" using d(3) n1 by simp
      obtain l where l: "hp_elock (h_g w') n = Some l" "lock_of P F Mode l" "\<not> conflict (h_g w) as (fl_Key l) Mode"
        using gl(2,4) [OF gr] by auto
      show ?thesis unfolding run using n1 d(2) gl(1,3) [OF gr] l by (auto simp: h_SetRes_simps)
    qed
  qed
qed

text \<open>C6. \<open>ACTION_LOCATE_OBJECT\<close> with a name relative to a lock or to the root, while the server
  answers from one unchanging tree. The name is not empty, does not begin with a slash and has
  no colon (\<open>simple_rel\<close>) and no component \<open>...\<close> (\<open>three_dots\<close>: \<open>fn_PathUnify\<close> makes \<open>..\<close> of it, which the
  server follows); the components of the lock's own full name do not end in a dot (\<open>base_path\<close>);
  and only \<open>.\<close> and \<open>..\<close> lead back to the root on the server (\<open>root_apart\<close>). Then the action ends and
  touches allocated memory only. The lock it hands out stands for the object that the server
  itself has at the path, has the wanted mode, and conflicts with no lock there is; a refused
  lock has its reason in \<open>Res2\<close> (the path, the server's own answer, a soft link, a conflicting
  lock, or no memory) and changes no lock. An exclusive lock is still alone on its object.\<close>

theorem act_LOCATE_OBJECT_locks:
  assumes inv: "walk_inv env T ls w" and ok: "locks_ok k (h_g w) as" and k: "fa_fileid (g_MntAttr w) = k" and T: "root_apart T k"
    and mode: "Mode = SHARED_LOCK \<or> Mode = EXCLUSIVE_LOCK" and fl: "fl = NULL \<or> fl \<in> set as" and base: "base_path w fl old"
    and rel: "simple_rel rel" "\<not> three_dots rel" "length rel < 256" and dos: "dos_ok (e_dos env)"
  defines "P \<equiv> rel_path old rel" and "F \<equiv> tree_find T k (g_MntFh w)"
  shows "\<exists>r w' ls'. act_LOCATE_OBJECT env fl (char_of (length rel) # rel @ rest) Mode w = Some (r, w') \<and> walk_inv env T ls' w' \<and>
    (if r = 0 then locks_ok k (h_g w') as \<and> hp_elock (h_g w') = hp_elock (h_g w) \<and> refused P F (h_g w) as Mode (g_Res2 (h_g w'))
     else \<exists>n l. r = int n \<and> locks_ok k (h_g w') (n # as) \<and> hp_elock (h_g w') n = Some l \<and> lock_of P F Mode l \<and>
       \<not> conflict (h_g w) as (fl_Key l) Mode \<and> (\<forall>b\<in>set as. hp_elock (h_g w') b = hp_elock (h_g w) b))"
  unfolding P_def F_def by (rule act_LOCATE_OBJECT_ok [OF assms(1-11)])

lemma toy_root_apart: "root_apart toy_tree 1"
  by (auto simp: root_apart_def toy_tree_def toy_fattr_def toy_res_def)

lemma toy_locks_ok: "locks_ok k (cleared_global ()) []"
  by (simp add: locks_ok_def fl_members_def cleared_global_def links_def)

lemma toy_locate:
  defines "w \<equiv> toy_handler (cleared_global ())"
  shows "locks_ok 1 (h_g w) []" "fa_fileid (g_MntAttr w) = 1" "g_MntFh w = [1]" "h_g w = cleared_global ()" "base_path w NULL []"
    "simple_rel ''docs''" "\<not> three_dots ''docs''" "length ''docs'' < 256" "dos_ok (e_dos toy_env)" "rel_path [] ''docs'' = Inr [''docs'']"
    "tree_find toy_tree 1 [1] [''docs''] = Inr ([2], toy_fattr NFDIR 2)" "char_of (length ''docs'') # ''docs'' @ [] = CHR 0x04 # ''docs''"
proof -
  show h: "h_g w = cleared_global ()" "fa_fileid (g_MntAttr w) = 1" "g_MntFh w = [1]" by (simp_all add: w_def toy_handler_def toy_fattr_def)
  show "locks_ok 1 (h_g w) []" unfolding h by (rule toy_locks_ok)
  show "base_path w NULL []" by (simp add: base_path_def)
  show "simple_rel ''docs''" "\<not> three_dots ''docs''" "length ''docs'' < 256" by (simp_all add: simple_rel_def three_dots_def)
  show "dos_ok (e_dos toy_env)" using std_dos_ok by (simp add: toy_env_def)
  show "rel_path [] ''docs'' = Inr [''docs'']" by (simp add: rel_path_def up_first_def trim_dot_def)
  show "tree_find toy_tree 1 [1] [''docs''] = Inr ([2], toy_fattr NFDIR 2)"
    by (simp add: tree_find_def toy_tree_def nc_find_def toy_ents_def toy_res_def)
  show "char_of (length ''docs'') # ''docs'' @ [] = CHR 0x04 # ''docs''" by code_simp
qed

theorem act_LOCATE_OBJECT_locks_witness:
  "\<exists>r w'. act_LOCATE_OBJECT toy_env NULL (CHR 0x04 # ''docs'') SHARED_LOCK (toy_handler (cleared_global ())) = Some (r, w') \<and>
     (r = 0 \<or> (\<exists>l. hp_elock (h_g w') (nat r) = Some l \<and> efl_NFSFh l = [2]))"
proof -
  note th = act_LOCATE_OBJECT_locks [OF toy_walk_inv toy_locate(1,2) toy_root_apart disjI1 [OF refl] disjI1 [OF refl] toy_locate(5-9), of "[]"]
  obtain r w' where r: "act_LOCATE_OBJECT toy_env NULL (CHR 0x04 # ''docs'') SHARED_LOCK (toy_handler (cleared_global ())) = Some (r, w')"
    "r \<noteq> 0 \<Longrightarrow> \<exists>n l. r = int n \<and> hp_elock (h_g w') n = Some l \<and> lock_of (rel_path [] ''docs'') (tree_find toy_tree 1 [1]) SHARED_LOCK l"
    using th unfolding toy_locate(12,3) by (auto split: if_splits)
  then show ?thesis using toy_locate(10,11) by (cases "r = 0") (auto simp: lock_of_def)
qed

subsection \<open>Exclusive locks, whatever the clients do\<close>

text \<open>No null is inside a name; dos.library deals in C strings.\<close>

definition dos_cstr :: "dosnames \<Rightarrow> bool" where
  "dos_cstr dos \<longleftrightarrow> (\<forall>d f n r. dos_AddPart dos d f n = Some r \<longrightarrow> NUL \<notin> set d \<longrightarrow> NUL \<notin> set f \<longrightarrow> NUL \<notin> set r)"

definition names_cstr :: "'srv global \<Rightarrow> bool" where
  "names_cstr g \<longleftrightarrow> (\<forall>a l. hp_elock g a = Some l \<longrightarrow> NUL \<notin> set (efl_FullName l))"

lemma join_path_nul: "NUL \<notin> set (join_path st) \<longleftrightarrow> no_nul st"
  by (induction st rule: join_path.induct) (auto simp: no_nul_def)

lemma fn_PathUnify_form:
  assumes "fn_PathUnify ok s = Inr (F, f)" and "NUL \<notin> set s"
  shows "\<exists>st. F = join_path st \<and> comps_ok st \<and> no_nul st"
proof -
  have ok: "ok" using assms(1) by (auto simp: fn_PathUnify_def split: if_splits)
  obtain st where st: "walk (path_comps s) [] = Some st" "F = join_path st"
    using assms(1) fn_PathUnify_spec [of s] ok by (auto split: if_splits option.splits)
  have "comps_ok st" by (rule walk_ok [OF st(1)]) (auto dest: path_comps_slash)
  moreover have "\<forall>w\<in>set st. NUL \<notin> set w" by (rule walk_chars [OF st(1)]) (use assms(2) path_comps_chars in auto)
  ultimately show ?thesis using st(2) by (auto simp: no_nul_def)
qed

lemma CBuildFullName_form:
  assumes run: "CBuildFullName env fl rel w = Some (Inr (F, nb, l, u))" and nm: "names_cstr (h_g w)" "NUL \<notin> set rel" and dos: "dos_cstr (e_dos env)"
  shows "\<exists>st. F = join_path st \<and> comps_ok st \<and> no_nul st"
proof -
  obtain o' where o: "(if fl = NULL then Some (Inr []) else do {
                 l \<leftarrow> lock_Lookup fl (h_g w);
                 (if l = NULL then Some (Inl ERROR_INVALID_LOCK) else map_option (Inr \<circ> efl_FullName) (hp_elock (h_g w) l))
               }) = Some o'" using run by (auto simp: CBuildFullName_def Let_def bind_eq_Some_conv)
  note run1 = run [unfolded CBuildFullName_def Let_def o Option.bind.bind_lunit]
  obtain old where old: "o' = Inr old" using run1 by (cases o') auto
  have nold: "NUL \<notin> set old" using o nm(1) unfolding old names_cstr_def by (auto simp: bind_eq_Some_conv split: if_splits)
  note run2 = run1 [unfolded old sum.case]
  obtain p ab where p: "fn_PathWithoutDev (e_str env (h_tick w)) rel = Inr (p, ab)"
    using run2 by (cases "fn_PathWithoutDev (e_str env (h_tick w)) rel") auto
  note run3 = run2 [unfolded p sum.case prod.case]
  obtain old' s sl f where b: "NUL \<notin> set old'" "fn_AddPart (e_dos env) (e_str env (h_tick w + 2)) old' p = Some (s, sl)"
    "fn_PathUnify (e_str env (h_tick w + 3)) s = Inr (F, f)"
  proof -
    define old' where "old' = (if ab \<and> p \<noteq> [] \<and> fl \<noteq> NULL \<and> old \<noteq> [] \<and> strnicmp_eq rel (g_VolumeName w) (the (strchr rel COLON)) then [] else old)"
    have n: "NUL \<notin> set old'" using nold by (simp add: old'_def)
    note run4 = run3 [folded old'_def]
    obtain s sl where s: "fn_AddPart (e_dos env) (e_str env (h_tick w + 2)) old' p = Some (s, sl)"
      using run4 by (auto split: option.splits)
    obtain F' f where u: "fn_PathUnify (e_str env (h_tick w + 3)) s = Inr (F', f)"
      using run4 s by (auto split: option.splits sum.splits)
    have "F' = F" using run4 s u by (auto simp: bind_eq_Some_conv split: option.splits if_splits)
    then show thesis using that n s u by simp
  qed
  have "NUL \<notin> set p" using p nm(2) by (auto simp: fn_PathWithoutDev_def Let_def split: if_splits option.splits dest: in_set_dropD)
  then have "NUL \<notin> set s" using b(1,2) dos unfolding dos_cstr_def by (auto simp: fn_AddPart_def Let_def split: if_splits)
  then show ?thesis by (rule fn_PathUnify_form [OF b(3)])
qed

lemma fresh_names_cstr: "names_cstr g \<Longrightarrow> NUL \<notin> set FullName \<Longrightarrow> names_cstr (with_lock n FullName Name Mode f a g)"
  by (auto simp: names_cstr_def with_lock_def)

text \<open>No name at all leads back to the root.\<close>

definition root_unnamed :: "tree \<Rightarrow> u32 \<Rightarrow> bool" where
  "root_unnamed T k \<longleftrightarrow> (\<forall>fh nm f a. t_look T fh nm = Some (f, a) \<longrightarrow> fa_fileid a \<noteq> k)"

lemma srv_okr [simp]: "locks_okr R k (g\<lparr>g_srv := s\<rparr>) as = locks_okr R k g as"
  by (simp add: locks_okr_def)

lemma res_okr [simp]:
  "locks_okr R k (g\<lparr>g_Res1 := x, g_Res2 := y\<rparr>) as = locks_okr R k g as" "locks_okr R k (g\<lparr>g_Res1 := x\<rparr>) as = locks_okr R k g as"
  by (simp_all add: locks_okr_def lk_key_def fl_mode_def)

text \<open>What every action on locks keeps.\<close>

definition locks_inv :: "bool \<Rightarrow> 'srv env \<Rightarrow> tree \<Rightarrow> u32 \<Rightarrow> 'srv handler \<Rightarrow> bool" where
  "locks_inv R env T k w \<longleftrightarrow> (\<exists>ls. walk_inv env T ls w) \<and> (\<exists>as. locks_okr R k (h_g w) as) \<and> names_cstr (h_g w) \<and>
     fa_fileid (g_MntAttr w) = k"

lemma locks_inv_simps [simp]:
  "locks_inv R env T k (tick n w) = locks_inv R env T k w"
  "locks_inv R env T k (snd (h_SetRes r1 r2 w)) = locks_inv R env T k w" "locks_inv R env T k (snd (h_SetRes1 r1 w)) = locks_inv R env T k w"
  by (simp_all add: locks_inv_def h_SetRes_simps names_cstr_def)

lemma locks_inv_res [simp]:
  "locks_inv R env T k (w\<lparr>h_g := (h_g w)\<lparr>g_Res1 := x, g_Res2 := y\<rparr>\<rparr>) = locks_inv R env T k w"
  "locks_inv R env T k (w\<lparr>h_g := (h_g w)\<lparr>g_Res1 := x\<rparr>\<rparr>) = locks_inv R env T k w"
  by (simp_all add: locks_inv_def names_cstr_def)

lemma locks_inv_set:
  "h_SetRes a b w = (r, w') \<Longrightarrow> locks_inv R env T k w \<Longrightarrow> locks_inv R env T k w'"
  "h_SetRes1 a w = (r, w') \<Longrightarrow> locks_inv R env T k w \<Longrightarrow> locks_inv R env T k w'"
  by (auto simp: h_SetRes_simps)

lemma locks_inv_with_lock:
  assumes "walk_inv env T ls w'" and "locks_okr R k g as" and "n \<noteq> NULL" and "n \<notin> dom (hp_elock g)"
    and "R \<or> fa_fileid a \<noteq> k \<Longrightarrow> \<not> conflict g as (fa_fileid a) Mode" and "R \<Longrightarrow> fa_fileid a = k \<Longrightarrow> Mode = SHARED_LOCK" and "names_cstr g" and "NUL \<notin> set FullName"
    and "h_g w' = with_lock n FullName Name Mode f a (g\<lparr>g_srv := s\<rparr>)" and "fa_fileid (g_MntAttr w') = k"
  shows "locks_inv R env T k w'"
proof -
  have "locks_okr R k (h_g w') (n # as)" unfolding assms(9) by (rule locks_okr_with_lock) (use assms(2-6) in simp_all)
  moreover have "names_cstr (h_g w')" unfolding assms(9) by (rule fresh_names_cstr) (use assms(7,8) in \<open>simp_all add: names_cstr_def\<close>)
  ultimately show ?thesis using assms(1,10) unfolding locks_inv_def by blast
qed

lemma locks_inv_same:
  assumes "locks_inv R env T k w" and "walk_inv env T ls w'" and "h_g w' = (h_g w)\<lparr>g_srv := s\<rparr>" and "g_MntAttr w' = g_MntAttr w"
  shows "locks_inv R env T k w'"
  using assms unfolding locks_inv_def by (auto simp: names_cstr_def)

lemma RootLocateAndLock_safe:
  assumes li: "locks_inv R env T k w" and T: "R \<Longrightarrow> root_unnamed T k" and rel: "NUL \<notin> set rel" and dos: "dos_cstr (e_dos env)"
    and run: "RootLocateAndLock env fl rel Mode Rs w = Some (n, r, w')"
  shows "locks_inv R env T k w'"
proof -
  obtain ls as where inv: "walk_inv env T ls w" and ok: "locks_okr R k (h_g w) as" and nm: "names_cstr (h_g w)"
    and k: "fa_fileid (g_MntAttr w) = k" using li unfolding locks_inv_def by blast
  let ?g = "h_g w" and ?w = "tick 7 w"
  show ?thesis
  proof (cases "Mode \<noteq> SHARED_LOCK \<and> Mode \<noteq> EXCLUSIVE_LOCK")
    case True
    then show ?thesis using run li by (auto simp: RootLocateAndLock_def)
  next
    case md: False
    obtain b where b: "CBuildFullName env fl rel w = Some b"
      using run md by (auto simp: RootLocateAndLock_def bind_eq_Some_conv)
    note run1 = run [unfolded RootLocateAndLock_def if_not_P [OF md] b Option.bind.bind_lunit Let_def]
    show ?thesis
    proof (cases b)
      case (Inl e)
      then show ?thesis using run1 li by auto
    next
      case (Inr t)
      obtain F nb l u where t: "b = Inr (F, nb, l, u)" using Inr by (cases t) auto
      obtain st where st: "F = join_path st" "comps_ok st" "no_nul st"
        using CBuildFullName_form [OF b [unfolded t] nm rel dos] by blast
      have nF: "NUL \<notin> set F" using st join_path_nul by simp
      have inv7: "walk_inv env T ls ?w" using inv by simp
      obtain D r1 w1 ls1 where d: "RootLocateDir env F Rs ?w = Some (D, r1, w1)" "walk_inv env T ls1 w1" "walk_same ?w w1"
        "walk_result (tree_walk T (g_MntFh w) (butlast st)) D r1 Rs w1"
        using RootLocateDir_ok [OF inv7 st(2,3), of Rs] st(1) by auto
      have same1: "walk_same w w1" using d(3) by (rule walk_same_trans [rotated]) simp
      obtain s1 where s1: "h_g w1 = ?g\<lparr>g_srv := s1\<rparr>" "g_MntFh w1 = g_MntFh w" "g_MntAttr w1 = g_MntAttr w" using same1 by (auto simp: walk_same_def)
      have li1: "locks_inv R env T k w1" by (rule locks_inv_same [OF li d(2) s1(1,3)])
      have ok1: "locks_okr R k (h_g w1) as" using ok s1 by simp
      have none1: "hp_elock (h_g w1) NULL = None" using ok1 by (simp add: locks_okr_def)
      note run2 = run1 [unfolded t sum.case prod.case d(1) Option.bind.bind_lunit]
      show ?thesis
      proof (cases "D = NULL")
        case True
        then show ?thesis using run2 li1 by simp
      next
        case dn: False
        obtain dd where dd: "hp_dce (dc_store (h_dirs w1)) D = Some dd" using d(4) dn by (auto simp: walk_result_def)
        show ?thesis
        proof (cases "F = []")
          case True
          obtain n' r' w2 where n: "do { (n, r3, w3) \<leftarrow> new_elock env F (cstr_of nb) Mode NULL None r1 w1;
              (if n = NULL then Some (NULL, r3, w3) else lock_finish env n NULL None r3 w3) } = Some (n', r', w2)"
            "walk_inv env T ls1 w2" "caches_same w1 w2"
            "if n' = NULL then h_g w2 = h_g w1 \<and> (r' = ERROR_NO_FREE_STORE \<or> Mode \<noteq> SHARED_LOCK \<and> r' = ERROR_OBJECT_IN_USE)
             else r' = r1 \<and> n' \<notin> dom (hp_elock (h_g w1)) \<and> Mode = SHARED_LOCK \<and>
               (\<exists>a s. t_obj T k = Some (g_MntFh w1, a) \<and> h_g w2 = with_lock n' F (cstr_of nb) Mode (g_MntFh w1) a ((h_g w1)\<lparr>g_srv := s\<rparr>))"
            using root_lock_ok [OF d(2) none1, of k F "cstr_of nb" Mode r1] s1(3) k by auto
          have notF: "\<not> F \<noteq> []" using True by simp
          have w2: "w2 = w'" using run2 unfolding if_not_P [OF dn] if_not_P [OF notF] n(1) by simp
          have ka: "fa_fileid (g_MntAttr w2) = k" using n(3) s1(3) k by (simp add: caches_same_def)
          show ?thesis
          proof (cases "n' = NULL")
            case n0: True
            then have g: "h_g w2 = (h_g w1)\<lparr>g_srv := g_srv (h_g w1)\<rparr>" using n(4) by simp
            have ma: "g_MntAttr w2 = g_MntAttr w1" using n(3) by (simp add: caches_same_def)
            show ?thesis unfolding w2 [symmetric] by (rule locks_inv_same [OF li1 n(2) g ma])
          next
            case n1: False
            obtain a s where r: "n' \<notin> dom (hp_elock (h_g w1))" "Mode = SHARED_LOCK" "t_obj T k = Some (g_MntFh w1, a)"
              "h_g w2 = with_lock n' F (cstr_of nb) Mode (g_MntFh w1) a ((h_g w1)\<lparr>g_srv := s\<rparr>)" using n(4) n1 by auto
            have "fa_fileid a = k" using inv r(3) unfolding walk_inv_def tree_ok_def by blast
            then have "R \<or> fa_fileid a \<noteq> k \<Longrightarrow> \<not> conflict (h_g w1) as (fa_fileid a) Mode" using ok1 r(2) unfolding locks_okr_def conflict_def by blast
            then show ?thesis unfolding w2 [symmetric]
              using locks_inv_with_lock [OF n(2) ok1 n1 r(1) _ _ _ nF r(4) ka] r(2) li1 by (simp add: locks_inv_def)
          qed
        next
          case False
          obtain NE ACE r2 w2 ls2 where e: "GetNameEntry env D (cstr_of nb) True r1 w1 = Some (NE, ACE, r2, w2)" "walk_inv env T ls2 w2"
            "walk_same w1 w2" "name_result (t_look T (dce_NFSFh dd) (cstr_of nb)) NE ACE r2 r1 w2"
            using GetNameEntry_ok [OF d(2) dd(1), of "cstr_of nb" r1] by blast
          obtain s2 where s2: "h_g w2 = (h_g w1)\<lparr>g_srv := s2\<rparr>" "g_MntAttr w2 = g_MntAttr w1" using e(3) by (auto simp: walk_same_def)
          have li2: "locks_inv R env T k w2" by (rule locks_inv_same [OF li1 e(2) s2(1,2)])
          show ?thesis
          proof (cases "NE = NULL")
            case True
            then show ?thesis using run2 dn False e(1) li2 by simp
          next
            case ne: False
            obtain f a where fa: "t_look T (dce_NFSFh dd) (cstr_of nb) = Some (f, a)" using e(4) ne by (auto simp: name_result_def split: option.splits)
            let ?ace = "\<lparr>ace_FileId = fa_fileid a, ace_NFSFh = f, ace_FAttr = a\<rparr>"
            have ace: "hp_ace (h_attrs w2) ACE = Some ?ace" using e(4) ne fa by (auto simp: name_result_def)
            have ok2: "locks_okr R k (h_g w2) as" using ok1 s2 by simp
            have eo: "env_ok env" using inv unfolding walk_inv_def by blast
            obtain old' where look: "lock_LookupFromKey (fa_fileid a) (h_g w2) = Some old'"
              using lock_LookupFromKey_eq [of "h_g w2" as] ok2 by (auto simp: locks_okr_def)
            obtain n' r' w3 where n: "do { (n, r3, w3) \<leftarrow> new_elock env F (cstr_of nb) Mode old' (Some ?ace) r2 w2;
                (if n = NULL then Some (NULL, r3, w3) else lock_finish env n old' (Some ?ace) r3 w3) } = Some (n', r', w3)"
              "caches_same w2 w3" "h_attrs w3 = h_attrs w2"
              "if n' = NULL then h_g w3 = h_g w2 \<and> (r' = ERROR_NO_FREE_STORE \<or> fa_type a = NFLNK \<and> r' = ERROR_IS_SOFT_LINK \<or>
                  conflict (h_g w2) as (fa_fileid a) Mode \<and> r' = ERROR_OBJECT_IN_USE)
               else r' = r2 \<and> n' \<notin> dom (hp_elock (h_g w2)) \<and> (R \<or> fa_fileid a \<noteq> k \<longrightarrow> \<not> conflict (h_g w2) as (fa_fileid a) Mode) \<and>
                 h_g w3 = with_lock n' F (cstr_of nb) Mode f a (h_g w2)"
              using new_lock_okr [OF ok2 eo look refl, of F "cstr_of nb" Mode f r2] by blast
            have w3: "w3 = w'" using run2 ace look n(1)
              unfolding if_not_P [OF dn] if_P [OF False] e(1) Option.bind.bind_lunit prod.case if_not_P [OF ne] by simp
            have "g_srv (h_g w3) = g_srv (h_g w2)" using n(4) by (auto split: if_splits)
            then have inv3: "walk_inv env T ls2 w3" using e(2) n(2,3) by (simp add: walk_inv_def caches_same_def)
            have k3: "fa_fileid (g_MntAttr w3) = k" using n(2) s2(2) s1(3) k by (simp add: caches_same_def)
            show ?thesis
            proof (cases "n' = NULL")
              case n0: True
              then have g: "h_g w3 = (h_g w2)\<lparr>g_srv := g_srv (h_g w2)\<rparr>" using n(4) by simp
              have ma: "g_MntAttr w3 = g_MntAttr w2" using n(2) by (simp add: caches_same_def)
              show ?thesis unfolding w3 [symmetric] by (rule locks_inv_same [OF li2 inv3 g ma])
            next
              case n1: False
              then have r: "n' \<notin> dom (hp_elock (h_g w2))" "R \<or> fa_fileid a \<noteq> k \<Longrightarrow> \<not> conflict (h_g w2) as (fa_fileid a) Mode"
                "h_g w3 = with_lock n' F (cstr_of nb) Mode f a ((h_g w2)\<lparr>g_srv := g_srv (h_g w2)\<rparr>)" using n(4) by simp_all
              have "R \<Longrightarrow> fa_fileid a \<noteq> k" using T fa unfolding root_unnamed_def by blast
              then show ?thesis unfolding w3 [symmetric]
                using locks_inv_with_lock [OF inv3 ok2 n1 r(1,2) _ _ nF r(3) k3] li2 by (simp add: locks_inv_def)
            qed
          qed
        qed
      qed
    qed
  qed
qed

lemma copy_safe:
  assumes li: "locks_inv R env T k w" and el: "lock_Lookup fl (h_g w) = Some e" and run: "do_act_COPY_DIR env e w = Some (r, w')"
  shows "locks_inv R env T k w'"
proof -
  let ?g = "h_g w"
  obtain ls as where inv: "walk_inv env T ls w" and ok: "locks_okr R k ?g as" and nm: "names_cstr ?g"
    and k: "fa_fileid (g_MntAttr w) = k" using li unfolding locks_inv_def by blast
  have e: "e = (if fl \<in> set as then fl else NULL)" using lock_Lookup_eq [of ?g as fl] ok el by (simp add: locks_okr_def)
  show ?thesis
  proof (cases "e = NULL")
    case True
    then show ?thesis using run li by (auto simp: do_act_COPY_DIR_def h_SetRes_simps)
  next
    case False
    then have eas: "e \<in> set as" using e by (auto split: if_splits)
    then obtain l where l: "hp_elock ?g e = Some l" using fl_members_alloc [of ?g as e] ok by (auto simp: locks_okr_def)
    obtain m mok where mem: "e_lock env (h_tick w) (hp_elock ?g) = (m, mok)" by (cases "e_lock env (h_tick w) (hp_elock ?g)")
    have eo: "env_ok env" using inv unfolding walk_inv_def by blast
    have "NULL \<notin> dom (hp_elock ?g)" using ok by (simp add: locks_okr_def domIff)
    then have fresh: "m \<notin> dom (hp_elock ?g)" using env_okD(4) [OF eo, of "hp_elock ?g" "h_tick w"] mem by simp
    show ?thesis
    proof (cases "fl_Access l \<noteq> SHARED_LOCK \<or> m = NULL \<or> \<not> mok")
      case True
      then have "h_SetRes DOSFALSE ERROR_OBJECT_IN_USE w = (r, w') \<or> h_SetRes DOSFALSE ERROR_NO_FREE_STORE (tick 1 w) = (r, w')"
        using run False l mem by (cases "fl_Access l = SHARED_LOCK"; cases "m = NULL") (simp_all add: do_act_COPY_DIR_def lock_Dup_def)
      moreover have "locks_inv R env T k (tick 1 w)" using li by simp
      ultimately show ?thesis using li locks_inv_set(1) by blast
    next
      case good: False
      let ?a = "(g_MntAttr w)\<lparr>fa_fileid := fl_Key l, fa_type := efl_NFSType l\<rparr>"
      let ?g' = "with_lock m (efl_FullName l) (efl_Name l) SHARED_LOCK (efl_NFSFh l) ?a ?g"
      have "r = int m \<and> w' = snd (h_SetRes1 r (tick 1 (w\<lparr>h_g := ?g'\<rparr>)))"
        using run False l mem good
        by (cases l) (auto simp: do_act_COPY_DIR_def lock_Dup_def Let_def lock_Insert_def with_lock_def h_SetRes_simps tick_def)
      moreover have "locks_inv R env T k (w\<lparr>h_g := ?g'\<rparr>)"
      proof (rule locks_inv_with_lock)
        show "walk_inv env T ls (w\<lparr>h_g := ?g'\<rparr>)" using inv by simp
        have md: "fl_mode ?g e = SHARED_LOCK" "lk_key ?g e = fl_Key l" using l good by (simp_all add: fl_mode_def lk_key_def)
        show "\<not> conflict ?g as (fa_fileid ?a) SHARED_LOCK" if RK: "R \<or> fa_fileid ?a \<noteq> k"
        proof -
          have "\<forall>b\<in>set as. lk_key ?g b = fl_Key l \<longrightarrow> fl_mode ?g b = SHARED_LOCK" using ok eas md RK unfolding locks_okr_def by fastforce
          then show ?thesis by (simp add: conflict_def)
        qed
        show "h_g (w\<lparr>h_g := ?g'\<rparr>) = with_lock m (efl_FullName l) (efl_Name l) SHARED_LOCK (efl_NFSFh l) ?a (?g\<lparr>g_srv := g_srv ?g\<rparr>)" by simp
      qed (use ok fresh good nm l k in \<open>simp_all add: names_cstr_def\<close>)
      ultimately show ?thesis by (metis locks_inv_simps(1,3))
    qed
  qed
qed

lemma lock_Remove_srv:
  assumes "lock_Remove l g = Some (p, g')"
  shows "g_srv g' = g_srv g"
proof -
  obtain r where r: "list_locate (fl_next g) l NULL (dl_LockList g) = Some r" using assms by (auto simp: lock_Remove_def bind_eq_Some_conv)
  show ?thesis
  proof (cases r)
    case None
    then show ?thesis using assms r by (simp add: lock_Remove_def)
  next
    case (Some t)
    then obtain prev n where "r = Some (prev, n)" by (cases t) auto
    then show ?thesis using assms r by (cases "prev = NULL") (auto simp: lock_Remove_def bind_eq_Some_conv)
  qed
qed

lemma free_safe:
  assumes li: "locks_inv R env T k w" and run: "act_FREE_LOCK fl w = Some (r, w')"
  shows "locks_inv R env T k w'"
proof -
  let ?g = "h_g w"
  obtain ls as where inv: "walk_inv env T ls w" and ok: "locks_okr R k ?g as" and nm: "names_cstr ?g"
    and k: "fa_fileid (g_MntAttr w) = k" using li unfolding locks_inv_def by blast
  have m: "fl_members ?g as" using ok by (simp add: locks_okr_def)
  have e: "lock_Lookup fl ?g = Some (if fl \<in> set as then fl else NULL)" by (rule lock_Lookup_eq [OF m])
  have nz: "NULL \<notin> set as" using m links_not_NULL unfolding fl_members_def by blast
  show ?thesis
  proof (cases "fl \<in> set as")
    case False
    then have "w' = snd (h_SetRes1 DOSTRUE w) \<or> w' = snd (h_SetRes DOSFALSE ERROR_INVALID_LOCK w)"
      using run e by (auto simp: act_FREE_LOCK_def h_SetRes_simps split: if_splits)
    then show ?thesis using li locks_inv_simps by metis
  next
    case True
    then obtain xs ys where xy: "as = xs @ fl # ys" by (auto simp: in_set_conv_decomp)
    obtain g1 where g1: "lock_Remove fl ?g = Some (fl, g1)" "fl_members g1 (xs @ ys)"
      "\<forall>c. map_option (\<lambda>l. l\<lparr>fl_Link := NULL\<rparr>) (hp_elock g1 c) = map_option (\<lambda>l. l\<lparr>fl_Link := NULL\<rparr>) (hp_elock ?g c)"
      using lock_Remove_spec [of ?g xs fl ys] m xy by blast
    have dis: "distinct as" by (rule lkr.members_distinct [OF m])
    have f0: "fl \<noteq> NULL" using True nz by metis
    let ?g2 = "lock_Delete fl g1"
    have w': "w' = snd (h_SetRes1 DOSTRUE (w\<lparr>h_g := ?g2\<rparr>))" using run e True f0 g1(1) by (auto simp: act_FREE_LOCK_def h_SetRes_simps)
    have "links ((fl_next g1)(fl := None)) (dl_LockList g1) (xs @ ys)"
      by (rule links_cong [of "xs @ ys" _ "fl_next g1"]) (use g1(2) dis xy in \<open>auto simp: fl_members_def\<close>)
    then have m2: "fl_members ?g2 (xs @ ys)" using f0 by (simp add: fl_members_def lock_Delete_def)
    have old: "\<exists>l'. hp_elock ?g c = Some l' \<and> fl_Key l' = fl_Key l \<and> fl_Access l' = fl_Access l \<and> efl_FullName l' = efl_FullName l"
      if "hp_elock ?g2 c = Some l" for c l
    proof -
      have "hp_elock g1 c = Some l" using that f0 by (simp add: lock_Delete_def split: if_splits)
      then obtain l' where "hp_elock ?g c = Some l'" "l\<lparr>fl_Link := NULL\<rparr> = l'\<lparr>fl_Link := NULL\<rparr>"
        using g1(3) [rule_format, of c] by (cases "hp_elock ?g c") auto
      moreover from this(2) have "fl_Key l' = fl_Key l \<and> fl_Access l' = fl_Access l \<and> efl_FullName l' = efl_FullName l"
        by (cases l; cases l') simp
      ultimately show ?thesis by blast
    qed
    have same: "lk_key ?g2 c = lk_key ?g c \<and> fl_mode ?g2 c = fl_mode ?g c" if c: "c \<in> set (xs @ ys)" for c
    proof -
      obtain l where "hp_elock ?g2 c = Some l" using fl_members_alloc [OF m2 c] by blast
      then show ?thesis using old by (fastforce simp: lk_key_def fl_mode_def)
    qed
    have n0: "hp_elock ?g2 NULL = None"
    proof (rule ccontr)
      assume "hp_elock ?g2 NULL \<noteq> None"
      then show False using old ok by (fastforce simp: locks_okr_def)
    qed
    have "locks_okr R k ?g2 (xs @ ys)"
      unfolding locks_okr_def using m2 n0
    proof (intro conjI ballI impI; (assumption)?)
      fix a b assume "a \<in> set (xs @ ys)" "b \<in> set (xs @ ys)" "a \<noteq> b" "lk_key ?g2 a = lk_key ?g2 b" "R \<or> lk_key ?g2 a \<noteq> k"
      then show "fl_mode ?g2 a = SHARED_LOCK" using same ok unfolding locks_okr_def xy by auto
    next
      fix a assume "R" "a \<in> set (xs @ ys)" "lk_key ?g2 a = k"
      then show "fl_mode ?g2 a = SHARED_LOCK" using same ok unfolding locks_okr_def xy by auto
    qed
    moreover have "names_cstr ?g2" unfolding names_cstr_def
    proof (intro allI impI)
      fix c l assume "hp_elock ?g2 c = Some l"
      from old [OF this] show "NUL \<notin> set (efl_FullName l)" using nm unfolding names_cstr_def by metis
    qed
    moreover have "walk_inv env T ls (w\<lparr>h_g := ?g2\<rparr>)"
      using inv lock_Remove_srv [OF g1(1)] by (simp add: lock_Delete_def)
    ultimately have "locks_inv R env T k (w\<lparr>h_g := ?g2\<rparr>)" using k unfolding locks_inv_def by auto
    then show ?thesis unfolding w' by simp
  qed
qed

lemma parent_safe:
  assumes li: "locks_inv R env T k w" and T: "R \<Longrightarrow> root_unnamed T k" and dos: "dos_cstr (e_dos env)" and run: "do_act_PARENT env e w = Some (r, w')"
  shows "locks_inv R env T k w'"
proof (cases "e = NULL")
  case True
  then show ?thesis using run li by (auto simp: do_act_PARENT_def h_SetRes_simps)
next
  case False
  obtain l where l: "hp_elock (h_g w) e = Some l" using run False by (auto simp: do_act_PARENT_def bind_eq_Some_conv)
  have nn: "NUL \<notin> set (efl_FullName l)" using li l unfolding locks_inv_def names_cstr_def by blast
  show ?thesis
  proof (cases "efl_FullName l = [] \<or> last (efl_FullName l) = COLON")
    case True
    then show ?thesis using run False l li by (auto simp: do_act_PARENT_def h_SetRes_simps)
  next
    case ne: False
    let ?p = "fst (fn_PathPart (e_dos env) (e_str env (h_tick w)) (efl_FullName l))"
    show ?thesis
    proof (cases ?p)
      case None
      then have "h_SetRes DOSFALSE ERROR_NO_FREE_STORE (tick 1 w) = (r, w')" using run False l ne by (simp add: do_act_PARENT_def Let_def)
      moreover have "locks_inv R env T k (tick 1 w)" using li by simp
      ultimately show ?thesis by (rule locks_inv_set)
    next
      case (Some d)
      have nd: "NUL \<notin> set d" using Some nn
        by (auto simp: fn_PathPart_def StrDup_def StrNDup_def Let_def split: if_splits dest: in_set_takeD)
      obtain n r1 w1 where rl: "RootLocateAndLock env NULL d SHARED_LOCK 0 (tick 1 w) = Some (n, r1, w1)"
        "w' = snd (if n \<noteq> NULL then h_SetRes (int n) 0 w1 else h_SetRes DOSFALSE r1 w1)"
        using run False l ne Some by (auto simp: do_act_PARENT_def Let_def bind_eq_Some_conv)
      have "locks_inv R env T k w1" by (rule RootLocateAndLock_safe [OF _ T nd dos rl(1)]) (use li in simp)
      then show ?thesis unfolding rl(2) by simp
    qed
  qed
qed

text \<open>One action of a client; its answer is not of interest here, nor which name, lock or mode the
  client passes.\<close>

inductive lock_step :: "'srv env \<Rightarrow> 'srv handler \<Rightarrow> 'srv handler \<Rightarrow> bool" for env where
  locate: "act_LOCATE_OBJECT env fl bs Mode w = Some (r, w') \<Longrightarrow> lock_step env w w'"
| copy: "act_COPY_DIR env fl w = Some (r, w') \<Longrightarrow> lock_step env w w'"
| parent: "act_PARENT env fl w = Some (r, w') \<Longrightarrow> lock_step env w w'"
| free: "act_FREE_LOCK fl w = Some (r, w') \<Longrightarrow> lock_step env w w'"
| same: "act_SAME_LOCK fl1 fl2 w = Some (r, w') \<Longrightarrow> lock_step env w w'"

inductive lock_run :: "'srv env \<Rightarrow> 'srv handler \<Rightarrow> 'srv handler \<Rightarrow> bool" for env where
  start: "lock_run env w w"
| step: "lock_run env w w' \<Longrightarrow> lock_step env w' w'' \<Longrightarrow> lock_run env w w''"

lemma cstr_of_nul: "NUL \<notin> set (cstr_of b)"
  unfolding cstr_of_def by (auto dest: set_takeWhileD)

lemma lock_step_safe:
  assumes "lock_step env w w'" and li: "locks_inv R env T k w" and T: "R \<Longrightarrow> root_unnamed T k" and dos: "dos_cstr (e_dos env)"
  shows "locks_inv R env T k w'"
  using assms(1)
proof cases
  case (locate fl bs Mode r)
  obtain c l where c: "fn_B2CStr (e_str env (h_tick w)) bs = Some (c, l)" using locate by (auto simp: act_LOCATE_OBJECT_def Let_def bind_eq_Some_conv)
  have li1: "locks_inv R env T k (tick 1 w)" using li by simp
  show ?thesis
  proof (cases c)
    case None
    then have "h_SetRes DOSFALSE ERROR_NO_FREE_STORE (tick 1 w) = (r, w')" using locate c by (simp add: act_LOCATE_OBJECT_def)
    then show ?thesis using li1 by (rule locks_inv_set)
  next
    case (Some path)
    obtain n r1 w1 where rl: "RootLocateAndLock env fl (cstr_of path) Mode 0 (tick 1 w) = Some (n, r1, w1)"
      "(if n \<noteq> NULL then h_SetRes (int n) 0 w1 else h_SetRes DOSFALSE r1 w1) = (r, w')"
      using locate c Some by (auto simp: act_LOCATE_OBJECT_def Let_def bind_eq_Some_conv)
    have "locks_inv R env T k w1" by (rule RootLocateAndLock_safe [OF li1 T cstr_of_nul dos rl(1)])
    then show ?thesis using rl(2) locks_inv_set(1) by (cases "n = NULL") auto
  qed
next
  case (copy fl r)
  show ?thesis
  proof (cases "fl = NULL")
    case True
    then show ?thesis using copy locks_inv_set(1) [OF _ li] by (auto simp: act_COPY_DIR_def)
  next
    case False
    then obtain e where e: "lock_Lookup fl (h_g w) = Some e" "do_act_COPY_DIR env e w = Some (r, w')"
      using copy by (auto simp: act_COPY_DIR_def bind_eq_Some_conv)
    show ?thesis by (rule copy_safe [OF li e])
  qed
next
  case (parent fl r)
  then obtain e where e: "do_act_PARENT env e w = Some (r, w')" by (auto simp: act_PARENT_def bind_eq_Some_conv)
  show ?thesis by (rule parent_safe [OF li T dos e])
next
  case (free fl r)
  then show ?thesis by (rule free_safe [OF li])
next
  case (same fl1 fl2 r)
  then have "\<exists>x. h_SetRes x 0 w = (r, w')"
    by (auto simp: act_SAME_LOCK_def bind_eq_Some_conv split: if_splits)
  then show ?thesis using locks_inv_set(1) li by blast
qed

text \<open>C7. Exclusive locks exclude: from a state without locks, whatever actions on locks the clients
  send, in any order and with any names, modes and pointers, two locks on one object other than
  the root are both shared. (The server shows one unchanging tree meanwhile, and dos.library
  returns C strings.) The root is special, since \<open>RootLocateAndLock\<close> does not look for locks on
  it when the name is empty: locks on it are all shared provided that no name on the server
  leads back to it (\<open>root_unnamed\<close>). Where the server has \<open>..\<close>, the name \<open>docs/...\<close>, which
  \<open>fn_PathUnify\<close> turns into \<open>docs/..\<close>, reaches the root past that test, and nothing is claimed of
  the locks on it.\<close>

theorem exclusive_locks_exclude:
  assumes run: "lock_run env w w'" and inv: "walk_inv env T ls w" and none: "locks_ok k (h_g w) []" and nm: "names_cstr (h_g w)"
    and k: "fa_fileid (g_MntAttr w) = k" and dos: "dos_cstr (e_dos env)"
  shows "\<exists>as. fl_members (h_g w') as \<and>
    (\<forall>a\<in>set as. \<forall>b\<in>set as. a \<noteq> b \<longrightarrow> lk_key (h_g w') a = lk_key (h_g w') b \<longrightarrow> lk_key (h_g w') a \<noteq> k \<longrightarrow>
       fl_mode (h_g w') a = SHARED_LOCK \<and> fl_mode (h_g w') b = SHARED_LOCK) \<and>
    (root_unnamed T k \<longrightarrow> (\<forall>a\<in>set as. lk_key (h_g w') a = k \<longrightarrow> fl_mode (h_g w') a = SHARED_LOCK))"
proof -
  define R where "R = root_unnamed T k"
  have T: "R \<Longrightarrow> root_unnamed T k" by (simp add: R_def)
  have "locks_okr R k (h_g w) []" using none by (simp add: locks_ok_def locks_okr_def)
  then have "locks_inv R env T k w" using inv nm k unfolding locks_inv_def by blast
  with run have "locks_inv R env T k w'"
  proof (induction rule: lock_run.induct)
    case (step w w' w'')
    then show ?case using lock_step_safe [OF step.hyps(2) _ T dos] by blast
  qed
  then obtain as where as: "locks_okr R k (h_g w') as" unfolding locks_inv_def by blast
  have "fl_mode (h_g w') a = SHARED_LOCK \<and> fl_mode (h_g w') b = SHARED_LOCK"
    if "a \<in> set as" "b \<in> set as" "a \<noteq> b" "lk_key (h_g w') a = lk_key (h_g w') b" "lk_key (h_g w') a \<noteq> k" for a b
    using as that unfolding locks_okr_def by metis
  then show ?thesis using as unfolding locks_okr_def R_def by blast
qed

text \<open>A run that takes a shared lock on a directory:\<close>

lemma std_dos_cstr: "dos_cstr std_dos"
  by (auto simp: dos_cstr_def std_dos_def Let_def split: if_splits)

theorem exclusive_locks_exclude_witness:
  "\<exists>w as. lock_run toy_env (toy_handler (cleared_global ())) w \<and> fl_members (h_g w) as \<and>
     (\<forall>a\<in>set as. \<forall>b\<in>set as. a \<noteq> b \<longrightarrow> lk_key (h_g w) a = lk_key (h_g w) b \<longrightarrow> fl_mode (h_g w) b = SHARED_LOCK)"
proof -
  let ?w = "toy_handler (cleared_global ())"
  obtain r w' where "act_LOCATE_OBJECT toy_env NULL (CHR 0x04 # ''docs'') SHARED_LOCK ?w = Some (r, w')"
    using act_LOCATE_OBJECT_ok [OF toy_walk_inv toy_locate(1,2) toy_root_apart disjI1 [OF refl] disjI1 [OF refl] toy_locate(5-9), of "[]"]
    unfolding toy_locate(12) by blast
  then have run: "lock_run toy_env ?w w'" by (blast intro: lock_run.intros lock_step.intros)
  have h: "h_g ?w = cleared_global ()" "fa_fileid (g_MntAttr ?w) = 1" by (simp_all add: toy_handler_def toy_fattr_def)
  have nm: "names_cstr (h_g ?w)" unfolding h by (simp add: names_cstr_def cleared_global_def)
  have ds: "dos_cstr (e_dos toy_env)" using std_dos_cstr by (simp add: toy_env_def)
  have un: "root_unnamed toy_tree 1" by (auto simp: root_unnamed_def toy_tree_def toy_fattr_def toy_res_def)
  obtain as where as: "fl_members (h_g w') as"
    "\<And>a b. a \<in> set as \<Longrightarrow> b \<in> set as \<Longrightarrow> a \<noteq> b \<Longrightarrow> lk_key (h_g w') a = lk_key (h_g w') b \<Longrightarrow> lk_key (h_g w') a \<noteq> 1 \<Longrightarrow> fl_mode (h_g w') b = SHARED_LOCK"
    "\<And>a. a \<in> set as \<Longrightarrow> lk_key (h_g w') a = 1 \<Longrightarrow> fl_mode (h_g w') a = SHARED_LOCK"
    using exclusive_locks_exclude [OF run toy_walk_inv toy_locate(1) nm h(2) ds] un by blast
  then have "\<forall>a\<in>set as. \<forall>b\<in>set as. a \<noteq> b \<longrightarrow> lk_key (h_g w') a = lk_key (h_g w') b \<longrightarrow> fl_mode (h_g w') b = SHARED_LOCK" by metis
  then show ?thesis using run as(1) by blast
qed

end
