(* ===== verification/Examine.thy ===== *)
theory Examine
  imports Dirs Locate
begin

text \<open>
  Looking at objects and directories (src/src/examine.c): the conversions from the server's
  attributes to those of AmigaDOS, and the packet actions that hand them out, for one object,
  for the entries of a directory one by one, and for many entries in a buffer of the client.
  Names are bytes here; memory of the client that is filled piecewise is a function from
  addresses to bytes, and numbers are stored with the most significant byte first.
\<close>

subsection \<open>Conversions\<close>

record datestamp =
  ds_Days :: int
  ds_Minute :: int
  ds_Tick :: int

abbreviation TICKS_PER_SECOND :: int where "TICKS_PER_SECOND \<equiv> 50"

abbreviation FIBF_DELETE :: u32 where "FIBF_DELETE \<equiv> 0x1"
abbreviation FIBF_EXECUTE :: u32 where "FIBF_EXECUTE \<equiv> 0x2"
abbreviation FIBF_WRITE :: u32 where "FIBF_WRITE \<equiv> 0x4"
abbreviation FIBF_READ :: u32 where "FIBF_READ \<equiv> 0x8"
abbreviation FIBF_GRP_DELETE :: u32 where "FIBF_GRP_DELETE \<equiv> 0x100"
abbreviation FIBF_GRP_EXECUTE :: u32 where "FIBF_GRP_EXECUTE \<equiv> 0x200"
abbreviation FIBF_GRP_WRITE :: u32 where "FIBF_GRP_WRITE \<equiv> 0x400"
abbreviation FIBF_GRP_READ :: u32 where "FIBF_GRP_READ \<equiv> 0x800"
abbreviation FIBF_OTR_DELETE :: u32 where "FIBF_OTR_DELETE \<equiv> 0x1000"
abbreviation FIBF_OTR_EXECUTE :: u32 where "FIBF_OTR_EXECUTE \<equiv> 0x2000"
abbreviation FIBF_OTR_WRITE :: u32 where "FIBF_OTR_WRITE \<equiv> 0x4000"
abbreviation FIBF_OTR_READ :: u32 where "FIBF_OTR_READ \<equiv> 0x8000"

unbundle bit_operations_syntax

definition NFSMode2Protection :: "u32 \<Rightarrow> u32" where
  "NFSMode2Protection mode0 =
     (let mode = mode0 AND 0x1FF; a = 0;
          a = (if mode AND 0x40 = 0 then a OR FIBF_EXECUTE else a);
          a = (if mode AND 0x80 = 0 then a OR (FIBF_WRITE OR FIBF_DELETE) else a);
          a = (if mode AND 0x100 = 0 then a OR FIBF_READ else a);
          a = (if mode AND 0x8 \<noteq> 0 then a OR FIBF_GRP_EXECUTE else a);
          a = (if mode AND 0x10 \<noteq> 0 then a OR (FIBF_GRP_WRITE OR FIBF_GRP_DELETE) else a);
          a = (if mode AND 0x20 \<noteq> 0 then a OR FIBF_GRP_READ else a);
          a = (if mode AND 0x1 \<noteq> 0 then a OR FIBF_OTR_EXECUTE else a);
          a = (if mode AND 0x2 \<noteq> 0 then a OR (FIBF_OTR_WRITE OR FIBF_OTR_DELETE) else a)
      in if mode AND 0x4 \<noteq> 0 then a OR FIBF_OTR_READ else a)"

definition NFSType2EntryType :: "ftype \<Rightarrow> int" where
  "NFSType2EntryType t =
     (case t of NFDIR \<Rightarrow> 2 | NFREG \<Rightarrow> -3 | NFLNK \<Rightarrow> 3 | NFCHR \<Rightarrow> -11 | NFBLK \<Rightarrow> -10 | NFSOCK \<Rightarrow> -12 | NFFIFO \<Rightarrow> -13
      | _ \<Rightarrow> 0)"

text \<open>\<open>seconds\<close> is a \<open>LONG\<close>, whose division rounds towards zero; the ticks are computed from the
  unsigned seconds.\<close>

definition timeval2DateStamp :: "nfstime \<Rightarrow> datestamp" where
  "timeval2DateStamp tv =
     (let s = sint (seconds tv + useconds tv div 1000000)
      in \<lparr>ds_Days = s sdiv 86400, ds_Minute = (s smod 86400) sdiv 60,
          ds_Tick = sint ((seconds tv mod 60) * 50 + useconds tv div 20000)\<rparr>)"

definition DateStamp2timeval :: "datestamp \<Rightarrow> nfstime" where
  "DateStamp2timeval ds =
     \<lparr>seconds = word_of_int ((ds_Days ds * 24 * 60 + ds_Minute ds) * 60 + ds_Tick ds sdiv TICKS_PER_SECOND),
      useconds = word_of_int ((ds_Tick ds smod TICKS_PER_SECOND) * 1000000 sdiv TICKS_PER_SECOND)\<rparr>"

definition bytes_of :: "string \<Rightarrow> u8 list" where
  "bytes_of s = map of_char s"

abbreviation FIB_FILENAME_SIZE :: int where "FIB_FILENAME_SIZE \<equiv> 108"

record fib =
  fib_DiskKey :: u32
  fib_DirEntryType :: int
  fib_FileName :: "u8 list"
  fib_Protection :: u32
  fib_Size :: u32
  fib_NumBlocks :: u32
  fib_Date :: datestamp
  fib_Comment :: "u8 list"
  fib_OwnerUID :: u16
  fib_OwnerGID :: u16

definition FAttr2FIB :: "fattr \<Rightarrow> u8 list \<Rightarrow> int \<Rightarrow> int \<Rightarrow> fib \<Rightarrow> fib option" where
  "FAttr2FIB a Name NameLen0 MaxFileNameLen f =
     (let NameLen = min (if NameLen0 = -1 then int (length Name) else NameLen0) MaxFileNameLen; n = nat NameLen
      in if NameLen < 0 \<or> n > length Name \<or> n + 1 \<ge> length (fib_FileName f) then None
         else Some (f\<lparr>fib_DiskKey := fa_fileid a, fib_Protection := NFSMode2Protection (fa_mode a),
             fib_DirEntryType := NFSType2EntryType (fa_type a),
             fib_FileName := (take 1 (fib_FileName f) @ take n Name @ drop (n + 1) (fib_FileName f))[0 := of_nat n, n + 1 := 0],
             fib_Size := fa_size a, fib_NumBlocks := fa_blocks a, fib_Date := timeval2DateStamp (fa_mtime a),
             fib_Comment := (fib_Comment f)[0 := 0], fib_OwnerUID := nfsuid2UID (fa_uid a),
             fib_OwnerGID := nfsgid2GID (fa_gid a)\<rparr>))"

subsection \<open>One object\<close>

definition do_act_EXAMINE_OBJECT :: "'srv env \<Rightarrow> addr \<Rightarrow> fib \<Rightarrow> 'srv handler \<Rightarrow> (int \<times> fib \<times> 'srv handler) option" where
  "do_act_EXAMINE_OBJECT env efl f w =
     (if efl = NULL then Some (let (r, w') = h_SetRes DOSFALSE ERROR_INVALID_LOCK w in (r, f, w'))
      else do {
        l \<leftarrow> hp_elock (h_g w) efl;
        (p, r, w1) \<leftarrow> get_attr env (fl_Key l) (efl_NFSFh l) (g_Res2 (h_g w)) w;
        (if p \<noteq> NULL then do {
           a \<leftarrow> hp_ace (h_attrs w1) p;
           f' \<leftarrow> (if efl_Name l = [] then FAttr2FIB (ace_FAttr a) (bytes_of (dl_Name w1)) (int (length (dl_Name w1))) (g_MaxFileNameLen w1) f
                 else FAttr2FIB (ace_FAttr a) (bytes_of (efl_Name l)) (int (length (efl_Name l))) (g_MaxFileNameLen w1) f);
           Some (let (r1, w') = h_SetRes DOSTRUE r w1 in (r1, f', w'))
         }
         else Some (let (r1, w') = h_SetRes DOSFALSE r w1 in (r1, f, w')))
      })"

definition do_ExamineRoot :: "'srv env \<Rightarrow> fib \<Rightarrow> 'srv handler \<Rightarrow> (int \<times> fib \<times> 'srv handler) option" where
  "do_ExamineRoot env f w =
     do {
       (p, r, w1) \<leftarrow> get_attr env (fa_fileid (g_MntAttr w)) (g_MntFh w) (g_Res2 (h_g w)) w;
       a \<leftarrow> (if p \<noteq> NULL then map_option ace_FAttr (hp_ace (h_attrs w1) p) else Some (g_MntAttr w1));
       f' \<leftarrow> FAttr2FIB a (bytes_of (dl_Name w1)) (int (length (dl_Name w1))) (g_MaxFileNameLen w1) f;
       Some (let (r1, w') = h_SetRes1 DOSTRUE w1 in (r1, f', w'))
     }"

definition act_EXAMINE_OBJECT :: "'srv env \<Rightarrow> addr \<Rightarrow> fib \<Rightarrow> 'srv handler \<Rightarrow> (int \<times> fib \<times> 'srv handler) option" where
  "act_EXAMINE_OBJECT env fl f w =
     (if fl \<noteq> NULL then Option.bind (lock_Lookup fl (h_g w)) (\<lambda>l. do_act_EXAMINE_OBJECT env l f w)
      else do_ExamineRoot env f w)"

text \<open>The attributes of a directory entry, first from the cache.\<close>

definition LookupAttr ::
  "'srv env \<Rightarrow> elock \<Rightarrow> u32 \<Rightarrow> string \<Rightarrow> int \<Rightarrow> 'srv handler \<Rightarrow> (fattr option \<times> int \<times> 'srv handler) option" where
  "LookupAttr env efl FileId Name Res2 w0 =
     do {
       let t = h_tick w0; let w = tick 2 w0;
       (p, a1) \<leftarrow> attrs_LookupFromFileId (e_clk env t) (h_attrs w) FileId;
       let w1 = w\<lparr>h_attrs := a1\<rparr>;
       (if p \<noteq> NULL then map_option (\<lambda>a. (Some (ace_FAttr a), Res2, w1)) (hp_ace a1 p)
        else do {
          (D0, dc1) \<leftarrow> dc_DCELookupFromFileId (e_clk env (t + 1)) (h_dirs w1) (fl_Key efl);
          let w2 = w1\<lparr>h_dirs := dc1\<rparr>;
          (D, r1, w3) \<leftarrow> (if D0 = NULL then GetDirEntry env NULL (fl_Key efl) (efl_NFSFh efl) Res2 w2
                         else Some (D0, Res2, w2));
          (if D = NULL then Some (None, r1, w3)
           else do {
             (NE, ACE, r2, w4) \<leftarrow> GetNameEntry env D Name True r1 w3;
             (if NE = NULL then Some (None, r2, w4)
              else map_option (\<lambda>a. (Some (ace_FAttr a), r2, w4)) (hp_ace (h_attrs w4) ACE))
           })
        })
     }"

subsection \<open>A directory, entry by entry\<close>

definition skip_name :: "int \<Rightarrow> entry \<Rightarrow> bool" where
  "skip_name MaxLen en \<longleftrightarrow> en_name en = ''.'' \<or> en_name en = ''..'' \<or> int (length (en_name en)) > MaxLen"

definition skip_entries :: "int \<Rightarrow> u32 \<Rightarrow> entry list \<Rightarrow> entry list \<times> u32" where
  "skip_entries MaxLen cookie ents =
     (let sk = takeWhile (skip_name MaxLen) ents
      in (dropWhile (skip_name MaxLen) ents, if sk = [] then cookie else en_cookie (last sk)))"

text \<open>From the label \<open>nextdir\<close>: replies are read until one has an entry that is not skipped, or is
  the last.\<close>

partial_function (option) readdir_loop ::
  "'srv env \<Rightarrow> edh \<Rightarrow> int \<Rightarrow> 'srv handler \<Rightarrow> (entry list \<times> edh \<times> int \<times> 'srv handler) option" where
  "readdir_loop env d Res2 w =
     (let ((ents, eof, r), s) = nfs_ReadDir (e_nfs env) (edh_NFSDirFh d) (edh_NFSCookie d)
                                  (ng_MaxReadDirSize (g_NFSGlobal (h_g w))) (edh_Eof d \<noteq> 0) Res2 (g_srv (h_g w));
          (rest, c) = skip_entries (g_MaxFileNameLen w) (edh_NFSCookie d) ents;
          d1 = d\<lparr>edh_Eof := of_bool eof, edh_NFSCookie := c\<rparr>;
          w1 = put_srv s w
      in if ents \<noteq> [] \<and> rest = [] \<and> \<not> eof then readdir_loop env d1 r w1 else Some (rest, d1, r, w1))"

declare readdir_loop.simps [code]

definition put_edh :: "addr \<Rightarrow> edh \<Rightarrow> 'srv handler \<Rightarrow> 'srv handler" where
  "put_edh a d w = w\<lparr>h_g := (h_g w)\<lparr>hp_edh := (hp_edh (h_g w))(a \<mapsto> d)\<rparr>\<rparr>"

definition drop_edh :: "addr \<Rightarrow> 'srv handler \<Rightarrow> 'srv handler option" where
  "drop_edh a w = map_option (\<lambda>(a', g1). w\<lparr>h_g := dir_Delete a' g1\<rparr>) (dir_Remove a (h_g w))"

definition dup_entries :: "'srv env \<Rightarrow> entry list \<Rightarrow> 'srv handler \<Rightarrow> entry list \<times> 'srv handler" where
  "dup_entries env ents w = (dir_DupEntries (\<lambda>i. e_str env (h_tick w + i)) ents, tick (length ents) w)"

text \<open>Filling the scan when it has no entries; the result is \<open>Res2\<close> of the packet when it ends here.\<close>

definition next_fill :: "'srv env \<Rightarrow> addr \<Rightarrow> int \<Rightarrow> 'srv handler \<Rightarrow> ((int + int) \<times> 'srv handler) option" where
  "next_fill env a Res2 w =
     do {
       d \<leftarrow> hp_edh (h_g w) a;
       (if edh_Eof d \<noteq> 0 then map_option (\<lambda>w1. (Inl ERROR_NO_MORE_ENTRIES, w1)) (drop_edh a w)
        else do {
          (rest, d1, r, w1) \<leftarrow> readdir_loop env d Res2 w;
          let (ents, w2) = (if rest \<noteq> [] then dup_entries env rest w1 else ([], w1));
          let r2 = (if rest \<noteq> [] \<and> ents = [] then ERROR_NO_FREE_STORE else r);
          (if ents = [] then
             (let r3 = (if edh_Eof d1 \<noteq> 0 then ERROR_NO_MORE_ENTRIES else r2)
              in map_option (\<lambda>w3. (Inl (if r3 > 1000 then ERROR_NO_MORE_ENTRIES else r3), w3)) (drop_edh a (put_edh a d1 w2)))
           else Some (Inr r2, put_edh a (d1\<lparr>edh_NFSEntries := ents\<rparr>) w2))
        })
     }"

definition edh_put_name :: "u8 list \<Rightarrow> u8 list \<Rightarrow> u8 list option" where
  "edh_put_name nm FileName =
     (let l = nat (min (uint (FileName ! 0) + 2) (int EDH_MAX_FILENAME_SIZE - 1))
      in if l > length FileName \<or> l \<ge> length nm then None
         else Some ((take l FileName @ drop l nm)[l := 0]))"

definition next_entry :: "'srv env \<Rightarrow> elock \<Rightarrow> addr \<Rightarrow> fib \<Rightarrow> int \<Rightarrow> 'srv handler \<Rightarrow> (int \<times> fib \<times> 'srv handler) option" where
  "next_entry env efl a f Res2 w =
     do {
       d \<leftarrow> hp_edh (h_g w) a;
       (case dir_RemHeadEntry d of
          (None, _) \<Rightarrow> None
        | (Some en, d1) \<Rightarrow>
            do {
              (at, r, w1) \<leftarrow> LookupAttr env efl (en_fileid en) (en_name en) Res2 (put_edh a d1 w);
              (case at of
                 None \<Rightarrow> Some (let (r1, w') = h_SetRes DOSFALSE r w1 in (r1, f, w'))
               | Some fa \<Rightarrow>
                   do {
                     f' \<leftarrow> FAttr2FIB fa (bytes_of (en_name en)) (-1) (g_MaxFileNameLen w1) f;
                     nm \<leftarrow> edh_put_name (edh_Name d1) (fib_FileName f');
                     Some (let (r1, w') = h_SetRes DOSTRUE r
                                 (put_edh a (d1\<lparr>edh_Cookie := fa_fileid fa, edh_NFSCookie := en_cookie en, edh_Name := nm\<rparr>) w1)
                           in (r1, f', w'))
                   })
            })
     }"

definition act_EXAMINE_NEXT :: "'srv env \<Rightarrow> addr \<Rightarrow> fib \<Rightarrow> 'srv handler \<Rightarrow> (int \<times> fib \<times> 'srv handler) option" where
  "act_EXAMINE_NEXT env fl f w0 =
     do {
       efl \<leftarrow> lock_Lookup fl (h_g w0);
       (if efl = NULL then Some (let (r1, w') = h_SetRes DOSFALSE 0 (snd (h_SetRes DOSFALSE ERROR_INVALID_LOCK w0)) in (r1, f, w'))
        else do {
          let w = tick 1 w0;
          l \<leftarrow> hp_elock (h_g w) efl;
          a0 \<leftarrow> dir_LookupFromKeyAndCookieAndCBSTR (fl_Key l) (fib_DiskKey f) (fib_FileName f) (h_g w);
          (if a0 = NULL \<and> fl_Key l \<noteq> fib_DiskKey f
           then Some (let (r1, w') = h_SetRes DOSFALSE ERROR_NO_MORE_ENTRIES w in (r1, f, w'))
           else do {
             (a, g1) \<leftarrow> (if a0 = NULL then
                  dir_Create (e_dh env (h_tick w0) (hp_edh (h_g w))) (fl_Key l) (fib_DiskKey f) (efl_NFSFh l) 0
                    (Some (fib_FileName f)) (g_MaxFileNameLen w) (h_g w)
                else Some (a0, h_g w));
             (if a = NULL then Some (let (r1, w') = h_SetRes DOSFALSE ERROR_NO_FREE_STORE w in (r1, f, w'))
              else do {
                g2 \<leftarrow> (if a0 = NULL then dir_Insert a g1 else Some g1);
                let w1 = w\<lparr>h_g := g2\<rparr>;
                d \<leftarrow> hp_edh g2 a;
                (if efl_NFSFh l \<noteq> edh_NFSDirFh d
                 then Some (let (r1, w') = h_SetRes DOSFALSE ERROR_OBJECT_WRONG_TYPE w1 in (r1, f, w'))
                 else do {
                   (res, w2) \<leftarrow> (if edh_NFSEntries d = [] then next_fill env a 0 w1 else Some (Inr 0, w1));
                   (case res of
                      Inl e \<Rightarrow> Some (let (r1, w') = h_SetRes DOSFALSE e w2 in (r1, f, w'))
                    | Inr r \<Rightarrow> next_entry env l a f r w2)
                 })
              })
           })
        })
     }"

subsection \<open>Attributes by tags\<close>

text \<open>A user tag of the client's list; \<open>ti_Date\<close> is the structure that \<open>ti_Data\<close> points to, \<open>None\<close>
  when that is NULL.\<close>

record tagitem =
  ti_Tag :: u32
  ti_Data :: u32
  ti_Date :: "datestamp option"

abbreviation DSA_Dummy :: u32 where "DSA_Dummy \<equiv> 0x80000000 + 10000"
abbreviation DSA_MODIFY_TIME :: u32 where "DSA_MODIFY_TIME \<equiv> DSA_Dummy + 1"
abbreviation DSA_PROTECTION :: u32 where "DSA_PROTECTION \<equiv> DSA_Dummy + 2"
abbreviation DSA_OWNER_UID :: u32 where "DSA_OWNER_UID \<equiv> DSA_Dummy + 3"
abbreviation DSA_OWNER_GID :: u32 where "DSA_OWNER_GID \<equiv> DSA_Dummy + 4"
abbreviation DSA_CREATE_TIME :: u32 where "DSA_CREATE_TIME \<equiv> DSA_Dummy + 6"
abbreviation DSA_ACCESS_TIME :: u32 where "DSA_ACCESS_TIME \<equiv> DSA_Dummy + 7"
abbreviation TAG_IGNORE :: u32 where "TAG_IGNORE \<equiv> 1"

definition put_tag :: "fattr \<Rightarrow> tagitem \<Rightarrow> tagitem \<times> nat" where
  "put_tag a t =
     (if ti_Tag t = DSA_MODIFY_TIME then (t\<lparr>ti_Date := map_option (\<lambda>_. timeval2DateStamp (fa_mtime a)) (ti_Date t)\<rparr>, 1)
      else if ti_Tag t = DSA_PROTECTION then (t\<lparr>ti_Data := NFSMode2Protection (fa_mode a)\<rparr>, 1)
      else if ti_Tag t = DSA_OWNER_UID then (t\<lparr>ti_Data := fa_uid a\<rparr>, 1)
      else if ti_Tag t = DSA_OWNER_GID then (t\<lparr>ti_Data := fa_gid a\<rparr>, 1)
      else if ti_Tag t = DSA_CREATE_TIME then (t\<lparr>ti_Date := map_option (\<lambda>_. timeval2DateStamp (fa_ctime a)) (ti_Date t)\<rparr>, 1)
      else if ti_Tag t = DSA_ACCESS_TIME then (t\<lparr>ti_Date := map_option (\<lambda>_. timeval2DateStamp (fa_atime a)) (ti_Date t)\<rparr>, 1)
      else (t\<lparr>ti_Tag := TAG_IGNORE\<rparr>, 0))"

definition act_GET_ATTRIBUTES ::
  "'srv env \<Rightarrow> addr \<Rightarrow> char list \<Rightarrow> tagitem list \<Rightarrow> 'srv handler \<Rightarrow> (int \<times> tagitem list \<times> 'srv handler) option" where
  "act_GET_ATTRIBUTES env fl bs tags w =
     do {
       (D, nm, r, w1) \<leftarrow> LRootLocateDir env fl bs False (g_Res2 (h_g w)) w;
       (case nm of
          None \<Rightarrow> Some (let (r1, w') = h_SetRes DOSFALSE r w1 in (r1, tags, w'))
        | Some (_, Name, _) \<Rightarrow>
            do {
              (NE, ACE, r2, w2) \<leftarrow> GetNameEntry env D (cstr_of Name) True r w1;
              (if NE = NULL then Some (let (r1, w') = h_SetRes DOSFALSE r2 w2 in (r1, tags, w'))
               else do {
                 a \<leftarrow> hp_ace (h_attrs w2) ACE;
                 let ts = map (put_tag (ace_FAttr a)) tags;
                 Some (let (r1, w') = h_SetRes (int (sum_list (map snd ts))) 0 w2 in (r1, map fst ts, w'))
               })
            })
     }"

subsection \<open>Many entries at once\<close>

abbreviation (input) ED_NAME :: int where "ED_NAME \<equiv> 1"
abbreviation (input) ED_TYPE :: int where "ED_TYPE \<equiv> 2"
abbreviation (input) ED_SIZE :: int where "ED_SIZE \<equiv> 3"
abbreviation (input) ED_PROTECTION :: int where "ED_PROTECTION \<equiv> 4"
abbreviation (input) ED_DATE :: int where "ED_DATE \<equiv> 5"
abbreviation (input) ED_COMMENT :: int where "ED_COMMENT \<equiv> 6"
abbreviation (input) ED_OWNER :: int where "ED_OWNER \<equiv> 7"

text \<open>\<open>struct ExAllData\<close> of xexall.h: the offsets of the fields behind \<open>ed_Next\<close> and \<open>ed_Name\<close>.\<close>

abbreviation (input) off_Name :: nat where "off_Name \<equiv> 4"
abbreviation (input) off_Type :: nat where "off_Type \<equiv> 8"
abbreviation (input) off_Size :: nat where "off_Size \<equiv> 12"
abbreviation (input) off_Prot :: nat where "off_Prot \<equiv> 16"
abbreviation (input) off_Days :: nat where "off_Days \<equiv> 20"
abbreviation (input) off_Comment :: nat where "off_Comment \<equiv> 32"
abbreviation (input) off_OwnerUID :: nat where "off_OwnerUID \<equiv> 36"
abbreviation (input) off_OwnerGID :: nat where "off_OwnerGID \<equiv> 38"

type_synonym mem = "nat \<Rightarrow> u8"

definition put_mem :: "nat \<Rightarrow> u8 list \<Rightarrow> mem \<Rightarrow> mem" where
  "put_mem p bs m = (\<lambda>i. if p \<le> i \<and> i < p + length bs then bs ! (i - p) else m i)"

definition be16 :: "u16 \<Rightarrow> u8 list" where
  "be16 v = [ucast (drop_bit 8 v), ucast v]"

definition be32 :: "u32 \<Rightarrow> u8 list" where
  "be32 v = [ucast (drop_bit 24 v), ucast (drop_bit 16 v), ucast (drop_bit 8 v), ucast v]"

definition GetFixedSize :: "int \<Rightarrow> nat" where
  "GetFixedSize Type =
     (if Type = ED_NAME then off_Type else if Type = ED_TYPE then off_Size else if Type = ED_SIZE then off_Prot
      else if Type = ED_PROTECTION then off_Days else if Type = ED_DATE then off_Comment
      else if Type = ED_COMMENT then off_OwnerUID else off_OwnerUID + 2)"

text \<open>\<open>level\<close>: where the switch enters; it falls through to the name. \<open>Buf\<close> is the address of the
  record, which must not be reached by the numbers it holds (32 bits).\<close>

definition exall_fields :: "int \<Rightarrow> nat \<Rightarrow> nat \<Rightarrow> fattr \<Rightarrow> mem \<Rightarrow> mem" where
  "exall_fields Type FixedSize Buf a m0 =
     (let level = (if Type < ED_NAME \<or> Type > ED_OWNER then ED_OWNER else Type);
          m = put_mem Buf (be32 0) m0;
          m = (if level \<ge> ED_OWNER then put_mem (Buf + off_OwnerGID) (be16 (nfsgid2GID (fa_gid a)))
                 (put_mem (Buf + off_OwnerUID) (be16 (nfsuid2UID (fa_uid a))) m) else m);
          m = (if level \<ge> ED_COMMENT then put_mem (Buf + off_Comment) (be32 0) m else m);
          ds = timeval2DateStamp (fa_mtime a);
          m = (if level \<ge> ED_DATE then put_mem (Buf + off_Days)
                 (be32 (word_of_int (ds_Days ds)) @ be32 (word_of_int (ds_Minute ds)) @ be32 (word_of_int (ds_Tick ds))) m else m);
          m = (if level \<ge> ED_PROTECTION then put_mem (Buf + off_Prot) (be32 (NFSMode2Protection (fa_mode a))) m else m);
          m = (if level \<ge> ED_SIZE then put_mem (Buf + off_Size) (be32 (fa_size a)) m else m);
          m = (if level \<ge> ED_TYPE then put_mem (Buf + off_Type) (be32 (word_of_int (NFSType2EntryType (fa_type a)))) m else m)
      in put_mem (Buf + off_Name) (be32 (of_nat (Buf + FixedSize))) m)"

definition PutExAllData ::
  "nat \<Rightarrow> int \<Rightarrow> int \<Rightarrow> nat \<Rightarrow> int \<Rightarrow> entry \<Rightarrow> fattr \<Rightarrow> mem \<Rightarrow> int \<times> mem" where
  "PutExAllData Buf Size Type FixedSize MaxFileNameLen anEntry a m =
     (let realLen = nat (min (int (length (en_name anEntry))) MaxFileNameLen);
          nameLen = (realLen + 1 + 3) div 4 * 4;
          sizeNeeded = int (FixedSize + nameLen)
      in if Size \<ge> sizeNeeded then
           (sizeNeeded, put_mem (Buf + FixedSize) (take realLen (bytes_of (en_name anEntry)) @ [0]) (exall_fields Type FixedSize Buf a m))
         else (-1, m))"

definition GetNextEntries :: "'srv env \<Rightarrow> addr \<Rightarrow> int \<Rightarrow> 'srv handler \<Rightarrow> (bool \<times> int \<times> 'srv handler) option" where
  "GetNextEntries env a Res2 w =
     do {
       d \<leftarrow> hp_edh (h_g w) a;
       (if edh_Eof d \<noteq> 0 then map_option (\<lambda>w1. (False, ERROR_NO_MORE_ENTRIES, w1)) (drop_edh a w)
        else do {
          (rest, d1, r, w1) \<leftarrow> readdir_loop env d Res2 w;
          (if rest = [] then
             (let r1 = (if edh_Eof d1 \<noteq> 0 then ERROR_NO_MORE_ENTRIES else r)
              in map_option (\<lambda>w2. (False, if r1 > 1000 then ERROR_NO_MORE_ENTRIES else r1, w2)) (drop_edh a (put_edh a d1 w1)))
           else
             (let (ents, w2) = dup_entries env rest w1
              in if ents = [] then map_option (\<lambda>w3. (False, ERROR_NO_FREE_STORE, w3)) (drop_edh a (put_edh a d1 w2))
                 else Some (True, r, put_edh a (d1\<lparr>edh_NFSEntries := ents\<rparr>) w2)))
        })
     }"

text \<open>What the client wants: the buffer's fields, the pattern and the hook function.\<close>

record exall =
  ex_Type :: int
  ex_match :: "(string \<Rightarrow> bool) option"
  ex_hook :: "(int \<Rightarrow> nat \<Rightarrow> mem \<Rightarrow> bool) option"

record exstate =
  ex_mem :: mem
  ex_Buf :: nat
  ex_Size :: u32
  ex_last :: nat
  ex_num :: u32

definition exall_attr :: "'srv env \<Rightarrow> elock \<Rightarrow> entry \<Rightarrow> int \<Rightarrow> 'srv handler \<Rightarrow> (fattr option \<times> int \<times> 'srv handler) option" where
  "exall_attr env efl en Res2 w =
     do {
       (at, r, w1) \<leftarrow> LookupAttr env efl (en_fileid en) (en_name en) Res2 w;
       (if at = None \<and> r = ERROR_NO_FREE_STORE then
          do {
            a2 \<leftarrow> attrs_UnLockAll (e_clk env (h_tick w1)) (h_attrs w1);
            d2 \<leftarrow> dc_UnLockAll (e_clk env (h_tick w1 + 1)) (h_dirs w1);
            LookupAttr env efl (en_fileid en) (en_name en) r (tick 2 (w1\<lparr>h_attrs := a2, h_dirs := d2\<rparr>))
          }
        else Some (at, r, w1))
     }"

definition exall_accept :: "exall \<Rightarrow> int \<Rightarrow> exstate \<Rightarrow> exstate" where
  "exall_accept ex entrySize st =
     (if (case ex_hook ex of None \<Rightarrow> True | Some h \<Rightarrow> h (ex_Type ex) (ex_Buf st) (ex_mem st)) then
        st\<lparr>ex_mem := (if ex_last st \<noteq> 0 then put_mem (ex_last st) (be32 (of_nat (ex_Buf st))) (ex_mem st) else ex_mem st),
           ex_last := ex_Buf st, ex_Size := ex_Size st - word_of_int entrySize, ex_Buf := ex_Buf st + nat entrySize,
           ex_num := ex_num st + 1\<rparr>
      else st)"

definition rem_entry :: "addr \<Rightarrow> edh \<Rightarrow> 'srv handler \<Rightarrow> 'srv handler" where
  "rem_entry a d w =
     (case dir_RemHeadEntry d of
        (None, _) \<Rightarrow> w
      | (Some en, d1) \<Rightarrow> put_edh a (d1\<lparr>edh_NFSCookie := en_cookie en\<rparr>) w)"

text \<open>Both loops: with no entries left the next ones are fetched, else the first is put in the
  buffer. The result is \<open>Res1\<close>, \<open>Res2\<close>.\<close>

partial_function (option) exall_loop ::
  "'srv env \<Rightarrow> exall \<Rightarrow> elock \<Rightarrow> addr \<Rightarrow> int \<Rightarrow> exstate \<Rightarrow> 'srv handler \<Rightarrow> (int \<times> int \<times> exstate \<times> 'srv handler) option" where
  "exall_loop env ex efl a Res2 st w =
     do {
       d \<leftarrow> hp_edh (h_g w) a;
       (case edh_NFSEntries d of
          [] \<Rightarrow>
            do {
              (ok, r, w1) \<leftarrow> GetNextEntries env a Res2 w;
              (if ok then exall_loop env ex efl a r st w1 else Some (DOSFALSE, r, st, w1))
            }
        | en # _ \<Rightarrow>
            if (case ex_match ex of Some mt \<Rightarrow> \<not> mt (en_name en) | None \<Rightarrow> False)
            then exall_loop env ex efl a Res2 st (rem_entry a d w)
            else do {
              (at, r, w1) \<leftarrow> (if ex_Type ex > ED_NAME then exall_attr env efl en Res2 w else Some (None, Res2, w));
              (if ex_Type ex = ED_NAME \<or> at \<noteq> None then
                 (let (n, m) = PutExAllData (ex_Buf st) (sint (ex_Size st)) (ex_Type ex) (GetFixedSize (ex_Type ex))
                                 (g_MaxFileNameLen w1) en (case at of Some fa \<Rightarrow> fa | None \<Rightarrow> g_MntAttr w1) (ex_mem st);
                      st1 = st\<lparr>ex_mem := m\<rparr>
                  in if n < 0 then Some (DOSTRUE, 0, st1, w1)
                     else do {
                       d1 \<leftarrow> hp_edh (h_g w1) a;
                       exall_loop env ex efl a r (exall_accept ex n st1) (rem_entry a d1 w1)
                     })
               else map_option (\<lambda>w2. (DOSFALSE, r, st, w2)) (drop_edh a w1))
            })
     }"

declare exall_loop.simps [code]

text \<open>\<open>eac_Entries\<close> and \<open>eac_LastKey\<close> are passed and returned; \<open>Buf\<close> and \<open>Size\<close> come with the packet.\<close>

definition act_EXAMINE_ALL ::
  "'srv env \<Rightarrow> addr \<Rightarrow> nat \<Rightarrow> u32 \<Rightarrow> exall \<Rightarrow> u32 \<Rightarrow> addr \<Rightarrow> mem \<Rightarrow> 'srv handler \<Rightarrow>
     (int \<times> u32 \<times> addr \<times> mem \<times> 'srv handler) option" where
  "act_EXAMINE_ALL env fl Buf Size ex Entries LastKey m w0 =
     (if ex_Type ex < ED_NAME \<or> ex_Type ex > ED_OWNER \<or> Size < 8
      then Some (let (r1, w') = h_SetRes DOSFALSE ERROR_BAD_NUMBER w0 in (r1, Entries, LastKey, m, w'))
      else do {
        let m1 = put_mem Buf (be32 0) m;
        efl \<leftarrow> lock_Lookup fl (h_g w0);
        (if efl = NULL
         then Some (let (r1, w') = h_SetRes DOSFALSE 0 (snd (h_SetRes DOSFALSE ERROR_INVALID_LOCK w0)) in (r1, 0, LastKey, m1, w'))
         else do {
           let w = tick 1 w0;
           l \<leftarrow> hp_elock (h_g w) efl;
           (a, Key, r, w1) \<leftarrow>
             (if LastKey = NULL then do {
                (a, g1) \<leftarrow> dir_Create (e_dh env (h_tick w0) (hp_edh (h_g w))) (fl_Key l) (fl_Key l) (efl_NFSFh l) 0 None
                             (g_MaxFileNameLen w) (h_g w);
                (if a = NULL then Some (NULL, LastKey, ERROR_NO_FREE_STORE, w)
                 else map_option (\<lambda>g2. (a, a, 0, w\<lparr>h_g := g2\<rparr>)) (dir_Insert a g1))
              }
              else map_option (\<lambda>a. (a, LastKey, if a = NULL then ERROR_NO_MORE_ENTRIES else 0, w)) (dir_LookupFromAddress LastKey (h_g w)));
           (if a = NULL then Some (let (r1, w') = h_SetRes DOSFALSE r w1 in (r1, 0, Key, m1, w'))
            else do {
              (r1, r2, st, w2) \<leftarrow> exall_loop env ex l a r \<lparr>ex_mem = m1, ex_Buf = Buf, ex_Size = Size, ex_last = 0, ex_num = 0\<rparr> w1;
              Some (let (x, w') = h_SetRes r1 r2 w2 in (x, ex_num st, Key, ex_mem st, w'))
            })
         })
      })"

end
