(* ===== verification/ExamineData.thy ===== *)
theory ExamineData
  imports Examine
begin

text \<open>
  What the conversions of examine.c keep: dates come back, the protection bits say what the mode
  says, and the records of \<open>ExAll\<close> stay inside the client's buffer.
\<close>

subsection \<open>Dates\<close>

definition date_ok :: "datestamp \<Rightarrow> bool" where
  "date_ok d \<longleftrightarrow> 0 \<le> ds_Days d \<and> ds_Days d < 24855 \<and> 0 \<le> ds_Minute d \<and> ds_Minute d < 1440 \<and> 0 \<le> ds_Tick d \<and> ds_Tick d < 3000"

lemma sint_small: "uint (w::u32) < 2 ^ 31 \<Longrightarrow> sint w = uint w"
  by (rule LONG_of_small)

lemma stamp_of_nat:
  assumes "s < 2 ^ 31" and "u < 1000000"
  shows "timeval2DateStamp \<lparr>seconds = of_nat s, useconds = of_nat u\<rparr> =
     \<lparr>ds_Days = int (s div 86400), ds_Minute = int (s mod 86400 div 60), ds_Tick = int (s mod 60 * 50 + u div 20000)\<rparr>"
proof -
  have us: "unat (of_nat s :: u32) = s" "unat (of_nat u :: u32) = u"
    using assms by (simp_all add: unsigned_of_nat take_bit_nat_eq_self)
  have "unat ((of_nat u :: u32) div 1000000) = 0" using us assms by (simp add: unat_div)
  then have "(of_nat u :: u32) div 1000000 = 0" unfolding unsigned_eq_0_iff .
  then have s: "sint (of_nat s + (of_nat u :: u32) div 1000000) = int s"
    using sint_small [of "of_nat s"] us(1) assms(1) by (simp add: uint_nat)
  have t: "unat ((of_nat s mod 60) * 50 + (of_nat u :: u32) div 20000) = s mod 60 * 50 + u div 20000"
  proof -
    have m: "unat (of_nat s mod 60 :: u32) = s mod 60" using us by (simp add: unat_mod)
    have d: "unat ((of_nat u :: u32) div 20000) = u div 20000" using us by (simp add: unat_div)
    have b: "s mod 60 * 50 \<le> 2950" "u div 20000 < 50" using assms(2) by auto
    have mm: "unat ((of_nat s mod 60) * 50 :: u32) = s mod 60 * 50"
      by (subst unat_mult_lem [THEN iffD1]) (use m b in simp_all)
    show ?thesis by (subst unat_add_lem [THEN iffD1]) (use mm d b in simp_all)
  qed
  have "s mod 60 * 50 + u div 20000 < 2 ^ 31" using assms(2) by auto
  then have "sint ((of_nat s mod 60) * 50 + (of_nat u :: u32) div 20000) = int (s mod 60 * 50 + u div 20000)"
    using sint_small [of "(of_nat s mod 60) * 50 + of_nat u div 20000"] t by (simp add: uint_nat)
  then show ?thesis using s by (simp add: timeval2DateStamp_def Let_def sdiv_nonneg zdiv_int zmod_int)
qed

lemma stamp_back:
  assumes "s < 2 ^ 31" and "u < 1000000"
  shows "DateStamp2timeval \<lparr>ds_Days = int (s div 86400), ds_Minute = int (s mod 86400 div 60), ds_Tick = int (s mod 60 * 50 + u div 20000)\<rparr>
     = \<lparr>seconds = of_nat s, useconds = of_nat (u - u mod 20000)\<rparr>"
proof -
  have u: "u div 20000 < 50" using assms(2) by (simp add: div_less_iff_less_mult)
  have t: "(s mod 60 * 50 + u div 20000) div 50 = s mod 60" "(s mod 60 * 50 + u div 20000) mod 50 = u div 20000" using u by simp_all
  have "s mod 86400 mod 60 = s mod 60" by (rule mod_mod_cancel) simp
  then have m: "s mod 86400 div 60 * 60 + s mod 60 = s mod 86400" by (metis div_mult_mod_eq)
  have "(s div 86400 * 24 * 60 + s mod 86400 div 60) * 60 + s mod 60 = s div 86400 * 86400 + (s mod 86400 div 60 * 60 + s mod 60)" by simp
  then have sec: "(s div 86400 * 24 * 60 + s mod 86400 div 60) * 60 + s mod 60 = s" unfolding m by simp
  have i: "int (s mod 60 * 50 + u div 20000) sdiv 50 = int (s mod 60)" "int (s mod 60 * 50 + u div 20000) smod 50 = int (u div 20000)"
    by (subst sdiv_nonneg; metis t of_nat_0_le_iff of_nat_numeral zdiv_int zmod_int zero_less_numeral)+
  have us: "int (u div 20000) * 1000000 sdiv 50 = int (u - u mod 20000)"
  proof -
    have "int (u div 20000) * 1000000 sdiv 50 = int (u div 20000 * 20000)" by (simp add: sdiv_nonneg)
    then show ?thesis by (simp add: minus_mod_eq_div_mult)
  qed
  have e: "(int (s div 86400) * 24 * 60 + int (s mod 86400 div 60)) * 60 + int (s mod 60) = int s"
    using sec by (metis (mono_tags) of_nat_add of_nat_mult of_nat_numeral)
  show ?thesis unfolding DateStamp2timeval_def datestamp.simps i us e by simp
qed

text \<open>C38. Dates come back: a time of the server, in the range that a \<open>LONG\<close> of seconds has, survives
  the way through a \<open>DateStamp\<close> up to a tick of a fiftieth second, and a valid \<open>DateStamp\<close>
  survives the way through the server's time exactly.\<close>

theorem date_roundtrip:
  assumes tv: "unat (seconds tv) < 2 ^ 31" "unat (useconds tv) < 1000000" and d: "date_ok d"
  shows "DateStamp2timeval (timeval2DateStamp tv) = tv\<lparr>useconds := of_nat (unat (useconds tv) - unat (useconds tv) mod 20000)\<rparr> \<and>
    timeval2DateStamp (DateStamp2timeval d) = d"
proof
  define s u where "s = unat (seconds tv)" and "u = unat (useconds tv)"
  have b: "s < 2 ^ 31" "u < 1000000" unfolding s_def u_def by (rule tv)+
  have e: "tv = \<lparr>seconds = of_nat s, useconds = of_nat u\<rparr>" by (cases tv) (simp add: s_def u_def)
  have "DateStamp2timeval (timeval2DateStamp tv) = \<lparr>seconds = of_nat s, useconds = of_nat (u - u mod 20000)\<rparr>"
    by (subst e) (simp only: stamp_of_nat [OF b] stamp_back [OF b])
  then show "DateStamp2timeval (timeval2DateStamp tv) = tv\<lparr>useconds := of_nat (unat (useconds tv) - unat (useconds tv) mod 20000)\<rparr>"
    by (cases tv) (simp add: s_def u_def)
next
  define D M K where "D = nat (ds_Days d)" and "M = nat (ds_Minute d)" and "K = nat (ds_Tick d)"
  have b: "D < 24855" "M < 1440" "K < 3000" and e: "d = \<lparr>ds_Days = int D, ds_Minute = int M, ds_Tick = int K\<rparr>"
    using d by (auto simp: date_ok_def D_def M_def K_def)
  define s u where "s = D * 86400 + M * 60 + K div 50" and "u = K mod 50 * 20000"
  have k: "K div 50 < 60" "K mod 50 < 50" using b(3) by auto
  have bs: "s < 2 ^ 31" "u < 1000000" using b k by (auto simp: s_def u_def)
  have low: "M * 60 + K div 50 < 86400" using b(2) k(1) by linarith
  have s: "s div 86400 = D" "s mod 86400 = M * 60 + K div 50" using low by (simp_all add: s_def add.assoc)
  have "s = K div 50 + 60 * (D * 1440 + M)" by (simp add: s_def)
  then have "s mod 60 = K div 50 mod 60" by (simp only: mod_mult_self2)
  then have s60: "s mod 60 = K div 50" using k(1) by simp
  have sm: "s mod 86400 div 60 = M" unfolding s(2) using k(1) by simp
  have ud: "u div 20000 = K mod 50" "u - u mod 20000 = u" by (simp_all add: u_def)
  have "s mod 60 * 50 + u div 20000 = K" unfolding s60 ud(1) by (rule div_mult_mod_eq)
  then have d': "d = \<lparr>ds_Days = int (s div 86400), ds_Minute = int (s mod 86400 div 60), ds_Tick = int (s mod 60 * 50 + u div 20000)\<rparr>"
    by (simp only: e s(1) sm)
  show "timeval2DateStamp (DateStamp2timeval d) = d"
    unfolding d' stamp_back [OF bs] ud(2) by (rule stamp_of_nat [OF bs])
qed

theorem date_roundtrip_witness:
  "let tv = \<lparr>seconds = 700000123, useconds = 30000\<rparr>; d = \<lparr>ds_Days = 8102, ds_Minute = 61, ds_Tick = 107\<rparr> in
     DateStamp2timeval (timeval2DateStamp tv) = tv\<lparr>useconds := 20000\<rparr> \<and> timeval2DateStamp (DateStamp2timeval d) = d"
  using date_roundtrip [of "\<lparr>seconds = 700000123, useconds = 30000\<rparr>" "\<lparr>ds_Days = 8102, ds_Minute = 61, ds_Tick = 107\<rparr>"]
  by (simp add: date_ok_def)

text \<open>The day numbers count from 1970, not, as AmigaDOS and the comment in the code have it, from
  1978: the beginning of 1978 becomes day 2922.\<close>

lemma date_epoch: "timeval2DateStamp \<lparr>seconds = 252460800, useconds = 0\<rparr> = \<lparr>ds_Days = 2922, ds_Minute = 0, ds_Tick = 0\<rparr>"
  using stamp_of_nat [of 252460800 0] by simp

subsection \<open>Records in the client's buffer\<close>

definition get_mem :: "mem \<Rightarrow> nat \<Rightarrow> nat \<Rightarrow> u8 list" where
  "get_mem m p n = map m [p..<p + n]"

lemma get_put_mem: "n = length bs \<Longrightarrow> get_mem (put_mem p bs m) p n = bs"
  by (rule nth_equalityI) (auto simp: get_mem_def put_mem_def)

lemma get_put_other: "p + n \<le> q \<or> q + length bs \<le> p \<Longrightarrow> get_mem (put_mem q bs m) p n = get_mem m p n"
  by (auto simp: get_mem_def put_mem_def)

lemma put_mem_outside: "i < p \<or> p + length bs \<le> i \<Longrightarrow> put_mem p bs m i = m i"
  by (auto simp: put_mem_def)

lemma length_be [simp]: "length (be16 v) = 2" "length (be32 x) = 4"
  by (simp_all add: be16_def be32_def)

definition stamp_bytes :: "datestamp \<Rightarrow> u8 list" where
  "stamp_bytes d = be32 (word_of_int (ds_Days d)) @ be32 (word_of_int (ds_Minute d)) @ be32 (word_of_int (ds_Tick d))"

lemma get_mem_take: "n \<le> k \<Longrightarrow> take n (get_mem m p k) = get_mem m p n"
  by (simp add: get_mem_def take_map)

lemma exall_types: "ED_NAME \<le> t \<Longrightarrow> t \<le> ED_OWNER \<Longrightarrow> t = 1 \<or> t = 2 \<or> t = 3 \<or> t = 4 \<or> t = 5 \<or> t = 6 \<or> t = 7"
  by arith

lemma exall_fields_ok:
  assumes "ED_NAME \<le> Type" and "Type \<le> ED_OWNER"
    and m': "m' = exall_fields Type (GetFixedSize Type) Buf a m"
  shows "Type \<le> ED_COMMENT \<Longrightarrow> 4 dvd GetFixedSize Type" "8 \<le> GetFixedSize Type"
    and "i < Buf \<or> Buf + GetFixedSize Type + 4 \<le> i \<Longrightarrow> m' i = m i"
    and "get_mem m' Buf 4 = be32 0" "get_mem m' (Buf + off_Name) 4 = be32 (of_nat (Buf + GetFixedSize Type))"
    and "ED_TYPE \<le> Type \<Longrightarrow> 12 \<le> GetFixedSize Type \<and> get_mem m' (Buf + off_Type) 4 = be32 (word_of_int (NFSType2EntryType (fa_type a)))"
    and "ED_SIZE \<le> Type \<Longrightarrow> 16 \<le> GetFixedSize Type \<and> get_mem m' (Buf + off_Size) 4 = be32 (fa_size a)"
    and "ED_PROTECTION \<le> Type \<Longrightarrow> 20 \<le> GetFixedSize Type \<and> get_mem m' (Buf + off_Prot) 4 = be32 (NFSMode2Protection (fa_mode a))"
    and "ED_DATE \<le> Type \<Longrightarrow> 32 \<le> GetFixedSize Type \<and> get_mem m' (Buf + off_Days) 12 = stamp_bytes (timeval2DateStamp (fa_mtime a))"
    and "ED_COMMENT \<le> Type \<Longrightarrow> 36 \<le> GetFixedSize Type \<and> get_mem m' (Buf + off_Comment) 4 = be32 0"
    and "ED_OWNER \<le> Type \<Longrightarrow> GetFixedSize Type = 38 \<and> get_mem m' (Buf + off_OwnerUID) 2 = be16 (nfsuid2UID (fa_uid a))"
  using exall_types [OF assms(1,2)] unfolding m'
  by (auto simp: exall_fields_def GetFixedSize_def Let_def get_put_mem get_put_other put_mem_outside stamp_bytes_def)

text \<open>C37. What \<open>ExAll\<close> puts in the client's buffer, for each of the seven types of request: a record that does not fit leaves the buffer
  untouched and is reported with -1; one that fits stays inside its \<open>n\<close> bytes, not above the size left,
  every field that the type asks for can be read back at its
  offset, and \<open>ed_Name\<close> points to the name, closed by a zero byte and cut to the limit. Up to \<open>ED_COMMENT\<close> \<open>n\<close> is a
  multiple of four. With \<open>ED_OWNER\<close> it is not, and of the two ids only the user's can be read: the name begins at the
  place of the group, whose bytes are those of the name.\<close>

theorem PutExAllData_record:
  assumes put: "PutExAllData Buf Size Type (GetFixedSize Type) MaxLen en a m = (n, m')"
    and type: "ED_NAME \<le> Type" "Type \<le> ED_OWNER" and lim: "0 \<le> MaxLen"
  defines "k \<equiv> min (length (en_name en)) (nat MaxLen)" and "F \<equiv> GetFixedSize Type"
  shows "if Size < int (F + (k + 4) div 4 * 4) then n = -1 \<and> m' = m
    else int (F + k + 1) \<le> n \<and> n \<le> Size \<and> (if Type \<le> ED_COMMENT then 4 dvd n else n mod 4 = 2) \<and>
     (\<forall>i. i < Buf \<or> int Buf + n \<le> int i \<longrightarrow> m' i = m i) \<and>
     get_mem m' Buf 4 = be32 0 \<and> get_mem m' (Buf + off_Name) 4 = be32 (of_nat (Buf + F)) \<and>
     get_mem m' (Buf + F) (k + 1) = take k (bytes_of (en_name en)) @ [0] \<and>
     (ED_TYPE \<le> Type \<longrightarrow> get_mem m' (Buf + off_Type) 4 = be32 (word_of_int (NFSType2EntryType (fa_type a)))) \<and>
     (ED_SIZE \<le> Type \<longrightarrow> get_mem m' (Buf + off_Size) 4 = be32 (fa_size a)) \<and>
     (ED_PROTECTION \<le> Type \<longrightarrow> get_mem m' (Buf + off_Prot) 4 = be32 (NFSMode2Protection (fa_mode a))) \<and>
     (ED_DATE \<le> Type \<longrightarrow> get_mem m' (Buf + off_Days) 12 = stamp_bytes (timeval2DateStamp (fa_mtime a))) \<and>
     (ED_COMMENT \<le> Type \<longrightarrow> get_mem m' (Buf + off_Comment) 4 = be32 0) \<and>
     (ED_OWNER \<le> Type \<longrightarrow> get_mem m' (Buf + off_OwnerUID) 2 = be16 (nfsuid2UID (fa_uid a)) \<and>
        (0 < k \<longrightarrow> get_mem m' (Buf + off_OwnerGID) 2 = take 2 (take k (bytes_of (en_name en)) @ [0])))"
proof -
  define m1 where m1: "m1 = exall_fields Type (GetFixedSize Type) Buf a m"
  note f = exall_fields_ok [OF type m1, folded F_def]
  let ?m = m1 and ?name = "take k (bytes_of (en_name en)) @ [0]"
  define s where "s = F + (k + 4) div 4 * 4"
  have k: "nat (min (int (length (en_name en))) MaxLen) = k" using lim by (simp add: k_def)
  have len: "length ?name = k + 1" by (simp add: bytes_of_def k_def)
  have e: "k + 1 + 3 = k + 4" by simp
  have s: "F + k + 1 \<le> s" "F + 4 \<le> s" by (auto simp: s_def)
  have al: "if Type \<le> ED_COMMENT then 4 dvd int s else int s mod 4 = 2"
  proof (cases "Type \<le> ED_COMMENT")
    case True
    then have "4 dvd s" using f(1) by (simp add: s_def)
    then show ?thesis using True by (simp add: int_dvd_int_iff [of 4 s, simplified])
  next
    case False
    then have "s = 38 + (k + 4) div 4 * 4" using f(11) by (simp add: s_def)
    then have "int s mod 4 = 2" by presburger
    then show ?thesis using False by simp
  qed
  have p: "(n, m') = (if int s \<le> Size then (int s, put_mem (Buf + F) ?name ?m) else (-1, m))"
    using put unfolding PutExAllData_def Let_def k e F_def [symmetric] s_def [symmetric] m1 by simp
  have other: "get_mem (put_mem (Buf + F) ?name ?m) (Buf + q) j = get_mem ?m (Buf + q) j" if "q + j \<le> F" for q j
    by (rule get_put_other) (use that in simp)
  show ?thesis
  proof (cases "int s \<le> Size")
    case False
    then show ?thesis using p unfolding s_def [symmetric] by simp
  next
    case True
    then have n: "n = int s" "m' = put_mem (Buf + F) ?name ?m" using p by auto
    have out: "m' i = m i" if "i < Buf \<or> int Buf + n \<le> int i" for i
    proof -
      have i: "i < Buf \<or> Buf + F + k + 1 \<le> i" "i < Buf \<or> Buf + F + 4 \<le> i" using that s n(1) by auto
      have "m' i = ?m i" unfolding n(2) by (rule put_mem_outside) (use len i(1) in auto)
      also have "\<dots> = m i" by (rule f(3) [OF i(2)])
      finally show ?thesis .
    qed
    have nm: "get_mem m' (Buf + F) (k + 1) = ?name" unfolding n(2) by (rule get_put_mem) (simp only: len)
    have own: "get_mem m' (Buf + off_OwnerUID) 2 = be16 (nfsuid2UID (fa_uid a)) \<and>
        (0 < k \<longrightarrow> get_mem m' (Buf + off_OwnerGID) 2 = take 2 ?name)" if "ED_OWNER \<le> Type"
      using f(11) [OF that] other [of 36 2] get_mem_take [of 2 "k + 1" m' "Buf + F"] unfolding nm by (auto simp: n(2))
    show ?thesis using out n s True f(2,4-10) nm own al other [of 0 4] other unfolding n(2) s_def [symmetric] by auto
  qed
qed

theorem PutExAllData_record_witness:
  "let (n, m') = PutExAllData 100 40 ED_SIZE (GetFixedSize ED_SIZE) 30 \<lparr>en_fileid = 3, en_name = ''ab'', en_cookie = 1\<rparr>
        \<lparr>fa_type = NFREG, fa_mode = 0x1ED, fa_nlink = 1, fa_uid = 0, fa_gid = 0, fa_size = 513, fa_blocksize = 512, fa_rdev = 0,
         fa_blocks = 2, fa_fsid = 1, fa_fileid = 3, fa_atime = \<lparr>seconds = 1, useconds = 0\<rparr>, fa_mtime = \<lparr>seconds = 1, useconds = 0\<rparr>,
         fa_ctime = \<lparr>seconds = 1, useconds = 0\<rparr>\<rparr> (\<lambda>_. 7)
   in n \<le> 40 \<and> get_mem m' 112 4 = [0, 0, 2, 1] \<and> get_mem m' 116 3 = [97, 98, 0]"
proof -
  define a where "a = \<lparr>fa_type = NFREG, fa_mode = 0x1ED, fa_nlink = 1, fa_uid = 0, fa_gid = 0, fa_size = 513, fa_blocksize = 512,
     fa_rdev = 0, fa_blocks = 2, fa_fsid = 1, fa_fileid = 3, fa_atime = \<lparr>seconds = 1, useconds = 0\<rparr>,
     fa_mtime = \<lparr>seconds = 1, useconds = 0\<rparr>, fa_ctime = \<lparr>seconds = 1, useconds = 0\<rparr>\<rparr>"
  define en where "en = \<lparr>en_fileid = 3, en_name = ''ab'', en_cookie = 1\<rparr>"
  obtain n m' where p: "PutExAllData 100 40 ED_SIZE (GetFixedSize ED_SIZE) 30 en a (\<lambda>_. 7) = (n, m')" by (meson surj_pair)
  have b: "be32 513 = [0, 0, 2, 1]" "take 2 (bytes_of ''ab'') @ [0] = ([97, 98, 0] :: u8 list)" by code_simp+
  have g: "GetFixedSize ED_SIZE = 16" by (simp add: GetFixedSize_def)
  have "n \<le> 40" "get_mem m' 112 4 = be32 513" "get_mem m' 116 3 = take 2 (bytes_of ''ab'') @ [0]"
    using PutExAllData_record [OF p] by (simp_all add: g en_def a_def numeral_3_eq_3 numeral_2_eq_2)
  then show ?thesis using p b unfolding a_def en_def by simp
qed

text \<open>With the owner the name overlaps the group: the size of the fixed part ends before
  \<open>ed_OwnerGID\<close>, whose bytes are those of the name.\<close>

lemma PutExAllData_owner:
  assumes put: "PutExAllData Buf Size ED_OWNER (GetFixedSize ED_OWNER) MaxLen en a m = (n, m')" and fits: "n \<noteq> -1"
    and nm: "en_name en = c # d # cs" and lim: "2 \<le> MaxLen"
  shows "get_mem m' (Buf + off_OwnerGID) 2 = [of_char c, of_char d]"
proof -
  obtain k where k: "nat (min (int (length (en_name en))) MaxLen) = Suc (Suc k)"
    using nm lim by (cases "nat (min (int (length (en_name en))) MaxLen)"; cases "nat (min (int (length (en_name en))) MaxLen) - 1") auto
  let ?nm = "take (Suc (Suc k)) (bytes_of (en_name en)) @ [0]"
  have nm': "take 2 ?nm = [of_char c, of_char d]" using nm by (simp add: bytes_of_def numeral_2_eq_2)
  have g: "GetFixedSize ED_OWNER = 38" by (simp add: GetFixedSize_def)
  obtain m1 where m': "m' = put_mem (Buf + 38) ?nm m1"
    using put fits unfolding PutExAllData_def Let_def k g by (auto split: if_splits)
  have "get_mem (put_mem p (x # y # bs) m1) p 2 = [x, y]" for p and x y :: u8 and bs
    by (simp add: get_mem_def put_mem_def upt_rec)
  then show ?thesis using m' nm' nm by (simp add: bytes_of_def)
qed

subsection \<open>Protection bits\<close>

text \<open>The bit of the mode that a protection bit reports, and whether it is set when that is set.\<close>

definition prot_bit :: "nat \<Rightarrow> (nat \<times> bool) option" where
  "prot_bit = [0 \<mapsto> (7, False), 1 \<mapsto> (6, False), 2 \<mapsto> (7, False), 3 \<mapsto> (8, False), 8 \<mapsto> (4, True), 9 \<mapsto> (3, True), 10 \<mapsto> (4, True),
     11 \<mapsto> (5, True), 12 \<mapsto> (1, True), 13 \<mapsto> (0, True), 14 \<mapsto> (1, True), 15 \<mapsto> (2, True)]"

lemma bit_pow2: "bit (2 ^ n :: u32) i \<longleftrightarrow> n < 32 \<and> i = n"
  by (auto simp: bit_exp_iff)

lemma flag_bits:
  "bit (0x1::u32) i \<longleftrightarrow> i = 0" "bit (0x2::u32) i \<longleftrightarrow> i = 1" "bit (0x4::u32) i \<longleftrightarrow> i = 2" "bit (0x8::u32) i \<longleftrightarrow> i = 3"
  "bit (0x100::u32) i \<longleftrightarrow> i = 8" "bit (0x200::u32) i \<longleftrightarrow> i = 9" "bit (0x400::u32) i \<longleftrightarrow> i = 10" "bit (0x800::u32) i \<longleftrightarrow> i = 11"
  "bit (0x1000::u32) i \<longleftrightarrow> i = 12" "bit (0x2000::u32) i \<longleftrightarrow> i = 13" "bit (0x4000::u32) i \<longleftrightarrow> i = 14" "bit (0x8000::u32) i \<longleftrightarrow> i = 15"
  using bit_pow2 [of 0 i] bit_pow2 [of 1 i] bit_pow2 [of 2 i] bit_pow2 [of 3 i] bit_pow2 [of 8 i] bit_pow2 [of 9 i]
    bit_pow2 [of 10 i] bit_pow2 [of 11 i] bit_pow2 [of 12 i] bit_pow2 [of 13 i] bit_pow2 [of 14 i] bit_pow2 [of 15 i]
  by simp_all

lemma mode_bits:
  fixes m :: u32
  shows "(m AND 0x1FF) AND 0x1 = 0 \<longleftrightarrow> \<not> bit m 0" "(m AND 0x1FF) AND 0x2 = 0 \<longleftrightarrow> \<not> bit m 1" "(m AND 0x1FF) AND 0x4 = 0 \<longleftrightarrow> \<not> bit m 2"
    "(m AND 0x1FF) AND 0x8 = 0 \<longleftrightarrow> \<not> bit m 3" "(m AND 0x1FF) AND 0x10 = 0 \<longleftrightarrow> \<not> bit m 4" "(m AND 0x1FF) AND 0x20 = 0 \<longleftrightarrow> \<not> bit m 5"
    "(m AND 0x1FF) AND 0x40 = 0 \<longleftrightarrow> \<not> bit m 6" "(m AND 0x1FF) AND 0x80 = 0 \<longleftrightarrow> \<not> bit m 7" "(m AND 0x1FF) AND 0x100 = 0 \<longleftrightarrow> \<not> bit m 8"
  using and_exp_eq_0_iff_not_bit [of m 0] and_exp_eq_0_iff_not_bit [of m 1] and_exp_eq_0_iff_not_bit [of m 2]
    and_exp_eq_0_iff_not_bit [of m 3] and_exp_eq_0_iff_not_bit [of m 4] and_exp_eq_0_iff_not_bit [of m 5]
    and_exp_eq_0_iff_not_bit [of m 6] and_exp_eq_0_iff_not_bit [of m 7] and_exp_eq_0_iff_not_bit [of m 8]
  by (simp_all add: and.assoc)

lemma bit_set_if: "bit (if c then a OR (x :: u32) else a) i \<longleftrightarrow> bit a i \<or> c \<and> bit x i"
  by (simp add: bit_or_iff)

lemma NFSMode2Protection_bit:
  "bit (NFSMode2Protection m) i \<longleftrightarrow> (case prot_bit i of None \<Rightarrow> False | Some (j, s) \<Rightarrow> bit m j = s)"
  unfolding NFSMode2Protection_def Let_def mode_bits bit_set_if bit_or_iff flag_bits by (auto simp: prot_bit_def)

text \<open>C39. The protection bits say what the server's mode says: the owner's bits are set when the
  permission is missing, those of group and others when it is there; deleting goes with
  writing, no other bits are set, and two modes give the same bits exactly if they agree in
  all nine permissions.\<close>

theorem NFSMode2Protection_means:
  "(\<forall>i. bit (NFSMode2Protection m) i \<longleftrightarrow> (case prot_bit i of None \<Rightarrow> False | Some (j, s) \<Rightarrow> bit m j = s)) \<and>
   (NFSMode2Protection m = NFSMode2Protection m' \<longleftrightarrow> (\<forall>j<9. bit m j = bit m' j))"
proof (intro conjI allI, rule NFSMode2Protection_bit, rule iffI; (intro allI impI)?)
  fix j :: nat assume e: "NFSMode2Protection m = NFSMode2Protection m'" and j: "j < 9"
  have p: "prot_bit 13 = Some (0, True)" "prot_bit 12 = Some (1, True)" "prot_bit 15 = Some (2, True)" "prot_bit 9 = Some (3, True)"
    "prot_bit 8 = Some (4, True)" "prot_bit 11 = Some (5, True)" "prot_bit (Suc 0) = Some (6, False)" "prot_bit 2 = Some (7, False)"
    "prot_bit 3 = Some (8, False)" by (simp_all add: prot_bit_def)
  have "(case prot_bit i of None \<Rightarrow> False | Some (j, s) \<Rightarrow> bit m j = s) = (case prot_bit i of None \<Rightarrow> False | Some (j, s) \<Rightarrow> bit m' j = s)" for i
    using NFSMode2Protection_bit [of m i] NFSMode2Protection_bit [of m' i] e by simp
  from this [of 13] this [of 12] this [of 15] this [of 9] this [of 8] this [of 11] this [of 1] this [of 2] this [of 3]
  have "bit m 0 = bit m' 0" "bit m 1 = bit m' 1" "bit m 2 = bit m' 2" "bit m 3 = bit m' 3" "bit m 4 = bit m' 4" "bit m 5 = bit m' 5"
    "bit m 6 = bit m' 6" "bit m 7 = bit m' 7" "bit m 8 = bit m' 8" by (simp_all add: p)
  moreover have "j = 0 \<or> j = 1 \<or> j = 2 \<or> j = 3 \<or> j = 4 \<or> j = 5 \<or> j = 6 \<or> j = 7 \<or> j = 8" using j by arith
  ultimately show "bit m j = bit m' j" by blast
next
  assume e: "\<forall>j<9. bit m j = bit m' j"
  have "j < 9" if "prot_bit i = Some (j, s)" for i j s using that by (auto simp: prot_bit_def split: if_splits)
  then have "bit (NFSMode2Protection m) i = bit (NFSMode2Protection m') i" for i
    unfolding NFSMode2Protection_bit using e by (auto split: option.split)
  then show "NFSMode2Protection m = NFSMode2Protection m'" by (simp add: bit_eq_iff)
qed

theorem NFSMode2Protection_means_witness:
  "NFSMode2Protection 0x1ED \<noteq> NFSMode2Protection 0x1A4 \<and> NFSMode2Protection 0x81ED = NFSMode2Protection 0x1ED"
proof
  have "bit (0x1ED :: u32) 6 \<noteq> bit (0x1A4 :: u32) 6" by simp
  then show "NFSMode2Protection 0x1ED \<noteq> NFSMode2Protection 0x1A4"
    using NFSMode2Protection_means [of "0x1ED" "0x1A4"] by fastforce
  have "bit (0x81ED :: u32) j = bit (0x1ED :: u32) j" if "j < 9" for j
  proof -
    have "j = 0 \<or> j = 1 \<or> j = 2 \<or> j = 3 \<or> j = 4 \<or> j = 5 \<or> j = 6 \<or> j = 7 \<or> j = 8" using that by arith
    then show ?thesis by auto
  qed
  then show "NFSMode2Protection 0x81ED = NFSMode2Protection 0x1ED"
    using NFSMode2Protection_means [of "0x81ED" "0x1ED"] by blast
qed

end
