(* ===== verification/Find.thy ===== *)
theory Find
  imports FileIO Examine LocateLocks
begin

text \<open>
  Opening and closing files (src/src/find.c): a file is opened by finding or creating it on
  the server, taking a lock on it, and making a handle, whose number goes to the client.
  Closing writes what is still buffered and gives lock and handle back. The number stored in
  the client's handle is the second result, \<open>None\<close> when nothing is stored.
\<close>

unbundle bit_operations_syntax

definition nfsc_ApplyUMask :: "'srv handler \<Rightarrow> u32 \<Rightarrow> u32" where
  "nfsc_ApplyUMask w umode = (umode OR cr_UMask w) XOR cr_UMask w"

subsection \<open>Opening\<close>

text \<open>The lock of an open file, and its handle.\<close>

definition find_elock ::
  "'srv env \<Rightarrow> string \<Rightarrow> string \<Rightarrow> diropokres \<Rightarrow> int \<Rightarrow> 'srv handler \<Rightarrow> (addr \<times> 'srv handler) option" where
  "find_elock env FullName Name dres Mode w =
     (let (m, ok) = e_lock env (h_tick w) (hp_elock (h_g w));
          (n, g1) = lock_Create m ok FullName Name (fa_type (dr_attributes dres)) Mode (h_g w)
      in if n = NULL then Some (NULL, tick 1 (w\<lparr>h_g := g1\<rparr>))
         else map_option (\<lambda>l. (n, tick 1 (w\<lparr>h_g := g1\<lparr>hp_elock := (hp_elock g1)(n \<mapsto>
                l\<lparr>efl_NFSFh := dr_file dres, efl_NFSType := NFREG, fl_Key := fa_fileid (dr_attributes dres)\<rparr>)\<rparr>\<rparr>)))
              (hp_elock g1 n))"

definition find_efh :: "'srv env \<Rightarrow> addr \<Rightarrow> int \<Rightarrow> u32 \<Rightarrow> 'srv handler \<Rightarrow> (addr \<times> int \<times> 'srv handler) option" where
  "find_efh env elock FileMode sz w =
     (let (p, g1) = fh_Create (e_fh env (h_tick w) (hp_efh (h_g w))) elock FileMode (h_g w) in
      if p = NULL then Some (NULL, 0, tick 1 (w\<lparr>h_g := g1\<rparr>))
      else do {
        g2 \<leftarrow> fh_Insert p g1;
        e \<leftarrow> hp_efh g2 p;
        Some (p, efh_Id e, tick 1 (w\<lparr>h_g := put_efh p (e\<lparr>efh_FileLen := LONG_of sz\<rparr>) g2\<rparr>))
      })"

definition find_rbuf :: "'srv env \<Rightarrow> addr \<Rightarrow> 'srv handler \<Rightarrow> 'srv handler option" where
  "find_rbuf env p w =
     map_option (\<lambda>e. tick 1 (w\<lparr>h_g := put_efh p (rb_CreateRBuf (e_str env (h_tick w)) e) (h_g w)\<rparr>)) (hp_efh (h_g w) p)"

definition find_create :: "'srv env \<Rightarrow> nfs_fh \<Rightarrow> string \<Rightarrow> int \<Rightarrow> 'srv handler \<Rightarrow> (int + diropokres) \<times> 'srv handler" where
  "find_create env fh Name sz w =
     (let (r, s) = nfs_Create (e_nfs env) fh Name (cr_UID w) (cr_GID w) (nfsc_ApplyUMask w 0x1FF) (ULONG_of sz) (g_srv (h_g w))
      in (r, put_srv s w))"

text \<open>The file is there: the lock is checked and taken. The result is \<open>Res2\<close>, the handle and its
  number.\<close>

definition find_open ::
  "'srv env \<Rightarrow> string \<Rightarrow> string \<Rightarrow> diropokres \<Rightarrow> int \<Rightarrow> int \<Rightarrow> 'srv handler \<Rightarrow> (int \<times> addr \<times> int \<times> 'srv handler) option" where
  "find_open env FullName Name dres FileMode Mode w =
     (if fa_type (dr_attributes dres) \<noteq> NFREG
      then Some (if FileMode = MODE_READWRITE then ERROR_OBJECT_WRONG_TYPE else ERROR_OBJECT_EXISTS, NULL, 0, w)
      else do {
        old \<leftarrow> lock_LookupFromKey (fa_fileid (dr_attributes dres)) (h_g w);
        busy \<leftarrow> (if old = NULL then Some False
                 else map_option (\<lambda>l. Mode = EXCLUSIVE_LOCK \<or> fl_Access l = EXCLUSIVE_LOCK) (hp_elock (h_g w) old));
        (if busy then Some (ERROR_OBJECT_IN_USE, NULL, 0, w)
         else do {
           (n, w1) \<leftarrow> find_elock env FullName Name dres Mode w;
           (if n = NULL then Some (ERROR_NO_FREE_STORE, NULL, 0, w1)
            else do {
              (p, id, w2) \<leftarrow> find_efh env n FileMode (fa_size (dr_attributes dres)) w1;
              (if p = NULL then Some (ERROR_NO_FREE_STORE, NULL, 0, w2\<lparr>h_g := lock_Delete n (h_g w2)\<rparr>)
               else map_option (\<lambda>g3. (0, p, id, w2\<lparr>h_g := g3\<rparr>)) (lock_Insert n (h_g w2)))
            })
         })
      })"

definition act_FINDREADWRITE ::
  "'srv env \<Rightarrow> addr \<Rightarrow> char list \<Rightarrow> int \<Rightarrow> int \<Rightarrow> 'srv handler \<Rightarrow> (int \<times> int option \<times> 'srv handler) option" where
  "act_FINDREADWRITE env fl bs FileMode Mode w =
     do {
       (D, nm, r, w1) \<leftarrow> LRootLocateDir env fl bs False (g_Res2 (h_g w)) w;
       (case nm of
          None \<Rightarrow> Some (let (r1, w') = h_SetRes DOSFALSE r w1 in (r1, None, w'))
        | Some (FullName, NameBuf, _) \<Rightarrow>
            do {
              let Name = cstr_of NameBuf;
              d \<leftarrow> hp_dce (dc_store (h_dirs w1)) D;
              (res, s) \<leftarrow> nfs_Lookup (e_nfs env) (dce_NFSFh d) Name (ng_MaxReadDirSize (g_NFSGlobal (h_g w1))) r (g_srv (h_g w1));
              let w2 = put_srv s w1;
              let (res', w3) = (if res = Inl ERROR_OBJECT_NOT_FOUND \<and> FileMode = MODE_READWRITE
                                then find_create env (dce_NFSFh d) Name (-1) w2 else (res, w2));
              (case res' of
                 Inl e \<Rightarrow> Some (let (r1, w') = h_SetRes DOSFALSE e w3 in (r1, None, w'))
               | Inr dres \<Rightarrow>
                   do {
                     (r2, p, id, w4) \<leftarrow> find_open env FullName Name dres FileMode Mode w3;
                     (if p = NULL then Some (let (r1, w') = h_SetRes DOSFALSE r2 w4 in (r1, None, w'))
                      else map_option (\<lambda>w5. let (r1, w') = h_SetRes DOSTRUE r2 w5 in (r1, Some id, w')) (find_rbuf env p w4))
                   })
            })
     }"

definition act_FINDUPDATE :: "'srv env \<Rightarrow> addr \<Rightarrow> char list \<Rightarrow> 'srv handler \<Rightarrow> (int \<times> int option \<times> 'srv handler) option" where
  "act_FINDUPDATE env fl bs w = act_FINDREADWRITE env fl bs MODE_READWRITE EXCLUSIVE_LOCK w"

definition act_FINDINPUT :: "'srv env \<Rightarrow> addr \<Rightarrow> char list \<Rightarrow> 'srv handler \<Rightarrow> (int \<times> int option \<times> 'srv handler) option" where
  "act_FINDINPUT env fl bs w = act_FINDREADWRITE env fl bs MODE_OLDFILE SHARED_LOCK w"

definition act_FH_FROM_LOCK :: "'srv env \<Rightarrow> addr \<Rightarrow> 'srv handler \<Rightarrow> (int \<times> int option \<times> 'srv handler) option" where
  "act_FH_FROM_LOCK env fl w =
     do {
       elock \<leftarrow> lock_Lookup fl (h_g w);
       (if elock = NULL then Some (let (r1, w') = h_SetRes DOSFALSE ERROR_INVALID_LOCK w in (r1, None, w'))
        else do {
          l \<leftarrow> hp_elock (h_g w) elock;
          let FileMode = (if fl_Access l = EXCLUSIVE_LOCK then MODE_READWRITE else MODE_OLDFILE);
          let (r, s) = nfs_GetAttr (e_nfs env) (efl_NFSFh l) (g_srv (h_g w));
          let w1 = put_srv s w;
          (case r of
             Inl e \<Rightarrow> Some (let (r1, w') = h_SetRes DOSFALSE e w1 in (r1, None, w'))
           | Inr attr \<Rightarrow>
               if fa_type attr \<noteq> NFREG then Some (let (r1, w') = h_SetRes DOSFALSE ERROR_OBJECT_WRONG_TYPE w1 in (r1, None, w'))
               else do {
                 (p, id, w2) \<leftarrow> find_efh env elock FileMode (fa_size attr) w1;
                 (if p = NULL then Some (let (r1, w') = h_SetRes DOSFALSE ERROR_NO_FREE_STORE w2 in (r1, None, w'))
                  else map_option (\<lambda>w3. let (r1, w') = h_SetRes1 DOSTRUE w3 in (r1, Some id, w')) (find_rbuf env p w2))
               })
        })
     }"

text \<open>The new file: an old one is removed first. \<open>elock\<close> of the code is NULL at every failure but
  the one of \<open>fh_Create\<close>, where it is not in the list yet.\<close>

definition find_new ::
  "'srv env \<Rightarrow> string \<Rightarrow> string \<Rightarrow> diropokres \<Rightarrow> 'srv handler \<Rightarrow> (int \<times> int option \<times> 'srv handler) option" where
  "find_new env FullName Name dres w =
     do {
       (n, w1) \<leftarrow> find_elock env FullName Name dres MODE_NEWFILE w;
       (if n = NULL then Some (let (r1, w') = h_SetRes DOSFALSE ERROR_NO_FREE_STORE w1 in (r1, None, w'))
        else do {
          (p, id, w2) \<leftarrow> find_efh env n MODE_NEWFILE (fa_size (dr_attributes dres)) w1;
          (if p = NULL then
             do {
               let (r1, w') = h_SetRes DOSFALSE ERROR_NO_FREE_STORE w2;
               (n', g3) \<leftarrow> lock_Remove n (h_g w');
               Some (r1, None, w'\<lparr>h_g := lock_Delete n' g3\<rparr>)
             }
           else do {
             g3 \<leftarrow> lock_Insert n (h_g w2);
             let (r1, w3) = h_SetRes1 DOSTRUE (w2\<lparr>h_g := g3\<rparr>);
             e \<leftarrow> hp_efh (h_g w3) p;
             let e1 = (if g_BufSizePerFile (h_g w3) \<noteq> 0
                       then wc_CreateCache (e_str env (h_tick w3)) (g_BufSizePerFile (h_g w3) div MBUFSIZE) e else e);
             map_option (\<lambda>w'. (r1, Some id, w')) (find_rbuf env p (tick 1 (w3\<lparr>h_g := put_efh p e1 (h_g w3)\<rparr>)))
           })
        })
     }"

definition act_FINDOUTPUT :: "'srv env \<Rightarrow> addr \<Rightarrow> char list \<Rightarrow> 'srv handler \<Rightarrow> (int \<times> int option \<times> 'srv handler) option" where
  "act_FINDOUTPUT env fl bs w =
     do {
       (D, nm, r, w1) \<leftarrow> LRootLocateDir env fl bs False (g_Res2 (h_g w)) w;
       (case nm of
          None \<Rightarrow> Some (let (r1, w') = h_SetRes DOSFALSE r w1 in (r1, None, w'))
        | Some (FullName, NameBuf, _) \<Rightarrow>
            do {
              let Name = cstr_of NameBuf;
              d \<leftarrow> hp_dce (dc_store (h_dirs w1)) D;
              (res, s) \<leftarrow> nfs_Lookup (e_nfs env) (dce_NFSFh d) Name (ng_MaxReadDirSize (g_NFSGlobal (h_g w1))) r (g_srv (h_g w1));
              let w2 = put_srv s w1;
              (stop, w3) \<leftarrow>
                (case res of
                   Inl _ \<Rightarrow> Some (0, w2)
                 | Inr dres \<Rightarrow>
                     if fa_type (dr_attributes dres) \<noteq> NFREG then Some (ERROR_OBJECT_EXISTS, w2)
                     else do {
                       old \<leftarrow> lock_LookupFromKey (fa_fileid (dr_attributes dres)) (h_g w2);
                       Some (if old \<noteq> NULL then (ERROR_OBJECT_IN_USE, w2)
                             else (0, put_srv (snd (nfs_Remove (e_nfs env) (dce_NFSFh d) Name (g_srv (h_g w2)))) w2))
                     });
              (if stop \<noteq> 0 then Some (let (r1, w') = h_SetRes DOSFALSE stop w3 in (r1, None, w'))
               else
                 (case find_create env (dce_NFSFh d) Name 0 w3 of
                    (Inl e, w4) \<Rightarrow> Some (let (r1, w') = h_SetRes DOSFALSE e w4 in (r1, None, w'))
                  | (Inr dres, w4) \<Rightarrow> find_new env FullName Name dres w4))
            })
     }"

subsection \<open>Closing\<close>

text \<open>What is buffered: writes go to the server, reads are dropped. The result is \<open>Res1\<close>, \<open>Res2\<close> as
  set so far.\<close>

definition end_buffers :: "'srv rpc_ops \<Rightarrow> efh \<Rightarrow> 'srv global \<Rightarrow> (efh \<times> 'srv global) option" where
  "end_buffers rpc e g =
     do {
       (e1, g1) \<leftarrow>
         (if efh_WBuf e \<noteq> None then
            map_option (\<lambda>(e', g'). (wc_DeleteCache e', g'))
              (if HasBufferedWData e then
                 map_option (\<lambda>(r, g', e'). (e', case r of Inl res2 \<Rightarrow> snd (SetRes DOSFALSE res2 g') | Inr _ \<Rightarrow> snd (SetRes1 DOSTRUE g')))
                   (wc_FlushCache rpc g e)
               else Some (e, snd (SetRes1 DOSTRUE g)))
          else Some (e, snd (SetRes1 DOSTRUE g)));
       (if efh_RBuf e1 \<noteq> None then
          map_option (\<lambda>(g', e'). (rb_DeleteRBuf e', g'))
            (if HasBufferedRData e1 then rb_ReleaseRBufData g1 e1 else Some (g1, e1))
        else Some (e1, g1))
     }"

definition act_END :: "'srv rpc_ops \<Rightarrow> int \<Rightarrow> 'srv global \<Rightarrow> (int \<times> 'srv global) option" where
  "act_END rpc Arg1 g =
     do {
       p \<leftarrow> fh_Lookup Arg1 g;
       (if p = NULL then Some (SetRes DOSFALSE ERROR_FILE_NOT_OBJECT g)
        else do {
          e0 \<leftarrow> hp_efh g p;
          let BufferError = efh_Res2 e0;
          (e1, g1) \<leftarrow> end_buffers rpc (e0\<lparr>efh_Res2 := 0\<rparr>) g;
          let g2 = put_efh p e1 g1;
          g3 \<leftarrow> (if efh_ELock e1 = NULL then Some g2
                 else map_option (\<lambda>(x, g'). if x = NULL then g' else lock_Delete x g') (lock_Remove (efh_ELock e1) g2));
          (p', g4) \<leftarrow> fh_Remove p g3;
          let g5 = (if p' = NULL then g4 else fh_Delete p' g4);
          Some (if BufferError \<noteq> 0 then SetRes DOSFALSE BufferError g5 else (g_Res1 g5, g5))
        })
     }"

subsection \<open>Other operations on handles\<close>

text \<open>A failed flush sets the results but does not keep the size from being set.\<close>

definition act_SET_FILE_SIZE ::
  "'srv env \<Rightarrow> 'srv rpc_ops \<Rightarrow> int \<Rightarrow> int \<Rightarrow> int \<Rightarrow> 'srv handler \<Rightarrow> (int \<times> 'srv handler) option" where
  "act_SET_FILE_SIZE env rpc Arg1 Offset Mode w =
     do {
       p \<leftarrow> fh_Lookup Arg1 (h_g w);
       (if p = NULL then Some (h_SetRes (-1) ERROR_FILE_NOT_OBJECT w)
        else do {
          e0 \<leftarrow> hp_efh (h_g w) p;
          (Abort, w1) \<leftarrow>
            (if HasBufferedWData e0 then
               map_option (\<lambda>(r, g1, e1). case r of
                     Inl res2 \<Rightarrow> (True, snd (h_SetRes (-1) res2 (w\<lparr>h_g := put_efh p e1 g1\<rparr>)))
                   | Inr _ \<Rightarrow> (False, w\<lparr>h_g := put_efh p e1 g1\<rparr>))
                 (wc_FlushCache rpc (h_g w) e0)
             else Some (False, w));
          e \<leftarrow> hp_efh (h_g w1) p;
          l \<leftarrow> hp_elock (h_g w1) (efh_ELock e);
          locked \<leftarrow> lock_NumLocksFromKey (fl_Key l) (h_g w1);
          (if \<not> Abort \<and> locked > 1 then Some (h_SetRes (-1) ERROR_OBJECT_IN_USE w1)
           else
             let NewSize = (if Mode = OFFSET_BEGINNING then Offset else if Mode = OFFSET_CURRENT then efh_FilePos e + Offset
                            else if Mode = OFFSET_END then efh_FileLen e + Offset else -1)
             in if NewSize = -1 then Some (h_SetRes (-1) ERROR_REQUIRED_ARG_MISSING w1)
                else if NewSize < 0 then Some (h_SetRes (-1) ERROR_SEEK_ERROR w1)
                else (case nfs_SetSize (e_nfs env) (efl_NFSFh l) NewSize (g_srv (h_g w1)) of
                        (Inl err, s) \<Rightarrow> Some (h_SetRes (-1) err (put_srv s w1))
                      | (Inr a, s) \<Rightarrow>
                          do {
                            let w2 = tick 2 (put_srv s w1); let t = h_tick w1;
                            (_, ac) \<leftarrow> attrs_Update (e_ace env t (hp_ace (h_attrs w2))) (e_clk env t) (e_clk env (t + 1))
                                         (h_attrs w2) (efl_NFSFh l) a;
                            let e' = e\<lparr>efh_FilePos := (if fa_size a < ULONG_of (efh_FilePos e) then LONG_of (fa_size a) else efh_FilePos e),
                                       efh_FileLen := LONG_of (fa_size a)\<rparr>;
                            Some (h_SetRes1 (efh_FileLen e') (w2\<lparr>h_attrs := ac, h_g := put_efh p e' (h_g w2)\<rparr>))
                          }))
        })
     }"

definition act_COPY_DIR_FH :: "'srv env \<Rightarrow> int \<Rightarrow> 'srv handler \<Rightarrow> (int \<times> 'srv handler) option" where
  "act_COPY_DIR_FH env Arg1 w =
     do {
       p \<leftarrow> fh_Lookup Arg1 (h_g w);
       (if p = NULL then Some (h_SetRes (-1) ERROR_FILE_NOT_OBJECT w)
        else Option.bind (hp_efh (h_g w) p) (\<lambda>e. do_act_COPY_DIR env (efh_ELock e) w))
     }"

definition act_PARENT_FH :: "'srv env \<Rightarrow> int \<Rightarrow> 'srv handler \<Rightarrow> (int \<times> 'srv handler) option" where
  "act_PARENT_FH env Arg1 w =
     do {
       p \<leftarrow> fh_Lookup Arg1 (h_g w);
       (if p = NULL then Some (h_SetRes (-1) ERROR_FILE_NOT_OBJECT w)
        else Option.bind (hp_efh (h_g w) p) (\<lambda>e. do_act_PARENT env (efh_ELock e) w))
     }"

definition act_EXAMINE_FH :: "'srv env \<Rightarrow> int \<Rightarrow> fib \<Rightarrow> 'srv handler \<Rightarrow> (int \<times> fib \<times> 'srv handler) option" where
  "act_EXAMINE_FH env Arg1 f w =
     do {
       p \<leftarrow> fh_Lookup Arg1 (h_g w);
       (if p = NULL then Some (let (r, w') = h_SetRes (-1) ERROR_FILE_NOT_OBJECT w in (r, f, w'))
        else Option.bind (hp_efh (h_g w) p) (\<lambda>e. do_act_EXAMINE_OBJECT env (efh_ELock e) f w))
     }"

end
