(* ===== verification/LocateDir.thy ===== *)
theory LocateDir
  imports LocateLocks
begin

text \<open>
  Locating the directory of an object, as most actions on names begin (\<open>LRootLocateDir\<close> of
  src/src/lock.c): the directory found is the one on the server, and the name is the last
  component of the path.
\<close>

text \<open>A BSTR with the bytes of \<open>s\<close>; what follows it in memory is not read.\<close>

definition bstr_of :: "string \<Rightarrow> char list \<Rightarrow> char list" where
  "bstr_of s rest = char_of (length s) # s @ rest"

lemma fn_B2CStr_bstr_of:
  "length s < 256 \<Longrightarrow> fn_B2CStr m (bstr_of s rest) = Some (if m then Some s else None, length s)"
  by (simp add: bstr_of_def fn_B2CStr_def bstr_len_def Let_def)

text \<open>The outcome for the path \<open>P\<close> (an error or components): \<open>nm\<close> is \<open>None\<close> when there is no
  directory, else the full name and the name in the directory \<open>D\<close>.\<close>

definition dir_result ::
  "tree \<Rightarrow> nfs_fh \<Rightarrow> (int + string list) \<Rightarrow> addr \<Rightarrow> (string \<times> char list \<times> int) option \<Rightarrow> int \<Rightarrow> int \<Rightarrow> 'srv handler \<Rightarrow> bool" where
  "dir_result T root P D nm r R w \<longleftrightarrow>
     (case nm of
        None \<Rightarrow> r = ERROR_NO_FREE_STORE \<or> (case P of Inl e \<Rightarrow> r = e | Inr st \<Rightarrow> tree_walk T root (butlast st) = Inl r)
      | Some (F, nb, l) \<Rightarrow> r = R \<and> D \<noteq> NULL \<and>
          (\<exists>st d. P = Inr st \<and> comps_ok st \<and> no_nul st \<and> F = join_path st \<and> cstr_of nb = (if st = [] then [] else last st) \<and>
             hp_dce (dc_store (h_dirs w)) D = Some d \<and> tree_walk T root (butlast st) = Inr (dce_NFSFh d)))"

lemma LRootLocateDir_ok:
  assumes inv: "walk_inv env T ls w" and m: "fl_members (h_g w) as" and fl: "fl = NULL \<or> fl \<in> set as" and base: "base_path w fl old"
    and rel: "simple_rel rel" "length rel < 256" and dos: "dos_ok (e_dos env)"
  shows "\<exists>D nm r w' ls'. LRootLocateDir env fl (bstr_of rel rest) False R w = Some (D, nm, r, w') \<and> walk_inv env T ls' w' \<and>
    walk_same w w' \<and> dir_result T (g_MntFh w) (rel_path old rel) D nm r R w'"
proof -
  have inv8: "walk_inv env T ls (tick 8 w)" using inv by simp
  have cs: "cstr_of rel = rel" by (rule cstr_of_id) (use rel(1) in \<open>simp add: simple_rel_def\<close>)
  show ?thesis
  proof (cases "e_str env (h_tick w)")
    case False
    then have "LRootLocateDir env fl (bstr_of rel rest) False R w = Some (NULL, None, ERROR_NO_FREE_STORE, tick 8 w)"
      by (simp add: LRootLocateDir_def BuildFullName_def fn_B2CStr_bstr_of [OF rel(2)])
    moreover have "dir_result T (g_MntFh w) (rel_path old rel) NULL None ERROR_NO_FREE_STORE R (tick 8 w)"
      by (simp add: dir_result_def)
    ultimately show ?thesis using inv8
      by (intro exI [of _ NULL] exI [of _ None] exI [of _ ERROR_NO_FREE_STORE] exI [of _ "tick 8 w"] exI [of _ ls]) simp
  next
    case True
    have m1: "fl_members (h_g (tick 1 w)) as" and base1: "base_path (tick 1 w) fl old" using m base by (simp_all add: base_path_def)
    obtain b where b: "CBuildFullName env fl rel (tick 1 w) = Some b"
      "b = Inl ERROR_NO_FREE_STORE \<or> (case rel_path old rel of Inl e \<Rightarrow> b = Inl e
          | Inr st \<Rightarrow> \<exists>l u. b = Inr (join_path st, if st = [] then [] else last st, l, u))"
      using CBuildFullName_ok [OF m1 fl base1 rel(1) dos] by blast
    have bf: "BuildFullName env fl (bstr_of rel rest) w = Some b"
      using b(1) True by (simp add: BuildFullName_def fn_B2CStr_bstr_of [OF rel(2)] cs)
    show ?thesis
    proof (cases b)
      case (Inl e)
      then have "LRootLocateDir env fl (bstr_of rel rest) False R w = Some (NULL, None, e, tick 8 w)"
        by (simp add: LRootLocateDir_def bf)
      moreover have "dir_result T (g_MntFh w) (rel_path old rel) NULL None e R (tick 8 w)"
        using b(2) Inl by (auto simp: dir_result_def split: sum.splits)
      ultimately show ?thesis using inv8
        by (intro exI [of _ NULL] exI [of _ None] exI [of _ e] exI [of _ "tick 8 w"] exI [of _ ls]) simp
    next
      case (Inr t)
      obtain st l u where P: "rel_path old rel = Inr st" and t: "b = Inr (join_path st, if st = [] then [] else last st, l, u)"
        using b(2) Inr by (cases "rel_path old rel") auto
      have pl: "plain st" by (rule walk_plain [of rel old])
          (use P base rel in \<open>auto simp: rel_path_def base_path_def split: if_splits option.splits\<close>)
      have st: "comps_ok st" "no_nul st" using pl by (auto simp: plain_def no_nul_def)
      have nm: "cstr_of (if st = [] then [] else last st) = (if st = [] then [] else last st)"
        by (rule cstr_of_id) (use st(2) in \<open>auto simp: no_nul_def\<close>)
      obtain D r1 w1 ls1 where d: "RootLocateDir env (join_path st) R (tick 8 w) = Some (D, r1, w1)" "walk_inv env T ls1 w1"
        "walk_same (tick 8 w) w1" "walk_result (tree_walk T (g_MntFh w) (butlast st)) D r1 R w1"
        using RootLocateDir_ok [OF inv8 st, of R] by auto
      have same: "walk_same w w1" using d(3) by (rule walk_same_trans [rotated]) simp
      let ?nm = "if D = NULL then None else Some (join_path st, if st = [] then [] else last st, l)"
      have "LRootLocateDir env fl (bstr_of rel rest) False R w = Some (D, ?nm, r1, w1)"
        by (simp add: LRootLocateDir_def bf t d(1) cong: if_cong)
      moreover have "dir_result T (g_MntFh w) (rel_path old rel) D ?nm r1 R w1"
        using d(4) P st nm by (auto simp: dir_result_def walk_result_def)
      ultimately show ?thesis using d(2) same by blast
    qed
  qed
qed

text \<open>Looking the name up on the server, in the directory that was found.\<close>

lemma lookup_ok:
  assumes inv: "walk_inv env T ls w"
  shows "\<exists>s. nfs_Lookup (e_nfs env) fh nm M R (g_srv (h_g w)) =
     Some (case t_look T fh nm of None \<Rightarrow> Inl ERROR_OBJECT_NOT_FOUND | Some (f, a) \<Rightarrow> Inr \<lparr>dr_file = f, dr_attributes = a\<rparr>, s) \<and>
     walk_inv env T ls (put_srv s w) \<and> walk_same w (put_srv s w)"
proof -
  have "static_server (e_nfs env) T (g_srv (h_g w))" using inv by (simp add: walk_inv_def)
  from static_lookup [OF this] obtain s where "nfs_Lookup (e_nfs env) fh nm M R (g_srv (h_g w)) =
     Some (case t_look T fh nm of None \<Rightarrow> Inl ERROR_OBJECT_NOT_FOUND | Some (f, a) \<Rightarrow> Inr \<lparr>dr_file = f, dr_attributes = a\<rparr>, s)"
     "static_server (e_nfs env) T s" by blast
  moreover from this(2) have "walk_inv env T ls (put_srv s w)" using inv by (simp add: walk_inv_def)
  ultimately show ?thesis by (intro exI [of _ s]) simp
qed

end
