(* ===== verification/FindOpen.thy ===== *)
theory FindOpen
  imports Find LocateDir
begin

text \<open>
  Opening a file that the server has (src/src/find.c): the client gets a fresh number for a new
  handle at the start of the file, under a lock that stands for the file and conflicts with no
  lock there is.
\<close>

subsection \<open>New handles\<close>

definition with_handle :: "addr \<Rightarrow> addr \<Rightarrow> int \<Rightarrow> int \<Rightarrow> rbufhdr option \<Rightarrow> 'srv global \<Rightarrow> 'srv global" where
  "with_handle p n FileMode len rb g =
     g\<lparr>fh_LastId := fh_LastId g + 1,
       hp_efh := (hp_efh g)(p \<mapsto> \<lparr>efh_Next = g_FH g, efh_Id = fh_LastId g + 1, efh_FilePos = 0, efh_FileLen = len,
            efh_Mode = FileMode, efh_ELock = n, efh_WBuf = None, efh_RBuf = rb, efh_Res2 = 0\<rparr>),
       g_FH := p\<rparr>"

lemma fh_inv_with_handle:
  assumes inv: "fh_inv g hs" and p: "p \<noteq> NULL" "p \<notin> dom (hp_efh g)"
  shows "fh_inv (with_handle p n FileMode len rb g) (p # hs)"
    and "fh_Lookup (fh_LastId g + 1) (with_handle p n FileMode len rb g) = Some p"
    and "\<forall>q\<in>set hs. hp_efh (with_handle p n FileMode len rb g) q = hp_efh g q"
proof -
  let ?g = "with_handle p n FileMode len rb g"
  have nin: "p \<notin> set hs" using fh_members_alloc [of g hs p] inv p(2) by (auto simp: fh_inv_def)
  have "links ((fh_next g)(p := Some (g_FH g))) (g_FH g) hs"
    by (rule links_cong [of hs _ "fh_next g"]) (use inv nin in \<open>auto simp: fh_inv_def fh_members_def\<close>)
  moreover have nx: "fh_next ?g = (fh_next g)(p := Some (g_FH g))" by (auto simp: with_handle_def fh_next_def fun_eq_iff)
  ultimately have m: "fh_members ?g (p # hs)"
    unfolding fh_members_def nx using p(1) nin by (simp add: with_handle_def links_Cons)
  have id: "fh_id ?g = (fh_id g)(p := fh_LastId g + 1)" by (auto simp: with_handle_def fh_id_def fun_eq_iff)
  have old: "distinct (map (fh_id g) hs)" "\<forall>q\<in>set hs. fh_id g q \<le> fh_LastId g" using inv by (simp_all add: fh_inv_def)
  have eq: "map (fh_id ?g) hs = map (fh_id g) hs" using nin by (auto simp: id)
  have "fh_LastId g + 1 \<notin> fh_id g ` set hs" using old(2) by force
  moreover have "fh_LastId ?g = fh_LastId g + 1" by (simp add: with_handle_def)
  ultimately show inv2: "fh_inv ?g (p # hs)"
    using m old nin unfolding fh_inv_def list.map eq by (auto simp: id)
  show "fh_Lookup (fh_LastId g + 1) ?g = Some p" using fh_Lookup_member [OF inv2, of p] by (simp add: id)
  show "\<forall>q\<in>set hs. hp_efh ?g q = hp_efh g q" using nin by (auto simp: with_handle_def)
qed

text \<open>Locks and handles do not depend on each other.\<close>

lemma fh_inv_with_lock: "fh_inv (with_lock n FullName Name Mode f a g) hs = fh_inv g hs"
  by (simp add: with_lock_def fh_inv_def fh_members_def fh_id_def [abs_def] fh_next_def [abs_def])

lemma locks_ok_with_handle: "locks_ok k (with_handle p n FileMode len rb g) as = locks_ok k g as"
  by (simp add: with_handle_def locks_ok_def fl_members_def fl_next_def [abs_def] lk_key_def fl_mode_def)

subsection \<open>The lock is checked and taken\<close>

text \<open>Locks are shared or exclusive; those of \<open>ACTION_FINDOUTPUT\<close> are neither.\<close>

definition std_modes :: "'srv global \<Rightarrow> addr list \<Rightarrow> bool" where
  "std_modes g as \<longleftrightarrow> (\<forall>b\<in>set as. fl_mode g b = SHARED_LOCK \<or> fl_mode g b = EXCLUSIVE_LOCK)"

lemma find_open_ok:
  assumes ok: "locks_ok k (h_g w) as" and sm: "std_modes (h_g w) as" and eo: "env_ok env"
    and mode: "Mode = SHARED_LOCK \<or> Mode = EXCLUSIVE_LOCK" and e0: "hp_efh (h_g w) NULL = None"
  shows "\<exists>r p id w'. find_open env F nm \<lparr>dr_file = f, dr_attributes = a\<rparr> FileMode Mode w = Some (r, p, id, w') \<and>
    caches_same w w' \<and> h_attrs w' = h_attrs w \<and>
    (if p = NULL then h_g w' = h_g w \<and> r \<noteq> 0 \<and> (r = ERROR_NO_FREE_STORE \<or> fa_type a \<noteq> NFREG \<and> r = (if FileMode = MODE_READWRITE then ERROR_OBJECT_WRONG_TYPE else ERROR_OBJECT_EXISTS) \<or>
        conflict (h_g w) as (fa_fileid a) Mode \<and> r = ERROR_OBJECT_IN_USE)
     else r = 0 \<and> id = fh_LastId (h_g w) + 1 \<and> p \<notin> dom (hp_efh (h_g w)) \<and> fa_type a = NFREG \<and> \<not> conflict (h_g w) as (fa_fileid a) Mode \<and>
       (\<exists>n. n \<noteq> NULL \<and> n \<notin> dom (hp_elock (h_g w)) \<and>
          h_g w' = with_handle p n FileMode (LONG_of (fa_size a)) None (with_lock n F nm Mode f a (h_g w))))"
proof (cases "fa_type a = NFREG")
  case False
  then show ?thesis by (simp add: find_open_def caches_same_def)
next
  case reg: True
  let ?g = "h_g w" and ?dres = "\<lparr>dr_file = f, dr_attributes = a\<rparr>"
  obtain old where look: "lock_LookupFromKey (fa_fileid a) ?g = Some old"
    using lock_LookupFromKey_eq [of ?g as] ok by (auto simp: locks_ok_def)
  note kc = key_lookup_conflict [OF ok look, of Mode]
  have busy: "(if old = NULL then Some False else map_option (\<lambda>l. Mode = EXCLUSIVE_LOCK \<or> fl_Access l = EXCLUSIVE_LOCK) (hp_elock ?g old))
     = Some (conflict ?g as (fa_fileid a) Mode)"
  proof (cases "old = NULL")
    case False
    then have o: "old \<in> set as" "conflict ?g as (fa_fileid a) Mode \<longleftrightarrow> Mode \<noteq> SHARED_LOCK \<or> fl_mode ?g old \<noteq> SHARED_LOCK"
      using kc(2) by blast+
    obtain l where l: "hp_elock ?g old = Some l" using fl_members_alloc [of ?g as old] o(1) ok by (auto simp: locks_ok_def)
    moreover have "fl_Access l = SHARED_LOCK \<or> fl_Access l = EXCLUSIVE_LOCK" using sm o(1) l by (auto simp: std_modes_def fl_mode_def)
    ultimately show ?thesis using False o(2) mode by (auto simp: fl_mode_def)
  qed (use kc(1) in simp)
  have unf: "find_open env F nm ?dres FileMode Mode w =
      (if conflict ?g as (fa_fileid a) Mode then Some (ERROR_OBJECT_IN_USE, NULL, 0, w)
       else do {
         (n, w1) \<leftarrow> find_elock env F nm ?dres Mode w;
         (if n = NULL then Some (ERROR_NO_FREE_STORE, NULL, 0, w1)
          else do {
            (p, id, w2) \<leftarrow> find_efh env n FileMode (fa_size a) w1;
            (if p = NULL then Some (ERROR_NO_FREE_STORE, NULL, 0, w2\<lparr>h_g := lock_Delete n (h_g w2)\<rparr>)
             else map_option (\<lambda>g3. (0, p, id, w2\<lparr>h_g := g3\<rparr>)) (lock_Insert n (h_g w2)))
          })
       })"
    using reg look busy by (simp add: find_open_def cong: if_cong)
  show ?thesis
  proof (cases "conflict ?g as (fa_fileid a) Mode")
    case True
    then show ?thesis unfolding unf by (simp add: caches_same_def)
  next
    case nc: False
    obtain m mok where mem: "e_lock env (h_tick w) (hp_elock ?g) = (m, mok)" by (cases "e_lock env (h_tick w) (hp_elock ?g)")
    have "NULL \<notin> dom (hp_elock ?g)" using ok by (simp add: locks_ok_def domIff)
    then have fresh: "m \<notin> dom (hp_elock ?g)" using env_okD(4) [OF eo, of "hp_elock ?g" "h_tick w"] mem by simp
    let ?w1 = "tick 1 w"
    show ?thesis
    proof (cases "m = NULL \<or> \<not> mok")
      case True
      then have "find_elock env F nm ?dres Mode w = Some (NULL, ?w1)"
        using mem by (auto simp: find_elock_def lock_Create_def Let_def)
      then show ?thesis unfolding unf using nc by (simp add: caches_same_def)
    next
      case good: False
      let ?l = "\<lparr>fl_Link = NULL, fl_Key = fa_fileid a, fl_Access = Mode, efl_NFSFh = f, efl_NFSType = NFREG, efl_FullName = F, efl_Name = nm\<rparr>"
      let ?w2 = "tick 1 (w\<lparr>h_g := ?g\<lparr>hp_elock := (hp_elock ?g)(m \<mapsto> ?l)\<rparr>\<rparr>)"
      have el: "find_elock env F nm ?dres Mode w = Some (m, ?w2)"
        using good mem by (simp add: find_elock_def lock_Create_def Let_def)
      define p where "p = e_fh env (h_tick ?w2) (hp_efh ?g)"
      have pf: "p \<notin> dom (hp_efh ?g)" using eo e0 unfolding env_ok_def p_def by (metis domIff)
      have un: "(hp_elock ?g)(m := None) = hp_elock ?g" using fresh by (auto simp: domIff fun_eq_iff)
      show ?thesis
      proof (cases "p = NULL")
        case True
        then have "find_efh env m FileMode (fa_size a) ?w2 = Some (NULL, 0, tick 1 ?w2)"
          by (simp add: find_efh_def p_def fh_Create_def tick_def)
        then show ?thesis unfolding unf using nc good el un
          by (simp add: caches_same_def lock_Delete_def)
      next
        case False
        let ?g3 = "with_handle p m FileMode (LONG_of (fa_size a)) None (?g\<lparr>hp_elock := (hp_elock ?g)(m \<mapsto> ?l)\<rparr>)"
        have "find_efh env m FileMode (fa_size a) ?w2 = Some (p, fh_LastId ?g + 1, tick 1 (?w2\<lparr>h_g := ?g3\<rparr>))"
          using False by (simp add: find_efh_def p_def [symmetric, simplified] fh_Create_def fh_Insert_def with_handle_def put_efh_def Let_def) (simp add: tick_def)
        moreover have "lock_Insert m ?g3 = Some (with_handle p m FileMode (LONG_of (fa_size a)) None (with_lock m F nm Mode f a ?g))"
          using reg by (simp add: lock_Insert_def with_handle_def with_lock_def)
        ultimately have "find_open env F nm ?dres FileMode Mode w = Some (0, p, fh_LastId ?g + 1,
            (tick 1 (?w2\<lparr>h_g := ?g3\<rparr>))\<lparr>h_g := with_handle p m FileMode (LONG_of (fa_size a)) None (with_lock m F nm Mode f a ?g)\<rparr>)"
          unfolding unf using nc good el False by simp
        then show ?thesis using nc good False pf fresh reg by (auto simp: caches_same_def)
      qed
    qed
  qed
qed

text \<open>The lock of \<open>ACTION_FINDOUTPUT\<close> has the packet type as its mode, not \<open>EXCLUSIVE_LOCK\<close>: another open
  for reading passes the test, although every other test of the handler takes a mode that is not
  \<open>SHARED_LOCK\<close> for an exclusive one.\<close>

lemma new_file_can_be_opened_again:
  assumes "lock_LookupFromKey (fa_fileid a) (h_g w) = Some old" and "hp_elock (h_g w) old = Some l" and "fl_Access l = MODE_NEWFILE"
    and "find_open env F nm \<lparr>dr_file = f, dr_attributes = a\<rparr> MODE_OLDFILE SHARED_LOCK w = Some (r, p, i, w2)"
  shows "r \<noteq> ERROR_OBJECT_IN_USE"
  using assms unfolding find_open_def by (auto split: if_splits simp: bind_eq_Some_conv)

subsection \<open>Opening\<close>

lemma with_handle_srv [simp]: "g_srv (with_handle p n FileMode len rb g) = g_srv g"
  by (simp add: with_handle_def)

text \<open>The file at a path, asked from the server, whatever its type.\<close>

definition file_find :: "tree \<Rightarrow> nfs_fh \<Rightarrow> string list \<Rightarrow> int + nfs_fh \<times> fattr" where
  "file_find T root st =
     (case tree_walk T root (butlast st) of
        Inl e \<Rightarrow> Inl e
      | Inr d \<Rightarrow> (case t_look T d (if st = [] then [] else last st) of None \<Rightarrow> Inl ERROR_OBJECT_NOT_FOUND | Some r \<Rightarrow> Inr r))"

text \<open>Why a file is not opened:\<close>

definition open_refused ::
  "int \<Rightarrow> int \<Rightarrow> (int + string list) \<Rightarrow> (string list \<Rightarrow> int + nfs_fh \<times> fattr) \<Rightarrow> 'srv global \<Rightarrow> addr list \<Rightarrow> int \<Rightarrow> bool" where
  "open_refused FileMode Mode path fnd g as r \<longleftrightarrow>
     r = ERROR_NO_FREE_STORE \<or>
     (case path of
        Inl e \<Rightarrow> r = e
      | Inr st \<Rightarrow>
          (case fnd st of
             Inl e \<Rightarrow> r = e
           | Inr (f, a) \<Rightarrow>
               fa_type a \<noteq> NFREG \<and> r = (if FileMode = MODE_READWRITE then ERROR_OBJECT_WRONG_TYPE else ERROR_OBJECT_EXISTS) \<or>
               conflict g as (fa_fileid a) Mode \<and> r = ERROR_OBJECT_IN_USE))"

definition open_granted ::
  "int \<Rightarrow> int \<Rightarrow> (int + string list) \<Rightarrow> (string list \<Rightarrow> int + nfs_fh \<times> fattr) \<Rightarrow> 'srv global \<Rightarrow> addr list \<Rightarrow> addr \<Rightarrow> addr \<Rightarrow>
     'srv global \<Rightarrow> bool" where
  "open_granted FileMode Mode path fnd g as n p g' \<longleftrightarrow>
     (\<exists>st f a s rb. path = Inr st \<and> fnd st = Inr (f, a) \<and> fa_type a = NFREG \<and> \<not> conflict g as (fa_fileid a) Mode \<and>
        n \<noteq> NULL \<and> n \<notin> dom (hp_elock g) \<and> p \<noteq> NULL \<and> p \<notin> dom (hp_efh g) \<and>
        (rb = None \<or> rb = Some \<lparr>rbh_FileOffs = 0, rbh_DataLen = 0, rbh_Data = NULL\<rparr>) \<and>
        g' = with_handle p n FileMode (LONG_of (fa_size a)) rb
              (with_lock n (join_path st) (if st = [] then [] else last st) Mode f a (g\<lparr>g_srv := s, g_Res1 := DOSTRUE, g_Res2 := 0\<rparr>)))"

lemma act_FINDREADWRITE_ok:
  assumes inv: "walk_inv env T ls w" and ok: "locks_ok k (h_g w) as" and sm: "std_modes (h_g w) as" and e0: "hp_efh (h_g w) NULL = None"
    and mode: "Mode = SHARED_LOCK \<or> Mode = EXCLUSIVE_LOCK"
    and fl: "fl = NULL \<or> fl \<in> set as" and base: "base_path w fl old"
    and rel: "simple_rel rel" "length rel < 256" and dos: "dos_ok (e_dos env)"
  defines "P \<equiv> rel_path old rel" and "F \<equiv> file_find T (g_MntFh w)"
  assumes found: "FileMode = MODE_READWRITE \<Longrightarrow> \<exists>st r. P = Inr st \<and> F st = Inr r"
  shows "\<exists>r num w' ls'. act_FINDREADWRITE env fl (bstr_of rel rest) FileMode Mode w = Some (r, num, w') \<and> walk_inv env T ls' w' \<and>
    (if r = DOSFALSE then num = None \<and> (\<exists>s e. h_g w' = (h_g w)\<lparr>g_srv := s, g_Res1 := DOSFALSE, g_Res2 := e\<rparr> \<and>
          open_refused FileMode Mode P F (h_g w) as e)
     else r = DOSTRUE \<and> num = Some (fh_LastId (h_g w) + 1) \<and> (\<exists>n p. open_granted FileMode Mode P F (h_g w) as n p (h_g w')))"
proof -
  let ?g = "h_g w" and ?R = "g_Res2 (h_g w)"
  have m: "fl_members ?g as" using ok by (simp add: locks_ok_def)
  obtain D nm r1 w1 ls1 where d: "LRootLocateDir env fl (bstr_of rel rest) False ?R w = Some (D, nm, r1, w1)" "walk_inv env T ls1 w1"
    "walk_same w w1" "dir_result T (g_MntFh w) P D nm r1 ?R w1"
    using LRootLocateDir_ok [OF inv m fl base rel dos, of rest ?R] unfolding P_def by blast
  obtain s1 where s1: "h_g w1 = ?g\<lparr>g_srv := s1\<rparr>" using d(3) by (auto simp: walk_same_def)
  have fail: ?thesis
    if "act_FINDREADWRITE env fl (bstr_of rel rest) FileMode Mode w =
        Some (DOSFALSE, None, v\<lparr>h_g := ?g\<lparr>g_srv := s, g_Res1 := DOSFALSE, g_Res2 := e\<rparr>\<rparr>)"
      and "walk_inv env T ls' v" and "g_srv (h_g v) = s" and "open_refused FileMode Mode P F ?g as e" for v s e ls'
    by (intro exI [of _ DOSFALSE] exI [of _ None] exI [of _ "v\<lparr>h_g := ?g\<lparr>g_srv := s, g_Res1 := DOSFALSE, g_Res2 := e\<rparr>\<rparr>"] exI [of _ ls'])
      (use that in auto)
  show ?thesis
  proof (cases nm)
    case None
    have "open_refused FileMode Mode P F ?g as r1"
      using d(4) None by (auto simp: dir_result_def open_refused_def F_def file_find_def split: sum.splits)
    moreover have "act_FINDREADWRITE env fl (bstr_of rel rest) FileMode Mode w =
        Some (DOSFALSE, None, w1\<lparr>h_g := ?g\<lparr>g_srv := s1, g_Res1 := DOSFALSE, g_Res2 := r1\<rparr>\<rparr>)"
      unfolding act_FINDREADWRITE_def d(1) None by (simp add: h_SetRes_simps s1)
    moreover have "g_srv (h_g w1) = s1" by (simp add: s1)
    ultimately show ?thesis using fail d(2) by blast
  next
    case (Some t)
    obtain Fn nb l where t: "t = (Fn, nb, l)" by (cases t) auto
    obtain st dd where st: "D \<noteq> NULL" "P = Inr st" "comps_ok st" "Fn = join_path st" "cstr_of nb = (if st = [] then [] else last st)"
       "hp_dce (dc_store (h_dirs w1)) D = Some dd" "tree_walk T (g_MntFh w) (butlast st) = Inr (dce_NFSFh dd)"
      using d(4) Some t by (auto simp: dir_result_def)
    define name where "name = (if st = [] then [] else last st)"
    let ?M = "ng_MaxReadDirSize (g_NFSGlobal (h_g w1))"
    obtain s2 where l: "nfs_Lookup (e_nfs env) (dce_NFSFh dd) name ?M r1 (g_srv (h_g w1)) =
       Some (case t_look T (dce_NFSFh dd) name of None \<Rightarrow> Inl ERROR_OBJECT_NOT_FOUND | Some (f, a) \<Rightarrow> Inr \<lparr>dr_file = f, dr_attributes = a\<rparr>, s2)"
       "walk_inv env T ls1 (put_srv s2 w1)" using lookup_ok [OF d(2)] by blast
    have Fst: "F st = (case t_look T (dce_NFSFh dd) name of None \<Rightarrow> Inl ERROR_OBJECT_NOT_FOUND | Some r \<Rightarrow> Inr r)"
      by (simp add: F_def file_find_def st(7) name_def)
    show ?thesis
    proof (cases "t_look T (dce_NFSFh dd) name")
      case None: None
      then have "FileMode \<noteq> MODE_READWRITE" using found st(2) Fst by auto
      then have "act_FINDREADWRITE env fl (bstr_of rel rest) FileMode Mode w =
        Some (DOSFALSE, None, (put_srv s2 w1)\<lparr>h_g := ?g\<lparr>g_srv := s2, g_Res1 := DOSFALSE, g_Res2 := ERROR_OBJECT_NOT_FOUND\<rparr>\<rparr>)"
        unfolding act_FINDREADWRITE_def d(1) Some t using st(5,6) l(1) None by (simp add: h_SetRes_simps s1 name_def [symmetric])
      moreover have "open_refused FileMode Mode P F ?g as ERROR_OBJECT_NOT_FOUND" by (simp add: open_refused_def st(2) Fst None)
      moreover have "g_srv (h_g (put_srv s2 w1)) = s2" by simp
      ultimately show ?thesis using fail l(2) by blast
    next
      case fa: (Some fa)
      obtain f a where fa': "fa = (f, a)" by (cases fa)
      let ?w2 = "put_srv s2 w1"
      have g2: "h_g ?w2 = ?g\<lparr>g_srv := s2\<rparr>" by (simp add: s1)
      have Fst': "F st = Inr (f, a)" using Fst fa fa' by simp
      have eo: "env_ok env" using inv unfolding walk_inv_def by blast
      have pre: "locks_ok k (h_g ?w2) as" "std_modes (h_g ?w2) as" "hp_efh (h_g ?w2) NULL = None"
        using ok sm e0 unfolding g2 by (simp_all add: std_modes_def)
      obtain r p id w3 where o: "find_open env Fn name \<lparr>dr_file = f, dr_attributes = a\<rparr> FileMode Mode ?w2 = Some (r, p, id, w3)"
        "caches_same ?w2 w3" "h_attrs w3 = h_attrs ?w2"
        "if p = NULL then h_g w3 = h_g ?w2 \<and> r \<noteq> 0 \<and> (r = ERROR_NO_FREE_STORE \<or> fa_type a \<noteq> NFREG \<and> r = (if FileMode = MODE_READWRITE then ERROR_OBJECT_WRONG_TYPE else ERROR_OBJECT_EXISTS) \<or>
            conflict (h_g ?w2) as (fa_fileid a) Mode \<and> r = ERROR_OBJECT_IN_USE)
         else r = 0 \<and> id = fh_LastId (h_g ?w2) + 1 \<and> p \<notin> dom (hp_efh (h_g ?w2)) \<and> fa_type a = NFREG \<and> \<not> conflict (h_g ?w2) as (fa_fileid a) Mode \<and>
           (\<exists>n. n \<noteq> NULL \<and> n \<notin> dom (hp_elock (h_g ?w2)) \<and>
              h_g w3 = with_handle p n FileMode (LONG_of (fa_size a)) None (with_lock n Fn name Mode f a (h_g ?w2)))"
        using find_open_ok [OF pre(1,2) eo mode pre(3), of Fn name f a FileMode] by blast
      note o4 = o(4) [unfolded g2]
      have s3: "g_srv (h_g w3) = s2" using o4 by (auto split: if_splits)
      then have inv3: "walk_inv env T ls1 w3" using l(2) o(2,3) by (simp add: walk_inv_def caches_same_def)
      have run: "act_FINDREADWRITE env fl (bstr_of rel rest) FileMode Mode w =
          (if p = NULL then Some (let (r1, w') = h_SetRes DOSFALSE r w3 in (r1, None, w'))
           else map_option (\<lambda>w5. let (r1, w') = h_SetRes DOSTRUE r w5 in (r1, Some id, w')) (find_rbuf env p w3))"
        unfolding act_FINDREADWRITE_def d(1) Some t using st(5,6) l(1) fa fa' o(1) by (simp add: name_def [symmetric])
      show ?thesis
      proof (cases "p = NULL")
        case True
        then have "open_refused FileMode Mode P F ?g as r" using o4 by (auto simp: open_refused_def st(2) Fst')
        moreover have "act_FINDREADWRITE env fl (bstr_of rel rest) FileMode Mode w =
          Some (DOSFALSE, None, w3\<lparr>h_g := ?g\<lparr>g_srv := s2, g_Res1 := DOSFALSE, g_Res2 := r\<rparr>\<rparr>)"
          unfolding run using True o4 by (simp add: h_SetRes_simps)
        ultimately show ?thesis using fail inv3 s3 by blast
      next
        case False
        obtain n where n: "n \<noteq> NULL" "n \<notin> dom (hp_elock ?g)"
          "h_g w3 = with_handle p n FileMode (LONG_of (fa_size a)) None (with_lock n Fn name Mode f a (?g\<lparr>g_srv := s2\<rparr>))"
          using o4 False by auto
        have q: "r = 0" "id = fh_LastId ?g + 1" "p \<notin> dom (hp_efh ?g)" "fa_type a = NFREG" "\<not> conflict ?g as (fa_fileid a) Mode"
          using o4 False by auto
        define rb where "rb = (if e_str env (h_tick w3) then Some \<lparr>rbh_FileOffs = 0, rbh_DataLen = 0, rbh_Data = NULL\<rparr> else None)"
        define g' where "g' = with_handle p n FileMode (LONG_of (fa_size a)) rb
              (with_lock n Fn name Mode f a (?g\<lparr>g_srv := s2, g_Res1 := DOSTRUE, g_Res2 := 0\<rparr>))"
        have "act_FINDREADWRITE env fl (bstr_of rel rest) FileMode Mode w = Some (DOSTRUE, Some (fh_LastId ?g + 1), (tick 1 w3)\<lparr>h_g := g'\<rparr>)"
          unfolding run using False q(1,2) n(3)
          by (simp add: find_rbuf_def h_SetRes_simps with_handle_def with_lock_def rb_CreateRBuf_def put_efh_def rb_def g'_def tick_def)
        moreover have "open_granted FileMode Mode P F ?g as n p g'" unfolding open_granted_def
          using n(1,2) q(3-5) False Fst' st(2,4)
          by (intro exI [of _ st] exI [of _ f] exI [of _ a] exI [of _ s2] exI [of _ rb]) (auto simp: g'_def rb_def name_def)
        moreover have "g_srv g' = g_srv (h_g (tick 1 w3))" using s3 by (simp add: g'_def)
        ultimately show ?thesis using inv3
          by (intro exI [of _ DOSTRUE] exI [of _ "Some (fh_LastId ?g + 1)"] exI [of _ "(tick 1 w3)\<lparr>h_g := g'\<rparr>"] exI [of _ ls1]) auto
      qed
    qed
  qed
qed

lemma open_granted_facts:
  assumes gr: "open_granted FileMode Mode P F g as n p g'" and ok: "locks_ok k g as" and hs: "fh_inv g hs"
    and root: "\<And>st f a. F st = Inr (f, a) \<Longrightarrow> fa_type a = NFREG \<Longrightarrow> fa_fileid a \<noteq> k"
  shows "locks_ok k g' (n # as)" and "fh_inv g' (p # hs)" and "fh_Lookup (fh_LastId g + 1) g' = Some p"
    and "\<exists>l e st f a. hp_elock g' n = Some l \<and> hp_efh g' p = Some e \<and> P = Inr st \<and> F st = Inr (f, a) \<and> fa_type a = NFREG \<and>
       \<not> conflict g as (fa_fileid a) Mode \<and> fl_Key l = fa_fileid a \<and> fl_Access l = Mode \<and> efl_NFSFh l = f \<and>
       efl_FullName l = join_path st \<and> efh_ELock e = n \<and> efh_Mode e = FileMode \<and> efh_FilePos e = 0 \<and>
       efh_FileLen e = LONG_of (fa_size a) \<and> efh_WBuf e = None \<and> efh_Res2 e = 0"
    and "\<forall>q\<in>set hs. hp_efh g' q = hp_efh g q" and "\<forall>b\<in>set as. hp_elock g' b = hp_elock g b"
proof -
  obtain st f a s rb where g: "P = Inr st" "F st = Inr (f, a)" "fa_type a = NFREG" "\<not> conflict g as (fa_fileid a) Mode"
    "n \<noteq> NULL" "n \<notin> dom (hp_elock g)" "p \<noteq> NULL" "p \<notin> dom (hp_efh g)"
    "g' = with_handle p n FileMode (LONG_of (fa_size a)) rb
        (with_lock n (join_path st) (if st = [] then [] else last st) Mode f a (g\<lparr>g_srv := s, g_Res1 := DOSTRUE, g_Res2 := 0\<rparr>))"
    using gr unfolding open_granted_def by blast
  let ?r = "g\<lparr>g_srv := s, g_Res1 := DOSTRUE, g_Res2 := 0\<rparr>"
  let ?g1 = "with_lock n (join_path st) (if st = [] then [] else last st) Mode f a ?r"
  have okr: "locks_ok k ?r as" and cr: "conflict ?r as key Mode = conflict g as key Mode" for key
    using ok by (simp_all add: locks_ok_def fl_members_def fl_next_def [abs_def] lk_key_def fl_mode_def conflict_def)
  have "locks_ok k ?g1 (n # as)"
    by (rule locks_ok_with_lock [OF okr]) (use g(2-6) root in \<open>auto simp: cr\<close>)
  then show "locks_ok k g' (n # as)" unfolding g(9) locks_ok_with_handle .
  have "fh_inv ?r hs" using hs by (simp add: fh_inv_def fh_members_def fh_id_def [abs_def] fh_next_def [abs_def])
  then have i: "fh_inv ?g1 hs" by (simp only: fh_inv_with_lock)
  have p: "p \<notin> dom (hp_efh ?g1)" "fh_LastId ?g1 = fh_LastId g" using g(8) by (simp_all add: with_lock_def)
  note h = fh_inv_with_handle [OF i g(7) p(1)]
  show "fh_inv g' (p # hs)" unfolding g(9) by (rule h(1))
  show "fh_Lookup (fh_LastId g + 1) g' = Some p" using h(2) unfolding g(9) p(2) .
  show "\<forall>q\<in>set hs. hp_efh g' q = hp_efh g q" using h(3) unfolding g(9) by (simp add: with_lock_def)
  have "n \<notin> set as" using fl_members_alloc [of g as n] ok g(6) by (auto simp: locks_ok_def)
  then show "\<forall>b\<in>set as. hp_elock g' b = hp_elock g b" by (auto simp: g(9) with_handle_def with_lock_def)
  show "\<exists>l e st f a. hp_elock g' n = Some l \<and> hp_efh g' p = Some e \<and> P = Inr st \<and> F st = Inr (f, a) \<and> fa_type a = NFREG \<and>
       \<not> conflict g as (fa_fileid a) Mode \<and> fl_Key l = fa_fileid a \<and> fl_Access l = Mode \<and> efl_NFSFh l = f \<and>
       efl_FullName l = join_path st \<and> efh_ELock e = n \<and> efh_Mode e = FileMode \<and> efh_FilePos e = 0 \<and>
       efh_FileLen e = LONG_of (fa_size a) \<and> efh_WBuf e = None \<and> efh_Res2 e = 0"
    using g(1-4) by (auto simp: g(9) with_handle_def with_lock_def)
qed

lemma file_find_obj: "tree_ok T \<Longrightarrow> file_find T root st = Inr (f, a) \<Longrightarrow> t_obj T (fa_fileid a) = Some (f, a)"
  unfolding tree_ok_def file_find_def by (auto split: option.splits sum.splits)

text \<open>C8. \<open>ACTION_FINDINPUT\<close> and, when the file exists, \<open>ACTION_FINDUPDATE\<close>, with a name relative to a lock
  or to the root, while the server answers from one unchanging tree. The name is not empty, does not
  begin with a slash and has no colon (\<open>simple_rel\<close>), and the components of the lock's own full
  name do not end in a dot (\<open>base_path\<close>); the root is no regular file. Then the action ends. The number it stores for the client is fresh and finds a new
  handle at the start of the file, with the size the server reports, under a lock for the file
  that the server has at the path; that lock conflicts with no lock there is, and all other
  handles and locks are as before. A refusal has its reason in \<open>Res2\<close> (the path, the server's
  answer, not a regular file, a conflicting lock, no memory) and leaves handles and locks alone.
  This needs the locks there are to be shared or exclusive.\<close>

theorem act_FIND_opens:
  assumes inv: "walk_inv env T ls w" and ok: "locks_ok k (h_g w) as" and T: "map_option (fa_type \<circ> snd) (t_obj T k) \<noteq> Some NFREG"
    and sm: "std_modes (h_g w) as" and hs: "fh_inv (h_g w) hs" "hp_efh (h_g w) NULL = None"
    and fl: "fl = NULL \<or> fl \<in> set as" and base: "base_path w fl old"
    and rel: "simple_rel rel" "length rel < 256" and dos: "dos_ok (e_dos env)"
  defines "P \<equiv> rel_path old rel" and "F \<equiv> file_find T (g_MntFh w)"
  assumes act: "(act, FileMode, Mode) = (act_FINDINPUT, MODE_OLDFILE, SHARED_LOCK) \<or>
      (act, FileMode, Mode) = (act_FINDUPDATE, MODE_READWRITE, EXCLUSIVE_LOCK) \<and> (\<exists>st r. P = Inr st \<and> F st = Inr r)"
  shows "\<exists>r num w' ls'. act env fl (bstr_of rel rest) w = Some (r, num, w') \<and> walk_inv env T ls' w' \<and>
    (if r = DOSFALSE then num = None \<and> open_refused FileMode Mode P F (h_g w) as (g_Res2 (h_g w')) \<and>
        hp_elock (h_g w') = hp_elock (h_g w) \<and> hp_efh (h_g w') = hp_efh (h_g w) \<and> locks_ok k (h_g w') as \<and> fh_inv (h_g w') hs
     else r = DOSTRUE \<and> num = Some (fh_LastId (h_g w) + 1) \<and>
       (\<exists>n p l e st f a. locks_ok k (h_g w') (n # as) \<and> fh_inv (h_g w') (p # hs) \<and>
          fh_Lookup (fh_LastId (h_g w) + 1) (h_g w') = Some p \<and> hp_elock (h_g w') n = Some l \<and> hp_efh (h_g w') p = Some e \<and>
          P = Inr st \<and> F st = Inr (f, a) \<and> fa_type a = NFREG \<and> \<not> conflict (h_g w) as (fa_fileid a) Mode \<and>
          fl_Key l = fa_fileid a \<and> fl_Access l = Mode \<and> efl_NFSFh l = f \<and> efl_FullName l = join_path st \<and>
          efh_ELock e = n \<and> efh_Mode e = FileMode \<and> efh_FilePos e = 0 \<and> efh_FileLen e = LONG_of (fa_size a) \<and>
          efh_WBuf e = None \<and> efh_Res2 e = 0 \<and>
          (\<forall>q\<in>set hs. hp_efh (h_g w') q = hp_efh (h_g w) q) \<and> (\<forall>b\<in>set as. hp_elock (h_g w') b = hp_elock (h_g w) b)))"
proof -
  have mode: "Mode = SHARED_LOCK \<or> Mode = EXCLUSIVE_LOCK" using act by auto
  have unf: "act env fl (bstr_of rel rest) w = act_FINDREADWRITE env fl (bstr_of rel rest) FileMode Mode w"
    using act by (auto simp: act_FINDINPUT_def act_FINDUPDATE_def)
  have fnd: "\<exists>st r. rel_path old rel = Inr st \<and> file_find T (g_MntFh w) st = Inr r" if "FileMode = MODE_READWRITE"
    using act that unfolding P_def F_def by auto
  obtain r num w' ls' where d: "act_FINDREADWRITE env fl (bstr_of rel rest) FileMode Mode w = Some (r, num, w')" "walk_inv env T ls' w'"
    "if r = DOSFALSE then num = None \<and> (\<exists>s e. h_g w' = (h_g w)\<lparr>g_srv := s, g_Res1 := DOSFALSE, g_Res2 := e\<rparr> \<and>
          open_refused FileMode Mode P F (h_g w) as e)
     else r = DOSTRUE \<and> num = Some (fh_LastId (h_g w) + 1) \<and> (\<exists>n p. open_granted FileMode Mode P F (h_g w) as n p (h_g w'))"
    using act_FINDREADWRITE_ok [OF inv ok sm hs(2) mode fl base rel dos fnd, folded P_def F_def, where rest = rest] by blast
  show ?thesis
  proof (cases "r = DOSFALSE")
    case True
    then obtain s e where g: "h_g w' = (h_g w)\<lparr>g_srv := s, g_Res1 := DOSFALSE, g_Res2 := e\<rparr>" "open_refused FileMode Mode P F (h_g w) as e"
      using d(3) by auto
    have "locks_ok k (h_g w') as" "fh_inv (h_g w') hs" using ok hs(1) unfolding g(1)
      by (simp_all add: fh_inv_def fh_members_def fh_id_def [abs_def] fh_next_def [abs_def])
    then show ?thesis unfolding unf using True d g by auto
  next
    case False
    then obtain n p where gr: "open_granted FileMode Mode P F (h_g w) as n p (h_g w')" using d(3) by auto
    have r: "r = DOSTRUE" "num = Some (fh_LastId (h_g w) + 1)" using d(3) False by auto
    have tr: "tree_ok T" using inv by (simp add: walk_inv_def)
    have apart: "fa_fileid a \<noteq> k" if "F st = Inr (f, a)" "fa_type a = NFREG" for st f a
      using file_find_obj [OF tr that(1) [unfolded F_def]] T that(2) by auto
    note f = open_granted_facts [OF gr ok hs(1)]
    have f1: "locks_ok k (h_g w') (n # as)" "fh_inv (h_g w') (p # hs)" "fh_Lookup (fh_LastId (h_g w) + 1) (h_g w') = Some p"
      using f(1-3) apart by blast+
    obtain l e st a fh where f2: "hp_elock (h_g w') n = Some l" "hp_efh (h_g w') p = Some e" "P = Inr st" "F st = Inr (fh, a)"
      "fa_type a = NFREG" "\<not> conflict (h_g w) as (fa_fileid a) Mode" "fl_Key l = fa_fileid a" "fl_Access l = Mode" "efl_NFSFh l = fh"
      "efl_FullName l = join_path st" "efh_ELock e = n" "efh_Mode e = FileMode" "efh_FilePos e = 0"
      "efh_FileLen e = LONG_of (fa_size a)" "efh_WBuf e = None" "efh_Res2 e = 0" using f(4) apart by blast
    have f3: "\<forall>q\<in>set hs. hp_efh (h_g w') q = hp_efh (h_g w) q" "\<forall>b\<in>set as. hp_elock (h_g w') b = hp_elock (h_g w) b"
      using f(5,6) apart by blast+
    show ?thesis unfolding unf d(1)
      by (intro exI [of _ r] exI [of _ num] exI [of _ w'] exI [of _ ls'] conjI refl d(2), unfold if_not_P [OF False], intro conjI r
          exI [of _ n] exI [of _ p] exI [of _ l] exI [of _ e] exI [of _ st] exI [of _ fh] exI [of _ a]) (fact f1 f2 f3)+
  qed
qed

lemma toy_open:
  "std_modes (cleared_global ()) []" "fh_inv (cleared_global ()) []" "hp_efh (cleared_global ()) NULL = None"
  "simple_rel ''docs/read.me''" "length ''docs/read.me'' < 256" "rel_path [] ''docs/read.me'' = Inr [''docs'', ''read.me'']"
  "file_find toy_tree [1] [''docs'', ''read.me''] = Inr ([3], toy_fattr NFREG 3)"
proof -
  have "nc_match ''read.me'' \<lparr>en_fileid = 3, en_name = ''Read.Me'', en_cookie = 1\<rparr>" by code_simp
  then show "file_find toy_tree [1] [''docs'', ''read.me''] = Inr ([3], toy_fattr NFREG 3)"
    by (simp add: file_find_def toy_tree_def nc_find_def toy_ents_def toy_res_def toy_fattr_def)
qed (simp_all add: std_modes_def fh_inv_def fh_members_def cleared_global_def simple_rel_def rel_path_def up_first_def trim_dot_def)

lemma toy_root_dir: "map_option (fa_type \<circ> snd) (t_obj toy_tree 1) \<noteq> Some NFREG"
  by (simp add: toy_tree_def toy_fattr_def)

theorem act_FIND_opens_witness:
  "\<exists>r num w'. act_FINDUPDATE toy_env NULL (bstr_of ''docs/read.me'' []) (toy_handler (cleared_global ())) = Some (r, num, w') \<and>
     (r = DOSFALSE \<or> num = Some 1 \<and> (\<exists>n l. hp_elock (h_g w') n = Some l \<and> efl_NFSFh l = [3] \<and> fl_Access l = EXCLUSIVE_LOCK))"
proof -
  let ?w = "toy_handler (cleared_global ())"
  have fnd: "\<exists>st r. rel_path [] ''docs/read.me'' = Inr st \<and> file_find toy_tree (g_MntFh ?w) st = Inr r"
    using toy_open(6,7) unfolding toy_locate(3) by blast
  have sm: "std_modes (h_g ?w) []" "fh_inv (h_g ?w) []" "hp_efh (h_g ?w) NULL = None" using toy_open(1-3) unfolding toy_locate(4) by auto
  have last: "fh_LastId (h_g ?w) = 0" unfolding toy_locate(4) by (simp add: cleared_global_def)
  note th = act_FIND_opens [OF toy_walk_inv toy_locate(1) toy_root_dir sm disjI1 [OF refl] toy_locate(5) toy_open(4,5) toy_locate(9),
      OF disjI2 [OF conjI [OF refl fnd]], of "[]"]
  then obtain r num w' where r: "act_FINDUPDATE toy_env NULL (bstr_of ''docs/read.me'' []) ?w = Some (r, num, w')"
    "r \<noteq> 0 \<Longrightarrow> num = Some 1 \<and> (\<exists>n l st f a. hp_elock (h_g w') n = Some l \<and> rel_path [] ''docs/read.me'' = Inr st \<and>
       file_find toy_tree (g_MntFh ?w) st = Inr (f, a) \<and> efl_NFSFh l = f \<and> fl_Access l = EXCLUSIVE_LOCK)"
    unfolding last by (auto split: if_splits) metis
  then show ?thesis unfolding toy_locate(3) toy_open(6) using toy_open(7) by (cases "r = 0") fastforce+
qed

end
