(* ===== verification/FindClose.thy ===== *)
theory FindClose
  imports Find
begin

text \<open>
  What closing a file does: the bytes that are still buffered reach the server, or the client
  is told; the buffers go back to their pools, the lock and the handle are taken out of their
  lists, and nothing else changes.
\<close>

subsection \<open>Frames\<close>

lemma lock_Remove_frame:
  "lock_Remove a g = Some (x, g') \<Longrightarrow> \<exists>p h. g' = g\<lparr>dl_LockList := p, hp_elock := h\<rparr>"
proof -
  assume r: "lock_Remove a g = Some (x, g')"
  obtain o' where o': "list_locate (fl_next g) a NULL (dl_LockList g) = Some o'" using r by (auto simp: lock_Remove_def bind_eq_Some_conv)
  have "g' = g \<or> (\<exists>n. g' = g\<lparr>dl_LockList := n\<rparr>) \<or> (\<exists>h. g' = g\<lparr>hp_elock := h\<rparr>)"
    using r by (cases o') (auto simp: lock_Remove_def o' bind_eq_Some_conv split: if_splits)
  moreover have "g = g\<lparr>dl_LockList := dl_LockList g, hp_elock := hp_elock g\<rparr>"
     "g\<lparr>dl_LockList := n\<rparr> = g\<lparr>dl_LockList := n, hp_elock := hp_elock g\<rparr>"
     "g\<lparr>hp_elock := h\<rparr> = g\<lparr>dl_LockList := dl_LockList g, hp_elock := h\<rparr>" for n h by simp_all
  ultimately show ?thesis by metis
qed

lemma fh_Remove_frame:
  "fh_Remove a g = Some (x, g') \<Longrightarrow> \<exists>p h. g' = g\<lparr>g_FH := p, hp_efh := h\<rparr>"
proof -
  assume r: "fh_Remove a g = Some (x, g')"
  obtain o' where o': "list_locate (fh_next g) a NULL (g_FH g) = Some o'" using r by (auto simp: fh_Remove_def bind_eq_Some_conv)
  have "g' = g \<or> (\<exists>n. g' = g\<lparr>g_FH := n\<rparr>) \<or> (\<exists>h. g' = g\<lparr>hp_efh := h\<rparr>)"
    using r by (cases o') (auto simp: fh_Remove_def o' bind_eq_Some_conv split: if_splits)
  moreover have "g = g\<lparr>g_FH := g_FH g, hp_efh := hp_efh g\<rparr>"
     "g\<lparr>g_FH := n\<rparr> = g\<lparr>g_FH := n, hp_efh := hp_efh g\<rparr>"
     "g\<lparr>hp_efh := h\<rparr> = g\<lparr>g_FH := g_FH g, hp_efh := h\<rparr>" for n h by simp_all
  ultimately show ?thesis by metis
qed

text \<open>Taking a lock out of the list and freeing it.\<close>

lemma lock_drop_ok:
  assumes m: "fl_members g ls"
  shows "\<exists>x g'. lock_Remove a g = Some (x, g') \<and>
     (\<exists>p h. (if x = NULL then g' else lock_Delete x g') = g\<lparr>dl_LockList := p, hp_elock := h\<rparr>) \<and>
     fl_members (if x = NULL then g' else lock_Delete x g') (remove1 a ls)"
proof -
  obtain g' where r: "lock_Remove a g = Some (if a \<in> set ls then a else NULL, g')" "fl_members g' (remove1 a ls)"
    using lkr.remove_is_remove1 [OF m] by blast
  obtain p h where g': "g' = g\<lparr>dl_LockList := p, hp_elock := h\<rparr>" using lock_Remove_frame [OF r(1)] by blast
  have d: "distinct ls" by (rule lkr.members_distinct [OF m])
  then have nin: "a \<notin> set (remove1 a ls)" by (simp add: set_remove1_eq)
  have "fl_members (lock_Delete a g') (remove1 a ls)"
  proof (cases "a = NULL")
    case False
    have "links ((fl_next g')(a := None)) (dl_LockList g') (remove1 a ls)"
      by (rule links_cong [of _ _ "fl_next g'"]) (use r(2) nin in \<open>auto simp: fl_members_def\<close>)
    then show ?thesis using False by (simp add: fl_members_def lock_Delete_def)
  qed (use r(2) in \<open>simp add: lock_Delete_def\<close>)
  moreover have "\<exists>p h. lock_Delete a g' = g\<lparr>dl_LockList := p, hp_elock := h\<rparr>"
  proof (cases "a = NULL")
    case True
    then show ?thesis using g' by (auto simp: lock_Delete_def)
  next
    case False
    then have "lock_Delete a g' = g\<lparr>dl_LockList := p, hp_elock := h(a := None)\<rparr>" by (simp add: g' lock_Delete_def)
    then show ?thesis by blast
  qed
  moreover have "\<exists>p h. g' = g\<lparr>dl_LockList := p, hp_elock := h\<rparr>" using g' by blast
  ultimately show ?thesis using r
    by (intro exI [of _ "if a \<in> set ls then a else NULL"] exI [of _ g']) (cases "a \<in> set ls"; cases "a = NULL"; simp)
qed

text \<open>The pools do not depend on the lists.\<close>

lemma wpool_lists:
  "wpool (g\<lparr>dl_LockList := p\<rparr>) used fs rbs = wpool g used fs rbs"
  "wpool (g\<lparr>hp_elock := h\<rparr>) used fs rbs = wpool g used fs rbs"
  "wpool (g\<lparr>g_FH := p\<rparr>) used fs rbs = wpool g used fs rbs"
  "wpool (g\<lparr>hp_efh := h'\<rparr>) used fs rbs = wpool g used fs rbs"
  by (simp_all add: wpool_def mb_inv_def nxt_def [abs_def] hdr_at_def [abs_def])

lemma fh_inv_locks: "fh_inv (g\<lparr>dl_LockList := p, hp_elock := h\<rparr>) hs = fh_inv g hs"
  by (simp add: fh_inv_def fh_members_def fh_id_def [abs_def] fh_next_def [abs_def])

lemma fl_members_handles: "fl_members (g\<lparr>g_FH := p, hp_efh := h\<rparr>) ls = fl_members g ls"
  by (simp add: fl_members_def fl_next_def [abs_def])

subsection \<open>The buffers\<close>

lemma end_buffers_ok:
  assumes srv: "wserver_ok rpc content (g_NFSGlobal g)" and ok: "file_ok content g e f as os fs rbs"
  shows "\<exists>e1 g1 fs1. end_buffers rpc e g = Some (e1, g1) \<and> wpool g1 os fs1 rbs \<and> handles_same g g1 \<and>
     dl_LockList g1 = dl_LockList g \<and> hp_elock g1 = hp_elock g \<and>
     efh_Next e1 = efh_Next e \<and> efh_Id e1 = efh_Id e \<and> efh_ELock e1 = efh_ELock e \<and>
     (g_Res1 g1 = DOSTRUE \<and> content (g_srv g1) = seen content f g as \<or> g_Res1 g1 = DOSFALSE)"
proof -
  have wf: "wfile g e f as os fs (rheld e @ rbs)" using ok by (simp add: file_ok_def)
  obtain e1 g1 fs1 where w: "(if efh_WBuf e \<noteq> None then
            map_option (\<lambda>(e', g'). (wc_DeleteCache e', g'))
              (if HasBufferedWData e then
                 map_option (\<lambda>(r, g', e'). (e', case r of Inl res2 \<Rightarrow> snd (SetRes DOSFALSE res2 g') | Inr _ \<Rightarrow> snd (SetRes1 DOSTRUE g')))
                   (wc_FlushCache rpc g e)
               else Some (e, snd (SetRes1 DOSTRUE g)))
          else Some (e, snd (SetRes1 DOSTRUE g))) = Some (e1, g1)" "file_ok content g1 e1 f [] os fs1 rbs"
     "handles_same g g1" "dl_LockList g1 = dl_LockList g" "hp_elock g1 = hp_elock g"
     "efh_Next e1 = efh_Next e" "efh_Id e1 = efh_Id e" "efh_ELock e1 = efh_ELock e"
     "g_Res1 g1 = DOSTRUE \<and> content (g_srv g1) = seen content f g as \<or> g_Res1 g1 = DOSFALSE"
  proof (cases "HasBufferedWData e")
    case False
    have as: "as = []" using not_HasBufferedWData [OF wf] False by simp
    let ?e = "if efh_WBuf e \<noteq> None then wc_DeleteCache e else e"
    have c: "cache_same g (snd (SetRes1 DOSTRUE g))" by (simp add: cache_same_def SetRes1_def)
    have "file_ok content g ?e f [] os fs rbs"
      using ok as by (auto simp: file_ok_def wfile_def wc_DeleteCache_def rb_ok_def rheld_def efh_fh_def split: option.splits)
    then have "file_ok content (snd (SetRes1 DOSTRUE g)) ?e f [] os fs rbs" by (rule file_ok_cong [OF c])
    then show ?thesis using that [of ?e "snd (SetRes1 DOSTRUE g)" fs] False as
      by (auto simp: SetRes1_def handles_same_def wc_DeleteCache_def split: option.splits)
  next
    case True
    then have wb: "efh_WBuf e \<noteq> None" by (auto simp: HasBufferedWData_def split: option.splits)
    obtain n r2 g' e' fs' where fl: "read_flush rpc 0 g e = Some (n, r2, g', e')" "file_ok content g' e' f [] os fs' rbs"
       "wconf_same g g'" "efh_same e e'" "n = -1 \<or> n = 0 \<and> r2 = g_Res2 g \<and> content (g_srv g') = seen content f g as"
      using read_flush_ok [OF srv ok, of 0] by blast
    obtain r x y where wc: "wc_FlushCache rpc g e = Some (r, x, y)" using fl(1) True by (auto simp: read_flush_def)
    then have r: "wc_FlushCache rpc g e = Some (r, g', e')" "n = (case r of Inl _ \<Rightarrow> -1 | Inr _ \<Rightarrow> 0)"
      using fl(1) True by (cases r; simp add: read_flush_def)+
    let ?g = "case r of Inl res2 \<Rightarrow> snd (SetRes DOSFALSE res2 g') | Inr _ \<Rightarrow> snd (SetRes1 DOSTRUE g')"
    have c: "cache_same g' ?g" by (simp add: cache_same_def SetRes_def SetRes1_def split: sum.split)
    have "file_ok content g' (wc_DeleteCache e') f [] os fs' rbs"
      using fl(2) by (auto simp: file_ok_def wfile_def wc_DeleteCache_def rb_ok_def rheld_def efh_fh_def split: option.splits)
    then have "file_ok content ?g (wc_DeleteCache e') f [] os fs' rbs" by (rule file_ok_cong [OF c])
    then show ?thesis using that [of "wc_DeleteCache e'" ?g fs'] wb True r fl(3,5) efh_same_fields [OF fl(4)]
      by (auto simp: SetRes_def SetRes1_def handles_same_def wconf_same_def wc_DeleteCache_def split: option.splits sum.splits)
  qed
  obtain g2 e2 where rel: "(if HasBufferedRData e1 then rb_ReleaseRBufData g1 e1 else Some (g1, e1)) = Some (g2, e2)"
     "file_ok content g2 e2 f [] os fs1 rbs" "rheld e2 = []" "seen content f g2 [] = seen content f g1 []" "rd_same g1 g2"
     "\<exists>r. e2 = e1\<lparr>efh_RBuf := r\<rparr>"
    using release_read_ok [OF w(2)] by blast
  have none: "g2 = g1 \<and> e2 = e1 \<and> rb_DeleteRBuf e2 = e2" if "efh_RBuf e1 = None"
    using that rel(1) by (auto simp: HasBufferedRData_def rb_DeleteRBuf_def)
  have run: "end_buffers rpc e g = Some (rb_DeleteRBuf e2, g2)"
    unfolding end_buffers_def w(1) using none rel(1) by (cases "efh_RBuf e1") auto
  have pool: "wpool g2 os fs1 rbs" using rel(2,3) by (simp add: file_ok_def wfile_def)
  have same: "handles_same g1 g2" "dl_LockList g2 = dl_LockList g1" "hp_elock g2 = hp_elock g1" "g_Res1 g2 = g_Res1 g1"
    using handles_same_rd [OF rel(5)] rel(5) by (auto simp: rd_same_def)
  have e2: "efh_Next (rb_DeleteRBuf e2) = efh_Next e1" "efh_Id (rb_DeleteRBuf e2) = efh_Id e1" "efh_ELock (rb_DeleteRBuf e2) = efh_ELock e1"
    using rel(6) by (auto simp: rb_DeleteRBuf_def split: option.splits)
  show ?thesis using run pool handles_same_trans [OF w(3) same(1)] same e2 w(4-) rel(4)
    by (intro exI [of _ "rb_DeleteRBuf e2"] exI [of _ g2] exI [of _ fs1]) auto
qed

text \<open>C9. Closing a file, with or without a read buffer, when writes are sent synchronously (at most one
  write call outstanding, that is without \<open>ASYNCRPC\<close>, whose path can lose data), the server does what
  RFC 1094 says of WRITE, the buffers of the file and the lists of handles and locks are well-formed:
  \<open>ACTION_END\<close> returns. If it reports success, the file on the server is what the
  client has seen, with every write that was still buffered, and no error of an earlier write
  is pending; a pending error is reported. Either way the handle's number and the lock are gone,
  all other handles and locks are found as before, and the buffers of the file are back in
  their pools.\<close>

theorem act_END_closes:
  assumes srv: "wserver_ok rpc content (g_NFSGlobal g)" and op: "open_file content g hs p e f as os fs rbs"
    and ls: "fl_members g ls"
  shows "\<exists>r g' fs'. act_END rpc (fh_id g p) g = Some (r, g') \<and>
     (r = DOSTRUE \<and> efh_Res2 e = 0 \<and> content (g_srv g') = seen content f g as \<or> r = DOSFALSE) \<and>
     (efh_Res2 e \<noteq> 0 \<longrightarrow> g_Res2 g' = efh_Res2 e) \<and>
     fh_inv g' (remove1 p hs) \<and> fh_Lookup (fh_id g p) g' = Some NULL \<and>
     (\<forall>q\<in>set hs - {p}. fh_Lookup (fh_id g q) g' = Some q) \<and>
     fl_members g' (if efh_ELock e = NULL then ls else remove1 (efh_ELock e) ls) \<and> wpool g' os fs' rbs"
proof -
  have l: "fh_Lookup (fh_id g p) g = Some p" "p \<noteq> NULL" using open_file_Lookup [OF op] by auto
  have e: "hp_efh g p = Some e" and p: "p \<in> set hs" and inv: "fh_inv g hs" and ok: "file_ok content g e f as os fs rbs"
    using op by (auto simp: open_file_def)
  let ?e = "e\<lparr>efh_Res2 := 0\<rparr>"
  have ok': "file_ok content g ?e f as os fs rbs"
    using ok by (simp add: file_ok_def wfile_def rb_ok_def rheld_def efh_fh_def)
  obtain e1 g1 fs1 where b: "end_buffers rpc ?e g = Some (e1, g1)" "wpool g1 os fs1 rbs" "handles_same g g1"
     "dl_LockList g1 = dl_LockList g" "hp_elock g1 = hp_elock g" "efh_Next e1 = efh_Next e" "efh_Id e1 = efh_Id e"
     "efh_ELock e1 = efh_ELock e" "g_Res1 g1 = DOSTRUE \<and> content (g_srv g1) = seen content f g as \<or> g_Res1 g1 = DOSFALSE"
    using end_buffers_ok [OF srv ok'] by auto
  define g2 where "g2 = put_efh p e1 g1"
  have inv2: "fh_inv g2 hs" and id2: "fh_id g2 = fh_id g"
  proof -
    have "fh_next g2 = fh_next g" "fh_id g2 = fh_id g" "g_FH g2 = g_FH g" "fh_LastId g2 = fh_LastId g"
      using e b(3,6,7) by (auto simp: g2_def fh_next_def fh_id_def fun_eq_iff put_efh_def handles_same_def)
    then show "fh_inv g2 hs" "fh_id g2 = fh_id g" using inv by (auto simp: fh_inv_def fh_members_def)
  qed
  have ls2: "fl_members g2 ls" using ls b(4,5) by (simp add: g2_def put_efh_def fl_members_def fl_next_def [abs_def])
  have pool2: "wpool g2 os fs1 rbs" using b(2) by (simp add: g2_def put_efh_def wpool_lists)
  have srv2: "g_srv g2 = g_srv g1" "g_Res1 g2 = g_Res1 g1" by (simp_all add: g2_def put_efh_def)
  obtain g3 pl hl where g3: "(if efh_ELock e1 = NULL then Some g2
       else map_option (\<lambda>(x, g'). if x = NULL then g' else lock_Delete x g') (lock_Remove (efh_ELock e1) g2)) = Some g3"
     "g3 = g2\<lparr>dl_LockList := pl, hp_elock := hl\<rparr>" "fl_members g3 (if efh_ELock e = NULL then ls else remove1 (efh_ELock e) ls)"
  proof (cases "efh_ELock e = NULL")
    case True
    then show ?thesis using that [of g2 "hp_elock g2" "dl_LockList g2"] ls2 b(8) by simp
  next
    case False
    then show ?thesis using lock_drop_ok [OF ls2, of "efh_ELock e"] that b(8) by auto
  qed
  have inv3: "fh_inv g3 hs" using inv2 unfolding g3(2) fh_inv_locks .
  have id3: "fh_id g3 = fh_id g" using id2 by (simp add: g3(2) fh_id_def [abs_def])
  obtain g4 where g4: "fh_Remove p g3 = Some (p, g4)" "fh_inv (fh_Delete p g4) (remove1 p hs)"
     "fh_Lookup (fh_id g p) (fh_Delete p g4) = Some NULL" "\<forall>q\<in>set hs - {p}. fh_Lookup (fh_id g q) (fh_Delete p g4) = Some q"
    using fh_close_ok [OF inv3 p] id3 by (auto simp: Let_def)
  obtain pf hf where "g4 = g3\<lparr>g_FH := pf, hp_efh := hf\<rparr>" using fh_Remove_frame [OF g4(1)] by blast
  then have g5: "fh_Delete p g4 = g3\<lparr>g_FH := pf, hp_efh := hf(p := None)\<rparr>" using l(2) by (simp add: fh_Delete_def)
  define g6 where "g6 = (if efh_Res2 e \<noteq> 0 then snd (SetRes DOSFALSE (efh_Res2 e) (fh_Delete p g4)) else fh_Delete p g4)"
  have run: "act_END rpc (fh_id g p) g = Some (if efh_Res2 e \<noteq> 0 then DOSFALSE else g_Res1 g1, g6)"
    using l e b(1) g3(1) g4(1) unfolding act_END_def g2_def
    by (simp add: Let_def g6_def SetRes_def) (simp add: g5 g3(2) g2_def put_efh_def)
  have keep: "fh_inv g6 = fh_inv (fh_Delete p g4)" "fh_Lookup i g6 = fh_Lookup i (fh_Delete p g4)"
    "fl_members g6 = fl_members (fh_Delete p g4)" "wpool g6 = wpool (fh_Delete p g4)" for i
    by (auto simp: g6_def SetRes_def fun_eq_iff fh_inv_def fh_members_def fh_id_def [abs_def] fh_next_def [abs_def] fh_Lookup_def
        fl_members_def fl_next_def [abs_def] wpool_def mb_inv_def nxt_def [abs_def] hdr_at_def [abs_def])
  have "fl_members g6 (if efh_ELock e = NULL then ls else remove1 (efh_ELock e) ls)" "wpool g6 os fs1 rbs"
    using g3(3) pool2 by (simp_all add: keep g5 fl_members_handles wpool_lists) (simp_all add: g3(2) wpool_lists)
  moreover have "g_srv g6 = g_srv g1" "efh_Res2 e \<noteq> 0 \<longrightarrow> g_Res2 g6 = efh_Res2 e"
    by (simp_all add: g6_def SetRes_def g5 g3(2) srv2)
  ultimately show ?thesis using run g4(2-4) b(9)
    by (intro exI [of _ "if efh_Res2 e \<noteq> 0 then DOSFALSE else g_Res1 g1"] exI [of _ g6] exI [of _ fs1]) (auto simp: keep)
qed

theorem act_END_closes_witness:
  "\<exists>r g'. act_END mem_rpc 1 run_files = Some (r, g') \<and> fh_Lookup 1 g' = Some NULL"
proof -
  have "fl_members run_files []" by (simp add: fl_members_def run_files_def run_global_def cleared_global_def)
  from act_END_closes [OF run_files_server run_open_file this] show ?thesis using run_files_facts(1,2) by fastforce
qed

end
