(* ===== verification/Dispatch.thy ===== *)
theory Dispatch
  imports Locate
begin

text \<open>
  The dispatch table of the packet actions and its index (src/src/actions.c). The table is sorted
  by action number; \<open>act_Init\<close> cuts it into blocks of consecutive numbers, and \<open>act_Lookup\<close>
  finds an action through the block it is in. \<open>act_Prepare\<close> finds the function for a packet,
  refuses modifying actions when the volume is write protected, and turns the BPTR arguments
  into addresses.
\<close>

unbundle bit_operations_syntax

subsection \<open>The table\<close>

datatype ActionFunc =
    F_Unknown | F_IS_WRITE_PROTECTED | F_OK | F_DIE | F_CURRENT_VOLUME | F_LOCATE_OBJECT | F_RENAME_DISK | F_FREE_LOCK
  | F_DELETE_OBJECT | F_RENAME_OBJECT | F_MORE_CACHE | F_COPY_DIR | F_SET_PROTECT | F_CREATE_DIR | F_EXAMINE_OBJECT
  | F_EXAMINE_NEXT | F_DISK_INFO | F_INFO | F_FLUSH | F_PARENT | F_TIMER | F_SET_DATE | F_SAME_LOCK | F_READ | F_WRITE
  | F_IOCONTROL | F_FINDUPDATE | F_FINDINPUT | F_FINDOUTPUT | F_END | F_SEEK | F_MAKE_LINK | F_SET_FILE_SIZE
  | F_WRITE_PROTECT | F_READ_LINK | F_FH_FROM_LOCK | F_IS_FILESYSTEM | F_CHANGE_MODE | F_COPY_DIR_FH | F_PARENT_FH
  | F_EXAMINE_ALL | F_EXAMINE_FH | F_SET_OWNER | F_CREATE_OBJECT | F_GET_ATTRIBUTES

record atentry =
  ate_Action :: int
  ate_Func :: ActionFunc
  ate_BPArgs :: int

record atientry =
  ati_Low :: int
  ati_High :: int
  ati_Index :: int

abbreviation (input) BP1 :: int where "BP1 \<equiv> 1"
abbreviation (input) BP2 :: int where "BP2 \<equiv> 2"
abbreviation (input) BP3 :: int where "BP3 \<equiv> 4"
abbreviation (input) BP4 :: int where "BP4 \<equiv> 8"
abbreviation (input) INTF :: int where "INTF \<equiv> 64"
abbreviation (input) WF :: int where "WF \<equiv> 128"

definition ATE :: "int \<Rightarrow> ActionFunc \<Rightarrow> int \<Rightarrow> atentry" where
  "ATE act func args = \<lparr>ate_Action = act, ate_Func = func, ate_BPArgs = args\<rparr>"

definition ATN :: "int \<Rightarrow> atentry" where
  "ATN n = ATE n F_Unknown 0"

text \<open>The numbers of the actions are those of dos/dosextens.h, xdos.h and nfsc_iocontrol.h; \<open>UN\<close> of the code
  is \<open>ATN\<close> here, too.\<close>

definition ActionTable :: "atentry list" where
  "ActionTable =
     [ATE 5 F_DIE 0, ATN 6, ATE 7 F_CURRENT_VOLUME 0, ATE 8 F_LOCATE_OBJECT (BP1 OR BP2), ATE 9 F_RENAME_DISK (WF OR BP1),
      ATN 10, ATN 11, ATN 12, ATN 13, ATN 14, ATE 15 F_FREE_LOCK BP1, ATE 16 F_DELETE_OBJECT (WF OR BP1 OR BP2),
      ATE 17 F_RENAME_OBJECT (WF OR BP1 OR BP2 OR BP3 OR BP4), ATE 18 F_MORE_CACHE 0, ATE 19 F_COPY_DIR BP1, ATN 20,
      ATE 21 F_SET_PROTECT (WF OR BP2 OR BP3), ATE 22 F_CREATE_DIR (WF OR BP1 OR BP2), ATE 23 F_EXAMINE_OBJECT (BP1 OR BP2),
      ATE 24 F_EXAMINE_NEXT (BP1 OR BP2), ATE 25 F_DISK_INFO BP1, ATE 26 F_INFO (BP1 OR BP2), ATE 27 F_FLUSH 0, ATN 28,
      ATE 29 F_PARENT BP1, ATE 30 F_TIMER INTF, ATN 31, ATN 32, ATN 33, ATE 34 F_SET_DATE (WF OR BP2 OR BP3),
      ATE 40 F_SAME_LOCK (BP1 OR BP2), ATE 82 F_READ 0, ATE 87 F_WRITE WF, ATE 142 F_IOCONTROL 0,
      ATN 1001, ATN 1002, ATN 1003, ATE 1004 F_FINDUPDATE (BP1 OR BP2 OR BP3), ATE 1005 F_FINDINPUT (BP1 OR BP2 OR BP3),
      ATE 1006 F_FINDOUTPUT (WF OR BP1 OR BP2 OR BP3), ATE 1007 F_END 0, ATE 1008 F_SEEK 0,
      ATN 1020, ATE 1021 F_MAKE_LINK (WF OR BP1 OR BP2), ATE 1022 F_SET_FILE_SIZE WF, ATE 1023 F_WRITE_PROTECT 0,
      ATE 1024 F_READ_LINK BP1, ATN 1025, ATE 1026 F_FH_FROM_LOCK (BP1 OR BP2), ATE 1027 F_IS_FILESYSTEM 0,
      ATE 1028 F_CHANGE_MODE BP2, ATN 1029, ATE 1030 F_COPY_DIR_FH 0, ATE 1031 F_PARENT_FH 0, ATN 1032,
      ATE 1033 F_EXAMINE_ALL BP1, ATE 1034 F_EXAMINE_FH BP2, ATN 1035, ATE 1036 F_SET_OWNER (WF OR BP2 OR BP3),
      ATN 2008, ATN 2009, ATE 2346 F_CREATE_OBJECT (WF OR BP1 OR BP2), ATN 2347, ATE 2348 F_GET_ATTRIBUTES (BP2 OR BP3),
      ATN 4097, ATN 4098, ATN 4200]"

text \<open>\<open>ATIndex\<close> of the release build, cleared.\<close>

definition ATIndex :: "atientry list" where
  "ATIndex = replicate 13 \<lparr>ati_Low = 0, ati_High = 0, ati_Index = 0\<rparr>"

subsection \<open>Looking an action up\<close>

text \<open>An access outside the index is \<open>None\<close>. The loop gives \<open>None\<close> behind the last block, else the first
  entry that lies above the action; the result is the position in the table.\<close>

function at_scan :: "atientry list \<Rightarrow> int \<Rightarrow> nat \<Rightarrow> nat option option" where
  "at_scan ix action i =
     (if i \<ge> length ix then None
      else if ati_Low (ix ! i) \<le> action then (if ati_Index (ix ! i) \<noteq> -1 then at_scan ix action (i + 1) else Some None)
      else Some (Some i))"
  by auto
termination by (relation "measure (\<lambda>(ix, _, i). length ix - i)") auto

declare at_scan.simps [simp del]

definition act_Lookup :: "atientry list \<Rightarrow> int \<Rightarrow> nat option option" where
  "act_Lookup ix action =
     map_option (\<lambda>r. case r of None \<Rightarrow> None
       | Some i \<Rightarrow>
           if i = 0 then None
           else if action > ati_High (ix ! (i - 1)) then None
           else Some (nat (ati_Index (ix ! (i - 1)) + (action - ati_Low (ix ! (i - 1))))))
       (at_scan ix action 0)"

subsection \<open>Building the index\<close>

text \<open>The state of the loop is \<open>Act\<close>, \<open>IIndex\<close> and the index; the result has \<open>RetVal\<close> in front.\<close>

function init_loop ::
  "atentry list \<Rightarrow> nat \<Rightarrow> int \<Rightarrow> nat \<Rightarrow> atientry list \<Rightarrow> (bool \<times> int \<times> nat \<times> atientry list) option" where
  "init_loop T Index Act IIndex ix =
     (if Index + 1 \<ge> length T then Some (True, Act, IIndex, ix)
      else
        let Index' = Index + 1; New = ate_Action (T ! Index') in
        if New \<le> Act then Some (False, Act, IIndex, ix)
        else if New = Act + 1 then init_loop T Index' (Act + 1) IIndex ix
        else if IIndex = 0 \<or> IIndex \<ge> length ix then None
        else
          let ix1 = ix[IIndex - 1 := (ix ! (IIndex - 1))\<lparr>ati_High := Act\<rparr>];
              ix2 = ix1[IIndex := (ix1 ! IIndex)\<lparr>ati_Low := New, ati_Index := int Index'\<rparr>] in
          if IIndex + 1 \<ge> length ix - 1 then Some (False, New, 0, ix2)
          else init_loop T Index' New (IIndex + 1) ix2)"
  by auto
termination by (relation "measure (\<lambda>(T, Index, _). length T - Index)") auto

declare init_loop.simps [simp del]

text \<open>The result is \<open>RetVal\<close>, the index, and the table positions for \<open>ACTION_READ\<close> and \<open>ACTION_WRITE\<close>.\<close>

definition act_Init :: "atentry list \<Rightarrow> atientry list \<Rightarrow> (bool \<times> atientry list \<times> nat option \<times> nat option) option" where
  "act_Init T ix0 =
     (if T = [] \<or> ix0 = [] then None
      else do {
        let Act0 = ate_Action (T ! 0);
        (RetVal, Act, IIndex, ix) \<leftarrow> init_loop T 0 Act0 1 (ix0[0 := (ix0 ! 0)\<lparr>ati_Low := Act0, ati_Index := 0\<rparr>]);
        (if IIndex = 0 \<or> IIndex \<ge> length ix then None
         else do {
           let ix1 = ix[IIndex - 1 := (ix ! (IIndex - 1))\<lparr>ati_High := Act\<rparr>];
           let ix2 = ix1[IIndex := (ix1 ! IIndex)\<lparr>ati_Low := ate_Action (T ! (length T - 1)) + 1, ati_Index := -1\<rparr>];
           (if RetVal then do {
              r \<leftarrow> act_Lookup ix2 82;
              w \<leftarrow> act_Lookup ix2 87;
              Some (True, ix2, r, w)
            } else Some (False, ix2, None, None))
         })
      })"

subsection \<open>Preparing a packet\<close>

record dospkt =
  dp_Type :: int
  dp_Arg1 :: u32
  dp_Arg2 :: u32
  dp_Arg3 :: u32
  dp_Arg4 :: u32

definition MYBADDR :: "u32 \<Rightarrow> u32" where
  "MYBADDR a = push_bit 2 a"

abbreviation (input) GF_IS_WRITE_PROTECTED :: u32 where "GF_IS_WRITE_PROTECTED \<equiv> 2"

text \<open>The result is the function (\<open>None\<close> for NULL), \<open>Internal\<close> as far as it is set, and the packet.\<close>

definition prepare_args :: "int \<Rightarrow> dospkt \<Rightarrow> dospkt" where
  "prepare_args BPArgs pkt =
     (let p1 = (if BPArgs AND BP1 \<noteq> 0 then pkt\<lparr>dp_Arg1 := MYBADDR (dp_Arg1 pkt)\<rparr> else pkt);
          p2 = (if BPArgs AND BP2 \<noteq> 0 then p1\<lparr>dp_Arg2 := MYBADDR (dp_Arg2 p1)\<rparr> else p1);
          p3 = (if BPArgs AND BP3 \<noteq> 0 then p2\<lparr>dp_Arg3 := MYBADDR (dp_Arg3 p2)\<rparr> else p2)
      in if BPArgs AND BP4 \<noteq> 0 then p3\<lparr>dp_Arg4 := MYBADDR (dp_Arg4 p3)\<rparr> else p3)"

definition act_Prepare ::
  "atentry list \<Rightarrow> atientry list \<Rightarrow> nat option \<Rightarrow> nat option \<Rightarrow> u32 \<Rightarrow> dospkt \<Rightarrow> (ActionFunc option \<times> bool option \<times> dospkt) option" where
  "act_Prepare T ix ATEntryRead ATEntryWrite Flags pkt =
     do {
       let action = dp_Type pkt;
       ent \<leftarrow> (if action = 82 then Some ATEntryRead else if action = 87 then Some ATEntryWrite else act_Lookup ix action);
       (case ent of
          None \<Rightarrow> Some (None, None, pkt)
        | Some k \<Rightarrow>
            if k \<ge> length T then None
            else
              let BPArgs = ate_BPArgs (T ! k); Internal = (BPArgs AND INTF \<noteq> 0) in
              if Flags AND GF_IS_WRITE_PROTECTED \<noteq> 0 \<and> BPArgs AND WF \<noteq> 0 then Some (Some F_IS_WRITE_PROTECTED, Some Internal, pkt)
              else Some (Some (ate_Func (T ! k)), Some Internal, prepare_args BPArgs pkt))
     }"

subsection \<open>Actions of the table itself\<close>

definition act_Unknown :: "'srv handler \<Rightarrow> int \<times> 'srv handler" where
  "act_Unknown w = h_SetRes DOSFALSE ERROR_ACTION_NOT_KNOWN w"

definition act_IS_WRITE_PROTECTED :: "'srv handler \<Rightarrow> int \<times> 'srv handler" where
  "act_IS_WRITE_PROTECTED w = h_SetRes DOSFALSE ERROR_DISK_WRITE_PROTECTED w"

definition act_OK :: "'srv handler \<Rightarrow> int \<times> 'srv handler" where
  "act_OK w = h_SetRes1 DOSTRUE w"

end
