(* ===== verification/DispatchIndex.thy ===== *)
theory DispatchIndex
  imports Dispatch
begin

text \<open>
  The block index of the dispatch table: looking an action up through it finds exactly the
  entries of the table, and the dispatch of a packet is the dispatch by a linear search.
\<close>

unbundle bit_operations_syntax

subsection \<open>Blocks\<close>

abbreviation action_at :: "atentry list \<Rightarrow> nat \<Rightarrow> int" where
  "action_at T k \<equiv> ate_Action (T ! k)"

definition sorted_table :: "atentry list \<Rightarrow> bool" where
  "sorted_table T \<longleftrightarrow> sorted_wrt (<) (map ate_Action T)"

lemma sorted_table_less: "sorted_table T \<Longrightarrow> i < j \<Longrightarrow> j < length T \<Longrightarrow> action_at T i < action_at T j"
  unfolding sorted_table_def by (auto simp: sorted_wrt_iff_nth_less)

lemma sorted_table_le: "sorted_table T \<Longrightarrow> i \<le> j \<Longrightarrow> j < length T \<Longrightarrow> action_at T i \<le> action_at T j"
  using sorted_table_less [of T i j] by (cases "i = j") auto

text \<open>The number of cuts between consecutive blocks.\<close>

fun gaps :: "int list \<Rightarrow> nat" where
  "gaps (a # b # r) = (if b = a + 1 then 0 else 1) + gaps (b # r)"
| "gaps _ = 0"

lemma gaps_drop:
  "i + 1 < length T \<Longrightarrow> gaps (map ate_Action (drop i T)) =
     (if action_at T (i + 1) = action_at T i + 1 then 0 else 1) + gaps (map ate_Action (drop (i + 1) T))"
  by (simp add: Cons_nth_drop_Suc [symmetric])

text \<open>The first \<open>n\<close> entries of the index describe the blocks of the table that start at \<open>s\<close>; the upper
  ends of all but the last are set.\<close>

definition blocks_ok :: "atentry list \<Rightarrow> atientry list \<Rightarrow> nat \<Rightarrow> (nat \<Rightarrow> nat) \<Rightarrow> bool" where
  "blocks_ok T ix n s \<longleftrightarrow> s 0 = 0 \<and> s n \<le> length T \<and>
     (\<forall>j<n. s j < s (Suc j) \<and> ati_Index (ix ! j) = int (s j) \<and>
        (\<forall>k. s j \<le> k \<and> k < s (Suc j) \<longrightarrow> action_at T k = ati_Low (ix ! j) + int (k - s j)))"

definition highs_ok :: "atentry list \<Rightarrow> atientry list \<Rightarrow> nat \<Rightarrow> (nat \<Rightarrow> nat) \<Rightarrow> bool" where
  "highs_ok T ix n s \<longleftrightarrow> (\<forall>j<n. ati_High (ix ! j) = action_at T (s (Suc j) - 1))"

lemma init_loop_ok:
  assumes "sorted_table T" and "Index < length T" and "0 < n" and "blocks_ok T ix n s" and "highs_ok T ix (n - 1) s"
    and "s n = Index + 1" and "n + gaps (map ate_Action (drop Index T)) + 1 < length ix"
  shows "\<exists>n' ix' s'. init_loop T Index (action_at T Index) n ix = Some (True, action_at T (length T - 1), n', ix') \<and>
    length ix' = length ix \<and> 0 < n' \<and> n' + 1 < length ix \<and> blocks_ok T ix' n' s' \<and> highs_ok T ix' (n' - 1) s' \<and> s' n' = length T"
  using assms
proof (induction "length T - Index" arbitrary: Index n ix s rule: less_induct)
  case less
  note p = less.prems
  let ?i = "Index + 1"
  show ?case
  proof (cases "?i \<ge> length T")
    case True
    then have i: "Index = length T - 1" "?i = length T" using p(2) by auto
    then show ?thesis using p by (subst init_loop.simps) auto
  next
    case False
    then have inT: "?i < length T" by simp
    note g = gaps_drop [OF inT]
    have lt: "action_at T Index < action_at T ?i" using sorted_table_less [OF p(1) _ inT] by simp
    have old: "\<And>j. j < n \<Longrightarrow> s j < s (Suc j) \<and> ati_Index (ix ! j) = int (s j)"
       "\<And>j k. j < n \<Longrightarrow> s j \<le> k \<Longrightarrow> k < s (Suc j) \<Longrightarrow> action_at T k = ati_Low (ix ! j) + int (k - s j)"
       "s 0 = 0" using p(4) by (auto simp: blocks_ok_def)
    show ?thesis
    proof (cases "action_at T ?i = action_at T Index + 1")
      case True
      have step: "init_loop T Index (action_at T Index) n ix = init_loop T ?i (action_at T ?i) n ix"
        using False True lt by (subst init_loop.simps) (simp add: Let_def)
      define s' where "s' = s(n := Index + 2)"
      have lastj: "action_at T k = ati_Low (ix ! (n - 1)) + int (k - s (n - 1))" if "s (n - 1) \<le> k" "k < Index + 2" for k
      proof (cases "k = ?i")
        case True': True
        have "s (n - 1) \<le> Index" using old(1) [of "n - 1"] p(3,6) by simp
        moreover have "action_at T Index = ati_Low (ix ! (n - 1)) + int (Index - s (n - 1))"
          using old(2) [of "n - 1" Index] p(3,6) calculation by simp
        ultimately show ?thesis using True True' by simp
      next
        case False
        then show ?thesis using old(2) [of "n - 1" k] that p(3,6) by simp
      qed
      have b: "blocks_ok T ix n s'"
        unfolding blocks_ok_def
      proof (intro conjI allI impI)
        show "s' 0 = 0" "s' n \<le> length T" using old(3) p(3) inT by (simp_all add: s'_def)
        fix j assume j: "j < n"
        show "s' j < s' (Suc j)" "ati_Index (ix ! j) = int (s' j)" using old(1) [OF j] j p(6) by (auto simp: s'_def)
        fix k assume k: "s' j \<le> k \<and> k < s' (Suc j)"
        show "action_at T k = ati_Low (ix ! j) + int (k - s' j)"
          using k j old(2) [OF j] lastj p(3) by (cases "Suc j = n") (auto simp: s'_def)
      qed
      have h: "highs_ok T ix (n - 1) s'" using p(5) by (auto simp: highs_ok_def s'_def)
      show ?thesis unfolding step
        by (rule less.hyps [OF _ p(1) inT p(3) b h]) (use inT p(7) g True in \<open>auto simp: s'_def\<close>)
    next
      case gap: False
      define ix1 where "ix1 = ix[n - 1 := (ix ! (n - 1))\<lparr>ati_High := action_at T Index\<rparr>]"
      define ix2 where "ix2 = ix1[n := (ix1 ! n)\<lparr>ati_Low := action_at T ?i, ati_Index := int ?i\<rparr>]"
      have room: "\<not> n + 1 \<ge> length ix - 1" using p(7) g gap by simp
      have len: "length ix2 = length ix" "n < length ix" using p(7) by (simp_all add: ix2_def ix1_def)
      have step: "init_loop T Index (action_at T Index) n ix = init_loop T ?i (action_at T ?i) (n + 1) ix2"
        using False gap lt p(3) len room by (subst init_loop.simps) (simp add: Let_def ix1_def ix2_def)
      define s' where "s' = s(n + 1 := Index + 2)"
      have nth: "ix2 ! j = (if j = n then (ix ! n)\<lparr>ati_Low := action_at T ?i, ati_Index := int ?i\<rparr>
          else if j = n - 1 then (ix ! j)\<lparr>ati_High := action_at T Index\<rparr> else ix ! j)" if "j \<le> n" for j
        using that len(2) p(3) by (auto simp: ix2_def ix1_def nth_list_update)
      have b: "blocks_ok T ix2 (n + 1) s'"
        unfolding blocks_ok_def
      proof (intro conjI allI impI)
        show "s' 0 = 0" "s' (n + 1) \<le> length T" using old(3) inT by (simp_all add: s'_def)
        fix j assume j: "j < n + 1"
        show "s' j < s' (Suc j)" "ati_Index (ix2 ! j) = int (s' j)" using old(1) [of j] j p(6) by (auto simp: s'_def nth)
        fix k assume k: "s' j \<le> k \<and> k < s' (Suc j)"
        show "action_at T k = ati_Low (ix2 ! j) + int (k - s' j)"
        proof (cases "j = n")
          case True
          then have "k = ?i" using k p(6) by (simp add: s'_def)
          then show ?thesis using True p(6) by (simp add: s'_def nth)
        next
          case False
          then show ?thesis using k j old(2) [of j k] by (auto simp: s'_def nth)
        qed
      qed
      have h: "highs_ok T ix2 (n + 1 - 1) s'" using p(3,5,6) by (auto simp: highs_ok_def s'_def nth)
      show ?thesis unfolding step len(1) [symmetric]
        by (rule less.hyps [OF _ p(1) inT _ b h]) (use inT p(7) g gap len in \<open>auto simp: s'_def\<close>)
    qed
  qed
qed

subsection \<open>Looking up\<close>

lemma at_scan_ok:
  assumes "\<forall>j<n. ati_Index (ix ! j) \<noteq> -1" and "ati_Index (ix ! n) = -1" and "n < length ix" and "i \<le> n"
    and "\<forall>j<i. ati_Low (ix ! j) \<le> a"
  shows "at_scan ix a i = Some None \<and> ati_Low (ix ! n) \<le> a \<or>
    (\<exists>j\<le>n. at_scan ix a i = Some (Some j) \<and> ati_Low (ix ! j) > a \<and> (\<forall>k<j. ati_Low (ix ! k) \<le> a))"
  using assms
proof (induction "n - i" arbitrary: i)
  case 0
  then show ?case by (subst (1 2) at_scan.simps) auto
next
  case (Suc d)
  show ?case
  proof (cases "ati_Low (ix ! i) \<le> a")
    case True
    have "i < n" using Suc(2) by simp
    then have step: "at_scan ix a i = at_scan ix a (i + 1)" using True Suc.prems by (subst at_scan.simps) simp
    show ?thesis unfolding step by (rule Suc(1)) (use Suc.prems Suc(2) True \<open>i < n\<close> in \<open>auto simp: less_Suc_eq\<close>)
  next
    case False
    then have "at_scan ix a i = Some (Some i)" using Suc.prems by (subst at_scan.simps) simp
    then show ?thesis using False Suc.prems by auto
  qed
qed

lemma block_of:
  assumes "\<forall>j<n. s j < s (Suc j)" and "s (0::nat) = (0::nat)" and "k < s n"
  shows "\<exists>j<n. s j \<le> k \<and> k < s (Suc j)"
  using assms
proof (induction n)
  case (Suc n)
  show ?case
  proof (cases "k < s n")
    case True
    then obtain j where "j < n" "s j \<le> k \<and> k < s (Suc j)" using Suc by auto
    then show ?thesis by (intro exI [of _ j]) auto
  next
    case False
    then show ?thesis using Suc.prems by (intro exI [of _ n]) auto
  qed
qed simp

lemma starts_mono: "\<forall>j<n. s j < s (Suc j) \<Longrightarrow> i \<le> j \<Longrightarrow> j \<le> n \<Longrightarrow> s i \<le> (s j :: nat)"
proof (induction j)
  case (Suc j)
  then have lt: "s j < s (Suc j)" by simp
  show ?case
  proof (cases "i = Suc j")
    case False
    then have "s i \<le> s j" using Suc by simp
    then show ?thesis using lt by simp
  qed simp
qed simp

lemma act_Lookup_ok:
  assumes T: "sorted_table T" "T \<noteq> []" and n: "n < length ix" and b: "blocks_ok T ix n s" and h: "highs_ok T ix n s" and sn: "s n = length T"
    and mark: "ati_Low (ix ! n) = action_at T (length T - 1) + 1" "ati_Index (ix ! n) = -1"
  shows "k < length T \<Longrightarrow> act_Lookup ix (action_at T k) = Some (Some k)"
    and "a \<notin> ate_Action ` set T \<Longrightarrow> act_Lookup ix a = Some None"
proof -
  have st: "\<forall>j<n. s j < s (Suc j)" "s 0 = 0" and ixs: "\<forall>j<n. ati_Index (ix ! j) = int (s j)"
    and blk: "\<And>j k. j < n \<Longrightarrow> s j \<le> k \<Longrightarrow> k < s (Suc j) \<Longrightarrow> action_at T k = ati_Low (ix ! j) + int (k - s j)"
    using b by (auto simp: blocks_ok_def)
  have sl: "s (Suc j) \<le> length T" if "j < n" for j using starts_mono [OF st(1), of "Suc j" n] that sn by simp
  have low: "ati_Low (ix ! j) = action_at T (s j)" if "j < n" for j using blk [of j "s j"] st that by simp
  have idx: "\<forall>j<n. ati_Index (ix ! j) \<noteq> -1" using ixs by simp
  note scan = at_scan_ok [OF idx mark(2) n, of 0, simplified]
  show "act_Lookup ix (action_at T k) = Some (Some k)" if k: "k < length T"
  proof -
    obtain j where j: "j < n" "s j \<le> k" "k < s (Suc j)" using block_of [OF st, of k] k sn by auto
    have above: "ati_Low (ix ! i) > action_at T k" if "j < i" "i \<le> n" for i
    proof (cases "i = n")
      case True
      then show ?thesis using sorted_table_le [OF T(1), of k "length T - 1"] k mark(1) by simp
    next
      case False
      then have i: "i < n" using that by simp
      have "s (Suc j) \<le> s i" using starts_mono [OF st(1), of "Suc j" i] that by simp
      moreover have "s i < s (Suc i)" using st(1) i by simp
      then have "s i < length T" using sl [OF i] by simp
      ultimately show ?thesis using low [OF i] sorted_table_less [OF T(1), of k "s i"] j(3) by simp
    qed
    have below: "ati_Low (ix ! i) \<le> action_at T k" if "i \<le> j" for i
    proof -
      have "s i \<le> s j" using starts_mono [OF st(1), of i j] that j(1) by simp
      then show ?thesis using low [of i] that j sorted_table_le [OF T(1), of "s i" k] k by simp
    qed
    have "at_scan ix (action_at T k) 0 = Some (Some (Suc j))"
    proof -
      have "\<not> ati_Low (ix ! n) \<le> action_at T k" using above [of n] j(1) by simp
      then obtain i where i: "i \<le> n" "at_scan ix (action_at T k) 0 = Some (Some i)" "ati_Low (ix ! i) > action_at T k"
        "\<forall>m<i. ati_Low (ix ! m) \<le> action_at T k" using scan by blast
      have "j < i" using i(3) below [of i] by (meson leD not_le_imp_less)
      moreover have "\<not> Suc j < i" using i(4) above [of "Suc j"] j(1) by fastforce
      ultimately show ?thesis using i(2) by (simp add: Suc_leI le_antisym not_less)
    qed
    moreover have "action_at T k \<le> ati_High (ix ! j)"
      using h j(1,3) sl [OF j(1)] sorted_table_le [OF T(1), of k "s (Suc j) - 1"] by (simp add: highs_ok_def)
    moreover have "nat (ati_Index (ix ! j) + (action_at T k - ati_Low (ix ! j))) = k" using ixs j blk [OF j] by simp
    ultimately show ?thesis by (simp add: act_Lookup_def)
  qed
  show "act_Lookup ix a = Some None" if a: "a \<notin> ate_Action ` set T"
  proof -
    have "False" if i: "Suc i \<le> n" "ati_Low (ix ! i) \<le> a" "a \<le> ati_High (ix ! i)" for i
    proof -
      let ?k = "s i + nat (a - ati_Low (ix ! i))" and ?e = "s (Suc i) - 1"
      have lt: "s i < s (Suc i)" using st(1) i(1) by simp
      have "ati_High (ix ! i) = ati_Low (ix ! i) + int (?e - s i)" using h i(1) lt blk [of i ?e] by (simp add: highs_ok_def)
      then have k: "?k < s (Suc i)" using i(2,3) lt by linarith
      then have "action_at T ?k = a" using blk [of i ?k] i by simp
      then have "a \<in> ate_Action ` set T" using k sl [of i] i(1) by (metis Suc_le_lessD image_eqI le_trans less_le_not_le nat_less_le nth_mem order_less_le_trans)
      then show False using a by simp
    qed
    then have "\<not> a \<le> ati_High (ix ! (i - 1))" if "i \<noteq> 0" "i \<le> n" "\<forall>m<i. ati_Low (ix ! m) \<le> a" for i
      using that by (cases i) (simp, metis lessI diff_Suc_1)
    then have "ati_High (ix ! (i - 1)) < a" if "i \<noteq> 0" "i \<le> n" "\<forall>m<i. ati_Low (ix ! m) \<le> a" for i
      using that by (simp only: not_le)
    then show ?thesis using scan [of a] by (auto simp: act_Lookup_def)
  qed
qed

text \<open>The whole initialisation, for any sorted table whose blocks fit.\<close>

lemma act_Init_ok:
  assumes T: "sorted_table T" "T \<noteq> []" and fit: "gaps (map ate_Action T) + 2 < length ix0"
  shows "\<exists>ix r w. act_Init T ix0 = Some (True, ix, r, w) \<and> act_Lookup ix 82 = Some r \<and> act_Lookup ix 87 = Some w \<and>
    (\<forall>k<length T. act_Lookup ix (action_at T k) = Some (Some k)) \<and>
    (\<forall>a. a \<notin> ate_Action ` set T \<longrightarrow> act_Lookup ix a = Some None)"
proof -
  define ix1 where "ix1 = ix0[0 := (ix0 ! 0)\<lparr>ati_Low := action_at T 0, ati_Index := 0\<rparr>]"
  have ne: "ix0 \<noteq> []" "0 < length T" "length ix1 = length ix0" using fit T(2) by (auto simp: ix1_def)
  have b: "blocks_ok T ix1 1 (\<lambda>j. j)" using ne by (auto simp: blocks_ok_def ix1_def Suc_le_eq)
  have h: "highs_ok T ix1 (1 - 1) (\<lambda>j. j)" by (simp add: highs_ok_def)
  obtain n ix s where loop: "init_loop T 0 (action_at T 0) 1 ix1 = Some (True, action_at T (length T - 1), n, ix)" "length ix = length ix0"
    "0 < n" "n + 1 < length ix" "blocks_ok T ix n s" "highs_ok T ix (n - 1) s" "s n = length T"
    using init_loop_ok [OF T(1) ne(2) _ b h] fit ne(3) by auto
  define ix2 where "ix2 = ix[n - 1 := (ix ! (n - 1))\<lparr>ati_High := action_at T (length T - 1)\<rparr>]"
  define ix3 where "ix3 = ix2[n := (ix2 ! n)\<lparr>ati_Low := action_at T (length T - 1) + 1, ati_Index := -1\<rparr>]"
  have nth: "ix3 ! j = (if j = n then (ix ! n)\<lparr>ati_Low := action_at T (length T - 1) + 1, ati_Index := -1\<rparr>
      else if j = n - 1 then (ix ! j)\<lparr>ati_High := action_at T (length T - 1)\<rparr> else ix ! j)" if "j \<le> n" for j
    using that loop(3,4) by (auto simp: ix3_def ix2_def nth_list_update)
  have len: "n < length ix3" using loop(4) by (simp add: ix3_def ix2_def)
  have b3: "blocks_ok T ix3 n s" using loop(5) by (auto simp: blocks_ok_def nth)
  have h3: "highs_ok T ix3 n s"
    unfolding highs_ok_def
  proof (intro allI impI)
    fix j assume j: "j < n"
    show "ati_High (ix3 ! j) = action_at T (s (Suc j) - 1)"
    proof (cases "j = n - 1")
      case True
      then have "Suc j = n" using loop(3) by simp
      moreover have "n - 1 \<noteq> n" using loop(3) by simp
      ultimately show ?thesis using True loop(7) nth [of "n - 1"] by simp
    next
      case False
      then have "j < n - 1" using j by simp
      then show ?thesis using loop(6) by (auto simp: nth highs_ok_def)
    qed
  qed
  note look = act_Lookup_ok [OF T len b3 h3 loop(7)]
  have mark: "ati_Low (ix3 ! n) = action_at T (length T - 1) + 1" "ati_Index (ix3 ! n) = -1" by (simp_all add: nth)
  have tot: "\<exists>r. act_Lookup ix3 a = Some r" for a
  proof (cases "a \<in> ate_Action ` set T")
    case True
    then obtain k where "k < length T" "a = action_at T k" by (auto simp: in_set_conv_nth)
    then show ?thesis using look(1) [OF mark] by blast
  next
    case False
    then show ?thesis using look(2) [OF mark] by blast
  qed
  obtain r w where rw: "act_Lookup ix3 82 = Some r" "act_Lookup ix3 87 = Some w" using tot by metis
  have c: "\<not> (T = [] \<or> ix0 = [])" "\<not> (n = 0 \<or> n \<ge> length ix)" using T(2) ne(1) loop(3,4) by auto
  have "act_Init T ix0 = Some (True, ix3, r, w)"
    unfolding act_Init_def if_not_P [OF c(1)] Let_def ix1_def [symmetric] loop(1) Option.bind.bind_lunit prod.case if_not_P [OF c(2)]
      ix2_def [symmetric] ix3_def [symmetric] if_True rw by (rule refl)
  then show ?thesis using rw look(1) [OF mark] look(2) [OF mark] by blast
qed

lemma ActionTable_shape: "sorted_table ActionTable" "ActionTable \<noteq> []" "gaps (map ate_Action ActionTable) = 10"
proof -
  show "ActionTable \<noteq> []" by (simp add: ActionTable_def)
  show "gaps (map ate_Action ActionTable) = 10" by (simp add: ActionTable_def ATE_def ATN_def)
  show "sorted_table ActionTable" by (simp add: sorted_table_def ActionTable_def ATE_def ATN_def)
qed

text \<open>C15. Dispatching: \<open>act_Init\<close> succeeds on the table of the program within its 13 index entries, and
  \<open>act_Prepare\<close> with the index it builds answers every packet, known or not, as a search of the whole
  table would: no function for an unknown number, the write-protection answer for an action that
  is marked as modifying while the volume is protected, and otherwise the function of the
  action, with exactly its BPTR arguments shifted. No access leaves table or index.\<close>

theorem act_Prepare_dispatches:
  "\<exists>ix r w. act_Init ActionTable ATIndex = Some (True, ix, r, w) \<and>
     (\<forall>Flags pkt. act_Prepare ActionTable ix r w Flags pkt =
        Some (case find (\<lambda>e. ate_Action e = dp_Type pkt) ActionTable of
                None \<Rightarrow> (None, None, pkt)
              | Some e \<Rightarrow>
                  if Flags AND GF_IS_WRITE_PROTECTED \<noteq> 0 \<and> ate_BPArgs e AND WF \<noteq> 0
                  then (Some F_IS_WRITE_PROTECTED, Some (ate_BPArgs e AND INTF \<noteq> 0), pkt)
                  else (Some (ate_Func e), Some (ate_BPArgs e AND INTF \<noteq> 0),
                        pkt\<lparr>dp_Arg1 := (if ate_BPArgs e AND BP1 \<noteq> 0 then push_bit 2 (dp_Arg1 pkt) else dp_Arg1 pkt),
                            dp_Arg2 := (if ate_BPArgs e AND BP2 \<noteq> 0 then push_bit 2 (dp_Arg2 pkt) else dp_Arg2 pkt),
                            dp_Arg3 := (if ate_BPArgs e AND BP3 \<noteq> 0 then push_bit 2 (dp_Arg3 pkt) else dp_Arg3 pkt),
                            dp_Arg4 := (if ate_BPArgs e AND BP4 \<noteq> 0 then push_bit 2 (dp_Arg4 pkt) else dp_Arg4 pkt)\<rparr>)))"
proof -
  let ?T = ActionTable
  have "gaps (map ate_Action ?T) + 2 < length ATIndex" by (simp add: ActionTable_shape ATIndex_def)
  then obtain ix r w where i: "act_Init ?T ATIndex = Some (True, ix, r, w)" "act_Lookup ix 82 = Some r" "act_Lookup ix 87 = Some w"
    "\<forall>k<length ?T. act_Lookup ix (action_at ?T k) = Some (Some k)" "\<forall>a. a \<notin> ate_Action ` set ?T \<longrightarrow> act_Lookup ix a = Some None"
    using act_Init_ok [OF ActionTable_shape(1,2)] by blast
  have ent: "(if dp_Type pkt = 82 then Some r else if dp_Type pkt = 87 then Some w else act_Lookup ix (dp_Type pkt)) = act_Lookup ix (dp_Type pkt)"
    for pkt :: dospkt using i(2,3) by simp
  have args: "prepare_args bp pkt = pkt\<lparr>dp_Arg1 := (if bp AND BP1 \<noteq> 0 then push_bit 2 (dp_Arg1 pkt) else dp_Arg1 pkt),
                            dp_Arg2 := (if bp AND BP2 \<noteq> 0 then push_bit 2 (dp_Arg2 pkt) else dp_Arg2 pkt),
                            dp_Arg3 := (if bp AND BP3 \<noteq> 0 then push_bit 2 (dp_Arg3 pkt) else dp_Arg3 pkt),
                            dp_Arg4 := (if bp AND BP4 \<noteq> 0 then push_bit 2 (dp_Arg4 pkt) else dp_Arg4 pkt)\<rparr>" for bp and pkt :: dospkt
    unfolding prepare_args_def Let_def MYBADDR_def
    by (cases "bp AND BP1 \<noteq> 0"; cases "bp AND BP2 \<noteq> 0"; cases "bp AND BP3 \<noteq> 0"; cases "bp AND BP4 \<noteq> 0")
      (simp_all only: if_True if_False not_not dospkt.simps simp_thms, simp_all)
  have key: "act_Prepare ?T ix r w Flags pkt =
        Some (case find (\<lambda>e. ate_Action e = dp_Type pkt) ?T of
                None \<Rightarrow> (None, None, pkt)
              | Some e \<Rightarrow>
                  if Flags AND GF_IS_WRITE_PROTECTED \<noteq> 0 \<and> ate_BPArgs e AND WF \<noteq> 0
                  then (Some F_IS_WRITE_PROTECTED, Some (ate_BPArgs e AND INTF \<noteq> 0), pkt)
                  else (Some (ate_Func e), Some (ate_BPArgs e AND INTF \<noteq> 0),
                        pkt\<lparr>dp_Arg1 := (if ate_BPArgs e AND BP1 \<noteq> 0 then push_bit 2 (dp_Arg1 pkt) else dp_Arg1 pkt),
                            dp_Arg2 := (if ate_BPArgs e AND BP2 \<noteq> 0 then push_bit 2 (dp_Arg2 pkt) else dp_Arg2 pkt),
                            dp_Arg3 := (if ate_BPArgs e AND BP3 \<noteq> 0 then push_bit 2 (dp_Arg3 pkt) else dp_Arg3 pkt),
                            dp_Arg4 := (if ate_BPArgs e AND BP4 \<noteq> 0 then push_bit 2 (dp_Arg4 pkt) else dp_Arg4 pkt)\<rparr>))" for Flags pkt
  proof (cases "find (\<lambda>e. ate_Action e = dp_Type pkt) ?T")
    case None
    then have "dp_Type pkt \<notin> ate_Action ` set ?T" by (auto simp: find_None_iff)
    then have "act_Lookup ix (dp_Type pkt) = Some None" using i(5) by blast
    then show ?thesis unfolding act_Prepare_def Let_def ent None by simp
  next
    case (Some e)
    then obtain k where k: "k < length ?T" "e = ?T ! k" "action_at ?T k = dp_Type pkt" by (auto simp: find_Some_iff)
    then have "act_Lookup ix (dp_Type pkt) = Some (Some k)" using i(4) by metis
    then show ?thesis unfolding act_Prepare_def Let_def ent Some k(2) args using k(1) by simp
  qed
  show ?thesis using i(1) key by blast
qed

text \<open>Opening with \<open>ACTION_FINDUPDATE\<close> is not marked as modifying, though it creates a missing file.\<close>

lemma FINDUPDATE_not_protected: "ate_BPArgs (ActionTable ! 37) AND WF = 0" "ActionTable ! 37 = ATE 1004 F_FINDUPDATE 7"
  by (simp_all add: ActionTable_def ATE_def)

end
