(* ===== verification/Filesys.thy ===== *)
theory Filesys
  imports FileIO Dispatch
begin

text \<open>
  Actions on the whole file system (src/src/filesys.c) and the end of the handler (src/src/actions.c):
  write protection, flushing all open files, the distribution of memory among the caches, and
  renaming the volume.
\<close>

unbundle bit_operations_syntax

abbreviation (input) GF_SLOW_MEDIUM :: u32 where "GF_SLOW_MEDIUM \<equiv> 0x20"
abbreviation (input) GF_STATE_RUNNING :: u32 where "GF_STATE_RUNNING \<equiv> 1"
abbreviation (input) ATTR_CACHE_TIMEOUT_DEFAULT :: int where "ATTR_CACHE_TIMEOUT_DEFAULT \<equiv> 30"
abbreviation (input) DIR_CACHE_TIMEOUT_DEFAULT :: int where "DIR_CACHE_TIMEOUT_DEFAULT \<equiv> 60"
abbreviation (input) ATTRENTRYSIZE :: int where "ATTRENTRYSIZE \<equiv> 8 + 4 + 4 + 112"
abbreviation (input) DIRENTRYSIZE :: int where "DIRENTRYSIZE \<equiv> 16 + 44 + 10 + 2 * 20"

definition act_IS_FILESYSTEM :: "'srv global \<Rightarrow> int \<times> 'srv global" where
  "act_IS_FILESYSTEM g = SetRes1 DOSTRUE g"

definition act_WRITE_PROTECT :: "int \<Rightarrow> u32 \<Rightarrow> 'srv global \<Rightarrow> int \<times> 'srv global" where
  "act_WRITE_PROTECT Flag Key g =
     (if Flag = DOSTRUE then
        if g_Flags g AND GF_IS_WRITE_PROTECTED \<noteq> 0 then SetRes DOSFALSE ERROR_DISK_WRITE_PROTECTED g
        else SetRes1 DOSTRUE (g\<lparr>g_Flags := g_Flags g OR GF_IS_WRITE_PROTECTED, g_LockKey := Key\<rparr>)
      else
        if g_Flags g AND GF_IS_WRITE_PROTECTED \<noteq> 0 then
          if Key \<noteq> g_LockKey g then SetRes DOSFALSE ERROR_REQUIRED_ARG_MISSING g
          else SetRes1 DOSTRUE (g\<lparr>g_Flags := g_Flags g AND NOT GF_IS_WRITE_PROTECTED\<rparr>)
        else SetRes1 DOSTRUE g)"

subsection \<open>Flushing\<close>

definition FlushProc :: "'srv rpc_ops \<Rightarrow> addr \<Rightarrow> 'srv global \<Rightarrow> (int \<times> 'srv global) option" where
  "FlushProc rpc p g =
     do {
       e \<leftarrow> hp_efh g p;
       (if HasBufferedWData e then
          map_option (\<lambda>(r, g1, e1). (1, case r of
              Inl res2 \<Rightarrow> snd (SetRes DOSFALSE res2 (put_efh p (e1\<lparr>efh_Res2 := res2\<rparr>) g1))
            | Inr _ \<Rightarrow> put_efh p e1 g1))
            (wc_FlushCache rpc g e)
        else Some (1, g))
     }"

definition act_FLUSH :: "'srv rpc_ops \<Rightarrow> 'srv global \<Rightarrow> (int \<times> 'srv global) option" where
  "act_FLUSH rpc g = map_option (SetRes1 DOSTRUE) (fh_ForEach (FlushProc rpc) g)"

definition RemReadBuf :: "addr \<Rightarrow> 'srv global \<Rightarrow> (int \<times> 'srv global) option" where
  "RemReadBuf p g =
     do {
       e \<leftarrow> hp_efh g p;
       (g1, e1) \<leftarrow> rb_ReleaseRBufData g e;
       Some (1, put_efh p e1 g1)
     }"

definition RemReadBufs :: "'srv rpc_ops \<Rightarrow> 'srv global \<Rightarrow> 'srv global option" where
  "RemReadBufs rpc g = fh_ForEach (FlushProc rpc) g"

definition act_DIE :: "'srv rpc_ops \<Rightarrow> 'srv handler \<Rightarrow> (int \<times> 'srv handler) option" where
  "act_DIE rpc w =
     (if dl_LockList (h_g w) = NULL \<and> g_FH (h_g w) = NULL then
        map_option (\<lambda>(_, g1). (DOSTRUE, w\<lparr>h_g := g1, g_State := g_State w AND NOT GF_STATE_RUNNING\<rparr>)) (act_FLUSH rpc (h_g w))
      else Some (h_SetRes DOSFALSE ERROR_OBJECT_IN_USE w))"

subsection \<open>The volume\<close>

definition MKBADDR :: "int \<Rightarrow> int" where
  "MKBADDR a = drop_bit 2 a"

text \<open>\<open>Dev\<close> is the address of \<open>g_Dev\<close>.\<close>

definition act_CURRENT_VOLUME :: "int \<Rightarrow> 'srv global \<Rightarrow> int \<times> 'srv global" where
  "act_CURRENT_VOLUME Dev g = SetRes (MKBADDR Dev) 0 g"

text \<open>\<open>mem a\<close> are the bytes of memory from address \<open>a\<close> on. \<open>dl_Name\<close> is the string in the new BSTR.\<close>

definition act_RENAME_DISK :: "'srv env \<Rightarrow> (int \<Rightarrow> char list) \<Rightarrow> int \<Rightarrow> 'srv handler \<Rightarrow> (int \<times> 'srv handler) option" where
  "act_RENAME_DISK env mem Arg1 w0 =
     (let newname = MKBADDR Arg1; w = tick 2 w0 in
      if newname \<noteq> 0 then
        do {
          bnewvolname \<leftarrow> DupBSTR (e_str env (h_tick w0)) (Some (mem (push_bit 2 newname)));
          let s = mem newname;
          newvolname \<leftarrow> (if s = [] \<or> length s < bstr_len s + 1 then None
                         else Some (StrNDup (e_str env (h_tick w0 + 1)) (tl s) (bstr_len s)));
          Some (case (bnewvolname, newvolname) of
                  (Some b, Some v) \<Rightarrow> h_SetRes1 DOSTRUE (w\<lparr>dl_Name := take (bstr_len b) (tl b), g_VolumeName := cstr_of v\<rparr>)
                | _ \<Rightarrow> h_SetRes1 DOSTRUE w)
        }
      else Some (h_SetRes1 DOSTRUE w0))"

subsection \<open>Memory for the caches\<close>

text \<open>The rest goes to the two directory caches in equal numbers of entries.\<close>

function dist_loop :: "int \<Rightarrow> int \<Rightarrow> int \<Rightarrow> int \<times> int" where
  "dist_loop BufMem Attrs Dirs =
     (if BufMem \<ge> 0 then dist_loop (BufMem - (ATTRENTRYSIZE + DIRENTRYSIZE)) (Attrs + 1) (Dirs + 1) else (Attrs, Dirs))"
  by auto
termination by (relation "measure (\<lambda>(BufMem, _). nat (BufMem + 1))") auto

declare dist_loop.simps [simp del]

text \<open>The results are the numbers of buffers, attribute entries and directory entries. The memory is
  computed as a \<open>LONG\<close>, which wraps around.\<close>

definition DistributeBuffers :: "u32 \<Rightarrow> int \<Rightarrow> int \<Rightarrow> int \<Rightarrow> int \<times> int \<times> int" where
  "DistributeBuffers Flags AttrTimeout DirTimeout NumBufs =
     (let BufMem = LONG_of (ULONG_of (NumBufs * 512));
          BigTimeout = (AttrTimeout \<ge> 4 * ATTR_CACHE_TIMEOUT_DEFAULT \<or> DirTimeout \<ge> 4 * DIR_CACHE_TIMEOUT_DEFAULT);
          Slow = (Flags AND GF_SLOW_MEDIUM \<noteq> 0);
          MBufs = (BufMem sdiv 2) sdiv MBUFSIZE;
          Attrs = (BufMem sdiv 4) sdiv ATTRENTRYSIZE;
          Dirs = (BufMem sdiv 4) sdiv DIRENTRYSIZE;
          Attrs1 = (if \<not> BigTimeout \<and> Attrs > 200 then 200 else Attrs);
          Dirs1 = (if \<not> BigTimeout \<and> Dirs > 200 then 200 else Dirs);
          MBufs1 = (if Slow \<and> (MBufs * MBUFSIZE) sdiv 8192 > 50 then 50 else MBufs);
          BufMem1 = BufMem - MBufs1 * MBUFSIZE - Attrs1 * ATTRENTRYSIZE - Dirs1 * DIRENTRYSIZE;
          l = BufMem1 sdiv MBUFSIZE;
          (MBufs2, BufMem2) = (if \<not> BigTimeout \<and> \<not> Slow \<and> l \<noteq> 0 then (MBufs1 + l, BufMem1 - l * MBUFSIZE) else (MBufs1, BufMem1));
          (Attrs2, Dirs2) = dist_loop BufMem2 Attrs1 Dirs1
      in (MBufs2, if Attrs2 < 20 then 20 else Attrs2, if Dirs2 < 20 then 20 else Dirs2))"

text \<open>\<open>am\<close> answers the allocations.\<close>

definition act_MORE_CACHE ::
  "'srv env \<Rightarrow> 'srv rpc_ops \<Rightarrow> (nat \<Rightarrow> addr) \<Rightarrow> int \<Rightarrow> 'srv handler \<Rightarrow> (int \<times> 'srv handler) option" where
  "act_MORE_CACHE env rpc am Num w =
     (let g = h_g w in
      if Num = 0 then Some (h_SetRes DOSTRUE (g_NumBuffers g) w)
      else
        let NumBufs0 = LONG_of (ULONG_of (g_NumBuffers g + Num));
            NumBufs = (if NumBufs0 < 0 then 0 else NumBufs0);
            (MBufs, Attrs, Dirs) = DistributeBuffers (g_Flags g) (g_AttrCacheTimeout w) (g_DirCacheTimeout w) NumBufs;
            DiffMBufs = MBufs - g_NumMBufs g
        in do {
          (ok, g3) \<leftarrow>
            (if DiffMBufs < 0 then
               do {
                 g1 \<leftarrow> (if g_NumMBufs g - MBufs > g_NumFreeMBufs g then map_option snd (act_FLUSH rpc g) else Some g);
                 g2 \<leftarrow> (if g_NumMBufs g1 - MBufs > g_NumFreeMBufs g1 then RemReadBufs rpc g1 else Some g1);
                 map_option (Pair True) (mb_FreeSomeMBufs (g_NumMBufs g2 - MBufs) g2)
               }
             else if DiffMBufs > 0 then mb_AllocMoreMBufs am DiffMBufs g
             else Some (True, g));
          (if ok then
             do {
               let t = h_tick w;
               ac \<leftarrow> attrs_SetCacheSize (e_clk env t) (h_attrs w) Attrs;
               dc \<leftarrow> dc_SetCacheSize (e_clk env (t + 1)) (h_dirs w) Dirs;
               Some (h_SetRes DOSTRUE NumBufs
                 (tick 2 (w\<lparr>h_g := g3\<lparr>g_NumBuffers := NumBufs\<rparr>, h_attrs := ac, h_dirs := dc,
                            g_AttrCacheMaxEntries := Attrs, g_DirCacheMaxEntries := Dirs\<rparr>)))
             }
           else Some (h_SetRes DOSFALSE ERROR_NO_FREE_STORE (w\<lparr>h_g := g3\<rparr>)))
        })"

end
