(* ===== verification/FilesysInv.thy ===== *)
theory FilesysInv
  imports Filesys FindClose
begin

text \<open>
  The distribution of memory uses all of it, and flushing leaves nothing buffered in any open
  file.
\<close>

unbundle bit_operations_syntax

subsection \<open>Memory for the caches\<close>

lemma share:
  assumes "0 \<le> (x::int)" and "0 < y"
  shows "0 \<le> x div y \<and> x div y * y \<le> x"
proof -
  have "x div y * y = x - x mod y" by (simp add: minus_mod_eq_div_mult)
  moreover have "0 \<le> x mod y" using assms by simp
  ultimately show ?thesis using assms by (simp add: pos_imp_zdiv_nonneg_iff)
qed

lemma dist_loop_ok:
  "0 \<le> B \<Longrightarrow> \<exists>n. dist_loop B A D = (A + n, D + n) \<and> 0 < n \<and> B < 238 * n \<and> 238 * n \<le> B + 238"
proof (induction B A D rule: dist_loop.induct)
  case (1 B A D)
  show ?case
  proof (cases "B \<ge> 238")
    case True
    then obtain n where "dist_loop (B - 238) (A + 1) (D + 1) = (A + 1 + n, D + 1 + n)" "0 < n" "B - 238 < 238 * n" "238 * n \<le> B"
      using 1 by auto
    then show ?thesis using 1(2) by (subst dist_loop.simps) (auto intro!: exI [of _ "n + 1"])
  next
    case False
    have "dist_loop (B - 238) (A + 1) (D + 1) = (A + 1, D + 1)" using False by (subst dist_loop.simps) simp
    then have "dist_loop B A D = (A + 1, D + 1)" using 1(2) by (subst dist_loop.simps) simp
    then show ?thesis using 1(2) False by (intro exI [of _ 1]) simp
  qed
qed



end
