(* ===== verification/FlushAll.thy ===== *)
theory FlushAll
  imports FilesysInv NfsCalls
begin

text \<open>
  Flushing all open files (\<open>act_FLUSH\<close> of src/src/filesys.c): the dirty buffers of every file go to
  the server, and a failure is never silent.
\<close>

subsection \<open>A failed write has an error\<close>

definition writes_fail_nonzero :: "'srv rpc_ops \<Rightarrow> bool" where
  "writes_fail_nonzero rpc \<longleftrightarrow> (\<forall>fh off b s. clnt_fails_nonzero (nfsproc_write_2 rpc fh off b s))"

lemma CLIENT2IoErr_nonzero: "0 < c \<Longrightarrow> CLIENT2IoErr c \<noteq> 0"
  by (simp add: CLIENT2IoErr_def)

lemma nfs_MWrite_loop_nonzero:
  assumes run: "nfs_MWrite_loop rpc fh MaxWrite off buf res s = Some y"
  shows "writes_fail_nonzero rpc \<longrightarrow> fst y \<noteq> Inl 0"
proof (rule nfs_MWrite_loop.raw_induct [where P = "\<lambda>rpc fh M off buf res s y. writes_fail_nonzero rpc \<longrightarrow> fst y \<noteq> Inl 0", OF _ run])
  fix loop rpc fh MaxWrite offset buf res and srv :: 'a and y
  assume IH: "\<And>(rpc :: 'a rpc_ops) (fh :: nfs_fh) (M :: nat) (off :: u32) (buf :: u8 list) (res :: fattr option) (s :: 'a) y.
       loop rpc fh M off buf res s = Some y \<Longrightarrow> writes_fail_nonzero rpc \<longrightarrow> fst y \<noteq> Inl 0"
    and step: "(if buf = [] then (case res of None \<Rightarrow> None | Some attr \<Rightarrow> Some (Inr attr, srv))
      else
        let Len = (if length buf < MaxWrite then length buf else MaxWrite) in
        (case nfsproc_write_2 rpc fh offset (take Len buf) srv of
           (Inl clstat, srv') \<Rightarrow> Some (Inl (CLIENT2IoErr clstat), srv')
         | (Inr (status, attr), srv') \<Rightarrow>
             if status \<noteq> NFS_OK then Some (Inl (NFSErr2IoErrCont status CHR ''w''), srv')
             else loop rpc fh MaxWrite (offset + of_nat Len) (drop Len buf) (Some attr) srv')) = Some y"
  let ?L = "if length buf < MaxWrite then length buf else MaxWrite"
  obtain r s' where w: "nfsproc_write_2 rpc fh offset (take ?L buf) srv = (r, s')" by force
  show "writes_fail_nonzero rpc \<longrightarrow> fst y \<noteq> Inl 0"
  proof (intro impI)
    assume nz: "writes_fail_nonzero rpc"
    have c: "0 < c" if "r = Inl c" for c
      using nz w that unfolding writes_fail_nonzero_def clnt_fails_nonzero_def by metis
    show "fst y \<noteq> Inl 0"
    proof (cases "buf = []")
      case True
      then show ?thesis using step by (auto split: option.splits)
    next
      case False
      note step1 = step [unfolded if_not_P [OF False] Let_def w prod.case]
      show ?thesis
      proof (cases r)
        case (Inl c')
        then show ?thesis using step1 CLIENT2IoErr_nonzero [OF c] by auto
      next
        case (Inr q)
        obtain st at where q: "q = (st, at)" by (cases q)
        note step2 = step1 [unfolded Inr q sum.case prod.case]
        show ?thesis
        proof (cases "st = NFS_OK")
          case True
          then have "loop rpc fh MaxWrite (offset + word_of_nat ?L) (drop ?L buf) (Some at) s' = Some y" using step2 by simp
          then show ?thesis using IH nz by blast
        next
          case neq: False
          then have "y = (Inl (NFSErr2IoErrCont st CHR ''w''), s')" using step2 by simp
          then show ?thesis using neq by simp
        qed
      qed
    qed
  qed
qed

lemma nfs_write_any_nonzero:
  assumes "writes_fail_nonzero rpc" and "ng_NumWRPCs ng \<le> 1" and run: "nfs_write_any ng rpc fh off buf s = Some (r, s')"
  shows "r \<noteq> Inl 0"
proof -
  obtain a s1 where a: "nfs_MWrite_loop rpc fh (unat (min (ng_MaxWriteSize ng) NFS_MAXDATA)) off buf None s = Some (a, s1)"
    "r = (case a of Inl e \<Rightarrow> Inl e | Inr attr \<Rightarrow> Inr (int (length buf), LONG_of (fa_size attr)))"
    using run assms(2) by (auto simp: nfs_write_any_def nfs_MWrite_def Let_def)
  have "a \<noteq> Inl 0" using nfs_MWrite_loop_nonzero [OF a(1)] assms(1) by simp
  then show ?thesis using a(2) by (cases a) auto
qed

lemma flush_infos_nonzero:
  "writes_fail_nonzero rpc \<Longrightarrow> ng_NumWRPCs ng \<le> 1 \<Longrightarrow> flush_infos rpc ng fh offs d info k i s = Some (r, s') \<Longrightarrow> r \<noteq> Inl 0"
proof (induction i arbitrary: k s)
  case (Suc i)
  note s = Suc.prems(3)
  obtain f q s1 where f: "fh = Some f" "nfs_write_any ng rpc f (ULONG_of (offs + wbi_From (info ! k)))
       (buf_bytes d (wbi_From (info ! k)) (wbi_To (info ! k))) s = Some (q, s1)"
     "(case q of Inl res2 \<Rightarrow> Some (Inl res2, s1) | Inr _ \<Rightarrow> flush_infos rpc ng fh offs d info (Suc k) i s1) = Some (r, s')"
    using s by (auto simp: bind_eq_Some_conv Let_def split: if_splits)
  have "q \<noteq> Inl 0" by (rule nfs_write_any_nonzero [OF Suc.prems(1,2) f(2)])
  then show ?case using f(3) Suc.IH [OF Suc.prems(1,2), of "Suc k" s1] by (cases q) auto
qed auto

lemma flush_loop_nonzero:
  assumes run: "flush_loop rpc ign fh g w = Some y"
  shows "writes_fail_nonzero rpc \<longrightarrow> ng_NumWRPCs (g_NFSGlobal g) \<le> 1 \<longrightarrow> fst y \<noteq> Inl 0"
proof (rule flush_loop.raw_induct [where P = "\<lambda>rpc ign fh g w y. writes_fail_nonzero rpc \<longrightarrow> ng_NumWRPCs (g_NFSGlobal g) \<le> 1 \<longrightarrow> fst y \<noteq> Inl 0",
      OF _ run], intro impI)
  fix loop rpc ign fh and g :: "'a global" and w y
  assume IH: "\<And>(rpc :: 'a rpc_ops) (ign :: bool) (fh :: nfs_fh option) (g :: 'a global) (w :: wbufcluster option) y.
       loop rpc ign fh g w = Some y \<Longrightarrow> writes_fail_nonzero rpc \<longrightarrow> ng_NumWRPCs (g_NFSGlobal g) \<le> 1 \<longrightarrow> fst y \<noteq> Inl 0"
    and step: "do {
       (wbh, wbc1) \<leftarrow> WBufRemHead g w;
       (if wbh = NULL then Some (Inr (), g, wbc1)
        else do {
          h \<leftarrow> hp_wbh g wbh;
          (r, srv1) \<leftarrow>
            (if wbh_NumInfo h = 0 \<and> \<not> ign then Some (Inr (), g_srv g)
             else flush_infos rpc (g_NFSGlobal g) fh (wbh_FileOffs h) (mb_data g (wbh_Data h))
                    (wbh_Info h) 0 (wbh_NumInfo h) (g_srv g));
          g1 \<leftarrow> ReleaseWBuf wbh (g\<lparr>g_srv := srv1\<rparr>);
          (case r of
             Inl res2 \<Rightarrow> do { (g2, wbc2) \<leftarrow> release_all g1 wbc1; Some (Inl res2, g2, wbc2) }
           | Inr _ \<Rightarrow> loop rpc ign fh g1 wbc1)
        })
     } = Some y"
    and nz: "writes_fail_nonzero rpc" "ng_NumWRPCs (g_NFSGlobal g) \<le> 1"
  obtain a w1 where a: "WBufRemHead g w = Some (a, w1)" using step by (auto simp: bind_eq_Some_conv)
  note step1 = step [unfolded a Option.bind.bind_lunit prod.case]
  show "fst y \<noteq> Inl 0"
  proof (cases "a = NULL")
    case True
    then show ?thesis using step1 by auto
  next
    case False
    obtain h r s1 g1 where b: "hp_wbh g a = Some h"
      "(if wbh_NumInfo h = 0 \<and> \<not> ign then Some (Inr (), g_srv g)
        else flush_infos rpc (g_NFSGlobal g) fh (wbh_FileOffs h) (mb_data g (wbh_Data h)) (wbh_Info h) 0 (wbh_NumInfo h) (g_srv g)) = Some (r, s1)"
      "ReleaseWBuf a (g\<lparr>g_srv := s1\<rparr>) = Some g1"
      "(case r of Inl res2 \<Rightarrow> release_all g1 w1 \<bind> (\<lambda>(g2, wbc2). Some (Inl res2, g2, wbc2)) | Inr x \<Rightarrow> loop rpc ign fh g1 w1) = Some y"
      using step1 [unfolded if_not_P [OF False]] by (auto simp only: bind_eq_Some_conv prod.case split_paired_Ex)
    have r: "r \<noteq> Inl 0"
    proof (cases "wbh_NumInfo h = 0 \<and> \<not> ign")
      case True
      then show ?thesis using b(2) by auto
    next
      case no: False
      show ?thesis by (rule flush_infos_nonzero [OF nz b(2) [unfolded if_not_P [OF no]]])
    qed
    have ng: "g_NFSGlobal g1 = g_NFSGlobal g" using b(3) False
      by (cases "hp_wbh g a") (auto simp: ReleaseWBuf_def mb_ReleaseMBuf_def Let_def)
    show ?thesis
    proof (cases r)
      case (Inl res2)
      then show ?thesis using b(4) r by (auto simp: bind_eq_Some_conv)
    next
      case (Inr u)
      then show ?thesis using b(4) IH nz ng by (simp add: nz)
    qed
  qed
qed

lemma wc_FlushCache_nonzero:
  "writes_fail_nonzero rpc \<Longrightarrow> ng_NumWRPCs (g_NFSGlobal g) \<le> 1 \<Longrightarrow> wc_FlushCache rpc g e = Some (r, g', e') \<Longrightarrow> r \<noteq> Inl 0"
  using flush_loop_nonzero [of rpc False "efh_fh g e" g "efh_WBuf e"]
  by (auto simp: wc_FlushCache_def iwc_FlushCache_def bind_eq_Some_conv)

subsection \<open>A write leaves the other files alone\<close>

definition others_kept :: "('srv \<Rightarrow> nfs_fh \<Rightarrow> int \<Rightarrow> u8) \<Rightarrow> nfs_fh \<Rightarrow> 'srv \<Rightarrow> 'srv \<Rightarrow> bool" where
  "others_kept content f s s' \<longleftrightarrow> (\<forall>h. h \<noteq> f \<longrightarrow> content s' h = content s h)"

lemma others_kept_refl [simp]: "others_kept content f s s"
  by (simp add: others_kept_def)

lemma others_kept_trans: "others_kept content f s s' \<Longrightarrow> others_kept content f s' s'' \<Longrightarrow> others_kept content f s s''"
  by (simp add: others_kept_def)

lemma write_server_others:
  "write_server rpc content \<Longrightarrow> nfsproc_write_2 rpc f off bs s = (r, s') \<Longrightarrow> others_kept content f s s'"
  unfolding write_server_def others_kept_def by (metis snd_conv)

lemma nfs_MWrite_loop_others:
  assumes run: "nfs_MWrite_loop rpc fh MaxWrite off buf res s = Some y"
  shows "write_server rpc content \<longrightarrow> others_kept content fh s (snd y)"
proof (rule nfs_MWrite_loop.raw_induct [where P = "\<lambda>rpc fh M off buf res s y. write_server rpc content \<longrightarrow> others_kept content fh s (snd y)", OF _ run])
  fix loop rpc fh MaxWrite offset buf res and srv :: 'a and y
  assume IH: "\<And>(rpc :: 'a rpc_ops) (fh :: nfs_fh) (M :: nat) (off :: u32) (buf :: u8 list) (res :: fattr option) (s :: 'a) y.
       loop rpc fh M off buf res s = Some y \<Longrightarrow> write_server rpc content \<longrightarrow> others_kept content fh s (snd y)"
    and step: "(if buf = [] then (case res of None \<Rightarrow> None | Some attr \<Rightarrow> Some (Inr attr, srv))
      else
        let Len = (if length buf < MaxWrite then length buf else MaxWrite) in
        (case nfsproc_write_2 rpc fh offset (take Len buf) srv of
           (Inl clstat, srv') \<Rightarrow> Some (Inl (CLIENT2IoErr clstat), srv')
         | (Inr (status, attr), srv') \<Rightarrow>
             if status \<noteq> NFS_OK then Some (Inl (NFSErr2IoErrCont status CHR ''w''), srv')
             else loop rpc fh MaxWrite (offset + of_nat Len) (drop Len buf) (Some attr) srv')) = Some y"
  let ?L = "if length buf < MaxWrite then length buf else MaxWrite"
  obtain r s' where w: "nfsproc_write_2 rpc fh offset (take ?L buf) srv = (r, s')" by force
  show "write_server rpc content \<longrightarrow> others_kept content fh srv (snd y)"
  proof (intro impI)
    assume ws: "write_server rpc content"
    note k = write_server_others [OF ws w]
    show "others_kept content fh srv (snd y)"
    proof (cases "buf = []")
      case True
      then show ?thesis using step by (auto split: option.splits)
    next
      case False
      note step1 = step [unfolded if_not_P [OF False] Let_def w prod.case]
      show ?thesis
      proof (cases r)
        case (Inl c')
        then show ?thesis using step1 k by auto
      next
        case (Inr q)
        obtain st at where q: "q = (st, at)" by (cases q)
        note step2 = step1 [unfolded Inr q sum.case prod.case]
        show ?thesis
        proof (cases "st = NFS_OK")
          case True
          then have "loop rpc fh MaxWrite (offset + word_of_nat ?L) (drop ?L buf) (Some at) s' = Some y" using step2 by simp
          then show ?thesis using IH ws others_kept_trans [OF k] by blast
        next
          case neq: False
          then have "y = (Inl (NFSErr2IoErrCont st CHR ''w''), s')" using step2 by simp
          then show ?thesis using k by simp
        qed
      qed
    qed
  qed
qed

lemma nfs_write_any_others:
  assumes srv: "wserver_ok rpc content ng" and run: "nfs_write_any ng rpc f off buf s = Some (r, s')"
  shows "others_kept content f s s'"
proof -
  obtain a where "nfs_MWrite_loop rpc f (unat (min (ng_MaxWriteSize ng) NFS_MAXDATA)) off buf None s = Some (a, s')"
    using run srv by (auto simp: nfs_write_any_def nfs_MWrite_def Let_def wserver_ok_def)
  from nfs_MWrite_loop_others [OF this, of content] show ?thesis using srv by (simp add: wserver_ok_def)
qed

lemma flush_infos_others:
  "wserver_ok rpc content ng \<Longrightarrow> flush_infos rpc ng (Some f) offs d info k i s = Some (r, s') \<Longrightarrow> others_kept content f s s'"
proof (induction i arbitrary: k s)
  case (Suc i)
  obtain q s1 where w: "nfs_write_any ng rpc f (ULONG_of (offs + wbi_From (info ! k)))
       (buf_bytes d (wbi_From (info ! k)) (wbi_To (info ! k))) s = Some (q, s1)"
     "(case q of Inl res2 \<Rightarrow> Some (Inl res2, s1) | Inr _ \<Rightarrow> flush_infos rpc ng (Some f) offs d info (Suc k) i s1) = Some (r, s')"
    using Suc.prems(2) by (auto simp: bind_eq_Some_conv Let_def split: if_splits)
  note k1 = nfs_write_any_others [OF Suc.prems(1) w(1)]
  show ?case using w(2) Suc.IH [OF Suc.prems(1), of "Suc k" s1] others_kept_trans [OF k1] k1 by (cases q) auto
qed auto

lemma ReleaseWBuf_srv: "ReleaseWBuf a g = Some g' \<Longrightarrow> g_srv g' = g_srv g \<and> g_NFSGlobal g' = g_NFSGlobal g"
  by (cases "a = NULL"; cases "hp_wbh g a") (auto simp: ReleaseWBuf_def mb_ReleaseMBuf_def Let_def)

lemma release_all_srv:
  assumes run: "release_all g w = Some y"
  shows "g_srv (fst y) = g_srv g"
proof (rule release_all.raw_induct [where P = "\<lambda>g w y. g_srv (fst y) = g_srv g", OF _ run])
  fix loop and g :: "'a global" and w y
  assume IH: "\<And>(g :: 'a global) w y. loop g w = Some y \<Longrightarrow> g_srv (fst y) = g_srv g"
    and step: "do {
       (wbh, wbc1) \<leftarrow> WBufRemHead g w;
       (if wbh = NULL then Some (g, wbc1) else do { g1 \<leftarrow> ReleaseWBuf wbh g; loop g1 wbc1 })
     } = Some y"
  obtain a w1 where a: "WBufRemHead g w = Some (a, w1)" using step by (auto simp: bind_eq_Some_conv)
  note step1 = step [unfolded a Option.bind.bind_lunit prod.case]
  show "g_srv (fst y) = g_srv g"
  proof (cases "a = NULL")
    case True
    then show ?thesis using step1 by auto
  next
    case False
    then obtain g1 where r: "ReleaseWBuf a g = Some g1" "loop g1 w1 = Some y" using step1 by (auto simp: bind_eq_Some_conv)
    have "g_srv (fst y) = g_srv g1" by (rule IH [OF r(2)])
    then show ?thesis using ReleaseWBuf_srv [OF r(1)] by simp
  qed
qed

lemma flush_loop_others:
  assumes run: "flush_loop rpc ign fh g w = Some y"
  shows "fh = Some f \<longrightarrow> wserver_ok rpc content (g_NFSGlobal g) \<longrightarrow> others_kept content f (g_srv g) (g_srv (fst (snd y)))"
proof (rule flush_loop.raw_induct [where P = "\<lambda>rpc ign fh g w y. fh = Some f \<longrightarrow> wserver_ok rpc content (g_NFSGlobal g) \<longrightarrow>
      others_kept content f (g_srv g) (g_srv (fst (snd y)))", OF _ run], intro impI)
  fix loop rpc ign fh and g :: "'a global" and w y
  assume IH: "\<And>(rpc :: 'a rpc_ops) (ign :: bool) (fh :: nfs_fh option) (g :: 'a global) (w :: wbufcluster option) y.
       loop rpc ign fh g w = Some y \<Longrightarrow> fh = Some f \<longrightarrow> wserver_ok rpc content (g_NFSGlobal g) \<longrightarrow>
         others_kept content f (g_srv g) (g_srv (fst (snd y)))"
    and step: "do {
       (wbh, wbc1) \<leftarrow> WBufRemHead g w;
       (if wbh = NULL then Some (Inr (), g, wbc1)
        else do {
          h \<leftarrow> hp_wbh g wbh;
          (r, srv1) \<leftarrow>
            (if wbh_NumInfo h = 0 \<and> \<not> ign then Some (Inr (), g_srv g)
             else flush_infos rpc (g_NFSGlobal g) fh (wbh_FileOffs h) (mb_data g (wbh_Data h))
                    (wbh_Info h) 0 (wbh_NumInfo h) (g_srv g));
          g1 \<leftarrow> ReleaseWBuf wbh (g\<lparr>g_srv := srv1\<rparr>);
          (case r of
             Inl res2 \<Rightarrow> do { (g2, wbc2) \<leftarrow> release_all g1 wbc1; Some (Inl res2, g2, wbc2) }
           | Inr _ \<Rightarrow> loop rpc ign fh g1 wbc1)
        })
     } = Some y"
    and fh: "fh = Some f" and srv: "wserver_ok rpc content (g_NFSGlobal g)"
  obtain a w1 where a: "WBufRemHead g w = Some (a, w1)" using step by (auto simp: bind_eq_Some_conv)
  note step1 = step [unfolded a Option.bind.bind_lunit prod.case]
  show "others_kept content f (g_srv g) (g_srv (fst (snd y)))"
  proof (cases "a = NULL")
    case True
    then show ?thesis using step1 by auto
  next
    case False
    obtain h r s1 g1 where b: "hp_wbh g a = Some h"
      "(if wbh_NumInfo h = 0 \<and> \<not> ign then Some (Inr (), g_srv g)
        else flush_infos rpc (g_NFSGlobal g) fh (wbh_FileOffs h) (mb_data g (wbh_Data h)) (wbh_Info h) 0 (wbh_NumInfo h) (g_srv g)) = Some (r, s1)"
      "ReleaseWBuf a (g\<lparr>g_srv := s1\<rparr>) = Some g1"
      "(case r of Inl res2 \<Rightarrow> release_all g1 w1 \<bind> (\<lambda>(g2, wbc2). Some (Inl res2, g2, wbc2)) | Inr x \<Rightarrow> loop rpc ign fh g1 w1) = Some y"
      using step1 [unfolded if_not_P [OF False]] by (auto simp only: bind_eq_Some_conv prod.case split_paired_Ex)
    have k: "others_kept content f (g_srv g) s1"
    proof (cases "wbh_NumInfo h = 0 \<and> \<not> ign")
      case no: False
      show ?thesis by (rule flush_infos_others [OF srv b(2) [unfolded if_not_P [OF no] fh]])
    qed (use b(2) in auto)
    have g1: "g_srv g1 = s1" "g_NFSGlobal g1 = g_NFSGlobal g" using ReleaseWBuf_srv [OF b(3)] by simp_all
    show ?thesis
    proof (cases r)
      case (Inl res2)
      then obtain z where z: "release_all g1 w1 = Some z" "y = (Inl res2, z)" using b(4) by (auto simp: bind_eq_Some_conv)
      show ?thesis using release_all_srv [OF z(1)] k g1 z(2) by simp
    next
      case (Inr u)
      then have l: "loop rpc ign fh g1 w1 = Some y" using b(4) by simp
      have "others_kept content f (g_srv g1) (g_srv (fst (snd y)))"
        by (rule IH [OF l, rule_format]) (simp_all only: fh g1 srv)
      then show ?thesis using others_kept_trans [OF k] g1 by simp
    qed
  qed
qed

lemma wc_FlushCache_others:
  assumes "efh_fh g e = Some f" and "wserver_ok rpc content (g_NFSGlobal g)" and "wc_FlushCache rpc g e = Some (r, g', e')"
  shows "others_kept content f (g_srv g) (g_srv g')"
  using assms(3) flush_loop_others [of rpc False "efh_fh g e" g "efh_WBuf e" _ f content] assms(1,2)
  by (auto simp: wc_FlushCache_def iwc_FlushCache_def bind_eq_Some_conv)

subsection \<open>All open files\<close>

text \<open>The handles \<open>hs\<close>, the file \<open>F p\<close> and the dirty headers \<open>A p\<close> of each.\<close>

definition file_at :: "'srv global \<Rightarrow> addr \<Rightarrow> nfs_fh \<Rightarrow> addr list \<Rightarrow> bool" where
  "file_at g p f as \<longleftrightarrow> (\<exists>e. hp_efh g p = Some e \<and> efh_fh g e = Some f \<and>
     (case efh_WBuf e of None \<Rightarrow> as = [] | Some w \<Rightarrow> cluster g w as))"

definition files_ok ::
  "'srv global \<Rightarrow> addr list \<Rightarrow> (addr \<Rightarrow> nfs_fh) \<Rightarrow> (addr \<Rightarrow> addr list) \<Rightarrow> addr list \<Rightarrow> addr list \<Rightarrow> bool" where
  "files_ok g hs F A fs rbs \<longleftrightarrow> fh_inv g hs \<and> wpool g (concat (map A hs)) fs rbs \<and>
     (\<forall>p\<in>set hs. file_at g p (F p) (A p))"

lemma wpool_perm:
  assumes p: "wpool g us fs rbs" and m: "mset us = mset us'"
  shows "wpool g us' fs rbs"
proof -
  have "mset (map (hdata g) us @ rbs) = mset (map (hdata g) us' @ rbs)" using m by simp
  then have "mb_inv g (map (hdata g) us' @ rbs)" using p mb_inv_perm unfolding wpool_def by blast
  moreover have "distinct us' = distinct us" "set us' = set us" "length us' = length us"
    using mset_eq_imp_distinct_iff [OF m] mset_eq_setD [OF m] mset_eq_length [OF m] by auto
  ultimately show ?thesis using p by (simp add: wpool_def)
qed

lemma mset_concat_split: "p \<in> set hs \<Longrightarrow> mset (concat (map A hs)) = mset (A p @ concat (map A (remove1 p hs)))"
  by (induction hs) auto

lemma concat_upd: "p \<notin> set qs \<Longrightarrow> concat (map (A(p := x)) qs) = concat (map A qs)"
  by (induction qs) auto

text \<open>What flushing a handle leaves alone.\<close>

definition flush_same :: "'srv global \<Rightarrow> 'srv global \<Rightarrow> bool" where
  "flush_same g g' \<longleftrightarrow> fh_next g' = fh_next g \<and> g_NFSGlobal g' = g_NFSGlobal g"

definition pending :: "'srv global \<Rightarrow> addr \<Rightarrow> int" where
  "pending g p = efh_Res2 (the (hp_efh g p))"

definition flushed :: "('srv \<Rightarrow> nfs_fh \<Rightarrow> int \<Rightarrow> u8) \<Rightarrow> (addr \<Rightarrow> nfs_fh) \<Rightarrow> (addr \<Rightarrow> addr list) \<Rightarrow> 'srv global \<Rightarrow> addr list \<Rightarrow>
    nfs_fh \<Rightarrow> int \<Rightarrow> u8" where
  "flushed content F A g hs = foldl (\<lambda>c p. c(F p := wview g (A p) (c (F p)))) (content (g_srv g)) hs"

lemma FlushProc_ok:
  assumes ok: "files_ok g hs F A fs rbs" and p: "p \<in> set hs" and srv: "wserver_ok rpc content (g_NFSGlobal g)"
    and nz: "writes_fail_nonzero rpc"
  shows "\<exists>g' fs'. FlushProc rpc p g = Some (1, g') \<and> files_ok g' hs F (A(p := [])) fs' rbs \<and> flush_same g g' \<and>
    (\<forall>q\<in>set hs. q \<noteq> p \<longrightarrow> hp_efh g' q = hp_efh g q \<and> (\<forall>c. wview g' (A q) c = wview g (A q) c)) \<and>
    (pending g' p \<noteq> 0 \<or> pending g' p = pending g p \<and>
       content (g_srv g') = (content (g_srv g))(F p := wview g (A p) (content (g_srv g) (F p)))) \<and>
    others_kept content (F p) (g_srv g) (g_srv g')"
proof -
  obtain e where e: "hp_efh g p = Some e" "efh_fh g e = Some (F p)" "case efh_WBuf e of None \<Rightarrow> A p = [] | Some w \<Rightarrow> cluster g w (A p)"
    using ok p unfolding files_ok_def file_at_def by blast
  have inv: "fh_inv g hs" and pool: "wpool g (concat (map A hs)) fs rbs" using ok by (simp_all add: files_ok_def)
  have dist: "distinct hs" using inv unfolding fh_inv_def distinct_map by blast
  let ?os = "concat (map A (remove1 p hs))"
  have wf: "wfile g e (F p) (A p) ?os fs rbs"
    using wpool_perm [OF pool mset_concat_split [OF p]] e(2,3) by (simp add: wfile_def)
  have pnot: "p \<notin> set (remove1 p hs)" using dist by simp
  have rest: "set hs = insert p (set (remove1 p hs))" using dist p by auto
  show ?thesis
  proof (cases "HasBufferedWData e")
    case False
    then have as: "A p = []" using not_HasBufferedWData [OF wf] by simp
    then have "A(p := []) = A" by (simp add: fun_upd_idem)
    then show ?thesis using False e(1) as ok by (auto simp: FlushProc_def flush_same_def)
  next
    case True
    obtain r g1 e1 where fl: "wc_FlushCache rpc g e = Some (r, g1, e1)" "wfile g1 e1 (F p) [] ?os (rev (A p) @ fs) rbs"
      "wframe ?os rbs g g1" "efh_same e e1" "r = Inr () \<longrightarrow> content (g_srv g1) = seen content (F p) g (A p)"
      using iwc_FlushCache_spec [OF srv wf, of False] unfolding wc_FlushCache_def by blast
    define e2 where "e2 = (case r of Inl res2 \<Rightarrow> e1\<lparr>efh_Res2 := res2\<rparr> | Inr _ \<Rightarrow> e1)"
    define g2 where "g2 = (case r of Inl res2 \<Rightarrow> snd (SetRes DOSFALSE res2 (put_efh p e2 g1)) | Inr _ \<Rightarrow> put_efh p e2 g1)"
    have run: "FlushProc rpc p g = Some (1, g2)"
      using e(1) True fl(1) by (simp add: FlushProc_def g2_def e2_def split: sum.split)
    have g2: "hp_wbh g2 = hp_wbh g1" "mb_data g2 = mb_data g1" "g_srv g2 = g_srv g1" "hp_elock g2 = hp_elock g1" "hp_efh g2 = (hp_efh g1)(p \<mapsto> e2)"
      "g_FH g2 = g_FH g1" "fh_LastId g2 = fh_LastId g1" "g_NFSGlobal g2 = g_NFSGlobal g1"
      by (simp_all add: g2_def SetRes_def put_efh_def split: sum.split)
    have same: "hp_efh g1 = hp_efh g" "g_FH g1 = g_FH g" "fh_LastId g1 = fh_LastId g" "hp_elock g1 = hp_elock g" "g_NFSGlobal g1 = g_NFSGlobal g"
      using fl(3) by (simp_all add: wframe_def wconf_same_def)
    have keep: "\<And>a. a \<in> set ?os \<Longrightarrow> hp_wbh g1 a = hp_wbh g a \<and> mb_data g1 (hdata g a) = mb_data g (hdata g a)"
      using fl(3) unfolding wframe_def by blast
    note ef = efh_same_fields [OF fl(4)]
    have e2: "efh_Next e2 = efh_Next e" "efh_Id e2 = efh_Id e" "efh_ELock e2 = efh_ELock e" "efh_WBuf e2 = efh_WBuf e1"
      using ef by (simp_all add: e2_def split: sum.split)
    have nx: "fh_next g2 = fh_next g" "fh_id g2 = fh_id g"
      using e(1) e2(1,2) same(1) by (auto simp: fh_next_def fh_id_def fun_eq_iff g2(5))
    have inv2: "fh_inv g2 hs" using inv nx g2(6,7) same(2,3) by (simp add: fh_inv_def fh_members_def)
    have pool1: "wpool g1 ?os (rev (A p) @ fs) rbs" using fl(2) by (simp add: wfile_def)
    have "wpool g2 ?os (rev (A p) @ fs) rbs" using pool1 by (simp add: g2_def SetRes_def put_efh_def wpool_def mb_inv_def nxt_def [abs_def] hdr_at_def [abs_def] split: sum.split)
    moreover have "mset (concat (map (A(p := [])) hs)) = mset ?os"
      using mset_concat_split [OF p, of "A(p := [])"] concat_upd [OF pnot, of A "[]"] by simp
    ultimately have pool2: "wpool g2 (concat (map (A(p := [])) hs)) (rev (A p) @ fs) rbs" using wpool_perm by metis
    have member: "file_at g2 q (F q) ((A(p := [])) q)" if q: "q \<in> set hs" for q
    proof (cases "q = p")
      case True
      have "case efh_WBuf e1 of None \<Rightarrow> True | Some w \<Rightarrow> cluster g1 w []" using fl(2) by (auto simp: wfile_def split: option.splits)
      then show ?thesis using True e(2) e2(3,4) g2(4,5) same(4) by (auto simp: file_at_def efh_fh_def cluster_def split: option.splits)
    next
      case False
      obtain e' where e': "hp_efh g q = Some e'" "efh_fh g e' = Some (F q)" "case efh_WBuf e' of None \<Rightarrow> A q = [] | Some w \<Rightarrow> cluster g w (A q)"
        using ok q unfolding files_ok_def file_at_def by blast
      have "q \<in> set (remove1 p hs)" using q False rest by blast
      then have sub: "set (A q) \<subseteq> set ?os" by auto
      have cl: "cluster g2 w (A q) = cluster g w (A q)" for w
      proof (rule cluster_cong)
        fix a assume "a \<in> set (A q)"
        then have "hp_wbh g1 a = hp_wbh g a" using keep sub by blast
        then show "hp_wbh g2 a = hp_wbh g a" by (simp add: g2(1))
      qed
      show ?thesis using e' False g2(4,5) same cl unfolding file_at_def by (simp add: efh_fh_def cong: option.case_cong)
    qed
    have c1: "files_ok g2 hs F (A(p := [])) (rev (A p) @ fs) rbs" using inv2 pool2 member unfolding files_ok_def by blast
    have c2: "flush_same g g2" using nx(1) g2(8) same(5) by (simp add: flush_same_def)
    have c3: "hp_efh g2 q = hp_efh g q \<and> (\<forall>c. wview g2 (A q) c = wview g (A q) c)" if q: "q \<in> set hs" "q \<noteq> p" for q
    proof -
      have "q \<in> set (remove1 p hs)" using q rest by blast
      then have sub: "set (A q) \<subseteq> set ?os" by auto
      have "wview g2 (A q) c = wview g (A q) c" for c
      proof (rule wview_cong)
        fix a assume "a \<in> set (A q)"
        then have "hp_wbh g1 a = hp_wbh g a \<and> mb_data g1 (hdata g a) = mb_data g (hdata g a)" using keep sub by blast
        then have "hp_wbh g2 a = hp_wbh g a" "mb_data g2 (hdata g a) = mb_data g (hdata g a)" by (simp_all add: g2(1,2))
        then show "wbh_FileOffs (hdr_at g2 a) = wbh_FileOffs (hdr_at g a) \<and> wbh_NumInfo (hdr_at g2 a) = wbh_NumInfo (hdr_at g a) \<and>
          wbh_Info (hdr_at g2 a) = wbh_Info (hdr_at g a) \<and> mb_data g2 (hdata g2 a) = mb_data g (hdata g a)"
          by (simp add: hdr_at_def)
      qed
      then show ?thesis using q(2) g2(5) same(1) by simp
    qed
    have c4: "pending g2 p \<noteq> 0 \<or> pending g2 p = pending g p \<and>
       content (g_srv g2) = (content (g_srv g))(F p := wview g (A p) (content (g_srv g) (F p)))"
    proof (cases r)
      case (Inl res2)
      have "res2 \<noteq> 0" using wc_FlushCache_nonzero [OF nz _ fl(1)] srv Inl by (auto simp: wserver_ok_def)
      then show ?thesis using Inl by (simp add: pending_def g2(5) e2_def)
    next
      case (Inr u)
      then show ?thesis using fl(5) ef e(1) by (simp add: pending_def g2(3,5) e2_def seen_def)
    qed
    have c5: "others_kept content (F p) (g_srv g) (g_srv g2)"
      using wc_FlushCache_others [OF e(2) srv fl(1)] by (simp add: g2(3))
    show ?thesis
      by (rule exI [of _ g2], rule exI [of _ "rev (A p) @ fs"], intro conjI run c1 c2 c4 c5 ballI impI) (use c3 in blast)+
  qed
qed

lemma files_ok_cong:
  "(\<And>p. p \<in> set hs \<Longrightarrow> A p = A' p) \<Longrightarrow> files_ok g hs F A fs rbs = files_ok g hs F A' fs rbs"
  by (simp add: files_ok_def cong: map_cong)

lemma files_ok_res: "files_ok (g\<lparr>g_Res1 := x\<rparr>) hs F A fs rbs = files_ok g hs F A fs rbs"
proof -
  have n: "fh_next (g\<lparr>g_Res1 := x\<rparr>) = fh_next g" "fh_id (g\<lparr>g_Res1 := x\<rparr>) = fh_id g" "nxt (g\<lparr>g_Res1 := x\<rparr>) = nxt g"
    "hdr_at (g\<lparr>g_Res1 := x\<rparr>) = hdr_at g"
    by (auto simp: fh_next_def fh_id_def nxt_def hdr_at_def fun_eq_iff)
  have "cluster (g\<lparr>g_Res1 := x\<rparr>) w as = cluster g w as" for w as by (simp add: cluster_def n)
  moreover have "fh_inv (g\<lparr>g_Res1 := x\<rparr>) hs = fh_inv g hs" by (simp add: fh_inv_def fh_members_def n)
  moreover have "wpool (g\<lparr>g_Res1 := x\<rparr>) us fs rbs = wpool g us fs rbs" for us by (simp add: wpool_def mb_inv_def n)
  ultimately show ?thesis by (simp add: files_ok_def file_at_def efh_fh_def cong: option.case_cong)
qed

lemma flushed_cong:
  "(\<And>q c. q \<in> set qs \<Longrightarrow> wview g' (A' q) c = wview g (A q) c) \<Longrightarrow>
     flushed content F A' g' qs = foldl (\<lambda>c p. c(F p := wview g (A p) (c (F p)))) (content (g_srv g')) qs"
  unfolding flushed_def by (rule foldl_cong) auto

text \<open>The value at one file depends on the value it had there.\<close>

lemma flushed_at:
  "c f = c' f \<Longrightarrow> foldl (\<lambda>c p. c(F p := wview g (A p) (c (F p)))) c qs f = foldl (\<lambda>c p. c(F p := wview g (A p) (c (F p)))) c' qs f"
proof (induction qs arbitrary: c c')
  case (Cons p qs)
  have "(c(F p := wview g (A p) (c (F p)))) f = (c'(F p := wview g (A p) (c' (F p)))) f" using Cons.prems by (cases "f = F p") simp_all
  then show ?case unfolding foldl.simps by (rule Cons.IH)
qed simp

text \<open>Every file none of whose handles has an error pending is on the server as it was written.\<close>

definition flushed_unless_pending :: "('srv \<Rightarrow> nfs_fh \<Rightarrow> int \<Rightarrow> u8) \<Rightarrow> (addr \<Rightarrow> nfs_fh) \<Rightarrow> (addr \<Rightarrow> addr list) \<Rightarrow>
    'srv global \<Rightarrow> addr list \<Rightarrow> 'srv global \<Rightarrow> bool" where
  "flushed_unless_pending content F A g hs g' \<longleftrightarrow>
     (\<forall>f. (\<forall>p\<in>set hs. F p = f \<longrightarrow> pending g' p = 0) \<longrightarrow> content (g_srv g') f = flushed content F A g hs f)"

lemma flush_all_ok:
  assumes nz: "writes_fail_nonzero rpc"
  shows "links (fh_next g) a qs \<Longrightarrow> set qs \<subseteq> set hs \<Longrightarrow> files_ok g hs F A fs rbs \<Longrightarrow>
    wserver_ok rpc content (g_NFSGlobal g) \<Longrightarrow>
    \<exists>g' fs'. fh_each_loop (FlushProc rpc) a g = Some g' \<and> files_ok g' hs F (\<lambda>p. if p \<in> set qs then [] else A p) fs' rbs \<and>
      (\<forall>q\<in>set hs - set qs. hp_efh g' q = hp_efh g q) \<and>
      flushed_unless_pending content F A g qs g'"
proof (induction qs arbitrary: a g A fs)
  case Nil
  then show ?case by (subst fh_each_loop.simps) (auto simp: flushed_def flushed_unless_pending_def)
next
  case (Cons p qs)
  obtain n where ch: "a = p" "p \<noteq> NULL" and n: "fh_next g p = Some n" "links (fh_next g) n qs" and pq: "p \<notin> set qs"
    using Cons.prems(1) by (auto simp: links_Cons)
  have p: "p \<in> set hs" "p \<notin> set qs" using Cons.prems(2) pq by auto
  obtain g1 fs1 where f: "FlushProc rpc p g = Some (1, g1)" "files_ok g1 hs F (A(p := [])) fs1 rbs" "flush_same g g1"
    "\<forall>q\<in>set hs. q \<noteq> p \<longrightarrow> hp_efh g1 q = hp_efh g q \<and> (\<forall>c. wview g1 (A q) c = wview g (A q) c)"
    "pending g1 p \<noteq> 0 \<or> pending g1 p = pending g p \<and>
       content (g_srv g1) = (content (g_srv g))(F p := wview g (A p) (content (g_srv g) (F p)))"
    "others_kept content (F p) (g_srv g) (g_srv g1)"
    using FlushProc_ok [OF Cons.prems(3) p(1) Cons.prems(4) nz] by blast
  have ch1: "links (fh_next g1) n qs" and srv1: "wserver_ok rpc content (g_NFSGlobal g1)"
    using n(2) f(3) Cons.prems(4) by (simp_all add: flush_same_def)
  have d: "set qs \<subseteq> set hs" using Cons.prems(2) by auto
  obtain g2 fs2 where r: "fh_each_loop (FlushProc rpc) n g1 = Some g2"
    "files_ok g2 hs F (\<lambda>q. if q \<in> set qs then [] else (A(p := [])) q) fs2 rbs"
    "\<forall>q\<in>set hs - set qs. hp_efh g2 q = hp_efh g1 q"
    "flushed_unless_pending content F (A(p := [])) g1 qs g2"
    using Cons.IH [OF ch1 d f(2) srv1] by blast
  have run: "fh_each_loop (FlushProc rpc) a g = Some g2" using ch n f(1) r(1) by (subst fh_each_loop.simps) simp
  have "(\<lambda>q. if q \<in> set qs then [] else (A(p := [])) q) = (\<lambda>q. if q \<in> set (p # qs) then [] else A q)" by auto
  then have ok: "files_ok g2 hs F (\<lambda>q. if q \<in> set (p # qs) then [] else A q) fs2 rbs" using r(2) by simp
  have efh: "\<forall>q\<in>set hs - set (p # qs). hp_efh g2 q = hp_efh g q" using r(3) f(4) by auto
  have pend: "pending g2 p = pending g1 p" using r(3) p by (simp add: pending_def)
  have "flushed content F (A(p := [])) g1 qs = foldl (\<lambda>c p. c(F p := wview g (A p) (c (F p)))) (content (g_srv g1)) qs"
    by (rule flushed_cong) (use p(2) f(4) d in \<open>auto simp: subset_iff\<close>)
  then have fl: "flushed content F (A(p := [])) g1 qs = foldl (\<lambda>c p. c(F p := wview g (A p) (c (F p)))) (content (g_srv g1)) qs" .
  have "content (g_srv g2) f = flushed content F A g (p # qs) f" if none: "\<forall>q\<in>set (p # qs). F q = f \<longrightarrow> pending g2 q = 0" for f
  proof -
    have c1: "content (g_srv g1) f = ((content (g_srv g))(F p := wview g (A p) (content (g_srv g) (F p)))) f"
      using f(5,6) none pend by (cases "F p = f") (simp_all add: others_kept_def)
    have c2: "content (g_srv g2) f = flushed content F (A(p := [])) g1 qs f"
      using r(4) none by (simp add: flushed_unless_pending_def)
    show ?thesis unfolding c2 fl unfolding flushed_def foldl.simps using c1 by (rule flushed_at)
  qed
  then have "flushed_unless_pending content F A g (p # qs) g2" unfolding flushed_unless_pending_def by blast
  then show ?case using run ok efh by (intro exI [of _ g2] exI [of _ fs2]) simp
qed

text \<open>The whole of \<open>act_FLUSH\<close>.\<close>

lemma act_FLUSH_ok:
  assumes srv: "wserver_ok rpc content (g_NFSGlobal g)" and nz: "writes_fail_nonzero rpc" and ok: "files_ok g hs F A fs rbs"
  shows "\<exists>g' fs'. act_FLUSH rpc g = Some (DOSTRUE, g') \<and> files_ok g' hs F (\<lambda>_. []) fs' rbs \<and>
    flushed_unless_pending content F A g hs g'"
proof -
  have ch: "links (fh_next g) (g_FH g) hs" using ok by (simp add: files_ok_def fh_inv_def fh_members_def)
  obtain g1 fs1 where r: "fh_each_loop (FlushProc rpc) (g_FH g) g = Some g1" "files_ok g1 hs F (\<lambda>p. if p \<in> set hs then [] else A p) fs1 rbs"
     "flushed_unless_pending content F A g hs g1"
    using flush_all_ok [OF nz ch subset_refl ok srv] by blast
  let ?g = "g1\<lparr>g_Res1 := DOSTRUE\<rparr>"
  have run: "act_FLUSH rpc g = Some (DOSTRUE, ?g)" using r(1) by (simp add: act_FLUSH_def fh_ForEach_def SetRes1_def)
  have "files_ok g1 hs F (\<lambda>_. []) fs1 rbs" using r(2) by (subst files_ok_cong [of hs _ "\<lambda>p. if p \<in> set hs then [] else A p"]) simp_all
  then have "files_ok ?g hs F (\<lambda>_. []) fs1 rbs" by (simp only: files_ok_res)
  moreover have "pending ?g = pending g1" by (simp add: pending_def fun_eq_iff)
  then have "flushed_unless_pending content F A g hs ?g" using r(3) by (simp add: flushed_unless_pending_def)
  ultimately show ?thesis using run by (intro exI [of _ ?g] exI [of _ fs1]) simp
qed


lemma run_files_ok: "files_ok run_files [7] (\<lambda>_. [7]) (\<lambda>_. []) [10, 20] []"
  using run_open_file by (simp add: open_file_def file_ok_def wfile_def files_ok_def file_at_def rheld_def run_open_def rb_CreateRBuf_def)

lemma mem_rpc_nonzero: "writes_fail_nonzero mem_rpc"
  by (auto simp: writes_fail_nonzero_def clnt_fails_nonzero_def mem_rpc_def)


end
