(* ===== verification/Objects.thy ===== *)
theory Objects
  imports Find LocateDir Dispatch
begin

text \<open>
  The actions on names: deleting, creating and renaming objects and changing the mode of a lock
  (src/src/object.c), changing attributes (src/src/attr.c), links (src/src/link.c) and information
  on the volume (src/src/info.c). Most locate the directory of the object first; \<open>at_dir\<close> is
  this common beginning. A variable that is not yet set has the value of \<open>g_Res2\<close>.
\<close>

unbundle bit_operations_syntax

abbreviation (input) ERROR_BAD_NUMBER :: int where "ERROR_BAD_NUMBER \<equiv> 115"
abbreviation (input) ERROR_FILE_NOT_OBJECT :: int where "ERROR_FILE_NOT_OBJECT \<equiv> 208"
abbreviation (input) CHANGE_LOCK :: int where "CHANGE_LOCK \<equiv> 0"
abbreviation (input) CHANGE_FH :: int where "CHANGE_FH \<equiv> 1"
abbreviation (input) LINK_HARD :: int where "LINK_HARD \<equiv> 0"
abbreviation (input) LINK_SOFT :: int where "LINK_SOFT \<equiv> 1"
abbreviation (input) ST_BDEVICE :: int where "ST_BDEVICE \<equiv> -10"
abbreviation (input) ST_CDEVICE :: int where "ST_CDEVICE \<equiv> -11"
abbreviation (input) ID_WRITE_PROTECTED :: int where "ID_WRITE_PROTECTED \<equiv> 80"
abbreviation (input) ID_VALIDATED :: int where "ID_VALIDATED \<equiv> 82"

text \<open>The body gets the directory entry, its file handle, the full name, the name and \<open>Res2\<close>. Without a
  directory \<open>LRootLocateDir\<close> stores no names. Where the code then leaves through a label that frees
  them and has not set its pointers to NULL (\<open>frees\<close>), it frees what happens to be on the stack: the
  undefined result \<open>None\<close>.\<close>

definition at_dir ::
  "'srv env \<Rightarrow> bool \<Rightarrow> addr \<Rightarrow> char list \<Rightarrow> (addr \<Rightarrow> nfs_fh \<Rightarrow> string \<Rightarrow> string \<Rightarrow> int \<Rightarrow> 'srv handler \<Rightarrow> (int \<times> 'srv handler) option) \<Rightarrow>
     'srv handler \<Rightarrow> (int \<times> 'srv handler) option" where
  "at_dir env frees fl bs body w =
     do {
       (D, nm, r, w1) \<leftarrow> LRootLocateDir env fl bs False (g_Res2 (h_g w)) w;
       (case nm of
          None \<Rightarrow> if frees then None else Some (h_SetRes DOSFALSE r w1)
        | Some (FullName, NameBuf, _) \<Rightarrow>
            do {
              d \<leftarrow> hp_dce (dc_store (h_dirs w1)) D;
              body D (dce_NFSFh d) FullName (cstr_of NameBuf) r w1
            })
     }"

text \<open>\<open>SetRes1(DOSTRUE)\<close> when the call succeeds, else its error.\<close>

definition set_result :: "(int + 'a) \<times> 'srv \<Rightarrow> 'srv handler \<Rightarrow> int \<times> 'srv handler" where
  "set_result r w =
     (case r of (Inl e, s) \<Rightarrow> h_SetRes DOSFALSE e (put_srv s w) | (Inr _, s) \<Rightarrow> h_SetRes1 DOSTRUE (put_srv s w))"

subsection \<open>Deleting, creating, renaming\<close>

definition delete_name :: "'srv env \<Rightarrow> addr \<Rightarrow> nfs_fh \<Rightarrow> string \<Rightarrow> addr \<Rightarrow> nentry \<Rightarrow> 'srv handler \<Rightarrow> (int \<times> 'srv handler) option" where
  "delete_name env D fh Name NE ne w =
     do {
       let (r1, w1) = set_result (if ne_FType ne = NFDIR then nfs_RmDir (e_nfs env) fh Name (g_srv (h_g w))
                                  else nfs_Remove (e_nfs env) fh Name (g_srv (h_g w))) w;
       dc1 \<leftarrow> (if ne_FType ne = NFDIR then dc_DCEDeleteFromFileId (h_dirs w1) (ne_FileId ne) else Some (h_dirs w1));
       a1 \<leftarrow> attrs_Delete (h_attrs w1) (ne_FileId ne);
       dc2 \<leftarrow> dc_NERemove dc1 D NE;
       Some (r1, w1\<lparr>h_dirs := dc2, h_attrs := a1\<rparr>)
     }"

definition act_DELETE_OBJECT :: "'srv env \<Rightarrow> addr \<Rightarrow> char list \<Rightarrow> 'srv handler \<Rightarrow> (int \<times> 'srv handler) option" where
  "act_DELETE_OBJECT env fl bs =
     at_dir env True fl bs (\<lambda>D fh FullName Name r w.
       do {
         (NE, ACE, r1, w1) \<leftarrow> GetNameEntry env D Name True r w;
         (if NE = NULL then Some (h_SetRes DOSFALSE r1 w1)
          else do {
            ne \<leftarrow> hp_ne (dc_store (h_dirs w1)) NE;
            old \<leftarrow> lock_LookupFromKey (ne_FileId ne) (h_g w1);
            (if old \<noteq> NULL then Some (h_SetRes DOSFALSE ERROR_OBJECT_IN_USE w1)
             else delete_name env D fh Name NE ne w1)
          })
       })"

text \<open>The lock of a new directory is an exclusive one.\<close>

definition act_CREATE_DIR :: "'srv env \<Rightarrow> addr \<Rightarrow> char list \<Rightarrow> 'srv handler \<Rightarrow> (int \<times> 'srv handler) option" where
  "act_CREATE_DIR env fl bs =
     at_dir env True fl bs (\<lambda>D fh FullName Name r w.
       (case nfs_MkDir (e_nfs env) fh Name (cr_UID w) (cr_GID w) (nfsc_ApplyUMask w 0x1FF) (g_srv (h_g w)) of
          (Inl e, s) \<Rightarrow> Some (h_SetRes DOSFALSE e (put_srv s w))
        | (Inr dir, s) \<Rightarrow>
            let w1 = put_srv s w; (m, ok) = e_lock env (h_tick w1) (hp_elock (h_g w1));
                (n, g1) = lock_Create m ok FullName Name NFDIR EXCLUSIVE_LOCK (h_g w1); w2 = tick 1 (w1\<lparr>h_g := g1\<rparr>)
            in if n = NULL then Some (h_SetRes DOSFALSE ERROR_NO_FREE_STORE w2)
               else do {
                 l \<leftarrow> hp_elock g1 n;
                 g2 \<leftarrow> lock_Insert n (g1\<lparr>hp_elock := (hp_elock g1)(n \<mapsto>
                         l\<lparr>efl_NFSFh := dr_file dir, fl_Key := fa_fileid (dr_attributes dir)\<rparr>)\<rparr>);
                 Some (h_SetRes1 (int n) (w2\<lparr>h_g := g2\<rparr>))
               }))"

definition rename_name :: "'srv env \<Rightarrow> addr \<Rightarrow> nfs_fh \<Rightarrow> string \<Rightarrow> nfs_fh \<Rightarrow> string \<Rightarrow> addr \<Rightarrow> nentry \<Rightarrow> 'srv handler \<Rightarrow>
    (int \<times> 'srv handler) option" where
  "rename_name env D1 fh1 Name1 fh2 Name2 NE ne w =
     (case nfs_Rename (e_nfs env) fh1 Name1 fh2 Name2 (g_srv (h_g w)) of
        (Inl e, s) \<Rightarrow> Some (h_SetRes DOSFALSE e (put_srv s w))
      | (Inr _, s) \<Rightarrow>
          do {
            dc1 \<leftarrow> dc_DCEDeleteFromFileId (h_dirs w) (ne_FileId ne);
            a1 \<leftarrow> attrs_Delete (h_attrs w) (ne_FileId ne);
            dc2 \<leftarrow> dc_NERemove dc1 D1 NE;
            Some (h_SetRes1 DOSTRUE ((put_srv s w)\<lparr>h_dirs := dc2, h_attrs := a1\<rparr>))
          })"

text \<open>The entry of the first directory is looked at again after the second walk.\<close>

definition act_RENAME_OBJECT ::
  "'srv env \<Rightarrow> addr \<Rightarrow> char list \<Rightarrow> addr \<Rightarrow> char list \<Rightarrow> 'srv handler \<Rightarrow> (int \<times> 'srv handler) option" where
  "act_RENAME_OBJECT env fl1 bs1 fl2 bs2 =
     at_dir env False fl1 bs1 (\<lambda>D1 _ _ Name1 r1 w1.
       do {
         (D2, nm2, r2, w2) \<leftarrow> LRootLocateDir env fl2 bs2 False r1 w1;
         (case nm2 of
            None \<Rightarrow> Some (h_SetRes DOSFALSE r2 w2)
          | Some (_, NameBuf2, _) \<Rightarrow>
              do {
                (NE, ACE, r3, w3) \<leftarrow> GetNameEntry env D1 Name1 True r2 w2;
                (if NE = NULL then Some (h_SetRes DOSFALSE r3 w3)
                 else do {
                   ne \<leftarrow> hp_ne (dc_store (h_dirs w3)) NE;
                   old \<leftarrow> lock_LookupFromKey (ne_FileId ne) (h_g w3);
                   (if old \<noteq> NULL then Some (h_SetRes DOSFALSE ERROR_OBJECT_IN_USE w3)
                    else do {
                      d1 \<leftarrow> hp_dce (dc_store (h_dirs w3)) D1;
                      d2 \<leftarrow> hp_dce (dc_store (h_dirs w3)) D2;
                      rename_name env D1 (dce_NFSFh d1) Name1 (dce_NFSFh d2) (cstr_of NameBuf2) NE ne w3
                    })
                 })
              })
       })"

definition act_CREATE_OBJECT :: "'srv env \<Rightarrow> addr \<Rightarrow> char list \<Rightarrow> int \<Rightarrow> int \<Rightarrow> 'srv handler \<Rightarrow> (int \<times> 'srv handler) option" where
  "act_CREATE_OBJECT env fl bs Type subtype1 w0 =
     (if Type \<noteq> ST_BDEVICE \<and> Type \<noteq> ST_CDEVICE then Some (h_SetRes DOSFALSE ERROR_BAD_NUMBER w0)
      else at_dir env True fl bs (\<lambda>D fh FullName Name r w.
        Some (set_result (nfs_Create (e_nfs env) fh Name (cr_UID w) (cr_GID w) (nfsc_ApplyUMask w 0x1FF) (ULONG_of subtype1)
                (g_srv (h_g w))) w)) w0)"

subsection \<open>Changing the mode of a lock\<close>

definition change_access :: "addr \<Rightarrow> int \<Rightarrow> 'srv handler \<Rightarrow> (int \<times> 'srv handler) option" where
  "change_access a NewMode w =
     do {
       l \<leftarrow> hp_elock (h_g w) a;
       (if fl_Access l = NewMode then Some (h_SetRes1 DOSTRUE w)
        else do {
          n \<leftarrow> lock_NumLocksFromKey (fl_Key l) (h_g w);
          Some (if n > 1 then h_SetRes DOSFALSE ERROR_OBJECT_IN_USE w
                else h_SetRes1 DOSTRUE (w\<lparr>h_g := (h_g w)\<lparr>hp_elock := (hp_elock (h_g w))(a \<mapsto> l\<lparr>fl_Access := NewMode\<rparr>)\<rparr>\<rparr>))
        })
     }"

text \<open>\<open>FhArg1\<close> is \<open>fh->fh_Arg1\<close> when the object is a file handle, \<open>fl\<close> the object when it is a lock.\<close>

definition act_CHANGE_MODE :: "int \<Rightarrow> int \<Rightarrow> addr \<Rightarrow> int \<Rightarrow> 'srv handler \<Rightarrow> (int \<times> 'srv handler) option" where
  "act_CHANGE_MODE ObjType FhArg1 fl NewMode w =
     (if \<not> (ObjType = CHANGE_FH \<or> ObjType \<noteq> CHANGE_LOCK) \<or> \<not> (NewMode = SHARED_LOCK \<or> NewMode = EXCLUSIVE_LOCK)
      then Some (h_SetRes DOSFALSE ERROR_OBJECT_WRONG_TYPE w)
      else if ObjType = CHANGE_FH then
        do {
          p \<leftarrow> fh_Lookup FhArg1 (h_g w);
          (if p = NULL then Some (h_SetRes DOSFALSE ERROR_FILE_NOT_OBJECT w)
           else do {
             e \<leftarrow> hp_efh (h_g w) p;
             change_access (efh_ELock e) NewMode w
           })
        }
      else if ObjType = CHANGE_LOCK then
        do {
          a \<leftarrow> lock_Lookup fl (h_g w);
          (if a = NULL then Some (h_SetRes DOSFALSE ERROR_FILE_NOT_OBJECT w) else change_access a NewMode w)
        }
      else Some (g_Res1 (h_g w), w))"

subsection \<open>Changing attributes\<close>

text \<open>The three actions differ in the call that changes the attributes.\<close>

definition set_attrs ::
  "'srv env \<Rightarrow> addr \<Rightarrow> char list \<Rightarrow> (nfs_fh \<Rightarrow> 'srv \<Rightarrow> (int + fattr) \<times> 'srv) \<Rightarrow> 'srv handler \<Rightarrow> (int \<times> 'srv handler) option" where
  "set_attrs env fl bs change =
     at_dir env False fl bs (\<lambda>D fh FullName Name r w.
       do {
         (res, s) \<leftarrow> nfs_Lookup (e_nfs env) fh Name (ng_MaxReadDirSize (g_NFSGlobal (h_g w))) r (g_srv (h_g w));
         let w1 = put_srv s w;
         (case res of
            Inl e \<Rightarrow>
              do {
                d \<leftarrow> hp_dce (dc_store (h_dirs w1)) D;
                a1 \<leftarrow> attrs_Delete (h_attrs w1) (dce_FileId d);
                Some (h_SetRes DOSFALSE e (w1\<lparr>h_attrs := a1\<rparr>))
              }
          | Inr dres \<Rightarrow>
              (case change (dr_file dres) (g_srv (h_g w1)) of
                 (Inr newattr, s2) \<Rightarrow>
                   let t = h_tick w1; w2 = tick 2 (put_srv s2 w1) in
                   map_option (\<lambda>(_, a1). h_SetRes1 DOSTRUE (w2\<lparr>h_attrs := a1\<rparr>))
                     (attrs_Update (e_ace env t (hp_ace (h_attrs w1))) (e_clk env t) (e_clk env (t + 1)) (h_attrs w1) (dr_file dres) newattr)
               | (Inl e, s2) \<Rightarrow>
                   map_option (\<lambda>a1. h_SetRes DOSFALSE e ((put_srv s2 w1)\<lparr>h_attrs := a1\<rparr>))
                     (attrs_Delete (h_attrs w1) (fa_fileid (dr_attributes dres)))))
       })"

text \<open>\<open>au_Protection2umode\<close> is a function of a library.\<close>

definition act_SET_PROTECT :: "'srv env \<Rightarrow> (int \<Rightarrow> u32) \<Rightarrow> addr \<Rightarrow> char list \<Rightarrow> int \<Rightarrow> 'srv handler \<Rightarrow> (int \<times> 'srv handler) option" where
  "act_SET_PROTECT env au_Protection2umode fl bs Mask =
     set_attrs env fl bs (\<lambda>fh. nfs_Chmod (e_nfs env) fh (au_Protection2umode Mask))"

definition act_SET_DATE :: "'srv env \<Rightarrow> addr \<Rightarrow> char list \<Rightarrow> datestamp \<Rightarrow> 'srv handler \<Rightarrow> (int \<times> 'srv handler) option" where
  "act_SET_DATE env fl bs ds = set_attrs env fl bs (\<lambda>fh. nfs_SetTimes (e_nfs env) fh (DateStamp2timeval ds))"

definition act_SET_OWNER :: "'srv env \<Rightarrow> addr \<Rightarrow> char list \<Rightarrow> u32 \<Rightarrow> 'srv handler \<Rightarrow> (int \<times> 'srv handler) option" where
  "act_SET_OWNER env fl bs OwnerGroup =
     (let Owner = drop_bit 16 OwnerGroup AND 0xFFFF; Group = OwnerGroup AND 0xFFFF
      in set_attrs env fl bs (\<lambda>fh. nfs_SetUidGid (e_nfs env) fh Owner Group))"

subsection \<open>Links\<close>

text \<open>The results of \<open>PathWalk\<close>: 2 for a soft link, with the path that replaces the one asked for, 1
  for no link, 0 for an error, -1 when the buffer is too small. The string is the contents of \<open>LinkPath\<close> when
  the walk ends with it set.\<close>

partial_function (option) path_walk_loop ::
  "'srv env \<Rightarrow> string \<Rightarrow> nat \<Rightarrow> char list \<Rightarrow> nat \<Rightarrow> addr \<Rightarrow> int \<Rightarrow> 'srv handler \<Rightarrow> (int \<times> int \<times> string option \<times> 'srv handler) option" where
  "path_walk_loop env FullName BufLen WorkPath Pos ParDir Res2 w =
     do {
       (p, WorkPath1, Pos1, LastElement) \<leftarrow> fn_ScanPath WorkPath Pos False;
       (if WorkPath1 ! p = SL then Some (0, Res2, None, w)
        else do {
          let PComp = cstr_of (drop p WorkPath1);
          (NE, ACE, r1, w1) \<leftarrow> GetNameEntry env ParDir PComp True Res2 w;
          (if NE = NULL then Some (0, r1, None, w1)
           else do {
             ne \<leftarrow> hp_ne (dc_store (h_dirs w1)) NE;
             (if ne_FType ne \<noteq> NFDIR \<and> ne_FType ne \<noteq> NFLNK then Some (0, ERROR_INVALID_COMPONENT_NAME, None, w1)
              else do {
                ace \<leftarrow> hp_ace (h_attrs w1) ACE;
                (if ne_FType ne = NFLNK then
                   (case nfs_ReadLink (e_nfs env) (ace_NFSFh ace) (g_srv (h_g w1)) of
                      (Inl e, s) \<Rightarrow> Some (0, e, None, put_srv s w1)
                    | (Inr u_lpath, s) \<Rightarrow>
                        map_option (\<lambda>l. case l of
                            Inl e \<Rightarrow> (if e = ERROR_NO_FREE_STORE then -1 else 0, e, None, put_srv s w1)
                          | Inr LinkPath \<Rightarrow> (2, r1, Some LinkPath, put_srv s w1))
                          (fn_InsertLink (e_dos env) BufLen (Some (g_VolumeName w1)) FullName p (length PComp) u_lpath))
                 else do {
                   (D, r2, w2) \<leftarrow> GetDirEntry env NE DCE_ID_UNUSED (ace_NFSFh ace) r1 w1;
                   (if LastElement \<or> D = NULL then Some (1, r2, None, w2)
                    else path_walk_loop env FullName BufLen WorkPath1 Pos1 D r2 w2)
                 })
              })
           })
        })
     }"

declare path_walk_loop.simps [code]

definition PathWalk :: "'srv env \<Rightarrow> string \<Rightarrow> nat \<Rightarrow> int \<Rightarrow> 'srv handler \<Rightarrow> (int \<times> int \<times> string option \<times> 'srv handler) option" where
  "PathWalk env FullName BufLen Res2 w0 =
     (let t = h_tick w0; w = tick 1 w0 in
      if \<not> e_str env t then Some (0, ERROR_NO_FREE_STORE, None, w)
      else do {
        (D, r, w1) \<leftarrow> GetDirEntry env NULL (fa_fileid (g_MntAttr w)) (g_MntFh w) Res2 w;
        (if D = NULL then Some (0, r, None, w1)
         else if FullName \<noteq> [] then path_walk_loop env FullName BufLen (FullName @ [NUL]) 0 D r w1
         else Some (1, r, Some [], w1))
      })"

definition act_READ_LINK :: "'srv env \<Rightarrow> addr \<Rightarrow> string \<Rightarrow> int \<Rightarrow> 'srv handler \<Rightarrow> (int \<times> string option \<times> 'srv handler) option" where
  "act_READ_LINK env fl Path BufSize w0 =
     do {
       b \<leftarrow> CBuildFullName env fl Path w0;
       let w = tick 7 w0;
       (case b of
          Inl e \<Rightarrow> Some (let (r, w') = h_SetRes DOSFALSE e w in (r, None, w'))
        | Inr (FullName, _, _, _) \<Rightarrow>
            do {
              (Res, r2, Buf, w1) \<leftarrow> PathWalk env FullName (unat (ULONG_of BufSize)) (g_Res2 (h_g w0)) w;
              let (r, w') = (if Res = 2 then h_SetRes (int (length (the Buf))) 0 w1
                             else if Res = 1 then h_SetRes DOSFALSE ERROR_OBJECT_NOT_FOUND w1
                             else if Res = 0 then h_SetRes DOSFALSE r2 w1
                             else h_SetRes (-2) 0 w1);
              Some (r, Buf, w')
            })
     }"

definition do_act_MAKE_HARD_LINK :: "'srv env \<Rightarrow> addr \<Rightarrow> char list \<Rightarrow> addr \<Rightarrow> 'srv handler \<Rightarrow> (int \<times> 'srv handler) option" where
  "do_act_MAKE_HARD_LINK env fl1 bs1 fl2 w0 =
     do {
       dest \<leftarrow> lock_Lookup fl2 (h_g w0);
       (if dest = NULL then Some (h_SetRes DOSFALSE ERROR_INVALID_LOCK w0)
        else at_dir env False fl1 bs1 (\<lambda>D fh FullName Name r w.
          do {
            l \<leftarrow> hp_elock (h_g w) dest;
            Some (set_result (nfs_Link (e_nfs env) (efl_NFSFh l) fh Name (g_srv (h_g w))) w)
          }) w0)
     }"

definition do_act_MAKE_SOFT_LINK :: "'srv env \<Rightarrow> addr \<Rightarrow> char list \<Rightarrow> string \<Rightarrow> 'srv handler \<Rightarrow> (int \<times> 'srv handler) option" where
  "do_act_MAKE_SOFT_LINK env fl bs Path =
     at_dir env True fl bs (\<lambda>D fh FullName Name r w.
       Some (set_result (nfs_Symlink (e_nfs env) fh Name (cr_UID w) (cr_GID w) Path (g_srv (h_g w))) w))"

text \<open>The third argument is a path for a soft link, a lock for a hard link.\<close>

definition act_MAKE_LINK :: "'srv env \<Rightarrow> addr \<Rightarrow> char list \<Rightarrow> string + addr \<Rightarrow> int \<Rightarrow> 'srv handler \<Rightarrow> (int \<times> 'srv handler) option" where
  "act_MAKE_LINK env fl bs arg3 Mode w =
     (if Mode = LINK_SOFT then (case arg3 of Inl Path \<Rightarrow> do_act_MAKE_SOFT_LINK env fl bs Path w | Inr _ \<Rightarrow> None)
      else if Mode = LINK_HARD then (case arg3 of Inr fl2 \<Rightarrow> do_act_MAKE_HARD_LINK env fl bs fl2 w | Inl _ \<Rightarrow> None)
      else Some (h_SetRes DOSFALSE ERROR_REQUIRED_ARG_MISSING w))"

subsection \<open>Information on the volume\<close>

record idata =
  id_NumSoftErrors :: int
  id_UnitNumber :: int
  id_DiskState :: int
  id_NumBlocks :: int
  id_NumBlocksUsed :: int
  id_BytesPerBlock :: int
  id_DiskType :: int
  id_VolumeNode :: addr
  id_InUse :: int

definition IsInUse :: "'srv global \<Rightarrow> bool" where
  "IsInUse g \<longleftrightarrow> dl_LockList g \<noteq> NULL \<or> g_FH g \<noteq> NULL"

text \<open>\<open>DiskType\<close> and \<open>Dev\<close> are the disk type and the address of the volume node.\<close>

definition do_act_INFO :: "'srv env \<Rightarrow> int \<Rightarrow> addr \<Rightarrow> idata \<Rightarrow> nfs_fh \<Rightarrow> 'srv handler \<Rightarrow> int \<times> idata \<times> 'srv handler" where
  "do_act_INFO env DiskType Dev i fh w =
     (case nfs_statfs (e_nfs env) fh (g_srv (h_g w)) of
        (Inl e, s) \<Rightarrow> let (r, w') = h_SetRes DOSFALSE e (put_srv s w) in (r, i, w')
      | (Inr st, s) \<Rightarrow>
          let (r, w') = h_SetRes1 DOSTRUE (put_srv s w)
          in (r, \<lparr>id_NumSoftErrors = 0, id_UnitNumber = 0,
                  id_DiskState = (if g_Flags (h_g w) AND GF_IS_WRITE_PROTECTED \<noteq> 0 then ID_WRITE_PROTECTED else ID_VALIDATED),
                  id_NumBlocks = LONG_of (sf_blocks st), id_NumBlocksUsed = LONG_of (sf_blocks st - sf_bavail st),
                  id_BytesPerBlock = LONG_of (sf_bsize st), id_DiskType = DiskType, id_VolumeNode = Dev,
                  id_InUse = (if IsInUse (h_g w) then 1 else 0)\<rparr>, w'))"

definition act_INFO :: "'srv env \<Rightarrow> int \<Rightarrow> addr \<Rightarrow> addr \<Rightarrow> idata \<Rightarrow> 'srv handler \<Rightarrow> (int \<times> idata \<times> 'srv handler) option" where
  "act_INFO env DiskType Dev fl i w =
     (if fl = NULL then Some (do_act_INFO env DiskType Dev i (g_MntFh w) w)
      else do {
        a \<leftarrow> lock_Lookup fl (h_g w);
        (if a = NULL then Some (let (r, w') = h_SetRes DOSFALSE ERROR_INVALID_LOCK w in (r, i, w'))
         else map_option (\<lambda>l. do_act_INFO env DiskType Dev i (efl_NFSFh l) w) (hp_elock (h_g w) a))
      })"

definition act_DISK_INFO :: "'srv env \<Rightarrow> int \<Rightarrow> addr \<Rightarrow> idata \<Rightarrow> 'srv handler \<Rightarrow> int \<times> idata \<times> 'srv handler" where
  "act_DISK_INFO env DiskType Dev i w = do_act_INFO env DiskType Dev i (g_MntFh w) w"

end
