(* ===== verification/Forget.thy ===== *)
theory Forget
  imports Objects
begin

text \<open>
  What the caches forget when an object is deleted, and the shared beginning of the actions on
  names. The caches stay coherent with the server's tree: nothing is added to them.
\<close>

lemma attrs_Delete_ok:
  assumes inv: "ac_inv g"
  shows "\<exists>g'. attrs_Delete g k = Some g' \<and> ac_inv g' \<and> hp_ace g' = hp_ace g \<and> (\<forall>m. ac_map m g' = (ac_map m g)(k := None))"
proof -
  let ?t = "g_AttrCache g" and ?h = "hp_ace g"
  note d = ac_invD [OF inv]
  obtain t' where r: "fthash_MarkRemoved ?t k ?h = Some (t', ?h)" "ace.ft_inv ?h t' ?h {#}" "ft_conf ?t t'" "tht_TTL t' = tht_TTL ?t"
    "case ft_find ?t k of None \<Rightarrow> t' = ?t | Some e \<Rightarrow> mset (concat (tht_Entries t')) + {#e#} = mset (concat (tht_Entries ?t))"
    using ace.MarkRemoved_ok [OF d(1), of k] by blast
  let ?g = "\<lparr>g_AttrCache = t', hp_ace = ?h\<rparr>"
  have run: "attrs_Delete g k = Some ?g" using r(1) by (simp add: attrs_Delete_def)
  show ?thesis
  proof (cases "ft_find ?t k")
    case None
    then have "?g = g" "ac_map m g = (ac_map m g)(k := None)" for m using r(5) by (auto simp: ac_map_def fun_eq_iff)
    then show ?thesis using run inv by metis
  next
    case (Some e)
    then have m: "mset (concat (tht_Entries t')) + {#e#} = mset (concat (tht_Entries ?t))" using r(5) by simp
    have sub: "mset (concat (tht_Entries t')) \<subseteq># mset (concat (tht_Entries ?t))" using m by (metis mset_subset_eq_add_left)
    note less = ac_inv_less [OF inv r(2,3) sub]
    have u: "ft_uniq t'" using ac_invD(2) [OF less(1)] by simp
    have s: "ft_shape t'" using r(2) by (simp add: ace.ft_inv_def)
    have key: "the_Key e = k" using Some ft_find_live [OF d(3,2)] by auto
    note del = ft_find_del [OF d(3,2) s u m, unfolded key]
    have "ac_map m ?g = (ac_map m g)(k := None)" for m using del(1) r(4) by (intro ext) (simp add: ac_map_def split: option.split)
    then show ?thesis using run less(1) by auto
  qed
qed

lemma attrs_coh_delete:
  assumes "attrs_coh T ac"
  shows "\<exists>ac'. attrs_Delete ac k = Some ac' \<and> attrs_coh T ac' \<and> (\<forall>m. ac_map m ac' k = None)"
proof -
  obtain ac' where a: "attrs_Delete ac k = Some ac'" "ac_inv ac'" "hp_ace ac' = hp_ace ac" "\<forall>m. ac_map m ac' = (ac_map m ac)(k := None)"
    using attrs_Delete_ok [of ac k] assms unfolding attrs_coh_def by blast
  then show ?thesis using assms by (auto simp: attrs_coh_def)
qed

text \<open>A directory that is marked removed leaves the table, its memory stays until the cache is unlocked.\<close>

lemma dirs_coh_DCEDelete:
  assumes coh: "dirs_coh T ls dc"
  shows "\<exists>dc'. dc_DCEDeleteFromFileId dc k = Some dc' \<and> dirs_coh T ls dc' \<and> dc_store dc' = dc_store dc"
proof -
  let ?t = "g_DirCache dc" and ?h = "dc_store dc"
  have inv: "dc_inv ls dc" "keys_ok dc" using coh by (simp_all add: dirs_coh_def)
  then have ft: "dce.ft_inv ls ?h ?t ?h {#}" by (simp add: dc_inv_def)
  obtain t' where r: "fthash_MarkRemoved ?t k ?h = Some (t', ?h)" "dce.ft_inv ls ?h t' ?h {#}" "ft_conf ?t t'"
    "case ft_find ?t k of None \<Rightarrow> t' = ?t | Some e \<Rightarrow> mset (concat (tht_Entries t')) + {#e#} = mset (concat (tht_Entries ?t))"
    using dce.MarkRemoved_ok [OF ft, of k] by blast
  let ?dc = "\<lparr>g_DirCache = t', dc_store = ?h\<rparr>"
  have "live t' \<subseteq> live ?t" unfolding live_mset
    by (rule set_mset_mono) (use r(4) in \<open>auto split: option.splits\<close>, metis mset_subset_eq_add_left add_mset_add_single)
  moreover have "tht_KeyCmp t' = tht_KeyCmp ?t" using r(3) by (simp add: ft_conf_def)
  ultimately have "keys_ok ?dc" using inv(2) by (auto simp: keys_ok_def)
  moreover have "dc_inv ls ?dc" using inv(1) r(2) by (simp add: dc_inv_def)
  ultimately have "dirs_coh T ls ?dc" using coh by (simp add: dirs_coh_def)
  then show ?thesis using r(1) by (simp add: dc_DCEDeleteFromFileId_def)
qed

text \<open>Removing a name entry: no other entry of the directory has the name.\<close>

lemma dirs_coh_NERemove:
  assumes coh: "dirs_coh T ls dc" and d: "hp_dce (dc_store dc) D = Some d" and x: "x \<in> set (ls D)" "named (dc_store dc) nm x"
  shows "\<exists>dc' ls' d'. dc_NERemove dc D x = Some dc' \<and> dirs_coh T ls' dc' \<and> hp_dce (dc_store dc') D = Some d' \<and>
    dce_NFSFh d' = dce_NFSFh d \<and> dc_name dc' D nm = None \<and> x \<notin> dom (hp_ne (dc_store dc'))"
proof -
  let ?h = "dc_store dc" and ?ls = "ls(D := remove1 x (ls D))"
  have inv: "dc_inv ls dc" "keys_ok dc" "names_once ls ?h" using coh by (simp_all add: dirs_coh_def)
  have D: "D \<in> dom (hp_dce ?h)" using d by blast
  obtain h2 where r: "dc_NERemove dc D x = Some (dc\<lparr>dc_store := h2\<rparr>)" "dc_inv ?ls (dc\<lparr>dc_store := h2\<rparr>)" "dom (hp_dce h2) = dom (hp_dce ?h)"
    "hp_ne h2 x = None" "\<forall>b. b \<noteq> x \<longrightarrow> same_entry (hp_ne h2 b) (hp_ne ?h b)"
    "\<forall>E d d'. hp_dce ?h E = Some d \<longrightarrow> hp_dce h2 E = Some d' \<longrightarrow> dce_FileId d' = dce_FileId d \<and> dce_NFSFh d' = dce_NFSFh d"
    using dc_NERemove_ok [OF inv(1) D x(1)] by blast
  let ?dc = "dc\<lparr>dc_store := h2\<rparr>"
  note fields = same_entry_fields [OF r(5) [rule_format]]
  have old: "\<exists>d0. hp_dce ?h E = Some d0 \<and> dce_FileId d' = dce_FileId d0 \<and> dce_NFSFh d' = dce_NFSFh d0" if "hp_dce h2 E = Some d'" for E d'
  proof -
    have "E \<in> dom (hp_dce ?h)" using that r(3) by blast
    then obtain d0 where "hp_dce ?h E = Some d0" by blast
    then show ?thesis using r(6) that by blast
  qed
  have sub: "y \<in> set (ls E) \<and> y \<noteq> x" if "y \<in> set (?ls E)" "E \<in> dom (hp_dce ?h)" for E y
  proof (cases "E = D")
    case True
    then show ?thesis using that links_distinct [OF names_ok_links [OF dc_inv_names [OF inv(1)] d]] by simp
  next
    case False
    have "x \<notin> set (ls E)" using names_okD(3) [OF dc_inv_names [OF inv(1)]] D that(2) x(1) False by blast
    then show ?thesis using that False by auto
  qed
  have "dirs_coh T ?ls ?dc" unfolding dirs_coh_def
  proof (intro conjI allI impI)
    show "dc_inv ?ls ?dc" by (rule r(2))
    have "\<exists>d. hp_dce h2 (the_Val e) = Some d \<and> dce_FileId d = the_Key e" if "e \<in> live (g_DirCache dc)" for e
    proof -
      obtain d0 where d0: "hp_dce ?h (the_Val e) = Some d0" "dce_FileId d0 = the_Key e" using inv(2) \<open>e \<in> live (g_DirCache dc)\<close>
        by (auto simp: keys_ok_def)
      moreover obtain d1 where "hp_dce h2 (the_Val e) = Some d1" using d0(1) r(3) by blast
      ultimately show ?thesis using r(6) by metis
    qed
    then show "keys_ok ?dc" using inv(2) by (simp add: keys_ok_def)
    show "names_once ?ls (dc_store ?dc)" unfolding names_once_def
    proof (intro allI impI)
      fix E y z assume a: "E \<in> dom (hp_dce (dc_store ?dc))" "y \<in> set (?ls E)" "z \<in> set (?ls E)"
        "map_option ne_Name (hp_ne (dc_store ?dc) y) = map_option ne_Name (hp_ne (dc_store ?dc) z)"
      have E: "E \<in> dom (hp_dce ?h)" using a(1) r(3) by simp
      note y = sub [OF a(2) E] and z = sub [OF a(3) E]
      have "map_option ne_Name (hp_ne ?h y) = map_option ne_Name (hp_ne ?h z)"
        using fields(1) [of y] fields(1) [of z] y z a(4) by simp
      then show "y = z" using inv(3) y z E unfolding names_once_def by blast
    qed
  next
    fix E d' assume "hp_dce (dc_store ?dc) E = Some d'"
    then obtain d0 where "hp_dce ?h E = Some d0" "dce_FileId d' = dce_FileId d0" "dce_NFSFh d' = dce_NFSFh d0" using old by auto
    then show "\<exists>a. t_obj T (dce_FileId d') = Some (dce_NFSFh d', a)" using dirs_cohD(1) [OF coh] by auto
  next
    fix E d' y n assume a: "hp_dce (dc_store ?dc) E = Some d'" "y \<in> set (?ls E)" "hp_ne (dc_store ?dc) y = Some n"
    then obtain d0 where d0: "hp_dce ?h E = Some d0" "dce_NFSFh d' = dce_NFSFh d0" using old by auto
    have y: "y \<in> set (ls E)" "y \<noteq> x" using sub [OF a(2)] d0(1) by auto
    obtain n0 where n0: "hp_ne ?h y = Some n0" using fields(4) [OF y(2)] a(3) by (cases "hp_ne ?h y") auto
    have "ne_Name n = ne_Name n0" "ne_FType n = ne_FType n0" "ne_FileId n = ne_FileId n0"
      using fields(1,3) [OF y(2)] a(3) n0 by auto
    then show "\<exists>f a. t_look T (dce_NFSFh d') (ne_Name n) = Some (f, a) \<and> fa_type a = ne_FType n \<and> fa_fileid a = ne_FileId n"
      using dirs_cohD(2) [OF coh d0(1) y(1) n0] d0(2) by auto
  qed
  moreover obtain d' where d': "hp_dce h2 D = Some d'" "dce_NFSFh d' = dce_NFSFh d" using old r(3,6) d D by (metis domIff not_None_eq)
  moreover have "dc_name ?dc D nm = None"
  proof -
    have "\<not> named h2 nm y" if y: "y \<in> set (?ls D)" for y
    proof
      assume "named h2 nm y"
      then have "map_option ne_Name (hp_ne ?h y) = map_option ne_Name (hp_ne ?h x)"
        using fields(1) [of y] sub [OF y D] x(2) unfolding named_def by metis
      then show False using inv(3) sub [OF y D] x(1) D unfolding names_once_def by blast
    qed
    then have "find (named h2 nm) (?ls D) = None" unfolding find_None_iff by blast
    then show ?thesis using dc_name_eq [OF r(2), of D nm] D r(3) by simp
  qed
  ultimately show ?thesis using r(1,4) by (intro exI [of _ ?dc] exI [of _ ?ls] exI [of _ d']) (simp add: domIff)
qed

subsection \<open>The directory of an object\<close>

definition name_of :: "string list \<Rightarrow> string" where
  "name_of st = (if st = [] then [] else last st)"

text \<open>Why there is no directory:\<close>

definition dir_error :: "tree \<Rightarrow> nfs_fh \<Rightarrow> (int + string list) \<Rightarrow> int \<Rightarrow> bool" where
  "dir_error T root P e \<longleftrightarrow> e = ERROR_NO_FREE_STORE \<or> (case P of Inl e' \<Rightarrow> e = e' | Inr st \<Rightarrow> tree_walk T root (butlast st) = Inl e)"

definition dir_found :: "tree \<Rightarrow> nfs_fh \<Rightarrow> (int + string list) \<Rightarrow> addr \<Rightarrow> nfs_fh \<Rightarrow> string list \<Rightarrow> 'srv handler \<Rightarrow> bool" where
  "dir_found T root P D fh st w \<longleftrightarrow> P = Inr st \<and> comps_ok st \<and> tree_walk T root (butlast st) = Inr fh \<and> D \<noteq> NULL \<and>
     (\<exists>d. hp_dce (dc_store (h_dirs w)) D = Some d \<and> dce_NFSFh d = fh)"

text \<open>An action that begins with \<open>at_dir\<close> finds no directory, for such a reason, or runs its body in
  the directory. \<open>L\<close> is what \<open>LRootLocateDir\<close> returns.\<close>

lemma at_dir_ok:
  fixes rest :: "char list"
  assumes inv: "walk_inv env T ls w" and m: "fl_members (h_g w) as" and fl: "fl = NULL \<or> fl \<in> set as" and base: "base_path w fl old"
    and rel: "simple_rel rel" "length rel < 256" and dos: "dos_ok (e_dos env)"
  defines "L \<equiv> LRootLocateDir env fl (bstr_of rel rest) False (g_Res2 (h_g w)) w"
  obtains (no_dir) e D w1 ls1 where "L = Some (D, None, e, w1)"
      "\<And>frees body. at_dir env frees fl (bstr_of rel rest) body w = (if frees then None else Some (h_SetRes DOSFALSE e w1))"
      "walk_inv env T ls1 w1" "walk_same w w1" "dir_error T (g_MntFh w) (rel_path old rel) e"
    | (dir) D t fh st w1 ls1 where "L = Some (D, Some t, g_Res2 (h_g w), w1)"
      "\<And>frees body. at_dir env frees fl (bstr_of rel rest) body w = body D fh (join_path st) (name_of st) (g_Res2 (h_g w)) w1"
      "walk_inv env T ls1 w1" "walk_same w w1" "dir_found T (g_MntFh w) (rel_path old rel) D fh st w1"
proof -
  obtain D nm r w1 ls1 where d: "L = Some (D, nm, r, w1)" "walk_inv env T ls1 w1"
    "walk_same w w1" "dir_result T (g_MntFh w) (rel_path old rel) D nm r (g_Res2 (h_g w)) w1"
    using LRootLocateDir_ok [OF inv m fl base rel dos, of rest "g_Res2 (h_g w)"] unfolding L_def by blast
  note d1 = d(1) [unfolded L_def]
  show ?thesis
  proof (cases nm)
    case None
    then have "at_dir env frees fl (bstr_of rel rest) body w = (if frees then None else Some (h_SetRes DOSFALSE r w1))" for frees body
      by (simp add: at_dir_def d1)
    moreover have "dir_error T (g_MntFh w) (rel_path old rel) r" using d(4) None by (simp add: dir_error_def dir_result_def)
    ultimately show ?thesis using d(1-3) no_dir None by blast
  next
    case (Some t)
    obtain F nb l where t: "nm = Some (F, nb, l)" using Some by (cases t) auto
    obtain st dd where st: "r = g_Res2 (h_g w)" "D \<noteq> NULL" "rel_path old rel = Inr st" "comps_ok st" "F = join_path st" "cstr_of nb = name_of st"
       "hp_dce (dc_store (h_dirs w1)) D = Some dd" "tree_walk T (g_MntFh w) (butlast st) = Inr (dce_NFSFh dd)"
      using d(4) t by (auto simp: dir_result_def name_of_def)
    have "at_dir env frees fl (bstr_of rel rest) body w = body D (dce_NFSFh dd) (join_path st) (name_of st) (g_Res2 (h_g w)) w1" for frees body
      using d1 t st by (simp add: at_dir_def)
    moreover have "dir_found T (g_MntFh w) (rel_path old rel) D (dce_NFSFh dd) st w1" using st by (simp add: dir_found_def)
    ultimately show ?thesis using d(1-3) dir Some st(1) by blast
  qed
qed

end
