(* ===== verification/ObjectActs.thy ===== *)
theory ObjectActs
  imports Forget FindOpen
begin

text \<open>
  The actions on names do what they say: an object is deleted only when nothing holds a lock on
  it, and the caches forget it; a change of attributes is never hidden by the cache; a lock
  becomes exclusive only when it is alone.
\<close>

subsection \<open>Deleting\<close>

definition in_use :: "'srv global \<Rightarrow> addr list \<Rightarrow> u32 \<Rightarrow> bool" where
  "in_use g as k \<longleftrightarrow> (\<exists>b\<in>set as. lk_key g b = k)"

text \<open>Why an object in the directory with the handle \<open>fh\<close> is not deleted:\<close>

definition delete_refused ::
  "tree \<Rightarrow> nfs_fh \<Rightarrow> (int + string list) \<Rightarrow> 'srv global \<Rightarrow> addr list \<Rightarrow> int \<Rightarrow> bool" where
  "delete_refused T root P g as e \<longleftrightarrow>
     (\<exists>st fh. P = Inr st \<and> tree_walk T root (butlast st) = Inr fh \<and>
        (e = ERROR_NO_FREE_STORE \<or>
         (case t_look T fh (name_of st) of
            None \<Rightarrow> e = ERROR_OBJECT_NOT_FOUND
          | Some (f, a) \<Rightarrow> e = ERROR_OBJECT_IN_USE \<and> in_use g as (fa_fileid a))))"

text \<open>The one call that is made, in a state \<open>s0\<close> in which the server still shows \<open>T\<close>, and what the
  caches know after it.\<close>

definition deleted ::
  "'srv env \<Rightarrow> tree \<Rightarrow> nfs_fh \<Rightarrow> (int + string list) \<Rightarrow> 'srv global \<Rightarrow> addr list \<Rightarrow> int \<Rightarrow> 'srv handler \<Rightarrow> bool" where
  "deleted env T root P g as r w' \<longleftrightarrow>
     (\<exists>st fh f a s0 res s1 D d. P = Inr st \<and> tree_walk T root (butlast st) = Inr fh \<and> t_look T fh (name_of st) = Some (f, a) \<and>
        \<not> in_use g as (fa_fileid a) \<and> static_server (e_nfs env) T s0 \<and>
        (if fa_type a = NFDIR then nfs_RmDir (e_nfs env) fh (name_of st) s0 else nfs_Remove (e_nfs env) fh (name_of st) s0) = (res, s1) \<and>
        (case res of
           Inl e \<Rightarrow> r = DOSFALSE \<and> h_g w' = g\<lparr>g_srv := s1, g_Res1 := DOSFALSE, g_Res2 := e\<rparr>
         | Inr _ \<Rightarrow> r = DOSTRUE \<and> h_g w' = g\<lparr>g_srv := s1, g_Res1 := DOSTRUE\<rparr>) \<and>
        (\<forall>m. ac_map m (h_attrs w') (fa_fileid a) = None) \<and>
        hp_dce (dc_store (h_dirs w')) D = Some d \<and> dce_NFSFh d = fh \<and> dc_name (h_dirs w') D (name_of st) = None)"

lemma set_result_eq:
  "set_result (res, s) w =
     (case res of Inl e \<Rightarrow> (DOSFALSE, w\<lparr>h_g := (h_g w)\<lparr>g_srv := s, g_Res1 := DOSFALSE, g_Res2 := e\<rparr>\<rparr>)
      | Inr _ \<Rightarrow> (DOSTRUE, w\<lparr>h_g := (h_g w)\<lparr>g_srv := s, g_Res1 := DOSTRUE\<rparr>\<rparr>))"
  by (cases res) (simp_all add: set_result_def h_SetRes_simps put_srv_def)

lemma delete_name_ok:
  assumes inv: "walk_inv env T ls w" and D: "hp_dce (dc_store (h_dirs w)) D = Some d"
    and NE: "NE \<in> set (ls D)" "named (dc_store (h_dirs w)) nm NE"
    and call: "(if ne_FType ne = NFDIR then nfs_RmDir (e_nfs env) fh nm (g_srv (h_g w)) else nfs_Remove (e_nfs env) fh nm (g_srv (h_g w))) = (res, s1)"
  shows "\<exists>r w' ls' d'. delete_name env D fh nm NE ne w = Some (r, w') \<and> caches_ok env T ls' w' \<and>
     (case res of
        Inl e \<Rightarrow> r = DOSFALSE \<and> h_g w' = (h_g w)\<lparr>g_srv := s1, g_Res1 := DOSFALSE, g_Res2 := e\<rparr>
      | Inr _ \<Rightarrow> r = DOSTRUE \<and> h_g w' = (h_g w)\<lparr>g_srv := s1, g_Res1 := DOSTRUE\<rparr>) \<and>
     (\<forall>m. ac_map m (h_attrs w') (ne_FileId ne) = None) \<and>
     hp_dce (dc_store (h_dirs w')) D = Some d' \<and> dce_NFSFh d' = dce_NFSFh d \<and> dc_name (h_dirs w') D nm = None"
proof -
  have ac: "attrs_coh T (h_attrs w)" and dc: "dirs_coh T ls (h_dirs w)" using inv unfolding walk_inv_def by blast+
  obtain dc1 where dc1: "(if ne_FType ne = NFDIR then dc_DCEDeleteFromFileId (h_dirs w) (ne_FileId ne) else Some (h_dirs w)) = Some dc1"
    "dirs_coh T ls dc1" "dc_store dc1 = dc_store (h_dirs w)"
    using dirs_coh_DCEDelete [OF dc, of "ne_FileId ne"] dc by (cases "ne_FType ne = NFDIR") auto
  obtain a1 where a1: "attrs_Delete (h_attrs w) (ne_FileId ne) = Some a1" "attrs_coh T a1" "\<forall>m. ac_map m a1 (ne_FileId ne) = None"
    using attrs_coh_delete [OF ac] by blast
  obtain dc2 ls' d' where dc2: "dc_NERemove dc1 D NE = Some dc2" "dirs_coh T ls' dc2" "hp_dce (dc_store dc2) D = Some d'"
    "dce_NFSFh d' = dce_NFSFh d" "dc_name dc2 D nm = None"
    using dirs_coh_NERemove [OF dc1(2), of D d NE nm] D NE dc1(3) by auto
  obtain r w1 where w1: "set_result (res, s1) w = (r, w1)" by (cases "set_result (res, s1) w")
  have keep: "h_dirs w1 = h_dirs w" "h_attrs w1 = h_attrs w" "g_MntAttr w1 = g_MntAttr w" "g_MntFh w1 = g_MntFh w"
    using w1 by (auto simp: set_result_eq split: sum.splits)
  let ?w = "w1\<lparr>h_dirs := dc2, h_attrs := a1\<rparr>"
  have "delete_name env D fh nm NE ne w = Some (r, ?w)"
    using call w1 keep dc1(1) a1(1) dc2(1) by (simp add: delete_name_def cong: if_cong)
  moreover have "caches_ok env T ls' ?w" using inv keep dc2(2) a1(2) by (simp add: walk_inv_def caches_ok_def)
  moreover have "case res of
        Inl e \<Rightarrow> r = DOSFALSE \<and> h_g ?w = (h_g w)\<lparr>g_srv := s1, g_Res1 := DOSFALSE, g_Res2 := e\<rparr>
      | Inr _ \<Rightarrow> r = DOSTRUE \<and> h_g ?w = (h_g w)\<lparr>g_srv := s1, g_Res1 := DOSTRUE\<rparr>"
    using w1 by (auto simp: set_result_eq split: sum.splits)
  ultimately show ?thesis using a1(3) dc2(3-5) by (intro exI [of _ r] exI [of _ ?w] exI [of _ ls'] exI [of _ d']) simp
qed

lemma lock_LookupFromKey_in_use:
  assumes "fl_members g as"
  shows "\<exists>a. lock_LookupFromKey k g = Some a \<and> (a \<noteq> NULL \<longleftrightarrow> in_use g as k)"
proof -
  have nn: "NULL \<notin> set as" using assms links_not_NULL unfolding fl_members_def by metis
  show ?thesis
  proof (cases "find (\<lambda>a. lk_key g a = k) as")
    case None
    then have "\<not> in_use g as k" by (auto simp: in_use_def find_None_iff)
    then show ?thesis using lock_LookupFromKey_eq [OF assms, of k] None by simp
  next
    case (Some a)
    then have a: "a \<in> set as" "lk_key g a = k" by (auto simp: find_Some_iff)
    then have "a \<noteq> NULL" using nn by metis
    then show ?thesis using lock_LookupFromKey_eq [OF assms, of k] Some a by (auto simp: in_use_def)
  qed
qed

text \<open>How an action fails: the two results are set, the caches stay coherent.\<close>

lemma fails_with:
  assumes "walk_inv env T ls w1" and "walk_same w w1"
  shows "\<exists>s w'. h_SetRes DOSFALSE e w1 = (DOSFALSE, w') \<and> walk_inv env T ls w' \<and>
    h_g w' = (h_g w)\<lparr>g_srv := s, g_Res1 := DOSFALSE, g_Res2 := e\<rparr>"
proof -
  obtain s where "h_g w1 = (h_g w)\<lparr>g_srv := s\<rparr>" using assms(2) by (auto simp: walk_same_def)
  then show ?thesis using assms(1) by (intro exI [of _ s]) (simp add: h_SetRes_simps walk_inv_def)
qed

lemma act_DELETE_OBJECT_ok:
  fixes rest :: "char list"
  assumes inv: "walk_inv env T ls w" and m: "fl_members (h_g w) as" and fl: "fl = NULL \<or> fl \<in> set as" and base: "base_path w fl old"
    and rel: "simple_rel rel" "length rel < 256" and dos: "dos_ok (e_dos env)"
  defines "L \<equiv> LRootLocateDir env fl (bstr_of rel rest) False (g_Res2 (h_g w)) w"
  shows "(\<exists>D e w1. L = Some (D, None, e, w1) \<and> dir_error T (g_MntFh w) (rel_path old rel) e \<and>
        act_DELETE_OBJECT env fl (bstr_of rel rest) w = None) \<or>
    (\<exists>D t e w1 r w' ls'. L = Some (D, Some t, e, w1) \<and> act_DELETE_OBJECT env fl (bstr_of rel rest) w = Some (r, w') \<and>
       caches_ok env T ls' w' \<and>
       (deleted env T (g_MntFh w) (rel_path old rel) (h_g w) as r w' \<or>
        r = DOSFALSE \<and> (\<exists>s e. h_g w' = (h_g w)\<lparr>g_srv := s, g_Res1 := DOSFALSE, g_Res2 := e\<rparr> \<and> static_server (e_nfs env) T s \<and>
          delete_refused T (g_MntFh w) (rel_path old rel) (h_g w) as e)))"
proof -
  let ?P = "rel_path old rel" and ?g = "h_g w" and ?out = "act_DELETE_OBJECT env fl (bstr_of rel rest) w"
  show ?thesis
  proof (cases rule: at_dir_ok [OF inv m fl base rel dos, of rest])
    case (1 e D w1 ls1)
    then show ?thesis by (auto simp: act_DELETE_OBJECT_def L_def)
  next
    case dir: (2 D t fh st w1 ls1)
    let ?good = "\<lambda>r w'. \<exists>ls'. caches_ok env T ls' w' \<and> (deleted env T (g_MntFh w) ?P ?g as r w' \<or>
        r = DOSFALSE \<and> (\<exists>s e. h_g w' = ?g\<lparr>g_srv := s, g_Res1 := DOSFALSE, g_Res2 := e\<rparr> \<and> static_server (e_nfs env) T s \<and>
          delete_refused T (g_MntFh w) ?P ?g as e))"
    have fin: ?thesis if "?out = Some (r, w')" "?good r w'" for r w' using that dir(1) unfolding L_def by blast
    have fail: ?thesis if run0: "?out = Some (h_SetRes DOSFALSE e v)" and v: "walk_inv env T ls' v" "walk_same w v"
        and why: "delete_refused T (g_MntFh w) ?P ?g as e" for e v ls'
    proof -
      obtain s w' where w': "h_SetRes DOSFALSE e v = (DOSFALSE, w')" "walk_inv env T ls' w'" "h_g w' = ?g\<lparr>g_srv := s, g_Res1 := DOSFALSE, g_Res2 := e\<rparr>"
        using fails_with [OF v, of e] by blast
      have "caches_ok env T ls' w'" "static_server (e_nfs env) T s" using w'(2,3) by (simp_all add: walk_inv_caches)
      then have "?good DOSFALSE w'" using w'(3) why by blast
      then show ?thesis using fin run0 w'(1) by simp
    qed
    obtain d where st: "?P = Inr st" "tree_walk T (g_MntFh w) (butlast st) = Inr fh" "hp_dce (dc_store (h_dirs w1)) D = Some d" "dce_NFSFh d = fh"
      using dir(5) by (auto simp: dir_found_def)
    obtain NE ACE r2 w2 ls2 where n: "GetNameEntry env D (name_of st) True (g_Res2 ?g) w1 = Some (NE, ACE, r2, w2)" "walk_inv env T ls2 w2"
      "walk_same w1 w2" "name_result (t_look T fh (name_of st)) NE ACE r2 (g_Res2 ?g) w2" "entry_in ls2 w2 D fh (name_of st) NE"
      using GetNameEntry_ok [OF dir(3) st(3), of "name_of st" "g_Res2 ?g"] st(4) by blast
    have same: "walk_same w w2" using dir(4) n(3) by (rule walk_same_trans)
    obtain s2 where g2: "h_g w2 = ?g\<lparr>g_srv := s2\<rparr>" using same by (auto simp: walk_same_def)
    show ?thesis
    proof (cases "NE = NULL")
      case True
      have "delete_refused T (g_MntFh w) ?P ?g as r2" using n(4) st(1,2) True
        by (auto simp: delete_refused_def name_result_def split: option.splits)
      moreover have "?out = Some (h_SetRes DOSFALSE r2 w2)"
        using True n(1) dir(2) by (simp add: act_DELETE_OBJECT_def)
      ultimately show ?thesis using fail n(2) same by blast
    next
      case False
      obtain f a ne where ne: "t_look T fh (name_of st) = Some (f, a)" "hp_ne (dc_store (h_dirs w2)) NE = Some ne" "ne_FType ne = fa_type a"
        "ne_FileId ne = fa_fileid a"
        using n(4) False by (auto simp: name_result_def split: option.splits)
      obtain d2 where d2: "hp_dce (dc_store (h_dirs w2)) D = Some d2" "dce_NFSFh d2 = fh" "NE \<in> set (ls2 D)" "named (dc_store (h_dirs w2)) (name_of st) NE"
        using n(5) False by (auto simp: entry_in_def)
      have m2: "fl_members (h_g w2) as" using m unfolding g2 by (simp add: srv_simps)
      obtain old' where lk: "lock_LookupFromKey (fa_fileid a) (h_g w2) = Some old'" "old' \<noteq> NULL \<longleftrightarrow> in_use (h_g w2) as (fa_fileid a)"
        using lock_LookupFromKey_in_use [OF m2] by blast
      have iu: "in_use (h_g w2) as (fa_fileid a) = in_use ?g as (fa_fileid a)" unfolding g2 by (simp add: in_use_def lk_key_def)
      have run: "?out = (if old' \<noteq> NULL then Some (h_SetRes DOSFALSE ERROR_OBJECT_IN_USE w2) else delete_name env D fh (name_of st) NE ne w2)"
        using False n(1) dir(2) ne lk(1) by (simp add: act_DELETE_OBJECT_def)
      show ?thesis
      proof (cases "old' = NULL")
        case busy: False
        have "delete_refused T (g_MntFh w) ?P ?g as ERROR_OBJECT_IN_USE" using busy lk(2) iu ne(1) st(1,2) by (auto simp: delete_refused_def)
        then show ?thesis using fail [of ERROR_OBJECT_IN_USE w2 ls2] run busy n(2) same by simp
      next
        case True
        obtain res s1 where call: "(if ne_FType ne = NFDIR then nfs_RmDir (e_nfs env) fh (name_of st) (g_srv (h_g w2))
             else nfs_Remove (e_nfs env) fh (name_of st) (g_srv (h_g w2))) = (res, s1)" by (rule prod.exhaust)
        obtain r w' ls' d' where del: "delete_name env D fh (name_of st) NE ne w2 = Some (r, w')" "caches_ok env T ls' w'"
          "case res of Inl e \<Rightarrow> r = DOSFALSE \<and> h_g w' = (h_g w2)\<lparr>g_srv := s1, g_Res1 := DOSFALSE, g_Res2 := e\<rparr>
            | Inr _ \<Rightarrow> r = DOSTRUE \<and> h_g w' = (h_g w2)\<lparr>g_srv := s1, g_Res1 := DOSTRUE\<rparr>"
          "\<forall>m. ac_map m (h_attrs w') (ne_FileId ne) = None"
          "hp_dce (dc_store (h_dirs w')) D = Some d'" "dce_NFSFh d' = dce_NFSFh d2" "dc_name (h_dirs w') D (name_of st) = None"
          using delete_name_ok [OF n(2) d2(1,3,4) call] by blast
        have call': "(if fa_type a = NFDIR then nfs_RmDir (e_nfs env) fh (name_of st) (g_srv (h_g w2))
             else nfs_Remove (e_nfs env) fh (name_of st) (g_srv (h_g w2))) = (res, s1)" using call unfolding ne(3) .
        have out: "case res of Inl e \<Rightarrow> r = DOSFALSE \<and> h_g w' = ?g\<lparr>g_srv := s1, g_Res1 := DOSFALSE, g_Res2 := e\<rparr>
            | Inr _ \<Rightarrow> r = DOSTRUE \<and> h_g w' = ?g\<lparr>g_srv := s1, g_Res1 := DOSTRUE\<rparr>"
          using del(3) unfolding g2 by (cases res) simp_all
        have free: "\<not> in_use ?g as (fa_fileid a)" using True lk(2) iu by simp
        have stat: "static_server (e_nfs env) T (g_srv (h_g w2))" using n(2) by (simp add: walk_inv_def)
        have "\<forall>m. ac_map m (h_attrs w') (fa_fileid a) = None" "dce_NFSFh d' = fh" using del(4,6) ne(4) d2(2) by simp_all
        then have "deleted env T (g_MntFh w) ?P ?g as r w'" unfolding deleted_def
          using st(1,2) ne(1) free stat call' out del(5,7) by blast
        then show ?thesis using fin run True del(1,2) by auto
      qed
    qed
  qed
qed


text \<open>A server with one file in its root, which can be deleted: the state tells whether it is there.\<close>

definition live_ents :: "bool \<Rightarrow> nfs_fh \<Rightarrow> entry list" where
  "live_ents s fh = (if s \<and> fh = [1] then [\<lparr>en_fileid = 3, en_name = ''Read.Me'', en_cookie = 1\<rparr>] else [])"

definition live_res :: diropokres where
  "live_res = \<lparr>dr_file = [3], dr_attributes = toy_fattr NFREG 3\<rparr>"

definition live_ops :: "bool nfs_ops" where
  "live_ops =
     \<lparr>nfsproc_getattr_2 = (\<lambda>fh s. (Inr (NFS_OK, if fh = [1] then toy_fattr NFDIR 1 else toy_fattr NFREG 3), s)),
      nfsproc_setattr_2 = (\<lambda>fh a s. (Inr (NFS_OK, (toy_fattr NFREG 3)\<lparr>fa_mode := sa_mode a\<rparr>), s)),
      nfsproc_lookup_2 = (\<lambda>fh nm s. (Inr (if nm \<in> en_name ` set (live_ents s fh) then NFS_OK else NFSERR_NOENT, live_res), s)),
      nfsproc_readlink_2 = (\<lambda>fh s. (Inr (NFSERR_NXIO, []), s)),
      nfsproc_create_2 = (\<lambda>fh nm a s. (Inr (NFSERR_ROFS, live_res), s)),
      nfsproc_remove_2 = (\<lambda>fh nm s. if nm \<in> en_name ` set (live_ents s fh) then (Inr NFS_OK, False) else (Inr NFSERR_NOENT, s)),
      nfsproc_rename_2 = (\<lambda>fh nm fh' nm' s. (Inr NFSERR_ROFS, s)),
      nfsproc_link_2 = (\<lambda>fh fh' nm s. (Inr NFSERR_ROFS, s)),
      nfsproc_symlink_2 = (\<lambda>fh nm p a s. (Inr NFSERR_ROFS, s)),
      nfsproc_mkdir_2 = (\<lambda>fh nm a s. (Inr (NFSERR_ROFS, live_res), s)),
      nfsproc_rmdir_2 = (\<lambda>fh nm s. (Inr NFSERR_ROFS, s)),
      nfsproc_readdir_2 = (\<lambda>fh c n s. (Inr (NFS_OK, drop (unat c) (live_ents s fh), True), s)),
      nfsproc_statfs_2 = (\<lambda>fh s. (Inr (NFS_OK, \<lparr>sf_tsize = 8192, sf_bsize = 512, sf_blocks = 100, sf_bfree = 50, sf_bavail = 40\<rparr>), s))\<rparr>"

definition live_tree :: tree where
  "live_tree =
     \<lparr>t_obj = (\<lambda>k. if k = 1 then Some ([1], toy_fattr NFDIR 1) else if k = 3 then Some ([3], toy_fattr NFREG 3) else None),
      t_look = (\<lambda>fh nm. map_option (\<lambda>n. (dr_file live_res, dr_attributes live_res)) (nc_find (live_ents True fh) nm))\<rparr>"

lemma live_static: "static_server live_ops live_tree True"
  unfolding static_server_def
proof (intro exI conjI)
  show "(\<lambda>s. s) True" by simp
  show "dir_server live_ops (\<lambda>s. s) (live_ents True) (\<lambda>fh. unat)" by (auto simp: dir_server_def live_ops_def live_ents_def)
  show "lookup_server live_ops (\<lambda>s. s) (live_ents True) (\<lambda>_ _. live_res)" by (auto simp: lookup_server_def live_ops_def)
  show "\<forall>fh. \<forall>en\<in>set (live_ents True fh). length (en_name en) < 255" by (simp add: live_ents_def)
  show "\<forall>fh nm. t_look live_tree fh nm = map_option (\<lambda>n. (dr_file live_res, dr_attributes live_res)) (nc_find (live_ents True fh) nm)"
    by (simp add: live_tree_def)
  show "\<forall>k f a s. s \<longrightarrow> t_obj live_tree k = Some (f, a) \<longrightarrow> (\<exists>s'. nfsproc_getattr_2 live_ops f s = (Inr (NFS_OK, a), s') \<and> s')"
    by (auto simp: live_tree_def live_ops_def split: if_splits)
qed

lemma live_walk_inv: "walk_inv (std_env live_ops) live_tree (\<lambda>_. []) (toy_handler (cleared_global True))"
proof (rule std_walk_inv)
  show "static_server live_ops live_tree (g_srv (cleared_global True))" using live_static by (simp add: cleared_global_def)
  show "tree_ok live_tree" by (auto simp: tree_ok_def live_tree_def live_res_def toy_fattr_def split: if_splits)
  show "t_obj live_tree 1 = Some ([1], toy_fattr NFDIR 1)" by (simp add: live_tree_def)
qed

lemma live_locate:
  "fl_members (h_g (toy_handler (cleared_global True))) []" "base_path (toy_handler (cleared_global True)) NULL []"
  "simple_rel ''Read.Me''" "length ''Read.Me'' < 256" "rel_path [] ''Read.Me'' = Inr [''Read.Me'']"
  by (simp_all add: fl_members_def toy_handler_def cleared_global_def base_path_def simple_rel_def rel_path_def up_first_def trim_dot_def)

lemma live_delete:
  "map_option (\<lambda>(r, w). (r, g_srv (h_g w))) (act_DELETE_OBJECT (std_env live_ops) NULL (bstr_of ''Read.Me'' []) (toy_handler (cleared_global True))) =
     Some (DOSTRUE, False)"
  by code_simp


subsection \<open>Attributes\<close>

text \<open>The outcome of an action that changes attributes with the call \<open>change\<close>.\<close>

definition attrs_refused :: "tree \<Rightarrow> nfs_fh \<Rightarrow> (int + string list) \<Rightarrow> int \<Rightarrow> bool" where
  "attrs_refused T root P e \<longleftrightarrow> dir_error T root P e \<or>
     (\<exists>st fh. P = Inr st \<and> tree_walk T root (butlast st) = Inr fh \<and> t_look T fh (name_of st) = None \<and> e = ERROR_OBJECT_NOT_FOUND)"

text \<open>The change is asked for in a state \<open>s0\<close> in which the server still shows \<open>T\<close>.\<close>

definition attrs_changed ::
  "'srv env \<Rightarrow> tree \<Rightarrow> nfs_fh \<Rightarrow> (int + string list) \<Rightarrow> (nfs_fh \<Rightarrow> 'srv \<Rightarrow> (int + fattr) \<times> 'srv) \<Rightarrow> 'srv global \<Rightarrow> int \<Rightarrow> 'srv handler \<Rightarrow> bool" where
  "attrs_changed env T root P change g r w' \<longleftrightarrow>
     (\<exists>st fh f a s0 res s1. P = Inr st \<and> tree_walk T root (butlast st) = Inr fh \<and> t_look T fh (name_of st) = Some (f, a) \<and>
        static_server (e_nfs env) T s0 \<and> change f s0 = (res, s1) \<and>
        (case res of
           Inl e \<Rightarrow> r = DOSFALSE \<and> h_g w' = g\<lparr>g_srv := s1, g_Res1 := DOSFALSE, g_Res2 := e\<rparr> \<and> (\<forall>m. ac_map m (h_attrs w') (fa_fileid a) = None)
         | Inr a' \<Rightarrow> r = DOSTRUE \<and> h_g w' = g\<lparr>g_srv := s1, g_Res1 := DOSTRUE\<rparr> \<and>
             (\<forall>m. ac_map m (h_attrs w') (fa_fileid a') = None \<or> ac_map m (h_attrs w') (fa_fileid a') = Some (f, a'))))"

definition attrs_outcome ::
  "'srv env \<Rightarrow> tree \<Rightarrow> (int + string list) \<Rightarrow> (nfs_fh \<Rightarrow> 'srv \<Rightarrow> (int + fattr) \<times> 'srv) \<Rightarrow> 'srv handler \<Rightarrow> (int \<times> 'srv handler) option \<Rightarrow> bool" where
  "attrs_outcome env T P change w out \<longleftrightarrow>
     (\<exists>r w'. out = Some (r, w') \<and> ac_inv (h_attrs w') \<and>
        (attrs_changed env T (g_MntFh w) P change (h_g w) r w' \<or>
         r = DOSFALSE \<and> (\<exists>s e. h_g w' = (h_g w)\<lparr>g_srv := s, g_Res1 := DOSFALSE, g_Res2 := e\<rparr> \<and> attrs_refused T (g_MntFh w) P e)))"

lemma set_attrs_ok:
  assumes inv: "walk_inv env T ls w" and m: "fl_members (h_g w) as" and fl: "fl = NULL \<or> fl \<in> set as" and base: "base_path w fl old"
    and rel: "simple_rel rel" "length rel < 256" and dos: "dos_ok (e_dos env)"
  shows "attrs_outcome env T (rel_path old rel) change w (set_attrs env fl (bstr_of rel rest) change w)"
proof -
  let ?P = "rel_path old rel" and ?g = "h_g w" and ?out = "set_attrs env fl (bstr_of rel rest) change w"
  have fail: ?thesis if run0: "?out = Some (h_SetRes DOSFALSE e w1)" and w1: "walk_inv env T ls1 w1" "walk_same w w1"
      and why: "attrs_refused T (g_MntFh w) ?P e" for e w1 ls1
  proof -
    obtain s w' where "h_SetRes DOSFALSE e w1 = (DOSFALSE, w')" "walk_inv env T ls1 w'" "h_g w' = ?g\<lparr>g_srv := s, g_Res1 := DOSFALSE, g_Res2 := e\<rparr>"
      using fails_with [OF w1, of e] by blast
    moreover from this(2) have "ac_inv (h_attrs w')" by (simp add: walk_inv_def attrs_coh_def)
    ultimately show ?thesis using run0 why unfolding attrs_outcome_def by auto
  qed
  show ?thesis
  proof (cases rule: at_dir_ok [OF inv m fl base rel dos, of rest])
    case (1 e D w1 ls1)
    then show ?thesis using fail [of e w1 ls1] by (simp add: set_attrs_def attrs_refused_def)
  next
    case dir: (2 D tt fh st w1 ls1)
    obtain d where st: "?P = Inr st" "tree_walk T (g_MntFh w) (butlast st) = Inr fh" "hp_dce (dc_store (h_dirs w1)) D = Some d" "dce_NFSFh d = fh"
      using dir(5) by (auto simp: dir_found_def)
    obtain sw where g1: "h_g w1 = ?g\<lparr>g_srv := sw\<rparr>" using dir(4) by (auto simp: walk_same_def)
    obtain s where l: "nfs_Lookup (e_nfs env) fh (name_of st) (ng_MaxReadDirSize (g_NFSGlobal (h_g w1))) (g_Res2 ?g) (g_srv (h_g w1)) =
       Some (case t_look T fh (name_of st) of None \<Rightarrow> Inl ERROR_OBJECT_NOT_FOUND | Some (f, a) \<Rightarrow> Inr \<lparr>dr_file = f, dr_attributes = a\<rparr>, s)"
       "walk_inv env T ls1 (put_srv s w1)" "walk_same w1 (put_srv s w1)" using lookup_ok [OF dir(3)] by blast
    let ?w = "put_srv s w1"
    have stat: "static_server (e_nfs env) T (g_srv (h_g ?w))" using l(2) by (simp add: walk_inv_def)
    have ac: "attrs_coh T (h_attrs ?w)" using l(2) unfolding walk_inv_def by blast
    show ?thesis
    proof (cases "t_look T fh (name_of st)")
      case None
      obtain a1 where a1: "attrs_Delete (h_attrs ?w) (dce_FileId d) = Some a1" "attrs_coh T a1" using attrs_coh_delete [OF ac] by blast
      let ?w1 = "?w\<lparr>h_attrs := a1\<rparr>"
      have "?out = Some (h_SetRes DOSFALSE ERROR_OBJECT_NOT_FOUND ?w1)"
        using dir(2) l(1) None a1(1) st(3) by (simp add: set_attrs_def)
      moreover have "walk_inv env T ls1 ?w1" using l(2) a1(2) by (simp add: walk_inv_def)
      moreover have "walk_same w ?w1" using dir(4) by simp
      moreover have "attrs_refused T (g_MntFh w) ?P ERROR_OBJECT_NOT_FOUND" using st(1,2) None by (simp add: attrs_refused_def)
      ultimately show ?thesis using fail by blast
    next
      case (Some fa)
      obtain f a where fa: "t_look T fh (name_of st) = Some (f, a)" using Some by (cases fa) auto
      obtain res s2 where ch: "change f (g_srv (h_g ?w)) = (res, s2)" by (cases "change f (g_srv (h_g ?w))")
      show ?thesis
      proof (cases res)
        case (Inl e)
        obtain a1 where a1: "attrs_Delete (h_attrs ?w) (fa_fileid a) = Some a1" "attrs_coh T a1" "\<forall>m. ac_map m a1 (fa_fileid a) = None"
          using attrs_coh_delete [OF ac] by blast
        let ?w1 = "(put_srv s2 ?w)\<lparr>h_attrs := a1\<rparr>"
        let ?w2 = "?w1\<lparr>h_g := ?g\<lparr>g_srv := s2, g_Res1 := DOSFALSE, g_Res2 := e\<rparr>\<rparr>"
        have "?out = Some (DOSFALSE, ?w2)"
          using dir(2) l(1) fa a1(1) ch Inl by (simp add: set_attrs_def h_SetRes_simps g1)
        moreover have "attrs_changed env T (g_MntFh w) ?P change ?g DOSFALSE ?w2" unfolding attrs_changed_def
          by (rule exI [of _ st], rule exI [of _ fh], rule exI [of _ f], rule exI [of _ a], rule exI [of _ "g_srv (h_g ?w)"], rule exI [of _ res], rule exI [of _ s2])
            (use st(1,2) fa stat ch Inl a1(3) in simp)
        ultimately show ?thesis using a1(2) unfolding attrs_outcome_def by (auto simp: attrs_coh_def)
      next
        case (Inr a')
        let ?t = "h_tick ?w"
        have ai: "ac_inv (h_attrs ?w)" using ac by (simp add: attrs_coh_def)
        have eo: "env_ok env" using inv unfolding walk_inv_def by blast
        obtain ent ok where mem: "e_ace env ?t (hp_ace (h_attrs ?w)) = (ent, ok)" by (cases "e_ace env ?t (hp_ace (h_attrs ?w))")
        have "ent \<notin> dom (hp_ace (h_attrs ?w))" using env_okD(1) [OF eo attrs_coh_NULL [OF ac], of ?t] mem by simp
        from attrs_Update_ok [OF ai this, of ok "e_clk env ?t" "e_clk env (?t + 1)" f a']
        obtain p a1 where u: "attrs_Update (ent, ok) (e_clk env ?t) (e_clk env (?t + 1)) (h_attrs ?w) f a' = Some (p, a1)" "ac_inv a1"
          "if p = NULL then ac_map (e_clk env ?t) (h_attrs ?w) (fa_fileid a') = None \<and> ft_find (g_AttrCache a1) (fa_fileid a') = None
           else hp_ace a1 p = Some \<lparr>ace_FileId = fa_fileid a', ace_NFSFh = f, ace_FAttr = a'\<rparr> \<and>
             (\<forall>m. ac_map m a1 (fa_fileid a') = (if (if ac_map (e_clk env ?t) (h_attrs ?w) (fa_fileid a') = None
                 then m - tht_TTL (g_AttrCache (h_attrs ?w)) > e_clk env (?t + 1) else ac_map m (h_attrs ?w) (fa_fileid a') = None)
                then None else Some (f, a')))" by blast
        have new: "ac_map m a1 (fa_fileid a') = None \<or> ac_map m a1 (fa_fileid a') = Some (f, a')" for m
          using u(3) by (cases "p = NULL") (simp_all add: ac_map_def)
        let ?w2 = "(tick 2 (put_srv s2 ?w))\<lparr>h_attrs := a1, h_g := ?g\<lparr>g_srv := s2, g_Res1 := DOSTRUE\<rparr>\<rparr>"
        have "?out = Some (DOSTRUE, ?w2)"
          using dir(2) l(1) fa u(1) ch Inr mem by (simp add: set_attrs_def h_SetRes_simps g1 Let_def)
        moreover have "attrs_changed env T (g_MntFh w) ?P change ?g DOSTRUE ?w2" unfolding attrs_changed_def
          by (rule exI [of _ st], rule exI [of _ fh], rule exI [of _ f], rule exI [of _ a], rule exI [of _ "g_srv (h_g ?w)"], rule exI [of _ res], rule exI [of _ s2])
            (use st(1,2) fa stat ch Inr new in simp)
        ultimately show ?thesis using u(2) unfolding attrs_outcome_def by auto
      qed
    qed
  qed
qed



subsection \<open>The mode of a lock\<close>

lemma count_one: "distinct as \<Longrightarrow> l \<in> set as \<Longrightarrow> P l \<Longrightarrow> length (filter P as) > 1 \<longleftrightarrow> (\<exists>b\<in>set as. b \<noteq> l \<and> P b)"
proof (induction as)
  case (Cons a as)
  show ?case
  proof (cases "a = l")
    case True
    then have "l \<notin> set as" using Cons by simp
    moreover have "length (filter P as) > 0 \<longleftrightarrow> (\<exists>b\<in>set as. P b)" by (simp add: filter_empty_conv)
    ultimately show ?thesis using True Cons by auto
  next
    case False
    then have l: "l \<in> set as" using Cons by simp
    then have "length (filter P as) > 0" using Cons.prems(3) by (auto simp: filter_empty_conv)
    then show ?thesis using Cons.IH Cons.prems l False by auto
  qed
qed simp

lemma locks_ok_set_mode:
  fixes M r1 :: int
  assumes ok: "locks_ok k g as" and l: "l \<in> set as" "hp_elock g l = Some e" and alone: "\<forall>b\<in>set as. b \<noteq> l \<longrightarrow> lk_key g b \<noteq> lk_key g l"
    and key: "lk_key g l \<noteq> k"
  defines "g' \<equiv> g\<lparr>hp_elock := (hp_elock g)(l \<mapsto> e\<lparr>fl_Access := M\<rparr>), g_Res1 := r1\<rparr>"
  shows "locks_ok k g' as"
proof -
  have n: "fl_next g' = fl_next g" using l(2) by (auto simp: fl_next_def g'_def fun_eq_iff)
  have m: "fl_members g' as" using ok by (simp add: locks_ok_def fl_members_def n) (simp add: g'_def)
  have ky: "lk_key g' = lk_key g" using l(2) by (auto simp: lk_key_def g'_def fun_eq_iff)
  have md: "b \<noteq> l \<Longrightarrow> fl_mode g' b = fl_mode g b" for b by (simp add: fl_mode_def g'_def)
  have z: "hp_elock g' NULL = None" using ok l(2) by (cases "l = NULL") (auto simp: locks_ok_def g'_def)
  show ?thesis unfolding locks_ok_def ky
  proof (intro conjI ballI impI m z)
    fix a b assume ab: "a \<in> set as" "b \<in> set as" "a \<noteq> b" "lk_key g a = lk_key g b"
    then have "a \<noteq> l" using alone by metis
    then show "fl_mode g' a = SHARED_LOCK" using ab ok md by (simp add: locks_ok_def)
  next
    fix a assume a: "a \<in> set as" "lk_key g a = k"
    then have "a \<noteq> l" using key by blast
    then show "fl_mode g' a = SHARED_LOCK" using a ok md by (simp add: locks_ok_def)
  qed
qed

text \<open>C13. Changing the mode of an open file's lock: an object keeps at most one lock when one of its
  locks is exclusive. The change is granted exactly when the lock has the mode already or is the
  only lock on the object; then this lock has the new mode and no other lock changes. Otherwise
  the action fails with \<open>ERROR_OBJECT_IN_USE\<close> and changes nothing. Asked through a lock instead of a
  file handle it always fails, whatever the mode.\<close>

theorem act_CHANGE_MODE_exclusive:
  assumes ok: "locks_ok k (h_g w) as" and fh: "fh_inv (h_g w) hs" and p: "p \<in> set hs" "hp_efh (h_g w) p = Some e"
    and l: "efh_ELock e \<in> set as" and key: "lk_key (h_g w) (efh_ELock e) \<noteq> k" and mode: "NewMode = SHARED_LOCK \<or> NewMode = EXCLUSIVE_LOCK"
  shows "(\<exists>r w'. act_CHANGE_MODE CHANGE_FH (efh_Id e) fl NewMode w = Some (r, w') \<and> locks_ok k (h_g w') as \<and>
      (if fl_mode (h_g w) (efh_ELock e) \<noteq> NewMode \<and> (\<exists>b\<in>set as. b \<noteq> efh_ELock e \<and> lk_key (h_g w) b = lk_key (h_g w) (efh_ELock e))
       then r = DOSFALSE \<and> h_g w' = (h_g w)\<lparr>g_Res1 := DOSFALSE, g_Res2 := ERROR_OBJECT_IN_USE\<rparr>
       else r = DOSTRUE \<and> fl_mode (h_g w') (efh_ELock e) = NewMode \<and> lk_key (h_g w') = lk_key (h_g w) \<and>
         (\<forall>b. b \<noteq> efh_ELock e \<longrightarrow> hp_elock (h_g w') b = hp_elock (h_g w) b))) \<and>
    act_CHANGE_MODE CHANGE_LOCK n a NewMode w = Some (h_SetRes DOSFALSE ERROR_OBJECT_WRONG_TYPE w)"
proof -
  let ?g = "h_g w" and ?l = "efh_ELock e"
  have m: "fl_members ?g as" using ok by (simp add: locks_ok_def)
  have fm: "fh_members ?g hs" using fh by (simp add: fh_inv_def)
  have "p \<noteq> NULL" using p(1) links_not_NULL fm unfolding fh_members_def by metis
  then have look: "fh_Lookup (efh_Id e) ?g = Some p" using fh_Lookup_member [OF fh p(1)] p(2) by (simp add: fh_id_def)
  obtain lk where lk: "hp_elock ?g ?l = Some lk" using fl_members_alloc [OF m l] by blast
  have d: "distinct as" using m links_distinct unfolding fl_members_def by blast
  have cnt: "lock_NumLocksFromKey (fl_Key lk) ?g = Some (int (length (filter (\<lambda>a. lk_key ?g a = lk_key ?g ?l) as)))"
    using lock_NumLocksFromKey_eq [OF m, of "fl_Key lk"] lk by (simp add: lk_key_def)
  have one: "int (length (filter (\<lambda>a. lk_key ?g a = lk_key ?g ?l) as)) > 1 \<longleftrightarrow> (\<exists>b\<in>set as. b \<noteq> ?l \<and> lk_key ?g b = lk_key ?g ?l)"
    using count_one [OF d l, of "\<lambda>a. lk_key ?g a = lk_key ?g ?l"] by simp
  have run: "act_CHANGE_MODE CHANGE_FH (efh_Id e) fl NewMode w = change_access ?l NewMode w"
    using mode look p(2) \<open>p \<noteq> NULL\<close> by (simp add: act_CHANGE_MODE_def)
  have md: "fl_mode ?g ?l = fl_Access lk" using lk by (simp add: fl_mode_def)
  have res: "locks_ok k (?g\<lparr>g_Res1 := x\<rparr>) as" "locks_ok k (?g\<lparr>g_Res1 := x, g_Res2 := y\<rparr>) as" for x y
    using ok by (simp_all add: locks_ok_def fl_members_def fl_next_def [abs_def] lk_key_def fl_mode_def)
  have fil: "\<exists>r w'. act_CHANGE_MODE CHANGE_FH (efh_Id e) fl NewMode w = Some (r, w') \<and> locks_ok k (h_g w') as \<and>
      (if fl_mode ?g ?l \<noteq> NewMode \<and> (\<exists>b\<in>set as. b \<noteq> ?l \<and> lk_key ?g b = lk_key ?g ?l)
       then r = DOSFALSE \<and> h_g w' = ?g\<lparr>g_Res1 := DOSFALSE, g_Res2 := ERROR_OBJECT_IN_USE\<rparr>
       else r = DOSTRUE \<and> fl_mode (h_g w') ?l = NewMode \<and> lk_key (h_g w') = lk_key ?g \<and>
         (\<forall>b. b \<noteq> ?l \<longrightarrow> hp_elock (h_g w') b = hp_elock ?g b))"
  proof (cases "fl_Access lk = NewMode")
    case True
    then have "change_access ?l NewMode w = Some (DOSTRUE, w\<lparr>h_g := ?g\<lparr>g_Res1 := DOSTRUE\<rparr>\<rparr>)"
      using lk by (simp add: change_access_def h_SetRes_simps)
    then show ?thesis unfolding run using True md res by (simp add: fl_mode_def lk_key_def [abs_def])
  next
    case ne: False
    show ?thesis
    proof (cases "\<exists>b\<in>set as. b \<noteq> ?l \<and> lk_key ?g b = lk_key ?g ?l")
      case True
      then have "change_access ?l NewMode w = Some (DOSFALSE, w\<lparr>h_g := ?g\<lparr>g_Res1 := DOSFALSE, g_Res2 := ERROR_OBJECT_IN_USE\<rparr>\<rparr>)"
        using lk ne cnt one by (simp add: change_access_def h_SetRes_simps)
      then show ?thesis unfolding run using ne md res True by simp
    next
      case False
      let ?g' = "?g\<lparr>hp_elock := (hp_elock ?g)(?l \<mapsto> lk\<lparr>fl_Access := NewMode\<rparr>), g_Res1 := DOSTRUE\<rparr>"
      have "change_access ?l NewMode w = Some (DOSTRUE, w\<lparr>h_g := ?g'\<rparr>)"
        using lk ne cnt one False by (simp add: change_access_def h_SetRes_simps)
      moreover have "locks_ok k ?g' as" by (rule locks_ok_set_mode [OF ok l lk _ key]) (use False in blast)
      moreover have "fl_mode ?g' ?l = NewMode" "lk_key ?g' = lk_key ?g" using lk by (auto simp: fl_mode_def lk_key_def fun_eq_iff)
      ultimately show ?thesis unfolding run using False by (intro exI [of _ DOSTRUE] exI [of _ "w\<lparr>h_g := ?g'\<rparr>"]) simp
    qed
  qed
  have "act_CHANGE_MODE CHANGE_LOCK n a NewMode w = Some (h_SetRes DOSFALSE ERROR_OBJECT_WRONG_TYPE w)"
    by (simp add: act_CHANGE_MODE_def)
  then show ?thesis using fil by blast
qed

text \<open>Two locks on different objects, the first held by an open file.\<close>

definition open_locks :: "unit global" where
  "open_locks = two_locks\<lparr>g_FH := 7, fh_LastId := 1, hp_efh := [7 \<mapsto> run_efh]\<rparr>"

lemma open_locks_ok:
  "locks_ok 99 open_locks [5, 6]" "fh_inv open_locks [7]" "hp_efh open_locks 7 = Some run_efh" "efh_ELock run_efh = 5" "efh_Id run_efh = 1"
  "lk_key open_locks 5 = 1" "lk_key open_locks 6 = 2"
  by (simp_all add: open_locks_def two_locks_def locks_ok_def fl_members_def links_Cons fl_next_def lk_key_def fl_mode_def fh_inv_def
      fh_members_def fh_next_def fh_id_def run_efh_def wc_CreateCache_def cleared_global_def)

theorem act_CHANGE_MODE_exclusive_witness:
  "\<exists>w'. act_CHANGE_MODE CHANGE_FH 1 NULL EXCLUSIVE_LOCK (toy_handler open_locks) = Some (DOSTRUE, w') \<and> fl_mode (h_g w') 5 = EXCLUSIVE_LOCK"
proof -
  let ?w = "toy_handler open_locks"
  have g: "h_g ?w = open_locks" by (simp add: toy_handler_def)
  have l: "efh_ELock run_efh \<in> set [5, 6]" "lk_key open_locks (efh_ELock run_efh) \<noteq> 99" using open_locks_ok(4,6) by simp_all
  have alone: "\<not> (\<exists>b\<in>set [5, 6]. b \<noteq> 5 \<and> lk_key open_locks b = lk_key open_locks 5)" using open_locks_ok(6,7) by simp
  from act_CHANGE_MODE_exclusive [of 99 ?w, unfolded g, OF open_locks_ok(1,2) _ open_locks_ok(3) l disjI2 [OF refl], of NULL 0 0]
  show ?thesis unfolding open_locks_ok(4,5) using alone by auto
qed

end
