(* ===== verification/Creds.thy ===== *)
theory Creds
  imports State
begin

text \<open>
  The credentials database (src/src/cred.c): whose identity the remote calls carry. Either one
  user was set for the whole volume, or each client program is served with its own identity,
  cached for the last client. The user data base of AmiTCP is the record \<open>usergroup\<close>, what it
  knows of the tasks and users; tasks are addresses. A credential is the record \<open>auth\<close>; whether
  \<open>authunix_create\<close> finds memory is an argument, and \<open>auth_destroy\<close> leaves nothing.
\<close>

unbundle bit_operations_syntax

abbreviation CRF_USER :: u32 where "CRF_USER \<equiv> 1"
abbreviation CRF_UMASK :: u32 where "CRF_UMASK \<equiv> 2"
abbreviation (input) CR_DEFAULT_UMASK :: u32 where "CR_DEFAULT_UMASK \<equiv> 18"
abbreviation NGROUPS :: nat where "NGROUPS \<equiv> 32"

record auth =
  au_host :: string
  au_uid :: u32
  au_gid :: u32
  au_gids :: "u32 list"

record ugcreds =
  ug_umask :: u32
  ug_euid :: u32
  ug_rgid :: u32
  ug_groups :: "u32 list"

record usergroup =
  getpwnam :: "string \<Rightarrow> (u32 \<times> u32) option"
  grents :: "(u32 \<times> string list) list"
  getcredentials :: "addr \<Rightarrow> ugcreds option"

record cred =
  cd_Flags :: u32
  cd_UserName :: "string option"
  cd_UID :: u32
  cd_GID :: u32
  cd_GIDS :: "u32 list"
  cd_NGroups :: nat
  cd_UMask :: u32
  cd_Auth :: "auth option"
  cd_ClientCache :: addr
  cd_ClientCacheUMask :: addr

definition cr_Init :: "cred \<Rightarrow> cred" where
  "cr_Init cr = cr\<lparr>cd_Flags := 0, cd_ClientCache := NULL, cd_Auth := None\<rparr>"

definition cr_InvalidateCache :: "cred \<Rightarrow> cred" where
  "cr_InvalidateCache cr = cr\<lparr>cd_ClientCache := NULL, cd_ClientCacheUMask := NULL\<rparr>"

definition cr_Flush :: "cred \<Rightarrow> cred" where
  "cr_Flush cr = cr_InvalidateCache cr"

definition cr_CleanUp :: "cred \<Rightarrow> cred" where
  "cr_CleanUp cr = (if cd_Auth cr \<noteq> None then cr_InvalidateCache (cr\<lparr>cd_Auth := None\<rparr>) else cr)"

text \<open>\<open>mem\<close> tells whether the copy of the name succeeds.\<close>

definition cr_SetUser :: "usergroup \<Rightarrow> bool \<Rightarrow> string \<Rightarrow> cred \<Rightarrow> bool \<times> cred" where
  "cr_SetUser ug mem user cr =
     (if \<not> mem then (False, cr)
      else case getpwnam ug user of
             None \<Rightarrow> (False, cr)
           | Some (uid, gid) \<Rightarrow>
               (True, cr\<lparr>cd_UserName := Some user, cd_UID := uid, cd_GID := gid, cd_Flags := cd_Flags cr OR CRF_USER,
                         cd_ClientCache := NULL\<rparr>))"

definition cr_UMaskWasSet :: "cred \<Rightarrow> bool" where
  "cr_UMaskWasSet cr \<longleftrightarrow> cd_Flags cr AND CRF_UMASK \<noteq> 0"

definition cr_UpdateCreds :: "usergroup \<Rightarrow> addr \<Rightarrow> cred \<Rightarrow> cred" where
  "cr_UpdateCreds ug client cr =
     (if cd_Flags cr AND CRF_UMASK = 0 \<and> client \<noteq> cd_ClientCacheUMask cr then
        (case getcredentials ug client of
           Some creds \<Rightarrow> cr\<lparr>cd_UMask := ug_umask creds, cd_ClientCacheUMask := client\<rparr>
         | None \<Rightarrow> cr\<lparr>cd_UMask := CR_DEFAULT_UMASK, cd_ClientCacheUMask := NULL\<rparr>)
      else cr)"

definition cr_SetUMask :: "u32 \<Rightarrow> cred \<Rightarrow> cred" where
  "cr_SetUMask umask cr = cr\<lparr>cd_Flags := cd_Flags cr OR CRF_UMASK, cd_UMask := umask, cd_ClientCacheUMask := NULL\<rparr>"

definition cr_GetUser :: "cred \<Rightarrow> string option" where
  "cr_GetUser cr = (if cd_Flags cr AND CRF_USER \<noteq> 0 then cd_UserName cr else None)"

text \<open>The groups a name is a member of; \<open>None\<close> stands for -1, more than \<open>gidsetlen\<close>.\<close>

fun getgroups_loop :: "string \<Rightarrow> nat \<Rightarrow> (u32 \<times> string list) list \<Rightarrow> u32 list \<Rightarrow> u32 list option" where
  "getgroups_loop name gidsetlen [] gidset = Some gidset"
| "getgroups_loop name gidsetlen ((gid, mem) # grps) gidset =
     (if name \<in> set mem then
        if length gidset = gidsetlen then None else getgroups_loop name gidsetlen grps (gidset @ [gid])
      else getgroups_loop name gidsetlen grps gidset)"

definition cr_getgroups :: "usergroup \<Rightarrow> string \<Rightarrow> nat \<Rightarrow> u32 list option" where
  "cr_getgroups ug name gidsetlen = getgroups_loop name (min gidsetlen NGROUPS) (grents ug) []"

text \<open>Storing the groups into the array.\<close>

definition put_gids :: "u32 list \<Rightarrow> u32 list \<Rightarrow> u32 list" where
  "put_gids gs old = gs @ drop (length gs) old"

text \<open>\<open>ok\<close> tells whether \<open>authunix_create\<close> succeeds; the result is \<open>ret_auth\<close>.\<close>

definition cr_SetAuth :: "usergroup \<Rightarrow> bool \<Rightarrow> addr \<Rightarrow> string \<Rightarrow> cred \<Rightarrow> auth option \<times> cred" where
  "cr_SetAuth ug ok client HostName cr =
     (if cd_Flags cr AND CRF_USER \<noteq> 0 then
        (case (getpwnam ug (the (cd_UserName cr)), cr_getgroups ug (the (cd_UserName cr)) NGROUPS) of
           (Some (uid, gid), Some groups) \<Rightarrow>
             let cr1 = cr\<lparr>cd_UID := uid, cd_GID := gid, cd_NGroups := length groups, cd_GIDS := put_gids groups (cd_GIDS cr)\<rparr>;
                 a = \<lparr>au_host = HostName, au_uid = uid, au_gid = gid, au_gids = groups\<rparr>;
                 cr2 = (if ok then cr1\<lparr>cd_Auth := Some a\<rparr> else cr1)
             in (if ok then Some a else None, cr2\<lparr>cd_ClientCache := NULL\<rparr>)
         | _ \<Rightarrow> (None, cr))
      else
        (case getcredentials ug client of
           Some creds \<Rightarrow>
             let a = \<lparr>au_host = HostName, au_uid = ug_euid creds, au_gid = ug_rgid creds, au_gids = ug_groups creds\<rparr>
             in if ok then
                  (Some a, cr\<lparr>cd_Auth := Some a, cd_UID := ug_euid creds, cd_GID := ug_rgid creds, cd_NGroups := length (ug_groups creds),
                              cd_GIDS := put_gids (ug_groups creds) (cd_GIDS cr), cd_ClientCache := client\<rparr>)
                else (None, cr)
         | None \<Rightarrow> (None, cr)))"

definition cr_UpdateAuth :: "usergroup \<Rightarrow> bool \<Rightarrow> addr \<Rightarrow> string \<Rightarrow> cred \<Rightarrow> bool \<times> cred" where
  "cr_UpdateAuth ug ok client HostName cr =
     (if cd_Auth cr = None \<or> cd_Flags cr AND CRF_USER = 0 \<and> client \<noteq> cd_ClientCache cr then
        let (ret_auth, cr1) = cr_SetAuth ug ok client HostName cr in (ret_auth \<noteq> None, cr1)
      else (True, cr))"

definition cr_AuthNeedsUpdate :: "usergroup \<Rightarrow> addr \<Rightarrow> cred \<Rightarrow> bool \<times> cred" where
  "cr_AuthNeedsUpdate ug client cr =
     (if cd_Auth cr = None then (True, cr)
      else if cd_Flags cr AND CRF_USER \<noteq> 0 then (False, cr)
      else if client \<noteq> cd_ClientCache cr then (True, cr)
      else (case getcredentials ug client of
              Some creds \<Rightarrow> if ug_euid creds \<noteq> cd_UID cr then (True, cr_InvalidateCache cr) else (False, cr)
            | None \<Rightarrow> (False, cr)))"

subsection \<open>Whose identity is used\<close>

text \<open>The cached identity belongs to the cached client.\<close>

definition cred_ok :: "cred \<Rightarrow> bool" where
  "cred_ok cr \<longleftrightarrow> (cd_ClientCache cr \<noteq> NULL \<longrightarrow> cd_Flags cr AND CRF_USER = 0 \<and> (\<exists>a. cd_Auth cr = Some a \<and> au_uid a = cd_UID cr))"

lemma cr_UpdateCreds_same:
  "cd_Auth (cr_UpdateCreds ug t cr) = cd_Auth cr" "cd_Flags (cr_UpdateCreds ug t cr) = cd_Flags cr" "cd_UID (cr_UpdateCreds ug t cr) = cd_UID cr"
  "cd_ClientCache (cr_UpdateCreds ug t cr) = cd_ClientCache cr" "cd_GID (cr_UpdateCreds ug t cr) = cd_GID cr"
  "cd_UserName (cr_UpdateCreds ug t cr) = cd_UserName cr" "cred_ok (cr_UpdateCreds ug t cr) = cred_ok cr"
  by (simp_all add: cr_UpdateCreds_def cred_ok_def split: option.splits)

lemma umask_flag: "(x OR CRF_UMASK) AND CRF_USER = x AND CRF_USER"
  by (simp add: bit.conj_disj_distrib2)

lemma cred_ok_steps:
  assumes "cred_ok cr"
  shows "cred_ok (snd (cr_SetUser ug mem u cr))" "cred_ok (cr_SetUMask m cr)" "cred_ok (snd (cr_AuthNeedsUpdate ug t cr))"
    "cred_ok (snd (cr_UpdateAuth ug ok t h cr))" "cred_ok (cr_Flush cr)" "cred_ok (cr_CleanUp cr)" "cred_ok (cr_Init cr)"
  using assms
  by (auto simp: cred_ok_def cr_SetUser_def cr_SetUMask_def cr_AuthNeedsUpdate_def cr_UpdateAuth_def cr_SetAuth_def cr_Flush_def
      cr_InvalidateCache_def cr_CleanUp_def cr_Init_def umask_flag Let_def split: option.splits prod.splits)

end
