(* ===== verification/Serve.thy ===== *)
theory Serve
  imports Creds Objects Filesys
begin

text \<open>
  The main loop of the handler (src/src/nfs_handler.c) and its timer (src/src/timer.c): waiting for a packet,
  finding its function, serving it with the identity of its client, unlocking the caches,
  replying. The remote calls are functions of the credential in force, \<open>g_NFSClnt->cl_auth\<close>;
  \<open>call\<close> stands for the call through the function pointer: its results are \<open>Res1\<close> and
  \<open>g_DoReply\<close>.
\<close>

unbundle bit_operations_syntax

record 'srv main =
  m_w :: "'srv handler"
  m_cr :: cred
  cl_auth :: "auth option"

record actindex =
  ai_index :: "atientry list"
  ATEntryRead :: "nat option"
  ATEntryWrite :: "nat option"

type_synonym 'srv actions = "auth option \<Rightarrow> ActionFunc \<Rightarrow> dospkt \<Rightarrow> 'srv main \<Rightarrow> (int \<times> bool \<times> 'srv main) option"

definition set_res :: "int \<Rightarrow> int \<Rightarrow> 'srv main \<Rightarrow> 'srv main" where
  "set_res r1 r2 m = m\<lparr>m_w := snd (h_SetRes r1 r2 (m_w m))\<rparr>"

text \<open>The fields of \<open>g_Creds\<close> that the actions read.\<close>

definition sync_creds :: "'srv main \<Rightarrow> 'srv main" where
  "sync_creds m = m\<lparr>m_w := (m_w m)\<lparr>cr_UID := cd_UID (m_cr m), cr_GID := cd_GID (m_cr m), cr_UMask := cd_UMask (m_cr m)\<rparr>\<rparr>"

subsection \<open>The timer\<close>

text \<open>\<open>own\<close> tells whether the packet is the handler's timer packet.\<close>

definition act_TIMER :: "'srv env \<Rightarrow> 'srv rpc_ops \<Rightarrow> bool \<Rightarrow> 'srv handler \<Rightarrow> (int \<times> bool \<times> 'srv handler) option" where
  "act_TIMER env rpc own w =
     (if \<not> own then let (r, w') = h_SetRes DOSFALSE ERROR_OBJECT_WRONG_TYPE w in Some (r, True, w')
      else do {
        let t = h_tick w;
        d \<leftarrow> dc_Bury (e_clk env t) (h_dirs w);
        a \<leftarrow> attrs_Bury (e_clk env (t + 1)) (h_attrs w);
        (r, g1) \<leftarrow> act_FLUSH rpc (h_g w);
        let (r', w') = h_SetRes1 r (tick 2 (w\<lparr>h_dirs := d, h_attrs := a, h_g := g1\<rparr>));
        Some (r', False, w')
      })"

subsection \<open>One packet\<close>

text \<open>A change of the credential: first the data written under the old one is flushed. The result
  tells whether the packet is to be served.\<close>

definition update_auth ::
  "usergroup \<Rightarrow> bool \<Rightarrow> string \<Rightarrow> (auth option \<Rightarrow> 'srv rpc_ops) \<Rightarrow> addr \<Rightarrow> 'srv main \<Rightarrow> (bool \<times> 'srv main) option" where
  "update_auth ug ok HostName rpc client m =
     (let (needed, c1) = cr_AuthNeedsUpdate ug client (m_cr m) in
      if \<not> needed then Some (True, m\<lparr>m_cr := c1\<rparr>)
      else do {
        (_, g1) \<leftarrow> act_FLUSH (rpc (cl_auth m)) (h_g (m_w m));
        let m1 = m\<lparr>m_w := (m_w m)\<lparr>h_g := g1\<rparr>\<rparr>;
        let (updated, c2) = cr_UpdateAuth ug ok client HostName c1;
        Some (if updated then (True, m1\<lparr>m_cr := c2, cl_auth := cd_Auth c2\<rparr>)
              else (False, set_res DOSFALSE ERROR_NO_FREE_STORE (m1\<lparr>m_cr := c2\<rparr>)))
      })"

text \<open>The call, and the end of every call: no cached entry is referenced any more.\<close>

definition run_action :: "'srv env \<Rightarrow> 'srv actions \<Rightarrow> ActionFunc \<Rightarrow> dospkt \<Rightarrow> 'srv main \<Rightarrow> (bool \<times> 'srv main) option" where
  "run_action env call f pkt m =
     do {
       (Res1, DoReply, m1) \<leftarrow> call (cl_auth m) f pkt (sync_creds m);
       let t = h_tick (m_w m1);
       a \<leftarrow> attrs_UnLockAll (e_clk env t) (h_attrs (m_w m1));
       d \<leftarrow> dc_UnLockAll (e_clk env (t + 1)) (h_dirs (m_w m1));
       let w = tick 2 ((m_w m1)\<lparr>h_attrs := a, h_dirs := d\<rparr>);
       Some (DoReply, m1\<lparr>m_w := if Res1 = DOSTRUE then snd (h_SetRes1 Res1 w) else w\<rparr>)
     }"

text \<open>The packet \<open>pkt\<close> of the task \<open>client\<close>; \<open>res\<close> are the results it comes with, unless it is an ARexx message. The
  first result is the reply.\<close>

definition serve_packet ::
  "'srv env \<Rightarrow> usergroup \<Rightarrow> bool \<Rightarrow> string \<Rightarrow> (auth option \<Rightarrow> 'srv rpc_ops) \<Rightarrow> 'srv actions \<Rightarrow> actindex \<Rightarrow> (int \<times> int) option \<Rightarrow> addr \<Rightarrow> dospkt \<Rightarrow>
     'srv main \<Rightarrow> ((int \<times> int) option \<times> 'srv main) option" where
  "serve_packet env ug ok HostName rpc call ai res client pkt m0 =
     do {
       let m = (case res of None \<Rightarrow> m0 | Some (r1, r2) \<Rightarrow> set_res r1 r2 m0);
       (Func, Internal, pkt1) \<leftarrow> act_Prepare ActionTable (ai_index ai) (ATEntryRead ai) (ATEntryWrite ai) (g_Flags (h_g (m_w m))) pkt;
       (DoReply, m3) \<leftarrow>
         (case Func of
            None \<Rightarrow> Some (True, set_res DOSFALSE ERROR_ACTION_NOT_KNOWN m)
          | Some f \<Rightarrow>
              if Internal = Some False \<and> f \<noteq> F_IOCONTROL then
                do {
                  (go, m2) \<leftarrow> update_auth ug ok HostName rpc client (m\<lparr>m_cr := cr_UpdateCreds ug client (m_cr m)\<rparr>);
                  (if go then run_action env call f pkt1 m2 else Some (True, m2))
                }
              else run_action env call f pkt1 m);
       Some (if DoReply then Some (g_Res1 (h_g (m_w m3)), g_Res2 (h_g (m_w m3))) else None, m3)
     }"

subsection \<open>The loop\<close>

text \<open>Each step serves a packet or answers a break signal, while \<open>GF_STATE_RUNNING\<close> is set.\<close>

inductive main_step ::
  "'srv env \<Rightarrow> usergroup \<Rightarrow> string \<Rightarrow> (auth option \<Rightarrow> 'srv rpc_ops) \<Rightarrow> 'srv actions \<Rightarrow> actindex \<Rightarrow> 'srv main \<Rightarrow> 'srv main \<Rightarrow> bool"
  for env ug HostName rpc call ai where
  packet: "g_State (m_w m) AND GF_STATE_RUNNING \<noteq> 0 \<Longrightarrow>
    serve_packet env ug ok HostName rpc call ai res client pkt m = Some (reply, m') \<Longrightarrow> main_step env ug HostName rpc call ai m m'"
| break: "g_State (m_w m) AND GF_STATE_RUNNING \<noteq> 0 \<Longrightarrow> act_DIE (rpc (cl_auth m)) (m_w m) = Some (r, w') \<Longrightarrow>
    main_step env ug HostName rpc call ai m (m\<lparr>m_w := w'\<rparr>)"

inductive_cases main_stepE: "main_step env ug HostName rpc call ai m m'"

end
