(* ===== verification/ServeInv.thy ===== *)
theory ServeInv
  imports Serve FlushAll
begin

text \<open>
  What the main loop promises to a client: its packet is served under its own identity, and a
  change of identity first writes what was written under the old one.
\<close>

unbundle bit_operations_syntax

lemma files_ok_results: "files_ok (g\<lparr>g_Res1 := x, g_Res2 := y\<rparr>) hs F A fs rbs = files_ok g hs F A fs rbs"
proof -
  let ?g = "g\<lparr>g_Res1 := x, g_Res2 := y\<rparr>"
  have n: "fh_next ?g = fh_next g" "fh_id ?g = fh_id g" "nxt ?g = nxt g" "hdr_at ?g = hdr_at g"
    by (auto simp: fh_next_def fh_id_def nxt_def hdr_at_def fun_eq_iff)
  have "cluster ?g w as = cluster g w as" for w as by (simp add: cluster_def n)
  moreover have "fh_inv ?g hs = fh_inv g hs" by (simp add: fh_inv_def fh_members_def n)
  moreover have "wpool ?g us fs rbs = wpool g us fs rbs" for us by (simp add: wpool_def mb_inv_def n)
  ultimately show ?thesis by (simp add: files_ok_def file_at_def efh_fh_def cong: option.case_cong)
qed

lemma flushed_results: "flushed content F A (g\<lparr>g_Res1 := x, g_Res2 := y\<rparr>) hs = flushed content F A g hs"
proof -
  have "wview (g\<lparr>g_Res1 := x, g_Res2 := y\<rparr>) as = wview g as" for as
    by (rule ext, rule wview_cong) (simp add: hdr_at_def)
  then show ?thesis by (simp add: flushed_def)
qed

text \<open>When an update of the credential is needed: an unchanged credential has the user identity of the client.\<close>

lemma cr_AuthNeedsUpdate_not:
  assumes "cr_AuthNeedsUpdate ug t cr = (False, c1)" and "cd_Flags cr AND CRF_USER = 0" and "cred_ok cr" and "t \<noteq> NULL"
    and "getcredentials ug t = Some c"
  shows "c1 = cr \<and> (\<exists>a. cd_Auth cr = Some a \<and> au_uid a = ug_euid c)"
  using assms by (auto simp: cr_AuthNeedsUpdate_def cred_ok_def split: if_splits)

lemma cr_UpdateAuth_needed:
  assumes "cr_AuthNeedsUpdate ug t cr = (True, c1)" and "cd_Flags cr AND CRF_USER = 0" and "t \<noteq> NULL"
    and "getcredentials ug t = Some c"
  shows "cr_UpdateAuth ug ok t h c1 = (if ok then (True, snd (cr_SetAuth ug True t h c1)) else (False, c1))"
    and "cd_Auth (snd (cr_SetAuth ug True t h c1)) = Some \<lparr>au_host = h, au_uid = ug_euid c, au_gid = ug_rgid c, au_gids = ug_groups c\<rparr>"
proof -
  have c1: "cd_Flags c1 AND CRF_USER = 0" "cd_Auth c1 = None \<or> t \<noteq> cd_ClientCache c1"
    using assms by (auto simp: cr_AuthNeedsUpdate_def cr_InvalidateCache_def split: if_splits)
  show "cr_UpdateAuth ug ok t h c1 = (if ok then (True, snd (cr_SetAuth ug True t h c1)) else (False, c1))"
    using c1 assms(4) by (auto simp: cr_UpdateAuth_def cr_SetAuth_def Let_def)
  show "cd_Auth (snd (cr_SetAuth ug True t h c1)) = Some \<lparr>au_host = h, au_uid = ug_euid c, au_gid = ug_rgid c, au_gids = ug_groups c\<rparr>"
    using c1 assms(4) by (auto simp: cr_SetAuth_def Let_def)
qed

text \<open>The credential of \<open>m\<close> is the one of the client with the credentials \<open>c\<close>.\<close>

definition runs_as :: "ugcreds \<Rightarrow> 'srv main \<Rightarrow> bool" where
  "runs_as c m \<longleftrightarrow> cl_auth m = cd_Auth (m_cr m) \<and> (\<exists>a. cl_auth m = Some a \<and> au_uid a = ug_euid c)"

lemma update_auth_ok:
  assumes auth: "cl_auth m = cd_Auth (m_cr m)" and flag: "cd_Flags (m_cr m) AND CRF_USER = 0" and cr: "cred_ok (m_cr m)"
    and t: "t \<noteq> NULL" "getcredentials ug t = Some c"
    and srv: "wserver_ok (rpc (cl_auth m)) content (g_NFSGlobal (h_g (m_w m)))" and nz: "writes_fail_nonzero (rpc (cl_auth m))"
    and files: "files_ok (h_g (m_w m)) hs F A fs rbs"
  shows "\<exists>go m'. update_auth ug ok h rpc t m = Some (go, m') \<and>
    (if go then runs_as c m' \<and> cred_ok (m_cr m') \<and>
       (m' = m \<or> (\<exists>fs'. files_ok (h_g (m_w m')) hs F (\<lambda>_. []) fs' rbs \<and>
          flushed_unless_pending content F A (h_g (m_w m)) hs (h_g (m_w m'))))
     else \<not> ok \<and> cl_auth m' = cl_auth m \<and> g_Res1 (h_g (m_w m')) = DOSFALSE \<and> g_Res2 (h_g (m_w m')) = ERROR_NO_FREE_STORE)"
proof (cases "cr_AuthNeedsUpdate ug t (m_cr m)")
  case (Pair needed c1)
  show ?thesis
  proof (cases needed)
    case False
    then have "c1 = m_cr m" "\<exists>a. cd_Auth (m_cr m) = Some a \<and> au_uid a = ug_euid c"
      using cr_AuthNeedsUpdate_not [of ug t "m_cr m" c1 c] Pair flag cr t by auto
    then show ?thesis using False Pair auth cr by (intro exI [of _ True]) (simp add: update_auth_def runs_as_def)
  next
    case True
    obtain g1 fs1 where fl: "act_FLUSH (rpc (cl_auth m)) (h_g (m_w m)) = Some (DOSTRUE, g1)" "files_ok g1 hs F (\<lambda>_. []) fs1 rbs"
      "flushed_unless_pending content F A (h_g (m_w m)) hs g1"
      using act_FLUSH_ok [OF srv nz files] by blast
    have need: "cr_AuthNeedsUpdate ug t (m_cr m) = (True, c1)" using Pair True by simp
    note up = cr_UpdateAuth_needed [OF need flag t]
    have inv: "cred_ok (snd (cr_UpdateAuth ug ok t h c1))"
      using cred_ok_steps(3) [OF cr, of ug t] Pair cred_ok_steps(4) [of c1 ug ok t h] by simp
    show ?thesis
      using True Pair fl up inv [unfolded up(1)] unfolding update_auth_def runs_as_def
      by (cases ok) (auto simp: set_res_def h_SetRes_def SetRes_def intro: exI [of _ fs1])
  qed
qed

text \<open>C14. Whose identity a packet is served with. The handler serves each client as itself (no user was set
  for the volume); a packet of a client known to the user data base arrives, for any action of the
  table that is neither internal nor \<open>ACTION_IOCONTROL\<close>, which the main loop both serves without looking
  at the client. Writes are sent synchronously (at most one write call outstanding, that is without
  \<open>ASYNCRPC\<close>, whose path can lose data), and WRITE behaves as RFC 1094 says. Then either there is no
  memory for a new credential, and the packet is answered with \<open>ERROR_NO_FREE_STORE\<close> without calling
  the action, or the action runs while the connection's credential carries the effective user id of
  this client, whoever was served before. Whenever the credential is exchanged for that, no open file
  has dirty buffers any more: every buffered write of a file has been sent with the credential it was
  made under, unless a handle of that same file has an error pending.\<close>

theorem serve_packet_identity:
  assumes "cd_Flags (m_cr m) AND CRF_USER = 0" and "cred_ok (m_cr m)" and "cl_auth m = cd_Auth (m_cr m)"
    and "client \<noteq> NULL" and "getcredentials ug client = Some c"
    and "wserver_ok (rpc (cl_auth m)) content (g_NFSGlobal (h_g (m_w m)))" and "writes_fail_nonzero (rpc (cl_auth m))"
    and "files_ok (h_g (m_w m)) hs F A fs rbs"
    and "act_Prepare ActionTable (ai_index ai) (ATEntryRead ai) (ATEntryWrite ai) (g_Flags (h_g (m_w m))) pkt = Some (Some f, Some False, pkt1)"
    and "f \<noteq> F_IOCONTROL"
  shows "(\<not> ok \<and> (\<exists>m'. serve_packet env ug ok h rpc call ai res client pkt m = Some (Some (DOSFALSE, ERROR_NO_FREE_STORE), m') \<and> cl_auth m' = cl_auth m)) \<or>
    (\<exists>m1. runs_as c m1 \<and>
       serve_packet env ug ok h rpc call ai res client pkt m =
         map_option (\<lambda>(DoReply, m2). (if DoReply then Some (g_Res1 (h_g (m_w m2)), g_Res2 (h_g (m_w m2))) else None, m2))
           (run_action env call f pkt1 m1) \<and>
       (cl_auth m1 = cl_auth m \<or> (\<exists>fs'. files_ok (h_g (m_w m1)) hs F (\<lambda>_. []) fs' rbs \<and>
          flushed_unless_pending content F A (h_g (m_w m)) hs (h_g (m_w m1)))))"
proof -
  define m0 where "m0 = (case res of None \<Rightarrow> m | Some (r1, r2) \<Rightarrow> set_res r1 r2 m)"
  define mu where "mu = m0\<lparr>m_cr := cr_UpdateCreds ug client (m_cr m0)\<rparr>"
  have g0: "\<exists>x y. h_g (m_w m0) = (h_g (m_w m))\<lparr>g_Res1 := x, g_Res2 := y\<rparr>" "m_cr m0 = m_cr m" "cl_auth m0 = cl_auth m"
  proof -
    show "\<exists>x y. h_g (m_w m0) = (h_g (m_w m))\<lparr>g_Res1 := x, g_Res2 := y\<rparr>"
    proof (cases res)
      case None
      then show ?thesis by (intro exI [of _ "g_Res1 (h_g (m_w m))"] exI [of _ "g_Res2 (h_g (m_w m))"]) (simp add: m0_def)
    next
      case (Some r)
      then show ?thesis by (intro exI [of _ "fst r"] exI [of _ "snd r"]) (simp add: m0_def set_res_def h_SetRes_def SetRes_def case_prod_unfold)
    qed
  qed (auto simp: m0_def set_res_def split: option.split)
  then obtain x y where g: "h_g (m_w mu) = (h_g (m_w m))\<lparr>g_Res1 := x, g_Res2 := y\<rparr>" by (auto simp: mu_def)
  have cr: "cl_auth mu = cd_Auth (m_cr mu)" "cd_Flags (m_cr mu) AND CRF_USER = 0" "cred_ok (m_cr mu)" "cl_auth mu = cl_auth m"
    using g0(2,3) assms(1-3) by (simp_all add: mu_def cr_UpdateCreds_same)
  have srv: "wserver_ok (rpc (cl_auth mu)) content (g_NFSGlobal (h_g (m_w mu)))" "writes_fail_nonzero (rpc (cl_auth mu))"
    "files_ok (h_g (m_w mu)) hs F A fs rbs" using assms(6-8) by (simp_all add: g files_ok_results cr(4))
  obtain go m1 where up: "update_auth ug ok h rpc client mu = Some (go, m1)"
    "if go then runs_as c m1 \<and> cred_ok (m_cr m1) \<and>
       (m1 = mu \<or> (\<exists>fs'. files_ok (h_g (m_w m1)) hs F (\<lambda>_. []) fs' rbs \<and>
          flushed_unless_pending content F A (h_g (m_w mu)) hs (h_g (m_w m1))))
     else \<not> ok \<and> cl_auth m1 = cl_auth mu \<and> g_Res1 (h_g (m_w m1)) = DOSFALSE \<and> g_Res2 (h_g (m_w m1)) = ERROR_NO_FREE_STORE"
    using update_auth_ok [where rpc = rpc, OF cr(1-3) assms(4,5) srv, of ok h] by blast
  have prep: "act_Prepare ActionTable (ai_index ai) (ATEntryRead ai) (ATEntryWrite ai) (g_Flags (h_g (m_w m0))) pkt = Some (Some f, Some False, pkt1)"
    using assms(9) g by (simp add: mu_def)
  have run: "serve_packet env ug ok h rpc call ai res client pkt m =
      map_option (\<lambda>(DoReply, m2). (if DoReply then Some (g_Res1 (h_g (m_w m2)), g_Res2 (h_g (m_w m2))) else None, m2))
        (if go then run_action env call f pkt1 m1 else Some (True, m1))"
    using prep assms(10) up(1) unfolding serve_packet_def m0_def [symmetric] Let_def by (simp add: mu_def [symmetric] map_conv_bind_option comp_def case_prod_unfold)
  show ?thesis
  proof (cases go)
    case True
    have "cl_auth m1 = cl_auth m \<or> (\<exists>fs'. files_ok (h_g (m_w m1)) hs F (\<lambda>_. []) fs' rbs \<and>
          flushed_unless_pending content F A (h_g (m_w m)) hs (h_g (m_w m1)))"
      using True up(2) cr(4) by (auto simp: g flushed_results flushed_unless_pending_def)
    then show ?thesis using True up(2) run by (intro disjI2 exI [of _ m1]) simp
  next
    case False
    then show ?thesis using up(2) run cr(4) by (intro disjI1) simp
  qed
qed

definition run_main :: "(nfs_fh \<Rightarrow> int \<Rightarrow> u8) main" where
  "run_main = \<lparr>m_w = \<lparr>h_g = run_files, h_attrs = empty_attrs, h_dirs = empty_dirs, g_MntFh = [1], g_MntAttr = toy_fattr NFDIR 1,
      g_VolumeName = '''', dl_Name = '''', g_MaxFileNameLen = 100, cr_UID = 0, cr_GID = 0, cr_UMask = 0, g_AttrCacheTimeout = 30,
      g_AttrCacheMaxEntries = 10, g_DirCacheTimeout = 60, g_DirCacheMaxEntries = 10, g_State = 1, h_tick = 0\<rparr>,
    m_cr = \<lparr>cd_Flags = 0, cd_UserName = None, cd_UID = 5, cd_GID = 5, cd_GIDS = [], cd_NGroups = 0, cd_UMask = 0,
      cd_Auth = Some \<lparr>au_host = '''', au_uid = 5, au_gid = 5, au_gids = []\<rparr>, cd_ClientCache = 1, cd_ClientCacheUMask = 1\<rparr>,
    cl_auth = Some \<lparr>au_host = '''', au_uid = 5, au_gid = 5, au_gids = []\<rparr>\<rparr>"

definition run_users :: usergroup where
  "run_users = \<lparr>getpwnam = \<lambda>_. None, grents = [], getcredentials = \<lambda>t. Some \<lparr>ug_umask = 18, ug_euid = of_nat t, ug_rgid = 0, ug_groups = []\<rparr>\<rparr>"

lemma run_main_prepare:
  "act_Prepare ActionTable ix (Some 31) w (g_Flags (h_g (m_w run_main))) \<lparr>dp_Type = 82, dp_Arg1 = 1, dp_Arg2 = 0, dp_Arg3 = 0, dp_Arg4 = 0\<rparr> =
     Some (Some F_READ, Some False, \<lparr>dp_Type = 82, dp_Arg1 = 1, dp_Arg2 = 0, dp_Arg3 = 0, dp_Arg4 = 0\<rparr>)"
  by (simp add: act_Prepare_def ActionTable_def ATE_def ATN_def prepare_args_def run_main_def run_files_def run_global_def)

theorem serve_packet_identity_witness:
  "\<forall>env call. \<exists>m1. runs_as \<lparr>ug_umask = 18, ug_euid = 9, ug_rgid = 0, ug_groups = []\<rparr> m1 \<and>
     serve_packet env run_users True '''' (\<lambda>_. mem_rpc) call \<lparr>ai_index = [], ATEntryRead = Some 31, ATEntryWrite = None\<rparr> None 9
       \<lparr>dp_Type = 82, dp_Arg1 = 1, dp_Arg2 = 0, dp_Arg3 = 0, dp_Arg4 = 0\<rparr> run_main =
     map_option (\<lambda>(DoReply, m2). (if DoReply then Some (g_Res1 (h_g (m_w m2)), g_Res2 (h_g (m_w m2))) else None, m2))
       (run_action env call F_READ \<lparr>dp_Type = 82, dp_Arg1 = 1, dp_Arg2 = 0, dp_Arg3 = 0, dp_Arg4 = 0\<rparr> m1)"
proof (intro allI, goal_cases)
  case (1 env call)
  show ?case
    using serve_packet_identity [of run_main 9 run_users "\<lparr>ug_umask = 18, ug_euid = 9, ug_rgid = 0, ug_groups = []\<rparr>" "\<lambda>_. mem_rpc" "\<lambda>s. s" "[7]" "\<lambda>_. [7]"
        "\<lambda>_. []" "[10, 20]" "[]" "\<lparr>ai_index = [], ATEntryRead = Some 31, ATEntryWrite = None\<rparr>"
        "\<lparr>dp_Type = 82, dp_Arg1 = 1, dp_Arg2 = 0, dp_Arg3 = 0, dp_Arg4 = 0\<rparr>" F_READ
        "\<lparr>dp_Type = 82, dp_Arg1 = 1, dp_Arg2 = 0, dp_Arg3 = 0, dp_Arg4 = 0\<rparr>" True env "''''" call None]
      run_files_server run_files_ok mem_rpc_nonzero run_main_prepare
    by (auto simp: run_main_def run_users_def cred_ok_def)
qed

end
