(* ===== verification/XdrMem.thy ===== *)
theory XdrMem
  imports State
begin

text \<open>
  Marshalling, the general part of src/src/ch_nfs_prot_xdr.c: streams in memory, the basic types of
  the external data representation, and pointers. A routine \<open>xdr_t\<close> takes the stream and the object and
  gives its truth value, the object and the stream afterwards; \<open>None\<close> is an access outside the
  buffer of the stream, outside the storage of the object, or through a null pointer. A pointer to
  bytes is \<open>None\<close> for NULL, or the bytes of its storage; so a C string is the storage with its zero
  byte. An enum is the number that is transmitted.
\<close>

unbundle bit_operations_syntax

abbreviation (input) NFS_MAXDATA_X :: u32 where "NFS_MAXDATA_X \<equiv> 8192"
abbreviation (input) NFS_MAXPATHLEN :: u32 where "NFS_MAXPATHLEN \<equiv> 1024"
abbreviation (input) NFS_MAXNAMLEN :: u32 where "NFS_MAXNAMLEN \<equiv> 255"
abbreviation (input) NFS_FHSIZE :: u32 where "NFS_FHSIZE \<equiv> 32"
abbreviation (input) NFS_COOKIESIZE :: u32 where "NFS_COOKIESIZE \<equiv> 4"
abbreviation (input) BYTES_PER_XDR_UNIT :: u32 where "BYTES_PER_XDR_UNIT \<equiv> 4"

subsection \<open>Streams\<close>

datatype xdr_op = XDR_ENCODE | XDR_DECODE | XDR_FREE

text \<open>\<open>x_private\<close> is the offset of the pointer from the start of the memory \<open>x_buf\<close>; \<open>x_handy\<close> is an
  \<open>int\<close>, of which the code subtracts unsigned numbers. \<open>x_alloc\<close> answers the allocations with the contents of
  the new memory, and \<open>x_nalloc\<close> counts them.\<close>

record XDR =
  x_op :: xdr_op
  x_buf :: "u8 list"
  x_private :: nat
  x_handy :: u32
  x_alloc :: "nat \<Rightarrow> (nat \<Rightarrow> u8) option"
  x_nalloc :: nat

type_synonym 'a xproc = "XDR \<Rightarrow> 'a \<Rightarrow> (bool \<times> 'a \<times> XDR) option"

definition put32 :: "u32 \<Rightarrow> u8 list" where
  "put32 w = [ucast (drop_bit 24 w), ucast (drop_bit 16 w), ucast (drop_bit 8 w), ucast w]"

definition get32 :: "u8 list \<Rightarrow> u32" where
  "get32 bs = (case bs of [a, b, c, d] \<Rightarrow> push_bit 24 (ucast a) OR push_bit 16 (ucast b) OR push_bit 8 (ucast c) OR ucast d | _ \<Rightarrow> 0)"

definition peek :: "nat \<Rightarrow> nat \<Rightarrow> u8 list \<Rightarrow> u8 list option" where
  "peek p n buf = (if p + n \<le> length buf then Some (take n (drop p buf)) else None)"

definition poke :: "nat \<Rightarrow> u8 list \<Rightarrow> u8 list \<Rightarrow> u8 list option" where
  "poke p bs buf = (if p + length bs \<le> length buf then Some (take p buf @ bs @ drop (p + length bs) buf) else None)"

definition mem_alloc :: "XDR \<Rightarrow> nat \<Rightarrow> u8 list option \<times> XDR" where
  "mem_alloc X n = (map_option (\<lambda>m. map m [0..<n]) (x_alloc X (x_nalloc X)), X\<lparr>x_nalloc := Suc (x_nalloc X)\<rparr>)"

text \<open>The result is the offset of the longs.\<close>

definition xdrmem_inline :: "XDR \<Rightarrow> u32 \<Rightarrow> nat option \<times> XDR" where
  "xdrmem_inline X len =
     (if x_handy X \<ge> len then (Some (x_private X), X\<lparr>x_handy := x_handy X - len, x_private := x_private X + unat len\<rparr>)
      else (None, X))"

definition xdrmem_getlong :: "u32 xproc" where
  "xdrmem_getlong X lp =
     (let X1 = X\<lparr>x_handy := x_handy X - 4\<rparr> in
      if sint (x_handy X1) < 0 then Some (False, lp, X1)
      else map_option (\<lambda>bs. (True, get32 bs, X1\<lparr>x_private := x_private X + 4\<rparr>)) (peek (x_private X) 4 (x_buf X)))"

definition xdrmem_putlong :: "u32 xproc" where
  "xdrmem_putlong X lp =
     (let X1 = X\<lparr>x_handy := x_handy X - 4\<rparr> in
      if sint (x_handy X1) < 0 then Some (False, lp, X1)
      else map_option (\<lambda>buf. (True, lp, X1\<lparr>x_private := x_private X + 4, x_buf := buf\<rparr>)) (poke (x_private X) (put32 lp) (x_buf X)))"

definition xdrmem_getbytes :: "u32 \<Rightarrow> u8 list xproc" where
  "xdrmem_getbytes len X cp =
     (let X1 = X\<lparr>x_handy := x_handy X - len\<rparr> in
      if sint (x_handy X1) < 0 then Some (False, cp, X1)
      else do {
        bs \<leftarrow> peek (x_private X) (unat len) (x_buf X);
        cp' \<leftarrow> poke 0 bs cp;
        Some (True, cp', X1\<lparr>x_private := x_private X + unat len\<rparr>)
      })"

definition xdrmem_putbytes :: "u32 \<Rightarrow> u8 list xproc" where
  "xdrmem_putbytes len X cp =
     (let X1 = X\<lparr>x_handy := x_handy X - len\<rparr> in
      if sint (x_handy X1) < 0 then Some (False, cp, X1)
      else do {
        bs \<leftarrow> peek 0 (unat len) cp;
        buf \<leftarrow> poke (x_private X) bs (x_buf X);
        Some (True, cp, X1\<lparr>x_private := x_private X + unat len, x_buf := buf\<rparr>)
      })"

subsection \<open>Basic types\<close>

definition xdr_u_long :: "u32 xproc" where
  "xdr_u_long X ulp =
     (case x_op X of XDR_DECODE \<Rightarrow> xdrmem_getlong X ulp | XDR_ENCODE \<Rightarrow> xdrmem_putlong X ulp | XDR_FREE \<Rightarrow> Some (True, ulp, X))"

definition xdr_long :: "u32 xproc" where
  "xdr_long X lp =
     (case x_op X of XDR_ENCODE \<Rightarrow> xdrmem_putlong X lp | XDR_DECODE \<Rightarrow> xdrmem_getlong X lp | XDR_FREE \<Rightarrow> Some (True, lp, X))"

abbreviation xdr_u_int :: "u32 xproc" where "xdr_u_int \<equiv> xdr_u_long"

definition xdr_bool :: "bool xproc" where
  "xdr_bool X bp =
     (case x_op X of
        XDR_ENCODE \<Rightarrow> map_option (\<lambda>(ok, _, X1). (ok, bp, X1)) (xdrmem_putlong X (if bp then 1 else 0))
      | XDR_DECODE \<Rightarrow> map_option (\<lambda>(ok, lb, X1). if ok then (True, lb \<noteq> 0, X1) else (False, bp, X1)) (xdrmem_getlong X 0)
      | XDR_FREE \<Rightarrow> Some (True, bp, X))"

text \<open>Enums have the size of a long.\<close>

definition xdr_enum :: "u32 xproc" where
  "xdr_enum X ep = xdr_long X ep"

definition xdr_opaque :: "u32 \<Rightarrow> u8 list xproc" where
  "xdr_opaque cnt X cp =
     (if cnt = 0 then Some (True, cp, X)
      else
        let r = cnt mod BYTES_PER_XDR_UNIT; rndup = (if r > 0 then BYTES_PER_XDR_UNIT - r else r) in
        case x_op X of
          XDR_DECODE \<Rightarrow> do {
            (ok, cp1, X1) \<leftarrow> xdrmem_getbytes cnt X cp;
            (if \<not> ok then Some (False, cp1, X1)
             else if rndup = 0 then Some (True, cp1, X1)
             else map_option (\<lambda>(ok, _, X2). (ok, cp1, X2)) (xdrmem_getbytes rndup X1 [0, 0, 0, 0]))
          }
        | XDR_ENCODE \<Rightarrow> do {
            (ok, cp1, X1) \<leftarrow> xdrmem_putbytes cnt X cp;
            (if \<not> ok then Some (False, cp1, X1)
             else if rndup = 0 then Some (True, cp1, X1)
             else map_option (\<lambda>(ok, _, X2). (ok, cp1, X2)) (xdrmem_putbytes rndup X1 [0, 0, 0, 0]))
          }
        | XDR_FREE \<Rightarrow> Some (True, cp, X))"

subsection \<open>Pointers\<close>

record xbytes =
  data_len :: u32
  data_val :: "u8 list option"

definition xdr_bytes :: "u32 \<Rightarrow> xbytes xproc" where
  "xdr_bytes maxsize X d =
     do {
       (ok, nodesize, X1) \<leftarrow> xdr_u_int X (data_len d);
       let d1 = d\<lparr>data_len := nodesize\<rparr>;
       (if \<not> ok then Some (False, d1, X1)
        else if nodesize > maxsize \<and> x_op X \<noteq> XDR_FREE then Some (False, d1, X1)
        else case x_op X of
          XDR_DECODE \<Rightarrow>
            if nodesize = 0 then Some (True, d1, X1)
            else
              let (sp, X2) = (case data_val d of None \<Rightarrow> mem_alloc X1 (unat nodesize) | Some bs \<Rightarrow> (Some bs, X1)) in
              (case sp of
                 None \<Rightarrow> Some (False, d1\<lparr>data_val := None\<rparr>, X2)
               | Some bs \<Rightarrow> map_option (\<lambda>(ok, bs', X3). (ok, d1\<lparr>data_val := Some bs'\<rparr>, X3)) (xdr_opaque nodesize X2 bs))
        | XDR_ENCODE \<Rightarrow>
            if nodesize = 0 then Some (True, d1, X1)
            else Option.bind (data_val d) (\<lambda>bs. map_option (\<lambda>(ok, bs', X3). (ok, d1\<lparr>data_val := Some bs'\<rparr>, X3)) (xdr_opaque nodesize X1 bs))
        | XDR_FREE \<Rightarrow> Some (True, d1\<lparr>data_val := None\<rparr>, X1))
     }"

definition c_strlen :: "u8 list \<Rightarrow> nat option" where
  "c_strlen bs = (if 0 \<in> set bs then Some (length (takeWhile (\<lambda>b. b \<noteq> 0) bs)) else None)"

definition xdr_string :: "u32 \<Rightarrow> u8 list option xproc" where
  "xdr_string maxsize X cp =
     (if x_op X = XDR_FREE \<and> cp = None then Some (True, None, X)
      else do {
        size0 \<leftarrow> (if x_op X = XDR_DECODE then Some 0 else do { sp \<leftarrow> cp; map_option of_nat (c_strlen sp) });
        (ok, size, X1) \<leftarrow> xdr_u_int X size0;
        (if \<not> ok then Some (False, cp, X1)
         else if size > maxsize then Some (False, cp, X1)
         else case x_op X of
           XDR_DECODE \<Rightarrow>
             let (sp, X2) = (case cp of None \<Rightarrow> mem_alloc X1 (unat (size + 1)) | Some bs \<Rightarrow> (Some bs, X1)) in
             (case sp of
                None \<Rightarrow> Some (False, None, X2)
              | Some bs \<Rightarrow> do {
                  bs1 \<leftarrow> poke (unat size) [0] bs;
                  (ok, bs2, X3) \<leftarrow> xdr_opaque size X2 bs1;
                  Some (ok, Some bs2, X3)
                })
         | XDR_ENCODE \<Rightarrow> Option.bind cp (\<lambda>bs. map_option (\<lambda>(ok, bs', X3). (ok, Some bs', X3)) (xdr_opaque size X1 bs))
         | XDR_FREE \<Rightarrow> Some (True, None, X1))
      })"

text \<open>\<open>zero\<close> is the cleared object.\<close>

definition xdr_reference :: "'a \<Rightarrow> 'a xproc \<Rightarrow> 'a option xproc" where
  "xdr_reference zero proc X pp =
     (case pp of
        None \<Rightarrow>
          (case x_op X of
             XDR_FREE \<Rightarrow> Some (True, None, X)
           | XDR_DECODE \<Rightarrow>
               (case mem_alloc X 1 of
                  (None, X1) \<Rightarrow> Some (False, None, X1)
                | (Some _, X1) \<Rightarrow> map_option (\<lambda>(stat, loc, X2). (stat, Some loc, X2)) (proc X1 zero))
           | XDR_ENCODE \<Rightarrow> None)
      | Some loc \<Rightarrow> map_option (\<lambda>(stat, loc', X2). (stat, if x_op X = XDR_FREE then None else Some loc', X2)) (proc X loc))"

definition xdr_pointer :: "'a \<Rightarrow> 'a xproc \<Rightarrow> 'a option xproc" where
  "xdr_pointer zero proc X objpp =
     do {
       (ok, more_data, X1) \<leftarrow> xdr_bool X (objpp \<noteq> None);
       (if \<not> ok then Some (False, objpp, X1)
        else if \<not> more_data then Some (True, None, X1)
        else xdr_reference zero proc X1 objpp)
     }"

subsection \<open>Structures\<close>

text \<open>Routines for the fields one after the other: \<open>fld get put proc\<close> is \<open>proc\<close> on one field, and the first that
  fails ends \<open>seqs\<close> with \<open>FALSE\<close>.\<close>

definition fld :: "('a \<Rightarrow> 'b) \<Rightarrow> ('b \<Rightarrow> 'a \<Rightarrow> 'a) \<Rightarrow> 'b xproc \<Rightarrow> 'a xproc" where
  "fld get put proc X objp = map_option (\<lambda>(ok, b, X1). (ok, put b objp, X1)) (proc X (get objp))"

fun seqs :: "'a xproc list \<Rightarrow> 'a xproc" where
  "seqs [] X objp = Some (True, objp, X)"
| "seqs (p # ps) X objp = Option.bind (p X objp) (\<lambda>(ok, objp1, X1). if ok then seqs ps X1 objp1 else Some (False, objp1, X1))"

text \<open>\<open>switch(objp->status) case NFS_OK:\<close>\<close>

definition case_ok :: "('a \<Rightarrow> u32) \<Rightarrow> 'a xproc \<Rightarrow> 'a xproc" where
  "case_ok status proc X objp = (if status objp = 0 then proc X objp else Some (True, objp, X))"

text \<open>The longs put to and taken from the place that \<open>xdrmem_inline\<close> gave.\<close>

fun put_longs :: "nat \<Rightarrow> u32 list \<Rightarrow> u8 list \<Rightarrow> u8 list option" where
  "put_longs p [] buf = Some buf"
| "put_longs p (w # ws) buf = Option.bind (poke p (put32 w) buf) (put_longs (p + 4) ws)"

fun get_longs :: "nat \<Rightarrow> nat \<Rightarrow> u8 list \<Rightarrow> u32 list option" where
  "get_longs p 0 buf = Some []"
| "get_longs p (Suc n) buf =
     do { bs \<leftarrow> peek p 4 buf; ws \<leftarrow> get_longs (p + 4) n buf; Some (get32 bs # ws) }"

definition inline_longs :: "nat \<Rightarrow> ('a \<Rightarrow> u32 list) \<Rightarrow> (u32 list \<Rightarrow> 'a) \<Rightarrow> 'a xproc \<Rightarrow> 'a xproc" where
  "inline_longs n longs obj slow X objp =
     (case x_op X of
        XDR_ENCODE \<Rightarrow>
          (case xdrmem_inline X (of_nat n * BYTES_PER_XDR_UNIT) of
             (None, X1) \<Rightarrow> Some (False, objp, X1)
           | (Some p, X1) \<Rightarrow> map_option (\<lambda>buf. (True, objp, X1\<lparr>x_buf := buf\<rparr>)) (put_longs p (longs objp) (x_buf X1)))
      | XDR_DECODE \<Rightarrow>
          (case xdrmem_inline X (of_nat n * BYTES_PER_XDR_UNIT) of
             (None, X1) \<Rightarrow> Some (False, objp, X1)
           | (Some p, X1) \<Rightarrow> map_option (\<lambda>ws. (True, obj ws, X1)) (get_longs p n (x_buf X1)))
      | XDR_FREE \<Rightarrow> slow X objp)"

lemma xdr_reference_calls:
  "(\<exists>c. \<forall>p. xdr_reference z p X pp = c) \<or> (\<exists>h Y b. \<forall>p. xdr_reference z p X pp = map_option h (p Y b))"
proof (cases pp)
  case None
  then show ?thesis
  proof (cases "x_op X = XDR_DECODE \<and> fst (mem_alloc X 1) \<noteq> None")
    case True
    then have "xdr_reference z p X pp = map_option (\<lambda>(stat, loc, X2). (stat, Some loc, X2)) (p (snd (mem_alloc X 1)) z)" for p
      using None by (auto simp: xdr_reference_def split: prod.split)
    then show ?thesis by blast
  next
    case False
    then have "xdr_reference z p X pp = xdr_reference z q X pp" for p q
      using None by (cases "x_op X"; cases "mem_alloc X 1") (auto simp: xdr_reference_def)
    then show ?thesis by blast
  qed
next
  case (Some loc)
  then have "xdr_reference z p X pp =
      map_option (\<lambda>(stat, loc', X2). (stat, if x_op X = XDR_FREE then None else Some loc', X2)) (p X loc)" for p
    by (simp add: xdr_reference_def)
  then show ?thesis by blast
qed

lemma xdr_pointer_calls:
  "(\<exists>c. \<forall>p. xdr_pointer z p X pp = c) \<or> (\<exists>h Y b. \<forall>p. xdr_pointer z p X pp = map_option h (p Y b))"
proof (cases "\<exists>X1. xdr_bool X (pp \<noteq> None) = Some (True, True, X1)")
  case True
  then obtain X1 where "xdr_bool X (pp \<noteq> None) = Some (True, True, X1)" by blast
  then have "xdr_pointer z p X pp = xdr_reference z p X1 pp" for p by (simp add: xdr_pointer_def)
  then show ?thesis using xdr_reference_calls [of z X1 pp] by simp
next
  case False
  then have "xdr_pointer z p X pp = xdr_pointer z q X pp" for p q
    by (cases "xdr_bool X (pp \<noteq> None)") (auto simp: xdr_pointer_def)
  then show ?thesis by blast
qed

lemma xdr_pointer_mono [partial_function_mono]:
  fixes g :: "('e \<Rightarrow> 'd option) \<Rightarrow> XDR \<Rightarrow> 'a \<Rightarrow> (bool \<times> 'a \<times> XDR) option"
  assumes g: "\<And>Y b. mono_option (\<lambda>f. g f Y b)"
  shows "mono_option (\<lambda>f. xdr_pointer z (g f) X pp)"
proof (rule monotoneI)
  fix f f' :: "'e \<Rightarrow> 'd option"
  assume le: "fun_ord option_ord f f'"
  have "option_ord (g f Y b) (g f' Y b)" for Y b using g [of Y b] le unfolding monotone_on_def by blast
  then have "g f Y b = None \<or> g f Y b = g f' Y b" for Y b by (auto simp: flat_ord_def)
  then show "option_ord (xdr_pointer z (g f) X pp) (xdr_pointer z (g f') X pp)"
    using xdr_pointer_calls [of z X pp] unfolding flat_ord_def by (metis option.map_disc_iff)
qed

end
