(* ===== verification/Xdr.thy ===== *)
theory Xdr
  imports XdrMem
begin

text \<open>
  The messages of the NFS protocol (src/src/ch_nfs_prot_xdr.c, the structures of src/src/nfs_prot.h): one
  routine per structure.
\<close>

definition xdr_nfsstat :: "u32 xproc" where
  "xdr_nfsstat X objp = xdr_enum X objp"

definition xdr_ftype :: "u32 xproc" where
  "xdr_ftype X objp = xdr_enum X objp"

definition xdr_nfs_fh :: "u8 list xproc" where
  "xdr_nfs_fh X objp = xdr_opaque NFS_FHSIZE X objp"

definition xdr_nfstime :: "nfstime xproc" where
  "xdr_nfstime = seqs [fld seconds (\<lambda>v t. t\<lparr>seconds := v\<rparr>) xdr_u_int, fld useconds (\<lambda>v t. t\<lparr>useconds := v\<rparr>) xdr_u_int]"

record xfattr =
  xf_type :: u32
  xf_mode :: u32
  xf_nlink :: u32
  xf_uid :: u32
  xf_gid :: u32
  xf_size :: u32
  xf_blocksize :: u32
  xf_rdev :: u32
  xf_blocks :: u32
  xf_fsid :: u32
  xf_fileid :: u32
  xf_atime :: nfstime
  xf_mtime :: nfstime
  xf_ctime :: nfstime

definition fattr_longs :: "xfattr \<Rightarrow> u32 list" where
  "fattr_longs a =
     [xf_type a, xf_mode a, xf_nlink a, xf_uid a, xf_gid a, xf_size a, xf_blocksize a, xf_rdev a, xf_blocks a, xf_fsid a, xf_fileid a,
      seconds (xf_atime a), useconds (xf_atime a), seconds (xf_mtime a), useconds (xf_mtime a), seconds (xf_ctime a), useconds (xf_ctime a)]"

definition fattr_of_longs :: "u32 list \<Rightarrow> xfattr" where
  "fattr_of_longs w =
     \<lparr>xf_type = w ! 0, xf_mode = w ! 1, xf_nlink = w ! 2, xf_uid = w ! 3, xf_gid = w ! 4, xf_size = w ! 5, xf_blocksize = w ! 6,
      xf_rdev = w ! 7, xf_blocks = w ! 8, xf_fsid = w ! 9, xf_fileid = w ! 10, xf_atime = \<lparr>seconds = w ! 11, useconds = w ! 12\<rparr>,
      xf_mtime = \<lparr>seconds = w ! 13, useconds = w ! 14\<rparr>, xf_ctime = \<lparr>seconds = w ! 15, useconds = w ! 16\<rparr>\<rparr>"

definition xdr_fattr_slow :: "xfattr xproc" where
  "xdr_fattr_slow = seqs
     [fld xf_type (\<lambda>v a. a\<lparr>xf_type := v\<rparr>) xdr_ftype, fld xf_mode (\<lambda>v a. a\<lparr>xf_mode := v\<rparr>) xdr_u_int,
      fld xf_nlink (\<lambda>v a. a\<lparr>xf_nlink := v\<rparr>) xdr_u_int, fld xf_uid (\<lambda>v a. a\<lparr>xf_uid := v\<rparr>) xdr_u_int,
      fld xf_gid (\<lambda>v a. a\<lparr>xf_gid := v\<rparr>) xdr_u_int, fld xf_size (\<lambda>v a. a\<lparr>xf_size := v\<rparr>) xdr_u_int,
      fld xf_blocksize (\<lambda>v a. a\<lparr>xf_blocksize := v\<rparr>) xdr_u_int, fld xf_rdev (\<lambda>v a. a\<lparr>xf_rdev := v\<rparr>) xdr_u_int,
      fld xf_blocks (\<lambda>v a. a\<lparr>xf_blocks := v\<rparr>) xdr_u_int, fld xf_fsid (\<lambda>v a. a\<lparr>xf_fsid := v\<rparr>) xdr_u_int,
      fld xf_fileid (\<lambda>v a. a\<lparr>xf_fileid := v\<rparr>) xdr_u_int, fld xf_atime (\<lambda>v a. a\<lparr>xf_atime := v\<rparr>) xdr_nfstime,
      fld xf_mtime (\<lambda>v a. a\<lparr>xf_mtime := v\<rparr>) xdr_nfstime, fld xf_ctime (\<lambda>v a. a\<lparr>xf_ctime := v\<rparr>) xdr_nfstime]"

definition xdr_fattr :: "xfattr xproc" where
  "xdr_fattr = inline_longs 17 fattr_longs fattr_of_longs xdr_fattr_slow"

record xsattr =
  xs_mode :: u32
  xs_uid :: u32
  xs_gid :: u32
  xs_size :: u32
  xs_atime :: nfstime
  xs_mtime :: nfstime

definition sattr_longs :: "xsattr \<Rightarrow> u32 list" where
  "sattr_longs a = [xs_mode a, xs_uid a, xs_gid a, xs_size a, seconds (xs_atime a), useconds (xs_atime a), seconds (xs_mtime a), useconds (xs_mtime a)]"

definition sattr_of_longs :: "u32 list \<Rightarrow> xsattr" where
  "sattr_of_longs w =
     \<lparr>xs_mode = w ! 0, xs_uid = w ! 1, xs_gid = w ! 2, xs_size = w ! 3, xs_atime = \<lparr>seconds = w ! 4, useconds = w ! 5\<rparr>,
      xs_mtime = \<lparr>seconds = w ! 6, useconds = w ! 7\<rparr>\<rparr>"

definition xdr_sattr_slow :: "xsattr xproc" where
  "xdr_sattr_slow = seqs
     [fld xs_mode (\<lambda>v a. a\<lparr>xs_mode := v\<rparr>) xdr_u_int, fld xs_uid (\<lambda>v a. a\<lparr>xs_uid := v\<rparr>) xdr_u_int,
      fld xs_gid (\<lambda>v a. a\<lparr>xs_gid := v\<rparr>) xdr_u_int, fld xs_size (\<lambda>v a. a\<lparr>xs_size := v\<rparr>) xdr_u_int,
      fld xs_atime (\<lambda>v a. a\<lparr>xs_atime := v\<rparr>) xdr_nfstime, fld xs_mtime (\<lambda>v a. a\<lparr>xs_mtime := v\<rparr>) xdr_nfstime]"

definition xdr_sattr :: "xsattr xproc" where
  "xdr_sattr = inline_longs 8 sattr_longs sattr_of_longs xdr_sattr_slow"

definition xdr_filename :: "u8 list option xproc" where
  "xdr_filename = seqs [xdr_string NFS_MAXNAMLEN]"

definition xdr_nfspath :: "u8 list option xproc" where
  "xdr_nfspath = seqs [xdr_string NFS_MAXPATHLEN]"

subsection \<open>Arguments and results\<close>

record attrstat =
  as_status :: u32
  as_attributes :: xfattr

definition xdr_attrstat :: "attrstat xproc" where
  "xdr_attrstat = seqs [fld as_status (\<lambda>v a. a\<lparr>as_status := v\<rparr>) xdr_nfsstat,
     case_ok as_status (fld as_attributes (\<lambda>v a. a\<lparr>as_attributes := v\<rparr>) xdr_fattr)]"

record sattrargs =
  sg_file :: "u8 list"
  sg_attributes :: xsattr

definition xdr_sattrargs :: "sattrargs xproc" where
  "xdr_sattrargs = seqs [fld sg_file (\<lambda>v a. a\<lparr>sg_file := v\<rparr>) xdr_nfs_fh, fld sg_attributes (\<lambda>v a. a\<lparr>sg_attributes := v\<rparr>) xdr_sattr]"

record diropargs =
  do_dir :: "u8 list"
  do_name :: "u8 list option"

definition xdr_diropargs :: "diropargs xproc" where
  "xdr_diropargs = seqs [fld do_dir (\<lambda>v a. a\<lparr>do_dir := v\<rparr>) xdr_nfs_fh, fld do_name (\<lambda>v a. a\<lparr>do_name := v\<rparr>) xdr_filename]"

record xdiropokres =
  dk_file :: "u8 list"
  dk_attributes :: xfattr

definition xdr_diropokres :: "xdiropokres xproc" where
  "xdr_diropokres = seqs [fld dk_file (\<lambda>v a. a\<lparr>dk_file := v\<rparr>) xdr_nfs_fh, fld dk_attributes (\<lambda>v a. a\<lparr>dk_attributes := v\<rparr>) xdr_fattr]"

record diropres =
  dr_status :: u32
  dr_diropres :: xdiropokres

definition xdr_diropres :: "diropres xproc" where
  "xdr_diropres = seqs [fld dr_status (\<lambda>v a. a\<lparr>dr_status := v\<rparr>) xdr_nfsstat,
     case_ok dr_status (fld dr_diropres (\<lambda>v a. a\<lparr>dr_diropres := v\<rparr>) xdr_diropokres)]"

record readlinkres =
  rl_status :: u32
  rl_data :: "u8 list option"

definition xdr_readlinkres :: "readlinkres xproc" where
  "xdr_readlinkres = seqs [fld rl_status (\<lambda>v a. a\<lparr>rl_status := v\<rparr>) xdr_nfsstat,
     case_ok rl_status (fld rl_data (\<lambda>v a. a\<lparr>rl_data := v\<rparr>) xdr_nfspath)]"

record readargs =
  ra_file :: "u8 list"
  ra_offset :: u32
  ra_count :: u32
  ra_totalcount :: u32

definition xdr_readargs :: "readargs xproc" where
  "xdr_readargs = seqs [fld ra_file (\<lambda>v a. a\<lparr>ra_file := v\<rparr>) xdr_nfs_fh, fld ra_offset (\<lambda>v a. a\<lparr>ra_offset := v\<rparr>) xdr_u_int,
     fld ra_count (\<lambda>v a. a\<lparr>ra_count := v\<rparr>) xdr_u_int, fld ra_totalcount (\<lambda>v a. a\<lparr>ra_totalcount := v\<rparr>) xdr_u_int]"

record readokres =
  ro_attributes :: xfattr
  ro_data :: xbytes

definition xdr_readokres :: "readokres xproc" where
  "xdr_readokres = seqs [fld ro_attributes (\<lambda>v a. a\<lparr>ro_attributes := v\<rparr>) xdr_fattr, fld ro_data (\<lambda>v a. a\<lparr>ro_data := v\<rparr>) (xdr_bytes NFS_MAXDATA_X)]"

record readres =
  rr_status :: u32
  rr_reply :: readokres

definition xdr_readres :: "readres xproc" where
  "xdr_readres = seqs [fld rr_status (\<lambda>v a. a\<lparr>rr_status := v\<rparr>) xdr_nfsstat,
     case_ok rr_status (fld rr_reply (\<lambda>v a. a\<lparr>rr_reply := v\<rparr>) (seqs
       [fld ro_attributes (\<lambda>v a. a\<lparr>ro_attributes := v\<rparr>) xdr_fattr, fld ro_data (\<lambda>v a. a\<lparr>ro_data := v\<rparr>) (xdr_bytes NFS_MAXDATA_X)]))]"

record writeargs =
  wa_file :: "u8 list"
  wa_beginoffset :: u32
  wa_offset :: u32
  wa_totalcount :: u32
  wa_data :: xbytes

definition xdr_writeargs :: "writeargs xproc" where
  "xdr_writeargs = seqs [fld wa_file (\<lambda>v a. a\<lparr>wa_file := v\<rparr>) xdr_nfs_fh, fld wa_beginoffset (\<lambda>v a. a\<lparr>wa_beginoffset := v\<rparr>) xdr_u_int,
     fld wa_offset (\<lambda>v a. a\<lparr>wa_offset := v\<rparr>) xdr_u_int, fld wa_totalcount (\<lambda>v a. a\<lparr>wa_totalcount := v\<rparr>) xdr_u_int,
     fld wa_data (\<lambda>v a. a\<lparr>wa_data := v\<rparr>) (xdr_bytes NFS_MAXDATA_X)]"

text \<open>Only the length of the data; the bytes are sent after the message.\<close>

definition xdr_writeargssb :: "writeargs xproc" where
  "xdr_writeargssb = seqs [fld wa_file (\<lambda>v a. a\<lparr>wa_file := v\<rparr>) xdr_nfs_fh, fld wa_beginoffset (\<lambda>v a. a\<lparr>wa_beginoffset := v\<rparr>) xdr_u_int,
     fld wa_offset (\<lambda>v a. a\<lparr>wa_offset := v\<rparr>) xdr_u_int, fld wa_totalcount (\<lambda>v a. a\<lparr>wa_totalcount := v\<rparr>) xdr_u_int,
     fld (\<lambda>a. data_len (wa_data a)) (\<lambda>v a. a\<lparr>wa_data := (wa_data a)\<lparr>data_len := v\<rparr>\<rparr>) xdr_u_int]"

record createargs =
  ca_where :: diropargs
  ca_attributes :: xsattr

definition xdr_createargs :: "createargs xproc" where
  "xdr_createargs = seqs [fld ca_where (\<lambda>v a. a\<lparr>ca_where := v\<rparr>) xdr_diropargs, fld ca_attributes (\<lambda>v a. a\<lparr>ca_attributes := v\<rparr>) xdr_sattr]"

record renameargs =
  rn_from :: diropargs
  rn_to :: diropargs

definition xdr_renameargs :: "renameargs xproc" where
  "xdr_renameargs = seqs [fld rn_from (\<lambda>v a. a\<lparr>rn_from := v\<rparr>) xdr_diropargs, fld rn_to (\<lambda>v a. a\<lparr>rn_to := v\<rparr>) xdr_diropargs]"

record linkargs =
  la_from :: "u8 list"
  la_to :: diropargs

definition xdr_linkargs :: "linkargs xproc" where
  "xdr_linkargs = seqs [fld la_from (\<lambda>v a. a\<lparr>la_from := v\<rparr>) xdr_nfs_fh, fld la_to (\<lambda>v a. a\<lparr>la_to := v\<rparr>) xdr_diropargs]"

record symlinkargs =
  sl_from :: diropargs
  sl_to :: "u8 list option"
  sl_attributes :: xsattr

definition xdr_symlinkargs :: "symlinkargs xproc" where
  "xdr_symlinkargs = seqs [fld sl_from (\<lambda>v a. a\<lparr>sl_from := v\<rparr>) xdr_diropargs, fld sl_to (\<lambda>v a. a\<lparr>sl_to := v\<rparr>) xdr_nfspath,
     fld sl_attributes (\<lambda>v a. a\<lparr>sl_attributes := v\<rparr>) xdr_sattr]"

definition xdr_nfscookie :: "u8 list xproc" where
  "xdr_nfscookie = seqs [xdr_opaque NFS_COOKIESIZE]"

record readdirargs =
  rd_dir :: "u8 list"
  rd_cookie :: "u8 list"
  rd_count :: u32

definition xdr_readdirargs :: "readdirargs xproc" where
  "xdr_readdirargs = seqs [fld rd_dir (\<lambda>v a. a\<lparr>rd_dir := v\<rparr>) xdr_nfs_fh, fld rd_cookie (\<lambda>v a. a\<lparr>rd_cookie := v\<rparr>) xdr_nfscookie,
     fld rd_count (\<lambda>v a. a\<lparr>rd_count := v\<rparr>) xdr_u_int]"

datatype xentry = Entry (xe_fileid: u32) (xe_name: "u8 list option") (xe_cookie: "u8 list") (xe_next: "xentry option")

definition zero_entry :: xentry where
  "zero_entry = Entry 0 None [0, 0, 0, 0] None"

definition entry_head :: "xentry xproc" where
  "entry_head = seqs [fld xe_fileid (\<lambda>v e. Entry v (xe_name e) (xe_cookie e) (xe_next e)) xdr_u_int,
     fld xe_name (\<lambda>v e. Entry (xe_fileid e) v (xe_cookie e) (xe_next e)) xdr_filename,
     fld xe_cookie (\<lambda>v e. Entry (xe_fileid e) (xe_name e) v (xe_next e)) xdr_nfscookie]"

partial_function (option) xdr_entry :: "XDR \<Rightarrow> xentry \<Rightarrow> (bool \<times> xentry \<times> XDR) option" where
  "xdr_entry X objp =
     do {
       (ok, e, X1) \<leftarrow> entry_head X objp;
       (if \<not> ok then Some (False, e, X1)
        else do {
          (ok, n, X2) \<leftarrow> xdr_pointer zero_entry xdr_entry X1 (xe_next e);
          Some (ok, Entry (xe_fileid e) (xe_name e) (xe_cookie e) n, X2)
        })
     }"

declare xdr_entry.simps [code]

record dirlist =
  dl_entries :: "xentry option"
  dl_eof :: bool

definition xdr_dirlist :: "dirlist xproc" where
  "xdr_dirlist = seqs [fld dl_entries (\<lambda>v a. a\<lparr>dl_entries := v\<rparr>) (xdr_pointer zero_entry xdr_entry), fld dl_eof (\<lambda>v a. a\<lparr>dl_eof := v\<rparr>) xdr_bool]"

record readdirres =
  dd_status :: u32
  dd_reply :: dirlist

definition xdr_readdirres :: "readdirres xproc" where
  "xdr_readdirres = seqs [fld dd_status (\<lambda>v a. a\<lparr>dd_status := v\<rparr>) xdr_nfsstat,
     case_ok dd_status (fld dd_reply (\<lambda>v a. a\<lparr>dd_reply := v\<rparr>) xdr_dirlist)]"

record xstatfsokres =
  xt_tsize :: u32
  xt_bsize :: u32
  xt_blocks :: u32
  xt_bfree :: u32
  xt_bavail :: u32

definition statfsokres_longs :: "xstatfsokres \<Rightarrow> u32 list" where
  "statfsokres_longs a = [xt_tsize a, xt_bsize a, xt_blocks a, xt_bfree a, xt_bavail a]"

definition statfsokres_of_longs :: "u32 list \<Rightarrow> xstatfsokres" where
  "statfsokres_of_longs w = \<lparr>xt_tsize = w ! 0, xt_bsize = w ! 1, xt_blocks = w ! 2, xt_bfree = w ! 3, xt_bavail = w ! 4\<rparr>"

definition xdr_statfsokres_slow :: "xstatfsokres xproc" where
  "xdr_statfsokres_slow = seqs
     [fld xt_tsize (\<lambda>v a. a\<lparr>xt_tsize := v\<rparr>) xdr_u_int, fld xt_bsize (\<lambda>v a. a\<lparr>xt_bsize := v\<rparr>) xdr_u_int,
      fld xt_blocks (\<lambda>v a. a\<lparr>xt_blocks := v\<rparr>) xdr_u_int, fld xt_bfree (\<lambda>v a. a\<lparr>xt_bfree := v\<rparr>) xdr_u_int,
      fld xt_bavail (\<lambda>v a. a\<lparr>xt_bavail := v\<rparr>) xdr_u_int]"

definition xdr_statfsokres :: "xstatfsokres xproc" where
  "xdr_statfsokres = inline_longs 5 statfsokres_longs statfsokres_of_longs xdr_statfsokres_slow"

record statfsres =
  st_status :: u32
  st_reply :: xstatfsokres

definition xdr_statfsres :: "statfsres xproc" where
  "xdr_statfsres = seqs [fld st_status (\<lambda>v a. a\<lparr>st_status := v\<rparr>) xdr_nfsstat,
     case_ok st_status (fld st_reply (\<lambda>v a. a\<lparr>st_reply := v\<rparr>) xdr_statfsokres)]"

end
