(* ===== verification/XdrSpec.thy ===== *)
theory XdrSpec
  imports XdrMem
begin

text \<open>
  What a marshalling routine promises. Encoding: it appends the representation \<open>e v\<close> of the value, or fails
  when there is no room for all of it. Decoding: from a stream that starts with \<open>e v\<close> it takes exactly these
  bytes and stores \<open>v\<close>. Safety: whatever the bytes are, decoding comes to an end and touches nothing
  outside the stream and the object. The promises of a structure follow from those of its fields.
\<close>

unbundle bit_operations_syntax

subsection \<open>Bytes\<close>

lemma length_put32 [simp]: "length (put32 w) = 4"
  by (simp add: put32_def)

lemma get32_put32 [simp]: "get32 (put32 w) = w"
proof -
  have "bit (get32 (put32 w)) n = bit w n" if "n < 32" for n
  proof -
    have "n < 8 \<or> 8 \<le> n \<and> n < 16 \<or> 16 \<le> n \<and> n < 24 \<or> 24 \<le> n \<and> n < 32" using that by linarith
    then show ?thesis by (elim disjE) (auto simp: get32_def put32_def bit_simps)
  qed
  then show ?thesis by (auto intro: bit_word_eqI)
qed

definition padding :: "nat \<Rightarrow> u8 list" where
  "padding n = replicate ((4 - n mod 4) mod 4) 0"

lemma sint_neg: "sint (h::u32) < 0 \<longleftrightarrow> 2 ^ 31 \<le> unat h"
proof -
  have "unat h < 2 ^ 32" using unsigned_less [of h] by simp
  then have "unat h div 2 ^ 31 < 2" by (simp add: div_less_iff_less_mult)
  moreover have "odd k \<longleftrightarrow> k \<noteq> 0" if "k < 2" for k :: nat using that by presburger
  ultimately have "odd (unat h div 2 ^ 31) \<longleftrightarrow> unat h div 2 ^ 31 \<noteq> 0" by blast
  moreover have "bit h 31 \<longleftrightarrow> bit (unat h) 31" by (simp add: bit_unsigned_iff)
  ultimately have "bit h 31 \<longleftrightarrow> 2 ^ 31 \<le> unat h" by (simp add: bit_iff_odd div_greater_zero_iff)
  then show ?thesis using bit_last_iff [of h] by simp
qed

lemma handy_sub:
  fixes h n :: u32
  assumes "unat h < 2 ^ 31"
  shows "unat n < 2 ^ 31 \<Longrightarrow> sint (h - n) < 0 \<longleftrightarrow> unat h < unat n" and "unat n \<le> unat h \<Longrightarrow> unat (h - n) = unat h - unat n"
proof -
  show e: "unat (h - n) = unat h - unat n" if "unat n \<le> unat h" for n using that by (simp add: unat_sub word_le_nat_alt)
  show "sint (h - n) < 0 \<longleftrightarrow> unat h < unat n" if n: "unat n < 2 ^ 31"
  proof (cases "unat n \<le> unat h")
    case True
    then show ?thesis using assms by (simp add: sint_neg e)
  next
    case False
    then have "unat (h - n) = unat h + 2 ^ 32 - unat n" by (simp add: unat_sub_if' word_le_nat_alt)
    then show ?thesis using n False by (simp add: sint_neg)
  qed
qed

subsection \<open>The promises\<close>

definition stream_ok :: "XDR \<Rightarrow> bool" where
  "stream_ok X \<longleftrightarrow> x_private X + unat (x_handy X) \<le> length (x_buf X) \<and> unat (x_handy X) < 2 ^ 31"

text \<open>The bytes not yet read.\<close>

definition rest :: "XDR \<Rightarrow> u8 list" where
  "rest X = take (unat (x_handy X)) (drop (x_private X) (x_buf X))"

text \<open>\<open>X'\<close> is \<open>X\<close> after \<open>n\<close> bytes.\<close>

definition went :: "XDR \<Rightarrow> nat \<Rightarrow> XDR \<Rightarrow> bool" where
  "went X n X' \<longleftrightarrow> x_op X' = x_op X \<and> x_private X' = x_private X + n \<and> unat (x_handy X') + n = unat (x_handy X) \<and>
     x_alloc X' = x_alloc X \<and> length (x_buf X') = length (x_buf X)"

definition enc_ok :: "'a xproc \<Rightarrow> ('a \<Rightarrow> u8 list) \<Rightarrow> ('a \<Rightarrow> bool) \<Rightarrow> bool" where
  "enc_ok p e V \<longleftrightarrow> (\<forall>X v. stream_ok X \<and> x_op X = XDR_ENCODE \<and> V v \<longrightarrow>
     (\<exists>X'. p X v = Some (length (e v) \<le> unat (x_handy X), v, X') \<and> length (x_buf X') = length (x_buf X) \<and>
        (length (e v) \<le> unat (x_handy X) \<longrightarrow> went X (length (e v)) X' \<and>
           x_buf X' = take (x_private X) (x_buf X) @ e v @ drop (x_private X + length (e v)) (x_buf X))))"

definition dec_ok :: "'a xproc \<Rightarrow> ('a \<Rightarrow> u8 list) \<Rightarrow> ('a \<Rightarrow> bool) \<Rightarrow> ('a \<Rightarrow> 'a \<Rightarrow> 'a) \<Rightarrow> ('a \<Rightarrow> 'a \<Rightarrow> bool) \<Rightarrow> bool" where
  "dec_ok p e V d Q \<longleftrightarrow> (\<forall>X v a r. stream_ok X \<and> x_op X = XDR_DECODE \<and> (\<forall>i. x_alloc X i \<noteq> None) \<and> V v \<and> Q v a \<and> rest X = e v @ r \<longrightarrow>
     (\<exists>X'. p X a = Some (True, d v a, X') \<and> rest X' = r \<and> went X (length (e v)) X' \<and> x_buf X' = x_buf X))"

definition dec_safe :: "'a xproc \<Rightarrow> ('a \<Rightarrow> bool) \<Rightarrow> ('a \<Rightarrow> bool) \<Rightarrow> bool" where
  "dec_safe p P R \<longleftrightarrow> (\<forall>X a. stream_ok X \<and> x_op X = XDR_DECODE \<and> P a \<longrightarrow>
     (\<exists>ok a' X'. p X a = Some (ok, a', X') \<and> R a' \<and> (ok \<longrightarrow> (\<exists>n. went X n X' \<and> x_buf X' = x_buf X))))"

lemma went_ok: "went X n X' \<Longrightarrow> stream_ok X \<Longrightarrow> stream_ok X'"
  by (auto simp: went_def stream_ok_def)

lemma went_trans: "went X m Y \<Longrightarrow> went Y n Z \<Longrightarrow> went X (m + n) Z"
  by (auto simp: went_def)

lemma went_refl: "went X 0 X"
  by (simp add: went_def)

lemma length_rest: "stream_ok X \<Longrightarrow> length (rest X) = unat (x_handy X)"
  by (auto simp: rest_def stream_ok_def min_def)

lemma went_rest: "went X n X' \<Longrightarrow> x_buf X' = x_buf X \<Longrightarrow> rest X' = drop n (rest X)"
proof -
  assume "went X n X'" "x_buf X' = x_buf X"
  then have "unat (x_handy X) - n = unat (x_handy X')" "x_private X' = n + x_private X" by (auto simp: went_def)
  then show "rest X' = drop n (rest X)" using \<open>x_buf X' = x_buf X\<close> by (simp add: rest_def drop_take)
qed

lemmas xdr_promises = enc_ok_def dec_ok_def dec_safe_def

lemma enc_okD:
  "enc_ok p e V \<Longrightarrow> stream_ok X \<Longrightarrow> x_op X = XDR_ENCODE \<Longrightarrow> V v \<Longrightarrow>
     \<exists>X'. p X v = Some (length (e v) \<le> unat (x_handy X), v, X') \<and> length (x_buf X') = length (x_buf X) \<and>
        (length (e v) \<le> unat (x_handy X) \<longrightarrow> went X (length (e v)) X' \<and>
           x_buf X' = take (x_private X) (x_buf X) @ e v @ drop (x_private X + length (e v)) (x_buf X))"
  by (simp add: enc_ok_def)

lemma dec_okD:
  "dec_ok p e V d Q \<Longrightarrow> stream_ok X \<Longrightarrow> x_op X = XDR_DECODE \<Longrightarrow> \<forall>i. x_alloc X i \<noteq> None \<Longrightarrow> V v \<Longrightarrow> Q v a \<Longrightarrow> rest X = e v @ r \<Longrightarrow>
     \<exists>X'. p X a = Some (True, d v a, X') \<and> rest X' = r \<and> went X (length (e v)) X' \<and> x_buf X' = x_buf X"
  by (simp add: dec_ok_def)

lemma dec_safeD:
  "dec_safe p P R \<Longrightarrow> stream_ok X \<Longrightarrow> x_op X = XDR_DECODE \<Longrightarrow> P a \<Longrightarrow>
     \<exists>ok a' X'. p X a = Some (ok, a', X') \<and> R a' \<and> (ok \<longrightarrow> (\<exists>n. went X n X' \<and> x_buf X' = x_buf X))"
  by (simp add: dec_safe_def)

subsection \<open>Structures\<close>

named_theorems enc_rules and dec_rules and safe_rules

lemma enc_weaken: "enc_ok p e V \<Longrightarrow> (\<And>v. V' v \<Longrightarrow> V v \<and> e' v = e v) \<Longrightarrow> enc_ok p e' V'"
  unfolding enc_ok_def by metis

lemma dec_weaken:
  "dec_ok p e V d Q \<Longrightarrow> (\<And>v a. V' v \<Longrightarrow> Q' v a \<Longrightarrow> V v \<and> e' v = e v \<and> Q v a \<and> d' v a = d v a) \<Longrightarrow> dec_ok p e' V' d' Q'"
  unfolding dec_ok_def by metis

lemma safe_weaken: "dec_safe p P R \<Longrightarrow> (\<And>a. P' a \<Longrightarrow> P a) \<Longrightarrow> (\<And>a. R a \<Longrightarrow> R' a) \<Longrightarrow> dec_safe p P' R'"
  unfolding dec_safe_def by blast

lemma enc_fld [enc_rules]:
  assumes p: "enc_ok p e V"
  shows "enc_ok (fld get put p) (\<lambda>v. e (get v)) (\<lambda>v. V (get v) \<and> put (get v) v = v)"
  unfolding enc_ok_def
proof (intro allI impI, elim conjE)
  fix X v assume h: "stream_ok X" "x_op X = XDR_ENCODE" "V (get v)" "put (get v) v = v"
  note q = enc_okD [OF p h(1-3)]
  show "\<exists>X'. fld get put p X v = Some (length (e (get v)) \<le> unat (x_handy X), v, X') \<and> length (x_buf X') = length (x_buf X) \<and>
      (length (e (get v)) \<le> unat (x_handy X) \<longrightarrow> went X (length (e (get v))) X' \<and>
         x_buf X' = take (x_private X) (x_buf X) @ e (get v) @ drop (x_private X + length (e (get v))) (x_buf X))"
    using q h(4) unfolding fld_def by (elim exE conjE) (intro exI conjI, simp_all)
qed

lemma dec_fld [dec_rules]:
  assumes p: "dec_ok p e V d Q"
  shows "dec_ok (fld get put p) (\<lambda>v. e (get v)) (\<lambda>v. V (get v)) (\<lambda>v a. put (d (get v) (get a)) a) (\<lambda>v a. Q (get v) (get a))"
  unfolding dec_ok_def
proof (intro allI impI, elim conjE)
  fix X v a r
  assume h: "stream_ok X" "x_op X = XDR_DECODE" "\<forall>i. x_alloc X i \<noteq> None" "V (get v)" "Q (get v) (get a)" "rest X = e (get v) @ r"
  obtain X' where q: "p X (get a) = Some (True, d (get v) (get a), X')" "rest X' = r" "went X (length (e (get v))) X'" "x_buf X' = x_buf X"
    using dec_okD [OF p h] by blast
  show "\<exists>X'. fld get put p X a = Some (True, put (d (get v) (get a)) a, X') \<and> rest X' = r \<and> went X (length (e (get v))) X' \<and> x_buf X' = x_buf X"
    using q by (intro exI [of _ X']) (simp add: fld_def)
qed

lemma safe_fld:
  assumes p: "dec_safe p P' R'" and P: "\<And>a. P a \<Longrightarrow> P' (get a)" and R: "\<And>a b. P a \<Longrightarrow> R' b \<Longrightarrow> R (put b a)"
  shows "dec_safe (fld get put p) P R"
  unfolding dec_safe_def
proof (intro allI impI, elim conjE)
  fix X a assume h: "stream_ok X" "x_op X = XDR_DECODE" "P a"
  note q = dec_safeD [OF p h(1,2) P [OF h(3)]]
  show "\<exists>ok a' X'. fld get put p X a = Some (ok, a', X') \<and> R a' \<and> (ok \<longrightarrow> (\<exists>n. went X n X' \<and> x_buf X' = x_buf X))"
    using q R [OF h(3)] unfolding fld_def by (elim exE conjE) (intro exI conjI, simp_all)
qed

lemma enc_Nil [enc_rules]: "enc_ok (seqs []) (\<lambda>v. []) (\<lambda>v. True)"
  by (simp add: enc_ok_def went_refl)

lemma dec_Nil [dec_rules]: "dec_ok (seqs []) (\<lambda>v. []) (\<lambda>v. True) (\<lambda>v a. a) (\<lambda>v a. True)"
  by (simp add: dec_ok_def went_refl)

lemma safe_Nil: "(\<And>a. P a \<Longrightarrow> R a) \<Longrightarrow> dec_safe (seqs []) P R"
  unfolding dec_safe_def by (auto intro: went_refl)

lemma enc_Cons [enc_rules]:
  assumes p: "enc_ok p e V" and ps: "enc_ok (seqs ps) e' V'"
  shows "enc_ok (seqs (p # ps)) (\<lambda>v. e v @ e' v) (\<lambda>v. V v \<and> V' v)"
  unfolding enc_ok_def
proof (intro allI impI)
  fix X v assume a: "stream_ok X \<and> x_op X = XDR_ENCODE \<and> V v \<and> V' v"
  obtain X1 where 1: "p X v = Some (length (e v) \<le> unat (x_handy X), v, X1)" "length (x_buf X1) = length (x_buf X)"
    "length (e v) \<le> unat (x_handy X) \<Longrightarrow> went X (length (e v)) X1 \<and>
       x_buf X1 = take (x_private X) (x_buf X) @ e v @ drop (x_private X + length (e v)) (x_buf X)"
    using enc_okD [OF p, of X v] a by blast
  show "\<exists>X'. seqs (p # ps) X v = Some (length (e v @ e' v) \<le> unat (x_handy X), v, X') \<and> length (x_buf X') = length (x_buf X) \<and>
      (length (e v @ e' v) \<le> unat (x_handy X) \<longrightarrow> went X (length (e v @ e' v)) X' \<and>
         x_buf X' = take (x_private X) (x_buf X) @ (e v @ e' v) @ drop (x_private X + length (e v @ e' v)) (x_buf X))"
  proof (cases "length (e v) \<le> unat (x_handy X)")
    case True
    then have w: "went X (length (e v)) X1" and b: "x_buf X1 = take (x_private X) (x_buf X) @ e v @ drop (x_private X + length (e v)) (x_buf X)"
      using 1(3) by auto
    have op: "x_op X1 = XDR_ENCODE" "unat (x_handy X1) + length (e v) = unat (x_handy X)" "x_private X1 = x_private X + length (e v)"
      using w a by (simp_all add: went_def)
    obtain X2 where 2: "seqs ps X1 v = Some (length (e' v) \<le> unat (x_handy X1), v, X2)" "length (x_buf X2) = length (x_buf X1)"
      "length (e' v) \<le> unat (x_handy X1) \<Longrightarrow> went X1 (length (e' v)) X2 \<and>
         x_buf X2 = take (x_private X1) (x_buf X1) @ e' v @ drop (x_private X1 + length (e' v)) (x_buf X1)"
      using enc_okD [OF ps, of X1 v] a op went_ok [OF w] by blast
    have fit: "length (e' v) \<le> unat (x_handy X1) \<longleftrightarrow> length (e v @ e' v) \<le> unat (x_handy X)" using op(2) by auto
    have run: "seqs (p # ps) X v = Some (length (e v @ e' v) \<le> unat (x_handy X), v, X2)" using 1(1) True 2(1) fit by simp
    have inb: "x_private X \<le> length (x_buf X)" using a by (simp add: stream_ok_def)
    have "went X (length (e v @ e' v)) X2" if "length (e v @ e' v) \<le> unat (x_handy X)"
      using went_trans [OF w] 2(3) fit that by simp
    moreover have "x_buf X2 = take (x_private X) (x_buf X) @ (e v @ e' v) @ drop (x_private X + length (e v @ e' v)) (x_buf X)"
      if "length (e v @ e' v) \<le> unat (x_handy X)"
      using 2(3) fit that inb by (simp add: b op(3) add.commute add.left_commute)
    ultimately show ?thesis using run 2(2) 1(2) by (intro exI [of _ X2]) simp
  next
    case False
    then show ?thesis using 1(1,2) by (intro exI [of _ X1]) simp
  qed
qed

lemma dec_Cons [dec_rules]:
  assumes p: "dec_ok p e V d Q" and ps: "dec_ok (seqs ps) e' V' d' Q'"
  shows "dec_ok (seqs (p # ps)) (\<lambda>v. e v @ e' v) (\<lambda>v. V v \<and> V' v) (\<lambda>v a. d' v (d v a)) (\<lambda>v a. Q v a \<and> Q' v (d v a))"
  unfolding dec_ok_def
proof (intro allI impI)
  fix X v a r
  assume h: "stream_ok X \<and> x_op X = XDR_DECODE \<and> (\<forall>i. x_alloc X i \<noteq> None) \<and> (V v \<and> V' v) \<and> (Q v a \<and> Q' v (d v a)) \<and> rest X = (e v @ e' v) @ r"
  obtain X1 where 1: "p X a = Some (True, d v a, X1)" "rest X1 = e' v @ r" "went X (length (e v)) X1" "x_buf X1 = x_buf X"
    using dec_okD [OF p, of X v a "e' v @ r"] h by auto
  have "x_op X1 = XDR_DECODE" "x_alloc X1 = x_alloc X" using 1(3) h by (simp_all add: went_def)
  then obtain X2 where 2: "seqs ps X1 (d v a) = Some (True, d' v (d v a), X2)" "rest X2 = r" "went X1 (length (e' v)) X2" "x_buf X2 = x_buf X1"
    using dec_okD [OF ps, of X1 v "d v a" r] h went_ok [OF 1(3)] 1(2) by auto
  show "\<exists>X'. seqs (p # ps) X a = Some (True, d' v (d v a), X') \<and> rest X' = r \<and> went X (length (e v @ e' v)) X' \<and> x_buf X' = x_buf X"
    using 1 2 went_trans [OF 1(3) 2(3)] by (intro exI [of _ X2]) simp
qed

lemma safe_Cons:
  assumes p: "dec_safe p P M" and ps: "dec_safe (seqs ps) M R" and err: "\<And>a. M a \<Longrightarrow> R a"
  shows "dec_safe (seqs (p # ps)) P R"
  unfolding dec_safe_def
proof (intro allI impI)
  fix X a assume h: "stream_ok X \<and> x_op X = XDR_DECODE \<and> P a"
  obtain ok a1 X1 where 1: "p X a = Some (ok, a1, X1)" "M a1" "ok \<Longrightarrow> \<exists>n. went X n X1 \<and> x_buf X1 = x_buf X"
    using dec_safeD [OF p, of X a] h by blast
  show "\<exists>ok a' X'. seqs (p # ps) X a = Some (ok, a', X') \<and> R a' \<and> (ok \<longrightarrow> (\<exists>n. went X n X' \<and> x_buf X' = x_buf X))"
  proof (cases ok)
    case True
    then obtain n where w: "went X n X1" "x_buf X1 = x_buf X" using 1(3) by blast
    have "stream_ok X1" "x_op X1 = XDR_DECODE" using went_ok [OF w(1)] w(1) h by (simp_all add: went_def)
    then obtain ok2 a2 X2 where 2: "seqs ps X1 a1 = Some (ok2, a2, X2)" "R a2" "ok2 \<longrightarrow> (\<exists>n. went X1 n X2 \<and> x_buf X2 = x_buf X1)"
      using dec_safeD [OF ps] 1(2) by blast
    have "ok2 \<longrightarrow> (\<exists>n. went X n X2 \<and> x_buf X2 = x_buf X)" using 2(3) w went_trans by metis
    then show ?thesis using 1(1) True 2(1,2) by auto
  qed (use 1 err in auto)
qed

lemma enc_case [enc_rules]:
  "enc_ok p e V \<Longrightarrow> enc_ok (case_ok st p) (\<lambda>v. if st v = 0 then e v else []) (\<lambda>v. st v = 0 \<longrightarrow> V v)"
  unfolding enc_ok_def case_ok_def by (auto simp: went_refl)

lemma dec_case [dec_rules]:
  "dec_ok p e V d Q \<Longrightarrow> dec_ok (case_ok st p) (\<lambda>v. if st v = 0 then e v else []) (\<lambda>v. st v = 0 \<longrightarrow> V v)
     (\<lambda>v a. if st v = 0 then d v a else a) (\<lambda>v a. st a = st v \<and> (st v = 0 \<longrightarrow> Q v a))"
  unfolding dec_ok_def case_ok_def by (auto simp: went_refl)

lemma safe_case: "dec_safe p P R \<Longrightarrow> (\<And>a. P a \<Longrightarrow> R a) \<Longrightarrow> dec_safe (case_ok st p) P R"
  unfolding dec_safe_def case_ok_def by (auto intro: went_refl)

end
