(* ===== verification/XdrPrims.thy ===== *)
theory XdrPrims
  imports XdrSpec
begin

text \<open>
  The promises of the basic types: numbers, opaque bytes, counted bytes, strings, the inlined
  structures of numbers, and pointers.
\<close>

subsection \<open>The streams\<close>

definition adv :: "XDR \<Rightarrow> u32 \<Rightarrow> XDR" where
  "adv X len = X\<lparr>x_handy := x_handy X - len, x_private := x_private X + unat len\<rparr>"

lemma went_adv:
  assumes "stream_ok X" "unat len \<le> unat (x_handy X)"
  shows "went X (unat len) (adv X len)" "x_buf (adv X len) = x_buf X" "rest (adv X len) = drop (unat len) (rest X)"
proof -
  have "unat (x_handy X) < 2 ^ 31" using assms(1) by (simp add: stream_ok_def)
  then show w: "went X (unat len) (adv X len)" using handy_sub(2) [of "x_handy X" len] assms(2) by (simp add: went_def adv_def)
  show b: "x_buf (adv X len) = x_buf X" by (simp add: adv_def)
  show "rest (adv X len) = drop (unat len) (rest X)" using went_rest [OF w b] .
qed

lemma peek_rest: "stream_ok X \<Longrightarrow> n \<le> unat (x_handy X) \<Longrightarrow> peek (x_private X) n (x_buf X) = Some (take n (rest X))"
  by (auto simp: peek_def rest_def stream_ok_def min_def)

lemma getlong_ok:
  assumes "stream_ok X"
  shows "xdrmem_getlong X a = (if 4 \<le> unat (x_handy X) then Some (True, get32 (take 4 (rest X)), adv X 4) else Some (False, a, X\<lparr>x_handy := x_handy X - 4\<rparr>))"
proof -
  have h: "unat (x_handy X) < 2 ^ 31" using assms by (simp add: stream_ok_def)
  then have "sint (x_handy X - 4) < 0 \<longleftrightarrow> unat (x_handy X) < 4" using handy_sub(1) [OF h, of 4] by simp
  then show ?thesis using peek_rest [OF assms, of 4] by (auto simp: xdrmem_getlong_def Let_def adv_def)
qed

lemma getbytes_ok:
  assumes "stream_ok X" and "unat len < 2 ^ 31" and "unat len \<le> length cp"
  shows "xdrmem_getbytes len X cp = (if unat len \<le> unat (x_handy X) then Some (True, take (unat len) (rest X) @ drop (unat len) cp, adv X len)
     else Some (False, cp, X\<lparr>x_handy := x_handy X - len\<rparr>))"
proof -
  have h: "unat (x_handy X) < 2 ^ 31" using assms by (simp add: stream_ok_def)
  have "sint (x_handy X - len) < 0 \<longleftrightarrow> unat (x_handy X) < unat len" using handy_sub(1) [OF h assms(2)] .
  then show ?thesis using peek_rest [OF assms(1), of "unat len"] assms(3) length_rest [OF assms(1)]
    by (auto simp: xdrmem_getbytes_def Let_def adv_def poke_def)
qed

definition put_at :: "XDR \<Rightarrow> u8 list \<Rightarrow> u8 list" where
  "put_at X bs = take (x_private X) (x_buf X) @ bs @ drop (x_private X + length bs) (x_buf X)"

lemma length_put_at: "stream_ok X \<Longrightarrow> length bs \<le> unat (x_handy X) \<Longrightarrow> length (put_at X bs) = length (x_buf X)"
  by (auto simp: put_at_def stream_ok_def)

lemma poke_room: "stream_ok X \<Longrightarrow> length bs \<le> unat (x_handy X) \<Longrightarrow> poke (x_private X) bs (x_buf X) = Some (put_at X bs)"
  by (auto simp: poke_def put_at_def stream_ok_def)

lemma putbytes_ok:
  assumes "stream_ok X" and "unat len < 2 ^ 31" and "unat len \<le> length cp"
  shows "xdrmem_putbytes len X cp = (if unat len \<le> unat (x_handy X) then Some (True, cp, (adv X len)\<lparr>x_buf := put_at X (take (unat len) cp)\<rparr>)
     else Some (False, cp, X\<lparr>x_handy := x_handy X - len\<rparr>))"
proof -
  have h: "unat (x_handy X) < 2 ^ 31" using assms by (simp add: stream_ok_def)
  have "sint (x_handy X - len) < 0 \<longleftrightarrow> unat (x_handy X) < unat len" using handy_sub(1) [OF h assms(2)] .
  then show ?thesis using poke_room [OF assms(1), of "take (unat len) cp"] assms(3)
    by (auto simp: xdrmem_putbytes_def Let_def adv_def peek_def min_def)
qed

lemma putlong_ok:
  assumes "stream_ok X"
  shows "xdrmem_putlong X a = (if 4 \<le> unat (x_handy X) then Some (True, a, (adv X 4)\<lparr>x_buf := put_at X (put32 a)\<rparr>)
     else Some (False, a, X\<lparr>x_handy := x_handy X - 4\<rparr>))"
proof -
  have h: "unat (x_handy X) < 2 ^ 31" using assms by (simp add: stream_ok_def)
  have "sint (x_handy X - 4) < 0 \<longleftrightarrow> unat (x_handy X) < 4" using handy_sub(1) [OF h, of 4] by simp
  then show ?thesis using poke_room [OF assms, of "put32 a"] by (auto simp: xdrmem_putlong_def Let_def adv_def)
qed

text \<open>A step of the encoder.\<close>

lemma enc_step:
  assumes "stream_ok X" "length bs = unat len" "unat len \<le> unat (x_handy X)"
  shows "went X (length bs) ((adv X len)\<lparr>x_buf := put_at X bs\<rparr>)"
proof -
  have "went X (length bs) (adv X len)" using went_adv(1) [OF assms(1,3)] assms(2) by simp
  moreover have "length (put_at X bs) = length (x_buf X)" using length_put_at [OF assms(1)] assms(2,3) by simp
  ultimately show ?thesis by (simp add: went_def)
qed

subsection \<open>Numbers\<close>

lemma enc_u_long [enc_rules]: "enc_ok xdr_u_int put32 (\<lambda>v. True)"
  unfolding enc_ok_def
proof (intro allI impI, elim conjE)
  fix X and v :: u32 assume h: "stream_ok X" "x_op X = XDR_ENCODE"
  show "\<exists>X'. xdr_u_int X v = Some (length (put32 v) \<le> unat (x_handy X), v, X') \<and> length (x_buf X') = length (x_buf X) \<and>
      (length (put32 v) \<le> unat (x_handy X) \<longrightarrow> went X (length (put32 v)) X' \<and>
         x_buf X' = take (x_private X) (x_buf X) @ put32 v @ drop (x_private X + length (put32 v)) (x_buf X))"
  proof (cases "4 \<le> unat (x_handy X)")
    case True
    then show ?thesis using h putlong_ok [OF h(1)] enc_step [OF h(1), of "put32 v" 4] length_put_at [OF h(1), of "put32 v"]
      by (intro exI [of _ "(adv X 4)\<lparr>x_buf := put_at X (put32 v)\<rparr>"]) (simp add: xdr_u_long_def put_at_def)
  qed (simp add: xdr_u_long_def h putlong_ok)
qed

lemma dec_u_long [dec_rules]: "dec_ok xdr_u_int put32 (\<lambda>v. True) (\<lambda>v a. v) (\<lambda>v a. True)"
  unfolding dec_ok_def
proof (intro allI impI, elim conjE)
  fix X and v a :: u32 and r assume h: "stream_ok X" "x_op X = XDR_DECODE" "rest X = put32 v @ r"
  then have "4 \<le> unat (x_handy X)" using length_rest [OF h(1)] by simp
  then show "\<exists>X'. xdr_u_int X a = Some (True, v, X') \<and> rest X' = r \<and> went X (length (put32 v)) X' \<and> x_buf X' = x_buf X"
    using h getlong_ok [OF h(1)] went_adv [OF h(1), of 4] by (intro exI [of _ "adv X 4"]) (simp add: xdr_u_long_def)
qed

lemma safe_u_long [safe_rules]: "dec_safe xdr_u_int (\<lambda>v. True) (\<lambda>v. True)"
  unfolding dec_safe_def using getlong_ok went_adv(1,2) [where len = 4] by (fastforce simp: xdr_u_long_def)

lemma xdr_enum_eq: "xdr_enum = xdr_u_long"
  by (auto simp: fun_eq_iff xdr_enum_def xdr_long_def xdr_u_long_def split: xdr_op.split)

lemmas number_rules =
  enc_u_long [folded xdr_enum_eq] dec_u_long [folded xdr_enum_eq] safe_u_long [folded xdr_enum_eq]

lemma xdr_bool_decode: "stream_ok X \<Longrightarrow> x_op X = XDR_DECODE \<Longrightarrow>
    xdr_bool X b = (if 4 \<le> unat (x_handy X) then Some (True, get32 (take 4 (rest X)) \<noteq> 0, adv X 4) else Some (False, b, X\<lparr>x_handy := x_handy X - 4\<rparr>))"
  by (simp add: xdr_bool_def getlong_ok)

definition bool_bytes :: "bool \<Rightarrow> u8 list" where
  "bool_bytes b = put32 (if b then 1 else 0)"

lemma enc_bool [enc_rules]: "enc_ok xdr_bool bool_bytes (\<lambda>v. True)"
  unfolding enc_ok_def
proof (intro allI impI, elim conjE)
  fix X v assume h: "stream_ok X" "x_op X = XDR_ENCODE"
  show "\<exists>X'. xdr_bool X v = Some (length (bool_bytes v) \<le> unat (x_handy X), v, X') \<and> length (x_buf X') = length (x_buf X) \<and>
      (length (bool_bytes v) \<le> unat (x_handy X) \<longrightarrow> went X (length (bool_bytes v)) X' \<and>
         x_buf X' = take (x_private X) (x_buf X) @ bool_bytes v @ drop (x_private X + length (bool_bytes v)) (x_buf X))"
    using enc_okD [OF enc_u_long h, of "if v then 1 else 0"] h by (auto simp: xdr_bool_def xdr_u_long_def bool_bytes_def)
qed

lemma dec_bool [dec_rules]: "dec_ok xdr_bool bool_bytes (\<lambda>v. True) (\<lambda>v a. v) (\<lambda>v a. True)"
  unfolding dec_ok_def
proof (intro allI impI, elim conjE)
  fix X v a r assume h: "stream_ok X" "x_op X = XDR_DECODE" "rest X = bool_bytes v @ r"
  then have "4 \<le> unat (x_handy X)" using length_rest [OF h(1)] by (simp add: bool_bytes_def)
  then show "\<exists>X'. xdr_bool X a = Some (True, v, X') \<and> rest X' = r \<and> went X (length (bool_bytes v)) X' \<and> x_buf X' = x_buf X"
    using h xdr_bool_decode [OF h(1,2)] went_adv [OF h(1), of 4] by (intro exI [of _ "adv X 4"]) (simp add: bool_bytes_def)
qed

lemma safe_bool [safe_rules]: "dec_safe xdr_bool (\<lambda>v. True) (\<lambda>v. True)"
  unfolding dec_safe_def using xdr_bool_decode went_adv(1,2) [where len = 4] by fastforce

subsection \<open>Opaque bytes\<close>

definition pad :: "nat \<Rightarrow> nat" where
  "pad n = (4 - n mod 4) mod 4"

lemma length_padding [simp]: "length (padding n) = pad n"
  by (simp add: padding_def pad_def)

lemma pad_small: "pad n < 4"
  by (simp add: pad_def)

abbreviation rndup :: "u32 \<Rightarrow> u32" where
  "rndup cnt \<equiv> (if cnt mod 4 > 0 then 4 - cnt mod 4 else cnt mod 4)"

lemma unat_rndup: "unat (rndup cnt) = pad (unat cnt)"
proof -
  have m: "unat (cnt mod 4) = unat cnt mod 4" by (simp add: unat_mod)
  have lt: "unat (cnt mod 4) < 4" using m by simp
  show ?thesis
  proof (cases "cnt mod 4 > 0")
    case True
    have "unat (4 - cnt mod 4) = 4 - unat (cnt mod 4)" using lt by (subst unat_sub) (simp_all add: word_le_nat_alt)
    moreover have "0 < unat (cnt mod 4)" using True by (simp add: word_less_nat_alt)
    ultimately show ?thesis using True m lt by (simp add: pad_def)
  next
    case False
    then have "unat (cnt mod 4) = 0" by (simp add: word_less_nat_alt)
    then show ?thesis using False m by (simp add: pad_def)
  qed
qed

lemma opaque_zeros:
  assumes "rndup cnt \<noteq> 0"
  shows "unat (rndup cnt) \<le> length [0, 0, 0, 0 :: u8]" and "unat (rndup cnt) < 2 ^ 31" and "take (unat (rndup cnt)) [0, 0, 0, 0] = padding (unat cnt)"
proof -
  have p: "pad (unat cnt) < 4" by (rule pad_small)
  then show "unat (rndup cnt) \<le> length [0, 0, 0, 0 :: u8]" "unat (rndup cnt) < 2 ^ 31" unfolding unat_rndup by simp_all
  have "pad (unat cnt) = 0 \<or> pad (unat cnt) = 1 \<or> pad (unat cnt) = 2 \<or> pad (unat cnt) = 3" using p by linarith
  then show "take (unat (rndup cnt)) [0, 0, 0, 0] = padding (unat cnt)"
    unfolding unat_rndup padding_def pad_def [symmetric] by (elim disjE) (simp_all add: numeral_eq_Suc)
qed

lemma opaque_decode:
  assumes X: "stream_ok X" "x_op X = XDR_DECODE" and n: "unat cnt < 2 ^ 31" "unat cnt \<le> length cp"
  shows "\<exists>X'. xdr_opaque cnt X cp =
      Some (unat cnt + pad (unat cnt) \<le> unat (x_handy X), if unat cnt \<le> unat (x_handy X) then take (unat cnt) (rest X) @ drop (unat cnt) cp else cp, X') \<and>
    (unat cnt + pad (unat cnt) \<le> unat (x_handy X) \<longrightarrow> went X (unat cnt + pad (unat cnt)) X' \<and> x_buf X' = x_buf X)"
proof (cases "cnt = 0")
  case True
  then show ?thesis by (intro exI [of _ X]) (simp add: xdr_opaque_def went_refl pad_def)
next
  case False
  note g = getbytes_ok [OF X(1) n]
  show ?thesis
  proof (cases "unat cnt \<le> unat (x_handy X)")
    case True
    let ?Y = "adv X cnt"
    note w = went_adv [OF X(1) True]
    have Y: "stream_ok ?Y" "x_op ?Y = XDR_DECODE" "unat (x_handy ?Y) = unat (x_handy X) - unat cnt"
      using went_ok [OF w(1) X(1)] w(1) X(2) by (auto simp: went_def)
    show ?thesis
    proof (cases "rndup cnt = 0")
      case True': True
      then have "pad (unat cnt) = 0" using unat_rndup [of cnt] by simp
      then show ?thesis using False True True' g w X(2) by (intro exI [of _ ?Y]) (simp add: xdr_opaque_def Let_def)
    next
      case pad: False
      note z = opaque_zeros [OF pad]
      note g2 = getbytes_ok [OF Y(1) z(2,1)]
      show ?thesis
      proof (cases "unat cnt + pad (unat cnt) \<le> unat (x_handy X)")
        case fit: True
        have le: "unat (rndup cnt) \<le> unat (x_handy ?Y)" unfolding unat_rndup Y(3) using fit by simp
        note w2 = went_adv [OF Y(1) le]
        have "went X (unat cnt + pad (unat cnt)) (adv ?Y (rndup cnt))" using went_trans [OF w(1) w2(1)] unfolding unat_rndup .
        moreover have "xdr_opaque cnt X cp = Some (True, take (unat cnt) (rest X) @ drop (unat cnt) cp, adv ?Y (rndup cnt))"
          unfolding xdr_opaque_def Let_def using False True pad g g2 le X(2) by simp
        ultimately show ?thesis using fit True w(2) w2(2) by (intro exI [of _ "adv ?Y (rndup cnt)"]) simp
      next
        case nofit: False
        have le: "\<not> unat (rndup cnt) \<le> unat (x_handy ?Y)" unfolding unat_rndup Y(3) using nofit True by simp
        have "xdr_opaque cnt X cp = Some (False, take (unat cnt) (rest X) @ drop (unat cnt) cp, ?Y\<lparr>x_handy := x_handy ?Y - rndup cnt\<rparr>)"
          unfolding xdr_opaque_def Let_def using False True pad g g2 le X(2) by simp
        then show ?thesis using nofit True by (intro exI [of _ "?Y\<lparr>x_handy := x_handy ?Y - rndup cnt\<rparr>"]) simp
      qed
    qed
  next
    case no: False
    then show ?thesis using False g X(2) by (intro exI [of _ "X\<lparr>x_handy := x_handy X - cnt\<rparr>"]) (simp add: xdr_opaque_def Let_def)
  qed
qed

lemma opaque_encode:
  assumes X: "stream_ok X" "x_op X = XDR_ENCODE" and n: "unat cnt < 2 ^ 31" "unat cnt \<le> length cp"
  defines "e \<equiv> take (unat cnt) cp @ padding (unat cnt)"
  shows "\<exists>X'. xdr_opaque cnt X cp = Some (length e \<le> unat (x_handy X), cp, X') \<and> length (x_buf X') = length (x_buf X) \<and>
    (length e \<le> unat (x_handy X) \<longrightarrow> went X (length e) X' \<and> x_buf X' = put_at X e)"
proof (cases "cnt = 0")
  case True
  then show ?thesis by (intro exI [of _ X]) (simp add: xdr_opaque_def went_refl pad_def e_def padding_def put_at_def)
next
  case False
  have e: "length e = unat cnt + pad (unat cnt)" using n by (simp add: e_def)
  have len: "length (take (unat cnt) cp) = unat cnt" using n by simp
  note g = putbytes_ok [OF X(1) n]
  show ?thesis
  proof (cases "unat cnt \<le> unat (x_handy X)")
    case True
    define Y where "Y = (adv X cnt)\<lparr>x_buf := put_at X (take (unat cnt) cp)\<rparr>"
    have w: "went X (unat cnt) Y" using enc_step [OF X(1) len True] len unfolding Y_def by simp
    have Y: "stream_ok Y" "x_op Y = XDR_ENCODE" "unat (x_handy Y) = unat (x_handy X) - unat cnt" "x_private Y = x_private X + unat cnt"
      using went_ok [OF w X(1)] w X(2) by (auto simp: went_def)
    show ?thesis
    proof (cases "rndup cnt = 0")
      case True': True
      then have "pad (unat cnt) = 0" using unat_rndup [of cnt] by simp
      then show ?thesis using False True True' g w X(2) e
        by (intro exI [of _ Y]) (simp add: xdr_opaque_def Let_def e_def padding_def pad_def Y_def went_def)
    next
      case pad: False
      note z = opaque_zeros [OF pad]
      note g2 = putbytes_ok [OF Y(1) z(2,1)]
      show ?thesis
      proof (cases "length e \<le> unat (x_handy X)")
        case fit: True
        have le: "unat (rndup cnt) \<le> unat (x_handy Y)" unfolding unat_rndup Y(3) using fit e by simp
        define Z where "Z = (adv Y (rndup cnt))\<lparr>x_buf := put_at Y (padding (unat cnt))\<rparr>"
        have lp: "length (padding (unat cnt)) = unat (rndup cnt)" unfolding unat_rndup by simp
        have w2: "went Y (pad (unat cnt)) Z" using enc_step [OF Y(1) lp le] unfolding Z_def by simp
        have "xdr_opaque cnt X cp = Some (True, cp, Z)"
          unfolding xdr_opaque_def Let_def using False True pad g g2 le X(2) z(3) by (simp add: Y_def [symmetric] Z_def [symmetric])
        moreover have "went X (length e) Z" using went_trans [OF w w2] e by simp
        moreover have "put_at Y (padding (unat cnt)) = put_at X e"
          using X(1) n by (simp add: put_at_def Y(4) e_def stream_ok_def) (simp add: Y_def put_at_def add.commute add.left_commute)
        ultimately show ?thesis using fit by (intro exI [of _ Z]) (simp add: went_def, simp add: Z_def)
      next
        case nofit: False
        have le: "\<not> unat (rndup cnt) \<le> unat (x_handy Y)" unfolding unat_rndup Y(3) using nofit True e by simp
        have "xdr_opaque cnt X cp = Some (False, cp, Y\<lparr>x_handy := x_handy Y - rndup cnt\<rparr>)"
          unfolding xdr_opaque_def Let_def using False True pad g g2 le X(2) by (simp add: Y_def [symmetric])
        then show ?thesis using nofit w by (intro exI [of _ "Y\<lparr>x_handy := x_handy Y - rndup cnt\<rparr>"]) (simp add: went_def)
      qed
    qed
  next
    case no: False
    then show ?thesis using False g X(2) e by (intro exI [of _ "X\<lparr>x_handy := x_handy X - cnt\<rparr>"]) (simp add: xdr_opaque_def Let_def)
  qed
qed

lemma enc_opaque [enc_rules]:
  "enc_ok (xdr_opaque cnt) (\<lambda>v. take (unat cnt) v @ padding (unat cnt)) (\<lambda>v. unat cnt < 2 ^ 31 \<and> unat cnt \<le> length v)"
  unfolding enc_ok_def using opaque_encode unfolding put_at_def by blast

lemma dec_opaque [dec_rules]:
  "dec_ok (xdr_opaque cnt) (\<lambda>v. take (unat cnt) v @ padding (unat cnt)) (\<lambda>v. unat cnt < 2 ^ 31 \<and> unat cnt \<le> length v)
     (\<lambda>v a. take (unat cnt) v @ drop (unat cnt) a) (\<lambda>v a. unat cnt \<le> length a)"
  unfolding dec_ok_def
proof (intro allI impI, elim conjE)
  fix X and v a r :: "u8 list"
  assume h: "stream_ok X" "x_op X = XDR_DECODE" "unat cnt < 2 ^ 31" "unat cnt \<le> length v" "unat cnt \<le> length a"
    "rest X = (take (unat cnt) v @ padding (unat cnt)) @ r"
  have len: "unat cnt + pad (unat cnt) \<le> unat (x_handy X)" using length_rest [OF h(1)] h(4,6) by simp
  obtain X' where "xdr_opaque cnt X a = Some (True, take (unat cnt) (rest X) @ drop (unat cnt) a, X')" "went X (unat cnt + pad (unat cnt)) X'" "x_buf X' = x_buf X"
    using opaque_decode [OF h(1-3,5)] len by auto
  moreover have "rest X' = r" using went_rest [OF calculation(2,3)] h(4,6) by simp
  moreover have "take (unat cnt) (rest X) = take (unat cnt) v" using h(4,6) by simp
  ultimately show "\<exists>X'. xdr_opaque cnt X a = Some (True, take (unat cnt) v @ drop (unat cnt) a, X') \<and> rest X' = r \<and>
      went X (length (take (unat cnt) v @ padding (unat cnt))) X' \<and> x_buf X' = x_buf X"
    using h(4) by simp
qed

lemma safe_opaque:
  "unat cnt < 2 ^ 31 \<Longrightarrow> unat cnt \<le> n \<Longrightarrow> dec_safe (xdr_opaque cnt) (\<lambda>a. length a = n) (\<lambda>a. length a = n)"
  unfolding dec_safe_def
proof (intro allI impI, elim conjE)
  fix X and a :: "u8 list" assume h: "unat cnt < 2 ^ 31" "unat cnt \<le> n" "stream_ok X" "x_op X = XDR_DECODE" "length a = n"
  then obtain X' where x: "xdr_opaque cnt X a =
      Some (unat cnt + pad (unat cnt) \<le> unat (x_handy X), if unat cnt \<le> unat (x_handy X) then take (unat cnt) (rest X) @ drop (unat cnt) a else a, X')"
    "unat cnt + pad (unat cnt) \<le> unat (x_handy X) \<longrightarrow> went X (unat cnt + pad (unat cnt)) X' \<and> x_buf X' = x_buf X"
    using opaque_decode [of X cnt a] by blast
  have "length (if unat cnt \<le> unat (x_handy X) then take (unat cnt) (rest X) @ drop (unat cnt) a else a) = n"
    using h(2,5) length_rest [OF h(3)] by auto
  then show "\<exists>ok a' X'. xdr_opaque cnt X a = Some (ok, a', X') \<and> length a' = n \<and> (ok \<longrightarrow> (\<exists>n. went X n X' \<and> x_buf X' = x_buf X))"
    using x by blast
qed

end
