(* ===== verification/XdrPtr.thy ===== *)
theory XdrPtr
  imports XdrPrims
begin

text \<open>The promises of counted bytes, strings, and structures of numbers in one piece.\<close>

unbundle bit_operations_syntax

subsection \<open>Counted bytes\<close>

definition counted :: "xbytes \<Rightarrow> u8 list" where
  "counted v = take (unat (data_len v)) (case data_val v of None \<Rightarrow> [] | Some bs \<Rightarrow> bs)"

definition counted_ok :: "u32 \<Rightarrow> xbytes \<Rightarrow> bool" where
  "counted_ok maxsize v \<longleftrightarrow> data_len v \<le> maxsize \<and> length (counted v) = unat (data_len v)"

definition bytes_wire :: "xbytes \<Rightarrow> u8 list" where
  "bytes_wire v = put32 (data_len v) @ counted v @ padding (unat (data_len v))"

text \<open>The value \<open>v\<close> stored into \<open>a\<close>; and that it fits there.\<close>

definition bytes_into :: "xbytes \<Rightarrow> xbytes \<Rightarrow> xbytes" where
  "bytes_into v a = a\<lparr>data_len := data_len v,
     data_val := if data_len v = 0 then data_val a else Some (counted v @ drop (unat (data_len v)) (case data_val a of None \<Rightarrow> [] | Some st \<Rightarrow> st))\<rparr>"

definition bytes_fit :: "nat \<Rightarrow> xbytes \<Rightarrow> bool" where
  "bytes_fit n a \<longleftrightarrow> (case data_val a of None \<Rightarrow> True | Some st \<Rightarrow> n \<le> length st)"

lemma bytes_zero: "data_len v = 0 \<Longrightarrow> counted v = [] \<and> padding (unat (data_len v)) = []"
  by (simp add: counted_def padding_def)

lemma enc_bytes [enc_rules]:
  assumes "unat maxsize < 2 ^ 31"
  shows "enc_ok (xdr_bytes maxsize) bytes_wire (counted_ok maxsize)"
  unfolding enc_ok_def
proof (intro allI impI, elim conjE)
  fix X v assume h: "stream_ok X" "x_op X = XDR_ENCODE" "counted_ok maxsize v"
  have v: "\<not> data_len v > maxsize" "unat (data_len v) < 2 ^ 31" "length (counted v) = unat (data_len v)"
    using h(3) assms by (auto simp: counted_ok_def word_le_nat_alt word_less_nat_alt)
  obtain X1 where 1: "xdr_u_int X (data_len v) = Some (4 \<le> unat (x_handy X), data_len v, X1)" "length (x_buf X1) = length (x_buf X)"
    "4 \<le> unat (x_handy X) \<Longrightarrow> went X 4 X1 \<and> x_buf X1 = put_at X (put32 (data_len v))"
    using enc_okD [OF enc_u_long h(1,2), of "data_len v"] by (auto simp: put_at_def)
  let ?e = "counted v @ padding (unat (data_len v))"
  have goal: "\<exists>X'. xdr_bytes maxsize X v = Some (length (bytes_wire v) \<le> unat (x_handy X), v, X') \<and> length (x_buf X') = length (x_buf X) \<and>
      (length (bytes_wire v) \<le> unat (x_handy X) \<longrightarrow> went X (length (bytes_wire v)) X' \<and> x_buf X' = put_at X (bytes_wire v))"
  proof (cases "4 \<le> unat (x_handy X)")
    case False
    then show ?thesis using 1 by (intro exI [of _ X1]) (simp add: xdr_bytes_def bytes_wire_def)
  next
    case True
    then have w: "went X 4 X1" and b: "x_buf X1 = put_at X (put32 (data_len v))" using 1(3) by auto
    have X1: "stream_ok X1" "x_op X1 = XDR_ENCODE" "unat (x_handy X1) = unat (x_handy X) - 4" "x_private X1 = x_private X + 4"
      using went_ok [OF w h(1)] w h(2) by (auto simp: went_def)
    show ?thesis
    proof (cases "data_len v = 0")
      case zero: True
      then show ?thesis using 1(1,2) True v(1) X1 w b bytes_zero [OF zero] by (intro exI [of _ X1]) (simp add: xdr_bytes_def bytes_wire_def h(2) Let_def)
    next
      case False
      then obtain bs where bs: "data_val v = Some bs" using v(3) by (cases "data_val v") (auto simp: counted_def unat_eq_zero)
      have upd: "v\<lparr>data_val := Some bs\<rparr> = v" using bs by (cases v) simp
      have c: "counted v = take (unat (data_len v)) bs" "unat (data_len v) \<le> length bs" using v(3) bs by (auto simp: counted_def)
      obtain X2 where 2: "xdr_opaque (data_len v) X1 bs = Some (length ?e \<le> unat (x_handy X1), bs, X2)" "length (x_buf X2) = length (x_buf X1)"
        "length ?e \<le> unat (x_handy X1) \<Longrightarrow> went X1 (length ?e) X2 \<and> x_buf X2 = put_at X1 ?e"
        using opaque_encode [OF X1(1,2) v(2) c(2)] unfolding c(1) by blast
      have fit: "length ?e \<le> unat (x_handy X1) \<longleftrightarrow> length (bytes_wire v) \<le> unat (x_handy X)" using True X1(3) by (auto simp: bytes_wire_def)
      have run: "xdr_bytes maxsize X v = Some (length (bytes_wire v) \<le> unat (x_handy X), v, X2)"
        using 1(1) True v(1) h(2) False bs 2(1) fit upd by (simp add: xdr_bytes_def)
      have inb: "x_private X + 4 \<le> length (x_buf X)" using h(1) True by (simp add: stream_ok_def)
      have "went X (length (bytes_wire v)) X2 \<and> x_buf X2 = put_at X (bytes_wire v)" if "length (bytes_wire v) \<le> unat (x_handy X)"
      proof -
        have "went X1 (length ?e) X2" "x_buf X2 = put_at X1 ?e" using 2(3) fit that by auto
        moreover have "put_at X1 ?e = put_at X (bytes_wire v)"
          using inb unfolding put_at_def X1(4) b bytes_wire_def by (simp add: add.commute add.left_commute)
        ultimately show ?thesis using went_trans [OF w] by (simp add: bytes_wire_def)
      qed
      then show ?thesis using run 2(2) 1(2) by (intro exI [of _ X2]) simp
    qed
  qed
  then show "\<exists>X'. xdr_bytes maxsize X v = Some (length (bytes_wire v) \<le> unat (x_handy X), v, X') \<and> length (x_buf X') = length (x_buf X) \<and>
      (length (bytes_wire v) \<le> unat (x_handy X) \<longrightarrow> went X (length (bytes_wire v)) X' \<and>
        x_buf X' = take (x_private X) (x_buf X) @ bytes_wire v @ drop (x_private X + length (bytes_wire v)) (x_buf X))"
    by (simp add: put_at_def)
qed

lemma mem_alloc_op: "x_op (snd (mem_alloc X n)) = x_op X" "stream_ok (snd (mem_alloc X n)) = stream_ok X" "rest (snd (mem_alloc X n)) = rest X"
  "x_handy (snd (mem_alloc X n)) = x_handy X" "x_buf (snd (mem_alloc X n)) = x_buf X" "went X 0 (snd (mem_alloc X n))"
  by (simp_all add: mem_alloc_def stream_ok_def rest_def went_def)

text \<open>The storage the bytes go to.\<close>

definition storage :: "XDR \<Rightarrow> u8 list option \<Rightarrow> nat \<Rightarrow> u8 list option \<times> XDR" where
  "storage X sp n = (case sp of None \<Rightarrow> mem_alloc X n | Some bs \<Rightarrow> (Some bs, X))"

lemma storage_ok:
  assumes "storage X sp n = (st, Y)"
  shows "x_op Y = x_op X" "stream_ok Y = stream_ok X" "rest Y = rest X" "x_handy Y = x_handy X" "x_buf Y = x_buf X" "went X 0 Y"
    "(case sp of None \<Rightarrow> True | Some bs \<Rightarrow> n \<le> length bs) \<Longrightarrow> case st of None \<Rightarrow> True | Some bs \<Rightarrow> n \<le> length bs"
    "(\<forall>i. x_alloc X i \<noteq> None) \<Longrightarrow> st \<noteq> None" "sp = None \<Longrightarrow> case st of None \<Rightarrow> True | Some bs \<Rightarrow> length bs = n"
    "sp \<noteq> None \<Longrightarrow> st = sp"
  using assms by (auto simp: storage_def mem_alloc_def stream_ok_def rest_def went_def split: option.splits)

lemma xdr_bytes_decode:
  assumes "x_op X = XDR_DECODE"
  shows "xdr_bytes maxsize X d =
     do {
       (ok, nodesize, X1) \<leftarrow> xdr_u_int X (data_len d);
       let d1 = d\<lparr>data_len := nodesize\<rparr>;
       (if \<not> ok \<or> nodesize > maxsize then Some (False, d1, X1)
        else if nodesize = 0 then Some (True, d1, X1)
        else case storage X1 (data_val d) (unat nodesize) of
           (None, X2) \<Rightarrow> Some (False, d1\<lparr>data_val := None\<rparr>, X2)
         | (Some bs, X2) \<Rightarrow> map_option (\<lambda>(ok, bs', X3). (ok, d1\<lparr>data_val := Some bs'\<rparr>, X3)) (xdr_opaque nodesize X2 bs))
     }"
proof (cases "xdr_u_int X (data_len d)")
  case (Some r)
  then obtain ok n X1 where r: "xdr_u_int X (data_len d) = Some (ok, n, X1)" by (cases r) auto
  then show ?thesis
    by (cases "data_val d"; cases "mem_alloc X1 (unat n)"; cases "fst (mem_alloc X1 (unat n))") (auto simp: xdr_bytes_def storage_def assms Let_def)
qed (simp add: xdr_bytes_def)

lemma dec_bytes [dec_rules]:
  assumes "unat maxsize < 2 ^ 31"
  shows "dec_ok (xdr_bytes maxsize) bytes_wire (counted_ok maxsize) bytes_into (\<lambda>v a. bytes_fit (unat (data_len v)) a)"
  unfolding dec_ok_def
proof (intro allI impI, elim conjE)
  fix X v a r
  assume h: "stream_ok X" "x_op X = XDR_DECODE" "\<forall>i. x_alloc X i \<noteq> None" "counted_ok maxsize v" "bytes_fit (unat (data_len v)) a"
    "rest X = bytes_wire v @ r"
  have v: "\<not> data_len v > maxsize" "unat (data_len v) < 2 ^ 31" "length (counted v) = unat (data_len v)"
    using h(4) assms by (auto simp: counted_ok_def word_le_nat_alt word_less_nat_alt)
  obtain X1 where 1: "xdr_u_int X (data_len a) = Some (True, data_len v, X1)" "rest X1 = counted v @ padding (unat (data_len v)) @ r"
    "went X 4 X1" "x_buf X1 = x_buf X"
    using dec_okD [OF dec_u_long h(1-3), where v = "data_len v" and a = "data_len a"] h(6) by (auto simp: bytes_wire_def)
  have X1: "stream_ok X1" "x_op X1 = XDR_DECODE" "x_alloc X1 = x_alloc X" using went_ok [OF 1(3) h(1)] 1(3) h(2) by (simp_all add: went_def)
  show "\<exists>X'. xdr_bytes maxsize X a = Some (True, bytes_into v a, X') \<and> rest X' = r \<and> went X (length (bytes_wire v)) X' \<and> x_buf X' = x_buf X"
  proof (cases "data_len v = 0")
    case True
    then show ?thesis using 1 v(1) bytes_zero [OF True] h(2)
      by (intro exI [of _ X1]) (simp add: xdr_bytes_decode bytes_into_def bytes_wire_def)
  next
    case False
    obtain st Y where st: "storage X1 (data_val a) (unat (data_len v)) = (st, Y)" by fastforce
    note s = storage_ok [OF st]
    obtain bs where bs: "st = Some bs" using s(8) h(3) X1(3) by auto
    have len: "unat (data_len v) \<le> length bs" using s(7) h(5) bs by (simp add: bytes_fit_def)
    have Y: "stream_ok Y" "x_op Y = XDR_DECODE" using s(1,2) X1 by simp_all
    have room: "unat (data_len v) + pad (unat (data_len v)) \<le> unat (x_handy Y)" using length_rest [OF Y(1)] s(3) 1(2) v(3) by simp
    obtain Z where Z: "xdr_opaque (data_len v) Y bs = Some (True, take (unat (data_len v)) (rest Y) @ drop (unat (data_len v)) bs, Z)"
      "went Y (unat (data_len v) + pad (unat (data_len v))) Z" "x_buf Z = x_buf Y"
      using opaque_decode [OF Y v(2) len] room by auto
    have c: "take (unat (data_len v)) (rest Y) = counted v" using s(3) 1(2) v(3) by simp
    have same: "counted v @ drop (unat (data_len v)) bs = counted v @ drop (unat (data_len v)) (case data_val a of None \<Rightarrow> [] | Some st \<Rightarrow> st)"
      using s(9,10) bs by (cases "data_val a") auto
    have "xdr_bytes maxsize X a = Some (True, bytes_into v a, Z)"
      using 1(1) v(1) False st bs Z(1) c h(2) by (simp add: xdr_bytes_decode bytes_into_def same)
    moreover have "rest Z = r" using went_rest [OF Z(2,3)] s(3) 1(2) v(3) by simp
    moreover have "went X (length (bytes_wire v)) Z" using went_trans [OF went_trans [OF 1(3) s(6)] Z(2)] v(3) by (simp add: bytes_wire_def add.assoc)
    ultimately show ?thesis using Z(3) s(5) 1(4) by auto
  qed
qed

lemma safe_bytes:
  assumes max: "unat maxsize < 2 ^ 31"
  shows "dec_safe (xdr_bytes maxsize) (bytes_fit (unat maxsize)) (\<lambda>a. True)"
  unfolding dec_safe_def
proof (intro allI impI, elim conjE)
  fix X a assume h: "stream_ok X" "x_op X = XDR_DECODE" "bytes_fit (unat maxsize) a"
  obtain ok n X1 where 1: "xdr_u_int X (data_len a) = Some (ok, n, X1)" "ok \<Longrightarrow> \<exists>k. went X k X1 \<and> x_buf X1 = x_buf X"
    using dec_safeD [OF safe_u_long h(1,2)] by blast
  show "\<exists>ok a' X'. xdr_bytes maxsize X a = Some (ok, a', X') \<and> True \<and> (ok \<longrightarrow> (\<exists>n. went X n X' \<and> x_buf X' = x_buf X))"
  proof (cases "ok \<and> n \<le> maxsize \<and> n \<noteq> 0")
    case True
    then obtain k where w: "went X k X1" "x_buf X1 = x_buf X" using 1(2) by blast
    have X1: "stream_ok X1" "x_op X1 = XDR_DECODE" using went_ok [OF w(1) h(1)] w(1) h(2) by (simp_all add: went_def)
    obtain st Y where st: "storage X1 (data_val a) (unat n) = (st, Y)" by fastforce
    note s = storage_ok [OF st]
    have n: "unat n \<le> unat maxsize" "unat n < 2 ^ 31" using True max by (auto simp: word_le_nat_alt)
    show ?thesis
    proof (cases st)
      case None
      then show ?thesis using 1(1) True st h(2) by (auto simp: xdr_bytes_decode Let_def not_less [symmetric])
    next
      case (Some bs)
      have "unat n \<le> length bs" using s(7) h(3) Some n(1) by (auto simp: bytes_fit_def split: option.splits)
      then obtain ok2 bs2 Z where Z: "xdr_opaque n Y bs = Some (ok2, bs2, Z)" "ok2 \<Longrightarrow> \<exists>k. went Y k Z \<and> x_buf Z = x_buf Y"
        using opaque_decode [of Y n bs] s(1,2) X1 n(2) by fastforce
      have "\<exists>k. went X k Z \<and> x_buf Z = x_buf X" if "ok2" using Z(2) [OF that] went_trans w s(5,6) by metis
      moreover have "\<not> maxsize < n" using True by (simp add: not_less)
      ultimately show ?thesis using 1(1) True st Some Z(1) h(2) by (simp add: xdr_bytes_decode Let_def)
    qed
  next
    case False
    then have "xdr_bytes maxsize X a = Some (ok \<and> \<not> maxsize < n, a\<lparr>data_len := n\<rparr>, X1)"
      using 1(1) h(2) by (auto simp: xdr_bytes_decode Let_def not_less)
    then show ?thesis using 1(2) by auto
  qed
qed

subsection \<open>Strings\<close>

definition cstr_bytes :: "u8 list option \<Rightarrow> u8 list" where
  "cstr_bytes v = takeWhile (\<lambda>b. b \<noteq> 0) (case v of None \<Rightarrow> [] | Some bs \<Rightarrow> bs)"

definition string_wire :: "u8 list option \<Rightarrow> u8 list" where
  "string_wire v = put32 (of_nat (length (cstr_bytes v))) @ cstr_bytes v @ padding (length (cstr_bytes v))"

text \<open>A terminated string of at most \<open>n\<close> characters.\<close>

definition string_ok :: "nat \<Rightarrow> u8 list option \<Rightarrow> bool" where
  "string_ok n v \<longleftrightarrow> (\<exists>bs. v = Some bs \<and> 0 \<in> set bs) \<and> length (cstr_bytes v) \<le> n"

lemma c_strlen_bytes: "c_strlen bs = (if 0 \<in> set bs then Some (length (cstr_bytes (Some bs))) else None)"
  by (simp add: c_strlen_def cstr_bytes_def)

lemma takeWhile_zero_less: "(0::u8) \<in> set bs \<Longrightarrow> length (takeWhile (\<lambda>b. b \<noteq> 0) bs) < length bs"
  by (induction bs) auto

lemma takeWhile_snoc_zero: "length (takeWhile (\<lambda>b. b \<noteq> 0) (bs @ [0::u8])) \<le> length bs"
  using takeWhile_zero_less [of "bs @ [0]"] by simp

lemma unat_small: "n < 2 ^ 31 \<Longrightarrow> unat (of_nat n :: u32) = n"
  by (simp add: unat_of_nat take_bit_nat_eq_self)

lemma enc_string [enc_rules]:
  assumes max: "unat maxsize < 2 ^ 30"
  shows "enc_ok (xdr_string maxsize) string_wire (string_ok (unat maxsize))"
  unfolding enc_ok_def
proof (intro allI impI, elim conjE)
  fix X v assume h: "stream_ok X" "x_op X = XDR_ENCODE" "string_ok (unat maxsize) v"
  define n where "n = length (cstr_bytes v)"
  obtain bs where bs: "v = Some bs" "0 \<in> set bs" "n \<le> unat maxsize" using h(3) by (auto simp: string_ok_def n_def)
  define k where "k = (of_nat n :: u32)"
  have k: "unat k = n" "\<not> k > maxsize" "n < 2 ^ 31" "unat k < 2 ^ 31" "c_strlen bs = Some n"
    using bs max unat_small [of n] by (simp_all add: k_def word_less_nat_alt c_strlen_bytes n_def)
  have tw: "n = length (takeWhile (\<lambda>b. b \<noteq> 0) bs)" by (simp add: n_def bs(1) cstr_bytes_def)
  have nb: "n \<le> length bs" using takeWhile_zero_less [OF bs(2)] unfolding tw by simp
  have c: "cstr_bytes v = take (unat k) bs" "unat k \<le> length bs" "padding n = padding (unat k)"
    using takeWhile_eq_take [of "\<lambda>b. b \<noteq> 0" bs] nb by (simp_all only: k(1) tw [symmetric] bs(1) cstr_bytes_def option.case)
  obtain X1 where 1: "xdr_u_int X k = Some (4 \<le> unat (x_handy X), k, X1)" "length (x_buf X1) = length (x_buf X)"
    "4 \<le> unat (x_handy X) \<Longrightarrow> went X 4 X1 \<and> x_buf X1 = put_at X (put32 k)"
    using enc_okD [OF enc_u_long h(1,2), of k] by (auto simp: put_at_def)
  let ?e = "take (unat k) bs @ padding (unat k)"
  have "string_wire v = put32 k @ cstr_bytes v @ padding n" by (simp add: string_wire_def k_def n_def)
  then have e: "string_wire v = put32 k @ ?e" unfolding c(1,3) .
  have "\<exists>X'. xdr_string maxsize X v = Some (length (string_wire v) \<le> unat (x_handy X), v, X') \<and> length (x_buf X') = length (x_buf X) \<and>
      (length (string_wire v) \<le> unat (x_handy X) \<longrightarrow> went X (length (string_wire v)) X' \<and> x_buf X' = put_at X (string_wire v))"
  proof (cases "4 \<le> unat (x_handy X)")
    case False
    then have "\<not> length (string_wire v) \<le> unat (x_handy X)" unfolding e by simp
    then show ?thesis using False 1(1,2) h(2) bs(1) k(5) by (intro exI [of _ X1]) (simp add: xdr_string_def k_def)
  next
    case True
    then have w: "went X 4 X1" and b: "x_buf X1 = put_at X (put32 k)" using 1(3) by auto
    have X1: "stream_ok X1" "x_op X1 = XDR_ENCODE" "unat (x_handy X1) = unat (x_handy X) - 4" "x_private X1 = x_private X + 4"
      using went_ok [OF w h(1)] w h(2) by (auto simp: went_def)
    obtain X2 where 2: "xdr_opaque k X1 bs = Some (length ?e \<le> unat (x_handy X1), bs, X2)" "length (x_buf X2) = length (x_buf X1)"
      "length ?e \<le> unat (x_handy X1) \<Longrightarrow> went X1 (length ?e) X2 \<and> x_buf X2 = put_at X1 ?e"
      using opaque_encode [OF X1(1,2) k(4) c(2)] by blast
    have fit: "length ?e \<le> unat (x_handy X1) \<longleftrightarrow> length (string_wire v) \<le> unat (x_handy X)" using True X1(3) by (auto simp: e)
    have run: "xdr_string maxsize X v = Some (length (string_wire v) \<le> unat (x_handy X), v, X2)"
      using 1(1) True k(2,5) h(2) bs(1) 2(1) fit by (simp add: xdr_string_def k_def)
    have inb: "x_private X + 4 \<le> length (x_buf X)" using h(1) True by (simp add: stream_ok_def)
    have "went X (length (string_wire v)) X2 \<and> x_buf X2 = put_at X (string_wire v)" if "length (string_wire v) \<le> unat (x_handy X)"
    proof -
      have "went X1 (length ?e) X2" "x_buf X2 = put_at X1 ?e" using 2(3) fit that by auto
      moreover have "put_at X1 ?e = put_at X (string_wire v)"
        using inb unfolding put_at_def X1(4) b e by (simp add: add.commute add.left_commute)
      ultimately show ?thesis using went_trans [OF w] by (simp add: e)
    qed
    then show ?thesis using run 2(2) 1(2) by (intro exI [of _ X2]) simp
  qed
  then show "\<exists>X'. xdr_string maxsize X v = Some (length (string_wire v) \<le> unat (x_handy X), v, X') \<and> length (x_buf X') = length (x_buf X) \<and>
      (length (string_wire v) \<le> unat (x_handy X) \<longrightarrow> went X (length (string_wire v)) X' \<and>
        x_buf X' = take (x_private X) (x_buf X) @ string_wire v @ drop (x_private X + length (string_wire v)) (x_buf X))"
    by (simp add: put_at_def)
qed

lemma xdr_string_decode:
  assumes "x_op X = XDR_DECODE"
  shows "xdr_string maxsize X cp =
     do {
       (ok, size, X1) \<leftarrow> xdr_u_int X 0;
       (if \<not> ok \<or> size > maxsize then Some (False, cp, X1)
        else case storage X1 cp (unat (size + 1)) of
           (None, X2) \<Rightarrow> Some (False, None, X2)
         | (Some bs, X2) \<Rightarrow> do {
             bs1 \<leftarrow> poke (unat size) [0] bs;
             (ok, bs2, X3) \<leftarrow> xdr_opaque size X2 bs1;
             Some (ok, Some bs2, X3)
           })
     }"
proof (cases "xdr_u_int X 0")
  case (Some r)
  then obtain ok n X1 where r: "xdr_u_int X 0 = Some (ok, n, X1)" by (cases r) auto
  then show ?thesis
    by (cases cp; cases "mem_alloc X1 (unat (n + 1))"; cases "fst (mem_alloc X1 (unat (n + 1)))") (auto simp: xdr_string_def storage_def assms Let_def)
qed (simp add: xdr_string_def assms)

text \<open>The string the decoder allocates: the characters and the final zero.\<close>

lemma decode_new_string:
  assumes Y: "stream_ok Y" "x_op Y = XDR_DECODE" and n: "unat n < 2 ^ 30" and bs: "length bs = unat n + 1"
  shows "\<exists>bs1 ok cs Z. poke (unat n) [0] bs = Some bs1 \<and> xdr_opaque n Y bs1 = Some (ok, cs @ [0], Z) \<and> length cs = unat n \<and>
    ok = (unat n + pad (unat n) \<le> unat (x_handy Y)) \<and>
    (ok \<longrightarrow> cs = take (unat n) (rest Y) \<and> went Y (unat n + pad (unat n)) Z \<and> x_buf Z = x_buf Y)"
proof -
  let ?b = "take (unat n) bs @ [0]"
  have p: "poke (unat n) [0] bs = Some ?b" using bs by (simp add: poke_def)
  obtain Z where Z: "xdr_opaque n Y ?b =
      Some (unat n + pad (unat n) \<le> unat (x_handy Y), if unat n \<le> unat (x_handy Y) then take (unat n) (rest Y) @ drop (unat n) ?b else ?b, Z)"
    "unat n + pad (unat n) \<le> unat (x_handy Y) \<longrightarrow> went Y (unat n + pad (unat n)) Z \<and> x_buf Z = x_buf Y"
    using opaque_decode [OF Y, of n ?b] n bs by auto
  have d: "drop (unat n) ?b = [0]" using bs by simp
  define cs where "cs = (if unat n \<le> unat (x_handy Y) then take (unat n) (rest Y) else take (unat n) bs)"
  have "(if unat n \<le> unat (x_handy Y) then take (unat n) (rest Y) @ drop (unat n) ?b else ?b) = cs @ [0]" "length cs = unat n"
    using d bs length_rest [OF Y(1)] by (simp_all add: cs_def)
  then show ?thesis using p Z by (intro exI [of _ ?b] exI [of _ "unat n + pad (unat n) \<le> unat (x_handy Y)"] exI [of _ cs] exI [of _ Z]) (simp add: cs_def)
qed

lemma plus_one: "unat (n::u32) < 2 ^ 30 \<Longrightarrow> unat (n + 1) = unat n + 1"
  by (subst unat_plus_simple [THEN iffD1]) (auto simp: word_le_nat_alt unat_word_ariths)

lemma dec_string [dec_rules]:
  assumes max: "unat maxsize < 2 ^ 30"
  shows "dec_ok (xdr_string maxsize) string_wire (string_ok (unat maxsize)) (\<lambda>v a. Some (cstr_bytes v @ [0])) (\<lambda>v a. a = None)"
  unfolding dec_ok_def
proof (intro allI impI, elim conjE)
  fix X and v a :: "u8 list option" and r
  assume h: "stream_ok X" "x_op X = XDR_DECODE" "\<forall>i. x_alloc X i \<noteq> None" "string_ok (unat maxsize) v" "a = None" "rest X = string_wire v @ r"
  define k where "k = (of_nat (length (cstr_bytes v)) :: u32)"
  have k: "unat k = length (cstr_bytes v)" "\<not> k > maxsize" "unat k < 2 ^ 30"
    using h(4) max unat_small [of "length (cstr_bytes v)"] by (auto simp: k_def string_ok_def word_less_nat_alt)
  obtain X1 where 1: "xdr_u_int X 0 = Some (True, k, X1)" "rest X1 = cstr_bytes v @ padding (unat k) @ r" "went X 4 X1" "x_buf X1 = x_buf X"
    using dec_okD [OF dec_u_long h(1-3), where v = k and a = 0] h(6) by (auto simp: string_wire_def k_def k(1) [unfolded k_def])
  have X1: "stream_ok X1" "x_op X1 = XDR_DECODE" "x_alloc X1 = x_alloc X" using went_ok [OF 1(3) h(1)] 1(3) h(2) by (simp_all add: went_def)
  obtain st Y where st: "storage X1 None (unat (k + 1)) = (st, Y)" by fastforce
  note s = storage_ok [OF st]
  obtain bs where bs: "st = Some bs" "length bs = unat k + 1" using s(8,9) h(3) X1(3) plus_one [OF k(3)] by auto
  have Y: "stream_ok Y" "x_op Y = XDR_DECODE" using s(1,2) X1 by simp_all
  have room: "unat k + pad (unat k) \<le> unat (x_handy Y)" using length_rest [OF Y(1)] s(3) 1(2) k(1) by simp
  obtain bs1 ok cs Z where Z: "poke (unat k) [0] bs = Some bs1" "xdr_opaque k Y bs1 = Some (ok, cs @ [0], Z)"
    "ok = (unat k + pad (unat k) \<le> unat (x_handy Y))" "ok \<longrightarrow> cs = take (unat k) (rest Y) \<and> went Y (unat k + pad (unat k)) Z \<and> x_buf Z = x_buf Y"
    using decode_new_string [OF Y k(3) bs(2)] by blast
  have ok: "ok" "cs = cstr_bytes v" "went Y (unat k + pad (unat k)) Z" "x_buf Z = x_buf Y" using Z(3,4) room s(3) 1(2) k(1) by simp_all
  have "xdr_string maxsize X a = Some (True, Some (cstr_bytes v @ [0]), Z)"
    using 1(1) k(2) h(5) st bs(1) Z(1,2) ok(1,2) by (simp add: xdr_string_decode [OF h(2)])
  moreover have "rest Z = r" using went_rest [OF ok(3,4)] s(3) 1(2) k(1) by simp
  moreover have "went X (length (string_wire v)) Z" using went_trans [OF went_trans [OF 1(3) s(6)] ok(3)] k(1) by (simp add: string_wire_def add.assoc)
  ultimately show "\<exists>X'. xdr_string maxsize X a = Some (True, Some (cstr_bytes v @ [0]), X') \<and> rest X' = r \<and> went X (length (string_wire v)) X' \<and> x_buf X' = x_buf X"
    using ok(4) s(5) 1(4) by auto
qed

lemma safe_string:
  assumes max: "unat maxsize < 2 ^ 30"
  shows "dec_safe (xdr_string maxsize) (\<lambda>a. a = None) (\<lambda>a. a = None \<or> string_ok (unat maxsize) a)"
  unfolding dec_safe_def
proof (intro allI impI, elim conjE)
  fix X and a :: "u8 list option" assume h: "stream_ok X" "x_op X = XDR_DECODE" "a = None"
  obtain ok n X1 where 1: "xdr_u_int X 0 = Some (ok, n, X1)" "ok \<Longrightarrow> \<exists>k. went X k X1 \<and> x_buf X1 = x_buf X"
    using dec_safeD [OF safe_u_long h(1,2)] by blast
  show "\<exists>ok a' X'. xdr_string maxsize X a = Some (ok, a', X') \<and> (a' = None \<or> string_ok (unat maxsize) a') \<and> (ok \<longrightarrow> (\<exists>n. went X n X' \<and> x_buf X' = x_buf X))"
  proof (cases "ok \<and> \<not> maxsize < n")
    case True
    then obtain k where w: "went X k X1" "x_buf X1 = x_buf X" using 1(2) by blast
    have X1: "stream_ok X1" "x_op X1 = XDR_DECODE" using went_ok [OF w(1) h(1)] w(1) h(2) by (simp_all add: went_def)
    obtain st Y where st: "storage X1 None (unat (n + 1)) = (st, Y)" by fastforce
    note s = storage_ok [OF st]
    have n: "unat n \<le> unat maxsize" "unat n < 2 ^ 30" using True max by (auto simp: word_less_nat_alt)
    show ?thesis
    proof (cases st)
      case None
      then show ?thesis using 1(1) True st h(3) by (auto simp: xdr_string_decode [OF h(2)])
    next
      case (Some bs)
      have len: "length bs = unat n + 1" using s(9) Some plus_one [OF n(2)] by simp
      have Y: "stream_ok Y" "x_op Y = XDR_DECODE" using s(1,2) X1 by simp_all
      obtain bs1 ok2 cs Z where Z: "poke (unat n) [0] bs = Some bs1" "xdr_opaque n Y bs1 = Some (ok2, cs @ [0], Z)" "length cs = unat n"
        "ok2 \<longrightarrow> went Y (unat n + pad (unat n)) Z \<and> x_buf Z = x_buf Y"
        using decode_new_string [OF Y n(2) len] by blast
      have "string_ok (unat maxsize) (Some (cs @ [0]))" using Z(3) n(1) takeWhile_snoc_zero [of cs] by (simp add: string_ok_def cstr_bytes_def)
      moreover have "\<exists>k. went X k Z \<and> x_buf Z = x_buf X" if "ok2" using Z(4) that went_trans w s(5,6) by metis
      ultimately show ?thesis using 1(1) True st Some Z(1,2) h(3) by (simp add: xdr_string_decode [OF h(2)])
    qed
  next
    case False
    then have "xdr_string maxsize X a = Some (False, None, X1)" using 1(1) h(3) by (auto simp: xdr_string_decode [OF h(2)])
    then show ?thesis by auto
  qed
qed

subsection \<open>Numbers in one piece\<close>

definition longs_wire :: "u32 list \<Rightarrow> u8 list" where
  "longs_wire ws = concat (map put32 ws)"

lemma length_longs_wire [simp]: "length (longs_wire ws) = 4 * length ws"
  by (induction ws) (simp_all add: longs_wire_def)

lemma longs_wire_Cons [simp]: "longs_wire (w # ws) = put32 w @ longs_wire ws" "longs_wire [] = []"
  by (simp_all add: longs_wire_def)

lemma put_longs_ok:
  "p + 4 * length ws \<le> length buf \<Longrightarrow> put_longs p ws buf = Some (take p buf @ longs_wire ws @ drop (p + 4 * length ws) buf)"
proof (induction ws arbitrary: p buf)
  case (Cons w ws)
  define q where "q = p + 4 + 4 * length ws"
  have q: "p + 4 * length (w # ws) = q" "p + 4 \<le> q" "q \<le> length buf" using Cons.prems by (simp_all add: q_def)
  let ?b = "take p buf @ put32 w @ drop (p + 4) buf"
  have p: "poke p (put32 w) buf = Some ?b" using q by (simp add: poke_def)
  have b: "take (p + 4) ?b = take p buf @ put32 w" "drop q ?b = drop q buf" "length ?b = length buf" using q by auto
  have "put_longs (p + 4) ws ?b = Some (take (p + 4) ?b @ longs_wire ws @ drop q ?b)"
    unfolding q_def by (rule Cons.IH) (use q b(3) in \<open>simp add: q_def\<close>)
  then show ?case unfolding q(1) b using p by simp
qed simp

lemma get_longs_ok: "take (4 * length ws) (drop p buf) = longs_wire ws \<Longrightarrow> p + 4 * length ws \<le> length buf \<Longrightarrow> get_longs p (length ws) buf = Some ws"
proof (induction ws arbitrary: p)
  case (Cons w ws)
  define n where "n = 4 * length ws"
  have n: "4 * length (w # ws) = 4 + n" "p + 4 + n \<le> length buf" using Cons.prems(2) by (simp_all add: n_def)
  have t: "take (4 + n) (drop p buf) = put32 w @ longs_wire ws" using Cons.prems(1) n(1) by simp
  have "take 4 (take (4 + n) (drop p buf)) = put32 w" unfolding t by simp
  then have peek: "peek p 4 buf = Some (put32 w)" using n(2) by (simp add: peek_def)
  have "drop 4 (take (4 + n) (drop p buf)) = longs_wire ws" unfolding t by simp
  then have "take n (drop (p + 4) buf) = longs_wire ws" by (simp add: drop_take add.commute)
  then have "get_longs (p + 4) (length ws) buf = Some ws" using n(2) unfolding n_def by (rule Cons.IH)
  then show ?case using peek by simp
qed simp

text \<open>Any bytes are the representation of some numbers.\<close>

lemma no_high_bits: "8 \<le> n \<Longrightarrow> \<not> bit (b :: u8) n"
  using bit_imp_le_length [of b n] by auto

lemma put32_get32: "length bs = 4 \<Longrightarrow> put32 (get32 bs) = bs"
proof -
  assume "length bs = 4"
  then obtain a b c d where bs: "bs = [a, b, c, d]" by (auto simp: numeral_eq_Suc length_Suc_conv)
  let ?w = "get32 bs"
  have w: "bit ?w n \<longleftrightarrow> n < 32 \<and> (24 \<le> n \<and> bit a (n - 24) \<or> 16 \<le> n \<and> bit b (n - 16) \<or> 8 \<le> n \<and> bit c (n - 8) \<or> bit d n)" for n
    by (auto simp: bs get32_def bit_simps)
  have "ucast (drop_bit 24 ?w) = a" "ucast (drop_bit 16 ?w) = b" "ucast (drop_bit 8 ?w) = c" "ucast ?w = d"
    by (rule bit_word_eqI, simp add: bit_simps w no_high_bits del: One_nat_def)+
  then show ?thesis by (simp add: bs put32_def)
qed

lemma longs_of_bytes: "length bs = 4 * n \<Longrightarrow> \<exists>ws. length ws = n \<and> longs_wire ws = bs"
proof (induction n arbitrary: bs)
  case (Suc n)
  obtain ws where "length ws = n" "longs_wire ws = drop 4 bs" using Suc.IH [of "drop 4 bs"] Suc.prems by auto
  then show ?case using put32_get32 [of "take 4 bs"] Suc.prems by (intro exI [of _ "get32 (take 4 bs) # ws"]) simp
qed simp

lemma inline_ok:
  assumes "stream_ok X" and "4 * n < 2 ^ 31"
  shows "xdrmem_inline X (of_nat n * 4) =
    (if 4 * n \<le> unat (x_handy X) then (Some (x_private X), adv X (of_nat (4 * n))) else (None, X))" and "unat (of_nat (4 * n) :: u32) = 4 * n"
proof -
  show u: "unat (of_nat (4 * n) :: u32) = 4 * n" using assms(2) by (rule unat_small)
  have "of_nat n * 4 = (of_nat (4 * n) :: u32)" by (simp add: mult.commute)
  then show "xdrmem_inline X (of_nat n * 4) = (if 4 * n \<le> unat (x_handy X) then (Some (x_private X), adv X (of_nat (4 * n))) else (None, X))"
    using u by (simp only: xdrmem_inline_def word_le_nat_alt adv_def)
qed

lemma enc_longs [enc_rules]:
  assumes n: "4 * n < 2 ^ 31" and len: "\<And>v. length (longs v) = n"
  shows "enc_ok (inline_longs n longs obj slow) (\<lambda>v. longs_wire (longs v)) (\<lambda>v. True)"
  unfolding enc_ok_def
proof (intro allI impI, elim conjE)
  fix X v assume h: "stream_ok X" "x_op X = XDR_ENCODE"
  note i = inline_ok [OF h(1) n]
  let ?Y = "adv X (of_nat (4 * n))" and ?e = "longs_wire (longs v)"
  have e: "length ?e = 4 * n" by (simp add: len)
  show "\<exists>X'. inline_longs n longs obj slow X v = Some (length ?e \<le> unat (x_handy X), v, X') \<and> length (x_buf X') = length (x_buf X) \<and>
      (length ?e \<le> unat (x_handy X) \<longrightarrow> went X (length ?e) X' \<and> x_buf X' = take (x_private X) (x_buf X) @ ?e @ drop (x_private X + length ?e) (x_buf X))"
  proof (cases "4 * n \<le> unat (x_handy X)")
    case True
    have "x_private X + 4 * length (longs v) \<le> length (x_buf X)" using h(1) True by (simp add: stream_ok_def len)
    then have p: "put_longs (x_private X) (longs v) (x_buf X) = Some (put_at X ?e)" using put_longs_ok by (simp add: put_at_def len)
    have "went X (length ?e) (?Y\<lparr>x_buf := put_at X ?e\<rparr>)" using enc_step [OF h(1), of ?e "of_nat (4 * n)"] e i(2) True by simp
    then show ?thesis using True h(2) i(1) p e by (intro exI [of _ "?Y\<lparr>x_buf := put_at X ?e\<rparr>"]) (simp add: inline_longs_def put_at_def went_def, simp add: adv_def)
  next
    case False
    then show ?thesis using h(2) i(1) e by (intro exI [of _ X]) (simp add: inline_longs_def)
  qed
qed

lemma inline_decode:
  assumes n: "4 * n < 2 ^ 31" and X: "stream_ok X" "x_op X = XDR_DECODE" and ws: "length ws = n" "rest X = longs_wire ws @ r"
  shows "\<exists>X'. inline_longs n longs obj slow X a = Some (True, obj ws, X') \<and> rest X' = r \<and> went X (4 * n) X' \<and> x_buf X' = x_buf X"
proof -
  have fit: "4 * n \<le> unat (x_handy X)" using length_rest [OF X(1)] ws by simp
  note i = inline_ok [OF X(1) n]
  let ?Y = "adv X (of_nat (4 * n))"
  have w: "went X (4 * n) ?Y" "x_buf ?Y = x_buf X" "rest ?Y = drop (4 * n) (rest X)"
    using went_adv [OF X(1), of "of_nat (4 * n)"] unfolding i(2) using fit by auto
  have "take (4 * n) (drop (x_private X) (x_buf X)) = take (4 * n) (rest X)" using fit by (simp add: rest_def min_def)
  then have "take (4 * length ws) (drop (x_private X) (x_buf X)) = longs_wire ws" using ws by simp
  then have "get_longs (x_private X) n (x_buf X) = Some ws"
    using get_longs_ok [of ws "x_private X" "x_buf X"] ws(1) X(1) fit by (simp add: stream_ok_def)
  then have "inline_longs n longs obj slow X a = Some (True, obj ws, ?Y)" using X(2) i(1) fit w(2) by (simp add: inline_longs_def)
  then show ?thesis using w ws by (intro exI [of _ ?Y]) simp
qed

lemma dec_longs [dec_rules]:
  assumes n: "4 * n < 2 ^ 31" and len: "\<And>v. length (longs v) = n" and obj: "\<And>v. obj (longs v) = v"
  shows "dec_ok (inline_longs n (longs :: 'a \<Rightarrow> u32 list) obj slow) (\<lambda>v. longs_wire (longs v)) (\<lambda>v. True) (\<lambda>v a. v) (\<lambda>v a. True)"
  unfolding dec_ok_def
proof (intro allI impI, elim conjE)
  fix X and v a :: 'a and r assume h: "stream_ok X" "x_op X = XDR_DECODE" "rest X = longs_wire (longs v) @ r"
  show "\<exists>X'. inline_longs n longs obj slow X a = Some (True, v, X') \<and> rest X' = r \<and> went X (length (longs_wire (longs v))) X' \<and> x_buf X' = x_buf X"
    using inline_decode [OF n h(1,2) len h(3), of longs obj slow a] by (simp add: len obj)
qed

lemma safe_longs:
  assumes n: "4 * n < 2 ^ 31"
  shows "dec_safe (inline_longs n longs obj slow) (\<lambda>v. True) (\<lambda>v. True)"
  unfolding dec_safe_def
proof (intro allI impI, elim conjE)
  fix X a assume h: "stream_ok X" "x_op X = XDR_DECODE"
  note i = inline_ok [OF h(1) n]
  show "\<exists>ok a' X'. inline_longs n longs obj slow X a = Some (ok, a', X') \<and> True \<and> (ok \<longrightarrow> (\<exists>n. went X n X' \<and> x_buf X' = x_buf X))"
  proof (cases "4 * n \<le> unat (x_handy X)")
    case True
    then have "length (take (4 * n) (rest X)) = 4 * n" using length_rest [OF h(1)] by simp
    then obtain ws where ws: "length ws = n" "longs_wire ws = take (4 * n) (rest X)" using longs_of_bytes by blast
    then have r: "rest X = longs_wire ws @ drop (4 * n) (rest X)" by simp
    show ?thesis using inline_decode [OF n h ws(1) r, of longs obj slow a] by blast
  next
    case False
    then show ?thesis using h(2) i(1) by (auto simp: inline_longs_def)
  qed
qed

end
