(* ===== verification/XdrMsg.thy ===== *)
theory XdrMsg
  imports Xdr XdrPtr
begin

text \<open>
  The messages on the wire: the representation of every structure, and that its routine encodes,
  decodes and withstands any bytes. \<open>xdr_type\<close> is the contract of a routine; it is interpreted for
  the arguments and results of all calls.
\<close>

subsection \<open>Whole messages\<close>

definition enc_stream :: "nat \<Rightarrow> XDR" where
  "enc_stream n = \<lparr>x_op = XDR_ENCODE, x_buf = replicate n 0, x_private = 0, x_handy = of_nat n, x_alloc = (\<lambda>_. None), x_nalloc = 0\<rparr>"

definition dec_stream :: "(nat \<Rightarrow> (nat \<Rightarrow> u8) option) \<Rightarrow> u8 list \<Rightarrow> XDR" where
  "dec_stream al bs = \<lparr>x_op = XDR_DECODE, x_buf = bs, x_private = 0, x_handy = of_nat (length bs), x_alloc = al, x_nalloc = 0\<rparr>"

text \<open>The bytes a routine writes into a buffer of \<open>n\<close>; the object it reads from a message, and what it leaves of it.\<close>

definition encode :: "'a xproc \<Rightarrow> nat \<Rightarrow> 'a \<Rightarrow> u8 list option" where
  "encode p n v = (case p (enc_stream n) v of Some (True, _, X) \<Rightarrow> Some (take (x_private X) (x_buf X)) | _ \<Rightarrow> None)"

definition decode :: "'a xproc \<Rightarrow> (nat \<Rightarrow> (nat \<Rightarrow> u8) option) \<Rightarrow> 'a \<Rightarrow> u8 list \<Rightarrow> ('a \<times> u8 list) option" where
  "decode p al a bs = (case p (dec_stream al bs) a of Some (True, v, X) \<Rightarrow> Some (v, drop (x_private X) bs) | _ \<Rightarrow> None)"

lemma enc_stream_ok: "n < 2 ^ 31 \<Longrightarrow> stream_ok (enc_stream n) \<and> x_op (enc_stream n) = XDR_ENCODE \<and> unat (x_handy (enc_stream n)) = n"
  by (simp add: enc_stream_def stream_ok_def unat_small)

lemma dec_stream_ok:
  "length bs < 2 ^ 31 \<Longrightarrow> stream_ok (dec_stream al bs) \<and> x_op (dec_stream al bs) = XDR_DECODE \<and> rest (dec_stream al bs) = bs \<and>
     x_alloc (dec_stream al bs) = al \<and> x_private (dec_stream al bs) = 0 \<and> x_buf (dec_stream al bs) = bs"
  by (simp add: dec_stream_def stream_ok_def rest_def unat_small)

locale xdr_type =
  fixes p :: "'a xproc" and e :: "'a \<Rightarrow> u8 list" and V :: "'a \<Rightarrow> bool" and d :: "'a \<Rightarrow> 'a \<Rightarrow> 'a" and Q :: "'a \<Rightarrow> 'a \<Rightarrow> bool"
  assumes enc: "enc_ok p e V" and dec: "dec_ok p e V d Q"
begin

lemma encode_wire:
  assumes "V v" and "n < 2 ^ 31"
  shows "encode p n v = (if length (e v) \<le> n then Some (e v) else None)"
proof -
  note s = enc_stream_ok [OF assms(2)]
  obtain X' where "p (enc_stream n) v = Some (length (e v) \<le> n, v, X')"
    "length (e v) \<le> n \<longrightarrow> went (enc_stream n) (length (e v)) X' \<and>
       x_buf X' = take (x_private (enc_stream n)) (x_buf (enc_stream n)) @ e v @ drop (x_private (enc_stream n) + length (e v)) (x_buf (enc_stream n))"
    using enc_okD [OF enc, of "enc_stream n" v] s assms(1) by auto
  then show ?thesis by (auto simp: encode_def went_def enc_stream_def)
qed

lemma decode_wire:
  assumes "V v" and "Q v a" and "length (e v @ r) < 2 ^ 31" and "\<forall>i. al i \<noteq> None"
  shows "decode p al a (e v @ r) = Some (d v a, r)"
proof -
  note s = dec_stream_ok [OF assms(3), of al]
  obtain X' where X': "p (dec_stream al (e v @ r)) a = Some (True, d v a, X')" "went (dec_stream al (e v @ r)) (length (e v)) X'"
    using dec_okD [OF dec, of "dec_stream al (e v @ r)" v a r] s assms by auto
  then have "x_private X' = length (e v)" using s by (simp add: went_def)
  then show ?thesis using X'(1) by (simp add: decode_def)
qed

lemma roundtrip:
  assumes "V v" and "Q v a" and "encode p n v = Some bs" and "n < 2 ^ 31" and "length (bs @ r) < 2 ^ 31" and "\<forall>i. al i \<noteq> None"
  shows "decode p al a (bs @ r) = Some (d v a, r)"
proof -
  have "bs = e v" using encode_wire [OF assms(1,4)] assms(3) by (simp split: if_splits)
  then show ?thesis using decode_wire [OF assms(1,2) _ assms(6), of r] assms(5) by simp
qed

end

subsection \<open>Numbers and handles\<close>

abbreviation fh_ok :: "u8 list \<Rightarrow> bool" where
  "fh_ok f \<equiv> length f = 32"

lemma enc_fh [enc_rules]: "enc_ok xdr_nfs_fh (\<lambda>f. f) fh_ok"
  by (rule enc_weaken [OF enc_opaque [of 32], folded xdr_nfs_fh_def [abs_def]]) (simp add: padding_def)

lemma dec_fh [dec_rules]: "dec_ok xdr_nfs_fh (\<lambda>f. f) fh_ok (\<lambda>v a. v) (\<lambda>v a. fh_ok a)"
  by (rule dec_weaken [OF dec_opaque [of 32], folded xdr_nfs_fh_def [abs_def]]) (simp add: padding_def)

lemma safe_fh [safe_rules]: "dec_safe xdr_nfs_fh fh_ok fh_ok"
  using safe_opaque [of 32 32] by (simp add: xdr_nfs_fh_def [abs_def])

lemma xdr_stat_eq: "xdr_nfsstat = xdr_u_long" "xdr_ftype = xdr_u_long"
  using xdr_enum_eq by (auto simp: fun_eq_iff xdr_nfsstat_def xdr_ftype_def)

lemma fattr_longs_facts: "length (fattr_longs a) = 17" "fattr_of_longs (fattr_longs a) = a"
  by (simp_all add: fattr_longs_def fattr_of_longs_def)

lemma sattr_longs_facts: "length (sattr_longs a) = 8" "sattr_of_longs (sattr_longs a) = a"
  by (simp_all add: sattr_longs_def sattr_of_longs_def)

lemma statfs_longs_facts: "length (statfsokres_longs a) = 5" "statfsokres_of_longs (statfsokres_longs a) = a"
  by (simp_all add: statfsokres_longs_def statfsokres_of_longs_def)

definition fattr_wire :: "xfattr \<Rightarrow> u8 list" where
  "fattr_wire a = longs_wire (fattr_longs a)"

definition sattr_wire :: "xsattr \<Rightarrow> u8 list" where
  "sattr_wire a = longs_wire (sattr_longs a)"

definition statfs_wire :: "xstatfsokres \<Rightarrow> u8 list" where
  "statfs_wire a = longs_wire (statfsokres_longs a)"

lemma enc_fattr [enc_rules]: "enc_ok xdr_fattr fattr_wire (\<lambda>v. True)"
  using enc_longs [of 17 fattr_longs] by (simp add: xdr_fattr_def fattr_wire_def [abs_def] fattr_longs_facts)

lemma dec_fattr [dec_rules]: "dec_ok xdr_fattr fattr_wire (\<lambda>v. True) (\<lambda>v a. v) (\<lambda>v a. True)"
  using dec_longs [of 17 fattr_longs fattr_of_longs] by (simp add: xdr_fattr_def fattr_wire_def [abs_def] fattr_longs_facts)

lemma safe_fattr [safe_rules]: "dec_safe xdr_fattr (\<lambda>v. True) (\<lambda>v. True)"
  using safe_longs [of 17] by (simp add: xdr_fattr_def)

lemma enc_sattr [enc_rules]: "enc_ok xdr_sattr sattr_wire (\<lambda>v. True)"
  using enc_longs [of 8 sattr_longs] by (simp add: xdr_sattr_def sattr_wire_def [abs_def] sattr_longs_facts)

lemma dec_sattr [dec_rules]: "dec_ok xdr_sattr sattr_wire (\<lambda>v. True) (\<lambda>v a. v) (\<lambda>v a. True)"
  using dec_longs [of 8 sattr_longs sattr_of_longs] by (simp add: xdr_sattr_def sattr_wire_def [abs_def] sattr_longs_facts)

lemma enc_statfs [enc_rules]: "enc_ok xdr_statfsokres statfs_wire (\<lambda>v. True)"
  using enc_longs [of 5 statfsokres_longs] by (simp add: xdr_statfsokres_def statfs_wire_def [abs_def] statfs_longs_facts)

lemma dec_statfs [dec_rules]: "dec_ok xdr_statfsokres statfs_wire (\<lambda>v. True) (\<lambda>v a. v) (\<lambda>v a. True)"
  using dec_longs [of 5 statfsokres_longs statfsokres_of_longs] by (simp add: xdr_statfsokres_def statfs_wire_def [abs_def] statfs_longs_facts)

lemma safe_statfs [safe_rules]: "dec_safe xdr_statfsokres (\<lambda>v. True) (\<lambda>v. True)"
  using safe_longs [of 5] by (simp add: xdr_statfsokres_def)

lemma enc_filename [enc_rules]: "enc_ok xdr_filename string_wire (string_ok 255)"
  unfolding xdr_filename_def by (rule enc_weaken, (rule enc_rules | (simp; fail))+)

lemma dec_filename [dec_rules]: "dec_ok xdr_filename string_wire (string_ok 255) (\<lambda>v a. Some (cstr_bytes v @ [0])) (\<lambda>v a. a = None)"
  unfolding xdr_filename_def by (rule dec_weaken, (rule dec_rules | (simp; fail))+)

lemma enc_nfspath [enc_rules]: "enc_ok xdr_nfspath string_wire (string_ok 1024)"
  unfolding xdr_nfspath_def by (rule enc_weaken, (rule enc_rules | (simp; fail))+)

lemma dec_nfspath [dec_rules]: "dec_ok xdr_nfspath string_wire (string_ok 1024) (\<lambda>v a. Some (cstr_bytes v @ [0])) (\<lambda>v a. a = None)"
  unfolding xdr_nfspath_def by (rule dec_weaken, (rule dec_rules | (simp; fail))+)

lemma enc_cookie [enc_rules]: "enc_ok xdr_nfscookie (\<lambda>c. c) (\<lambda>c. length c = 4)"
  unfolding xdr_nfscookie_def by (rule enc_weaken, (rule enc_rules | (simp add: padding_def; fail))+)

lemma dec_cookie [dec_rules]: "dec_ok xdr_nfscookie (\<lambda>c. c) (\<lambda>c. length c = 4) (\<lambda>v a. v) (\<lambda>v a. length a = 4)"
  unfolding xdr_nfscookie_def by (rule dec_weaken, (rule dec_rules | (simp add: padding_def; fail))+)

subsection \<open>Arguments\<close>

definition sattrargs_wire :: "sattrargs \<Rightarrow> u8 list" where
  "sattrargs_wire v = sg_file v @ sattr_wire (sg_attributes v)"

lemma enc_sattrargs [enc_rules]: "enc_ok xdr_sattrargs sattrargs_wire (\<lambda>v. fh_ok (sg_file v))"
  unfolding xdr_sattrargs_def xdr_stat_eq by (rule enc_weaken, (rule enc_rules | (simp; fail))+) (auto simp: sattrargs_wire_def)

lemma dec_sattrargs [dec_rules]: "dec_ok xdr_sattrargs sattrargs_wire (\<lambda>v. fh_ok (sg_file v)) (\<lambda>v a. v) (\<lambda>v a. fh_ok (sg_file a))"
  unfolding xdr_sattrargs_def xdr_stat_eq by (rule dec_weaken, (rule dec_rules | (simp; fail))+) (auto simp: sattrargs_wire_def)

interpretation x_sattrargs: xdr_type xdr_sattrargs sattrargs_wire "\<lambda>v. fh_ok (sg_file v)" "\<lambda>v a. v" "\<lambda>v a. fh_ok (sg_file a)"
  by unfold_locales (rule enc_sattrargs, rule dec_sattrargs)

definition diropargs_into :: "diropargs \<Rightarrow> diropargs" where
  "diropargs_into v = v\<lparr>do_name := Some (cstr_bytes (do_name v) @ [0])\<rparr>"

definition diropargs_ok :: "diropargs \<Rightarrow> bool" where
  "diropargs_ok v \<longleftrightarrow> fh_ok (do_dir v) \<and> string_ok 255 (do_name v)"

definition diropargs_new :: "diropargs \<Rightarrow> bool" where
  "diropargs_new a \<longleftrightarrow> fh_ok (do_dir a) \<and> do_name a = None"

definition diropargs_wire :: "diropargs \<Rightarrow> u8 list" where
  "diropargs_wire v = do_dir v @ string_wire (do_name v)"

lemma enc_diropargs [enc_rules]: "enc_ok xdr_diropargs diropargs_wire (\<lambda>v. diropargs_ok v)"
  unfolding xdr_diropargs_def xdr_stat_eq by (rule enc_weaken, (rule enc_rules | (simp; fail))+) (auto simp: diropargs_wire_def diropargs_ok_def diropargs_new_def diropargs_into_def)

lemma dec_diropargs [dec_rules]: "dec_ok xdr_diropargs diropargs_wire (\<lambda>v. diropargs_ok v) (\<lambda>v a. diropargs_into v) (\<lambda>v a. diropargs_new a)"
  unfolding xdr_diropargs_def xdr_stat_eq by (rule dec_weaken, (rule dec_rules | (simp; fail))+) (auto simp: diropargs_wire_def diropargs_ok_def diropargs_new_def diropargs_into_def)

interpretation x_diropargs: xdr_type xdr_diropargs diropargs_wire "\<lambda>v. diropargs_ok v" "\<lambda>v a. diropargs_into v" "\<lambda>v a. diropargs_new a"
  by unfold_locales (rule enc_diropargs, rule dec_diropargs)

definition readargs_wire :: "readargs \<Rightarrow> u8 list" where
  "readargs_wire v = ra_file v @ put32 (ra_offset v) @ put32 (ra_count v) @ put32 (ra_totalcount v)"

lemma enc_readargs [enc_rules]: "enc_ok xdr_readargs readargs_wire (\<lambda>v. fh_ok (ra_file v))"
  unfolding xdr_readargs_def xdr_stat_eq by (rule enc_weaken, (rule enc_rules | (simp; fail))+) (auto simp: readargs_wire_def)

lemma dec_readargs [dec_rules]: "dec_ok xdr_readargs readargs_wire (\<lambda>v. fh_ok (ra_file v)) (\<lambda>v a. v) (\<lambda>v a. fh_ok (ra_file a))"
  unfolding xdr_readargs_def xdr_stat_eq by (rule dec_weaken, (rule dec_rules | (simp; fail))+) (auto simp: readargs_wire_def)

interpretation x_readargs: xdr_type xdr_readargs readargs_wire "\<lambda>v. fh_ok (ra_file v)" "\<lambda>v a. v" "\<lambda>v a. fh_ok (ra_file a)"
  by unfold_locales (rule enc_readargs, rule dec_readargs)

definition writeargs_wire :: "writeargs \<Rightarrow> u8 list" where
  "writeargs_wire v = wa_file v @ put32 (wa_beginoffset v) @ put32 (wa_offset v) @ put32 (wa_totalcount v) @ bytes_wire (wa_data v)"

lemma enc_writeargs [enc_rules]: "enc_ok xdr_writeargs writeargs_wire (\<lambda>v. fh_ok (wa_file v) \<and> counted_ok 8192 (wa_data v))"
  unfolding xdr_writeargs_def xdr_stat_eq by (rule enc_weaken, (rule enc_rules | (simp; fail))+) (auto simp: writeargs_wire_def)

lemma dec_writeargs [dec_rules]: "dec_ok xdr_writeargs writeargs_wire (\<lambda>v. fh_ok (wa_file v) \<and> counted_ok 8192 (wa_data v)) (\<lambda>v a. v\<lparr>wa_data := bytes_into (wa_data v) (wa_data a)\<rparr>) (\<lambda>v a. fh_ok (wa_file a) \<and> bytes_fit (unat (data_len (wa_data v))) (wa_data a))"
  unfolding xdr_writeargs_def xdr_stat_eq by (rule dec_weaken, (rule dec_rules | (simp; fail))+) (auto simp: writeargs_wire_def)

interpretation x_writeargs: xdr_type xdr_writeargs writeargs_wire "\<lambda>v. fh_ok (wa_file v) \<and> counted_ok 8192 (wa_data v)" "\<lambda>v a. v\<lparr>wa_data := bytes_into (wa_data v) (wa_data a)\<rparr>" "\<lambda>v a. fh_ok (wa_file a) \<and> bytes_fit (unat (data_len (wa_data v))) (wa_data a)"
  by unfold_locales (rule enc_writeargs, rule dec_writeargs)

definition writeargssb_wire :: "writeargs \<Rightarrow> u8 list" where
  "writeargssb_wire v = wa_file v @ put32 (wa_beginoffset v) @ put32 (wa_offset v) @ put32 (wa_totalcount v) @ put32 (data_len (wa_data v))"

lemma enc_writeargssb [enc_rules]: "enc_ok xdr_writeargssb writeargssb_wire (\<lambda>v. fh_ok (wa_file v))"
  unfolding xdr_writeargssb_def xdr_stat_eq by (rule enc_weaken, (rule enc_rules | (simp; fail))+) (auto simp: writeargssb_wire_def)

lemma dec_writeargssb [dec_rules]: "dec_ok xdr_writeargssb writeargssb_wire (\<lambda>v. fh_ok (wa_file v)) (\<lambda>v a. v\<lparr>wa_data := (wa_data a)\<lparr>data_len := data_len (wa_data v)\<rparr>\<rparr>) (\<lambda>v a. fh_ok (wa_file a))"
  unfolding xdr_writeargssb_def xdr_stat_eq by (rule dec_weaken, (rule dec_rules | (simp; fail))+) (auto simp: writeargssb_wire_def)

interpretation x_writeargssb: xdr_type xdr_writeargssb writeargssb_wire "\<lambda>v. fh_ok (wa_file v)" "\<lambda>v a. v\<lparr>wa_data := (wa_data a)\<lparr>data_len := data_len (wa_data v)\<rparr>\<rparr>" "\<lambda>v a. fh_ok (wa_file a)"
  by unfold_locales (rule enc_writeargssb, rule dec_writeargssb)

definition createargs_wire :: "createargs \<Rightarrow> u8 list" where
  "createargs_wire v = diropargs_wire (ca_where v) @ sattr_wire (ca_attributes v)"

lemma enc_createargs [enc_rules]: "enc_ok xdr_createargs createargs_wire (\<lambda>v. diropargs_ok (ca_where v))"
  unfolding xdr_createargs_def xdr_stat_eq by (rule enc_weaken, (rule enc_rules | (simp; fail))+) (auto simp: createargs_wire_def)

lemma dec_createargs [dec_rules]: "dec_ok xdr_createargs createargs_wire (\<lambda>v. diropargs_ok (ca_where v)) (\<lambda>v a. v\<lparr>ca_where := diropargs_into (ca_where v)\<rparr>) (\<lambda>v a. diropargs_new (ca_where a))"
  unfolding xdr_createargs_def xdr_stat_eq by (rule dec_weaken, (rule dec_rules | (simp; fail))+) (auto simp: createargs_wire_def)

interpretation x_createargs: xdr_type xdr_createargs createargs_wire "\<lambda>v. diropargs_ok (ca_where v)" "\<lambda>v a. v\<lparr>ca_where := diropargs_into (ca_where v)\<rparr>" "\<lambda>v a. diropargs_new (ca_where a)"
  by unfold_locales (rule enc_createargs, rule dec_createargs)

definition renameargs_wire :: "renameargs \<Rightarrow> u8 list" where
  "renameargs_wire v = diropargs_wire (rn_from v) @ diropargs_wire (rn_to v)"

lemma enc_renameargs [enc_rules]: "enc_ok xdr_renameargs renameargs_wire (\<lambda>v. diropargs_ok (rn_from v) \<and> diropargs_ok (rn_to v))"
  unfolding xdr_renameargs_def xdr_stat_eq by (rule enc_weaken, (rule enc_rules | (simp; fail))+) (auto simp: renameargs_wire_def)

lemma dec_renameargs [dec_rules]: "dec_ok xdr_renameargs renameargs_wire (\<lambda>v. diropargs_ok (rn_from v) \<and> diropargs_ok (rn_to v)) (\<lambda>v a. v\<lparr>rn_from := diropargs_into (rn_from v), rn_to := diropargs_into (rn_to v)\<rparr>) (\<lambda>v a. diropargs_new (rn_from a) \<and> diropargs_new (rn_to a))"
  unfolding xdr_renameargs_def xdr_stat_eq by (rule dec_weaken, (rule dec_rules | (simp; fail))+) (auto simp: renameargs_wire_def)

interpretation x_renameargs: xdr_type xdr_renameargs renameargs_wire "\<lambda>v. diropargs_ok (rn_from v) \<and> diropargs_ok (rn_to v)" "\<lambda>v a. v\<lparr>rn_from := diropargs_into (rn_from v), rn_to := diropargs_into (rn_to v)\<rparr>" "\<lambda>v a. diropargs_new (rn_from a) \<and> diropargs_new (rn_to a)"
  by unfold_locales (rule enc_renameargs, rule dec_renameargs)

definition linkargs_wire :: "linkargs \<Rightarrow> u8 list" where
  "linkargs_wire v = la_from v @ diropargs_wire (la_to v)"

lemma enc_linkargs [enc_rules]: "enc_ok xdr_linkargs linkargs_wire (\<lambda>v. fh_ok (la_from v) \<and> diropargs_ok (la_to v))"
  unfolding xdr_linkargs_def xdr_stat_eq by (rule enc_weaken, (rule enc_rules | (simp; fail))+) (auto simp: linkargs_wire_def)

lemma dec_linkargs [dec_rules]: "dec_ok xdr_linkargs linkargs_wire (\<lambda>v. fh_ok (la_from v) \<and> diropargs_ok (la_to v)) (\<lambda>v a. v\<lparr>la_to := diropargs_into (la_to v)\<rparr>) (\<lambda>v a. fh_ok (la_from a) \<and> diropargs_new (la_to a))"
  unfolding xdr_linkargs_def xdr_stat_eq by (rule dec_weaken, (rule dec_rules | (simp; fail))+) (auto simp: linkargs_wire_def)

interpretation x_linkargs: xdr_type xdr_linkargs linkargs_wire "\<lambda>v. fh_ok (la_from v) \<and> diropargs_ok (la_to v)" "\<lambda>v a. v\<lparr>la_to := diropargs_into (la_to v)\<rparr>" "\<lambda>v a. fh_ok (la_from a) \<and> diropargs_new (la_to a)"
  by unfold_locales (rule enc_linkargs, rule dec_linkargs)

definition symlinkargs_wire :: "symlinkargs \<Rightarrow> u8 list" where
  "symlinkargs_wire v = diropargs_wire (sl_from v) @ string_wire (sl_to v) @ sattr_wire (sl_attributes v)"

lemma enc_symlinkargs [enc_rules]: "enc_ok xdr_symlinkargs symlinkargs_wire (\<lambda>v. diropargs_ok (sl_from v) \<and> string_ok 1024 (sl_to v))"
  unfolding xdr_symlinkargs_def xdr_stat_eq by (rule enc_weaken, (rule enc_rules | (simp; fail))+) (auto simp: symlinkargs_wire_def)

lemma dec_symlinkargs [dec_rules]: "dec_ok xdr_symlinkargs symlinkargs_wire (\<lambda>v. diropargs_ok (sl_from v) \<and> string_ok 1024 (sl_to v)) (\<lambda>v a. v\<lparr>sl_from := diropargs_into (sl_from v), sl_to := Some (cstr_bytes (sl_to v) @ [0])\<rparr>) (\<lambda>v a. diropargs_new (sl_from a) \<and> sl_to a = None)"
  unfolding xdr_symlinkargs_def xdr_stat_eq by (rule dec_weaken, (rule dec_rules | (simp; fail))+) (auto simp: symlinkargs_wire_def)

interpretation x_symlinkargs: xdr_type xdr_symlinkargs symlinkargs_wire "\<lambda>v. diropargs_ok (sl_from v) \<and> string_ok 1024 (sl_to v)" "\<lambda>v a. v\<lparr>sl_from := diropargs_into (sl_from v), sl_to := Some (cstr_bytes (sl_to v) @ [0])\<rparr>" "\<lambda>v a. diropargs_new (sl_from a) \<and> sl_to a = None"
  by unfold_locales (rule enc_symlinkargs, rule dec_symlinkargs)

definition readdirargs_wire :: "readdirargs \<Rightarrow> u8 list" where
  "readdirargs_wire v = rd_dir v @ rd_cookie v @ put32 (rd_count v)"

lemma enc_readdirargs [enc_rules]: "enc_ok xdr_readdirargs readdirargs_wire (\<lambda>v. fh_ok (rd_dir v) \<and> length (rd_cookie v) = 4)"
  unfolding xdr_readdirargs_def xdr_stat_eq by (rule enc_weaken, (rule enc_rules | (simp; fail))+) (auto simp: readdirargs_wire_def)

lemma dec_readdirargs [dec_rules]: "dec_ok xdr_readdirargs readdirargs_wire (\<lambda>v. fh_ok (rd_dir v) \<and> length (rd_cookie v) = 4) (\<lambda>v a. v) (\<lambda>v a. fh_ok (rd_dir a) \<and> length (rd_cookie a) = 4)"
  unfolding xdr_readdirargs_def xdr_stat_eq by (rule dec_weaken, (rule dec_rules | (simp; fail))+) (auto simp: readdirargs_wire_def)

interpretation x_readdirargs: xdr_type xdr_readdirargs readdirargs_wire "\<lambda>v. fh_ok (rd_dir v) \<and> length (rd_cookie v) = 4" "\<lambda>v a. v" "\<lambda>v a. fh_ok (rd_dir a) \<and> length (rd_cookie a) = 4"
  by unfold_locales (rule enc_readdirargs, rule dec_readdirargs)

subsection \<open>Results\<close>

definition attrstat_wire :: "attrstat \<Rightarrow> u8 list" where
  "attrstat_wire v = put32 (as_status v) @ (if as_status v = 0 then fattr_wire (as_attributes v) else [])"

lemma enc_attrstat [enc_rules]: "enc_ok xdr_attrstat attrstat_wire (\<lambda>v. True)"
  unfolding xdr_attrstat_def xdr_stat_eq by (rule enc_weaken, (rule enc_rules | (simp; fail))+) (auto simp: attrstat_wire_def)

lemma dec_attrstat [dec_rules]: "dec_ok xdr_attrstat attrstat_wire (\<lambda>v. True) (\<lambda>v a. if as_status v = 0 then v else a\<lparr>as_status := as_status v\<rparr>) (\<lambda>v a. True)"
  unfolding xdr_attrstat_def xdr_stat_eq by (rule dec_weaken, (rule dec_rules | (simp; fail))+) (auto simp: attrstat_wire_def)

interpretation x_attrstat: xdr_type xdr_attrstat attrstat_wire "\<lambda>v. True" "\<lambda>v a. if as_status v = 0 then v else a\<lparr>as_status := as_status v\<rparr>" "\<lambda>v a. True"
  by unfold_locales (rule enc_attrstat, rule dec_attrstat)

definition diropokres_wire :: "xdiropokres \<Rightarrow> u8 list" where
  "diropokres_wire v = dk_file v @ fattr_wire (dk_attributes v)"

lemma enc_diropokres [enc_rules]: "enc_ok xdr_diropokres diropokres_wire (\<lambda>v. fh_ok (dk_file v))"
  unfolding xdr_diropokres_def xdr_stat_eq by (rule enc_weaken, (rule enc_rules | (simp; fail))+) (auto simp: diropokres_wire_def)

lemma dec_diropokres [dec_rules]: "dec_ok xdr_diropokres diropokres_wire (\<lambda>v. fh_ok (dk_file v)) (\<lambda>v a. v) (\<lambda>v a. fh_ok (dk_file a))"
  unfolding xdr_diropokres_def xdr_stat_eq by (rule dec_weaken, (rule dec_rules | (simp; fail))+) (auto simp: diropokres_wire_def)

interpretation x_diropokres: xdr_type xdr_diropokres diropokres_wire "\<lambda>v. fh_ok (dk_file v)" "\<lambda>v a. v" "\<lambda>v a. fh_ok (dk_file a)"
  by unfold_locales (rule enc_diropokres, rule dec_diropokres)

definition diropres_wire :: "diropres \<Rightarrow> u8 list" where
  "diropres_wire v = put32 (dr_status v) @ (if dr_status v = 0 then diropokres_wire (dr_diropres v) else [])"

lemma enc_diropres [enc_rules]: "enc_ok xdr_diropres diropres_wire (\<lambda>v. dr_status v = 0 \<longrightarrow> fh_ok (dk_file (dr_diropres v)))"
  unfolding xdr_diropres_def xdr_stat_eq by (rule enc_weaken, (rule enc_rules | (simp; fail))+) (auto simp: diropres_wire_def)

lemma dec_diropres [dec_rules]: "dec_ok xdr_diropres diropres_wire (\<lambda>v. dr_status v = 0 \<longrightarrow> fh_ok (dk_file (dr_diropres v))) (\<lambda>v a. if dr_status v = 0 then v else a\<lparr>dr_status := dr_status v\<rparr>) (\<lambda>v a. fh_ok (dk_file (dr_diropres a)))"
  unfolding xdr_diropres_def xdr_stat_eq by (rule dec_weaken, (rule dec_rules | (simp; fail))+) (auto simp: diropres_wire_def)

interpretation x_diropres: xdr_type xdr_diropres diropres_wire "\<lambda>v. dr_status v = 0 \<longrightarrow> fh_ok (dk_file (dr_diropres v))" "\<lambda>v a. if dr_status v = 0 then v else a\<lparr>dr_status := dr_status v\<rparr>" "\<lambda>v a. fh_ok (dk_file (dr_diropres a))"
  by unfold_locales (rule enc_diropres, rule dec_diropres)

definition readlinkres_wire :: "readlinkres \<Rightarrow> u8 list" where
  "readlinkres_wire v = put32 (rl_status v) @ (if rl_status v = 0 then string_wire (rl_data v) else [])"

lemma enc_readlinkres [enc_rules]: "enc_ok xdr_readlinkres readlinkres_wire (\<lambda>v. rl_status v = 0 \<longrightarrow> string_ok 1024 (rl_data v))"
  unfolding xdr_readlinkres_def xdr_stat_eq by (rule enc_weaken, (rule enc_rules | (simp; fail))+) (auto simp: readlinkres_wire_def)

lemma dec_readlinkres [dec_rules]: "dec_ok xdr_readlinkres readlinkres_wire (\<lambda>v. rl_status v = 0 \<longrightarrow> string_ok 1024 (rl_data v)) (\<lambda>v a. if rl_status v = 0 then v\<lparr>rl_data := Some (cstr_bytes (rl_data v) @ [0])\<rparr> else a\<lparr>rl_status := rl_status v\<rparr>) (\<lambda>v a. rl_data a = None)"
  unfolding xdr_readlinkres_def xdr_stat_eq by (rule dec_weaken, (rule dec_rules | (simp; fail))+) (auto simp: readlinkres_wire_def)

interpretation x_readlinkres: xdr_type xdr_readlinkres readlinkres_wire "\<lambda>v. rl_status v = 0 \<longrightarrow> string_ok 1024 (rl_data v)" "\<lambda>v a. if rl_status v = 0 then v\<lparr>rl_data := Some (cstr_bytes (rl_data v) @ [0])\<rparr> else a\<lparr>rl_status := rl_status v\<rparr>" "\<lambda>v a. rl_data a = None"
  by unfold_locales (rule enc_readlinkres, rule dec_readlinkres)

definition readokres_wire :: "readokres \<Rightarrow> u8 list" where
  "readokres_wire v = fattr_wire (ro_attributes v) @ bytes_wire (ro_data v)"

lemma enc_readokres [enc_rules]: "enc_ok xdr_readokres readokres_wire (\<lambda>v. counted_ok 8192 (ro_data v))"
  unfolding xdr_readokres_def xdr_stat_eq by (rule enc_weaken, (rule enc_rules | (simp; fail))+) (auto simp: readokres_wire_def)

lemma dec_readokres [dec_rules]: "dec_ok xdr_readokres readokres_wire (\<lambda>v. counted_ok 8192 (ro_data v)) (\<lambda>v a. v\<lparr>ro_data := bytes_into (ro_data v) (ro_data a)\<rparr>) (\<lambda>v a. bytes_fit (unat (data_len (ro_data v))) (ro_data a))"
  unfolding xdr_readokres_def xdr_stat_eq by (rule dec_weaken, (rule dec_rules | (simp; fail))+) (auto simp: readokres_wire_def)

interpretation x_readokres: xdr_type xdr_readokres readokres_wire "\<lambda>v. counted_ok 8192 (ro_data v)" "\<lambda>v a. v\<lparr>ro_data := bytes_into (ro_data v) (ro_data a)\<rparr>" "\<lambda>v a. bytes_fit (unat (data_len (ro_data v))) (ro_data a)"
  by unfold_locales (rule enc_readokres, rule dec_readokres)

lemma xdr_readres_eq: "xdr_readres = seqs [fld rr_status (\<lambda>v a. a\<lparr>rr_status := v\<rparr>) xdr_nfsstat, case_ok rr_status (fld rr_reply (\<lambda>v a. a\<lparr>rr_reply := v\<rparr>) xdr_readokres)]"
  by (simp add: xdr_readres_def xdr_readokres_def)

definition readres_wire :: "readres \<Rightarrow> u8 list" where
  "readres_wire v = put32 (rr_status v) @ (if rr_status v = 0 then readokres_wire (rr_reply v) else [])"

lemma enc_readres [enc_rules]: "enc_ok xdr_readres readres_wire (\<lambda>v. rr_status v = 0 \<longrightarrow> counted_ok 8192 (ro_data (rr_reply v)))"
  unfolding xdr_readres_eq xdr_stat_eq by (rule enc_weaken, (rule enc_rules | (simp; fail))+) (auto simp: readres_wire_def)

lemma dec_readres [dec_rules]: "dec_ok xdr_readres readres_wire (\<lambda>v. rr_status v = 0 \<longrightarrow> counted_ok 8192 (ro_data (rr_reply v))) (\<lambda>v a. if rr_status v = 0 then v\<lparr>rr_reply := (rr_reply v)\<lparr>ro_data := bytes_into (ro_data (rr_reply v)) (ro_data (rr_reply a))\<rparr>\<rparr> else a\<lparr>rr_status := rr_status v\<rparr>) (\<lambda>v a. rr_status v = 0 \<longrightarrow> bytes_fit (unat (data_len (ro_data (rr_reply v)))) (ro_data (rr_reply a)))"
  unfolding xdr_readres_eq xdr_stat_eq by (rule dec_weaken, (rule dec_rules | (simp; fail))+) (auto simp: readres_wire_def)

interpretation x_readres: xdr_type xdr_readres readres_wire "\<lambda>v. rr_status v = 0 \<longrightarrow> counted_ok 8192 (ro_data (rr_reply v))" "\<lambda>v a. if rr_status v = 0 then v\<lparr>rr_reply := (rr_reply v)\<lparr>ro_data := bytes_into (ro_data (rr_reply v)) (ro_data (rr_reply a))\<rparr>\<rparr> else a\<lparr>rr_status := rr_status v\<rparr>" "\<lambda>v a. rr_status v = 0 \<longrightarrow> bytes_fit (unat (data_len (ro_data (rr_reply v)))) (ro_data (rr_reply a))"
  by unfold_locales (rule enc_readres, rule dec_readres)

definition statfsres_wire :: "statfsres \<Rightarrow> u8 list" where
  "statfsres_wire v = put32 (st_status v) @ (if st_status v = 0 then statfs_wire (st_reply v) else [])"

lemma enc_statfsres [enc_rules]: "enc_ok xdr_statfsres statfsres_wire (\<lambda>v. True)"
  unfolding xdr_statfsres_def xdr_stat_eq by (rule enc_weaken, (rule enc_rules | (simp; fail))+) (auto simp: statfsres_wire_def)

lemma dec_statfsres [dec_rules]: "dec_ok xdr_statfsres statfsres_wire (\<lambda>v. True) (\<lambda>v a. if st_status v = 0 then v else a\<lparr>st_status := st_status v\<rparr>) (\<lambda>v a. True)"
  unfolding xdr_statfsres_def xdr_stat_eq by (rule dec_weaken, (rule dec_rules | (simp; fail))+) (auto simp: statfsres_wire_def)

interpretation x_statfsres: xdr_type xdr_statfsres statfsres_wire "\<lambda>v. True" "\<lambda>v a. if st_status v = 0 then v else a\<lparr>st_status := st_status v\<rparr>" "\<lambda>v a. True"
  by unfold_locales (rule enc_statfsres, rule dec_statfsres)

end
