(* ===== verification/XdrDir.thy ===== *)
theory XdrDir
  imports XdrMsg
begin

text \<open>
  Directory listings: the linked list of entries is coded recursively through \<open>xdr_pointer\<close>. Decoding ends on
  all inputs, and whatever it leaves, complete or not, can be freed.
\<close>

subsection \<open>Pointers\<close>

definition ptr_wire :: "('a \<Rightarrow> u8 list) \<Rightarrow> 'a option \<Rightarrow> u8 list" where
  "ptr_wire e v = bool_bytes (v \<noteq> None) @ (case v of None \<Rightarrow> [] | Some w \<Rightarrow> e w)"

lemma bool_encode:
  assumes "x_op X = XDR_ENCODE"
  shows "xdr_bool X b = None \<or> (\<exists>ok X1. xdr_bool X b = Some (ok, b, X1) \<and> x_op X1 = XDR_ENCODE)"
proof (cases "poke (x_private X) (put32 (if b then 1 else 0)) (x_buf X)")
  case None
  then show ?thesis using assms by (auto simp: xdr_bool_def xdrmem_putlong_def Let_def)
next
  case (Some buf)
  then show ?thesis using assms by (auto simp: xdr_bool_def xdrmem_putlong_def Let_def)
qed

lemma bind_last: "Option.bind m (\<lambda>(ok, v, X). if ok then seqs [] X v else Some (False, v, X)) = m"
proof (cases m)
  case (Some r)
  then show ?thesis by (cases r) auto
qed simp

lemma enc_pointer [enc_rules]:
  assumes p: "enc_ok p e V"
  shows "enc_ok (xdr_pointer z p) (ptr_wire e) (\<lambda>v. case v of None \<Rightarrow> True | Some w \<Rightarrow> V w)"
proof -
  define q where "q X (pp :: 'a option) = (case pp of None \<Rightarrow> Some (True, None, X) | Some w \<Rightarrow> map_option (\<lambda>(ok, w', Y). (ok, Some w', Y)) (p X w))" for X pp
  have q: "enc_ok q (\<lambda>v. case v of None \<Rightarrow> [] | Some w \<Rightarrow> e w) (\<lambda>v. case v of None \<Rightarrow> True | Some w \<Rightarrow> V w)"
    unfolding enc_ok_def
  proof (intro allI impI, elim conjE, goal_cases)
    case (1 X v)
    then show ?case
    proof (cases v)
      case (Some w)
      then show ?thesis using enc_okD [OF p 1(1,2), of w] 1(3) by (auto simp: q_def)
    qed (auto simp: q_def went_refl)
  qed
  have b: "enc_ok (fld (\<lambda>v. v \<noteq> None) (\<lambda>b v. v) xdr_bool) (\<lambda>v. bool_bytes (v \<noteq> None)) (\<lambda>v. True \<and> v = v)"
    using enc_fld [OF enc_bool, of "\<lambda>v. v \<noteq> None" "\<lambda>b v. v"] by simp
  have "enc_ok (seqs [fld (\<lambda>v. v \<noteq> None) (\<lambda>b v. v) xdr_bool, q])
     (\<lambda>v. bool_bytes (v \<noteq> None) @ (case v of None \<Rightarrow> [] | Some w \<Rightarrow> e w) @ []) (\<lambda>v. (True \<and> v = v) \<and> (case v of None \<Rightarrow> True | Some w \<Rightarrow> V w) \<and> True)"
    by (intro enc_Cons b q enc_Nil)
  moreover have "xdr_pointer z p X v = seqs [fld (\<lambda>v. v \<noteq> None) (\<lambda>b v. v) xdr_bool, q] X v" if op: "x_op X = XDR_ENCODE" for X v
  proof (cases "xdr_bool X (v \<noteq> None)")
    case (Some r)
    then obtain ok X1 where "xdr_bool X (v \<noteq> None) = Some (ok, v \<noteq> None, X1)" "x_op X1 = XDR_ENCODE" using bool_encode [OF op, of "v \<noteq> None"] by auto
    then show ?thesis
      by (cases v; cases ok) (auto simp: xdr_pointer_def fld_def q_def xdr_reference_def bind_last simp del: seqs.simps(1))
  qed (simp add: xdr_pointer_def fld_def)
  ultimately show ?thesis unfolding enc_ok_def ptr_wire_def by simp
qed

text \<open>Behind the flag comes the object, into new memory.\<close>

lemma pointer_decode:
  fixes p :: "'a xproc"
  assumes "stream_ok X" and "x_op X = XDR_DECODE" and "4 \<le> unat (x_handy X)"
  obtains X1 where "went X 4 X1" "x_buf X1 = x_buf X" "rest X1 = drop 4 (rest X)"
    "xdr_pointer z p X None = (if get32 (take 4 (rest X)) = 0 then Some (True, None, X1) else xdr_reference z p X1 None)"
proof
  have h: "unat (4::u32) \<le> unat (x_handy X)" using assms(3) by simp
  show "went X 4 (adv X 4)" "x_buf (adv X 4) = x_buf X" "rest (adv X 4) = drop 4 (rest X)" using went_adv [OF assms(1) h] by auto
  show "xdr_pointer z p X None = (if get32 (take 4 (rest X)) = 0 then Some (True, None, adv X 4) else xdr_reference z p (adv X 4) None)"
    using assms by (simp add: xdr_pointer_def xdr_bool_decode)
qed

lemma dec_pointer [dec_rules]:
  assumes p: "dec_ok p e V d Q"
  shows "dec_ok (xdr_pointer z p) (ptr_wire e) (\<lambda>v. case v of None \<Rightarrow> True | Some w \<Rightarrow> V w \<and> Q w z) (\<lambda>v a. map_option (\<lambda>w. d w z) v) (\<lambda>v a. a = None)"
  unfolding dec_ok_def
proof (intro allI impI, elim conjE)
  fix X and v a :: "'a option" and r
  assume h: "stream_ok X" "x_op X = XDR_DECODE" "\<forall>i. x_alloc X i \<noteq> None" "case v of None \<Rightarrow> True | Some w \<Rightarrow> V w \<and> Q w z"
    "a = None" "rest X = ptr_wire e v @ r"
  have len: "length (bool_bytes b) = 4" for b by (simp add: bool_bytes_def)
  have "4 \<le> unat (x_handy X)" using length_rest [OF h(1)] h(6) by (simp add: ptr_wire_def len)
  then obtain X1 where 1: "went X 4 X1" "x_buf X1 = x_buf X" "rest X1 = drop 4 (rest X)"
    "xdr_pointer z p X None = (if get32 (take 4 (rest X)) = 0 then Some (True, None, X1) else xdr_reference z p X1 None)"
    by (rule pointer_decode [OF h(1,2), where p = p and z = z])
  have t: "take 4 (rest X) = bool_bytes (v \<noteq> None)" "drop 4 (rest X) = (case v of None \<Rightarrow> [] | Some w \<Rightarrow> e w) @ r"
    using h(6) by (simp_all add: ptr_wire_def len)
  show "\<exists>X'. xdr_pointer z p X a = Some (True, map_option (\<lambda>w. d w z) v, X') \<and> rest X' = r \<and> went X (length (ptr_wire e v)) X' \<and> x_buf X' = x_buf X"
  proof (cases v)
    case None
    then show ?thesis using 1 t h(5) by (intro exI [of _ X1]) (simp add: ptr_wire_def bool_bytes_def)
  next
    case (Some w)
    have X1: "stream_ok X1" "x_op X1 = XDR_DECODE" "\<forall>i. x_alloc X1 i \<noteq> None" using went_ok [OF 1(1) h(1)] 1(1) h(2,3) by (simp_all add: went_def)
    obtain st Y where st: "storage X1 None 1 = (st, Y)" by fastforce
    note s = storage_ok [OF st]
    obtain bs where bs: "mem_alloc X1 1 = (Some bs, Y)" using s(8) X1(3) st by (auto simp: storage_def)
    have "x_alloc Y = x_alloc X1" using s(6) by (simp add: went_def)
    then have Y: "stream_ok Y" "x_op Y = XDR_DECODE" "\<forall>i. x_alloc Y i \<noteq> None" "rest Y = e w @ r" using s(1-3) X1 1(3) t(2) Some by simp_all
    obtain Z where Z: "p Y z = Some (True, d w z, Z)" "rest Z = r" "went Y (length (e w)) Z" "x_buf Z = x_buf Y"
      using dec_okD [OF p Y(1-3) _ _ Y(4), of z] h(4) Some by auto
    have "went X (length (ptr_wire e v)) Z" using went_trans [OF went_trans [OF 1(1) s(6)] Z(3)] Some by (simp add: ptr_wire_def len)
    moreover have "xdr_pointer z p X None = Some (True, Some (d w z), Z)"
      using 1(4) t(1) Some bs Z(1) X1(2) by (simp add: bool_bytes_def xdr_reference_def)
    ultimately show ?thesis using Z(2,4) s(5) 1(2) h(5) Some by (intro exI [of _ Z]) simp
  qed
qed

text \<open>The object behind a pointer is decoded from a shorter stream.\<close>

lemma safe_pointer_at:
  fixes p :: "'a xproc"
  assumes X: "stream_ok X" "x_op X = XDR_DECODE"
    and p: "\<And>Y. stream_ok Y \<Longrightarrow> x_op Y = XDR_DECODE \<Longrightarrow> unat (x_handy Y) < unat (x_handy X) \<Longrightarrow>
      \<exists>ok a' X'. p Y z = Some (ok, a', X') \<and> R a' \<and> (ok \<longrightarrow> (\<exists>n. went Y n X' \<and> x_buf X' = x_buf Y))"
  shows "\<exists>ok a' X'. xdr_pointer z p X None = Some (ok, a', X') \<and> (case a' of None \<Rightarrow> True | Some y \<Rightarrow> R y) \<and>
     (ok \<longrightarrow> (\<exists>n. went X n X' \<and> x_buf X' = x_buf X))"
proof (cases "4 \<le> unat (x_handy X)")
  case False
  then show ?thesis using X by (auto simp: xdr_pointer_def xdr_bool_decode)
next
  case True
  obtain X1 where 1: "went X 4 X1" "x_buf X1 = x_buf X" "rest X1 = drop 4 (rest X)"
    "xdr_pointer z p X None = (if get32 (take 4 (rest X)) = 0 then Some (True, None, X1) else xdr_reference z p X1 None)"
    by (rule pointer_decode [OF X True, where p = p and z = z])
  show ?thesis
  proof (cases "get32 (take 4 (rest X)) = 0")
    case zero: True
    then show ?thesis using 1 by auto
  next
    case more: False
    obtain st Y where st: "storage X1 None 1 = (st, Y)" by fastforce
    note s = storage_ok [OF st]
    have w: "went X 4 Y" "x_buf Y = x_buf X" using went_trans [OF 1(1) s(6)] s(5) 1(2) by simp_all
    have op: "x_op X1 = XDR_DECODE" using 1(1) X(2) by (simp add: went_def)
    have Y: "stream_ok Y" "x_op Y = XDR_DECODE" "unat (x_handy Y) < unat (x_handy X)"
      using went_ok [OF w(1) X(1)] w(1) X(2) True by (auto simp: went_def)
    show ?thesis
    proof (cases st)
      case None
      then show ?thesis using 1(4) more st op by (auto simp: xdr_reference_def storage_def)
    next
      case (Some bs)
      obtain ok a' Z where Z: "p Y z = Some (ok, a', Z)" "R a'" "ok \<longrightarrow> (\<exists>n. went Y n Z \<and> x_buf Z = x_buf Y)" using p [OF Y] by blast
      have "ok \<longrightarrow> (\<exists>n. went X n Z \<and> x_buf Z = x_buf X)" using Z(3) w went_trans by metis
      moreover have "xdr_pointer z p X None = Some (ok, Some a', Z)" using 1(4) more st op Some Z(1) by (simp add: xdr_reference_def storage_def)
      ultimately show ?thesis using Z(2) by simp
    qed
  qed
qed

subsection \<open>Entries\<close>

abbreviation set_next :: "xentry option \<Rightarrow> xentry \<Rightarrow> xentry" where
  "set_next v e \<equiv> Entry (xe_fileid e) (xe_name e) (xe_cookie e) v"

lemma xdr_entry_seqs: "xdr_entry = seqs [entry_head, fld xe_next set_next (xdr_pointer zero_entry xdr_entry)]"
proof (intro ext)
  fix X e
  have f: "fld xe_next set_next q Y v = map_option (\<lambda>(ok, n, Z). (ok, set_next n v, Z)) (q Y (xe_next v))" for q Y v by (simp add: fld_def)
  show "xdr_entry X e = seqs [entry_head, fld xe_next set_next (xdr_pointer zero_entry xdr_entry)] X e"
  proof (cases "entry_head X e")
    case (Some r)
    then obtain ok v Y where "entry_head X e = Some (ok, v, Y)" by (cases r) auto
    then show ?thesis
      by (subst xdr_entry.simps, cases "xdr_pointer zero_entry xdr_entry Y (xe_next v)") (auto simp: f)
  qed (subst xdr_entry.simps, simp)
qed

fun entry_wire :: "xentry \<Rightarrow> u8 list" where
  "entry_wire (Entry f n c x) = put32 f @ string_wire n @ c @ bool_bytes (x \<noteq> None) @ (case x of None \<Rightarrow> [] | Some y \<Rightarrow> entry_wire y)"

fun entry_valid :: "xentry \<Rightarrow> bool" where
  "entry_valid (Entry f n c x) \<longleftrightarrow> string_ok 255 n \<and> length c = 4 \<and> (case x of None \<Rightarrow> True | Some y \<Rightarrow> entry_valid y)"

fun entry_into :: "xentry \<Rightarrow> xentry" where
  "entry_into (Entry f n c x) = Entry f (Some (cstr_bytes n @ [0])) c (case x of None \<Rightarrow> None | Some y \<Rightarrow> Some (entry_into y))"

definition entry_new :: "xentry \<Rightarrow> bool" where
  "entry_new a \<longleftrightarrow> xe_name a = None \<and> length (xe_cookie a) = 4 \<and> xe_next a = None"

lemma enc_entry_upto: "enc_ok xdr_entry entry_wire (\<lambda>e. entry_valid e \<and> size e < k)"
proof (induction k)
  case (Suc k)
  show ?case
    by (subst xdr_entry_seqs, unfold entry_head_def xdr_filename_def, rule enc_weaken, (rule enc_rules Suc.IH | (simp; fail))+)
      (case_tac v; auto simp: ptr_wire_def split: option.splits)
qed (simp add: enc_ok_def)

lemma dec_entry_upto: "dec_ok xdr_entry entry_wire (\<lambda>e. entry_valid e \<and> size e < k) (\<lambda>v a. entry_into v) (\<lambda>v a. entry_new a)"
proof (induction k)
  case (Suc k)
  show ?case
    by (subst xdr_entry_seqs, unfold entry_head_def xdr_filename_def, rule dec_weaken, (rule dec_rules Suc.IH | (simp; fail))+)
      (case_tac v; auto simp: ptr_wire_def entry_new_def zero_entry_def split: option.splits)
qed (simp add: dec_ok_def)

lemma enc_entry [enc_rules]: "enc_ok xdr_entry entry_wire entry_valid"
  unfolding enc_ok_def
proof (intro allI impI, elim conjE, goal_cases)
  case (1 X v)
  then show ?case using enc_okD [OF enc_entry_upto [of "Suc (size v)"] 1(1,2), of v] by simp
qed

lemma dec_entry [dec_rules]: "dec_ok xdr_entry entry_wire entry_valid (\<lambda>v a. entry_into v) (\<lambda>v a. entry_new a)"
  unfolding dec_ok_def
proof (intro allI impI, elim conjE, goal_cases)
  case (1 X v a r)
  then show ?case using dec_okD [OF dec_entry_upto [of "Suc (size v)"] 1(1-3), of v a r] by simp
qed

definition dirlist_wire :: "dirlist \<Rightarrow> u8 list" where
  "dirlist_wire v = ptr_wire entry_wire (dl_entries v) @ bool_bytes (dl_eof v)"

definition dirlist_ok :: "dirlist \<Rightarrow> bool" where
  "dirlist_ok v \<longleftrightarrow> (case dl_entries v of None \<Rightarrow> True | Some e \<Rightarrow> entry_valid e)"

definition dirlist_into :: "dirlist \<Rightarrow> dirlist" where
  "dirlist_into v = v\<lparr>dl_entries := map_option entry_into (dl_entries v)\<rparr>"

lemma zero_entry_new [simp]: "entry_new zero_entry"
  by (simp add: entry_new_def zero_entry_def)

lemma enc_dirlist [enc_rules]: "enc_ok xdr_dirlist dirlist_wire dirlist_ok"
  unfolding xdr_dirlist_def by (rule enc_weaken, (rule enc_rules | (simp; fail))+) (auto simp: dirlist_wire_def dirlist_ok_def)

lemma dec_dirlist [dec_rules]: "dec_ok xdr_dirlist dirlist_wire dirlist_ok (\<lambda>v a. dirlist_into v) (\<lambda>v a. dl_entries a = None)"
  unfolding xdr_dirlist_def by (rule dec_weaken, (rule dec_rules | (simp; fail))+) (auto simp: dirlist_wire_def dirlist_ok_def dirlist_into_def split: option.splits)

definition readdirres_wire :: "readdirres \<Rightarrow> u8 list" where
  "readdirres_wire v = put32 (dd_status v) @ (if dd_status v = 0 then dirlist_wire (dd_reply v) else [])"

definition readdirres_ok :: "readdirres \<Rightarrow> bool" where
  "readdirres_ok v \<longleftrightarrow> (dd_status v = 0 \<longrightarrow> dirlist_ok (dd_reply v))"

definition readdirres_into :: "readdirres \<Rightarrow> readdirres \<Rightarrow> readdirres" where
  "readdirres_into v a = (if dd_status v = 0 then v\<lparr>dd_reply := dirlist_into (dd_reply v)\<rparr> else a\<lparr>dd_status := dd_status v\<rparr>)"

lemma enc_readdirres [enc_rules]: "enc_ok xdr_readdirres readdirres_wire readdirres_ok"
  unfolding xdr_readdirres_def xdr_stat_eq by (rule enc_weaken, (rule enc_rules | (simp; fail))+) (auto simp: readdirres_wire_def readdirres_ok_def)

lemma dec_readdirres [dec_rules]: "dec_ok xdr_readdirres readdirres_wire readdirres_ok readdirres_into (\<lambda>v a. dl_entries (dd_reply a) = None)"
  unfolding xdr_readdirres_def xdr_stat_eq by (rule dec_weaken, (rule dec_rules | (simp; fail))+) (auto simp: readdirres_wire_def readdirres_ok_def readdirres_into_def)

interpretation x_readdirres: xdr_type xdr_readdirres readdirres_wire readdirres_ok readdirres_into "\<lambda>v a. dl_entries (dd_reply a) = None"
  by unfold_locales (rule enc_readdirres, rule dec_readdirres)

subsection \<open>Safety\<close>

text \<open>What decoding may leave: every name is missing or terminated, so it can be freed.\<close>

fun entry_sound :: "xentry \<Rightarrow> bool" where
  "entry_sound (Entry f n c x) \<longleftrightarrow> (n = None \<or> string_ok 255 n) \<and> length c = 4 \<and> (case x of None \<Rightarrow> True | Some y \<Rightarrow> entry_sound y)"

lemma safe_entry_head: "dec_safe entry_head entry_new (\<lambda>e. entry_sound e \<and> xe_next e = None)"
proof -
  let ?M = "\<lambda>e. (xe_name e = None \<or> string_ok 255 (xe_name e)) \<and> length (xe_cookie e) = 4 \<and> xe_next e = None"
  have n: "dec_safe xdr_filename (\<lambda>a. a = None) (\<lambda>a. a = None \<or> string_ok 255 a)"
    unfolding xdr_filename_def by (rule safe_Cons [OF safe_string safe_Nil]) auto
  have c: "dec_safe xdr_nfscookie (\<lambda>a. length a = 4) (\<lambda>a. length a = 4)"
    unfolding xdr_nfscookie_def by (rule safe_Cons [OF safe_opaque safe_Nil]) auto
  have "dec_safe entry_head entry_new ?M"
    unfolding entry_head_def
    by (rule safe_Cons [where M = entry_new, OF safe_fld [OF safe_u_long] safe_Cons [where M = ?M,
          OF safe_fld [OF n] safe_Cons [where M = ?M, OF safe_fld [OF c] safe_Nil]]]) (auto simp: entry_new_def)
  then show ?thesis
  proof (rule safe_weaken)
    show "entry_sound e \<and> xe_next e = None" if "?M e" for e using that by (cases e) auto
  qed
qed

text \<open>An entry takes four bytes at least, so there are fewer than what is left to read.\<close>

lemma safe_entry_upto:
  "\<forall>X a. stream_ok X \<and> x_op X = XDR_DECODE \<and> entry_new a \<and> unat (x_handy X) < k \<longrightarrow>
     (\<exists>ok a' X'. xdr_entry X a = Some (ok, a', X') \<and> entry_sound a' \<and> (ok \<longrightarrow> (\<exists>n. went X n X' \<and> x_buf X' = x_buf X)))"
proof (induction k)
  case (Suc k)
  show ?case
  proof (intro allI impI, elim conjE)
    fix X a assume h: "stream_ok X" "x_op X = XDR_DECODE" "entry_new a" "unat (x_handy X) < Suc k"
    obtain ok e X1 where 1: "entry_head X a = Some (ok, e, X1)" "entry_sound e" "xe_next e = None" "ok \<Longrightarrow> \<exists>n. went X n X1 \<and> x_buf X1 = x_buf X"
      using dec_safeD [OF safe_entry_head h(1-3)] by blast
    show "\<exists>ok a' X'. xdr_entry X a = Some (ok, a', X') \<and> entry_sound a' \<and> (ok \<longrightarrow> (\<exists>n. went X n X' \<and> x_buf X' = x_buf X))"
    proof (cases ok)
      case False
      then show ?thesis using 1 by (subst xdr_entry.simps) auto
    next
      case True
      then obtain n where w: "went X n X1" "x_buf X1 = x_buf X" using 1(4) by blast
      have X1: "stream_ok X1" "x_op X1 = XDR_DECODE" "unat (x_handy X1) \<le> unat (x_handy X)" using went_ok [OF w(1) h(1)] w(1) h(2) by (auto simp: went_def)
      have "\<exists>ok2 p X2. xdr_pointer zero_entry xdr_entry X1 None = Some (ok2, p, X2) \<and> (case p of None \<Rightarrow> True | Some y \<Rightarrow> entry_sound y) \<and>
          (ok2 \<longrightarrow> (\<exists>n. went X1 n X2 \<and> x_buf X2 = x_buf X1))"
      proof (rule safe_pointer_at [OF X1(1,2)])
        show "\<exists>ok a' X'. xdr_entry Y zero_entry = Some (ok, a', X') \<and> entry_sound a' \<and> (ok \<longrightarrow> (\<exists>n. went Y n X' \<and> x_buf X' = x_buf Y))"
          if "stream_ok Y" "x_op Y = XDR_DECODE" "unat (x_handy Y) < unat (x_handy X1)" for Y
          using Suc.IH that X1(3) h(4) by simp
      qed
      then obtain ok2 p X2 where 2: "xdr_pointer zero_entry xdr_entry X1 None = Some (ok2, p, X2)" "case p of None \<Rightarrow> True | Some y \<Rightarrow> entry_sound y"
          "ok2 \<longrightarrow> (\<exists>n. went X1 n X2 \<and> x_buf X2 = x_buf X1)" by blast
      have "xdr_entry X a = Some (ok2, set_next p e, X2)" using 1(1,3) True 2(1) by (subst xdr_entry.simps) simp
      moreover have "entry_sound (set_next p e)" using 1(2) 2(2) by (cases e) simp
      moreover have "ok2 \<longrightarrow> (\<exists>n. went X n X2 \<and> x_buf X2 = x_buf X)" using 2(3) w went_trans by metis
      ultimately show ?thesis by blast
    qed
  qed
qed simp

lemma safe_entry [safe_rules]: "dec_safe xdr_entry entry_new entry_sound"
  unfolding dec_safe_def using safe_entry_upto by blast

lemma safe_pointer_entry: "dec_safe (xdr_pointer zero_entry xdr_entry) (\<lambda>a. a = None) (\<lambda>p. case p of None \<Rightarrow> True | Some y \<Rightarrow> entry_sound y)"
  unfolding dec_safe_def
proof (intro allI impI, elim conjE, goal_cases)
  case (1 X a)
  show ?case unfolding 1(3) by (rule safe_pointer_at [OF 1(1,2)]) (use dec_safeD [OF safe_entry] in simp)
qed

lemma safe_readdirres:
  "dec_safe xdr_readdirres (\<lambda>a. dl_entries (dd_reply a) = None)
     (\<lambda>a. (dd_status a = 0 \<or> dl_entries (dd_reply a) = None) \<and> (case dl_entries (dd_reply a) of None \<Rightarrow> True | Some y \<Rightarrow> entry_sound y))"
proof -
  let ?S = "\<lambda>p. case p of None \<Rightarrow> True | Some y \<Rightarrow> entry_sound y"
  have d: "dec_safe xdr_dirlist (\<lambda>a. dl_entries a = None) (\<lambda>a. ?S (dl_entries a))"
    unfolding xdr_dirlist_def
    by (rule safe_Cons [where M = "\<lambda>a. ?S (dl_entries a)", OF safe_fld [OF safe_pointer_entry] safe_Cons [OF safe_fld [OF safe_bool] safe_Nil]]) auto
  let ?P = "\<lambda>a. dl_entries (dd_reply a) = None"
  let ?R = "\<lambda>a. (dd_status a = 0 \<or> dl_entries (dd_reply a) = None) \<and> ?S (dl_entries (dd_reply a))"
  have r: "dec_safe (fld dd_reply (\<lambda>v a. a\<lparr>dd_reply := v\<rparr>) xdr_dirlist) (\<lambda>a. ?P a \<and> dd_status a = 0) ?R"
    by (rule safe_fld [OF d]) auto
  have "dec_safe (case_ok dd_status (fld dd_reply (\<lambda>v a. a\<lparr>dd_reply := v\<rparr>) xdr_dirlist)) ?P ?R"
    unfolding dec_safe_def
  proof (intro allI impI, elim conjE, goal_cases)
    case (1 X a)
    then show ?case using dec_safeD [OF r 1(1,2), of a] by (auto simp: case_ok_def intro: went_refl)
  qed
  then show ?thesis unfolding xdr_readdirres_def xdr_stat_eq
    by (intro safe_Cons [where M = ?P, OF safe_fld [OF safe_u_long] safe_Cons [where M = ?R, OF _ safe_Nil]]) auto
qed

subsection \<open>Freeing\<close>

lemma free_string: "x_op X = XDR_FREE \<Longrightarrow> n = None \<or> string_ok (unat m) n \<Longrightarrow> unat m < 2 ^ 30 \<Longrightarrow> xdr_string m X n = Some (True, None, X)"
proof (cases n)
  case (Some bs)
  assume h: "x_op X = XDR_FREE" "n = None \<or> string_ok (unat m) n" "unat m < 2 ^ 30"
  then have z: "0 \<in> set bs" "length (cstr_bytes (Some bs)) \<le> unat m" using Some by (auto simp: string_ok_def)
  then have "\<not> m < of_nat (length (cstr_bytes (Some bs)))" using unat_small [of "length (cstr_bytes (Some bs))"] h(3) by (simp add: word_less_nat_alt)
  then show ?thesis using h(1) Some z(1) by (simp add: xdr_string_def c_strlen_bytes xdr_u_long_def)
qed (simp add: xdr_string_def)

lemma free_head:
  "x_op X = XDR_FREE \<Longrightarrow> xe_name e = None \<or> string_ok 255 (xe_name e) \<Longrightarrow> entry_head X e = Some (True, Entry (xe_fileid e) None (xe_cookie e) (xe_next e), X)"
  using free_string [of X "xe_name e" 255]
  by (simp add: entry_head_def fld_def xdr_u_long_def xdr_filename_def xdr_nfscookie_def xdr_opaque_def Let_def)

lemma free_pointer:
  "x_op X = XDR_FREE \<Longrightarrow> (\<And>w. v = Some w \<Longrightarrow> \<exists>w'. p X w = Some (True, w', X)) \<Longrightarrow> xdr_pointer z p X v = Some (True, None, X)"
  by (cases v) (auto simp: xdr_pointer_def xdr_bool_def xdr_reference_def)

lemma free_entry: "x_op X = XDR_FREE \<Longrightarrow> entry_sound e \<Longrightarrow> xdr_entry X e = Some (True, Entry (xe_fileid e) None (xe_cookie e) None, X)"
proof (induction e rule: entry_sound.induct)
  case (1 f n c x)
  have "xdr_pointer zero_entry xdr_entry X x = Some (True, None, X)"
  proof (rule free_pointer [OF 1(2)])
    fix w assume w: "x = Some w"
    then have "entry_sound w" using 1(3) by simp
    then show "\<exists>w'. xdr_entry X w = Some (True, w', X)" using 1(1) [OF w 1(2)] by blast
  qed
  then show ?case using free_head [OF 1(2), of "Entry f n c x"] 1(3) by (subst xdr_entry.simps) simp
qed

end
