(* ===== verification/XdrProps.thy ===== *)
theory XdrProps
  imports XdrDir
begin

text \<open>
  What the marshalling routines guarantee to their callers: messages are read back as they were written, the fast
  paths are the slow ones, and no reply of a server leads outside the memory of the stream and the results.
\<close>

subsection \<open>Fast paths\<close>

text \<open>A routine that takes \<open>n\<close> bytes, if there are so many.\<close>

definition dec_len :: "'a xproc \<Rightarrow> nat \<Rightarrow> bool" where
  "dec_len p n \<longleftrightarrow> (\<forall>X a. stream_ok X \<and> x_op X = XDR_DECODE \<longrightarrow>
     (\<exists>a' X'. p X a = Some (n \<le> unat (x_handy X), a', X') \<and> (n \<le> unat (x_handy X) \<longrightarrow> went X n X')))"

named_theorems len_rules

lemma len_u_long [len_rules]: "dec_len xdr_u_int 4"
  unfolding dec_len_def
proof (intro allI impI, elim conjE, goal_cases)
  case (1 X a)
  then show ?case using went_adv(1) [OF 1(1), of 4] by (auto simp: xdr_u_long_def getlong_ok)
qed

lemma len_fld [len_rules]:
  assumes "dec_len p n"
  shows "dec_len (fld get put p) n"
  unfolding dec_len_def
proof (intro allI impI)
  fix X a assume "stream_ok X \<and> x_op X = XDR_DECODE"
  then obtain b X' where "p X (get a) = Some (n \<le> unat (x_handy X), b, X')" "n \<le> unat (x_handy X) \<longrightarrow> went X n X'"
    using assms unfolding dec_len_def by blast
  then show "\<exists>a' X'. fld get put p X a = Some (n \<le> unat (x_handy X), a', X') \<and> (n \<le> unat (x_handy X) \<longrightarrow> went X n X')"
    by (simp add: fld_def)
qed

lemma len_Nil [len_rules]: "dec_len (seqs []) 0"
  by (simp add: dec_len_def went_refl)

lemma len_Cons [len_rules]:
  assumes p: "dec_len p m" and ps: "dec_len (seqs ps) n"
  shows "dec_len (seqs (p # ps)) (m + n)"
  unfolding dec_len_def
proof (intro allI impI)
  fix X a assume h: "stream_ok X \<and> x_op X = XDR_DECODE"
  then obtain a1 X1 where 1: "p X a = Some (m \<le> unat (x_handy X), a1, X1)" "m \<le> unat (x_handy X) \<longrightarrow> went X m X1"
    using p unfolding dec_len_def by blast
  show "\<exists>a' X'. seqs (p # ps) X a = Some (m + n \<le> unat (x_handy X), a', X') \<and> (m + n \<le> unat (x_handy X) \<longrightarrow> went X (m + n) X')"
  proof (cases "m \<le> unat (x_handy X)")
    case True
    then have w: "went X m X1" using 1(2) by simp
    have op: "x_op X1 = XDR_DECODE" "unat (x_handy X1) + m = unat (x_handy X)" using w h by (simp_all add: went_def)
    then obtain a2 X2 where 2: "seqs ps X1 a1 = Some (n \<le> unat (x_handy X1), a2, X2)" "n \<le> unat (x_handy X1) \<longrightarrow> went X1 n X2"
      using ps went_ok [OF w] h unfolding dec_len_def by blast
    have fit: "n \<le> unat (x_handy X1) \<longleftrightarrow> m + n \<le> unat (x_handy X)" using op(2) by auto
    show ?thesis using 1(1) True 2 fit went_trans [OF w] by auto
  next
    case False
    then show ?thesis using 1(1) by auto
  qed
qed

definition same_result :: "'a xproc \<Rightarrow> 'a xproc \<Rightarrow> XDR \<Rightarrow> 'a \<Rightarrow> bool" where
  "same_result p q X a \<longleftrightarrow> (\<exists>ok a1 X1 a2 X2. p X a = Some (ok, a1, X1) \<and> q X a = Some (ok, a2, X2) \<and>
     (ok \<longrightarrow> a1 = a2 \<and> x_buf X1 = x_buf X2 \<and> x_private X1 = x_private X2 \<and> x_handy X1 = x_handy X2))"

lemma went_same: "went X n Y \<Longrightarrow> went X n Z \<Longrightarrow> x_private Y = x_private Z \<and> x_handy Y = x_handy Z"
  by (auto simp: went_def intro: word_unat_eq_iff [THEN iffD2])

lemma inline_same:
  fixes longs :: "'a \<Rightarrow> u32 list"
  assumes n: "4 * n < 2 ^ 31" and lens: "\<And>v. length (longs v) = n" and inv: "\<And>v. obj (longs v) = v" and surj: "\<And>ws. length ws = n \<Longrightarrow> longs (obj ws) = ws"
    and enc: "enc_ok slow (\<lambda>v. longs_wire (longs v)) (\<lambda>v. True)" and dec: "dec_ok slow (\<lambda>v. longs_wire (longs v)) (\<lambda>v. True) (\<lambda>v a. v) (\<lambda>v a. True)"
    and len: "dec_len slow (4 * n)" and free: "\<And>X. x_op X = XDR_FREE \<Longrightarrow> slow X a = Some (True, a, X)"
    and X: "stream_ok X" and al: "\<forall>i. x_alloc X i \<noteq> None"
  shows "same_result (inline_longs n longs obj slow) slow X a"
proof -
  have e: "enc_ok (inline_longs n longs obj slow) (\<lambda>v. longs_wire (longs v)) (\<lambda>v. True)" by (rule enc_longs [OF n lens])
  have d: "dec_ok (inline_longs n longs obj slow) (\<lambda>v. longs_wire (longs v)) (\<lambda>v. True) (\<lambda>v a. v) (\<lambda>v a. True)" by (rule dec_longs [OF n lens inv])
  show ?thesis
  proof (cases "x_op X")
    case XDR_ENCODE
    let ?k = "length (longs_wire (longs a))"
    obtain Y where Y: "inline_longs n longs obj slow X a = Some (?k \<le> unat (x_handy X), a, Y)"
      "?k \<le> unat (x_handy X) \<longrightarrow> went X ?k Y \<and> x_buf Y = take (x_private X) (x_buf X) @ longs_wire (longs a) @ drop (x_private X + ?k) (x_buf X)"
      using enc_okD [OF e X XDR_ENCODE, where v = a] by blast
    obtain Z where Z: "slow X a = Some (?k \<le> unat (x_handy X), a, Z)"
      "?k \<le> unat (x_handy X) \<longrightarrow> went X ?k Z \<and> x_buf Z = take (x_private X) (x_buf X) @ longs_wire (longs a) @ drop (x_private X + ?k) (x_buf X)"
      using enc_okD [OF enc X XDR_ENCODE, where v = a] by blast
    show ?thesis unfolding same_result_def
      by (rule exI, rule exI, rule exI [of _ Y], rule exI, rule exI [of _ Z], rule conjI [OF Y(1) conjI [OF Z(1)]])
        (use Y(2) Z(2) went_same [of X ?k Y Z] in simp)
  next
    case XDR_DECODE
    show ?thesis
    proof (cases "4 * n \<le> unat (x_handy X)")
      case True
      then have "length (take (4 * n) (rest X)) = 4 * n" using length_rest [OF X] by simp
      then obtain ws where ws: "length ws = n" "longs_wire ws = take (4 * n) (rest X)" using longs_of_bytes by blast
      then have r: "rest X = longs_wire (longs (obj ws)) @ drop (4 * n) (rest X)" using surj by simp
      obtain Y where Y: "inline_longs n longs obj slow X a = Some (True, obj ws, Y)" "went X (length (longs_wire (longs (obj ws)))) Y" "x_buf Y = x_buf X"
        using dec_okD [OF d X XDR_DECODE al _ _ r] by blast
      obtain Z where Z: "slow X a = Some (True, obj ws, Z)" "went X (length (longs_wire (longs (obj ws)))) Z" "x_buf Z = x_buf X"
        using dec_okD [OF dec X XDR_DECODE al _ _ r] by blast
      show ?thesis unfolding same_result_def
        by (rule exI, rule exI, rule exI [of _ Y], rule exI, rule exI [of _ Z], rule conjI [OF Y(1) conjI [OF Z(1)]])
          (use Y(2,3) Z(2,3) went_same [OF Y(2) Z(2)] in simp)
    next
      case False
      obtain a' Z where "slow X a = Some (False, a', Z)" using len [unfolded dec_len_def, rule_format, of X a] False X XDR_DECODE by auto
      then show ?thesis using False XDR_DECODE inline_ok [OF X n] by (auto simp: same_result_def inline_longs_def)
    qed
  next
    case XDR_FREE
    then show ?thesis using free by (auto simp: same_result_def inline_longs_def)
  qed
qed

lemma enc_nfstime [enc_rules]: "enc_ok xdr_nfstime (\<lambda>t. put32 (seconds t) @ put32 (useconds t)) (\<lambda>t. True)"
  unfolding xdr_nfstime_def by (rule enc_weaken, (rule enc_rules | (simp; fail))+)

lemma dec_nfstime [dec_rules]: "dec_ok xdr_nfstime (\<lambda>t. put32 (seconds t) @ put32 (useconds t)) (\<lambda>t. True) (\<lambda>v a. v) (\<lambda>v a. True)"
  unfolding xdr_nfstime_def by (rule dec_weaken, (rule dec_rules | (simp; fail))+)

lemma len_nfstime [len_rules]: "dec_len xdr_nfstime 8"
proof -
  have "dec_len xdr_nfstime (4 + (4 + 0))" unfolding xdr_nfstime_def by (intro len_rules)
  then show ?thesis by simp
qed

lemma free_numbers: "x_op X = XDR_FREE \<Longrightarrow> xdr_u_int X v = Some (True, v, X)" "x_op X = XDR_FREE \<Longrightarrow> xdr_nfstime X t = Some (True, t, X)"
  by (simp_all add: xdr_u_long_def xdr_nfstime_def fld_def)

lemma fattr_surj: "length ws = 17 \<Longrightarrow> fattr_longs (fattr_of_longs ws) = ws"
  by (auto simp: fattr_longs_def fattr_of_longs_def length_Suc_conv numeral_eq_Suc)

lemma fattr_same_ok:
  assumes "stream_ok X" and "\<forall>i. x_alloc X i \<noteq> None"
  shows "same_result xdr_fattr xdr_fattr_slow X a"
  unfolding xdr_fattr_def
proof (rule inline_same [OF _ _ _ _ _ _ _ _ assms])
  show "enc_ok xdr_fattr_slow (\<lambda>v. longs_wire (fattr_longs v)) (\<lambda>v. True)"
    unfolding xdr_fattr_slow_def xdr_stat_eq by (rule enc_weaken, (rule enc_rules | (simp; fail))+) (auto simp: fattr_longs_def)
  show "dec_ok xdr_fattr_slow (\<lambda>v. longs_wire (fattr_longs v)) (\<lambda>v. True) (\<lambda>v a. v) (\<lambda>v a. True)"
    unfolding xdr_fattr_slow_def xdr_stat_eq by (rule dec_weaken, (rule dec_rules | (simp; fail))+) (auto simp: fattr_longs_def)
  have "dec_len xdr_fattr_slow (4 + (4 + (4 + (4 + (4 + (4 + (4 + (4 + (4 + (4 + (4 + (8 + (8 + (8 + 0))))))))))))))"
    unfolding xdr_fattr_slow_def xdr_stat_eq by (intro len_rules)
  then show "dec_len xdr_fattr_slow (4 * 17)" by simp
qed (simp_all add: fattr_longs_facts fattr_surj xdr_fattr_slow_def xdr_stat_eq fld_def free_numbers)

lemma sattr_same_ok:
  assumes "stream_ok X" and "\<forall>i. x_alloc X i \<noteq> None"
  shows "same_result xdr_sattr xdr_sattr_slow X a"
  unfolding xdr_sattr_def
proof (rule inline_same [OF _ _ _ _ _ _ _ _ assms])
  show "enc_ok xdr_sattr_slow (\<lambda>v. longs_wire (sattr_longs v)) (\<lambda>v. True)"
    unfolding xdr_sattr_slow_def by (rule enc_weaken, (rule enc_rules | (simp; fail))+) (auto simp: sattr_longs_def)
  show "dec_ok xdr_sattr_slow (\<lambda>v. longs_wire (sattr_longs v)) (\<lambda>v. True) (\<lambda>v a. v) (\<lambda>v a. True)"
    unfolding xdr_sattr_slow_def by (rule dec_weaken, (rule dec_rules | (simp; fail))+) (auto simp: sattr_longs_def)
  have "dec_len xdr_sattr_slow (4 + (4 + (4 + (4 + (8 + (8 + 0))))))"
    unfolding xdr_sattr_slow_def by (intro len_rules)
  then show "dec_len xdr_sattr_slow (4 * 8)" by simp
  show "sattr_longs (sattr_of_longs ws) = ws" if "length ws = 8" for ws
    using that by (auto simp: sattr_longs_def sattr_of_longs_def length_Suc_conv numeral_eq_Suc)
qed (simp_all add: sattr_longs_facts xdr_sattr_slow_def fld_def free_numbers)

lemma statfs_same_ok:
  assumes "stream_ok X" and "\<forall>i. x_alloc X i \<noteq> None"
  shows "same_result xdr_statfsokres xdr_statfsokres_slow X a"
  unfolding xdr_statfsokres_def
proof (rule inline_same [OF _ _ _ _ _ _ _ _ assms])
  show "enc_ok xdr_statfsokres_slow (\<lambda>v. longs_wire (statfsokres_longs v)) (\<lambda>v. True)"
    unfolding xdr_statfsokres_slow_def by (rule enc_weaken, (rule enc_rules | (simp; fail))+) (auto simp: statfsokres_longs_def)
  show "dec_ok xdr_statfsokres_slow (\<lambda>v. longs_wire (statfsokres_longs v)) (\<lambda>v. True) (\<lambda>v a. v) (\<lambda>v a. True)"
    unfolding xdr_statfsokres_slow_def by (rule dec_weaken, (rule dec_rules | (simp; fail))+) (auto simp: statfsokres_longs_def)
  have "dec_len xdr_statfsokres_slow (4 + (4 + (4 + (4 + (4 + 0)))))"
    unfolding xdr_statfsokres_slow_def by (intro len_rules)
  then show "dec_len xdr_statfsokres_slow (4 * 5)" by simp
  show "statfsokres_longs (statfsokres_of_longs ws) = ws" if "length ws = 5" for ws
    using that by (auto simp: statfsokres_longs_def statfsokres_of_longs_def length_Suc_conv numeral_eq_Suc)
qed (simp_all add: statfs_longs_facts xdr_statfsokres_slow_def fld_def free_numbers)

text \<open>C25. The fast paths for attributes and file system statistics, which read and write all numbers in one piece
  of the buffer, are indistinguishable from the field by field routines, in all three directions of a stream: the same
  truth value, and on success the same object, the same bytes, and the same position.\<close>

theorem fast_paths_agree:
  assumes "stream_ok X" and "\<forall>i. x_alloc X i \<noteq> None"
  shows "same_result xdr_fattr xdr_fattr_slow X a \<and> same_result xdr_sattr xdr_sattr_slow X b \<and>
    same_result xdr_statfsokres xdr_statfsokres_slow X c"
  using fattr_same_ok [OF assms] sattr_same_ok [OF assms] statfs_same_ok [OF assms] by blast

definition zero_time :: nfstime where
  "zero_time = \<lparr>seconds = 0, useconds = 0\<rparr>"

definition sample_sattr :: xsattr where
  "sample_sattr = \<lparr>xs_mode = 420, xs_uid = 1000, xs_gid = 100, xs_size = 0, xs_atime = zero_time, xs_mtime = zero_time\<rparr>"

lemma fast_paths_agree_witness: "same_result xdr_sattr xdr_sattr_slow (enc_stream 40 \<lparr>x_alloc := \<lambda>_. Some (\<lambda>_. 0)\<rparr>) sample_sattr"
proof -
  have "stream_ok (enc_stream 40 \<lparr>x_alloc := \<lambda>_. Some (\<lambda>_. 0)\<rparr>)" by (simp add: stream_ok_def enc_stream_def)
  then show ?thesis using fast_paths_agree [of "enc_stream 40 \<lparr>x_alloc := \<lambda>_. Some (\<lambda>_. 0)\<rparr>"] by simp
qed

subsection \<open>Round trips\<close>

text \<open>C24. A directory listing of any length that fits into the buffer is read back as it was written: the same entries
  in the same order (each name is a new terminated string), the same end mark, and what follows it is left.\<close>

theorem listing_roundtrip:
  assumes "readdirres_ok v" and "encode xdr_readdirres n v = Some bs" and "n < 2 ^ 31" and "length (bs @ r) < 2 ^ 31"
    and "\<forall>i. al i \<noteq> None" and "dl_entries (dd_reply a) = None"
  shows "decode xdr_readdirres al a (bs @ r) = Some (readdirres_into v a, r)"
  using x_readdirres.roundtrip [of v a n bs r al] assms by blast

definition zeros :: "nat \<Rightarrow> (nat \<Rightarrow> u8) option" where
  "zeros i = Some (\<lambda>_. 0)"

definition sample_listing :: readdirres where
  "sample_listing = \<lparr>dd_status = 0, dd_reply = \<lparr>dl_entries = Some (Entry 7 (Some [97, 0]) [0, 0, 0, 1] (Some (Entry 8 (Some [98, 99, 0]) [0, 0, 0, 2] None))), dl_eof = True\<rparr>\<rparr>"

definition empty_listing :: readdirres where
  "empty_listing = \<lparr>dd_status = 0, dd_reply = \<lparr>dl_entries = None, dl_eof = False\<rparr>\<rparr>"

lemma sample_listing_ok: "readdirres_ok sample_listing" "length (readdirres_wire sample_listing) = 52"
  by (simp_all add: readdirres_ok_def dirlist_ok_def sample_listing_def string_ok_def cstr_bytes_def readdirres_wire_def dirlist_wire_def
      ptr_wire_def string_wire_def padding_def bool_bytes_def)

lemma listing_roundtrip_witness:
  "\<exists>bs. encode xdr_readdirres 64 sample_listing = Some bs \<and> length bs = 52 \<and>
     decode xdr_readdirres zeros empty_listing (bs @ [1, 2, 3]) = Some (sample_listing, [1, 2, 3])"
proof -
  let ?w = "readdirres_wire sample_listing"
  have w: "encode xdr_readdirres 64 sample_listing = Some ?w" using x_readdirres.encode_wire [of sample_listing 64] sample_listing_ok by simp
  have "decode xdr_readdirres zeros empty_listing (?w @ [1, 2, 3]) = Some (readdirres_into sample_listing empty_listing, [1, 2, 3])"
    by (rule listing_roundtrip [OF sample_listing_ok(1) w]) (simp_all add: sample_listing_ok(2) zeros_def empty_listing_def)
  moreover have "readdirres_into sample_listing empty_listing = sample_listing"
    by (simp add: readdirres_into_def sample_listing_def dirlist_into_def cstr_bytes_def)
  ultimately show ?thesis using w sample_listing_ok(2) by simp
qed

text \<open>The messages of a write, a symbolic link, a look-up and a read, encoded into a buffer with room for them, are decoded
  to the same values: the data bytes and names come back as they were (the bytes in front of what else the storage of the
  receiver holds), a look-up or read with an error status brings the status only, and what follows the message is left.\<close>

theorem messages_roundtrip:
  assumes "n < 2 ^ 31" and "m < 2 ^ 31" and "\<forall>i. al i \<noteq> None"
  shows "(\<forall>v a bs r. fh_ok (wa_file v) \<and> counted_ok 8192 (wa_data v) \<and> fh_ok (wa_file a) \<and> bytes_fit (unat (data_len (wa_data v))) (wa_data a) \<and>
      encode xdr_writeargs n v = Some bs \<and> length (bs @ r) < m \<longrightarrow>
      decode xdr_writeargs al a (bs @ r) = Some (v\<lparr>wa_data := bytes_into (wa_data v) (wa_data a)\<rparr>, r)) \<and>
    (\<forall>v a bs r. diropargs_ok (sl_from v) \<and> string_ok 1024 (sl_to v) \<and> diropargs_new (sl_from a) \<and> sl_to a = None \<and>
      encode xdr_symlinkargs n v = Some bs \<and> length (bs @ r) < m \<longrightarrow>
      decode xdr_symlinkargs al a (bs @ r) = Some (v\<lparr>sl_from := diropargs_into (sl_from v), sl_to := Some (cstr_bytes (sl_to v) @ [0])\<rparr>, r)) \<and>
    (\<forall>v a bs r. (dr_status v = 0 \<longrightarrow> fh_ok (dk_file (dr_diropres v))) \<and> fh_ok (dk_file (dr_diropres a)) \<and>
      encode xdr_diropres n v = Some bs \<and> length (bs @ r) < m \<longrightarrow>
      decode xdr_diropres al a (bs @ r) = Some (if dr_status v = 0 then v else a\<lparr>dr_status := dr_status v\<rparr>, r)) \<and>
    (\<forall>v a bs r. (rr_status v = 0 \<longrightarrow> counted_ok 8192 (ro_data (rr_reply v)) \<and> bytes_fit (unat (data_len (ro_data (rr_reply v)))) (ro_data (rr_reply a))) \<and>
      encode xdr_readres n v = Some bs \<and> length (bs @ r) < m \<longrightarrow>
      decode xdr_readres al a (bs @ r) =
        Some (if rr_status v = 0 then v\<lparr>rr_reply := (rr_reply v)\<lparr>ro_data := bytes_into (ro_data (rr_reply v)) (ro_data (rr_reply a))\<rparr>\<rparr> else a\<lparr>rr_status := rr_status v\<rparr>, r))"
proof (intro conjI allI impI, goal_cases)
  case (1 v a bs r)
  then show ?case using x_writeargs.roundtrip [of v a n bs r al] assms by auto
next
  case (2 v a bs r)
  then show ?case using x_symlinkargs.roundtrip [of v a n bs r al] assms by auto
next
  case (3 v a bs r)
  then show ?case using x_diropres.roundtrip [of v a n bs r al] assms by auto
next
  case (4 v a bs r)
  then show ?case using x_readres.roundtrip [of v a n bs r al] assms by auto
qed

definition sample_diropres :: "u32 \<Rightarrow> u8 \<Rightarrow> diropres" where
  "sample_diropres st b = \<lparr>dr_status = st, dr_diropres = \<lparr>dk_file = replicate 32 b, dk_attributes = fattr_of_longs (replicate 17 9)\<rparr>\<rparr>"

lemma messages_roundtrip_witness:
  "\<exists>bs. encode xdr_diropres 200 (sample_diropres 0 5) = Some bs \<and> length bs = 104 \<and>
     decode xdr_diropres zeros (sample_diropres 1 0) (bs @ [4]) = Some (sample_diropres 0 5, [4])"
proof -
  let ?v = "sample_diropres 0 5"
  have l: "length (diropres_wire ?v) = 104" by (simp add: diropres_wire_def sample_diropres_def diropokres_wire_def fattr_wire_def fattr_longs_facts)
  have w: "encode xdr_diropres 200 ?v = Some (diropres_wire ?v)" using x_diropres.encode_wire [of ?v 200] l by (simp add: sample_diropres_def)
  have m: "(200::nat) < 2 ^ 31" "\<forall>i. zeros i \<noteq> None" by (simp_all add: zeros_def)
  have "decode xdr_diropres zeros (sample_diropres 1 0) (diropres_wire ?v @ [4]) = Some (?v, [4])"
    using messages_roundtrip [OF m(1) m(1) m(2), THEN conjunct2, THEN conjunct2, THEN conjunct1, rule_format, of ?v "sample_diropres 1 0" "diropres_wire ?v" "[4]"] w l
    by (simp add: sample_diropres_def)
  then show ?thesis using w l by blast
qed

subsection \<open>Blocks sent from where they are\<close>

text \<open>C26. A write whose data is sent from the cache without being copied into the message (\<open>xdr_writeargssb\<close> and the block) is the
  ordinary write message if and only if the length of the data is a multiple of four: the sender leaves out the padding.\<close>

theorem writesb_message:
  assumes "fh_ok (wa_file v)" and "counted_ok 8192 (wa_data v)" and "n < 2 ^ 31" and "8500 \<le> n"
  shows "\<exists>hdr. encode xdr_writeargssb n v = Some hdr \<and>
     encode xdr_writeargs n v = Some (hdr @ counted (wa_data v) @ padding (unat (data_len (wa_data v)))) \<and>
     (encode xdr_writeargs n v = Some (hdr @ counted (wa_data v)) \<longleftrightarrow> unat (data_len (wa_data v)) mod 4 = 0)"
proof (intro exI conjI)
  have c: "length (counted (wa_data v)) \<le> 8192" using assms(2) by (auto simp: counted_ok_def word_le_nat_alt)
  have p: "length (padding k) < 4" for k by (simp add: pad_small)
  have "(4 - k mod 4) mod 4 = 0 \<longleftrightarrow> k mod 4 = 0" for k :: nat by presburger
  then have z: "padding k = [] \<longleftrightarrow> k mod 4 = 0" for k by (simp add: padding_def)
  let ?h = "writeargssb_wire v"
  have eq: "writeargs_wire v = ?h @ counted (wa_data v) @ padding (unat (data_len (wa_data v)))"
    by (simp add: writeargs_wire_def writeargssb_wire_def bytes_wire_def)
  have l: "length ?h = 48" using assms(1) by (simp add: writeargssb_wire_def)
  then show "encode xdr_writeargssb n v = Some ?h" using x_writeargssb.encode_wire [of v n] assms by simp
  have "length (writeargs_wire v) \<le> n" using l c p [of "unat (data_len (wa_data v))"] assms(4) by (simp add: eq)
  then show w: "encode xdr_writeargs n v = Some (?h @ counted (wa_data v) @ padding (unat (data_len (wa_data v))))"
    using x_writeargs.encode_wire [of v n] assms eq by simp
  show "encode xdr_writeargs n v = Some (?h @ counted (wa_data v)) \<longleftrightarrow> unat (data_len (wa_data v)) mod 4 = 0"
    unfolding w by (simp add: z)
qed

definition sample_write :: writeargs where
  "sample_write = \<lparr>wa_file = replicate 32 5, wa_beginoffset = 0, wa_offset = 0, wa_totalcount = 0, wa_data = \<lparr>data_len = 5, data_val = Some [1, 2, 3, 4, 5]\<rparr>\<rparr>"

lemma writesb_message_witness:
  "\<exists>hdr. encode xdr_writeargssb 9000 sample_write = Some hdr \<and> encode xdr_writeargs 9000 sample_write = Some (hdr @ [1, 2, 3, 4, 5] @ [0, 0, 0]) \<and>
     encode xdr_writeargs 9000 sample_write \<noteq> Some (hdr @ [1, 2, 3, 4, 5])"
proof -
  have c: "counted (wa_data sample_write) = [1, 2, 3, 4, 5]" by (simp add: sample_write_def counted_def)
  have f: "fh_ok (wa_file sample_write)" "data_len (wa_data sample_write) = 5" by (simp_all add: sample_write_def)
  have "counted_ok 8192 (wa_data sample_write)" unfolding counted_ok_def c f(2) by simp
  moreover have "padding 5 = replicate 3 0" by (simp add: padding_def)
  moreover have "replicate 3 (0::u8) = [0, 0, 0]" by (simp add: numeral_3_eq_3)
  ultimately obtain hdr where "encode xdr_writeargssb 9000 sample_write = Some hdr" "encode xdr_writeargs 9000 sample_write = Some (hdr @ [1, 2, 3, 4, 5] @ [0, 0, 0])"
    "encode xdr_writeargs 9000 sample_write = Some (hdr @ [1, 2, 3, 4, 5]) \<longleftrightarrow> (5::nat) mod 4 = 0"
    using writesb_message [of sample_write 9000] c f by auto
  then show ?thesis by auto
qed

subsection \<open>Any reply\<close>

lemma safe_path: "dec_safe xdr_nfspath (\<lambda>a. a = None) (\<lambda>a. a = None \<or> string_ok 1024 a)"
  unfolding xdr_nfspath_def by (rule safe_Cons [OF safe_string safe_Nil]) auto

lemma safe_union:
  assumes "dec_safe p P (\<lambda>a. True)" and "\<And>a. P' a \<Longrightarrow> P (get a)" and "\<And>a v. P' a \<Longrightarrow> P' (pst v a)"
  shows "dec_safe (seqs [fld st pst xdr_u_int, case_ok st (fld get put p)]) P' (\<lambda>a. True)"
  by (rule safe_Cons [where M = P', OF safe_fld [OF safe_u_long] safe_Cons [where M = "\<lambda>a. True", OF safe_case [OF safe_fld [OF assms(1)]] safe_Nil]])
    (use assms in auto)

lemma safe_attrstat: "dec_safe xdr_attrstat (\<lambda>a. True) (\<lambda>a. True)"
  unfolding xdr_attrstat_def xdr_stat_eq by (rule safe_union [OF safe_fattr]) auto

lemma safe_diropres: "dec_safe xdr_diropres (\<lambda>a. fh_ok (dk_file (dr_diropres a))) (\<lambda>a. True)"
proof -
  have "dec_safe xdr_diropokres (\<lambda>a. fh_ok (dk_file a)) (\<lambda>a. True)"
    unfolding xdr_diropokres_def
    by (rule safe_Cons [where M = "\<lambda>a. True", OF safe_fld [OF safe_fh] safe_Cons [OF safe_fld [OF safe_fattr] safe_Nil]]) auto
  then show ?thesis unfolding xdr_diropres_def xdr_stat_eq by (rule safe_union) auto
qed

lemma safe_readlinkres: "dec_safe xdr_readlinkres (\<lambda>a. rl_data a = None) (\<lambda>a. True)"
  unfolding xdr_readlinkres_def xdr_stat_eq by (rule safe_union [where P = "\<lambda>a. a = None", OF safe_weaken [OF safe_path]]) auto

lemma safe_readres: "dec_safe xdr_readres (\<lambda>a. bytes_fit 8192 (ro_data (rr_reply a))) (\<lambda>a. True)"
proof -
  have "dec_safe xdr_readokres (\<lambda>a. bytes_fit 8192 (ro_data a)) (\<lambda>a. True)"
    unfolding xdr_readokres_def
    by (rule safe_Cons [where M = "\<lambda>a. bytes_fit 8192 (ro_data a)", OF safe_fld [OF safe_fattr] safe_Cons [where M = "\<lambda>a. True", OF safe_fld [OF safe_bytes] safe_Nil]]) auto
  then show ?thesis unfolding xdr_readres_eq xdr_stat_eq by (rule safe_union) auto
qed

lemma safe_statfsres: "dec_safe xdr_statfsres (\<lambda>a. True) (\<lambda>a. True)"
  unfolding xdr_statfsres_def xdr_stat_eq by (rule safe_union [OF safe_statfs]) auto

text \<open>What decoding gives for the bytes of a datagram: it ends (is not \<open>None\<close>), whatever the bytes.\<close>

definition survives :: "'a xproc \<Rightarrow> (nat \<Rightarrow> (nat \<Rightarrow> u8) option) \<Rightarrow> 'a \<Rightarrow> u8 list \<Rightarrow> bool" where
  "survives p al a bs \<longleftrightarrow> (\<exists>ok a' X. p (dec_stream al bs) a = Some (ok, a', X) \<and> (ok \<longrightarrow> x_private X \<le> length bs))"

lemma safe_survives:
  assumes "dec_safe p P R" and "P a" and "length bs < 2 ^ 31"
  shows "survives p al a bs"
proof -
  note s = dec_stream_ok [OF assms(3), of al]
  obtain ok a' X where x: "p (dec_stream al bs) a = Some (ok, a', X)" "ok \<longrightarrow> (\<exists>n. went (dec_stream al bs) n X \<and> x_buf X = bs)"
    using dec_safeD [OF assms(1), of "dec_stream al bs" a] s assms(2) by auto
  have "x_private X \<le> length bs" if o: "ok"
  proof -
    obtain n where n: "went (dec_stream al bs) n X" "x_buf X = bs" using x(2) o by blast
    have "stream_ok X" using went_ok [OF n(1)] s by blast
    then show ?thesis using n(2) by (simp add: stream_ok_def)
  qed
  then show ?thesis using x(1) by (auto simp: survives_def)
qed

text \<open>C22. No reply harms the client: whatever bytes arrive, and whichever allocations fail, decoding any of the six kinds of results
  comes to an end and never reads outside the datagram or writes outside the results, provided these are set up with pointers that are null or, for the data of a
  read, point to at least 8192 bytes (all stubs do so, but for \<open>nfsproc_read_buf\<close>, which takes any buffer of its caller). The two that allocate lists or strings rely on this bound and on nothing in the reply.\<close>

theorem replies_survived:
  assumes "length bs < 2 ^ 31"
  shows "survives xdr_attrstat al a1 bs \<and> survives xdr_statfsres al a2 bs \<and>
    (fh_ok (dk_file (dr_diropres a3)) \<longrightarrow> survives xdr_diropres al a3 bs) \<and>
    (rl_data a4 = None \<longrightarrow> survives xdr_readlinkres al a4 bs) \<and>
    (bytes_fit 8192 (ro_data (rr_reply a5)) \<longrightarrow> survives xdr_readres al a5 bs) \<and>
    (dl_entries (dd_reply a6) = None \<longrightarrow> survives xdr_readdirres al a6 bs)"
  using safe_survives [OF safe_attrstat _ assms] safe_survives [OF safe_statfsres _ assms] safe_survives [OF safe_diropres _ assms]
    safe_survives [OF safe_readlinkres _ assms] safe_survives [OF safe_readres _ assms] safe_survives [OF safe_readdirres _ assms] by blast

lemma replies_survived_witness: "survives xdr_readdirres zeros empty_listing [0, 0, 0, 0, 0, 0, 0, 1, 0, 0, 0, 7, 255, 255]"
  using replies_survived [of "[0, 0, 0, 0, 0, 0, 0, 1, 0, 0, 0, 7, 255, 255]" zeros _ _ _ _ _ empty_listing] by (simp add: empty_listing_def)

text \<open>A listing that the routine in the freeing direction can take.\<close>

definition listing_sound :: "readdirres \<Rightarrow> bool" where
  "listing_sound a \<longleftrightarrow> (dd_status a = 0 \<or> dl_entries (dd_reply a) = None) \<and> (case dl_entries (dd_reply a) of None \<Rightarrow> True | Some y \<Rightarrow> entry_sound y)"

lemma free_listing:
  assumes "listing_sound a" and Y: "x_op Y = XDR_FREE"
  shows "xdr_readdirres Y a = Some (True, a\<lparr>dd_reply := (dd_reply a)\<lparr>dl_entries := None\<rparr>\<rparr>, Y)"
proof -
  have x: "dd_status a = 0 \<or> dl_entries (dd_reply a) = None" "case dl_entries (dd_reply a) of None \<Rightarrow> True | Some y \<Rightarrow> entry_sound y"
    using assms(1) by (simp_all add: listing_sound_def)
  have "xdr_pointer zero_entry xdr_entry Y (dl_entries (dd_reply a)) = Some (True, None, Y)"
    by (rule free_pointer [OF Y]) (use free_entry [OF Y] x(2) in auto)
  then have "xdr_dirlist Y (dd_reply a) = Some (True, (dd_reply a)\<lparr>dl_entries := None\<rparr>, Y)" by (simp add: xdr_dirlist_def fld_def xdr_bool_def Y)
  then have d: "fld dd_reply (\<lambda>v a. a\<lparr>dd_reply := v\<rparr>) xdr_dirlist Y a = Some (True, a\<lparr>dd_reply := (dd_reply a)\<lparr>dl_entries := None\<rparr>\<rparr>, Y)"
    by (simp add: fld_def)
  have s: "fld dd_status (\<lambda>v a. a\<lparr>dd_status := v\<rparr>) xdr_u_int Y a = Some (True, a, Y)" by (simp add: fld_def xdr_u_long_def Y)
  show ?thesis
  proof (cases "dd_status a = 0")
    case True
    then show ?thesis using d s by (simp add: xdr_readdirres_def xdr_stat_eq case_ok_def)
  next
    case False
    then have "dl_entries (dd_reply a) = None" using x(1) by simp
    then have "a\<lparr>dd_reply := (dd_reply a)\<lparr>dl_entries := None\<rparr>\<rparr> = a" by (cases a; cases "dd_reply a") simp
    then show ?thesis using False s by (simp add: xdr_readdirres_def xdr_stat_eq case_ok_def)
  qed
qed

text \<open>C23. Whatever a listing leaves behind, complete, cut off by the end of the datagram, by a bad name or by a lack of memory, the
  same routine in the freeing direction returns true and gives back every entry and every name.\<close>

theorem listing_freed:
  assumes "length bs < 2 ^ 31" and "dl_entries (dd_reply a) = None"
  shows "\<exists>ok a' X. xdr_readdirres (dec_stream al bs) a = Some (ok, a', X) \<and>
    (\<forall>Y. x_op Y = XDR_FREE \<longrightarrow> xdr_readdirres Y a' = Some (True, a'\<lparr>dd_reply := (dd_reply a')\<lparr>dl_entries := None\<rparr>\<rparr>, Y))"
proof -
  obtain ok a' X where x: "xdr_readdirres (dec_stream al bs) a = Some (ok, a', X)" "dd_status a' = 0 \<or> dl_entries (dd_reply a') = None"
    "case dl_entries (dd_reply a') of None \<Rightarrow> True | Some y \<Rightarrow> entry_sound y"
    using dec_safeD [OF safe_readdirres, of "dec_stream al bs" a] dec_stream_ok [OF assms(1), of al] assms(2) by auto
  then show ?thesis using free_listing [of a'] by (simp add: listing_sound_def)
qed

lemma listing_freed_witness:
  "\<exists>ok a' X. xdr_readdirres (dec_stream zeros [0, 0, 0, 0, 0, 0, 0, 1, 0, 0, 0, 7, 255, 255]) empty_listing = Some (ok, a', X) \<and>
     (\<exists>b. xdr_readdirres (X\<lparr>x_op := XDR_FREE\<rparr>) a' = Some (True, b, X\<lparr>x_op := XDR_FREE\<rparr>) \<and> dl_entries (dd_reply b) = None)"
proof -
  obtain ok a' X where x: "xdr_readdirres (dec_stream zeros [0, 0, 0, 0, 0, 0, 0, 1, 0, 0, 0, 7, 255, 255]) empty_listing = Some (ok, a', X)"
    "\<forall>Y. x_op Y = XDR_FREE \<longrightarrow> xdr_readdirres Y a' = Some (True, a'\<lparr>dd_reply := (dd_reply a')\<lparr>dl_entries := None\<rparr>\<rparr>, Y)"
    using listing_freed [of "[0, 0, 0, 0, 0, 0, 0, 1, 0, 0, 0, 7, 255, 255]" empty_listing zeros] by (auto simp: empty_listing_def)
  then show ?thesis by auto
qed

end
