(* ===== verification/Rpc.thy ===== *)
theory Rpc
  imports XdrMsg
begin

unbundle bit_operations_syntax

text \<open>
  The asynchronous client of remote calls over datagrams (src/src/rpc/clnt_audp.c, clnt_ageneric.c). The client has up
  to five slots, each with a buffer for the message it sends and resends. The library of Sun RPC below it (message
  headers, authentication, streams), which is not part of the repository, is the record \<open>rpclib\<close>; the network is
  the record \<open>rnet\<close>: what \<open>select\<close> and \<open>recvfrom\<close> report, one event after the other, and which
  transmissions fail. Results are objects of the type \<open>'r\<close> in the store \<open>w_res\<close>; a marshalling routine is known by
  its number (its address), a result by its address. \<open>None\<close> is an access outside a buffer, or that a call never returns.
\<close>

datatype clnt_stat = RPC_SUCCESS | RPC_CANTENCODEARGS | RPC_CANTDECODERES | RPC_CANTSEND | RPC_CANTRECV | RPC_TIMEDOUT
  | RPC_VERSMISMATCH | RPC_AUTHERROR | RPC_PROGUNAVAIL | RPC_PROGVERSMISMATCH | RPC_PROCUNAVAIL | RPC_CANTDECODEARGS
  | RPC_SYSTEMERROR | RPC_UNKNOWNHOST | RPC_UNKNOWNPROTO | RPC_PMAPFAILURE | RPC_PROGNOTREGISTERED | RPC_FAILED

text \<open>\<open>re_ru\<close> is the union: the system error or the reason of an authentication error.\<close>

record rpc_err =
  re_status :: clnt_stat
  re_ru :: int

record timeval =
  tv_sec :: int
  tv_usec :: int

record sockaddr_in =
  sin_family :: int
  sin_port :: "16 word"
  sin_addr :: u32

record scu_data =
  scu_inuse :: bool
  scu_outxdrs :: XDR
  scu_xdrpos :: nat
  scu_resultsp :: nat
  scu_userdata :: nat
  scu_time_waited :: timeval
  scu_nrefreshes :: int

text \<open>The buffer \<open>scu_outbuf\<close> is the memory \<open>x_buf\<close> of the stream.\<close>

record mcu_data =
  mcu_numscu :: u32
  mcu_numfreescu :: u32
  mcu_xid :: u32
  mcu_scu :: "scu_data list"
  mcu_timeout_cb :: bool
  mcu_closeit :: bool
  mcu_raddr :: sockaddr_in
  mcu_wait :: timeval
  mcu_total :: timeval
  mcu_error :: rpc_err
  mcu_xresults :: nat
  mcu_sendsz :: u32
  mcu_recvsz :: u32

subsection \<open>Loops\<close>

text \<open>The code jumps between labels: a step gives the result, or the state it goes on with.\<close>

partial_function (option) run_loop :: "('s \<Rightarrow> ('a + 's) option) \<Rightarrow> 's \<Rightarrow> 'a option" where
  "run_loop step s = Option.bind (step s) (\<lambda>r. case r of Inl a \<Rightarrow> Some a | Inr s1 \<Rightarrow> run_loop step s1)"

declare run_loop.simps [code]

lemma run_loop_inv:
  fixes step :: "'s \<Rightarrow> ('a + 's) option"
  assumes "run_loop step s = Some a" and "I s" and "\<And>s a. I s \<Longrightarrow> step s = Some (Inl a) \<Longrightarrow> P a" and "\<And>s s1. I s \<Longrightarrow> step s = Some (Inr s1) \<Longrightarrow> I s1"
  shows "P a"
proof -
  have "step = step \<longrightarrow> I s \<longrightarrow> P a"
  proof (rule run_loop.raw_induct [where P = "\<lambda>st s a. st = step \<longrightarrow> I s \<longrightarrow> P a", OF _ assms(1)])
    fix run_loop st s a
    assume IH: "\<And>(st :: 's \<Rightarrow> ('a + 's) option) s a. run_loop st s = Some a \<Longrightarrow> st = step \<longrightarrow> I s \<longrightarrow> P a"
      and run: "Option.bind (st s) (\<lambda>r. case r of Inl a \<Rightarrow> Some a | Inr s1 \<Rightarrow> run_loop st s1) = Some a"
    then obtain r where r: "st s = Some r" by (cases "st s") auto
    show "st = step \<longrightarrow> I s \<longrightarrow> P a"
      using IH run r assms(3,4) by (cases r) auto
  qed
  then show ?thesis using assms(2) by simp
qed

text \<open>It returns when every step that goes on makes a measure smaller.\<close>

lemma run_loop_returns:
  assumes "wf R" and "I s" and "\<And>s. I s \<Longrightarrow> step s \<noteq> None" and "\<And>s s1. I s \<Longrightarrow> step s = Some (Inr s1) \<Longrightarrow> I s1 \<and> (s1, s) \<in> R"
  shows "run_loop step s \<noteq> None"
  using assms(1,2)
proof (induction s rule: wf_induct_rule)
  case (less s)
  obtain r where r: "step s = Some r" using assms(3) [OF less.prems] by auto
  show ?case
  proof (cases r)
    case (Inr s1)
    then have "run_loop step s1 \<noteq> None" using assms(4) [OF less.prems] r less.IH by simp
    then show ?thesis using r Inr by (subst run_loop.simps) simp
  qed (use r in \<open>subst run_loop.simps, simp\<close>)
qed

subsection \<open>Network and library\<close>

datatype net_event = Silent | SelectError int | Datagram "u8 list" | WouldBlock | RecvError int

record rnet =
  net_ev :: "nat \<Rightarrow> net_event"
  net_evn :: nat
  net_snd :: "nat \<Rightarrow> int option"
  net_out :: "u8 list list"
  net_cb :: "nat \<Rightarrow> bool"
  net_cbn :: nat
  net_alloc :: "nat \<Rightarrow> nat \<Rightarrow> (nat \<Rightarrow> u8) option"

record ('au, 'r) rclient =
  cl_auth :: 'au
  cla_resp :: nat
  cla_userdata :: nat
  cl_mcu :: mcu_data
  w_net :: rnet
  w_res :: "nat \<Rightarrow> 'r"

record ('au, 'm, 'r) rpclib =
  rl_setpos :: "nat \<Rightarrow> XDR \<Rightarrow> XDR"
  rl_putlong :: "u32 \<Rightarrow> XDR \<Rightarrow> (bool \<times> XDR) option"
  rl_callhdr :: "u32 \<Rightarrow> u32 \<Rightarrow> u32 \<Rightarrow> XDR \<Rightarrow> (bool \<times> XDR) option"
  rl_marshall :: "'au \<Rightarrow> XDR \<Rightarrow> (bool \<times> XDR) option"
  rl_validate :: "'au \<Rightarrow> 'm \<Rightarrow> bool \<times> 'au"
  rl_refresh :: "'au \<Rightarrow> bool \<times> 'au"
  rl_replymsg :: "'r xproc \<Rightarrow> XDR \<Rightarrow> 'r \<Rightarrow> (bool \<times> 'm \<times> 'r) option"
  rl_seterr :: "'m \<Rightarrow> rpc_err \<Rightarrow> rpc_err"
  rl_has_verf :: "'m \<Rightarrow> bool"
  rl_proc :: "nat \<Rightarrow> 'r xproc"
  rl_authnone :: 'au

text \<open>The routine of the arguments, applied to them.\<close>

definition enc_args :: "'a xproc \<Rightarrow> 'a \<Rightarrow> XDR \<Rightarrow> (bool \<times> XDR) option" where
  "enc_args p v X = map_option (\<lambda>(ok, _, X1). (ok, X1)) (p X v)"

abbreviation upd_mcu :: "(mcu_data \<Rightarrow> mcu_data) \<Rightarrow> ('au, 'r) rclient \<Rightarrow> ('au, 'r) rclient" where
  "upd_mcu f C \<equiv> C\<lparr>cl_mcu := f (cl_mcu C)\<rparr>"

definition upd_scu :: "nat \<Rightarrow> (scu_data \<Rightarrow> scu_data) \<Rightarrow> ('au, 'r) rclient \<Rightarrow> ('au, 'r) rclient" where
  "upd_scu i f C = upd_mcu (\<lambda>cu. cu\<lparr>mcu_scu := (mcu_scu cu)[i := f (mcu_scu cu ! i)]\<rparr>) C"

abbreviation scu_at :: "('au, 'r) rclient \<Rightarrow> nat \<Rightarrow> scu_data" where
  "scu_at C i \<equiv> mcu_scu (cl_mcu C) ! i"

text \<open>\<open>return (cu->mcu_error.re_status = st)\<close>, and with \<open>re_errno\<close> set.\<close>

definition ret :: "clnt_stat \<Rightarrow> ('au, 'r) rclient \<Rightarrow> clnt_stat \<times> ('au, 'r) rclient" where
  "ret st C = (st, upd_mcu (\<lambda>cu. cu\<lparr>mcu_error := (mcu_error cu)\<lparr>re_status := st\<rparr>\<rparr>) C)"

definition ret_errno :: "clnt_stat \<Rightarrow> int \<Rightarrow> ('au, 'r) rclient \<Rightarrow> clnt_stat \<times> ('au, 'r) rclient" where
  "ret_errno st e C = (st, upd_mcu (\<lambda>cu. cu\<lparr>mcu_error := \<lparr>re_status = st, re_ru = e\<rparr>\<rparr>) C)"

definition next_event :: "('au, 'r) rclient \<Rightarrow> net_event \<times> ('au, 'r) rclient" where
  "next_event C = (net_ev (w_net C) (net_evn (w_net C)), C\<lparr>w_net := (w_net C)\<lparr>net_evn := Suc (net_evn (w_net C))\<rparr>\<rparr>)"

definition transmit :: "u8 list \<Rightarrow> ('au, 'r) rclient \<Rightarrow> int option \<times> ('au, 'r) rclient" where
  "transmit msg C = (net_snd (w_net C) (length (net_out (w_net C))), C\<lparr>w_net := (w_net C)\<lparr>net_out := net_out (w_net C) @ [msg]\<rparr>\<rparr>)"

subsection \<open>Time\<close>

function norm_usec :: "timeval \<Rightarrow> timeval" where
  "norm_usec t = (if tv_usec t \<ge> 1000000 then norm_usec \<lparr>tv_sec = tv_sec t + 1, tv_usec = tv_usec t - 1000000\<rparr> else t)"
  by pat_completeness auto
termination by (relation "measure (\<lambda>t. nat (tv_usec t))") auto

declare norm_usec.simps [simp del]

definition add_timeval :: "timeval \<Rightarrow> timeval \<Rightarrow> timeval" where
  "add_timeval t1 t2 = norm_usec \<lparr>tv_sec = tv_sec t1 + tv_sec t2, tv_usec = tv_usec t1 + tv_usec t2\<rparr>"

definition less_timeval :: "timeval \<Rightarrow> timeval \<Rightarrow> bool" where
  "less_timeval t1 t2 \<longleftrightarrow> tv_sec t1 < tv_sec t2 \<or> tv_sec t1 = tv_sec t2 \<and> tv_usec t1 < tv_usec t2"

definition zero_timeval :: timeval where
  "zero_timeval = \<lparr>tv_sec = 0, tv_usec = 0\<rparr>"

text \<open>The timeout of the client, or, if there is none, the one supplied.\<close>

definition rpc_timeout :: "('au, 'r) rclient \<Rightarrow> timeval \<Rightarrow> timeval" where
  "rpc_timeout C utimeout = (if tv_usec (mcu_total (cl_mcu C)) = -1 then utimeout else mcu_total (cl_mcu C))"

subsection \<open>Messages\<close>

text \<open>From \<open>call_again\<close> to \<open>send_again\<close>: the next transaction, encoded into the buffer of a slot. \<open>Some n\<close> is
  the length of the message.\<close>

definition encode_call :: "('au, 'm, 'r) rpclib \<Rightarrow> nat \<Rightarrow> u32 \<Rightarrow> (XDR \<Rightarrow> (bool \<times> XDR) option) \<Rightarrow> ('au, 'r) rclient \<Rightarrow>
    (nat option \<times> ('au, 'r) rclient) option" where
  "encode_call L i proc xargs C =
     do {
       let scu = scu_at C i;
       let xid = mcu_xid (cl_mcu C) + 0x10000;
       let X0 = rl_setpos L (scu_xdrpos scu) ((scu_outxdrs scu)\<lparr>x_op := XDR_ENCODE\<rparr>);
       let done = (\<lambda>X. upd_mcu (\<lambda>cu. cu\<lparr>mcu_xid := xid\<rparr>) (upd_scu i (\<lambda>s. s\<lparr>scu_outxdrs := X\<rparr>) C));
       buf \<leftarrow> poke 0 (put32 xid) (x_buf X0);
       (ok, X1) \<leftarrow> rl_putlong L proc (X0\<lparr>x_buf := buf\<rparr>);
       (if \<not> ok then Some (None, done X1)
        else do {
          (ok, X2) \<leftarrow> rl_marshall L (cl_auth C) X1;
          (if \<not> ok then Some (None, done X2)
           else do {
             (ok, X3) \<leftarrow> xargs X2;
             Some (if ok then Some (x_private X3) else None, done X3)
           })
        })
     }"

text \<open>Sending the message in the buffer of a slot, followed by a block: the system error, if it fails.\<close>

definition send_message :: "nat \<Rightarrow> nat \<Rightarrow> u8 list \<Rightarrow> ('au, 'r) rclient \<Rightarrow> (int option \<times> ('au, 'r) rclient) option" where
  "send_message i outlen block C = map_option (\<lambda>msg. transmit (msg @ block) C) (peek 0 outlen (x_buf (scu_outxdrs (scu_at C i))))"

text \<open>Decoding and validating the response: \<open>None\<close> when the credentials were refreshed and the call is to be repeated.\<close>

definition rpc_reply :: "('au, 'm, 'r) rpclib \<Rightarrow> nat \<Rightarrow> nat \<Rightarrow> nat \<Rightarrow> u8 list \<Rightarrow> int \<Rightarrow> ('au, 'r) rclient \<Rightarrow>
    (bool \<times> ('au, 'r) rclient) option" where
  "rpc_reply L i xres resp bs nrefreshes C =
     do {
       (ok, msg, r) \<leftarrow> rl_replymsg L (rl_proc L xres) (dec_stream (net_alloc (w_net C) (net_evn (w_net C))) bs) (w_res C resp);
       let C1 = C\<lparr>w_res := (w_res C)(resp := r)\<rparr>;
       Some (if ok then
          let err = rl_seterr L msg (mcu_error (cl_mcu C1)); C2 = upd_mcu (\<lambda>cu. cu\<lparr>mcu_error := err\<rparr>) C1 in
          if re_status err = RPC_SUCCESS then
            let (valid, au) = rl_validate L (cl_auth C2) msg;
                err1 = (if valid then err else \<lparr>re_status = RPC_AUTHERROR, re_ru = 6\<rparr>);
                C4 = (upd_mcu (\<lambda>cu. cu\<lparr>mcu_error := err1\<rparr>) C2)\<lparr>cl_auth := au\<rparr> in
            (True, if rl_has_verf L msg then upd_scu i (\<lambda>s. s\<lparr>scu_outxdrs := (scu_outxdrs s)\<lparr>x_op := XDR_FREE\<rparr>\<rparr>) C4 else C4)
          else if nrefreshes > 0 then
            let (again, au) = rl_refresh L (cl_auth C2) in (\<not> again, C2\<lparr>cl_auth := au\<rparr>)
          else (True, C2)
        else (True, upd_mcu (\<lambda>cu. cu\<lparr>mcu_error := (mcu_error cu)\<lparr>re_status := RPC_CANTDECODERES\<rparr>\<rparr>) C1))
     }"

subsection \<open>Synchronous calls\<close>

datatype rpc_stage = SendAgain | Select

text \<open>One round of \<open>send_again\<close> or of the loop behind it: the result of the call, or how it goes on.\<close>

type_synonym ('au, 'r) call_st = "rpc_stage \<times> timeval \<times> int \<times> nat \<times> ('au, 'r) rclient"

definition call_sends :: "timeval \<Rightarrow> timeval \<Rightarrow> int \<Rightarrow> nat \<Rightarrow> ('au, 'r) rclient \<Rightarrow> ((clnt_stat \<times> ('au, 'r) rclient) + ('au, 'r) call_st) option" where
  "call_sends timeout waited nrefreshes outlen C =
     map_option (\<lambda>(err, C1).
       case err of
         Some e \<Rightarrow> Inl (ret_errno RPC_CANTSEND e C1)
       | None \<Rightarrow>
           if tv_sec timeout = 0 \<and> tv_usec timeout = 0 then Inl (ret RPC_TIMEDOUT C1)
           else Inr (Select, waited, nrefreshes, outlen, C1)) (send_message 0 outlen [] C)"

definition call_replied :: "('au, 'm, 'r) rpclib \<Rightarrow> u32 \<Rightarrow> (XDR \<Rightarrow> (bool \<times> XDR) option) \<Rightarrow> nat \<Rightarrow> nat \<Rightarrow> u8 list \<Rightarrow> timeval \<Rightarrow> int \<Rightarrow>
    ('au, 'r) rclient \<Rightarrow> ((clnt_stat \<times> ('au, 'r) rclient) + ('au, 'r) call_st) option" where
  "call_replied L proc xargs xres resp inbuf waited nrefreshes C1 =
     do {
       (fin, C2) \<leftarrow> rpc_reply L 0 xres resp inbuf nrefreshes C1;
       (if fin then Some (Inl (re_status (mcu_error (cl_mcu C2)), C2))
        else map_option (\<lambda>(len, C3).
          case len of
            None \<Rightarrow> Inl (ret RPC_CANTENCODEARGS C3)
          | Some outlen1 \<Rightarrow> Inr (SendAgain, waited, nrefreshes - 1, outlen1, C3)) (encode_call L 0 proc xargs C2))
     }"

definition call_selects :: "('au, 'm, 'r) rpclib \<Rightarrow> u32 \<Rightarrow> (XDR \<Rightarrow> (bool \<times> XDR) option) \<Rightarrow> nat \<Rightarrow> nat \<Rightarrow> timeval \<Rightarrow> timeval \<Rightarrow> int \<Rightarrow> nat \<Rightarrow>
    ('au, 'r) rclient \<Rightarrow> ((clnt_stat \<times> ('au, 'r) rclient) + ('au, 'r) call_st) option" where
  "call_selects L proc xargs xres resp timeout waited nrefreshes outlen C =
     (let C1 = snd (next_event C) in
      case fst (next_event C) of
        Silent \<Rightarrow>
          let waited1 = add_timeval waited (mcu_wait (cl_mcu C1)) in
          Some (if less_timeval waited1 timeout then Inr (SendAgain, waited1, nrefreshes, outlen, C1) else Inl (ret RPC_TIMEDOUT C1))
      | SelectError e \<Rightarrow> Some (Inl (ret_errno RPC_CANTRECV e C1))
      | WouldBlock \<Rightarrow> Some (Inr (Select, waited, nrefreshes, outlen, C1))
      | RecvError e \<Rightarrow> Some (Inl (ret_errno RPC_CANTRECV e C1))
      | Datagram msg \<Rightarrow>
          let inbuf = take (unat (mcu_recvsz (cl_mcu C1))) msg in
          if length inbuf < 4 then Some (Inr (Select, waited, nrefreshes, outlen, C1))
          else if get32 (take 4 inbuf) \<noteq> get32 (take 4 (x_buf (scu_outxdrs (scu_at C1 0)))) then Some (Inr (Select, waited, nrefreshes, outlen, C1))
          else call_replied L proc xargs xres resp inbuf waited nrefreshes C1)"

fun call_step :: "('au, 'm, 'r) rpclib \<Rightarrow> u32 \<Rightarrow> (XDR \<Rightarrow> (bool \<times> XDR) option) \<Rightarrow> nat \<Rightarrow> nat \<Rightarrow> timeval \<Rightarrow>
    ('au, 'r) call_st \<Rightarrow> ((clnt_stat \<times> ('au, 'r) rclient) + ('au, 'r) call_st) option" where
  "call_step L proc xargs xres resp timeout (SendAgain, waited, nrefreshes, outlen, C) = call_sends timeout waited nrefreshes outlen C"
| "call_step L proc xargs xres resp timeout (Select, waited, nrefreshes, outlen, C) = call_selects L proc xargs xres resp timeout waited nrefreshes outlen C"

definition clntaudp_call :: "('au, 'm, 'r) rpclib \<Rightarrow> u32 \<Rightarrow> (XDR \<Rightarrow> (bool \<times> XDR) option) \<Rightarrow> nat \<Rightarrow> nat \<Rightarrow> timeval \<Rightarrow>
    ('au, 'r) rclient \<Rightarrow> (clnt_stat \<times> ('au, 'r) rclient) option" where
  "clntaudp_call L proc xargs xres resp utimeout C =
     do {
       (len, C1) \<leftarrow> encode_call L 0 proc xargs C;
       (case len of
          None \<Rightarrow> Some (ret RPC_CANTENCODEARGS C1)
        | Some outlen \<Rightarrow> run_loop (call_step L proc xargs xres resp (rpc_timeout C utimeout)) (SendAgain, zero_timeval, 2, outlen, C1))
     }"

subsection \<open>Asynchronous calls\<close>

text \<open>The first free slot.\<close>

fun free_scu :: "nat \<Rightarrow> scu_data list \<Rightarrow> nat option" where
  "free_scu i [] = None"
| "free_scu i (s # ss) = (if \<not> scu_inuse s then Some i else free_scu (Suc i) ss)"

text \<open>The slot \<open>i\<close> takes the call.\<close>

definition sendsb_slot :: "('au, 'm, 'r) rpclib \<Rightarrow> nat \<Rightarrow> u32 \<Rightarrow> (XDR \<Rightarrow> (bool \<times> XDR) option) \<Rightarrow> nat \<Rightarrow> nat \<Rightarrow> u8 list \<Rightarrow>
    ('au, 'r) rclient \<Rightarrow> (clnt_stat \<times> ('au, 'r) rclient) option" where
  "sendsb_slot L i proc xargs resp userdata block C =
     do {
       let C1 = upd_scu i (\<lambda>s. s\<lparr>scu_resultsp := resp, scu_userdata := userdata, scu_time_waited := zero_timeval, scu_nrefreshes := 2\<rparr>) C;
       (len, C2) \<leftarrow> encode_call L i proc xargs C1;
       (case len of
          None \<Rightarrow> Some (ret RPC_CANTENCODEARGS C2)
        | Some outlen \<Rightarrow> do {
            (err, C3) \<leftarrow> send_message i outlen block C2;
            Some (case err of
               Some e \<Rightarrow> ret_errno RPC_CANTSEND e C3
             | None \<Rightarrow> ret RPC_TIMEDOUT (upd_mcu (\<lambda>cu. cu\<lparr>mcu_numfreescu := mcu_numfreescu cu - 1\<rparr>) (upd_scu i (\<lambda>s. s\<lparr>scu_inuse := True\<rparr>) C3)))
          })
     }"

definition clntaudp_sendsb :: "('au, 'm, 'r) rpclib \<Rightarrow> u32 \<Rightarrow> (XDR \<Rightarrow> (bool \<times> XDR) option) \<Rightarrow> nat \<Rightarrow> nat \<Rightarrow> nat \<Rightarrow> u8 list \<Rightarrow>
    ('au, 'r) rclient \<Rightarrow> (clnt_stat \<times> ('au, 'r) rclient) option" where
  "clntaudp_sendsb L proc xargs xres resp userdata block C =
     (let cu = cl_mcu C in
      if mcu_numfreescu cu = 0 then Some (ret RPC_CANTENCODEARGS C)
      else case free_scu 0 (take (unat (mcu_numscu cu)) (mcu_scu cu)) of
        None \<Rightarrow> Some (ret RPC_CANTENCODEARGS C)
      | Some i \<Rightarrow>
          if mcu_numfreescu cu = mcu_numscu cu then
            sendsb_slot L i proc xargs resp userdata block (upd_mcu (\<lambda>cu. cu\<lparr>mcu_xresults := xres\<rparr>) C)
          else if mcu_xresults cu \<noteq> xres then Some (ret RPC_CANTDECODEARGS C)
          else sendsb_slot L i proc xargs resp userdata block C)"

definition clntaudp_send :: "('au, 'm, 'r) rpclib \<Rightarrow> u32 \<Rightarrow> (XDR \<Rightarrow> (bool \<times> XDR) option) \<Rightarrow> nat \<Rightarrow> nat \<Rightarrow> nat \<Rightarrow>
    ('au, 'r) rclient \<Rightarrow> (clnt_stat \<times> ('au, 'r) rclient) option" where
  "clntaudp_send L proc xargs xres resp userdata C = clntaudp_sendsb L proc xargs xres resp userdata [] C"

text \<open>The user is asked for more time.\<close>

definition ask_timeout :: "('au, 'r) rclient \<Rightarrow> bool \<times> ('au, 'r) rclient" where
  "ask_timeout C =
     (if mcu_timeout_cb (cl_mcu C) then (net_cb (w_net C) (net_cbn (w_net C)), C\<lparr>w_net := (w_net C)\<lparr>net_cbn := Suc (net_cbn (w_net C))\<rparr>\<rparr>)
      else (False, C))"

text \<open>A timeout: the slots from \<open>i\<close> on are looked at, up to the one whose message is sent again.\<close>

fun timeout_scan :: "timeval \<Rightarrow> nat \<Rightarrow> nat \<Rightarrow> ('au, 'r) rclient \<Rightarrow> nat option \<times> ('au, 'r) rclient" where
  "timeout_scan timeout i 0 C = (None, C)"
| "timeout_scan timeout i (Suc k) C =
     (if scu_inuse (scu_at C i) then
        let C1 = upd_scu i (\<lambda>s. s\<lparr>scu_time_waited := add_timeval (scu_time_waited s) (mcu_wait (cl_mcu C))\<rparr>) C in
        if less_timeval (scu_time_waited (scu_at C1 i)) timeout then (Some i, C1)
        else let (more, C2) = ask_timeout C1 in
          if more then (Some i, C2) else timeout_scan timeout (Suc i) k C2
      else timeout_scan timeout (Suc i) k C)"

text \<open>The slot that waits for a reply with the transaction \<open>xid\<close>.\<close>

fun match_scu :: "u32 \<Rightarrow> nat \<Rightarrow> scu_data list \<Rightarrow> nat option" where
  "match_scu xid i [] = None"
| "match_scu xid i (s # ss) =
     (if scu_inuse s \<and> xid = get32 (take 4 (x_buf (scu_outxdrs s))) then Some i else match_scu xid (Suc i) ss)"

text \<open>One round of the loop of \<open>clntaudp_wait\<close>; with \<open>Some i\<close> it starts at \<open>send_again\<close> with the slot \<open>i\<close>.\<close>

type_synonym ('au, 'r) wait_st = "nat option \<times> ('au, 'r) rclient"

definition wait_sends :: "nat \<Rightarrow> ('au, 'r) rclient \<Rightarrow> ((clnt_stat \<times> ('au, 'r) rclient) + ('au, 'r) wait_st) option" where
  "wait_sends i C =
     map_option (\<lambda>(err, C1). case err of Some e \<Rightarrow> Inl (ret_errno RPC_CANTSEND e C1) | None \<Rightarrow> Inr (None, C1))
       (send_message i (x_private (scu_outxdrs (scu_at C i))) [] C)"

definition wait_replied :: "('au, 'm, 'r) rpclib \<Rightarrow> nat \<Rightarrow> u8 list \<Rightarrow> ('au, 'r) rclient \<Rightarrow>
    ((clnt_stat \<times> ('au, 'r) rclient) + ('au, 'r) wait_st) option" where
  "wait_replied L i inbuf C1 =
     (let scu = scu_at C1 i in
      map_option (\<lambda>(fin, C2).
        Inl (if fin then
            let C3 = upd_mcu (\<lambda>cu. cu\<lparr>mcu_numfreescu := mcu_numfreescu cu + 1\<rparr>) (upd_scu i (\<lambda>s. s\<lparr>scu_inuse := False\<rparr>) C2) in
            (re_status (mcu_error (cl_mcu C3)), C3)
          else ret RPC_CANTENCODEARGS (upd_scu i (\<lambda>s. s\<lparr>scu_nrefreshes := scu_nrefreshes s - 1\<rparr>) C2)))
        (rpc_reply L i (mcu_xresults (cl_mcu C1)) (scu_resultsp scu) inbuf (scu_nrefreshes scu)
           (C1\<lparr>cla_resp := scu_resultsp scu, cla_userdata := scu_userdata scu\<rparr>)))"

definition wait_selects :: "('au, 'm, 'r) rpclib \<Rightarrow> timeval \<Rightarrow> ('au, 'r) rclient \<Rightarrow>
    ((clnt_stat \<times> ('au, 'r) rclient) + ('au, 'r) wait_st) option" where
  "wait_selects L timeout C =
     (let C1 = snd (next_event C) in
      case fst (next_event C) of
        Silent \<Rightarrow>
          Some (case timeout_scan timeout 0 (unat (mcu_numscu (cl_mcu C1))) C1 of
             (Some i, C2) \<Rightarrow> Inr (Some i, C2)
           | (None, C2) \<Rightarrow> Inl (ret RPC_TIMEDOUT C2))
      | SelectError e \<Rightarrow> Some (Inl (ret_errno RPC_CANTRECV e C1))
      | WouldBlock \<Rightarrow> Some (Inr (None, C1))
      | RecvError e \<Rightarrow> Some (Inl (ret_errno RPC_CANTRECV e C1))
      | Datagram msg \<Rightarrow>
          let inbuf = take (unat (mcu_recvsz (cl_mcu C1))) msg in
          if length inbuf < 4 then Some (Inr (None, C1))
          else case match_scu (get32 (take 4 inbuf)) 0 (take (unat (mcu_numscu (cl_mcu C1))) (mcu_scu (cl_mcu C1))) of
            None \<Rightarrow> Some (Inr (None, C1))
          | Some i \<Rightarrow> wait_replied L i inbuf C1)"

fun wait_step :: "('au, 'm, 'r) rpclib \<Rightarrow> timeval \<Rightarrow> ('au, 'r) wait_st \<Rightarrow> ((clnt_stat \<times> ('au, 'r) rclient) + ('au, 'r) wait_st) option" where
  "wait_step L timeout (Some i, C) = wait_sends i C"
| "wait_step L timeout (None, C) = wait_selects L timeout C"

definition clntaudp_wait :: "('au, 'm, 'r) rpclib \<Rightarrow> timeval \<Rightarrow> ('au, 'r) rclient \<Rightarrow> (clnt_stat \<times> ('au, 'r) rclient) option" where
  "clntaudp_wait L utimeout C = run_loop (wait_step L (rpc_timeout C utimeout)) (None, C)"

subsection \<open>The other operations\<close>

definition clntaudp_geterr :: "('au, 'r) rclient \<Rightarrow> rpc_err" where
  "clntaudp_geterr C = mcu_error (cl_mcu C)"

definition clntaudp_freeres :: "('au, 'r) rclient \<Rightarrow> nat \<Rightarrow> nat \<Rightarrow> bool" where
  "clntaudp_freeres C xres resp = False"

fun abort_scus :: "nat \<Rightarrow> nat \<Rightarrow> ('au, 'r) rclient \<Rightarrow> ('au, 'r) rclient" where
  "abort_scus i 0 C = C"
| "abort_scus i (Suc k) C =
     abort_scus (Suc i) k
       (if scu_inuse (scu_at C i) then
          upd_scu i (\<lambda>s. s\<lparr>scu_inuse := False\<rparr>) (upd_mcu (\<lambda>cu. cu\<lparr>mcu_numfreescu := mcu_numfreescu cu + 1\<rparr>) C)
        else C)"

definition clntaudp_abort :: "('au, 'r) rclient \<Rightarrow> ('au, 'r) rclient" where
  "clntaudp_abort C = abort_scus 0 (unat (mcu_numscu (cl_mcu C))) C"

datatype ctl_info = Info_timeval timeval | Info_addr sockaddr_in

text \<open>The object behind \<open>info\<close> has the type that the request asks for.\<close>

definition clntaudp_control :: "u32 \<Rightarrow> ctl_info \<Rightarrow> ('au, 'r) rclient \<Rightarrow> (bool \<times> ctl_info \<times> ('au, 'r) rclient) option" where
  "clntaudp_control request info C =
     (if request = 1 then
        (case info of Info_timeval tv \<Rightarrow> Some (True, info, upd_mcu (\<lambda>cu. cu\<lparr>mcu_total := tv\<rparr>) C) | _ \<Rightarrow> None)
      else if request = 2 then Some (True, Info_timeval (mcu_total (cl_mcu C)), C)
      else if request = 4 then
        (case info of Info_timeval tv \<Rightarrow> Some (True, info, upd_mcu (\<lambda>cu. cu\<lparr>mcu_wait := tv\<rparr>) C) | _ \<Rightarrow> None)
      else if request = 5 then Some (True, Info_timeval (mcu_wait (cl_mcu C)), C)
      else if request = 3 then Some (True, Info_addr (mcu_raddr (cl_mcu C)), C)
      else Some (False, info, C))"

subsection \<open>Creation\<close>

abbreviation (input) MAXASYNC :: u32 where "MAXASYNC \<equiv> 5"
abbreviation (input) UDPMSGSIZE :: u32 where "UDPMSGSIZE \<equiv> 8800"
abbreviation (input) AF_INET :: int where "AF_INET \<equiv> 2"

record createerr =
  cf_stat :: clnt_stat
  cf_errno :: int

text \<open>What the system answers: which of the three allocations succeed, the port that the binder knows (0 for none, with its error), the socket
  (or an error), the process, the time and the resolved name.\<close>

record make_env =
  mk_cl :: bool
  mk_cu :: bool
  mk_outbuf :: bool
  mk_port :: "16 word"
  mk_pmap :: createerr
  mk_socket :: "int + int"
  mk_task :: u32
  mk_sec :: u32
  mk_usec :: u32
  mk_host :: "(int \<times> u32) option"
  mk_errno :: int

definition round4 :: "u32 \<Rightarrow> u32" where
  "round4 n = (n + 3) div 4 * 4"

definition zero_scu :: scu_data where
  "zero_scu = \<lparr>scu_inuse = False, scu_outxdrs = enc_stream 0, scu_xdrpos = 0, scu_resultsp = 0, scu_userdata = 0,
     scu_time_waited = zero_timeval, scu_nrefreshes = 0\<rparr>"

text \<open>The message header in the buffer of each slot.\<close>

fun make_scus :: "('au, 'm, 'r) rpclib \<Rightarrow> u32 \<Rightarrow> u32 \<Rightarrow> u32 \<Rightarrow> u32 \<Rightarrow> nat \<Rightarrow> scu_data list option option" where
  "make_scus L xid program version sendsz 0 = Some (Some [])"
| "make_scus L xid program version sendsz (Suc n) =
     do {
       (ok, X) \<leftarrow> rl_callhdr L xid program version (enc_stream (unat sendsz));
       (if \<not> ok then Some None
        else map_option (map_option (\<lambda>ss. zero_scu\<lparr>scu_outxdrs := X, scu_xdrpos := x_private X\<rparr> # ss)) (make_scus L xid program version sendsz n))
     }"

definition new_client :: "('au, 'm, 'r) rpclib \<Rightarrow> rnet \<Rightarrow> (nat \<Rightarrow> 'r) \<Rightarrow> sockaddr_in \<Rightarrow> timeval \<Rightarrow> bool \<Rightarrow> u32 \<Rightarrow> u32 \<Rightarrow> u32 \<Rightarrow> u32 \<Rightarrow> scu_data list \<Rightarrow>
    ('au, 'r) rclient" where
  "new_client L net res raddr wt closeit sendsz recvsz numasync xid scus =
     \<lparr>cl_auth = rl_authnone L, cla_resp = 0, cla_userdata = 0,
      cl_mcu = \<lparr>mcu_numscu = numasync, mcu_numfreescu = numasync, mcu_xid = xid, mcu_scu = scus @ replicate (5 - unat numasync) zero_scu,
        mcu_timeout_cb = False, mcu_closeit = closeit, mcu_raddr = raddr, mcu_wait = wt, mcu_total = \<lparr>tv_sec = -1, tv_usec = -1\<rparr>,
        mcu_error = \<lparr>re_status = RPC_SUCCESS, re_ru = 0\<rparr>, mcu_xresults = 0, mcu_sendsz = sendsz, mcu_recvsz = recvsz\<rparr>,
      w_net = net, w_res = res\<rparr>"

text \<open>\<open>None\<close>: the clean-up at \<open>fooy\<close> looks at the pointer \<open>cu\<close> before it has a value.\<close>

definition clntaudp_bufcreate :: "('au, 'm, 'r) rpclib \<Rightarrow> make_env \<Rightarrow> rnet \<Rightarrow> (nat \<Rightarrow> 'r) \<Rightarrow> sockaddr_in \<Rightarrow> u32 \<Rightarrow> u32 \<Rightarrow> timeval \<Rightarrow> int \<Rightarrow> u32 \<Rightarrow> u32 \<Rightarrow> u32 \<Rightarrow>
    createerr \<Rightarrow> (('au, 'r) rclient option \<times> sockaddr_in \<times> int \<times> createerr) option" where
  "clntaudp_bufcreate L e net res raddr program version wt sockp sendsz recvsz numasync ce =
     (let syserr = \<lparr>cf_stat = RPC_SYSTEMERROR, cf_errno = mk_errno e\<rparr> in
      if numasync > MAXASYNC then None
      else if \<not> mk_cl e then None
      else
        let sendsz = round4 sendsz; recvsz = round4 recvsz in
        if \<not> mk_cu e then Some (None, raddr, sockp, syserr)
        else if \<not> mk_outbuf e then Some (None, raddr, sockp, syserr)
        else if sin_port raddr = 0 \<and> mk_port e = 0 then Some (None, raddr, sockp, mk_pmap e)
        else
          let raddr1 = (if sin_port raddr = 0 then raddr\<lparr>sin_port := mk_port e\<rparr> else raddr);
              xid = mk_task e XOR mk_sec e XOR mk_usec e in
          Option.bind (make_scus L xid program version sendsz (unat numasync)) (\<lambda>r.
            case r of
              None \<Rightarrow> Some (None, raddr1, sockp, ce)
            | Some scus \<Rightarrow>
                let C = new_client L net res raddr1 wt (sockp < 0) sendsz recvsz numasync xid scus in
                if sockp < 0 then
                  (case mk_socket e of
                     Inl err \<Rightarrow> Some (None, raddr1, -1, \<lparr>cf_stat = RPC_SYSTEMERROR, cf_errno = err\<rparr>)
                   | Inr sock \<Rightarrow> Some (Some C, raddr1, sock, ce))
                else Some (Some C, raddr1, sockp, ce)))"

definition clntaudp_create :: "('au, 'm, 'r) rpclib \<Rightarrow> make_env \<Rightarrow> rnet \<Rightarrow> (nat \<Rightarrow> 'r) \<Rightarrow> sockaddr_in \<Rightarrow> u32 \<Rightarrow> u32 \<Rightarrow> timeval \<Rightarrow> int \<Rightarrow> u32 \<Rightarrow>
    createerr \<Rightarrow> (('au, 'r) rclient option \<times> sockaddr_in \<times> int \<times> createerr) option" where
  "clntaudp_create L e net res raddr program version wt sockp numasync ce =
     clntaudp_bufcreate L e net res raddr program version wt sockp UDPMSGSIZE UDPMSGSIZE numasync ce"

definition clnt_acreate :: "('au, 'm, 'r) rpclib \<Rightarrow> make_env \<Rightarrow> rnet \<Rightarrow> (nat \<Rightarrow> 'r) \<Rightarrow> u32 \<Rightarrow> u32 \<Rightarrow> u32 \<Rightarrow> createerr \<Rightarrow>
    (('au, 'r) rclient option \<times> createerr) option" where
  "clnt_acreate L e net res prog vers numasync ce =
     (case mk_host e of
        None \<Rightarrow> Some (None, ce\<lparr>cf_stat := RPC_UNKNOWNHOST\<rparr>)
      | Some (addrtype, addr) \<Rightarrow>
          if addrtype \<noteq> AF_INET then Some (None, \<lparr>cf_stat = RPC_SYSTEMERROR, cf_errno = 47\<rparr>)
          else do {
            (clnt, _, _, ce1) \<leftarrow> clntaudp_create L e net res \<lparr>sin_family = addrtype, sin_port = 0, sin_addr = addr\<rparr> prog vers
               \<lparr>tv_sec = 5, tv_usec = 0\<rparr> (-1) numasync ce;
            (case clnt of
               None \<Rightarrow> Some (None, ce1)
             | Some C \<Rightarrow> do {
                 (_, _, C1) \<leftarrow> clntaudp_control 1 (Info_timeval \<lparr>tv_sec = 25, tv_usec = 0\<rparr>) C;
                 Some (Some C1, ce1)
               })
          })"

text \<open>What is released: the socket, if it is the client's own, the buffers, and the two structures.\<close>

datatype released = Rel_socket | Rel_outbuf u32 | Rel_mcu u32 | Rel_client

definition clntaudp_destroy :: "('au, 'r) rclient \<Rightarrow> released list" where
  "clntaudp_destroy C =
     (let cu = cl_mcu C in
      (if mcu_closeit cu then [Rel_socket] else []) @ [Rel_outbuf (mcu_sendsz cu * mcu_numscu cu), Rel_mcu (mcu_recvsz cu), Rel_client])"

end
