(* ===== verification/RpcStubs.thy ===== *)
theory RpcStubs
  imports Rpc XdrDir
begin

text \<open>
  The client stubs of the NFS protocol (src/src/ch_nfs_prot_clnt.c) on top of the asynchronous client. A result is an
  object of one of the result types, in the store of the client: the static variable of a stub has an address
  of its own, the file-level \<open>clnt_res\<close> of the asynchronous writes is \<open>WRITE_RES\<close>, and the callers'
  objects have the other addresses. A stub answers the address of the result, or \<open>None\<close> for NULL.
\<close>

subsection \<open>Results\<close>

datatype nfs_result =
    is_void: R_void
  | is_attrstat: R_attrstat (r_attrstat: attrstat)
  | is_diropres: R_diropres (r_diropres: diropres)
  | is_readlinkres: R_readlinkres (r_readlinkres: readlinkres)
  | is_readres: R_readres (r_readres: readres)
  | is_nfsstat: R_nfsstat (r_nfsstat: u32)
  | is_readdirres: R_readdirres (r_readdirres: readdirres)
  | is_statfsres: R_statfsres (r_statfsres: statfsres)

text \<open>A routine applied to an object of the type it is for.\<close>

definition on_result :: "(nfs_result \<Rightarrow> bool) \<Rightarrow> (nfs_result \<Rightarrow> 'a) \<Rightarrow> ('a \<Rightarrow> nfs_result) \<Rightarrow> 'a xproc \<Rightarrow> nfs_result xproc" where
  "on_result isr get mk p X r = (if isr r then map_option (\<lambda>(ok, a, X1). (ok, mk a, X1)) (p X (get r)) else None)"

abbreviation (input) XDR_VOID :: nat where "XDR_VOID \<equiv> 0"
abbreviation (input) XDR_ATTRSTAT :: nat where "XDR_ATTRSTAT \<equiv> 1"
abbreviation (input) XDR_DIROPRES :: nat where "XDR_DIROPRES \<equiv> 2"
abbreviation (input) XDR_READLINKRES :: nat where "XDR_READLINKRES \<equiv> 3"
abbreviation (input) XDR_READRES :: nat where "XDR_READRES \<equiv> 4"
abbreviation (input) XDR_NFSSTAT :: nat where "XDR_NFSSTAT \<equiv> 5"
abbreviation (input) XDR_READDIRRES :: nat where "XDR_READDIRRES \<equiv> 6"
abbreviation (input) XDR_STATFSRES :: nat where "XDR_STATFSRES \<equiv> 7"

text \<open>The routines for results by their numbers; \<open>xdr_void\<close> does nothing.\<close>

definition result_proc :: "nat \<Rightarrow> nfs_result xproc" where
  "result_proc k =
     (if k = XDR_ATTRSTAT then on_result is_attrstat r_attrstat R_attrstat xdr_attrstat
      else if k = XDR_DIROPRES then on_result is_diropres r_diropres R_diropres xdr_diropres
      else if k = XDR_READLINKRES then on_result is_readlinkres r_readlinkres R_readlinkres xdr_readlinkres
      else if k = XDR_READRES then on_result is_readres r_readres R_readres xdr_readres
      else if k = XDR_NFSSTAT then on_result is_nfsstat r_nfsstat R_nfsstat xdr_nfsstat
      else if k = XDR_READDIRRES then on_result is_readdirres r_readdirres R_readdirres xdr_readdirres
      else if k = XDR_STATFSRES then on_result is_statfsres r_statfsres R_statfsres xdr_statfsres
      else (\<lambda>X r. Some (True, r, X)))"

text \<open>The objects that \<open>memset\<close> clears.\<close>

definition zero_fattr :: xfattr where "zero_fattr = fattr_of_longs (replicate 17 0)"
definition zero_attrstat :: attrstat where "zero_attrstat = \<lparr>as_status = 0, as_attributes = zero_fattr\<rparr>"
definition zero_diropres :: diropres where "zero_diropres = \<lparr>dr_status = 0, dr_diropres = \<lparr>dk_file = replicate 32 0, dk_attributes = zero_fattr\<rparr>\<rparr>"
definition zero_readlinkres :: readlinkres where "zero_readlinkres = \<lparr>rl_status = 0, rl_data = None\<rparr>"
definition zero_readres :: readres where
  "zero_readres = \<lparr>rr_status = 0, rr_reply = \<lparr>ro_attributes = zero_fattr, ro_data = \<lparr>data_len = 0, data_val = None\<rparr>\<rparr>\<rparr>"
definition zero_readdirres :: readdirres where "zero_readdirres = \<lparr>dd_status = 0, dd_reply = \<lparr>dl_entries = None, dl_eof = False\<rparr>\<rparr>"
definition zero_statfsres :: statfsres where
  "zero_statfsres = \<lparr>st_status = 0, st_reply = \<lparr>xt_tsize = 0, xt_bsize = 0, xt_blocks = 0, xt_bfree = 0, xt_bavail = 0\<rparr>\<rparr>"

text \<open>\<open>clnt_res.readres_u.reply.data.data_val = buf\<close>\<close>

definition read_into :: "u8 list \<Rightarrow> readres" where
  "read_into buf = zero_readres\<lparr>rr_reply := (rr_reply zero_readres)\<lparr>ro_data := \<lparr>data_len = 0, data_val = Some buf\<rparr>\<rparr>\<rparr>"

subsection \<open>Calls\<close>

text \<open>The user's answers to the requester of \<open>RPCTimeoutReq\<close>.\<close>

record 'au nworld =
  nw_clnt :: "('au, nfs_result) rclient"
  nw_ask :: "nat \<Rightarrow> bool"
  nw_asked :: nat

definition TIMEOUT :: timeval where "TIMEOUT = \<lparr>tv_sec = 25, tv_usec = 0\<rparr>"

definition call_round :: "('au, 'm, nfs_result) rpclib \<Rightarrow> u32 \<Rightarrow> (XDR \<Rightarrow> (bool \<times> XDR) option) \<Rightarrow> nat \<Rightarrow> nat \<Rightarrow> timeval \<Rightarrow>
    'au nworld \<Rightarrow> ((clnt_stat \<times> 'au nworld) + 'au nworld) option" where
  "call_round L proc xargs xres resp timeout W =
     map_option (\<lambda>(val, C1).
       let W1 = W\<lparr>nw_clnt := C1\<rparr>; W2 = W1\<lparr>nw_asked := Suc (nw_asked W)\<rparr> in
       if val = RPC_SUCCESS then Inl (val, W1)
       else if re_status (clntaudp_geterr C1) \<noteq> RPC_TIMEDOUT then Inl (val, W1)
       else if \<not> nw_ask W (nw_asked W) then Inl (val, W2)
       else Inr W2)
     (clntaudp_call L proc xargs xres resp timeout (nw_clnt W))"

definition ch_clnt_call :: "('au, 'm, nfs_result) rpclib \<Rightarrow> u32 \<Rightarrow> (XDR \<Rightarrow> (bool \<times> XDR) option) \<Rightarrow> nat \<Rightarrow> nat \<Rightarrow> timeval \<Rightarrow>
    'au nworld \<Rightarrow> (clnt_stat \<times> 'au nworld) option" where
  "ch_clnt_call L proc xargs xres resp timeout = run_loop (call_round L proc xargs xres resp timeout)"

definition set_result :: "nat \<Rightarrow> nfs_result \<Rightarrow> 'au nworld \<Rightarrow> 'au nworld" where
  "set_result resp r W = W\<lparr>nw_clnt := (nw_clnt W)\<lparr>w_res := (w_res (nw_clnt W))(resp := r)\<rparr>\<rparr>"

text \<open>The body that the stubs share: the result is initialised, the call is made, and its address is the answer if it succeeds.
  The procedures of the library are those of the protocol.\<close>

abbreviation nfs_lib :: "('au, 'm, nfs_result) rpclib \<Rightarrow> ('au, 'm, nfs_result) rpclib" where
  "nfs_lib L \<equiv> L\<lparr>rl_proc := result_proc\<rparr>"

definition stub :: "('au, 'm, nfs_result) rpclib \<Rightarrow> u32 \<Rightarrow> (XDR \<Rightarrow> (bool \<times> XDR) option) \<Rightarrow> nat \<Rightarrow> nat \<Rightarrow> nfs_result \<Rightarrow>
    'au nworld \<Rightarrow> (nat option \<times> 'au nworld) option" where
  "stub L proc xargs xres resp init W =
     map_option (\<lambda>(st, W1). (if st \<noteq> RPC_SUCCESS then None else Some resp, W1))
       (ch_clnt_call (nfs_lib L) proc xargs xres resp TIMEOUT (set_result resp init W))"

text \<open>The static results.\<close>

abbreviation (input) RES_GETATTR :: nat where "RES_GETATTR \<equiv> 1"
abbreviation (input) RES_SETATTR :: nat where "RES_SETATTR \<equiv> 2"
abbreviation (input) RES_ROOT :: nat where "RES_ROOT \<equiv> 3"
abbreviation (input) RES_LOOKUP :: nat where "RES_LOOKUP \<equiv> 4"
abbreviation (input) RES_READLINK :: nat where "RES_READLINK \<equiv> 5"
abbreviation (input) RES_READ :: nat where "RES_READ \<equiv> 6"
abbreviation (input) RES_WRITECACHE :: nat where "RES_WRITECACHE \<equiv> 7"
abbreviation (input) RES_WRITE :: nat where "RES_WRITE \<equiv> 8"
abbreviation (input) RES_CREATE :: nat where "RES_CREATE \<equiv> 9"
abbreviation (input) RES_REMOVE :: nat where "RES_REMOVE \<equiv> 10"
abbreviation (input) RES_RENAME :: nat where "RES_RENAME \<equiv> 11"
abbreviation (input) RES_LINK :: nat where "RES_LINK \<equiv> 12"
abbreviation (input) RES_SYMLINK :: nat where "RES_SYMLINK \<equiv> 13"
abbreviation (input) RES_MKDIR :: nat where "RES_MKDIR \<equiv> 14"
abbreviation (input) RES_RMDIR :: nat where "RES_RMDIR \<equiv> 15"
abbreviation (input) RES_READDIR :: nat where "RES_READDIR \<equiv> 16"
abbreviation (input) RES_STATFS :: nat where "RES_STATFS \<equiv> 17"
abbreviation (input) RES_READ_BUF :: nat where "RES_READ_BUF \<equiv> 18"
abbreviation (input) WRITE_RES :: nat where "WRITE_RES \<equiv> 19"

subsection \<open>Stubs\<close>

definition nfsproc_getattr_2 :: "u8 list \<Rightarrow> ('au, 'm, nfs_result) rpclib \<Rightarrow> 'au nworld \<Rightarrow> (nat option \<times> 'au nworld) option" where
  "nfsproc_getattr_2 argp L W = stub L 1 (enc_args xdr_nfs_fh argp) XDR_ATTRSTAT RES_GETATTR (R_attrstat zero_attrstat) W"

definition nfsproc_setattr_2 :: "sattrargs \<Rightarrow> ('au, 'm, nfs_result) rpclib \<Rightarrow> 'au nworld \<Rightarrow> (nat option \<times> 'au nworld) option" where
  "nfsproc_setattr_2 argp L W = stub L 2 (enc_args xdr_sattrargs argp) XDR_ATTRSTAT RES_SETATTR (R_attrstat zero_attrstat) W"

definition nfsproc_root_2 :: "('au, 'm, nfs_result) rpclib \<Rightarrow> 'au nworld \<Rightarrow> (nat option \<times> 'au nworld) option" where
  "nfsproc_root_2 L W = stub L 3 (\<lambda>X. Some (True, X)) XDR_VOID RES_ROOT R_void W"

definition nfsproc_lookup_2 :: "diropargs \<Rightarrow> ('au, 'm, nfs_result) rpclib \<Rightarrow> 'au nworld \<Rightarrow> (nat option \<times> 'au nworld) option" where
  "nfsproc_lookup_2 argp L W = stub L 4 (enc_args xdr_diropargs argp) XDR_DIROPRES RES_LOOKUP (R_diropres zero_diropres) W"

definition nfsproc_readlink_2 :: "u8 list \<Rightarrow> ('au, 'm, nfs_result) rpclib \<Rightarrow> 'au nworld \<Rightarrow> (nat option \<times> 'au nworld) option" where
  "nfsproc_readlink_2 argp L W = stub L 5 (enc_args xdr_nfs_fh argp) XDR_READLINKRES RES_READLINK (R_readlinkres zero_readlinkres) W"

text \<open>The static \<open>buf\<close> is the storage that the result of the last call points to.\<close>

definition nfsproc_read_2 :: "readargs \<Rightarrow> ('au, 'm, nfs_result) rpclib \<Rightarrow> 'au nworld \<Rightarrow> (nat option \<times> 'au nworld) option" where
  "nfsproc_read_2 argp L W =
     (let buf = (case w_res (nw_clnt W) RES_READ of
          R_readres r \<Rightarrow> (case data_val (ro_data (rr_reply r)) of Some bs \<Rightarrow> bs | None \<Rightarrow> replicate 8192 0)
        | _ \<Rightarrow> replicate 8192 0) in
      stub L 6 (enc_args xdr_readargs argp) XDR_READRES RES_READ (R_readres (read_into buf)) W)"

definition nfsproc_read_buf :: "readargs \<Rightarrow> u8 list \<Rightarrow> ('au, 'm, nfs_result) rpclib \<Rightarrow> 'au nworld \<Rightarrow> (nat option \<times> 'au nworld) option" where
  "nfsproc_read_buf argp buf L W =
     stub L 6 (enc_args xdr_readargs argp) XDR_READRES RES_READ_BUF (R_readres (read_into buf)) W"

definition nfsproc_send_read_buf :: "readargs \<Rightarrow> nat \<Rightarrow> u8 list \<Rightarrow> nat \<Rightarrow> ('au, 'm, nfs_result) rpclib \<Rightarrow> 'au nworld \<Rightarrow> (bool \<times> 'au nworld) option" where
  "nfsproc_send_read_buf argp clnt_res buf userdata L W =
     (let W0 = set_result clnt_res (R_readres (read_into buf)) W in
      map_option (\<lambda>(st, C1). (st = RPC_TIMEDOUT, W0\<lparr>nw_clnt := C1\<rparr>))
        (clntaudp_send (nfs_lib L) 6 (enc_args xdr_readargs argp) XDR_READRES clnt_res userdata (nw_clnt W0)))"

definition nfsproc_wait_read_buf :: "('au, 'm, nfs_result) rpclib \<Rightarrow> 'au nworld \<Rightarrow> ((nat \<times> nat) option \<times> 'au nworld) option" where
  "nfsproc_wait_read_buf L W =
     map_option (\<lambda>(st, C1). (if st \<noteq> RPC_SUCCESS then None else Some (cla_resp C1, cla_userdata C1), W\<lparr>nw_clnt := C1\<rparr>))
       (clntaudp_wait (nfs_lib L) TIMEOUT (nw_clnt W))"

definition nfsproc_writecache_2 :: "('au, 'm, nfs_result) rpclib \<Rightarrow> 'au nworld \<Rightarrow> (nat option \<times> 'au nworld) option" where
  "nfsproc_writecache_2 L W = stub L 7 (\<lambda>X. Some (True, X)) XDR_VOID RES_WRITECACHE R_void W"

definition nfsproc_write_2 :: "writeargs \<Rightarrow> ('au, 'm, nfs_result) rpclib \<Rightarrow> 'au nworld \<Rightarrow> (nat option \<times> 'au nworld) option" where
  "nfsproc_write_2 argp L W = stub L 8 (enc_args xdr_writeargs argp) XDR_ATTRSTAT RES_WRITE (R_attrstat zero_attrstat) W"

subsection \<open>Asynchronous writes\<close>

definition write_done :: "(clnt_stat \<times> ('au, nfs_result) rclient) \<Rightarrow> 'au nworld \<Rightarrow> nat option \<times> 'au nworld" where
  "write_done r W = (case r of (st, C1) \<Rightarrow> (if st \<noteq> RPC_SUCCESS then None else Some WRITE_RES, W\<lparr>nw_clnt := C1\<rparr>))"

definition nfsproc_wait_write_2 :: "('au, 'm, nfs_result) rpclib \<Rightarrow> 'au nworld \<Rightarrow> (nat option \<times> 'au nworld) option" where
  "nfsproc_wait_write_2 L W =
     (let W0 = set_result WRITE_RES (R_attrstat zero_attrstat) W in
      map_option (\<lambda>r. write_done r W0) (clntaudp_wait (nfs_lib L) TIMEOUT (nw_clnt W0)))"

text \<open>The second component is \<open>*error_flag\<close>, which stays as it was on success.\<close>

definition nfsproc_check_write_2 :: "bool \<Rightarrow> ('au, 'm, nfs_result) rpclib \<Rightarrow> 'au nworld \<Rightarrow> (nat option \<times> bool \<times> 'au nworld) option" where
  "nfsproc_check_write_2 error_flag L W =
     (let W0 = set_result WRITE_RES (R_attrstat zero_attrstat) W in
      map_option (\<lambda>r. (fst (write_done r W0), if fst r \<noteq> RPC_SUCCESS then fst r \<noteq> RPC_TIMEDOUT else error_flag, snd (write_done r W0)))
        (clntaudp_wait (nfs_lib L) zero_timeval (nw_clnt W0)))"

definition nfsproc_send_writesb_2 :: "writeargs \<Rightarrow> ('au, 'm, nfs_result) rpclib \<Rightarrow> 'au nworld \<Rightarrow> (bool \<times> 'au nworld) option" where
  "nfsproc_send_writesb_2 argp L W =
     do {
       let W0 = set_result WRITE_RES (R_attrstat zero_attrstat) W;
       block \<leftarrow> (case data_val (wa_data argp) of None \<Rightarrow> Some [] | Some bs \<Rightarrow> peek 0 (unat (data_len (wa_data argp))) bs);
       (st, C1) \<leftarrow> clntaudp_sendsb (nfs_lib L) 8 (enc_args xdr_writeargssb argp) XDR_ATTRSTAT WRITE_RES 0 block (nw_clnt W0);
       Some (st = RPC_TIMEDOUT, W0\<lparr>nw_clnt := C1\<rparr>)
     }"

definition nfsproc_send_write_2 :: "writeargs \<Rightarrow> ('au, 'm, nfs_result) rpclib \<Rightarrow> 'au nworld \<Rightarrow> (bool \<times> 'au nworld) option" where
  "nfsproc_send_write_2 argp L W =
     (let W0 = set_result WRITE_RES (R_attrstat zero_attrstat) W in
      map_option (\<lambda>(st, C1). (st = RPC_TIMEDOUT, W0\<lparr>nw_clnt := C1\<rparr>))
        (clntaudp_send (nfs_lib L) 8 (enc_args xdr_writeargs argp) XDR_ATTRSTAT WRITE_RES 0 (nw_clnt W0)))"

subsection \<open>Names and directories\<close>

definition nfsproc_create_2 :: "createargs \<Rightarrow> ('au, 'm, nfs_result) rpclib \<Rightarrow> 'au nworld \<Rightarrow> (nat option \<times> 'au nworld) option" where
  "nfsproc_create_2 argp L W = stub L 9 (enc_args xdr_createargs argp) XDR_DIROPRES RES_CREATE (R_diropres zero_diropres) W"

definition nfsproc_remove_2 :: "diropargs \<Rightarrow> ('au, 'm, nfs_result) rpclib \<Rightarrow> 'au nworld \<Rightarrow> (nat option \<times> 'au nworld) option" where
  "nfsproc_remove_2 argp L W = stub L 10 (enc_args xdr_diropargs argp) XDR_NFSSTAT RES_REMOVE (R_nfsstat 0) W"

definition nfsproc_rename_2 :: "renameargs \<Rightarrow> ('au, 'm, nfs_result) rpclib \<Rightarrow> 'au nworld \<Rightarrow> (nat option \<times> 'au nworld) option" where
  "nfsproc_rename_2 argp L W = stub L 11 (enc_args xdr_renameargs argp) XDR_NFSSTAT RES_RENAME (R_nfsstat 0) W"

definition nfsproc_link_2 :: "linkargs \<Rightarrow> ('au, 'm, nfs_result) rpclib \<Rightarrow> 'au nworld \<Rightarrow> (nat option \<times> 'au nworld) option" where
  "nfsproc_link_2 argp L W = stub L 12 (enc_args xdr_linkargs argp) XDR_NFSSTAT RES_LINK (R_nfsstat 0) W"

definition nfsproc_symlink_2 :: "symlinkargs \<Rightarrow> ('au, 'm, nfs_result) rpclib \<Rightarrow> 'au nworld \<Rightarrow> (nat option \<times> 'au nworld) option" where
  "nfsproc_symlink_2 argp L W = stub L 13 (enc_args xdr_symlinkargs argp) XDR_NFSSTAT RES_SYMLINK (R_nfsstat 0) W"

definition nfsproc_mkdir_2 :: "createargs \<Rightarrow> ('au, 'm, nfs_result) rpclib \<Rightarrow> 'au nworld \<Rightarrow> (nat option \<times> 'au nworld) option" where
  "nfsproc_mkdir_2 argp L W = stub L 14 (enc_args xdr_createargs argp) XDR_DIROPRES RES_MKDIR (R_diropres zero_diropres) W"

definition nfsproc_rmdir_2 :: "diropargs \<Rightarrow> ('au, 'm, nfs_result) rpclib \<Rightarrow> 'au nworld \<Rightarrow> (nat option \<times> 'au nworld) option" where
  "nfsproc_rmdir_2 argp L W = stub L 15 (enc_args xdr_diropargs argp) XDR_NFSSTAT RES_RMDIR (R_nfsstat 0) W"

text \<open>\<open>xdr_free\<close> of the library applies the routine in the freeing direction.\<close>

definition xdr_free :: "'a xproc \<Rightarrow> 'a \<Rightarrow> 'a option" where
  "xdr_free p v = map_option (\<lambda>(_, v1, _). v1) (p ((enc_stream 0)\<lparr>x_op := XDR_FREE\<rparr>) v)"

definition nfsproc_readdir_2 :: "readdirargs \<Rightarrow> ('au, 'm, nfs_result) rpclib \<Rightarrow> 'au nworld \<Rightarrow> (nat option \<times> 'au nworld) option" where
  "nfsproc_readdir_2 argp L W =
     do {
       r \<leftarrow> (case w_res (nw_clnt W) RES_READDIR of
          R_readdirres r \<Rightarrow> if dl_entries (dd_reply r) \<noteq> None then xdr_free xdr_readdirres r else Some r
        | _ \<Rightarrow> None);
       stub L 16 (enc_args xdr_readdirargs argp) XDR_READDIRRES RES_READDIR (R_readdirres zero_readdirres)
         (set_result RES_READDIR (R_readdirres r) W)
     }"

definition nfsproc_statfs_2 :: "u8 list \<Rightarrow> ('au, 'm, nfs_result) rpclib \<Rightarrow> 'au nworld \<Rightarrow> (nat option \<times> 'au nworld) option" where
  "nfsproc_statfs_2 argp L W = stub L 17 (enc_args xdr_nfs_fh argp) XDR_STATFSRES RES_STATFS (R_statfsres zero_statfsres) W"

end
