(* ===== verification/RpcInv.thy ===== *)
theory RpcInv
  imports Rpc
begin

text \<open>
  The slots of the client: the count of free slots is right after every operation, and a wait ends successfully
  only with the reply to a message that was sent and is still waited for.
\<close>

subsection \<open>Slots\<close>

definition slots_ok :: "('au, 'r) rclient \<Rightarrow> bool" where
  "slots_ok C \<longleftrightarrow> length (mcu_scu (cl_mcu C)) = 5 \<and> unat (mcu_numscu (cl_mcu C)) \<le> 5 \<and> 0 < mcu_numscu (cl_mcu C) \<and>
     unat (mcu_numfreescu (cl_mcu C)) = length (filter (\<lambda>s. \<not> scu_inuse s) (take (unat (mcu_numscu (cl_mcu C))) (mcu_scu (cl_mcu C))))"

text \<open>The part of the state that a reply, a timeout and a new message leave alone.\<close>

definition slot_state :: "('au, 'r) rclient \<Rightarrow> u32 \<times> u32 \<times> bool list" where
  "slot_state C = (mcu_numscu (cl_mcu C), mcu_numfreescu (cl_mcu C), map scu_inuse (mcu_scu (cl_mcu C)))"

lemma slots_ok_state: "slots_ok C \<longleftrightarrow> (case slot_state C of (n, k, us) \<Rightarrow> length us = 5 \<and> unat n \<le> 5 \<and> 0 < n \<and> unat k = length (filter Not (take (unat n) us)))"
  by (simp add: slots_ok_def slot_state_def take_map filter_map comp_def)

lemma slots_ok_cong: "slot_state C' = slot_state C \<Longrightarrow> slots_ok C' = slots_ok C"
  by (simp add: slots_ok_state)

lemma upd_scu_sel [simp]:
  "mcu_numscu (cl_mcu (upd_scu i f C)) = mcu_numscu (cl_mcu C)" "mcu_numfreescu (cl_mcu (upd_scu i f C)) = mcu_numfreescu (cl_mcu C)"
  "mcu_scu (cl_mcu (upd_scu i f C)) = (mcu_scu (cl_mcu C))[i := f (scu_at C i)]" "mcu_xid (cl_mcu (upd_scu i f C)) = mcu_xid (cl_mcu C)"
  "w_net (upd_scu i f C) = w_net C" "w_res (upd_scu i f C) = w_res C" "cl_auth (upd_scu i f C) = cl_auth C"
  "mcu_error (cl_mcu (upd_scu i f C)) = mcu_error (cl_mcu C)" "mcu_wait (cl_mcu (upd_scu i f C)) = mcu_wait (cl_mcu C)"
  "mcu_recvsz (cl_mcu (upd_scu i f C)) = mcu_recvsz (cl_mcu C)" "mcu_xresults (cl_mcu (upd_scu i f C)) = mcu_xresults (cl_mcu C)"
  "mcu_total (cl_mcu (upd_scu i f C)) = mcu_total (cl_mcu C)" "cla_resp (upd_scu i f C) = cla_resp C" "cla_userdata (upd_scu i f C) = cla_userdata C"
  "mcu_timeout_cb (cl_mcu (upd_scu i f C)) = mcu_timeout_cb (cl_mcu C)" "mcu_sendsz (cl_mcu (upd_scu i f C)) = mcu_sendsz (cl_mcu C)"
  by (simp_all add: upd_scu_def)

lemma map_update_same: "f x = f (xs ! i) \<Longrightarrow> map f (xs[i := x]) = map f xs"
  by (cases "i < length xs") (simp_all add: map_update list_update_same_conv list_update_beyond)

lemma slot_state_upd: "(\<And>s. scu_inuse (f s) = scu_inuse s) \<Longrightarrow> slot_state (upd_scu i f C) = slot_state C"
  by (simp add: slot_state_def map_update_same)

lemma ret_sel [simp]:
  "slot_state (snd (ret st C)) = slot_state C" "slot_state (snd (ret_errno st e C)) = slot_state C"
  "fst (ret st C) = st" "fst (ret_errno st e C) = st"
  by (simp_all add: ret_def ret_errno_def slot_state_def)

lemma ret_pair: "ret st C = (st, snd (ret st C))" "ret_errno st e C = (st, snd (ret_errno st e C))"
  by (simp_all add: ret_def ret_errno_def)

lemma ret_eq: "(st, C') = ret e D \<Longrightarrow> st = e \<and> slot_state C' = slot_state D" "ret e D = (st, C') \<Longrightarrow> st = e \<and> slot_state C' = slot_state D"
  "(st, C') = ret_errno e k D \<Longrightarrow> st = e \<and> slot_state C' = slot_state D"
  by (auto simp: ret_def ret_errno_def slot_state_def)

lemma net_sel [simp]: "slot_state (snd (next_event C)) = slot_state C" "slot_state (snd (transmit msg C)) = slot_state C"
  by (simp_all add: next_event_def transmit_def slot_state_def)

lemma encode_call_state: "encode_call L i proc xargs C = Some (len, C') \<Longrightarrow> slot_state C' = slot_state C"
proof -
  have d: "slot_state (upd_mcu (\<lambda>cu. cu\<lparr>mcu_xid := x\<rparr>) (upd_scu i (\<lambda>s. s\<lparr>scu_outxdrs := X\<rparr>) C)) = slot_state C" for x X
    by (simp add: slot_state_def map_update_same)
  assume "encode_call L i proc xargs C = Some (len, C')"
  then obtain x X where "C' = upd_mcu (\<lambda>cu. cu\<lparr>mcu_xid := x\<rparr>) (upd_scu i (\<lambda>s. s\<lparr>scu_outxdrs := X\<rparr>) C)"
    unfolding encode_call_def Let_def by (auto simp: bind_eq_Some_conv split: if_splits)
  then show ?thesis using d by simp
qed

lemma send_message_Some:
  assumes "send_message i n block C = Some (err, C')"
  obtains msg where "peek 0 n (x_buf (scu_outxdrs (scu_at C i))) = Some msg"
    "err = net_snd (w_net C) (length (net_out (w_net C)))" "C' = C\<lparr>w_net := (w_net C)\<lparr>net_out := net_out (w_net C) @ [msg @ block]\<rparr>\<rparr>"
  using assms by (auto simp: send_message_def transmit_def)

lemma send_message_state: "send_message i n block C = Some (err, C') \<Longrightarrow> slot_state C' = slot_state C"
  by (elim send_message_Some) (simp add: slot_state_def)

text \<open>What a reply changes.\<close>

definition replied_form :: "nat \<Rightarrow> nat \<Rightarrow> ('au, 'r) rclient \<Rightarrow> ('au, 'r) rclient \<Rightarrow> bool" where
  "replied_form i resp C C' \<longleftrightarrow> (\<exists>f au err r. C' = upd_scu i f (C\<lparr>w_res := (w_res C)(resp := r), cl_mcu := (cl_mcu C)\<lparr>mcu_error := err\<rparr>, cl_auth := au\<rparr>) \<and>
     (\<forall>s. \<exists>op. f s = s\<lparr>scu_outxdrs := (scu_outxdrs s)\<lparr>x_op := op\<rparr>\<rparr>))"

lemma upd_scu_id: "upd_scu i (\<lambda>s. s) C = C"
  by (simp add: upd_scu_def)

lemma id_op: "\<forall>s :: scu_data. \<exists>op. s = s\<lparr>scu_outxdrs := (scu_outxdrs s)\<lparr>x_op := op\<rparr>\<rparr>"
proof
  fix s :: scu_data
  show "\<exists>op. s = s\<lparr>scu_outxdrs := scu_outxdrs s\<lparr>x_op := op\<rparr>\<rparr>" by (rule exI [of _ "x_op (scu_outxdrs s)"]) simp
qed

lemma rpc_reply_cases:
  assumes run: "rpc_reply L i xres resp bs n C = Some (fin, C')"
  obtains ok msg r where "rl_replymsg L (rl_proc L xres) (dec_stream (net_alloc (w_net C) (net_evn (w_net C))) bs) (w_res C resp) = Some (ok, msg, r)"
    "replied_form i resp C C'" "w_res C' = (w_res C)(resp := r)"
    "re_status (mcu_error (cl_mcu C')) = RPC_SUCCESS \<Longrightarrow> ok \<and> re_status (rl_seterr L msg (mcu_error (cl_mcu C))) = RPC_SUCCESS \<and> fst (rl_validate L (cl_auth C) msg)"
    "\<not> fin \<Longrightarrow> ok \<and> re_status (rl_seterr L msg (mcu_error (cl_mcu C))) \<noteq> RPC_SUCCESS \<and> 0 < n"
proof -
  obtain ok msg r where 1: "rl_replymsg L (rl_proc L xres) (dec_stream (net_alloc (w_net C) (net_evn (w_net C))) bs) (w_res C resp) = Some (ok, msg, r)"
    using run by (cases "rl_replymsg L (rl_proc L xres) (dec_stream (net_alloc (w_net C) (net_evn (w_net C))) bs) (w_res C resp)") (auto simp: rpc_reply_def)
  let ?e = "rl_seterr L msg (mcu_error (cl_mcu C))"
  let ?D = "\<lambda>au err. C\<lparr>w_res := (w_res C)(resp := r), cl_mcu := (cl_mcu C)\<lparr>mcu_error := err\<rparr>, cl_auth := au\<rparr>"
  have same: "replied_form i resp C (?D au err)" for au err
    unfolding replied_form_def by (intro exI [of _ "\<lambda>s. s"] exI [of _ au] exI [of _ err] exI [of _ r] conjI id_op) (simp add: upd_scu_id)
  have keep: "?D (cl_auth C) err = C\<lparr>w_res := (w_res C)(resp := r), cl_mcu := (cl_mcu C)\<lparr>mcu_error := err\<rparr>\<rparr>" for err by (cases C) simp
  have form: "replied_form i resp C (upd_scu i (\<lambda>s. s\<lparr>scu_outxdrs := (scu_outxdrs s)\<lparr>x_op := XDR_FREE\<rparr>\<rparr>) (?D au err))" for au err
    unfolding replied_form_def by blast
  show ?thesis
  proof (cases ok)
    case False
    then have "fin" "C' = ?D (cl_auth C) ((mcu_error (cl_mcu C))\<lparr>re_status := RPC_CANTDECODERES\<rparr>)" using run 1 by (auto simp: rpc_reply_def keep)
    moreover from this have "replied_form i resp C C'" using same [where au = "cl_auth C" and err = "(mcu_error (cl_mcu C))\<lparr>re_status := RPC_CANTDECODERES\<rparr>"] by simp
    ultimately show ?thesis using that [OF 1] by simp
  next
    case ok: True
    show ?thesis
    proof (cases "re_status ?e = RPC_SUCCESS")
      case True
      obtain valid au where v: "rl_validate L (cl_auth C) msg = (valid, au)" by fastforce
      define err where "err = (if valid then ?e else \<lparr>re_status = RPC_AUTHERROR, re_ru = 6\<rparr>)"
      have e: "fin" "C' = (if rl_has_verf L msg then upd_scu i (\<lambda>s. s\<lparr>scu_outxdrs := (scu_outxdrs s)\<lparr>x_op := XDR_FREE\<rparr>\<rparr>) (?D au err) else ?D au err)"
        using run 1 ok True v by (auto simp: rpc_reply_def Let_def err_def)
      have F: "replied_form i resp C C'" and W: "w_res C' = (w_res C)(resp := r)" and S: "mcu_error (cl_mcu C') = err"
        using e(2) same form by (cases "rl_has_verf L msg"; simp)+
      show ?thesis by (rule that [OF 1 F W]) (use ok True v S e(1) in \<open>auto simp: err_def split: if_splits\<close>)
    next
      case bad: False
      show ?thesis
      proof (cases "n > 0")
        case True
        obtain again au where a: "rl_refresh L (cl_auth C) = (again, au)" by fastforce
        have e: "fin \<longleftrightarrow> \<not> again" "C' = ?D au ?e" using run 1 ok bad True a by (simp_all add: rpc_reply_def Let_def)
        show ?thesis using that [OF 1] same e bad ok True by auto
      next
        case False
        have "fin" "C' = ?D (cl_auth C) ?e" using run 1 ok bad False by (auto simp: rpc_reply_def Let_def keep)
        moreover from this have "replied_form i resp C C'" using same [where au = "cl_auth C" and err = ?e] by simp
        ultimately show ?thesis using that [OF 1] bad by simp
      qed
    qed
  qed
qed

lemma replied_form_state: "replied_form i resp C C' \<Longrightarrow> slot_state C' = slot_state C"
proof -
  assume "replied_form i resp C C'"
  then obtain f au err r where C': "C' = upd_scu i f (C\<lparr>w_res := (w_res C)(resp := r), cl_mcu := (cl_mcu C)\<lparr>mcu_error := err\<rparr>, cl_auth := au\<rparr>)"
    and f: "\<forall>s. \<exists>op. f s = s\<lparr>scu_outxdrs := (scu_outxdrs s)\<lparr>x_op := op\<rparr>\<rparr>" unfolding replied_form_def by blast
  have "scu_inuse (f s) = scu_inuse s" for s
  proof -
    obtain op where "f s = s\<lparr>scu_outxdrs := (scu_outxdrs s)\<lparr>x_op := op\<rparr>\<rparr>" using f by blast
    then show ?thesis by simp
  qed
  then show ?thesis unfolding C' by (subst slot_state_upd) (simp_all add: slot_state_def)
qed

lemma rpc_reply_state: "rpc_reply L i xres resp bs n C = Some (fin, C') \<Longrightarrow> slot_state C' = slot_state C"
  by (elim rpc_reply_cases) (rule replied_form_state)

subsection \<open>The count of free slots\<close>

lemma filter_update_length:
  "i < length xs \<Longrightarrow> length (filter P (xs[i := x])) + (if P (xs ! i) then 1 else 0) = length (filter P xs) + (if P x then 1 else 0)"
proof (induction xs arbitrary: i)
  case (Cons y ys)
  show ?case
  proof (cases i)
    case (Suc j)
    then show ?thesis using Cons.IH [of j] Cons.prems by (cases "P y") simp_all
  qed simp
qed simp

text \<open>The slot \<open>i\<close> is set to \<open>b\<close> and the count follows.\<close>

definition slot_set :: "nat \<Rightarrow> bool \<Rightarrow> ('au, 'r) rclient \<Rightarrow> ('au, 'r) rclient \<Rightarrow> bool" where
  "slot_set i b C C' \<longleftrightarrow> i < unat (mcu_numscu (cl_mcu C)) \<and> scu_inuse (scu_at C i) = (\<not> b) \<and>
     slot_state C' = (mcu_numscu (cl_mcu C), mcu_numfreescu (cl_mcu C) + (if b then - 1 else 1), (map scu_inuse (mcu_scu (cl_mcu C)))[i := b])"

lemma slot_set_ok:
  assumes ok: "slots_ok C" and set: "slot_set i b C C'"
  shows "slots_ok C'"
proof -
  define n where "n = unat (mcu_numscu (cl_mcu C))"
  define us where "us = map scu_inuse (mcu_scu (cl_mcu C))"
  let ?k = "mcu_numfreescu (cl_mcu C)"
  have len: "length us = 5" "n \<le> 5" and k: "unat ?k = length (filter Not (take n us))"
    using ok by (simp_all add: slots_ok_state slot_state_def n_def us_def)
  have i: "i < n" "us ! i = (\<not> b)" using set len by (auto simp: slot_set_def n_def us_def)
  have l: "length (filter Not ((take n us)[i := b])) + (if \<not> us ! i then 1 else 0) = unat ?k + (if \<not> b then 1 else 0)"
    using filter_update_length [of i "take n us" Not b] i len k by simp
  have "unat ?k \<le> 5" using k len by (metis length_filter_le length_take le_trans min.cobounded1)
  have "unat (?k + (if b then - 1 else 1)) = length (filter Not ((take n us)[i := b]))"
  proof (cases b)
    case True
    then have p: "unat ?k = Suc (length (filter Not ((take n us)[i := b])))" using l i by simp
    then have "unat (?k - 1) = unat ?k - 1" by (intro unat_minus_one) auto
    then show ?thesis using True p by simp
  next
    case False
    have "unat (?k + 1) = unat ?k + 1" by (rule plus_one) (use \<open>unat ?k \<le> 5\<close> in simp)
    then show ?thesis using False l i by simp
  qed
  moreover have "take n (us[i := b]) = (take n us)[i := b]" by (simp add: take_update_swap)
  moreover have "slot_state C' = (mcu_numscu (cl_mcu C), ?k + (if b then - 1 else 1), us[i := b])" using set by (simp add: slot_set_def us_def)
  moreover have "0 < mcu_numscu (cl_mcu C)" using ok by (simp add: slots_ok_def)
  ultimately show ?thesis unfolding slots_ok_state [of C'] using len by (simp add: n_def)
qed

lemma nth_Suc_diff: "Suc j \<le> i \<Longrightarrow> (x # xs) ! (i - j) = xs ! (i - Suc j) \<and> (i - j < Suc (length xs) \<longleftrightarrow> i - Suc j < length xs)"
proof -
  assume "Suc j \<le> i"
  then have "i - j = Suc (i - Suc j)" by simp
  then show ?thesis by simp
qed

lemma free_scu_Some: "free_scu j ss = Some i \<Longrightarrow> j \<le> i \<and> i - j < length ss \<and> \<not> scu_inuse (ss ! (i - j))"
proof (induction j ss rule: free_scu.induct)
  case (2 j s ss)
  then show ?case using nth_Suc_diff [of j i s ss] by (cases "scu_inuse s") auto
qed simp

lemma match_scu_Some:
  "match_scu xid j ss = Some i \<Longrightarrow> j \<le> i \<and> i - j < length ss \<and> scu_inuse (ss ! (i - j)) \<and> xid = get32 (take 4 (x_buf (scu_outxdrs (ss ! (i - j)))))"
proof (induction xid j ss rule: match_scu.induct)
  case (2 xid j s ss)
  show ?case
  proof (cases "scu_inuse s \<and> xid = get32 (take 4 (x_buf (scu_outxdrs s)))")
    case True
    then show ?thesis using 2(2) by auto
  next
    case False
    then have "match_scu xid (Suc j) ss = Some i" using 2(2) by (simp split: if_splits)
    then show ?thesis using 2(1) [OF False] nth_Suc_diff [of j i s ss] by simp
  qed
qed simp

lemma match_slot:
  assumes "match_scu xid 0 (take n (mcu_scu (cl_mcu C))) = Some i"
  shows "i < n" "i < length (mcu_scu (cl_mcu C))" "scu_inuse (scu_at C i)" "xid = get32 (take 4 (x_buf (scu_outxdrs (scu_at C i))))"
  using match_scu_Some [OF assms] by auto

subsection \<open>Steps\<close>

lemma next_event_Some:
  "next_event C = (ev, C1) \<longleftrightarrow> ev = net_ev (w_net C) (net_evn (w_net C)) \<and> C1 = C\<lparr>w_net := (w_net C)\<lparr>net_evn := Suc (net_evn (w_net C))\<rparr>\<rparr>"
  by (auto simp: next_event_def)

definition scu_key :: "scu_data \<Rightarrow> bool \<times> u8 list \<times> nat \<times> nat" where
  "scu_key s = (scu_inuse s, x_buf (scu_outxdrs s), scu_resultsp s, scu_userdata s)"

text \<open>What stays while the client waits.\<close>

definition wait_frame :: "('au, 'r) rclient \<Rightarrow> ('au, 'r) rclient \<Rightarrow> bool" where
  "wait_frame C C' \<longleftrightarrow> slot_state C' = slot_state C \<and> map scu_key (mcu_scu (cl_mcu C')) = map scu_key (mcu_scu (cl_mcu C)) \<and>
     mcu_recvsz (cl_mcu C') = mcu_recvsz (cl_mcu C) \<and> mcu_xresults (cl_mcu C') = mcu_xresults (cl_mcu C) \<and> w_res C' = w_res C \<and>
     net_ev (w_net C') = net_ev (w_net C) \<and> net_alloc (w_net C') = net_alloc (w_net C) \<and> net_evn (w_net C) \<le> net_evn (w_net C') \<and> cl_auth C' = cl_auth C"

lemma wait_frame_refl: "wait_frame C C"
  by (simp add: wait_frame_def)

lemma wait_frame_trans: "wait_frame A B \<Longrightarrow> wait_frame B C \<Longrightarrow> wait_frame A C"
  by (simp add: wait_frame_def)

lemma wait_frame_next: "wait_frame C (snd (next_event C))"
  by (simp add: wait_frame_def next_event_def slot_state_def)

lemma wait_frame_send: "send_message i n block C = Some (err, C') \<Longrightarrow> wait_frame C C'"
  by (elim send_message_Some) (simp add: wait_frame_def slot_state_def)

lemma wait_frame_time: "wait_frame C (upd_scu i (\<lambda>s. s\<lparr>scu_time_waited := t\<rparr>) C)"
  by (simp add: wait_frame_def slot_state_def map_update_same scu_key_def)

lemma wait_frame_ask: "ask_timeout C = (b, C') \<Longrightarrow> wait_frame C C'"
  by (auto simp: ask_timeout_def wait_frame_def slot_state_def split: if_splits)

lemma wait_frame_scan: "timeout_scan t i k C = (r, C') \<Longrightarrow> wait_frame C C'"
proof (induction t i k C arbitrary: r C' rule: timeout_scan.induct)
  case (2 t i k C)
  show ?case
  proof (cases "scu_inuse (scu_at C i)")
    case True
    let ?C1 = "upd_scu i (\<lambda>s. s\<lparr>scu_time_waited := add_timeval (scu_time_waited s) (mcu_wait (cl_mcu C))\<rparr>) C"
    have "wait_frame C (upd_scu i (\<lambda>s. s\<lparr>scu_time_waited := add_timeval (scu_time_waited (scu_at C i)) (mcu_wait (cl_mcu C))\<rparr>) C)" by (rule wait_frame_time)
    then have 1: "wait_frame C ?C1" by (simp add: upd_scu_def)
    obtain b C2 where ask: "ask_timeout ?C1 = (b, C2)" by fastforce
    have f2: "wait_frame C C2" using wait_frame_trans [OF 1 wait_frame_ask [OF ask]] .
    have "wait_frame C2 C'" if b: "\<not> b" "\<not> less_timeval (scu_time_waited (scu_at ?C1 i)) t"
      using 2(3) True ask b 2(1) [OF True refl b(2) ask [symmetric] refl b(1)] by (simp add: Let_def)
    then show ?thesis using 2(3) 1 f2 True ask wait_frame_trans [OF f2] by (auto simp: Let_def split: if_splits)
  qed (use 2 in auto)
qed (simp add: wait_frame_refl)

text \<open>How a round of waiting can go: on, with the slots as they are; or it ends without a reply; or with the reply to slot \<open>i\<close>.\<close>

lemma wait_step_cases:
  assumes step: "wait_step L t (again, C) = Some r"
  obtains (on) again' C' where "r = Inr (again', C')" "wait_frame C C'"
  | (fails) st C' where "r = Inl (st, C')" "st \<noteq> RPC_SUCCESS" "slot_state C' = slot_state C"
  | (reply) i msg inbuf C1 C2 fin where "again = None" "net_ev (w_net C) (net_evn (w_net C)) = Datagram msg" "inbuf = take (unat (mcu_recvsz (cl_mcu C))) msg"
      "4 \<le> length inbuf" "match_scu (get32 (take 4 inbuf)) 0 (take (unat (mcu_numscu (cl_mcu C))) (mcu_scu (cl_mcu C))) = Some i"
      "C1 = snd (next_event C)\<lparr>cla_resp := scu_resultsp (scu_at C i), cla_userdata := scu_userdata (scu_at C i)\<rparr>"
      "rpc_reply L i (mcu_xresults (cl_mcu C)) (scu_resultsp (scu_at C i)) inbuf (scu_nrefreshes (scu_at C i)) C1 = Some (fin, C2)"
      "r = Inl (if fin then
            let C3 = upd_mcu (\<lambda>cu. cu\<lparr>mcu_numfreescu := mcu_numfreescu cu + 1\<rparr>) (upd_scu i (\<lambda>s. s\<lparr>scu_inuse := False\<rparr>) C2) in
            (re_status (mcu_error (cl_mcu C3)), C3)
          else ret RPC_CANTENCODEARGS (upd_scu i (\<lambda>s. s\<lparr>scu_nrefreshes := scu_nrefreshes s - 1\<rparr>) C2))"
proof (cases again)
  case (Some i)
  then obtain err C' where s: "send_message i (x_private (scu_outxdrs (scu_at C i))) [] C = Some (err, C')"
    "r = (case err of Some e \<Rightarrow> Inl (ret_errno RPC_CANTSEND e C') | None \<Rightarrow> Inr (None, C'))"
    using step by (auto simp: wait_sends_def)
  have "slot_state C' = slot_state C" using send_message_state [OF s(1)] .
  then show ?thesis
  proof (cases err)
    case None
    then show ?thesis using s(2) on [of None C'] wait_frame_send [OF s(1)] by simp
  next
    case (Some e)
    then have "r = Inl (ret_errno RPC_CANTSEND e C')" using s(2) by simp
    then have "r = Inl (RPC_CANTSEND, snd (ret_errno RPC_CANTSEND e C'))" using ret_pair(2) by metis
    then show ?thesis by (rule fails) (use \<open>slot_state C' = slot_state C\<close> in simp_all)
  qed
next
  case None
  let ?C1 = "snd (next_event C)"
  have st: "slot_state ?C1 = slot_state C" by simp
  have err: thesis if "r = Inl (ret_errno RPC_CANTRECV e ?C1)" for e
    by (rule fails [of RPC_CANTRECV "snd (ret_errno RPC_CANTRECV e ?C1)"]) (use that st ret_pair(2) [of RPC_CANTRECV e ?C1] in simp_all)
  note d = step [unfolded None wait_step.simps wait_selects_def Let_def]
  show ?thesis
  proof (cases "fst (next_event C)")
    case Silent
    obtain i C2 where sc: "timeout_scan t 0 (unat (mcu_numscu (cl_mcu ?C1))) ?C1 = (i, C2)" by fastforce
    have s2: "wait_frame C C2" using wait_frame_trans [OF wait_frame_next wait_frame_scan [OF sc]] .
    show ?thesis
    proof (cases i)
      case None
      then have "r = Inl (ret RPC_TIMEDOUT C2)" using d Silent sc by simp
      then have "r = Inl (RPC_TIMEDOUT, snd (ret RPC_TIMEDOUT C2))" using ret_pair(1) by metis
      then show ?thesis by (rule fails) (use s2 in \<open>simp_all add: wait_frame_def\<close>)
    next
      case (Some j)
      then show ?thesis using d Silent sc s2 on by auto
    qed
  next
    case (SelectError e)
    then show ?thesis using d err by auto
  next
    case WouldBlock
    then show ?thesis using d on wait_frame_next by auto
  next
    case (RecvError e)
    then show ?thesis using d err by auto
  next
    case (Datagram msg)
    have n: "mcu_recvsz (cl_mcu ?C1) = mcu_recvsz (cl_mcu C)" "mcu_numscu (cl_mcu ?C1) = mcu_numscu (cl_mcu C)" "mcu_scu (cl_mcu ?C1) = mcu_scu (cl_mcu C)"
      "mcu_xresults (cl_mcu ?C1) = mcu_xresults (cl_mcu C)" by (simp_all add: next_event_def)
    define inbuf where "inbuf = take (unat (mcu_recvsz (cl_mcu C))) msg"
    note d1 = d [unfolded Datagram net_event.case n, folded inbuf_def]
    show ?thesis
    proof (cases "length inbuf < 4")
      case True
      then show ?thesis using d1 on wait_frame_next by auto
    next
      case long: False
      show ?thesis
      proof (cases "match_scu (get32 (take 4 inbuf)) 0 (take (unat (mcu_numscu (cl_mcu C))) (mcu_scu (cl_mcu C)))")
        case None
        then show ?thesis using d1 on wait_frame_next long by auto
      next
        case (Some i)
        have w: "wait_replied L i inbuf ?C1 = Some r" using d1 long Some by simp
        then obtain fin C2 where rep: "rpc_reply L i (mcu_xresults (cl_mcu C)) (scu_resultsp (scu_at C i)) inbuf (scu_nrefreshes (scu_at C i))
            (?C1\<lparr>cla_resp := scu_resultsp (scu_at C i), cla_userdata := scu_userdata (scu_at C i)\<rparr>) = Some (fin, C2)"
          "r = Inl (if fin then
            let C3 = upd_mcu (\<lambda>cu. cu\<lparr>mcu_numfreescu := mcu_numfreescu cu + 1\<rparr>) (upd_scu i (\<lambda>s. s\<lparr>scu_inuse := False\<rparr>) C2) in
            (re_status (mcu_error (cl_mcu C3)), C3)
          else ret RPC_CANTENCODEARGS (upd_scu i (\<lambda>s. s\<lparr>scu_nrefreshes := scu_nrefreshes s - 1\<rparr>) C2))"
          by (auto simp: wait_replied_def Let_def n)
        show ?thesis by (rule reply [OF None _ inbuf_def _ Some refl rep]) (use Datagram long in \<open>auto simp: next_event_def\<close>)
      qed
    qed
  qed
qed

subsection \<open>Operations\<close>

lemma reply_slot_set:
  assumes ok: "slots_ok C" and m: "match_scu xid 0 (take (unat (mcu_numscu (cl_mcu C))) (mcu_scu (cl_mcu C))) = Some i"
    and C1: "slot_state C1 = slot_state C" and rep: "rpc_reply L i xres resp inbuf n C1 = Some (fin, C2)"
  shows "slot_set i False C (upd_mcu (\<lambda>cu. cu\<lparr>mcu_numfreescu := mcu_numfreescu cu + 1\<rparr>) (upd_scu i (\<lambda>s. s\<lparr>scu_inuse := False\<rparr>) C2))"
proof -
  have "slot_state C2 = slot_state C" using rpc_reply_state [OF rep] C1 by simp
  then show ?thesis using match_slot [OF m] by (simp add: slot_set_def slot_state_def map_update)
qed

lemma wait_ok:
  assumes ok: "slots_ok C" and run: "clntaudp_wait L t C = Some (st, C')"
  shows "slots_ok C'"
proof -
  let ?I = "\<lambda>(again, C1). slots_ok C1"
  have "(\<lambda>(st, C'). slots_ok C') (st, C')"
  proof (rule run_loop_inv [OF run [unfolded clntaudp_wait_def], of ?I])
    show "?I (None, C)" using ok by simp
  next
    fix s a assume I: "?I s" and step: "wait_step L (rpc_timeout C t) s = Some (Inl a)"
    obtain again C1 where s: "s = (again, C1)" by (cases s)
    show "case a of (st, C') \<Rightarrow> slots_ok C'"
      using step [unfolded s]
    proof (cases rule: wait_step_cases)
      case (fails st C')
      then show ?thesis using I s slots_ok_cong by auto
    next
      case (reply i msg inbuf C2 C3 fin)
      have st: "slot_state C2 = slot_state C1" unfolding reply(6) by (simp add: slot_state_def next_event_def)
      show ?thesis
      proof (cases fin)
        case True
        have "slots_ok C1" using I s by simp
        then have "slots_ok (upd_mcu (\<lambda>cu. cu\<lparr>mcu_numfreescu := mcu_numfreescu cu + 1\<rparr>) (upd_scu i (\<lambda>s. s\<lparr>scu_inuse := False\<rparr>) C3))"
          using slot_set_ok reply_slot_set [OF _ reply(5) st reply(7)] by blast
        then show ?thesis using reply(8) True by (simp add: Let_def)
      next
        case False
        have "slot_state (snd (ret RPC_CANTENCODEARGS (upd_scu i (\<lambda>s. s\<lparr>scu_nrefreshes := scu_nrefreshes s - 1\<rparr>) C3))) = slot_state C1"
          using rpc_reply_state [OF reply(7)] st slot_state_upd [of "\<lambda>s. s\<lparr>scu_nrefreshes := scu_nrefreshes s - 1\<rparr>" i C3] by simp
        then have "slots_ok (snd (ret RPC_CANTENCODEARGS (upd_scu i (\<lambda>s. s\<lparr>scu_nrefreshes := scu_nrefreshes s - 1\<rparr>) C3)))"
          by (rule slots_ok_cong [THEN iffD2]) (use I s in simp)
        then show ?thesis using reply(8) False by (auto split: prod.split)
      qed
    qed auto
  next
    fix s s1 assume I: "?I s" and step: "wait_step L (rpc_timeout C t) s = Some (Inr s1)"
    obtain again C1 where s: "s = (again, C1)" by (cases s)
    show "?I s1"
      using step [unfolded s]
    proof (cases rule: wait_step_cases)
      case (on again' C')
      then show ?thesis using I s slots_ok_cong by (auto simp: wait_frame_def)
    qed auto
  qed
  then show ?thesis by simp
qed

lemma sendsb_slot_ok:
  assumes ok: "slots_ok C" and f: "free_scu 0 (take (unat (mcu_numscu (cl_mcu C))) (mcu_scu (cl_mcu C))) = Some i"
    and C0: "slot_state C0 = slot_state C" and run: "sendsb_slot L i proc xargs resp ud block C0 = Some (st, C')"
  shows "st \<noteq> RPC_TIMEDOUT \<and> slot_state C' = slot_state C \<or> st = RPC_TIMEDOUT \<and> slot_set i True C C'"
proof -
  define C1 where "C1 = upd_scu i (\<lambda>s. s\<lparr>scu_resultsp := resp, scu_userdata := ud, scu_time_waited := zero_timeval, scu_nrefreshes := 2\<rparr>) C0"
  have s1: "slot_state C1 = slot_state C" unfolding C1_def by (subst slot_state_upd) (simp_all add: C0)
  note d = run [unfolded sendsb_slot_def Let_def, folded C1_def]
  obtain len C2 where 2: "encode_call L i proc xargs C1 = Some (len, C2)" using d by (cases "encode_call L i proc xargs C1") auto
  have s2: "slot_state C2 = slot_state C" using encode_call_state [OF 2] s1 by simp
  show ?thesis
  proof (cases len)
    case None
    then have "(st, C') = ret RPC_CANTENCODEARGS C2" using d 2 by simp
    then show ?thesis using s2 ret_eq(1) by fastforce
  next
    case (Some n)
    obtain err C3 where 3: "send_message i n block C2 = Some (err, C3)" using d 2 Some by (cases "send_message i n block C2") auto
    have s3: "slot_state C3 = slot_state C" using send_message_state [OF 3] s2 by simp
    show ?thesis
    proof (cases err)
      case (Some e)
      then have "(st, C') = ret_errno RPC_CANTSEND e C3" using d 2 \<open>len = Some n\<close> 3 by simp
      then show ?thesis using s3 ret_eq(3) by fastforce
    next
      case None
      let ?D = "upd_mcu (\<lambda>cu. cu\<lparr>mcu_numfreescu := mcu_numfreescu cu - 1\<rparr>) (upd_scu i (\<lambda>s. s\<lparr>scu_inuse := True\<rparr>) C3)"
      have r: "(st, C') = ret RPC_TIMEDOUT ?D" using d 2 Some 3 None by simp
      have u: "i < unat (mcu_numscu (cl_mcu C))" "i < length (mcu_scu (cl_mcu C))" "\<not> scu_inuse (scu_at C i)"
        using free_scu_Some [OF f] by auto
      have "slot_state C' = slot_state ?D" "st = RPC_TIMEDOUT" using ret_eq(1) [OF r] by simp_all
      then show ?thesis using u s3 by (simp add: slot_set_def slot_state_def map_update)
    qed
  qed
qed

lemma sendsb_ok:
  assumes ok: "slots_ok C" and run: "clntaudp_sendsb L proc xargs xres resp ud block C = Some (st, C')"
  shows "st \<noteq> RPC_TIMEDOUT \<and> slot_state C' = slot_state C \<or> st = RPC_TIMEDOUT \<and> (\<exists>i. slot_set i True C C')"
proof (cases "mcu_numfreescu (cl_mcu C) = 0")
  case True
  then show ?thesis using run by (auto simp: clntaudp_sendsb_def dest!: ret_eq(2))
next
  case free: False
  show ?thesis
  proof (cases "free_scu 0 (take (unat (mcu_numscu (cl_mcu C))) (mcu_scu (cl_mcu C)))")
    case None
    then show ?thesis using run free by (auto simp: clntaudp_sendsb_def dest!: ret_eq(2))
  next
    case (Some i)
    have s: "slot_state (upd_mcu (\<lambda>cu. cu\<lparr>mcu_xresults := xres\<rparr>) C) = slot_state C" by (simp add: slot_state_def)
    show ?thesis
    proof (cases "mcu_numfreescu (cl_mcu C) = mcu_numscu (cl_mcu C)")
      case True
      then have "sendsb_slot L i proc xargs resp ud block (upd_mcu (\<lambda>cu. cu\<lparr>mcu_xresults := xres\<rparr>) C) = Some (st, C')"
        using run free Some by (simp add: clntaudp_sendsb_def)
      then show ?thesis using sendsb_slot_ok [OF ok Some s] by blast
    next
      case False
      show ?thesis
      proof (cases "mcu_xresults (cl_mcu C) = xres")
        case True
        then have "sendsb_slot L i proc xargs resp ud block C = Some (st, C')" using run free Some False by (simp add: clntaudp_sendsb_def)
        then show ?thesis using sendsb_slot_ok [OF ok Some refl] by blast
      next
        case no: False
        then show ?thesis using run free Some False by (auto simp: clntaudp_sendsb_def dest!: ret_eq(2))
      qed
    qed
  qed
qed

definition outcome_state :: "((clnt_stat \<times> ('au, 'r) rclient) + ('au, 'r) call_st) \<Rightarrow> u32 \<times> u32 \<times> bool list" where
  "outcome_state r = (case r of Inl (st, C') \<Rightarrow> slot_state C' | Inr (_, _, _, _, C') \<Rightarrow> slot_state C')"

lemma outcome_sel [simp]:
  "outcome_state (Inl (ret st C)) = slot_state C" "outcome_state (Inl (ret_errno st e C)) = slot_state C" "outcome_state (Inl (st, C)) = slot_state C"
  "outcome_state (Inr (sg, w, n, len, C)) = slot_state C"
  using ret_sel by (simp_all add: outcome_state_def case_prod_beta)

lemma call_replied_state: "call_replied L proc xargs xres resp inbuf w n C = Some r \<Longrightarrow> outcome_state r = slot_state C"
proof -
  assume run: "call_replied L proc xargs xres resp inbuf w n C = Some r"
  then obtain fin C2 where 2: "rpc_reply L 0 xres resp inbuf n C = Some (fin, C2)"
    unfolding call_replied_def by (cases "rpc_reply L 0 xres resp inbuf n C") auto
  note s2 = rpc_reply_state [OF 2]
  show ?thesis
  proof (cases fin)
    case True
    then show ?thesis using run 2 s2 by (auto simp: call_replied_def)
  next
    case False
    then obtain len C3 where 3: "encode_call L 0 proc xargs C2 = Some (len, C3)"
      using run 2 unfolding call_replied_def by (cases "encode_call L 0 proc xargs C2") auto
    then show ?thesis using run 2 False s2 encode_call_state [OF 3] by (cases len) (auto simp: call_replied_def)
  qed
qed

lemma call_step_state: "call_step L proc xargs xres resp t (sg, w, n, len, C) = Some r \<Longrightarrow> outcome_state r = slot_state C"
proof (cases sg)
  case SendAgain
  assume run: "call_step L proc xargs xres resp t (sg, w, n, len, C) = Some r"
  then obtain err C1 where 1: "send_message 0 len [] C = Some (err, C1)"
    "r = (case err of Some e \<Rightarrow> Inl (ret_errno RPC_CANTSEND e C1)
       | None \<Rightarrow> if tv_sec t = 0 \<and> tv_usec t = 0 then Inl (ret RPC_TIMEDOUT C1) else Inr (Select, w, n, len, C1))"
    using SendAgain by (auto simp: call_sends_def)
  then show ?thesis using send_message_state [OF 1(1)] by (auto split: option.splits)
next
  case Select
  assume run: "call_step L proc xargs xres resp t (sg, w, n, len, C) = Some r"
  let ?C1 = "snd (next_event C)"
  note d = run [unfolded Select call_step.simps call_selects_def Let_def]
  have s: "slot_state ?C1 = slot_state C" by simp
  show ?thesis
  proof (cases "fst (next_event C)")
    case (Datagram msg)
    show ?thesis
    proof (cases "length (take (unat (mcu_recvsz (cl_mcu ?C1))) msg) < 4 \<or>
        get32 (take 4 (take (unat (mcu_recvsz (cl_mcu ?C1))) msg)) \<noteq> get32 (take 4 (x_buf (scu_outxdrs (scu_at ?C1 0))))")
      case True
      then have "r = Inr (Select, w, n, len, ?C1)" using d [unfolded Datagram net_event.case] by (auto split: if_splits)
      then show ?thesis using s by simp
    next
      case False
      then have "call_replied L proc xargs xres resp (take (unat (mcu_recvsz (cl_mcu ?C1))) msg) w n ?C1 = Some r"
        using d [unfolded Datagram net_event.case] by (auto split: if_splits)
      then show ?thesis using call_replied_state s by metis
    qed
  qed (use d s in \<open>auto split: if_splits\<close>)
qed

lemma call_state:
  assumes run: "clntaudp_call L proc xargs xres resp t C = Some (st, C')"
  shows "slot_state C' = slot_state C"
proof -
  obtain len C1 where 1: "encode_call L 0 proc xargs C = Some (len, C1)"
    using run by (cases "encode_call L 0 proc xargs C") (auto simp: clntaudp_call_def)
  note s1 = encode_call_state [OF 1]
  show ?thesis
  proof (cases len)
    case None
    then show ?thesis using run 1 s1 by (auto simp: clntaudp_call_def dest!: ret_eq(2))
  next
    case (Some n)
    let ?st = "call_step L proc xargs xres resp (rpc_timeout C t)"
    have run1: "run_loop ?st (SendAgain, zero_timeval, 2, n, C1) = Some (st, C')" using run 1 Some by (simp add: clntaudp_call_def)
    have "slot_state (snd (st, C')) = slot_state C"
    proof (rule run_loop_inv [OF run1, of "\<lambda>(sg, w, n, len, D). slot_state D = slot_state C"])
      show "case (SendAgain, zero_timeval, 2::int, n, C1) of (sg, w, n, len, D) \<Rightarrow> slot_state D = slot_state C" using s1 by simp
    next
      fix s a assume "case s of (sg, w, n, len, D) \<Rightarrow> slot_state D = slot_state C" "?st s = Some (Inl a)"
      then show "slot_state (snd a) = slot_state C" using call_step_state by (cases s; cases a) fastforce
    next
      fix s s1 assume "case s of (sg, w, n, len, D) \<Rightarrow> slot_state D = slot_state C" "?st s = Some (Inr s1)"
      then show "case s1 of (sg, w, n, len, D) \<Rightarrow> slot_state D = slot_state C" using call_step_state by (cases s; cases s1) fastforce
    qed
    then show ?thesis by simp
  qed
qed

lemma abort_scus_ok:
  "length us = 5 \<Longrightarrow> i + k \<le> 5 \<Longrightarrow> slot_state C = (n, f, us) \<Longrightarrow>
     slot_state (abort_scus i k C) = (n, f + of_nat (length (filter (\<lambda>b. b) (take k (drop i us)))), take i us @ replicate k False @ drop (i + k) us)"
proof (induction i k C arbitrary: us f rule: abort_scus.induct)
  case (2 i k C)
  have i: "i < length us" "scu_inuse (scu_at C i) = us ! i" "length (mcu_scu (cl_mcu C)) = 5" using 2(2-4) by (auto simp: slot_state_def)
  let ?D = "if scu_inuse (scu_at C i) then upd_scu i (\<lambda>s. s\<lparr>scu_inuse := False\<rparr>) (upd_mcu (\<lambda>cu. cu\<lparr>mcu_numfreescu := mcu_numfreescu cu + 1\<rparr>) C) else C"
  have d: "drop i us = us ! i # drop (Suc i) us" using i(1) by (simp add: Cons_nth_drop_Suc)
  have D: "slot_state ?D = (n, if us ! i then f + 1 else f, us[i := False])"
  proof (cases "us ! i")
    case True
    then show ?thesis using 2(4) i by (auto simp: slot_state_def map_update)
  next
    case False
    then have "us[i := False] = us" using list_update_id [of us i] by simp
    then show ?thesis using 2(4) i False by simp
  qed
  have "slot_state (abort_scus (Suc i) k ?D) =
      (n, (if us ! i then f + 1 else f) + of_nat (length (filter (\<lambda>b. b) (take k (drop (Suc i) (us[i := False]))))),
       take (Suc i) (us[i := False]) @ replicate k False @ drop (Suc i + k) (us[i := False]))"
    by (rule 2(1) [OF _ _ D]) (use 2(2,3) in simp_all)
  then show ?case using i(1) d by (simp add: take_Suc_conv_app_nth)
qed simp

lemma abort_ok:
  assumes ok: "slots_ok C"
  shows "slots_ok (clntaudp_abort C) \<and> mcu_numfreescu (cl_mcu (clntaudp_abort C)) = mcu_numscu (cl_mcu C)"
proof -
  obtain n f us where st: "slot_state C = (n, f, us)" by (cases "slot_state C")
  then have o: "length us = 5" "unat n \<le> 5" "0 < n" "unat f = length (filter Not (take (unat n) us))" using ok by (simp_all add: slots_ok_state)
  have "slot_state (clntaudp_abort C) = (n, f + of_nat (length (filter (\<lambda>b. b) (take (unat n) us))), replicate (unat n) False @ drop (unat n) us)"
    using abort_scus_ok [OF o(1) _ st, of 0 "unat n"] o(2) st by (simp add: clntaudp_abort_def slot_state_def)
  moreover have "length (filter (\<lambda>b. b) xs) + length (filter Not xs) = length xs" for xs :: "bool list" by (induction xs) auto
  then have "length (filter (\<lambda>b. b) (take (unat n) us)) + unat f = unat n" using o by (metis length_take min.absorb2)
  then have "of_nat (length (filter (\<lambda>b. b) (take (unat n) us))) + of_nat (unat f) = (of_nat (unat n) :: u32)" by (metis of_nat_add)
  then have "f + of_nat (length (filter (\<lambda>b. b) (take (unat n) us))) = n" by (simp add: add.commute)
  ultimately have "slot_state (clntaudp_abort C) = (n, n, replicate (unat n) False @ drop (unat n) us)" by simp
  then show ?thesis using o(1-3) st unfolding slots_ok_state by (auto simp: slot_state_def)
qed

end
