(* ===== verification/RpcTime.thy ===== *)
theory RpcTime
  imports RpcInv
begin

text \<open>
  A synchronous call ends: its time is counted in the waits of \<open>select\<close>, so it ends as long as the network does not
  deliver datagrams without a pause, and never leaves the buffers. A silent server is sent the same
  message again until the time is over.
\<close>

subsection \<open>Time\<close>

definition us :: "timeval \<Rightarrow> int" where
  "us t = tv_sec t * 1000000 + tv_usec t"

definition normal_time :: "timeval \<Rightarrow> bool" where
  "normal_time t \<longleftrightarrow> 0 \<le> tv_sec t \<and> 0 \<le> tv_usec t \<and> tv_usec t < 1000000"

lemma norm_usec_us: "us (norm_usec t) = us t"
proof (induction t rule: norm_usec.induct)
  case (1 t)
  then show ?case by (subst norm_usec.simps) (simp add: us_def)
qed

lemma norm_usec_normal: "0 \<le> tv_sec t \<Longrightarrow> 0 \<le> tv_usec t \<Longrightarrow> normal_time (norm_usec t)"
proof (induction t rule: norm_usec.induct)
  case (1 t)
  then show ?case by (subst norm_usec.simps) (simp add: normal_time_def)
qed

lemma add_timeval_us [simp]: "us (add_timeval a b) = us a + us b"
  by (simp add: add_timeval_def norm_usec_us) (simp add: us_def)

lemma add_timeval_normal: "normal_time a \<Longrightarrow> normal_time b \<Longrightarrow> normal_time (add_timeval a b)"
  unfolding add_timeval_def by (rule norm_usec_normal) (simp_all add: normal_time_def)

lemma less_timeval_us: "normal_time a \<Longrightarrow> normal_time b \<Longrightarrow> less_timeval a b \<longleftrightarrow> us a < us b"
  by (auto simp: less_timeval_def us_def normal_time_def)

lemma less_timeval_bound: "normal_time a \<Longrightarrow> less_timeval a t \<Longrightarrow> us a < (tv_sec t + 1) * 1000000"
  by (auto simp: less_timeval_def us_def normal_time_def)

lemma zero_timeval_normal [simp]: "normal_time zero_timeval" "us zero_timeval = 0"
  by (simp_all add: normal_time_def zero_timeval_def us_def)

subsection \<open>The library\<close>

text \<open>What the documentation of the library promises: a routine for encoding goes forward in the stream or fails, positions are set within the
  buffer, and decoding a reply ends if decoding its results does, and changes the results only if the reply is successful.\<close>

definition enc_routine :: "(XDR \<Rightarrow> (bool \<times> XDR) option) \<Rightarrow> bool" where
  "enc_routine p \<longleftrightarrow> (\<forall>X. stream_ok X \<and> x_op X = XDR_ENCODE \<longrightarrow> (\<exists>ok X'. p X = Some (ok, X') \<and>
     (ok \<longrightarrow> (\<exists>n. went X n X' \<and> take (x_private X) (x_buf X') = take (x_private X) (x_buf X)))))"

definition lib_ok :: "('au, 'm, 'r) rpclib \<Rightarrow> bool" where
  "lib_ok L \<longleftrightarrow> (\<forall>w. enc_routine (rl_putlong L w)) \<and> (\<forall>au. enc_routine (rl_marshall L au)) \<and>
     (\<forall>n X. n \<le> x_private X + unat (x_handy X) \<longrightarrow> rl_setpos L n X = X\<lparr>x_private := n, x_handy := of_nat (x_private X + unat (x_handy X) - n)\<rparr>) \<and>
     (\<forall>p X r. stream_ok X \<and> x_op X = XDR_DECODE \<and> (\<forall>Y. stream_ok Y \<and> x_op Y = XDR_DECODE \<longrightarrow> p Y r \<noteq> None) \<longrightarrow> rl_replymsg L p X r \<noteq> None) \<and>
     (\<forall>p X r ok msg r1 e. rl_replymsg L p X r = Some (ok, msg, r1) \<and> ok \<and> re_status (rl_seterr L msg e) \<noteq> RPC_SUCCESS \<longrightarrow> r1 = r)"

text \<open>The stream \<open>Y\<close> comes after \<open>X\<close>, and what was written before is as it was.\<close>

definition after :: "XDR \<Rightarrow> XDR \<Rightarrow> bool" where
  "after X Y \<longleftrightarrow> (\<exists>n. went X n Y) \<and> take (x_private X) (x_buf Y) = take (x_private X) (x_buf X)"

lemma take_mono_eq: "take n xs = take n ys \<Longrightarrow> m \<le> n \<Longrightarrow> take m xs = take m ys"
  by (metis min.absorb1 take_take)

lemma after_trans: "after X Y \<Longrightarrow> after Y Z \<Longrightarrow> after X Z"
  unfolding after_def by (metis went_trans went_def le_add1 take_mono_eq)

lemma after_facts: "after X Y \<Longrightarrow> x_private X \<le> x_private Y \<and> x_private Y + unat (x_handy Y) = x_private X + unat (x_handy X) \<and>
    length (x_buf Y) = length (x_buf X) \<and> x_op Y = x_op X \<and> (m \<le> x_private X \<longrightarrow> take m (x_buf Y) = take m (x_buf X))"
  unfolding after_def by (auto simp: went_def intro: take_mono_eq)

lemma after_ok: "after X Y \<Longrightarrow> stream_ok X \<Longrightarrow> x_op X = XDR_ENCODE \<Longrightarrow> stream_ok Y \<and> x_op Y = XDR_ENCODE"
  using went_ok [of X _ Y] by (auto simp: after_def) (simp add: went_def)

lemma enc_routineD: "enc_routine p \<Longrightarrow> stream_ok X \<Longrightarrow> x_op X = XDR_ENCODE \<Longrightarrow> \<exists>ok X'. p X = Some (ok, X') \<and> (ok \<longrightarrow> after X X')"
  by (simp add: enc_routine_def after_def)

lemma lib_same:
  "lib_ok L \<Longrightarrow> rl_replymsg L p X r = Some (True, msg, r1) \<Longrightarrow> re_status (rl_seterr L msg e) \<noteq> RPC_SUCCESS \<Longrightarrow> r1 = r"
  unfolding lib_ok_def by (elim conjE) metis

definition slot_ready :: "scu_data \<Rightarrow> bool" where
  "slot_ready s \<longleftrightarrow> (let X = scu_outxdrs s in 4 \<le> scu_xdrpos s \<and> length (x_buf X) < 2 ^ 31 \<and>
     x_private X + unat (x_handy X) \<le> length (x_buf X) \<and> scu_xdrpos s \<le> x_private X + unat (x_handy X))"

lemma slot_ready_op: "slot_ready (s\<lparr>scu_outxdrs := (scu_outxdrs s)\<lparr>x_op := op\<rparr>\<rparr>) = slot_ready s"
  by (simp add: slot_ready_def Let_def)

text \<open>Encoding a call.\<close>

lemma encode_call_ok:
  assumes L: "lib_ok L" and s: "slot_ready (scu_at C i)" and xargs: "enc_routine xargs"
  obtains len X where "encode_call L i proc xargs C =
      Some (len, upd_mcu (\<lambda>cu. cu\<lparr>mcu_xid := mcu_xid (cl_mcu C) + 0x10000\<rparr>) (upd_scu i (\<lambda>s. s\<lparr>scu_outxdrs := X\<rparr>) C))"
    "\<And>n. len = Some n \<Longrightarrow> slot_ready ((scu_at C i)\<lparr>scu_outxdrs := X\<rparr>) \<and> 4 \<le> n \<and> n \<le> length (x_buf X) \<and> take 4 (x_buf X) = put32 (mcu_xid (cl_mcu C) + 0x10000)"
proof -
  define scu where "scu = scu_at C i"
  define xid where "xid = mcu_xid (cl_mcu C) + 0x10000"
  define X0 where "X0 = (scu_outxdrs scu)\<lparr>x_op := XDR_ENCODE, x_private := scu_xdrpos scu,
      x_handy := of_nat (x_private (scu_outxdrs scu) + unat (x_handy (scu_outxdrs scu)) - scu_xdrpos scu)\<rparr>"
  have r: "4 \<le> scu_xdrpos scu" "length (x_buf (scu_outxdrs scu)) < 2 ^ 31"
    "x_private (scu_outxdrs scu) + unat (x_handy (scu_outxdrs scu)) \<le> length (x_buf (scu_outxdrs scu))"
    "scu_xdrpos scu \<le> x_private (scu_outxdrs scu) + unat (x_handy (scu_outxdrs scu))" using s by (simp_all add: slot_ready_def Let_def scu_def)
  have X0: "rl_setpos L (scu_xdrpos scu) ((scu_outxdrs scu)\<lparr>x_op := XDR_ENCODE\<rparr>) = X0"
    using L r(4) by (simp add: lib_ok_def X0_def)
  obtain buf where b: "poke 0 (put32 xid) (x_buf X0) = Some buf" "length buf = length (x_buf (scu_outxdrs scu))" "take 4 buf = put32 xid"
    using r by (auto simp: poke_def X0_def)
  define X1 where "X1 = X0\<lparr>x_buf := buf\<rparr>"
  have h: "unat (x_handy X0) = x_private (scu_outxdrs scu) + unat (x_handy (scu_outxdrs scu)) - scu_xdrpos scu"
  proof -
    have "unat (of_nat (x_private (scu_outxdrs scu) + unat (x_handy (scu_outxdrs scu)) - scu_xdrpos scu) :: u32) =
        x_private (scu_outxdrs scu) + unat (x_handy (scu_outxdrs scu)) - scu_xdrpos scu" by (rule unat_small) (use r in simp)
    then show ?thesis by (simp add: X0_def)
  qed
  have f: "x_private X1 = scu_xdrpos scu" "x_handy X1 = x_handy X0" "x_op X1 = XDR_ENCODE" "x_buf X1 = buf" by (simp_all add: X1_def X0_def)
  have ok1: "stream_ok X1" "x_op X1 = XDR_ENCODE" using r b(2) h f by (auto simp: stream_ok_def)
  define dn where "dn = (\<lambda>X. upd_mcu (\<lambda>cu. cu\<lparr>mcu_xid := xid\<rparr>) (upd_scu i (\<lambda>s. s\<lparr>scu_outxdrs := X\<rparr>) C))"
  have run: "encode_call L i proc xargs C =
    do { (ok, X2) \<leftarrow> rl_putlong L proc X1;
         (if \<not> ok then Some (None, dn X2) else do {
            (ok, X3) \<leftarrow> rl_marshall L (cl_auth C) X2;
            (if \<not> ok then Some (None, dn X3) else do { (ok, X4) \<leftarrow> xargs X3; Some (if ok then Some (x_private X4) else None, dn X4) }) }) }"
    unfolding encode_call_def Let_def scu_def [symmetric] xid_def [symmetric] X0 b(1) X1_def dn_def by simp
  have p: "enc_routine (rl_putlong L proc)" "enc_routine (rl_marshall L (cl_auth C))" using L by (simp_all add: lib_ok_def)
  obtain o2 X2 where 2: "rl_putlong L proc X1 = Some (o2, X2)" "o2 \<longrightarrow> after X1 X2" using enc_routineD [OF p(1) ok1] by blast
  show ?thesis
  proof (cases o2)
    case False
    then show ?thesis using that [of None X2] run 2 by (simp add: dn_def xid_def)
  next
    case True
    then have w2: "after X1 X2" using 2 by blast
    note ok2 = conjunct1 [OF after_ok [OF w2 ok1]] conjunct2 [OF after_ok [OF w2 ok1]]
    obtain o3 X3 where 3: "rl_marshall L (cl_auth C) X2 = Some (o3, X3)" "o3 \<longrightarrow> after X2 X3" using enc_routineD [OF p(2) ok2] by blast
    show ?thesis
    proof (cases o3)
      case False
      then show ?thesis using that [of None X3] run 2(1) \<open>o2\<close> 3 by (simp add: dn_def xid_def)
    next
      case o3: True
      then have w3: "after X1 X3" using 3 after_trans [OF w2] by blast
      note ok3 = conjunct1 [OF after_ok [OF w3 ok1]] conjunct2 [OF after_ok [OF w3 ok1]]
      obtain o4 X4 where 4: "xargs X3 = Some (o4, X4)" "o4 \<longrightarrow> after X3 X4" using enc_routineD [OF xargs ok3] by blast
      have R: "encode_call L i proc xargs C = Some (if o4 then Some (x_private X4) else None, dn X4)" using run 2(1) True 3(1) o3 4(1) by simp
      show ?thesis
      proof (rule that [OF R [unfolded dn_def xid_def]])
        fix n assume n: "(if o4 then Some (x_private X4) else None) = Some n"
        then have w4: "after X1 X4" "n = x_private X4" using 4(2) after_trans [OF w3] by (auto split: if_splits)
        note a = after_facts [OF w4(1), of 4]
        have "take 4 (x_buf X4) = put32 xid" "length (x_buf X4) = length (x_buf (scu_outxdrs scu))" "scu_xdrpos scu \<le> x_private X4"
          "x_private X4 + unat (x_handy X4) = x_private (scu_outxdrs scu) + unat (x_handy (scu_outxdrs scu))" using a f r(1,4) b(2,3) h by simp_all
        then show "slot_ready ((scu_at C i)\<lparr>scu_outxdrs := X4\<rparr>) \<and> 4 \<le> n \<and> n \<le> length (x_buf X4) \<and> take 4 (x_buf X4) = put32 (mcu_xid (cl_mcu C) + 0x10000)"
          using r w4(2) unfolding scu_def xid_def by (simp add: slot_ready_def Let_def)
      qed
    qed
  qed
qed

subsection \<open>A call ends\<close>

text \<open>There is always a later event that is neither a datagram nor a wakeup without one.\<close>

definition pausing :: "net_event \<Rightarrow> bool" where
  "pausing e \<longleftrightarrow> e \<noteq> WouldBlock \<and> (\<forall>d. e \<noteq> Datagram d)"

definition pauses :: "rnet \<Rightarrow> bool" where
  "pauses N \<longleftrightarrow> (\<forall>n. \<exists>m \<ge> n. pausing (net_ev N m))"

definition client_ready :: "('au, 'r) rclient \<Rightarrow> bool" where
  "client_ready C \<longleftrightarrow> 0 < length (mcu_scu (cl_mcu C)) \<and> slot_ready (scu_at C 0) \<and> unat (mcu_recvsz (cl_mcu C)) < 2 ^ 31 \<and>
     normal_time (mcu_wait (cl_mcu C)) \<and> 0 < us (mcu_wait (cl_mcu C)) \<and> pauses (w_net C)"

definition to_pause :: "rnet \<Rightarrow> nat" where
  "to_pause N = (LEAST k. pausing (net_ev N (net_evn N + k)))"

lemma to_pause_next:
  assumes "pauses N" and "\<not> pausing (net_ev N (net_evn N))"
  shows "to_pause (N\<lparr>net_evn := Suc (net_evn N)\<rparr>) < to_pause N"
proof -
  let ?P = "\<lambda>k. pausing (net_ev N (net_evn N + k))"
  obtain m where "m \<ge> net_evn N" "pausing (net_ev N m)" using assms(1) by (auto simp: pauses_def)
  then have "?P (m - net_evn N)" by simp
  then have l: "?P (to_pause N)" unfolding to_pause_def by (rule LeastI)
  then obtain k where k: "to_pause N = Suc k" using assms(2) by (cases "to_pause N") auto
  have "to_pause (N\<lparr>net_evn := Suc (net_evn N)\<rparr>) \<le> k"
    unfolding to_pause_def by (rule Least_le) (use l k in simp)
  then show ?thesis using k by simp
qed

lemma ready_next: "client_ready C \<Longrightarrow> client_ready (snd (next_event C))"
  by (simp add: client_ready_def next_event_def pauses_def)

lemma replied_keeps:
  assumes "replied_form i resp C C'"
  shows "slot_ready (scu_at C' j) = slot_ready (scu_at C j)" "x_buf (scu_outxdrs (scu_at C' j)) = x_buf (scu_outxdrs (scu_at C j))"
    "length (mcu_scu (cl_mcu C')) = length (mcu_scu (cl_mcu C))" "mcu_recvsz (cl_mcu C') = mcu_recvsz (cl_mcu C)" "mcu_wait (cl_mcu C') = mcu_wait (cl_mcu C)"
    "w_net C' = w_net C" "mcu_total (cl_mcu C') = mcu_total (cl_mcu C)"
proof -
  obtain f au err r where C': "C' = upd_scu i f (C\<lparr>w_res := (w_res C)(resp := r), cl_mcu := (cl_mcu C)\<lparr>mcu_error := err\<rparr>, cl_auth := au\<rparr>)"
    and f: "\<forall>s. \<exists>op. f s = s\<lparr>scu_outxdrs := (scu_outxdrs s)\<lparr>x_op := op\<rparr>\<rparr>" using assms unfolding replied_form_def by blast
  obtain op where op: "f (scu_at C i) = (scu_at C i)\<lparr>scu_outxdrs := (scu_outxdrs (scu_at C i))\<lparr>x_op := op\<rparr>\<rparr>" using f by blast
  then have s: "scu_at C' j = (if i = j \<and> i < length (mcu_scu (cl_mcu C)) then (scu_at C i)\<lparr>scu_outxdrs := (scu_outxdrs (scu_at C i))\<lparr>x_op := op\<rparr>\<rparr> else scu_at C j)"
    by (cases "i < length (mcu_scu (cl_mcu C))") (auto simp: C' nth_list_update list_update_beyond)
  show "slot_ready (scu_at C' j) = slot_ready (scu_at C j)" "x_buf (scu_outxdrs (scu_at C' j)) = x_buf (scu_outxdrs (scu_at C j))"
    using s by (auto simp: slot_ready_op)
  show "length (mcu_scu (cl_mcu C')) = length (mcu_scu (cl_mcu C))" "mcu_recvsz (cl_mcu C') = mcu_recvsz (cl_mcu C)" "mcu_wait (cl_mcu C') = mcu_wait (cl_mcu C)"
    "w_net C' = w_net C" "mcu_total (cl_mcu C') = mcu_total (cl_mcu C)" by (simp_all add: C')
qed

lemma ready_replied: "replied_form i resp C C' \<Longrightarrow> client_ready C \<Longrightarrow> client_ready C'"
  by (simp add: client_ready_def replied_keeps)

text \<open>Decoding results never fails to end.\<close>

definition decodes :: "'r xproc \<Rightarrow> 'r \<Rightarrow> bool" where
  "decodes p r \<longleftrightarrow> (\<forall>Y. stream_ok Y \<and> x_op Y = XDR_DECODE \<longrightarrow> p Y r \<noteq> None)"

lemma rpc_reply_ends:
  assumes "lib_ok L" and "decodes (rl_proc L xres) (w_res C resp)" and "length bs < 2 ^ 31"
  obtains fin C' where "rpc_reply L i xres resp bs n C = Some (fin, C')" "replied_form i resp C C'"
    "\<not> fin \<or> re_status (mcu_error (cl_mcu C')) = RPC_TIMEDOUT \<Longrightarrow> w_res C' = w_res C" "\<not> fin \<Longrightarrow> 0 < n"
proof -
  let ?X = "dec_stream (net_alloc (w_net C) (net_evn (w_net C))) bs"
  have "stream_ok ?X" "x_op ?X = XDR_DECODE" using dec_stream_ok [OF assms(3)] by simp_all
  then have "rl_replymsg L (rl_proc L xres) ?X (w_res C resp) \<noteq> None" using assms(1,2) unfolding lib_ok_def decodes_def by blast
  then obtain ok msg r where 1: "rl_replymsg L (rl_proc L xres) ?X (w_res C resp) = Some (ok, msg, r)" by auto
  then have "rpc_reply L i xres resp bs n C \<noteq> None" by (simp add: rpc_reply_def Let_def del: not_None_eq)
  then obtain fin C' where 2: "rpc_reply L i xres resp bs n C = Some (fin, C')" by auto
  have w: "w_res C' = (w_res C)(resp := r)" and form: "replied_form i resp C C'" and n: "\<not> fin \<Longrightarrow> 0 < n"
    by (rule rpc_reply_cases [OF 2]; use 1 in simp)+
  have same: "r = w_res C resp" if "\<not> fin \<or> re_status (mcu_error (cl_mcu C')) = RPC_TIMEDOUT"
  proof -
    have "ok" using 1 2 that by (auto simp: rpc_reply_def Let_def split: if_splits)
    moreover have "re_status (rl_seterr L msg (mcu_error (cl_mcu C))) \<noteq> RPC_SUCCESS"
    proof
      let ?e = "rl_seterr L msg (mcu_error (cl_mcu C))"
      assume s: "re_status ?e = RPC_SUCCESS"
      obtain valid au where v: "rl_validate L (cl_auth C) msg = (valid, au)" by fastforce
      define err where "err = (if valid then ?e else \<lparr>re_status = RPC_AUTHERROR, re_ru = 6\<rparr>)"
      let ?D = "C\<lparr>w_res := (w_res C)(resp := r), cl_mcu := (cl_mcu C)\<lparr>mcu_error := err\<rparr>, cl_auth := au\<rparr>"
      have e: "fin" "C' = (if rl_has_verf L msg then upd_scu i (\<lambda>s. s\<lparr>scu_outxdrs := (scu_outxdrs s)\<lparr>x_op := XDR_FREE\<rparr>\<rparr>) ?D else ?D)"
        using 2 1 \<open>ok\<close> s v by (auto simp: rpc_reply_def Let_def err_def)
      then have "re_status (mcu_error (cl_mcu C')) = re_status err" by (cases "rl_has_verf L msg") simp_all
      then have "re_status err = RPC_TIMEDOUT" using that e(1) by simp
      then show False using s by (simp add: err_def split: if_splits)
    qed
    ultimately show ?thesis using lib_same [OF assms(1)] 1 by simp
  qed
  then have "w_res C' = w_res C" if "\<not> fin \<or> re_status (mcu_error (cl_mcu C')) = RPC_TIMEDOUT" using that w by simp
  then show ?thesis using that [OF 2 form] n by blast
qed

subsection \<open>What a call does\<close>

definition call_frame :: "('au, 'r) rclient \<Rightarrow> ('au, 'r) rclient \<Rightarrow> bool" where
  "call_frame C C' \<longleftrightarrow> net_ev (w_net C') = net_ev (w_net C) \<and> net_alloc (w_net C') = net_alloc (w_net C) \<and> net_snd (w_net C') = net_snd (w_net C) \<and>
     net_evn (w_net C) \<le> net_evn (w_net C') \<and> (\<exists>out. net_out (w_net C') = net_out (w_net C) @ out) \<and>
     mcu_recvsz (cl_mcu C') = mcu_recvsz (cl_mcu C) \<and> mcu_wait (cl_mcu C') = mcu_wait (cl_mcu C) \<and> mcu_total (cl_mcu C') = mcu_total (cl_mcu C) \<and>
     w_res C' = w_res C"

lemma call_frame_refl: "call_frame C C"
  by (simp add: call_frame_def)

lemma call_frame_trans: "call_frame A B \<Longrightarrow> call_frame B C \<Longrightarrow> call_frame A C"
  by (auto simp: call_frame_def)

text \<open>The datagram \<open>inbuf\<close>, event \<open>k\<close>, is the answer to the message sent last, and the result of the call is what it decodes to.\<close>

definition call_answer :: "('au, 'm, 'r) rpclib \<Rightarrow> nat \<Rightarrow> nat \<Rightarrow> ('au, 'r) rclient \<Rightarrow> ('au, 'r) rclient \<Rightarrow> nat \<Rightarrow> u8 list \<Rightarrow> bool" where
  "call_answer L xres resp C C' k inbuf \<longleftrightarrow>
     net_evn (w_net C) \<le> k \<and> (\<exists>msg. net_ev (w_net C) k = Datagram msg \<and> inbuf = take (unat (mcu_recvsz (cl_mcu C))) msg) \<and> 4 \<le> length inbuf \<and>
     (\<exists>out. net_out (w_net C') = net_out (w_net C) @ out \<and> out \<noteq> [] \<and> get32 (take 4 (last out)) = get32 (take 4 inbuf)) \<and>
     (\<exists>msg au e r. rl_replymsg L (rl_proc L xres) (dec_stream (net_alloc (w_net C) (Suc k)) inbuf) (w_res C resp) = Some (True, msg, r) \<and>
        re_status (rl_seterr L msg e) = RPC_SUCCESS \<and> fst (rl_validate L au msg) \<and> w_res C' = (w_res C)(resp := r))"

lemma call_answer_frame: "call_frame C0 C \<Longrightarrow> call_answer L xres resp C C' k inbuf \<Longrightarrow> call_answer L xres resp C0 C' k inbuf"
proof -
  assume f: "call_frame C0 C" and a: "call_answer L xres resp C C' k inbuf"
  obtain o1 where o1: "net_out (w_net C) = net_out (w_net C0) @ o1" using f by (auto simp: call_frame_def)
  obtain o2 where o2: "net_out (w_net C') = net_out (w_net C) @ o2" "o2 \<noteq> []" "get32 (take 4 (last o2)) = get32 (take 4 inbuf)"
    using a by (auto simp: call_answer_def)
  have o: "\<exists>out. net_out (w_net C') = net_out (w_net C0) @ out \<and> out \<noteq> [] \<and> get32 (take 4 (last out)) = get32 (take 4 inbuf)"
    by (rule exI [of _ "o1 @ o2"]) (use o1 o2 in simp)
  from f a have le: "net_evn (w_net C0) \<le> k" by (simp add: call_frame_def call_answer_def)
  from f have e: "net_ev (w_net C) = net_ev (w_net C0)" "net_alloc (w_net C) = net_alloc (w_net C0)" "mcu_recvsz (cl_mcu C) = mcu_recvsz (cl_mcu C0)" "w_res C = w_res C0"
    by (simp_all add: call_frame_def)
  show ?thesis using a o le unfolding call_answer_def e by blast
qed

text \<open>What holds at every round of a call, and what gets smaller.\<close>

fun call_inv :: "('au, 'r) rclient \<Rightarrow> ('au, 'r) call_st \<Rightarrow> bool" where
  "call_inv C0 (sg, waited, n, len, C) \<longleftrightarrow>
     client_ready C \<and> normal_time waited \<and> call_frame C0 C \<and> 4 \<le> len \<and> len \<le> length (x_buf (scu_outxdrs (scu_at C 0))) \<and>
     (sg = Select \<longrightarrow> (\<exists>out. net_out (w_net C) = net_out (w_net C0) @ out \<and> out \<noteq> [] \<and> take 4 (last out) = take 4 (x_buf (scu_outxdrs (scu_at C 0)))))"

fun stage_rank :: "rpc_stage \<Rightarrow> nat" where
  "stage_rank SendAgain = 1"
| "stage_rank Select = 0"

definition call_order :: "timeval \<Rightarrow> (('au, 'r) call_st \<times> ('au, 'r) call_st) set" where
  "call_order t = measures [\<lambda>(sg, waited, n, len, C). nat n, \<lambda>(sg, waited, n, len, C). nat ((tv_sec t + 1) * 1000000 - us waited),
     \<lambda>(sg, waited, n, len, C). to_pause (w_net C), \<lambda>(sg, waited, n, len, C). stage_rank sg]"

fun call_end :: "('au, 'm, 'r) rpclib \<Rightarrow> nat \<Rightarrow> nat \<Rightarrow> ('au, 'r) rclient \<Rightarrow> (clnt_stat \<times> ('au, 'r) rclient) \<Rightarrow> bool" where
  "call_end L xres resp C0 (st, C) \<longleftrightarrow>
     (re_status (mcu_error (cl_mcu C)) = RPC_TIMEDOUT \<longrightarrow> client_ready C \<and> call_frame C0 C) \<and>
     (st = RPC_SUCCESS \<longrightarrow> (\<exists>k inbuf. call_answer L xres resp C0 C k inbuf))"

definition call_good :: "('au, 'm, 'r) rpclib \<Rightarrow> nat \<Rightarrow> nat \<Rightarrow> ('au, 'r) rclient \<Rightarrow> timeval \<Rightarrow> ('au, 'r) call_st \<Rightarrow>
    ((clnt_stat \<times> ('au, 'r) rclient) + ('au, 'r) call_st) option \<Rightarrow> bool" where
  "call_good L xres resp C0 t s r \<longleftrightarrow>
     (case r of None \<Rightarrow> False | Some (Inl a) \<Rightarrow> call_end L xres resp C0 a | Some (Inr s1) \<Rightarrow> call_inv C0 s1 \<and> (s1, s) \<in> call_order t)"

lemma call_end_ret: "client_ready C \<Longrightarrow> call_frame C0 C \<Longrightarrow> st \<noteq> RPC_SUCCESS \<Longrightarrow> call_end L xres resp C0 (ret st C)"
  "st \<noteq> RPC_TIMEDOUT \<Longrightarrow> st \<noteq> RPC_SUCCESS \<Longrightarrow> call_end L xres resp C0 (ret_errno st e C)"
  "st \<noteq> RPC_TIMEDOUT \<Longrightarrow> st \<noteq> RPC_SUCCESS \<Longrightarrow> call_end L xres resp C0 (ret st C)"
  by (simp_all add: ret_def ret_errno_def client_ready_def call_frame_def)

lemma sends_good:
  assumes "call_inv C0 (SendAgain, waited, n, len, C)"
  shows "call_good L xres resp C0 t (SendAgain, waited, n, len, C) (call_sends t waited n len C)"
proof -
  have r: "client_ready C" "normal_time waited" "call_frame C0 C" "4 \<le> len" "len \<le> length (x_buf (scu_outxdrs (scu_at C 0)))" using assms by simp_all
  define msg where "msg = take len (x_buf (scu_outxdrs (scu_at C 0)))"
  have m: "peek 0 len (x_buf (scu_outxdrs (scu_at C 0))) = Some msg" using r(5) by (simp add: peek_def msg_def)
  define C1 where "C1 = snd (transmit msg C)"
  have s: "send_message 0 len [] C = Some (net_snd (w_net C) (length (net_out (w_net C))), C1)"
    by (simp add: send_message_def m transmit_def C1_def)
  have c: "client_ready C1" "cl_mcu C1 = cl_mcu C" "to_pause (w_net C1) = to_pause (w_net C)"
    using r(1) by (simp_all add: C1_def transmit_def client_ready_def pauses_def to_pause_def)
  obtain out where out: "net_out (w_net C) = net_out (w_net C0) @ out" using r(3) by (auto simp: call_frame_def)
  have f: "call_frame C0 C1" using r(3) by (auto simp: call_frame_def C1_def transmit_def)
  have o1: "net_out (w_net C1) = net_out (w_net C0) @ (out @ [msg])" using out by (simp add: C1_def transmit_def)
  have t4: "take 4 msg = take 4 (x_buf (scu_outxdrs (scu_at C1 0)))" using r(4) c(2) by (simp add: msg_def)
  show ?thesis
  proof (cases "net_snd (w_net C) (length (net_out (w_net C)))")
    case None
    have i: "call_inv C0 (Select, waited, n, len, C1)" using r c f o1 t4 by (auto intro!: exI [of _ "out @ [msg]"])
    show ?thesis
    proof (cases "tv_sec t = 0 \<and> tv_usec t = 0")
      case True
      then show ?thesis using None call_end_ret(1) [OF c(1) f, of RPC_TIMEDOUT L xres resp] s by (simp add: call_sends_def call_good_def)
    next
      case False
      then have "call_sends t waited n len C = Some (Inr (Select, waited, n, len, C1))" using None s by (simp add: call_sends_def)
      then show ?thesis using i c(3) by (simp add: call_good_def call_order_def del: call_inv.simps)
    qed
  next
    case (Some e)
    then show ?thesis using call_end_ret(2) [of RPC_CANTSEND] s by (simp add: call_sends_def call_good_def)
  qed
qed

text \<open>A received datagram.\<close>

lemma replied_good:
  assumes L: "lib_ok L" and x: "enc_routine xargs" and p: "decodes (rl_proc L xres) (w_res C0 resp)"
    and inv: "client_ready C1" "normal_time waited" "call_frame C0 C1"
    and k: "net_evn (w_net C0) \<le> k" "net_ev (w_net C0) k = Datagram msg" "inbuf = take (unat (mcu_recvsz (cl_mcu C0))) msg" "4 \<le> length inbuf" "net_evn (w_net C1) = Suc k"
    and out: "net_out (w_net C1) = net_out (w_net C0) @ out" "out \<noteq> []" "get32 (take 4 (last out)) = get32 (take 4 inbuf)"
  shows "call_good L xres resp C0 t (Select, waited, n, len, C) (call_replied L proc xargs xres resp inbuf waited n C1)"
proof -
  have f: "mcu_recvsz (cl_mcu C1) = mcu_recvsz (cl_mcu C0)" "w_res C1 = w_res C0" "net_alloc (w_net C1) = net_alloc (w_net C0)" using inv(3) by (simp_all add: call_frame_def)
  have "length inbuf \<le> unat (mcu_recvsz (cl_mcu C1))" using k(3) f(1) by simp
  then have len: "length inbuf < 2 ^ 31" using inv(1) by (simp add: client_ready_def)
  obtain fin C2 where 2: "rpc_reply L 0 xres resp inbuf n C1 = Some (fin, C2)" "replied_form 0 resp C1 C2"
    "\<not> fin \<or> re_status (mcu_error (cl_mcu C2)) = RPC_TIMEDOUT \<Longrightarrow> w_res C2 = w_res C1" "\<not> fin \<Longrightarrow> 0 < n"
    by (rule rpc_reply_ends [OF L, of xres C1 resp inbuf 0 n]) (use p f(2) len in auto)
  have r2: "client_ready C2" by (rule ready_replied [OF 2(2) inv(1)])
  have f2: "call_frame C0 C2" if "w_res C2 = w_res C1" using inv(3) replied_keeps [OF 2(2)] that by (simp add: call_frame_def)
  show ?thesis
  proof (cases fin)
    case True
    obtain ok m r where rep: "rl_replymsg L (rl_proc L xres) (dec_stream (net_alloc (w_net C1) (net_evn (w_net C1))) inbuf) (w_res C1 resp) = Some (ok, m, r)"
      "w_res C2 = (w_res C1)(resp := r)"
      "re_status (mcu_error (cl_mcu C2)) = RPC_SUCCESS \<Longrightarrow> ok \<and> re_status (rl_seterr L m (mcu_error (cl_mcu C1))) = RPC_SUCCESS \<and> fst (rl_validate L (cl_auth C1) m)"
      by (rule rpc_reply_cases [OF 2(1)]; blast)
    have ans: "call_answer L xres resp C0 C2 k inbuf" if s: "re_status (mcu_error (cl_mcu C2)) = RPC_SUCCESS"
      unfolding call_answer_def
    proof (intro conjI)
      have "ok" "re_status (rl_seterr L m (mcu_error (cl_mcu C1))) = RPC_SUCCESS" "fst (rl_validate L (cl_auth C1) m)" using rep(3) [OF s] by simp_all
      then show "\<exists>msg au e r. rl_replymsg L (rl_proc L xres) (dec_stream (net_alloc (w_net C0) (Suc k)) inbuf) (w_res C0 resp) = Some (True, msg, r) \<and>
          re_status (rl_seterr L msg e) = RPC_SUCCESS \<and> fst (rl_validate L au msg) \<and> w_res C2 = (w_res C0)(resp := r)"
        using rep(1,2) f(2,3) k(5) by auto
    qed (use k out replied_keeps(6) [OF 2(2)] in auto)
    have "call_replied L proc xargs xres resp inbuf waited n C1 = Some (Inl (re_status (mcu_error (cl_mcu C2)), C2))"
      using True 2(1) by (simp add: call_replied_def)
    then show ?thesis using ans r2 f2 2(3) by (auto simp: call_good_def)
  next
    case False
    have f3: "call_frame C0 C2" using f2 2(3) False by simp
    have s: "slot_ready (scu_at C2 0)" "0 < length (mcu_scu (cl_mcu C2))" using r2 by (simp_all add: client_ready_def)
    obtain l X where e: "encode_call L 0 proc xargs C2 = Some (l, upd_mcu (\<lambda>cu. cu\<lparr>mcu_xid := mcu_xid (cl_mcu C2) + 0x10000\<rparr>) (upd_scu 0 (\<lambda>s. s\<lparr>scu_outxdrs := X\<rparr>) C2))"
      "\<And>n. l = Some n \<Longrightarrow> slot_ready ((scu_at C2 0)\<lparr>scu_outxdrs := X\<rparr>) \<and> 4 \<le> n \<and> n \<le> length (x_buf X) \<and> take 4 (x_buf X) = put32 (mcu_xid (cl_mcu C2) + 0x10000)"
      by (rule encode_call_ok [OF L s(1) x, of proc]) blast
    let ?C3 = "upd_mcu (\<lambda>cu. cu\<lparr>mcu_xid := mcu_xid (cl_mcu C2) + 0x10000\<rparr>) (upd_scu 0 (\<lambda>s. s\<lparr>scu_outxdrs := X\<rparr>) C2)"
    show ?thesis
    proof (cases l)
      case None
      then show ?thesis using 2(1) e(1) False call_end_ret(3) [of RPC_CANTENCODEARGS] by (simp add: call_replied_def call_good_def)
    next
      case (Some m)
      have i: "call_inv C0 (SendAgain, waited, n - 1, m, ?C3)" using e(2) [OF Some] r2 inv(2) f3 by (simp add: client_ready_def call_frame_def)
      have "call_replied L proc xargs xres resp inbuf waited n C1 = Some (Inr (SendAgain, waited, n - 1, m, ?C3))"
        using 2(1) e(1) False Some by (simp add: call_replied_def)
      then show ?thesis using i 2(4) False by (simp add: call_good_def call_order_def del: call_inv.simps)
    qed
  qed
qed

lemma selects_good:
  assumes L: "lib_ok L" and x: "enc_routine xargs" and p: "decodes (rl_proc L xres) (w_res C0 resp)" and inv: "call_inv C0 (Select, waited, n, len, C)"
  shows "call_good L xres resp C0 t (Select, waited, n, len, C) (call_selects L proc xargs xres resp t waited n len C)"
proof -
  have r: "client_ready C" "normal_time waited" "call_frame C0 C" "4 \<le> len" "len \<le> length (x_buf (scu_outxdrs (scu_at C 0)))" using inv by simp_all
  obtain out where out: "net_out (w_net C) = net_out (w_net C0) @ out" "out \<noteq> []" "take 4 (last out) = take 4 (x_buf (scu_outxdrs (scu_at C 0)))" using inv by auto
  define C1 where "C1 = snd (next_event C)"
  have c: "client_ready C1" "cl_mcu C1 = cl_mcu C" "w_net C1 = (w_net C)\<lparr>net_evn := Suc (net_evn (w_net C))\<rparr>"
    using ready_next [OF r(1)] by (simp_all add: C1_def next_event_def)
  have f: "call_frame C0 C1" using r(3) by (auto simp: call_frame_def C1_def next_event_def)
  have fr: "net_ev (w_net C) = net_ev (w_net C0)" "mcu_recvsz (cl_mcu C) = mcu_recvsz (cl_mcu C0)" "net_evn (w_net C0) \<le> net_evn (w_net C)" using r(3) by (simp_all add: call_frame_def)
  have w: "normal_time (mcu_wait (cl_mcu C))" "0 < us (mcu_wait (cl_mcu C))" "pauses (w_net C)" using r(1) by (simp_all add: client_ready_def)
  have ev: "fst (next_event C) = net_ev (w_net C) (net_evn (w_net C))" by (simp add: next_event_def)
  have i1: "call_inv C0 (Select, waited, n, len, C1)" using r c f out by (auto intro!: exI [of _ out])
  have on: "call_good L xres resp C0 t (Select, waited, n, len, C) (Some (Inr (Select, waited, n, len, C1)))" if np: "\<not> pausing (net_ev (w_net C) (net_evn (w_net C)))"
    using to_pause_next [OF w(3) np] i1 c(3) by (simp add: call_good_def call_order_def del: call_inv.simps)
  note d = call_selects_def [of L proc xargs xres resp t waited n len C, folded C1_def]
  show ?thesis
  proof (cases "net_ev (w_net C) (net_evn (w_net C))")
    case Silent
    let ?w = "add_timeval waited (mcu_wait (cl_mcu C1))"
    have nw: "normal_time ?w" using add_timeval_normal r(2) w(1) c(2) by simp
    show ?thesis
    proof (cases "less_timeval ?w t")
      case True
      have "us ?w < (tv_sec t + 1) * 1000000" by (rule less_timeval_bound [OF nw True])
      then have o: "((SendAgain, ?w, n, len, C1), (Select, waited, n, len, C)) \<in> call_order t" using w(2) c(2) by (simp add: call_order_def)
      have "call_inv C0 (SendAgain, ?w, n, len, C1)" using i1 nw by simp
      then show ?thesis using True Silent o by (simp add: d ev call_good_def Let_def del: call_inv.simps)
    next
      case False
      then show ?thesis using Silent call_end_ret(1) [OF c(1) f, of RPC_TIMEDOUT L xres resp] by (simp add: d ev call_good_def Let_def)
    qed
  next
    case (SelectError e)
    then show ?thesis using call_end_ret(2) [of RPC_CANTRECV] by (simp add: d ev call_good_def Let_def)
  next
    case WouldBlock
    then show ?thesis using on by (simp add: d ev pausing_def)
  next
    case (RecvError e)
    then show ?thesis using call_end_ret(2) [of RPC_CANTRECV] by (simp add: d ev call_good_def Let_def)
  next
    case (Datagram msg)
    define inbuf where "inbuf = take (unat (mcu_recvsz (cl_mcu C1))) msg"
    have on1: "call_good L xres resp C0 t (Select, waited, n, len, C) (Some (Inr (Select, waited, n, len, C1)))" using on Datagram by (simp add: pausing_def)
    show ?thesis
    proof (cases "4 \<le> length inbuf \<and> get32 (take 4 inbuf) = get32 (take 4 (x_buf (scu_outxdrs (scu_at C1 0))))")
      case True
      have ib: "inbuf = take (unat (mcu_recvsz (cl_mcu C0))) msg" by (simp add: inbuf_def c fr)
      have "call_good L xres resp C0 t (Select, waited, n, len, C) (call_replied L proc xargs xres resp inbuf waited n C1)"
        by (rule replied_good [OF L x p c(1) r(2) f fr(3) _ ib, where out = out])
          (use Datagram fr c out True in simp_all)
      then show ?thesis using True Datagram by (simp add: d ev Let_def inbuf_def [symmetric] del: length_take)
    next
      case False
      then show ?thesis using on1 Datagram by (auto simp: d ev Let_def inbuf_def [symmetric] simp del: length_take)
    qed
  qed
qed

lemma call_step_good:
  assumes "lib_ok L" and "enc_routine xargs" and "decodes (rl_proc L xres) (w_res C0 resp)" and "call_inv C0 s"
  shows "call_good L xres resp C0 t s (call_step L proc xargs xres resp t s)"
proof -
  obtain sg waited n len C where s: "s = (sg, waited, n, len, C)" by (cases s)
  show ?thesis
    using selects_good [OF assms(1-3)] sends_good assms(4) unfolding s by (cases sg) (simp_all del: call_inv.simps)
qed

text \<open>A call returns; after a timeout the client is as ready as before, and after a success it has an answer.\<close>

lemma call_ends:
  assumes L: "lib_ok L" and x: "enc_routine xargs" and p: "decodes (rl_proc L xres) (w_res C resp)" and c: "client_ready C"
  shows "\<exists>st C'. clntaudp_call L proc xargs xres resp t C = Some (st, C') \<and> call_end L xres resp C (st, C')"
proof -
  have s: "slot_ready (scu_at C 0)" "0 < length (mcu_scu (cl_mcu C))" using c by (simp_all add: client_ready_def)
  obtain l X where e: "encode_call L 0 proc xargs C = Some (l, upd_mcu (\<lambda>cu. cu\<lparr>mcu_xid := mcu_xid (cl_mcu C) + 0x10000\<rparr>) (upd_scu 0 (\<lambda>s. s\<lparr>scu_outxdrs := X\<rparr>) C))"
    "\<And>n. l = Some n \<Longrightarrow> slot_ready ((scu_at C 0)\<lparr>scu_outxdrs := X\<rparr>) \<and> 4 \<le> n \<and> n \<le> length (x_buf X) \<and> take 4 (x_buf X) = put32 (mcu_xid (cl_mcu C) + 0x10000)"
    by (rule encode_call_ok [OF L s(1) x, of proc]) blast
  let ?C1 = "upd_mcu (\<lambda>cu. cu\<lparr>mcu_xid := mcu_xid (cl_mcu C) + 0x10000\<rparr>) (upd_scu 0 (\<lambda>s. s\<lparr>scu_outxdrs := X\<rparr>) C)"
  show ?thesis
  proof (cases l)
    case None
    then show ?thesis using e(1) call_end_ret(3) [of RPC_CANTENCODEARGS L xres resp C ?C1] by (simp add: clntaudp_call_def ret_def)
  next
    case (Some k)
    let ?t = "rpc_timeout C t" and ?s = "(SendAgain, zero_timeval, 2, k, ?C1)"
    have i: "call_inv C ?s" using e(2) [OF Some] c by (simp add: client_ready_def call_frame_def)
    note g = call_step_good [OF L x p, where t = ?t and proc = proc]
    have run: "run_loop (call_step L proc xargs xres resp ?t) ?s \<noteq> None"
    proof (rule run_loop_returns [where R = "call_order ?t" and I = "call_inv C", OF _ i])
      show "wf (call_order ?t)" by (simp add: call_order_def)
    next
      fix s assume "call_inv C s"
      then show "call_step L proc xargs xres resp ?t s \<noteq> None" using g [of s] by (cases "call_step L proc xargs xres resp ?t s") (simp_all add: call_good_def)
    next
      fix s s1 assume "call_inv C s" "call_step L proc xargs xres resp ?t s = Some (Inr s1)"
      then show "call_inv C s1 \<and> (s1, s) \<in> call_order ?t" using g [of s] by (simp add: call_good_def)
    qed
    then obtain a where a: "run_loop (call_step L proc xargs xres resp ?t) ?s = Some a" by auto
    have "call_end L xres resp C a"
    proof (rule run_loop_inv [where I = "call_inv C", OF a i])
      fix s b assume "call_inv C s" "call_step L proc xargs xres resp ?t s = Some (Inl b)"
      then show "call_end L xres resp C b" using g [of s] by (simp add: call_good_def)
    next
      fix s s1 assume "call_inv C s" "call_step L proc xargs xres resp ?t s = Some (Inr s1)"
      then show "call_inv C s1" using g [of s] by (simp add: call_good_def)
    qed
    then show ?thesis using a e(1) Some by (cases a) (simp add: clntaudp_call_def)
  qed
qed

subsection \<open>A silent server\<close>

text \<open>Nothing is heard from the network, and every transmission succeeds.\<close>

definition silent_net :: "rnet \<Rightarrow> bool" where
  "silent_net N \<longleftrightarrow> (\<forall>n. net_ev N n = Silent \<and> net_snd N n = None)"

lemma silent_pauses: "silent_net N \<Longrightarrow> pauses N"
  by (auto simp: silent_net_def pauses_def pausing_def)

text \<open>\<open>waits t w\<close> waits of length \<open>w\<close> cover the time \<open>t\<close>.\<close>

definition waits :: "int \<Rightarrow> int \<Rightarrow> nat" where
  "waits t w = nat ((t - 1) div w + 1)"

lemma waits_one: "0 < t \<Longrightarrow> t \<le> w \<Longrightarrow> waits t w = 1"
  by (simp add: waits_def div_pos_pos_trivial)

lemma waits_more: "w < t \<Longrightarrow> 0 < w \<Longrightarrow> waits t w = Suc (waits (t - w) w)"
proof -
  assume a: "w < t" "0 < w"
  have "(t - 1) div w = (t - w - 1) div w + 1" using a div_add_self2 [of w "t - w - 1"] by simp
  moreover have "0 \<le> (t - w - 1) div w" using a by (simp add: pos_imp_zdiv_nonneg_iff)
  ultimately show ?thesis by (simp add: waits_def nat_add_distrib)
qed

text \<open>The message is sent, and sent again after each wait that does not exhaust the time.\<close>

lemma silent_rounds:
  assumes "silent_net (w_net C)" and "normal_time waited" and "normal_time t" and "normal_time (mcu_wait (cl_mcu C))" and "0 < us (mcu_wait (cl_mcu C))"
    and "us waited < us t" and "peek 0 len (x_buf (scu_outxdrs (scu_at C 0))) = Some msg"
  shows "\<exists>C'. run_loop (call_step L proc xargs xres resp t) (SendAgain, waited, n, len, C) = Some (ret RPC_TIMEDOUT C') \<and>
     net_out (w_net C') = net_out (w_net C) @ replicate (waits (us t - us waited) (us (mcu_wait (cl_mcu C)))) msg"
  using assms
proof (induction "nat (us t - us waited)" arbitrary: waited C rule: less_induct)
  case less
  let ?w = "mcu_wait (cl_mcu C)"
  define C1 where "C1 = snd (transmit msg C)"
  define C2 where "C2 = snd (next_event C1)"
  have s: "send_message 0 len [] C = Some (None, C1)" using less.prems(1,7) by (simp add: send_message_def transmit_def C1_def silent_net_def)
  have nz: "\<not> (tv_sec t = 0 \<and> tv_usec t = 0)" using less.prems(2,6) by (auto simp: us_def normal_time_def)
  have c: "cl_mcu C2 = cl_mcu C" "net_out (w_net C2) = net_out (w_net C) @ [msg]" "silent_net (w_net C2)" "cl_mcu C1 = cl_mcu C"
    using less.prems(1) by (simp_all add: C2_def C1_def transmit_def next_event_def silent_net_def)
  have ev: "fst (next_event C1) = Silent" using less.prems(1) by (simp add: C1_def transmit_def next_event_def silent_net_def)
  have nw: "normal_time (add_timeval waited ?w)" using add_timeval_normal less.prems(2,4) by blast
  have s1: "call_step L proc xargs xres resp t (SendAgain, waited, n, len, C) = Some (Inr (Select, waited, n, len, C1))"
    using s nz by (simp add: call_sends_def)
  have s2: "call_step L proc xargs xres resp t (Select, waited, n, len, C1) =
      Some (if less_timeval (add_timeval waited ?w) t then Inr (SendAgain, add_timeval waited ?w, n, len, C2) else Inl (ret RPC_TIMEDOUT C2))"
    using ev c(1) by (simp add: call_selects_def C2_def [symmetric])
  note run = run_loop.simps [of "call_step L proc xargs xres resp t"]
  show ?case
  proof (cases "us waited + us ?w < us t")
    case True
    have "nat (us t - us (add_timeval waited ?w)) < nat (us t - us waited)" using True less.prems(5) by simp
    then obtain C' where C': "run_loop (call_step L proc xargs xres resp t) (SendAgain, add_timeval waited ?w, n, len, C2) = Some (ret RPC_TIMEDOUT C')"
      "net_out (w_net C') = net_out (w_net C2) @ replicate (waits (us t - us (add_timeval waited ?w)) (us ?w)) msg"
      using less.hyps [of "add_timeval waited ?w" C2] c nw True less.prems by auto
    have "waits (us t - us waited) (us ?w) = Suc (waits (us t - us (add_timeval waited ?w)) (us ?w))"
      using waits_more [of "us ?w" "us t - us waited"] True less.prems(5) by (simp add: algebra_simps)
    then have "net_out (w_net C') = net_out (w_net C) @ replicate (waits (us t - us waited) (us ?w)) msg" using C'(2) c(2) by simp
    moreover have "less_timeval (add_timeval waited ?w) t" using True less_timeval_us [OF nw less.prems(3)] by simp
    ultimately show ?thesis using C'(1) s1 s2 by (subst run, simp del: call_step.simps, subst run, auto simp del: call_step.simps)
  next
    case False
    then have "waits (us t - us waited) (us ?w) = 1" using waits_one less.prems(6) by simp
    moreover have "\<not> less_timeval (add_timeval waited ?w) t" using False less_timeval_us [OF nw less.prems(3)] by simp
    ultimately show ?thesis using s1 s2 c(2)
      by (intro exI [of _ C2], subst run, simp del: call_step.simps, subst run, simp del: call_step.simps)
  qed
qed

lemma silent_call:
  assumes L: "lib_ok L" and x: "enc_routine xargs" and c: "client_ready C" and q: "silent_net (w_net C)" and t: "normal_time (rpc_timeout C t)" "0 < us (rpc_timeout C t)"
  shows "(\<exists>C1 C'. encode_call L 0 proc xargs C = Some (None, C1) \<and> clntaudp_call L proc xargs xres resp t C = Some (RPC_CANTENCODEARGS, C') \<and>
       net_out (w_net C') = net_out (w_net C)) \<or>
    (\<exists>n C1 C' msg. encode_call L 0 proc xargs C = Some (Some n, C1) \<and> msg = take n (x_buf (scu_outxdrs (scu_at C1 0))) \<and>
       clntaudp_call L proc xargs xres resp t C = Some (RPC_TIMEDOUT, C') \<and>
       net_out (w_net C') = net_out (w_net C) @ replicate (waits (us (rpc_timeout C t)) (us (mcu_wait (cl_mcu C)))) msg \<and>
       take 4 msg = put32 (mcu_xid (cl_mcu C) + 0x10000))"
proof -
  have s: "slot_ready (scu_at C 0)" using c by (simp add: client_ready_def)
  obtain l X where e: "encode_call L 0 proc xargs C = Some (l, upd_mcu (\<lambda>cu. cu\<lparr>mcu_xid := mcu_xid (cl_mcu C) + 0x10000\<rparr>) (upd_scu 0 (\<lambda>s. s\<lparr>scu_outxdrs := X\<rparr>) C))"
    "\<And>n. l = Some n \<Longrightarrow> slot_ready ((scu_at C 0)\<lparr>scu_outxdrs := X\<rparr>) \<and> 4 \<le> n \<and> n \<le> length (x_buf X) \<and> take 4 (x_buf X) = put32 (mcu_xid (cl_mcu C) + 0x10000)"
    by (rule encode_call_ok [OF L s x, of proc]) blast
  let ?C1 = "upd_mcu (\<lambda>cu. cu\<lparr>mcu_xid := mcu_xid (cl_mcu C) + 0x10000\<rparr>) (upd_scu 0 (\<lambda>s. s\<lparr>scu_outxdrs := X\<rparr>) C)"
  show ?thesis
  proof (cases l)
    case None
    then show ?thesis using e(1) by (simp add: clntaudp_call_def ret_def)
  next
    case (Some n)
    let ?t = "rpc_timeout C t"
    have n: "4 \<le> n" "n \<le> length (x_buf X)" "take 4 (x_buf X) = put32 (mcu_xid (cl_mcu C) + 0x10000)" using e(2) [OF Some] by simp_all
    have p: "peek 0 n (x_buf (scu_outxdrs (scu_at ?C1 0))) = Some (take n (x_buf X))" using c n(2) by (simp add: client_ready_def peek_def)
    obtain C' where "run_loop (call_step L proc xargs xres resp ?t) (SendAgain, zero_timeval, 2, n, ?C1) = Some (ret RPC_TIMEDOUT C')"
      "net_out (w_net C') = net_out (w_net C) @ replicate (waits (us ?t) (us (mcu_wait (cl_mcu C)))) (take n (x_buf X))"
      using silent_rounds [of ?C1 zero_timeval ?t n "take n (x_buf X)" L proc xargs xres resp 2] q t c p by (auto simp: client_ready_def)
    then have "clntaudp_call L proc xargs xres resp t C = Some (ret RPC_TIMEDOUT C')" using e(1) Some by (simp add: clntaudp_call_def)
    moreover have "take 4 (take n (x_buf X)) = put32 (mcu_xid (cl_mcu C) + 0x10000)" using n by (simp add: min_def)
    moreover have "x_buf (scu_outxdrs (scu_at ?C1 0)) = x_buf X" using c by (simp add: client_ready_def)
    moreover have "encode_call L 0 proc xargs C = Some (Some n, ?C1)" using e(1) Some by simp
    ultimately show ?thesis using \<open>net_out (w_net C') = _\<close>
      by (intro disjI2 exI [of _ n] exI [of _ ?C1] exI [of _ "snd (ret RPC_TIMEDOUT C')"] exI [of _ "take n (x_buf X)"]) (simp add: ret_def)
  qed
qed

subsection \<open>The status\<close>

lemma ret_status: "ret st C = (a, C') \<Longrightarrow> re_status (mcu_error (cl_mcu C')) = a" "ret_errno st e C = (a, C') \<Longrightarrow> re_status (mcu_error (cl_mcu C')) = a"
  by (auto simp: ret_def ret_errno_def)

lemma call_step_status:
  assumes "call_step L proc xargs xres resp t s = Some (Inl (st, C'))"
  shows "re_status (mcu_error (cl_mcu C')) = st"
proof -
  obtain sg w n len C where s: "s = (sg, w, n, len, C)" by (cases s)
  have rep: "re_status (mcu_error (cl_mcu C')) = st" if r: "call_replied L proc xargs xres resp inbuf w n C1 = Some (Inl (st, C'))" for inbuf C1
    using r unfolding call_replied_def
    by (auto simp: bind_eq_Some_conv dest!: ret_status split: if_splits option.splits)
  show ?thesis
  proof (cases sg)
    case SendAgain
    then show ?thesis using assms unfolding s by (auto simp: call_sends_def dest!: ret_status split: if_splits option.splits)
  next
    case Select
    then show ?thesis using assms rep unfolding s
      by (auto simp: call_selects_def Let_def dest!: ret_status split: if_splits net_event.splits)
  qed
qed

lemma call_status:
  assumes "clntaudp_call L proc xargs xres resp t C = Some (st, C')"
  shows "re_status (mcu_error (cl_mcu C')) = st"
proof -
  obtain l C1 where 1: "encode_call L 0 proc xargs C = Some (l, C1)" using assms by (auto simp: clntaudp_call_def bind_eq_Some_conv)
  show ?thesis
  proof (cases l)
    case None
    then show ?thesis using assms 1 by (auto simp: clntaudp_call_def dest!: ret_status)
  next
    case (Some n)
    then have run: "run_loop (call_step L proc xargs xres resp (rpc_timeout C t)) (SendAgain, zero_timeval, 2, n, C1) = Some (st, C')"
      using assms 1 by (simp add: clntaudp_call_def)
    have "(\<lambda>(st, C'). re_status (mcu_error (cl_mcu C')) = st) (st, C')"
      by (rule run_loop_inv [OF run, where I = "\<lambda>s. True"]) (auto dest: call_step_status)
    then show ?thesis by simp
  qed
qed

subsection \<open>An answer\<close>

lemma rpc_reply_success:
  assumes "rl_replymsg L (rl_proc L xres) (dec_stream (net_alloc (w_net C) (net_evn (w_net C))) bs) (w_res C resp) = Some (True, msg, r)"
    and "\<forall>e. re_status (rl_seterr L msg e) = RPC_SUCCESS" and "\<forall>au. fst (rl_validate L au msg)"
  shows "\<exists>C'. rpc_reply L i xres resp bs n C = Some (True, C') \<and> re_status (mcu_error (cl_mcu C')) = RPC_SUCCESS \<and> w_res C' = (w_res C)(resp := r)"
proof -
  obtain valid au where v: "rl_validate L (cl_auth C) msg = (valid, au)" by fastforce
  then have "valid" using assms(3) by (metis fst_conv)
  then show ?thesis using assms v by (cases "rl_has_verf L msg") (simp_all add: rpc_reply_def Let_def)
qed


text \<open>Events that the call goes over: no datagram, or one that is too short or carries another transaction number.\<close>

definition ignored :: "nat \<Rightarrow> u32 \<Rightarrow> net_event \<Rightarrow> bool" where
  "ignored sz xid e \<longleftrightarrow> e = WouldBlock \<or> (\<exists>d. e = Datagram d \<and> (length (take sz d) < 4 \<or> get32 (take 4 (take sz d)) \<noteq> xid))"

lemma skip_event:
  assumes "ignored (unat (mcu_recvsz (cl_mcu C))) (get32 (take 4 (x_buf (scu_outxdrs (scu_at C 0))))) (net_ev (w_net C) (net_evn (w_net C)))"
  shows "run_loop (call_step L proc xargs xres resp t) (Select, w, n, len, C) = run_loop (call_step L proc xargs xres resp t) (Select, w, n, len, snd (next_event C))"
proof -
  have "call_step L proc xargs xres resp t (Select, w, n, len, C) = Some (Inr (Select, w, n, len, snd (next_event C)))"
    using assms by (auto simp: call_selects_def next_event_def ignored_def Let_def)
  then show ?thesis by (subst run_loop.simps) simp
qed

lemma skip_events:
  assumes "\<forall>i < j. ignored (unat (mcu_recvsz (cl_mcu C))) (get32 (take 4 (x_buf (scu_outxdrs (scu_at C 0))))) (net_ev (w_net C) (net_evn (w_net C) + i))"
  shows "run_loop (call_step L proc xargs xres resp t) (Select, w, n, len, C) =
    run_loop (call_step L proc xargs xres resp t) (Select, w, n, len, C\<lparr>w_net := (w_net C)\<lparr>net_evn := net_evn (w_net C) + j\<rparr>\<rparr>)"
  using assms
proof (induction j arbitrary: C)
  case (Suc j)
  have i: "ignored (unat (mcu_recvsz (cl_mcu C))) (get32 (take 4 (x_buf (scu_outxdrs (scu_at C 0))))) (net_ev (w_net C) (net_evn (w_net C)))"
    using Suc.prems [rule_format, of 0] by simp
  have "\<forall>k < j. ignored (unat (mcu_recvsz (cl_mcu C))) (get32 (take 4 (x_buf (scu_outxdrs (scu_at C 0))))) (net_ev (w_net C) (Suc (net_evn (w_net C)) + k))"
    using Suc.prems by (metis Suc_less_eq add_Suc_shift)
  then show ?case using Suc.IH [of "snd (next_event C)"] by (subst skip_event [OF i]) (simp add: next_event_def)
qed simp

text \<open>The call is sent; then, after events that are gone over, comes a datagram with its transaction number that the library accepts.\<close>

lemma answered_call:
  assumes L: "lib_ok L" and x: "enc_routine xargs" and c: "client_ready C" and e: "encode_call L 0 proc xargs C = Some (Some len, C1)"
    and snd: "net_snd (w_net C) (length (net_out (w_net C))) = None" and t: "\<not> (tv_sec (rpc_timeout C t) = 0 \<and> tv_usec (rpc_timeout C t) = 0)"
    and j: "\<forall>i < j. ignored (unat (mcu_recvsz (cl_mcu C))) (mcu_xid (cl_mcu C) + 0x10000) (net_ev (w_net C) (net_evn (w_net C) + i))"
    and ev: "net_ev (w_net C) (net_evn (w_net C) + j) = Datagram bs" "4 \<le> length bs" "length bs \<le> unat (mcu_recvsz (cl_mcu C))"
      "get32 (take 4 bs) = mcu_xid (cl_mcu C) + 0x10000"
    and rep: "rl_replymsg L (rl_proc L xres) (dec_stream (net_alloc (w_net C) (Suc (net_evn (w_net C) + j))) bs) (w_res C resp) = Some (True, msg, r)"
      "\<forall>e. re_status (rl_seterr L msg e) = RPC_SUCCESS" "\<forall>au. fst (rl_validate L au msg)"
  shows "\<exists>C'. clntaudp_call L proc xargs xres resp t C = Some (RPC_SUCCESS, C') \<and> w_res C' = (w_res C)(resp := r)"
proof -
  let ?xid = "mcu_xid (cl_mcu C) + 0x10000"
  have s: "slot_ready (scu_at C 0)" "0 < length (mcu_scu (cl_mcu C))" using c by (simp_all add: client_ready_def)
  obtain l X where e2: "encode_call L 0 proc xargs C = Some (l, upd_mcu (\<lambda>cu. cu\<lparr>mcu_xid := ?xid\<rparr>) (upd_scu 0 (\<lambda>s. s\<lparr>scu_outxdrs := X\<rparr>) C))"
    "\<And>n. l = Some n \<Longrightarrow> slot_ready ((scu_at C 0)\<lparr>scu_outxdrs := X\<rparr>) \<and> 4 \<le> n \<and> n \<le> length (x_buf X) \<and> take 4 (x_buf X) = put32 ?xid"
    by (rule encode_call_ok [OF L s(1) x, of proc]) blast
  have l: "l = Some len" "C1 = upd_mcu (\<lambda>cu. cu\<lparr>mcu_xid := ?xid\<rparr>) (upd_scu 0 (\<lambda>s. s\<lparr>scu_outxdrs := X\<rparr>) C)" using e e2(1) by simp_all
  have X: "4 \<le> len" "len \<le> length (x_buf X)" "take 4 (x_buf X) = put32 ?xid" using e2(2) [OF l(1)] by simp_all
  have b: "x_buf (scu_outxdrs (scu_at C1 0)) = x_buf X" using s(2) l(2) by simp
  define C2 where "C2 = C1\<lparr>w_net := (w_net C)\<lparr>net_out := net_out (w_net C) @ [take len (x_buf X)]\<rparr>\<rparr>"
  define C3 where "C3 = C2\<lparr>w_net := (w_net C2)\<lparr>net_evn := net_evn (w_net C) + j\<rparr>\<rparr>"
  define C4 where "C4 = snd (next_event C3)"
  have m: "send_message 0 len [] C1 = Some (None, C2)" using X(2) b snd l(2) by (simp add: send_message_def peek_def transmit_def C2_def)
  let ?step = "call_step L proc xargs xres resp (rpc_timeout C t)"
  have c2: "x_buf (scu_outxdrs (scu_at C2 0)) = x_buf X" "mcu_recvsz (cl_mcu C2) = mcu_recvsz (cl_mcu C)" "w_net C2 = (w_net C)\<lparr>net_out := net_out (w_net C) @ [take len (x_buf X)]\<rparr>"
    "w_res C2 = w_res C" using b l(2) by (simp_all add: C2_def)
  have c3: "x_buf (scu_outxdrs (scu_at C3 0)) = x_buf X" "mcu_recvsz (cl_mcu C3) = mcu_recvsz (cl_mcu C)" "net_ev (w_net C3) = net_ev (w_net C)"
    "net_evn (w_net C3) = net_evn (w_net C) + j" "net_alloc (w_net C3) = net_alloc (w_net C)" "w_res C3 = w_res C" using c2 by (simp_all add: C3_def)
  have c4: "cl_mcu C4 = cl_mcu C3" "w_res C4 = w_res C" "net_alloc (w_net C4) = net_alloc (w_net C)" "net_evn (w_net C4) = Suc (net_evn (w_net C) + j)"
    using c3 by (simp_all add: C4_def next_event_def)
  have rep4: "rl_replymsg L (rl_proc L xres) (dec_stream (net_alloc (w_net C4) (net_evn (w_net C4))) bs) (w_res C4 resp) = Some (True, msg, r)"
    using rep(1) c4 by simp
  obtain C5 where r5: "rpc_reply L 0 xres resp bs 2 C4 = Some (True, C5)" "re_status (mcu_error (cl_mcu C5)) = RPC_SUCCESS" "w_res C5 = (w_res C)(resp := r)"
    using rpc_reply_success [OF rep4 rep(2,3)] c4(2) by metis
  have run0: "run_loop ?step (SendAgain, zero_timeval, 2, len, C1) = run_loop ?step (Select, zero_timeval, 2, len, C2)"
    using m t by (subst run_loop.simps) (auto simp: call_sends_def)
  have run1: "run_loop ?step (Select, zero_timeval, 2, len, C2) = run_loop ?step (Select, zero_timeval, 2, len, C3)"
    using skip_events [of j C2 L proc xargs xres resp "rpc_timeout C t" zero_timeval 2 len] j c2 X(3) by (simp add: C3_def)
  have n3: "fst (next_event C3) = Datagram bs" "snd (next_event C3) = C4" using ev(1) c3(3,4) by (simp_all add: next_event_def C4_def)
  have step: "?step (Select, zero_timeval, 2, len, C3) = Some (Inl (RPC_SUCCESS, C5))"
    using ev c3(1,2) c4(1) X(3) r5 n3 by (simp add: call_selects_def Let_def call_replied_def)
  have "run_loop ?step (SendAgain, zero_timeval, 2, len, C1) = Some (RPC_SUCCESS, C5)"
    unfolding run0 run1 by (subst run_loop.simps) (simp only: step bind.simps sum.case)
  then show ?thesis using e r5(3) by (simp add: clntaudp_call_def)
qed

end
