(* ===== verification/StubCalls.thy ===== *)
theory StubCalls
  imports RpcStubs RpcTime XdrProps
begin

text \<open>
  The client stubs as requests, and what one request does: the stubs on top of the RPC client and of the
  marshalling, with the repetition of calls, a silent server, and the delivery of an answer.
\<close>

subsection \<open>Requests\<close>

text \<open>The synchronous stubs with their arguments.\<close>

datatype nfs_request = Q_getattr "u8 list" | Q_setattr sattrargs | Q_root | Q_lookup diropargs | Q_readlink "u8 list" | Q_read readargs
  | Q_read_buf readargs "u8 list" | Q_writecache | Q_write writeargs | Q_create createargs | Q_remove diropargs | Q_rename renameargs
  | Q_link linkargs | Q_symlink symlinkargs | Q_mkdir createargs | Q_rmdir diropargs | Q_readdir readdirargs | Q_statfs "u8 list"

fun perform :: "nfs_request \<Rightarrow> ('au, 'm, nfs_result) rpclib \<Rightarrow> 'au nworld \<Rightarrow> (nat option \<times> 'au nworld) option" where
  "perform (Q_getattr a) = nfsproc_getattr_2 a"
| "perform (Q_setattr a) = nfsproc_setattr_2 a"
| "perform Q_root = nfsproc_root_2"
| "perform (Q_lookup a) = nfsproc_lookup_2 a"
| "perform (Q_readlink a) = nfsproc_readlink_2 a"
| "perform (Q_read a) = nfsproc_read_2 a"
| "perform (Q_read_buf a buf) = nfsproc_read_buf a buf"
| "perform Q_writecache = nfsproc_writecache_2"
| "perform (Q_write a) = nfsproc_write_2 a"
| "perform (Q_create a) = nfsproc_create_2 a"
| "perform (Q_remove a) = nfsproc_remove_2 a"
| "perform (Q_rename a) = nfsproc_rename_2 a"
| "perform (Q_link a) = nfsproc_link_2 a"
| "perform (Q_symlink a) = nfsproc_symlink_2 a"
| "perform (Q_mkdir a) = nfsproc_mkdir_2 a"
| "perform (Q_rmdir a) = nfsproc_rmdir_2 a"
| "perform (Q_readdir a) = nfsproc_readdir_2 a"
| "perform (Q_statfs a) = nfsproc_statfs_2 a"

text \<open>Arguments that can be encoded.\<close>

fun args_ok :: "nfs_request \<Rightarrow> bool" where
  "args_ok (Q_getattr a) = fh_ok a"
| "args_ok (Q_setattr a) = fh_ok (sg_file a)"
| "args_ok (Q_lookup a) = diropargs_ok a"
| "args_ok (Q_readlink a) = fh_ok a"
| "args_ok (Q_read a) = fh_ok (ra_file a)"
| "args_ok (Q_read_buf a buf) = fh_ok (ra_file a)"
| "args_ok (Q_write a) \<longleftrightarrow> fh_ok (wa_file a) \<and> counted_ok 8192 (wa_data a)"
| "args_ok (Q_create a) = diropargs_ok (ca_where a)"
| "args_ok (Q_remove a) = diropargs_ok a"
| "args_ok (Q_rename a) \<longleftrightarrow> diropargs_ok (rn_from a) \<and> diropargs_ok (rn_to a)"
| "args_ok (Q_link a) \<longleftrightarrow> fh_ok (la_from a) \<and> diropargs_ok (la_to a)"
| "args_ok (Q_symlink a) \<longleftrightarrow> diropargs_ok (sl_from a) \<and> string_ok 1024 (sl_to a)"
| "args_ok (Q_mkdir a) = diropargs_ok (ca_where a)"
| "args_ok (Q_rmdir a) = diropargs_ok a"
| "args_ok (Q_readdir a) \<longleftrightarrow> fh_ok (rd_dir a) \<and> length (rd_cookie a) = 4"
| "args_ok (Q_statfs a) = fh_ok a"
| "args_ok _ = True"

text \<open>Besides, the buffer of the client for \<open>nfsproc_read_buf\<close> has room for the largest reply: the stub decodes any reply to it.\<close>

fun buffer_ok :: "nfs_request \<Rightarrow> bool" where
  "buffer_ok (Q_read_buf a buf) \<longleftrightarrow> 8192 \<le> length buf"
| "buffer_ok _ = True"

definition request_ok :: "nfs_request \<Rightarrow> bool" where
  "request_ok q \<longleftrightarrow> args_ok q \<and> buffer_ok q"

text \<open>The static variables that survive from call to call: the buffer of \<open>nfsproc_read_2\<close> and the entries of \<open>nfsproc_readdir_2\<close>.\<close>

definition statics_ok :: "(nat \<Rightarrow> nfs_result) \<Rightarrow> bool" where
  "statics_ok R \<longleftrightarrow> (case R RES_READ of R_readres r \<Rightarrow> (case data_val (ro_data (rr_reply r)) of Some bs \<Rightarrow> 8192 \<le> length bs | None \<Rightarrow> True) | _ \<Rightarrow> True) \<and>
     (\<exists>r. R RES_READDIR = R_readdirres r \<and> listing_sound r)"

text \<open>The user declines to wait longer after some requesters.\<close>

definition world_ready :: "'au nworld \<Rightarrow> bool" where
  "world_ready W \<longleftrightarrow> client_ready (nw_clnt W) \<and> statics_ok (w_res (nw_clnt W)) \<and> (\<forall>n. \<exists>m \<ge> n. \<not> nw_ask W m)"

subsection \<open>Encoding the arguments\<close>

lemma enc_args_routine: "enc_ok p e V \<Longrightarrow> V v \<Longrightarrow> enc_routine (enc_args p v)"
  unfolding enc_routine_def
proof (intro allI impI, elim conjE)
  fix X assume a: "enc_ok p e V" "V v" "stream_ok X" "x_op X = XDR_ENCODE"
  obtain X' where X': "p X v = Some (length (e v) \<le> unat (x_handy X), v, X')"
    "length (e v) \<le> unat (x_handy X) \<longrightarrow> went X (length (e v)) X' \<and> x_buf X' = take (x_private X) (x_buf X) @ e v @ drop (x_private X + length (e v)) (x_buf X)"
    using enc_okD [OF a(1,3,4,2)] by blast
  have "x_private X \<le> length (x_buf X)" using a(3) by (simp add: stream_ok_def)
  then show "\<exists>ok X'. enc_args p v X = Some (ok, X') \<and> (ok \<longrightarrow> (\<exists>n. went X n X' \<and> take (x_private X) (x_buf X') = take (x_private X) (x_buf X)))"
    using X' by (auto simp: enc_args_def)
qed

lemma void_routine: "enc_routine (\<lambda>X. Some (True, X))"
  unfolding enc_routine_def by (auto intro!: exI [of _ 0] went_refl)

subsection \<open>Decoding the results\<close>

lemma safe_decodes: "dec_safe p P R \<Longrightarrow> P (get r) \<Longrightarrow> isr r \<Longrightarrow> decodes (on_result isr get mk p) r"
  unfolding decodes_def on_result_def by (auto dest!: dec_safeD)

lemma safe_nfsstat: "dec_safe xdr_nfsstat (\<lambda>a. True) (\<lambda>a. True)"
  unfolding xdr_stat_eq using safe_u_long by simp

text \<open>Initialised as the stubs do.\<close>

fun result_new :: "nat \<Rightarrow> nfs_result \<Rightarrow> bool" where
  "result_new k (R_attrstat a) \<longleftrightarrow> k = XDR_ATTRSTAT"
| "result_new k (R_diropres a) \<longleftrightarrow> k = XDR_DIROPRES \<and> fh_ok (dk_file (dr_diropres a))"
| "result_new k (R_readlinkres a) \<longleftrightarrow> k = XDR_READLINKRES \<and> rl_data a = None"
| "result_new k (R_readres a) \<longleftrightarrow> k = XDR_READRES \<and> bytes_fit 8192 (ro_data (rr_reply a))"
| "result_new k (R_nfsstat a) \<longleftrightarrow> k = XDR_NFSSTAT"
| "result_new k (R_readdirres a) \<longleftrightarrow> k = XDR_READDIRRES \<and> dl_entries (dd_reply a) = None"
| "result_new k (R_statfsres a) \<longleftrightarrow> k = XDR_STATFSRES"
| "result_new k R_void \<longleftrightarrow> k = XDR_VOID"

lemma result_decodes: "result_new k r \<Longrightarrow> decodes (result_proc k) r"
  by (cases r) (auto simp: result_proc_def decodes_def [of "\<lambda>X r. Some (True, r, X)"]
    intro!: safe_decodes [OF safe_attrstat] safe_decodes [OF safe_diropres] safe_decodes [OF safe_readlinkres] safe_decodes [OF safe_readres]
      safe_decodes [OF safe_nfsstat] safe_decodes [OF safe_readdirres] safe_decodes [OF safe_statfsres])

subsection \<open>A stub is a call\<close>

text \<open>The procedure of a request, its arguments, the kind of its result, the address of the result and how it is initialised.\<close>

fun req_proc :: "nfs_request \<Rightarrow> u32" where
  "req_proc (Q_getattr a) = 1"
| "req_proc (Q_setattr a) = 2"
| "req_proc (Q_root) = 3"
| "req_proc (Q_lookup a) = 4"
| "req_proc (Q_readlink a) = 5"
| "req_proc (Q_read a) = 6"
| "req_proc (Q_read_buf a buf) = 6"
| "req_proc (Q_writecache) = 7"
| "req_proc (Q_write a) = 8"
| "req_proc (Q_create a) = 9"
| "req_proc (Q_remove a) = 10"
| "req_proc (Q_rename a) = 11"
| "req_proc (Q_link a) = 12"
| "req_proc (Q_symlink a) = 13"
| "req_proc (Q_mkdir a) = 14"
| "req_proc (Q_rmdir a) = 15"
| "req_proc (Q_readdir a) = 16"
| "req_proc (Q_statfs a) = 17"

fun req_args :: "nfs_request \<Rightarrow> XDR \<Rightarrow> (bool \<times> XDR) option" where
  "req_args (Q_getattr a) = enc_args xdr_nfs_fh a"
| "req_args (Q_setattr a) = enc_args xdr_sattrargs a"
| "req_args (Q_root) = (\<lambda>X. Some (True, X))"
| "req_args (Q_lookup a) = enc_args xdr_diropargs a"
| "req_args (Q_readlink a) = enc_args xdr_nfs_fh a"
| "req_args (Q_read a) = enc_args xdr_readargs a"
| "req_args (Q_read_buf a buf) = enc_args xdr_readargs a"
| "req_args (Q_writecache) = (\<lambda>X. Some (True, X))"
| "req_args (Q_write a) = enc_args xdr_writeargs a"
| "req_args (Q_create a) = enc_args xdr_createargs a"
| "req_args (Q_remove a) = enc_args xdr_diropargs a"
| "req_args (Q_rename a) = enc_args xdr_renameargs a"
| "req_args (Q_link a) = enc_args xdr_linkargs a"
| "req_args (Q_symlink a) = enc_args xdr_symlinkargs a"
| "req_args (Q_mkdir a) = enc_args xdr_createargs a"
| "req_args (Q_rmdir a) = enc_args xdr_diropargs a"
| "req_args (Q_readdir a) = enc_args xdr_readdirargs a"
| "req_args (Q_statfs a) = enc_args xdr_nfs_fh a"

fun req_kind :: "nfs_request \<Rightarrow> nat" where
  "req_kind (Q_getattr a) = XDR_ATTRSTAT"
| "req_kind (Q_setattr a) = XDR_ATTRSTAT"
| "req_kind (Q_root) = XDR_VOID"
| "req_kind (Q_lookup a) = XDR_DIROPRES"
| "req_kind (Q_readlink a) = XDR_READLINKRES"
| "req_kind (Q_read a) = XDR_READRES"
| "req_kind (Q_read_buf a buf) = XDR_READRES"
| "req_kind (Q_writecache) = XDR_VOID"
| "req_kind (Q_write a) = XDR_ATTRSTAT"
| "req_kind (Q_create a) = XDR_DIROPRES"
| "req_kind (Q_remove a) = XDR_NFSSTAT"
| "req_kind (Q_rename a) = XDR_NFSSTAT"
| "req_kind (Q_link a) = XDR_NFSSTAT"
| "req_kind (Q_symlink a) = XDR_NFSSTAT"
| "req_kind (Q_mkdir a) = XDR_DIROPRES"
| "req_kind (Q_rmdir a) = XDR_NFSSTAT"
| "req_kind (Q_readdir a) = XDR_READDIRRES"
| "req_kind (Q_statfs a) = XDR_STATFSRES"

fun req_addr :: "nfs_request \<Rightarrow> nat" where
  "req_addr (Q_getattr a) = RES_GETATTR"
| "req_addr (Q_setattr a) = RES_SETATTR"
| "req_addr (Q_root) = RES_ROOT"
| "req_addr (Q_lookup a) = RES_LOOKUP"
| "req_addr (Q_readlink a) = RES_READLINK"
| "req_addr (Q_read a) = RES_READ"
| "req_addr (Q_read_buf a buf) = RES_READ_BUF"
| "req_addr (Q_writecache) = RES_WRITECACHE"
| "req_addr (Q_write a) = RES_WRITE"
| "req_addr (Q_create a) = RES_CREATE"
| "req_addr (Q_remove a) = RES_REMOVE"
| "req_addr (Q_rename a) = RES_RENAME"
| "req_addr (Q_link a) = RES_LINK"
| "req_addr (Q_symlink a) = RES_SYMLINK"
| "req_addr (Q_mkdir a) = RES_MKDIR"
| "req_addr (Q_rmdir a) = RES_RMDIR"
| "req_addr (Q_readdir a) = RES_READDIR"
| "req_addr (Q_statfs a) = RES_STATFS"

definition read_static :: "(nat \<Rightarrow> nfs_result) \<Rightarrow> u8 list" where
  "read_static R = (case R RES_READ of
      R_readres r \<Rightarrow> (case data_val (ro_data (rr_reply r)) of Some bs \<Rightarrow> bs | None \<Rightarrow> replicate 8192 0)
    | _ \<Rightarrow> replicate 8192 0)"

fun blank :: "nat \<Rightarrow> nfs_result" where
  "blank k = (if k = XDR_ATTRSTAT then R_attrstat zero_attrstat else if k = XDR_DIROPRES then R_diropres zero_diropres
     else if k = XDR_READLINKRES then R_readlinkres zero_readlinkres else if k = XDR_READRES then R_readres zero_readres
     else if k = XDR_NFSSTAT then R_nfsstat 0 else if k = XDR_READDIRRES then R_readdirres zero_readdirres
     else if k = XDR_STATFSRES then R_statfsres zero_statfsres else R_void)"

definition req_init :: "nfs_request \<Rightarrow> (nat \<Rightarrow> nfs_result) \<Rightarrow> nfs_result" where
  "req_init q R = (case q of Q_read a \<Rightarrow> R_readres (read_into (read_static R)) | Q_read_buf a buf \<Rightarrow> R_readres (read_into buf) | _ \<Rightarrow> blank (req_kind q))"

lemmas stub_defs = nfsproc_getattr_2_def nfsproc_setattr_2_def nfsproc_root_2_def nfsproc_lookup_2_def nfsproc_readlink_2_def nfsproc_read_2_def
  nfsproc_read_buf_def nfsproc_writecache_2_def nfsproc_write_2_def nfsproc_create_2_def nfsproc_remove_2_def nfsproc_rename_2_def nfsproc_link_2_def
  nfsproc_symlink_2_def nfsproc_mkdir_2_def nfsproc_rmdir_2_def nfsproc_statfs_2_def

lemma set_result_twice: "set_result a r (set_result a r1 W) = set_result a r W"
  by (simp add: set_result_def)

lemma perform_stub:
  assumes "statics_ok (w_res (nw_clnt W))"
  shows "perform q L W = stub L (req_proc q) (req_args q) (req_kind q) (req_addr q) (req_init q (w_res (nw_clnt W))) W"
proof (cases q)
  case (Q_readdir a)
  obtain r where r: "w_res (nw_clnt W) RES_READDIR = R_readdirres r" "listing_sound r" using assms by (auto simp: statics_ok_def)
  have "xdr_free xdr_readdirres r \<noteq> None" using free_listing [OF r(2), of "(enc_stream 0)\<lparr>x_op := XDR_FREE\<rparr>"] by (simp add: xdr_free_def)
  then show ?thesis using Q_readdir r(1) by (auto simp: nfsproc_readdir_2_def stub_def set_result_twice req_init_def)
qed (simp_all add: stub_defs req_init_def read_static_def)

lemma req_new:
  assumes "request_ok q" and "statics_ok R"
  shows "result_new (req_kind q) (req_init q R)"
proof -
  have z: "bytes_fit 8192 (ro_data (rr_reply (read_into bs))) \<longleftrightarrow> 8192 \<le> length bs" for bs by (simp add: bytes_fit_def read_into_def)
  have "8192 \<le> length (read_static R)" using assms(2) by (auto simp: statics_ok_def read_static_def split: nfs_result.splits option.splits)
  then show ?thesis using assms(1) z by (cases q) (simp_all add: request_ok_def req_init_def zero_diropres_def zero_readlinkres_def zero_readdirres_def)
qed

lemma req_args_routine: "args_ok q \<Longrightarrow> enc_routine (req_args q)"
  by (cases q) (auto intro: enc_args_routine [OF enc_fh] enc_args_routine [OF enc_sattrargs] enc_args_routine [OF enc_diropargs] enc_args_routine [OF enc_readargs]
    enc_args_routine [OF enc_writeargs] enc_args_routine [OF enc_createargs] enc_args_routine [OF enc_renameargs] enc_args_routine [OF enc_linkargs]
    enc_args_routine [OF enc_symlinkargs] enc_args_routine [OF enc_readdirargs] void_routine)

subsection \<open>Repeated calls\<close>

lemma nfs_lib_ok: "lib_ok (nfs_lib L) = lib_ok L"
  by (simp add: lib_ok_def)

text \<open>The requesters until the user declines.\<close>

definition to_stop :: "'au nworld \<Rightarrow> nat" where
  "to_stop W = (LEAST k. \<not> nw_ask W (nw_asked W + k))"

lemma to_stop_next:
  assumes "\<forall>n. \<exists>m \<ge> n. \<not> nw_ask W m" and "nw_ask W (nw_asked W)"
  shows "to_stop (W\<lparr>nw_clnt := C, nw_asked := Suc (nw_asked W)\<rparr>) < to_stop W"
proof -
  let ?P = "\<lambda>k. \<not> nw_ask W (nw_asked W + k)"
  obtain m where "m \<ge> nw_asked W" "\<not> nw_ask W m" using assms(1) by auto
  then have "?P (m - nw_asked W)" by simp
  then have l: "?P (to_stop W)" unfolding to_stop_def by (rule LeastI)
  then obtain k where k: "to_stop W = Suc k" using assms(2) by (cases "to_stop W") auto
  have "to_stop (W\<lparr>nw_clnt := C, nw_asked := Suc (nw_asked W)\<rparr>) \<le> k"
    unfolding to_stop_def by (rule Least_le) (use l k in simp)
  then show ?thesis using k by simp
qed

definition retry_inv :: "'au nworld \<Rightarrow> 'au nworld \<Rightarrow> bool" where
  "retry_inv W0 W \<longleftrightarrow> client_ready (nw_clnt W) \<and> call_frame (nw_clnt W0) (nw_clnt W) \<and> nw_ask W = nw_ask W0"

lemma round_good:
  assumes L: "lib_ok L" and x: "enc_routine xargs" and p: "decodes (rl_proc L xres) (w_res (nw_clnt W0) resp)" and s: "\<forall>n. \<exists>m \<ge> n. \<not> nw_ask W0 m"
    and inv: "retry_inv W0 W"
  shows "(\<exists>st W1. call_round L proc xargs xres resp t W = Some (Inl (st, W1)) \<and>
      (st = RPC_SUCCESS \<longrightarrow> (\<exists>k inbuf. call_answer L xres resp (nw_clnt W0) (nw_clnt W1) k inbuf))) \<or>
    (\<exists>W1. call_round L proc xargs xres resp t W = Some (Inr W1) \<and> retry_inv W0 W1 \<and> to_stop W1 < to_stop W)"
proof -
  have c: "client_ready (nw_clnt W)" "call_frame (nw_clnt W0) (nw_clnt W)" "nw_ask W = nw_ask W0" using inv by (simp_all add: retry_inv_def)
  then have "decodes (rl_proc L xres) (w_res (nw_clnt W) resp)" using p by (simp add: call_frame_def)
  then obtain st C' where r: "clntaudp_call L proc xargs xres resp t (nw_clnt W) = Some (st, C')" "call_end L xres resp (nw_clnt W) (st, C')"
    using call_ends [OF L x _ c(1)] by blast
  consider (ok) "st = RPC_SUCCESS" | (fail) "st \<noteq> RPC_SUCCESS" "re_status (mcu_error (cl_mcu C')) \<noteq> RPC_TIMEDOUT \<or> \<not> nw_ask W (nw_asked W)"
    | (again) "st \<noteq> RPC_SUCCESS" "re_status (mcu_error (cl_mcu C')) = RPC_TIMEDOUT" "nw_ask W (nw_asked W)" by blast
  then show ?thesis
  proof cases
    case ok
    then obtain k inbuf where "call_answer L xres resp (nw_clnt W) C' k inbuf" using r(2) by auto
    then have "call_answer L xres resp (nw_clnt W0) C' k inbuf" by (rule call_answer_frame [OF c(2)])
    then show ?thesis using ok r(1) by (auto simp: call_round_def)
  next
    case fail
    then show ?thesis using r(1) by (auto simp: call_round_def Let_def clntaudp_geterr_def)
  next
    case again
    have e: "client_ready C'" "call_frame (nw_clnt W) C'" using r(2) again(2) by simp_all
    have "retry_inv W0 (W\<lparr>nw_clnt := C', nw_asked := Suc (nw_asked W)\<rparr>)" using e c call_frame_trans by (auto simp: retry_inv_def)
    moreover have "to_stop (W\<lparr>nw_clnt := C', nw_asked := Suc (nw_asked W)\<rparr>) < to_stop W" using to_stop_next [of W C'] s c(3) again(3) by simp
    ultimately show ?thesis using again r(1) by (auto simp: call_round_def Let_def clntaudp_geterr_def)
  qed
qed

lemma ch_clnt_call_ends:
  assumes L: "lib_ok L" and x: "enc_routine xargs" and p: "decodes (rl_proc L xres) (w_res (nw_clnt W) resp)" and s: "\<forall>n. \<exists>m \<ge> n. \<not> nw_ask W m"
    and c: "client_ready (nw_clnt W)"
  shows "\<exists>st W'. ch_clnt_call L proc xargs xres resp t W = Some (st, W') \<and>
    (st = RPC_SUCCESS \<longrightarrow> (\<exists>k inbuf. call_answer L xres resp (nw_clnt W) (nw_clnt W') k inbuf))"
proof -
  let ?step = "call_round L proc xargs xres resp t"
  have i: "retry_inv W W" using c call_frame_refl by (simp add: retry_inv_def)
  note g = round_good [OF L x p s, where proc = proc and t = t]
  have "run_loop ?step W \<noteq> None"
  proof (rule run_loop_returns [where R = "measure to_stop" and I = "retry_inv W", OF _ i])
    fix W1 assume "retry_inv W W1"
    then show "?step W1 \<noteq> None" using g [of W1] by auto
  next
    fix W1 W2 assume "retry_inv W W1" "?step W1 = Some (Inr W2)"
    then show "retry_inv W W2 \<and> (W2, W1) \<in> measure to_stop" using g [of W1] by auto
  qed simp
  then obtain st W' where a: "run_loop ?step W = Some (st, W')" by auto
  have "(\<lambda>(st, W'). st = RPC_SUCCESS \<longrightarrow> (\<exists>k inbuf. call_answer L xres resp (nw_clnt W) (nw_clnt W') k inbuf)) (st, W')"
  proof (rule run_loop_inv [where I = "retry_inv W", OF a i])
    fix W1 b assume "retry_inv W W1" "?step W1 = Some (Inl b)"
    then show "(\<lambda>(st, W'). st = RPC_SUCCESS \<longrightarrow> (\<exists>k inbuf. call_answer L xres resp (nw_clnt W) (nw_clnt W') k inbuf)) b" using g [of W1] by auto
  next
    fix W1 W2 assume "retry_inv W W1" "?step W1 = Some (Inr W2)"
    then show "retry_inv W W2" using g [of W1] by auto
  qed
  then show ?thesis using a by (simp add: ch_clnt_call_def)
qed

lemma perform_ends:
  assumes L: "lib_ok L" and q: "request_ok q" and W: "world_ready W"
  shows "\<exists>p W'. perform q L W = Some (p, W') \<and> (\<forall>a. p = Some a \<longrightarrow> a = req_addr q \<and>
    (\<exists>k inbuf. call_answer (nfs_lib L) (req_kind q) a (nw_clnt (set_result a (req_init q (w_res (nw_clnt W))) W)) (nw_clnt W') k inbuf))"
proof -
  have w: "client_ready (nw_clnt W)" "statics_ok (w_res (nw_clnt W))" "\<forall>n. \<exists>m \<ge> n. \<not> nw_ask W m" using W by (simp_all add: world_ready_def)
  let ?r = "req_init q (w_res (nw_clnt W))"
  let ?W = "set_result (req_addr q) ?r W"
  have f: "client_ready (nw_clnt ?W)" "\<forall>n. \<exists>m \<ge> n. \<not> nw_ask ?W m" "w_res (nw_clnt ?W) (req_addr q) = ?r"
    using w by (simp_all add: set_result_def client_ready_def)
  have d: "decodes (rl_proc (nfs_lib L) (req_kind q)) (w_res (nw_clnt ?W) (req_addr q))"
    using result_decodes [OF req_new [OF q w(2)]] f(3) by simp
  have l: "lib_ok (nfs_lib L)" using L nfs_lib_ok by blast
  obtain st W' where "ch_clnt_call (nfs_lib L) (req_proc q) (req_args q) (req_kind q) (req_addr q) TIMEOUT ?W = Some (st, W')"
    "st = RPC_SUCCESS \<longrightarrow> (\<exists>k inbuf. call_answer (nfs_lib L) (req_kind q) (req_addr q) (nw_clnt ?W) (nw_clnt W') k inbuf)"
    using ch_clnt_call_ends [OF l req_args_routine [OF q [unfolded request_ok_def, THEN conjunct1]] d f(2,1), of "req_proc q" TIMEOUT] by blast
  then show ?thesis unfolding perform_stub [OF w(2)] stub_def by auto
qed

subsection \<open>A silent server\<close>

lemma ch_clnt_call_once:
  assumes "clntaudp_call L proc xargs xres resp t (nw_clnt W) = Some (st, C')" and "re_status (mcu_error (cl_mcu C')) = st"
    and "st = RPC_SUCCESS \<or> st \<noteq> RPC_TIMEDOUT \<or> \<not> nw_ask W (nw_asked W)"
  shows "\<exists>W'. ch_clnt_call L proc xargs xres resp t W = Some (st, W') \<and> nw_clnt W' = C'"
proof -
  have "\<exists>W'. call_round L proc xargs xres resp t W = Some (Inl (st, W')) \<and> nw_clnt W' = C'"
    using assms by (auto simp: call_round_def Let_def clntaudp_geterr_def)
  then show ?thesis unfolding ch_clnt_call_def by (auto simp: run_loop.simps [of _ W])
qed

text \<open>The message of a call: the encoding of the arguments, when they fit.\<close>

definition prepared :: "nfs_request \<Rightarrow> 'au nworld \<Rightarrow> 'au nworld" where
  "prepared q W = set_result (req_addr q) (req_init q (w_res (nw_clnt W))) W"

definition call_message :: "('au, 'm, nfs_result) rpclib \<Rightarrow> nfs_request \<Rightarrow> 'au nworld \<Rightarrow> u8 list option" where
  "call_message L q W = (case encode_call (nfs_lib L) 0 (req_proc q) (req_args q) (nw_clnt (prepared q W)) of
     Some (Some len, C1) \<Rightarrow> Some (take len (x_buf (scu_outxdrs (scu_at C1 0)))) | _ \<Rightarrow> None)"

definition sendable :: "('au, 'm, nfs_result) rpclib \<Rightarrow> nfs_request \<Rightarrow> 'au nworld \<Rightarrow> bool" where
  "sendable L q W \<longleftrightarrow> (\<exists>len C1. encode_call (nfs_lib L) 0 (req_proc q) (req_args q) (nw_clnt (prepared q W)) = Some (Some len, C1))"

lemma sendable_message: "sendable L q W \<longleftrightarrow> call_message L q W \<noteq> None"
  by (auto simp: sendable_def call_message_def split: option.splits)

lemma perform_silent:
  assumes L: "lib_ok L" and q: "args_ok q" and W: "world_ready W" and n: "silent_net (w_net (nw_clnt W))" and ask: "\<not> nw_ask W (nw_asked W)"
    and t: "normal_time (mcu_total (cl_mcu (nw_clnt W)))" "0 < us (mcu_total (cl_mcu (nw_clnt W)))"
  shows "\<exists>W'. perform q L W = Some (None, W') \<and> (case call_message L q W of
       None \<Rightarrow> net_out (w_net (nw_clnt W')) = net_out (w_net (nw_clnt W))
     | Some msg \<Rightarrow> net_out (w_net (nw_clnt W')) = net_out (w_net (nw_clnt W)) @
          replicate (waits (us (mcu_total (cl_mcu (nw_clnt W)))) (us (mcu_wait (cl_mcu (nw_clnt W))))) msg \<and>
         take 4 msg = put32 (mcu_xid (cl_mcu (nw_clnt W)) + 0x10000))"
proof -
  have w: "client_ready (nw_clnt W)" "statics_ok (w_res (nw_clnt W))" using W by (simp_all add: world_ready_def)
  let ?C = "nw_clnt W" and ?W = "prepared q W"
  have c: "client_ready (nw_clnt ?W)" "silent_net (w_net (nw_clnt ?W))" "cl_mcu (nw_clnt ?W) = cl_mcu ?C" "w_net (nw_clnt ?W) = w_net ?C"
    "\<not> nw_ask ?W (nw_asked ?W)" using w(1) n ask by (simp_all add: prepared_def set_result_def client_ready_def)
  have rt: "rpc_timeout (nw_clnt ?W) TIMEOUT = mcu_total (cl_mcu ?C)" using t(1) c(3) by (auto simp: rpc_timeout_def normal_time_def)
  have l: "lib_ok (nfs_lib L)" using L nfs_lib_ok by blast
  note s = silent_call [OF l req_args_routine [OF q] c(1,2), of TIMEOUT "req_proc q" "req_kind q" "req_addr q", unfolded rt c(3,4), OF t]
  obtain st C' where r: "clntaudp_call (nfs_lib L) (req_proc q) (req_args q) (req_kind q) (req_addr q) TIMEOUT (nw_clnt ?W) = Some (st, C')"
    "st = RPC_CANTENCODEARGS \<or> st = RPC_TIMEDOUT"
    "case call_message L q W of None \<Rightarrow> net_out (w_net C') = net_out (w_net ?C)
     | Some msg \<Rightarrow> net_out (w_net C') = net_out (w_net ?C) @ replicate (waits (us (mcu_total (cl_mcu ?C))) (us (mcu_wait (cl_mcu ?C)))) msg \<and>
         take 4 msg = put32 (mcu_xid (cl_mcu ?C) + 0x10000)"
    using s by (auto simp: call_message_def)
  have "re_status (mcu_error (cl_mcu C')) = st" using call_status [OF r(1)] .
  then obtain W' where "ch_clnt_call (nfs_lib L) (req_proc q) (req_args q) (req_kind q) (req_addr q) TIMEOUT ?W = Some (st, W')" "nw_clnt W' = C'"
    using ch_clnt_call_once [OF r(1)] c(5) by blast
  then show ?thesis using r(2,3) unfolding perform_stub [OF w(2)] stub_def prepared_def [symmetric] by auto
qed

subsection \<open>Answers\<close>

text \<open>The results as the server encodes them, the ones that can be encoded, and what is left where a result is decoded into.\<close>

fun res_kind :: "nfs_result \<Rightarrow> nat" where
  "res_kind (R_attrstat v) = XDR_ATTRSTAT"
| "res_kind (R_diropres v) = XDR_DIROPRES"
| "res_kind (R_readlinkres v) = XDR_READLINKRES"
| "res_kind (R_readres v) = XDR_READRES"
| "res_kind (R_nfsstat v) = XDR_NFSSTAT"
| "res_kind (R_readdirres v) = XDR_READDIRRES"
| "res_kind (R_statfsres v) = XDR_STATFSRES"
| "res_kind R_void = XDR_VOID"

fun res_wire :: "nfs_result \<Rightarrow> u8 list" where
  "res_wire (R_attrstat v) = attrstat_wire v"
| "res_wire (R_diropres v) = diropres_wire v"
| "res_wire (R_readlinkres v) = readlinkres_wire v"
| "res_wire (R_readres v) = readres_wire v"
| "res_wire (R_nfsstat v) = put32 v"
| "res_wire (R_readdirres v) = readdirres_wire v"
| "res_wire (R_statfsres v) = statfsres_wire v"
| "res_wire R_void = []"

fun res_ok :: "nfs_result \<Rightarrow> bool" where
  "res_ok (R_diropres v) \<longleftrightarrow> (dr_status v = 0 \<longrightarrow> fh_ok (dk_file (dr_diropres v)))"
| "res_ok (R_readlinkres v) \<longleftrightarrow> (rl_status v = 0 \<longrightarrow> string_ok 1024 (rl_data v))"
| "res_ok (R_readres v) \<longleftrightarrow> (rr_status v = 0 \<longrightarrow> counted_ok 8192 (ro_data (rr_reply v)))"
| "res_ok (R_readdirres v) \<longleftrightarrow> readdirres_ok v"
| "res_ok _ \<longleftrightarrow> True"

fun res_into :: "nfs_result \<Rightarrow> nfs_result \<Rightarrow> nfs_result" where
  "res_into (R_attrstat v) (R_attrstat a) = R_attrstat (if as_status v = 0 then v else a\<lparr>as_status := as_status v\<rparr>)"
| "res_into (R_diropres v) (R_diropres a) = R_diropres (if dr_status v = 0 then v else a\<lparr>dr_status := dr_status v\<rparr>)"
| "res_into (R_readlinkres v) (R_readlinkres a) =
     R_readlinkres (if rl_status v = 0 then v\<lparr>rl_data := Some (cstr_bytes (rl_data v) @ [0])\<rparr> else a\<lparr>rl_status := rl_status v\<rparr>)"
| "res_into (R_readres v) (R_readres a) =
     R_readres (if rr_status v = 0 then v\<lparr>rr_reply := (rr_reply v)\<lparr>ro_data := bytes_into (ro_data (rr_reply v)) (ro_data (rr_reply a))\<rparr>\<rparr> else a\<lparr>rr_status := rr_status v\<rparr>)"
| "res_into (R_nfsstat v) (R_nfsstat a) = R_nfsstat v"
| "res_into (R_readdirres v) (R_readdirres a) = R_readdirres (readdirres_into v a)"
| "res_into (R_statfsres v) (R_statfsres a) = R_statfsres (if st_status v = 0 then v else a\<lparr>st_status := st_status v\<rparr>)"
| "res_into v a = a"

lemma on_result_dec:
  assumes "dec_ok p e V d Q" and "V v" and "Q v (get a)" and "isr a" and "stream_ok X" and "x_op X = XDR_DECODE" and "\<forall>i. x_alloc X i \<noteq> None" and "rest X = e v"
  shows "\<exists>X'. on_result isr get mk p X a = Some (True, mk (d v (get a)), X')"
  using dec_okD [OF assms(1,5,6,7,2,3), of "[]"] assms(4,8) by (auto simp: on_result_def)

lemma result_dec:
  assumes "result_new k a" and "res_kind v = k" and "res_ok v" and "stream_ok X" and "x_op X = XDR_DECODE" and "\<forall>i. x_alloc X i \<noteq> None" and "rest X = res_wire v"
  shows "\<exists>X'. result_proc k X a = Some (True, res_into v a, X')"
proof (cases v)
  case R_void
  then show ?thesis using assms(1,2) by (cases a) (auto simp: result_proc_def)
next
  case (R_attrstat w)
  then show ?thesis using assms on_result_dec [OF dec_attrstat, where v = w and get = r_attrstat and a = a and isr = is_attrstat and X = X and mk = R_attrstat] by (cases a) (auto simp: result_proc_def)
next
  case (R_diropres w)
  then show ?thesis using assms on_result_dec [OF dec_diropres, where v = w and get = r_diropres and a = a and isr = is_diropres and X = X and mk = R_diropres] by (cases a) (auto simp: result_proc_def)
next
  case (R_readlinkres w)
  then show ?thesis using assms on_result_dec [OF dec_readlinkres, where v = w and get = r_readlinkres and a = a and isr = is_readlinkres and X = X and mk = R_readlinkres] by (cases a) (auto simp: result_proc_def)
next
  case (R_readres w)
  have "rr_status w = 0 \<Longrightarrow> unat (data_len (ro_data (rr_reply w))) \<le> 8192" using assms(3) R_readres by (auto simp: counted_ok_def word_le_nat_alt)
  then have "result_new k a \<Longrightarrow> a = R_readres b \<Longrightarrow> rr_status w = 0 \<longrightarrow> bytes_fit (unat (data_len (ro_data (rr_reply w)))) (ro_data (rr_reply b))" for b
    by (auto simp: bytes_fit_def split: option.splits)
  then show ?thesis using R_readres assms on_result_dec [OF dec_readres, where v = w and get = r_readres and a = a and isr = is_readres and X = X and mk = R_readres] by (cases a) (auto simp: result_proc_def)
next
  case (R_nfsstat w)
  then show ?thesis using assms on_result_dec [OF dec_u_long, where v = w and get = r_nfsstat and a = a and isr = is_nfsstat and X = X and mk = R_nfsstat] by (cases a) (auto simp: result_proc_def xdr_stat_eq)
next
  case (R_readdirres w)
  then show ?thesis using assms on_result_dec [OF dec_readdirres, where v = w and get = r_readdirres and a = a and isr = is_readdirres and X = X and mk = R_readdirres] by (cases a) (auto simp: result_proc_def)
next
  case (R_statfsres w)
  then show ?thesis using assms on_result_dec [OF dec_statfsres, where v = w and get = r_statfsres and a = a and isr = is_statfsres and X = X and mk = R_statfsres] by (cases a) (auto simp: result_proc_def)
qed

text \<open>The library accepts a reply that begins with \<open>hdr\<close>: it decodes the results behind it.\<close>

definition accepts :: "('au, 'm, 'r) rpclib \<Rightarrow> u8 list \<Rightarrow> bool" where
  "accepts L hdr \<longleftrightarrow> (\<exists>msg. (\<forall>e. re_status (rl_seterr L msg e) = RPC_SUCCESS) \<and> (\<forall>au. fst (rl_validate L au msg)) \<and>
     (\<forall>p X r r1 X1 body. stream_ok X \<and> x_op X = XDR_DECODE \<and> rest X = hdr @ body \<and> p (adv X (of_nat (length hdr))) r = Some (True, r1, X1) \<longrightarrow>
        rl_replymsg L p X r = Some (True, msg, r1)))"

text \<open>A result that is the answer to the request and fits into the buffer that it is decoded to.\<close>

definition answer_fits :: "nfs_request \<Rightarrow> nfs_result \<Rightarrow> bool" where
  "answer_fits q v \<longleftrightarrow> (\<forall>a buf r. q = Q_read_buf a buf \<and> v = R_readres r \<and> rr_status r = 0 \<longrightarrow> unat (data_len (ro_data (rr_reply r))) \<le> length buf)"

lemma answer_dec:
  assumes q: "args_ok q" and R: "statics_ok R" and v: "res_kind v = req_kind q" "res_ok v" "answer_fits q v"
    and X: "stream_ok X" "x_op X = XDR_DECODE" "\<forall>i. x_alloc X i \<noteq> None" "rest X = res_wire v"
  shows "\<exists>X'. result_proc (req_kind q) X (req_init q R) = Some (True, res_into v (req_init q R), X')"
proof (cases "buffer_ok q")
  case True
  then show ?thesis using result_dec [OF req_new [OF _ R] v(1,2) X] q by (simp add: request_ok_def)
next
  case False
  then obtain a buf where b: "q = Q_read_buf a buf" by (cases q) auto
  obtain w where w: "v = R_readres w" using v(1) b by (cases v) auto
  have "rr_status w = 0 \<longrightarrow> bytes_fit (unat (data_len (ro_data (rr_reply w)))) (ro_data (rr_reply (read_into buf)))"
    using v(3) b w by (auto simp: answer_fits_def bytes_fit_def read_into_def)
  then show ?thesis using v(2) X b w
      on_result_dec [OF dec_readres, where v = w and get = r_readres and a = "R_readres (read_into buf)" and isr = is_readres and X = X and mk = R_readres]
    by (auto simp: result_proc_def req_init_def)
qed

lemma perform_delivered:
  assumes L: "lib_ok L" and q: "args_ok q" and W: "world_ready W" and acc: "accepts L hdr" and h4: "4 \<le> length hdr"
    and enc: "sendable L q W"
    and snd: "net_snd (w_net (nw_clnt W)) (length (net_out (w_net (nw_clnt W)))) = None"
    and t: "normal_time (mcu_total (cl_mcu (nw_clnt W)))" "0 < us (mcu_total (cl_mcu (nw_clnt W)))"
    and j: "\<forall>i < j. ignored (unat (mcu_recvsz (cl_mcu (nw_clnt W)))) (mcu_xid (cl_mcu (nw_clnt W)) + 0x10000) (net_ev (w_net (nw_clnt W)) (net_evn (w_net (nw_clnt W)) + i))"
    and ev: "net_ev (w_net (nw_clnt W)) (net_evn (w_net (nw_clnt W)) + j) = Datagram (hdr @ res_wire v)" "length (hdr @ res_wire v) \<le> unat (mcu_recvsz (cl_mcu (nw_clnt W)))"
      "get32 (take 4 hdr) = mcu_xid (cl_mcu (nw_clnt W)) + 0x10000"
    and mem: "\<forall>i. net_alloc (w_net (nw_clnt W)) (Suc (net_evn (w_net (nw_clnt W)) + j)) i \<noteq> None"
    and v: "res_kind v = req_kind q" "res_ok v" "answer_fits q v"
  shows "\<exists>W'. perform q L W = Some (Some (req_addr q), W') \<and> w_res (nw_clnt W') (req_addr q) = res_into v (req_init q (w_res (nw_clnt W)))"
proof -
  have w: "client_ready (nw_clnt W)" "statics_ok (w_res (nw_clnt W))" using W by (simp_all add: world_ready_def)
  let ?C = "nw_clnt W" and ?r = "req_init q (w_res (nw_clnt W))"
  let ?W = "set_result (req_addr q) ?r W"
  have c: "client_ready (nw_clnt ?W)" "cl_mcu (nw_clnt ?W) = cl_mcu ?C" "w_net (nw_clnt ?W) = w_net ?C" "w_res (nw_clnt ?W) (req_addr q) = ?r"
    using w(1) by (simp_all add: set_result_def client_ready_def)
  have rt: "rpc_timeout (nw_clnt ?W) TIMEOUT = mcu_total (cl_mcu ?C)" using t(1) c(2) by (auto simp: rpc_timeout_def normal_time_def)
  have l: "lib_ok (nfs_lib L)" using L nfs_lib_ok by blast
  let ?bs = "hdr @ res_wire v" and ?al = "net_alloc (w_net ?C) (Suc (net_evn (w_net ?C) + j))"
  have "unat (mcu_recvsz (cl_mcu ?C)) < 2 ^ 31" using w(1) by (simp add: client_ready_def)
  then have bl: "length ?bs < 2 ^ 31" using ev(2) by linarith
  let ?X = "dec_stream ?al ?bs"
  note s = dec_stream_ok [OF bl, of ?al]
  have X: "stream_ok ?X" "x_op ?X = XDR_DECODE" "rest ?X = ?bs" "x_alloc ?X = ?al" using s by (simp_all add: dec_stream_def)
  let ?Y = "adv ?X (of_nat (length hdr))"
  have hl: "unat (of_nat (length hdr) :: u32) = length hdr" by (rule unat_small) (use bl in simp)
  then have "unat (of_nat (length hdr) :: u32) \<le> unat (x_handy ?X)" using length_rest [OF X(1)] X(3) by simp
  note a = went_adv [OF X(1) this]
  have Y: "stream_ok ?Y" "x_op ?Y = XDR_DECODE" "rest ?Y = res_wire v" "x_alloc ?Y = ?al"
    using went_ok [OF a(1) X(1)] a(3) hl X by (simp_all add: adv_def)
  obtain X1 where "result_proc (req_kind q) ?Y ?r = Some (True, res_into v ?r, X1)"
    using answer_dec [OF q w(2) v Y(1,2) _ Y(3)] mem Y(4) by auto
  then obtain msg where rep: "rl_replymsg L (result_proc (req_kind q)) ?X ?r = Some (True, msg, res_into v ?r)"
    "\<forall>e. re_status (rl_seterr L msg e) = RPC_SUCCESS" "\<forall>au. fst (rl_validate L au msg)" using acc X unfolding accepts_def by blast
  obtain len C2 where e2: "encode_call (nfs_lib L) 0 (req_proc q) (req_args q) (nw_clnt ?W) = Some (Some len, C2)"
    using enc by (auto simp: sendable_def prepared_def)
  have nz: "\<not> (tv_sec (rpc_timeout (nw_clnt ?W) TIMEOUT) = 0 \<and> tv_usec (rpc_timeout (nw_clnt ?W) TIMEOUT) = 0)" using t unfolding rt by (auto simp: us_def normal_time_def)
  have g: "get32 (take 4 ?bs) = mcu_xid (cl_mcu ?C) + 0x10000" "4 \<le> length ?bs" using ev(3) h4 by simp_all
  obtain C' where C': "clntaudp_call (nfs_lib L) (req_proc q) (req_args q) (req_kind q) (req_addr q) TIMEOUT (nw_clnt ?W) = Some (RPC_SUCCESS, C')"
    "w_res C' = (w_res (nw_clnt ?W))(req_addr q := res_into v ?r)"
    using answered_call [OF l req_args_routine [OF q] c(1) e2 _ nz, of j ?bs "req_kind q" "req_addr q" msg "res_into v ?r"] j ev(1,2) g rep snd c(2-4) by auto
  have "re_status (mcu_error (cl_mcu C')) = RPC_SUCCESS" using call_status [OF C'(1)] .
  then obtain W' where "ch_clnt_call (nfs_lib L) (req_proc q) (req_args q) (req_kind q) (req_addr q) TIMEOUT ?W = Some (RPC_SUCCESS, W')" "nw_clnt W' = C'"
    using ch_clnt_call_once [OF C'(1)] by blast
  then show ?thesis using C'(2) unfolding perform_stub [OF w(2)] stub_def by auto
qed

end
