(* ===== verification/RpcProps.thy ===== *)
theory RpcProps
  imports RpcInv
begin

text \<open>
  The state machine of the client: every sequence of operations keeps the slots in order, and a wait ends
  successfully only with the reply to a message that was sent.
\<close>

subsection \<open>A library\<close>

text \<open>The parts of the RPC library in their simplest form: null authentication, accepted replies.\<close>

definition put_msg :: "u32 list \<Rightarrow> XDR \<Rightarrow> (bool \<times> XDR) option" where
  "put_msg ws X =
     (if 4 * length ws \<le> unat (x_handy X) then
        map_option (\<lambda>buf. (True, X\<lparr>x_buf := buf, x_private := x_private X + 4 * length ws, x_handy := x_handy X - of_nat (4 * length ws)\<rparr>))
          (put_longs (x_private X) ws (x_buf X))
      else Some (False, X))"

definition std_setpos :: "nat \<Rightarrow> XDR \<Rightarrow> XDR" where
  "std_setpos n X = X\<lparr>x_private := n, x_handy := of_nat (x_private X + unat (x_handy X) - n)\<rparr>"

definition std_replymsg :: "'r xproc \<Rightarrow> XDR \<Rightarrow> 'r \<Rightarrow> (bool \<times> u32 \<times> 'r) option" where
  "std_replymsg p X r =
     (if unat (x_handy X) < 24 then Some (False, 0, r)
      else do {
        ws \<leftarrow> get_longs (x_private X) 6 (x_buf X);
        (if ws ! 1 \<noteq> 1 \<or> ws ! 2 \<noteq> 0 then Some (False, 0, r)
         else if ws ! 5 \<noteq> 0 then Some (True, ws ! 5, r)
         else map_option (\<lambda>(ok, r1, _). (ok, 0, r1)) (p (X\<lparr>x_private := x_private X + 24, x_handy := x_handy X - 24\<rparr>) r))
      })"

definition std_seterr :: "u32 \<Rightarrow> rpc_err \<Rightarrow> rpc_err" where
  "std_seterr m e = e\<lparr>re_status := if m = 0 then RPC_SUCCESS else if m = 1 then RPC_PROGUNAVAIL else if m = 2 then RPC_PROGVERSMISMATCH
     else if m = 3 then RPC_PROCUNAVAIL else if m = 4 then RPC_CANTDECODEARGS else RPC_FAILED\<rparr>"

definition std_lib :: "(nat \<Rightarrow> 'r xproc) \<Rightarrow> (unit, u32, 'r) rpclib" where
  "std_lib procs = \<lparr>rl_setpos = std_setpos, rl_putlong = (\<lambda>w. put_msg [w]), rl_callhdr = (\<lambda>xid prog vers. put_msg [xid, 0, 2, prog, vers]),
     rl_marshall = (\<lambda>_. put_msg [0, 0, 0, 0]), rl_validate = (\<lambda>au _. (True, au)), rl_refresh = (\<lambda>au. (False, au)),
     rl_replymsg = std_replymsg, rl_seterr = std_seterr, rl_has_verf = (\<lambda>_. False), rl_proc = procs, rl_authnone = ()\<rparr>"

definition quiet_net :: "(nat \<Rightarrow> net_event) \<Rightarrow> rnet" where
  "quiet_net ev = \<lparr>net_ev = ev, net_evn = 0, net_snd = (\<lambda>_. None), net_out = [], net_cb = (\<lambda>_. False), net_cbn = 0, net_alloc = (\<lambda>_ _. Some (\<lambda>_. 0))\<rparr>"

subsection \<open>Sequences of operations\<close>

text \<open>Between the operations the caller may change the results and the authentication.\<close>

inductive rpc_op :: "('au, 'm, 'r) rpclib \<Rightarrow> ('au, 'r) rclient \<Rightarrow> ('au, 'r) rclient \<Rightarrow> bool" for L where
  op_call: "clntaudp_call L proc xargs xres resp t C = Some (st, C') \<Longrightarrow> rpc_op L C C'"
| op_send: "clntaudp_send L proc xargs xres resp ud C = Some (st, C') \<Longrightarrow> rpc_op L C C'"
| op_sendsb: "clntaudp_sendsb L proc xargs xres resp ud block C = Some (st, C') \<Longrightarrow> rpc_op L C C'"
| op_wait: "clntaudp_wait L t C = Some (st, C') \<Longrightarrow> rpc_op L C C'"
| op_abort: "C' = clntaudp_abort C \<Longrightarrow> rpc_op L C C'"
| op_control: "clntaudp_control req info C = Some (ok, info', C') \<Longrightarrow> rpc_op L C C'"
| op_caller: "C' = C\<lparr>w_res := res, cl_auth := au\<rparr> \<Longrightarrow> rpc_op L C C'"

inductive_cases rpc_opE: "rpc_op L C C'"

lemma sendsb_slots:
  fixes C C' :: "('au, 'r) rclient"
  assumes "slots_ok C" and "clntaudp_sendsb L proc xargs xres resp ud block C = Some (st, C')"
  shows "slots_ok C'"
  using sendsb_ok [OF assms] slot_set_ok [OF assms(1)] slots_ok_cong assms(1) by blast

lemma control_state: "clntaudp_control req info C = Some (ok, info', C') \<Longrightarrow> slot_state C' = slot_state C"
  by (auto simp: clntaudp_control_def slot_state_def split: if_splits ctl_info.splits)

lemma rpc_op_ok: "rpc_op L C C' \<Longrightarrow> slots_ok C \<Longrightarrow> slots_ok C'"
proof (induction rule: rpc_op.induct)
  case (op_call proc xargs xres resp t C st C')
  then show ?case using call_state slots_ok_cong by blast
next
  case (op_send proc xargs xres resp ud C st C')
  then show ?case using sendsb_slots by (auto simp: clntaudp_send_def)
next
  case (op_sendsb proc xargs xres resp ud block C st C')
  then show ?case using sendsb_slots by blast
next
  case (op_wait t C st C')
  then show ?case using wait_ok by blast
next
  case (op_abort C' C)
  then show ?case using abort_ok by blast
next
  case (op_control req info C ok info' C')
  then show ?case using control_state slots_ok_cong by blast
next
  case op_caller
  then show ?case by (auto elim!: slots_ok_cong [THEN iffD2, rotated] simp: slot_state_def)
qed

lemma make_scus_free: "make_scus L xid program version sz n = Some (Some ss) \<Longrightarrow> length ss = n \<and> (\<forall>s \<in> set ss. \<not> scu_inuse s)"
proof (induction n arbitrary: ss)
  case (Suc n)
  then show ?case by (fastforce simp: zero_scu_def bind_eq_Some_conv split: if_splits)
qed simp

lemma bufcreate_new:
  assumes "clntaudp_bufcreate L e net res raddr prog vers wt sockp sz rsz num ce = Some (Some C, rm)"
  shows "\<exists>ss xid raddr1. make_scus L xid prog vers (round4 sz) (unat num) = Some (Some ss) \<and> \<not> num > 5 \<and>
    C = new_client L net res raddr1 wt (sockp < 0) (round4 sz) (round4 rsz) num xid ss"
proof -
  define raddr1 where "raddr1 = (if sin_port raddr = 0 then raddr\<lparr>sin_port := mk_port e\<rparr> else raddr)"
  define xid where "xid = mk_task e XOR mk_sec e XOR mk_usec e"
  note d = assms(1) [unfolded clntaudp_bufcreate_def Let_def, folded raddr1_def xid_def]
  have g: "\<not> num > 5" "mk_cl e" "mk_cu e" "mk_outbuf e" "\<not> (sin_port raddr = 0 \<and> mk_port e = 0)"
    using d by (auto split: if_splits)
  obtain ss where s: "make_scus L xid prog vers (round4 sz) (unat num) = Some (Some ss)"
    using d g by (cases "make_scus L xid prog vers (round4 sz) (unat num)"; cases "the (make_scus L xid prog vers (round4 sz) (unat num))") (auto split: if_splits)
  have "C = new_client L net res raddr1 wt (sockp < 0) (round4 sz) (round4 rsz) num xid ss"
    using d g s by (cases "sockp < 0"; cases "mk_socket e") (auto split: if_splits)
  then show ?thesis using s g(1) by blast
qed

lemma bufcreate_ok:
  assumes "clntaudp_bufcreate L e net res raddr prog vers wt sockp sz rsz num ce = Some (Some C, rm)" and "0 < num"
  shows "slots_ok C \<and> mcu_numfreescu (cl_mcu C) = num"
proof -
  obtain ss xid raddr1 where s: "make_scus L xid prog vers (round4 sz) (unat num) = Some (Some ss)" and g: "\<not> num > 5"
    and C: "C = new_client L net res raddr1 wt (sockp < 0) (round4 sz) (round4 rsz) num xid ss" using bufcreate_new [OF assms(1)] by blast
  note f = make_scus_free [OF s]
  then have "filter (\<lambda>s. \<not> scu_inuse s) ss = ss" by (simp add: filter_id_conv)
  then show ?thesis using f g assms(2) by (simp add: slots_ok_def C new_client_def word_less_nat_alt)
qed

lemma acreate_new:
  assumes "clnt_acreate L e net res prog vers num ce = Some (Some C, ce')"
  obtains C0 rm where "clntaudp_bufcreate L e net res \<lparr>sin_family = 2, sin_port = 0, sin_addr = snd (the (mk_host e))\<rparr> prog vers
      \<lparr>tv_sec = 5, tv_usec = 0\<rparr> (-1) 8800 8800 num ce = Some (Some C0, rm)"
    "C = upd_mcu (\<lambda>cu. cu\<lparr>mcu_total := \<lparr>tv_sec = 25, tv_usec = 0\<rparr>\<rparr>) C0"
  using assms by (auto simp: clnt_acreate_def clntaudp_create_def clntaudp_control_def bind_eq_Some_conv split: option.splits if_splits prod.splits)

lemma acreate_ok:
  assumes "clnt_acreate L e net res prog vers num ce = Some (Some C, ce')" and "0 < num"
  shows "slots_ok C"
proof -
  obtain C0 rm where c: "clntaudp_bufcreate L e net res \<lparr>sin_family = 2, sin_port = 0, sin_addr = snd (the (mk_host e))\<rparr> prog vers
      \<lparr>tv_sec = 5, tv_usec = 0\<rparr> (-1) 8800 8800 num ce = Some (Some C0, rm)"
    "C = upd_mcu (\<lambda>cu. cu\<lparr>mcu_total := \<lparr>tv_sec = 25, tv_usec = 0\<rparr>\<rparr>) C0" by (rule acreate_new [OF assms(1)])
  have "slot_state C = slot_state C0" using c(2) by (simp add: slot_state_def)
  then show ?thesis using bufcreate_ok [OF c(1) assms(2)] slots_ok_cong by blast
qed

text \<open>C21. From the creation of the client on, after any sequence of calls, sends, waits, aborts and control requests, whatever the
  network does, the counter of free slots is the number of slots that wait for no reply.\<close>

theorem free_slots_counted:
  assumes "clnt_acreate L e net res prog vers num ce = Some (Some C0, ce')" and "0 < num" and "(rpc_op L)\<^sup>*\<^sup>* C0 C"
  shows "unat (mcu_numfreescu (cl_mcu C)) = length (filter (\<lambda>s. \<not> scu_inuse s) (take (unat (mcu_numscu (cl_mcu C))) (mcu_scu (cl_mcu C)))) \<and>
    unat (mcu_numscu (cl_mcu C)) \<le> length (mcu_scu (cl_mcu C))"
proof -
  have "slots_ok C" using assms(3) acreate_ok [OF assms(1,2)]
  proof (induction rule: rtranclp_induct)
    case (step y z)
    then show ?case using rpc_op_ok by blast
  qed
  then show ?thesis by (simp add: slots_ok_def)
qed

lemma put_msg_ok: "stream_ok X \<Longrightarrow> 4 * length ws \<le> unat (x_handy X) \<Longrightarrow> \<exists>X'. put_msg ws X = Some (True, X')"
  using put_longs_ok [of "x_private X" ws "x_buf X"] by (auto simp: put_msg_def stream_ok_def)

definition sample_env :: make_env where
  "sample_env = \<lparr>mk_cl = True, mk_cu = True, mk_outbuf = True, mk_port = 2049, mk_pmap = \<lparr>cf_stat = RPC_SUCCESS, cf_errno = 0\<rparr>, mk_socket = Inr 3, mk_task = 5000,
     mk_sec = 77, mk_usec = 9, mk_host = Some (2, 16909060), mk_errno = 12\<rparr>"

lemma sample_header: "\<exists>X. put_msg [xid, 0, 2, p, v] (enc_stream (unat (round4 8800))) = Some (True, X)"
  by (rule put_msg_ok) (simp_all add: enc_stream_def stream_ok_def round4_def)

lemma sample_scus: "\<exists>ss. make_scus (std_lib procs) xid p v (round4 8800) n = Some (Some ss)"
proof (induction n)
  case (Suc n)
  obtain X where "put_msg [xid, 0, 2, p, v] (enc_stream (unat (round4 8800))) = Some (True, X)" using sample_header by blast
  then show ?case using Suc by (auto simp: std_lib_def)
qed simp

lemma sample_create:
  "\<exists>C ce'. clnt_acreate (std_lib procs) sample_env (quiet_net ev) res p v 3 ce = Some (Some C, ce')"
proof -
  obtain ss where "make_scus (std_lib procs) (mk_task sample_env XOR mk_sec sample_env XOR mk_usec sample_env) p v (round4 8800) 3 = Some (Some ss)"
    using sample_scus by blast
  then show ?thesis
    by (simp add: clnt_acreate_def sample_env_def clntaudp_create_def clntaudp_bufcreate_def clntaudp_control_def Let_def)
qed

lemma free_slots_counted_witness:
  "\<exists>C0 ce'. clnt_acreate (std_lib (\<lambda>_. xdr_u_long)) sample_env (quiet_net (\<lambda>_. Silent)) (\<lambda>_. 0) 100003 2 3 (mk_pmap sample_env) = Some (Some C0, ce') \<and>
     unat (mcu_numfreescu (cl_mcu (clntaudp_abort C0))) = length (filter (\<lambda>s. \<not> scu_inuse s)
       (take (unat (mcu_numscu (cl_mcu (clntaudp_abort C0)))) (mcu_scu (cl_mcu (clntaudp_abort C0)))))"
proof -
  obtain C0 ce' where c: "clnt_acreate (std_lib (\<lambda>_. xdr_u_long)) sample_env (quiet_net (\<lambda>_. Silent)) (\<lambda>_. 0 :: u32) 100003 2 3 (mk_pmap sample_env) = Some (Some C0, ce')"
    using sample_create by blast
  have "(rpc_op (std_lib (\<lambda>_. xdr_u_long)))\<^sup>*\<^sup>* C0 (clntaudp_abort C0)" by (intro r_into_rtranclp op_abort refl)
  then show ?thesis using free_slots_counted [OF c] c by auto
qed

subsection \<open>Replies\<close>

lemma frame_slot:
  assumes "wait_frame C C'" and "i < length (mcu_scu (cl_mcu C))"
  shows "scu_key (scu_at C' i) = scu_key (scu_at C i)" "mcu_numscu (cl_mcu C') = mcu_numscu (cl_mcu C)" "length (mcu_scu (cl_mcu C')) = length (mcu_scu (cl_mcu C))"
proof -
  have m: "map scu_key (mcu_scu (cl_mcu C')) = map scu_key (mcu_scu (cl_mcu C))" using assms(1) by (simp add: wait_frame_def)
  then show l: "length (mcu_scu (cl_mcu C')) = length (mcu_scu (cl_mcu C))" by (metis length_map)
  show "scu_key (scu_at C' i) = scu_key (scu_at C i)" using m assms(2) l by (metis nth_map)
  show "mcu_numscu (cl_mcu C') = mcu_numscu (cl_mcu C)" using assms(1) by (simp add: wait_frame_def slot_state_def)
qed

text \<open>The wait gave the reply \<open>inbuf\<close>, received as event \<open>k\<close>, to slot \<open>i\<close>.\<close>

definition wait_answer :: "('au, 'm, 'r) rpclib \<Rightarrow> ('au, 'r) rclient \<Rightarrow> ('au, 'r) rclient \<Rightarrow> nat \<Rightarrow> nat \<Rightarrow> u8 list \<Rightarrow> bool" where
  "wait_answer L C C' i k inbuf \<longleftrightarrow>
     net_evn (w_net C) \<le> k \<and> (\<exists>msg. net_ev (w_net C) k = Datagram msg \<and> inbuf = take (unat (mcu_recvsz (cl_mcu C))) msg) \<and> 4 \<le> length inbuf \<and>
     i < unat (mcu_numscu (cl_mcu C)) \<and> scu_inuse (scu_at C i) \<and> get32 (take 4 inbuf) = get32 (take 4 (x_buf (scu_outxdrs (scu_at C i)))) \<and>
     cla_resp C' = scu_resultsp (scu_at C i) \<and> cla_userdata C' = scu_userdata (scu_at C i) \<and>
     map scu_inuse (mcu_scu (cl_mcu C')) = (map scu_inuse (mcu_scu (cl_mcu C)))[i := False] \<and>
     (\<exists>msg au e r. rl_replymsg L (rl_proc L (mcu_xresults (cl_mcu C))) (dec_stream (net_alloc (w_net C) (Suc k)) inbuf) (w_res C (scu_resultsp (scu_at C i))) = Some (True, msg, r) \<and>
        re_status (rl_seterr L msg e) = RPC_SUCCESS \<and> fst (rl_validate L au msg) \<and> w_res C' = (w_res C)(scu_resultsp (scu_at C i) := r))"

lemma wait_matches_ok:
  assumes ok: "slots_ok C" and run: "clntaudp_wait L t C = Some (st, C')"
  shows "st = RPC_SUCCESS \<longrightarrow> (\<exists>i k inbuf. wait_answer L C C' i k inbuf)"
proof -
  let ?P = "\<lambda>(st, C'). st = RPC_SUCCESS \<longrightarrow> (\<exists>i k inbuf. wait_answer L C C' i k inbuf)"
  have "?P (st, C')"
  proof (rule run_loop_inv [OF run [unfolded clntaudp_wait_def], of "\<lambda>(again, C1). wait_frame C C1"])
    show "case (None :: nat option, C) of (again, C1) \<Rightarrow> wait_frame C C1" by (simp add: wait_frame_refl)
  next
    fix s s1 assume I: "case s of (again, C1) \<Rightarrow> wait_frame C C1" and step: "wait_step L (rpc_timeout C t) s = Some (Inr s1)"
    obtain again C1 where s: "s = (again, C1)" by (cases s)
    show "case s1 of (again, C1) \<Rightarrow> wait_frame C C1"
      using step [unfolded s]
    proof (cases rule: wait_step_cases)
      case (on again' C2)
      then show ?thesis using I s wait_frame_trans by auto
    qed auto
  next
    fix s a assume I: "case s of (again, C1) \<Rightarrow> wait_frame C C1" and step: "wait_step L (rpc_timeout C t) s = Some (Inl a)"
    obtain again C1 where s: "s = (again, C1)" by (cases s)
    have fr: "wait_frame C C1" using I s by simp
    show "?P a"
      using step [unfolded s]
    proof (cases rule: wait_step_cases)
      case (fails st C')
      then show ?thesis by auto
    next
      case (reply i msg inbuf C2 C3 fin)
      let ?D = "upd_mcu (\<lambda>cu. cu\<lparr>mcu_numfreescu := mcu_numfreescu cu + 1\<rparr>) (upd_scu i (\<lambda>s. s\<lparr>scu_inuse := False\<rparr>) C3)"
      show ?thesis
      proof (cases "fin \<and> re_status (mcu_error (cl_mcu ?D)) = RPC_SUCCESS")
        case False
        then show ?thesis using reply(8) by (cases a) (auto simp: Let_def dest: ret_eq(2))
      next
        case True
        then have a: "a = (RPC_SUCCESS, ?D)" using reply(8) by (simp add: Let_def)
        note m = match_slot [OF reply(5)]
        have f: "mcu_recvsz (cl_mcu C1) = mcu_recvsz (cl_mcu C)" "mcu_xresults (cl_mcu C1) = mcu_xresults (cl_mcu C)" "w_res C1 = w_res C"
          "net_ev (w_net C1) = net_ev (w_net C)" "net_alloc (w_net C1) = net_alloc (w_net C)" "net_evn (w_net C) \<le> net_evn (w_net C1)"
          "slot_state C1 = slot_state C" using fr by (simp_all add: wait_frame_def)
        have len: "length (mcu_scu (cl_mcu C)) = length (mcu_scu (cl_mcu C1))" using map_eq_imp_length_eq [of scu_inuse "mcu_scu (cl_mcu C1)" scu_inuse "mcu_scu (cl_mcu C)"] f(7) by (simp add: slot_state_def)
        have k: "scu_key (scu_at C1 i) = scu_key (scu_at C i)" "mcu_numscu (cl_mcu C1) = mcu_numscu (cl_mcu C)"
          by (rule frame_slot [OF fr, of i], simp only: len m(2))+
        have C2: "w_res C2 = w_res C1" "net_alloc (w_net C2) = net_alloc (w_net C1)" "net_evn (w_net C2) = Suc (net_evn (w_net C1))" "slot_state C2 = slot_state C1"
          "cla_resp C2 = scu_resultsp (scu_at C1 i)" "cla_userdata C2 = scu_userdata (scu_at C1 i)"
          unfolding reply(6) by (simp_all add: next_event_def slot_state_def)
        obtain ok msg1 r where rep: "rl_replymsg L (rl_proc L (mcu_xresults (cl_mcu C1))) (dec_stream (net_alloc (w_net C2) (net_evn (w_net C2))) inbuf) (w_res C2 (scu_resultsp (scu_at C1 i))) = Some (ok, msg1, r)"
          "replied_form i (scu_resultsp (scu_at C1 i)) C2 C3" "w_res C3 = (w_res C2)(scu_resultsp (scu_at C1 i) := r)"
          "re_status (mcu_error (cl_mcu C3)) = RPC_SUCCESS \<Longrightarrow> ok \<and> re_status (rl_seterr L msg1 (mcu_error (cl_mcu C2))) = RPC_SUCCESS \<and> fst (rl_validate L (cl_auth C2) msg1)"
          by (rule rpc_reply_cases [OF reply(7)]; blast)
        have "cla_resp C3 = cla_resp C2 \<and> cla_userdata C3 = cla_userdata C2" using rep(2) unfolding replied_form_def by (elim exE conjE) simp
        then have c3: "cla_resp C3 = cla_resp C2" "cla_userdata C3 = cla_userdata C2" "slot_state C3 = slot_state C"
          using replied_form_state [OF rep(2)] C2(4) f(7) by simp_all
        have good: "ok" "re_status (rl_seterr L msg1 (mcu_error (cl_mcu C2))) = RPC_SUCCESS" "fst (rl_validate L (cl_auth C2) msg1)" using rep(4) True by simp_all
        have "wait_answer L C ?D i (net_evn (w_net C1)) inbuf"
          unfolding wait_answer_def
        proof (intro conjI)
          show "map scu_inuse (mcu_scu (cl_mcu ?D)) = (map scu_inuse (mcu_scu (cl_mcu C)))[i := False]"
            using c3(3) by (simp add: slot_state_def map_update)
          show "\<exists>msg au e r. rl_replymsg L (rl_proc L (mcu_xresults (cl_mcu C))) (dec_stream (net_alloc (w_net C) (Suc (net_evn (w_net C1)))) inbuf) (w_res C (scu_resultsp (scu_at C i))) = Some (True, msg, r) \<and>
             re_status (rl_seterr L msg e) = RPC_SUCCESS \<and> fst (rl_validate L au msg) \<and> w_res ?D = (w_res C)(scu_resultsp (scu_at C i) := r)"
            using rep(1,3) good f C2 k(1) by (auto simp: scu_key_def)
        qed (use reply m f k C2 c3 in \<open>auto simp: scu_key_def\<close>)
        then show ?thesis using a by blast
      qed
    qed auto
  qed
  then show ?thesis by simp
qed

text \<open>C20. A wait succeeds only with a datagram that was received during the wait, whose transaction number is that of the message in a slot that
  waits for a reply, and which the library accepts as a valid successful reply; the results and user data handed out are those of this slot, the results hold what
  was decoded from the datagram and no other results change, and this slot, and no other, becomes free.\<close>

theorem wait_matches:
  assumes "slots_ok C" and "clntaudp_wait L t C = Some (RPC_SUCCESS, C')"
  shows "\<exists>i k inbuf. wait_answer L C C' i k inbuf"
  using wait_matches_ok [OF assms] by simp

definition sample_reply :: "u8 list" where
  "sample_reply = longs_wire [7, 1, 0, 0, 0, 0] @ put32 99"

definition sample_scu :: scu_data where
  "sample_scu = zero_scu\<lparr>scu_inuse := True, scu_outxdrs := (enc_stream 0)\<lparr>x_buf := put32 7\<rparr>, scu_resultsp := 4, scu_userdata := 12\<rparr>"

definition sample_client :: "(unit, u32) rclient" where
  "sample_client = \<lparr>cl_auth = (), cla_resp = 0, cla_userdata = 0,
     cl_mcu = \<lparr>mcu_numscu = 2, mcu_numfreescu = 1, mcu_xid = 7, mcu_scu = [zero_scu, sample_scu, zero_scu, zero_scu, zero_scu],
        mcu_timeout_cb = False, mcu_closeit = True, mcu_raddr = \<lparr>sin_family = 2, sin_port = 2049, sin_addr = 0\<rparr>, mcu_wait = \<lparr>tv_sec = 5, tv_usec = 0\<rparr>,
        mcu_total = \<lparr>tv_sec = 25, tv_usec = 0\<rparr>, mcu_error = \<lparr>re_status = RPC_SUCCESS, re_ru = 0\<rparr>, mcu_xresults = 0, mcu_sendsz = 4, mcu_recvsz = 100\<rparr>,
     w_net = quiet_net (\<lambda>n. if n = 1 then Datagram sample_reply else WouldBlock), w_res = (\<lambda>_. 0)\<rparr>"

lemma sample_slots_ok: "slots_ok sample_client"
  by (simp add: slots_ok_def sample_client_def sample_scu_def zero_scu_def)

lemma std_replymsg_ok:
  assumes "length hdr = 6" and "hdr ! 1 = 1" and "hdr ! 2 = 0" and "hdr ! 5 = 0" and "length (longs_wire hdr @ body) < 2 ^ 31"
  shows "std_replymsg p (dec_stream al (longs_wire hdr @ body)) r =
    map_option (\<lambda>(ok, r1, _). (ok, 0, r1)) (p ((dec_stream al (longs_wire hdr @ body))\<lparr>x_private := 24, x_handy := of_nat (length body)\<rparr>) r)"
proof -
  have g: "get_longs 0 6 (longs_wire hdr @ body) = Some hdr" using get_longs_ok [of hdr 0 "longs_wire hdr @ body"] assms(1) by simp
  have "unat (of_nat (24 + length body) :: u32) = 24 + length body" using assms(1,5) by (intro unat_small) simp
  then show ?thesis using g assms by (simp add: std_replymsg_def dec_stream_def)
qed

lemma sample_decode: "std_replymsg xdr_u_long (dec_stream al sample_reply) r = Some (True, 0, 99)"
proof -
  let ?X = "(dec_stream al sample_reply)\<lparr>x_private := 24, x_handy := 4\<rparr>"
  have "stream_ok ?X" "rest ?X = put32 99" "x_op ?X = XDR_DECODE"
    by (simp_all add: stream_ok_def rest_def dec_stream_def sample_reply_def)
  then have "xdr_u_long ?X r = Some (True, 99, adv ?X 4)" by (simp add: xdr_u_long_def getlong_ok)
  then show ?thesis unfolding sample_reply_def by (subst std_replymsg_ok) (simp_all add: sample_reply_def)
qed

lemma sample_wait: "\<exists>C'. clntaudp_wait (std_lib (\<lambda>_. xdr_u_long)) zero_timeval sample_client = Some (RPC_SUCCESS, C') \<and> w_res C' 4 = 99 \<and> cla_userdata C' = 12"
proof -
  have 1: "wait_step L t (None, sample_client) = Some (Inr (None, snd (next_event sample_client)))" for L :: "(unit, 'm, u32) rpclib" and t
    by (simp add: wait_selects_def next_event_def sample_client_def quiet_net_def)
  let ?C = "snd (next_event sample_client)"
  have m: "match_scu 7 0 [zero_scu, sample_scu] = Some 1" by (simp add: zero_scu_def sample_scu_def)
  have l: "length sample_reply = 28" "take 4 sample_reply = put32 7" by (simp_all add: sample_reply_def)
  have "\<exists>C'. wait_step (std_lib (\<lambda>_. xdr_u_long)) t (None, ?C) = Some (Inl (RPC_SUCCESS, C')) \<and> w_res C' 4 = 99 \<and> cla_userdata C' = 12" for t
    using m l sample_decode
    by (simp add: wait_selects_def next_event_def sample_client_def quiet_net_def wait_replied_def rpc_reply_def std_lib_def std_seterr_def Let_def)
      (simp add: sample_scu_def)
  then obtain C' where 2: "wait_step (std_lib (\<lambda>_. xdr_u_long)) (rpc_timeout sample_client zero_timeval) (None, ?C) = Some (Inl (RPC_SUCCESS, C'))"
    "w_res C' 4 = 99" "cla_userdata C' = 12" by blast
  have "clntaudp_wait (std_lib (\<lambda>_. xdr_u_long)) zero_timeval sample_client = Some (RPC_SUCCESS, C')"
    unfolding clntaudp_wait_def by (subst run_loop.simps, subst 1, simp del: wait_step.simps, subst run_loop.simps, subst 2(1), simp)
  then show ?thesis using 2(2,3) by blast
qed

lemma wait_matches_witness:
  "\<exists>C' i k inbuf. clntaudp_wait (std_lib (\<lambda>_. xdr_u_long)) zero_timeval sample_client = Some (RPC_SUCCESS, C') \<and>
     wait_answer (std_lib (\<lambda>_. xdr_u_long)) sample_client C' i k inbuf"
  using sample_wait wait_matches [OF sample_slots_ok] by blast

end
