(* ===== verification/StubProps.thy ===== *)
theory StubProps
  imports StubCalls RpcProps
begin

text \<open>
  The client stubs: every stub returns whatever the network does, a result is decoded from the answer to the call, a
  silent server is sent a bounded number of messages, and what the server answers arrives.
\<close>

subsection \<open>The library in its simplest form\<close>

lemma put_msg_routine: "enc_routine (put_msg ws)"
  unfolding enc_routine_def
proof (intro allI impI, elim conjE)
  fix X assume X: "stream_ok X" "x_op X = XDR_ENCODE"
  have h: "unat (x_handy X) < 2 ^ 31" "x_private X + unat (x_handy X) \<le> length (x_buf X)" using X(1) by (simp_all add: stream_ok_def)
  show "\<exists>ok X'. put_msg ws X = Some (ok, X') \<and> (ok \<longrightarrow> (\<exists>n. went X n X' \<and> take (x_private X) (x_buf X') = take (x_private X) (x_buf X)))"
  proof (cases "4 * length ws \<le> unat (x_handy X)")
    case True
    then have n: "unat (of_nat (4 * length ws) :: u32) = 4 * length ws" using h(1) by (intro unat_small) simp
    have "unat (x_handy X - of_nat (4 * length ws)) = unat (x_handy X) - 4 * length ws" using handy_sub(2) [OF h(1), of "of_nat (4 * length ws)"] n True by simp
    then have "went X (4 * length ws) (X\<lparr>x_buf := take (x_private X) (x_buf X) @ longs_wire ws @ drop (x_private X + 4 * length ws) (x_buf X),
        x_private := x_private X + 4 * length ws, x_handy := x_handy X - of_nat (4 * length ws)\<rparr>)" using True h(2) by (simp add: went_def)
    then show ?thesis using True h(2) put_longs_ok [of "x_private X" ws "x_buf X"] by (auto simp: put_msg_def)
  qed (auto simp: put_msg_def)
qed

lemma get_longs_some: "p + 4 * n \<le> length buf \<Longrightarrow> \<exists>ws. get_longs p n buf = Some ws"
proof (induction n arbitrary: p)
  case (Suc n)
  then have "p + 4 + 4 * n \<le> length buf" by simp
  then obtain ws where "get_longs (p + 4) n buf = Some ws" using Suc.IH [of "p + 4"] by blast
  then show ?case using Suc.prems by (simp add: peek_def)
qed simp

lemma std_replymsg_ends:
  assumes "stream_ok X" and "x_op X = XDR_DECODE" and "\<forall>Y. stream_ok Y \<and> x_op Y = XDR_DECODE \<longrightarrow> p Y r \<noteq> None"
  shows "std_replymsg p X r \<noteq> None"
proof (cases "unat (x_handy X) < 24")
  case False
  let ?Y = "X\<lparr>x_private := x_private X + 24, x_handy := x_handy X - 24\<rparr>"
  have h: "unat (x_handy X) < 2 ^ 31" "x_private X + unat (x_handy X) \<le> length (x_buf X)" using assms(1) by (simp_all add: stream_ok_def)
  have "unat (x_handy X - 24) = unat (x_handy X) - 24" using handy_sub(2) [OF h(1), of 24] False by simp
  then have "stream_ok ?Y" using False h by (simp add: stream_ok_def)
  then have p: "p ?Y r \<noteq> None" using assms(2,3) by simp
  have "x_private X + 4 * 6 \<le> length (x_buf X)" using False h(2) by simp
  then obtain ws where "get_longs (x_private X) 6 (x_buf X) = Some ws" using get_longs_some by blast
  then show ?thesis using False p by (auto simp: std_replymsg_def)
qed (simp add: std_replymsg_def)

lemma std_replymsg_same: "std_replymsg p X r = Some (ok, msg, r1) \<Longrightarrow> re_status (std_seterr msg e) \<noteq> RPC_SUCCESS \<Longrightarrow> r1 = r"
  by (auto simp: std_replymsg_def std_seterr_def bind_eq_Some_conv split: if_splits prod.splits)

lemma std_lib_ok: "lib_ok (std_lib procs)"
  unfolding lib_ok_def
proof (intro conjI)
  show "\<forall>p X r ok msg r1 e. rl_replymsg (std_lib procs) p X r = Some (ok, msg, r1) \<and> ok \<and> re_status (rl_seterr (std_lib procs) msg e) \<noteq> RPC_SUCCESS \<longrightarrow> r1 = r"
    by (auto simp: std_lib_def dest: std_replymsg_same)
qed (use put_msg_routine std_replymsg_ends in \<open>auto simp: std_lib_def std_setpos_def\<close>)

lemma std_accepts:
  assumes "length hdr = 6" and "hdr ! 1 = 1" and "hdr ! 2 = 0" and "hdr ! 5 = 0"
  shows "accepts (std_lib procs) (longs_wire hdr)"
  unfolding accepts_def
proof (intro exI [of _ 0] conjI allI impI, goal_cases)
  case (3 p X r r1 X1 body)
  have X: "stream_ok X" "x_op X = XDR_DECODE" "rest X = longs_wire hdr @ body" and p: "p (adv X (of_nat (length (longs_wire hdr)))) r = Some (True, r1, X1)" using 3 by simp_all
  have h: "24 \<le> unat (x_handy X)" using length_rest [OF X(1)] X(3) assms(1) by simp
  have "take 24 (drop (x_private X) (x_buf X)) = take 24 (rest X)" using h by (simp add: rest_def min_def)
  then have "take (4 * length hdr) (drop (x_private X) (x_buf X)) = longs_wire hdr" using X(3) assms(1) by simp
  moreover have "x_private X + 4 * length hdr \<le> length (x_buf X)" using X(1) h assms(1) by (simp add: stream_ok_def)
  ultimately have g: "get_longs (x_private X) 6 (x_buf X) = Some hdr" using get_longs_ok [of hdr "x_private X" "x_buf X"] assms(1) by simp
  have "adv X 24 = X\<lparr>x_private := x_private X + 24, x_handy := x_handy X - 24\<rparr>" by (simp add: adv_def)
  then show ?case using g h p assms by (simp add: std_lib_def std_replymsg_def)
qed (simp_all add: std_lib_def std_seterr_def)

subsection \<open>The client at the start\<close>

text \<open>The routine for the header of a call, as documented: it goes forward in the stream, by the transaction number at least.\<close>

definition header_ok :: "('au, 'm, 'r) rpclib \<Rightarrow> bool" where
  "header_ok L \<longleftrightarrow> (\<forall>xid p v. enc_routine (rl_callhdr L xid p v) \<and> (\<forall>X X'. rl_callhdr L xid p v X = Some (True, X') \<longrightarrow> x_private X + 4 \<le> x_private X'))"

lemma make_scus_ready:
  assumes "header_ok L" and "unat sz < 2 ^ 31"
  shows "make_scus L xid p v sz n = Some (Some ss) \<Longrightarrow> \<forall>s \<in> set ss. slot_ready s"
proof (induction n arbitrary: ss)
  case (Suc n)
  obtain X ss1 where x: "rl_callhdr L xid p v (enc_stream (unat sz)) = Some (True, X)" "make_scus L xid p v sz n = Some (Some ss1)"
    "ss = zero_scu\<lparr>scu_outxdrs := X, scu_xdrpos := x_private X\<rparr> # ss1"
    using Suc.prems by (auto simp: bind_eq_Some_conv split: if_splits)
  note e = enc_stream_ok [OF assms(2)]
  have r: "enc_routine (rl_callhdr L xid p v)" "4 \<le> x_private X" using assms(1) x(1) unfolding header_ok_def by (blast, force simp: enc_stream_def)
  have a: "after (enc_stream (unat sz)) X" using enc_routineD [OF r(1), of "enc_stream (unat sz)"] e x(1) by auto
  have "x_private X + unat (x_handy X) = unat sz" "length (x_buf X) = unat sz" using after_facts [OF a] e by (simp_all add: enc_stream_def)
  then have "slot_ready (zero_scu\<lparr>scu_outxdrs := X, scu_xdrpos := x_private X\<rparr>)" using r(2) assms(2) by (simp add: slot_ready_def Let_def)
  then show ?case using Suc.IH [OF x(2)] x(3) by simp
qed simp

lemma acreate_ready:
  assumes c: "clnt_acreate L e net res prog vers num ce = Some (Some C, ce')" and n: "0 < num" and L: "header_ok L" and p: "pauses net"
  shows "client_ready C \<and> w_res C = res \<and> w_net C = net \<and> mcu_total (cl_mcu C) = \<lparr>tv_sec = 25, tv_usec = 0\<rparr> \<and>
    mcu_wait (cl_mcu C) = \<lparr>tv_sec = 5, tv_usec = 0\<rparr> \<and> mcu_recvsz (cl_mcu C) = 8800"
proof -
  obtain C0 rm where b: "clntaudp_bufcreate L e net res \<lparr>sin_family = 2, sin_port = 0, sin_addr = snd (the (mk_host e))\<rparr> prog vers
      \<lparr>tv_sec = 5, tv_usec = 0\<rparr> (-1) 8800 8800 num ce = Some (Some C0, rm)"
    "C = upd_mcu (\<lambda>cu. cu\<lparr>mcu_total := \<lparr>tv_sec = 25, tv_usec = 0\<rparr>\<rparr>) C0" by (rule acreate_new [OF c])
  obtain ss xid raddr1 where s: "make_scus L xid prog vers (round4 8800) (unat num) = Some (Some ss)"
    "C0 = new_client L net res raddr1 \<lparr>tv_sec = 5, tv_usec = 0\<rparr> True (round4 8800) (round4 8800) num xid ss" using bufcreate_new [OF b(1)] by auto
  have sz: "round4 8800 = 8800" by (simp add: round4_def)
  have "ss \<noteq> []" using make_scus_free [OF s(1)] n by (auto simp: word_less_nat_alt)
  moreover have "\<forall>s \<in> set ss. slot_ready s" by (rule make_scus_ready [OF L _ s(1)]) (simp add: sz)
  ultimately have "slot_ready ((ss @ replicate (5 - unat num) zero_scu) ! 0)" by (cases ss) auto
  then show ?thesis using \<open>ss \<noteq> []\<close> p by (simp add: b(2) s(2) new_client_def client_ready_def sz normal_time_def us_def)
qed

lemma std_header_ok: "header_ok (std_lib procs)"
  using put_msg_routine by (auto simp: header_ok_def std_lib_def put_msg_def split: if_splits)

subsection \<open>A sample client\<close>

definition sample_slot :: scu_data where
  "sample_slot = zero_scu\<lparr>scu_outxdrs := (enc_stream 8800)\<lparr>x_private := 20, x_handy := 8780\<rparr>, scu_xdrpos := 20\<rparr>"

definition sample_statics :: "nat \<Rightarrow> nfs_result" where
  "sample_statics = (\<lambda>a. if a = RES_READDIR then R_readdirres zero_readdirres else R_void)"

definition sample_clnt :: "rnet \<Rightarrow> (unit, nfs_result) rclient" where
  "sample_clnt N = \<lparr>cl_auth = (), cla_resp = 0, cla_userdata = 0,
     cl_mcu = (cl_mcu sample_client)\<lparr>mcu_scu := [sample_slot, zero_scu, zero_scu, zero_scu, zero_scu], mcu_recvsz := 8800\<rparr>, w_net = N, w_res = sample_statics\<rparr>"

definition sample_world :: "rnet \<Rightarrow> unit nworld" where
  "sample_world N = \<lparr>nw_clnt = sample_clnt N, nw_ask = (\<lambda>_. False), nw_asked = 0\<rparr>"

definition no_procs :: "nat \<Rightarrow> nfs_result xproc" where
  "no_procs = (\<lambda>_ _ _. None)"

lemma sample_clnt_sel [simp]:
  "mcu_total (cl_mcu (sample_clnt N)) = \<lparr>tv_sec = 25, tv_usec = 0\<rparr>" "mcu_wait (cl_mcu (sample_clnt N)) = \<lparr>tv_sec = 5, tv_usec = 0\<rparr>"
  "mcu_xid (cl_mcu (sample_clnt N)) = 7" "mcu_recvsz (cl_mcu (sample_clnt N)) = 8800" "w_net (sample_clnt N) = N" "w_res (sample_clnt N) = sample_statics"
  "mcu_scu (cl_mcu (sample_clnt N)) = [sample_slot, zero_scu, zero_scu, zero_scu, zero_scu]"
  by (simp_all add: sample_clnt_def sample_client_def)

lemma sample_world_sel [simp]: "nw_clnt (sample_world N) = sample_clnt N" "nw_ask (sample_world N) = (\<lambda>_. False)"
  by (simp_all add: sample_world_def)

lemma sample_slot_ready: "slot_ready sample_slot"
  by (simp add: sample_slot_def slot_ready_def enc_stream_def)

lemma sample_statics_ok: "statics_ok sample_statics"
  by (simp add: statics_ok_def sample_statics_def listing_sound_def zero_readdirres_def)

lemma sample_world_ready: "pauses N \<Longrightarrow> world_ready (sample_world N)"
  using sample_slot_ready sample_statics_ok by (auto simp: world_ready_def client_ready_def normal_time_def us_def)

definition sample_request :: nfs_request where
  "sample_request = Q_getattr (replicate 32 5)"

lemma put_msg_fits:
  assumes "stream_ok X" and "x_op X = XDR_ENCODE" and "4 * length ws \<le> unat (x_handy X)"
  obtains X' where "put_msg ws X = Some (True, X')" "stream_ok X'" "x_op X' = XDR_ENCODE" "unat (x_handy X') = unat (x_handy X) - 4 * length ws"
proof -
  have h: "unat (x_handy X) < 2 ^ 31" "x_private X + unat (x_handy X) \<le> length (x_buf X)" using assms(1) by (simp_all add: stream_ok_def)
  obtain X' where p: "put_msg ws X = Some (True, X')" "x_handy X' = x_handy X - of_nat (4 * length ws)"
    using assms(3) h put_longs_ok [of "x_private X" ws "x_buf X"] by (auto simp: put_msg_def)
  have a: "after X X'" using enc_routineD [OF put_msg_routine assms(1,2), of ws] p(1) by auto
  have n: "unat (of_nat (4 * length ws) :: u32) = 4 * length ws" using assms(3) h(1) by (intro unat_small) simp
  have "unat (x_handy X') = unat (x_handy X) - 4 * length ws" using handy_sub(2) [OF h(1), of "of_nat (4 * length ws)"] n p(2) assms(3) by simp
  then show ?thesis using that [OF p(1)] after_ok [OF a assms(1,2)] by blast
qed

lemma sample_sendable: "sendable (std_lib p) sample_request (sample_world N)"
proof -
  let ?W = "prepared sample_request (sample_world N)"
  have c: "cl_mcu (nw_clnt ?W) = cl_mcu (nw_clnt (sample_world N))" "cl_auth (nw_clnt ?W) = ()" by (simp_all add: prepared_def set_result_def)
  have s: "scu_at (nw_clnt ?W) 0 = sample_slot" using c(1) by simp
  define xid where "xid = mcu_xid (cl_mcu (nw_clnt ?W)) + 0x10000"
  define X0 where "X0 = rl_setpos (nfs_lib (std_lib p)) (scu_xdrpos sample_slot) ((scu_outxdrs sample_slot)\<lparr>x_op := XDR_ENCODE\<rparr>)"
  have x0: "x_buf X0 = replicate 8800 0" "x_private X0 = 20" "x_handy X0 = 8780" "x_op X0 = XDR_ENCODE"
    by (simp_all add: X0_def std_lib_def std_setpos_def sample_slot_def enc_stream_def)
  define buf where "buf = put32 xid @ drop 4 (x_buf X0)"
  define X1 where "X1 = X0\<lparr>x_buf := buf\<rparr>"
  have b: "poke 0 (put32 xid) (x_buf X0) = Some buf" by (simp add: poke_def x0 buf_def)
  have 1: "stream_ok X1" "x_op X1 = XDR_ENCODE" "unat (x_handy X1) = 8780" by (simp_all add: X1_def x0 stream_ok_def buf_def)
  obtain X2 where 2: "put_msg [1] X1 = Some (True, X2)" "stream_ok X2" "x_op X2 = XDR_ENCODE" "unat (x_handy X2) = 8776"
    by (rule put_msg_fits [OF 1(1,2), of "[1]"]) (simp_all add: 1)
  obtain X3 where 3: "put_msg [0, 0, 0, 0] X2 = Some (True, X3)" "stream_ok X3" "x_op X3 = XDR_ENCODE" "unat (x_handy X3) = 8760"
    by (rule put_msg_fits [OF 2(2,3), of "[0, 0, 0, 0]"]) (simp_all add: 2)
  obtain X4 where 4: "xdr_nfs_fh X3 (replicate 32 5) = Some (True, replicate 32 5, X4)"
    using enc_okD [OF enc_fh 3(2,3), of "replicate 32 5"] 3(4) by auto
  have "encode_call (nfs_lib (std_lib p)) 0 (req_proc sample_request) (req_args sample_request) (nw_clnt ?W) =
      Some (Some (x_private X4), upd_mcu (\<lambda>cu. cu\<lparr>mcu_xid := xid\<rparr>) (upd_scu 0 (\<lambda>s. s\<lparr>scu_outxdrs := X4\<rparr>) (nw_clnt ?W)))"
    unfolding encode_call_def Let_def s X0_def [symmetric] xid_def [symmetric] b
    using 2(1) 3(1) 4 by (simp add: X1_def [symmetric] std_lib_def sample_request_def enc_args_def)
  then show ?thesis by (auto simp: sendable_def)
qed

lemma sample_request_ok [simp]: "request_ok sample_request" "args_ok sample_request" "req_kind sample_request = XDR_ATTRSTAT" "req_addr sample_request = RES_GETATTR"
  "req_init sample_request R = R_attrstat zero_attrstat"
  by (simp_all add: sample_request_def request_ok_def req_init_def)

lemma sample_not_read [simp]: "sample_request \<noteq> Q_read_buf a buf"
  by (simp add: sample_request_def)

lemma sample_answer_fits: "answer_fits sample_request v"
  by (simp add: answer_fits_def sample_request_def)

lemma quiet_pauses:
  assumes "\<forall>n > k. f n = Silent"
  shows "pauses (quiet_net f)"
  unfolding pauses_def
proof
  fix n
  have "f (n + k + 1) = Silent" using assms by simp
  then have "pausing (net_ev (quiet_net f) (n + k + 1))" by (simp add: quiet_net_def pausing_def)
  then show "\<exists>m \<ge> n. pausing (net_ev (quiet_net f) m)" by (metis le_add1 add.assoc)
qed

lemma quiet_silent: "silent_net (quiet_net (\<lambda>_. Silent))"
  by (simp add: silent_net_def quiet_net_def)

text \<open>A network in which a stray datagram comes before the answer.\<close>

definition sample_hdr :: "u32 list" where
  "sample_hdr = [7 + 0x10000, 1, 0, 0, 0, 0]"

definition sample_answer :: nfs_result where
  "sample_answer = R_attrstat \<lparr>as_status = 70, as_attributes = zero_fattr\<rparr>"

definition sample_net :: rnet where
  "sample_net = quiet_net (\<lambda>n. if n = 0 then Datagram (put32 3 @ put32 4) else if n = 1 then Datagram (longs_wire sample_hdr @ res_wire sample_answer) else Silent)"

lemma sample_hdr: "length sample_hdr = 6" "sample_hdr ! 1 = 1" "sample_hdr ! 2 = 0" "sample_hdr ! 5 = 0"
  by (simp_all add: sample_hdr_def)

lemma sample_net_ready: "world_ready (sample_world sample_net)"
  unfolding sample_net_def by (rule sample_world_ready [OF quiet_pauses [of 1]]) simp

lemma sample_net_facts:
  "4 \<le> length (longs_wire sample_hdr)" "net_snd sample_net n = None" "normal_time \<lparr>tv_sec = 25, tv_usec = 0\<rparr>" "0 < us \<lparr>tv_sec = 25, tv_usec = 0\<rparr>"
  "net_evn sample_net = 0" "ignored 8800 65543 (net_ev sample_net 0)" "net_ev sample_net (Suc 0) = Datagram (longs_wire sample_hdr @ res_wire sample_answer)"
  "length (longs_wire sample_hdr) + length (res_wire sample_answer) \<le> 8800" "get32 (take 4 (longs_wire sample_hdr)) = 65543"
  "\<exists>y. net_alloc sample_net m i = Some y" "res_kind sample_answer = XDR_ATTRSTAT" "res_ok sample_answer"
  "res_into sample_answer (R_attrstat zero_attrstat) = R_attrstat (zero_attrstat\<lparr>as_status := 70\<rparr>)"
  by (simp_all add: sample_net_def quiet_net_def sample_hdr_def normal_time_def us_def ignored_def sample_answer_def attrstat_wire_def)

lemma sample_delivered:
  "\<exists>W'. perform sample_request (std_lib no_procs) (sample_world sample_net) = Some (Some RES_GETATTR, W')"
  using perform_delivered [OF std_lib_ok sample_request_ok(2) sample_net_ready std_accepts [OF sample_hdr] _ sample_sendable, of 1 sample_answer no_procs] sample_net_facts sample_answer_fits
  by auto

subsection \<open>What the stubs promise\<close>

text \<open>C16. Every synchronous stub returns: whatever datagrams arrive and whatever they contain, whichever transmissions and allocations fail, the stub
  comes to an end without an access outside the messages and the results. The conditions: the network pauses again and again, the user declines a
  requester at some time; the arguments can be encoded (file handles of 32 bytes, strings and data within the bounds of the protocol); and the buffer given to
  \<open>nfsproc_read_buf\<close> has at least 8192 bytes. That last condition is not one the handler keeps: \<open>rb_ReadBuf\<close> and \<open>nfs_MRead\<close> hand shorter buffers of
  the client on, to which a server that answers with more bytes than it was asked for writes behind their end.\<close>

theorem stubs_return:
  assumes "lib_ok L" and "args_ok q" and "\<forall>a buf. q = Q_read_buf a buf \<longrightarrow> 8192 \<le> length buf" and "world_ready W"
  shows "\<exists>p W'. perform q L W = Some (p, W')"
proof -
  have "buffer_ok q" using assms(3) by (cases q) auto
  then show ?thesis using perform_ends [OF assms(1) _ assms(4), of q] assms(2) by (auto simp: request_ok_def)
qed

lemma stubs_return_witness:
  "\<exists>p W'. perform sample_request (std_lib no_procs) (sample_world (quiet_net (\<lambda>n. if n = 1 then Datagram [0, 1, 0, 7, 255] else Silent))) = Some (p, W')"
  by (rule stubs_return [OF std_lib_ok sample_request_ok(2) _ sample_world_ready [OF quiet_pauses [of 1]]]) simp_all

text \<open>C18. A stub that answers a result points to its own result, and this was decoded, from the state in which the stub initialised it, from a datagram that
  was received during the call, that carries the transaction number of the message sent last, and that the library accepts as a successful reply; no other result has changed.\<close>

theorem results_are_answers:
  assumes "lib_ok L" and "request_ok q" and "world_ready W" and "perform q L W = Some (Some a, W')"
  shows "a = req_addr q \<and> (\<exists>k inbuf. call_answer (nfs_lib L) (req_kind q) a (nw_clnt (prepared q W)) (nw_clnt W') k inbuf)"
  using perform_ends [OF assms(1-3)] assms(4) by (auto simp: prepared_def)

lemma results_are_answers_witness:
  "\<exists>W' k inbuf. perform sample_request (std_lib no_procs) (sample_world sample_net) = Some (Some RES_GETATTR, W') \<and>
     call_answer (nfs_lib (std_lib no_procs)) XDR_ATTRSTAT RES_GETATTR (nw_clnt (prepared sample_request (sample_world sample_net))) (nw_clnt W') k inbuf"
  using sample_delivered results_are_answers [OF std_lib_ok sample_request_ok(1) sample_net_ready] sample_request_ok(3) by metis

text \<open>C19. A silent server (nothing arrives, no transmission fails), for arguments within the bounds of the protocol and a user who does not want to wait
  longer: the stub answers NULL. If the arguments do not fit into the message of the client, nothing has been sent; if they do, exactly the encoded message has been sent,
  under the next transaction number, once per retry timeout until the total timeout is over, so five times with the timeouts of a new client.\<close>

theorem silent_server:
  assumes "lib_ok L" and "args_ok q" and "world_ready W" and "silent_net (w_net (nw_clnt W))" and "\<not> nw_ask W (nw_asked W)"
    and "normal_time (mcu_total (cl_mcu (nw_clnt W)))" and "0 < us (mcu_total (cl_mcu (nw_clnt W)))"
  shows "\<exists>W'. perform q L W = Some (None, W') \<and> (case call_message L q W of
       None \<Rightarrow> net_out (w_net (nw_clnt W')) = net_out (w_net (nw_clnt W))
     | Some msg \<Rightarrow> net_out (w_net (nw_clnt W')) = net_out (w_net (nw_clnt W)) @
          replicate (waits (us (mcu_total (cl_mcu (nw_clnt W)))) (us (mcu_wait (cl_mcu (nw_clnt W))))) msg \<and>
         take 4 msg = put32 (mcu_xid (cl_mcu (nw_clnt W)) + 0x10000))"
  by (rule perform_silent [OF assms])

lemma silent_server_witness:
  "\<exists>W' msg. perform sample_request (std_lib no_procs) (sample_world (quiet_net (\<lambda>_. Silent))) = Some (None, W') \<and>
     net_out (w_net (nw_clnt W')) = replicate 5 msg \<and> take 4 msg = put32 (7 + 0x10000)"
proof -
  have w: "waits (us \<lparr>tv_sec = 25, tv_usec = 0\<rparr>) (us \<lparr>tv_sec = 5, tv_usec = 0\<rparr>) = 5" by (simp add: waits_def us_def)
  have n: "net_out (quiet_net (\<lambda>_. Silent)) = []" by (simp add: quiet_net_def)
  obtain msg where m: "call_message (std_lib no_procs) sample_request (sample_world (quiet_net (\<lambda>_. Silent))) = Some msg"
    using sample_sendable [unfolded sendable_message] by blast
  have "\<exists>W'. perform sample_request (std_lib no_procs) (sample_world (quiet_net (\<lambda>_. Silent))) = Some (None, W') \<and>
     net_out (w_net (nw_clnt W')) = replicate 5 msg \<and> take 4 msg = put32 (7 + 0x10000)"
    using silent_server [OF std_lib_ok sample_request_ok(2) sample_world_ready [OF silent_pauses [OF quiet_silent]], of no_procs]
    unfolding m by (simp add: quiet_silent w n) (simp add: normal_time_def us_def)
  then show ?thesis by blast
qed

text \<open>C17. What the server answers arrives. The conditions: the arguments can be encoded and fit into the message, and the first transmission does not fail; a reply comes that the library accepts
  and whose body is the encoding of a result of the right kind, within the bounds of the protocol and not longer than the receive buffer, after any number of datagrams with other transaction numbers;
  every allocation that decoding it needs succeeds; for \<open>nfsproc_read_buf\<close>, whose buffer may be of any size, the answer has no more data than fits into it. Then the stub succeeds and its result
  is the one the server encoded (its strings and data in the client's storage).\<close>

theorem reply_delivered:
  assumes "lib_ok L" and "args_ok q" and "world_ready W" and "sendable L q W" and "accepts L hdr" and "4 \<le> length hdr"
    and "net_snd (w_net (nw_clnt W)) (length (net_out (w_net (nw_clnt W)))) = None"
    and "normal_time (mcu_total (cl_mcu (nw_clnt W)))" and "0 < us (mcu_total (cl_mcu (nw_clnt W)))"
    and "\<forall>i < j. ignored (unat (mcu_recvsz (cl_mcu (nw_clnt W)))) (mcu_xid (cl_mcu (nw_clnt W)) + 0x10000) (net_ev (w_net (nw_clnt W)) (net_evn (w_net (nw_clnt W)) + i))"
    and "net_ev (w_net (nw_clnt W)) (net_evn (w_net (nw_clnt W)) + j) = Datagram (hdr @ res_wire v)"
    and "length (hdr @ res_wire v) \<le> unat (mcu_recvsz (cl_mcu (nw_clnt W)))" and "get32 (take 4 hdr) = mcu_xid (cl_mcu (nw_clnt W)) + 0x10000"
    and "\<forall>i. net_alloc (w_net (nw_clnt W)) (Suc (net_evn (w_net (nw_clnt W)) + j)) i \<noteq> None"
    and "res_kind v = req_kind q" and "res_ok v"
    and "\<forall>a buf r. q = Q_read_buf a buf \<and> v = R_readres r \<and> rr_status r = 0 \<longrightarrow> unat (data_len (ro_data (rr_reply r))) \<le> length buf"
  shows "\<exists>W'. perform q L W = Some (Some (req_addr q), W') \<and> w_res (nw_clnt W') (req_addr q) = res_into v (req_init q (w_res (nw_clnt W)))"
  by (rule perform_delivered [OF assms(1-3,5,6,4,7-16) assms(17) [folded answer_fits_def]])

lemma reply_delivered_witness:
  "\<exists>W'. perform sample_request (std_lib no_procs) (sample_world sample_net) = Some (Some RES_GETATTR, W') \<and>
     w_res (nw_clnt W') RES_GETATTR = R_attrstat (zero_attrstat\<lparr>as_status := 70\<rparr>)"
  using reply_delivered [OF std_lib_ok sample_request_ok(2) sample_net_ready sample_sendable std_accepts [OF sample_hdr], of 1 sample_answer no_procs] sample_net_facts
  by simp

end
