(* ===== verification/Spec2Isabelle.thy ===== *)
theory Spec2Isabelle
  imports FileIO NfsSupp Dirs LocateLocks ExamineData FindOpen FindClose DispatchIndex FlushAll ObjectActs ServeInv XdrProps StubProps
begin

text \<open>
  A model of the Amiga NFS client file system \<open>ch_nfs\<close> (src/src). The handler receives
  AmigaDOS packets, keeps locks, open files and directory scans for its clients, caches file
  attributes and directory entries, buffers reads and writes, and talks to an NFS version 2
  server through remote procedure calls.

  \<^bold>\<open>Parts and theories.\<close>

  \<^item> Prelude: integer types, lists, \<open>memmove\<close>, pointer chains.
  \<^item> State: the protocol types (nfs_prot.h), the handler's structures (wbuf.h, rbuf.h, fh.h,
    locks.h, dirs.h, nfs.h) and the part of \<open>Global_T\<close> (nfs_handler.h) the modelled parts use;
    the client stubs of the remote calls as the parameter record \<open>rpc_ops\<close>.
  \<^item> NfsSupp (nfssupp.c): error and id conversion. NfsIO, NfsCalls (nfs.c): the block transfer
    loops; the wrappers of one remote call each and the name search without case.
  \<^item> Names (fn.c, supp.c): paths and BCPL strings; dos.library's functions are the record
    \<open>dosnames\<close>, with their documented behaviour \<open>dos_ok\<close>.
  \<^item> Pool, MBuf (mbuf.c): the contract of a pool of objects and the pool of data buffers.
  \<^item> WInfo, WBuf, WBufInv, WBufPut (wbuf.c): the write-behind cache: the table of dirty
    intervals of a buffer, the operations, the invariant and the flush, the write path.
  \<^item> RBuf (rbuf.c): the read-ahead buffer.
  \<^item> LinkedList; FileHandles (fh.c), Locks (locks.c), Dirs (dirs.c): the linked registries.
  \<^item> FileIO (read.c, write.c, seek.c): the packet actions on open files, on top of both buffers.
  \<^item> FtHash (common/fthash.c): the ageing hash table; AttrCache (attrs.c, \<open>c_GetAttr\<close> of lock.c)
    and DirCache (dcache.c): its two clients.
  \<^item> Locate (lock.c): finding objects through the caches, full names, and the actions on locks;
    LocateWalk: the path walk is the walk on the server; LocateLocks: what a lock request
    answers, and the invariant that exclusive locks exclude others.
  \<^item> Examine (examine.c): the conversions of attributes and the actions that hand them out;
    ExamineData: dates, protection bits and the records of \<open>ExAll\<close>.
  \<^item> Find (find.c): the actions that open, close and cut files. LocateDir: the directory that the
    actions on names work in; FindOpen: what opening a file answers; FindClose: closing a file
    leaves nothing behind.
  \<^item> Dispatch (actions.c): the table of the packet actions and its index; DispatchIndex: dispatching
    through the index is a search of the table. Filesys (filesys.c): the actions on the whole file
    system; FilesysInv, FlushAll: the distribution of memory, and flushing all open files.
  \<^item> Objects (object.c, attr.c, link.c, info.c): deleting, creating and renaming objects, changing
    modes and attributes, links, information on the volume. Forget: what the caches forget;
    ObjectActs: what deleting, changing attributes and changing the mode of a lock answer.
  \<^item> Creds (cred.c): the identities the clients are served with. Serve (nfs_handler.c, timer.c): the main
    loop and the timer packet; ServeInv: every packet is served as its client.
  \<^item> XdrMem (include/rpc/xdr.h): memory streams and the basic routines; Xdr (ch_nfs_prot_xdr.c,
    nfs_prot.h): the routine of every message. XdrSpec: what a routine promises, the locale
    \<open>xdr_type\<close>; XdrPrims, XdrPtr, XdrMsg, XdrDir: its interpretations, message by message;
    XdrProps: replies are decoded without an access out of bounds, what was decoded is freed, and
    what was encoded is decoded again.
  \<^item> Rpc (rpc/clnt_audp.c, rpc/clnt_ageneric.c): the asynchronous RPC client; RpcInv, RpcProps:
    the table of its slots, and that a reply goes to the call that it answers; RpcTime: a
    synchronous call ends, and what it sends.
  \<^item> RpcStubs (ch_nfs_prot_clnt.c): the stubs of the protocol's procedures; StubCalls, StubProps: every
    stub returns, its result is decoded from the answer to the call, and what the server encoded arrives.

  \<^bold>\<open>How the model corresponds to the code.\<close> A structure is a record with the source's field
  names; memory reached through pointers is a store from addresses to records, one per type,
  kept in the state; address 0 is NULL. A function of the source is a definition of the same
  name; a loop is a definition of its own, named after the function. Results are \<open>option\<close>:
  \<open>None\<close> stands for an access to memory that is not allocated, an access outside an array, or
  a loop that does not return, so a theorem that an operation is \<open>Some\<close> is a statement of
  memory safety and termination. The result of a memory allocation and the reading of the
  clock are arguments. Signed integers are \<open>int\<close> (their overflow is undefined in C), unsigned
  ones are words where the code can wrap; where a theorem comes near the bounds of a \<open>LONG\<close>, its
  arithmetic is written with the wrap-around (\<open>LONG_of\<close>).

  \<^bold>\<open>What the lemmas show.\<close> The interfaces are locales: \<open>pool\<close> (interpreted for the data buffers
  and for the write buffer headers), \<open>registry\<close> (interpreted for open files, locks and scans),
  \<open>value_heap\<close> (interpreted for the attribute and for the directory cache), \<open>xdr_type\<close>
  (interpreted for the types of the protocol). WInfo proves the
  in-place interval code equal to interval insertion on sorted lists. WBufInv and WBufPut prove
  that what a client sees, the server's content overlaid with the dirty bytes, is changed by a
  write exactly at the written bytes and by a flush not at all; RBuf and FileIO that reading
  returns these bytes. FtHash proves that the table owns its values: nothing is freed twice or
  forgotten and a pointer handed out stays valid until the next unlock. Names proves the in-place
  path code equal to a walk over path components; LocateWalk that, while the server does not
  change, both caches stay coherent with it and a lookup through them finds what the server has.

  \<^bold>\<open>Bounds and conditions.\<close> Every loop is a total function or a partial function with a theorem that it
  returns; no fuel is used. File positions are below \<open>2^31\<close>. The theorems state their conditions, and
  what they leave out is in most cases where the code goes wrong (see the findings of the manifest):

  \<^item> The theorems on the caches of open files, on closing, flushing and serving (FileIO, WBufInv,
    WBufPut, FindClose, FlushAll, ServeInv) hold for synchronous RPC, at most one write call outstanding
    (\<open>ng_NumWRPCs \<le> 1\<close>, no \<open>ASYNCRPC\<close>; part of \<open>wserver_ok\<close>). The asynchronous loop \<open>nfs_MAWrite\<close> is modelled, and
    the messages it sends are treated in XdrProps, but its retransmissions lack their data.
  \<^item> A cached write stays inside one block, or starts inside one and ends in the next while every
    dirty block has three free cells in its table of intervals: a flush on a full table in
    the middle of a write leaves the code with a released header.
  \<^item> A handle without a read buffer serves large reads and reads at position 0 only (\<open>rb_usable\<close>).
  \<^item> Paths are \<open>simple_rel\<close> in the theorems on single actions: not empty, no slash in front, no colon. The theorems
    on names (Names) and on sequences of lock requests hold for every path.
  \<^item> \<open>walk_inv\<close> and \<open>caches_ok\<close>: the caches know nothing that is not so in one tree, which the server shows
    (\<open>static_server\<close>) up to the call that changes it; of what comes after that call nothing is assumed.
  \<^item> The buffer given to \<open>nfsproc_read_buf\<close> has 8192 bytes, or, for a given answer, room for its data.
  \<^item> Fewer than 4194304 buffers, so that their memory fits a \<open>LONG\<close>.

  \<^bold>\<open>Not modelled.\<close> The sockets and the part of the RPC library that is not in the repository (message
  headers, authentication: the parameter record \<open>rpclib\<close>, with its documented behaviour \<open>lib_ok\<close>), the timer device, ARexx, logging, the
  start-up and configuration code.
\<close>

end
